(* ===== verification/Prelude.thy ===== *)
theory Prelude
  imports Main
begin

text \<open>
  Shared vocabulary of the development: the exceptions the program throws, the
  result type of an operation that may throw, the SQL statement shapes the
  services send to Postgres (as operations on a table held as a list of rows),
  and the list lemmas the components share.

  A table is the list of its committed rows.  \<open>update_where\<close> is
  \<open>UPDATE t SET f WHERE P\<close>, \<open>filter\<close> is \<open>SELECT\<close>/\<open>DELETE\<close>, appending is
  \<open>INSERT\<close>, and \<open>insert_on_conflict\<close> is \<open>INSERT ... ON CONFLICT DO NOTHING\<close>,
  which also reports whether a row was written (what \<open>RETURNING\<close> shows).
\<close>

named_theorems table_simps "statements on tables"
named_theorems inv_intros "operations preserve their component's invariant"

subsection \<open>Exceptions and results\<close>

text \<open>
  \<open>HttpException status code\<close> is a Nest exception with the machine-readable
  \<open>code\<close> of its body (\<open>None\<close> where the body has none); the human-readable
  \<open>detail\<close> texts are left out.  \<open>TokenError\<close> is the class of
  \<open>auth/token.service.ts\<close>; \<open>DbError\<close> carries the SQLSTATE; \<open>Error\<close> is any
  other thrown value.
\<close>

datatype exn =
    HttpException nat "string option"
  | TokenError string
  | DbError string
  | RangeError
  | Error string

type_synonym 'a res = "exn + 'a"

definition ascii_lower :: "char \<Rightarrow> char" where
  "ascii_lower c = (let n = of_char c :: nat in if 65 \<le> n \<and> n \<le> 90 then char_of (n + 32) else c)"

text \<open>The white space of \<open>trim\<close> and of \<open>\s\<close>, of the characters a header can carry.\<close>

definition js_space :: "char \<Rightarrow> bool" where
  "js_space c \<longleftrightarrow> (of_char c :: nat) \<in> set [9, 10, 11, 12, 13, 32, 160]"

definition js_trim :: "string \<Rightarrow> string" where
  "js_trim s = rev (dropWhile js_space (rev (dropWhile js_space s)))"

text \<open>\<open>String.prototype.length\<close>: UTF-16 code units of a text given by its UTF-8 bytes.\<close>

definition js_length :: "string \<Rightarrow> nat" where
  "js_length s = sum_list (map (\<lambda>c. let b = of_char c :: nat in if 128 \<le> b \<and> b < 192 then 0 else if 240 \<le> b then 2 else 1) s)"

lemma js_length_0: "js_length '''' = 0"
  by (simp add: js_length_def)

subsection \<open>Statements on tables\<close>

definition update_where :: "('r \<Rightarrow> bool) \<Rightarrow> ('r \<Rightarrow> 'r) \<Rightarrow> 'r list \<Rightarrow> 'r list" where
  "update_where P f t = map (\<lambda>r. if P r then f r else r) t"

definition select_first :: "('r \<Rightarrow> bool) \<Rightarrow> 'r list \<Rightarrow> 'r option" where
  "select_first P t = find P t"

definition insert_on_conflict :: "('r \<Rightarrow> 'k) \<Rightarrow> 'r \<Rightarrow> 'r list \<Rightarrow> bool \<times> 'r list" where
  "insert_on_conflict key r t =
     (if key r \<in> key ` set t then (False, t) else (True, t @ [r]))"

lemma update_where_Nil [simp]: "update_where P f [] = []"
  by (simp add: update_where_def)

lemma update_where_Cons [simp]:
  "update_where P f (r # t) = (if P r then f r else r) # update_where P f t"
  by (simp add: update_where_def)

lemma length_update_where [simp]: "length (update_where P f t) = length t"
  by (simp add: update_where_def)

lemma set_update_where: "set (update_where P f t) = (\<lambda>r. if P r then f r else r) ` set t"
  by (simp add: update_where_def)

lemma in_update_whereE:
  assumes "r \<in> set (update_where P f t)"
  obtains (hit) r0 where "r0 \<in> set t" "P r0" "r = f r0" | (miss) "r \<in> set t" "\<not> P r"
  using assms by (auto simp: set_update_where split: if_splits)

lemma map_update_where [table_simps]:
  "(\<And>r. P r \<Longrightarrow> g (f r) = g r) \<Longrightarrow> map g (update_where P f t) = map g t"
  by (simp add: update_where_def)

lemma update_where_none [table_simps]:
  "(\<And>r. r \<in> set t \<Longrightarrow> \<not> P r) \<Longrightarrow> update_where P f t = t"
  by (induction t) auto

lemma select_first_Some:
  "select_first P t = Some r \<Longrightarrow> r \<in> set t \<and> P r"
  by (auto simp: select_first_def find_Some_iff)

lemma select_first_None:
  "select_first P t = None \<longleftrightarrow> (\<forall>r \<in> set t. \<not> P r)"
  by (auto simp: select_first_def find_None_iff)

lemma select_first_Nil [simp]: "select_first P [] = None"
  by (simp add: select_first_def)

lemma select_first_Cons [simp]:
  "select_first P (r # t) = (if P r then Some r else select_first P t)"
  by (simp add: select_first_def)

lemma select_first_append:
  "select_first P (t @ u) =
     (case select_first P t of None \<Rightarrow> select_first P u | Some r \<Rightarrow> Some r)"
  by (induction t) auto

lemma distinct_key_unique:
  "distinct (map key t) \<Longrightarrow> r \<in> set t \<Longrightarrow> s \<in> set t \<Longrightarrow> key r = key s \<Longrightarrow> r = s"
  by (simp add: distinct_map inj_on_def)

lemma select_first_key:
  assumes "distinct (map key t)" "r \<in> set t"
  shows "select_first (\<lambda>x. key x = key r) t = Some r"
  using assms
proof (induction t)
  case (Cons a t)
  then show ?case by (auto simp: image_iff)
qed simp

lemma update_where_key:
  assumes "distinct (map key t)" "r \<in> set t" "key r = k" "P r" "f r = g r"
  shows "update_where (\<lambda>x. key x = k \<and> P x) f t = update_where (\<lambda>x. key x = k) g t"
proof -
  have "x = r" if "x \<in> set t" "key x = k" for x
    using distinct_key_unique [OF assms(1) that(1) assms(2)] that(2) assms(3) by simp
  then show ?thesis using assms(4,5) by (auto simp: update_where_def)
qed

lemma find_key:
  assumes "distinct (map key t)" "find (\<lambda>x. key x = k \<and> P x) t = Some r"
  shows "r \<in> set t" "key r = k" "P r"
  using assms(2) by (auto simp: find_Some_iff)

lemma filter_update_where_other:
  "(\<And>r. r \<in> set t \<Longrightarrow> P r \<Longrightarrow> Q r \<longleftrightarrow> Q (f r)) \<Longrightarrow>
   length (filter Q (update_where P f t)) = length (filter Q t)"
  by (induction t) auto

subsection \<open>Tables whose rows are inserted once per key\<close>

text \<open>
  The interface every \<open>ON CONFLICT DO NOTHING\<close> table offers its client: an
  insert that reports whether the key was new.  Consumers rely on nothing
  else for their idempotency.
\<close>

locale once_table =
  fixes key :: "'r \<Rightarrow> 'k"
    and ins :: "'r \<Rightarrow> 't \<Rightarrow> bool \<times> 't"
    and rows :: "'t \<Rightarrow> 'r list"
  assumes ins_new: "key r \<notin> key ` set (rows t) \<Longrightarrow>
      fst (ins r t) \<and> rows (snd (ins r t)) = rows t @ [r]"
    and ins_dup: "key r \<in> key ` set (rows t) \<Longrightarrow> ins r t = (False, t)"
begin

lemma ins_keys: "key ` set (rows (snd (ins r t))) = insert (key r) (key ` set (rows t))"
  using ins_new [of r t] ins_dup [of r t]
  by (cases "key r \<in> key ` set (rows t)") auto

lemma ins_distinct:
  "distinct (map key (rows t)) \<Longrightarrow> distinct (map key (rows (snd (ins r t))))"
  using ins_new [of r t] ins_dup [of r t]
  by (cases "key r \<in> key ` set (rows t)") auto

lemma ins_again: "ins r (snd (ins r t)) = (False, snd (ins r t))"
  by (rule ins_dup) (simp add: ins_keys)

lemma ins_mono: "set (rows t) \<subseteq> set (rows (snd (ins r t)))"
  using ins_new [of r t] ins_dup [of r t]
  by (cases "key r \<in> key ` set (rows t)") auto

lemma ins_result: "fst (ins r t) \<longleftrightarrow> key r \<notin> key ` set (rows t)"
  using ins_new [of r t] ins_dup [of r t] by auto

end

interpretation conflict: once_table key "insert_on_conflict key" "\<lambda>t. t" for key
  by unfold_locales (auto simp: insert_on_conflict_def)

subsection \<open>Queues claimed with SKIP LOCKED\<close>

text \<open>
  The contract of \<open>SELECT ... FOR UPDATE SKIP LOCKED\<close>: a claim returns rows of the
  table that are free and that no other transaction holds, and it returns
  something if there is such a row.
\<close>

locale skip_locked =
  fixes claim :: "'k set \<Rightarrow> 'r list \<Rightarrow> 'r list"
    and row_key :: "'r \<Rightarrow> 'k"
    and free :: "'r \<Rightarrow> bool"
  assumes claimed: "r \<in> set (claim locked t) \<Longrightarrow> r \<in> set t \<and> free r \<and> row_key r \<notin> locked"
    and claims_some: "r \<in> set t \<Longrightarrow> free r \<Longrightarrow> row_key r \<notin> locked \<Longrightarrow> claim locked t \<noteq> []"
begin

text \<open>Two transactions never hold the same row.\<close>

lemma claims_disjoint:
  "row_key ` set (claim (locked \<union> row_key ` set (claim locked t)) t) \<inter> row_key ` set (claim locked t) = {}"
  using claimed [of _ "locked \<union> row_key ` set (claim locked t)" t] by fastforce

text \<open>An empty claim means that every free row is held, not that there is none.\<close>

lemma empty_claim: "claim locked t = [] \<longleftrightarrow> (\<forall>r \<in> set t. free r \<longrightarrow> row_key r \<in> locked)"
proof
  show "claim locked t = [] \<Longrightarrow> \<forall>r \<in> set t. free r \<longrightarrow> row_key r \<in> locked" using claims_some by blast
  show "\<forall>r \<in> set t. free r \<longrightarrow> row_key r \<in> locked \<Longrightarrow> claim locked t = []"
    using claimed [of "hd (claim locked t)" locked t] hd_in_set by blast
qed

end

end
