(* ===== verification/JsNum.thy ===== *)
theory JsNum
  imports Complex_Main "HOL-Library.Log_Nat" Prelude
begin

text \<open>
  The parts of ECMAScript's numbers the program relies on.  A finite Number is
  the rational it denotes; \<open>fl\<close> rounds a rational to the nearest IEEE double
  (53 significant bits, ties to even, subnormals included), so that \<open>js_mul\<close>
  is the \<open>*\<close> of the code and \<open>js_number\<close> its \<open>Number(string)\<close>.  The sign of zero
  is not tracked.  Strings are their UTF-8 bytes.
\<close>

subsection \<open>Rounding to a double\<close>

definition round_half_even :: "rat \<Rightarrow> int" where
  "round_half_even x =
     (let f = \<lfloor>x\<rfloor>; r = x - of_int f in
      if r < 1 / 2 then f else if 1 / 2 < r then f + 1 else if even f then f else f + 1)"

definition pow2 :: "int \<Rightarrow> rat" where
  "pow2 k = (if 0 \<le> k then 2 ^ nat k else 1 / 2 ^ nat (- k))"

definition log2_floor :: "rat \<Rightarrow> int" where
  "log2_floor x =
     (let nd = quotient_of x; k = bitlen (fst nd) - bitlen (snd nd) in
      if pow2 k \<le> x then k else k - 1)"

definition fl :: "rat \<Rightarrow> rat" where
  "fl x =
     (if x = 0 then 0
      else let e = pow2 (max (log2_floor \<bar>x\<bar> - 52) (- 1074)) in of_int (round_half_even (x / e)) * e)"

definition js_mul :: "rat \<Rightarrow> rat \<Rightarrow> rat" where
  "js_mul a b = fl (a * b)"

datatype jsnum = NaN | Infinity bool | Num rat

definition to_jsnum :: "rat \<Rightarrow> jsnum" where
  "to_jsnum x = (if 2 ^ 1024 - 2 ^ 970 \<le> \<bar>x\<bar> then Infinity (x < 0) else Num (fl x))"

text \<open>\<open>Number.isInteger\<close>.\<close>

fun js_is_integer :: "jsnum \<Rightarrow> bool" where
  "js_is_integer (Num x) = (of_int \<lfloor>x\<rfloor> = x)"
| "js_is_integer _ = False"

subsection \<open>Number(string)\<close>

definition codes :: "string \<Rightarrow> nat list" where
  "codes s = map of_char s"

definition ws_len :: "nat list \<Rightarrow> nat" where
  "ws_len bs =
     (if take 1 bs \<in> set [[9], [10], [11], [12], [13], [32]] then 1
      else if take 2 bs = [194, 160] then 2
      else if take 3 bs \<in> set ([[239, 187, 191], [225, 154, 128], [226, 128, 168], [226, 128, 169],
                [226, 128, 175], [226, 129, 159], [227, 128, 128]] @ map (\<lambda>i. [226, 128, i]) [128..<139])
        then 3
      else 0)"

lemma ws_len_Nil [simp]: "ws_len [] = 0"
  by (simp add: ws_len_def)

function skip_ws :: "nat list \<Rightarrow> nat list" where
  "skip_ws bs = (if ws_len bs = 0 then bs else skip_ws (drop (ws_len bs) bs))"
  by pat_completeness auto
termination
proof (relation "measure length")
  fix bs
  assume "ws_len bs \<noteq> 0"
  then have "bs \<noteq> []" by auto
  with \<open>ws_len bs \<noteq> 0\<close> show "(drop (ws_len bs) bs, bs) \<in> measure length"
    by (cases bs) (simp_all add: less_Suc_eq_le)
qed simp

declare skip_ws.simps [simp del]

definition is_digit :: "nat \<Rightarrow> bool" where
  "is_digit c \<longleftrightarrow> 48 \<le> c \<and> c \<le> 57"

definition hex_digit :: "nat \<Rightarrow> nat option" where
  "hex_digit c =
     (if is_digit c then Some (c - 48)
      else if 65 \<le> c \<and> c \<le> 70 then Some (c - 55)
      else if 97 \<le> c \<and> c \<le> 102 then Some (c - 87) else None)"

definition digits_val :: "nat list \<Rightarrow> nat" where
  "digits_val ds = foldl (\<lambda>a d. 10 * a + (d - 48)) 0 ds"

definition parse_exponent :: "nat list \<Rightarrow> int \<times> nat list" where
  "parse_exponent bs =
     (if take 1 bs \<in> set [[101], [69]] then
        (let r = drop 1 bs;
             sg = (if take 1 r = [45] then - 1 else 1);
             r' = (if take 1 r \<in> set [[43], [45]] then drop 1 r else r);
             ds = takeWhile is_digit r'
         in if ds = [] then (0, bs) else (sg * int (digits_val ds), dropWhile is_digit r'))
      else (0, bs))"

definition pow10 :: "int \<Rightarrow> rat" where
  "pow10 k = (if 0 \<le> k then 10 ^ nat k else 1 / 10 ^ nat (- k))"

definition parse_decimal :: "nat list \<Rightarrow> (jsnum \<times> nat list) option" where
  "parse_decimal bs =
     (if take 8 bs = codes ''Infinity'' then Some (Infinity False, drop 8 bs)
      else
        (let ds = takeWhile is_digit bs; r = dropWhile is_digit bs;
             fs = (if take 1 r = [46] then takeWhile is_digit (drop 1 r) else []);
             r' = (if take 1 r = [46] then dropWhile is_digit (drop 1 r) else r)
         in if ds @ fs = [] then None
            else let er = parse_exponent r'
                 in Some (to_jsnum (of_nat (digits_val (ds @ fs)) * pow10 (fst er - int (length fs))), snd er)))"

fun negate :: "jsnum \<Rightarrow> jsnum" where
  "negate NaN = NaN"
| "negate (Infinity s) = Infinity (\<not> s)"
| "negate (Num x) = Num (- x)"

definition parse_radix :: "nat \<Rightarrow> nat list \<Rightarrow> (jsnum \<times> nat list) option" where
  "parse_radix b bs =
     (let ok = (\<lambda>c. case hex_digit c of None \<Rightarrow> False | Some d \<Rightarrow> d < b);
          ds = takeWhile ok bs
      in if ds = [] then None
         else Some (to_jsnum (of_nat (foldl (\<lambda>a d. b * a + the (hex_digit d)) 0 ds)), dropWhile ok bs))"

definition parse_numeric :: "nat list \<Rightarrow> (jsnum \<times> nat list) option" where
  "parse_numeric bs =
     (if take 2 bs \<in> set [[48, 120], [48, 88]] then parse_radix 16 (drop 2 bs)
      else if take 2 bs \<in> set [[48, 111], [48, 79]] then parse_radix 8 (drop 2 bs)
      else if take 2 bs \<in> set [[48, 98], [48, 66]] then parse_radix 2 (drop 2 bs)
      else if take 1 bs = [43] then parse_decimal (drop 1 bs)
      else if take 1 bs = [45] then map_option (\<lambda>(n, r). (negate n, r)) (parse_decimal (drop 1 bs))
      else parse_decimal bs)"

definition js_number :: "string \<Rightarrow> jsnum" where
  "js_number s =
     (let bs = skip_ws (codes s) in
      if bs = [] then Num 0
      else case parse_numeric bs of
             None \<Rightarrow> NaN
           | Some (n, r) \<Rightarrow> if skip_ws r = [] then n else NaN)"

subsection \<open>String(number) for natural numbers\<close>

fun show_nat :: "nat \<Rightarrow> string" where
  "show_nat n = (if n < 10 then [char_of (48 + n)] else show_nat (n div 10) @ [char_of (48 + n mod 10)])"

declare show_nat.simps [simp del]

subsection \<open>Integers up to 2^53 are exact\<close>

lemma pow2_pos [simp]: "0 < pow2 k"
  by (simp add: pow2_def)

lemma pow2_plus: "pow2 (a + b) = pow2 a * pow2 b"
proof -
  have *: "pow2 k = 2 powi k" for k
    by (simp add: pow2_def power_int_def power_one_over)
  show ?thesis unfolding * by (rule power_int_add) simp
qed

lemma log2_floor_bounds:
  assumes "0 < x"
  shows "pow2 (log2_floor x) \<le> x" "x < pow2 (log2_floor x + 1)"
proof -
  obtain n d where nd: "quotient_of x = (n, d)" by fastforce
  have d: "0 < d" using quotient_of_denom_pos [OF nd] .
  have x: "x = of_int n / of_int d" using quotient_of_div [OF nd] .
  have n: "0 < n" using assms x d by (simp add: zero_less_divide_iff)
  define a b where "a = bitlen n" and "b = bitlen d"
  have ab: "0 < a" "0 < b" using n d by (simp_all add: a_def b_def bitlen_eq_zero_iff less_le bitlen_nonneg)
  have nb: "pow2 (a - 1) \<le> of_int n" "of_int n < pow2 a"
    using bitlen_bounds [OF n] ab by (simp_all add: a_def pow2_def)
  have db: "pow2 (b - 1) \<le> of_int d" "of_int d < pow2 b"
    using bitlen_bounds [OF d] ab by (simp_all add: b_def pow2_def)
  have one: "pow2 1 = 2" by (simp add: pow2_def)
  have hi: "x < pow2 (a - b + 1)"
  proof -
    have "of_int n < pow2 (a - b + 1) * pow2 (b - 1)"
      using nb(2) by (simp flip: pow2_plus)
    also have "\<dots> \<le> pow2 (a - b + 1) * of_int d" using db(1) by simp
    finally show ?thesis using d x by (simp add: divide_less_eq)
  qed
  have lo: "pow2 (a - b - 1) \<le> x"
  proof -
    have "pow2 (a - b - 1) * of_int d \<le> pow2 (a - b - 1) * pow2 b"
      using db(2) by simp
    also have "\<dots> = pow2 (a - 1)" by (simp flip: pow2_plus)
    also have "\<dots> \<le> of_int n" using nb(1) .
    finally show ?thesis using d x by (simp add: le_divide_eq)
  qed
  show "pow2 (log2_floor x) \<le> x" "x < pow2 (log2_floor x + 1)"
    using hi lo by (auto simp: log2_floor_def nd Let_def simp flip: a_def b_def)
qed

lemma pow2_mono: "a \<le> b \<Longrightarrow> pow2 a \<le> pow2 b"
proof -
  assume "a \<le> b"
  then have "pow2 b = pow2 a * pow2 (b - a)" by (simp flip: pow2_plus)
  moreover have "1 \<le> pow2 (b - a)" using \<open>a \<le> b\<close> by (simp add: pow2_def)
  ultimately show ?thesis by simp
qed

lemma log2_floor_less: "0 < x \<Longrightarrow> x < pow2 k \<Longrightarrow> log2_floor x < k"
  using log2_floor_bounds(1) [of x] pow2_mono [of k "log2_floor x"] by linarith

lemma round_half_even_int [simp]: "round_half_even (of_int k) = k"
  by (simp add: round_half_even_def)

lemma of_int_times_pow2: "0 \<le> k \<Longrightarrow> \<exists>m. of_int n * pow2 k = (of_int m :: rat)"
  by (rule exI [of _ "n * 2 ^ nat k"]) (simp add: pow2_def)

text \<open>Every integer of magnitude at most \<open>2^53\<close> is a double: rounding keeps it.\<close>

lemma fl_int:
  assumes "\<bar>n\<bar> \<le> 2 ^ 53"
  shows "fl (of_int n) = of_int n"
proof (cases "n = 0")
  case False
  define k where "k = max (log2_floor \<bar>of_int n\<bar> - 52) (- 1074)"
  have pos: "0 < \<bar>of_int n :: rat\<bar>" using False by simp
  have "\<exists>m. of_int n / pow2 k = (of_int m :: rat)"
  proof (cases "k \<le> 0")
    case True
    have "of_int n / pow2 k = of_int n * pow2 (- k)"
      using pow2_plus [of k "- k"] by (simp add: field_simps pow2_def)
    with of_int_times_pow2 [of "- k" n] True show ?thesis by simp
  next
    case False
    then have "53 \<le> log2_floor \<bar>of_int n :: rat\<bar>" by (simp add: k_def)
    then have "pow2 53 \<le> \<bar>of_int n\<bar>"
      using pow2_mono [of 53] log2_floor_bounds(1) [OF pos] by (meson order_trans)
    then have ge: "2 ^ 53 \<le> \<bar>n\<bar>" by (simp add: pow2_def flip: of_int_abs)
    then have eq: "\<bar>n\<bar> = 2 ^ 53" using assms by simp
    have "log2_floor \<bar>of_int n :: rat\<bar> < 54"
      using pos eq by (intro log2_floor_less) (auto simp: pow2_def simp flip: of_int_abs)
    with False have "k = 1" by (simp add: k_def)
    moreover have "even n" using eq by (metis dvd_abs_iff even_numeral even_power zero_less_numeral)
    ultimately show ?thesis by (auto simp: pow2_def elim!: evenE)
  qed
  then obtain m where m: "of_int n / pow2 k = (of_int m :: rat)" by blast
  have "of_int m * pow2 k = (of_int n :: rat)" using m pow2_pos [of k] by (simp add: field_simps)
  with False m show ?thesis by (simp add: fl_def k_def [symmetric] Let_def)
qed (simp add: fl_def)

subsection \<open>Printing a natural number and reading it back\<close>

lemma codes_append [simp]: "codes (s @ t) = codes s @ codes t"
  by (simp add: codes_def)

lemma digits_val_snoc: "digits_val (ds @ [d]) = 10 * digits_val ds + (d - 48)"
  by (simp add: digits_val_def)

lemma codes_digit: "d < 10 \<Longrightarrow> codes [char_of (48 + d)] = [48 + d]" for d :: nat
  by (simp add: codes_def)

lemma show_nat_digits: "\<forall>c \<in> set (codes (show_nat n)). is_digit c"
proof (induction n rule: show_nat.induct)
  case (1 n)
  then show ?case
    by (subst show_nat.simps) (auto simp: codes_digit is_digit_def)
qed

lemma digits_val_show_nat: "digits_val (codes (show_nat n)) = n"
proof (induction n rule: show_nat.induct)
  case (1 n)
  show ?case
  proof (cases "n < 10")
    case True
    then show ?thesis by (subst show_nat.simps) (simp add: codes_digit digits_val_def)
  next
    case False
    with 1 show ?thesis
      by (subst show_nat.simps) (simp add: codes_digit digits_val_snoc)
  qed
qed

lemma show_nat_nonempty [simp]: "show_nat n \<noteq> []"
  by (subst show_nat.simps) simp

lemma show_nat_inj: "show_nat m = show_nat n \<longleftrightarrow> m = n"
  by (metis digits_val_show_nat)

lemma ws_len_digit: "is_digit c \<Longrightarrow> ws_len (c # bs) = 0"
  by (auto simp: ws_len_def is_digit_def)

lemma take_digits_no_prefix:
  assumes "\<forall>c \<in> set ds. is_digit c" "\<not> is_digit x" "i < length p" "p ! i = x"
  shows "take (length p) ds \<noteq> p"
proof
  assume eq: "take (length p) ds = p"
  then have "length p \<le> length ds" by (metis length_take min.absorb_iff2 min.commute)
  with assms(3) eq have "ds ! i = p ! i" by (metis nth_take)
  with assms \<open>length p \<le> length ds\<close> show False by (metis nth_mem order_less_le_trans)
qed

lemma js_number_digits:
  assumes ds: "\<forall>c \<in> set (codes s). is_digit c" "s \<noteq> []" and le: "digits_val (codes s) \<le> 2 ^ 53"
  shows "js_number s = Num (of_nat (digits_val (codes s)))"
proof -
  let ?b = "codes s"
  obtain c r where b: "?b = c # r" and c: "is_digit c"
    using ds by (cases ?b) (auto simp: codes_def)
  have ne: "?b \<noteq> []" by (simp add: b)
  have skip: "skip_ws ?b = ?b"
    by (subst skip_ws.simps) (simp add: b ws_len_digit c)
  have no2: "take 2 ?b \<noteq> [48, x]" if "\<not> is_digit x" for x
    using take_digits_no_prefix [OF ds(1) that, of 1 "[48, x]"] by (simp add: numeral_2_eq_2)
  have no1: "take 1 ?b \<noteq> [x]" if "\<not> is_digit x" for x
    using take_digits_no_prefix [OF ds(1) that, of 0 "[x]"] by simp
  have inf: "length (codes ''Infinity'') = 8" "codes ''Infinity'' ! 0 = 73"
    by (simp_all add: codes_def)
  have no8: "take 8 ?b \<noteq> codes ''Infinity''"
    using take_digits_no_prefix [OF ds(1), of 73 0 "codes ''Infinity''"] inf
    by (simp add: is_digit_def)
  have tw: "takeWhile is_digit ?b = ?b" and dw: "dropWhile is_digit ?b = []"
    using ds(1) by (auto simp: takeWhile_eq_all_conv dropWhile_eq_Nil_conv)
  have pe: "parse_exponent [] = (0, [])" by (simp add: parse_exponent_def)
  have big: "digits_val ?b < 2 ^ 1024 - 2 ^ 970"
    using le by (rule order_le_less_trans) simp
  have "to_jsnum (of_nat (digits_val ?b)) = Num (of_nat (digits_val ?b))"
  proof -
    have "(of_nat (digits_val ?b) :: rat) < of_nat (2 ^ 1024 - 2 ^ 970)"
      using big by (rule of_nat_less_iff [THEN iffD2])
    moreover have "fl (of_nat (digits_val ?b)) = of_nat (digits_val ?b)"
      using fl_int [of "int (digits_val ?b)"] le by simp
    ultimately show ?thesis by (simp add: to_jsnum_def)
  qed
  then have dec: "parse_decimal ?b = Some (Num (of_nat (digits_val ?b)), [])"
    using no8 ne by (simp add: parse_decimal_def tw dw pe Let_def pow10_def)
  have "parse_numeric ?b = parse_decimal ?b"
    using no2 [of 120] no2 [of 88] no2 [of 111] no2 [of 79] no2 [of 98] no2 [of 66] no1 [of 43] no1 [of 45]
    by (simp add: parse_numeric_def is_digit_def)
  with dec show ?thesis
    using ne by (simp add: js_number_def skip) (simp add: skip_ws.simps)
qed

lemma js_number_show_nat: "n \<le> 2 ^ 53 \<Longrightarrow> js_number (show_nat n) = Num (of_nat n)"
  using js_number_digits [of "show_nat n"] show_nat_digits digits_val_show_nat by simp

end
