(* ===== verification/Base64.thy ===== *)
theory Base64
  imports JsNum
begin

text \<open>
  Node's \<open>Buffer\<close> base64 codecs with their leniency: decoding accepts both
  alphabets, skips every other character (padding included) and drops an
  incomplete last sextet.  Used by the cursors, the password hashes and the
  key material.  Also \<open>String.prototype.split\<close> and \<open>join\<close> on one character.
\<close>

subsection \<open>The codecs\<close>

definition b64_char :: "nat \<Rightarrow> char" where
  "b64_char i =
     (if i < 26 then char_of (i + 65)
      else if i < 52 then char_of (i + 71)
      else if i < 62 then char_of (i - 4)
      else if i = 62 then CHR ''-'' else CHR ''_'')"

definition b64_val :: "char \<Rightarrow> nat option" where
  "b64_val ch =
     (let c = of_char ch :: nat in
      if 65 \<le> c \<and> c \<le> 90 then Some (c - 65)
      else if 97 \<le> c \<and> c \<le> 122 then Some (c - 71)
      else if 48 \<le> c \<and> c \<le> 57 then Some (c + 4)
      else if c = 43 \<or> c = 45 then Some 62
      else if c = 47 \<or> c = 95 then Some 63 else None)"

fun sextets :: "nat list \<Rightarrow> nat list" where
  "sextets [] = []"
| "sextets [a] = [a div 4, a mod 4 * 16]"
| "sextets [a, b] = [a div 4, a mod 4 * 16 + b div 16, b mod 16 * 4]"
| "sextets (a # b # c # r) =
     [a div 4, a mod 4 * 16 + b div 16, b mod 16 * 4 + c div 64, c mod 64] @ sextets r"

fun octets :: "nat list \<Rightarrow> nat list" where
  "octets (p # q # r # s # t) =
     [p * 4 + q div 16, q mod 16 * 16 + r div 4, r mod 4 * 64 + s] @ octets t"
| "octets [p, q, r] = [p * 4 + q div 16, q mod 16 * 16 + r div 4]"
| "octets [p, q] = [p * 4 + q div 16]"
| "octets _ = []"

definition to_base64url :: "string \<Rightarrow> string" where
  "to_base64url s = map b64_char (sextets (codes s))"

definition from_base64 :: "string \<Rightarrow> string" where
  "from_base64 s = map char_of (octets (List.map_filter b64_val s))"

lemma b64_val_char [simp]: "i < 64 \<Longrightarrow> b64_val (b64_char i) = Some i"
  by (auto simp: b64_val_def b64_char_def Let_def of_char_of)

lemma sextets_bound: "\<forall>b \<in> set bs. b < 256 \<Longrightarrow> \<forall>x \<in> set (sextets bs). x < 64"
  by (induction bs rule: sextets.induct) auto

lemma octets_sextets: "\<forall>b \<in> set bs. b < 256 \<Longrightarrow> octets (sextets bs) = bs"
  by (induction bs rule: sextets.induct) auto

lemma map_filter_b64 [simp]:
  "\<forall>x \<in> set xs. x < 64 \<Longrightarrow> List.map_filter b64_val (map b64_char xs) = xs"
  by (induction xs) (simp_all add: List.map_filter_simps)

lemma of_char_less: "(of_char c :: nat) < 256"
  using mod_less_divisor [of 256 "of_char c :: nat"] by simp

lemma from_to_base64 [simp]: "from_base64 (to_base64url s) = s"
proof -
  have "\<forall>b \<in> set (codes s). b < 256"
    by (auto simp: codes_def of_char_less)
  then show ?thesis
    by (simp add: from_base64_def to_base64url_def sextets_bound octets_sextets)
      (simp add: codes_def)
qed

lemma sextets_Nil_iff [simp]: "sextets bs = [] \<longleftrightarrow> bs = []"
  by (cases bs rule: sextets.cases) auto


text \<open>The standard alphabet with padding, \<open>toString('base64')\<close>.\<close>

definition b64std_char :: "nat \<Rightarrow> char" where
  "b64std_char i = (if i = 62 then CHR ''+'' else if i = 63 then CHR ''/'' else b64_char i)"

definition to_base64 :: "nat list \<Rightarrow> string" where
  "to_base64 bs =
     (let s = map b64std_char (sextets bs) in s @ replicate ((4 - length s mod 4) mod 4) CHR ''='')"

definition base64_bytes :: "string \<Rightarrow> nat list" where
  "base64_bytes s = octets (List.map_filter b64_val s)"

lemma b64_val_std_char [simp]: "i < 64 \<Longrightarrow> b64_val (b64std_char i) = Some i"
  by (auto simp: b64std_char_def) (auto simp: b64_val_def)

lemma map_filter_append: "List.map_filter f (xs @ ys) = List.map_filter f xs @ List.map_filter f ys"
  by (simp add: List.map_filter_def)

lemma map_filter_pad: "List.map_filter b64_val (replicate n CHR ''='') = []"
  by (induction n) (auto simp: List.map_filter_simps b64_val_def)

lemma map_filter_std:
  "\<forall>x \<in> set xs. x < 64 \<Longrightarrow> List.map_filter b64_val (map b64std_char xs) = xs"
  by (induction xs) (simp_all add: List.map_filter_simps)

lemma base64_bytes_to_base64: "\<forall>b \<in> set bs. b < 256 \<Longrightarrow> base64_bytes (to_base64 bs) = bs"
  by (simp add: base64_bytes_def to_base64_def Let_def map_filter_append map_filter_pad
      map_filter_std sextets_bound octets_sextets)

lemma b64_val_dollar: "i < 64 \<Longrightarrow> b64std_char i \<noteq> CHR ''$''"
  using b64_val_std_char [of i] by (auto simp: b64_val_def)

lemma to_base64_no_dollar: "\<forall>b \<in> set bs. b < 256 \<Longrightarrow> CHR ''$'' \<notin> set (to_base64 bs)"
  using sextets_bound [of bs] b64_val_dollar by (fastforce simp: to_base64_def Let_def)

lemma to_base64_nonempty: "bs \<noteq> [] \<Longrightarrow> to_base64 bs \<noteq> []"
  by (simp add: to_base64_def Let_def)

subsection \<open>split and join\<close>

fun split_on :: "char \<Rightarrow> string \<Rightarrow> string list" where
  "split_on c [] = [[]]"
| "split_on c (x # s) =
     (if x = c then [] # split_on c s
      else case split_on c s of [] \<Rightarrow> [[x]] | p # ps \<Rightarrow> (x # p) # ps)"

fun join_with :: "string \<Rightarrow> string list \<Rightarrow> string" where
  "join_with d [] = []"
| "join_with d [s] = s"
| "join_with d (s # ss) = s @ d @ join_with d ss"

lemma split_on_nonempty [simp]: "split_on c s \<noteq> []"
  by (cases s) (auto split: list.splits)

lemma split_on_none [simp]: "c \<notin> set s \<Longrightarrow> split_on c s = [s]"
  by (induction s) auto

lemma split_on_append: "c \<notin> set s \<Longrightarrow> split_on c (s @ c # t) = s # split_on c t"
  by (induction s) auto

lemma join_split: "join_with [c] (split_on c s) = s"
proof (induction s)
  case (Cons x s)
  then show ?case
    by (cases "split_on c s"; cases "tl (split_on c s)") (auto split: list.splits)
qed simp

end
