(* ===== verification/Tokens.thy ===== *)
theory Tokens
  imports Base64
begin

text \<open>
  Access tokens and passwords: \<open>src/auth/auth.types.ts\<close>,
  \<open>src/auth/token.service.ts\<close> and \<open>src/auth/password.ts\<close>.

  The \<open>jsonwebtoken\<close> package is not part of the repository: it is the record
  \<open>jwt_lib\<close> of its three calls, an argument of every definition that uses it.
  \<open>node:crypto\<close>'s key parsing and \<open>scrypt\<close> are arguments as well, as is every
  random value.  Clocks are rationals in seconds.
\<close>

subsection \<open>JSON values\<close>

datatype json = JNull | JBool bool | JNum rat | JStr string | JArr "json list" | JObj "(string \<times> json) list"

text \<open>Property access: \<open>None\<close> is \<open>undefined\<close>; a later duplicate key wins, as in \<open>JSON.parse\<close>.\<close>

fun field :: "json \<Rightarrow> string \<Rightarrow> json option" where
  "field (JObj kvs) k = map_of (rev kvs) k"
| "field _ k = None"

subsection \<open>Roles and claims\<close>

datatype role = customer | seller | admin

definition ROLES :: "(string \<times> role) list" where
  "ROLES = [(''customer'', customer), (''seller'', seller), (''admin'', admin)]"

fun role_name :: "role \<Rightarrow> string" where
  "role_name customer = ''customer''"
| "role_name seller = ''seller''"
| "role_name admin = ''admin''"

record auth_user =
  au_id :: string
  au_role :: role
  au_jti :: string
  au_exp :: rat
  au_fid :: string

record token_pair =
  access_token :: string
  refresh_token :: string
  token_type :: string
  expires_in :: int

record verified_claims =
  vc_sub :: string
  vc_role :: role
  vc_jti :: string
  vc_exp :: rat
  vc_fid :: string

subsection \<open>The token service\<close>

definition ISSUER :: string where "ISSUER = ''marketplace-api''"
definition AUDIENCE :: string where "AUDIENCE = ''marketplace-clients''"
definition ALLOWED_ALGORITHMS :: "string list" where "ALLOWED_ALGORITHMS = [''ES256'']"

text \<open>
  \<open>jwt.decode(token, {complete: true})\<close>, read up to \<open>decoded?.header.kid\<close>: no token
  or no key id, a key id, or a throw, when the part between the dots is not JSON.
\<close>

datatype decoded = DecodeThrows | DecodedKid "string option"

datatype jwt_result = VString string | VPayload json | VExpired | VInvalid

record sign_options =
  so_algorithm :: string
  so_keyid :: string
  so_subject :: string
  so_issuer :: string
  so_audience :: string
  so_expiresIn :: int
  so_jwtid :: string

record ('priv, 'pub) jwt_lib =
  jl_sign :: "rat \<Rightarrow> json \<Rightarrow> 'priv \<Rightarrow> sign_options \<Rightarrow> string"
  jl_decode_kid :: "string \<Rightarrow> decoded"
  jl_decode_exp :: "string \<Rightarrow> rat"
  jl_verify :: "rat \<Rightarrow> string \<Rightarrow> 'pub \<Rightarrow> string list \<Rightarrow> string \<Rightarrow> string \<Rightarrow> jwt_result"

record ('priv, 'pub) token_service =
  ts_privateKey :: 'priv
  ts_kid :: string
  ts_verifyKeys :: "string \<rightharpoonup> 'pub"
  ts_accessTtlSec :: int

definition sign ::
    "('priv, 'pub) jwt_lib \<Rightarrow> ('priv, 'pub) token_service \<Rightarrow> rat \<Rightarrow> string \<Rightarrow>
     string \<Rightarrow> role \<Rightarrow> string \<Rightarrow> string \<times> string \<times> rat" where
  "sign lib ts now jti sub rl fid =
     (let token = jl_sign lib now (JObj [(''role'', JStr (role_name rl)), (''fid'', JStr fid)]) (ts_privateKey ts)
            \<lparr>so_algorithm = ''ES256'', so_keyid = ts_kid ts, so_subject = sub, so_issuer = ISSUER,
             so_audience = AUDIENCE, so_expiresIn = ts_accessTtlSec ts, so_jwtid = jti\<rparr>
      in (token, jti, jl_decode_exp lib token))"

text \<open>The checks on the payload: every claim present with its type, a known role.\<close>

definition read_claims :: "json \<Rightarrow> verified_claims res" where
  "read_claims payload =
     (case (field payload ''sub'', field payload ''jti'', field payload ''exp'',
            field payload ''fid'', field payload ''role'') of
        (Some (JStr sub), Some (JStr jti), Some (JNum e), Some (JStr fid), Some (JStr r)) \<Rightarrow>
          (case map_of ROLES r of
             None \<Rightarrow> Inl (TokenError ''invalid-token'')
           | Some rl \<Rightarrow> Inr \<lparr>vc_sub = sub, vc_role = rl, vc_jti = jti, vc_exp = e, vc_fid = fid\<rparr>)
      | _ \<Rightarrow> Inl (TokenError ''invalid-token''))"

definition verify ::
    "('priv, 'pub) jwt_lib \<Rightarrow> ('priv, 'pub) token_service \<Rightarrow> rat \<Rightarrow> string \<Rightarrow> verified_claims res" where
  "verify lib ts now token =
     (case jl_decode_kid lib token of
        DecodeThrows \<Rightarrow> Inl (Error ''SyntaxError'')
      | DecodedKid decoded \<Rightarrow>
          (let key = (case decoded of
                        None \<Rightarrow> None
                      | Some kid \<Rightarrow> if kid = '''' then None else ts_verifyKeys ts kid)
           in case key of
                None \<Rightarrow> Inl (TokenError ''invalid-token'')
              | Some k \<Rightarrow>
                  (case jl_verify lib now token k ALLOWED_ALGORITHMS ISSUER AUDIENCE of
                     VString _ \<Rightarrow> Inl (TokenError ''invalid-token'')
                   | VExpired \<Rightarrow> Inl (TokenError ''token-expired'')
                   | VInvalid \<Rightarrow> Inl (TokenError ''invalid-token'')
                   | VPayload payload \<Rightarrow> read_claims payload)))"

text \<open>
  The constructor: the current and, while keys overlap, the previous public
  key, then a self-check that the pair matches.  \<open>fromB64\<close> decodes the PEM.
\<close>

record token_config =
  cf_JWT_KID :: string
  cf_ACCESS_TOKEN_TTL_SEC :: int
  cf_JWT_PRIVATE_KEY :: string
  cf_JWT_PUBLIC_KEY :: string
  cf_JWT_PREVIOUS_KID :: "string option"
  cf_JWT_PREVIOUS_PUBLIC_KEY :: "string option"

definition fromB64 :: "string \<Rightarrow> string" where
  "fromB64 b64 = map char_of (base64_bytes b64)"

definition present :: "string option \<Rightarrow> bool" where
  "present v \<longleftrightarrow> v \<noteq> None \<and> v \<noteq> Some ''''"

definition token_service_init ::
    "('priv, 'pub) jwt_lib \<Rightarrow> (string \<Rightarrow> 'priv) \<Rightarrow> (string \<Rightarrow> 'pub) \<Rightarrow> rat \<Rightarrow> string \<Rightarrow> string \<Rightarrow>
     token_config \<Rightarrow> ('priv, 'pub) token_service res" where
  "token_service_init lib createPrivateKey createPublicKey now jti fid cf =
     (let keys = [cf_JWT_KID cf \<mapsto> createPublicKey (fromB64 (cf_JWT_PUBLIC_KEY cf))];
          keys' = (if present (cf_JWT_PREVIOUS_KID cf) \<and> present (cf_JWT_PREVIOUS_PUBLIC_KEY cf)
                   then keys(the (cf_JWT_PREVIOUS_KID cf) \<mapsto>
                          createPublicKey (fromB64 (the (cf_JWT_PREVIOUS_PUBLIC_KEY cf))))
                   else keys);
          ts = \<lparr>ts_privateKey = createPrivateKey (fromB64 (cf_JWT_PRIVATE_KEY cf)), ts_kid = cf_JWT_KID cf,
                ts_verifyKeys = keys', ts_accessTtlSec = cf_ACCESS_TOKEN_TTL_SEC cf\<rparr>
      in case verify lib ts now (fst (sign lib ts now jti ''0'' customer fid)) of
           Inl _ \<Rightarrow> Inl (Error ''JWT_PUBLIC_KEY'')
         | Inr _ \<Rightarrow> Inr ts)"

subsection \<open>Passwords\<close>

definition KEYLEN :: nat where "KEYLEN = 64"

definition hashPassword :: "(string \<Rightarrow> nat list \<Rightarrow> nat \<Rightarrow> nat list) \<Rightarrow> nat list \<Rightarrow> string \<Rightarrow> string" where
  "hashPassword scrypt salt password =
     ''scrypt$'' @ to_base64 salt @ ''$'' @ to_base64 (scrypt password salt KEYLEN)"

definition verifyPassword ::
    "(string \<Rightarrow> nat list \<Rightarrow> nat \<Rightarrow> nat list) \<Rightarrow> string \<Rightarrow> string \<Rightarrow> string option \<Rightarrow> bool" where
  "verifyPassword scrypt dummy password stored =
     (let hash = (case stored of None \<Rightarrow> dummy | Some s \<Rightarrow> s);
          parts = split_on CHR ''$'' hash
      in case parts of
           scheme # saltB64 # keyB64 # _ \<Rightarrow>
             if scheme \<noteq> ''scrypt'' \<or> saltB64 = '''' \<or> keyB64 = '''' then False
             else (let expected = base64_bytes keyB64;
                       actual = scrypt password (base64_bytes saltB64) (length expected)
                   in stored \<noteq> None \<and> actual = expected)
         | _ \<Rightarrow> False)"

subsection \<open>Properties of tokens and passwords\<close>

lemma role_name_ROLES [simp]: "map_of ROLES (role_name r) = Some r"
  by (cases r) (simp_all add: ROLES_def)

lemma role_name_inj [simp]: "role_name a = role_name b \<longleftrightarrow> a = b"
  by (cases a; cases b) simp_all

lemma map_of_ROLES_iff: "map_of ROLES s = Some r \<longleftrightarrow> s = role_name r"
  by (cases r) (auto simp: ROLES_def)

text \<open>
  \<open>jwt.verify\<close> as documented: it returns a payload only before the expiry it
  carries (the clock is floored to whole seconds).
\<close>

definition jwt_checks_expiry :: "('priv, 'pub) jwt_lib \<Rightarrow> bool" where
  "jwt_checks_expiry lib \<longleftrightarrow>
     (\<forall>now token key algs iss aud p e.
        jl_verify lib now token key algs iss aud = VPayload p \<longrightarrow> field p ''exp'' = Some (JNum e) \<longrightarrow>
        of_int \<lfloor>now\<rfloor> < e)"

lemma read_claims_Inr:
  "read_claims p = Inr c \<longleftrightarrow>
     field p ''sub'' = Some (JStr (vc_sub c)) \<and> field p ''jti'' = Some (JStr (vc_jti c)) \<and>
     field p ''exp'' = Some (JNum (vc_exp c)) \<and> field p ''fid'' = Some (JStr (vc_fid c)) \<and>
     field p ''role'' = Some (JStr (role_name (vc_role c)))"
  by (cases c)
    (auto simp: read_claims_def map_of_ROLES_iff split: option.splits json.splits)

lemma verify_Inr:
  "verify lib ts now token = Inr c \<longleftrightarrow>
     (\<exists>kid k p. jl_decode_kid lib token = DecodedKid (Some kid) \<and> kid \<noteq> '''' \<and> ts_verifyKeys ts kid = Some k \<and>
        jl_verify lib now token k ALLOWED_ALGORITHMS ISSUER AUDIENCE = VPayload p \<and> read_claims p = Inr c)"
  by (auto simp: verify_def Let_def split: decoded.splits option.splits jwt_result.splits if_splits)

lemma verify_Inl: "verify lib ts now token = Inl e \<Longrightarrow> jl_decode_kid lib token \<noteq> DecodeThrows \<Longrightarrow>
    e = TokenError ''token-expired'' \<or> e = TokenError ''invalid-token''"
  by (auto simp: verify_def read_claims_def Let_def
      split: decoded.splits option.splits jwt_result.splits if_splits json.splits)

text \<open>A token whose payload does not decode is not answered as an invalid token.\<close>

lemma verify_throws: "jl_decode_kid lib token = DecodeThrows \<Longrightarrow> verify lib ts now token = Inl (Error ''SyntaxError'')"
  by (simp add: verify_def)

lemma verify_not_expired:
  "jwt_checks_expiry lib \<Longrightarrow> verify lib ts now token = Inr c \<Longrightarrow> of_int \<lfloor>now\<rfloor> < vc_exp c"
  by (auto simp: verify_Inr read_claims_Inr jwt_checks_expiry_def)

lemma verifyPassword_None [simp]: "\<not> verifyPassword scrypt dummy pw None"
  by (simp add: verifyPassword_def Let_def split: list.splits)

lemma split_dollar3:
  assumes "CHR ''$'' \<notin> set a" "CHR ''$'' \<notin> set b" "CHR ''$'' \<notin> set c"
  shows "split_on CHR ''$'' (a @ ''$'' @ b @ ''$'' @ c) = [a, b, c]"
  using assms split_on_append [of "CHR ''$''" a "b @ ''$'' @ c"] split_on_append [of "CHR ''$''" b c]
  by simp

lemma verify_hashPassword:
  assumes len: "\<And>p s n. length (scrypt p s n) = n" and byte: "\<And>p s n. \<forall>b \<in> set (scrypt p s n). b < 256"
    and salt: "salt \<noteq> []" "\<forall>b \<in> set salt. b < 256"
  shows "verifyPassword scrypt dummy q (Some (hashPassword scrypt salt p)) \<longleftrightarrow>
    scrypt q salt KEYLEN = scrypt p salt KEYLEN"
proof -
  have key: "scrypt p salt KEYLEN \<noteq> []"
    using len [of p salt KEYLEN] by (auto simp: KEYLEN_def)
  have "split_on CHR ''$'' (hashPassword scrypt salt p) =
      [''scrypt'', to_base64 salt, to_base64 (scrypt p salt KEYLEN)]"
    using split_dollar3 [of "''scrypt''" "to_base64 salt" "to_base64 (scrypt p salt KEYLEN)"]
    by (simp add: hashPassword_def to_base64_no_dollar salt byte)
  then show ?thesis
    by (simp add: verifyPassword_def Let_def to_base64_nonempty key salt base64_bytes_to_base64 byte len)
qed

end
