(* ===== verification/AuthService.thy ===== *)
theory AuthService
  imports Tokens
begin

text \<open>
  \<open>src/auth/auth.service.ts\<close>: login, refresh-token rotation with reuse
  detection, logout and the check of an access token, over the tables
  \<open>users\<close>, \<open>refresh_tokens\<close> and \<open>access_denylist\<close>
  (\<open>src/migrations/1789700000000-Auth.ts\<close>).

  Each operation that opens a transaction is one function from the committed
  tables to the committed tables: the transaction run alone.  The theory
  \<open>RefreshRace\<close> has the same transactions statement by statement, in any interleaving, and
  shows that run alone they do what these functions say (\<open>alone_refresh\<close>,
  \<open>alone_logout\<close>); what holds of transactions that overlap is proved there.  \<open>dbnow\<close> is Postgres'
  \<open>now()\<close>, \<open>appnow\<close> the clock of the Node process; fresh random values (the raw
  refresh token, the \<open>jti\<close>, the family id) are arguments, and the HMAC with the
  pepper is the argument \<open>hmac\<close>.
\<close>

subsection \<open>Tables\<close>

record user_row =
  u_id :: nat
  u_email :: string
  u_role :: role
  u_password_hash :: "string option"

record refresh_row =
  rt_id :: nat
  token_hash :: string
  family_id :: string
  rt_user_id :: nat
  used_at :: "rat option"
  revoked_at :: "rat option"
  rt_expires_at :: rat

record deny_row =
  dn_jti :: string
  dn_expires_at :: rat

record auth_db =
  users :: "user_row list"
  refresh_tokens :: "refresh_row list"
  next_token_id :: nat
  access_denylist :: "deny_row list"

record ('priv, 'pub) auth_env =
  ae_lib :: "('priv, 'pub) jwt_lib"
  ae_tokens :: "('priv, 'pub) token_service"
  ae_scrypt :: "string \<Rightarrow> nat list \<Rightarrow> nat \<Rightarrow> nat list"
  ae_dummy :: string
  ae_hmac :: "string \<Rightarrow> string"
  ae_refreshTtlSec :: rat

subsection \<open>Operations\<close>

definition unauthorized :: "string \<Rightarrow> exn" where
  "unauthorized code = HttpException 401 (Some code)"

definition BAD_REFRESH :: exn where
  "BAD_REFRESH = unauthorized ''invalid-refresh-token''"

text \<open>
  \<open>issue\<close>: INSERT a refresh token, sign an access token.  The unique index on
  \<open>token_hash\<close> refuses a hash that is already stored (SQLSTATE 23505).
\<close>

definition issue ::
    "('priv, 'pub) auth_env \<Rightarrow> rat \<Rightarrow> rat \<Rightarrow> string \<Rightarrow> string \<Rightarrow> nat \<Rightarrow> role \<Rightarrow> string \<Rightarrow> auth_db \<Rightarrow>
     token_pair res \<times> auth_db" where
  "issue env dbnow appnow raw jti userId rl familyId db =
     (if ae_hmac env raw \<in> token_hash ` set (refresh_tokens db) then (Inl (DbError ''23505''), db)
      else
        (let row = \<lparr>rt_id = next_token_id db, token_hash = ae_hmac env raw, family_id = familyId,
                    rt_user_id = userId, used_at = None, revoked_at = None,
                    rt_expires_at = dbnow + ae_refreshTtlSec env\<rparr>;
             db' = db\<lparr>refresh_tokens := refresh_tokens db @ [row], next_token_id := Suc (next_token_id db)\<rparr>;
             access = sign (ae_lib env) (ae_tokens env) appnow jti (show_nat userId) rl familyId
         in (Inr \<lparr>access_token = fst access, refresh_token = raw, token_type = ''Bearer'',
                  expires_in = ts_accessTtlSec (ae_tokens env)\<rparr>, db')))"

definition login ::
    "('priv, 'pub) auth_env \<Rightarrow> rat \<Rightarrow> rat \<Rightarrow> string \<Rightarrow> string \<Rightarrow> string \<Rightarrow> string \<Rightarrow> string \<Rightarrow> auth_db \<Rightarrow>
     token_pair res \<times> auth_db" where
  "login env dbnow appnow raw jti familyId email password db =
     (let user = select_first (\<lambda>u. u_email u = email) (users db);
          ok = verifyPassword (ae_scrypt env) (ae_dummy env) password
                 (case user of None \<Rightarrow> None | Some u \<Rightarrow> u_password_hash u)
      in case user of
           None \<Rightarrow> (Inl (unauthorized ''invalid-credentials''), db)
         | Some u \<Rightarrow>
             if \<not> ok then (Inl (unauthorized ''invalid-credentials''), db)
             else issue env dbnow appnow raw jti (u_id u) (u_role u) familyId db)"

definition revoke_family :: "rat \<Rightarrow> string \<Rightarrow> auth_db \<Rightarrow> auth_db" where
  "revoke_family dbnow fid db =
     db\<lparr>refresh_tokens := update_where (\<lambda>r. family_id r = fid \<and> revoked_at r = None)
           (\<lambda>r. r\<lparr>revoked_at := Some dbnow\<rparr>) (refresh_tokens db)\<rparr>"

text \<open>
  \<open>refresh\<close> with no other transaction beside it: \<open>revoke_family\<close> then reaches every row of
  the family.
\<close>

definition refresh ::
    "('priv, 'pub) auth_env \<Rightarrow> rat \<Rightarrow> rat \<Rightarrow> string \<Rightarrow> string \<Rightarrow> string \<Rightarrow> auth_db \<Rightarrow>
     token_pair res \<times> auth_db" where
  "refresh env dbnow appnow raw jti rawToken db =
     (case select_first (\<lambda>r. token_hash r = ae_hmac env rawToken) (refresh_tokens db) of
        None \<Rightarrow> (Inl BAD_REFRESH, db)
      | Some row \<Rightarrow>
          if revoked_at row \<noteq> None then (Inl BAD_REFRESH, db)
          else if used_at row \<noteq> None then (Inl BAD_REFRESH, revoke_family dbnow (family_id row) db)
          else if rt_expires_at row \<le> appnow then (Inl BAD_REFRESH, db)
          else
            (case select_first (\<lambda>u. u_id u = rt_user_id row) (users db) of
               None \<Rightarrow> (Inl BAD_REFRESH, db)
             | Some u \<Rightarrow>
                 (let db1 = db\<lparr>refresh_tokens := update_where (\<lambda>r. rt_id r = rt_id row)
                              (\<lambda>r. r\<lparr>used_at := Some dbnow\<rparr>) (refresh_tokens db)\<rparr>
                  in case issue env dbnow appnow raw jti (rt_user_id row) (u_role u) (family_id row) db1 of
                       (Inr pair, db2) \<Rightarrow> (Inr pair, db2)
                     | (Inl e, _) \<Rightarrow> (Inl e, db))))"

definition logout :: "rat \<Rightarrow> auth_user \<Rightarrow> auth_db \<Rightarrow> auth_db" where
  "logout dbnow user db =
     (let db1 = revoke_family dbnow (au_fid user) db
      in db1\<lparr>access_denylist := snd (insert_on_conflict dn_jti
               \<lparr>dn_jti = au_jti user, dn_expires_at = au_exp user\<rparr> (access_denylist db1))\<rparr>)"

definition authenticate :: "('priv, 'pub) auth_env \<Rightarrow> rat \<Rightarrow> string \<Rightarrow> auth_db \<Rightarrow> auth_user res" where
  "authenticate env appnow token db =
     (case verify (ae_lib env) (ae_tokens env) appnow token of
        Inl (TokenError code) \<Rightarrow> Inl (unauthorized code)
      | Inl e \<Rightarrow> Inl e
      | Inr claims \<Rightarrow>
          if select_first (\<lambda>d. dn_jti d = vc_jti claims) (access_denylist db) \<noteq> None
          then Inl (unauthorized ''token-revoked'')
          else Inr \<lparr>au_id = vc_sub claims, au_role = vc_role claims, au_jti = vc_jti claims,
                    au_exp = vc_exp claims, au_fid = vc_fid claims\<rparr>)"

definition purgeDenylist :: "rat \<Rightarrow> auth_db \<Rightarrow> nat \<times> auth_db" where
  "purgeDenylist dbnow db =
     (length (filter (\<lambda>d. dn_expires_at d < dbnow) (access_denylist db)),
      db\<lparr>access_denylist := filter (\<lambda>d. \<not> dn_expires_at d < dbnow) (access_denylist db)\<rparr>)"

subsection \<open>The invariant of the token tables\<close>

definition live :: "refresh_row \<Rightarrow> bool" where
  "live r \<longleftrightarrow> used_at r = None \<and> revoked_at r = None"

text \<open>
  As long as operations do not overlap: ids and hashes identify a row; a family
  belongs to one user, is revoked as a whole, and has at most one token that can still
  be exchanged.
\<close>

definition fam_agree :: "refresh_row \<Rightarrow> refresh_row \<Rightarrow> bool" where
  "fam_agree r s \<longleftrightarrow>
     (family_id r = family_id s \<longrightarrow>
        rt_user_id r = rt_user_id s \<and> (revoked_at r = None \<longleftrightarrow> revoked_at s = None) \<and>
        (live r \<longrightarrow> live s \<longrightarrow> r = s))"

definition auth_inv :: "auth_db \<Rightarrow> bool" where
  "auth_inv db \<longleftrightarrow>
     distinct (map rt_id (refresh_tokens db)) \<and>
     (\<forall>r \<in> set (refresh_tokens db). rt_id r < next_token_id db) \<and>
     distinct (map token_hash (refresh_tokens db)) \<and>
     distinct (map dn_jti (access_denylist db)) \<and>
     (\<forall>r \<in> set (refresh_tokens db). \<forall>s \<in> set (refresh_tokens db). fam_agree r s)"

definition families :: "auth_db \<Rightarrow> string set" where
  "families db = family_id ` set (refresh_tokens db)"

text \<open>One committed operation at database time \<open>t\<close>; a login draws a fresh family id.\<close>

inductive auth_step :: "('priv, 'pub) auth_env \<Rightarrow> rat \<Rightarrow> auth_db \<Rightarrow> auth_db \<Rightarrow> bool" for env where
  step_login: "familyId \<notin> families db \<Longrightarrow>
     auth_step env t db (snd (login env t appnow raw jti familyId email password db))"
| step_refresh: "auth_step env t db (snd (refresh env t appnow raw jti rawToken db))"
| step_logout: "auth_step env t db (logout t user db)"
| step_purge: "auth_step env t db (snd (purgeDenylist t db))"

text \<open>Any number of operations, none later than \<open>T\<close>.\<close>

inductive auth_run :: "('priv, 'pub) auth_env \<Rightarrow> rat \<Rightarrow> auth_db \<Rightarrow> auth_db \<Rightarrow> bool" for env T where
  run_refl: "auth_run env T db db"
| run_step: "auth_run env T db db' \<Longrightarrow> auth_step env t db' db'' \<Longrightarrow> t \<le> T \<Longrightarrow> auth_run env T db db''"

lemmas op_defs = issue_def login_def refresh_def logout_def purgeDenylist_def revoke_family_def

subsection \<open>What a refresh does\<close>

text \<open>The transaction of \<open>refresh\<close> commits one of three states.\<close>

definition mark_used :: "rat \<Rightarrow> refresh_row \<Rightarrow> auth_db \<Rightarrow> auth_db" where
  "mark_used t row db = db\<lparr>refresh_tokens :=
     update_where (\<lambda>r. rt_id r = rt_id row) (\<lambda>r. r\<lparr>used_at := Some t\<rparr>) (refresh_tokens db)\<rparr>"

lemma refresh_cases:
  obtains
    (same) e where "refresh env t a raw jti tok db = (Inl e, db)" "e = BAD_REFRESH \<or> e = DbError ''23505''"
  | (reuse) row where "row \<in> set (refresh_tokens db)" "token_hash row = ae_hmac env tok"
      "revoked_at row = None" "used_at row \<noteq> None"
      "refresh env t a raw jti tok db = (Inl BAD_REFRESH, revoke_family t (family_id row) db)"
  | (rotate) row u pair where "row \<in> set (refresh_tokens db)" "token_hash row = ae_hmac env tok"
      "live row" "a < rt_expires_at row" "u \<in> set (users db)" "u_id u = rt_user_id row"
      "fst (issue env t a raw jti (rt_user_id row) (u_role u) (family_id row) (mark_used t row db)) = Inr pair"
      "refresh env t a raw jti tok db =
         (Inr pair, snd (issue env t a raw jti (rt_user_id row) (u_role u) (family_id row) (mark_used t row db)))"
proof (cases "select_first (\<lambda>r. token_hash r = ae_hmac env tok) (refresh_tokens db)")
  case None
  then show ?thesis using that(1) by (simp add: refresh_def)
next
  case (Some row)
  note row = select_first_Some [OF Some]
  note unf = refresh_def Some mark_used_def [symmetric] Let_def
  show ?thesis
  proof (cases "revoked_at row = None \<and> used_at row = None \<and> a < rt_expires_at row")
    case False
    then consider "revoked_at row \<noteq> None" | "revoked_at row = None" "used_at row \<noteq> None"
      | "revoked_at row = None" "used_at row = None" "rt_expires_at row \<le> a" by fastforce
    then show ?thesis
    proof cases
      case 2
      then show ?thesis using that(2) [of row] row by (simp add: unf)
    qed (use that(1) in \<open>simp_all add: unf\<close>)
  next
    case True
    show ?thesis
    proof (cases "select_first (\<lambda>u. u_id u = rt_user_id row) (users db)")
      case None
      with True show ?thesis using that(1) by (simp add: unf)
    next
      case (Some u)
      let ?i = "issue env t a raw jti (rt_user_id row) (u_role u) (family_id row) (mark_used t row db)"
      note u = select_first_Some [OF Some]
      show ?thesis
      proof (cases "fst ?i")
        case (Inl e)
        then have "e = DbError ''23505''" by (auto simp: issue_def Let_def split: if_splits)
        with Inl True Some show ?thesis using that(1)
          by (cases ?i) (simp add: unf)
      next
        case (Inr pair)
        with True Some show ?thesis using that(3) [of row u pair] row u
          by (cases ?i) (simp add: unf live_def)
      qed
    qed
  qed
qed

subsection \<open>Every operation keeps the invariant\<close>

lemma auth_inv_update:
  assumes inv: "auth_inv db"
    and keys: "\<And>r. rt_id (f r) = rt_id r" "\<And>r. token_hash (f r) = token_hash r"
      "\<And>r. family_id (f r) = family_id r" "\<And>r. rt_user_id (f r) = rt_user_id r"
    and live: "\<And>r. live (f r) \<Longrightarrow> live r"
    and rev: "\<And>r s. fam_agree r s \<Longrightarrow> family_id r = family_id s \<Longrightarrow>
                 revoked_at (f r) = None \<longleftrightarrow> revoked_at (f s) = None"
  shows "auth_inv (db\<lparr>refresh_tokens := map f (refresh_tokens db)\<rparr>)"
proof -
  have "fam_agree (f r) (f s)" if "fam_agree r s" for r s
    using that rev [OF that] live by (auto simp: fam_agree_def keys)
  then show ?thesis using inv by (auto simp: auth_inv_def keys comp_def)
qed

lemma revoke_family_inv [inv_intros]:
  assumes "auth_inv db" shows "auth_inv (revoke_family t f db)"
  unfolding revoke_family_def update_where_def
  using assms by (rule auth_inv_update) (auto simp: live_def fam_agree_def split: if_splits)

lemma mark_used_inv [inv_intros]:
  assumes "auth_inv db" shows "auth_inv (mark_used t row db)"
  unfolding mark_used_def update_where_def
  using assms by (rule auth_inv_update) (auto simp: live_def fam_agree_def split: if_splits)

lemma auth_inv_agree:
  "auth_inv db \<Longrightarrow> r \<in> set (refresh_tokens db) \<Longrightarrow> s \<in> set (refresh_tokens db) \<Longrightarrow> fam_agree r s"
  by (simp add: auth_inv_def)

lemma issue_inv [inv_intros]:
  assumes inv: "auth_inv db"
    and fam: "\<And>r. r \<in> set (refresh_tokens db) \<Longrightarrow> family_id r = f \<Longrightarrow>
                rt_user_id r = uid \<and> revoked_at r = None \<and> used_at r \<noteq> None"
  shows "auth_inv (snd (issue env t a raw jti uid rl f db))"
proof (cases "ae_hmac env raw \<in> token_hash ` set (refresh_tokens db)")
  case True
  then show ?thesis by (simp add: issue_def inv)
next
  case False
  define row where "row = \<lparr>rt_id = next_token_id db, token_hash = ae_hmac env raw, family_id = f,
    rt_user_id = uid, used_at = None, revoked_at = None, rt_expires_at = t + ae_refreshTtlSec env\<rparr>"
  have agree: "fam_agree r row \<and> fam_agree row r" if "r \<in> set (refresh_tokens db)" for r
    using fam [OF that] by (auto simp: fam_agree_def live_def row_def)
  have new: "rt_id row \<notin> rt_id ` set (refresh_tokens db)"
    using inv by (auto simp: auth_inv_def row_def)
  have "auth_inv (db\<lparr>refresh_tokens := refresh_tokens db @ [row], next_token_id := Suc (next_token_id db)\<rparr>)"
    using inv agree new False unfolding auth_inv_def
    by (auto simp: fam_agree_def [of row row] less_Suc_eq) (auto simp: row_def)
  then show ?thesis using False by (simp add: issue_def Let_def row_def)
qed

lemma rotated_family:
  assumes "auth_inv db" "row \<in> set (refresh_tokens db)" "live row"
    "r \<in> set (refresh_tokens (mark_used t row db))" "family_id r = family_id row"
  shows "rt_user_id r = rt_user_id row \<and> revoked_at r = None \<and> used_at r \<noteq> None"
proof -
  obtain r0 where r0: "r0 \<in> set (refresh_tokens db)"
    and r: "r = (if rt_id r0 = rt_id row then r0\<lparr>used_at := Some t\<rparr> else r0)"
    using assms(4) by (auto simp: mark_used_def set_update_where)
  have "fam_agree r0 row" using assms(1,2) r0 by (auto simp: auth_inv_def)
  then show ?thesis using assms(3,5) r by (auto simp: fam_agree_def live_def split: if_splits)
qed

lemma refresh_inv [inv_intros]:
  assumes inv: "auth_inv db"
  shows "auth_inv (snd (refresh env t a raw jti tok db))"
proof (cases rule: refresh_cases [of env t a raw jti tok db])
  case (rotate row u pair)
  show ?thesis using rotated_family [OF inv rotate(1,3)]
    by (simp add: rotate(8)) (rule issue_inv [OF mark_used_inv [OF inv]], auto)
qed (simp_all add: inv revoke_family_inv)

lemma login_inv [inv_intros]:
  "auth_inv db \<Longrightarrow> f \<notin> families db \<Longrightarrow> auth_inv (snd (login env t a raw jti f email pw db))"
  by (auto simp: login_def Let_def families_def image_iff split: option.splits intro!: issue_inv)

lemma logout_inv [inv_intros]: "auth_inv db \<Longrightarrow> auth_inv (logout t u db)"
  using revoke_family_inv [of db t "au_fid u"]
  by (auto simp: logout_def auth_inv_def Let_def insert_on_conflict_def)

lemma purge_inv [inv_intros]: "auth_inv db \<Longrightarrow> auth_inv (snd (purgeDenylist t db))"
  by (simp add: purgeDenylist_def auth_inv_def distinct_map_filter)

lemma auth_step_inv: "auth_step env t db db' \<Longrightarrow> auth_inv db \<Longrightarrow> auth_inv db'"
  by (induction rule: auth_step.induct) (simp_all add: inv_intros)

lemma auth_run_inv: "auth_run env T db db' \<Longrightarrow> auth_inv db \<Longrightarrow> auth_inv db'"
  by (induction rule: auth_run.induct) (blast intro: auth_step_inv)+

subsection \<open>A revoked family stays revoked\<close>

definition family_dead :: "string \<Rightarrow> auth_db \<Rightarrow> bool" where
  "family_dead f db \<longleftrightarrow> f \<in> families db \<and>
     (\<forall>r \<in> set (refresh_tokens db). family_id r = f \<longrightarrow> revoked_at r \<noteq> None)"

lemma families_update:
  "(\<And>r. family_id (g r) = family_id r) \<Longrightarrow>
   families (db\<lparr>refresh_tokens := map g (refresh_tokens db)\<rparr>) = families db"
  by (simp add: families_def image_image)

lemma families_revoke [simp]: "families (revoke_family t f db) = families db"
  unfolding revoke_family_def update_where_def by (rule families_update) simp

lemma family_dead_update:
  assumes "family_dead f db" "\<And>r. family_id (g r) = family_id r"
    "\<And>r. revoked_at r \<noteq> None \<Longrightarrow> revoked_at (g r) \<noteq> None"
  shows "family_dead f (db\<lparr>refresh_tokens := map g (refresh_tokens db)\<rparr>)"
  using assms by (auto simp: family_dead_def families_def image_image)

lemma issue_dead:
  "family_dead f db \<Longrightarrow> f' \<noteq> f \<Longrightarrow> family_dead f (snd (issue env t a raw jti u rl f' db))"
  by (auto simp: family_dead_def families_def issue_def Let_def)

lemma revoke_family_dead: "family_dead f db \<Longrightarrow> family_dead f (revoke_family t f' db)"
  unfolding revoke_family_def update_where_def by (rule family_dead_update) simp_all

lemma mark_used_dead: "family_dead f db \<Longrightarrow> family_dead f (mark_used t row db)"
  unfolding mark_used_def update_where_def by (rule family_dead_update) auto

lemma revoke_family_kills:
  assumes "f \<in> families db" shows "family_dead f (revoke_family t f db)"
proof -
  have "revoked_at r \<noteq> None"
    if "r \<in> set (refresh_tokens (revoke_family t f db))" "family_id r = f" for r
  proof -
    from that(1) have "r \<in> set (update_where (\<lambda>r. family_id r = f \<and> revoked_at r = None)
        (\<lambda>r. r\<lparr>revoked_at := Some t\<rparr>) (refresh_tokens db))"
      by (simp add: revoke_family_def)
    then show ?thesis using that(2) by (cases rule: in_update_whereE) simp_all
  qed
  then show ?thesis using assms by (simp add: family_dead_def)
qed

lemma refresh_dead:
  assumes dead: "family_dead f db"
  shows "family_dead f (snd (refresh env t a raw jti tok db))"
proof (cases rule: refresh_cases [of env t a raw jti tok db])
  case (rotate row u pair)
  then have "family_id row \<noteq> f" using dead by (auto simp: family_dead_def live_def)
  then show ?thesis by (simp add: rotate(8) issue_dead mark_used_dead dead)
qed (simp_all add: dead revoke_family_dead)

lemma logout_dead: "family_dead f db \<Longrightarrow> family_dead f (logout t u db)"
  using revoke_family_dead [of f db t "au_fid u"]
  by (simp add: logout_def Let_def family_dead_def families_def)

lemma login_dead:
  assumes dead: "family_dead f db" and fresh: "f' \<notin> families db"
  shows "family_dead f (snd (login env t a raw jti f' email pw db))"
proof -
  from dead fresh have "f' \<noteq> f" by (auto simp: family_dead_def)
  then show ?thesis by (simp add: login_def Let_def dead issue_dead split: option.splits)
qed

lemma auth_step_dead: "auth_step env t db db' \<Longrightarrow> family_dead f db \<Longrightarrow> family_dead f db'"
  by (induction rule: auth_step.induct)
    (simp_all add: login_dead refresh_dead logout_dead,
     simp add: purgeDenylist_def family_dead_def families_def)

lemma auth_run_dead: "auth_run env T db db' \<Longrightarrow> family_dead f db \<Longrightarrow> family_dead f db'"
  by (induction rule: auth_run.induct) (blast intro: auth_step_dead)+

lemma refresh_of_dead:
  assumes "family_dead f db" "auth_inv db" "r \<in> set (refresh_tokens db)" "family_id r = f"
    "token_hash r = ae_hmac env tok"
  shows "refresh env t a raw jti tok db = (Inl BAD_REFRESH, db)"
proof -
  have "select_first (\<lambda>r. token_hash r = ae_hmac env tok) (refresh_tokens db) = Some r"
    using select_first_key [of token_hash "refresh_tokens db" r] assms(2,3,5)
    by (simp add: auth_inv_def)
  with assms(1,3,4) show ?thesis by (auto simp: refresh_def family_dead_def)
qed

subsection \<open>The denylist\<close>

definition denied :: "string \<Rightarrow> rat \<Rightarrow> auth_db \<Rightarrow> bool" where
  "denied j e db \<longleftrightarrow> (\<exists>d \<in> set (access_denylist db). dn_jti d = j \<and> dn_expires_at d = e)"

lemma denylist_revoke [simp]: "access_denylist (revoke_family t f db) = access_denylist db"
  by (simp add: revoke_family_def)

lemma denylist_issue [simp]: "access_denylist (snd (issue env t a raw jti u rl f db)) = access_denylist db"
  by (simp add: issue_def Let_def)

lemma denylist_refresh [simp]: "access_denylist (snd (refresh env t a raw jti tok db)) = access_denylist db"
  by (cases rule: refresh_cases [of env t a raw jti tok db]) (simp_all add: mark_used_def)

lemma denylist_login [simp]: "access_denylist (snd (login env t a raw jti f em pw db)) = access_denylist db"
  by (simp add: login_def Let_def split: option.splits)

lemma logout_denies:
  assumes "\<forall>d \<in> set (access_denylist db). dn_jti d = au_jti u \<longrightarrow> dn_expires_at d = au_exp u"
  shows "denied (au_jti u) (au_exp u) (logout t u db)"
  using assms by (auto simp: denied_def logout_def Let_def insert_on_conflict_def)

lemma denied_step:
  "auth_step env t db db' \<Longrightarrow> denied j e db \<Longrightarrow> t \<le> e \<Longrightarrow> denied j e db'"
proof (induction rule: auth_step.induct)
  case (step_logout t user db)
  then show ?case by (auto simp: denied_def logout_def Let_def insert_on_conflict_def)
next
  case (step_purge t db)
  then show ?case by (auto simp: denied_def purgeDenylist_def)
qed (simp_all add: denied_def)

lemma denied_run:
  "auth_run env T db db' \<Longrightarrow> denied j e db \<Longrightarrow> T \<le> e \<Longrightarrow> denied j e db'"
  by (induction rule: auth_run.induct) (use denied_step in force)+

text \<open>
  A bearer token that is not JSON between its dots makes \<open>jwt.decode\<close> throw before any
  check: the error is no \<open>TokenError\<close>, so it passes \<open>authenticate\<close> and the answer is a 500.
\<close>

lemma undecodable_token_passes:
  "jl_decode_kid (ae_lib env) tok = DecodeThrows \<Longrightarrow> authenticate env a tok db = Inl (Error ''SyntaxError'')"
  by (simp add: authenticate_def verify_throws)

subsection \<open>Properties\<close>

text \<open>With operations that do not overlap, every state the service reaches from
  empty token tables satisfies the invariant: one user per family, families revoked
  as a whole, at most one exchangeable refresh token per family, unique hashes.\<close>

theorem reachable_auth_inv:
  assumes "auth_run env T db0 db" "refresh_tokens db0 = []" "access_denylist db0 = []"
  shows "auth_inv db"
proof -
  have "auth_inv db0" using assms(2,3) by (simp add: auth_inv_def)
  with assms(1) show ?thesis by (rule auth_run_inv)
qed

text \<open>With operations that do not overlap, presenting a refresh token that was already
  exchanged is answered with the uniform 401 and kills its family: in every later
  state, whatever operations ran in between, no token of that family can be
  exchanged, the attacker's as little as the client's current one.\<close>

theorem replay_revokes_family:
  assumes inv: "auth_inv db" and row: "row \<in> set (refresh_tokens db)"
    "token_hash row = ae_hmac env stolen" "used_at row \<noteq> None"
    and replay: "refresh env t a raw jti stolen db = (res, db1)"
    and later: "auth_run env T db1 db2"
    and r: "r \<in> set (refresh_tokens db2)" "family_id r = family_id row" "token_hash r = ae_hmac env tok"
  shows "res = Inl BAD_REFRESH \<and> refresh env t' a' raw' jti' tok db2 = (Inl BAD_REFRESH, db2)"
proof -
  have sel: "select_first (\<lambda>r. token_hash r = ae_hmac env stolen) (refresh_tokens db) = Some row"
    using select_first_key [of token_hash "refresh_tokens db" row] inv row(1,2) by (simp add: auth_inv_def)
  have fam: "family_id row \<in> families db" using row(1) by (simp add: families_def)
  have "res = Inl BAD_REFRESH \<and> family_dead (family_id row) db1"
  proof (cases "revoked_at row = None")
    case True
    with sel row(3) replay revoke_family_kills [OF fam] show ?thesis by (auto simp: refresh_def)
  next
    case False
    have "revoked_at s \<noteq> None" if "s \<in> set (refresh_tokens db)" "family_id s = family_id row" for s
      using auth_inv_agree [OF inv that(1) row(1)] that(2) False by (simp add: fam_agree_def)
    then have "family_dead (family_id row) db" using fam by (simp add: family_dead_def)
    with False sel replay show ?thesis by (auto simp: refresh_def)
  qed
  moreover have "auth_inv db2"
    using refresh_inv [OF inv, of env t a raw jti stolen] replay auth_run_inv [OF later] by simp
  ultimately show ?thesis using refresh_of_dead [OF auth_run_dead [OF later]] r by blast
qed


text \<open>C9: after a logout the access token of that session is refused in every
  later state, even though the denylist is purged on a timer: its entry is
  only removed once the token has expired.  (The database clock never runs
  ahead of the clock that checks the token: \<open>T \<le> a\<close>.)\<close>

theorem logged_out_token_rejected:
  assumes lib: "jwt_checks_expiry (ae_lib env)" and e: "au_exp user = of_int k"
    and uniq: "\<forall>d \<in> set (access_denylist db). dn_jti d = au_jti user \<longrightarrow> dn_expires_at d = au_exp user"
    and later: "auth_run env T (logout t user db) db'" "T \<le> a"
    and tok: "verify (ae_lib env) (ae_tokens env) a tok = Inr claims"
      "vc_jti claims = au_jti user" "vc_exp claims = au_exp user"
  shows "authenticate env a tok db' = Inl (unauthorized ''token-revoked'')"
proof -
  have "of_int \<lfloor>a\<rfloor> < au_exp user" using verify_not_expired [OF lib tok(1)] tok(3) by simp
  then have "a < of_int k" by (simp add: e) linarith
  then have "T \<le> au_exp user" using later(2) e by linarith
  with denied_run [OF later(1) logout_denies [OF uniq]] have "denied (au_jti user) (au_exp user) db'" by simp
  then have "select_first (\<lambda>d. dn_jti d = vc_jti claims) (access_denylist db') \<noteq> None"
    using tok(2) by (auto simp: denied_def select_first_None)
  then show ?thesis by (auto simp: authenticate_def tok(1))
qed

text \<open>A login fails with the one answer \<open>invalid-credentials\<close>, and changes
  nothing, exactly when there is no user with this email or the password does
  not match the stored hash (a user without a hash never logs in).\<close>

theorem login_refused_iff:
  "login env t a raw jti f email pw db = (Inl (unauthorized ''invalid-credentials''), db) \<longleftrightarrow>
     (case select_first (\<lambda>u. u_email u = email) (users db) of
        None \<Rightarrow> True
      | Some u \<Rightarrow> \<not> (u_password_hash u \<noteq> None \<and>
                     verifyPassword (ae_scrypt env) (ae_dummy env) pw (u_password_hash u)))"
proof (cases "select_first (\<lambda>u. u_email u = email) (users db)")
  case (Some u)
  have "issue env t a raw jti (u_id u) (u_role u) f db \<noteq> (Inl (unauthorized ''invalid-credentials''), db)"
    by (auto simp: issue_def unauthorized_def Let_def)
  then show ?thesis
    using Some verifyPassword_None [of "ae_scrypt env" "ae_dummy env" pw]
    by (cases "u_password_hash u") (simp_all add: login_def)
qed (simp add: login_def)

subsection \<open>Instances\<close>

text \<open>
  A concrete library, environment and database: one family whose first token
  was exchanged for a second one.
\<close>

definition example_claims :: json where
  "example_claims = JObj [(''sub'', JStr ''1''), (''role'', JStr ''customer''), (''jti'', JStr ''j''),
     (''exp'', JNum 600), (''fid'', JStr ''f'')]"

definition example_lib :: "(unit, unit) jwt_lib" where
  "example_lib = \<lparr>jl_sign = (\<lambda>now p k so. ''tok''), jl_decode_kid = (\<lambda>t. DecodedKid (Some ''k'')), jl_decode_exp = (\<lambda>t. 600),
     jl_verify = (\<lambda>now t k algs iss aud. if of_int \<lfloor>now\<rfloor> < (600 :: rat) then VPayload example_claims else VExpired)\<rparr>"

definition example_env :: "(unit, unit) auth_env" where
  "example_env = \<lparr>ae_lib = example_lib,
     ae_tokens = \<lparr>ts_privateKey = (), ts_kid = ''k'', ts_verifyKeys = [''k'' \<mapsto> ()], ts_accessTtlSec = 600\<rparr>,
     ae_scrypt = (\<lambda>p s n. replicate n 0), ae_dummy = [], ae_hmac = (\<lambda>s. CHR ''h'' # s), ae_refreshTtlSec = 1000\<rparr>"

definition example_row :: "nat \<Rightarrow> string \<Rightarrow> rat option \<Rightarrow> refresh_row" where
  "example_row i h used = \<lparr>rt_id = i, token_hash = h, family_id = ''f'', rt_user_id = 1,
     used_at = used, revoked_at = None, rt_expires_at = 1000\<rparr>"

definition example_db :: auth_db where
  "example_db = \<lparr>users = [\<lparr>u_id = 1, u_email = ''a'', u_role = customer, u_password_hash = None\<rparr>],
     refresh_tokens = [example_row 1 ''hr1'' (Some 5), example_row 2 ''hr2'' None],
     next_token_id = 3, access_denylist = []\<rparr>"

definition example_user :: auth_user where
  "example_user = \<lparr>au_id = ''1'', au_role = customer, au_jti = ''j'', au_exp = 600, au_fid = ''f''\<rparr>"

lemmas example_defs = example_env_def example_row_def example_db_def example_user_def

lemma example_inv: "auth_inv example_db"
  by (simp add: auth_inv_def fam_agree_def live_def example_db_def example_row_def)

lemma example_expiry: "jwt_checks_expiry example_lib"
  by (auto simp: jwt_checks_expiry_def example_lib_def example_claims_def split: if_splits)

lemma example_verify:
  "verify (ae_lib example_env) (ae_tokens example_env) 20 ''tok'' =
     Inr \<lparr>vc_sub = ''1'', vc_role = customer, vc_jti = ''j'', vc_exp = 600, vc_fid = ''f''\<rparr>"
  by (simp add: verify_def example_env_def example_lib_def example_claims_def read_claims_def ROLES_def)

theorem reachable_auth_inv_witness:
  "auth_inv (snd (purgeDenylist 1 (example_db\<lparr>refresh_tokens := []\<rparr>)))"
proof -
  let ?db = "example_db\<lparr>refresh_tokens := []\<rparr>"
  have "auth_run example_env 1 ?db (snd (purgeDenylist 1 ?db))"
    by (rule run_step [OF run_refl step_purge]) simp
  then show ?thesis by (rule reachable_auth_inv) (simp_all add: example_db_def)
qed

theorem replay_revokes_family_witness:
  "refresh example_env 9 9 ''r3'' ''j3'' ''r2''
     (snd (refresh example_env 8 8 ''r4'' ''j4'' ''r1'' example_db)) =
   (Inl BAD_REFRESH, snd (refresh example_env 8 8 ''r4'' ''j4'' ''r1'' example_db))"
proof -
  let ?out = "refresh example_env 8 8 ''r4'' ''j4'' ''r1'' example_db"
  have "(example_row 2 ''hr2'' None)\<lparr>revoked_at := Some 8\<rparr> \<in> set (refresh_tokens (snd ?out))"
    by (simp add: refresh_def revoke_family_def example_defs)
  from replay_revokes_family [OF example_inv _ _ _ surjective_pairing [of ?out] run_refl this,
      of "example_row 1 ''hr1'' (Some 5)" "''r2''"]
  show ?thesis by (simp add: example_defs)
qed


theorem logged_out_token_rejected_witness:
  "authenticate example_env 20 ''tok'' (logout 10 example_user example_db) = Inl (unauthorized ''token-revoked'')"
  by (rule logged_out_token_rejected [OF _ _ _ run_refl _ example_verify, where T = 15 and k = 600])
    (simp_all add: example_defs example_expiry)

end
