(* ===== verification/RefreshRace.thy ===== *)
theory RefreshRace
  imports AuthService
begin

text \<open>
  \<open>AuthService.refresh\<close> and \<open>logout\<close> (\<open>src/auth/auth.service.ts\<close>, lines 76-161) as what
  they are under Postgres' READ COMMITTED: transactions of several statements that run
  beside each other.  Each statement sees what is committed when it starts, and a
  transaction's own writes are seen by the others when it commits; a row locked by
  \<open>FOR UPDATE\<close> or \<open>UPDATE\<close> stays locked until the transaction ends, and who needs it
  waits.  An \<open>UPDATE ... WHERE\<close> takes the ids of the rows its snapshot shows, locks
  them one after the other and checks the condition again on the newest committed
  version.  Rows inserted after its snapshot are not updated.

  \<open>refresh\<close> and \<open>logout\<close> of \<open>AuthService\<close> are these transactions run alone, which
  \<open>alone_refresh\<close> and \<open>alone_logout\<close> show.
\<close>

subsection \<open>A transaction, statement by statement\<close>

text \<open>
  Taken together are a refusal and its \<open>COMMIT\<close>, and a logout's \<open>INSERT\<close> into the denylist
  and its \<open>COMMIT\<close>: that \<open>INSERT\<close> can only wait for another transaction that denies the
  same \<open>jti\<close>, and then does nothing.  The users do not change meanwhile.
\<close>

text \<open>
  Where a transaction is, with the variables its code has in hand.  \<open>Revoking\<close> is the
  \<open>UPDATE\<close> by \<open>family_id\<close> at work: the rows still to be locked, those locked, and for a
  logout the user whose access token is to be denied.  \<open>Ended\<close> has the answer.
\<close>

datatype auth_phase =
    Begun string
  | Chosen refresh_row
  | Loaded refresh_row role
  | Used refresh_row role
  | Inserted refresh_row refresh_row token_pair
  | Replayed refresh_row
  | LogoutBegun auth_user
  | Revoking string "nat list" "nat list" "nat list" "auth_user option"
  | Ended "token_pair option res"

text \<open>The ids of the rows a phase has locked, and the row it has inserted but not committed.\<close>

fun held :: "auth_phase \<Rightarrow> nat list" where
  "held (Chosen r) = [rt_id r]"
| "held (Loaded r _) = [rt_id r]"
| "held (Used r _) = [rt_id r]"
| "held (Inserted r _ _) = [rt_id r]"
| "held (Replayed r) = [rt_id r]"
| "held (Revoking _ own _ locked _) = own @ locked"
| "held _ = []"

fun inserted_row :: "auth_phase \<Rightarrow> refresh_row option" where
  "inserted_row (Inserted _ new _) = Some new"
| "inserted_row _ = None"

definition family_ids :: "string \<Rightarrow> auth_db \<Rightarrow> nat list" where
  "family_ids fid db = map rt_id (filter (\<lambda>r. family_id r = fid \<and> revoked_at r = None) (refresh_tokens db))"

definition still_valid :: "string \<Rightarrow> nat \<Rightarrow> auth_db \<Rightarrow> bool" where
  "still_valid fid i db \<longleftrightarrow>
     list_ex (\<lambda>r. rt_id r = i \<and> family_id r = fid \<and> revoked_at r = None) (refresh_tokens db)"

text \<open>What a commit makes of the tables.\<close>

definition commit_exchange :: "rat \<Rightarrow> refresh_row \<Rightarrow> refresh_row \<Rightarrow> auth_db \<Rightarrow> auth_db" where
  "commit_exchange now row new db = db\<lparr>refresh_tokens :=
     update_where (\<lambda>r. rt_id r = rt_id row) (\<lambda>r. r\<lparr>used_at := Some now\<rparr>) (refresh_tokens db) @ [new]\<rparr>"

definition commit_revoke :: "rat \<Rightarrow> nat list \<Rightarrow> auth_user option \<Rightarrow> auth_db \<Rightarrow> auth_db" where
  "commit_revoke now locked deny db =
     (let db1 = db\<lparr>refresh_tokens := update_where (\<lambda>r. rt_id r \<in> set locked)
                  (\<lambda>r. r\<lparr>revoked_at := Some now\<rparr>) (refresh_tokens db)\<rparr>
      in case deny of
           None \<Rightarrow> db1
         | Some u \<Rightarrow> db1\<lparr>access_denylist := snd (insert_on_conflict dn_jti
                       \<lparr>dn_jti = au_jti u, dn_expires_at = au_exp u\<rparr> (access_denylist db))\<rparr>)"

text \<open>
  One statement.  \<open>locked i\<close>: another transaction holds row \<open>i\<close>; \<open>pending h\<close>: another one
  has inserted the hash \<open>h\<close> and not ended; \<open>None\<close>: the statement waits.  \<open>now\<close> is \<open>now()\<close> of the
  transaction, \<open>appnow\<close> the clock of the process.
\<close>

fun statement_at :: "('priv, 'pub) auth_env \<Rightarrow> rat \<Rightarrow> string \<Rightarrow> string \<Rightarrow> (nat \<Rightarrow> bool) \<Rightarrow> (string \<Rightarrow> bool) \<Rightarrow> rat \<Rightarrow>
    auth_db \<Rightarrow> auth_phase \<Rightarrow> (auth_phase \<times> auth_db) option" where
  "statement_at env appnow raw jti locked pending now db (Begun hash) =
     (case select_first (\<lambda>r. token_hash r = hash) (refresh_tokens db) of
        None \<Rightarrow> Some (Ended (Inl BAD_REFRESH), db)
      | Some row \<Rightarrow>
          if locked (rt_id row) then None
          else if revoked_at row \<noteq> None then Some (Ended (Inl BAD_REFRESH), db)
          else if used_at row \<noteq> None then Some (Replayed row, db)
          else if rt_expires_at row \<le> appnow then Some (Ended (Inl BAD_REFRESH), db)
          else Some (Chosen row, db))"
| "statement_at env appnow raw jti locked pending now db (Chosen row) =
     (case select_first (\<lambda>u. u_id u = rt_user_id row) (users db) of
        None \<Rightarrow> Some (Ended (Inl BAD_REFRESH), db)
      | Some u \<Rightarrow> Some (Loaded row (u_role u), db))"
| "statement_at env appnow raw jti locked pending now db (Loaded row rl) = Some (Used row rl, db)"
| "statement_at env appnow raw jti locked pending now db (Used row rl) =
     (let hash = ae_hmac env raw in
      if pending hash then None
      else if hash \<in> token_hash ` set (refresh_tokens db) then Some (Ended (Inl (DbError ''23505'')), db)
      else (let new = \<lparr>rt_id = next_token_id db, token_hash = hash, family_id = family_id row,
                       rt_user_id = rt_user_id row, used_at = None, revoked_at = None,
                       rt_expires_at = now + ae_refreshTtlSec env\<rparr>;
                access = sign (ae_lib env) (ae_tokens env) appnow jti (show_nat (rt_user_id row)) rl (family_id row)
            in Some (Inserted row new \<lparr>access_token = fst access, refresh_token = raw, token_type = ''Bearer'',
                       expires_in = ts_accessTtlSec (ae_tokens env)\<rparr>,
                     db\<lparr>next_token_id := Suc (next_token_id db)\<rparr>)))"
| "statement_at env appnow raw jti locked pending now db (Inserted row new pair) =
     Some (Ended (Inr (Some pair)), commit_exchange now row new db)"
| "statement_at env appnow raw jti locked pending now db (Replayed row) =
     Some (Revoking (family_id row) [rt_id row] (family_ids (family_id row) db) [] None, db)"
| "statement_at env appnow raw jti locked pending now db (LogoutBegun u) =
     Some (Revoking (au_fid u) [] (family_ids (au_fid u) db) [] (Some u), db)"
| "statement_at env appnow raw jti locked pending now db (Revoking fid own (i # todo) gone deny) =
     (if locked i then None
      else Some (Revoking fid own todo (if still_valid fid i db then gone @ [i] else gone) deny, db))"
| "statement_at env appnow raw jti locked pending now db (Revoking fid own [] gone deny) =
     Some (Ended (case deny of None \<Rightarrow> Inl BAD_REFRESH | Some _ \<Rightarrow> Inr None), commit_revoke now gone deny db)"
| "statement_at env appnow raw jti locked pending now db (Ended res) = None"

subsection \<open>Many transactions\<close>

record auth_txn =
  tx_now :: rat
  tx_phase :: auth_phase

record auth_world =
  aw_db :: auth_db
  aw_txns :: "auth_txn list"

abbreviation phase :: "auth_world \<Rightarrow> nat \<Rightarrow> auth_phase" where
  "phase w k \<equiv> tx_phase (aw_txns w ! k)"

definition row_locked :: "auth_world \<Rightarrow> nat \<Rightarrow> nat \<Rightarrow> bool" where
  "row_locked w k i \<longleftrightarrow> list_ex (\<lambda>j. j \<noteq> k \<and> i \<in> set (held (phase w j))) [0 ..< length (aw_txns w)]"

definition hash_pending :: "auth_world \<Rightarrow> nat \<Rightarrow> string \<Rightarrow> bool" where
  "hash_pending w k h \<longleftrightarrow>
     list_ex (\<lambda>j. j \<noteq> k \<and> map_option token_hash (inserted_row (phase w j)) = Some h) [0 ..< length (aw_txns w)]"

definition advance :: "nat \<Rightarrow> auth_phase \<Rightarrow> auth_db \<Rightarrow> auth_world \<Rightarrow> auth_world" where
  "advance k p db w = w\<lparr>aw_db := db, aw_txns := (aw_txns w)[k := (aw_txns w ! k)\<lparr>tx_phase := p\<rparr>]\<rparr>"

definition begin_txn :: "rat \<Rightarrow> auth_phase \<Rightarrow> auth_world \<Rightarrow> auth_world" where
  "begin_txn now p w = w\<lparr>aw_txns := aw_txns w @ [\<lparr>tx_now = now, tx_phase = p\<rparr>]\<rparr>"

definition statement :: "('priv, 'pub) auth_env \<Rightarrow> rat \<Rightarrow> string \<Rightarrow> string \<Rightarrow> nat \<Rightarrow> auth_world \<Rightarrow> auth_world option" where
  "statement env appnow raw jti k w =
     map_option (\<lambda>(p, db). advance k p db w)
       (statement_at env appnow raw jti (row_locked w k) (hash_pending w k) (tx_now (aw_txns w ! k)) (aw_db w) (phase w k))"

text \<open>
  What may happen next: a request begins its transaction, one of them executes its next
  statement or fails (a lost connection, a deadlock) and is rolled back, a login, which
  is one statement and draws a fresh family id, or a purge, which is one as well.  A
  login whose hash another transaction has just inserted waits for that one.
\<close>

inductive race_step :: "('priv, 'pub) auth_env \<Rightarrow> auth_world \<Rightarrow> auth_world \<Rightarrow> bool" for env where
  begin_refresh: "race_step env w (begin_txn now (Begun (ae_hmac env tok)) w)"
| begin_logout: "race_step env w (begin_txn now (LogoutBegun u) w)"
| execute: "k < length (aw_txns w) \<Longrightarrow> statement env appnow raw jti k w = Some w' \<Longrightarrow> race_step env w w'"
| abort: "k < length (aw_txns w) \<Longrightarrow> \<nexists>r. phase w k = Ended r \<Longrightarrow>
     race_step env w (advance k (Ended (Inl (DbError code))) (aw_db w) w)"
| login_now: "familyId \<notin> families (aw_db w) \<Longrightarrow> \<not> hash_pending w (length (aw_txns w)) (ae_hmac env raw) \<Longrightarrow>
     race_step env w (w\<lparr>aw_db := snd (login env now appnow raw jti familyId email password (aw_db w))\<rparr>)"
| purge_now: "race_step env w (w\<lparr>aw_db := snd (purgeDenylist now (aw_db w))\<rparr>)"

inductive race_run :: "('priv, 'pub) auth_env \<Rightarrow> auth_world \<Rightarrow> auth_world \<Rightarrow> bool" for env where
  race_refl: "race_run env w w"
| race_next: "race_run env w w' \<Longrightarrow> race_step env w' w'' \<Longrightarrow> race_run env w w''"

inductive_cases race_stepE: "race_step env w w'"

lemma race_run_trans: "race_run env w' w'' \<Longrightarrow> race_run env w w' \<Longrightarrow> race_run env w w''"
  by (induction rule: race_run.induct) (auto intro: race_next)

lemma advance_simps [simp]:
  "aw_db (advance k p db w) = db" "length (aw_txns (advance k p db w)) = length (aw_txns w)"
  "k < length (aw_txns w) \<Longrightarrow> phase (advance k p db w) j = (if j = k then p else phase w j)"
  "k < length (aw_txns w) \<Longrightarrow> tx_now (aw_txns (advance k p db w) ! j) = tx_now (aw_txns w ! j)"
  by (simp_all add: advance_def nth_list_update)

lemma begin_txn_simps [simp]:
  "aw_db (begin_txn now p w) = aw_db w" "length (aw_txns (begin_txn now p w)) = Suc (length (aw_txns w))"
  "j < length (aw_txns w) \<Longrightarrow> phase (begin_txn now p w) j = phase w j"
  "phase (begin_txn now p w) (length (aw_txns w)) = p"
  by (simp_all add: begin_txn_def nth_append)

lemma row_locked_iff: "row_locked w k i \<longleftrightarrow> (\<exists>j < length (aw_txns w). j \<noteq> k \<and> i \<in> set (held (phase w j)))"
  by (auto simp: row_locked_def list_ex_iff)

lemma hash_pending_iff:
  "hash_pending w k h \<longleftrightarrow>
     (\<exists>j < length (aw_txns w). j \<noteq> k \<and> (\<exists>new. inserted_row (phase w j) = Some new \<and> token_hash new = h))"
  by (auto simp: hash_pending_def list_ex_iff)

subsection \<open>The invariant\<close>

text \<open>
  What holds of the committed tables: ids, hashes and denied \<open>jti\<close>s are keys, a family has
  one user and at most one token that can still be exchanged.  (That a family is
  revoked as a whole does not hold, see \<open>overlapping_refresh_survives\<close>.)
\<close>

definition one_live :: "refresh_row \<Rightarrow> refresh_row \<Rightarrow> bool" where
  "one_live r s \<longleftrightarrow> (family_id r = family_id s \<longrightarrow> rt_user_id r = rt_user_id s \<and> (live r \<longrightarrow> live s \<longrightarrow> r = s))"

definition tokens_ok :: "auth_db \<Rightarrow> bool" where
  "tokens_ok db \<longleftrightarrow>
     distinct (map rt_id (refresh_tokens db)) \<and>
     (\<forall>r \<in> set (refresh_tokens db). rt_id r < next_token_id db) \<and>
     distinct (map token_hash (refresh_tokens db)) \<and>
     distinct (map dn_jti (access_denylist db)) \<and>
     (\<forall>r \<in> set (refresh_tokens db). \<forall>s \<in> set (refresh_tokens db). one_live r s)"

text \<open>What a transaction in a phase relies on.\<close>

fun phase_ok :: "auth_db \<Rightarrow> auth_phase \<Rightarrow> bool" where
  "phase_ok db (Chosen r) = (r \<in> set (refresh_tokens db) \<and> live r)"
| "phase_ok db (Loaded r _) = (r \<in> set (refresh_tokens db) \<and> live r)"
| "phase_ok db (Used r _) = (r \<in> set (refresh_tokens db) \<and> live r)"
| "phase_ok db (Inserted r new _) = (r \<in> set (refresh_tokens db) \<and> live r \<and> live new \<and>
     family_id new = family_id r \<and> rt_user_id new = rt_user_id r \<and> rt_id new < next_token_id db \<and>
     rt_id new \<notin> rt_id ` set (refresh_tokens db) \<and> token_hash new \<notin> token_hash ` set (refresh_tokens db))"
| "phase_ok db (Replayed r) = (r \<in> set (refresh_tokens db) \<and> used_at r \<noteq> None \<and> revoked_at r = None)"
| "phase_ok db (Revoking fid own todo gone deny) =
     (\<forall>i \<in> set gone. \<exists>r \<in> set (refresh_tokens db). rt_id r = i \<and> family_id r = fid \<and> revoked_at r = None)"
| "phase_ok db _ = True"

definition apart :: "auth_phase \<Rightarrow> auth_phase \<Rightarrow> bool" where
  "apart p q \<longleftrightarrow> set (held p) \<inter> set (held q) = {} \<and>
     (\<forall>m n. inserted_row p = Some m \<longrightarrow> inserted_row q = Some n \<longrightarrow> rt_id m \<noteq> rt_id n \<and> token_hash m \<noteq> token_hash n)"

definition race_ok :: "auth_world \<Rightarrow> bool" where
  "race_ok w \<longleftrightarrow> tokens_ok (aw_db w) \<and>
     (\<forall>k < length (aw_txns w). phase_ok (aw_db w) (phase w k)) \<and>
     (\<forall>k < length (aw_txns w). \<forall>j < length (aw_txns w). j \<noteq> k \<longrightarrow> apart (phase w k) (phase w j))"

lemma apart_sym: "apart p q \<longleftrightarrow> apart q p"
  unfolding apart_def by (metis inf_commute)

lemma race_okD:
  assumes "race_ok w"
  shows "tokens_ok (aw_db w)" "k < length (aw_txns w) \<Longrightarrow> phase_ok (aw_db w) (phase w k)"
    "k < length (aw_txns w) \<Longrightarrow> j < length (aw_txns w) \<Longrightarrow> j \<noteq> k \<Longrightarrow> apart (phase w k) (phase w j)"
  using assms by (auto simp: race_ok_def)

text \<open>A change of the tables elsewhere does not disturb a phase.\<close>

lemma phase_ok_frame:
  assumes ok: "phase_ok db q"
    and keep: "\<And>r. r \<in> set (refresh_tokens db) \<Longrightarrow> rt_id r \<in> set (held q) \<Longrightarrow> r \<in> set (refresh_tokens db')"
    and new: "\<And>n. inserted_row q = Some n \<Longrightarrow> rt_id n \<notin> rt_id ` set (refresh_tokens db') \<and>
        token_hash n \<notin> token_hash ` set (refresh_tokens db')"
    and seq: "next_token_id db \<le> next_token_id db'"
  shows "phase_ok db' q"
proof (cases q)
  case (Revoking fid own todo gone deny)
  have "\<exists>r \<in> set (refresh_tokens db'). rt_id r = i \<and> family_id r = fid \<and> revoked_at r = None" if "i \<in> set gone" for i
    using ok keep that unfolding Revoking by fastforce
  then show ?thesis by (simp add: Revoking)
next
  case (Inserted r n pair)
  then show ?thesis using ok keep [of r] new [of n] seq by auto
qed (use ok keep in auto)

lemma race_ok_advance:
  assumes ok: "race_ok w" and k: "k < length (aw_txns w)"
    and db: "tokens_ok db" and p: "phase_ok db p"
    and keep: "\<And>r. r \<in> set (refresh_tokens (aw_db w)) \<Longrightarrow> rt_id r \<notin> set (held (phase w k)) \<Longrightarrow> r \<in> set (refresh_tokens db)"
    and new: "\<And>r. r \<in> set (refresh_tokens db) \<Longrightarrow> inserted_row (phase w k) = Some r \<or>
        rt_id r \<in> rt_id ` set (refresh_tokens (aw_db w)) \<and> token_hash r \<in> token_hash ` set (refresh_tokens (aw_db w))"
    and seq: "next_token_id (aw_db w) \<le> next_token_id db"
    and apart: "\<And>j. j < length (aw_txns w) \<Longrightarrow> j \<noteq> k \<Longrightarrow> apart p (phase w j)"
  shows "race_ok (advance k p db w)"
proof -
  have other: "phase_ok db (phase w j)" if j: "j < length (aw_txns w)" "j \<noteq> k" for j
  proof (rule phase_ok_frame [OF race_okD(2) [OF ok j(1)] _ _ seq])
    note a = race_okD(3) [OF ok k j]
    fix r assume "r \<in> set (refresh_tokens (aw_db w))" "rt_id r \<in> set (held (phase w j))"
    then show "r \<in> set (refresh_tokens db)" using keep a by (auto simp: apart_def)
  next
    note a = race_okD(3) [OF ok k j]
    fix n assume n: "inserted_row (phase w j) = Some n"
    have "rt_id n \<notin> rt_id ` set (refresh_tokens (aw_db w))" "token_hash n \<notin> token_hash ` set (refresh_tokens (aw_db w))"
      using race_okD(2) [OF ok j(1)] n by (cases "phase w j"; auto)+
    then show "rt_id n \<notin> rt_id ` set (refresh_tokens db) \<and> token_hash n \<notin> token_hash ` set (refresh_tokens db)"
      using new a n unfolding apart_def by (metis (no_types, lifting) imageE)
  qed
  then show ?thesis
    using db p apart apart_sym race_okD(3) [OF ok] k unfolding race_ok_def by (auto simp: nth_list_update)
qed

text \<open>A statement that changes no table.\<close>

lemma race_ok_goto:
  assumes ok: "race_ok w" and k: "k < length (aw_txns w)" and p: "phase_ok (aw_db w) p" "inserted_row p = None"
    and held: "\<And>i. i \<in> set (held p) \<Longrightarrow> i \<in> set (held (phase w k)) \<or> \<not> row_locked w k i"
  shows "race_ok (advance k p (aw_db w) w)"
proof (rule race_ok_advance [OF ok k race_okD(1) [OF ok] p(1)])
  fix j assume j: "j < length (aw_txns w)" "j \<noteq> k"
  show "apart p (phase w j)"
    using held race_okD(3) [OF ok k j] p(2) j unfolding apart_def row_locked_iff by fastforce
qed auto

lemma tokens_ok_agree:
  "tokens_ok db \<Longrightarrow> r \<in> set (refresh_tokens db) \<Longrightarrow> s \<in> set (refresh_tokens db) \<Longrightarrow> one_live r s"
  by (simp add: tokens_ok_def)

lemma tokens_ok_seq: "tokens_ok db \<Longrightarrow> next_token_id db \<le> n \<Longrightarrow> tokens_ok (db\<lparr>next_token_id := n\<rparr>)"
  by (auto simp: tokens_ok_def)

lemma tokens_ok_map:
  assumes ok: "tokens_ok db"
    and keys: "\<And>r. rt_id (f r) = rt_id r" "\<And>r. token_hash (f r) = token_hash r"
    and one: "\<And>r s. one_live r s \<Longrightarrow> one_live (f r) (f s)"
    and db': "refresh_tokens db' = map f (refresh_tokens db)" "next_token_id db' = next_token_id db"
      "distinct (map dn_jti (access_denylist db'))"
  shows "tokens_ok db'"
proof -
  have "rt_id \<circ> f = rt_id" "token_hash \<circ> f = token_hash" by (simp_all add: fun_eq_iff keys)
  then show ?thesis using ok one db'(3) unfolding tokens_ok_def db'(1,2) map_map by (auto simp: keys)
qed

lemma tokens_ok_add:
  assumes ok: "tokens_ok db"
    and new: "rt_id new \<notin> rt_id ` set (refresh_tokens db)" "rt_id new < next_token_id db"
      "token_hash new \<notin> token_hash ` set (refresh_tokens db)"
    and one: "\<And>r. r \<in> set (refresh_tokens db) \<Longrightarrow> one_live r new \<and> one_live new r"
  shows "tokens_ok (db\<lparr>refresh_tokens := refresh_tokens db @ [new]\<rparr>)"
proof -
  have "one_live new new" by (simp add: one_live_def)
  then show ?thesis using ok new one unfolding tokens_ok_def by auto
qed

lemma tokens_ok_exchange:
  assumes ok: "tokens_ok db" and p: "phase_ok db (Inserted row new pair)"
  shows "tokens_ok (commit_exchange now row new db)"
proof -
  define f where "f r = (if rt_id r = rt_id row then r\<lparr>used_at := Some now\<rparr> else r)" for r :: refresh_row
  have f: "rt_id (f r) = rt_id r" "token_hash (f r) = token_hash r" "family_id (f r) = family_id r"
    "rt_user_id (f r) = rt_user_id r" "live (f r) \<longleftrightarrow> live r \<and> rt_id r \<noteq> rt_id row" for r
    by (auto simp: f_def live_def)
  let ?db = "db\<lparr>refresh_tokens := map f (refresh_tokens db)\<rparr>"
  have "tokens_ok ?db"
  proof (rule tokens_ok_map [OF ok f(1,2)])
    show "one_live (f r) (f s)" if "one_live r s" for r s using that by (auto simp: one_live_def f)
    show "distinct (map dn_jti (access_denylist ?db))" using ok by (simp add: tokens_ok_def)
  qed simp_all
  moreover have "one_live (f r) new \<and> one_live new (f r)" if r: "r \<in> set (refresh_tokens db)" for r
  proof -
    have "one_live r row" using tokens_ok_agree [OF ok r] p by simp
    then show ?thesis using p by (auto simp: one_live_def f)
  qed
  ultimately have "tokens_ok (?db\<lparr>refresh_tokens := refresh_tokens ?db @ [new]\<rparr>)"
    using p by (intro tokens_ok_add) (auto simp: f)
  then show ?thesis by (simp add: commit_exchange_def update_where_def f_def [abs_def])
qed

lemma revoked_rows: "refresh_tokens (commit_revoke now locked deny db) =
    update_where (\<lambda>r. rt_id r \<in> set locked) (\<lambda>r. r\<lparr>revoked_at := Some now\<rparr>) (refresh_tokens db)"
  "next_token_id (commit_revoke now locked deny db) = next_token_id db" "users (commit_revoke now locked deny db) = users db"
  by (simp_all add: commit_revoke_def Let_def split: option.split)

lemma tokens_ok_revoke:
  assumes ok: "tokens_ok db" shows "tokens_ok (commit_revoke now locked deny db)"
proof -
  define f where "f r = (if rt_id r \<in> set locked then r\<lparr>revoked_at := Some now\<rparr> else r)" for r :: refresh_row
  have f: "rt_id (f r) = rt_id r" "token_hash (f r) = token_hash r" "family_id (f r) = family_id r"
    "rt_user_id (f r) = rt_user_id r" "live (f r) \<Longrightarrow> f r = r" for r
    by (auto simp: f_def live_def)
  show ?thesis
  proof (rule tokens_ok_map [OF ok f(1,2)])
    show "one_live (f r) (f s)" if "one_live r s" for r s
      using that f(3-5) unfolding one_live_def by metis
    show "distinct (map dn_jti (access_denylist (commit_revoke now locked deny db)))"
      using ok by (auto simp: tokens_ok_def commit_revoke_def insert_on_conflict_def Let_def split: option.split)
  qed (simp_all add: revoked_rows update_where_def f_def [abs_def])
qed

text \<open>A statement keeps the invariant.\<close>

lemma statementE:
  assumes "statement env a raw jti k w = Some w'"
  obtains p db where "statement_at env a raw jti (row_locked w k) (hash_pending w k) (tx_now (aw_txns w ! k)) (aw_db w) (phase w k) = Some (p, db)"
    "w' = advance k p db w"
  using assms by (auto simp: statement_def)

lemma statement_insert_ok:
  assumes ok: "race_ok w" and k: "k < length (aw_txns w)" and ph: "phase w k = Used row rl"
    and st: "statement env a raw jti k w = Some w'"
  shows "race_ok w'"
proof -
  note P = race_okD(2) [OF ok k, unfolded ph] and T = race_okD(1) [OF ok]
  let ?h = "ae_hmac env raw"
  have free: "\<not> hash_pending w k ?h" using st by (auto simp: statement_def ph Let_def split: if_splits)
  show ?thesis
  proof (cases "?h \<in> token_hash ` set (refresh_tokens (aw_db w))")
    case True
    then have "w' = advance k (Ended (Inl (DbError ''23505''))) (aw_db w) w" using st free by (simp add: statement_def ph)
    then show ?thesis using race_ok_goto [OF ok k, of "Ended (Inl (DbError ''23505''))"] by simp
  next
    case False
    define new where "new = \<lparr>rt_id = next_token_id (aw_db w), token_hash = ?h, family_id = family_id row,
      rt_user_id = rt_user_id row, used_at = None, revoked_at = None,
      rt_expires_at = tx_now (aw_txns w ! k) + ae_refreshTtlSec env\<rparr>"
    let ?db = "(aw_db w)\<lparr>next_token_id := Suc (next_token_id (aw_db w))\<rparr>"
    obtain pair where w': "w' = advance k (Inserted row new pair) ?db w"
      using st free False by (auto simp: statement_def ph Let_def new_def)
    show ?thesis unfolding w'
    proof (rule race_ok_advance [OF ok k])
      show "tokens_ok ?db" using T by (intro tokens_ok_seq) simp_all
      show "phase_ok ?db (Inserted row new pair)"
        using P T False by (auto simp: new_def live_def tokens_ok_def)
      fix j assume j: "j < length (aw_txns w)" "j \<noteq> k"
      have "rt_id n < next_token_id (aw_db w)" if "inserted_row (phase w j) = Some n" for n
        using race_okD(2) [OF ok j(1)] that by (cases "phase w j") auto
      moreover have "token_hash n \<noteq> ?h" if "inserted_row (phase w j) = Some n" for n
        using free j that by (auto simp: hash_pending_iff)
      ultimately show "apart (Inserted row new pair) (phase w j)"
        using race_okD(3) [OF ok k j] ph by (auto simp: apart_def new_def)
    qed auto
  qed
qed

lemma statement_commit_ok:
  assumes ok: "race_ok w" and k: "k < length (aw_txns w)"
    and ph: "phase w k = Inserted row new pair \<or> phase w k = Revoking fid own [] gone deny"
    and st: "statement env a raw jti k w = Some w'"
  shows "race_ok w'"
  using ph
proof
  assume ph: "phase w k = Inserted row new pair"
  have w': "w' = advance k (Ended (Inr (Some pair))) (commit_exchange (tx_now (aw_txns w ! k)) row new (aw_db w)) w"
    using st by (simp add: statement_def ph)
  note P = race_okD(2) [OF ok k, unfolded ph]
  show ?thesis unfolding w'
    by (rule race_ok_advance [OF ok k tokens_ok_exchange [OF race_okD(1) [OF ok] P]])
      (use P in \<open>auto simp: commit_exchange_def ph set_update_where apart_def\<close>)
next
  assume ph: "phase w k = Revoking fid own [] gone deny"
  have w': "w' = advance k (Ended (case deny of None \<Rightarrow> Inl BAD_REFRESH | Some _ \<Rightarrow> Inr None))
      (commit_revoke (tx_now (aw_txns w ! k)) gone deny (aw_db w)) w"
    using st by (simp add: statement_def ph)
  show ?thesis unfolding w'
    by (rule race_ok_advance [OF ok k tokens_ok_revoke [OF race_okD(1) [OF ok]]])
      (auto simp: revoked_rows ph set_update_where apart_def)
qed

lemma statement_ok:
  assumes ok: "race_ok w" and k: "k < length (aw_txns w)" and st: "statement env a raw jti k w = Some w'"
  shows "race_ok w'"
proof -
  note P = race_okD(2) [OF ok k] and goto = race_ok_goto [OF ok k]
  show ?thesis
  proof (cases "phase w k")
    case (Begun h)
    then show ?thesis using st
      by (auto simp: statement_def live_def split: option.splits if_splits dest!: select_first_Some intro!: goto)
  next
    case (Chosen row)
    then show ?thesis using st P by (auto simp: statement_def split: option.splits intro!: goto)
  next
    case (Loaded row rl)
    then show ?thesis using st P by (auto simp: statement_def intro!: goto)
  next
    case (Used row rl)
    then show ?thesis by (rule statement_insert_ok [OF ok k _ st])
  next
    case (Inserted row new pair)
    then show ?thesis using statement_commit_ok [OF ok k _ st] by blast
  next
    case (Replayed row)
    then show ?thesis using st by (auto simp: statement_def intro!: goto)
  next
    case (LogoutBegun u)
    then show ?thesis using st by (auto simp: statement_def intro!: goto)
  next
    case (Revoking fid own todo gone deny)
    show ?thesis
    proof (cases todo)
      case Nil
      then show ?thesis using statement_commit_ok [OF ok k _ st] Revoking by blast
    next
      case (Cons i todo')
      then have i: "\<not> row_locked w k i" and w': "w' = advance k (Revoking fid own todo'
          (if still_valid fid i (aw_db w) then gone @ [i] else gone) deny) (aw_db w) w"
        using st Revoking by (auto simp: statement_def split: if_splits)
      show ?thesis unfolding w'
        by (rule goto) (use P Revoking i in \<open>auto simp: still_valid_def list_ex_iff split: if_splits\<close>)
    qed
  qed (use st in \<open>simp add: statement_def\<close>)
qed

subsection \<open>Every step keeps it\<close>

lemma race_ok_tables:
  assumes ok: "race_ok w" and db: "tokens_ok db" "set (refresh_tokens (aw_db w)) \<subseteq> set (refresh_tokens db)"
    and new: "\<And>r. r \<in> set (refresh_tokens db) \<Longrightarrow> r \<in> set (refresh_tokens (aw_db w)) \<or>
        rt_id r = next_token_id (aw_db w) \<and> \<not> hash_pending w (length (aw_txns w)) (token_hash r)"
    and seq: "next_token_id (aw_db w) \<le> next_token_id db"
  shows "race_ok (w\<lparr>aw_db := db\<rparr>)"
proof -
  have "phase_ok db (phase w k)" if k: "k < length (aw_txns w)" for k
  proof (rule phase_ok_frame [OF race_okD(2) [OF ok k] _ _ seq])
    fix n assume n: "inserted_row (phase w k) = Some n"
    then have "rt_id n < next_token_id (aw_db w)" "rt_id n \<notin> rt_id ` set (refresh_tokens (aw_db w))"
      "token_hash n \<notin> token_hash ` set (refresh_tokens (aw_db w))"
      using race_okD(2) [OF ok k] by (cases "phase w k"; auto)+
    moreover have "hash_pending w (length (aw_txns w)) (token_hash n)"
      using n k unfolding hash_pending_iff by (metis nat_neq_iff)
    ultimately show "rt_id n \<notin> rt_id ` set (refresh_tokens db) \<and> token_hash n \<notin> token_hash ` set (refresh_tokens db)"
      using new by (metis (no_types, lifting) imageE image_eqI less_irrefl)
  qed (use db(2) in blast)
  then show ?thesis using ok db(1) by (simp add: race_ok_def)
qed

lemma login_rows:
  obtains (same) "snd (login env t a raw jti f email pw db) = db"
  | (added) new where "snd (login env t a raw jti f email pw db) =
        db\<lparr>refresh_tokens := refresh_tokens db @ [new], next_token_id := Suc (next_token_id db)\<rparr>"
      "rt_id new = next_token_id db" "token_hash new = ae_hmac env raw" "family_id new = f"
      "ae_hmac env raw \<notin> token_hash ` set (refresh_tokens db)"
proof (cases "snd (login env t a raw jti f email pw db) = db")
  case False
  then obtain u where u: "select_first (\<lambda>u. u_email u = email) (users db) = Some u"
    by (cases "select_first (\<lambda>u. u_email u = email) (users db)") (auto simp: login_def)
  with False have i: "snd (login env t a raw jti f email pw db) = snd (issue env t a raw jti (u_id u) (u_role u) f db)"
    by (auto simp: login_def Let_def split: if_splits)
  with False have "ae_hmac env raw \<notin> token_hash ` set (refresh_tokens db)" by (auto simp: issue_def)
  with i show thesis
    by (intro added [of "\<lparr>rt_id = next_token_id db, token_hash = ae_hmac env raw, family_id = f, rt_user_id = u_id u,
        used_at = None, revoked_at = None, rt_expires_at = t + ae_refreshTtlSec env\<rparr>"]) (simp_all add: issue_def Let_def)
qed (rule same)

lemma race_ok_login:
  assumes ok: "race_ok w" and f: "f \<notin> families (aw_db w)" and h: "\<not> hash_pending w (length (aw_txns w)) (ae_hmac env raw)"
  shows "race_ok (w\<lparr>aw_db := snd (login env t a raw jti f email pw (aw_db w))\<rparr>)"
proof (cases rule: login_rows [of env t a raw jti f email pw "aw_db w"])
  case same
  then show ?thesis using ok by simp
next
  case (added new)
  let ?db = "(aw_db w)\<lparr>next_token_id := Suc (next_token_id (aw_db w))\<rparr>"
  note T = race_okD(1) [OF ok]
  have other: "one_live r new \<and> one_live new r" if "r \<in> set (refresh_tokens (aw_db w))" for r
    using f that added(4) by (auto simp: one_live_def families_def image_iff)
  have "tokens_ok (?db\<lparr>refresh_tokens := refresh_tokens ?db @ [new]\<rparr>)"
    using tokens_ok_seq [OF T, of "Suc (next_token_id (aw_db w))"] T added(2,3,5) other
    by (intro tokens_ok_add) (auto simp: tokens_ok_def)
  moreover have "?db\<lparr>refresh_tokens := refresh_tokens ?db @ [new]\<rparr> =
      (aw_db w)\<lparr>refresh_tokens := refresh_tokens (aw_db w) @ [new], next_token_id := Suc (next_token_id (aw_db w))\<rparr>"
    by (cases "aw_db w") simp
  ultimately have "tokens_ok ((aw_db w)\<lparr>refresh_tokens := refresh_tokens (aw_db w) @ [new],
      next_token_id := Suc (next_token_id (aw_db w))\<rparr>)" by (simp only:)
  then show ?thesis
    unfolding added(1) by (rule race_ok_tables [OF ok]) (use added(2-5) h in auto)
qed

lemma race_ok_begin:
  assumes ok: "race_ok w" and p: "held p = []" "inserted_row p = None" "phase_ok (aw_db w) p"
  shows "race_ok (begin_txn now p w)"
proof -
  let ?w = "begin_txn now p w"
  have none: "apart p q" "apart q p" for q using p by (simp_all add: apart_def)
  have phases: "phase ?w k = (if k = length (aw_txns w) then p else phase w k)" if "k < length (aw_txns ?w)" for k
    using that by (auto simp: less_Suc_eq)
  have "phase_ok (aw_db w) (phase ?w k)" if "k < length (aw_txns ?w)" for k
    using phases [OF that] that p(3) race_okD(2) [OF ok, of k] by (auto simp: less_Suc_eq)
  moreover have "apart (phase ?w k) (phase ?w j)" if "k < length (aw_txns ?w)" "j < length (aw_txns ?w)" "j \<noteq> k" for k j
    using phases [OF that(1)] phases [OF that(2)] that none race_okD(3) [OF ok, of k j] by (auto simp: less_Suc_eq)
  ultimately show ?thesis using race_okD(1) [OF ok] unfolding race_ok_def by simp
qed

lemma race_step_ok: "race_step env w w' \<Longrightarrow> race_ok w \<Longrightarrow> race_ok w'"
proof (induction rule: race_step.induct)
  case (execute k w a raw jti w')
  then show ?case using statement_ok by blast
next
  case (abort k w code)
  then show ?case by (intro race_ok_goto) simp_all
next
  case (login_now f w raw now appnow jti email pw)
  then show ?case using race_ok_login by blast
next
  case (purge_now w now)
  then show ?case
    by (intro race_ok_tables) (auto simp: race_ok_def tokens_ok_def purgeDenylist_def distinct_map_filter)
qed (simp_all add: race_ok_begin)

lemma race_run_ok: "race_run env w w' \<Longrightarrow> race_ok w \<Longrightarrow> race_ok w'"
  by (induction rule: race_run.induct) (auto intro: race_step_ok)

lemma race_ok_start: "tokens_ok db \<Longrightarrow> race_ok \<lparr>aw_db = db, aw_txns = []\<rparr>"
  by (simp add: race_ok_def)

subsection \<open>What is used or revoked stays so\<close>

definition later_row :: "refresh_row \<Rightarrow> refresh_row \<Rightarrow> bool" where
  "later_row r r' \<longleftrightarrow> rt_id r' = rt_id r \<and> token_hash r' = token_hash r \<and> family_id r' = family_id r \<and>
     rt_user_id r' = rt_user_id r \<and> rt_expires_at r' = rt_expires_at r \<and>
     (used_at r \<noteq> None \<longrightarrow> used_at r' = used_at r) \<and> (revoked_at r \<noteq> None \<longrightarrow> revoked_at r' = revoked_at r)"

definition rows_later :: "auth_db \<Rightarrow> auth_db \<Rightarrow> bool" where
  "rows_later db db' \<longleftrightarrow> (\<forall>r \<in> set (refresh_tokens db). \<exists>r' \<in> set (refresh_tokens db'). later_row r r')"

lemma later_row_refl [simp]: "later_row r r"
  by (simp add: later_row_def)

lemma later_row_trans: "later_row r s \<Longrightarrow> later_row s t \<Longrightarrow> later_row r t"
  by (auto simp: later_row_def)

lemma later_row_update: "later_row r r' \<Longrightarrow> r' = r\<lparr>used_at := used_at r', revoked_at := revoked_at r'\<rparr>"
  by (cases r; cases r') (simp add: later_row_def)

lemma rows_later_same: "set (refresh_tokens db) \<subseteq> set (refresh_tokens db') \<Longrightarrow> rows_later db db'"
  unfolding rows_later_def using later_row_refl by blast

lemma rows_later_update:
  assumes "\<And>r. r \<in> set (refresh_tokens db) \<Longrightarrow> later_row r (f r)"
    and "f ` set (refresh_tokens db) \<subseteq> set (refresh_tokens db')"
  shows "rows_later db db'"
  using assms unfolding rows_later_def by blast

lemma rows_later_ids:
  assumes "rows_later db db'" shows "rt_id ` set (refresh_tokens db) \<subseteq> rt_id ` set (refresh_tokens db')"
proof
  fix i assume "i \<in> rt_id ` set (refresh_tokens db)"
  then obtain r where "r \<in> set (refresh_tokens db)" "rt_id r = i" by blast
  then obtain r' where "r' \<in> set (refresh_tokens db')" "rt_id r' = i"
    using assms unfolding rows_later_def later_row_def by blast
  then show "i \<in> rt_id ` set (refresh_tokens db')" by blast
qed

lemma rows_later_trans: "rows_later a b \<Longrightarrow> rows_later b c \<Longrightarrow> rows_later a c"
  unfolding rows_later_def using later_row_trans by meson

text \<open>Only a commit of an exchange or of a revocation changes the rows.\<close>

lemma statement_rows:
  assumes "statement_at env a raw jti locked pending now db p = Some (p', db')"
  obtains (kept) "refresh_tokens db' = refresh_tokens db"
  | (exchange) row new pair where "p = Inserted row new pair" "db' = commit_exchange now row new db"
      "p' = Ended (Inr (Some pair))"
  | (revoke) fid own gone deny where "p = Revoking fid own [] gone deny" "db' = commit_revoke now gone deny db"
proof (cases p)
  case (Revoking fid own todo gone deny)
  then show ?thesis using assms kept revoke by (cases todo) (auto split: if_splits)
next
  case (Inserted row new pair)
  then show ?thesis using assms exchange by simp
next
  case (Used row rl)
  then show ?thesis using assms kept by (auto simp: Let_def split: if_splits)
qed (use assms kept in \<open>auto split: option.splits if_splits\<close>)

lemma statement_later:
  assumes ok: "race_ok w" and k: "k < length (aw_txns w)" and st: "statement env a raw jti k w = Some w'"
  shows "rows_later (aw_db w) (aw_db w')"
proof -
  note P = race_okD(2) [OF ok k]
  have ids: "distinct (map rt_id (refresh_tokens (aw_db w)))" using race_okD(1) [OF ok] by (simp add: tokens_ok_def)
  from st obtain p db where s: "statement_at env a raw jti (row_locked w k) (hash_pending w k) (tx_now (aw_txns w ! k)) (aw_db w) (phase w k) = Some (p, db)"
    and w': "aw_db w' = db" by (auto elim: statementE)
  from s show ?thesis
  proof (cases rule: statement_rows)
    case kept
    then show ?thesis by (simp add: rows_later_same w')
  next
    case (exchange row new pair)
    have "row \<in> set (refresh_tokens (aw_db w))" "used_at row = None" using P exchange(1) by (auto simp: live_def)
    then have "used_at r = None" if "r \<in> set (refresh_tokens (aw_db w))" "rt_id r = rt_id row" for r
      using distinct_key_unique [OF ids that(1)] that(2) by metis
    then show ?thesis
      unfolding w' exchange(2)
      by (intro rows_later_update [where f = "\<lambda>r. if rt_id r = rt_id row then r\<lparr>used_at := Some (tx_now (aw_txns w ! k))\<rparr> else r"])
        (auto simp: later_row_def commit_exchange_def set_update_where)
  next
    case (revoke fid own gone deny)
    have "revoked_at r = None" if r: "r \<in> set (refresh_tokens (aw_db w))" "rt_id r \<in> set gone" for r
    proof -
      obtain r0 where r0: "r0 \<in> set (refresh_tokens (aw_db w))" "rt_id r0 = rt_id r" "revoked_at r0 = None"
        using P revoke(1) r(2) by auto
      then show ?thesis using distinct_key_unique [OF ids r0(1) r(1) r0(2)] by simp
    qed
    then show ?thesis
      unfolding w' revoke(2)
      by (intro rows_later_update [where f = "\<lambda>r. if rt_id r \<in> set gone then r\<lparr>revoked_at := Some (tx_now (aw_txns w ! k))\<rparr> else r"])
        (auto simp: later_row_def revoked_rows set_update_where)
  qed
qed

lemma race_step_later: "race_step env w w' \<Longrightarrow> race_ok w \<Longrightarrow> rows_later (aw_db w) (aw_db w')"
proof (induction rule: race_step.induct)
  case (execute k w a raw jti w')
  then show ?case using statement_later by blast
next
  case (login_now f w raw now appnow jti email pw)
  show ?case
    by (cases rule: login_rows [of env now appnow raw jti f email pw "aw_db w"]) (auto intro!: rows_later_same)
qed (auto intro!: rows_later_same simp: purgeDenylist_def)

lemma race_run_later: "race_run env w w' \<Longrightarrow> race_ok w \<Longrightarrow> rows_later (aw_db w) (aw_db w')"
proof (induction rule: race_run.induct)
  case (race_next w w' w'')
  then show ?case using rows_later_trans race_step_later race_run_ok by blast
qed (simp add: rows_later_same)

text \<open>A row of the later tables whose id was there before is the later form of that row.\<close>

lemma rows_later_origin:
  assumes "rows_later db db'" "tokens_ok db'" "r' \<in> set (refresh_tokens db')" "rt_id r' \<in> rt_id ` set (refresh_tokens db)"
  obtains r where "r \<in> set (refresh_tokens db)" "later_row r r'"
proof -
  obtain r where r: "r \<in> set (refresh_tokens db)" "rt_id r = rt_id r'" using assms(4) by auto
  then obtain r'' where "r'' \<in> set (refresh_tokens db')" "later_row r r''" using assms(1) by (auto simp: rows_later_def)
  moreover from this have "r'' = r'"
    using assms(2,3) r(2) distinct_key_unique [of rt_id "refresh_tokens db'" r'' r'] by (auto simp: tokens_ok_def later_row_def)
  ultimately show thesis using that r(1) by blast
qed

subsection \<open>Where a new token comes from\<close>

text \<open>The row a transaction is exchanging.\<close>

fun exchanging :: "auth_phase \<Rightarrow> refresh_row option" where
  "exchanging (Chosen r) = Some r"
| "exchanging (Loaded r _) = Some r"
| "exchanging (Used r _) = Some r"
| "exchanging (Inserted r _ _) = Some r"
| "exchanging _ = None"

lemma exchanging_live:
  "phase_ok db p \<Longrightarrow> exchanging p = Some r \<Longrightarrow> r \<in> set (refresh_tokens db) \<and> live r \<and> rt_id r \<in> set (held p)"
  by (cases p) auto

text \<open>A step adds only the token of an exchange that commits, or one of a new family.\<close>

lemma race_step_new:
  assumes step: "race_step env w w'" and ok: "race_ok w" and r': "r' \<in> set (refresh_tokens (aw_db w'))"
  shows "rt_id r' \<in> rt_id ` set (refresh_tokens (aw_db w)) \<or> family_id r' \<notin> families (aw_db w) \<or>
    (\<exists>r \<in> set (refresh_tokens (aw_db w)). live r \<and> family_id r = family_id r')"
  using step
proof (cases rule: race_step.cases)
  case (execute k a raw jti)
  from execute(2) obtain p db where
    s: "statement_at env a raw jti (row_locked w k) (hash_pending w k) (tx_now (aw_txns w ! k)) (aw_db w) (phase w k) = Some (p, db)"
    and w': "aw_db w' = db" by (auto elim: statementE)
  note P = race_okD(2) [OF ok execute(1)]
  from s show ?thesis
  proof (cases rule: statement_rows)
    case kept
    then show ?thesis using r' w' by auto
  next
    case (exchange row new pair)
    then have "r' = new \<or> rt_id r' \<in> rt_id ` set (refresh_tokens (aw_db w))"
      using r' w' P exchange(1) by (auto simp: commit_exchange_def set_update_where image_iff)
    then show ?thesis using P exchange(1) by auto
  next
    case (revoke fid own gone deny)
    then show ?thesis using r' w' by (auto simp: revoked_rows set_update_where image_iff)
  qed
next
  case (login_now f raw now appnow jti email pw)
  show ?thesis
    by (cases rule: login_rows [of env now appnow raw jti f email pw "aw_db w"]) (use login_now r' in auto)
qed (use r' in \<open>auto simp: purgeDenylist_def\<close>)

text \<open>A family whose tokens are all revoked stays so.\<close>

lemma dead_step:
  assumes step: "race_step env w w'" and ok: "race_ok w" and dead: "family_dead fid (aw_db w)"
  shows "family_dead fid (aw_db w')"
proof -
  have later: "rows_later (aw_db w) (aw_db w')" using race_step_later [OF step ok] .
  have T: "tokens_ok (aw_db w')" using race_okD(1) [OF race_step_ok [OF step ok]] .
  have all: "revoked_at r' \<noteq> None" if r': "r' \<in> set (refresh_tokens (aw_db w'))" "family_id r' = fid" for r'
  proof -
    have "\<not> (\<exists>r \<in> set (refresh_tokens (aw_db w)). live r \<and> family_id r = fid)" "fid \<in> families (aw_db w)"
      using dead by (auto simp: family_dead_def live_def)
    then have "rt_id r' \<in> rt_id ` set (refresh_tokens (aw_db w))"
      using race_step_new [OF step ok r'(1)] r'(2) by blast
    with rows_later_origin [OF later T r'(1)] show ?thesis
      using dead r'(2) by (metis family_dead_def later_row_def)
  qed
  obtain r where "r \<in> set (refresh_tokens (aw_db w))" "family_id r = fid" using dead by (auto simp: family_dead_def families_def)
  then have "fid \<in> families (aw_db w')" using later unfolding rows_later_def later_row_def families_def by (metis image_eqI)
  with all show ?thesis by (simp add: family_dead_def)
qed

lemma dead_run: "race_run env w w' \<Longrightarrow> race_ok w \<Longrightarrow> family_dead fid (aw_db w) \<Longrightarrow> family_dead fid (aw_db w')"
  by (induction rule: race_run.induct) (auto intro: dead_step race_run_ok)

subsection \<open>A revocation reaches every token its snapshot shows\<close>

text \<open>
  The transaction \<open>k\<close> is to revoke the tokens with the ids \<open>S\<close>: it has not begun its
  \<open>UPDATE\<close>, or each of them is still to be locked, locked or revoked, or it has committed.
\<close>

definition revoking :: "nat set \<Rightarrow> string \<Rightarrow> nat \<Rightarrow> auth_world \<Rightarrow> bool" where
  "revoking S fid k w \<longleftrightarrow> k < length (aw_txns w) \<and>
     (\<forall>r \<in> set (refresh_tokens (aw_db w)). rt_id r \<in> S \<longrightarrow> family_id r = fid) \<and> S \<subseteq> rt_id ` set (refresh_tokens (aw_db w)) \<and>
     (case phase w k of
        Replayed row \<Rightarrow> family_id row = fid
      | Revoking fid' own todo gone deny \<Rightarrow> fid' = fid \<and> deny = None \<and>
          (\<forall>r \<in> set (refresh_tokens (aw_db w)). rt_id r \<in> S \<longrightarrow> revoked_at r = None \<longrightarrow> rt_id r \<in> set todo \<union> set gone)
      | Ended res \<Rightarrow> (\<exists>c. res = Inl (DbError c)) \<or>
          res = Inl BAD_REFRESH \<and> (\<forall>r \<in> set (refresh_tokens (aw_db w)). rt_id r \<in> S \<longrightarrow> revoked_at r \<noteq> None)
      | _ \<Rightarrow> False)"

lemma step_S:
  assumes step: "race_step env w w'" and ok: "race_ok w"
    and S: "\<forall>r \<in> set (refresh_tokens (aw_db w)). rt_id r \<in> S \<longrightarrow> family_id r = fid" "S \<subseteq> rt_id ` set (refresh_tokens (aw_db w))"
  shows "\<forall>r \<in> set (refresh_tokens (aw_db w')). rt_id r \<in> S \<longrightarrow>
      family_id r = fid \<and> (\<exists>r0 \<in> set (refresh_tokens (aw_db w)). later_row r0 r)"
    "S \<subseteq> rt_id ` set (refresh_tokens (aw_db w'))"
proof -
  have later: "rows_later (aw_db w) (aw_db w')" using race_step_later [OF step ok] .
  have T: "tokens_ok (aw_db w')" using race_okD(1) [OF race_step_ok [OF step ok]] .
  show "S \<subseteq> rt_id ` set (refresh_tokens (aw_db w'))"
    using S(2) rows_later_ids [OF later] by blast
  show "\<forall>r \<in> set (refresh_tokens (aw_db w')). rt_id r \<in> S \<longrightarrow>
      family_id r = fid \<and> (\<exists>r0 \<in> set (refresh_tokens (aw_db w)). later_row r0 r)"
  proof (intro ballI impI)
    fix r assume r: "r \<in> set (refresh_tokens (aw_db w'))" "rt_id r \<in> S"
    then obtain r0 where r0: "r0 \<in> set (refresh_tokens (aw_db w))" "later_row r0 r"
      using rows_later_origin [OF later T r(1)] S(2) by blast
    then show "family_id r = fid \<and> (\<exists>r0 \<in> set (refresh_tokens (aw_db w)). later_row r0 r)"
      using S(1) r(2) unfolding later_row_def by metis
  qed
qed

text \<open>A step that is not the transaction's own leaves what it has to do.\<close>

lemma revoking_other:
  assumes step: "race_step env w w'" and ok: "race_ok w" and rev: "revoking S fid k w"
    and same: "k < length (aw_txns w')" "phase w' k = phase w k"
  shows "revoking S fid k w'"
proof -
  have S: "\<forall>r \<in> set (refresh_tokens (aw_db w)). rt_id r \<in> S \<longrightarrow> family_id r = fid" "S \<subseteq> rt_id ` set (refresh_tokens (aw_db w))"
    using rev by (auto simp: revoking_def)
  note S' = step_S [OF step ok S]
  have earlier: "\<exists>r0 \<in> set (refresh_tokens (aw_db w)). rt_id r0 = rt_id r \<and> (revoked_at r0 \<noteq> None \<longrightarrow> revoked_at r \<noteq> None)"
    if r: "r \<in> set (refresh_tokens (aw_db w'))" "rt_id r \<in> S" for r
  proof -
    obtain r0 where "r0 \<in> set (refresh_tokens (aw_db w))" "later_row r0 r" using S'(1) r by blast
    then show ?thesis by (intro bexI [of _ r0]) (auto simp: later_row_def)
  qed
  have S'': "\<forall>r \<in> set (refresh_tokens (aw_db w')). rt_id r \<in> S \<longrightarrow> family_id r = fid" using S'(1) by blast
  show ?thesis
  proof (cases "phase w k")
    case (Revoking fid' own todo gone deny)
    then have R: "fid' = fid" "deny = None" "\<forall>r \<in> set (refresh_tokens (aw_db w)). rt_id r \<in> S \<longrightarrow> revoked_at r = None \<longrightarrow> rt_id r \<in> set todo \<union> set gone"
      using rev by (simp_all add: revoking_def)
    have "rt_id r \<in> set todo \<union> set gone" if r: "r \<in> set (refresh_tokens (aw_db w'))" "rt_id r \<in> S" "revoked_at r = None" for r
    proof -
      obtain r0 where "r0 \<in> set (refresh_tokens (aw_db w))" "rt_id r0 = rt_id r" "revoked_at r0 = None"
        using earlier [OF r(1,2)] r(3) by blast
      then show ?thesis using R(3) r(2) by auto
    qed
    then show ?thesis using same Revoking R S'(2) S'' by (simp add: revoking_def)
  next
    case (Ended res)
    have "revoked_at r \<noteq> None" if "\<forall>r \<in> set (refresh_tokens (aw_db w)). rt_id r \<in> S \<longrightarrow> revoked_at r \<noteq> None"
      "r \<in> set (refresh_tokens (aw_db w'))" "rt_id r \<in> S" for r
      using earlier [OF that(2,3)] that(1,3) by auto
    then show ?thesis using rev same Ended S'(2) S'' by (auto simp: revoking_def)
  qed (use rev same S'(2) S'' in \<open>simp_all add: revoking_def\<close>)
qed

lemma revoking_own:
  assumes ok: "race_ok w" and rev: "revoking S fid k w" and st: "statement env a raw jti k w = Some w'"
  shows "revoking S fid k w'"
proof -
  have k: "k < length (aw_txns w)" using rev by (simp add: revoking_def)
  have step: "race_step env w w'" using k st by (rule execute)
  have S: "\<forall>r \<in> set (refresh_tokens (aw_db w)). rt_id r \<in> S \<longrightarrow> family_id r = fid" "S \<subseteq> rt_id ` set (refresh_tokens (aw_db w))"
    using rev by (auto simp: revoking_def)
  note S' = step_S [OF step ok S]
  have ids: "distinct (map rt_id (refresh_tokens (aw_db w)))" using race_okD(1) [OF ok] by (simp add: tokens_ok_def)
  show ?thesis
  proof (cases "phase w k")
    case (Replayed row)
    then have "w' = advance k (Revoking fid [rt_id row] (family_ids fid (aw_db w)) [] None) (aw_db w) w"
      using st rev by (simp add: statement_def revoking_def)
    then show ?thesis using S k by (auto simp: revoking_def family_ids_def)
  next
    case (Revoking fid' own todo gone deny)
    then have R: "fid' = fid" "deny = None" "\<forall>r \<in> set (refresh_tokens (aw_db w)). rt_id r \<in> S \<longrightarrow> revoked_at r = None \<longrightarrow> rt_id r \<in> set todo \<union> set gone"
      using rev by (simp_all add: revoking_def)
    show ?thesis
    proof (cases todo)
      case Nil
      have w': "w' = advance k (Ended (Inl BAD_REFRESH)) (commit_revoke (tx_now (aw_txns w ! k)) gone None (aw_db w)) w"
        using st Revoking Nil R by (simp add: statement_def)
      have "revoked_at r \<noteq> None" if "r \<in> set (refresh_tokens (aw_db w'))" "rt_id r \<in> S" for r
        using that R(3) unfolding w' by (auto simp: revoked_rows set_update_where Nil split: if_splits)
      then show ?thesis using S' k by (simp add: revoking_def w')
    next
      case (Cons i todo')
      have w': "w' = advance k (Revoking fid own todo' (if still_valid fid i (aw_db w) then gone @ [i] else gone) None) (aw_db w) w"
        using st Revoking Cons R by (auto simp: statement_def split: if_splits)
      have "still_valid fid i (aw_db w)" if "r \<in> set (refresh_tokens (aw_db w))" "rt_id r \<in> S" "revoked_at r = None" "rt_id r = i" for r
        using that S(1) by (auto simp: still_valid_def list_ex_iff)
      then show ?thesis using S R(3) k Cons by (auto simp: revoking_def w')
    qed
  qed (use rev st in \<open>simp_all add: revoking_def statement_def\<close>)
qed

lemma revoking_step:
  assumes step: "race_step env w w'" and ok: "race_ok w" and rev: "revoking S fid k w"
  shows "revoking S fid k w'"
  using step
proof (cases rule: race_step.cases)
  case (execute j a raw jti)
  show ?thesis
  proof (cases "j = k")
    case True
    then show ?thesis using revoking_own [OF ok rev] execute(2) by simp
  next
    case False
    show ?thesis
      by (rule revoking_other [OF step ok rev]) (use execute False rev in \<open>auto simp: revoking_def elim!: statementE\<close>)
  qed
next
  case (abort j c)
  show ?thesis
  proof (cases "j = k")
    case True
    then show ?thesis using rev abort by (simp add: revoking_def)
  next
    case False
    show ?thesis
      by (rule revoking_other [OF step ok rev]) (use abort False rev in \<open>auto simp: revoking_def\<close>)
  qed
qed (rule revoking_other [OF step ok rev]; use rev in \<open>simp add: revoking_def\<close>)+

lemma revoking_run: "race_run env w w' \<Longrightarrow> race_ok w \<Longrightarrow> revoking S fid k w \<Longrightarrow> revoking S fid k w'"
  by (induction rule: race_run.induct) (auto intro: revoking_step race_run_ok)

subsection \<open>A transaction alone\<close>

text \<open>The one transaction there is executes up to \<open>n\<close> statements.\<close>

fun alone :: "nat \<Rightarrow> ('priv, 'pub) auth_env \<Rightarrow> rat \<Rightarrow> string \<Rightarrow> string \<Rightarrow> auth_world \<Rightarrow> auth_world" where
  "alone 0 env appnow raw jti w = w"
| "alone (Suc n) env appnow raw jti w =
     (case statement env appnow raw jti 0 w of None \<Rightarrow> w | Some w' \<Rightarrow> alone n env appnow raw jti w')"

abbreviation solo :: "rat \<Rightarrow> auth_phase \<Rightarrow> auth_db \<Rightarrow> auth_world" where
  "solo now p db \<equiv> \<lparr>aw_db = db, aw_txns = [\<lparr>tx_now = now, tx_phase = p\<rparr>]\<rparr>"

lemma statement_solo:
  "statement env a raw jti 0 (solo now p db) =
     map_option (\<lambda>(p', db'). solo now p' db') (statement_at env a raw jti (\<lambda>_. False) (\<lambda>_. False) now db p)"
proof -
  have "row_locked (solo now p db) 0 = (\<lambda>_. False)" "hash_pending (solo now p db) 0 = (\<lambda>_. False)"
    by (simp_all add: fun_eq_iff row_locked_def hash_pending_def)
  then show ?thesis by (simp add: statement_def advance_def)
qed

lemma alone_ended: "alone n env a raw jti (solo now (Ended r) db) = solo now (Ended r) db"
  by (cases n) (simp_all add: statement_solo)

lemma alone_revoking:
  "length todo < n \<Longrightarrow> alone n env a raw jti (solo now (Revoking fid own todo gone deny) db) =
     solo now (Ended (case deny of None \<Rightarrow> Inl BAD_REFRESH | Some _ \<Rightarrow> Inr None))
       (commit_revoke now (gone @ filter (\<lambda>i. still_valid fid i db) todo) deny db)"
proof (induction todo arbitrary: n gone)
  case Nil
  then show ?case by (cases n) (simp_all add: statement_solo alone_ended)
next
  case (Cons i todo)
  then show ?case by (cases n) (simp_all add: statement_solo)
qed

lemma commit_family:
  assumes "distinct (map rt_id (refresh_tokens db))"
  shows "refresh_tokens (commit_revoke now (filter (\<lambda>i. still_valid fid i db) (family_ids fid db)) deny db) =
    refresh_tokens (revoke_family now fid db)"
proof -
  have "still_valid fid i db" if "i \<in> set (family_ids fid db)" for i
    using that by (auto simp: family_ids_def still_valid_def list_ex_iff)
  then have all: "filter (\<lambda>i. still_valid fid i db) (family_ids fid db) = family_ids fid db" by (simp add: filter_id_conv)
  have "rt_id r \<in> set (family_ids fid db) \<longleftrightarrow> family_id r = fid \<and> revoked_at r = None" if "r \<in> set (refresh_tokens db)" for r
    using distinct_key_unique [OF assms that] that by (auto simp: family_ids_def)
  then show ?thesis by (simp add: all revoked_rows revoke_family_def update_where_def)
qed

lemma alone_replay:
  assumes "distinct (map rt_id (refresh_tokens db))" "length (refresh_tokens db) < n"
  shows "alone (Suc n) env a raw jti (solo now (Replayed row) db) =
    solo now (Ended (Inl BAD_REFRESH)) (revoke_family now (family_id row) db)"
proof -
  have len: "length (family_ids fid db) < n" for fid
    using assms(2) by (simp add: family_ids_def le_less_trans [OF length_filter_le])
  have "commit_revoke now (filter (\<lambda>i. still_valid fid i db) (family_ids fid db)) None db = revoke_family now fid db" for fid
    using commit_family [OF assms(1), of now fid None] by (simp add: commit_revoke_def revoke_family_def)
  then show ?thesis by (simp add: statement_solo alone_revoking [OF len])
qed

text \<open>Run alone, the statements of \<open>refresh\<close> do what the function \<open>refresh\<close> says.\<close>

lemma alone_refresh:
  assumes ids: "distinct (map rt_id (refresh_tokens db))"
  shows "alone (5 + length (refresh_tokens db)) env a raw jti (solo now (Begun (ae_hmac env tok)) db) =
    (case refresh env now a raw jti tok db of (res, db') \<Rightarrow> solo now (Ended (map_sum id Some res)) db')"
proof -
  define n where "n = length (refresh_tokens db)"
  have fuel: "5 + n = Suc (Suc (Suc (Suc (Suc n))))" by simp
  show ?thesis
  proof (cases "select_first (\<lambda>r. token_hash r = ae_hmac env tok) (refresh_tokens db)")
    case None
    then show ?thesis unfolding n_def [symmetric] fuel by (simp add: statement_solo alone_ended refresh_def)
  next
    case (Some row)
    note sel = this
    show ?thesis
    proof (cases "revoked_at row = None \<and> used_at row \<noteq> None")
      case True
      have "alone (Suc (Suc (Suc (Suc n)))) env a raw jti (solo now (Replayed row) db) =
          solo now (Ended (Inl BAD_REFRESH)) (revoke_family now (family_id row) db)"
        by (rule alone_replay [OF ids]) (simp add: n_def)
      then show ?thesis using True sel unfolding n_def [symmetric] fuel
        by (simp add: statement_solo refresh_def del: alone.simps(2)) (simp add: statement_solo alone.simps(2) [of "Suc (Suc (Suc (Suc n)))"])
    next
      case False
      show ?thesis
      proof (cases "select_first (\<lambda>u. u_id u = rt_user_id row) (users db)")
        case None
        then show ?thesis using False sel unfolding n_def [symmetric] fuel by (auto simp: statement_solo alone_ended refresh_def)
      next
        case (Some u)
        have hashes: "token_hash ` set (update_where (\<lambda>r. rt_id r = rt_id row) (\<lambda>r. r\<lparr>used_at := Some now\<rparr>) (refresh_tokens db)) =
            token_hash ` set (refresh_tokens db)"
          using map_update_where [of "\<lambda>r. rt_id r = rt_id row" token_hash "\<lambda>r. r\<lparr>used_at := Some now\<rparr>" "refresh_tokens db"]
          by (simp flip: set_map)
        show ?thesis using False sel Some unfolding n_def [symmetric] fuel
          by (auto simp: statement_solo alone_ended refresh_def issue_def hashes commit_exchange_def Let_def)
      qed
    qed
  qed
qed

lemma alone_logout:
  assumes ids: "distinct (map rt_id (refresh_tokens db))"
  shows "alone (2 + length (refresh_tokens db)) env a raw jti (solo now (LogoutBegun u) db) =
    solo now (Ended (Inr None)) (logout now u db)"
proof -
  define n where "n = length (refresh_tokens db)"
  have "length (family_ids (au_fid u) db) < Suc n"
    by (simp add: n_def family_ids_def le_imp_less_Suc)
  moreover have "commit_revoke now (filter (\<lambda>i. still_valid (au_fid u) i db) (family_ids (au_fid u) db)) (Some u) db = logout now u db"
    using commit_family [OF ids, of now "au_fid u" "Some u"] by (simp add: commit_revoke_def logout_def revoke_family_def Let_def)
  moreover have "2 + n = Suc (Suc n)" by simp
  ultimately show ?thesis unfolding n_def [symmetric]
    by (simp only: alone.simps(2) [of "Suc n"]) (simp add: statement_solo alone_revoking del: alone.simps(2))
qed

subsection \<open>Properties\<close>

text \<open>A refresh that presents a revoked token is refused and changes nothing.\<close>

lemma revoked_refused:
  assumes ok: "race_ok w" and r: "r \<in> set (refresh_tokens (aw_db w))" "revoked_at r \<noteq> None"
    and ph: "phase w k = Begun (token_hash r)" and st: "statement env a raw jti k w = Some w'"
  shows "w' = advance k (Ended (Inl BAD_REFRESH)) (aw_db w) w"
proof -
  have "select_first (\<lambda>x. token_hash x = token_hash r) (refresh_tokens (aw_db w)) = Some r"
    using select_first_key [of token_hash "refresh_tokens (aw_db w)" r] race_okD(1) [OF ok] r(1) by (simp add: tokens_ok_def)
  then show ?thesis using st r(2) by (auto simp: statement_def ph split: if_splits)
qed

lemma one_exchange:
  assumes ok: "race_ok w" and j: "j < length (aw_txns w)" "exchanging (phase w j) = Some r"
    and k: "k < length (aw_txns w)" "exchanging (phase w k) = Some s" and fam: "family_id r = family_id s"
  shows "j = k"
proof (rule ccontr)
  assume "j \<noteq> k"
  then have "set (held (phase w k)) \<inter> set (held (phase w j)) = {}"
    using race_okD(3) [OF ok k(1) j(1)] by (simp add: apart_def)
  moreover note r = exchanging_live [OF race_okD(2) [OF ok j(1)] j(2)] and s = exchanging_live [OF race_okD(2) [OF ok k(1)] k(2)]
  moreover have "r = s" using tokens_ok_agree [OF race_okD(1) [OF ok], of r s] r s fam by (simp add: one_live_def)
  ultimately show False by auto
qed

text \<open>C7: the token tables, whatever transactions run beside each other.  In every state
  that any interleaving of the statements of refreshes, logouts, logins and purges,
  failures included, reaches from empty token tables: ids, hashes and denied \<open>jti\<close>s are
  unique, a family belongs to one user and has at most one committed token that can
  still be exchanged, at most one transaction is exchanging a token of a family, and it
  holds exactly that token; and from then on no token is ever lost, changes its owner,
  family, hash or expiry, or ceases to be used or revoked once it is, so that none is
  exchanged twice.\<close>

theorem reachable_tokens_ok:
  assumes run: "race_run env \<lparr>aw_db = db0, aw_txns = []\<rparr> w" and empty: "refresh_tokens db0 = []" "access_denylist db0 = []"
  shows "tokens_ok (aw_db w) \<and>
    (\<forall>j < length (aw_txns w). \<forall>r. exchanging (phase w j) = Some r \<longrightarrow>
       r \<in> set (refresh_tokens (aw_db w)) \<and> used_at r = None \<and> revoked_at r = None \<and>
       (\<forall>k < length (aw_txns w). \<forall>s. exchanging (phase w k) = Some s \<longrightarrow> family_id s = family_id r \<longrightarrow> k = j)) \<and>
    (\<forall>w'. race_run env w w' \<longrightarrow> (\<forall>r \<in> set (refresh_tokens (aw_db w)). \<exists>r' \<in> set (refresh_tokens (aw_db w')).
       r' = r\<lparr>used_at := used_at r', revoked_at := revoked_at r'\<rparr> \<and>
       (used_at r \<noteq> None \<longrightarrow> used_at r' = used_at r) \<and> (revoked_at r \<noteq> None \<longrightarrow> revoked_at r' = revoked_at r)))"
proof -
  have "tokens_ok db0" using empty by (simp add: tokens_ok_def)
  then have ok: "race_ok w" using race_run_ok [OF run race_ok_start] by simp
  have "r \<in> set (refresh_tokens (aw_db w)) \<and> used_at r = None \<and> revoked_at r = None"
    if "j < length (aw_txns w)" "exchanging (phase w j) = Some r" for j r
    using exchanging_live [OF race_okD(2) [OF ok that(1)] that(2)] by (simp add: live_def)
  moreover have "\<exists>r' \<in> set (refresh_tokens (aw_db w')). r' = r\<lparr>used_at := used_at r', revoked_at := revoked_at r'\<rparr> \<and>
       (used_at r \<noteq> None \<longrightarrow> used_at r' = used_at r) \<and> (revoked_at r \<noteq> None \<longrightarrow> revoked_at r' = revoked_at r)"
    if run': "race_run env w w'" and r: "r \<in> set (refresh_tokens (aw_db w))" for w' r
  proof -
    obtain r' where r': "r' \<in> set (refresh_tokens (aw_db w'))" "later_row r r'"
      using race_run_later [OF run' ok] r by (auto simp: rows_later_def)
    with later_row_update [OF r'(2)] show ?thesis by (intro bexI [of _ r']) (auto simp: later_row_def)
  qed
  moreover have "k = j" if "j < length (aw_txns w)" "exchanging (phase w j) = Some r" "k < length (aw_txns w)"
    "exchanging (phase w k) = Some s" "family_id s = family_id r" for j k r s
    using one_exchange [OF ok that(3,4,1,2,5)] .
  ultimately show ?thesis using race_okD(1) [OF ok] by blast
qed

text \<open>C5: what a replay revokes.  Let a refresh present a token that was already exchanged
  and whose row, read under its lock, is not revoked.  Whatever the other transactions
  do, it is answered \<open>BAD_REFRESH\<close> or, if it was aborted, with a database error.
  If it is answered \<open>BAD_REFRESH\<close>, then from then on every token of the family that was
  committed when the row was read is revoked, and a refresh that presents one of them
  is answered \<open>BAD_REFRESH\<close> and changes nothing.  The whole family is dead for good, later
  tokens included, unless a refresh of the family that overlapped the replay had
  committed a new token in the meantime: that one survives (see
  \<open>overlapping_refresh_survives\<close>).\<close>

theorem replay_revokes_committed:
  assumes start: "race_run env \<lparr>aw_db = db0, aw_txns = []\<rparr> w0" "tokens_ok db0"
    and k: "k < length (aw_txns w0)" "phase w0 k = Begun (ae_hmac env stolen)"
    and row: "row \<in> set (refresh_tokens (aw_db w0))" "token_hash row = ae_hmac env stolen"
      "used_at row \<noteq> None" "revoked_at row = None"
    and select: "statement env a raw jti k w0 = Some w1"
    and answered: "race_run env w1 w2" "phase w2 k = Ended res" and later: "race_run env w2 w3"
  shows "(res = Inl BAD_REFRESH \<or> (\<exists>code. res = Inl (DbError code))) \<and>
    (res = Inl BAD_REFRESH \<longrightarrow>
      (\<forall>r \<in> set (refresh_tokens (aw_db w3)). family_id r = family_id row \<longrightarrow>
         rt_id r \<in> rt_id ` set (refresh_tokens (aw_db w0)) \<or>
         (\<forall>s \<in> set (refresh_tokens (aw_db w2)). family_id s = family_id row \<longrightarrow> rt_id s \<in> rt_id ` set (refresh_tokens (aw_db w0))) \<longrightarrow>
         revoked_at r \<noteq> None \<and>
         (\<forall>k' a' raw' jti' w'. phase w3 k' = Begun (token_hash r) \<longrightarrow> statement env a' raw' jti' k' w3 = Some w' \<longrightarrow>
            w' = advance k' (Ended (Inl BAD_REFRESH)) (aw_db w3) w3)))"
proof -
  define S where "S = rt_id ` {r \<in> set (refresh_tokens (aw_db w0)). family_id r = family_id row}"
  have ok0: "race_ok w0" using race_run_ok [OF start(1) race_ok_start [OF start(2)]] .
  have step: "race_step env w0 w1" using k(1) select by (rule execute)
  have ok1: "race_ok w1" using race_step_ok [OF step ok0] .
  have ok2: "race_ok w2" using race_run_ok [OF answered(1) ok1] .
  have ok3: "race_ok w3" using race_run_ok [OF later ok2] .
  have ids0: "distinct (map rt_id (refresh_tokens (aw_db w0)))" "distinct (map token_hash (refresh_tokens (aw_db w0)))"
    using race_okD(1) [OF ok0] by (simp_all add: tokens_ok_def)
  have "select_first (\<lambda>x. token_hash x = ae_hmac env stolen) (refresh_tokens (aw_db w0)) = Some row"
    using select_first_key [OF ids0(2) row(1)] row(2) by simp
  then have w1: "w1 = advance k (Replayed row) (aw_db w0) w0"
    using select row(3,4) by (auto simp: statement_def k(2) split: if_splits)
  have "family_id r = family_id row" if "r \<in> set (refresh_tokens (aw_db w0))" "rt_id r \<in> S" for r
    using that distinct_key_unique [OF ids0(1) that(1)] by (auto simp: S_def)
  then have rev1: "revoking S (family_id row) k w1" using k(1) by (auto simp: revoking_def w1 S_def)
  note rev2 = revoking_run [OF answered(1) ok1 rev1] and rev3 = revoking_run [OF later ok2 revoking_run [OF answered(1) ok1 rev1]]
  have res: "(\<exists>c. res = Inl (DbError c)) \<or> res = Inl BAD_REFRESH"
    using rev2 answered(2) by (auto simp: revoking_def)
  have dead: "revoked_at r \<noteq> None"
    if bad: "res = Inl BAD_REFRESH" and r: "r \<in> set (refresh_tokens (aw_db w3))" "family_id r = family_id row"
      and why: "rt_id r \<in> rt_id ` set (refresh_tokens (aw_db w0)) \<or>
         (\<forall>s \<in> set (refresh_tokens (aw_db w2)). family_id s = family_id row \<longrightarrow> rt_id s \<in> rt_id ` set (refresh_tokens (aw_db w0)))"
    for r
  proof -
    have later2: "rows_later (aw_db w2) (aw_db w3)" using race_run_later [OF later ok2] .
    have later0: "rows_later (aw_db w0) (aw_db w2)"
      using rows_later_trans [OF race_step_later [OF step ok0] race_run_later [OF answered(1) ok1]] .
    have S2: "revoked_at s \<noteq> None" if "s \<in> set (refresh_tokens (aw_db w2))" "rt_id s \<in> S" for s
      using rev2 answered(2) bad that by (auto simp: revoking_def BAD_REFRESH_def unauthorized_def)
    have in_S: "rt_id s \<in> S" if s: "s \<in> set (refresh_tokens (aw_db w2))" "family_id s = family_id row"
      "rt_id s \<in> rt_id ` set (refresh_tokens (aw_db w0))" for s
    proof -
      obtain s0 where s0: "s0 \<in> set (refresh_tokens (aw_db w0))" "later_row s0 s"
        by (rule rows_later_origin [OF later0 race_okD(1) [OF ok2] s(1,3)])
      then have "family_id s0 = family_id row" "rt_id s0 = rt_id s" using s(2) by (simp_all add: later_row_def)
      then show ?thesis using s0(1) unfolding S_def by (intro image_eqI [of _ _ s0]) simp_all
    qed
    from why show ?thesis
    proof
      assume id: "rt_id r \<in> rt_id ` set (refresh_tokens (aw_db w0))"
      then have "rt_id r \<in> rt_id ` set (refresh_tokens (aw_db w2))"
        using rows_later_ids [OF later0] by blast
      then obtain s where s: "s \<in> set (refresh_tokens (aw_db w2))" "later_row s r"
        using rows_later_origin [OF later2 race_okD(1) [OF ok3] r(1)] by blast
      then have "revoked_at s \<noteq> None" using S2 in_S r(2) id by (simp add: later_row_def)
      then show ?thesis using s(2) by (auto simp: later_row_def)
    next
      assume "\<forall>s \<in> set (refresh_tokens (aw_db w2)). family_id s = family_id row \<longrightarrow> rt_id s \<in> rt_id ` set (refresh_tokens (aw_db w0))"
      then have "\<forall>s \<in> set (refresh_tokens (aw_db w2)). family_id s = family_id row \<longrightarrow> revoked_at s \<noteq> None"
        using S2 in_S by blast
      moreover obtain row2 where "row2 \<in> set (refresh_tokens (aw_db w2))" "family_id row2 = family_id row"
        using later0 row(1) unfolding rows_later_def later_row_def by metis
      ultimately have "family_dead (family_id row) (aw_db w2)" unfolding family_dead_def families_def by (metis image_eqI)
      from dead_run [OF later ok2 this] show ?thesis using r by (simp add: family_dead_def)
    qed
  qed
  show ?thesis
  proof (intro conjI impI ballI allI)
    show "res = Inl BAD_REFRESH \<or> (\<exists>code. res = Inl (DbError code))" using res by blast
  next
    fix r k' a' raw' jti' w'
    assume bad: "res = Inl BAD_REFRESH" and r: "r \<in> set (refresh_tokens (aw_db w3))" "family_id r = family_id row"
      and why: "rt_id r \<in> rt_id ` set (refresh_tokens (aw_db w0)) \<or>
         (\<forall>s \<in> set (refresh_tokens (aw_db w2)). family_id s = family_id row \<longrightarrow> rt_id s \<in> rt_id ` set (refresh_tokens (aw_db w0)))"
    show rev: "revoked_at r \<noteq> None" using dead [OF bad r why] .
    assume "phase w3 k' = Begun (token_hash r)" "statement env a' raw' jti' k' w3 = Some w'"
    then show "w' = advance k' (Ended (Inl BAD_REFRESH)) (aw_db w3) w3" using revoked_refused [OF ok3 r(1) rev] by blast
  qed
qed

subsection \<open>The race\<close>

text \<open>The transactions named execute their next statements, in this order; who has to wait is skipped.\<close>

fun schedule :: "('priv, 'pub) auth_env \<Rightarrow> rat \<Rightarrow> (nat \<times> string \<times> string) list \<Rightarrow> auth_world \<Rightarrow> auth_world" where
  "schedule env appnow [] w = w"
| "schedule env appnow ((k, raw, jti) # ks) w =
     (if k < length (aw_txns w)
      then case statement env appnow raw jti k w of None \<Rightarrow> schedule env appnow ks w | Some w' \<Rightarrow> schedule env appnow ks w'
      else w)"

lemma schedule_run: "race_run env w (schedule env a ks w)"
proof (induction env a ks w rule: schedule.induct)
  case (2 env a k raw jti ks w)
  then show ?case by (auto split: option.split intro: race_run_trans [OF _ race_next [OF race_refl execute]] race_refl)
qed (simp add: race_refl)

lemma begin_run:
  "race_run env w (begin_txn now (Begun (ae_hmac env tok)) w)" "race_run env w (begin_txn now (LogoutBegun u) w)"
  by (rule race_next [OF race_refl], rule begin_refresh begin_logout)+

text \<open>
  A login gave \<open>R1\<close>, which was exchanged for \<open>R2\<close>.  While \<open>R2\<close> is being exchanged for
  \<open>R3\<close>, a thief presents \<open>R1\<close> again.
\<close>

definition race_db :: auth_db where
  "race_db = \<lparr>users = [\<lparr>u_id = 1, u_email = ''a'', u_role = customer,
       u_password_hash = Some (hashPassword (ae_scrypt example_env) [1] ''pw'')\<rparr>],
     refresh_tokens = [], next_token_id = 1, access_denylist = []\<rparr>"

definition logged_in :: auth_world where
  "logged_in = \<lparr>aw_db = snd (login example_env 1 1 ''r1'' ''j1'' ''f'' ''a'' ''pw'' race_db), aw_txns = []\<rparr>"

definition exchanged_once :: auth_world where
  "exchanged_once = schedule example_env 2 (replicate 5 (0, ''r2'', ''j2''))
     (begin_txn 2 (Begun (ae_hmac example_env ''r1'')) logged_in)"

definition both_begun :: auth_world where
  "both_begun = begin_txn 3 (Begun (ae_hmac example_env ''r1''))
     (begin_txn 3 (Begun (ae_hmac example_env ''r2'')) exchanged_once)"

definition racing :: auth_world where
  "racing = schedule example_env 3 (replicate 4 (1, ''r3'', ''j3'')) both_begun"

definition raced :: auth_world where
  "raced = schedule example_env 3
     (map (\<lambda>k. (k, ''r3'', ''j3'')) [2, 2, 1, 2, 2, 2]) racing"

text \<open>Row id, used, revoked.\<close>

definition row_states :: "auth_world \<Rightarrow> (nat \<times> bool \<times> bool) list" where
  "row_states w = map (\<lambda>r. (rt_id r, used_at r \<noteq> None, revoked_at r \<noteq> None)) (refresh_tokens (aw_db w))"

definition is_bad :: "auth_phase \<Rightarrow> bool" where
  "is_bad p = (case p of Ended res \<Rightarrow> res = Inl BAD_REFRESH | _ \<Rightarrow> False)"

text \<open>
  The thief is answered \<open>BAD_REFRESH\<close> and the family counts as revoked, but \<open>R3\<close> is as
  good as before: presenting \<open>R1\<close> once more finds it revoked and revokes nothing, and
  \<open>R3\<close> is exchanged.  A logout that overlaps the exchange leaves \<open>R3\<close> in the same way.
\<close>

definition replayed_again :: auth_world where
  "replayed_again = schedule example_env 4 [(3, ''r4'', ''j4'')] (begin_txn 4 (Begun (ae_hmac example_env ''r1'')) raced)"

definition survivor_used :: auth_world where
  "survivor_used = schedule example_env 5 (replicate 5 (4, ''r4'', ''j4''))
     (begin_txn 5 (Begun (ae_hmac example_env ''r3'')) replayed_again)"

definition logout_raced :: auth_world where
  "logout_raced = schedule example_env 3
     (map (\<lambda>k. (k, ''r3'', ''j3'')) [3, 1, 3, 3, 3]) (begin_txn 3 (LogoutBegun example_user) racing)"

lemma logged_in_run: "race_run example_env \<lparr>aw_db = race_db, aw_txns = []\<rparr> logged_in"
proof -
  have "race_step example_env \<lparr>aw_db = race_db, aw_txns = []\<rparr>
    (\<lparr>aw_db = race_db, aw_txns = []\<rparr>\<lparr>aw_db := snd (login example_env 1 1 ''r1'' ''j1'' ''f'' ''a'' ''pw'' race_db)\<rparr>)"
    using login_now [of "''f''" "\<lparr>aw_db = race_db, aw_txns = []\<rparr>" example_env "''r1''" 1 1 "''j1''" "''a''" "''pw''"]
    by (simp add: families_def race_db_def hash_pending_def)
  then have "race_step example_env \<lparr>aw_db = race_db, aw_txns = []\<rparr> logged_in" by (simp add: logged_in_def)
  then show ?thesis by (rule race_next [OF race_refl])
qed

lemma exchanged_once_run: "race_run example_env \<lparr>aw_db = race_db, aw_txns = []\<rparr> exchanged_once"
  unfolding exchanged_once_def by (intro race_run_trans [OF schedule_run] race_run_trans [OF begin_run(1)] logged_in_run)

lemma racing_run: "race_run example_env \<lparr>aw_db = race_db, aw_txns = []\<rparr> racing"
  unfolding racing_def both_begun_def
  by (intro race_run_trans [OF schedule_run] race_run_trans [OF begin_run(1)] exchanged_once_run)

lemma overlapping_refresh_survives:
  "race_run example_env \<lparr>aw_db = race_db, aw_txns = []\<rparr> survivor_used"
  "is_bad (phase raced 2)" "row_states raced = [(1, True, True), (2, True, True), (3, False, False)]"
  "is_bad (phase replayed_again 3)" "row_states replayed_again = row_states raced"
  "row_states survivor_used = [(1, True, True), (2, True, True), (3, True, False), (4, False, False)]"
proof -
  show "race_run example_env \<lparr>aw_db = race_db, aw_txns = []\<rparr> survivor_used"
    unfolding survivor_used_def replayed_again_def raced_def
    by (intro race_run_trans [OF schedule_run] race_run_trans [OF begin_run(1)] racing_run)
qed code_simp+

lemma overlapping_logout_leaves_a_token:
  "race_run example_env \<lparr>aw_db = race_db, aw_txns = []\<rparr> logout_raced"
  "(case phase logout_raced 3 of Ended res \<Rightarrow> res = Inr None | _ \<Rightarrow> False)"
  "row_states logout_raced = [(1, True, True), (2, True, True), (3, False, False)]"
proof -
  show "race_run example_env \<lparr>aw_db = race_db, aw_txns = []\<rparr> logout_raced"
    unfolding logout_raced_def
    by (intro race_run_trans [OF schedule_run] race_run_trans [OF begin_run(2)] racing_run)
qed code_simp+

subsection \<open>Instances\<close>

theorem reachable_tokens_ok_witness:
  "tokens_ok (aw_db racing) \<and> (\<exists>r. exchanging (phase racing 1) = Some r \<and> r \<in> set (refresh_tokens (aw_db racing)) \<and> used_at r = None)"
proof -
  have empty: "refresh_tokens race_db = []" "access_denylist race_db = []" by (simp_all add: race_db_def)
  have "1 < length (aw_txns racing)" "exchanging (phase racing 1) \<noteq> None" by code_simp+
  then show ?thesis using reachable_tokens_ok [OF racing_run empty] by blast
qed

text \<open>Without a refresh that overlaps it, the replay kills the family.\<close>

definition replay_begun :: auth_world where
  "replay_begun = begin_txn 3 (Begun (ae_hmac example_env ''r1'')) exchanged_once"

definition replay_over :: "auth_world \<Rightarrow> auth_world" where
  "replay_over w = schedule example_env 3 (replicate 4 (1, ''r3'', ''j3'')) w"

theorem replay_revokes_committed_witness:
  "\<exists>w1. statement example_env 3 ''r3'' ''j3'' 1 replay_begun = Some w1 \<and> is_bad (phase (replay_over w1) 1) \<and>
     refresh_tokens (aw_db (replay_over w1)) \<noteq> [] \<and>
     (\<forall>r \<in> set (refresh_tokens (aw_db (replay_over w1))). revoked_at r \<noteq> None)"
proof -
  have "statement example_env 3 ''r3'' ''j3'' 1 replay_begun \<noteq> None" by code_simp
  then obtain w1 where w1: "statement example_env 3 ''r3'' ''j3'' 1 replay_begun = Some w1" by blast
  then have w1': "w1 = the (statement example_env 3 ''r3'' ''j3'' 1 replay_begun)" by simp
  have start: "race_run example_env \<lparr>aw_db = race_db, aw_txns = []\<rparr> replay_begun"
    unfolding replay_begun_def by (intro race_run_trans [OF begin_run(1)] exchanged_once_run)
  have ok: "tokens_ok race_db" by (simp add: tokens_ok_def race_db_def)
  have k: "1 < length (aw_txns replay_begun)" by code_simp
  have ph: "phase replay_begun 1 = Begun (ae_hmac example_env ''r1'')" by code_simp
  have "list_ex (\<lambda>r. token_hash r = ae_hmac example_env ''r1'' \<and> used_at r \<noteq> None \<and> revoked_at r = None \<and> family_id r = ''f'')
    (refresh_tokens (aw_db replay_begun))" by code_simp
  then obtain row where row: "row \<in> set (refresh_tokens (aw_db replay_begun))" "token_hash row = ae_hmac example_env ''r1''"
    "used_at row \<noteq> None" "revoked_at row = None" and f: "family_id row = ''f''" by (auto simp: list_ex_iff)
  have bad: "is_bad (phase (replay_over w1) 1)" unfolding w1' by code_simp
  then have ended: "phase (replay_over w1) 1 = Ended (Inl BAD_REFRESH)" by (auto simp: is_bad_def split: auth_phase.splits)
  have run: "race_run example_env w1 (replay_over w1)" unfolding replay_over_def by (rule schedule_run)
  have "list_all (\<lambda>r. family_id r = ''f'' \<and> rt_id r \<in> set (map rt_id (refresh_tokens (aw_db replay_begun))))
      (refresh_tokens (aw_db (replay_over w1))) \<and> refresh_tokens (aw_db (replay_over w1)) \<noteq> []"
    unfolding w1' by code_simp
  then have all: "\<forall>r \<in> set (refresh_tokens (aw_db (replay_over w1))). family_id r = family_id row \<and>
      rt_id r \<in> rt_id ` set (refresh_tokens (aw_db replay_begun))" "refresh_tokens (aw_db (replay_over w1)) \<noteq> []"
    by (simp_all add: list_all_iff f)
  from replay_revokes_committed [OF start ok k ph row w1 run ended race_refl] show ?thesis
    using w1 bad all by blast
qed

end
