(* ===== verification/Guards.thy ===== *)
theory Guards
  imports AuthService
begin

text \<open>
  The two global guards (\<open>src/auth/auth.guard.ts\<close>), the metadata the decorators
  of \<open>src/auth/decorators.ts\<close> attach to the controllers' routes, and the route
  tables of the five controllers.  The guards run in the order of the
  \<open>APP_GUARD\<close> providers of \<open>src/auth/auth.module.ts\<close>: who is it (401), then may
  this role (403).
\<close>

subsection \<open>Route metadata\<close>

text \<open>
  \<open>SetMetadata\<close> on the handler and on the controller class; \<open>getAllAndOverride\<close>
  takes the first of the two that is defined.
\<close>

record endpoint =
  ep_method :: string
  ep_path :: string
  ep_public :: "bool option \<times> bool option"
  ep_roles :: "role list option \<times> role list option"

fun getAllAndOverride :: "'a option \<times> 'a option \<Rightarrow> 'a option" where
  "getAllAndOverride (Some x, _) = Some x"
| "getAllAndOverride (None, y) = y"

definition route :: "string \<Rightarrow> string \<Rightarrow> endpoint" where
  "route m p = \<lparr>ep_method = m, ep_path = p, ep_public = (None, None), ep_roles = (None, None)\<rparr>"

definition Public :: "endpoint \<Rightarrow> endpoint" where
  "Public e = e\<lparr>ep_public := (Some True, snd (ep_public e))\<rparr>"

definition Roles :: "role list \<Rightarrow> endpoint \<Rightarrow> endpoint" where
  "Roles rs e = e\<lparr>ep_roles := (Some rs, snd (ep_roles e))\<rparr>"

definition class_Roles :: "role list \<Rightarrow> endpoint \<Rightarrow> endpoint" where
  "class_Roles rs e = e\<lparr>ep_roles := (fst (ep_roles e), Some rs)\<rparr>"

definition products_routes :: "endpoint list" where
  "products_routes =
     [Public (route ''GET'' ''/products''),
      Public (route ''GET'' ''/products/:id''),
      Roles [seller, admin] (route ''POST'' ''/products'')]"

definition orders_routes :: "endpoint list" where
  "orders_routes =
     [route ''GET'' ''/orders'',
      route ''GET'' ''/orders/:id'',
      route ''POST'' ''/orders'',
      Roles [seller, admin] (route ''PATCH'' ''/orders/:id/status''),
      route ''GET'' ''/orders/:id/events'']"

definition auth_routes :: "endpoint list" where
  "auth_routes =
     [Public (route ''POST'' ''/auth/login''),
      Public (route ''POST'' ''/auth/refresh''),
      route ''POST'' ''/auth/logout'']"

definition files_routes :: "endpoint list" where
  "files_routes = map (class_Roles [customer, seller, admin])
     [route ''POST'' ''/uploads/intent'',
      route ''GET'' ''/uploads/:id/parts'',
      route ''POST'' ''/uploads/commit'',
      route ''GET'' ''/files/:id'']"

definition health_routes :: "endpoint list" where
  "health_routes = [route ''GET'' ''/health'', route ''GET'' ''/health/db'']"

definition app_routes :: "endpoint list" where
  "app_routes = auth_routes @ health_routes @ products_routes @ orders_routes @ files_routes"

subsection \<open>The guards\<close>

text \<open>The regular expression \<open>/^Bearer (\S+)$/i\<close> on the header (absent: empty).\<close>

definition bearer_token :: "string option \<Rightarrow> string option" where
  "bearer_token header =
     (let s = (case header of None \<Rightarrow> [] | Some h \<Rightarrow> h); tok = drop 7 s in
      if map ascii_lower (take 7 s) = ''bearer '' \<and> tok \<noteq> [] \<and> list_all (\<lambda>c. \<not> js_space c) tok
      then Some tok else None)"

text \<open>\<open>http\<close>: the context type is \<open>http\<close>; the result is the \<open>req.user\<close> it sets.\<close>

definition auth_guard ::
    "('priv, 'pub) auth_env \<Rightarrow> rat \<Rightarrow> auth_db \<Rightarrow> bool \<Rightarrow> endpoint \<Rightarrow> string option \<Rightarrow> auth_user option res" where
  "auth_guard env appnow db http ep authorization =
     (if \<not> http then Inr None
      else if getAllAndOverride (ep_public ep) = Some True then Inr None
      else case bearer_token authorization of
             None \<Rightarrow> Inl (unauthorized ''missing-token'')
           | Some tok \<Rightarrow> map_sum id Some (authenticate env appnow tok db))"

definition roles_guard :: "bool \<Rightarrow> endpoint \<Rightarrow> auth_user option \<Rightarrow> unit res" where
  "roles_guard http ep user =
     (if \<not> http then Inr ()
      else case getAllAndOverride (ep_roles ep) of
             None \<Rightarrow> Inr ()
           | Some rs \<Rightarrow>
               (case user of
                  None \<Rightarrow> Inl (unauthorized ''missing-token'')
                | Some u \<Rightarrow> if au_role u \<notin> set rs then Inl (HttpException 403 (Some ''insufficient-role''))
                            else Inr ()))"

definition guards ::
    "('priv, 'pub) auth_env \<Rightarrow> rat \<Rightarrow> auth_db \<Rightarrow> endpoint \<Rightarrow> string option \<Rightarrow> auth_user option res" where
  "guards env appnow db ep authorization =
     (case auth_guard env appnow db True ep authorization of
        Inl e \<Rightarrow> Inl e
      | Inr user \<Rightarrow> map_sum id (\<lambda>_. user) (roles_guard True ep user))"

text \<open>\<open>CurrentUser\<close>: a handler that asks for the user on a public route is a programming error.\<close>

definition CurrentUser :: "auth_user option \<Rightarrow> auth_user res" where
  "CurrentUser user = (case user of None \<Rightarrow> Inl (Error ''CurrentUser'') | Some u \<Rightarrow> Inr u)"

subsection \<open>Properties\<close>

lemmas route_defs = app_routes_def auth_routes_def health_routes_def products_routes_def orders_routes_def
  files_routes_def route_def Public_def Roles_def class_Roles_def

lemma authenticate_Inr:
  "authenticate env a tok db = Inr u \<longleftrightarrow>
     (\<exists>c. verify (ae_lib env) (ae_tokens env) a tok = Inr c \<and>
        select_first (\<lambda>d. dn_jti d = vc_jti c) (access_denylist db) = None \<and>
        u = \<lparr>au_id = vc_sub c, au_role = vc_role c, au_jti = vc_jti c, au_exp = vc_exp c, au_fid = vc_fid c\<rparr>)"
  by (auto simp: authenticate_def split: sum.splits exn.splits)

lemma guards_Inr:
  "guards env a db ep h = Inr user \<longleftrightarrow>
     auth_guard env a db True ep h = Inr user \<and> roles_guard True ep user = Inr ()"
proof (cases "auth_guard env a db True ep h")
  case (Inr b)
  then show ?thesis by (cases "roles_guard True ep b") (auto simp: guards_def)
qed (simp add: guards_def)

lemma bearer_example: "bearer_token (Some ''Bearer tok'') = Some ''tok''"
  by code_simp

text \<open>The API is closed by default: of all routes only the catalogue's two
  reads, the login and the refresh let a request without a bearer token
  through; every other route, the health checks included, answers 401.\<close>

theorem anonymous_routes:
  assumes "ep \<in> set app_routes" "bearer_token h = None"
  shows "guards env a db ep h =
    (if (ep_method ep, ep_path ep) \<in> {(''GET'', ''/products''), (''GET'', ''/products/:id''),
         (''POST'', ''/auth/login''), (''POST'', ''/auth/refresh'')}
     then Inr None else Inl (unauthorized ''missing-token''))"
  using assms(1)
  by (auto simp: route_defs guards_def auth_guard_def roles_guard_def assms(2))

theorem anonymous_routes_witness:
  "guards example_env 1 example_db (route ''GET'' ''/health/db'') None = Inl (unauthorized ''missing-token'')"
  using anonymous_routes [of "route ''GET'' ''/health/db''" None example_env 1 example_db]
  by (simp add: route_defs bearer_token_def)

text \<open>C12: a request admitted with a user carried a bearer token whose key id is a
  registered key, which the JWT library verified with the ES256 allowlist,
  issuer and audience; id, role, \<open>jti\<close>, expiry and family of the user are the claims
  \<open>sub\<close>, \<open>role\<close>, \<open>jti\<close>, \<open>exp\<close> and \<open>fid\<close> of the verified payload, and its \<open>jti\<close> is not on
  the denylist; where the route lists roles, the user has one of them.\<close>

theorem admitted_user:
  assumes "guards env a db ep h = Inr (Some u)"
  shows "\<exists>tok kid k p. bearer_token h = Some tok \<and> jl_decode_kid (ae_lib env) tok = DecodedKid (Some kid) \<and>
    ts_verifyKeys (ae_tokens env) kid = Some k \<and>
    jl_verify (ae_lib env) a tok k [''ES256''] ''marketplace-api'' ''marketplace-clients'' = VPayload p \<and>
    field p ''sub'' = Some (JStr (au_id u)) \<and> field p ''role'' = Some (JStr (role_name (au_role u))) \<and>
    field p ''jti'' = Some (JStr (au_jti u)) \<and> field p ''exp'' = Some (JNum (au_exp u)) \<and>
    field p ''fid'' = Some (JStr (au_fid u)) \<and>
    (\<forall>d \<in> set (access_denylist db). field p ''jti'' \<noteq> Some (JStr (dn_jti d))) \<and>
    (\<forall>rs. getAllAndOverride (ep_roles ep) = Some rs \<longrightarrow> au_role u \<in> set rs)"
proof -
  from assms have ag: "auth_guard env a db True ep h = Inr (Some u)" and rg: "roles_guard True ep (Some u) = Inr ()"
    by (auto simp: guards_Inr)
  from ag obtain tok where tok: "bearer_token h = Some tok" "authenticate env a tok db = Inr u"
    by (cases "authenticate env a (the (bearer_token h)) db")
       (auto simp: auth_guard_def split: if_splits option.splits)
  from tok(2) obtain c where c1: "verify (ae_lib env) (ae_tokens env) a tok = Inr c"
    and none: "select_first (\<lambda>d. dn_jti d = vc_jti c) (access_denylist db) = None"
    and u: "u = \<lparr>au_id = vc_sub c, au_role = vc_role c, au_jti = vc_jti c, au_exp = vc_exp c, au_fid = vc_fid c\<rparr>"
    unfolding authenticate_Inr by (elim exE conjE)
  have c: "verify (ae_lib env) (ae_tokens env) a tok = Inr c"
    "\<forall>d \<in> set (access_denylist db). au_jti u \<noteq> dn_jti d" "vc_sub c = au_id u" "vc_role c = au_role u"
    "vc_jti c = au_jti u" "vc_exp c = au_exp u" "vc_fid c = au_fid u"
    using c1 none by (auto simp: u select_first_None)
  from c(1) obtain kid k p where v: "jl_decode_kid (ae_lib env) tok = DecodedKid (Some kid)"
    "ts_verifyKeys (ae_tokens env) kid = Some k"
    "jl_verify (ae_lib env) a tok k ALLOWED_ALGORITHMS ISSUER AUDIENCE = VPayload p" "read_claims p = Inr c"
    unfolding verify_Inr by blast
  from rg have roles: "\<forall>rs. getAllAndOverride (ep_roles ep) = Some rs \<longrightarrow> au_role u \<in> set rs"
    by (auto simp: roles_guard_def split: if_splits)
  show ?thesis
    by (intro exI [of _ tok] exI [of _ kid] exI [of _ k] exI [of _ p])
      (use tok(1) v roles c(2-7) v(4) [unfolded read_claims_Inr] in
        \<open>simp add: ALLOWED_ALGORITHMS_def ISSUER_def AUDIENCE_def\<close>)
qed

theorem admitted_user_witness:
  "\<exists>tok. bearer_token (Some ''Bearer tok'') = Some tok \<and> jl_decode_kid example_lib tok = DecodedKid (Some ''k'') \<and>
     field example_claims ''jti'' = Some (JStr (au_jti example_user))"
proof -
  have "guards example_env 20 example_db (route ''GET'' ''/orders'') (Some ''Bearer tok'') = Inr (Some example_user)"
    using example_verify
    by (simp add: guards_def auth_guard_def roles_guard_def route_def bearer_example
        authenticate_def example_db_def example_user_def)
  from admitted_user [OF this] show ?thesis
    by (auto simp: example_env_def example_lib_def)
qed

text \<open>Whoever holds a token, creating a product and changing an order's status
  need the role seller or admin: a customer's valid token is answered 403.\<close>

theorem customer_cannot_write_catalogue:
  assumes "ep \<in> set app_routes" "bearer_token h = Some tok" "authenticate env a tok db = Inr u"
    "au_role u = customer"
  shows "guards env a db ep h = Inl (HttpException 403 (Some ''insufficient-role'')) \<longleftrightarrow>
    (ep_method ep, ep_path ep) \<in> {(''POST'', ''/products''), (''PATCH'', ''/orders/:id/status'')}"
  using assms(1)
  by (auto simp: route_defs guards_def auth_guard_def roles_guard_def assms(2-))

theorem customer_cannot_write_catalogue_witness:
  "guards example_env 20 example_db (Roles [seller, admin] (route ''POST'' ''/products'')) (Some ''Bearer tok'') =
     Inl (HttpException 403 (Some ''insufficient-role''))"
proof -
  have "authenticate example_env 20 ''tok'' example_db = Inr example_user"
    using example_verify by (simp add: authenticate_def example_db_def example_user_def)
  then show ?thesis
    using customer_cannot_write_catalogue [of "Roles [seller, admin] (route ''POST'' ''/products'')"
        "Some ''Bearer tok''" "''tok''" example_env 20 example_db example_user]
    by (simp add: route_defs bearer_example example_user_def)
qed

end
