(* ===== verification/Problem.thy ===== *)
theory Problem
  imports JsNum
begin

text \<open>
  problem+json responses: \<open>src/common/problem.ts\<close>, the Nest exception filter
  \<open>problem-json.filter.ts\<close> and the express error handler
  \<open>problem-json.middleware.ts\<close>.  The titles are not ASCII; a title is named by
  the status it belongs to.
\<close>

datatype title = TitleOf nat | DefaultTitle

definition PROBLEM_BASE :: string where
  "PROBLEM_BASE = ''https://api.marketplace.example/problems''"

definition PROBLEM_TITLES :: "nat \<Rightarrow> title option" where
  "PROBLEM_TITLES status =
     (if status \<in> set [400, 401, 403, 404, 409, 422, 500] then Some (TitleOf status) else None)"

record problem =
  p_type :: string
  p_title :: title
  p_status :: nat
  p_detail :: string
  p_instance :: string
  p_code :: "string option"
  p_errors :: "string option"

record response =
  res_status :: nat
  res_content_type :: string
  res_www_authenticate :: "string option"
  res_body :: problem

definition writeProblem ::
    "string \<Rightarrow> nat \<Rightarrow> string \<Rightarrow> string option \<Rightarrow> string option \<Rightarrow> response" where
  "writeProblem originalUrl status detail code errors =
     \<lparr>res_status = status, res_content_type = ''application/problem+json'', res_www_authenticate = None,
      res_body = \<lparr>p_type = PROBLEM_BASE @ ''/'' @ (case code of Some c \<Rightarrow> c | None \<Rightarrow> show_nat status),
        p_title = (case PROBLEM_TITLES status of Some t \<Rightarrow> t | None \<Rightarrow> DefaultTitle),
        p_status = status, p_detail = detail, p_instance = originalUrl, p_code = code, p_errors = errors\<rparr>\<rparr>"

text \<open>
  What the filter receives: an \<open>HttpException\<close> with its response body (a string
  or an object with optional \<open>detail\<close>, \<open>message\<close> and \<open>code\<close>), or any other throwable.
\<close>

datatype message = MsgString string | MsgList "string list" | MsgOther

datatype exn_body =
    BodyString string
  | BodyObject "string option" message "string option"

datatype thrown = ThrownHttp nat exn_body | ThrownOther

definition DEFAULT_DETAIL :: string where
  "DEFAULT_DETAIL = ''unexpected''"

fun join_semi :: "string list \<Rightarrow> string" where
  "join_semi [] = []"
| "join_semi [s] = s"
| "join_semi (s # ss) = s @ ''; '' @ join_semi ss"

definition filter_catch :: "string \<Rightarrow> thrown \<Rightarrow> response" where
  "filter_catch originalUrl exception =
     (let status = (case exception of ThrownHttp s _ \<Rightarrow> s | ThrownOther \<Rightarrow> 500);
          detail = (case exception of
                      ThrownHttp _ (BodyString s) \<Rightarrow> s
                    | ThrownHttp _ (BodyObject (Some d) _ _) \<Rightarrow> d
                    | ThrownHttp _ (BodyObject None (MsgString m) _) \<Rightarrow> m
                    | ThrownHttp _ (BodyObject None (MsgList ms) _) \<Rightarrow> join_semi ms
                    | _ \<Rightarrow> DEFAULT_DETAIL);
          code = (case exception of
                    ThrownHttp _ (BodyObject _ _ (Some c)) \<Rightarrow> if c = [] then None else Some c
                  | _ \<Rightarrow> None);
          r = writeProblem originalUrl status detail code None
      in if status = 401 then r\<lparr>res_www_authenticate := Some ''Bearer''\<rparr> else r)"

definition openApiErrorHandler ::
    "bool \<Rightarrow> string \<Rightarrow> nat option \<Rightarrow> string option \<Rightarrow> string option \<Rightarrow> response option" where
  "openApiErrorHandler headersSent originalUrl status msg errors =
     (if headersSent then None
      else Some (writeProblem originalUrl (case status of Some s \<Rightarrow> s | None \<Rightarrow> 500)
                   (case msg of Some m \<Rightarrow> m | None \<Rightarrow> DEFAULT_DETAIL) None errors))"

text \<open>Whatever a handler throws, the client gets a problem+json document whose
  \<open>status\<close> member is the HTTP status and whose \<open>instance\<close> is the request URL; the
  \<open>WWW-Authenticate: Bearer\<close> challenge is present exactly on 401, and a throwable
  that is not an HttpException is a 500 that reveals neither message nor code.\<close>

theorem filter_is_problem:
  "res_content_type (filter_catch url x) = ''application/problem+json'' \<and>
   p_status (res_body (filter_catch url x)) = res_status (filter_catch url x) \<and>
   p_instance (res_body (filter_catch url x)) = url \<and>
   (res_www_authenticate (filter_catch url x) = Some ''Bearer'' \<longleftrightarrow> res_status (filter_catch url x) = 401) \<and>
   (x = ThrownOther \<longrightarrow> filter_catch url x = writeProblem url 500 DEFAULT_DETAIL None None)"
  by (auto simp: filter_catch_def writeProblem_def Let_def)

theorem filter_is_problem_witness:
  "filter_catch ''/orders'' ThrownOther = writeProblem ''/orders'' 500 DEFAULT_DETAIL None None"
  using filter_is_problem [of "''/orders''" ThrownOther] by simp

end
