(* ===== verification/Cursor.thy ===== *)
theory Cursor
  imports Base64
begin

text \<open>
  Cursor pagination (\<open>src/common/cursor.ts\<close>): the opaque cursor is the
  base64url form of the decimal offset; \<open>paginate\<close> slices with the index
  rules of \<open>Array.prototype.slice\<close>.
\<close>

subsection \<open>encodeCursor, decodeCursor, paginate\<close>

definition encodeCursor :: "nat \<Rightarrow> string" where
  "encodeCursor offset = to_base64url (show_nat offset)"

definition decodeCursor :: "string \<Rightarrow> nat res" where
  "decodeCursor raw =
     (let offset = js_number (from_base64 raw) in
      case offset of
        Num x \<Rightarrow> if \<not> js_is_integer offset \<or> x < 0
                 then Inl (HttpException 400 (Some ''bad-cursor'')) else Inr (nat \<lfloor>x\<rfloor>)
      | _ \<Rightarrow> Inl (HttpException 400 (Some ''bad-cursor'')))"

record 'a page =
  page_items :: "'a list"
  next_cursor :: "string option"

definition slice_index :: "int \<Rightarrow> nat \<Rightarrow> nat" where
  "slice_index k n = (if k < 0 then nat (int n + k) else min (nat k) n)"

definition js_slice :: "'a list \<Rightarrow> int \<Rightarrow> int \<Rightarrow> 'a list" where
  "js_slice xs a b =
     (let i = slice_index a (length xs); j = slice_index b (length xs) in take (j - i) (drop i xs))"

definition paginate :: "'a list \<Rightarrow> int \<Rightarrow> string option \<Rightarrow> 'a page res" where
  "paginate all limit cursor =
     (let start = (case cursor of None \<Rightarrow> Inr 0 | Some c \<Rightarrow> if c = '''' then Inr 0 else decodeCursor c) in
      case start of
        Inl e \<Rightarrow> Inl e
      | Inr offset \<Rightarrow>
          (let items = js_slice all (int offset) (int offset + limit);
               nextOffset = offset + length items
           in Inr \<lparr>page_items = items,
                   next_cursor = (if nextOffset < length all then Some (encodeCursor nextOffset) else None)\<rparr>))"

subsection \<open>Cursors round-trip, pages partition the list\<close>

lemma decode_encode: "n \<le> 2 ^ 53 \<Longrightarrow> decodeCursor (encodeCursor n) = Inr n"
  by (simp add: decodeCursor_def encodeCursor_def js_number_show_nat)

lemma encodeCursor_nonempty [simp]: "encodeCursor n \<noteq> []"
  by (simp add: encodeCursor_def to_base64url_def codes_def)

lemma js_slice_from: "0 \<le> limit \<Longrightarrow>
    js_slice xs (int a) (int a + limit) = take (nat limit) (drop a xs)"
  by (auto simp: js_slice_def slice_index_def Let_def nat_add_distrib min_def)

lemma set_js_slice: "set (js_slice xs a b) \<subseteq> set xs"
  unfolding js_slice_def Let_def by (meson order_trans set_drop_subset set_take_subset)

lemma set_page_items: "paginate all limit c = Inr p \<Longrightarrow> set (page_items p) \<subseteq> set all"
  using set_js_slice by (fastforce simp: paginate_def Let_def split: sum.splits)

text \<open>The page a valid request gets: \<open>start\<close> is where the cursor points.\<close>

definition cursor_at :: "nat \<Rightarrow> string option \<Rightarrow> bool" where
  "cursor_at n c \<longleftrightarrow> (n = 0 \<and> c = None) \<or> (n \<le> 2 ^ 53 \<and> c = Some (encodeCursor n))"

lemma paginate_at:
  assumes "cursor_at n c" "0 < limit"
  shows "paginate all limit c = Inr \<lparr>page_items = take (nat limit) (drop n all),
     next_cursor = (if n + nat limit < length all then Some (encodeCursor (n + nat limit)) else None)\<rparr>"
proof -
  have start: "(case c of None \<Rightarrow> Inr 0 | Some c \<Rightarrow> if c = '''' then Inr 0 else decodeCursor c) = Inr n"
    using assms(1) by (auto simp: cursor_at_def decode_encode)
  have slice: "js_slice all (int n) (int n + limit) = take (nat limit) (drop n all)"
    using assms(2) by (intro js_slice_from) simp
  have "n + length (take (nat limit) (drop n all)) < length all \<longleftrightarrow> n + nat limit < length all"
    using assms(2) by auto
  moreover have "n + nat limit < length all \<Longrightarrow> length (take (nat limit) (drop n all)) = nat limit"
    by simp
  ultimately show ?thesis
    unfolding paginate_def start by (simp add: slice Let_def del: length_take)
qed

text \<open>
  The client's walk: ask for the first page, then follow \<open>next_cursor\<close> until it
  is null.  \<open>None\<close> is an error response or an exhausted request budget.
\<close>

fun walk :: "nat \<Rightarrow> 'a list \<Rightarrow> int \<Rightarrow> string option \<Rightarrow> 'a list list option" where
  "walk 0 all limit c = None"
| "walk (Suc fuel) all limit c =
     (case paginate all limit c of
        Inl e \<Rightarrow> None
      | Inr p \<Rightarrow> (case next_cursor p of
                   None \<Rightarrow> Some [page_items p]
                 | Some c' \<Rightarrow> map_option (\<lambda>ps. page_items p # ps) (walk fuel all limit (Some c'))))"

lemma walk_from:
  assumes "cursor_at n c" "0 < limit" "length all \<le> 2 ^ 53" "n \<le> length all" "length all < n + fuel"
  shows "\<exists>ps. walk fuel all limit c = Some ps \<and> concat ps = drop n all \<and>
    (\<forall>p \<in> set ps. length p \<le> nat limit)"
  using assms
proof (induction fuel arbitrary: n c)
  case 0
  then show ?case by simp
next
  case (Suc fuel)
  show ?case
  proof (cases "n + nat limit < length all")
    case True
    then have at: "cursor_at (n + nat limit) (Some (encodeCursor (n + nat limit)))"
      using Suc.prems(3) by (simp add: cursor_at_def)
    have fuel: "length all < n + nat limit + fuel"
      using Suc.prems(2,5) by simp
    from True have "n + nat limit \<le> length all" by simp
    from Suc.IH [OF at Suc.prems(2,3) this fuel] obtain ps where ps:
      "walk fuel all limit (Some (encodeCursor (n + nat limit))) = Some ps"
      "concat ps = drop (n + nat limit) all" "\<forall>p \<in> set ps. length p \<le> nat limit" by auto
    have "take (nat limit) (drop n all) @ drop (n + nat limit) all = drop n all"
      by (metis append_take_drop_id drop_drop add.commute)
    with ps True paginate_at [OF Suc.prems(1,2), of all] show ?thesis by simp
  next
    case False
    then have "take (nat limit) (drop n all) = drop n all" by simp
    with False paginate_at [OF Suc.prems(1,2), of all] show ?thesis by simp
  qed
qed

text \<open>C14: following \<open>next_cursor\<close> from the first page until it is null terminates
  and gives every element of the list exactly once and in order, in pages of at
  most \<open>limit\<close> elements.\<close>

theorem pages_partition:
  assumes "0 < limit" "length all \<le> 2 ^ 53"
  shows "\<exists>ps. walk (Suc (length all)) all limit None = Some ps \<and> concat ps = all \<and>
    (\<forall>p \<in> set ps. length p \<le> nat limit)"
  using walk_from [of 0 None limit all "Suc (length all)"] assms by (simp add: cursor_at_def)

theorem pages_partition_witness:
  "\<exists>ps. walk 6 [10, 20, 30, 40, 50::nat] 2 None = Some ps \<and> concat ps = [10, 20, 30, 40, 50]"
proof -
  have fuel: "Suc (length [10, 20, 30, 40, 50::nat]) = 6" by simp
  have "length [10, 20, 30, 40, 50::nat] \<le> 2 ^ 53" by simp
  from pages_partition [of 2, OF _ this, unfolded fuel] show ?thesis by (meson zero_less_numeral)
qed

end
