(* ===== verification/Ownership.thy ===== *)
theory Ownership
  imports Tokens
begin

text \<open>
  The contract of the second authorisation level: an operation that loads a
  resource first and then lets its owner, or an admin, have it.  The orders
  and the files each provide it.
\<close>

definition not_owner :: exn where
  "not_owner = HttpException 403 (Some ''not-owner'')"

locale ownership =
  fixes load :: "'s \<Rightarrow> string \<Rightarrow> 'r res"
    and owner :: "'r \<Rightarrow> string"
    and get_owned :: "'s \<Rightarrow> string \<Rightarrow> auth_user \<Rightarrow> 'r res"
  assumes owned_ok: "load s i = Inr r \<Longrightarrow> owner r = au_id u \<or> au_role u = admin \<Longrightarrow> get_owned s i u = Inr r"
    and owned_foreign: "load s i = Inr r \<Longrightarrow> owner r \<noteq> au_id u \<Longrightarrow> au_role u \<noteq> admin \<Longrightarrow>
           get_owned s i u = Inl not_owner"
    and owned_missing: "load s i = Inl e \<Longrightarrow> get_owned s i u = Inl e"
begin

lemma owned_Inr:
  "get_owned s i u = Inr r \<longleftrightarrow> load s i = Inr r \<and> (owner r = au_id u \<or> au_role u = admin)"
proof (cases "load s i")
  case (Inl e)
  then show ?thesis by (simp add: owned_missing)
next
  case (Inr r')
  then show ?thesis
    using owned_ok [OF Inr, of u] owned_foreign [OF Inr, of u]
    by (cases "owner r' = au_id u \<or> au_role u = admin") auto
qed

lemma owned_refused:
  assumes "get_owned s i u = Inl e" shows "load s i = Inl e \<or> e = not_owner"
proof (cases "load s i")
  case (Inl e')
  then show ?thesis using owned_missing [OF Inl, of u] assms by simp
next
  case (Inr r)
  then show ?thesis
    using owned_ok [OF Inr, of u] owned_foreign [OF Inr, of u] assms
    by (cases "owner r = au_id u \<or> au_role u = admin") auto
qed

lemma owned_private:
  "au_role u \<noteq> admin \<Longrightarrow> au_role v \<noteq> admin \<Longrightarrow> get_owned s i u = Inr r \<Longrightarrow> get_owned s i v = Inr r' \<Longrightarrow>
   au_id u = au_id v"
  by (auto simp: owned_Inr)

end

end
