(* ===== verification/Orders.thy ===== *)
theory Orders
  imports Cursor Ownership AuthService
begin

text \<open>
  The in-memory catalogue and orders of the HTTP layer:
  \<open>src/products/products.service.ts\<close>, \<open>src/orders/orders.service.ts\<close>,
  \<open>src/orders/order-events.service.ts\<close>, \<open>src/orders/orders.controller.ts\<close>
  (the order list, the event stream) and the WebSocket gateway
  \<open>src/orders/orders.gateway.ts\<close>.

  The module-level arrays and counters are the records below.  Sums of money
  are computed with the rounding of a double (\<open>fl\<close>, \<open>js_mul\<close>).
\<close>

subsection \<open>Products\<close>

record product =
  pr_id :: string
  pr_name :: string
  price_cents :: int

record products_state =
  products :: "product list"
  next_product :: nat

definition not_found :: exn where
  "not_found = HttpException 404 None"

definition products_init :: products_state where
  "products_init = \<lparr>products =
     [\<lparr>pr_id = ''p1'', pr_name = ''keyboard'', price_cents = 129900\<rparr>,
      \<lparr>pr_id = ''p2'', pr_name = ''mouse'', price_cents = 45900\<rparr>,
      \<lparr>pr_id = ''p3'', pr_name = ''mouse pad'', price_cents = 12900\<rparr>,
      \<lparr>pr_id = ''p4'', pr_name = ''monitor'', price_cents = 899900\<rparr>,
      \<lparr>pr_id = ''p5'', pr_name = ''headphones'', price_cents = 219900\<rparr>],
     next_product = 6\<rparr>"

definition products_list :: "products_state \<Rightarrow> int \<Rightarrow> string option \<Rightarrow> product page res" where
  "products_list s limit cursor = paginate (products s) limit cursor"

definition products_getById :: "products_state \<Rightarrow> string \<Rightarrow> product res" where
  "products_getById s i =
     (case find (\<lambda>p. pr_id p = i) (products s) of None \<Rightarrow> Inl not_found | Some p \<Rightarrow> Inr p)"

definition findByIds :: "products_state \<Rightarrow> string list \<Rightarrow> product list" where
  "findByIds s ids = filter (\<lambda>p. pr_id p \<in> set ids) (products s)"

definition products_create :: "products_state \<Rightarrow> string \<Rightarrow> int \<Rightarrow> product \<times> products_state" where
  "products_create s name priceCents =
     (let p = \<lparr>pr_id = ''p'' @ show_nat (next_product s), pr_name = name, price_cents = priceCents\<rparr>
      in (p, \<lparr>products = products s @ [p], next_product = Suc (next_product s)\<rparr>))"

subsection \<open>The event bus and its replay buffers\<close>

datatype order_status = new | packed | shipped | delivered | cancelled

record order_event =
  ev_id :: nat
  ev_orderId :: string
  ev_status :: order_status
  ev_ts :: string

record events_state =
  buffers :: "string \<rightharpoonup> order_event list"
  counters :: "string \<rightharpoonup> nat"

definition BUFFER_SIZE :: nat where "BUFFER_SIZE = 100"

definition events_init :: events_state where
  "events_init = \<lparr>buffers = Map.empty, counters = Map.empty\<rparr>"

definition emitStatusChange ::
    "events_state \<Rightarrow> string \<Rightarrow> order_status \<Rightarrow> string \<Rightarrow> order_event \<times> events_state" where
  "emitStatusChange s orderId status ts =
     (let nextId = (case counters s orderId of None \<Rightarrow> 0 | Some n \<Rightarrow> n) + 1;
          event = \<lparr>ev_id = nextId, ev_orderId = orderId, ev_status = status, ev_ts = ts\<rparr>;
          pushed = (case buffers s orderId of None \<Rightarrow> [] | Some b \<Rightarrow> b) @ [event];
          buffer = (if length pushed > BUFFER_SIZE then tl pushed else pushed)
      in (event, \<lparr>buffers = (buffers s)(orderId \<mapsto> buffer), counters = (counters s)(orderId \<mapsto> nextId)\<rparr>))"

text \<open>\<open>e.id > lastEventId\<close>: any comparison with NaN is false.\<close>

fun id_after :: "nat \<Rightarrow> jsnum \<Rightarrow> bool" where
  "id_after n (Num x) = (x < of_nat n)"
| "id_after n (Infinity neg) = neg"
| "id_after n NaN = False"

definition missedSince :: "events_state \<Rightarrow> string \<Rightarrow> jsnum \<Rightarrow> order_event list" where
  "missedSince s orderId lastEventId =
     filter (\<lambda>e. id_after (ev_id e) lastEventId) (case buffers s orderId of None \<Rightarrow> [] | Some b \<Rightarrow> b)"

subsection \<open>Orders\<close>

record order_item =
  product_id :: string
  quantity :: int

record order =
  o_id :: string
  buyer_id :: string
  o_items :: "order_item list"
  total_cents :: rat
  o_status :: order_status
  created_at :: string

record orders_state =
  orders :: "order list"
  next_order :: nat
  events :: events_state

definition orders_init :: orders_state where
  "orders_init = \<lparr>orders =
     [\<lparr>o_id = ''o1'', buyer_id = ''u1'', o_items = [\<lparr>product_id = ''p1'', quantity = 1\<rparr>],
       total_cents = 129900, o_status = new, created_at = ''2026-08-01T10:00:00.000Z''\<rparr>,
      \<lparr>o_id = ''o2'', buyer_id = ''u2'',
       o_items = [\<lparr>product_id = ''p2'', quantity = 2\<rparr>, \<lparr>product_id = ''p3'', quantity = 1\<rparr>],
       total_cents = 45900 * 2 + 12900, o_status = new, created_at = ''2026-08-02T11:30:00.000Z''\<rparr>],
     next_order = 3, events = events_init\<rparr>"

definition getById :: "orders_state \<Rightarrow> string \<Rightarrow> order res" where
  "getById s i = (case find (\<lambda>o'. o_id o' = i) (orders s) of None \<Rightarrow> Inl not_found | Some o' \<Rightarrow> Inr o')"

definition getOwned :: "orders_state \<Rightarrow> string \<Rightarrow> auth_user \<Rightarrow> order res" where
  "getOwned s i user =
     (case getById s i of
        Inl e \<Rightarrow> Inl e
      | Inr o' \<Rightarrow> if buyer_id o' \<noteq> au_id user \<and> au_role user \<noteq> admin
                then Inl (HttpException 403 (Some ''not-owner'')) else Inr o')"

definition listFor :: "orders_state \<Rightarrow> auth_user \<Rightarrow> int \<Rightarrow> string option \<Rightarrow> order page res" where
  "listFor s user limit cursor =
     (let visible = (if au_role user = admin then orders s
                     else filter (\<lambda>o'. buyer_id o' = au_id user) (orders s))
      in paginate visible limit cursor)"

definition item_price :: "products_state \<Rightarrow> order_item \<Rightarrow> int" where
  "item_price ps it =
     (case findByIds ps [product_id it] of [] \<Rightarrow> 0 | p # _ \<Rightarrow> price_cents p)"

definition create ::
    "products_state \<Rightarrow> orders_state \<Rightarrow> order_item list \<Rightarrow> string \<Rightarrow> string \<Rightarrow> order \<times> orders_state" where
  "create ps s items buyerId now =
     (let totalCents = foldl (\<lambda>sum it. fl (sum + js_mul (of_int (item_price ps it)) (of_int (quantity it)))) 0 items;
          o' = \<lparr>o_id = ''o'' @ show_nat (next_order s), buyer_id = buyerId, o_items = items,
                total_cents = totalCents, o_status = new, created_at = now\<rparr>
      in (o', s\<lparr>orders := orders s @ [o'], next_order := Suc (next_order s)\<rparr>))"

text \<open>
  The found order is mutated in place: the first element with this id.  The
  status event goes to the bus.
\<close>

fun set_status :: "string \<Rightarrow> order_status \<Rightarrow> order list \<Rightarrow> order list" where
  "set_status i st [] = []"
| "set_status i st (o' # os) = (if o_id o' = i then o'\<lparr>o_status := st\<rparr> # os else o' # set_status i st os)"

definition updateStatus ::
    "orders_state \<Rightarrow> string \<Rightarrow> order_status \<Rightarrow> string \<Rightarrow> order res \<times> order_event list \<times> orders_state" where
  "updateStatus s i status ts =
     (case getById s i of
        Inl e \<Rightarrow> (Inl e, [], s)
      | Inr o' \<Rightarrow>
          (let ev = emitStatusChange (events s) (o_id o') status ts
           in (Inr (o'\<lparr>o_status := status\<rparr>), [fst ev],
               s\<lparr>orders := set_status i status (orders s), events := snd ev\<rparr>)))"

subsection \<open>The SSE stream of one order\<close>

text \<open>
  A connection first gets what it missed, then every later event of its order;
  \<open>later\<close> is what the bus emits while the connection is open.
\<close>

definition sse_events ::
    "orders_state \<Rightarrow> string \<Rightarrow> auth_user \<Rightarrow> string option \<Rightarrow> order_event list \<Rightarrow> order_event list res" where
  "sse_events s i user last_event_id later =
     (case getOwned s i user of
        Inl e \<Rightarrow> Inl e
      | Inr _ \<Rightarrow>
          (let lastEventId = (case last_event_id of None \<Rightarrow> Num 0 | Some h \<Rightarrow> js_number h)
           in Inr (missedSince (events s) i lastEventId @ filter (\<lambda>e. ev_orderId e = i) later)))"

subsection \<open>The WebSocket gateway\<close>

text \<open>
  Sockets are numbered.  \<open>gw_users\<close> holds the promise each connection stored,
  resolved; \<open>gw_rooms\<close> is socket.io's room membership.
\<close>

record gateway =
  gw_users :: "nat \<rightharpoonup> auth_user"
  gw_rooms :: "(nat \<times> string) list"

datatype join_result = JoinOk string | JoinNotFound | JoinForbidden

definition roomForOrder :: "string \<Rightarrow> string" where
  "roomForOrder orderId = ''orders:'' @ orderId"

definition handleConnection :: "(string \<Rightarrow> auth_user res) \<Rightarrow> nat \<Rightarrow> json option \<Rightarrow> gateway \<Rightarrow> gateway" where
  "handleConnection auth client token gw =
     gw\<lparr>gw_users := (gw_users gw)(client :=
          (case token of
             Some (JStr t) \<Rightarrow> (case auth t of Inr u \<Rightarrow> Some u | Inl _ \<Rightarrow> None)
           | _ \<Rightarrow> None))\<rparr>"

definition join_order :: "orders_state \<Rightarrow> nat \<Rightarrow> string \<Rightarrow> gateway \<Rightarrow> join_result \<times> gateway" where
  "join_order s client orderId gw =
     (case getById s orderId of
        Inl _ \<Rightarrow> (JoinNotFound, gw)
      | Inr o' \<Rightarrow>
          (case gw_users gw client of
             None \<Rightarrow> (JoinForbidden, gw)
           | Some user \<Rightarrow>
               if au_id user \<noteq> buyer_id o' \<and> au_role user \<noteq> admin then (JoinForbidden, gw)
               else (JoinOk (roomForOrder orderId),
                     gw\<lparr>gw_rooms := (client, roomForOrder orderId) # gw_rooms gw\<rparr>)))"

definition broadcast :: "order_event \<Rightarrow> gateway \<Rightarrow> nat list" where
  "broadcast event gw = map fst (filter (\<lambda>(c, r). r = roomForOrder (ev_orderId event)) (gw_rooms gw))"

subsection \<open>Orders are found by the id they got\<close>

definition orders_ok :: "orders_state \<Rightarrow> bool" where
  "orders_ok s \<longleftrightarrow> distinct (map o_id (orders s)) \<and>
     (\<forall>x \<in> set (orders s). \<exists>m < next_order s. o_id x = ''o'' @ show_nat m)"

lemma orders_ok_fresh:
  "orders_ok s \<Longrightarrow> x \<in> set (orders s) \<Longrightarrow> o_id x \<noteq> ''o'' @ show_nat (next_order s)"
  by (auto simp: orders_ok_def show_nat_inj)

lemma orders_ok_init: "orders_ok orders_init"
proof -
  have "''o1'' = ''o'' @ show_nat 1" "''o2'' = ''o'' @ show_nat 2" by code_simp+
  then have "(1::nat) < 3 \<and> ''o1'' = ''o'' @ show_nat 1" "(2::nat) < 3 \<and> ''o2'' = ''o'' @ show_nat 2"
    by simp_all
  note this(1) [THEN exI [of "\<lambda>m. m < 3 \<and> ''o1'' = ''o'' @ show_nat m"]]
    this(2) [THEN exI [of "\<lambda>m. m < 3 \<and> ''o2'' = ''o'' @ show_nat m"]]
  then show ?thesis unfolding orders_ok_def orders_init_def by simp
qed

lemma create_ok [inv_intros]:
  assumes ok: "orders_ok s" shows "orders_ok (snd (create ps s items b now))"
proof -
  obtain x where x: "o_id x = ''o'' @ show_nat (next_order s)"
    and s': "orders (snd (create ps s items b now)) = orders s @ [x]"
            "next_order (snd (create ps s items b now)) = Suc (next_order s)"
    by (simp add: create_def Let_def) (metis order.select_convs(1))
  have "o_id x \<notin> set (map o_id (orders s))"
    using orders_ok_fresh [OF ok] x by (metis in_set_conv_nth length_map nth_map nth_mem)
  then show ?thesis
    using ok x unfolding orders_ok_def s' by (simp add: less_Suc_eq) metis
qed

lemma map_set_status: "(\<And>x. f (x\<lparr>o_status := st\<rparr>) = f x) \<Longrightarrow> map f (set_status i st os) = map f os"
  by (induction os) auto

lemma find_set_status:
  "find (\<lambda>x. o_id x = j) (set_status i st os) =
     map_option (\<lambda>x. if i = j then x\<lparr>o_status := st\<rparr> else x) (find (\<lambda>x. o_id x = j) os)"
  by (induction os) (auto simp: option.map_ident)

lemma getById_updateStatus:
  "getById (snd (snd (updateStatus s i st ts))) j =
     map_sum id (\<lambda>x. if i = j then x\<lparr>o_status := st\<rparr> else x) (getById s j)"
  by (cases "getById s i")
    (auto simp: updateStatus_def Let_def getById_def find_set_status map_option_case split: option.splits)

lemma updateStatus_ok [inv_intros]:
  assumes "orders_ok s" shows "orders_ok (snd (snd (updateStatus s i st ts)))"
proof -
  have "o_id ` set (set_status i st os) = o_id ` set os" for os
    using map_set_status [of o_id st i os] by (metis list.set_map order.select_convs(1) order.surjective order.update_convs(5))
  then have "(\<forall>x \<in> set (set_status i st (orders s)). P (o_id x)) \<longleftrightarrow> (\<forall>x \<in> set (orders s). P (o_id x))" for P
    by (metis (no_types, lifting) image_iff)
  note ids = this [of "\<lambda>n. \<exists>m < next_order s. n = ''o'' @ show_nat m"]
  show ?thesis
    using assms ids map_set_status [of o_id st i "orders s"]
    by (simp add: orders_ok_def updateStatus_def Let_def split: sum.splits)
qed

lemma find_append:
  "find P (xs @ ys) = (case find P xs of None \<Rightarrow> find P ys | Some x \<Rightarrow> Some x)"
  by (induction xs) auto

lemma getById_create:
  assumes "orders_ok s" "create ps s items b now = (x, s')"
  shows "getById s' j = (if j = o_id x then Inr x else getById s j)"
proof -
  have x: "o_id x = ''o'' @ show_nat (next_order s)" and s': "orders s' = orders s @ [x]"
    using assms(2) by (auto simp: create_def Let_def)
  have "find (\<lambda>y. o_id y = o_id x) (orders s) = None"
    using orders_ok_fresh [OF assms(1)] x by (auto simp: find_None_iff)
  then show ?thesis by (auto simp: getById_def s' find_append split: option.splits)
qed

subsection \<open>Ownership of orders\<close>

interpretation order_access: ownership getById buyer_id getOwned
  by unfold_locales (auto simp: getOwned_def not_owner_def)

text \<open>An order can be read by its buyer and by admins and by nobody else; who
  is neither gets 403 \<open>not-owner\<close> if the order exists, 404 if it does not.\<close>

theorem getOwned_authorised:
  "getOwned s i user = Inr x \<longleftrightarrow> getById s i = Inr x \<and> (buyer_id x = au_id user \<or> au_role user = admin)"
  by (rule order_access.owned_Inr)

text \<open>\<open>POST /orders\<close> stores an order under an id no other order has: it is
  read back under that id with the caller as buyer, all other orders are
  unchanged, and this holds in every later state since the ids stay unique.\<close>

theorem create_then_read:
  assumes ok: "orders_ok s" and c: "create ps s items b now = (x, s')"
  shows "orders_ok s' \<and> getById s' (o_id x) = Inr x \<and> buyer_id x = b \<and> o_items x = items \<and> o_status x = new \<and>
    getById s (o_id x) = Inl not_found \<and> (\<forall>j. j \<noteq> o_id x \<longrightarrow> getById s' j = getById s j)"
proof -
  have "getById s (o_id x) = Inl not_found"
    using orders_ok_fresh [OF ok] c
    by (auto simp: getById_def create_def Let_def find_Some_iff split: option.splits)
  moreover have "orders_ok s'" using create_ok [OF ok, of ps items b now] c by simp
  ultimately show ?thesis using getById_create [OF ok c] c by (auto simp: create_def Let_def)
qed

theorem create_then_read_witness:
  "getById (snd (create products_init orders_init [\<lparr>product_id = ''p1'', quantity = 2\<rparr>] ''42'' ''t'')) ''o3'' \<noteq> Inl not_found"
proof -
  let ?c = "create products_init orders_init [\<lparr>product_id = ''p1'', quantity = 2\<rparr>] ''42'' ''t''"
  have "o_id (fst ?c) = ''o'' @ show_nat 3" by (simp add: create_def Let_def orders_init_def)
  also have "\<dots> = ''o3''" by code_simp
  finally show ?thesis
    using create_then_read [OF orders_ok_init surjective_pairing [of ?c]] by simp
qed

subsection \<open>The sum of an order\<close>

lemma fl_sum_exact:
  assumes "\<bar>a\<bar> + (\<Sum>x\<leftarrow>xs. \<bar>x\<bar>) \<le> 2 ^ 53"
  shows "foldl (\<lambda>s x. fl (s + fl (of_int x))) (of_int a) xs = of_int (a + sum_list xs)"
  using assms
proof (induction xs arbitrary: a)
  case (Cons x xs)
  have nonneg: "0 \<le> (\<Sum>x\<leftarrow>xs. \<bar>x\<bar>)" by (induction xs) auto
  have x: "\<bar>x\<bar> \<le> 2 ^ 53" and ax: "\<bar>a + x\<bar> \<le> 2 ^ 53" and le: "\<bar>a + x\<bar> + (\<Sum>x\<leftarrow>xs. \<bar>x\<bar>) \<le> 2 ^ 53"
    using Cons.prems nonneg by auto
  show ?case using Cons.IH [OF le] fl_int [OF x] fl_int [OF ax] by (simp add: add.assoc)
qed simp

text \<open>The total of a new order is the exact integer sum of price times quantity
  (an unknown product counts 0) as long as the amounts stay within the
  integers a double represents: no rounding error can appear.\<close>

theorem create_total_exact:
  assumes "(\<Sum>it\<leftarrow>items. \<bar>item_price ps it * quantity it\<bar>) \<le> 2 ^ 53"
  shows "total_cents (fst (create ps s items b now)) = of_int (\<Sum>it\<leftarrow>items. item_price ps it * quantity it)"
proof -
  let ?f = "\<lambda>it. item_price ps it * quantity it"
  have "foldl (\<lambda>sum it. fl (sum + js_mul (of_int (item_price ps it)) (of_int (quantity it)))) 0 items =
      foldl (\<lambda>s x. fl (s + fl (of_int x))) (of_int 0) (map ?f items)"
    by (simp add: foldl_map js_mul_def)
  also have "\<dots> = of_int (0 + sum_list (map ?f items))"
    using assms by (intro fl_sum_exact) (simp add: comp_def)
  finally show ?thesis by (simp add: create_def Let_def)
qed

theorem create_total_exact_witness:
  "total_cents (fst (create products_init orders_init [\<lparr>product_id = ''p2'', quantity = 2\<rparr>, \<lparr>product_id = ''p3'', quantity = 1\<rparr>] ''42'' ''t'')) = 104700"
  using create_total_exact [of products_init "[\<lparr>product_id = ''p2'', quantity = 2\<rparr>, \<lparr>product_id = ''p3'', quantity = 1\<rparr>]"
      orders_init "''42''" "''t''"]
  by (simp add: item_price_def findByIds_def products_init_def)

subsection \<open>Status changes\<close>

text \<open>A status change answers 404 and emits nothing for an unknown order;
  otherwise any status may follow any other, the order keeps everything else,
  no other order changes, and exactly one event is emitted, numbered one above
  the last event of this order.\<close>

theorem updateStatus_spec:
  "updateStatus s i st ts =
     (case getById s i of
        Inl e \<Rightarrow> (Inl e, [], s)
      | Inr x \<Rightarrow>
          (Inr (x\<lparr>o_status := st\<rparr>),
           [\<lparr>ev_id = Suc (case counters (events s) i of None \<Rightarrow> 0 | Some n \<Rightarrow> n), ev_orderId = i, ev_status = st, ev_ts = ts\<rparr>],
           snd (snd (updateStatus s i st ts)))) \<and>
   (\<forall>j. getById (snd (snd (updateStatus s i st ts))) j =
      map_sum id (\<lambda>x. if i = j then x\<lparr>o_status := st\<rparr> else x) (getById s j))"
proof -
  have "o_id x = i" if "getById s i = Inr x" for x
    using that by (auto simp: getById_def find_Some_iff split: option.splits)
  then show ?thesis
    using getById_updateStatus [of s i st ts]
    by (auto simp: updateStatus_def Let_def emitStatusChange_def split: sum.splits)
qed

subsection \<open>No event is lost or repeated on a reconnect\<close>

definition last_id :: "events_state \<Rightarrow> string \<Rightarrow> nat" where
  "last_id s i = (case counters s i of None \<Rightarrow> 0 | Some n \<Rightarrow> n)"

definition buffered :: "events_state \<Rightarrow> string \<Rightarrow> order_event list" where
  "buffered s i = (case buffers s i of None \<Rightarrow> [] | Some b \<Rightarrow> b)"

definition events_ok :: "events_state \<Rightarrow> bool" where
  "events_ok s \<longleftrightarrow> (\<forall>i. map ev_id (buffered s i) = [Suc (last_id s i - BUFFER_SIZE) ..< Suc (last_id s i)])"

lemma events_ok_init: "events_ok events_init"
  by (simp add: events_ok_def events_init_def buffered_def last_id_def)

lemma last_id_init [simp]: "last_id events_init i = 0"
  by (simp add: events_init_def last_id_def)

lemma emit_simps:
  "fst (emitStatusChange s i st ts) = \<lparr>ev_id = Suc (last_id s i), ev_orderId = i, ev_status = st, ev_ts = ts\<rparr>"
  "last_id (snd (emitStatusChange s i st ts)) j = (if i = j then Suc (last_id s i) else last_id s j)"
  "buffered (snd (emitStatusChange s i st ts)) j =
     (if i = j then let p = buffered s i @ [fst (emitStatusChange s i st ts)] in
        (if length p > BUFFER_SIZE then tl p else p) else buffered s j)"
  by (simp_all add: emitStatusChange_def Let_def last_id_def buffered_def)

lemma events_ok_emit [inv_intros]:
  assumes ok: "events_ok s" shows "events_ok (snd (emitStatusChange s i st ts))"
  unfolding events_ok_def
proof
  fix j
  let ?n = "last_id s i"
  have b: "map ev_id (buffered s i) = [Suc (?n - BUFFER_SIZE) ..< Suc ?n]"
    and other: "map ev_id (buffered s j) = [Suc (last_id s j - BUFFER_SIZE) ..< Suc (last_id s j)]"
    using ok by (auto simp: events_ok_def)
  have len: "length (buffered s i) = ?n - (?n - BUFFER_SIZE)"
    using arg_cong [OF b, of length] by (simp del: upt_Suc)
  have "map ev_id (buffered s i @ [fst (emitStatusChange s i st ts)]) = [Suc (?n - BUFFER_SIZE) ..< Suc (Suc ?n)]"
    using b by (simp add: emit_simps(1))
  moreover have "tl [Suc (?n - BUFFER_SIZE) ..< Suc (Suc ?n)] = [Suc (Suc (?n - BUFFER_SIZE)) ..< Suc (Suc ?n)]"
    by (metis tl_upt)
  moreover have "99 < n - (n - 100) \<Longrightarrow> Suc (n - 100) = n - 99" for n :: nat by arith
  ultimately show "map ev_id (buffered (snd (emitStatusChange s i st ts)) j) =
      [Suc (last_id (snd (emitStatusChange s i st ts)) j - BUFFER_SIZE) ..< Suc (last_id (snd (emitStatusChange s i st ts)) j)]"
    using len other by (auto simp: emit_simps(2,3) Let_def map_tl BUFFER_SIZE_def Suc_diff_le simp del: upt_Suc)
qed

lemma events_updateStatus:
  "events (snd (snd (updateStatus s i st ts))) =
     (case getById s i of Inl _ \<Rightarrow> events s | Inr x \<Rightarrow> snd (emitStatusChange (events s) (o_id x) st ts))"
  by (simp add: updateStatus_def Let_def split: sum.splits)

text \<open>The updates that reach the server one after another while the stream is open.\<close>

fun updates :: "orders_state \<Rightarrow> (string \<times> order_status \<times> string) list \<Rightarrow> order_event list \<times> orders_state" where
  "updates s [] = ([], s)"
| "updates s ((i, st, ts) # us) =
     (case updateStatus s i st ts of (_, evs, s') \<Rightarrow> (case updates s' us of (evs', s'') \<Rightarrow> (evs @ evs', s'')))"

lemma updates_ids:
  "map ev_id (filter (\<lambda>e. ev_orderId e = i) (fst (updates s us))) =
     [Suc (last_id (events s) i) ..< Suc (last_id (events (snd (updates s us))) i)] \<and>
   last_id (events s) i \<le> last_id (events (snd (updates s us))) i"
proof (induction s us rule: updates.induct)
  case (1 s)
  then show ?case by simp
next
  case (2 s j st ts us)
  obtain r evs s' where u: "updateStatus s j st ts = (r, evs, s')" by (cases "updateStatus s j st ts")
  obtain evs' s'' where us: "updates s' us = (evs', s'')" by (cases "updates s' us")
  have IH: "map ev_id (filter (\<lambda>e. ev_orderId e = i) evs') = [Suc (last_id (events s') i) ..< Suc (last_id (events s'') i)]"
    "last_id (events s') i \<le> last_id (events s'') i"
    using 2 [OF u [symmetric] refl] us by simp_all
  have "map ev_id (filter (\<lambda>e. ev_orderId e = i) evs) = [Suc (last_id (events s) i) ..< Suc (last_id (events s') i)]"
    "last_id (events s) i \<le> last_id (events s') i"
    using u by (auto simp: updateStatus_def Let_def emit_simps split: sum.splits if_splits)
  with IH show ?case
    using upt_add_eq_append [of "Suc (last_id (events s) i)" "Suc (last_id (events s') i)"
        "last_id (events s'') i - last_id (events s') i"]
    by (simp add: u us del: upt_Suc)
qed

lemma filter_upt_greater:
  "filter (\<lambda>n. k < n) [Suc a ..< Suc b] = (if k \<le> b then [Suc (max k a) ..< Suc b] else [])"
proof (induction b)
  case (Suc b)
  then show ?case by (cases "k \<le> b"; cases "a \<le> b") (auto simp: max_def le_Suc_eq)
qed (auto simp: max_def)

lemma missedSince_ids:
  assumes "events_ok s" "k \<le> last_id s i"
  shows "map ev_id (missedSince s i (Num (of_nat k))) = [Suc (max k (last_id s i - BUFFER_SIZE)) ..< Suc (last_id s i)]"
proof -
  have "map ev_id (missedSince s i (Num (of_nat k))) = filter (\<lambda>n. k < n) (map ev_id (buffered s i))"
    by (simp add: missedSince_def buffered_def filter_map comp_def)
  then show ?thesis
    using assms by (simp add: events_ok_def filter_upt_greater del: upt_Suc)
qed

text \<open>C11: a client of an order's event stream that saw everything up to event
  \<open>k\<close> and reconnects with \<open>Last-Event-ID: k\<close> gets the later events of
  this order with consecutive numbers, none twice and none out of order, from
  the first one the 100-event buffer still holds to the last one emitted while
  the connection is open; so nothing is lost if it missed at most 100.\<close>

theorem sse_resumes:
  assumes ok: "events_ok (events s)"
    and own: "getOwned s i user = Inr x"
    and k: "k \<le> last_id (events s) i" "last_id (events s) i \<le> 2 ^ 53"
    and up: "updates s us = (evs, s')"
  shows "\<exists>es. sse_events s i user (Some (show_nat k)) evs = Inr es \<and>
    map ev_id es = [Suc (max k (last_id (events s) i - BUFFER_SIZE)) ..< Suc (last_id (events s') i)]"
proof -
  let ?n = "last_id (events s) i"
  have "js_number (show_nat k) = Num (of_nat k)" using k by (intro js_number_show_nat) simp
  then have "sse_events s i user (Some (show_nat k)) evs =
      Inr (missedSince (events s) i (Num (of_nat k)) @ filter (\<lambda>e. ev_orderId e = i) evs)"
    using own by (simp add: sse_events_def)
  moreover have "map ev_id (filter (\<lambda>e. ev_orderId e = i) evs) = [Suc ?n ..< Suc (last_id (events s') i)]"
    and "?n \<le> last_id (events s') i"
    using updates_ids [of i s us] up by simp_all
  ultimately show ?thesis
    using missedSince_ids [OF ok k(1)] k(1)
      upt_add_eq_append [of "Suc (max k (?n - BUFFER_SIZE))" "Suc ?n" "last_id (events s') i - ?n"]
    by (simp del: upt_Suc)
qed

definition example_updates :: "(string \<times> order_status \<times> string) list" where
  "example_updates = [(''o1'', packed, ''a''), (''o2'', packed, ''b''), (''o1'', shipped, ''c'')]"

definition example_buyer :: auth_user where
  "example_buyer = \<lparr>au_id = ''u1'', au_role = customer, au_jti = ''j'', au_exp = 0, au_fid = ''f''\<rparr>"

theorem sse_resumes_witness:
  "\<exists>es. sse_events orders_init ''o1'' example_buyer (Some (show_nat 0)) (fst (updates orders_init example_updates)) = Inr es \<and>
    map ev_id es = [1, 2]"
proof -
  have own: "getOwned orders_init ''o1'' example_buyer = Inr (hd (orders orders_init))"
    by (simp add: getOwned_def getById_def orders_init_def example_buyer_def)
  have ok: "events_ok (events orders_init)" by (simp add: orders_init_def events_ok_init)
  have "last_id (events (snd (updates orders_init example_updates))) ''o1'' = 2"
    by (simp add: example_updates_def updateStatus_def Let_def getById_def orders_init_def emit_simps)
  moreover have "last_id (events orders_init) ''o1'' = 0" by (simp add: orders_init_def)
  moreover have "[Suc (max 0 (0 - BUFFER_SIZE)) ..< Suc 2] = [1, 2]" by (simp add: upt_rec)
  ultimately show ?thesis
    using sse_resumes [OF ok own, of 0 example_updates "fst (updates orders_init example_updates)"
        "snd (updates orders_init example_updates)"] by simp
qed

subsection \<open>Listings\<close>

text \<open>A customer or seller who lists the orders sees only orders they placed,
  whatever cursor or limit they send; an admin's pages run over all orders.\<close>

theorem listFor_private:
  assumes "listFor s user limit cursor = Inr p" "x \<in> set (page_items p)"
  shows "x \<in> set (orders s) \<and> (buyer_id x = au_id user \<or> au_role user = admin)"
proof -
  let ?v = "if au_role user = admin then orders s else filter (\<lambda>x. buyer_id x = au_id user) (orders s)"
  have "x \<in> set ?v"
    using set_page_items [of ?v limit cursor p] assms by (auto simp: listFor_def Let_def)
  then show ?thesis by (auto split: if_splits)
qed

subsection \<open>Rooms\<close>

text \<open>
  What can happen to the gateway: a socket that was never seen before connects with a
  handshake, which \<open>AuthService.authenticate\<close> checks at time \<open>a\<close> against the
  denylist of \<open>db\<close>; a socket asks to join; an order is placed; a status changes.  The
  list of handshakes is the history of the run: socket, token sent, time, tables.
\<close>

type_synonym handshake = "nat \<times> json option \<times> rat \<times> auth_db"

inductive gw_step :: "('priv, 'pub) auth_env \<Rightarrow> orders_state \<times> gateway \<times> handshake list \<Rightarrow>
    orders_state \<times> gateway \<times> handshake list \<Rightarrow> bool" for env where
  connect: "c \<notin> fst ` set hs \<Longrightarrow>
     gw_step env (s, gw, hs) (s, handleConnection (\<lambda>tok. authenticate env a tok db) c token gw, (c, token, a, db) # hs)"
| join: "gw_step env (s, gw, hs) (s, snd (join_order s c i gw), hs)"
| place: "gw_step env (s, gw, hs) (snd (create ps s items b now), gw, hs)"
| status: "gw_step env (s, gw, hs) (snd (snd (updateStatus s i st ts)), gw, hs)"

inductive gw_reach :: "('priv, 'pub) auth_env \<Rightarrow> orders_state \<times> gateway \<times> handshake list \<Rightarrow> bool" for env where
  start: "gw_reach env (orders_init, \<lparr>gw_users = Map.empty, gw_rooms = []\<rparr>, [])"
| step: "gw_reach env w \<Longrightarrow> gw_step env w w' \<Longrightarrow> gw_reach env w'"

definition may_see :: "orders_state \<Rightarrow> auth_user \<Rightarrow> string \<Rightarrow> bool" where
  "may_see s user i \<longleftrightarrow> (case getById s i of Inl _ \<Rightarrow> False
     | Inr x \<Rightarrow> buyer_id x = au_id user \<or> au_role user = admin)"

text \<open>The user a socket is known as is the one its handshake proved.\<close>

definition proved :: "('priv, 'pub) auth_env \<Rightarrow> handshake list \<Rightarrow> nat \<Rightarrow> auth_user \<Rightarrow> bool" where
  "proved env hs c user \<longleftrightarrow>
     (\<exists>tok a db. (c, Some (JStr tok), a, db) \<in> set hs \<and> authenticate env a tok db = Inr user)"

definition rooms_ok :: "('priv, 'pub) auth_env \<Rightarrow> orders_state \<times> gateway \<times> handshake list \<Rightarrow> bool" where
  "rooms_ok env = (\<lambda>(s, gw, hs). orders_ok s \<and>
     (\<forall>c user. gw_users gw c = Some user \<longrightarrow> proved env hs c user) \<and>
     (\<forall>c r. (c, r) \<in> set (gw_rooms gw) \<longrightarrow>
        (\<exists>user i. gw_users gw c = Some user \<and> r = roomForOrder i \<and> may_see s user i)))"

lemma rooms_ok_iff:
  "rooms_ok env (s, gw, hs) \<longleftrightarrow> orders_ok s \<and>
     (\<forall>c user. gw_users gw c = Some user \<longrightarrow> proved env hs c user) \<and>
     (\<forall>c r. (c, r) \<in> set (gw_rooms gw) \<longrightarrow>
        (\<exists>user i. gw_users gw c = Some user \<and> r = roomForOrder i \<and> may_see s user i))"
  by (simp add: rooms_ok_def)

lemma may_see_iff:
  "may_see s user i \<longleftrightarrow> (\<exists>x. getById s i = Inr x \<and> (buyer_id x = au_id user \<or> au_role user = admin))"
  by (auto simp: may_see_def split: sum.splits)

lemma roomForOrder_inj [simp]: "roomForOrder i = roomForOrder j \<longleftrightarrow> i = j"
  by (simp add: roomForOrder_def)

lemma may_see_create:
  assumes "orders_ok s" "may_see s user i" shows "may_see (snd (create ps s items b now)) user i"
proof -
  obtain x s' where c: "create ps s items b now = (x, s')" by (cases "create ps s items b now")
  have "i \<noteq> o_id x"
    using assms orders_ok_fresh [OF assms(1)] c
    by (auto simp: may_see_def getById_def create_def Let_def find_Some_iff split: option.splits)
  then show ?thesis using assms getById_create [OF assms(1) c] c by (simp add: may_see_def)
qed

lemma may_see_updateStatus: "may_see (snd (snd (updateStatus s j st ts))) user i = may_see s user i"
  by (simp add: may_see_def getById_updateStatus split: sum.splits)

lemma proved_connect:
  "gw_users (handleConnection (\<lambda>tok. authenticate env a tok db) c token gw) c = Some user \<Longrightarrow>
     proved env ((c, token, a, db) # hs) c user"
  by (auto simp: handleConnection_def proved_def split: option.splits json.splits sum.splits)

lemma proved_Cons: "proved env hs c user \<Longrightarrow> proved env (h # hs) c user"
  by (auto simp: proved_def)

lemma proved_seen: "proved env hs c user \<Longrightarrow> c \<in> fst ` set hs"
  by (force simp: proved_def)

lemma rooms_ok_connect:
  assumes ok: "rooms_ok env (s, gw, hs)" and c: "c \<notin> fst ` set hs"
  shows "rooms_ok env (s, handleConnection (\<lambda>tok. authenticate env a tok db) c token gw, (c, token, a, db) # hs)"
    (is "rooms_ok env (s, ?gw, ?hs)")
proof -
  have other: "gw_users ?gw c' = gw_users gw c'" if "c' \<noteq> c" for c' using that by (simp add: handleConnection_def)
  have rooms: "gw_rooms ?gw = gw_rooms gw" by (simp add: handleConnection_def)
  have "proved env ?hs c' user" if "gw_users ?gw c' = Some user" for c' user
  proof (cases "c' = c")
    case True
    then show ?thesis using that proved_connect [of env a db c token gw user hs] by simp
  next
    case False
    then have "proved env hs c' user" using that ok other unfolding rooms_ok_iff by simp
    then show ?thesis by (rule proved_Cons)
  qed
  moreover have "c' \<noteq> c" if "(c', r) \<in> set (gw_rooms gw)" for c' r
    using that ok c proved_seen unfolding rooms_ok_iff by metis
  ultimately show ?thesis using ok other rooms unfolding rooms_ok_iff by metis
qed

lemma rooms_ok_step: "gw_step env w w' \<Longrightarrow> rooms_ok env w \<Longrightarrow> rooms_ok env w'"
proof (induction rule: gw_step.induct)
  case (connect c hs s gw a db token)
  then show ?case by (simp add: rooms_ok_connect)
next
  case (join s gw hs c i)
  then show ?case
    by (auto simp: rooms_ok_iff join_order_def may_see_iff split: sum.splits option.splits)
next
  case (place s gw hs ps items b now)
  then show ?case unfolding rooms_ok_iff by (meson create_ok may_see_create)
next
  case (status s gw hs i st ts)
  then show ?case by (simp add: rooms_ok_iff updateStatus_ok may_see_updateStatus)
qed

lemma reach_rooms_ok: "gw_reach env w \<Longrightarrow> rooms_ok env w"
proof (induction rule: gw_reach.induct)
  case start
  then show ?case by (simp add: rooms_ok_iff orders_ok_init)
next
  case (step w w')
  then show ?case using rooms_ok_step by blast
qed

text \<open>In every reachable state each socket has had one handshake.\<close>

lemma reach_one_handshake: "gw_reach env w \<Longrightarrow> distinct (map fst (snd (snd w)))"
proof (induction rule: gw_reach.induct)
  case (step w w')
  from step(2,3) show ?case by (cases rule: gw_step.cases) auto
qed simp

text \<open>C10: in every reachable state, a status event is sent only to sockets whose one
  handshake carried an access token that \<open>AuthService.authenticate\<close> accepted, at the
  time of the connection, for a user who is the buyer of that order or an admin:
  anonymous sockets, sockets whose token was refused and other users never get it.\<close>

theorem broadcast_private:
  assumes "gw_reach env (s, gw, hs)" "c \<in> set (broadcast ev gw)"
  shows "\<exists>tok a db user x. (c, Some (JStr tok), a, db) \<in> set hs \<and>
    (\<forall>h \<in> set hs. fst h = c \<longrightarrow> h = (c, Some (JStr tok), a, db)) \<and>
    authenticate env a tok db = Inr user \<and> getById s (ev_orderId ev) = Inr x \<and>
    (buyer_id x = au_id user \<or> au_role user = admin)"
proof -
  have "(c, roomForOrder (ev_orderId ev)) \<in> set (gw_rooms gw)"
    using assms(2) by (auto simp: broadcast_def)
  then obtain user where u: "proved env hs c user" "may_see s user (ev_orderId ev)"
    using reach_rooms_ok [OF assms(1)] unfolding rooms_ok_iff by (metis roomForOrder_inj)
  from u(1) obtain tok a db where h: "(c, Some (JStr tok), a, db) \<in> set hs" "authenticate env a tok db = Inr user"
    by (auto simp: proved_def)
  have "distinct (map fst hs)" using reach_one_handshake [OF assms(1)] by simp
  then have "\<forall>h \<in> set hs. fst h = c \<longrightarrow> h = (c, Some (JStr tok), a, db)"
    using h(1) by (metis distinct_key_unique fst_conv)
  with h u(2) show ?thesis unfolding may_see_iff by blast
qed

text \<open>A customer connects with a token, orders and joins the room of the order.\<close>

definition example_orders :: orders_state where
  "example_orders = snd (create products_init orders_init [\<lparr>product_id = ''p1'', quantity = 2\<rparr>] ''1'' ''t'')"

definition example_gateway :: gateway where
  "example_gateway = snd (join_order example_orders 0 ''o3''
     (handleConnection (\<lambda>tok. authenticate example_env 20 tok example_db) 0 (Some (JStr ''tok''))
        \<lparr>gw_users = Map.empty, gw_rooms = []\<rparr>))"

lemma example_authenticates: "authenticate example_env 20 ''tok'' example_db = Inr example_user"
  using example_verify by (simp add: authenticate_def example_db_def example_user_def)

lemma example_own_order: "\<exists>x. getById example_orders ''o3'' = Inr x \<and> buyer_id x = ''1''"
proof -
  let ?c = "create products_init orders_init [\<lparr>product_id = ''p1'', quantity = 2\<rparr>] ''1'' ''t''"
  have "o_id (fst ?c) = ''o'' @ show_nat 3" by (simp add: create_def Let_def orders_init_def)
  also have "\<dots> = ''o3''" by code_simp
  finally show ?thesis
    using getById_create [OF orders_ok_init surjective_pairing [of ?c]]
    by (simp add: example_orders_def create_def Let_def)
qed

theorem broadcast_private_witness:
  "0 \<in> set (broadcast \<lparr>ev_id = 1, ev_orderId = ''o3'', ev_status = packed, ev_ts = ''t''\<rparr> example_gateway) \<and>
   (\<exists>user x. authenticate example_env 20 ''tok'' example_db = Inr user \<and> getById example_orders ''o3'' = Inr x \<and>
      (buyer_id x = au_id user \<or> au_role user = admin))"
proof -
  let ?hs = "[(0, Some (JStr ''tok''), 20, example_db)]"
  have reach: "gw_reach example_env (example_orders, example_gateway, ?hs)"
    unfolding example_gateway_def example_orders_def
    by (rule gw_reach.step [OF gw_reach.step [OF gw_reach.step [OF gw_reach.start gw_step.connect] gw_step.place] gw_step.join]) simp
  have mem: "0 \<in> set (broadcast \<lparr>ev_id = 1, ev_orderId = ''o3'', ev_status = packed, ev_ts = ''t''\<rparr> example_gateway)"
    using example_own_order
    by (auto simp: example_gateway_def broadcast_def join_order_def handleConnection_def example_authenticates
        example_user_def roomForOrder_def)
  from broadcast_private [OF reach mem] mem show ?thesis by simp
qed

theorem listFor_private_witness:
  "(\<exists>p. listFor orders_init example_buyer 20 None = Inr p \<and> page_items p \<noteq> [] \<and> (\<forall>x \<in> set (page_items p). buyer_id x = ''u1''))"
proof -
  let ?p = "\<lparr>page_items = [hd (orders orders_init)], next_cursor = None\<rparr>"
  have p: "listFor orders_init example_buyer 20 None = Inr ?p"
    by (simp add: listFor_def example_buyer_def orders_init_def paginate_def js_slice_def slice_index_def Let_def)
  have "buyer_id x = ''u1''" if "x \<in> set (page_items ?p)" for x
    using listFor_private [OF p that] by (auto simp: example_buyer_def)
  with p show ?thesis by (intro exI [of _ ?p]) simp
qed

end
