(* ===== verification/Money.thy ===== *)
theory Money
  imports JsNum
begin

text \<open>
  Amounts of money on their way between a Postgres \<open>numeric(12,2)\<close> column and a
  JavaScript number: the column's text is read with \<open>Number\<close> (\<open>fl\<close> of the exact
  value), the driver sends a number as \<open>String(x)\<close>, the shortest decimal that
  reads back as \<open>x\<close> (\<open>js_decimal\<close>), and a column rounds what it stores to cents
  (\<open>numeric122\<close>).  The lemmas bound the error of that way back and forth.
\<close>

subsection \<open>String(number) and numeric(12,2)\<close>

definition dec_exp :: "rat \<Rightarrow> int" where
  "dec_exp x = (if 1 \<le> x then int (floorlog 10 (nat \<lfloor>x\<rfloor>)) else 1 - int (floorlog 10 (nat \<lceil>1 / x\<rceil> - 1)))"

definition digits_at :: "rat \<Rightarrow> nat \<Rightarrow> rat" where
  "digits_at x k =
     of_int (round_half_even (x * pow10 (int k - dec_exp x))) * pow10 (dec_exp x - int k)"

definition pos_decimal :: "rat \<Rightarrow> rat" where
  "pos_decimal x =
     (case find (\<lambda>k. fl (digits_at x k) = x) [1 ..< 18] of None \<Rightarrow> x | Some k \<Rightarrow> digits_at x k)"

definition js_decimal :: "rat \<Rightarrow> rat" where
  "js_decimal x = (if x = 0 then 0 else if x < 0 then - pos_decimal (- x) else pos_decimal x)"

definition round2 :: "rat \<Rightarrow> rat" where
  "round2 x = sgn x * of_int \<lfloor>\<bar>x\<bar> * 100 + 1 / 2\<rfloor> / 100"

definition numeric122 :: "rat \<Rightarrow> rat res" where
  "numeric122 x = (if \<bar>round2 x\<bar> < 10 ^ 10 then Inr (round2 x) else Inl (DbError ''22003''))"

text \<open>What a \<open>numeric(12,2)\<close> column can hold.\<close>

definition cents :: "rat \<Rightarrow> bool" where
  "cents x \<longleftrightarrow> of_int \<lfloor>x * 100\<rfloor> = x * 100"

lemma cents_iff: "cents x \<longleftrightarrow> (\<exists>n. x = of_int n / 100)"
proof
  assume "cents x"
  then show "\<exists>n. x = of_int n / 100"
    unfolding cents_def by (metis nonzero_mult_div_cancel_right zero_neq_numeral)
next
  assume "\<exists>n. x = of_int n / 100"
  then obtain n where "x * 100 = of_int n" by auto
  then show "cents x" unfolding cents_def by simp
qed

lemma cents_times_int [intro]: "cents x \<Longrightarrow> cents (x * of_int n)"
  by (auto simp: cents_iff intro: exI [of _ "m * n" for m])

lemma cents_diff [intro]: "cents x \<Longrightarrow> cents y \<Longrightarrow> cents (x - y)"
  by (metis cents_iff diff_divide_distrib of_int_diff)

lemma cents_uminus [simp]: "cents (- x) \<longleftrightarrow> cents x"
  by (metis cents_iff minus_divide_left minus_minus of_int_minus)

lemma cents_round2 [simp]: "cents (round2 x)"
proof -
  have "\<exists>n. sgn x = of_int n" by (cases x "0::rat" rule: linorder_cases) (auto intro: exI [of _ "-1"] exI [of _ 1])
  then obtain n where "sgn x = of_int n" ..
  then have "round2 x = of_int (n * \<lfloor>\<bar>x\<bar> * 100 + 1 / 2\<rfloor>) / 100" by (simp add: round2_def)
  then show ?thesis unfolding cents_iff by blast
qed

lemma round2_near_nonneg:
  assumes "cents c" "0 \<le> c" "\<bar>d - c\<bar> < 1 / 200"
  shows "round2 d = c"
proof -
  obtain n where n: "c = of_int n / 100" using assms(1) by (auto simp: cents_iff)
  show ?thesis
  proof (cases "n = 0")
    case True
    then have "\<lfloor>\<bar>d\<bar> * 100 + 1 / 2\<rfloor> = 0" using assms(3) n by (simp add: floor_eq_iff)
    with True n show ?thesis by (simp add: round2_def)
  next
    case False
    then have "1 \<le> n" using assms(2) n by (simp add: zero_le_divide_iff)
    then have "(1::rat) / 100 \<le> c" using n by (simp add: divide_right_mono)
    then have d: "0 < d" using assms(3) by linarith
    have "d - c < 1 / 200" "c - d < 1 / 200" using assms(3) by linarith+
    moreover have "c * 100 = of_int n" using n by simp
    ultimately have "of_int n \<le> d * 100 + 1 / 2" "d * 100 + 1 / 2 < of_int n + 1" by linarith+
    then have "\<lfloor>\<bar>d\<bar> * 100 + 1 / 2\<rfloor> = n" using d by (simp add: floor_eq_iff)
    with d n show ?thesis by (simp add: round2_def)
  qed
qed

subsection \<open>The error of one rounding\<close>

lemma round_half_even_error: "\<bar>of_int (round_half_even x) - x\<bar> \<le> 1 / 2"
proof -
  define r where "r = x - of_int \<lfloor>x\<rfloor>"
  have r: "0 \<le> r" "r < 1" unfolding r_def by linarith+
  have x: "x = of_int \<lfloor>x\<rfloor> + r" by (simp add: r_def)
  have "round_half_even x = \<lfloor>x\<rfloor> \<and> r \<le> 1 / 2 \<or> round_half_even x = \<lfloor>x\<rfloor> + 1 \<and> 1 / 2 \<le> r"
    unfolding round_half_even_def Let_def r_def [symmetric]
    by (cases "r < 1 / 2"; cases "1 / 2 < r") (simp_all add: not_less)
  then show ?thesis
  proof
    assume "round_half_even x = \<lfloor>x\<rfloor> \<and> r \<le> 1 / 2"
    then have "of_int (round_half_even x) - x = - r" "r \<le> 1 / 2" using x by simp_all
    with r show ?thesis by simp
  next
    assume "round_half_even x = \<lfloor>x\<rfloor> + 1 \<and> 1 / 2 \<le> r"
    then have "of_int (round_half_even x) - x = 1 - r" "1 / 2 \<le> r" using x by (simp_all add: r_def)
    with r show ?thesis by simp
  qed
qed

lemma fl_error:
  assumes "pow2 (- 1022) \<le> \<bar>x\<bar>"
  shows "\<bar>fl x - x\<bar> \<le> \<bar>x\<bar> * pow2 (- 53)"
proof -
  have pos: "0 < \<bar>x\<bar>" using assms pow2_pos [of "- 1022"] by linarith
  let ?l = "log2_floor \<bar>x\<bar>"
  have "pow2 (- 1022) < pow2 (?l + 1)" using log2_floor_bounds(2) [OF pos] assms by linarith
  then have "- 1022 < ?l + 1" using pow2_mono [of "?l + 1" "- 1022"] by linarith
  then have e: "max (?l - 52) (- 1074) = ?l - 52" by simp
  let ?e = "pow2 (?l - 52)"
  have "fl x - x = (of_int (round_half_even (x / ?e)) - x / ?e) * ?e"
    using pos less_imp_neq [OF pow2_pos [of "?l - 52"]] by (simp add: fl_def Let_def e left_diff_distrib)
  then have "\<bar>fl x - x\<bar> = \<bar>of_int (round_half_even (x / ?e)) - x / ?e\<bar> * ?e"
    by (simp add: abs_mult abs_of_pos [OF pow2_pos])
  also have "\<dots> \<le> 1 / 2 * ?e" by (intro mult_right_mono round_half_even_error less_imp_le pow2_pos)
  also have "\<dots> = pow2 (?l + (- 53))"
    using pow2_plus [of "- 1" "?l - 52"] by (simp add: pow2_def [of "- 1"])
  also have "\<dots> \<le> \<bar>x\<bar> * pow2 (- 53)"
    unfolding pow2_plus by (intro mult_right_mono log2_floor_bounds(1) [OF pos] less_imp_le pow2_pos)
  finally show ?thesis .
qed

lemma pow10_pos [simp]: "0 < pow10 k"
  by (simp add: pow10_def)

lemma pow10_plus: "pow10 (a + b) = pow10 a * pow10 b"
proof -
  have *: "pow10 k = 10 powi k" for k
    by (simp add: pow10_def power_int_def power_one_over)
  show ?thesis unfolding * by (rule power_int_add) simp
qed

lemma pow10_mono: "a \<le> b \<Longrightarrow> pow10 a \<le> pow10 b"
proof -
  assume "a \<le> b"
  then have "pow10 b = pow10 a * pow10 (b - a)" by (simp flip: pow10_plus)
  moreover have "1 \<le> pow10 (b - a)" using \<open>a \<le> b\<close> by (simp add: pow10_def)
  ultimately show ?thesis by simp
qed

lemma dec_exp_lower:
  assumes "0 < x" shows "pow10 (dec_exp x - 1) \<le> x"
proof (cases "1 \<le> x")
  case True
  let ?n = "nat \<lfloor>x\<rfloor>"
  have n: "0 < ?n" using True by simp
  have "(10::nat) ^ (floorlog 10 ?n - 1) \<le> ?n" using floorlog_bounds [OF n, of 10] by simp
  then have "(10::rat) ^ (floorlog 10 ?n - 1) \<le> of_nat ?n" by (metis of_nat_le_iff of_nat_numeral of_nat_power)
  also have "\<dots> \<le> x" using True by simp
  finally have "(10::rat) ^ (floorlog 10 ?n - 1) \<le> x" .
  moreover have "0 < floorlog 10 ?n" using n by (simp add: floorlog_def)
  moreover have "nat (int (floorlog 10 ?n) - 1) = floorlog 10 ?n - 1" by simp
  ultimately show ?thesis using True by (simp add: dec_exp_def pow10_def)
next
  case False
  let ?c = "nat \<lceil>1 / x\<rceil> - 1"
  have "1 < 1 / x" using False assms by simp
  then have two: "2 \<le> \<lceil>1 / x\<rceil>" by linarith
  then have c: "0 < ?c" by simp
  have "?c < 10 ^ floorlog 10 ?c" using floorlog_bounds [OF c, of 10] by simp
  then have "nat \<lceil>1 / x\<rceil> \<le> 10 ^ floorlog 10 ?c" using two by linarith
  then have "(of_nat (nat \<lceil>1 / x\<rceil>) :: rat) \<le> of_nat (10 ^ floorlog 10 ?c)" by (simp only: of_nat_le_iff)
  moreover have "1 / x \<le> of_nat (nat \<lceil>1 / x\<rceil>)" using two by (simp add: le_of_int_ceiling)
  ultimately have "1 / x \<le> of_nat (10 ^ floorlog 10 ?c)" by linarith
  then have "1 / x \<le> 10 ^ floorlog 10 ?c" by simp
  then have "1 / 10 ^ floorlog 10 ?c \<le> x" using assms by (simp add: divide_le_eq mult.commute)
  moreover have "0 < floorlog 10 ?c" using c by (simp add: floorlog_def)
  ultimately show ?thesis using False by (simp add: dec_exp_def pow10_def)
qed

subsection \<open>Sending a number and reading it back\<close>

lemma fl_error': "pow2 (- 1022) \<le> \<bar>x\<bar> \<Longrightarrow> \<bar>fl x - x\<bar> * 9007199254740992 \<le> \<bar>x\<bar>"
  using fl_error [of x] by (simp add: pow2_def [of "- 53"])

lemma pos_decimal_error:
  assumes x: "pow2 (- 1021) \<le> x"
  shows "\<bar>pos_decimal x - x\<bar> * 4503599627370496 \<le> x"
proof (cases "find (\<lambda>k. fl (digits_at x k) = x) [1 ..< 18]")
  case None
  then show ?thesis using order_trans [OF less_imp_le [OF pow2_pos] x] by (simp add: pos_decimal_def)
next
  case (Some k)
  have pos: "0 < x" using x pow2_pos [of "- 1021"] by linarith
  let ?n = "dec_exp x" and ?d = "digits_at x k"
  have k: "1 \<le> k" "fl ?d = x"
    using Some by (auto simp: find_Some_iff)
  let ?s = "pow10 (?n - int k)"
  have inv: "pow10 (int k - ?n) * ?s = 1" by (simp add: pow10_def flip: pow10_plus)
  have "?d - x = (of_int (round_half_even (x * pow10 (int k - ?n))) - x * pow10 (int k - ?n)) * ?s"
    by (simp add: digits_at_def left_diff_distrib mult.assoc inv)
  then have "\<bar>?d - x\<bar> \<le> 1 / 2 * ?s"
    using round_half_even_error [of "x * pow10 (int k - ?n)"] pow10_pos [of "?n - int k"]
    by (simp add: abs_mult abs_of_pos del: pow10_pos)
  also have "?s \<le> pow10 (?n - 1)" using k(1) by (intro pow10_mono) simp
  also have "\<dots> \<le> x" using dec_exp_lower [OF pos] .
  finally have close: "\<bar>?d - x\<bar> \<le> x / 2" by simp
  have "pow2 (- 1022) \<le> x / 2"
    using x pow2_plus [of "- 1" "- 1021"] by (simp add: pow2_def [of "- 1"])
  then have "pow2 (- 1022) \<le> \<bar>?d\<bar>" using close by linarith
  from fl_error' [OF this] k(2) have "\<bar>x - ?d\<bar> * 9007199254740992 \<le> \<bar>?d\<bar>" by simp
  moreover have "\<bar>?d\<bar> \<le> 2 * x" using close pos by linarith
  ultimately have "\<bar>x - ?d\<bar> * 9007199254740992 \<le> 2 * x" by linarith
  then have "\<bar>?d - x\<bar> * 4503599627370496 \<le> x" by (simp add: abs_minus_commute)
  then show ?thesis unfolding pos_decimal_def Some option.case .
qed

lemma fl_0 [simp]: "fl 0 = 0"
  by (simp add: fl_def)

lemma charge_error:
  assumes p: "cents p" "0 \<le> p" and q: "0 \<le> q"
  shows "\<bar>js_decimal (js_mul (fl p) (of_int q)) - p * of_int q\<bar> \<le> p * of_int q / 2 ^ 50"
proof (cases "p = 0 \<or> q = 0")
  case True
  then show ?thesis by (elim disjE) (simp_all add: js_mul_def js_decimal_def)
next
  case False
  let ?q = "of_int q :: rat"
  define c where "c = p * ?q"
  obtain n where n: "p = of_int n / 100" using p(1) by (auto simp: cents_iff)
  have "1 \<le> n" using n p(2) False by (simp add: zero_le_divide_iff)
  then have p1: "1 / 100 \<le> p" using n by (simp add: divide_right_mono)
  have q1: "1 \<le> ?q" using False q by simp
  have "p * 1 \<le> p * ?q" using p(2) q1 by (intro mult_left_mono)
  then have c1: "1 / 100 \<le> c" using p1 unfolding c_def by linarith
  have small: "pow2 (- 1022) \<le> 1 / 128" "pow2 (- 1021) \<le> 1 / 256"
    using pow2_mono [of "- 1022" "- 7"] pow2_mono [of "- 1021" "- 8"] by (simp_all add: pow2_def)
  have "pow2 (- 1022) \<le> \<bar>p\<bar>" using small(1) p1 by linarith
  from fl_error' [OF this] have fp: "\<bar>fl p - p\<bar> * 9007199254740992 \<le> p" using p(2) by simp
  define M where "M = fl p * ?q"
  have "\<bar>M - c\<bar> = \<bar>fl p - p\<bar> * ?q"
    using q1 by (simp add: M_def c_def abs_mult flip: left_diff_distrib)
  then have "\<bar>M - c\<bar> * 9007199254740992 = (\<bar>fl p - p\<bar> * 9007199254740992) * ?q" by simp
  also have "\<dots> \<le> c" unfolding c_def using fp q1 by (intro mult_right_mono) auto
  finally have M: "\<bar>M - c\<bar> * 9007199254740992 \<le> c" .
  then have "\<bar>M - c\<bar> \<le> c / 2" using c1 by simp
  then have M2: "c / 2 \<le> M" "M \<le> 2 * c" using c1 by linarith+
  then have "pow2 (- 1022) \<le> \<bar>M\<bar>" using small(2) c1 pow2_mono [of "- 1022" "- 1021"] by simp
  from fl_error' [OF this] have T: "\<bar>fl M - M\<bar> * 9007199254740992 \<le> M" using M2 c1 by simp
  have Mc: "\<bar>M - c\<bar> \<le> c / 2 ^ 53" "\<bar>fl M - M\<bar> \<le> c / 2 ^ 52" using M T M2 by simp_all
  have "c / 2 ^ 53 \<le> c / 8" "c / 2 ^ 52 \<le> c / 8" using c1 by simp_all
  with Mc have T2: "c / 4 \<le> fl M" "fl M \<le> 2 * c" using M2 by linarith+
  show ?thesis
  proof (cases "pow2 (- 1021) \<le> fl M")
    case True
    from pos_decimal_error [OF True] have "\<bar>pos_decimal (fl M) - fl M\<bar> * 4503599627370496 \<le> fl M" .
    then have "\<bar>pos_decimal (fl M) - fl M\<bar> \<le> c / 2 ^ 51" using T2 by simp
    then have "\<bar>pos_decimal (fl M) - c\<bar> \<le> c / 2 ^ 51 + (c / 2 ^ 52 + c / 2 ^ 53)" using Mc by linarith
    also have "\<dots> \<le> c / 2 ^ 50" using c1 by simp
    finally have "\<bar>pos_decimal (fl M) - c\<bar> \<le> c / 2 ^ 50" .
    moreover have "js_decimal (fl M) = pos_decimal (fl M)" using T2 c1 by (simp add: js_decimal_def)
    ultimately show ?thesis by (simp add: js_mul_def M_def c_def del: of_int_mult)
  next
    case False
    have "pow2 (- 1021) \<le> 1 / 1024" using pow2_mono [of "- 1021" "- 10"] by (simp add: pow2_def)
    with False T2 c1 show ?thesis by linarith
  qed
qed

text \<open>
  So an amount below \<open>10^12\<close> arrives within half a cent, and rounding to cents
  gives the exact product of price and quantity.
\<close>

lemma charge_rounds:
  assumes "cents p" "0 \<le> p" "0 \<le> q" "p * of_int q \<le> 10 ^ 12"
  shows "round2 (js_decimal (js_mul (fl p) (of_int q))) = p * of_int q"
    and "\<bar>js_decimal (js_mul (fl p) (of_int q)) - p * of_int q\<bar> < 1 / 200"
proof -
  have "p * of_int q / 2 ^ 50 < 1 / 200" using assms(4) by simp
  with charge_error [OF assms(1-3)]
  show *: "\<bar>js_decimal (js_mul (fl p) (of_int q)) - p * of_int q\<bar> < 1 / 200" by linarith
  show "round2 (js_decimal (js_mul (fl p) (of_int q))) = p * of_int q"
    using assms by (intro round2_near_nonneg * cents_times_int) auto
qed

lemma text_rounds:
  assumes p: "cents p" "0 \<le> p" "p \<le> 10 ^ 12"
  shows "round2 (js_decimal (fl p)) = p"
proof (cases "p = 0")
  case True
  then show ?thesis by (simp add: js_decimal_def round2_def)
next
  case False
  obtain n where n: "p = of_int n / 100" using p(1) by (auto simp: cents_iff)
  have "1 \<le> n" using n p(2) False by (simp add: zero_le_divide_iff)
  then have p1: "1 / 100 \<le> p" using n by (simp add: divide_right_mono)
  have small: "pow2 (- 1022) \<le> 1 / 128" "pow2 (- 1021) \<le> 1 / 256"
    using pow2_mono [of "- 1022" "- 7"] pow2_mono [of "- 1021" "- 8"] by (simp_all add: pow2_def)
  have "pow2 (- 1022) \<le> \<bar>p\<bar>" using small(1) p1 by linarith
  from fl_error' [OF this] have fp: "\<bar>fl p - p\<bar> * 9007199254740992 \<le> p" using p(2) by simp
  then have c: "\<bar>fl p - p\<bar> \<le> 1 / 1000" "\<bar>fl p - p\<bar> \<le> p / 2" using p p1 by simp_all
  then have b: "p / 2 \<le> fl p" "fl p \<le> 2 * p" by linarith+
  then have "pow2 (- 1021) \<le> fl p" using small(2) p1 by linarith
  from pos_decimal_error [OF this] b p(3) have "\<bar>pos_decimal (fl p) - fl p\<bar> \<le> 1 / 1000" by simp
  with c(1) have "\<bar>pos_decimal (fl p) - p\<bar> < 1 / 200" by linarith
  moreover have "js_decimal (fl p) = pos_decimal (fl p)" using b p1 by (simp add: js_decimal_def)
  ultimately show ?thesis using p by (intro round2_near_nonneg) auto
qed

lemma cents_le:
  assumes "cents a" "cents b" "a < b + 1 / 100" shows "a \<le> b"
proof -
  obtain m n where "a = of_int m / 100" "b = of_int n / 100" using assms(1,2) by (auto simp: cents_iff)
  moreover from this assms(3) have "of_int m < (of_int (n + 1) :: rat)" by simp
  then have "m \<le> n" by simp
  ultimately show ?thesis by (simp add: divide_right_mono)
qed

text \<open>
  What the database does with the amount: a balance that passes the comparison
  covers the exact amount, and what is left is the exact difference.
\<close>

lemma charge_exact:
  assumes p: "cents p" "0 \<le> p" and q: "0 \<le> q" and b: "cents b" "b < 10 ^ 10"
    and le: "js_decimal (js_mul (fl p) (of_int q)) \<le> b"
  shows "p * of_int q \<le> b" "round2 (b - js_decimal (js_mul (fl p) (of_int q))) = b - p * of_int q"
    "round2 (js_decimal (js_mul (fl p) (of_int q))) = p * of_int q"
proof -
  let ?d = "js_decimal (js_mul (fl p) (of_int q))"
  have c0: "0 \<le> p * of_int q" using p q by simp
  have "p * of_int q / 2 ^ 50 \<le> p * of_int q / 2" using c0 by simp
  then have "p * of_int q \<le> 2 * ?d" using charge_error [OF p q] by linarith
  then have lim: "p * of_int q \<le> 10 ^ 12" using le b(2) by simp
  note r = charge_rounds [OF p q lim]
  have "p * of_int q < b + 1 / 100" using r(2) le by linarith
  with p b show amt: "p * of_int q \<le> b" by (intro cents_le cents_times_int)
  show "round2 ?d = p * of_int q" by (rule r(1))
  have "\<bar>(b - ?d) - (b - p * of_int q)\<bar> < 1 / 200" using r(2) by linarith
  then show "round2 (b - ?d) = b - p * of_int q"
    using amt p q b by (intro round2_near_nonneg cents_diff cents_times_int) auto
qed

end
