(* ===== verification/Events.thy ===== *)
theory Events
  imports Tokens Money "HOL-Library.Word"
begin

text \<open>
  The \<open>order.placed\<close> contract: \<open>src/messaging/events.ts\<close>.  The digest is the
  parameter \<open>sha1\<close> (20 bytes); the validators of the zod schema for UUIDs and
  ISO timestamps are the parameter \<open>schema_lib\<close>.  A message body is the JSON
  value it parses to.
\<close>

unbundle bit_operations_syntax

subsection \<open>The event\<close>

record order_data =
  od_orderId :: string
  od_buyerId :: string
  od_productId :: string
  od_quantity :: rat
  od_totalAmount :: rat

record order_placed =
  op_eventId :: string
  op_type :: string
  op_occurredAt :: string
  op_data :: order_data

definition hex_char :: "nat \<Rightarrow> char" where
  "hex_char n = char_of (if n < 10 then 48 + n else 87 + n)"

definition hex_byte :: "8 word \<Rightarrow> string" where
  "hex_byte w = [hex_char (unat w div 16), hex_char (unat w mod 16)]"

definition to_hex :: "8 word list \<Rightarrow> string" where
  "to_hex bs = concat (map hex_byte bs)"

definition str_slice :: "nat \<Rightarrow> nat \<Rightarrow> string \<Rightarrow> string" where
  "str_slice a b s = take (b - a) (drop a s)"

definition eventIdFor :: "(string \<Rightarrow> 8 word list) \<Rightarrow> string \<Rightarrow> string \<Rightarrow> string" where
  "eventIdFor sha1 type businessKey =
     (let h = sha1 (type @ '':'' @ businessKey);
          h = h[6 := (h ! 6 AND 0x0f) OR 0x50];
          h = h[8 := (h ! 8 AND 0x3f) OR 0x80];
          hex = to_hex (take 16 h)
      in str_slice 0 8 hex @ ''-'' @ str_slice 8 12 hex @ ''-'' @ str_slice 12 16 hex @ ''-''
         @ str_slice 16 20 hex @ ''-'' @ str_slice 20 32 hex)"

definition buildOrderPlaced :: "(string \<Rightarrow> 8 word list) \<Rightarrow> string \<Rightarrow> order_data \<Rightarrow> order_placed" where
  "buildOrderPlaced sha1 nowISO data =
     \<lparr>op_eventId = eventIdFor sha1 ''order.placed'' (od_orderId data), op_type = ''order.placed'',
      op_occurredAt = nowISO, op_data = data\<rparr>"

definition toOrderPlacedEvent ::
    "(string \<Rightarrow> 8 word list) \<Rightarrow> string \<Rightarrow> string \<Rightarrow> string \<Rightarrow> rat \<Rightarrow> rat \<Rightarrow> string \<Rightarrow> order_placed" where
  "toOrderPlacedEvent sha1 orderId buyerId productId qty totalAmount placedAtISO =
     \<lparr>op_eventId = eventIdFor sha1 ''order.placed'' orderId,
      op_type = ''order.placed'',
      op_occurredAt = placedAtISO,
      op_data = \<lparr>od_orderId = orderId, od_buyerId = buyerId, od_productId = productId,
                 od_quantity = qty, od_totalAmount = totalAmount\<rparr>\<rparr>"

subsection \<open>On the wire\<close>

definition event_json :: "order_placed \<Rightarrow> json" where
  "event_json e = JObj
     [(''eventId'', JStr (op_eventId e)), (''type'', JStr (op_type e)), (''occurredAt'', JStr (op_occurredAt e)),
      (''data'', JObj [(''orderId'', JStr (od_orderId (op_data e))), (''buyerId'', JStr (od_buyerId (op_data e))),
         (''productId'', JStr (od_productId (op_data e))), (''quantity'', JNum (od_quantity (op_data e))),
         (''totalAmount'', JNum (od_totalAmount (op_data e)))])]"

record schema_lib =
  is_uuid :: "string \<Rightarrow> bool"
  is_datetime :: "string \<Rightarrow> bool"

definition parse_data :: "json \<Rightarrow> order_data option" where
  "parse_data d =
     (case (field d ''orderId'', field d ''buyerId'', field d ''productId'', field d ''quantity'', field d ''totalAmount'') of
        (Some (JStr i), Some (JStr b), Some (JStr p), Some (JNum n), Some (JNum t)) \<Rightarrow>
          if i \<noteq> '''' \<and> b \<noteq> '''' \<and> p \<noteq> '''' \<and> js_is_integer (Num n) \<and> 0 < n \<and> 0 \<le> t
          then Some \<lparr>od_orderId = i, od_buyerId = b, od_productId = p, od_quantity = n, od_totalAmount = t\<rparr>
          else None
      | _ \<Rightarrow> None)"

definition OrderPlacedSchema :: "schema_lib \<Rightarrow> json \<Rightarrow> order_placed option" where
  "OrderPlacedSchema lib j =
     (case (field j ''eventId'', field j ''type'', field j ''occurredAt'', field j ''data'') of
        (Some (JStr i), Some (JStr ty), Some (JStr dt), Some d) \<Rightarrow>
          if is_uuid lib i \<and> ty = ''order.placed'' \<and> is_datetime lib dt
          then map_option (\<lambda>od. \<lparr>op_eventId = i, op_type = ty, op_occurredAt = dt, op_data = od\<rparr>) (parse_data d)
          else None
      | _ \<Rightarrow> None)"

subsection \<open>Event ids are version 5 UUIDs\<close>

definition is_hex :: "char \<Rightarrow> bool" where
  "is_hex c \<longleftrightarrow> c \<in> set ''0123456789abcdef''"

definition uuid_shape :: "string \<Rightarrow> bool" where
  "uuid_shape s \<longleftrightarrow> length s = 36 \<and>
     (\<forall>i < 36. if i \<in> {8, 13, 18, 23} then s ! i = CHR ''-'' else is_hex (s ! i))"

lemma hex_chars: "n < 16 \<Longrightarrow> hex_char n = ''0123456789abcdef'' ! n"
proof -
  have "\<forall>n \<in> set [0 ..< 16]. hex_char n = ''0123456789abcdef'' ! n" by code_simp
  then show "n < 16 \<Longrightarrow> hex_char n = ''0123456789abcdef'' ! n" by simp
qed

lemma is_hex_char: "n < 16 \<Longrightarrow> is_hex (hex_char n)"
  unfolding is_hex_def by (subst hex_chars) (auto intro!: nth_mem simp del: set_simps)

lemma unat_byte: "unat (w :: 8 word) < 256"
  using unsigned_less [of w] by simp

lemma length_hex_byte [simp]: "length (hex_byte w) = 2"
  by (simp add: hex_byte_def)

lemma hex_byte_hex: "c \<in> set (hex_byte w) \<Longrightarrow> is_hex c"
  using unat_byte [of w] by (auto simp: hex_byte_def intro!: is_hex_char)

lemma high_nibble: "unat w div 16 = unat (drop_bit 4 w)" for w :: "8 word"
  by (simp add: drop_bit_eq_div unat_div_distrib)

lemma version_char: "hd (hex_byte ((w AND 0x0f) OR 0x50)) = CHR ''5''"
proof -
  have "drop_bit 4 ((w AND 0x0f) OR 0x50) = (5 :: 8 word)"
    by (simp add: drop_bit_and drop_bit_or)
  moreover have "hex_char 5 = CHR ''5''" by code_simp
  ultimately show ?thesis by (simp add: hex_byte_def high_nibble)
qed

lemma variant_char: "hd (hex_byte ((w AND 0x3f) OR 0x80)) \<in> set ''89ab''"
proof -
  let ?y = "drop_bit 4 w AND (3 :: 8 word)"
  have "drop_bit 4 ((w AND 0x3f) OR 0x80) = ?y OR 8"
    by (simp add: drop_bit_and drop_bit_or)
  moreover have "unat (?y OR 8) \<in> {8, 9, 10, 11}"
  proof -
    have "?y = take_bit 2 (drop_bit 4 w)" by (simp add: take_bit_eq_mask mask_eq_exp_minus_1)
    then have "unat ?y < 4" by (simp add: take_bit_eq_mod unat_mod_distrib)
    then have "unat ?y \<in> {0, 1, 2, 3}" by auto
    then have "?y \<in> word_of_nat ` {0, 1, 2, 3}" by (intro image_eqI [of _ _ "unat ?y"]) simp_all
    then show ?thesis by auto
  qed
  moreover have "map hex_char [8, 9, 10, 11] = ''89ab''" by code_simp
  ultimately show ?thesis by (auto simp: hex_byte_def high_nibble)
qed

lemma length_to_hex [simp]: "length (to_hex bs) = 2 * length bs"
  by (induction bs) (simp_all add: to_hex_def)

lemma to_hex_nth: "i < length bs \<Longrightarrow> to_hex bs ! (2 * i) = hd (hex_byte (bs ! i))"
proof (induction bs arbitrary: i)
  case (Cons b bs)
  then show ?case by (cases i) (simp_all add: to_hex_def nth_append hex_byte_def)
qed simp

lemma to_hex_hex: "c \<in> set (to_hex bs) \<Longrightarrow> is_hex c"
  using hex_byte_hex by (auto simp: to_hex_def)

lemma str_slice_nth: "i < b - a \<Longrightarrow> b \<le> length s \<Longrightarrow> str_slice a b s ! i = s ! (a + i)"
  by (simp add: str_slice_def)

lemma length_str_slice: "b \<le> length s \<Longrightarrow> length (str_slice a b s) = b - a"
  by (simp add: str_slice_def)

text \<open>The five groups glued with dashes: where each character comes from.\<close>

lemma dashed_groups:
  assumes "length hex = 32"
  shows "str_slice 0 8 hex @ ''-'' @ str_slice 8 12 hex @ ''-'' @ str_slice 12 16 hex @ ''-''
       @ str_slice 16 20 hex @ ''-'' @ str_slice 20 32 hex =
     map (\<lambda>i. if i \<in> {8, 13, 18, 23} then CHR ''-''
              else hex ! (if i < 8 then i else if i < 13 then i - 1 else if i < 18 then i - 2 else if i < 23 then i - 3 else i - 4))
       [0 ..< 36]"
proof -
  have sl: "str_slice a b hex = map (\<lambda>i. hex ! i) [a ..< b]" if "b \<le> 32" for a b
    using that assms by (auto simp: str_slice_def intro!: nth_equalityI)
  have "[0 ..< 8] = [0, 1, 2, 3, 4, 5, 6, 7::nat]"
    "[0 ..< 36] = [0, 1, 2, 3, 4, 5, 6, 7, 8, 9, 10, 11, 12, 13, 14, 15, 16, 17, 18, 19, 20,
       21, 22, 23, 24, 25, 26, 27, 28, 29, 30, 31, 32, 33, 34, 35::nat]" by code_simp+
  then show ?thesis by (simp add: sl upt_rec_numeral)
qed

lemma eventIdFor_nth:
  assumes "length (sha1 (ty @ '':'' @ k)) = 20"
  obtains hex where "length hex = 32" "\<forall>c \<in> set hex. is_hex c" "hex ! 12 = CHR ''5''" "hex ! 16 \<in> set ''89ab''"
    "eventIdFor sha1 ty k = str_slice 0 8 hex @ ''-'' @ str_slice 8 12 hex @ ''-'' @ str_slice 12 16 hex @ ''-''
         @ str_slice 16 20 hex @ ''-'' @ str_slice 20 32 hex"
proof -
  define h where "h = sha1 (ty @ '':'' @ k)"
  define h1 where "h1 = h[6 := (h ! 6 AND 0x0f) OR 0x50]"
  define h2 where "h2 = h1[8 := (h1 ! 8 AND 0x3f) OR 0x80]"
  have len: "length h2 = 20" using assms by (simp add: h2_def h1_def h_def)
  let ?hex = "to_hex (take 16 h2)"
  have "?hex ! (2 * 6) = CHR ''5''"
    using assms len version_char [of "h ! 6"] by (subst to_hex_nth) (simp_all add: h2_def h1_def h_def)
  moreover have "?hex ! (2 * 8) \<in> set ''89ab''"
    using assms len variant_char [of "h1 ! 8"] by (subst to_hex_nth) (simp_all add: h2_def h1_def h_def)
  ultimately show ?thesis
    using len to_hex_hex
    by (intro that [of ?hex]) (auto simp: eventIdFor_def h_def h1_def h2_def Let_def)
qed

lemma eventIdFor_uuid:
  assumes "length (sha1 (ty @ '':'' @ k)) = 20"
  shows "uuid_shape (eventIdFor sha1 ty k) \<and> eventIdFor sha1 ty k ! 14 = CHR ''5'' \<and>
    eventIdFor sha1 ty k ! 19 \<in> set ''89ab''"
proof -
  from eventIdFor_nth [of sha1 ty k, OF assms] obtain hex where hex: "length hex = 32" "\<forall>c \<in> set hex. is_hex c"
    "hex ! 12 = CHR ''5''" "hex ! 16 \<in> set ''89ab''"
    and e: "eventIdFor sha1 ty k = str_slice 0 8 hex @ ''-'' @ str_slice 8 12 hex @ ''-'' @ str_slice 12 16 hex @ ''-''
         @ str_slice 16 20 hex @ ''-'' @ str_slice 20 32 hex" .
  note e [unfolded dashed_groups [OF hex(1)]]
  with hex show ?thesis by (auto simp: uuid_shape_def simp del: upt.simps)
qed

text \<open>Every event id is a lower-case UUID in the 8-4-4-4-12 form with version
  5 and the RFC variant, whatever the type and business key: the two masks
  keep the marked digits and nothing else is changed.\<close>

theorem eventId_is_uuid:
  assumes "length (sha1 (ty @ '':'' @ k)) = 20"
  shows "uuid_shape (eventIdFor sha1 ty k) \<and> eventIdFor sha1 ty k ! 14 = CHR ''5'' \<and>
    eventIdFor sha1 ty k ! 19 \<in> set ''89ab''"
  using assms by (rule eventIdFor_uuid)

theorem eventId_is_uuid_witness:
  "uuid_shape (eventIdFor (\<lambda>_. replicate 20 0) ''order.placed'' ''1'')"
  using eventId_is_uuid [of "\<lambda>_. replicate 20 0" "''order.placed''" "''1''"] by simp

subsection \<open>What the producer writes, the consumer's schema accepts\<close>

text \<open>The documented behaviour of \<open>z.string().uuid()\<close>: the canonical form is accepted.\<close>

definition accepts_uuids :: "schema_lib \<Rightarrow> bool" where
  "accepts_uuids lib \<longleftrightarrow> (\<forall>s. uuid_shape s \<longrightarrow> is_uuid lib s)"

lemma parse_event_json:
  assumes "is_uuid lib (op_eventId e)" "op_type e = ''order.placed''" "is_datetime lib (op_occurredAt e)"
    and "od_orderId (op_data e) \<noteq> ''''" "od_buyerId (op_data e) \<noteq> ''''" "od_productId (op_data e) \<noteq> ''''"
    and "od_quantity (op_data e) = of_int q" "0 < q" "0 \<le> od_totalAmount (op_data e)"
  shows "OrderPlacedSchema lib (event_json e) = Some e"
  using assms by (simp add: OrderPlacedSchema_def event_json_def parse_data_def)

text \<open>C15: the event \<open>checkout\<close> puts into the outbox passes the consumer's schema
  unchanged, and so does the one \<open>buildOrderPlaced\<close> makes: no well-formed order
  can produce a poison message.\<close>

theorem event_accepted:
  assumes "length (sha1 (''order.placed'' @ '':'' @ i)) = 20" "accepts_uuids lib" "is_datetime lib dt"
    and "i \<noteq> ''''" "b \<noteq> ''''" "p \<noteq> ''''" "0 < q" "0 \<le> t"
  shows "OrderPlacedSchema lib (event_json (toOrderPlacedEvent sha1 i b p (of_int q) t dt)) =
      Some (toOrderPlacedEvent sha1 i b p (of_int q) t dt) \<and>
    toOrderPlacedEvent sha1 i b p (of_int q) t dt =
      buildOrderPlaced sha1 dt \<lparr>od_orderId = i, od_buyerId = b, od_productId = p, od_quantity = of_int q, od_totalAmount = t\<rparr>"
proof -
  let ?e = "toOrderPlacedEvent sha1 i b p (of_int q) t dt"
  have "uuid_shape (eventIdFor sha1 ''order.placed'' i)"
    using eventIdFor_uuid [of sha1 "''order.placed''" i, OF assms(1)] by (rule conjunct1)
  then have "is_uuid lib (op_eventId ?e)"
    using assms(2) by (simp add: accepts_uuids_def toOrderPlacedEvent_def)
  then have "OrderPlacedSchema lib (event_json ?e) = Some ?e"
    using assms(3-) by (intro parse_event_json [where q = q]) (simp_all add: toOrderPlacedEvent_def)
  then show ?thesis by (simp add: toOrderPlacedEvent_def buildOrderPlaced_def)
qed

definition example_schema :: schema_lib where
  "example_schema = \<lparr>is_uuid = uuid_shape, is_datetime = (\<lambda>s. length s = 24)\<rparr>"

theorem event_accepted_witness:
  "OrderPlacedSchema example_schema (event_json (toOrderPlacedEvent (\<lambda>_. replicate 20 0) ''7'' ''42'' ''3'' (of_int 2) (9 / 5) ''2026-08-01T10:00:00.000Z''))
     \<noteq> None"
proof -
  have "accepts_uuids example_schema" "is_datetime example_schema ''2026-08-01T10:00:00.000Z''"
    by (simp_all add: accepts_uuids_def example_schema_def)
  from event_accepted [OF _ this, of "\<lambda>_. replicate 20 0" "''7''" "''42''" "''3''" 2 "9 / 5", THEN conjunct1]
  show ?thesis by simp
qed

end
