(* ===== verification/Checkout.thy ===== *)
theory Checkout
  imports Events
begin

text \<open>
  The transactional checkout of the data layer: \<open>src/checkout.ts\<close>, over the
  tables of \<open>src/entities\<close> and \<open>src/migrations\<close> it writes, with their checks.

  A transaction works on a copy of the database: \<open>COMMIT\<close> keeps the copy,
  \<open>ROLLBACK\<close> restores the tables but not the identity sequences, which
  Postgres never rolls back.  A row is updated under its lock, so concurrent
  checkouts on the same rows run one after the other; a history is a sequence
  of transactions.  Ids reach the database as text and are read by the
  parameter \<open>ce_bigint\<close>, Postgres's input function for \<open>bigint\<close>.
\<close>

subsection \<open>Tables\<close>

record product_row =
  p_id :: int
  p_sku :: string
  p_name :: string
  p_price :: rat
  p_stock :: int

record account_row =
  a_id :: int
  a_email :: string
  a_balance :: rat

record order_row =
  or_id :: nat
  or_buyer :: int
  or_email :: string
  or_status :: string
  or_total :: rat

record item_row =
  it_order :: nat
  it_product :: int
  it_quantity :: int
  it_price :: rat

record key_row =
  k_key :: string
  k_order :: "nat option"

datatype job_status = JobNew | JobDone

record job_row =
  j_id :: nat
  j_order :: nat
  j_kind :: string
  j_status :: job_status
  j_worker :: "string option"
  j_processed :: int

record outbox_row =
  ob_id :: string
  ob_aggregate_type :: string
  ob_aggregate_id :: string
  ob_type :: string
  ob_payload :: json
  ob_created_at :: rat
  ob_published_at :: "rat option"
  ob_attempts :: int

record shop_db =
  s_products :: "product_row list"
  s_users :: "account_row list"
  s_orders :: "order_row list"
  s_items :: "item_row list"
  s_keys :: "key_row list"
  s_jobs :: "job_row list"
  s_outbox :: "outbox_row list"
  order_seq :: nat
  job_seq :: nat
  product_seq :: nat
  user_seq :: nat

definition in_int4 :: "int \<Rightarrow> bool" where
  "in_int4 n \<longleftrightarrow> - (2 ^ 31) \<le> n \<and> n < 2 ^ 31"

definition numeric_overflow :: exn where
  "numeric_overflow = DbError ''22003''"

definition check_violation :: exn where
  "check_violation = DbError ''23514''"

subsection \<open>Parameters, results\<close>

datatype failure_reason = out_of_stock | insufficient_funds

record checkout_params =
  cp_buyerId :: string
  cp_productId :: string
  cp_quantity :: int
  cp_idempotencyKey :: "string option"

datatype checkout_result =
    CheckoutSuccess string rat bool
  | CheckoutFailure failure_reason

record checkout_env =
  ce_sha1 :: "string \<Rightarrow> 8 word list"
  ce_bigint :: "string \<Rightarrow> int option"

text \<open>What one call draws from the outside: the outbox row id, the clocks, and
  what \<open>hooks.afterOutboxInsert\<close> throws, if it throws.\<close>

record checkout_call =
  cc_rowId :: string
  cc_now :: rat
  cc_placedAt :: string
  cc_hook :: "exn option"

text \<open>A step of the transaction refuses, throws, or goes on.\<close>

datatype abort = Refused failure_reason | Thrown exn

type_synonym 'a step = "shop_db \<Rightarrow> (abort + 'a) \<times> shop_db"

definition and_then :: "'a step \<Rightarrow> ('a \<Rightarrow> 'b step) \<Rightarrow> 'b step" where
  "and_then m f db = (case m db of (Inl e, db') \<Rightarrow> (Inl e, db') | (Inr a, db') \<Rightarrow> f a db')"

subsection \<open>The statements\<close>

definition read_bigint :: "checkout_env \<Rightarrow> string \<Rightarrow> int step" where
  "read_bigint env txt db =
     (case ce_bigint env txt of None \<Rightarrow> (Inl (Thrown (DbError ''22P02'')), db) | Some i \<Rightarrow> (Inr i, db))"

definition decrement_stock :: "int \<Rightarrow> int \<Rightarrow> rat step" where
  "decrement_stock qty pid db =
     (let hit = (\<lambda>r. p_id r = pid \<and> qty \<le> p_stock r) in
      if \<not> in_int4 qty then (Inl (Thrown numeric_overflow), db)
      else case find hit (s_products db) of
          None \<Rightarrow> (Inl (Refused out_of_stock), db)
        | Some r \<Rightarrow>
            if \<not> in_int4 (p_stock r - qty) then (Inl (Thrown numeric_overflow), db)
            else (Inr (p_price r),
                  db\<lparr>s_products := update_where hit (\<lambda>r. r\<lparr>p_stock := p_stock r - qty\<rparr>) (s_products db)\<rparr>))"

definition charge_balance :: "rat \<Rightarrow> int \<Rightarrow> unit step" where
  "charge_balance amount uid db =
     (let hit = (\<lambda>u. a_id u = uid \<and> amount \<le> a_balance u) in
      case find hit (s_users db) of
        None \<Rightarrow> (Inl (Refused insufficient_funds), db)
      | Some u \<Rightarrow>
          (case numeric122 (a_balance u - amount) of
             Inl e \<Rightarrow> (Inl (Thrown e), db)
           | Inr _ \<Rightarrow>
               (Inr (), db\<lparr>s_users := update_where hit (\<lambda>u. u\<lparr>a_balance := round2 (a_balance u - amount)\<rparr>) (s_users db)\<rparr>)))"

definition insert_order :: "int \<Rightarrow> rat \<Rightarrow> nat step" where
  "insert_order uid amount db =
     (let email = (case find (\<lambda>u. a_id u = uid) (s_users db) of None \<Rightarrow> '''' | Some u \<Rightarrow> a_email u);
          oid = order_seq db;
          db' = db\<lparr>order_seq := Suc oid\<rparr>
      in case numeric122 amount of
           Inl e \<Rightarrow> (Inl (Thrown e), db')
         | Inr amt \<Rightarrow>
             if amt < 0 then (Inl (Thrown check_violation), db')
             else (Inr oid, db'\<lparr>s_orders := s_orders db @
                     [\<lparr>or_id = oid, or_buyer = uid, or_email = email, or_status = ''paid'', or_total = amt\<rparr>]\<rparr>))"

definition insert_item :: "nat \<Rightarrow> int \<Rightarrow> int \<Rightarrow> rat \<Rightarrow> unit step" where
  "insert_item oid pid qty unitPrice db =
     (case numeric122 (js_decimal unitPrice) of
        Inl e \<Rightarrow> (Inl (Thrown e), db)
      | Inr price \<Rightarrow>
          if \<not> 0 < qty \<or> price < 0 then (Inl (Thrown check_violation), db)
          else (Inr (), db\<lparr>s_items := s_items db @
                  [\<lparr>it_order = oid, it_product = pid, it_quantity = qty, it_price = price\<rparr>]\<rparr>))"

definition insert_job :: "nat \<Rightarrow> unit step" where
  "insert_job oid db =
     (Inr (), db\<lparr>job_seq := Suc (job_seq db), s_jobs := s_jobs db @
        [\<lparr>j_id = job_seq db, j_order = oid, j_kind = ''post_processing'', j_status = JobNew,
          j_worker = None, j_processed = 0\<rparr>]\<rparr>)"

definition set_key_order :: "string option \<Rightarrow> nat \<Rightarrow> unit step" where
  "set_key_order key oid db =
     (Inr (), case key of None \<Rightarrow> db
      | Some k \<Rightarrow> db\<lparr>s_keys := update_where (\<lambda>r. k_key r = k) (\<lambda>r. r\<lparr>k_order := Some oid\<rparr>) (s_keys db)\<rparr>)"

definition insert_outbox :: "checkout_call \<Rightarrow> nat \<Rightarrow> order_placed \<Rightarrow> unit step" where
  "insert_outbox c oid event db =
     (Inr (), db\<lparr>s_outbox := s_outbox db @
        [\<lparr>ob_id = cc_rowId c, ob_aggregate_type = ''Order'', ob_aggregate_id = show_nat oid,
          ob_type = op_type event, ob_payload = event_json event, ob_created_at = cc_now c,
          ob_published_at = None, ob_attempts = 0\<rparr>]\<rparr>)"

definition run_hook :: "exn option \<Rightarrow> unit step" where
  "run_hook h db = (case h of None \<Rightarrow> (Inr (), db) | Some e \<Rightarrow> (Inl (Thrown e), db))"

subsection \<open>checkout\<close>

definition claim_key :: "string option \<Rightarrow> shop_db \<Rightarrow> bool \<times> shop_db" where
  "claim_key key db =
     (case key of None \<Rightarrow> (True, db)
      | Some k \<Rightarrow> (let r = insert_on_conflict k_key \<lparr>k_key = k, k_order = None\<rparr> (s_keys db)
                  in (fst r, db\<lparr>s_keys := snd r\<rparr>)))"

definition keyed_orders :: "string option \<Rightarrow> shop_db \<Rightarrow> order_row list" where
  "keyed_orders key db =
     [o'. r \<leftarrow> s_keys db, Some (k_key r) = key, o' \<leftarrow> s_orders db, Some (or_id o') = k_order r]"

definition previous_result :: "string option \<Rightarrow> shop_db \<Rightarrow> checkout_result res" where
  "previous_result key db =
     (case keyed_orders key db of
        [] \<Rightarrow> Inl (Error ''TypeError'')
      | prev # _ \<Rightarrow> Inr (CheckoutSuccess (show_nat (or_id prev)) (fl (or_total prev)) True))"

definition place_order :: "checkout_env \<Rightarrow> checkout_call \<Rightarrow> checkout_params \<Rightarrow> (nat \<times> rat) step" where
  "place_order env c p =
     and_then (read_bigint env (cp_productId p)) (\<lambda>pid.
     and_then (decrement_stock (cp_quantity p) pid) (\<lambda>price.
       let unitPrice = fl price; totalAmount = js_mul unitPrice (of_int (cp_quantity p)) in
     and_then (read_bigint env (cp_buyerId p)) (\<lambda>uid.
     and_then (charge_balance (js_decimal totalAmount) uid) (\<lambda>_.
     and_then (insert_order uid (js_decimal totalAmount)) (\<lambda>oid.
     and_then (insert_item oid pid (cp_quantity p) unitPrice) (\<lambda>_.
     and_then (insert_job oid) (\<lambda>_.
     and_then (set_key_order (cp_idempotencyKey p) oid) (\<lambda>_.
       let event = toOrderPlacedEvent (ce_sha1 env) (show_nat oid) (cp_buyerId p) (cp_productId p)
                     (of_int (cp_quantity p)) totalAmount (cc_placedAt c) in
     and_then (insert_outbox c oid event) (\<lambda>_.
     and_then (run_hook (cc_hook c)) (\<lambda>_ db.
       (Inr (oid, totalAmount), db)))))))))))"

definition rollback :: "shop_db \<Rightarrow> shop_db \<Rightarrow> shop_db" where
  "rollback before db = before\<lparr>order_seq := order_seq db, job_seq := job_seq db\<rparr>"

definition checkout :: "checkout_env \<Rightarrow> checkout_call \<Rightarrow> checkout_params \<Rightarrow> shop_db \<Rightarrow> checkout_result res \<times> shop_db" where
  "checkout env c p db =
     (case claim_key (cp_idempotencyKey p) db of
        (False, _) \<Rightarrow> (previous_result (cp_idempotencyKey p) db, db)
      | (True, db1) \<Rightarrow>
          (case place_order env c p db1 of
             (Inr (orderId, totalAmount), db2) \<Rightarrow> (Inr (CheckoutSuccess (show_nat orderId) totalAmount False), db2)
           | (Inl (Refused reason), db2) \<Rightarrow> (Inr (CheckoutFailure reason), rollback db db2)
           | (Inl (Thrown e), db2) \<Rightarrow> (Inl e, rollback db db2)))"

subsection \<open>Inverting a transaction\<close>

lemma and_then_Inr:
  "and_then m f db = (Inr b, db') \<longleftrightarrow> (\<exists>a db1. m db = (Inr a, db1) \<and> f a db1 = (Inr b, db'))"
  by (auto simp: and_then_def split: prod.splits sum.splits)

lemma read_bigint_Inr: "read_bigint env t db = (Inr i, db') \<longleftrightarrow> ce_bigint env t = Some i \<and> db' = db"
  by (auto simp: read_bigint_def split: option.splits)

lemma decrement_stock_Inr:
  "decrement_stock q pid db = (Inr price, db') \<longleftrightarrow> in_int4 q \<and>
     (\<exists>r. find (\<lambda>r. p_id r = pid \<and> q \<le> p_stock r) (s_products db) = Some r \<and> in_int4 (p_stock r - q) \<and>
       price = p_price r \<and> db' = db\<lparr>s_products := update_where (\<lambda>r. p_id r = pid \<and> q \<le> p_stock r)
         (\<lambda>r. r\<lparr>p_stock := p_stock r - q\<rparr>) (s_products db)\<rparr>)"
  by (auto simp: decrement_stock_def Let_def split: option.splits if_splits)

lemma charge_balance_Inr:
  "charge_balance t uid db = (Inr a, db') \<longleftrightarrow>
     (\<exists>u. find (\<lambda>u. a_id u = uid \<and> t \<le> a_balance u) (s_users db) = Some u \<and>
       (\<exists>b. numeric122 (a_balance u - t) = Inr b) \<and>
       db' = db\<lparr>s_users := update_where (\<lambda>u. a_id u = uid \<and> t \<le> a_balance u)
         (\<lambda>u. u\<lparr>a_balance := round2 (a_balance u - t)\<rparr>) (s_users db)\<rparr>)"
  by (auto simp: charge_balance_def Let_def split: option.splits sum.splits)

lemma numeric122_Inr: "numeric122 x = Inr y \<longleftrightarrow> y = round2 x \<and> \<bar>round2 x\<bar> < 10 ^ 10"
  by (auto simp: numeric122_def)

lemma insert_order_Inr:
  "insert_order uid t db = (Inr oid, db') \<longleftrightarrow> oid = order_seq db \<and> \<bar>round2 t\<bar> < 10 ^ 10 \<and> 0 \<le> round2 t \<and>
     db' = db\<lparr>order_seq := Suc oid, s_orders := s_orders db @
       [\<lparr>or_id = oid, or_buyer = uid,
         or_email = (case find (\<lambda>u. a_id u = uid) (s_users db) of None \<Rightarrow> '''' | Some u \<Rightarrow> a_email u),
         or_status = ''paid'', or_total = round2 t\<rparr>]\<rparr>"
  by (auto simp: insert_order_def Let_def numeric122_def)

lemma insert_item_Inr:
  "insert_item oid pid q pr db = (Inr a, db') \<longleftrightarrow> 0 < q \<and> 0 \<le> round2 (js_decimal pr) \<and> \<bar>round2 (js_decimal pr)\<bar> < 10 ^ 10 \<and>
     db' = db\<lparr>s_items := s_items db @ [\<lparr>it_order = oid, it_product = pid, it_quantity = q, it_price = round2 (js_decimal pr)\<rparr>]\<rparr>"
  by (auto simp: insert_item_def numeric122_def)

lemma run_hook_Inr: "run_hook h db = (Inr a, db') \<longleftrightarrow> h = None \<and> db' = db"
  by (auto simp: run_hook_def split: option.splits)

lemmas step_simps = and_then_Inr read_bigint_Inr decrement_stock_Inr charge_balance_Inr insert_order_Inr
  insert_item_Inr run_hook_Inr

subsection \<open>The invariant of the tables\<close>

definition shop_ok :: "shop_db \<Rightarrow> bool" where
  "shop_ok db \<longleftrightarrow>
     distinct (map p_id (s_products db)) \<and>
     (\<forall>r \<in> set (s_products db). cents (p_price r) \<and> 0 \<le> p_price r \<and> p_price r < 10 ^ 10 \<and> 0 \<le> p_stock r \<and> in_int4 (p_stock r)) \<and>
     distinct (map a_id (s_users db)) \<and>
     (\<forall>u \<in> set (s_users db). cents (a_balance u) \<and> 0 \<le> a_balance u \<and> a_balance u < 10 ^ 10) \<and>
     distinct (map or_id (s_orders db)) \<and>
     (\<forall>o' \<in> set (s_orders db). or_id o' < order_seq db) \<and>
     distinct (map k_key (s_keys db)) \<and>
     (\<forall>k \<in> set (s_keys db). \<exists>i. k_order k = Some i \<and> i \<in> or_id ` set (s_orders db)) \<and>
     distinct (map j_id (s_jobs db)) \<and>
     (\<forall>j \<in> set (s_jobs db). j_id j < job_seq db)"

text \<open>
  The database after an order of \<open>q\<close> pieces of product \<open>r\<close> by user \<open>u\<close>: stock
  and balance reduced by exactly the quantity and the price, one row in each
  of the order tables.
\<close>

definition sold :: "checkout_env \<Rightarrow> checkout_call \<Rightarrow> checkout_params \<Rightarrow> product_row \<Rightarrow> account_row \<Rightarrow> shop_db \<Rightarrow> shop_db" where
  "sold env c p r u db =
     (let q = cp_quantity p; amt = p_price r * of_int q; oid = order_seq db;
          event = toOrderPlacedEvent (ce_sha1 env) (show_nat oid) (cp_buyerId p) (cp_productId p) (of_int q)
                    (js_mul (fl (p_price r)) (of_int q)) (cc_placedAt c)
      in \<lparr>s_products = update_where (\<lambda>x. p_id x = p_id r) (\<lambda>x. x\<lparr>p_stock := p_stock x - q\<rparr>) (s_products db),
          s_users = update_where (\<lambda>x. a_id x = a_id u) (\<lambda>x. x\<lparr>a_balance := a_balance x - amt\<rparr>) (s_users db),
          s_orders = s_orders db @ [\<lparr>or_id = oid, or_buyer = a_id u, or_email = a_email u, or_status = ''paid'', or_total = amt\<rparr>],
          s_items = s_items db @ [\<lparr>it_order = oid, it_product = p_id r, it_quantity = q, it_price = p_price r\<rparr>],
          s_keys = (case cp_idempotencyKey p of None \<Rightarrow> s_keys db | Some k \<Rightarrow> s_keys db @ [\<lparr>k_key = k, k_order = Some oid\<rparr>]),
          s_jobs = s_jobs db @ [\<lparr>j_id = job_seq db, j_order = oid, j_kind = ''post_processing'', j_status = JobNew,
                                 j_worker = None, j_processed = 0\<rparr>],
          s_outbox = s_outbox db @ [\<lparr>ob_id = cc_rowId c, ob_aggregate_type = ''Order'', ob_aggregate_id = show_nat oid,
                                     ob_type = ''order.placed'', ob_payload = event_json event, ob_created_at = cc_now c,
                                     ob_published_at = None, ob_attempts = 0\<rparr>],
          order_seq = Suc oid, job_seq = Suc (job_seq db), product_seq = product_seq db, user_seq = user_seq db\<rparr>)"

lemma stock_step:
  assumes "distinct (map p_id ps)" "find (\<lambda>r. p_id r = pid \<and> q \<le> p_stock r) ps = Some r"
  shows "r \<in> set ps \<and> p_id r = pid \<and> q \<le> p_stock r \<and>
    update_where (\<lambda>r. p_id r = pid \<and> q \<le> p_stock r) f ps = update_where (\<lambda>x. p_id x = p_id r) f ps"
  using find_key [OF assms] update_where_key [OF assms(1), of r pid "\<lambda>r. q \<le> p_stock r" f f] by simp

lemma balance_step:
  assumes "distinct (map a_id us)" "find (\<lambda>u. a_id u = uid \<and> t \<le> a_balance u) us = Some u" "f u = g u"
  shows "u \<in> set us \<and> a_id u = uid \<and> t \<le> a_balance u \<and>
    update_where (\<lambda>u. a_id u = uid \<and> t \<le> a_balance u) f us = update_where (\<lambda>x. a_id x = a_id u) g us"
  using find_key [OF assms(1,2)] update_where_key [OF assms(1), of u uid "\<lambda>u. t \<le> a_balance u" f g] assms(3) by simp

text \<open>The same database as the statements leave it, before it is known which
  rows they hit and how the amounts round.\<close>

definition raw_sold ::
    "checkout_env \<Rightarrow> checkout_call \<Rightarrow> checkout_params \<Rightarrow> int \<Rightarrow> int \<Rightarrow> product_row \<Rightarrow> shop_db \<Rightarrow> shop_db" where
  "raw_sold env c p pid uid r db =
     (let q = cp_quantity p; t = js_mul (fl (p_price r)) (of_int q); oid = order_seq db;
          us = update_where (\<lambda>u. a_id u = uid \<and> js_decimal t \<le> a_balance u)
                 (\<lambda>u. u\<lparr>a_balance := round2 (a_balance u - js_decimal t)\<rparr>) (s_users db);
          event = toOrderPlacedEvent (ce_sha1 env) (show_nat oid) (cp_buyerId p) (cp_productId p)
                    (of_int q) t (cc_placedAt c)
      in \<lparr>s_products = update_where (\<lambda>r. p_id r = pid \<and> q \<le> p_stock r) (\<lambda>r. r\<lparr>p_stock := p_stock r - q\<rparr>) (s_products db),
          s_users = us,
          s_orders = s_orders db @ [\<lparr>or_id = oid, or_buyer = uid,
            or_email = (case find (\<lambda>u. a_id u = uid) us of None \<Rightarrow> '''' | Some u \<Rightarrow> a_email u),
            or_status = ''paid'', or_total = round2 (js_decimal t)\<rparr>],
          s_items = s_items db @ [\<lparr>it_order = oid, it_product = pid, it_quantity = q,
            it_price = round2 (js_decimal (fl (p_price r)))\<rparr>],
          s_keys = (case cp_idempotencyKey p of None \<Rightarrow> s_keys db
            | Some k \<Rightarrow> update_where (\<lambda>r. k_key r = k) (\<lambda>r. r\<lparr>k_order := Some oid\<rparr>) (s_keys db)),
          s_jobs = s_jobs db @ [\<lparr>j_id = job_seq db, j_order = oid, j_kind = ''post_processing'', j_status = JobNew,
            j_worker = None, j_processed = 0\<rparr>],
          s_outbox = s_outbox db @ [\<lparr>ob_id = cc_rowId c, ob_aggregate_type = ''Order'', ob_aggregate_id = show_nat oid,
            ob_type = op_type event, ob_payload = event_json event, ob_created_at = cc_now c,
            ob_published_at = None, ob_attempts = 0\<rparr>],
          order_seq = Suc oid, job_seq = Suc (job_seq db), product_seq = product_seq db, user_seq = user_seq db\<rparr>)"

lemma place_order_Inr:
  "place_order env c p db = (Inr (oid, t), db') \<longleftrightarrow>
     (\<exists>pid uid r u. ce_bigint env (cp_productId p) = Some pid \<and> ce_bigint env (cp_buyerId p) = Some uid \<and>
        in_int4 (cp_quantity p) \<and> in_int4 (p_stock r - cp_quantity p) \<and> cc_hook c = None \<and>
        find (\<lambda>r. p_id r = pid \<and> cp_quantity p \<le> p_stock r) (s_products db) = Some r \<and>
        t = js_mul (fl (p_price r)) (of_int (cp_quantity p)) \<and>
        find (\<lambda>u. a_id u = uid \<and> js_decimal t \<le> a_balance u) (s_users db) = Some u \<and>
        \<bar>round2 (a_balance u - js_decimal t)\<bar> < 10 ^ 10 \<and> \<bar>round2 (js_decimal t)\<bar> < 10 ^ 10 \<and> 0 \<le> round2 (js_decimal t) \<and>
        0 < cp_quantity p \<and> 0 \<le> round2 (js_decimal (fl (p_price r))) \<and> \<bar>round2 (js_decimal (fl (p_price r)))\<bar> < 10 ^ 10 \<and>
        oid = order_seq db \<and> db' = raw_sold env c p pid uid r db)"
  by (cases "cp_idempotencyKey p")
    (auto simp: place_order_def Let_def step_simps insert_job_def set_key_order_def insert_outbox_def numeric122_Inr raw_sold_def)

lemma claimed_keys:
  assumes "claim_key key db = (True, db1)"
  shows "(case key of None \<Rightarrow> s_keys db1
     | Some k \<Rightarrow> update_where (\<lambda>r. k_key r = k) (\<lambda>r. r\<lparr>k_order := Some oid\<rparr>) (s_keys db1)) =
       (case key of None \<Rightarrow> s_keys db | Some k \<Rightarrow> s_keys db @ [\<lparr>k_key = k, k_order = Some oid\<rparr>])"
    "db1 = db\<lparr>s_keys := s_keys db1\<rparr>"
proof -
  have old: "update_where (\<lambda>r. k_key r = k) f t = t" if "k \<notin> k_key ` set t" for k f and t :: "key_row list"
    using that by (intro update_where_none) auto
  show "(case key of None \<Rightarrow> s_keys db1
     | Some k \<Rightarrow> update_where (\<lambda>r. k_key r = k) (\<lambda>r. r\<lparr>k_order := Some oid\<rparr>) (s_keys db1)) =
       (case key of None \<Rightarrow> s_keys db | Some k \<Rightarrow> s_keys db @ [\<lparr>k_key = k, k_order = Some oid\<rparr>])"
    using assms old
    by (auto simp: claim_key_def insert_on_conflict_def update_where_def Let_def split: option.splits if_splits)
  show "db1 = db\<lparr>s_keys := s_keys db1\<rparr>"
    using assms by (auto simp: claim_key_def Let_def split: option.splits)
qed

lemma place_order_sold:
  assumes ok: "shop_ok db" and cl: "claim_key (cp_idempotencyKey p) db = (True, db1)"
    and po: "place_order env c p db1 = (Inr (oid, t), db')"
  shows "\<exists>r u. r \<in> set (s_products db) \<and> u \<in> set (s_users db) \<and>
    ce_bigint env (cp_productId p) = Some (p_id r) \<and> ce_bigint env (cp_buyerId p) = Some (a_id u) \<and>
    0 < cp_quantity p \<and> cp_quantity p \<le> p_stock r \<and> p_price r * of_int (cp_quantity p) \<le> a_balance u \<and>
    oid = order_seq db \<and> t = js_mul (fl (p_price r)) (of_int (cp_quantity p)) \<and> db' = sold env c p r u db"
proof -
  let ?q = "cp_quantity p"
  note db1 = claimed_keys [OF cl]
  have rest: "s_products db1 = s_products db" "s_users db1 = s_users db" "s_orders db1 = s_orders db"
    "s_items db1 = s_items db" "s_jobs db1 = s_jobs db" "s_outbox db1 = s_outbox db"
    "order_seq db1 = order_seq db" "job_seq db1 = job_seq db" "product_seq db1 = product_seq db" "user_seq db1 = user_seq db"
    by (subst db1(2), simp)+
  from po obtain pid uid r u where
    ids: "ce_bigint env (cp_productId p) = Some pid" "ce_bigint env (cp_buyerId p) = Some uid"
    and fr: "find (\<lambda>r. p_id r = pid \<and> ?q \<le> p_stock r) (s_products db) = Some r"
    and t: "t = js_mul (fl (p_price r)) (of_int ?q)"
    and fu: "find (\<lambda>u. a_id u = uid \<and> js_decimal t \<le> a_balance u) (s_users db) = Some u"
    and q: "0 < ?q" and oid: "oid = order_seq db"
    and db': "db' = raw_sold env c p pid uid r db1"
    unfolding place_order_Inr rest by blast
  have dp: "distinct (map p_id (s_products db))" and du: "distinct (map a_id (s_users db))"
    using ok by (simp_all add: shop_ok_def)
  have r: "r \<in> set (s_products db)" "p_id r = pid" "?q \<le> p_stock r"
    "update_where (\<lambda>r. p_id r = pid \<and> ?q \<le> p_stock r) (\<lambda>r. r\<lparr>p_stock := p_stock r - ?q\<rparr>) (s_products db) =
     update_where (\<lambda>x. p_id x = p_id r) (\<lambda>r. r\<lparr>p_stock := p_stock r - ?q\<rparr>) (s_products db)"
    using stock_step [OF dp fr] by auto
  have pr: "cents (p_price r)" "0 \<le> p_price r" "p_price r < 10 ^ 10" using ok r(1) by (auto simp: shop_ok_def)
  have u0: "u \<in> set (s_users db)" "js_decimal t \<le> a_balance u" using find_key [OF du fu] by auto
  have bal: "cents (a_balance u)" "a_balance u < 10 ^ 10" using ok u0(1) by (auto simp: shop_ok_def)
  note ch = charge_exact [OF pr(1,2) less_imp_le [OF q] bal u0(2) [unfolded t], folded t]
  let ?g = "\<lambda>x. x\<lparr>a_balance := a_balance x - p_price r * of_int ?q\<rparr>"
  have us: "a_id u = uid" "update_where (\<lambda>u. a_id u = uid \<and> js_decimal t \<le> a_balance u)
      (\<lambda>u. u\<lparr>a_balance := round2 (a_balance u - js_decimal t)\<rparr>) (s_users db) =
     update_where (\<lambda>x. a_id x = a_id u) ?g (s_users db)"
    using balance_step [OF du fu, of "\<lambda>u. u\<lparr>a_balance := round2 (a_balance u - js_decimal t)\<rparr>" ?g] ch(2) by auto
  have "find (\<lambda>x. a_id x = a_id (?g u)) (update_where (\<lambda>x. a_id x = a_id u) ?g (s_users db)) = Some (?g u)"
    using du u0(1) by (intro select_first_key [unfolded select_first_def])
      (auto simp: map_update_where set_update_where)
  then have email: "(case find (\<lambda>x. a_id x = uid) (update_where (\<lambda>x. a_id x = a_id u) ?g (s_users db)) of
      None \<Rightarrow> '''' | Some u \<Rightarrow> a_email u) = a_email u"
    using us(1) by simp
  have item: "round2 (js_decimal (fl (p_price r))) = p_price r" using pr by (intro text_rounds) auto
  have "db' = sold env c p r u db"
    unfolding db' raw_sold_def Let_def rest t [symmetric] us(2) r(4) email item ch(3) db1(1)
    by (simp add: sold_def Let_def r(2) us(1) t toOrderPlacedEvent_def)
  with r u0 ch(1) us(1) ids q oid t show ?thesis by blast
qed

text \<open>Sequences only grow, whatever a step does.\<close>

definition seq_mono :: "'a step \<Rightarrow> bool" where
  "seq_mono m \<longleftrightarrow> (\<forall>db. order_seq db \<le> order_seq (snd (m db)) \<and> job_seq db \<le> job_seq (snd (m db)))"

lemma seq_mono_and_then [inv_intros]:
  assumes m: "seq_mono m" and f: "\<And>a. seq_mono (f a)"
  shows "seq_mono (and_then m f)"
  unfolding seq_mono_def
proof
  fix db
  obtain x db1 where mdb: "m db = (x, db1)" by fastforce
  have "order_seq db \<le> order_seq db1 \<and> job_seq db \<le> job_seq db1"
    using m mdb unfolding seq_mono_def by (metis snd_conv)
  moreover have "order_seq db1 \<le> order_seq (snd (f a db1)) \<and> job_seq db1 \<le> job_seq (snd (f a db1))" for a
    using f unfolding seq_mono_def by blast
  ultimately show "order_seq db \<le> order_seq (snd (and_then m f db)) \<and> job_seq db \<le> job_seq (snd (and_then m f db))"
    using mdb by (cases x) (auto simp: and_then_def intro: order_trans)
qed

lemma seq_mono_steps [inv_intros]:
  "seq_mono (read_bigint env t)" "seq_mono (decrement_stock q pid)" "seq_mono (charge_balance amt uid)"
  "seq_mono (insert_order uid amt)" "seq_mono (insert_item oid pid q pr)" "seq_mono (insert_job oid)"
  "seq_mono (set_key_order k oid)" "seq_mono (insert_outbox c oid e)" "seq_mono (run_hook h)"
  "seq_mono (\<lambda>db. (Inr x, db))"
  by (auto simp: seq_mono_def read_bigint_def decrement_stock_def charge_balance_def insert_order_def insert_item_def
      insert_job_def set_key_order_def insert_outbox_def run_hook_def Let_def split: option.splits sum.splits)

lemma seq_mono_place_order: "seq_mono (place_order env c p)"
  unfolding place_order_def Let_def by (intro inv_intros)

lemma checkout_cases [consumes 2, case_names sold replayed failed]:
  assumes ok: "shop_ok db" and co: "checkout env c p db = (res, db')"
  obtains (sold) r u where "fst (claim_key (cp_idempotencyKey p) db)" "r \<in> set (s_products db)" "u \<in> set (s_users db)"
      "ce_bigint env (cp_productId p) = Some (p_id r)" "ce_bigint env (cp_buyerId p) = Some (a_id u)"
      "0 < cp_quantity p" "cp_quantity p \<le> p_stock r" "p_price r * of_int (cp_quantity p) \<le> a_balance u"
      "res = Inr (CheckoutSuccess (show_nat (order_seq db)) (js_mul (fl (p_price r)) (of_int (cp_quantity p))) False)"
      "db' = sold env c p r u db"
  | (replayed) "\<not> fst (claim_key (cp_idempotencyKey p) db)" "res = previous_result (cp_idempotencyKey p) db" "db' = db"
  | (failed) db2 where "fst (claim_key (cp_idempotencyKey p) db)" "db' = rollback db db2"
      "order_seq db \<le> order_seq db2" "job_seq db \<le> job_seq db2"
      "(\<exists>reason. res = Inr (CheckoutFailure reason)) \<or> (\<exists>e. res = Inl e)"
proof -
  obtain b db1 where cl: "claim_key (cp_idempotencyKey p) db = (b, db1)" by fastforce
  show thesis
  proof (cases b)
    case False
    then show ?thesis using co cl by (intro replayed) (auto simp: checkout_def)
  next
    case True
    have cl': "claim_key (cp_idempotencyKey p) db = (True, db1)" using cl True by simp
    obtain x db2 where po: "place_order env c p db1 = (x, db2)" by fastforce
    show ?thesis
    proof (cases x)
      case (Inl e)
      have seqs: "order_seq db1 = order_seq db" "job_seq db1 = job_seq db"
        by (subst claimed_keys(2) [OF cl'], simp)+
      have "order_seq db1 \<le> order_seq db2 \<and> job_seq db1 \<le> job_seq db2"
        using seq_mono_place_order [of env c p] po unfolding seq_mono_def by (metis snd_conv)
      then show ?thesis
        using co cl' po Inl seqs by (intro failed [of db2]) (auto simp: checkout_def split: abort.splits)
    next
      case (Inr a)
      obtain oid t where a: "a = (oid, t)" by fastforce
      from place_order_sold [OF ok cl', of env c oid t db2] po Inr a obtain r u where
        "r \<in> set (s_products db)" "u \<in> set (s_users db)"
        "ce_bigint env (cp_productId p) = Some (p_id r)" "ce_bigint env (cp_buyerId p) = Some (a_id u)"
        "0 < cp_quantity p" "cp_quantity p \<le> p_stock r" "p_price r * of_int (cp_quantity p) \<le> a_balance u"
        "oid = order_seq db" "t = js_mul (fl (p_price r)) (of_int (cp_quantity p))" "db2 = sold env c p r u db" by auto
      then show ?thesis using co cl' po Inr a by (intro sold) (auto simp: checkout_def)
    qed
  qed
qed

subsection \<open>The invariant holds in every state\<close>

lemma shop_okD:
  assumes "shop_ok db"
  shows "distinct (map p_id (s_products db))" "distinct (map a_id (s_users db))" "distinct (map or_id (s_orders db))"
    "distinct (map k_key (s_keys db))" "distinct (map j_id (s_jobs db))"
    "r \<in> set (s_products db) \<Longrightarrow> cents (p_price r) \<and> 0 \<le> p_price r \<and> p_price r < 10 ^ 10 \<and> 0 \<le> p_stock r \<and> in_int4 (p_stock r)"
    "u \<in> set (s_users db) \<Longrightarrow> cents (a_balance u) \<and> 0 \<le> a_balance u \<and> a_balance u < 10 ^ 10"
    "o' \<in> set (s_orders db) \<Longrightarrow> or_id o' < order_seq db"
    "k \<in> set (s_keys db) \<Longrightarrow> \<exists>i. k_order k = Some i \<and> i \<in> or_id ` set (s_orders db)"
    "j \<in> set (s_jobs db) \<Longrightarrow> j_id j < job_seq db"
  using assms by (simp_all add: shop_ok_def)

lemma order_seq_fresh: "shop_ok db \<Longrightarrow> order_seq db \<notin> or_id ` set (s_orders db)"
  using shop_okD(8) by fastforce

lemma job_seq_fresh: "shop_ok db \<Longrightarrow> job_seq db \<notin> j_id ` set (s_jobs db)"
  using shop_okD(10) by fastforce

lemma claim_fresh: "fst (claim_key key db) \<Longrightarrow> key = Some k \<Longrightarrow> k \<notin> k_key ` set (s_keys db)"
  by (auto simp: claim_key_def insert_on_conflict_def Let_def split: if_splits)

lemma shop_ok_sold:
  assumes ok: "shop_ok db" and cl: "fst (claim_key (cp_idempotencyKey p) db)"
    and r: "r \<in> set (s_products db)" and u: "u \<in> set (s_users db)"
    and q: "0 < cp_quantity p" "cp_quantity p \<le> p_stock r" and b: "p_price r * of_int (cp_quantity p) \<le> a_balance u"
  shows "shop_ok (sold env c p r u db)"
proof -
  note D = shop_okD [OF ok]
  let ?q = "cp_quantity p" and ?db = "sold env c p r u db"
  have amt: "cents (p_price r * of_int ?q)" "0 \<le> p_price r * of_int ?q"
    using D(6) [OF r] q by (auto intro: cents_times_int)
  have "distinct (map p_id (s_products ?db))"
    using D(1) by (simp add: sold_def Let_def table_simps)
  moreover have "cents (p_price x) \<and> 0 \<le> p_price x \<and> p_price x < 10 ^ 10 \<and> 0 \<le> p_stock x \<and> in_int4 (p_stock x)"
    if x: "x \<in> set (s_products ?db)" for x
  proof -
    from x have "x \<in> set (update_where (\<lambda>x. p_id x = p_id r) (\<lambda>x. x\<lparr>p_stock := p_stock x - ?q\<rparr>) (s_products db))"
      by (simp add: sold_def Let_def)
    then show ?thesis
    proof (cases rule: in_update_whereE)
      case (hit x0)
      then have "x0 = r" using distinct_key_unique [OF D(1) hit(1) r] by simp
      with hit D(6) [OF r] q show ?thesis by (auto simp: in_int4_def)
    next
      case miss
      then show ?thesis using D(6) by blast
    qed
  qed
  moreover have "distinct (map a_id (s_users ?db))"
    using D(2) by (simp add: sold_def Let_def table_simps)
  moreover have "cents (a_balance x) \<and> 0 \<le> a_balance x \<and> a_balance x < 10 ^ 10" if x: "x \<in> set (s_users ?db)" for x
  proof -
    from x have "x \<in> set (update_where (\<lambda>x. a_id x = a_id u)
        (\<lambda>x. x\<lparr>a_balance := a_balance x - p_price r * of_int ?q\<rparr>) (s_users db))"
      by (simp add: sold_def Let_def)
    then show ?thesis
    proof (cases rule: in_update_whereE)
      case (hit x0)
      then have "x0 = u" using distinct_key_unique [OF D(2) hit(1) u] by simp
      with hit D(7) [OF u] amt b show ?thesis by (auto intro: cents_diff)
    next
      case miss
      then show ?thesis using D(7) by blast
    qed
  qed
  moreover have "distinct (map or_id (s_orders ?db))"
    using D(3) order_seq_fresh [OF ok] by (simp add: sold_def Let_def)
  moreover have "\<forall>x \<in> set (s_orders ?db). or_id x < order_seq ?db"
    using D(8) by (auto simp: sold_def Let_def less_Suc_eq)
  moreover have "distinct (map k_key (s_keys ?db))"
    using D(4) claim_fresh [OF cl] by (auto simp: sold_def Let_def split: option.splits)
  moreover have "\<forall>k \<in> set (s_keys ?db). \<exists>i. k_order k = Some i \<and> i \<in> or_id ` set (s_orders ?db)"
    using D(9) by (fastforce simp: sold_def Let_def split: option.splits)
  moreover have "distinct (map j_id (s_jobs ?db))"
    using D(5) job_seq_fresh [OF ok] by (simp add: sold_def Let_def)
  moreover have "\<forall>j \<in> set (s_jobs ?db). j_id j < job_seq ?db"
    using D(10) by (auto simp: sold_def Let_def less_Suc_eq)
  ultimately show ?thesis unfolding shop_ok_def by blast
qed

lemma shop_ok_rollback:
  assumes "shop_ok db" "order_seq db \<le> order_seq db2" "job_seq db \<le> job_seq db2"
  shows "shop_ok (rollback db db2)"
  using assms by (fastforce simp: shop_ok_def rollback_def)

lemma shop_ok_checkout [inv_intros]: "shop_ok db \<Longrightarrow> shop_ok (snd (checkout env c p db))"
proof -
  assume ok: "shop_ok db"
  obtain res db' where co: "checkout env c p db = (res, db')" by fastforce
  from ok co have "shop_ok db'"
  proof (cases rule: checkout_cases)
    case (sold r u)
    then show ?thesis using shop_ok_sold [OF ok] by blast
  next
    case replayed
    then show ?thesis using ok by simp
  next
    case (failed db2)
    then show ?thesis using shop_ok_rollback [OF ok] by simp
  qed
  then show ?thesis using co by simp
qed

text \<open>Checkouts one after the other.\<close>

inductive shop_run :: "checkout_env \<Rightarrow> shop_db \<Rightarrow> shop_db \<Rightarrow> bool" for env where
  run_none: "shop_run env db db"
| run_checkout: "shop_run env db db1 \<Longrightarrow> shop_run env db (snd (checkout env c p db1))"

lemma shop_run_ok: "shop_run env db db' \<Longrightarrow> shop_ok db \<Longrightarrow> shop_ok db'"
  by (induction rule: shop_run.induct) (auto intro: inv_intros)

subsection \<open>What a checkout does\<close>

text \<open>C1: a fresh success sells exactly what was asked: the stock falls by the
  quantity, the balance by the exact price times quantity (the double
  arithmetic and the decimal text in between do not change a cent), and one
  order, item, job, outbox row and key appear, all in one step.  The quantity
  was positive and both stock and balance covered it.\<close>

theorem checkout_sells_exactly:
  assumes ok: "shop_ok db" and co: "checkout env c p db = (Inr (CheckoutSuccess i t False), db')"
  shows "\<exists>r \<in> set (s_products db). \<exists>u \<in> set (s_users db).
    ce_bigint env (cp_productId p) = Some (p_id r) \<and> ce_bigint env (cp_buyerId p) = Some (a_id u) \<and>
    0 < cp_quantity p \<and> cp_quantity p \<le> p_stock r \<and> p_price r * of_int (cp_quantity p) \<le> a_balance u \<and>
    i = show_nat (order_seq db) \<and> db' = sold env c p r u db"
  using ok co
proof (cases rule: checkout_cases)
  case (sold r u)
  then show ?thesis by blast
next
  case replayed
  then show ?thesis by (auto simp: previous_result_def split: list.splits)
next
  case (failed db2)
  then show ?thesis by auto
qed

text \<open>C6: whatever else a checkout answers (refused, replayed, a database error,
  a crash between the outbox insert and the commit), every table is as
  before; only identity sequences may have moved on.\<close>

theorem checkout_all_or_nothing:
  assumes ok: "shop_ok db" and co: "checkout env c p db = (res, db')"
    and no: "\<nexists>i t. res = Inr (CheckoutSuccess i t False)"
  shows "db' = db\<lparr>order_seq := order_seq db', job_seq := job_seq db'\<rparr>"
  using ok co
proof (cases rule: checkout_cases)
  case (sold r u)
  then show ?thesis using no by blast
next
  case replayed
  then show ?thesis by simp
next
  case (failed db2)
  then show ?thesis by (simp add: rollback_def)
qed

subsection \<open>Nothing is oversold, no money appears or vanishes\<close>

definition stock_of :: "shop_db \<Rightarrow> int \<Rightarrow> int" where
  "stock_of db i = (\<Sum>r\<leftarrow>s_products db. if p_id r = i then p_stock r else 0)"

definition sold_of :: "shop_db \<Rightarrow> int \<Rightarrow> int" where
  "sold_of db i = (\<Sum>x\<leftarrow>s_items db. if it_product x = i then it_quantity x else 0)"

definition balance_of :: "shop_db \<Rightarrow> int \<Rightarrow> rat" where
  "balance_of db i = (\<Sum>u\<leftarrow>s_users db. if a_id u = i then a_balance u else 0)"

definition paid_of :: "shop_db \<Rightarrow> int \<Rightarrow> rat" where
  "paid_of db i = (\<Sum>x\<leftarrow>s_orders db. if or_buyer x = i then or_total x else 0)"

lemma sum_update_where:
  fixes g :: "'r \<Rightarrow> 'a :: ab_group_add"
  assumes "distinct (map key t)" "r \<in> set t"
  shows "(\<Sum>x\<leftarrow>update_where (\<lambda>x. key x = key r) f t. g x) = (\<Sum>x\<leftarrow>t. g x) - g r + g (f r)"
  using assms
proof (induction t)
  case (Cons a t)
  show ?case
  proof (cases "key a = key r")
    case True
    then have "r \<notin> set t" using Cons.prems(1) by force
    then have "a = r" using Cons.prems(2) by simp
    moreover have "update_where (\<lambda>x. key x = key r) f t = t"
      using Cons.prems(1) True by (intro update_where_none) (auto simp: image_iff dest: sym)
    ultimately show ?thesis by simp
  next
    case False
    then show ?thesis using Cons by (auto simp: algebra_simps)
  qed
qed simp

lemma sold_conserves:
  assumes ok: "shop_ok db" and r: "r \<in> set (s_products db)" and u: "u \<in> set (s_users db)"
  shows "stock_of (sold env c p r u db) i + sold_of (sold env c p r u db) i = stock_of db i + sold_of db i"
    and "balance_of (sold env c p r u db) i + paid_of (sold env c p r u db) i = balance_of db i + paid_of db i"
proof -
  note D = shop_okD [OF ok]
  show "stock_of (sold env c p r u db) i + sold_of (sold env c p r u db) i = stock_of db i + sold_of db i"
    using sum_update_where [OF D(1) r, of "\<lambda>r. if p_id r = i then p_stock r else 0" "\<lambda>x. x\<lparr>p_stock := p_stock x - cp_quantity p\<rparr>"]
    by (simp add: stock_of_def sold_of_def sold_def Let_def)
  show "balance_of (sold env c p r u db) i + paid_of (sold env c p r u db) i = balance_of db i + paid_of db i"
    using sum_update_where [OF D(2) u, of "\<lambda>u. if a_id u = i then a_balance u else 0"
        "\<lambda>x. x\<lparr>a_balance := a_balance x - p_price r * of_int (cp_quantity p)\<rparr>"]
    by (simp add: balance_of_def paid_of_def sold_def Let_def)
qed

lemma checkout_conserves:
  assumes ok: "shop_ok db"
  shows "stock_of (snd (checkout env c p db)) i + sold_of (snd (checkout env c p db)) i = stock_of db i + sold_of db i"
    and "balance_of (snd (checkout env c p db)) i + paid_of (snd (checkout env c p db)) i = balance_of db i + paid_of db i"
proof -
  obtain res db' where co: "checkout env c p db = (res, db')" by fastforce
  from ok co have "stock_of db' i + sold_of db' i = stock_of db i + sold_of db i \<and>
      balance_of db' i + paid_of db' i = balance_of db i + paid_of db i"
  proof (cases rule: checkout_cases)
    case (sold r u)
    then show ?thesis using sold_conserves [OF ok] by blast
  next
    case (failed db2)
    then show ?thesis by (simp add: rollback_def stock_of_def sold_of_def balance_of_def paid_of_def)
  qed simp
  then show "stock_of (snd (checkout env c p db)) i + sold_of (snd (checkout env c p db)) i = stock_of db i + sold_of db i"
    "balance_of (snd (checkout env c p db)) i + paid_of (snd (checkout env c p db)) i = balance_of db i + paid_of db i"
    using co by simp_all
qed

lemma shop_run_conserves:
  assumes "shop_run env db db'" "shop_ok db"
  shows "stock_of db' i + sold_of db' i = stock_of db i + sold_of db i \<and>
    balance_of db' i + paid_of db' i = balance_of db i + paid_of db i"
  using assms
proof (induction rule: shop_run.induct)
  case (run_checkout db db1 c p)
  then show ?case using checkout_conserves [OF shop_run_ok [OF run_checkout.hyps run_checkout.prems]] by simp
qed simp

text \<open>C2: after any series of checkouts, concurrent duplicates and failures
  included, no stock and no balance is negative, the pieces sold of a product
  and its stock add up to what they were, and so do a user's balance and the
  totals of the user's orders.\<close>

theorem no_oversell_no_overdraft:
  assumes "shop_run env db db'" "shop_ok db"
  shows "(\<forall>r \<in> set (s_products db'). 0 \<le> p_stock r) \<and> (\<forall>u \<in> set (s_users db'). 0 \<le> a_balance u) \<and>
    stock_of db' i + sold_of db' i = stock_of db i + sold_of db i \<and>
    balance_of db' i + paid_of db' i = balance_of db i + paid_of db i"
proof -
  have "shop_ok db'" using assms by (rule shop_run_ok)
  then show ?thesis using shop_run_conserves [OF assms] shop_okD(6,7) by blast
qed

subsection \<open>Idempotency keys\<close>

lemma set_keyed_orders:
  "y \<in> set (keyed_orders key db) \<longleftrightarrow>
     (\<exists>r \<in> set (s_keys db). Some (k_key r) = key \<and> y \<in> set (s_orders db) \<and> Some (or_id y) = k_order r)"
  by (auto simp: keyed_orders_def split: if_splits)

lemma previous_result_row:
  assumes ok: "shop_ok db" and k: "\<lparr>k_key = k, k_order = Some oid\<rparr> \<in> set (s_keys db)"
    and x: "x \<in> set (s_orders db)" "or_id x = oid"
  shows "previous_result (Some k) db = Inr (CheckoutSuccess (show_nat oid) (fl (or_total x)) True)"
proof -
  note D = shop_okD [OF ok]
  let ?xs = "keyed_orders (Some k) db"
  have "y = x" if "y \<in> set ?xs" for y
  proof -
    from that obtain r where r: "r \<in> set (s_keys db)" "k_key r = k" "y \<in> set (s_orders db)" "Some (or_id y) = k_order r"
      unfolding set_keyed_orders by auto
    then have "r = \<lparr>k_key = k, k_order = Some oid\<rparr>" using distinct_key_unique [OF D(4) r(1) k] by simp
    with r x show ?thesis using distinct_key_unique [OF D(3) r(3) x(1)] by simp
  qed
  moreover have "x \<in> set ?xs"
    unfolding set_keyed_orders using x by (intro bexI [OF _ k]) simp
  ultimately obtain ys where "?xs = x # ys" by (metis list.exhaust list.set_intros(1) empty_iff list.set(1))
  then show ?thesis using x(2) by (simp add: previous_result_def)
qed

definition key_used :: "string \<Rightarrow> nat \<Rightarrow> rat \<Rightarrow> shop_db \<Rightarrow> bool" where
  "key_used k oid amt db \<longleftrightarrow> \<lparr>k_key = k, k_order = Some oid\<rparr> \<in> set (s_keys db) \<and>
     (\<exists>x \<in> set (s_orders db). or_id x = oid \<and> or_total x = amt)"

lemma key_used_checkout:
  assumes ok: "shop_ok db" and k: "key_used k oid amt db"
  shows "key_used k oid amt (snd (checkout env c p db))"
proof -
  obtain res db' where co: "checkout env c p db = (res, db')" by fastforce
  from ok co have "key_used k oid amt db'"
  proof (cases rule: checkout_cases)
    case (sold r u)
    then show ?thesis using k by (auto simp: key_used_def sold_def Let_def split: option.splits)
  next
    case (failed db2)
    then show ?thesis using k by (simp add: key_used_def rollback_def)
  qed (use k in simp)
  then show ?thesis using co by simp
qed

lemma replayed_checkout:
  assumes ok: "shop_ok db" and co: "checkout env c p db = (Inr (CheckoutSuccess i t False), db1)"
    and k: "cp_idempotencyKey p = Some k" and run: "shop_run env db1 db2" and k': "cp_idempotencyKey p' = Some k"
  shows "\<exists>x \<in> set (s_orders db2). show_nat (or_id x) = i \<and>
    checkout env' c' p' db2 = (Inr (CheckoutSuccess i (fl (or_total x)) True), db2)"
  using ok co
proof (cases rule: checkout_cases)
  case (sold r u)
  let ?amt = "p_price r * of_int (cp_quantity p)"
  have ok1: "shop_ok db1" using shop_ok_checkout [OF ok, of env c p] co by simp
  have used: "key_used k (order_seq db) ?amt db1"
    using k sold(10) by (auto simp: key_used_def sold_def Let_def)
  have "shop_ok db2 \<and> key_used k (order_seq db) ?amt db2"
    using run ok1 used
  proof (induction rule: shop_run.induct)
    case (run_checkout db db1 c p)
    then show ?case using key_used_checkout shop_ok_checkout by blast
  qed simp
  then obtain x where ok2: "shop_ok db2" and key: "\<lparr>k_key = k, k_order = Some (order_seq db)\<rparr> \<in> set (s_keys db2)"
    and x: "x \<in> set (s_orders db2)" "or_id x = order_seq db"
    by (auto simp: key_used_def)
  have "\<not> fst (claim_key (Some k) db2)" using key claim_fresh [of "Some k" db2 k] by force
  then have "checkout env' c' p' db2 = (previous_result (Some k) db2, db2)"
    by (cases "claim_key (Some k) db2") (auto simp: checkout_def k')
  with previous_result_row [OF ok2 key x] x sold(9) show ?thesis by (intro bexI [of _ x]) simp_all
next
  case replayed
  then show ?thesis by (auto simp: previous_result_def split: list.splits)
next
  case (failed db2)
  then show ?thesis by auto
qed

text \<open>C4: once a checkout with a key has succeeded, every later request with that
  key, whatever its body says, gets the same order id marked as replayed,
  changes nothing and sells nothing, no matter what was bought in between.
  The amount it returns is the one recorded in cents.\<close>

theorem replay_returns_same:
  assumes ok: "shop_ok db" and co: "checkout env c p db = (Inr (CheckoutSuccess i t False), db1)"
    and k: "cp_idempotencyKey p = Some k" and run: "shop_run env db1 db2" and k': "cp_idempotencyKey p' = Some k"
  shows "\<exists>x \<in> set (s_orders db2). show_nat (or_id x) = i \<and>
    checkout env' c' p' db2 = (Inr (CheckoutSuccess i (fl (or_total x)) True), db2)"
  using assms by (rule replayed_checkout)

subsection \<open>Orders, items, jobs and events go together\<close>

definition linked :: "shop_db \<Rightarrow> bool" where
  "linked db \<longleftrightarrow> map it_order (s_items db) = map or_id (s_orders db) \<and>
     map j_order (s_jobs db) = map or_id (s_orders db) \<and>
     map ob_aggregate_id (s_outbox db) = map (\<lambda>x. show_nat (or_id x)) (s_orders db) \<and>
     map (\<lambda>x. it_price x * of_int (it_quantity x)) (s_items db) = map or_total (s_orders db)"

lemma linked_checkout [inv_intros]:
  assumes ok: "shop_ok db" and l: "linked db" shows "linked (snd (checkout env c p db))"
proof -
  obtain res db' where co: "checkout env c p db = (res, db')" by fastforce
  from ok co have "linked db'"
  proof (cases rule: checkout_cases)
    case (sold r u)
    then show ?thesis using l by (simp add: linked_def sold_def Let_def)
  next
    case (failed db2)
    then show ?thesis using l by (simp add: linked_def rollback_def)
  qed (use l in simp)
  then show ?thesis using co by simp
qed

text \<open>Starting from tables without orders, after any series of checkouts every
  order has exactly one item (whose price times quantity is its total), one
  job and one outbox event, in the same order, and none of them exists
  without its order.\<close>

theorem orders_have_events:
  assumes run: "shop_run env db db'" and ok: "shop_ok db"
    and empty: "s_orders db = []" "s_items db = []" "s_jobs db = []" "s_outbox db = []"
  shows "linked db' \<and> distinct (map ob_aggregate_id (s_outbox db'))"
proof -
  have "linked db'" using run ok empty
  proof (induction rule: shop_run.induct)
    case (run_checkout db db1 c p)
    then show ?case using linked_checkout shop_run_ok by blast
  qed (simp add: linked_def)
  moreover have "distinct (map or_id (s_orders db'))" using shop_okD(3) [OF shop_run_ok [OF run ok]] .
  then have "distinct (map (\<lambda>x. show_nat (or_id x)) (s_orders db'))"
    by (simp add: distinct_map inj_on_def show_nat_inj)
  ultimately show ?thesis by (simp add: linked_def)
qed

subsection \<open>Examples\<close>

definition example_shop :: "rat \<Rightarrow> shop_db" where
  "example_shop balance =
     \<lparr>s_products = [\<lparr>p_id = 3, p_sku = ''SKU'', p_name = ''Pen'', p_price = 1 / 10, p_stock = 5\<rparr>],
      s_users = [\<lparr>a_id = 7, a_email = ''a'', a_balance = balance\<rparr>],
      s_orders = [], s_items = [], s_keys = [], s_jobs = [], s_outbox = [], order_seq = 1, job_seq = 1,
      product_seq = 4, user_seq = 8\<rparr>"

definition example_shop_env :: checkout_env where
  "example_shop_env = \<lparr>ce_sha1 = (\<lambda>_. replicate 20 0),
     ce_bigint = (\<lambda>s. if s = ''3'' then Some 3 else if s = ''7'' then Some 7 else None)\<rparr>"

definition example_call :: "exn option \<Rightarrow> checkout_call" where
  "example_call h = \<lparr>cc_rowId = ''row'', cc_now = 0, cc_placedAt = ''2026-08-01T10:00:00.000Z'', cc_hook = h\<rparr>"

definition example_params :: "int \<Rightarrow> checkout_params" where
  "example_params q = \<lparr>cp_buyerId = ''7'', cp_productId = ''3'', cp_quantity = q, cp_idempotencyKey = Some ''k''\<rparr>"

lemma example_amount: "js_decimal (js_mul (fl (1 / 10)) 3) = 30000000000000004 / 100000000000000000"
  by code_simp

lemma example_item: "js_decimal (fl (1 / 10)) = 1 / 10"
  by code_simp

lemma example_shop_ok: "0 \<le> b \<Longrightarrow> b < 10 ^ 10 \<Longrightarrow> cents b \<Longrightarrow> shop_ok (example_shop b)"
  by (simp add: shop_ok_def example_shop_def in_int4_def cents_def)

lemma one_ok: "shop_ok (example_shop 1)"
  by (intro example_shop_ok) (simp_all add: cents_def)

lemmas run_checkout_simps = checkout_def claim_key_def insert_on_conflict_def place_order_def and_then_def
  read_bigint_def decrement_stock_def charge_balance_def insert_order_def insert_item_def insert_job_def
  set_key_order_def insert_outbox_def run_hook_def numeric122_def round2_def example_amount example_item in_int4_def
  example_shop_def example_shop_env_def example_call_def example_params_def Let_def

definition bought :: shop_db where
  "bought = snd (checkout example_shop_env (example_call None) (example_params 3) (example_shop 1))"

lemma bought_result:
  "checkout example_shop_env (example_call None) (example_params 3) (example_shop 1) =
     (Inr (CheckoutSuccess (show_nat 1) (js_mul (fl (1 / 10)) 3) False), bought)"
proof -
  have "fst (checkout example_shop_env (example_call None) (example_params 3) (example_shop 1)) =
      Inr (CheckoutSuccess (show_nat 1) (js_mul (fl (1 / 10)) 3) False)"
    by (simp add: run_checkout_simps)
  then show ?thesis by (simp add: bought_def prod_eq_iff)
qed

theorem checkout_sells_exactly_witness:
  "\<exists>r u. bought = sold example_shop_env (example_call None) (example_params 3) r u (example_shop 1)"
  using checkout_sells_exactly [OF one_ok bought_result] by blast

theorem checkout_all_or_nothing_witness:
  "s_orders (snd (checkout example_shop_env (example_call (Some (Error ''crash''))) (example_params 3) (example_shop 1))) = []"
proof -
  let ?c = "checkout example_shop_env (example_call (Some (Error ''crash''))) (example_params 3) (example_shop 1)"
  have "fst ?c = Inl (Error ''crash'')" by (simp add: run_checkout_simps)
  then have "snd ?c = (example_shop 1)\<lparr>order_seq := order_seq (snd ?c), job_seq := job_seq (snd ?c)\<rparr>"
    by (intro checkout_all_or_nothing [OF one_ok, of example_shop_env "example_call (Some (Error ''crash''))" "example_params 3" "fst ?c"])
      (simp_all add: prod_eq_iff)
  then have "s_orders (snd ?c) = s_orders (example_shop 1)" by (rule trans [OF arg_cong [where f = s_orders]]) simp
  then show ?thesis by (simp add: example_shop_def)
qed

theorem no_oversell_no_overdraft_witness:
  "stock_of bought 3 + sold_of bought 3 = 5 \<and> balance_of bought 7 + paid_of bought 7 = 1"
proof -
  have "shop_run example_shop_env (example_shop 1) bought"
    unfolding bought_def by (intro shop_run.intros)
  from no_oversell_no_overdraft [OF this one_ok, of 3] no_oversell_no_overdraft [OF this one_ok, of 7]
  show ?thesis by (simp add: example_shop_def stock_of_def sold_of_def balance_of_def paid_of_def)
qed

theorem replay_returns_same_witness:
  "\<exists>t. checkout example_shop_env (example_call None) (example_params 1) bought =
     (Inr (CheckoutSuccess (show_nat 1) t True), bought)"
proof -
  have "cp_idempotencyKey (example_params 3) = Some ''k''" "cp_idempotencyKey (example_params 1) = Some ''k''"
    by (simp_all add: example_params_def)
  from replay_returns_same [OF one_ok bought_result this(1) run_none this(2)] show ?thesis by blast
qed

theorem orders_have_events_witness:
  "linked bought \<and> s_orders bought \<noteq> []"
proof -
  have "shop_run example_shop_env (example_shop 1) bought"
    unfolding bought_def by (intro shop_run.intros)
  from orders_have_events [OF this one_ok] have "linked bought" by (simp add: example_shop_def)
  moreover have "length (s_orders bought) = 1"
    using arg_cong [OF bought_result, of "\<lambda>x. length (s_orders (snd x))"]
    unfolding bought_def by (simp add: run_checkout_simps)
  ultimately show ?thesis by auto
qed

subsection \<open>Where the doubles show\<close>

text \<open>The price is multiplied as a double: three pieces at 0.10 ask for
  0.30000000000000004, so a buyer with exactly 0.30 is refused, and the first
  answer for such an order names another amount than its replay.\<close>

theorem exact_funds_refused:
  "fst (checkout example_shop_env (example_call None) (example_params 3) (example_shop (3 / 10))) =
     Inr (CheckoutFailure insufficient_funds) \<and>
   fst (checkout example_shop_env (example_call None) (example_params 3) (example_shop 1)) =
     Inr (CheckoutSuccess (show_nat 1) (js_mul (fl (1 / 10)) 3) False) \<and>
   fst (checkout example_shop_env (example_call None) (example_params 3) bought) =
     Inr (CheckoutSuccess (show_nat 1) (fl (3 / 10)) True) \<and>
   js_mul (fl (1 / 10)) 3 \<noteq> fl (3 / 10)"
proof (intro conjI)
  show "fst (checkout example_shop_env (example_call None) (example_params 3) (example_shop (3 / 10))) =
     Inr (CheckoutFailure insufficient_funds)"
    by (simp add: run_checkout_simps)
  show "fst (checkout example_shop_env (example_call None) (example_params 3) (example_shop 1)) =
     Inr (CheckoutSuccess (show_nat 1) (js_mul (fl (1 / 10)) 3) False)"
    by (simp add: bought_result)
  have "shop_ok bought" using shop_ok_checkout [OF one_ok] by (simp add: bought_def)
  moreover have "s_keys bought = [\<lparr>k_key = ''k'', k_order = Some 1\<rparr>]" "map or_id (s_orders bought) = [1]"
    "map or_total (s_orders bought) = [3 / 10]"
    using arg_cong [OF bought_result, of "\<lambda>x. s_keys (snd x)"] arg_cong [OF bought_result, of "\<lambda>x. map or_id (s_orders (snd x))"]
      arg_cong [OF bought_result, of "\<lambda>x. map or_total (s_orders (snd x))"]
    unfolding bought_def by (simp_all add: run_checkout_simps floor_eq_iff)
  moreover from this(2,3) obtain z where z: "s_orders bought = [z]" "or_id z = 1" "or_total z = 3 / 10" by auto
  ultimately have "previous_result (Some ''k'') bought = Inr (CheckoutSuccess (show_nat 1) (fl (3 / 10)) True)"
    using previous_result_row [of bought "''k''" 1 z, unfolded z(3)] by simp
  moreover have "claim_key (Some ''k'') bought = (False, bought)"
    using \<open>s_keys bought = _\<close> by (simp add: claim_key_def insert_on_conflict_def)
  ultimately show "fst (checkout example_shop_env (example_call None) (example_params 3) bought) =
     Inr (CheckoutSuccess (show_nat 1) (fl (3 / 10)) True)"
    by (simp add: checkout_def example_params_def)
  show "js_mul (fl (1 / 10)) 3 \<noteq> fl (3 / 10)" by code_simp
qed

end
