(* ===== verification/Relay.thy ===== *)
theory Relay
  imports Checkout "HOL-Library.Product_Lexorder" "HOL-Library.List_Lexorder" "HOL-Library.Char_ord"
begin

text \<open>
  The outbox relay: \<open>src/outbox/relay.ts\<close>, and the confirming publisher it
  sends with, \<open>src/messaging/publisher.ts\<close>.  What the broker does with one
  publication is the parameter \<open>wire\<close>: whether the message was stored in a
  queue, whether it came back as unroutable, and the error (a nack, a lost
  connection) the wait for the confirm ends with.
\<close>

subsection \<open>publishRaw\<close>

record wire =
  w_stored :: bool
  w_returned :: bool
  w_error :: "exn option"

definition publishRaw :: "bool \<Rightarrow> wire \<Rightarrow> nat \<Rightarrow> unit res \<times> nat" where
  "publishRaw throwIfUnroutable w returned =
     (let returned' = (if w_returned w then Suc returned else returned) in
      (case w_error w of
         Some e \<Rightarrow> Inl e
       | None \<Rightarrow> if throwIfUnroutable \<and> returned < returned' then Inl (Error ''basic.return'') else Inr (),
       returned'))"

text \<open>The broker's promise: a confirmed message that was not returned is stored.\<close>

definition confirms_mean_stored :: "(outbox_row \<Rightarrow> wire) \<Rightarrow> bool" where
  "confirms_mean_stored wire \<longleftrightarrow>
     (\<forall>row. w_error (wire row) = None \<longrightarrow> \<not> w_returned (wire row) \<longrightarrow> w_stored (wire row))"

subsection \<open>One pass\<close>

record pass_state =
  ps_done :: "string list"
  ps_failed :: "(string \<times> exn) option"
  ps_thrown :: "exn option"
  ps_sent :: "outbox_row list"
  ps_returned :: nat

fun publish_rows :: "(outbox_row \<Rightarrow> wire) \<Rightarrow> (outbox_row \<Rightarrow> exn option) \<Rightarrow> nat \<Rightarrow> outbox_row list \<Rightarrow> pass_state" where
  "publish_rows wire hook ret [] = \<lparr>ps_done = [], ps_failed = None, ps_thrown = None, ps_sent = [], ps_returned = ret\<rparr>"
| "publish_rows wire hook ret (row # rows) =
     (let p = publishRaw True (wire row) ret;
          sent = (if w_stored (wire row) then [row] else [])
      in case fst p of
           Inl e \<Rightarrow> \<lparr>ps_done = [], ps_failed = Some (ob_id row, e), ps_thrown = None, ps_sent = sent, ps_returned = snd p\<rparr>
         | Inr _ \<Rightarrow>
             (case hook row of
                Some e \<Rightarrow> \<lparr>ps_done = [ob_id row], ps_failed = None, ps_thrown = Some e, ps_sent = sent, ps_returned = snd p\<rparr>
              | None \<Rightarrow>
                  (let r = publish_rows wire hook (snd p) rows
                   in r\<lparr>ps_done := ob_id row # ps_done r, ps_sent := sent @ ps_sent r\<rparr>)))"

record relay_pass =
  rp_claimed :: nat
  rp_published :: nat
  rp_error :: "exn option"

definition unpublished :: "outbox_row list \<Rightarrow> outbox_row list" where
  "unpublished t = filter (\<lambda>r. ob_published_at r = None) t"

definition in_order :: "outbox_row list \<Rightarrow> outbox_row list" where
  "in_order t = sort_key (\<lambda>r. (ob_created_at r, ob_id r)) t"

definition claim_batch :: "int \<Rightarrow> string set \<Rightarrow> outbox_row list \<Rightarrow> outbox_row list" where
  "claim_batch batchSize locked t =
     take (nat batchSize) (in_order (filter (\<lambda>r. ob_id r \<notin> locked) (unpublished t)))"

definition mark_published :: "rat \<Rightarrow> string list \<Rightarrow> outbox_row list \<Rightarrow> outbox_row list" where
  "mark_published now ids t =
     update_where (\<lambda>r. ob_id r \<in> set ids) (\<lambda>r. r\<lparr>ob_published_at := Some now, ob_attempts := ob_attempts r + 1\<rparr>) t"

text \<open>
  \<open>locked\<close> are the rows concurrent relays hold (skipped), \<open>hook\<close> what
  \<open>afterPublish\<close> throws.  The result comes with the table, the messages the
  broker stored and the publisher's counter.
\<close>

definition relayOnce ::
    "int \<Rightarrow> string set \<Rightarrow> (outbox_row \<Rightarrow> wire) \<Rightarrow> (outbox_row \<Rightarrow> exn option) \<Rightarrow> rat \<Rightarrow> nat \<Rightarrow> outbox_row list \<Rightarrow>
     relay_pass res \<times> outbox_row list \<times> outbox_row list \<times> nat" where
  "relayOnce batchSize locked wire hook now ret t =
     (if batchSize < 0 then (Inl (DbError ''2201W''), t, [], ret)
      else
        (let rows = claim_batch batchSize locked t;
             ps = publish_rows wire hook ret rows;
             t1 = (if ps_done ps \<noteq> [] then mark_published now (ps_done ps) t else t);
             t2 = (case ps_failed ps of
                     None \<Rightarrow> t1
                   | Some (i, _) \<Rightarrow> update_where (\<lambda>r. ob_id r = i) (\<lambda>r. r\<lparr>ob_attempts := ob_attempts r + 1\<rparr>) t1)
         in case ps_thrown ps of
              Some e \<Rightarrow> (Inl e, t, ps_sent ps, ps_returned ps)
            | None \<Rightarrow> (Inr \<lparr>rp_claimed = length rows, rp_published = length (ps_done ps),
                           rp_error = map_option snd (ps_failed ps)\<rparr>, t2, ps_sent ps, ps_returned ps)))"

text \<open>
  The polling loop; pass number \<open>k\<close> meets the broker and the concurrent relays
  \<open>wire k\<close> and \<open>locked k\<close> describe.  \<open>None\<close> means the pass budget ran out.
\<close>

fun relayUntilEmpty ::
    "nat \<Rightarrow> int \<Rightarrow> (nat \<Rightarrow> string set) \<Rightarrow> (nat \<Rightarrow> outbox_row \<Rightarrow> wire) \<Rightarrow> (nat \<Rightarrow> outbox_row \<Rightarrow> exn option) \<Rightarrow>
     (nat \<Rightarrow> rat) \<Rightarrow> nat \<Rightarrow> nat \<Rightarrow> nat \<Rightarrow> outbox_row list \<Rightarrow> (nat res \<times> outbox_row list \<times> outbox_row list) option" where
  "relayUntilEmpty 0 batchSize locked wire hook now k total' ret t = None"
| "relayUntilEmpty (Suc fuel) batchSize locked wire hook now k total' ret t =
     (case relayOnce batchSize (locked k) (wire k) (hook k) (now k) ret t of
        (Inl e, t', sent, _) \<Rightarrow> Some (Inl e, t', sent)
      | (Inr p, t', sent, ret') \<Rightarrow>
          (case rp_error p of
             Some e \<Rightarrow> Some (Inl e, t', sent)
           | None \<Rightarrow>
               if rp_claimed p = 0 then Some (Inr (total' + rp_published p), t', sent)
               else map_option (\<lambda>(r, t'', sent'). (r, t'', sent @ sent'))
                      (relayUntilEmpty fuel batchSize locked wire hook now (Suc k) (total' + rp_published p) ret' t')))"

text \<open>
  The background loop: \<open>n\<close> ticks until it is stopped, no hooks.  A failing pass is
  logged and the loop goes on; the flag says whether the tick was idle (the
  loop then sleeps).
\<close>

definition relay_tick ::
    "int \<Rightarrow> string set \<Rightarrow> (outbox_row \<Rightarrow> wire) \<Rightarrow> rat \<Rightarrow> nat \<Rightarrow> outbox_row list \<Rightarrow>
     bool \<times> outbox_row list \<times> outbox_row list \<times> nat" where
  "relay_tick batchSize locked wire now ret t =
     (case relayOnce batchSize locked wire (\<lambda>_. None) now ret t of
        (Inl _, t', sent, ret') \<Rightarrow> (True, t', sent, ret')
      | (Inr p, t', sent, ret') \<Rightarrow> (rp_claimed p = 0 \<or> rp_error p \<noteq> None, t', sent, ret'))"

fun startRelay ::
    "nat \<Rightarrow> int option \<Rightarrow> (nat \<Rightarrow> string set) \<Rightarrow> (nat \<Rightarrow> outbox_row \<Rightarrow> wire) \<Rightarrow> (nat \<Rightarrow> rat) \<Rightarrow> nat \<Rightarrow> nat \<Rightarrow>
     outbox_row list \<Rightarrow> bool list \<times> outbox_row list \<times> outbox_row list" where
  "startRelay 0 batchSize locked wire now k ret t = ([], t, [])"
| "startRelay (Suc n) batchSize locked wire now k ret t =
     (case relay_tick (case batchSize of None \<Rightarrow> 50 | Some b \<Rightarrow> b) (locked k) (wire k) (now k) ret t of
        (idle, t', sent, ret') \<Rightarrow>
          (case startRelay n batchSize locked wire now (Suc k) ret' t' of
             (idles, t'', sent') \<Rightarrow> (idle # idles, t'', sent @ sent')))"

subsection \<open>What a pass sends and marks\<close>

lemma publishRaw_Inr: "fst (publishRaw True w ret) = Inr () \<longleftrightarrow> w_error w = None \<and> \<not> w_returned w"
  by (auto simp: publishRaw_def Let_def split: option.splits)

lemma publish_rows_prefix:
  assumes "confirms_mean_stored wire"
  shows "\<exists>n. ps_done (publish_rows wire hook ret rows) = map ob_id (take n rows) \<and>
    set (take n rows) \<subseteq> set (ps_sent (publish_rows wire hook ret rows)) \<and>
    set (ps_sent (publish_rows wire hook ret rows)) \<subseteq> set rows"
proof (induction rows arbitrary: ret)
  case Nil
  then show ?case by simp
next
  case (Cons row rows)
  let ?p = "publishRaw True (wire row) ret"
  show ?case
  proof (cases "fst ?p")
    case (Inl e)
    then show ?thesis by (intro exI [of _ 0]) (auto simp: Let_def)
  next
    case (Inr u)
    then have st: "w_stored (wire row)"
      using assms publishRaw_Inr [of "wire row" ret] by (auto simp: confirms_mean_stored_def)
    show ?thesis
    proof (cases "hook row")
      case None
      obtain n where "ps_done (publish_rows wire hook (snd ?p) rows) = map ob_id (take n rows)"
        "set (take n rows) \<subseteq> set (ps_sent (publish_rows wire hook (snd ?p) rows))"
        "set (ps_sent (publish_rows wire hook (snd ?p) rows)) \<subseteq> set rows"
        using Cons.IH [of "snd ?p"] by blast
      then show ?thesis using Inr None st by (intro exI [of _ "Suc n"]) (auto simp: Let_def)
    next
      case (Some e)
      then show ?thesis using Inr st by (intro exI [of _ 1]) (auto simp: Let_def)
    qed
  qed
qed

lemma set_in_order [simp]: "set (in_order t) = set t"
  by (simp add: in_order_def)

lemma claim_batch_subset: "set (claim_batch b l t) \<subseteq> set (unpublished t)"
  unfolding claim_batch_def by (rule subset_trans [OF set_take_subset]) auto

text \<open>A pass of batch size \<open>Suc n\<close> claims under the \<open>SKIP LOCKED\<close> contract.\<close>

interpretation outbox_queue: skip_locked "claim_batch (int (Suc n))" ob_id "\<lambda>r. ob_published_at r = None" for n
proof
  fix r :: outbox_row and locked t
  show "r \<in> set (claim_batch (int (Suc n)) locked t) \<Longrightarrow> r \<in> set t \<and> ob_published_at r = None \<and> ob_id r \<notin> locked"
    unfolding claim_batch_def by (auto simp: unpublished_def dest: in_set_takeD)
  assume "r \<in> set t" "ob_published_at r = None" "ob_id r \<notin> locked"
  then have "r \<in> set (in_order (filter (\<lambda>r. ob_id r \<notin> locked) (unpublished t)))" by (simp add: unpublished_def)
  then have "in_order (filter (\<lambda>r. ob_id r \<notin> locked) (unpublished t)) \<noteq> []" by (metis empty_iff list.set(1))
  then show "claim_batch (int (Suc n)) locked t \<noteq> []" unfolding claim_batch_def take_eq_Nil by simp
qed

text \<open>How a row may look after a pass: the same event, possibly marked.\<close>

definition row_after :: "outbox_row list \<Rightarrow> outbox_row \<Rightarrow> outbox_row \<Rightarrow> bool" where
  "row_after sent r r' \<longleftrightarrow> r' = r\<lparr>ob_published_at := ob_published_at r', ob_attempts := ob_attempts r'\<rparr> \<and>
     (ob_published_at r' = ob_published_at r \<or> (ob_published_at r = None \<and> ob_published_at r' \<noteq> None \<and> r \<in> set sent))"

lemma row_after_refl [simp]: "row_after sent r r"
  by (simp add: row_after_def)

lemma list_all2_update_where:
  "(\<And>r. r \<in> set t \<Longrightarrow> P r \<Longrightarrow> R r (f r)) \<Longrightarrow> (\<And>r. R r r) \<Longrightarrow> list_all2 R t (update_where P f t)"
  by (induction t) auto

lemma row_after_attempt:
  "list_all2 (row_after sent) t t1 \<Longrightarrow>
   list_all2 (row_after sent) t (update_where P (\<lambda>r. r\<lparr>ob_attempts := ob_attempts r + 1\<rparr>) t1)"
proof (induction rule: list_all2_induct)
  case (Cons x xs y ys)
  then show ?case by (cases x; cases y) (auto simp: row_after_def)
qed simp

lemma relayOnce_rows:
  assumes wire: "confirms_mean_stored wire" and d: "distinct (map ob_id t)"
    and r: "relayOnce b l wire hook now ret t = (res, t', sent, ret')"
  shows "set sent \<subseteq> set (unpublished t) \<and> list_all2 (row_after sent) t t'"
proof (cases "b < 0")
  case True
  then show ?thesis using r by (auto simp: relayOnce_def list_all2_same)
next
  case False
  define rows where "rows = claim_batch b l t"
  define ps where "ps = publish_rows wire hook ret rows"
  define t1 where "t1 = (if ps_done ps \<noteq> [] then mark_published now (ps_done ps) t else t)"
  have sub: "set rows \<subseteq> set (unpublished t)" unfolding rows_def by (rule claim_batch_subset)
  obtain n where done': "ps_done ps = map ob_id (take n rows)" "set (take n rows) \<subseteq> set (ps_sent ps)"
    and sent: "set (ps_sent ps) \<subseteq> set rows"
    using publish_rows_prefix [OF wire] unfolding ps_def by blast
  have "list_all2 (row_after (ps_sent ps)) t (mark_published now (ps_done ps) t)"
    unfolding mark_published_def
  proof (rule list_all2_update_where)
    fix r assume "r \<in> set t" "ob_id r \<in> set (ps_done ps)"
    then obtain x where x: "x \<in> set (take n rows)" "ob_id x = ob_id r" by (auto simp: done')
    then have xs: "x \<in> set rows" by (meson in_set_takeD)
    then have "x \<in> set t" using sub by (auto simp: unpublished_def)
    then have "x = r" using distinct_key_unique [OF d _ \<open>r \<in> set t\<close> x(2)] by simp
    then show "row_after (ps_sent ps) r (r\<lparr>ob_published_at := Some now, ob_attempts := ob_attempts r + 1\<rparr>)"
      using x(1) xs sub done'(2) by (auto simp: row_after_def unpublished_def)
  qed simp
  then have t1: "list_all2 (row_after (ps_sent ps)) t t1" by (simp add: t1_def list_all2_same)
  have res: "sent = ps_sent ps \<and> (t' = t \<or> t' = t1 \<or>
      (\<exists>i. t' = update_where (\<lambda>r. ob_id r = i) (\<lambda>r. r\<lparr>ob_attempts := ob_attempts r + 1\<rparr>) t1))"
    using r False
    by (auto simp: relayOnce_def Let_def t1_def simp flip: rows_def ps_def split: option.splits prod.splits)
  then show ?thesis
    using t1 row_after_attempt [OF t1] sent sub by (auto simp: list_all2_same)
qed

text \<open>C16: a pass marks a row as published only if the broker stored its message in
  this very pass; no row is unmarked, dropped or rewritten, and only rows
  still to be published are sent.  So a crash, a nack, a return or a failed
  hook can duplicate an event but never lose one.\<close>

theorem marked_means_sent:
  assumes "confirms_mean_stored wire" "distinct (map ob_id t)"
    and "relayOnce b l wire hook now ret t = (res, t', sent, ret')" and "i < length t"
  shows "length t' = length t \<and> set sent \<subseteq> set (unpublished t) \<and>
    ob_id (t' ! i) = ob_id (t ! i) \<and> ob_type (t' ! i) = ob_type (t ! i) \<and> ob_payload (t' ! i) = ob_payload (t ! i) \<and>
    (if ob_published_at (t ! i) \<noteq> None then ob_published_at (t' ! i) = ob_published_at (t ! i)
     else ob_published_at (t' ! i) \<noteq> None \<longrightarrow> t ! i \<in> set sent)"
proof -
  have a: "list_all2 (row_after sent) t t'" "set sent \<subseteq> set (unpublished t)"
    using relayOnce_rows [OF assms(1-3)] by simp_all
  have "row_after sent (t ! i) (t' ! i)" using list_all2_nthD [OF a(1) assms(4)] .
  then have p: "ob_published_at (t' ! i) = ob_published_at (t ! i) \<or>
      (ob_published_at (t ! i) = None \<and> t ! i \<in> set sent)"
    and eq: "t' ! i = (t ! i)\<lparr>ob_published_at := ob_published_at (t' ! i), ob_attempts := ob_attempts (t' ! i)\<rparr>"
    unfolding row_after_def by blast+
  have "ob_id (t' ! i) = ob_id (t ! i)" by (subst eq) simp
  moreover have "ob_type (t' ! i) = ob_type (t ! i)" by (subst eq) simp
  moreover have "ob_payload (t' ! i) = ob_payload (t ! i)" by (subst eq) simp
  ultimately show ?thesis using a(2) list_all2_lengthD [OF a(1)] p by auto
qed

subsection \<open>The loop drains the outbox\<close>

definition all_good :: "(nat \<Rightarrow> outbox_row \<Rightarrow> wire) \<Rightarrow> (nat \<Rightarrow> outbox_row \<Rightarrow> exn option) \<Rightarrow> bool" where
  "all_good wire hook \<longleftrightarrow> (\<forall>k row. w_error (wire k row) = None \<and> \<not> w_returned (wire k row) \<and> w_stored (wire k row) \<and>
     hook k row = None)"

lemma publish_rows_good:
  assumes "all_good wire hook"
  shows "publish_rows (wire k) (hook k) ret rows =
    \<lparr>ps_done = map ob_id rows, ps_failed = None, ps_thrown = None, ps_sent = rows, ps_returned = ret\<rparr>"
proof (induction rows)
  case (Cons row rows)
  have "publishRaw True (wire k row) ret = (Inr (), ret)" and "w_stored (wire k row)" "hook k row = None"
    using assms by (simp_all add: all_good_def publishRaw_def)
  with Cons show ?case by (simp add: Let_def)
qed simp

lemma mark_published_Nil [simp]: "mark_published now [] t = t"
  by (simp add: mark_published_def update_where_none)

lemma relayOnce_good:
  assumes "all_good wire hook" "0 \<le> b"
  shows "relayOnce b {} (wire k) (hook k) now ret t =
    (let rows = take (nat b) (in_order (unpublished t))
     in (Inr \<lparr>rp_claimed = length rows, rp_published = length rows, rp_error = None\<rparr>,
         mark_published now (map ob_id rows) t, rows, ret))"
  using assms by (simp add: relayOnce_def publish_rows_good claim_batch_def Let_def)

lemma unpublished_mark: "unpublished (mark_published now ids t) = filter (\<lambda>r. ob_id r \<notin> set ids) (unpublished t)"
  by (induction t) (simp_all add: unpublished_def mark_published_def)

lemma in_order_filter: "in_order (filter P t) = filter P (in_order t)"
  by (simp add: in_order_def filter_sort)

lemma drop_filter:
  assumes "distinct (map f xs)"
  shows "filter (\<lambda>x. f x \<notin> set (map f (take n xs))) xs = drop n xs"
proof -
  have "distinct (map f (take n xs @ drop n xs))" using assms by simp
  then have d: "f ` set (take n xs) \<inter> f ` set (drop n xs) = {}" by (simp only: map_append distinct_append set_map)
  define keep where "keep = (\<lambda>x. f x \<notin> f ` set (take n xs))"
  have "filter keep (take n xs) = []" by (simp add: keep_def)
  moreover have "filter keep (drop n xs) = drop n xs" using d by (intro filter_True) (auto simp: keep_def)
  ultimately have "filter keep (take n xs @ drop n xs) = drop n xs" by (simp only: filter_append append_Nil)
  then show ?thesis by (simp only: append_take_drop_id keep_def set_map)
qed

lemma distinct_in_order: "distinct (map ob_id t) \<Longrightarrow> distinct (map ob_id (in_order t))"
  by (simp add: in_order_def distinct_map)

lemma distinct_unpublished: "distinct (map ob_id t) \<Longrightarrow> distinct (map ob_id (unpublished t))"
  by (simp add: unpublished_def distinct_map_filter)

lemma map_id_mark [simp]: "map ob_id (mark_published now ids t) = map ob_id t"
  by (simp add: mark_published_def map_update_where)

lemma relayUntilEmpty_next:
  assumes "relayOnce b (l k) (wire k) (hook k) (now k) ret t =
      (Inr \<lparr>rp_claimed = c, rp_published = c, rp_error = None\<rparr>, t1, sent, ret1)" "c \<noteq> 0"
    and "relayUntilEmpty fuel b l wire hook now (Suc k) (n + c) ret1 t1 = Some (r, t', sent')"
  shows "relayUntilEmpty (Suc fuel) b l wire hook now k n ret t = Some (r, t', sent @ sent')"
  using assms by simp

text \<open>C17: with a broker that confirms, no concurrent relay and a positive batch size,
  polling until a pass claims nothing terminates after at most one pass per
  pending row plus one; it publishes every pending event exactly once, oldest
  first, returns their number and leaves none unpublished.\<close>

theorem relay_drains:
  assumes good: "all_good wire hook" and b: "0 < b" and d: "distinct (map ob_id t)"
    and fuel: "length (unpublished t) < fuel"
  shows "\<exists>t'. relayUntilEmpty fuel b (\<lambda>_. {}) wire hook now k n ret t =
      Some (Inr (n + length (unpublished t)), t', in_order (unpublished t)) \<and> unpublished t' = []"
  using d fuel
proof (induction fuel arbitrary: k n t)
  case 0
  then show ?case by simp
next
  case (Suc fuel)
  let ?s = "in_order (unpublished t)"
  let ?rows = "take (nat b) ?s"
  let ?t = "mark_published (now k) (map ob_id ?rows) t"
  have once: "relayOnce b {} (wire k) (hook k) (now k) ret t =
      (Inr \<lparr>rp_claimed = length ?rows, rp_published = length ?rows, rp_error = None\<rparr>, ?t, ?rows, ret)"
    using relayOnce_good [OF good, of b] b by (simp add: Let_def)
  have len: "length ?s = length (unpublished t)" by (simp add: in_order_def)
  show ?case
  proof (cases "unpublished t = []")
    case True
    then have "?s = []" by (simp add: in_order_def)
    then show ?thesis using once True by simp
  next
    case False
    then have ne: "?rows \<noteq> []" proof -
      have "?s \<noteq> []" using False len by (metis length_0_conv)
      then show ?thesis using b by (simp only: take_eq_Nil zero_less_nat_eq [symmetric]) simp
    qed
    have rest: "in_order (unpublished ?t) = drop (nat b) ?s"
      unfolding unpublished_mark in_order_filter
      by (rule drop_filter) (intro distinct_in_order distinct_unpublished Suc.prems(1))
    have lt: "length (unpublished ?t) = length (unpublished t) - nat b"
      using arg_cong [OF rest, of length] len by (simp add: in_order_def)
    then have fuel': "length (unpublished ?t) < fuel" using Suc.prems(2) b False by (cases "unpublished t") auto
    have d': "distinct (map ob_id ?t)" using Suc.prems(1) by (simp only: map_id_mark)
    obtain t' where
      t': "relayUntilEmpty fuel b (\<lambda>_. {}) wire hook now (Suc k) (n + length ?rows) ret ?t =
        Some (Inr (n + length ?rows + length (unpublished ?t)), t', in_order (unpublished ?t))" "unpublished t' = []"
      using Suc.IH [of ?t "Suc k" "n + length ?rows", OF d' fuel'] by blast
    have n: "n + length ?rows + length (unpublished ?t) = n + length (unpublished t)" using lt len by simp
    have whole: "?rows @ in_order (unpublished ?t) = ?s" unfolding rest by (rule append_take_drop_id)
    have "length ?rows \<noteq> 0" using ne by (metis length_0_conv)
    from relayUntilEmpty_next [of b "\<lambda>_. {}" k, OF once this t'(1)]
    show ?thesis unfolding whole n using t'(2) by blast
  qed
qed

subsection \<open>The background loop catches up\<close>

lemma relay_tick_rows:
  assumes "confirms_mean_stored wire" "distinct (map ob_id t)"
    and "relay_tick b l wire now ret t = (idle, t', sent, ret')"
  shows "set sent \<subseteq> set (unpublished t)" "list_all2 (row_after sent) t t'"
proof -
  obtain res where "relayOnce b l wire (\<lambda>_. None) now ret t = (res, t', sent, ret')"
    using assms(3) by (auto simp: relay_tick_def split: prod.splits sum.splits)
  from relayOnce_rows [OF assms(1,2) this] show "set sent \<subseteq> set (unpublished t)" "list_all2 (row_after sent) t t'" by simp_all
qed

lemma row_after_keeps:
  assumes "row_after sent r r'"
  shows "ob_id r' = ob_id r" "ob_payload r' = ob_payload r"
    "ob_published_at r' \<noteq> None \<Longrightarrow> ob_published_at r \<noteq> None \<or> r \<in> set sent"
    "ob_published_at r \<noteq> None \<Longrightarrow> ob_published_at r' \<noteq> None"
proof -
  have eq: "r' = r\<lparr>ob_published_at := ob_published_at r', ob_attempts := ob_attempts r'\<rparr>"
    using assms unfolding row_after_def by blast
  show "ob_id r' = ob_id r" "ob_payload r' = ob_payload r" by (subst eq, simp)+
  show "ob_published_at r' \<noteq> None \<Longrightarrow> ob_published_at r \<noteq> None \<or> r \<in> set sent"
    "ob_published_at r \<noteq> None \<Longrightarrow> ob_published_at r' \<noteq> None"
    using assms unfolding row_after_def by auto
qed

lemma rows_after_map:
  "list_all2 (row_after sent) t t' \<Longrightarrow> map ob_id t' = map ob_id t \<and> map ob_payload t' = map ob_payload t"
  by (induction rule: list_all2_induct) (simp_all add: row_after_keeps)

lemma rows_after_unpublished:
  "list_all2 (row_after sent) t t' \<Longrightarrow> length (unpublished t') \<le> length (unpublished t)"
proof (induction rule: list_all2_induct)
  case (Cons r t r' t')
  then show ?case using row_after_keeps(4) [of sent r r'] by (auto simp: unpublished_def)
qed simp

text \<open>With a broker that answers, a tick publishes the oldest rows.\<close>

lemma relay_tick_good:
  assumes good: "all_good (\<lambda>_. wire) (\<lambda>_ _. None)" and b: "0 < b" and d: "distinct (map ob_id t)"
    and tick: "relay_tick b {} wire now ret t = (idle, t', sent, ret')"
  shows "length (unpublished t') \<le> length (unpublished t) - 1" "distinct (map ob_id t')"
proof -
  define rows where "rows = take (nat b) (in_order (unpublished t))"
  have t': "t' = mark_published now (map ob_id rows) t"
    unfolding rows_def using tick relayOnce_good [OF good, of b now ret t] b by (auto simp: relay_tick_def Let_def)
  show "distinct (map ob_id t')" using d by (simp add: t')
  have "in_order (unpublished t') = drop (nat b) (in_order (unpublished t))"
    unfolding t' unpublished_mark in_order_filter rows_def
    by (rule drop_filter) (intro distinct_in_order distinct_unpublished d)
  then have "length (unpublished t') = length (unpublished t) - nat b"
    by (metis in_order_def length_drop length_sort)
  then show "length (unpublished t') \<le> length (unpublished t) - 1" using b by simp
qed

lemma startRelay_good:
  assumes good: "\<And>j. k \<le> j \<Longrightarrow> all_good (\<lambda>_. wire j) (\<lambda>_ _. None)" and free: "\<And>j. k \<le> j \<Longrightarrow> locked j = {}"
    and b: "0 < (case batch of None \<Rightarrow> 50 | Some b \<Rightarrow> b)"
    and d: "distinct (map ob_id t)" and n: "length (unpublished t) \<le> n"
  shows "unpublished (fst (snd (startRelay n batch locked wire now k ret t))) = []"
  using good free d n
proof (induction n arbitrary: k ret t)
  case (Suc n)
  obtain idle t' sent ret' where
    tick: "relay_tick (case batch of None \<Rightarrow> 50 | Some b \<Rightarrow> b) {} (wire k) (now k) ret t = (idle, t', sent, ret')"
    by (metis prod_cases4)
  note g = relay_tick_good [OF Suc.prems(1) [OF order_refl] b Suc.prems(3) tick]
  have "unpublished (fst (snd (startRelay n batch locked wire now (Suc k) ret' t'))) = []"
    using Suc.prems(1,2,4) g by (intro Suc.IH) auto
  then show ?case using Suc.prems(2) [of k] by (simp add: tick case_prod_unfold)
qed simp

text \<open>
  Over several ticks a row keeps its event, and it is marked only if its message was
  among those the broker stored: \<open>same_message r s\<close> says that \<open>s\<close> is the row \<open>r\<close>, with
  perhaps another count of attempts.
\<close>

definition same_message :: "outbox_row \<Rightarrow> outbox_row \<Rightarrow> bool" where
  "same_message r s \<longleftrightarrow> s = r\<lparr>ob_attempts := ob_attempts s\<rparr>"

definition row_run :: "outbox_row list \<Rightarrow> outbox_row \<Rightarrow> outbox_row \<Rightarrow> bool" where
  "row_run sent r r' \<longleftrightarrow> r' = r\<lparr>ob_published_at := ob_published_at r', ob_attempts := ob_attempts r'\<rparr> \<and>
     (ob_published_at r' = ob_published_at r \<or> ob_published_at r = None \<and> (\<exists>s \<in> set sent. same_message r s))"

lemma same_message_refl [simp]: "same_message r r"
  by (simp add: same_message_def)

lemma row_after_pending:
  assumes "row_after sent r r'" "ob_published_at r' = None" "same_message r' s"
  shows "ob_published_at r = None \<and> same_message r s"
proof -
  obtain a where r': "r' = r\<lparr>ob_published_at := None, ob_attempts := a\<rparr>" and none: "ob_published_at r = None"
    using assms(1,2) unfolding row_after_def by metis
  obtain b where "s = r'\<lparr>ob_attempts := b\<rparr>" using assms(3) unfolding same_message_def by metis
  then have "s = r\<lparr>ob_attempts := b\<rparr>" using r' none by (cases r) simp
  with none show ?thesis by (simp add: same_message_def)
qed

lemma row_after_run:
  assumes a: "row_after sent r r'" and b: "row_run sent' r' r''"
  shows "row_run (sent @ sent') r r''"
proof -
  obtain p q x y where "r' = r\<lparr>ob_published_at := p, ob_attempts := x\<rparr>" "r'' = r'\<lparr>ob_published_at := q, ob_attempts := y\<rparr>"
    using a b unfolding row_after_def row_run_def by metis
  then have "r'' = r\<lparr>ob_published_at := ob_published_at r'', ob_attempts := ob_attempts r''\<rparr>" by simp
  moreover have "ob_published_at r'' = ob_published_at r \<or>
      ob_published_at r = None \<and> (\<exists>s \<in> set (sent @ sent'). same_message r s)"
  proof (cases "ob_published_at r'' = ob_published_at r'")
    case True
    have "r \<in> set sent \<Longrightarrow> \<exists>s \<in> set (sent @ sent'). same_message r s"
      by (auto intro: bexI [of _ r])
    then show ?thesis using a True unfolding row_after_def by metis
  next
    case False
    then show ?thesis using b row_after_pending [OF a] by (auto simp: row_run_def)
  qed
  ultimately show ?thesis by (simp add: row_run_def)
qed

lemma startRelay_rows:
  assumes wire: "\<And>j. confirms_mean_stored (wire j)" and d: "distinct (map ob_id t)"
    and run: "startRelay n batch locked wire now k ret t = (idles, t', sent)"
  shows "list_all2 (row_run sent) t t' \<and> (\<forall>s \<in> set sent. \<exists>r \<in> set (unpublished t). same_message r s)"
  using d run
proof (induction n arbitrary: k ret t idles t' sent)
  case 0
  then show ?case by (auto simp: row_run_def list_all2_same)
next
  case (Suc n)
  obtain idle t1 sent1 ret1 where
    tick: "relay_tick (case batch of None \<Rightarrow> 50 | Some b \<Rightarrow> b) (locked k) (wire k) (now k) ret t = (idle, t1, sent1, ret1)"
    by (metis prod_cases4)
  obtain idles2 t2 sent2 where rest: "startRelay n batch locked wire now (Suc k) ret1 t1 = (idles2, t2, sent2)"
    by (metis prod_cases3)
  have out: "t' = t2" "sent = sent1 @ sent2" using Suc.prems(2) by (simp_all add: tick rest)
  note r = relay_tick_rows [OF wire Suc.prems(1) tick]
  have IH: "list_all2 (row_run sent2) t1 t2" "\<forall>s \<in> set sent2. \<exists>r \<in> set (unpublished t1). same_message r s"
    using Suc.IH [OF _ rest] Suc.prems(1) rows_after_map [OF r(2)] by simp_all
  have "list_all2 (row_run sent) t t'"
    unfolding out by (rule list_all2_trans [OF row_after_run r(2) IH(1)])
  moreover have "\<exists>r \<in> set (unpublished t). same_message r s" if s: "s \<in> set sent2" for s
  proof -
    obtain r1 where r1: "r1 \<in> set t1" "ob_published_at r1 = None" "same_message r1 s"
      using IH(2) s by (auto simp: unpublished_def)
    then obtain r0 where "r0 \<in> set t" "row_after sent1 r0 r1"
      using r(2) by (metis in_set_conv_nth list_all2_conv_all_nth)
    then show ?thesis using row_after_pending r1(2,3) by (fastforce simp: unpublished_def)
  qed
  moreover have "\<exists>r \<in> set (unpublished t). same_message r s" if "s \<in> set sent1" for s
    using that r(1) same_message_refl by blast
  ultimately show ?case by (auto simp: out)
qed

text \<open>Whatever the broker and the other relays do meanwhile, no tick makes rows pending again.\<close>

lemma startRelay_ends:
  assumes "\<And>j. confirms_mean_stored (wire j)" and "\<And>j. k + m \<le> j \<Longrightarrow> all_good (\<lambda>_. wire j) (\<lambda>_ _. None)"
    and "\<And>j. k + m \<le> j \<Longrightarrow> locked j = {}" and b: "0 < (case batch of None \<Rightarrow> 50 | Some b \<Rightarrow> b)"
    and "distinct (map ob_id t)" "length (unpublished t) \<le> n"
  shows "unpublished (fst (snd (startRelay (m + n) batch locked wire now k ret t))) = []"
  using assms(2,3,5,6)
proof (induction m arbitrary: k ret t)
  case 0
  then show ?case using startRelay_good [OF _ _ b, of k wire locked t n] by simp
next
  case (Suc m)
  obtain idle t' sent ret' where
    tick: "relay_tick (case batch of None \<Rightarrow> 50 | Some b \<Rightarrow> b) (locked k) (wire k) (now k) ret t = (idle, t', sent, ret')"
    by (metis prod_cases4)
  note r = relay_tick_rows [OF assms(1) Suc.prems(3) tick]
  have "unpublished (fst (snd (startRelay (m + n) batch locked wire now (Suc k) ret' t'))) = []"
    using Suc.prems rows_after_unpublished [OF r(2)] rows_after_map [OF r(2)] by (intro Suc.IH) auto
  then show ?case by (simp add: tick case_prod_unfold)
qed

text \<open>C18: the background relay catches up.  Whatever the broker does during the first
  \<open>m\<close> ticks (nacks, returns, lost connections, so long as a clean confirm means
  stored) and whichever rows a concurrent relay that never commits holds meanwhile,
  the loop survives it; once the broker answers and no other relay holds a row, one
  tick per row that was pending suffices: the broker has then stored the message of
  every row that was pending, and nothing else, every row is marked, and no row has
  lost its event.  The table gets no new rows meanwhile.\<close>

theorem background_relay_catches_up:
  assumes "\<And>j. confirms_mean_stored (wire j)" and "\<And>j. k + m \<le> j \<Longrightarrow> all_good (\<lambda>_. wire j) (\<lambda>_ _. None)"
    and "\<And>j. k + m \<le> j \<Longrightarrow> locked j = {}"
    and "0 < (case batch of None \<Rightarrow> 50 | Some b \<Rightarrow> b)" and "distinct (map ob_id t)"
    and run: "startRelay (m + length (unpublished t)) batch locked wire now k ret t = (idles, t', sent)"
  shows "(\<forall>r \<in> set (unpublished t). \<exists>s \<in> set sent. s = r\<lparr>ob_attempts := ob_attempts s\<rparr>) \<and>
    (\<forall>s \<in> set sent. \<exists>r \<in> set (unpublished t). s = r\<lparr>ob_attempts := ob_attempts s\<rparr>) \<and>
    unpublished t' = [] \<and>
    list_all2 (\<lambda>r r'. r' = r\<lparr>ob_published_at := ob_published_at r', ob_attempts := ob_attempts r'\<rparr>) t t'"
proof -
  have none: "unpublished t' = []"
    using startRelay_ends [where wire = wire and locked = locked and k = k and m = m and now = now and ret = ret, OF assms(1-5) order_refl]
    by (simp add: run)
  note rows = startRelay_rows [OF assms(1,5) run]
  have "\<exists>s \<in> set sent. same_message r s" if r: "r \<in> set (unpublished t)" for r
  proof -
    have "r \<in> set t" "ob_published_at r = None" using r by (auto simp: unpublished_def)
    then obtain r' where r': "r' \<in> set t'" "row_run sent r r'"
      using rows by (metis in_set_conv_nth list_all2_conv_all_nth)
    then have "ob_published_at r' \<noteq> None" using none by (auto simp: unpublished_def filter_empty_conv)
    then show ?thesis using r'(2) \<open>ob_published_at r = None\<close> by (auto simp: row_run_def)
  qed
  moreover have "list_all2 (\<lambda>r r'. r' = r\<lparr>ob_published_at := ob_published_at r', ob_attempts := ob_attempts r'\<rparr>) t t'"
    using rows by (auto simp: row_run_def elim: list_all2_mono)
  ultimately show ?thesis using none rows unfolding same_message_def by blast
qed

subsection \<open>Witnesses\<close>

definition good_wire :: wire where
  "good_wire = \<lparr>w_stored = True, w_returned = False, w_error = None\<rparr>"

definition pending_row :: outbox_row where
  "pending_row = \<lparr>ob_id = ''r1'', ob_aggregate_type = ''Order'', ob_aggregate_id = ''1'', ob_type = ''order.placed'',
     ob_payload = JNull, ob_created_at = 1, ob_published_at = None, ob_attempts = 0\<rparr>"

lemma pending_in_order [simp]: "in_order [pending_row] = [pending_row]" "unpublished [pending_row] = [pending_row]"
  by (simp_all add: in_order_def unpublished_def pending_row_def)

theorem marked_means_sent_witness:
  "pending_row \<in> set (fst (snd (snd (relayOnce 50 {} (\<lambda>_. good_wire) (\<lambda>_. None) 7 0 [pending_row]))))"
proof -
  let ?r = "relayOnce 50 {} (\<lambda>_. good_wire) (\<lambda>_. None) 7 0 [pending_row]"
  have good: "all_good (\<lambda>_ _. good_wire) (\<lambda>_ _. None)" by (simp add: all_good_def good_wire_def)
  have r: "?r = (Inr \<lparr>rp_claimed = 1, rp_published = 1, rp_error = None\<rparr>,
      [pending_row\<lparr>ob_published_at := Some 7, ob_attempts := 1\<rparr>], [pending_row], 0)"
    using relayOnce_good [OF good, where b = 50 and t = "[pending_row]" and now = 7 and ret = 0]
    by (simp add: Let_def mark_published_def) (simp add: pending_row_def)
  have "confirms_mean_stored (\<lambda>_. good_wire)" by (simp add: confirms_mean_stored_def good_wire_def)
  from marked_means_sent [OF this _ r, of 0] show ?thesis unfolding r by (simp add: pending_row_def)
qed

theorem relay_drains_witness:
  "\<exists>t'. relayUntilEmpty 2 1 (\<lambda>_. {}) (\<lambda>_ _. good_wire) (\<lambda>_ _. None) (\<lambda>_. 7) 0 0 0 [pending_row] =
     Some (Inr 1, t', [pending_row]) \<and> unpublished t' = []"
proof -
  have good: "all_good (\<lambda>_ _. good_wire) (\<lambda>_ _. None)" by (simp add: all_good_def good_wire_def)
  show ?thesis using relay_drains [OF good, where b = 1 and t = "[pending_row]" and fuel = 2 and n = 0] by simp
qed

definition flaky_wire :: "nat \<Rightarrow> outbox_row \<Rightarrow> wire" where
  "flaky_wire j row = (if j = 0 then good_wire\<lparr>w_stored := False, w_error := Some (Error ''nack'')\<rparr> else good_wire)"

theorem background_relay_catches_up_witness:
  "\<exists>idles t' s. startRelay 2 None (\<lambda>_. {}) flaky_wire (\<lambda>_. 7) 0 0 [pending_row] = (idles, t', s) \<and>
     unpublished t' = [] \<and> (\<exists>m \<in> set s. ob_id m = ''r1'')"
proof -
  have stored: "confirms_mean_stored (flaky_wire j)" for j by (simp add: confirms_mean_stored_def flaky_wire_def good_wire_def)
  have good: "all_good (\<lambda>_. flaky_wire j) (\<lambda>_ _. None)" if "0 + 1 \<le> j" for j
    using that by (simp add: all_good_def flaky_wire_def good_wire_def)
  obtain idles t' s where
    run: "startRelay (1 + length (unpublished [pending_row])) None (\<lambda>_. {}) flaky_wire (\<lambda>_. 7) 0 0 [pending_row] = (idles, t', s)"
    by (metis prod_cases3)
  have "unpublished t' = [] \<and> (\<forall>r \<in> set (unpublished [pending_row]). \<exists>m \<in> set s. m = r\<lparr>ob_attempts := ob_attempts m\<rparr>)"
    using background_relay_catches_up [OF stored good _ _ _ run] by fastforce
  then have "unpublished t' = []" "\<exists>m \<in> set s. m = pending_row\<lparr>ob_attempts := ob_attempts m\<rparr>"
    by simp_all
  moreover have "ob_id m = ''r1''" if "m = pending_row\<lparr>ob_attempts := ob_attempts m\<rparr>" for m
    by (subst that) (simp add: pending_row_def)
  ultimately show ?thesis
    using run by (simp only: pending_in_order list.size add_0 add_Suc add_0_right numeral_2_eq_2 One_nat_def) blast
qed

end
