(* ===== verification/Inbox.thy ===== *)
theory Inbox
  imports Events
begin

text \<open>
  The consumer of \<open>order.placed\<close>: \<open>src/messaging/consumer.ts\<close> over the tables of
  \<open>src/migrations/1789400000000-OrderReceipts.ts\<close> and
  \<open>src/migrations/1789500000000-Outbox.ts\<close>, and the work queue it reads, as
  \<open>src/messaging/topology.ts\<close> declares it: acknowledged by hand, a rejected
  message dead-lettered, a requeued one delivered again until the delivery
  limit, a message whose consumer dies delivered again.
\<close>

subsection \<open>Inbox and effect, in one transaction\<close>

record receipt_row =
  rc_event_id :: string
  rc_order_id :: string
  rc_buyer_id :: string
  rc_total :: rat

record inbox_db =
  processed_messages :: "(string \<times> string) list"
  order_receipts :: "receipt_row list"

definition CONSUMER_NAME :: string where
  "CONSUMER_NAME = ''order-receipts''"

text \<open>The value of a \<open>uuid\<close> column for a UUID in text.\<close>

definition uuid_value :: "string \<Rightarrow> string" where
  "uuid_value s = map ascii_lower s"

definition message_key :: "order_placed \<Rightarrow> string \<times> string" where
  "message_key e = (uuid_value (op_eventId e), CONSUMER_NAME)"

text \<open>
  \<open>order_receipts\<close> has two unique keys, \<open>event_id\<close> and \<open>order_id\<close>: a conflict on
  either inserts nothing.
\<close>

definition insert_receipt :: "receipt_row \<Rightarrow> receipt_row list \<Rightarrow> bool \<times> receipt_row list" where
  "insert_receipt r t =
     (if rc_event_id r \<in> rc_event_id ` set t \<or> rc_order_id r \<in> rc_order_id ` set t then (False, t)
      else (True, t @ [r]))"

definition applyOrderPlaced :: "order_placed \<Rightarrow> inbox_db \<Rightarrow> bool res \<times> inbox_db" where
  "applyOrderPlaced e db =
     (case insert_on_conflict id (message_key e) (processed_messages db) of
        (False, _) \<Rightarrow> (Inr False, db)
      | (True, seen) \<Rightarrow>
          (case numeric122 (js_decimal (od_totalAmount (op_data e))) of
             Inl err \<Rightarrow> (Inl err, db)
           | Inr amt \<Rightarrow>
               (let r = insert_receipt \<lparr>rc_event_id = uuid_value (op_eventId e), rc_order_id = od_orderId (op_data e),
                          rc_buyer_id = od_buyerId (op_data e), rc_total = amt\<rparr> (order_receipts db)
                in (Inr (fst r), \<lparr>processed_messages = seen, order_receipts = snd r\<rparr>))))"

subsection \<open>One delivery\<close>

record consumer_stats =
  delivered :: nat
  applied :: nat
  skipped :: nat
  acked :: nat
  rejected :: nat

datatype verdict = Ack | Reject bool

text \<open>
  \<open>content\<close> is the JSON value of the body (\<open>None\<close> if it is not JSON); \<open>outage\<close> is
  the error of a database that is not available.
\<close>

definition handle ::
    "schema_lib \<Rightarrow> exn option \<Rightarrow> json option \<Rightarrow> consumer_stats \<times> inbox_db \<Rightarrow> verdict \<times> consumer_stats \<times> inbox_db" where
  "handle lib outage content s =
     (let st = (fst s)\<lparr>delivered := delivered (fst s) + 1\<rparr>; db = snd s in
      case Option.bind content (OrderPlacedSchema lib) of
        None \<Rightarrow> (Reject False, st\<lparr>rejected := rejected st + 1\<rparr>, db)
      | Some event \<Rightarrow>
          (case (case outage of None \<Rightarrow> applyOrderPlaced event db | Some e \<Rightarrow> (Inl e, db)) of
             (Inl e, _) \<Rightarrow> (Reject True, st, db)
           | (Inr True, db') \<Rightarrow> (Ack, st\<lparr>applied := applied st + 1, acked := acked st + 1\<rparr>, db')
           | (Inr False, db') \<Rightarrow> (Ack, st\<lparr>skipped := skipped st + 1, acked := acked st + 1\<rparr>, db')))"

subsection \<open>Applying an event twice\<close>

lemma insert_receipt_mono: "set t \<subseteq> set (snd (insert_receipt r t))"
  by (auto simp: insert_receipt_def)

lemma apply_Inr:
  assumes "applyOrderPlaced e db = (Inr b, db')"
  shows "message_key e \<in> set (processed_messages db')" "set (processed_messages db) \<subseteq> set (processed_messages db')"
    "set (order_receipts db) \<subseteq> set (order_receipts db')"
proof -
  show "message_key e \<in> set (processed_messages db')"
    using assms conflict.ins_result [of id "message_key e" "processed_messages db"]
      conflict.ins_keys [of id "message_key e" "processed_messages db"]
    by (auto simp: applyOrderPlaced_def Let_def split: prod.splits bool.splits sum.splits)
  show "set (processed_messages db) \<subseteq> set (processed_messages db')"
    using assms conflict.ins_mono [of "processed_messages db" id "message_key e"]
    by (auto simp: applyOrderPlaced_def Let_def split: prod.splits bool.splits sum.splits)
  show "set (order_receipts db) \<subseteq> set (order_receipts db')"
    using assms insert_receipt_mono
    by (fastforce simp: applyOrderPlaced_def Let_def split: prod.splits bool.splits sum.splits)
qed

lemma apply_seen: "message_key e \<in> set (processed_messages db) \<Longrightarrow> applyOrderPlaced e db = (Inr False, db)"
  using conflict.ins_dup [of id "message_key e" "processed_messages db"]
  by (simp add: applyOrderPlaced_def)

subsection \<open>Receipts\<close>

definition inbox_ok :: "inbox_db \<Rightarrow> bool" where
  "inbox_ok db \<longleftrightarrow> distinct (processed_messages db) \<and>
     distinct (map rc_event_id (order_receipts db)) \<and> distinct (map rc_order_id (order_receipts db)) \<and>
     (\<forall>r \<in> set (order_receipts db). (rc_event_id r, CONSUMER_NAME) \<in> set (processed_messages db))"

lemma apply_ok [inv_intros]:
  assumes ok: "inbox_ok db" shows "inbox_ok (snd (applyOrderPlaced e db))"
proof -
  let ?k = "message_key e" and ?t = "processed_messages db"
  have d: "distinct (snd (insert_on_conflict id ?k ?t))"
    using conflict.ins_distinct [of id ?t ?k] ok by (simp add: inbox_ok_def)
  have m: "set (snd (insert_on_conflict id ?k ?t)) = insert ?k (set ?t)"
    using conflict.ins_keys [of id ?k ?t] by simp
  show ?thesis
    using ok d m
    by (cases "insert_on_conflict id ?k ?t"; cases "fst (insert_on_conflict id ?k ?t)";
        cases "numeric122 (js_decimal (od_totalAmount (op_data e)))")
      (auto simp: applyOrderPlaced_def inbox_ok_def insert_receipt_def message_key_def Let_def)
qed

subsection \<open>The work queue\<close>

record message =
  m_content :: "json option"
  m_count :: nat

definition DELIVERY_LIMIT :: nat where "DELIVERY_LIMIT = 5"

record consumer_system =
  cs_stats :: consumer_stats
  cs_db :: inbox_db
  cs_work :: "message list"
  cs_dlq :: "message list"
  cs_sent :: "json option list"

definition fresh_stats :: consumer_stats where
  "fresh_stats = \<lparr>delivered = 0, applied = 0, skipped = 0, acked = 0, rejected = 0\<rparr>"

text \<open>
  What the queue does with message \<open>m\<close>, taken from between \<open>xs\<close> and \<open>ys\<close>: an
  ack removes it, a reject without requeue dead-letters it, a requeue puts it
  back unless it has been returned more often than the limit.
\<close>

definition requeue :: "message \<Rightarrow> message list \<Rightarrow> message list \<Rightarrow> consumer_system \<Rightarrow> consumer_system" where
  "requeue m xs ys s =
     (if DELIVERY_LIMIT < Suc (m_count m) then s\<lparr>cs_work := xs @ ys, cs_dlq := cs_dlq s @ [m]\<rparr>
      else s\<lparr>cs_work := xs @ m\<lparr>m_count := Suc (m_count m)\<rparr> # ys\<rparr>)"

fun settle :: "verdict \<Rightarrow> message \<Rightarrow> message list \<Rightarrow> message list \<Rightarrow> consumer_system \<Rightarrow> consumer_system" where
  "settle Ack m xs ys s = s\<lparr>cs_work := xs @ ys\<rparr>"
| "settle (Reject False) m xs ys s = s\<lparr>cs_work := xs @ ys, cs_dlq := cs_dlq s @ [m]\<rparr>"
| "settle (Reject True) m xs ys s = requeue m xs ys s"

text \<open>
  Publishing (of anything, by anybody, duplicates included), a delivery, and the
  death of the consumer process before or after its transaction committed but
  before the broker got the ack.
\<close>

inductive consumer_step :: "schema_lib \<Rightarrow> consumer_system \<Rightarrow> consumer_system \<Rightarrow> bool" for lib where
  publish: "consumer_step lib s (s\<lparr>cs_work := cs_work s @ [\<lparr>m_content = c, m_count = 0\<rparr>], cs_sent := c # cs_sent s\<rparr>)"
| deliver: "cs_work s = xs @ m # ys \<Longrightarrow> handle lib outage (m_content m) (cs_stats s, cs_db s) = (v, st, db) \<Longrightarrow>
    consumer_step lib s (settle v m xs ys (s\<lparr>cs_stats := st, cs_db := db\<rparr>))"
| die: "cs_work s = xs @ m # ys \<Longrightarrow> handle lib outage (m_content m) (cs_stats s, cs_db s) = (v, st, db) \<Longrightarrow>
    db' \<in> {cs_db s, db} \<Longrightarrow> consumer_step lib s (requeue m xs ys (s\<lparr>cs_stats := fresh_stats, cs_db := db'\<rparr>))"

inductive consumer_run :: "schema_lib \<Rightarrow> consumer_system \<Rightarrow> bool" for lib where
  run_start: "consumer_run lib \<lparr>cs_stats = fresh_stats, cs_db = \<lparr>processed_messages = [], order_receipts = []\<rparr>,
      cs_work = [], cs_dlq = [], cs_sent = []\<rparr>"
| run_step: "consumer_run lib s \<Longrightarrow> consumer_step lib s s' \<Longrightarrow> consumer_run lib s'"

subsection \<open>At least once becomes exactly once\<close>

text \<open>A message is accounted for if it is queued, dead-lettered, or its event was processed.\<close>

definition accounted :: "schema_lib \<Rightarrow> consumer_system \<Rightarrow> json option \<Rightarrow> bool" where
  "accounted lib s c \<longleftrightarrow> c \<in> m_content ` set (cs_work s) \<or> c \<in> m_content ` set (cs_dlq s) \<or>
     (\<exists>e. Option.bind c (OrderPlacedSchema lib) = Some e \<and> message_key e \<in> set (processed_messages (cs_db s)))"

definition from_sent :: "schema_lib \<Rightarrow> consumer_system \<Rightarrow> receipt_row \<Rightarrow> bool" where
  "from_sent lib s r \<longleftrightarrow> (\<exists>c \<in> set (cs_sent s). \<exists>e. Option.bind c (OrderPlacedSchema lib) = Some e \<and>
     rc_event_id r = uuid_value (op_eventId e) \<and> rc_order_id r = od_orderId (op_data e) \<and>
     rc_buyer_id r = od_buyerId (op_data e) \<and> rc_total r = round2 (js_decimal (od_totalAmount (op_data e))))"

definition consumer_ok :: "schema_lib \<Rightarrow> consumer_system \<Rightarrow> bool" where
  "consumer_ok lib s \<longleftrightarrow> inbox_ok (cs_db s) \<and> (\<forall>c \<in> set (cs_sent s). accounted lib s c) \<and>
     (\<forall>r \<in> set (order_receipts (cs_db s)). from_sent lib s r) \<and>
     m_content ` set (cs_work s) \<subseteq> set (cs_sent s)"

lemma apply_receipts:
  assumes "applyOrderPlaced e db = (res, db')" "r \<in> set (order_receipts db')"
  shows "r \<in> set (order_receipts db) \<or>
    r = \<lparr>rc_event_id = uuid_value (op_eventId e), rc_order_id = od_orderId (op_data e),
         rc_buyer_id = od_buyerId (op_data e), rc_total = round2 (js_decimal (od_totalAmount (op_data e)))\<rparr>"
  using assms
  by (auto simp: applyOrderPlaced_def insert_receipt_def numeric122_def Let_def
      split: prod.splits bool.splits sum.splits if_splits)

lemma apply_Inl: "applyOrderPlaced e db = (Inl err, db') \<Longrightarrow> db' = db"
  by (auto simp: applyOrderPlaced_def Let_def split: prod.splits bool.splits sum.splits)

text \<open>What a delivery can do to the database, by verdict.\<close>

lemma handle_cases [consumes 1, case_names poison failed finished]:
  assumes "handle lib outage c (st0, db) = (v, st, db')"
  obtains (poison) "v = Reject False" "Option.bind c (OrderPlacedSchema lib) = None" "db' = db"
  | (failed) "v = Reject True" "db' = db"
  | (finished) e b where "v = Ack" "Option.bind c (OrderPlacedSchema lib) = Some e" "applyOrderPlaced e db = (Inr b, db')"
proof (cases "Option.bind c (OrderPlacedSchema lib)")
  case None
  then show ?thesis using assms poison by (simp add: handle_def Let_def)
next
  case (Some e)
  show ?thesis
  proof (cases "(case outage of None \<Rightarrow> applyOrderPlaced e db | Some err \<Rightarrow> (Inl err, db))")
    case (Pair res db1)
    show ?thesis
    proof (cases res)
      case (Inl err)
      then show ?thesis using assms failed Some Pair by (simp add: handle_def Let_def)
    next
      case (Inr b)
      then have "applyOrderPlaced e db = (Inr b, db1)" using Pair by (cases outage) simp_all
      then show ?thesis
        using assms finished Some Pair Inr by (cases b) (simp_all add: handle_def Let_def)
    qed
  qed
qed

lemma handle_db:
  assumes "handle lib outage c (st0, db) = (v, st, db')" "inbox_ok db"
  shows "inbox_ok db'" "set (processed_messages db) \<subseteq> set (processed_messages db')"
    "v = Ack \<Longrightarrow> \<exists>e. Option.bind c (OrderPlacedSchema lib) = Some e \<and> message_key e \<in> set (processed_messages db')"
    "r \<in> set (order_receipts db') \<Longrightarrow> r \<in> set (order_receipts db) \<or>
      (\<exists>e. Option.bind c (OrderPlacedSchema lib) = Some e \<and> rc_event_id r = uuid_value (op_eventId e) \<and>
        rc_order_id r = od_orderId (op_data e) \<and> rc_buyer_id r = od_buyerId (op_data e) \<and>
        rc_total r = round2 (js_decimal (od_totalAmount (op_data e))))"
proof -
  have "inbox_ok db' \<and> set (processed_messages db) \<subseteq> set (processed_messages db') \<and>
    (v = Ack \<longrightarrow> (\<exists>e. Option.bind c (OrderPlacedSchema lib) = Some e \<and> message_key e \<in> set (processed_messages db')))"
    using assms(1)
  proof (cases rule: handle_cases)
    case (finished e b)
    then show ?thesis using apply_Inr [OF finished(3)] apply_ok [OF assms(2), of e] by simp
  qed (use assms(2) in simp_all)
  then show "inbox_ok db'" "set (processed_messages db) \<subseteq> set (processed_messages db')"
    "v = Ack \<Longrightarrow> \<exists>e. Option.bind c (OrderPlacedSchema lib) = Some e \<and> message_key e \<in> set (processed_messages db')"
    by blast+
  show "r \<in> set (order_receipts db') \<Longrightarrow> r \<in> set (order_receipts db) \<or>
      (\<exists>e. Option.bind c (OrderPlacedSchema lib) = Some e \<and> rc_event_id r = uuid_value (op_eventId e) \<and>
        rc_order_id r = od_orderId (op_data e) \<and> rc_buyer_id r = od_buyerId (op_data e) \<and>
        rc_total r = round2 (js_decimal (od_totalAmount (op_data e))))"
    using assms(1)
  proof (cases rule: handle_cases)
    case (finished e b)
    then show "r \<in> set (order_receipts db') \<Longrightarrow> ?thesis" using apply_receipts [OF finished(3), of r] by auto
  qed simp_all
qed

lemma accounted_mono:
  assumes "accounted lib s c"
    and "set (processed_messages (cs_db s)) \<subseteq> set (processed_messages (cs_db s'))"
    and "m_content ` set (cs_work s) \<union> m_content ` set (cs_dlq s) \<subseteq> m_content ` set (cs_work s') \<union> m_content ` set (cs_dlq s')"
  shows "accounted lib s' c"
  using assms unfolding accounted_def by blast

text \<open>Taking \<open>m\<close> from the queue keeps the invariant if \<open>m\<close> itself stays accounted for.\<close>

lemma consumer_ok_taken:
  assumes ok: "consumer_ok lib s" and w: "cs_work s = xs @ m # ys"
    and db: "handle lib outage (m_content m) (st0, cs_db s) = (v, st, db')" "db'' \<in> {cs_db s, db'}"
    and s': "cs_db s' = db''" "cs_sent s' = cs_sent s"
    and q: "m_content ` set (xs @ ys) \<subseteq> m_content ` set (cs_work s')"
      "m_content ` set (cs_work s') \<subseteq> m_content ` set (cs_work s)" "set (cs_dlq s) \<subseteq> set (cs_dlq s')"
    and m: "accounted lib s' (m_content m)"
  shows "consumer_ok lib s'"
proof -
  have iok: "inbox_ok (cs_db s)" using ok by (simp add: consumer_ok_def)
  note H = handle_db [OF db(1) iok]
  have mono: "set (processed_messages (cs_db s)) \<subseteq> set (processed_messages (cs_db s'))"
    using H(2) db(2) s' by auto
  have "inbox_ok (cs_db s')" using H(1) iok db(2) s' by auto
  moreover have "accounted lib s' c" if c: "c \<in> set (cs_sent s)" for c
  proof (cases "c = m_content m")
    case False
    have "accounted lib s c" using ok c by (simp add: consumer_ok_def)
    with False mono q w show ?thesis unfolding accounted_def by auto
  qed (use m in simp)
  moreover have "from_sent lib s' r" if r: "r \<in> set (order_receipts (cs_db s'))" for r
  proof -
    have "m_content m \<in> set (cs_sent s)" using ok w by (auto simp: consumer_ok_def)
    moreover have "r \<in> set (order_receipts (cs_db s)) \<or> r \<in> set (order_receipts db')" using r db(2) s' by auto
    moreover have "\<forall>x \<in> set (order_receipts (cs_db s)). from_sent lib s x" using ok by (simp add: consumer_ok_def)
    ultimately show ?thesis using H(4) s' unfolding from_sent_def by metis
  qed
  moreover have "m_content ` set (cs_work s') \<subseteq> set (cs_sent s')"
    using ok order_trans [OF q(2)] s'(2) by (simp add: consumer_ok_def)
  ultimately show ?thesis by (simp add: consumer_ok_def s'(2))
qed

lemma requeue_simps [simp]:
  "cs_db (requeue m xs ys s) = cs_db s" "cs_sent (requeue m xs ys s) = cs_sent s"
  by (simp_all add: requeue_def)

lemma consumer_ok_requeue:
  assumes ok: "consumer_ok lib s" and w: "cs_work s = xs @ m # ys"
    and h: "handle lib outage (m_content m) (st0, cs_db s) = (v, st, db')" "db'' \<in> {cs_db s, db'}"
  shows "consumer_ok lib (requeue m xs ys (s\<lparr>cs_stats := st', cs_db := db''\<rparr>))"
  by (rule consumer_ok_taken [OF ok w h]) (auto simp: requeue_def accounted_def w)

lemma consumer_ok_settle:
  assumes ok: "consumer_ok lib s" and w: "cs_work s = xs @ m # ys"
    and h: "handle lib outage (m_content m) (st0, cs_db s) = (v, st, db')"
  shows "consumer_ok lib (settle v m xs ys (s\<lparr>cs_stats := st', cs_db := db'\<rparr>))"
proof (cases v)
  case Ack
  then have "\<exists>e. Option.bind (m_content m) (OrderPlacedSchema lib) = Some e \<and> message_key e \<in> set (processed_messages db')"
    using handle_db(3) [OF h] ok by (simp add: consumer_ok_def)
  then show ?thesis
    unfolding Ack by (intro consumer_ok_taken [OF ok w h, of db']) (auto simp: accounted_def w)
next
  case (Reject b)
  show ?thesis
  proof (cases b)
    case True
    then show ?thesis using consumer_ok_requeue [OF ok w h, of db'] Reject by simp
  next
    case False
    then show ?thesis unfolding Reject
      by (intro consumer_ok_taken [OF ok w h, of db']) (auto simp: accounted_def w)
  qed
qed

lemma consumer_ok_step [inv_intros]:
  assumes step: "consumer_step lib s s'" and ok: "consumer_ok lib s"
  shows "consumer_ok lib s'"
  using step
proof (cases rule: consumer_step.cases)
  case (publish c)
  note s' = publish
  have "from_sent lib s' r" if "r \<in> set (order_receipts (cs_db s))" for r
  proof -
    have "from_sent lib s r" using ok that by (simp add: consumer_ok_def)
    then show "from_sent lib s' r" unfolding from_sent_def s' by auto
  qed
  moreover have "accounted lib s' x" if "x \<in> set (cs_sent s)" for x
  proof -
    have "accounted lib s x" using ok that by (simp add: consumer_ok_def)
    then show "accounted lib s' x" by (rule accounted_mono) (auto simp: s')
  qed
  moreover have "accounted lib s' c" by (simp add: accounted_def s')
  moreover have "inbox_ok (cs_db s)" "m_content ` set (cs_work s) \<subseteq> set (cs_sent s)" using ok by (simp_all add: consumer_ok_def)
  moreover have "cs_db s' = cs_db s" "cs_sent s' = c # cs_sent s" "m_content ` set (cs_work s') = insert c (m_content ` set (cs_work s))"
    by (simp_all add: s')
  ultimately show ?thesis unfolding consumer_ok_def by auto
next
  case (deliver xs m ys outage v st db)
  then show ?thesis using consumer_ok_settle [OF ok] by blast
next
  case (die xs m ys outage v st db db')
  show ?thesis unfolding die(1) by (rule consumer_ok_requeue [OF ok die(2-4)])
qed

lemma consumer_run_ok: "consumer_run lib s \<Longrightarrow> consumer_ok lib s"
proof (induction rule: consumer_run.induct)
  case run_start
  then show ?case by (simp add: consumer_ok_def inbox_ok_def)
next
  case (run_step s s')
  then show ?case using consumer_ok_step by blast
qed

text \<open>C19: whatever is published, in whatever order messages are delivered,
  redelivered, and consumers crash, before or after their commit, there is at
  most one receipt per order and per event, and each receipt is that of an
  event that was really published, with its amount in cents.\<close>

theorem at_most_one_receipt:
  assumes "consumer_run lib s"
  shows "distinct (map rc_order_id (order_receipts (cs_db s))) \<and> distinct (map rc_event_id (order_receipts (cs_db s))) \<and>
    (\<forall>r \<in> set (order_receipts (cs_db s)). from_sent lib s r)"
  using consumer_run_ok [OF assms] by (simp add: consumer_ok_def inbox_ok_def)

text \<open>C20: no published message gets lost: it is in the work queue, in the
  dead-letter queue, or its event is marked processed; so once both queues
  are empty every published event was processed.\<close>

theorem nothing_lost:
  assumes "consumer_run lib s" "c \<in> set (cs_sent s)"
  shows "c \<in> m_content ` (set (cs_work s) \<union> set (cs_dlq s)) \<or>
    (\<exists>e. Option.bind c (OrderPlacedSchema lib) = Some e \<and> message_key e \<in> set (processed_messages (cs_db s)))"
  using consumer_run_ok [OF assms(1)] assms(2) by (auto simp: consumer_ok_def accounted_def)

text \<open>A message that is not JSON or does not fit the contract is dead-lettered
  at its first delivery and touches neither the inbox nor the receipts; an
  outage of the database gives the message back and changes nothing; a
  duplicate is acknowledged and changes nothing.\<close>

theorem bad_deliveries_change_nothing:
  "(Option.bind c (OrderPlacedSchema lib) = None \<longrightarrow>
      handle lib outage c (st, db) = (Reject False, st\<lparr>delivered := delivered st + 1, rejected := rejected st + 1\<rparr>, db)) \<and>
   (Option.bind c (OrderPlacedSchema lib) = Some e \<longrightarrow>
      handle lib (Some err) c (st, db) = (Reject True, st\<lparr>delivered := delivered st + 1\<rparr>, db)) \<and>
   (Option.bind c (OrderPlacedSchema lib) = Some e \<longrightarrow> message_key e \<in> set (processed_messages db) \<longrightarrow>
      handle lib None c (st, db) =
        (Ack, st\<lparr>delivered := delivered st + 1, skipped := skipped st + 1, acked := acked st + 1\<rparr>, db))"
  by (simp add: handle_def Let_def apply_seen)

subsection \<open>Instances\<close>

definition example_event :: order_placed where
  "example_event = \<lparr>op_eventId = ''00000000-0000-5000-8000-000000000000'', op_type = ''order.placed'',
     op_occurredAt = ''2026-08-01T10:00:00.000Z'',
     op_data = \<lparr>od_orderId = ''1'', od_buyerId = ''7'', od_productId = ''3'', od_quantity = 2, od_totalAmount = 2\<rparr>\<rparr>"

definition example_consumer :: "json option list \<Rightarrow> inbox_db \<Rightarrow> consumer_system" where
  "example_consumer cs db = \<lparr>cs_stats = fresh_stats, cs_db = db, cs_work = map (\<lambda>c. \<lparr>m_content = c, m_count = 0\<rparr>) cs,
     cs_dlq = [], cs_sent = cs\<rparr>"

lemma example_parse: "OrderPlacedSchema example_schema (event_json example_event) = Some example_event"
proof -
  have u: "uuid_shape ''00000000-0000-5000-8000-000000000000''" by code_simp
  show ?thesis
    by (rule parse_event_json [where q = 2]) (simp_all add: example_schema_def example_event_def u)
qed

definition example_published :: consumer_system where
  "example_published = example_consumer [Some (event_json example_event)] \<lparr>processed_messages = [], order_receipts = []\<rparr>"

lemma example_published_run: "consumer_run example_schema example_published"
  using consumer_run.run_step [OF consumer_run.run_start consumer_step.publish, of example_schema "Some (event_json example_event)"]
  by (simp add: example_published_def example_consumer_def)

theorem nothing_lost_witness:
  "Some (event_json example_event) \<in> m_content ` (set (cs_work example_published) \<union> set (cs_dlq example_published)) \<or>
    (\<exists>e. OrderPlacedSchema example_schema (event_json example_event) = Some e \<and>
      message_key e \<in> set (processed_messages (cs_db example_published)))"
  using nothing_lost [OF example_published_run, of "Some (event_json example_event)"]
  by (simp add: example_published_def example_consumer_def)

text \<open>One delivery later.\<close>

definition example_delivered :: consumer_system where
  "example_delivered = settle Ack \<lparr>m_content = Some (event_json example_event), m_count = 0\<rparr> [] []
     (example_published\<lparr>cs_stats := \<lparr>delivered = 1, applied = 1, skipped = 0, acked = 1, rejected = 0\<rparr>,
        cs_db := snd (applyOrderPlaced example_event \<lparr>processed_messages = [], order_receipts = []\<rparr>)\<rparr>)"

lemma handle_applied:
  assumes "OrderPlacedSchema lib j = Some e" "applyOrderPlaced e db = (Inr True, db')"
  shows "handle lib None (Some j) (st, db) =
    (Ack, st\<lparr>delivered := delivered st + 1, applied := applied st + 1, acked := acked st + 1\<rparr>, db')"
  using assms by (simp add: handle_def Let_def)

lemma example_apply:
  "applyOrderPlaced example_event \<lparr>processed_messages = [], order_receipts = []\<rparr> =
     (Inr True, snd (applyOrderPlaced example_event \<lparr>processed_messages = [], order_receipts = []\<rparr>))"
  "length (order_receipts (snd (applyOrderPlaced example_event \<lparr>processed_messages = [], order_receipts = []\<rparr>))) = 1"
proof -
  have "js_decimal 2 = 2" by code_simp
  then show "applyOrderPlaced example_event \<lparr>processed_messages = [], order_receipts = []\<rparr> =
     (Inr True, snd (applyOrderPlaced example_event \<lparr>processed_messages = [], order_receipts = []\<rparr>))"
    "length (order_receipts (snd (applyOrderPlaced example_event \<lparr>processed_messages = [], order_receipts = []\<rparr>))) = 1"
    by (simp_all add: applyOrderPlaced_def insert_on_conflict_def insert_receipt_def numeric122_def round2_def
        example_event_def Let_def)
qed

theorem at_most_one_receipt_witness:
  "length (order_receipts (cs_db example_delivered)) = 1 \<and> distinct (map rc_order_id (order_receipts (cs_db example_delivered)))"
proof -
  have h: "handle example_schema None (Some (event_json example_event)) (cs_stats example_published, cs_db example_published) =
      (Ack, \<lparr>delivered = 1, applied = 1, skipped = 0, acked = 1, rejected = 0\<rparr>,
       snd (applyOrderPlaced example_event \<lparr>processed_messages = [], order_receipts = []\<rparr>))"
    using handle_applied [OF example_parse example_apply(1), of fresh_stats]
    by (simp only: example_published_def example_consumer_def consumer_system.select_convs) (simp add: fresh_stats_def)
  have "consumer_step example_schema example_published example_delivered"
    unfolding example_delivered_def
    using h by (intro consumer_step.deliver) (simp_all add: example_published_def example_consumer_def)
  from at_most_one_receipt [OF consumer_run.run_step [OF example_published_run this]]
  show ?thesis by (simp add: example_delivered_def example_apply(2))
qed

theorem bad_deliveries_change_nothing_witness:
  "fst (handle example_schema None None (fresh_stats, \<lparr>processed_messages = [], order_receipts = []\<rparr>)) = Reject False"
  using bad_deliveries_change_nothing [of None example_schema None fresh_stats "\<lparr>processed_messages = [], order_receipts = []\<rparr>"]
  by simp

end
