(* ===== verification/Pipeline.thy ===== *)
theory Pipeline
  imports Relay Inbox
begin

text \<open>
  The way of an order event through the whole system: \<open>src/checkout.ts\<close> writes
  it, \<open>src/outbox/relay.ts\<close> publishes it, \<open>src/messaging/consumer.ts\<close> turns it
  into a receipt.  A state is the shop's database and the consumer's side
  (queues and database); a step is one transaction of one of the processes,
  crashes included, in any order.
\<close>

subsection \<open>A processed event left a receipt\<close>

definition recorded :: "schema_lib \<Rightarrow> consumer_system \<Rightarrow> string \<times> string \<Rightarrow> bool" where
  "recorded lib s k \<longleftrightarrow> (\<exists>c \<in> set (cs_sent s). \<exists>e. Option.bind c (OrderPlacedSchema lib) = Some e \<and> message_key e = k \<and>
     (\<exists>r \<in> set (order_receipts (cs_db s)). rc_event_id r = uuid_value (op_eventId e) \<or> rc_order_id r = od_orderId (op_data e)))"

lemma apply_records:
  assumes "applyOrderPlaced e db = (Inr b, db')" "k \<in> set (processed_messages db')" "k \<notin> set (processed_messages db)"
  shows "k = message_key e \<and>
    (\<exists>r \<in> set (order_receipts db'). rc_event_id r = uuid_value (op_eventId e) \<or> rc_order_id r = od_orderId (op_data e))"
  using assms
  by (auto simp: applyOrderPlaced_def insert_receipt_def insert_on_conflict_def Let_def image_iff
      split: if_splits sum.splits)

lemma recorded_mono:
  assumes "recorded lib s k" "set (cs_sent s) \<subseteq> set (cs_sent s')"
    and "set (order_receipts (cs_db s)) \<subseteq> set (order_receipts (cs_db s'))"
  shows "recorded lib s' k"
  using assms unfolding recorded_def by blast

lemma handled_recorded:
  assumes h: "handle lib outage (m_content m) (st0, cs_db s) = (v, st, db)" and sent: "m_content m \<in> set (cs_sent s)"
    and rec: "\<forall>k \<in> set (processed_messages (cs_db s)). recorded lib s k"
    and s': "cs_db s' \<in> {cs_db s, db}" "cs_sent s' = cs_sent s"
  shows "\<forall>k \<in> set (processed_messages (cs_db s')). recorded lib s' k"
proof
  fix k assume k: "k \<in> set (processed_messages (cs_db s'))"
  show "recorded lib s' k"
    using h
  proof (cases rule: handle_cases)
    case (finished e b)
    note mono = apply_Inr(3) [OF finished(3)]
    show ?thesis
    proof (cases "k \<in> set (processed_messages (cs_db s))")
      case True
      then have "recorded lib s k" using rec by blast
      then show ?thesis by (rule recorded_mono) (use mono s' in auto)
    next
      case False
      then have "cs_db s' = db" using k s'(1) by auto
      then show ?thesis
        using apply_records [OF finished(3), of k] k False finished(2) sent s'(2) unfolding recorded_def by metis
    qed
  qed (use k rec s' in \<open>auto simp: recorded_def\<close>)
qed

lemma consumer_run_recorded: "consumer_run lib s \<Longrightarrow> \<forall>k \<in> set (processed_messages (cs_db s)). recorded lib s k"
proof (induction rule: consumer_run.induct)
  case (run_step s s')
  have work: "m_content ` set (cs_work s) \<subseteq> set (cs_sent s)"
    using consumer_run_ok [OF run_step(1)] by (simp add: consumer_ok_def)
  show ?case
    using run_step(2)
  proof (cases rule: consumer_step.cases)
    case (publish c)
    then show ?thesis using run_step.IH by (fastforce simp: recorded_def)
  next
    case (deliver xs m ys outage v st db)
    have "cs_db s' = db \<and> cs_sent s' = cs_sent s"
      unfolding deliver(1) by (cases v; cases "v = Reject True") (auto simp: requeue_def elim: settle.elims)
    then show ?thesis
      using work deliver(2) by (intro handled_recorded [OF deliver(3) _ run_step.IH]) auto
  next
    case (die xs m ys outage v st db db')
    then show ?thesis using work by (intro handled_recorded [OF die(3) _ run_step.IH]) auto
  qed
qed simp

subsection \<open>The system\<close>

record pipeline =
  pl_shop :: shop_db
  pl_consumer :: consumer_system

definition publish_all :: "json option list \<Rightarrow> consumer_system \<Rightarrow> consumer_system" where
  "publish_all cs s = fold (\<lambda>c s. s\<lparr>cs_work := cs_work s @ [\<lparr>m_content = c, m_count = 0\<rparr>], cs_sent := c # cs_sent s\<rparr>) cs s"

text \<open>
  \<open>JSON.stringify\<close> of a payload, parsed again, is the payload.  A step of the
  consumer that is not a publication leaves \<open>cs_sent\<close> as it is.
\<close>

inductive pipe_step :: "checkout_env \<Rightarrow> schema_lib \<Rightarrow> pipeline \<Rightarrow> pipeline \<Rightarrow> bool" for env lib where
  buy: "is_datetime lib (cc_placedAt c) \<Longrightarrow> cc_rowId c \<notin> ob_id ` set (s_outbox (pl_shop s)) \<Longrightarrow>
    pipe_step env lib s (s\<lparr>pl_shop := snd (checkout env c p (pl_shop s))\<rparr>)"
| relay: "confirms_mean_stored wire \<Longrightarrow>
    relayOnce b locked wire hook now ret (s_outbox (pl_shop s)) = (res, t, sent, ret') \<Longrightarrow>
    pipe_step env lib s (s\<lparr>pl_shop := (pl_shop s)\<lparr>s_outbox := t\<rparr>,
      pl_consumer := publish_all (map (\<lambda>r. Some (ob_payload r)) sent) (pl_consumer s)\<rparr>)"
| consume: "consumer_step lib (pl_consumer s) c \<Longrightarrow> cs_sent c = cs_sent (pl_consumer s) \<Longrightarrow>
    pipe_step env lib s (s\<lparr>pl_consumer := c\<rparr>)"

definition empty_consumer :: consumer_system where
  "empty_consumer = \<lparr>cs_stats = fresh_stats, cs_db = \<lparr>processed_messages = [], order_receipts = []\<rparr>,
     cs_work = [], cs_dlq = [], cs_sent = []\<rparr>"

inductive pipe_run :: "checkout_env \<Rightarrow> schema_lib \<Rightarrow> pipeline \<Rightarrow> bool" for env lib where
  pipe_start: "shop_ok db \<Longrightarrow> s_orders db = [] \<Longrightarrow> s_outbox db = [] \<Longrightarrow>
    pipe_run env lib \<lparr>pl_shop = db, pl_consumer = empty_consumer\<rparr>"
| pipe_next: "pipe_run env lib s \<Longrightarrow> pipe_step env lib s s' \<Longrightarrow> pipe_run env lib s'"

subsection \<open>The invariant\<close>

text \<open>The row \<open>r\<close> carries the event of the order \<open>x\<close>, in a form the consumer reads.\<close>

definition row_of_order :: "checkout_env \<Rightarrow> schema_lib \<Rightarrow> order_row \<Rightarrow> outbox_row \<Rightarrow> bool" where
  "row_of_order env lib x r \<longleftrightarrow> (\<exists>e. OrderPlacedSchema lib (ob_payload r) = Some e \<and>
     op_eventId e = eventIdFor (ce_sha1 env) ''order.placed'' (show_nat (or_id x)) \<and>
     od_orderId (op_data e) = show_nat (or_id x) \<and> round2 (js_decimal (od_totalAmount (op_data e))) = or_total x)"

definition pipe_ok :: "checkout_env \<Rightarrow> schema_lib \<Rightarrow> pipeline \<Rightarrow> bool" where
  "pipe_ok env lib s \<longleftrightarrow> shop_ok (pl_shop s) \<and> consumer_run lib (pl_consumer s) \<and>
     distinct (map ob_id (s_outbox (pl_shop s))) \<and>
     list_all2 (row_of_order env lib) (s_orders (pl_shop s)) (s_outbox (pl_shop s)) \<and>
     (\<forall>c \<in> set (cs_sent (pl_consumer s)). \<exists>r \<in> set (s_outbox (pl_shop s)). c = Some (ob_payload r)) \<and>
     (\<forall>r \<in> set (s_outbox (pl_shop s)). ob_published_at r \<noteq> None \<longrightarrow> Some (ob_payload r) \<in> set (cs_sent (pl_consumer s)))"

lemma publish_all_run: "consumer_run lib s \<Longrightarrow> consumer_run lib (publish_all cs s)"
proof (induction cs arbitrary: s)
  case (Cons c cs)
  from Cons.IH [OF consumer_run.run_step [OF Cons.prems consumer_step.publish, of c]]
  show ?case by (simp add: publish_all_def)
qed (simp add: publish_all_def)

lemma publish_all_sent: "set (cs_sent (publish_all cs s)) = set cs \<union> set (cs_sent s)"
  by (induction cs arbitrary: s) (auto simp: publish_all_def)

lemma round_half_even_nonneg: "0 \<le> x \<Longrightarrow> 0 \<le> round_half_even x"
  by (auto simp: round_half_even_def Let_def)

lemma pow2_nonneg: "0 \<le> pow2 k"
  by (simp add: pow2_def)

lemma fl_nonneg: "0 \<le> x \<Longrightarrow> 0 \<le> fl x"
  by (auto simp: fl_def Let_def pow2_nonneg intro!: mult_nonneg_nonneg round_half_even_nonneg divide_nonneg_nonneg)

definition lib_ok :: "checkout_env \<Rightarrow> schema_lib \<Rightarrow> bool" where
  "lib_ok env lib \<longleftrightarrow> (\<forall>s. length (ce_sha1 env s) = 20) \<and> ce_bigint env '''' = None \<and> accepts_uuids lib"

lemma sold_row:
  assumes ok: "shop_ok db" and lib: "lib_ok env lib" and dt: "is_datetime lib (cc_placedAt c)"
    and r: "r \<in> set (s_products db)" and u: "u \<in> set (s_users db)"
    and ids: "ce_bigint env (cp_productId p) = Some (p_id r)" "ce_bigint env (cp_buyerId p) = Some (a_id u)"
    and q: "0 < cp_quantity p" and le: "p_price r * of_int (cp_quantity p) \<le> a_balance u"
  shows "\<exists>x y. s_orders (sold env c p r u db) = s_orders db @ [x] \<and> s_outbox (sold env c p r u db) = s_outbox db @ [y] \<and>
    row_of_order env lib x y \<and> ob_id y = cc_rowId c \<and> ob_published_at y = None"
proof -
  let ?t = "js_mul (fl (p_price r)) (of_int (cp_quantity p))" and ?i = "show_nat (order_seq db)"
  let ?e = "toOrderPlacedEvent (ce_sha1 env) ?i (cp_buyerId p) (cp_productId p) (of_int (cp_quantity p)) ?t (cc_placedAt c)"
  have pr: "cents (p_price r)" "0 \<le> p_price r" "a_balance u < 10 ^ 10" using shop_okD(6,7) [OF ok] r u by blast+
  have "p_price r * of_int (cp_quantity p) \<le> 10 ^ 12" using le pr(3) by simp
  from charge_rounds(1) [OF pr(1,2) _ this] q have round: "round2 (js_decimal ?t) = p_price r * of_int (cp_quantity p)" by simp
  have "uuid_shape (op_eventId ?e)"
    using eventIdFor_uuid [of "ce_sha1 env" "''order.placed''" ?i] lib by (simp add: toOrderPlacedEvent_def lib_ok_def)
  then have "is_uuid lib (op_eventId ?e)" using lib by (simp add: lib_ok_def accepts_uuids_def)
  moreover have "0 \<le> ?t" unfolding js_mul_def using pr(2) q by (intro fl_nonneg mult_nonneg_nonneg) auto
  moreover have "cp_buyerId p \<noteq> ''''" "cp_productId p \<noteq> ''''" using ids lib by (auto simp: lib_ok_def)
  moreover have "?i \<noteq> ''''" by (subst show_nat.simps) simp
  ultimately have "OrderPlacedSchema lib (event_json ?e) = Some ?e"
    using q dt by (intro parse_event_json [where q = "cp_quantity p"]) (simp_all add: toOrderPlacedEvent_def)
  with round show ?thesis
    by (simp add: sold_def Let_def row_of_order_def toOrderPlacedEvent_def)
qed

lemma row_of_order_after: "row_of_order env lib x r \<Longrightarrow> row_after sent r r' \<Longrightarrow> row_of_order env lib x r'"
  by (simp add: row_of_order_def row_after_keeps)

lemma pipe_ok_buy:
  assumes ok: "pipe_ok env lib s" and lib: "lib_ok env lib" and dt: "is_datetime lib (cc_placedAt c)"
    and new: "cc_rowId c \<notin> ob_id ` set (s_outbox (pl_shop s))"
  shows "pipe_ok env lib (s\<lparr>pl_shop := snd (checkout env c p (pl_shop s))\<rparr>)"
proof -
  obtain res db where co: "checkout env c p (pl_shop s) = (res, db)" by fastforce
  have sok: "shop_ok (pl_shop s)" using ok by (simp add: pipe_ok_def)
  have sok': "shop_ok db" using shop_ok_checkout [OF sok, of env c p] co by simp
  from sok co show ?thesis
  proof (cases rule: checkout_cases)
    case (sold r u)
    from sold_row [OF sok lib dt sold(2-6) sold(8)] obtain x y where
      "s_orders db = s_orders (pl_shop s) @ [x]" "s_outbox db = s_outbox (pl_shop s) @ [y]"
      "row_of_order env lib x y" "ob_id y = cc_rowId c" "ob_published_at y = None"
      unfolding sold(10) by blast
    with ok new sok' co show ?thesis by (auto simp: pipe_ok_def list_all2_appendI)
  next
    case (failed db2)
    with ok sok' co show ?thesis by (simp add: pipe_ok_def rollback_def)
  qed (use ok co in simp)
qed

lemma pipe_ok_relay:
  assumes ok: "pipe_ok env lib s" and w: "confirms_mean_stored wire"
    and r: "relayOnce b locked wire hook now ret (s_outbox (pl_shop s)) = (res, t, sent, ret')"
  shows "pipe_ok env lib (s\<lparr>pl_shop := (pl_shop s)\<lparr>s_outbox := t\<rparr>,
      pl_consumer := publish_all (map (\<lambda>r. Some (ob_payload r)) sent) (pl_consumer s)\<rparr>)"
proof -
  let ?t = "s_outbox (pl_shop s)" and ?c = "publish_all (map (\<lambda>r. Some (ob_payload r)) sent) (pl_consumer s)"
  have d: "distinct (map ob_id ?t)" using ok by (simp add: pipe_ok_def)
  have l: "list_all2 (row_of_order env lib) (s_orders (pl_shop s)) ?t" using ok unfolding pipe_ok_def by (elim conjE)
  have a: "set sent \<subseteq> set ?t" "list_all2 (row_after sent) ?t t"
    using relayOnce_rows [OF w d r] by (auto simp: unpublished_def)
  note m = rows_after_map [OF a(2)]
  have "shop_ok ((pl_shop s)\<lparr>s_outbox := t\<rparr>)" using ok by (simp add: pipe_ok_def shop_ok_def)
  moreover have "consumer_run lib ?c" using ok publish_all_run by (simp add: pipe_ok_def)
  moreover have "list_all2 (row_of_order env lib) (s_orders (pl_shop s)) t"
    by (rule list_all2_trans [OF _ l a(2)]) (rule row_of_order_after)
  moreover have "\<exists>r \<in> set t. c = Some (ob_payload r)" if "c \<in> set (cs_sent ?c)" for c
  proof -
    have "\<exists>r \<in> set ?t. c = Some (ob_payload r)"
      using that ok a(1) by (auto simp: publish_all_sent pipe_ok_def)
    then have "c \<in> Some ` set (map ob_payload ?t)" by auto
    then show ?thesis using m by (metis (no_types, lifting) imageE in_set_conv_nth length_map nth_map nth_mem)
  qed
  moreover have "Some (ob_payload r) \<in> set (cs_sent ?c)" if r: "r \<in> set t" "ob_published_at r \<noteq> None" for r
  proof -
    obtain i where i: "i < length t" "t ! i = r" using r(1) by (auto simp: in_set_conv_nth)
    then have len: "i < length ?t" and ra: "row_after sent (?t ! i) r"
      using list_all2_lengthD [OF a(2)] list_all2_nthD2 [OF a(2)] by auto
    from row_after_keeps(3) [OF ra r(2)] show ?thesis
      using ok len row_after_keeps(2) [OF ra] by (auto simp: publish_all_sent pipe_ok_def)
  qed
  ultimately show ?thesis using d m by (simp add: pipe_ok_def)
qed

lemma pipe_ok_step [inv_intros]:
  assumes "pipe_step env lib s s'" "lib_ok env lib" "pipe_ok env lib s"
  shows "pipe_ok env lib s'"
  using assms(1)
proof (cases rule: pipe_step.cases)
  case (buy c p)
  show ?thesis unfolding buy(1) by (rule pipe_ok_buy [OF assms(3,2) buy(2,3)])
next
  case (relay wire b locked hook now ret res t sent ret')
  show ?thesis unfolding relay(1) by (rule pipe_ok_relay [OF assms(3) relay(2,3)])
next
  case (consume c)
  then show ?thesis using assms(3) consumer_run.run_step by (auto simp: pipe_ok_def)
qed

lemma pipe_run_ok: "pipe_run env lib s \<Longrightarrow> lib_ok env lib \<Longrightarrow> pipe_ok env lib s"
proof (induction rule: pipe_run.induct)
  case (pipe_start db)
  then show ?case using consumer_run.run_start [of lib] by (simp add: pipe_ok_def empty_consumer_def)
qed (rule pipe_ok_step)

subsection \<open>Exactly one receipt\<close>

lemma ascii_lower_hex: "is_hex c \<Longrightarrow> ascii_lower c = c" "ascii_lower CHR ''-'' = CHR ''-''"
proof -
  have "\<forall>c \<in> set ''0123456789abcdef''. ascii_lower c = c" by code_simp
  then show "is_hex c \<Longrightarrow> ascii_lower c = c" by (simp add: is_hex_def del: set_simps)
  show "ascii_lower CHR ''-'' = CHR ''-''" by code_simp
qed

lemma uuid_value_shape:
  assumes "uuid_shape s" shows "uuid_value s = s"
proof -
  have "ascii_lower c = c" if c: "c \<in> set s" for c
  proof -
    obtain i where "i < 36" "c = s ! i" using c assms by (auto simp: in_set_conv_nth uuid_shape_def)
    then have "c = CHR ''-'' \<or> is_hex c" using assms by (cases "i \<in> {8, 13, 18, 23}") (auto simp: uuid_shape_def)
    then show ?thesis using ascii_lower_hex by blast
  qed
  then show ?thesis by (simp add: uuid_value_def map_idI)
qed

lemma list_all2_partner:
  "list_all2 R xs ys \<Longrightarrow> y \<in> set ys \<Longrightarrow> \<exists>x \<in> set xs. R x y"
  "list_all2 R xs ys \<Longrightarrow> x \<in> set xs \<Longrightarrow> \<exists>y \<in> set ys. R x y"
  by (induction rule: list_all2_induct) auto

lemma lib_ok_uuid: "lib_ok env lib \<Longrightarrow> uuid_value (eventIdFor (ce_sha1 env) ty k) = eventIdFor (ce_sha1 env) ty k"
  using eventIdFor_uuid [of "ce_sha1 env" ty k] by (intro uuid_value_shape) (simp add: lib_ok_def)

definition receipt_of :: "order_row \<Rightarrow> string \<times> rat" where
  "receipt_of x = (show_nat (or_id x), or_total x)"

text \<open>An event that was sent is the event of an order.\<close>

lemma sent_order:
  assumes ok: "pipe_ok env lib s" and c: "c \<in> set (cs_sent (pl_consumer s))" "Option.bind c (OrderPlacedSchema lib) = Some e"
  obtains x where "x \<in> set (s_orders (pl_shop s))" "od_orderId (op_data e) = show_nat (or_id x)"
    "op_eventId e = eventIdFor (ce_sha1 env) ''order.placed'' (show_nat (or_id x))"
    "round2 (js_decimal (od_totalAmount (op_data e))) = or_total x"
proof -
  obtain r where r: "r \<in> set (s_outbox (pl_shop s))" "c = Some (ob_payload r)" using ok c(1) by (auto simp: pipe_ok_def)
  have "list_all2 (row_of_order env lib) (s_orders (pl_shop s)) (s_outbox (pl_shop s))" using ok by (simp add: pipe_ok_def)
  from list_all2_partner(1) [OF this r(1)]
  obtain x where x: "x \<in> set (s_orders (pl_shop s))" "row_of_order env lib x r" ..
  have e: "OrderPlacedSchema lib (ob_payload r) = Some e" using c(2) r(2) by simp
  with x(2) show ?thesis unfolding row_of_order_def by (elim exE conjE, intro that [OF x(1)]) simp_all
qed

lemma receipts_of_orders:
  assumes ok: "pipe_ok env lib s" and r: "r \<in> set (order_receipts (cs_db (pl_consumer s)))"
  obtains x where "x \<in> set (s_orders (pl_shop s))" "(rc_order_id r, rc_total r) = receipt_of x"
    "rc_event_id r = uuid_value (eventIdFor (ce_sha1 env) ''order.placed'' (show_nat (or_id x)))"
proof -
  have "from_sent lib (pl_consumer s) r"
    using consumer_run_ok [of lib "pl_consumer s"] ok r by (simp add: pipe_ok_def consumer_ok_def)
  then obtain c e where c: "c \<in> set (cs_sent (pl_consumer s))" "Option.bind c (OrderPlacedSchema lib) = Some e"
    and e: "rc_event_id r = uuid_value (op_eventId e)" "rc_order_id r = od_orderId (op_data e)"
      "rc_total r = round2 (js_decimal (od_totalAmount (op_data e)))"
    unfolding from_sent_def by blast
  from sent_order [OF ok c] obtain x where "x \<in> set (s_orders (pl_shop s))" "od_orderId (op_data e) = show_nat (or_id x)"
    "op_eventId e = eventIdFor (ce_sha1 env) ''order.placed'' (show_nat (or_id x))"
    "round2 (js_decimal (od_totalAmount (op_data e))) = or_total x" .
  with e show ?thesis by (intro that [of x]) (simp_all add: receipt_of_def)
qed

lemma order_has_receipt:
  assumes ok: "pipe_ok env lib s" and lib: "lib_ok env lib"
    and pub: "\<forall>r \<in> set (s_outbox (pl_shop s)). ob_published_at r \<noteq> None"
    and idle: "cs_work (pl_consumer s) = []" "cs_dlq (pl_consumer s) = []"
    and inj: "inj_on (\<lambda>i. eventIdFor (ce_sha1 env) ''order.placed'' (show_nat i)) (or_id ` set (s_orders (pl_shop s)))"
    and x: "x \<in> set (s_orders (pl_shop s))"
  shows "\<exists>r \<in> set (order_receipts (cs_db (pl_consumer s))). (rc_order_id r, rc_total r) = receipt_of x"
proof -
  let ?c = "pl_consumer s" and ?id = "\<lambda>y. eventIdFor (ce_sha1 env) ''order.placed'' (show_nat (or_id y))"
  have run: "consumer_run lib ?c" using ok by (simp add: pipe_ok_def)
  have all: "list_all2 (row_of_order env lib) (s_orders (pl_shop s)) (s_outbox (pl_shop s))" using ok by (simp add: pipe_ok_def)
  obtain r where r: "r \<in> set (s_outbox (pl_shop s))" "row_of_order env lib x r"
    using list_all2_partner(2) [OF all x] by blast
  then obtain e where e: "OrderPlacedSchema lib (ob_payload r) = Some e" "op_eventId e = ?id x"
      "od_orderId (op_data e) = show_nat (or_id x)" by (auto simp: row_of_order_def)
  have "Some (ob_payload r) \<in> set (cs_sent ?c)" using ok pub r(1) unfolding pipe_ok_def by blast
  then have "accounted lib ?c (Some (ob_payload r))" using consumer_run_ok [OF run] by (simp add: consumer_ok_def)
  then have "message_key e \<in> set (processed_messages (cs_db ?c))" using idle e(1) by (simp add: accounted_def)
  then have "recorded lib ?c (message_key e)" using consumer_run_recorded [OF run] by blast
  then obtain c' e' q where c': "c' \<in> set (cs_sent ?c)" "Option.bind c' (OrderPlacedSchema lib) = Some e'"
    and k: "message_key e' = message_key e" and q: "q \<in> set (order_receipts (cs_db ?c))"
      "rc_event_id q = uuid_value (op_eventId e') \<or> rc_order_id q = od_orderId (op_data e')"
    unfolding recorded_def by blast
  from sent_order [OF ok c'] obtain y where y: "y \<in> set (s_orders (pl_shop s))" "od_orderId (op_data e') = show_nat (or_id y)"
    "op_eventId e' = ?id y" by metis
  from receipts_of_orders [OF ok q(1)] obtain z where z: "z \<in> set (s_orders (pl_shop s))"
    "(rc_order_id q, rc_total q) = receipt_of z" "rc_event_id q = uuid_value (?id z)" by metis
  have same: "or_id a = or_id b" if "?id a = ?id b" "a \<in> set (s_orders (pl_shop s))" "b \<in> set (s_orders (pl_shop s))" for a b
    by (rule inj_onD [OF inj, of "or_id a" "or_id b"]) (simp_all add: that)
  have "?id y = ?id x" using k e(2) y(3) lib_ok_uuid [OF lib] by (simp add: message_key_def)
  then have yx: "or_id y = or_id x" using same y(1) x by blast
  have "or_id z = or_id y"
    using q(2)
  proof
    assume "rc_event_id q = uuid_value (op_eventId e')"
    then have "?id z = ?id y" using z(3) y(3) lib_ok_uuid [OF lib] by simp
    then show ?thesis using same z(1) y(1) by blast
  next
    assume "rc_order_id q = od_orderId (op_data e')"
    then show ?thesis using z(2) y(2) show_nat_inj by (auto simp: receipt_of_def)
  qed
  then have "z = x"
    using yx z(1) x distinct_key_unique [of or_id "s_orders (pl_shop s)" z x] shop_okD(3) [of "pl_shop s"] ok
    by (simp add: pipe_ok_def)
  then show ?thesis using q(1) z(2) by blast
qed

text \<open>C22: at every moment, whatever crashed, was sent twice or is still under way,
  no two receipts are for the same order and each receipt is that of a real
  order, with exactly its total.\<close>

theorem receipts_are_orders:
  assumes "pipe_run env lib s" "lib_ok env lib"
  shows "distinct (map rc_order_id (order_receipts (cs_db (pl_consumer s)))) \<and>
    (\<lambda>r. (rc_order_id r, rc_total r)) ` set (order_receipts (cs_db (pl_consumer s))) \<subseteq> receipt_of ` set (s_orders (pl_shop s))"
proof -
  note ok = pipe_run_ok [OF assms]
  have "consumer_run lib (pl_consumer s)" using ok by (simp add: pipe_ok_def)
  then have "inbox_ok (cs_db (pl_consumer s))" using consumer_run_ok by (simp add: consumer_ok_def)
  then have "distinct (map rc_order_id (order_receipts (cs_db (pl_consumer s))))" by (simp add: inbox_ok_def)
  then show ?thesis using receipts_of_orders [OF ok] by (smt (verit, best) image_iff image_subsetI)
qed

text \<open>C24: once the outbox is drained and both queues are empty, every order has
  exactly one receipt and there are no others, provided the digests of the
  orders' event ids do not collide.\<close>

theorem one_receipt_per_order:
  assumes "pipe_run env lib s" "lib_ok env lib"
    and "\<forall>r \<in> set (s_outbox (pl_shop s)). ob_published_at r \<noteq> None"
    and "cs_work (pl_consumer s) = []" "cs_dlq (pl_consumer s) = []"
    and "inj_on (\<lambda>i. eventIdFor (ce_sha1 env) ''order.placed'' (show_nat i)) (or_id ` set (s_orders (pl_shop s)))"
  shows "(\<lambda>r. (rc_order_id r, rc_total r)) ` set (order_receipts (cs_db (pl_consumer s))) = receipt_of ` set (s_orders (pl_shop s)) \<and>
    length (order_receipts (cs_db (pl_consumer s))) = length (s_orders (pl_shop s))"
proof -
  note ok = pipe_run_ok [OF assms(1,2)]
  let ?R = "order_receipts (cs_db (pl_consumer s))" and ?O = "s_orders (pl_shop s)"
  have eq: "(\<lambda>r. (rc_order_id r, rc_total r)) ` set ?R = receipt_of ` set ?O"
  proof
    show "(\<lambda>r. (rc_order_id r, rc_total r)) ` set ?R \<subseteq> receipt_of ` set ?O"
      using receipts_of_orders [OF ok] by (smt (verit, best) image_iff image_subsetI)
    show "receipt_of ` set ?O \<subseteq> (\<lambda>r. (rc_order_id r, rc_total r)) ` set ?R"
      using order_has_receipt [OF ok assms(2-6)] by (smt (verit, best) image_iff image_subsetI)
  qed
  have "consumer_run lib (pl_consumer s)" using ok by (simp add: pipe_ok_def)
  then have "distinct (map rc_order_id ?R)" using consumer_run_ok by (simp add: consumer_ok_def inbox_ok_def)
  then have "length ?R = card (rc_order_id ` set ?R)" by (metis distinct_card length_map set_map)
  also have "rc_order_id ` set ?R = (\<lambda>x. show_nat (or_id x)) ` set ?O"
    using arg_cong [OF eq, of "\<lambda>A. fst ` A"] by (simp add: image_image receipt_of_def)
  also have "distinct (map or_id ?O)" using shop_okD(3) ok by (simp add: pipe_ok_def)
  then have "card ((\<lambda>x. show_nat (or_id x)) ` set ?O) = length ?O"
    using show_nat_inj by (subst card_image) (auto simp: inj_on_def distinct_map distinct_card)
  finally show ?thesis using eq by simp
qed

subsection \<open>One order, all the way\<close>

lemma example_lib_ok: "lib_ok example_shop_env example_schema"
  by (simp add: lib_ok_def example_shop_env_def accepts_uuids_def example_schema_def)

lemma bought_rows:
  obtains x y where "s_orders bought = [x]" "s_outbox bought = [y]" "or_total x = 3 / 10"
    "row_of_order example_shop_env example_schema x y" "ob_published_at y = None"
  using one_ok bought_result
proof (cases rule: checkout_cases)
  case (sold r u)
  have dt: "is_datetime example_schema (cc_placedAt (example_call None))" by (simp add: example_schema_def example_call_def)
  have r: "p_price r = 1 / 10" and u: "a_id u = 7" using sold(2,3) by (simp_all add: example_shop_def)
  from sold_row [OF one_ok example_lib_ok dt sold(2-6) sold(8)] obtain x y where
    xy: "s_orders bought = [x]" "s_outbox bought = [y]" "row_of_order example_shop_env example_schema x y" "ob_published_at y = None"
    unfolding sold(10) by (auto simp: example_shop_def)
  have "map or_total (s_orders bought) = [3 / 10]"
    unfolding sold(10) by (simp add: sold_def Let_def r) (simp add: example_shop_def example_params_def)
  then show thesis using xy that by simp
next
  case (failed db2)
  then show thesis by auto
qed (simp add: example_shop_def example_params_def claim_key_def insert_on_conflict_def Let_def)

lemma first_delivery:
  assumes e: "OrderPlacedSchema lib j = Some e" and amt: "\<bar>round2 (js_decimal (od_totalAmount (op_data e)))\<bar> < 10 ^ 10"
    and s: "cs_work s = [\<lparr>m_content = Some j, m_count = 0\<rparr>]" "cs_dlq s = []" "cs_db s = \<lparr>processed_messages = [], order_receipts = []\<rparr>"
  shows "\<exists>c. consumer_step lib s c \<and> cs_sent c = cs_sent s \<and> cs_work c = [] \<and> cs_dlq c = []"
proof -
  let ?db = "snd (applyOrderPlaced e (cs_db s))" and ?st = "cs_stats s"
  have "applyOrderPlaced e (cs_db s) = (Inr True, ?db)"
    using amt by (simp add: s(3) applyOrderPlaced_def insert_on_conflict_def insert_receipt_def numeric122_def Let_def)
  from handle_applied [OF e this, of ?st] have
    "consumer_step lib s (settle Ack \<lparr>m_content = Some j, m_count = 0\<rparr> [] [] (s\<lparr>cs_stats := ?st\<lparr>delivered := delivered ?st + 1,
      applied := applied ?st + 1, acked := acked ?st + 1\<rparr>, cs_db := ?db\<rparr>))"
    using s(1) by (intro consumer_step.deliver [where outage = None]) simp_all
  then show ?thesis using s(2) by (intro exI conjI) (assumption | simp)+
qed

lemma example_pipeline:
  obtains s where "pipe_run example_shop_env example_schema s" "\<forall>r \<in> set (s_outbox (pl_shop s)). ob_published_at r \<noteq> None"
    "cs_work (pl_consumer s) = []" "cs_dlq (pl_consumer s) = []" "length (s_orders (pl_shop s)) = 1"
proof -
  obtain x y where b: "s_orders bought = [x]" "s_outbox bought = [y]" "or_total x = 3 / 10"
    "row_of_order example_shop_env example_schema x y" "ob_published_at y = None" by (rule bought_rows)
  from b(4) obtain e where e: "OrderPlacedSchema example_schema (ob_payload y) = Some e"
    "round2 (js_decimal (od_totalAmount (op_data e))) = 3 / 10" unfolding row_of_order_def b(3) by blast
  let ?s0 = "\<lparr>pl_shop = example_shop 1, pl_consumer = empty_consumer\<rparr>"
  let ?s1 = "\<lparr>pl_shop = bought, pl_consumer = empty_consumer\<rparr>"
  let ?y = "y\<lparr>ob_published_at := Some 1, ob_attempts := ob_attempts y + 1\<rparr>"
  let ?c2 = "publish_all [Some (ob_payload y)] empty_consumer"
  let ?s2 = "\<lparr>pl_shop = bought\<lparr>s_outbox := [?y]\<rparr>, pl_consumer = ?c2\<rparr>"
  have "pipe_run example_shop_env example_schema ?s0"
    by (rule pipe_start) (use one_ok in \<open>simp_all add: example_shop_def\<close>)
  moreover have "pipe_step example_shop_env example_schema ?s0 ?s1"
    using pipe_step.buy [of example_schema "example_call None" ?s0 example_shop_env "example_params 3"] bought_result
    by (simp add: example_call_def example_schema_def example_shop_def)
  ultimately have r1: "pipe_run example_shop_env example_schema ?s1" by (rule pipe_next)
  have good: "all_good (\<lambda>_ _. good_wire) (\<lambda>_ _. None)" by (simp add: all_good_def good_wire_def)
  have u: "in_order (unpublished [y]) = [y]" by (simp add: unpublished_def in_order_def b(5))
  have "relayOnce 50 {} (\<lambda>_. good_wire) (\<lambda>_. None) 1 0 (s_outbox (pl_shop ?s1)) =
      (Inr \<lparr>rp_claimed = 1, rp_published = 1, rp_error = None\<rparr>, [?y], [y], 0)"
    using relayOnce_good [OF good, where b = 50 and t = "[y]" and now = 1 and ret = 0] u
    by (simp add: b(2) Let_def mark_published_def)
  moreover have "confirms_mean_stored (\<lambda>_. good_wire)" by (simp add: confirms_mean_stored_def good_wire_def)
  ultimately have "pipe_step example_shop_env example_schema ?s1 ?s2"
    using pipe_step.relay [of "\<lambda>_. good_wire" 50 "{}" "\<lambda>_. None" 1 0 ?s1] by auto
  with r1 have r2: "pipe_run example_shop_env example_schema ?s2" by (rule pipe_next)
  have "\<exists>c. consumer_step example_schema ?c2 c \<and> cs_sent c = cs_sent ?c2 \<and> cs_work c = [] \<and> cs_dlq c = []"
    using e by (intro first_delivery [OF e(1)]) (simp_all add: publish_all_def empty_consumer_def)
  then obtain c where c: "consumer_step example_schema ?c2 c" "cs_sent c = cs_sent ?c2" "cs_work c = []" "cs_dlq c = []" by blast
  have "pipe_step example_shop_env example_schema ?s2 (?s2\<lparr>pl_consumer := c\<rparr>)"
    by (rule pipe_step.consume) (use c in simp_all)
  with r2 have "pipe_run example_shop_env example_schema (?s2\<lparr>pl_consumer := c\<rparr>)" by (rule pipe_next)
  then show thesis by (rule that) (simp_all add: b(1) c)
qed

theorem receipts_are_orders_witness:
  "\<exists>s. pipe_run example_shop_env example_schema s \<and> s_orders (pl_shop s) \<noteq> [] \<and>
     distinct (map rc_order_id (order_receipts (cs_db (pl_consumer s))))"
proof -
  obtain s where s: "pipe_run example_shop_env example_schema s" "length (s_orders (pl_shop s)) = 1"
    by (rule example_pipeline)
  from receipts_are_orders [OF s(1) example_lib_ok] s show ?thesis by (intro exI [of _ s]) auto
qed

theorem one_receipt_per_order_witness:
  "\<exists>s. pipe_run example_shop_env example_schema s \<and> length (order_receipts (cs_db (pl_consumer s))) = 1"
proof -
  obtain s where s: "pipe_run example_shop_env example_schema s" "\<forall>r \<in> set (s_outbox (pl_shop s)). ob_published_at r \<noteq> None"
    "cs_work (pl_consumer s) = []" "cs_dlq (pl_consumer s) = []" "length (s_orders (pl_shop s)) = 1" by (rule example_pipeline)
  have "inj_on (\<lambda>i. eventIdFor (ce_sha1 example_shop_env) ''order.placed'' (show_nat i)) (or_id ` set (s_orders (pl_shop s)))"
    using s(5) by (auto simp: length_Suc_conv)
  from one_receipt_per_order [OF s(1) example_lib_ok s(2-4) this] s show ?thesis by auto
qed

end
