(* ===== verification/PartLimits.thy ===== *)
theory PartLimits
  imports Money
begin

text \<open>
  The plan of a multipart upload: \<open>src/storage/limits.ts\<close>.  Sizes are whole
  numbers of bytes; the two divisions are divisions of doubles, the rest stays
  below \<open>2^53\<close> and is exact.
\<close>

definition js_div :: "rat \<Rightarrow> rat \<Rightarrow> rat" where
  "js_div a b = fl (a / b)"

definition MIB :: int where "MIB = 1024 * 1024"

definition GIB :: int where "GIB = 1024 * MIB"

definition MIN_PART :: int where "MIN_PART = 5 * MIB"

definition MAX_PART :: int where "MAX_PART = 5 * GIB"

definition MAX_PARTS :: int where "MAX_PARTS = 10000"

definition MAX_OBJECT :: int where "MAX_OBJECT = 5 * 1024 * GIB"

definition computePartSize :: "int \<Rightarrow> int res" where
  "computePartSize sz =
     (let needed = \<lceil>js_div (of_int sz) (of_int MAX_PARTS)\<rceil>;
          rounded = \<lceil>js_div (of_int needed) (of_int MIB)\<rceil> * MIB;
          part = max MIN_PART rounded
      in if MAX_PART < part then Inl RangeError else Inr part)"

definition partCount :: "int \<Rightarrow> int \<Rightarrow> int" where
  "partCount sz partSize = \<lceil>js_div (of_int sz) (of_int partSize)\<rceil>"

definition partLength :: "int \<Rightarrow> int \<Rightarrow> int \<Rightarrow> int" where
  "partLength sz partSize n = min partSize (sz - (n - 1) * partSize)"

lemmas limit_defs = MIB_def GIB_def MIN_PART_def MAX_PART_def MAX_PARTS_def MAX_OBJECT_def

subsection \<open>The divisions round up as whole numbers do\<close>

text \<open>
  A quotient that is not whole is at least \<open>1 / b\<close> away from every whole
  number, further than the double can be from it.
\<close>

lemma ceiling_js_div:
  assumes a: "0 \<le> a" "a < 2 ^ 53" and b: "0 < b" "b \<le> 2 ^ 53"
  shows "\<lceil>js_div (of_int a) (of_int b)\<rceil> = - (- a div b)"
proof (cases "b dvd a")
  case True
  then obtain k where k: "a = b * k" by blast
  have k0: "0 \<le> k" using a(1) b k by (simp add: zero_le_mult_iff)
  have "k \<le> a" using mult_right_mono [of 1 b k] b k0 k by simp
  then have "\<bar>k\<bar> \<le> 2 ^ 53" using k0 a(2) by linarith
  then have "fl (of_int k) = of_int k" by (rule fl_int)
  then show ?thesis using b k by (simp add: js_div_def flip: mult_minus_right)
next
  case False
  let ?x = "of_int a / of_int b :: rat"
  have a0: "0 < a" using a(1) False by (cases "a = 0") auto
  have B: "0 < (of_int b :: rat)" using b by simp
  define k where "k = a div b"
  define r where "r = a mod b"
  have ab: "a = k * b + r" by (simp add: k_def r_def)
  have "r \<noteq> 0" using False by (simp add: r_def dvd_eq_mod_eq_0)
  then have r: "1 \<le> r" "r \<le> b - 1" using pos_mod_sign [OF b(1), of a] pos_mod_bound [OF b(1), of a] by (simp_all add: r_def)
  have x: "?x = of_int k + of_int r / of_int b" using B by (simp add: ab field_simps)
  have "1 / of_int b \<le> of_int r / (of_int b :: rat)" using r(1) B by (simp add: divide_right_mono)
  moreover have "of_int r / of_int b \<le> (of_int b - 1) / (of_int b :: rat)"
  proof (rule divide_right_mono)
    have "(of_int r :: rat) \<le> of_int (b - 1)" using r(2) by (simp only: of_int_le_iff)
    then show "of_int r \<le> (of_int b :: rat) - 1" by simp
  qed (use B in simp)
  ultimately have x': "of_int k + 1 / of_int b \<le> ?x" "?x \<le> of_int k + 1 - 1 / of_int b"
    using B by (simp_all add: x diff_divide_distrib)
  have "1 / 2 ^ 53 \<le> 1 / (of_int b :: rat)"
  proof (rule divide_left_mono)
    have "(of_int b :: rat) \<le> of_int (2 ^ 53)" using b(2) by (simp only: of_int_le_iff)
    then show "of_int b \<le> (2 ^ 53 :: rat)" by simp
  qed (use B in simp_all)
  also have "\<dots> \<le> ?x" using a0 B by (simp add: divide_right_mono)
  finally have "1 / 2 ^ 53 \<le> ?x" .
  moreover have "pow2 (- 1022) \<le> 1 / 2 ^ 53" using pow2_mono [of "- 1022" "- 53"] by (simp add: pow2_def)
  ultimately have "pow2 (- 1022) \<le> \<bar>?x\<bar>" by linarith
  from fl_error' [OF this] have "\<bar>fl ?x - ?x\<bar> * 9007199254740992 \<le> ?x" using a0 B by simp
  also have "\<dots> < 9007199254740992 / of_int b"
  proof (rule divide_strict_right_mono [OF _ B])
    have "(of_int a :: rat) < of_int (2 ^ 53)" using a(2) by (simp only: of_int_less_iff)
    then show "of_int a < (9007199254740992 :: rat)" by simp
  qed
  finally have "\<bar>fl ?x - ?x\<bar> < 1 / of_int b" by (simp add: field_simps)
  then have "of_int k < fl ?x" "fl ?x < of_int k + 1" using x' by linarith+
  then have "\<lceil>fl ?x\<rceil> = k + 1" by (intro ceiling_unique) auto
  moreover have "- (- a div b) = k + 1" using b(1) r_def k_def
    using \<open>r \<noteq> 0\<close> by (simp add: zdiv_zminus1_eq_if)
  ultimately show ?thesis by (simp add: js_div_def)
qed

text \<open>The quotient rounded up.\<close>

lemma ceiling_js_div_bounds:
  assumes "0 \<le> a" "a < 2 ^ 53" "0 < b" "b \<le> 2 ^ 53"
  shows "a \<le> \<lceil>js_div (of_int a) (of_int b)\<rceil> * b" "(\<lceil>js_div (of_int a) (of_int b)\<rceil> - 1) * b < a"
    "0 \<le> \<lceil>js_div (of_int a) (of_int b)\<rceil>"
proof -
  define d where "d = - a div b"
  define m where "m = - a mod b"
  have eq: "d * b + m = - a" by (simp add: d_def m_def)
  have m: "0 \<le> m" "m < b" using assms(3) by (simp_all add: m_def)
  have "a \<le> - d * b" using eq m(1) by simp
  moreover have "(- d - 1) * b < a" using eq m(2) by (simp add: left_diff_distrib)
  ultimately show "a \<le> \<lceil>js_div (of_int a) (of_int b)\<rceil> * b" "(\<lceil>js_div (of_int a) (of_int b)\<rceil> - 1) * b < a"
    unfolding ceiling_js_div [OF assms] d_def by simp_all
  show "0 \<le> \<lceil>js_div (of_int a) (of_int b)\<rceil>"
    unfolding ceiling_js_div [OF assms] using assms(1,3) zdiv_mono1 [of "- a" 0 b] by simp
qed

subsection \<open>Every admissible size has a plan S3 accepts\<close>

lemma part_size_plan:
  assumes "1 \<le> sz" "sz \<le> MAX_OBJECT"
  shows "\<exists>p. computePartSize sz = Inr p \<and> MIN_PART \<le> p \<and> p \<le> 525 * MIB \<and> MIB dvd p \<and> sz \<le> p * MAX_PARTS"
proof -
  define n where "n = \<lceil>js_div (of_int sz) (of_int MAX_PARTS)\<rceil>"
  define r where "r = \<lceil>js_div (of_int n) (of_int MIB)\<rceil>"
  have n: "sz \<le> n * 10000" "(n - 1) * 10000 < sz" "0 \<le> n"
    using ceiling_js_div_bounds [of sz 10000, folded MAX_PARTS_def] assms
    unfolding n_def by (simp_all add: limit_defs)
  then have n': "n \<le> 549755814" using assms(2) by (simp add: limit_defs)
  have r: "n \<le> r * MIB" "(r - 1) * MIB < n" "0 \<le> r"
    using ceiling_js_div_bounds [of n MIB] n(3) n' unfolding r_def by (simp_all add: MIB_def)
  then have r': "r \<le> 525" using n' by (simp add: MIB_def)
  then have part: "computePartSize sz = Inr (max MIN_PART (r * MIB))"
    unfolding computePartSize_def Let_def n_def [symmetric] r_def [symmetric] by (simp add: limit_defs)
  moreover have "sz \<le> max MIN_PART (r * MIB) * MAX_PARTS"
    using n(1) r(1) by (simp add: limit_defs)
  moreover have "MIB dvd max MIN_PART (r * MIB)" by (simp add: max_def MIN_PART_def)
  ultimately show ?thesis using r' by (simp add: limit_defs)
qed

lemma sum_partLength:
  assumes "0 \<le> k" "\<forall>n \<in> {1 .. k}. n * p \<le> sz"
  shows "(\<Sum>n = 1 .. k. partLength sz p n) = k * p"
proof -
  have "partLength sz p n = p" if "n \<in> {1 .. k}" for n
    using assms(2) that by (auto simp: partLength_def algebra_simps)
  then have "(\<Sum>n = 1 .. k. partLength sz p n) = (\<Sum>n = 1 .. k. p)" by (intro sum.cong) auto
  then show ?thesis using assms(1) by simp
qed

lemma partCount_bounds:
  assumes "1 \<le> sz" "sz \<le> MAX_OBJECT" "1 \<le> p" "p \<le> MAX_PART"
  shows "sz \<le> partCount sz p * p" "(partCount sz p - 1) * p < sz" "1 \<le> partCount sz p"
proof -
  show b: "sz \<le> partCount sz p * p" "(partCount sz p - 1) * p < sz"
    using ceiling_js_div_bounds [of sz p] assms by (simp_all add: partCount_def limit_defs)
  have "0 < partCount sz p * p" using b(1) assms(1) by linarith
  then show "1 \<le> partCount sz p" using assms(3) by (simp add: zero_less_mult_iff)
qed

lemma parts_cover:
  assumes "1 \<le> sz" "sz \<le> MAX_OBJECT" "1 \<le> p" "p \<le> MAX_PART"
  shows "(\<Sum>n = 1 .. partCount sz p. partLength sz p n) = sz"
    "\<forall>n \<in> {1 .. partCount sz p}. 1 \<le> partLength sz p n \<and> partLength sz p n \<le> p \<and> (n < partCount sz p \<longrightarrow> partLength sz p n = p)"
proof -
  let ?c = "partCount sz p"
  note b = partCount_bounds [OF assms]
  have lt: "n * p \<le> (?c - 1) * p" if "n \<le> ?c - 1" for n using that assms(3) by (intro mult_right_mono) auto
  have "{1 .. ?c} = insert ?c {1 .. ?c - 1}" using b(3) by auto
  moreover have "(\<Sum>n = 1 .. ?c - 1. partLength sz p n) = (?c - 1) * p"
    using b(2,3) by (intro sum_partLength ballI) (auto intro: order_trans [OF lt less_imp_le])
  moreover have "partLength sz p ?c = sz - (?c - 1) * p" using b(1) by (simp add: partLength_def algebra_simps)
  ultimately show "(\<Sum>n = 1 .. ?c. partLength sz p n) = sz" by simp
  show "\<forall>n \<in> {1 .. ?c}. 1 \<le> partLength sz p n \<and> partLength sz p n \<le> p \<and> (n < ?c \<longrightarrow> partLength sz p n = p)"
  proof (intro ballI conjI impI)
    fix n assume n: "n \<in> {1 .. ?c}"
    have "(n - 1) * p \<le> (?c - 1) * p" using n assms(3) by (intro mult_right_mono) auto
    then have "(n - 1) * p < sz" using b(2) by (rule le_less_trans)
    then show "1 \<le> partLength sz p n" using assms(3) by (simp add: partLength_def)
    show "partLength sz p n \<le> p" by (simp add: partLength_def)
    assume "n < ?c"
    then have "n * p \<le> (?c - 1) * p" using lt by simp
    then show "partLength sz p n = p" using b(2) by (simp add: partLength_def algebra_simps)
  qed
qed

text \<open>Every size the intent accepts (1 byte to 5 TiB) gets a part size, and the
  plan is one S3 accepts: parts of whole mebibytes between 5 MiB and 5 GiB, at
  most 10000 of them, all full but the last, none empty, adding up to exactly
  the size; the floating-point divisions never lose or add a part.\<close>

theorem part_plan:
  assumes "1 \<le> sz" "sz \<le> MAX_OBJECT"
  shows "\<exists>p. computePartSize sz = Inr p \<and> MIN_PART \<le> p \<and> p \<le> MAX_PART \<and> MIB dvd p \<and>
    1 \<le> partCount sz p \<and> partCount sz p \<le> MAX_PARTS \<and>
    (\<Sum>n = 1 .. partCount sz p. partLength sz p n) = sz \<and>
    (\<forall>n \<in> {1 .. partCount sz p}. 1 \<le> partLength sz p n \<and> partLength sz p n \<le> p \<and>
      (n < partCount sz p \<longrightarrow> partLength sz p n = p))"
proof -
  obtain p where p: "computePartSize sz = Inr p" "MIN_PART \<le> p" "p \<le> 525 * MIB" "MIB dvd p" "sz \<le> p * MAX_PARTS"
    using part_size_plan [OF assms] by blast
  have p': "1 \<le> p" "p \<le> MAX_PART" using p(2,3) by (simp_all add: limit_defs)
  note b = partCount_bounds [OF assms p'] and c = parts_cover [OF assms p']
  have "(partCount sz p - 1) * p < MAX_PARTS * p" using b(2) p(5) by (simp add: mult.commute)
  then have "partCount sz p - 1 < MAX_PARTS" using p'(1) by (simp add: mult_less_cancel_right)
  then show ?thesis using p p' b c by auto
qed

theorem part_plan_witness:
  "\<exists>p. computePartSize (5 * 1024 ^ 4) = Inr p \<and> partCount (5 * 1024 ^ 4) p \<le> 10000"
  using part_plan [of "5 * 1024 ^ 4"] by (auto simp: limit_defs)

end
