(* ===== verification/Files.thy ===== *)
theory Files
  imports PartLimits Ownership Events
begin

text \<open>
  File uploads: \<open>src/files/files.service.ts\<close>, \<open>src/files/files.types.ts\<close>,
  \<open>src/files/storage.service.ts\<close>, the error helpers of \<open>src/storage/s3.ts\<close> and the
  table of \<open>src/migrations/1789800000000-Files.ts\<close>.

  The object store is the parameter \<open>s3\<close>: the answer to each command.  The URL
  signer, Postgres's \<open>bigint\<close> (text in, text out) and the random file id are
  parameters as well.  What other requests do to the table between two
  statements of one request is the parameter \<open>meanwhile\<close>.
\<close>

subsection \<open>The object store\<close>

record s3_error =
  err_name :: "string option"
  err_Code :: "string option"
  err_message :: "string option"
  err_text :: string
  err_http :: "int option"

definition errName :: "s3_error \<Rightarrow> string" where
  "errName e =
     (case err_name e of Some n \<Rightarrow> n
      | None \<Rightarrow> (case err_Code e of Some c \<Rightarrow> c
                | None \<Rightarrow> (case err_message e of Some m \<Rightarrow> m | None \<Rightarrow> err_text e)))"

definition errStatus :: "s3_error \<Rightarrow> int" where
  "errStatus e = (case err_http e of Some n \<Rightarrow> n | None \<Rightarrow> 0)"

record s3_part =
  PartNumber :: nat
  Size :: "int option"
  ETag :: "string option"

record list_page =
  lp_parts :: "s3_part list"
  IsTruncated :: bool
  NextPartNumberMarker :: "string option"

record s3 =
  s3_create :: "string \<Rightarrow> string \<Rightarrow> s3_error + string"
  s3_list :: "string \<Rightarrow> string \<Rightarrow> string option \<Rightarrow> s3_error + list_page"
  s3_complete :: "string \<Rightarrow> string \<Rightarrow> (nat \<times> string option) list \<Rightarrow> s3_error + unit"
  s3_head :: "string \<Rightarrow> s3_error + int option \<times> string option"

record signer =
  sign_put :: "string \<Rightarrow> string \<Rightarrow> int \<Rightarrow> string"
  sign_part :: "string \<Rightarrow> string \<Rightarrow> int \<Rightarrow> int \<Rightarrow> string"
  sign_get :: "string \<Rightarrow> int \<Rightarrow> string"

record storage_service =
  st_s3 :: s3
  st_signer :: signer
  putExpires :: int
  partExpires :: int
  getExpires :: int
  multipartThreshold :: int

definition presignPut :: "storage_service \<Rightarrow> string \<Rightarrow> string \<Rightarrow> string" where
  "presignPut st key contentType = sign_put (st_signer st) key contentType (putExpires st)"

definition presignPart :: "storage_service \<Rightarrow> string \<Rightarrow> string \<Rightarrow> int \<Rightarrow> string" where
  "presignPart st key uploadId n = sign_part (st_signer st) key uploadId n (partExpires st)"

definition presignGet :: "storage_service \<Rightarrow> string \<Rightarrow> string" where
  "presignGet st key = sign_get (st_signer st) key (getExpires st)"

subsection \<open>Rows and answers\<close>

definition CONTENT_TYPES :: "(string \<times> string) list" where
  "CONTENT_TYPES = [(''image/jpeg'', ''jpg''), (''image/png'', ''png''), (''image/webp'', ''webp''),
     (''application/pdf'', ''pdf''), (''application/octet-stream'', ''bin'')]"

datatype file_status = PENDING | COMPLETED

record file_row =
  f_id :: string
  f_key :: string
  f_owner :: string
  f_status :: file_status
  f_content_type :: string
  f_size :: int
  f_upload_id :: "string option"
  f_etag :: "string option"
  f_idempotency_key :: "string option"

record part_info =
  pi_number :: int
  pi_length :: int
  pi_url :: string

datatype upload_body =
    SinglePut string string
  | Multipart string int int "part_info list"

record upload_descriptor =
  ud_id :: string
  ud_key :: string
  ud_status :: file_status
  ud_expires_in :: int
  ud_body :: upload_body

record file_view =
  fv_id :: string
  fv_key :: string
  fv_status :: file_status
  fv_size :: int
  fv_etag :: "string option"

record parts_view =
  pv_part_size :: int
  pv_part_count :: int
  pv_uploaded :: "(nat \<times> int option) list"
  pv_missing :: "part_info list"
  pv_expires_in :: int

record files_env =
  fe_storage :: storage_service
  fe_bigint :: "string \<Rightarrow> string option"
  fe_users :: "string list"

text \<open>A string that is not \<open>null\<close> and not empty.\<close>

fun truthy :: "string option \<Rightarrow> string option" where
  "truthy None = None"
| "truthy (Some s) = (if s = '''' then None else Some s)"

definition conflict_error :: "string \<Rightarrow> exn" where
  "conflict_error code = HttpException 409 (Some code)"

definition file_not_found :: exn where
  "file_not_found = HttpException 404 (Some ''file-not-found'')"

subsection \<open>describe, view\<close>

definition part_infos :: "storage_service \<Rightarrow> file_row \<Rightarrow> string \<Rightarrow> int \<Rightarrow> int list \<Rightarrow> part_info list" where
  "part_infos st row u partSize ns =
     map (\<lambda>n. \<lparr>pi_number = n, pi_length = partLength (f_size row) partSize n, pi_url = presignPart st (f_key row) u n\<rparr>) ns"

definition describe :: "storage_service \<Rightarrow> file_row \<Rightarrow> upload_descriptor res" where
  "describe st row =
     (case truthy (f_upload_id row) of
        None \<Rightarrow> Inr \<lparr>ud_id = f_id row, ud_key = f_key row, ud_status = f_status row, ud_expires_in = putExpires st,
                     ud_body = SinglePut (presignPut st (f_key row) (f_content_type row)) (f_content_type row)\<rparr>
      | Some u \<Rightarrow>
          (case computePartSize (f_size row) of
             Inl e \<Rightarrow> Inl e
           | Inr partSize \<Rightarrow>
               (let total' = partCount (f_size row) partSize
                in Inr \<lparr>ud_id = f_id row, ud_key = f_key row, ud_status = f_status row, ud_expires_in = partExpires st,
                        ud_body = Multipart u partSize total' (part_infos st row u partSize [1 .. total'])\<rparr>)))"

definition view :: "file_row \<Rightarrow> file_view" where
  "view row = \<lparr>fv_id = f_id row, fv_key = f_key row, fv_status = f_status row, fv_size = f_size row, fv_etag = f_etag row\<rparr>"

subsection \<open>owned\<close>

definition load_file :: "file_row list \<Rightarrow> string \<Rightarrow> file_row res" where
  "load_file t i =
     (if \<not> uuid_shape i then Inl file_not_found
      else case select_first (\<lambda>r. f_id r = i) t of None \<Rightarrow> Inl file_not_found | Some row \<Rightarrow> Inr row)"

definition owned :: "file_row list \<Rightarrow> string \<Rightarrow> auth_user \<Rightarrow> file_row res" where
  "owned t i user =
     (case load_file t i of
        Inl e \<Rightarrow> Inl e
      | Inr row \<Rightarrow> if f_owner row \<noteq> au_id user \<and> au_role user \<noteq> admin then Inl not_owner else Inr row)"

interpretation file_owned: ownership load_file f_owner owned
  by unfold_locales (auto simp: owned_def)

subsection \<open>intent\<close>

definition parse_intent :: "json \<Rightarrow> (string \<times> int) option" where
  "parse_intent body =
     (case (field body ''filename'', field body ''contentType'', field body ''size'') of
        (Some (JStr f), Some (JStr ct), Some (JNum n)) \<Rightarrow>
          if 1 \<le> js_length f \<and> js_length f \<le> 255 \<and> ct \<in> fst ` set CONTENT_TYPES \<and>
             js_is_integer (Num n) \<and> 1 \<le> n \<and> n \<le> of_int MAX_OBJECT
          then Some (ct, \<lfloor>n\<rfloor>) else None
      | _ \<Rightarrow> None)"

definition find_intent :: "files_env \<Rightarrow> string \<Rightarrow> string \<Rightarrow> file_row list \<Rightarrow> file_row option res" where
  "find_intent env uid k t =
     (case fe_bigint env uid of
        None \<Rightarrow> Inl (DbError ''22P02'')
      | Some owner \<Rightarrow> Inr (select_first (\<lambda>r. f_owner r = owner \<and> f_idempotency_key r = Some k) t))"

definition object_key :: "string \<Rightarrow> string \<Rightarrow> string \<Rightarrow> string" where
  "object_key uid i ext = ''uploads/'' @ uid @ ''/'' @ i @ ''.'' @ ext"

definition insert_file :: "files_env \<Rightarrow> string \<Rightarrow> file_row \<Rightarrow> file_row list \<Rightarrow> file_row res \<times> file_row list" where
  "insert_file env uid row t =
     (case fe_bigint env uid of
        None \<Rightarrow> (Inl (DbError ''22P02''), t)
      | Some owner \<Rightarrow>
          if f_size row \<le> 0 then (Inl (DbError ''23514''), t)
          else if f_id row \<in> f_id ` set t \<or> f_key row \<in> f_key ` set t \<or>
            (f_idempotency_key row \<noteq> None \<and> (owner, f_idempotency_key row) \<in> (\<lambda>r. (f_owner r, f_idempotency_key r)) ` set t)
          then (Inl (DbError ''23505''), t)
          else if owner \<notin> set (fe_users env) then (Inl (DbError ''23503''), t)
          else (Inr (row\<lparr>f_owner := owner\<rparr>), t @ [row\<lparr>f_owner := owner\<rparr>]))"

text \<open>The result comes with the table and the multipart uploads that were aborted.\<close>

definition store_intent ::
    "files_env \<Rightarrow> string \<Rightarrow> string option \<Rightarrow> string option \<Rightarrow> file_row \<Rightarrow> file_row list \<Rightarrow>
     upload_descriptor res \<times> file_row list \<times> string list" where
  "store_intent env uid key uploadId row t =
     (case insert_file env uid row t of
        (Inr row', t') \<Rightarrow> (describe (fe_storage env) row', t', [])
      | (Inl err, t') \<Rightarrow>
          (let aborted = (case truthy uploadId of None \<Rightarrow> [] | Some u \<Rightarrow> [u]);
               failed = (Inl err, t', aborted)
           in case truthy key of
                None \<Rightarrow> failed
              | Some k \<Rightarrow>
                  if err \<noteq> DbError ''23505'' then failed
                  else (case find_intent env uid k t' of
                          Inl e \<Rightarrow> (Inl e, t', aborted)
                        | Inr None \<Rightarrow> failed
                        | Inr (Some winner) \<Rightarrow> (describe (fe_storage env) winner, t', aborted))))"

definition new_intent ::
    "files_env \<Rightarrow> string \<Rightarrow> (file_row list \<Rightarrow> file_row list) \<Rightarrow> auth_user \<Rightarrow> string \<Rightarrow> int \<Rightarrow> string option \<Rightarrow> file_row list \<Rightarrow>
     upload_descriptor res \<times> file_row list \<times> string list" where
  "new_intent env i meanwhile user contentType sz key t =
     (let st = fe_storage env;
          k = object_key (au_id user) i (the (map_of CONTENT_TYPES contentType));
          row = (\<lambda>u. \<lparr>f_id = i, f_key = k, f_owner = au_id user, f_status = PENDING, f_content_type = contentType,
                       f_size = sz, f_upload_id = u, f_etag = None, f_idempotency_key = key\<rparr>)
      in if multipartThreshold st < sz
         then (case s3_create (st_s3 st) k contentType of
                 Inl e \<Rightarrow> (Inl (Error (errName e)), t, [])
               | Inr u \<Rightarrow> store_intent env (au_id user) key (Some u) (row (Some u)) (meanwhile t))
         else store_intent env (au_id user) key None (row None) (meanwhile t))"

definition intent ::
    "files_env \<Rightarrow> string \<Rightarrow> (file_row list \<Rightarrow> file_row list) \<Rightarrow> auth_user \<Rightarrow> json \<Rightarrow> string option \<Rightarrow> file_row list \<Rightarrow>
     upload_descriptor res \<times> file_row list \<times> string list" where
  "intent env i meanwhile user body key t =
     (case parse_intent body of
        None \<Rightarrow> (Inl (HttpException 400 (Some ''invalid-intent'')), t, [])
      | Some (contentType, sz) \<Rightarrow>
          (case truthy key of
             None \<Rightarrow> new_intent env i meanwhile user contentType sz key t
           | Some k \<Rightarrow>
               (case find_intent env (au_id user) k t of
                  Inl e \<Rightarrow> (Inl e, t, [])
                | Inr (Some row) \<Rightarrow> (describe (fe_storage env) row, t, [])
                | Inr None \<Rightarrow> new_intent env i meanwhile user contentType sz key t)))"

subsection \<open>parts, commit, downloadUrl\<close>

text \<open>\<open>None\<close>: the page budget ran out before the store sent its last page.\<close>

fun listAllParts :: "nat \<Rightarrow> s3 \<Rightarrow> file_row \<Rightarrow> string \<Rightarrow> string option \<Rightarrow> s3_part list \<Rightarrow> s3_part list res option" where
  "listAllParts 0 s row u marker out = None"
| "listAllParts (Suc fuel) s row u marker out =
     (case s3_list s (f_key row) u marker of
        Inl e \<Rightarrow> Some (Inl (Error (errName e)))
      | Inr r \<Rightarrow>
          (let out' = out @ lp_parts r
           in if \<not> IsTruncated r then Some (Inr out')
              else listAllParts fuel s row u (NextPartNumberMarker r) out'))"

definition good_part :: "int \<Rightarrow> int \<Rightarrow> s3_part \<Rightarrow> bool" where
  "good_part sz partSize p \<longleftrightarrow> Size p = Some (partLength sz partSize (int (PartNumber p)))"

text \<open>A JavaScript \<open>Map\<close>: a key keeps its place, the last value wins.\<close>

definition map_set :: "'k \<Rightarrow> 'v \<Rightarrow> ('k \<times> 'v) list \<Rightarrow> ('k \<times> 'v) list" where
  "map_set k v m = (if k \<in> fst ` set m then map (\<lambda>(k', v'). if k' = k then (k, v) else (k', v')) m else m @ [(k, v)])"

definition good_parts :: "int \<Rightarrow> int \<Rightarrow> s3_part list \<Rightarrow> (nat \<times> s3_part) list" where
  "good_parts sz partSize ps = fold (\<lambda>p m. if good_part sz partSize p then map_set (PartNumber p) p m else m) ps []"

definition parts :: "nat \<Rightarrow> storage_service \<Rightarrow> auth_user \<Rightarrow> string \<Rightarrow> file_row list \<Rightarrow> parts_view res option" where
  "parts fuel st user i t =
     (case owned t i user of
        Inl e \<Rightarrow> Some (Inl e)
      | Inr row \<Rightarrow>
          (case truthy (f_upload_id row) of
             None \<Rightarrow> Some (Inl (conflict_error ''not-multipart''))
           | Some u \<Rightarrow>
               if f_status row \<noteq> PENDING then Some (Inl (conflict_error ''already-completed''))
               else (case computePartSize (f_size row) of
                  Inl e \<Rightarrow> Some (Inl e)
                | Inr partSize \<Rightarrow>
                    map_option (\<lambda>r. case r of
                        Inl e \<Rightarrow> Inl e
                      | Inr uploaded \<Rightarrow>
                          (let total' = partCount (f_size row) partSize;
                               good = good_parts (f_size row) partSize uploaded
                           in Inr \<lparr>pv_part_size = partSize, pv_part_count = total',
                                   pv_uploaded = map (\<lambda>(_, p). (PartNumber p, Size p)) good,
                                   pv_missing = part_infos st row u partSize (filter (\<lambda>n. n \<notin> (\<lambda>g. int (fst g)) ` set good) [1 .. total']),
                                   pv_expires_in = partExpires st\<rparr>))
                      (listAllParts fuel (st_s3 st) row u None []))))"

text \<open>
  What \<open>commit\<close> does with the upload before it looks at the object: the parts
  listed at their planned length must be all of them, and are completed in the
  order of their numbers.
\<close>

definition assemble :: "nat \<Rightarrow> storage_service \<Rightarrow> file_row \<Rightarrow> string \<Rightarrow> unit res option" where
  "assemble fuel st row u =
     (case computePartSize (f_size row) of
        Inl e \<Rightarrow> Some (Inl e)
      | Inr partSize \<Rightarrow>
          map_option (\<lambda>r. case r of
              Inl e \<Rightarrow> Inl e
            | Inr uploaded \<Rightarrow>
                (let total' = partCount (f_size row) partSize;
                     have = filter (good_part (f_size row) partSize) uploaded;
                     missing = filter (\<lambda>n. n \<notin> (\<lambda>p. int (PartNumber p)) ` set have) [1 .. total']
                 in if missing \<noteq> [] then Inl (conflict_error ''parts-missing'')
                    else (case s3_complete (st_s3 st) (f_key row) u (map (\<lambda>p. (PartNumber p, ETag p)) (sort_key PartNumber have)) of
                            Inl e \<Rightarrow> if errName e \<noteq> ''NoSuchUpload'' then Inl (Error (errName e)) else Inr ()
                          | Inr _ \<Rightarrow> Inr ())))
            (listAllParts fuel (st_s3 st) row u None []))"

definition complete_row :: "string \<Rightarrow> string option \<Rightarrow> file_row list \<Rightarrow> file_row list" where
  "complete_row i etag t = update_where (\<lambda>r. f_id r = i) (\<lambda>r. r\<lparr>f_status := COMPLETED, f_etag := etag\<rparr>) t"

definition check_object :: "storage_service \<Rightarrow> (file_row list \<Rightarrow> file_row list) \<Rightarrow> file_row \<Rightarrow> file_row list \<Rightarrow> file_view res \<times> file_row list" where
  "check_object st meanwhile row t =
     (case s3_head (st_s3 st) (f_key row) of
        Inl e \<Rightarrow> (Inl (if errStatus e = 404 \<or> errName e = ''NotFound'' then conflict_error ''object-missing'' else Error (errName e)), t)
      | Inr (len, etag) \<Rightarrow>
          if len \<noteq> Some (f_size row) then (Inl (conflict_error ''size-mismatch''), t)
          else (let t' = complete_row (f_id row) etag (meanwhile t)
                in (case select_first (\<lambda>r. f_id r = f_id row) t' of None \<Rightarrow> Inl (Error ''TypeError'') | Some r \<Rightarrow> Inr (view r), t')))"

definition commit :: "nat \<Rightarrow> storage_service \<Rightarrow> (file_row list \<Rightarrow> file_row list) \<Rightarrow> auth_user \<Rightarrow> string \<Rightarrow> file_row list \<Rightarrow>
    (file_view res \<times> file_row list) option" where
  "commit fuel st meanwhile user i t =
     (case owned t i user of
        Inl e \<Rightarrow> Some (Inl e, t)
      | Inr row \<Rightarrow>
          if f_status row = COMPLETED then Some (Inr (view row), t)
          else (case truthy (f_upload_id row) of
             None \<Rightarrow> Some (check_object st meanwhile row t)
           | Some u \<Rightarrow>
               map_option (\<lambda>r. case r of Inl e \<Rightarrow> (Inl e, t) | Inr _ \<Rightarrow> check_object st meanwhile row t)
                 (assemble fuel st row u)))"

definition downloadUrl :: "storage_service \<Rightarrow> auth_user \<Rightarrow> string \<Rightarrow> file_row list \<Rightarrow> string res" where
  "downloadUrl st user i t =
     (case owned t i user of
        Inl e \<Rightarrow> Inl e
      | Inr row \<Rightarrow> if f_status row \<noteq> COMPLETED then Inl (conflict_error ''not-completed'') else Inr (presignGet st (f_key row)))"

subsection \<open>Listing ends with every part\<close>

text \<open>
  The documented paging of \<open>ListParts\<close>: a page starts after the marker, holds at
  least one of the remaining parts in ascending order, says whether more
  remain, and names its last part as the next marker.
\<close>

definition pages_of :: "s3 \<Rightarrow> string \<Rightarrow> string \<Rightarrow> s3_part list \<Rightarrow> bool" where
  "pages_of s key u ps \<longleftrightarrow> sorted (map PartNumber ps) \<and> distinct (map PartNumber ps) \<and> (\<forall>p \<in> set ps. 1 \<le> PartNumber p) \<and>
     (\<forall>m. let rest = filter (\<lambda>p. m < PartNumber p) ps in
        \<exists>k > 0. s3_list s key u (if m = 0 then None else Some (show_nat m)) =
          Inr \<lparr>lp_parts = take k rest, IsTruncated = (k < length rest),
               NextPartNumberMarker = (if take k rest = [] then None else Some (show_nat (PartNumber (last (take k rest)))))\<rparr>)"

lemma filter_after:
  assumes "sorted (map f xs)" "distinct (map f xs)" "0 < k" "k < length xs"
  shows "filter (\<lambda>x. f (last (take k xs)) < (f x :: nat)) xs = drop k xs"
proof -
  let ?m = "f (xs ! (k - 1))"
  have last: "last (take k xs) = xs ! (k - 1)" using assms(3,4) by (subst last_conv_nth) (auto simp: min_def)
  have lt: "f (xs ! i) < f (xs ! j)" if "i < j" "j < length xs" for i j
    using assms(1,2) that sorted_nth_mono [of "map f xs" i j] nth_eq_iff_index_eq [of "map f xs" i j] by fastforce
  have "\<not> ?m < f x" if "x \<in> set (take k xs)" for x
  proof -
    from that obtain i where "i < length (take k xs)" "take k xs ! i = x" unfolding in_set_conv_nth by blast
    then have i: "i < k" "x = xs ! i" by simp_all
    show ?thesis
    proof (cases "i = k - 1")
      case False
      then have "i < k - 1" using i(1) by linarith
      then show ?thesis using lt [of i "k - 1"] less_imp_diff_less [OF assms(4), of 1] i(2) by simp
    qed (simp add: i)
  qed
  moreover have "?m < f x" if "x \<in> set (drop k xs)" for x
  proof -
    from that obtain i where "i < length (drop k xs)" "drop k xs ! i = x" unfolding in_set_conv_nth by blast
    then have i: "k + i < length xs" "x = xs ! (k + i)" by simp_all
    then show ?thesis using lt [of "k - 1" "k + i"] assms(3) by simp
  qed
  ultimately have "filter (\<lambda>x. ?m < f x) (take k xs) = []" "filter (\<lambda>x. ?m < f x) (drop k xs) = drop k xs"
    by (simp_all add: filter_empty_conv)
  then have "filter (\<lambda>x. ?m < f x) (take k xs @ drop k xs) = drop k xs" by (simp only: filter_append append_Nil)
  then show ?thesis unfolding last by (simp only: append_take_drop_id)
qed

lemma listAllParts_from:
  assumes pages: "pages_of s (f_key row) u ps" and fuel: "length (filter (\<lambda>p. m < PartNumber p) ps) < fuel"
  shows "listAllParts fuel s row u (if m = 0 then None else Some (show_nat m)) out =
    Some (Inr (out @ filter (\<lambda>p. m < PartNumber p) ps))"
  using fuel
proof (induction fuel arbitrary: m out)
  case (Suc fuel)
  define rest where "rest = filter (\<lambda>p. m < PartNumber p) ps"
  obtain k where k: "0 < k" and page: "s3_list s (f_key row) u (if m = 0 then None else Some (show_nat m)) =
      Inr \<lparr>lp_parts = take k rest, IsTruncated = (k < length rest),
           NextPartNumberMarker = (if take k rest = [] then None else Some (show_nat (PartNumber (last (take k rest)))))\<rparr>"
    using pages unfolding pages_of_def Let_def rest_def by metis
  show ?case
  proof (cases "k < length rest")
    case False
    then show ?thesis using page by (simp add: Let_def rest_def [symmetric])
  next
    case True
    define m' where "m' = PartNumber (last (take k rest))"
    have ne: "take k rest \<noteq> []" using k True by auto
    have s: "sorted (map PartNumber rest)" "distinct (map PartNumber rest)"
      using pages by (auto simp: pages_of_def rest_def sorted_filter distinct_map_filter)
    have "last (take k rest) \<in> set rest" using last_in_set [OF ne] by (meson in_set_takeD)
    then have mm: "m < m'" by (simp add: rest_def m'_def)
    have "filter (\<lambda>p. m' < PartNumber p) ps = filter (\<lambda>p. m' < PartNumber p) rest"
      using mm by (auto simp: rest_def intro: filter_cong)
    then have rest': "filter (\<lambda>p. m' < PartNumber p) ps = drop k rest"
      using filter_after [OF s k True] by (simp add: m'_def)
    have marker: "(if m' = 0 then None else Some (show_nat m')) = Some (show_nat m')" using mm by simp
    have "length (filter (\<lambda>p. m' < PartNumber p) ps) < fuel" using Suc.prems k True by (simp add: rest' rest_def [symmetric])
    from Suc.IH [OF this, of "out @ take k rest"]
    have "listAllParts fuel s row u (Some (show_nat m')) (out @ take k rest) = Some (Inr (out @ rest))"
      unfolding marker rest' by simp
    then show ?thesis using page True ne by (simp add: Let_def rest_def [symmetric] m'_def [symmetric])
  qed
qed simp

lemma listAllParts_all:
  assumes "pages_of s (f_key row) u ps" "length ps < fuel"
  shows "listAllParts fuel s row u None [] = Some (Inr ps)"
proof -
  have all: "filter (\<lambda>p. 0 < PartNumber p) ps = ps" using assms(1) unfolding pages_of_def filter_id_conv by (elim conjE) (simp add: Suc_le_eq)
  show ?thesis using listAllParts_from [OF assms(1), of 0 fuel "[]"] assms(2) by (simp add: all)
qed

subsection \<open>What commit has seen\<close>

lemma owned_row_Inr:
  "owned t i user = Inr row \<longleftrightarrow> uuid_shape i \<and> select_first (\<lambda>r. f_id r = i) t = Some row \<and>
     (f_owner row = au_id user \<or> au_role user = admin)"
  unfolding file_owned.owned_Inr by (auto simp: load_file_def split: option.splits)

lemma check_object_Inr:
  assumes "check_object st meanwhile row t = (Inr v, t')"
  shows "\<exists>etag. s3_head (st_s3 st) (f_key row) = Inr (Some (f_size row), etag) \<and> t' = complete_row (f_id row) etag (meanwhile t)"
  using assms by (auto simp: check_object_def Let_def split: sum.splits prod.splits if_splits option.splits)

lemma assemble_Inr:
  assumes "assemble fuel st row u = Some (Inr x)"
  shows "\<exists>ps p. listAllParts fuel (st_s3 st) row u None [] = Some (Inr ps) \<and> computePartSize (f_size row) = Inr p \<and>
    (\<forall>n \<in> {1 .. partCount (f_size row) p}. \<exists>q \<in> set ps. int (PartNumber q) = n \<and> Size q = Some (partLength (f_size row) p n))"
proof -
  obtain p where p: "computePartSize (f_size row) = Inr p" using assms by (auto simp: assemble_def split: sum.splits)
  obtain r where r: "listAllParts fuel (st_s3 st) row u None [] = Some r" using assms p by (auto simp: assemble_def)
  obtain ps where ps: "r = Inr ps" using assms p r by (cases r) (auto simp: assemble_def)
  have "filter (\<lambda>n. n \<notin> (\<lambda>p. int (PartNumber p)) ` set (filter (good_part (f_size row) p) ps)) [1 .. partCount (f_size row) p] = []"
    using assms p r ps by (auto simp: assemble_def Let_def split: if_splits)
  then have "\<forall>n \<in> {1 .. partCount (f_size row) p}. n \<in> (\<lambda>p. int (PartNumber p)) ` set (filter (good_part (f_size row) p) ps)"
    unfolding filter_empty_conv by simp
  then show ?thesis using p r ps by (intro exI [of _ ps] exI [of _ p]) (fastforce simp: good_part_def)
qed

text \<open>C25: a commit that succeeds on a file still pending has checked the bytes: the
  store reported an object of exactly the announced size, for a multipart
  upload every part from 1 to the planned count was listed with its planned
  length, and the only change to the table is that this row is completed
  with the store's etag.  The caller owns the file or is an admin.\<close>

theorem commit_verified:
  assumes c: "commit fuel st meanwhile user i t = Some (Inr v, t')" and row: "select_first (\<lambda>r. f_id r = i) t = Some row"
    and pending: "f_status row = PENDING"
  shows "(f_owner row = au_id user \<or> au_role user = admin) \<and>
    (\<exists>etag. s3_head (st_s3 st) (f_key row) = Inr (Some (f_size row), etag) \<and> t' = complete_row i etag (meanwhile t)) \<and>
    (case truthy (f_upload_id row) of None \<Rightarrow> True
     | Some u \<Rightarrow> \<exists>ps p. listAllParts fuel (st_s3 st) row u None [] = Some (Inr ps) \<and> computePartSize (f_size row) = Inr p \<and>
         (\<forall>n \<in> {1 .. partCount (f_size row) p}. \<exists>q \<in> set ps. int (PartNumber q) = n \<and> Size q = Some (partLength (f_size row) p n)))"
proof -
  have o': "owned t i user = Inr row" using c row by (auto simp: commit_def owned_def load_file_def split: if_splits)
  have own: "f_owner row = au_id user \<or> au_role user = admin" using o' unfolding owned_row_Inr by blast
  have i: "f_id row = i" using select_first_Some [OF row] by simp
  show ?thesis
  proof (cases "truthy (f_upload_id row)")
    case None
    then have "check_object st meanwhile row t = (Inr v, t')" using c o' pending by (simp add: commit_def)
    then show ?thesis using check_object_Inr own None i by auto
  next
    case (Some u)
    obtain r where r: "assemble fuel st row u = Some r" using c o' pending Some by (auto simp: commit_def)
    obtain x where x: "r = Inr x" using c o' pending Some r by (cases r) (auto simp: commit_def)
    have "check_object st meanwhile row t = (Inr v, t')" using c o' pending Some r x by (simp add: commit_def)
    then show ?thesis using check_object_Inr assemble_Inr [of fuel st row u x] r x own Some i by auto
  qed
qed

text \<open>Against a store that pages as documented, listing the parts ends after at
  most one call per part and one more, and returns each part exactly once,
  however the store cuts its pages.\<close>

theorem listAllParts_complete:
  assumes "pages_of s (f_key row) u ps"
  shows "listAllParts (Suc (length ps)) s row u None [] = Some (Inr ps)"
  using listAllParts_all [OF assms, of "Suc (length ps)"] by simp

subsection \<open>Resuming an upload\<close>

lemma keys_map_set: "fst ` set (map_set k v m) = insert k (fst ` set m)"
  by (auto simp: map_set_def image_iff split: if_splits) (force+)?

lemma keys_good_parts: "fst ` set (good_parts sz p ps) = PartNumber ` set (filter (good_part sz p) ps)"
proof -
  have "fst ` set (fold (\<lambda>q m. if good_part sz p q then map_set (PartNumber q) q m else m) ps m) =
      fst ` set m \<union> PartNumber ` set (filter (good_part sz p) ps)" for m
    by (induction ps arbitrary: m) (auto simp: keys_map_set)
  then show ?thesis by (simp add: good_parts_def)
qed

definition missing_parts :: "int \<Rightarrow> int \<Rightarrow> s3_part list \<Rightarrow> int list" where
  "missing_parts sz p ps =
     filter (\<lambda>n. n \<notin> (\<lambda>q. int (PartNumber q)) ` set (filter (good_part sz p) ps)) [1 .. partCount sz p]"

lemma in_missing_parts:
  "n \<in> set (missing_parts sz p ps) \<longleftrightarrow> 1 \<le> n \<and> n \<le> partCount sz p \<and>
     \<not> (\<exists>q \<in> set ps. int (PartNumber q) = n \<and> Size q = Some (partLength sz p n))"
  by (auto simp: missing_parts_def good_part_def)

lemma missing_good_parts:
  "filter (\<lambda>n. n \<notin> (\<lambda>g. int (fst g)) ` set (good_parts sz p ps)) [1 .. partCount sz p] = missing_parts sz p ps"
proof -
  have "(\<lambda>g. int (fst g)) ` set (good_parts sz p ps) = int ` (fst ` set (good_parts sz p ps))" by (simp only: image_image)
  also have "\<dots> = (\<lambda>q. int (PartNumber q)) ` set (filter (good_part sz p) ps)" by (simp only: keys_good_parts image_image)
  finally show ?thesis unfolding missing_parts_def by (rule arg_cong)
qed

lemma parts_pending:
  assumes "owned t i user = Inr row" "truthy (f_upload_id row) = Some u" "f_status row = PENDING"
    and "computePartSize (f_size row) = Inr p" "listAllParts fuel (st_s3 st) row u None [] = Some (Inr ps)"
  shows "\<exists>d. parts fuel st user i t = Some (Inr d) \<and>
    pv_missing d = part_infos st row u p (missing_parts (f_size row) p ps)"
  using assms by (simp add: parts_def Let_def missing_good_parts)

lemma assemble_missing:
  assumes "computePartSize (f_size row) = Inr p" "listAllParts fuel (st_s3 st) row u None [] = Some (Inr ps)"
  shows "missing_parts (f_size row) p ps \<noteq> [] \<Longrightarrow> assemble fuel st row u = Some (Inl (conflict_error ''parts-missing''))"
    "missing_parts (f_size row) p ps = [] \<Longrightarrow> assemble fuel st row u \<noteq> Some (Inl (conflict_error ''parts-missing''))"
  using assms by (auto simp: assemble_def Let_def missing_parts_def conflict_error_def split: sum.splits)

text \<open>C26: what a client is told to upload is what stands between it and the commit:
  the missing parts are those of the plan that are not stored at their planned
  length, each with its length and a fresh URL; as long as there are any the
  commit answers 409 \<open>parts-missing\<close> and changes nothing; and when the stored
  parts are kept and exactly the missing ones are added, the commit no longer
  refuses for missing parts.\<close>

theorem resume_then_commit:
  assumes o': "owned t i user = Inr row" and u: "truthy (f_upload_id row) = Some u" and pending: "f_status row = PENDING"
    and p: "computePartSize (f_size row) = Inr p" and l: "listAllParts fuel (st_s3 st) row u None [] = Some (Inr ps)"
  shows "\<exists>d. parts fuel st user i t = Some (Inr d) \<and>
    (\<forall>m. m \<in> set (pv_missing d) \<longleftrightarrow> 1 \<le> pi_number m \<and> pi_number m \<le> partCount (f_size row) p \<and>
      pi_length m = partLength (f_size row) p (pi_number m) \<and> pi_url m = presignPart st (f_key row) u (pi_number m) \<and>
      \<not> (\<exists>q \<in> set ps. int (PartNumber q) = pi_number m \<and> Size q = Some (pi_length m))) \<and>
    (pv_missing d \<noteq> [] \<longrightarrow> commit fuel st meanwhile user i t = Some (Inl (conflict_error ''parts-missing''), t)) \<and>
    (\<forall>st' ps'. listAllParts fuel (st_s3 st') row u None [] = Some (Inr ps') \<longrightarrow> set ps \<subseteq> set ps' \<longrightarrow>
      (\<forall>m \<in> set (pv_missing d). \<exists>q \<in> set ps'. int (PartNumber q) = pi_number m \<and> Size q = Some (pi_length m)) \<longrightarrow>
      assemble fuel st' row u \<noteq> Some (Inl (conflict_error ''parts-missing'')))"
proof -
  let ?sz = "f_size row"
  obtain d where d: "parts fuel st user i t = Some (Inr d)" "pv_missing d = part_infos st row u p (missing_parts ?sz p ps)"
    using parts_pending [OF o' u pending p l] by blast
  have "pi_number m \<in> set (missing_parts ?sz p ps) \<and> pi_length m = partLength ?sz p (pi_number m) \<and>
      pi_url m = presignPart st (f_key row) u (pi_number m) \<longleftrightarrow> m \<in> set (pv_missing d)" for m
    by (cases m) (auto simp: d(2) part_infos_def)
  then have miss: "m \<in> set (pv_missing d) \<longleftrightarrow> 1 \<le> pi_number m \<and> pi_number m \<le> partCount ?sz p \<and>
      pi_length m = partLength ?sz p (pi_number m) \<and> pi_url m = presignPart st (f_key row) u (pi_number m) \<and>
      \<not> (\<exists>q \<in> set ps. int (PartNumber q) = pi_number m \<and> Size q = Some (pi_length m))" for m
    by (metis in_missing_parts)
  have no: "commit fuel st meanwhile user i t = Some (Inl (conflict_error ''parts-missing''), t)" if "pv_missing d \<noteq> []"
  proof -
    have "missing_parts ?sz p ps \<noteq> []" using that by (simp add: d(2) part_infos_def)
    from assemble_missing(1) [OF p l this] show ?thesis using o' u pending by (simp add: commit_def)
  qed
  have go: "assemble fuel st' row u \<noteq> Some (Inl (conflict_error ''parts-missing''))"
    if l': "listAllParts fuel (st_s3 st') row u None [] = Some (Inr ps')" and kept: "set ps \<subseteq> set ps'"
      and added: "\<forall>m \<in> set (pv_missing d). \<exists>q \<in> set ps'. int (PartNumber q) = pi_number m \<and> Size q = Some (pi_length m)" for st' ps'
  proof (rule assemble_missing(2) [OF p l'])
    have "\<exists>q \<in> set ps'. int (PartNumber q) = n \<and> Size q = Some (partLength ?sz p n)" if n: "n \<in> {1 .. partCount ?sz p}" for n
    proof -
      let ?m = "\<lparr>pi_number = n, pi_length = partLength ?sz p n, pi_url = presignPart st (f_key row) u n\<rparr>"
      have "?m \<in> set (pv_missing d) \<or> (\<exists>q \<in> set ps. int (PartNumber q) = n \<and> Size q = Some (partLength ?sz p n))"
        using n by (auto simp: miss)
      then show ?thesis using added kept by fastforce
    qed
    then have "n \<notin> set (missing_parts ?sz p ps')" for n unfolding in_missing_parts atLeastAtMost_iff by blast
    then show "missing_parts ?sz p ps' = []" by (metis last_in_set)
  qed
  show ?thesis using d(1) miss no go by (intro exI [of _ d]) blast
qed

subsection \<open>The invariant of the table\<close>

text \<open>
  Ids, keys and idempotency keys (per owner) are unique; an object key is the
  prefix of its owner, the server's id and an extension of the allow-list; the
  size is admissible and the row is multipart exactly above the threshold.
\<close>

definition file_row_ok :: "files_env \<Rightarrow> file_row \<Rightarrow> bool" where
  "file_row_ok env r \<longleftrightarrow> 1 \<le> f_size r \<and> f_size r \<le> MAX_OBJECT \<and> f_owner r \<in> set (fe_users env) \<and>
     (\<exists>uid ext. fe_bigint env uid = Some (f_owner r) \<and> map_of CONTENT_TYPES (f_content_type r) = Some ext \<and>
        f_key r = object_key uid (f_id r) ext) \<and>
     (f_upload_id r \<noteq> None \<longleftrightarrow> multipartThreshold (fe_storage env) < f_size r)"

definition files_ok :: "files_env \<Rightarrow> file_row list \<Rightarrow> bool" where
  "files_ok env t \<longleftrightarrow> distinct (map f_id t) \<and> distinct (map f_key t) \<and>
     distinct (map (\<lambda>r. (f_owner r, f_idempotency_key r)) (filter (\<lambda>r. f_idempotency_key r \<noteq> None) t)) \<and>
     (\<forall>r \<in> set t. file_row_ok env r)"

lemma parse_intent_Some:
  assumes "parse_intent body = Some (ct, sz)"
  shows "1 \<le> sz" "sz \<le> MAX_OBJECT" "map_of CONTENT_TYPES ct = Some (the (map_of CONTENT_TYPES ct))"
proof -
  have n: "1 \<le> sz \<and> sz \<le> MAX_OBJECT \<and> ct \<in> fst ` set CONTENT_TYPES"
    using assms by (auto simp: parse_intent_def intro: rev_image_eqI split: option.splits json.splits if_splits)
  then show "1 \<le> sz" "sz \<le> MAX_OBJECT" by simp_all
  have "map_of CONTENT_TYPES ct \<noteq> None" using n by (simp add: map_of_eq_None_iff)
  then show "map_of CONTENT_TYPES ct = Some (the (map_of CONTENT_TYPES ct))" by simp
qed

lemma insert_file_Inr:
  assumes "insert_file env uid row t = (Inr row', t')"
  shows "\<exists>owner. fe_bigint env uid = Some owner \<and> owner \<in> set (fe_users env) \<and> row' = row\<lparr>f_owner := owner\<rparr> \<and> t' = t @ [row'] \<and>
    f_id row \<notin> f_id ` set t \<and> f_key row \<notin> f_key ` set t \<and>
    (f_idempotency_key row = None \<or> (owner, f_idempotency_key row) \<notin> (\<lambda>r. (f_owner r, f_idempotency_key r)) ` set t)"
  using assms by (auto simp: insert_file_def split: option.splits if_splits)

lemma insert_file_Inl: "insert_file env uid row t = (Inl e, t') \<Longrightarrow> t' = t"
  by (auto simp: insert_file_def split: option.splits if_splits)

lemma store_intent_table:
  "fst (snd (store_intent env uid key u row t)) = snd (insert_file env uid row t)"
  by (auto simp: store_intent_def Let_def split: prod.splits sum.splits option.splits)

lemma files_ok_insert:
  assumes ok: "files_ok env t" and ins: "insert_file env uid row t = (res, t')"
    and row: "1 \<le> f_size row" "f_size row \<le> MAX_OBJECT" "map_of CONTENT_TYPES (f_content_type row) = Some ext"
      "f_key row = object_key uid (f_id row) ext" "f_upload_id row \<noteq> None \<longleftrightarrow> multipartThreshold (fe_storage env) < f_size row"
  shows "files_ok env t'"
proof (cases res)
  case (Inl e)
  then show ?thesis using ok insert_file_Inl [OF ins [unfolded Inl]] by simp
next
  case (Inr row')
  from insert_file_Inr [OF ins [unfolded Inr]] obtain owner where
    o': "fe_bigint env uid = Some owner" "owner \<in> set (fe_users env)" "row' = row\<lparr>f_owner := owner\<rparr>" "t' = t @ [row']"
    and new: "f_id row \<notin> f_id ` set t" "f_key row \<notin> f_key ` set t"
      "f_idempotency_key row = None \<or> (owner, f_idempotency_key row) \<notin> (\<lambda>r. (f_owner r, f_idempotency_key r)) ` set t"
    by blast
  have r: "file_row_ok env row'" using o'(1,2) row unfolding o'(3) file_row_ok_def by auto
  have old: "distinct (map f_id t)" "distinct (map f_key t)" "\<forall>r \<in> set t. file_row_ok env r"
    "distinct (map (\<lambda>r. (f_owner r, f_idempotency_key r)) (filter (\<lambda>r. f_idempotency_key r \<noteq> None) t))"
    using ok unfolding files_ok_def by blast+
  have "distinct (map (\<lambda>r. (f_owner r, f_idempotency_key r)) (filter (\<lambda>r. f_idempotency_key r \<noteq> None) t'))"
    using old(4) new(3) unfolding o'(3,4) by (cases "f_idempotency_key row") (auto simp: image_iff)
  then show ?thesis using old(1-3) new(1,2) r unfolding files_ok_def o'(3,4) by simp
qed

lemma files_ok_intent [inv_intros]:
  assumes ok: "files_ok env t" "files_ok env (meanwhile t)"
  shows "files_ok env (fst (snd (intent env i meanwhile user body key t)))"
proof (cases "parse_intent body")
  case None
  then show ?thesis using ok by (simp add: intent_def)
next
  case (Some cs)
  obtain ct sz where cs: "cs = (ct, sz)" by fastforce
  note p = parse_intent_Some [OF Some [unfolded cs]]
  have ins: "files_ok env (snd (insert_file env (au_id user) row (meanwhile t)))"
    if "f_size row = sz" "f_content_type row = ct" "f_key row = object_key (au_id user) (f_id row) (the (map_of CONTENT_TYPES ct))"
      "f_upload_id row \<noteq> None \<longleftrightarrow> multipartThreshold (fe_storage env) < sz" for row
  proof -
    obtain res t' where "insert_file env (au_id user) row (meanwhile t) = (res, t')" by fastforce
    from files_ok_insert [OF ok(2) this, where ext = "the (map_of CONTENT_TYPES ct)"] p that this
    show ?thesis by simp
  qed
  have new: "files_ok env (fst (snd (new_intent env i meanwhile user ct sz key t)))"
    by (auto simp: new_intent_def Let_def store_intent_table ok(1) intro!: ins split: sum.splits)
  show ?thesis
    using Some cs new ok(1)
    by (auto simp: intent_def split: option.splits sum.splits)
qed

lemma files_ok_complete [inv_intros]: "files_ok env t \<Longrightarrow> files_ok env (complete_row i etag t)"
proof -
  assume ok: "files_ok env t"
  have "map f_id (complete_row i etag t) = map f_id t" "map f_key (complete_row i etag t) = map f_key t"
    unfolding complete_row_def by (simp_all add: map_update_where)
  moreover have "map (\<lambda>r. (f_owner r, f_idempotency_key r)) (filter (\<lambda>r. f_idempotency_key r \<noteq> None) (complete_row i etag t)) =
      map (\<lambda>r. (f_owner r, f_idempotency_key r)) (filter (\<lambda>r. f_idempotency_key r \<noteq> None) t)"
    unfolding complete_row_def by (induction t) simp_all
  moreover have "\<forall>r \<in> set (complete_row i etag t). file_row_ok env r"
    using ok unfolding complete_row_def set_update_where by (auto simp: files_ok_def file_row_ok_def)
  ultimately show "files_ok env (complete_row i etag t)" using ok by (simp add: files_ok_def)
qed

lemma check_object_table:
  "snd (check_object st meanwhile row t) = t \<or> (\<exists>etag. snd (check_object st meanwhile row t) = complete_row (f_id row) etag (meanwhile t))"
  by (auto simp: check_object_def Let_def split: sum.split prod.split)

lemma commit_table:
  assumes "commit fuel st meanwhile user i t = Some (res, t')"
  shows "t' = t \<or> (\<exists>j etag. t' = complete_row j etag (meanwhile t))"
proof (cases "\<exists>row. check_object st meanwhile row t = (res, t')")
  case True
  then obtain row where "check_object st meanwhile row t = (res, t')" ..
  then show ?thesis using check_object_table [of st meanwhile row t] by auto
next
  case False
  then show ?thesis
    using assms by (auto simp: commit_def split: sum.split_asm if_split_asm option.split_asm)
      (metis sumE old.unit.exhaust)
qed

lemma files_ok_commit [inv_intros]:
  assumes "files_ok env t" "files_ok env (meanwhile t)" "commit fuel st meanwhile user i t = Some (res, t')"
  shows "files_ok env t'"
  using commit_table [OF assms(3)] assms(1,2) files_ok_complete by blast

lemma files_stay_ok_describe:
  assumes ok: "files_ok env t" and r: "r \<in> set t"
  shows "\<exists>d. describe (fe_storage env) r = Inr d"
proof -
  have "1 \<le> f_size r" "f_size r \<le> MAX_OBJECT" using ok r by (auto simp: files_ok_def file_row_ok_def)
  then obtain p where "computePartSize (f_size r) = Inr p" using part_size_plan by blast
  then show ?thesis by (cases "truthy (f_upload_id r)") (simp_all add: describe_def Let_def)
qed

text \<open>C28: requests keep the table in order, also when other requests run between their
  statements: ids, object keys and each owner's idempotency keys stay unique,
  an object key stays under its owner's prefix and contains nothing from the
  client but the allow-listed type, and every row can be described: its part
  plan exists.\<close>

theorem files_stay_ok:
  assumes "files_ok env t" "files_ok env (meanwhile t)"
  shows "files_ok env (fst (snd (intent env i meanwhile user body key t))) \<and>
    (\<forall>res t'. commit fuel st meanwhile user j t = Some (res, t') \<longrightarrow> files_ok env t') \<and>
    (\<forall>r \<in> set t. \<exists>d. describe (fe_storage env) r = Inr d)"
  using files_ok_intent [of env t meanwhile, OF assms] files_ok_commit [of env t meanwhile, OF assms]
    files_stay_ok_describe [OF assms(1)] by blast

subsection \<open>Two taps, one file\<close>

lemma truthy_Some: "truthy x = Some k \<longleftrightarrow> x = Some k \<and> k \<noteq> ''''"
  by (cases x) auto

lemma find_intent_unique:
  assumes ok: "files_ok env t" and w: "w \<in> set t" "f_owner w = owner" "f_idempotency_key w = Some k" and b: "fe_bigint env uid = Some owner"
  shows "find_intent env uid k t = Inr (Some w)"
proof -
  let ?P = "\<lambda>r. f_owner r = owner \<and> f_idempotency_key r = Some k"
  obtain r where r: "select_first ?P t = Some r"
    using w select_first_None [of ?P t] by (cases "select_first ?P t") auto
  from select_first_Some [OF this] have r': "r \<in> set t" "f_owner r = owner" "f_idempotency_key r = Some k" by simp_all
  have "r = w"
    by (rule distinct_key_unique [of "\<lambda>r. (f_owner r, f_idempotency_key r)" "filter (\<lambda>r. f_idempotency_key r \<noteq> None) t"])
      (use ok r' w in \<open>simp_all add: files_ok_def\<close>)
  then show ?thesis using r b by (simp add: find_intent_def)
qed

lemma insert_file_taken:
  assumes "fe_bigint env uid = Some owner" "0 < f_size row" "f_idempotency_key row \<noteq> None"
    and "w \<in> set t" "f_owner w = owner" "f_idempotency_key w = f_idempotency_key row"
  shows "insert_file env uid row t = (Inl (DbError ''23505''), t)"
proof -
  have "(owner, f_idempotency_key row) \<in> (\<lambda>r. (f_owner r, f_idempotency_key r)) ` set t"
    using assms(4-6) by (auto intro!: rev_image_eqI)
  then show ?thesis using assms(1-3) by (simp add: insert_file_def)
qed

text \<open>C29: an intent whose key the owner has already used answers with the file of the
  first intent and adds no row, whatever its body asks for: when the key is
  found by the query, and equally when the first intent wins the race between
  the query and the insert; then the multipart upload the loser has opened is
  aborted.  The loser of the race gets the answer it would have got had it
  come second.\<close>

theorem same_key_same_file:
  assumes body: "parse_intent body = Some (ct, sz)" and key: "truthy key = Some k" and uid: "fe_bigint env (au_id user) = Some owner"
    and ok: "files_ok env (meanwhile t)" and w: "w \<in> set (meanwhile t)" "f_owner w = owner" "f_idempotency_key w = Some k"
    and lost: "find_intent env (au_id user) k t = Inr None"
    and s3: "s3_create (st_s3 (fe_storage env)) (object_key (au_id user) i (the (map_of CONTENT_TYPES ct))) ct = Inr u" "u \<noteq> ''''"
  shows "intent env i meanwhile user body key t =
      (describe (fe_storage env) w, meanwhile t, if multipartThreshold (fe_storage env) < sz then [u] else []) \<and>
    intent env i m user body key (meanwhile t) = (describe (fe_storage env) w, meanwhile t, []) \<and>
    (\<exists>d. describe (fe_storage env) w = Inr d)"
proof -
  have k: "key = Some k" "k \<noteq> ''''" using key by (simp_all add: truthy_Some)
  note found = find_intent_unique [OF ok w uid]
  have "insert_file env (au_id user) row (meanwhile t) = (Inl (DbError ''23505''), meanwhile t)"
    if "f_size row = sz" "f_idempotency_key row = key" for row
    using that parse_intent_Some(1) [OF body] k w by (intro insert_file_taken [OF uid, where w = w]) simp_all
  then have "store_intent env (au_id user) key x row (meanwhile t) =
      (describe (fe_storage env) w, meanwhile t, case truthy x of None \<Rightarrow> [] | Some u \<Rightarrow> [u])"
    if "f_size row = sz" "f_idempotency_key row = key" for x row
    using that found key by (simp add: store_intent_def Let_def)
  then have "intent env i meanwhile user body key t =
      (describe (fe_storage env) w, meanwhile t, if multipartThreshold (fe_storage env) < sz then [u] else [])"
    using body key lost s3 by (simp add: intent_def new_intent_def Let_def)
  moreover have "intent env i m user body key (meanwhile t) = (describe (fe_storage env) w, meanwhile t, [])"
    using body key found by (simp add: intent_def)
  ultimately show ?thesis using files_stay_ok_describe [OF ok w(1)] by blast
qed

text \<open>
  An empty \<open>Idempotency-Key\<close> header is no key for the two checks, but it is
  stored as one: the owner's second such request fails with the unique
  violation itself.
\<close>

lemma empty_key_conflicts:
  assumes body: "parse_intent body = Some (ct, sz)" and uid: "fe_bigint env (au_id user) = Some owner"
    and w: "w \<in> set (meanwhile t)" "f_owner w = owner" "f_idempotency_key w = Some ''''" and small: "sz \<le> multipartThreshold (fe_storage env)"
  shows "fst (intent env i meanwhile user body (Some '''') t) = Inl (DbError ''23505'')"
proof -
  have "insert_file env (au_id user) row (meanwhile t) = (Inl (DbError ''23505''), meanwhile t)"
    if "f_size row = sz" "f_idempotency_key row = Some ''''" for row
    using that parse_intent_Some(1) [OF body] w by (intro insert_file_taken [OF uid, where w = w]) simp_all
  then show ?thesis using body small by (simp add: intent_def new_intent_def store_intent_def Let_def)
qed

subsection \<open>Witnesses\<close>

definition example_bytes :: s3 where
  "example_bytes = \<lparr>s3_create = (\<lambda>_ _. Inr ''up''),
     s3_list = (\<lambda>_ _ m. Inr \<lparr>lp_parts = (if m = None then [\<lparr>PartNumber = 1, Size = Some 5242880, ETag = Some ''e''\<rparr>] else []),
       IsTruncated = False, NextPartNumberMarker = (if m = None then Some (show_nat 1) else None)\<rparr>),
     s3_complete = (\<lambda>_ _ _. Inr ()), s3_head = (\<lambda>_. Inr (Some 6000000, Some ''etag''))\<rparr>"

definition example_storage :: storage_service where
  "example_storage = \<lparr>st_s3 = example_bytes, st_signer = \<lparr>sign_put = (\<lambda>_ _ _. ''put''), sign_part = (\<lambda>_ _ _ _. ''part''),
     sign_get = (\<lambda>_ _. ''get'')\<rparr>, putExpires = 60, partExpires = 60, getExpires = 60, multipartThreshold = 5242880\<rparr>"

definition example_files :: files_env where
  "example_files = \<lparr>fe_storage = example_storage, fe_bigint = (\<lambda>s. if s = ''7'' then Some ''7'' else None), fe_users = [''7'']\<rparr>"

definition example_file_id :: string where
  "example_file_id = ''00000000-0000-4000-8000-000000000000''"

definition example_file :: file_row where
  "example_file = \<lparr>f_id = example_file_id, f_key = object_key ''7'' example_file_id ''bin'', f_owner = ''7'', f_status = PENDING,
     f_content_type = ''application/octet-stream'', f_size = 6000000, f_upload_id = Some ''up'', f_etag = None,
     f_idempotency_key = Some ''k''\<rparr>"

definition example_owner :: auth_user where
  "example_owner = \<lparr>au_id = ''7'', au_role = customer, au_jti = ''j'', au_exp = 0, au_fid = ''f''\<rparr>"

lemma example_file_id: "uuid_shape example_file_id"
  by code_simp

lemma example_files_ok: "files_ok example_files [example_file]"
proof -
  have "file_row_ok example_files example_file"
    unfolding file_row_ok_def
    by (intro conjI exI [of _ "''7''"] exI [of _ "''bin''"])
      (simp_all add: example_file_def example_files_def example_storage_def CONTENT_TYPES_def limit_defs)
  then show ?thesis by (simp add: files_ok_def)
qed

lemma example_owned: "owned [example_file] example_file_id example_owner = Inr example_file"
  unfolding owned_row_Inr using example_file_id by (simp add: example_file_def example_owner_def)

lemma example_part_size: "computePartSize 6000000 = Inr 5242880"
  by code_simp

lemma example_pages: "pages_of example_bytes key u [\<lparr>PartNumber = 1, Size = Some 5242880, ETag = Some ''e''\<rparr>]"
  unfolding pages_of_def by (auto simp: example_bytes_def Let_def intro!: exI [of _ 1])

lemma example_listing:
  "listAllParts 2 (st_s3 example_storage) example_file u None [] = Some (Inr [\<lparr>PartNumber = 1, Size = Some 5242880, ETag = Some ''e''\<rparr>])"
  using listAllParts_all [OF example_pages [of "f_key example_file" u], of 2] by (simp add: example_storage_def)

theorem listAllParts_complete_witness:
  "listAllParts 2 example_bytes example_file ''up'' None [] = Some (Inr [\<lparr>PartNumber = 1, Size = Some 5242880, ETag = Some ''e''\<rparr>])"
  using listAllParts_complete [OF example_pages [of "f_key example_file" "''up''"]] by (simp add: numeral_2_eq_2)

theorem resume_then_commit_witness:
  "commit 2 example_storage (\<lambda>t. t) example_owner example_file_id [example_file] =
     Some (Inl (conflict_error ''parts-missing''), [example_file])"
proof -
  have f: "truthy (f_upload_id example_file) = Some ''up''" "f_status example_file = PENDING" "f_size example_file = 6000000"
    by (simp_all add: example_file_def)
  have c: "partCount 6000000 5242880 = 2" "partLength 6000000 5242880 2 = 757120" by code_simp+
  from resume_then_commit [OF example_owned f(1,2) _ example_listing, unfolded f(3), OF example_part_size, of "\<lambda>t. t"]
  obtain d :: parts_view where d: "\<forall>m. m \<in> set (pv_missing d) \<longleftrightarrow> 1 \<le> pi_number m \<and> pi_number m \<le> partCount 6000000 5242880 \<and>
      pi_length m = partLength 6000000 5242880 (pi_number m) \<and>
      pi_url m = presignPart example_storage (f_key example_file) ''up'' (pi_number m) \<and>
      \<not> (\<exists>q \<in> set [\<lparr>PartNumber = 1, Size = Some 5242880, ETag = Some ''e''\<rparr>]. int (PartNumber q) = pi_number m \<and> Size q = Some (pi_length m))"
    and no: "pv_missing d \<noteq> [] \<longrightarrow> commit 2 example_storage (\<lambda>t. t) example_owner example_file_id [example_file] =
      Some (Inl (conflict_error ''parts-missing''), [example_file])"
    by (elim exE conjE) (rule that, assumption+)
  have "\<lparr>pi_number = 2, pi_length = 757120, pi_url = presignPart example_storage (f_key example_file) ''up'' 2\<rparr> \<in> set (pv_missing d)"
    using d c by simp
  then show ?thesis using no by auto
qed

definition example_small :: file_row where
  "example_small = example_file\<lparr>f_upload_id := None\<rparr>"

theorem commit_verified_witness:
  "snd (the (commit 1 example_storage (\<lambda>t. t) example_owner example_file_id [example_small])) =
     [example_small\<lparr>f_status := COMPLETED, f_etag := Some ''etag''\<rparr>]"
proof -
  let ?c = "commit 1 example_storage (\<lambda>t. t) example_owner example_file_id [example_small]"
  have row: "select_first (\<lambda>r. f_id r = example_file_id) [example_small] = Some example_small" "f_status example_small = PENDING"
    by (simp_all add: example_small_def example_file_def)
  have "owned [example_small] example_file_id example_owner = Inr example_small"
    unfolding owned_row_Inr using example_file_id row by (simp add: example_small_def example_file_def example_owner_def)
  moreover have small: "truthy (f_upload_id example_small) = None" "f_id example_small = example_file_id" "f_size example_small = 6000000"
    "s3_head (st_s3 example_storage) x = Inr (Some 6000000, Some ''etag'')" for x
    by (simp_all add: example_small_def example_file_def example_storage_def example_bytes_def)
  ultimately obtain v t where c: "?c = Some (Inr v, t)"
    using row(2) by (simp add: commit_def check_object_def Let_def complete_row_def)
  from commit_verified [OF c row] small(2-4) show ?thesis unfolding c by (auto simp: complete_row_def)
qed

theorem files_stay_ok_witness:
  "\<exists>d. describe (fe_storage example_files) example_file = Inr d"
  using files_stay_ok [of example_files "[example_file]" "\<lambda>t. t"] example_files_ok by simp

definition example_intent :: json where
  "example_intent = JObj [(''filename'', JStr ''a''), (''contentType'', JStr ''application/octet-stream''), (''size'', JNum 6000000)]"

theorem same_key_same_file_witness:
  "intent example_files ''00000000-0000-4000-8000-000000000001'' (\<lambda>_. [example_file]) example_owner example_intent (Some ''k'') [] =
     (describe example_storage example_file, [example_file], [''up''])"
proof -
  have p: "parse_intent example_intent = Some (''application/octet-stream'', 6000000)"
    by (simp add: parse_intent_def example_intent_def CONTENT_TYPES_def limit_defs js_length_def)
  show ?thesis
    using same_key_same_file [OF p, of "Some ''k''" "''k''" example_files example_owner "''7''" "\<lambda>_. [example_file]" "[]" example_file
        "''00000000-0000-4000-8000-000000000001''" "''up''"] example_files_ok
    by (simp add: find_intent_def example_files_def example_storage_def example_bytes_def example_owner_def example_file_def)
qed

end
