(* ===== verification/JobQueue.thy ===== *)
theory JobQueue
  imports Relay
begin

text \<open>
  The worker pool of \<open>src/queue-worker.ts\<close> over the table \<open>job_queue\<close>, and the retry
  loop of \<open>src/concurrency/lib.ts\<close>.  A claim holds its row until the transaction
  ends; \<open>locked\<close> are the rows other workers hold, \<open>fail\<close> the error the transaction
  ends with, if any.
\<close>

subsection \<open>claimOne\<close>

datatype claim_result = Done | Empty

definition claim_jobs :: "nat set \<Rightarrow> job_row list \<Rightarrow> job_row list" where
  "claim_jobs locked t = take 1 (sort_key j_id (filter (\<lambda>j. j_status j = JobNew \<and> j_id j \<notin> locked) t))"

definition finish_job :: "string \<Rightarrow> nat \<Rightarrow> job_row list \<Rightarrow> job_row list" where
  "finish_job worker i t =
     update_where (\<lambda>j. j_id j = i) (\<lambda>j. j\<lparr>j_status := JobDone, j_worker := Some worker, j_processed := j_processed j + 1\<rparr>) t"

definition claimOne :: "nat set \<Rightarrow> exn option \<Rightarrow> string \<Rightarrow> job_row list \<Rightarrow> claim_result res \<times> job_row list" where
  "claimOne locked fail worker t =
     (case claim_jobs locked t of
        [] \<Rightarrow> (Inr Empty, t)
      | j # _ \<Rightarrow> (case fail of Some e \<Rightarrow> (Inl e, t) | None \<Rightarrow> (Inr Done, finish_job worker (j_id j) t)))"

definition count_new :: "job_row list \<Rightarrow> nat" where
  "count_new t = length (filter (\<lambda>j. j_status j = JobNew) t)"

text \<open>
  \<open>runWorker\<close>: before round \<open>k\<close> the other workers have done \<open>others k\<close> to the table and
  hold \<open>locked k\<close>.  \<open>None\<close>: the budget of rounds ran out.
\<close>

fun runWorker :: "nat \<Rightarrow> (nat \<Rightarrow> job_row list \<Rightarrow> job_row list) \<Rightarrow> (nat \<Rightarrow> nat set) \<Rightarrow> (nat \<Rightarrow> exn option) \<Rightarrow> string \<Rightarrow> nat \<Rightarrow>
    job_row list \<Rightarrow> (unit res \<times> job_row list) option" where
  "runWorker 0 others locked fail worker k t = None"
| "runWorker (Suc fuel) others locked fail worker k t =
     (case claimOne (locked k) (fail k) worker (others k t) of
        (Inl e, t') \<Rightarrow> Some (Inl e, t')
      | (Inr Done, t') \<Rightarrow> runWorker fuel others locked fail worker (Suc k) t'
      | (Inr Empty, t') \<Rightarrow> if count_new t' = 0 then Some (Inr (), t') else runWorker fuel others locked fail worker (Suc k) t')"

interpretation job_pool: skip_locked claim_jobs j_id "\<lambda>j. j_status j = JobNew"
proof
  fix r :: job_row and locked t
  show "r \<in> set (claim_jobs locked t) \<Longrightarrow> r \<in> set t \<and> j_status r = JobNew \<and> j_id r \<notin> locked"
    unfolding claim_jobs_def by (auto dest!: in_set_takeD)
  assume "r \<in> set t" "j_status r = JobNew" "j_id r \<notin> locked"
  then have "r \<in> set (sort_key j_id (filter (\<lambda>j. j_status j = JobNew \<and> j_id j \<notin> locked) t))" by simp
  then have "sort_key j_id (filter (\<lambda>j. j_status j = JobNew \<and> j_id j \<notin> locked) t) \<noteq> []" by (metis empty_iff list.set(1))
  then show "claim_jobs locked t \<noteq> []" unfolding claim_jobs_def take_eq_Nil by simp
qed

subsection \<open>The pool\<close>

text \<open>
  The pool as a state machine: the committed table and who holds which row.  A
  worker claims, finishes (its commit), or dies or fails (its rollback); a
  checkout adds a job.
\<close>

record pool =
  pool_jobs :: "job_row list"
  pool_held :: "(string \<times> nat) list"

inductive pool_step :: "pool \<Rightarrow> pool \<Rightarrow> bool" where
  take_job: "w \<notin> fst ` set (pool_held s) \<Longrightarrow> claim_jobs (snd ` set (pool_held s)) (pool_jobs s) = j # js \<Longrightarrow>
    pool_step s (s\<lparr>pool_held := (w, j_id j) # pool_held s\<rparr>)"
| commit_job: "(w, i) \<in> set (pool_held s) \<Longrightarrow>
    pool_step s (s\<lparr>pool_jobs := finish_job w i (pool_jobs s), pool_held := filter (\<lambda>h. fst h \<noteq> w) (pool_held s)\<rparr>)"
| lose_job: "pool_step s (s\<lparr>pool_held := filter (\<lambda>h. fst h \<noteq> w) (pool_held s)\<rparr>)"
| new_job: "j_id j \<notin> j_id ` set (pool_jobs s) \<Longrightarrow> j_status j = JobNew \<Longrightarrow> j_worker j = None \<Longrightarrow> j_processed j = 0 \<Longrightarrow>
    pool_step s (s\<lparr>pool_jobs := pool_jobs s @ [j]\<rparr>)"

inductive pool_run :: "pool \<Rightarrow> bool" where
  pool_start: "pool_run \<lparr>pool_jobs = [], pool_held = []\<rparr>"
| pool_next: "pool_run s \<Longrightarrow> pool_step s s' \<Longrightarrow> pool_run s'"

definition job_ok :: "job_row \<Rightarrow> bool" where
  "job_ok j \<longleftrightarrow> (case j_status j of JobNew \<Rightarrow> j_processed j = 0 \<and> j_worker j = None
                | JobDone \<Rightarrow> j_processed j = 1 \<and> j_worker j \<noteq> None)"

definition pool_ok :: "pool \<Rightarrow> bool" where
  "pool_ok s \<longleftrightarrow> distinct (map j_id (pool_jobs s)) \<and> (\<forall>j \<in> set (pool_jobs s). job_ok j) \<and>
     distinct (map fst (pool_held s)) \<and> distinct (map snd (pool_held s)) \<and>
     (\<forall>h \<in> set (pool_held s). \<exists>j \<in> set (pool_jobs s). j_id j = snd h \<and> j_status j = JobNew)"

lemma pool_okD:
  assumes "pool_ok s"
  shows "distinct (map j_id (pool_jobs s))" "j \<in> set (pool_jobs s) \<Longrightarrow> job_ok j" "distinct (map snd (pool_held s))"
    "h \<in> set (pool_held s) \<Longrightarrow> \<exists>j \<in> set (pool_jobs s). j_id j = snd h \<and> j_status j = JobNew"
  using assms by (simp_all add: pool_ok_def)

lemma finish_job_ok:
  assumes "distinct (map j_id t)" "\<forall>j \<in> set t. job_ok j" "\<exists>j \<in> set t. j_id j = i \<and> j_status j = JobNew"
  shows "distinct (map j_id (finish_job w i t))" "\<forall>j \<in> set (finish_job w i t). job_ok j"
    "j \<in> set t \<Longrightarrow> j_id j \<noteq> i \<Longrightarrow> j \<in> set (finish_job w i t)"
proof -
  show "distinct (map j_id (finish_job w i t))" using assms(1) by (simp add: finish_job_def map_update_where)
  have new: "j_status j = JobNew" if "j \<in> set t" "j_id j = i" for j
    using assms(1,3) distinct_key_unique [of j_id t j] that by blast
  show "\<forall>j \<in> set (finish_job w i t). job_ok j"
    unfolding finish_job_def set_update_where using assms(2) new by (fastforce simp: job_ok_def)
  show "j \<in> set t \<Longrightarrow> j_id j \<noteq> i \<Longrightarrow> j \<in> set (finish_job w i t)"
    unfolding finish_job_def set_update_where by force
qed

lemma pool_ok_step [inv_intros]:
  assumes "pool_step s s'" "pool_ok s" shows "pool_ok s'"
  using assms(1)
proof (cases rule: pool_step.cases)
  case (take_job w j js)
  have "j \<in> set (pool_jobs s) \<and> j_status j = JobNew \<and> j_id j \<notin> snd ` set (pool_held s)"
    using job_pool.claimed [of j "snd ` set (pool_held s)" "pool_jobs s"] take_job(3) by simp
  then show ?thesis using assms(2) take_job(1,2) by (auto simp: pool_ok_def)
next
  case (commit_job w i)
  let ?t = "finish_job w i (pool_jobs s)"
  have held: "\<exists>j \<in> set (pool_jobs s). j_id j = i \<and> j_status j = JobNew" using pool_okD(4) [OF assms(2) commit_job(2)] by simp
  have d: "distinct (map j_id (pool_jobs s))" "\<forall>j \<in> set (pool_jobs s). job_ok j" using assms(2) by (simp_all add: pool_ok_def)
  note f = finish_job_ok [OF d held, where w = w]
  have "\<exists>j \<in> set ?t. j_id j = snd h \<and> j_status j = JobNew" if h: "h \<in> set (pool_held s)" "fst h \<noteq> w" for h
  proof -
    have "snd h \<noteq> i"
    proof
      assume "snd h = i"
      then have "h = (w, i)" using distinct_key_unique [OF pool_okD(3) [OF assms(2)] h(1) commit_job(2)] by simp
      then show False using h(2) by simp
    qed
    moreover from pool_okD(4) [OF assms(2) h(1)] obtain j where
      "j \<in> set (pool_jobs s)" "j_id j = snd h" "j_status j = JobNew" by blast
    ultimately show ?thesis using f(3) [of j] by (intro bexI [of _ j]) auto
  qed
  then show ?thesis using assms(2) f(1,2) commit_job(1) by (auto simp: pool_ok_def distinct_map_filter)
next
  case (lose_job w)
  then show ?thesis using assms(2) by (auto simp: pool_ok_def distinct_map_filter)
next
  case (new_job j)
  then show ?thesis using assms(2) by (auto simp: pool_ok_def job_ok_def)
qed

lemma pool_run_ok: "pool_run s \<Longrightarrow> pool_ok s"
proof (induction rule: pool_run.induct)
  case pool_start
  then show ?case by (simp add: pool_ok_def)
qed (rule pool_ok_step)

text \<open>C34: however many workers claim, commit, fail and die, every job is processed at
  most once: its counter is 1 exactly if it is done (by a named worker) and 0
  otherwise, no two workers hold the same row, and a held row is never one
  that was already done.\<close>

theorem job_processed_once:
  assumes "pool_run s"
  shows "(\<forall>j \<in> set (pool_jobs s). (j_status j = JobDone \<longleftrightarrow> j_processed j = 1) \<and> j_processed j \<in> {0, 1} \<and>
      (j_status j = JobDone \<longleftrightarrow> j_worker j \<noteq> None)) \<and>
    distinct (map snd (pool_held s)) \<and>
    (\<forall>h \<in> set (pool_held s). \<exists>j \<in> set (pool_jobs s). j_id j = snd h \<and> j_processed j = 0)"
proof -
  have ok: "pool_ok s" using pool_run_ok [OF assms] .
  have jobs: "(j_status j = JobDone \<longleftrightarrow> j_processed j = 1) \<and> j_processed j \<in> {0, 1} \<and> (j_status j = JobDone \<longleftrightarrow> j_worker j \<noteq> None)"
    if "j \<in> set (pool_jobs s)" for j
  proof -
    have "job_ok j" using pool_okD(2) [OF ok that] .
    then show ?thesis by (cases "j_status j") (simp_all add: job_ok_def)
  qed
  have held: "\<exists>j \<in> set (pool_jobs s). j_id j = snd h \<and> j_processed j = 0" if "h \<in> set (pool_held s)" for h
  proof -
    from pool_okD(4) [OF ok that] obtain j where
      j: "j \<in> set (pool_jobs s)" "j_id j = snd h" "j_status j = JobNew" by blast
    have "job_ok j" using pool_okD(2) [OF ok j(1)] .
    then have "j_processed j = 0" unfolding job_ok_def j(3) by simp
    then show ?thesis using j(1,2) by blast
  qed
  show ?thesis by (intro conjI ballI jobs held pool_okD(3) [OF ok])
qed

subsection \<open>One worker drains the queue\<close>

definition drained :: "string \<Rightarrow> job_row list \<Rightarrow> job_row list" where
  "drained w t = map (\<lambda>j. if j_status j = JobNew
     then j\<lparr>j_status := JobDone, j_worker := Some w, j_processed := j_processed j + 1\<rparr> else j) t"

lemma drained_finish:
  assumes "distinct (map j_id t)" "j \<in> set t" "j_status j = JobNew"
  shows "drained w (finish_job w (j_id j) t) = drained w t" "count_new (finish_job w (j_id j) t) < count_new t"
proof -
  have eq: "x = j" if "x \<in> set t" "j_id x = j_id j" for x
    using distinct_key_unique [OF assms(1) that(1) assms(2) that(2)] .
  show "drained w (finish_job w (j_id j) t) = drained w t"
    unfolding drained_def finish_job_def update_where_def map_map comp_def
    by (rule map_cong [OF refl]) (use eq assms(3) in auto)
  have "count_new (finish_job w (j_id j) t) = length (filter (\<lambda>x. j_status x = JobNew \<and> j_id x \<noteq> j_id j) t)"
    unfolding count_new_def finish_job_def by (induction t) auto
  also have "\<dots> < count_new t"
    unfolding count_new_def filter_filter [symmetric]
    by (rule length_filter_less [of j]) (use assms(2,3) in simp_all)
  finally show "count_new (finish_job w (j_id j) t) < count_new t" .
qed

lemma drained_none: "count_new t = 0 \<Longrightarrow> drained w t = t"
  by (auto simp: drained_def count_new_def filter_empty_conv intro: map_idI)

text \<open>A worker that is alone and does not fail finishes: after at most one round
  per new job and one more it returns, every job that was new is done by it
  and counted once, and no other row has changed.\<close>

theorem worker_drains:
  assumes "distinct (map j_id t)" "count_new t < fuel"
  shows "runWorker fuel (\<lambda>_ t. t) (\<lambda>_. {}) (\<lambda>_. None) w k t = Some (Inr (), drained w t)"
  using assms
proof (induction fuel arbitrary: k t)
  case (Suc fuel)
  show ?case
  proof (cases "claim_jobs {} t")
    case Nil
    then have "count_new t = 0" using job_pool.empty_claim [of "{}" t] by (simp add: count_new_def filter_empty_conv)
    then show ?thesis using Nil by (simp add: claimOne_def drained_none)
  next
    case (Cons j js)
    then have j: "j \<in> set t" "j_status j = JobNew" using job_pool.claimed [of j "{}" t] by simp_all
    note d = drained_finish [OF Suc.prems(1) j, of w]
    have "runWorker fuel (\<lambda>_ t. t) (\<lambda>_. {}) (\<lambda>_. None) w (Suc k) (finish_job w (j_id j) t) = Some (Inr (), drained w t)"
      using Suc.IH [of "finish_job w (j_id j) t"] Suc.prems d by (simp add: finish_job_def map_update_where)
    then show ?thesis using Cons by (simp add: claimOne_def)
  qed
qed simp

subsection \<open>Retrying a transaction\<close>

definition RETRYABLE_CODES :: "string list" where
  "RETRYABLE_CODES = [''40001'', ''40P01'']"

definition retryable :: "exn \<Rightarrow> bool" where
  "retryable e \<longleftrightarrow> (case e of DbError code \<Rightarrow> code \<in> set RETRYABLE_CODES | _ \<Rightarrow> False)"

definition backoff :: "nat \<Rightarrow> rat \<Rightarrow> int" where
  "backoff attempt rnd = \<lfloor>2 ^ attempt * 20 + rnd * 20 + 1 / 2\<rfloor>"

text \<open>
  \<open>txn a\<close> is what the transaction body does at attempt \<open>a\<close>, \<open>others a\<close> what the rest
  of the world did before it.  The result comes with the database and the
  waits in milliseconds.
\<close>

function withRetry :: "nat \<Rightarrow> (nat \<Rightarrow> 's \<Rightarrow> 'a res \<times> 's) \<Rightarrow> (nat \<Rightarrow> 's \<Rightarrow> 's) \<Rightarrow> (nat \<Rightarrow> rat) \<Rightarrow> nat \<Rightarrow> 's \<Rightarrow>
    'a res \<times> 's \<times> int list" where
  "withRetry maxAttempts txn others rnd attempt s =
     (let s0 = others attempt s in
      case txn attempt s0 of
        (Inr a, s') \<Rightarrow> (Inr a, s', [])
      | (Inl e, _) \<Rightarrow>
          if retryable e \<and> attempt < maxAttempts
          then (case withRetry maxAttempts txn others rnd (Suc attempt) s0 of
                  (r, s', ws) \<Rightarrow> (r, s', backoff attempt (rnd attempt) # ws))
          else (Inl e, s0, []))"
  by pat_completeness auto

termination
  by (relation "measure (\<lambda>(m, _, _, _, a, _). m - a)") auto

declare withRetry.simps [simp del]

text \<open>What the other transactions alone make of the database.\<close>

fun world :: "(nat \<Rightarrow> 's \<Rightarrow> 's) \<Rightarrow> nat \<Rightarrow> nat \<Rightarrow> 's \<Rightarrow> 's" where
  "world others a 0 s = others a s"
| "world others a (Suc n) s = world others (Suc a) n (others a s)"

lemma withRetry_from:
  assumes "withRetry m txn others rnd a s = (r, s', ws)"
  shows "(\<forall>i < length ws. \<exists>e. fst (txn (a + i) (world others a i s)) = Inl e \<and> retryable e \<and> ws ! i = backoff (a + i) (rnd (a + i)) \<and> a + i < m) \<and>
    r = fst (txn (a + length ws) (world others a (length ws) s)) \<and>
    s' = (case r of Inr _ \<Rightarrow> snd (txn (a + length ws) (world others a (length ws) s)) | Inl _ \<Rightarrow> world others a (length ws) s) \<and>
    (\<forall>e. r = Inl e \<longrightarrow> retryable e \<longrightarrow> m \<le> a + length ws)"
  using assms
proof (induction m txn others rnd a s arbitrary: r s' ws rule: withRetry.induct)
  case (1 m txn others rnd a s)
  obtain x s1 where x: "txn a (others a s) = (x, s1)" by fastforce
  show ?case
  proof (cases "\<exists>e. x = Inl e \<and> retryable e \<and> a < m")
    case False
    then show ?thesis using 1(2) x by (cases x) (auto simp: withRetry.simps [of m] Let_def)
  next
    case True
    then obtain e where e: "x = Inl e" "retryable e" "a < m" by blast
    obtain r1 s2 ws1 where rec: "withRetry m txn others rnd (Suc a) (others a s) = (r1, s2, ws1)" by (metis prod_cases3)
    have res: "r = r1" "s' = s2" "ws = backoff a (rnd a) # ws1"
      using 1(2) x e rec by (simp_all add: withRetry.simps [of m] Let_def)
    note IH = 1(1) [OF refl x [symmetric] e(1) _ rec]
    show ?thesis
      using IH e x unfolding res by (auto simp: less_Suc_eq_0_disj cong: sum.case_cong)
  qed
qed

text \<open>The retry loop runs the transaction at most \<open>maxAttempts\<close> times (once if that
  is 0), again only after a serialization failure or a deadlock, waiting
  between 20 and 40 ms times a power of two longer each time; what it returns
  and leaves in the database is what the last attempt alone did, on a
  database in which the failed attempts have left no trace.\<close>

theorem retry_is_one_attempt:
  assumes run: "withRetry m txn others rnd 1 s = (r, s', ws)" and rnd: "\<forall>a. 0 \<le> rnd a \<and> rnd a < 1"
  shows "length ws < max 1 m \<and>
    r = fst (txn (1 + length ws) (world others 1 (length ws) s)) \<and>
    s' = (case r of Inr _ \<Rightarrow> snd (txn (1 + length ws) (world others 1 (length ws) s)) | Inl _ \<Rightarrow> world others 1 (length ws) s) \<and>
    (\<forall>i < length ws. \<exists>e. fst (txn (1 + i) (world others 1 i s)) = Inl e \<and> retryable e \<and>
      2 ^ (1 + i) * 20 \<le> ws ! i \<and> ws ! i \<le> 2 ^ (1 + i) * 20 + 20) \<and>
    (\<forall>e. r = Inl e \<longrightarrow> retryable e \<longrightarrow> 1 + length ws = max 1 m)"
proof -
  note w = withRetry_from [OF run]
  have len: "length ws < max 1 m"
  proof (cases ws rule: rev_cases)
    case (snoc vs v)
    then have "length vs < length ws" by simp
    then have "1 + length vs < m" using w by blast
    then show ?thesis using snoc by simp
  qed simp
  have b: "2 ^ k * 20 \<le> backoff k (rnd k)" "backoff k (rnd k) \<le> 2 ^ k * 20 + 20" for k
  proof -
    have "0 \<le> rnd k" "rnd k < 1" using rnd by simp_all
    then show "2 ^ k * 20 \<le> backoff k (rnd k)" "backoff k (rnd k) \<le> 2 ^ k * 20 + 20"
      unfolding backoff_def by (simp_all add: le_floor_iff floor_le_iff)
  qed
  have "\<exists>e. fst (txn (1 + i) (world others 1 i s)) = Inl e \<and> retryable e \<and>
      2 ^ (1 + i) * 20 \<le> ws ! i \<and> ws ! i \<le> 2 ^ (1 + i) * 20 + 20" if "i < length ws" for i
    using w that b [of "1 + i"] by metis
  moreover have "1 + length ws = max 1 m" if "r = Inl e" "retryable e" for e
    using w that len by fastforce
  ultimately show ?thesis using w len by blast
qed

subsection \<open>Witnesses\<close>

definition one_job :: job_row where
  "one_job = \<lparr>j_id = 1, j_order = 1, j_kind = ''post_processing'', j_status = JobNew, j_worker = None, j_processed = 0\<rparr>"

theorem job_processed_once_witness:
  "\<exists>s. pool_run s \<and> pool_held s = [(''w'', 1)] \<and> distinct (map snd (pool_held s))"
proof -
  have r1: "pool_run \<lparr>pool_jobs = [one_job], pool_held = []\<rparr>"
    using pool_run.pool_next [OF pool_run.pool_start pool_step.new_job [of one_job]] by (simp add: one_job_def)
  have "claim_jobs (snd ` set []) [one_job] = one_job # []" by (simp add: claim_jobs_def one_job_def)
  then have "pool_step \<lparr>pool_jobs = [one_job], pool_held = []\<rparr> \<lparr>pool_jobs = [one_job], pool_held = [(''w'', j_id one_job)]\<rparr>"
    using pool_step.take_job [of "''w''" "\<lparr>pool_jobs = [one_job], pool_held = []\<rparr>" one_job "[]"] by simp
  then have r2: "pool_run \<lparr>pool_jobs = [one_job], pool_held = [(''w'', 1)]\<rparr>"
    using pool_run.pool_next [OF r1] by (simp add: one_job_def)
  from job_processed_once [OF this] show ?thesis using r2 by (intro exI conjI) (assumption | simp)+
qed

theorem worker_drains_witness:
  "runWorker 2 (\<lambda>_ t. t) (\<lambda>_. {}) (\<lambda>_. None) ''w'' 0 [one_job] =
     Some (Inr (), [one_job\<lparr>j_status := JobDone, j_worker := Some ''w'', j_processed := 1\<rparr>])"
  using worker_drains [of "[one_job]" 2 "''w''" 0] by (simp add: count_new_def one_job_def drained_def)

definition flaky_txn :: "nat \<Rightarrow> nat \<Rightarrow> nat res \<times> nat" where
  "flaky_txn a s = (if a = 1 then (Inl (DbError ''40001''), s + 100) else (Inr s, s + 1))"

theorem retry_is_one_attempt_witness:
  "fst (snd (withRetry 8 flaky_txn (\<lambda>_ s. s) (\<lambda>_. 0) 1 5)) = 6"
proof -
  have "withRetry 8 flaky_txn (\<lambda>_ s. s) (\<lambda>_. 0) 2 5 = (Inr 5, 6, [])"
    by (subst withRetry.simps) (simp add: flaky_txn_def)
  then have run: "withRetry 8 flaky_txn (\<lambda>_ s. s) (\<lambda>_. 0) 1 5 = (Inr 5, 6, [backoff 1 0])"
    by (subst withRetry.simps) (simp add: flaky_txn_def retryable_def RETRYABLE_CODES_def numeral_2_eq_2)
  from retry_is_one_attempt [OF run] show ?thesis unfolding run by simp
qed

end
