(* ===== verification/OrdersApi.thy ===== *)
theory OrdersApi
  imports Checkout Problem
begin

text \<open>
  The HTTP edge of the checkout: \<open>src/outbox/orders-api.ts\<close>.  A request is its
  method, URL, \<open>Idempotency-Key\<close> header and the JSON value of its body (\<open>None\<close> if
  the body is empty or not JSON).  The human-readable details are named.
\<close>

record api_request =
  rq_method :: string
  rq_url :: string
  rq_key :: "string option"
  rq_body :: "json option"

datatype api_body = ApiProblem problem | ApiOrder string rat

record api_response =
  ar_status :: nat
  ar_content_type :: string
  ar_replayed :: bool
  ar_body :: api_body

record order_body =
  bo_buyer_id :: string
  bo_product_id :: string
  bo_quantity :: int

definition BodySchema :: "json \<Rightarrow> order_body option" where
  "BodySchema j =
     (case (field j ''buyer_id'', field j ''product_id'', field j ''quantity'') of
        (Some (JStr b), Some (JStr p), Some (JNum n)) \<Rightarrow>
          if b \<noteq> '''' \<and> p \<noteq> '''' \<and> js_is_integer (Num n) \<and> 0 < n
          then Some \<lparr>bo_buyer_id = b, bo_product_id = p, bo_quantity = \<lfloor>n\<rfloor>\<rparr> else None
      | _ \<Rightarrow> None)"

definition MAX_KEY_LENGTH :: nat where "MAX_KEY_LENGTH = 255"

definition api_problem :: "api_request \<Rightarrow> nat \<Rightarrow> string \<Rightarrow> string \<Rightarrow> api_response" where
  "api_problem req status code detail =
     \<lparr>ar_status = status, ar_content_type = ''application/problem+json'', ar_replayed = False,
      ar_body = ApiProblem \<lparr>p_type = PROBLEM_BASE @ ''/'' @ code,
        p_title = (case PROBLEM_TITLES status of Some t \<Rightarrow> t | None \<Rightarrow> DefaultTitle),
        p_status = status, p_detail = detail, p_instance = rq_url req, p_code = None, p_errors = None\<rparr>\<rparr>"



definition valid_key :: "string option \<Rightarrow> string option" where
  "valid_key key =
     (case key of None \<Rightarrow> None
      | Some k \<Rightarrow> if dropWhile js_space k = '''' \<or> MAX_KEY_LENGTH < length k then None else Some k)"

fun reason_code :: "failure_reason \<Rightarrow> string" where
  "reason_code out_of_stock = ''out_of_stock''"
| "reason_code insufficient_funds = ''insufficient_funds''"

definition api_handle :: "checkout_env \<Rightarrow> checkout_call \<Rightarrow> api_request \<Rightarrow> shop_db \<Rightarrow> api_response res \<times> shop_db" where
  "api_handle env c req db =
     (if rq_method req \<noteq> ''POST'' \<or> rq_url req \<noteq> ''/orders''
      then (Inr (api_problem req 404 ''not-found'' ''unknown-route''), db)
      else case valid_key (rq_key req) of
        None \<Rightarrow> (Inr (api_problem req 400 ''idempotency-key-required'' ''key-1-to-255''), db)
      | Some key \<Rightarrow>
          (case Option.bind (rq_body req) BodySchema of
             None \<Rightarrow> (Inr (api_problem req 422 ''invalid-body'' ''body-shape''), db)
           | Some body \<Rightarrow>
               (case checkout env c \<lparr>cp_buyerId = bo_buyer_id body, cp_productId = bo_product_id body,
                       cp_quantity = bo_quantity body, cp_idempotencyKey = Some key\<rparr> db of
                  (Inl e, db') \<Rightarrow> (Inl e, db')
                | (Inr (CheckoutFailure reason), db') \<Rightarrow>
                    (Inr (api_problem req 409 (reason_code reason) (reason_code reason)), db')
                | (Inr (CheckoutSuccess orderId amount replayed), db') \<Rightarrow>
                    (Inr \<lparr>ar_status = (if replayed then 200 else 201), ar_content_type = ''application/json'',
                          ar_replayed = replayed, ar_body = ApiOrder orderId amount\<rparr>, db'))))"

definition createOrdersApi :: "checkout_env \<Rightarrow> checkout_call \<Rightarrow> api_request \<Rightarrow> shop_db \<Rightarrow> api_response \<times> shop_db" where
  "createOrdersApi env c req db =
     (case api_handle env c req db of
        (Inl _, db') \<Rightarrow> (api_problem req 500 ''internal'' ''internal'', db')
      | (Inr r, db') \<Rightarrow> (r, db'))"

lemma valid_key_Some: "valid_key key = Some k \<longleftrightarrow> key = Some k \<and> dropWhile js_space k \<noteq> '''' \<and> length k \<le> MAX_KEY_LENGTH"
  by (auto simp: valid_key_def split: option.splits)

text \<open>The requests that reach the checkout, and with what.\<close>

definition accepted :: "api_request \<Rightarrow> checkout_params \<Rightarrow> bool" where
  "accepted req p \<longleftrightarrow> rq_method req = ''POST'' \<and> rq_url req = ''/orders'' \<and>
     (\<exists>k b. valid_key (rq_key req) = Some k \<and> Option.bind (rq_body req) BodySchema = Some b \<and>
        p = \<lparr>cp_buyerId = bo_buyer_id b, cp_productId = bo_product_id b, cp_quantity = bo_quantity b, cp_idempotencyKey = Some k\<rparr>)"

lemma api_accepted:
  assumes "accepted req p"
  shows "api_handle env c req db =
    (case checkout env c p db of
       (Inl e, db') \<Rightarrow> (Inl e, db')
     | (Inr (CheckoutFailure reason), db') \<Rightarrow> (Inr (api_problem req 409 (reason_code reason) (reason_code reason)), db')
     | (Inr (CheckoutSuccess orderId amount replayed), db') \<Rightarrow>
         (Inr \<lparr>ar_status = (if replayed then 200 else 201), ar_content_type = ''application/json'',
               ar_replayed = replayed, ar_body = ApiOrder orderId amount\<rparr>, db'))"
  using assms by (auto simp: accepted_def api_handle_def)

lemma api_refused:
  assumes "\<nexists>p. accepted req p"
  shows "api_handle env c req db \<in> {(Inr (api_problem req 404 ''not-found'' ''unknown-route''), db),
    (Inr (api_problem req 400 ''idempotency-key-required'' ''key-1-to-255''), db),
    (Inr (api_problem req 422 ''invalid-body'' ''body-shape''), db)}"
proof (cases "rq_method req = ''POST'' \<and> rq_url req = ''/orders''")
  case True
  show ?thesis
  proof (cases "valid_key (rq_key req)")
    case (Some k)
    then have "Option.bind (rq_body req) BodySchema = None" using assms True by (cases "Option.bind (rq_body req) BodySchema") (auto simp: accepted_def)
    then show ?thesis using True Some by (auto simp: api_handle_def)
  qed (use True in \<open>auto simp: api_handle_def\<close>)
qed (auto simp: api_handle_def)

lemma accepted_key: "accepted req p \<Longrightarrow> \<exists>k. cp_idempotencyKey p = Some k \<and> valid_key (rq_key req) = Some k"
  by (auto simp: accepted_def)

subsection \<open>Why an order is refused\<close>

lemma and_then_Inl:
  "and_then m f db = (Inl e, db') \<longleftrightarrow>
     m db = (Inl e, db') \<or> (\<exists>a db1. m db = (Inr a, db1) \<and> f a db1 = (Inl e, db'))"
  by (auto simp: and_then_def split: prod.splits sum.splits)

lemma findSomeD: "find P xs = Some x \<Longrightarrow> x \<in> set xs \<and> P x"
  by (auto simp: find_Some_iff)

lemma only_two_refuse:
  "\<not> (read_bigint env t db = (Inl (Refused e), db'))" "\<not> (insert_order uid amt db = (Inl (Refused e), db'))"
  "\<not> (insert_item oid pid q pr db = (Inl (Refused e), db'))" "\<not> (insert_job oid db = (Inl (Refused e), db'))"
  "\<not> (set_key_order k oid db = (Inl (Refused e), db'))" "\<not> (insert_outbox c oid ev db = (Inl (Refused e), db'))"
  "\<not> (run_hook h db = (Inl (Refused e), db'))"
  by (auto simp: read_bigint_def insert_order_def insert_item_def insert_job_def set_key_order_def insert_outbox_def
      run_hook_def Let_def split: option.splits sum.splits if_splits)

lemma decrement_refused:
  "decrement_stock q pid db = (Inl (Refused e), db') \<longleftrightarrow>
     in_int4 q \<and> e = out_of_stock \<and> db' = db \<and> (\<forall>r \<in> set (s_products db). p_id r = pid \<longrightarrow> p_stock r < q)"
proof (cases "find (\<lambda>r. p_id r = pid \<and> q \<le> p_stock r) (s_products db)")
  case (Some r)
  have "\<not> (\<forall>r \<in> set (s_products db). p_id r = pid \<longrightarrow> p_stock r < q)" using findSomeD [OF Some] by force
  then show ?thesis using Some by (simp add: decrement_stock_def Let_def)
next
  case None
  then have "\<forall>r \<in> set (s_products db). p_id r = pid \<longrightarrow> p_stock r < q" by (auto simp: find_None_iff)
  then show ?thesis using None by (auto simp: decrement_stock_def Let_def)
qed

lemma charge_refused:
  "charge_balance amt uid db = (Inl (Refused e), db') \<longleftrightarrow>
     e = insufficient_funds \<and> db' = db \<and> (\<forall>u \<in> set (s_users db). a_id u = uid \<longrightarrow> a_balance u < amt)"
proof (cases "find (\<lambda>u. a_id u = uid \<and> amt \<le> a_balance u) (s_users db)")
  case (Some u)
  have "\<not> (\<forall>u \<in> set (s_users db). a_id u = uid \<longrightarrow> a_balance u < amt)" using findSomeD [OF Some] by force
  then show ?thesis using Some by (simp add: charge_balance_def Let_def split: sum.splits)
next
  case None
  then have "\<forall>u \<in> set (s_users db). a_id u = uid \<longrightarrow> a_balance u < amt" by (auto simp: find_None_iff)
  then show ?thesis using None by (auto simp: charge_balance_def Let_def)
qed

text \<open>Too little stock of the product, or stock enough and too little money for it.\<close>

definition stock_short :: "checkout_env \<Rightarrow> checkout_params \<Rightarrow> shop_db \<Rightarrow> bool" where
  "stock_short env p db \<longleftrightarrow> (\<exists>pid. ce_bigint env (cp_productId p) = Some pid \<and>
     (\<forall>r \<in> set (s_products db). p_id r = pid \<longrightarrow> p_stock r < cp_quantity p))"

definition funds_short :: "checkout_env \<Rightarrow> checkout_params \<Rightarrow> shop_db \<Rightarrow> bool" where
  "funds_short env p db \<longleftrightarrow> (\<exists>r uid. r \<in> set (s_products db) \<and>
     ce_bigint env (cp_productId p) = Some (p_id r) \<and> cp_quantity p \<le> p_stock r \<and>
     ce_bigint env (cp_buyerId p) = Some uid \<and>
     (\<forall>u \<in> set (s_users db). a_id u = uid \<longrightarrow> a_balance u < js_decimal (js_mul (fl (p_price r)) (of_int (cp_quantity p)))))"

lemma place_order_refused:
  assumes "place_order env c p db = (Inl (Refused e), db')"
  shows "e = out_of_stock \<and> stock_short env p db \<or> e = insufficient_funds \<and> funds_short env p db"
proof -
  have find: "r \<in> set (s_products db)" "p_id r = pid" "q \<le> p_stock r"
    if "find (\<lambda>r. p_id r = pid \<and> q \<le> p_stock r) (s_products db) = Some r" for r pid q
    using findSomeD [OF that] by simp_all
  from assms show ?thesis
    unfolding place_order_def Let_def and_then_Inl decrement_refused charge_refused read_bigint_Inr decrement_stock_Inr
    by (auto simp: only_two_refuse stock_short_def funds_short_def dest: find)
qed

lemma checkout_refused:
  assumes "checkout env c p db = (Inr (CheckoutFailure e), db')"
  shows "e = out_of_stock \<and> stock_short env p db \<or> e = insufficient_funds \<and> funds_short env p db"
proof -
  obtain first db1 where k: "claim_key (cp_idempotencyKey p) db = (first, db1)" by fastforce
  have same: "stock_short env p db1 = stock_short env p db" "funds_short env p db1 = funds_short env p db"
    using k by (auto simp: claim_key_def stock_short_def funds_short_def Let_def split: option.splits)
  have "\<exists>db2. place_order env c p db1 = (Inl (Refused e), db2)"
    using assms k by (auto simp: checkout_def previous_result_def
        split: bool.splits prod.splits sum.splits abort.splits list.splits)
  then show ?thesis using place_order_refused same by metis
qed

text \<open>C36: only a 201 changes the tables, and the status says what happened.  404 is
  answered exactly for another route, 400 for a missing or overlong key, 422 for an
  ill-formed body, and none of these reaches the database; a 200 is a replay; one
  that is answered 409, 500 or 200 leaves every table as it was (sequences aside).
  A 409 names why in the problem type: \<open>out_of_stock\<close> only if no row of the product
  has the quantity in stock, \<open>insufficient_funds\<close> only if there is stock but no row of
  the buyer covers the amount.\<close>

theorem api_changes_only_on_201:
  assumes ok: "shop_ok db" and r: "createOrdersApi env c req db = (res, db')"
  shows "ar_status res \<in> {200, 201, 400, 404, 409, 422, 500} \<and>
    (ar_status res = 404 \<longleftrightarrow> rq_method req \<noteq> ''POST'' \<or> rq_url req \<noteq> ''/orders'') \<and>
    (ar_status res = 400 \<longleftrightarrow> ar_status res \<noteq> 404 \<and> valid_key (rq_key req) = None) \<and>
    (ar_status res = 422 \<longleftrightarrow> ar_status res \<noteq> 404 \<and> ar_status res \<noteq> 400 \<and> Option.bind (rq_body req) BodySchema = None) \<and>
    (ar_status res \<in> {200, 400, 404, 422} \<longrightarrow> db' = db) \<and>
    (ar_status res \<noteq> 201 \<longrightarrow> db' = db\<lparr>order_seq := order_seq db', job_seq := job_seq db'\<rparr>) \<and>
    (ar_replayed res \<longleftrightarrow> ar_status res = 200) \<and>
    (ar_status res = 409 \<longrightarrow> (\<exists>p pr. accepted req p \<and> ar_body res = ApiProblem pr \<and>
       (p_type pr = PROBLEM_BASE @ ''/out_of_stock'' \<and> stock_short env p db \<or>
        p_type pr = PROBLEM_BASE @ ''/insufficient_funds'' \<and> funds_short env p db)))"
proof (cases "\<exists>p. accepted req p")
  case False
  show ?thesis
  proof (cases "rq_method req = ''POST'' \<and> rq_url req = ''/orders''")
    case True
    show ?thesis
    proof (cases "valid_key (rq_key req)")
      case None
      then show ?thesis using r True by (auto simp: createOrdersApi_def api_handle_def api_problem_def)
    next
      case (Some k)
      then have "Option.bind (rq_body req) BodySchema = None"
        using False True by (cases "Option.bind (rq_body req) BodySchema") (auto simp: accepted_def)
      then show ?thesis using r True Some by (auto simp: createOrdersApi_def api_handle_def api_problem_def)
    qed
  qed (use r in \<open>auto simp: createOrdersApi_def api_handle_def api_problem_def\<close>)
next
  case True
  then obtain p where p: "accepted req p" by blast
  then have route: "rq_method req = ''POST''" "rq_url req = ''/orders''" "valid_key (rq_key req) \<noteq> None"
      "Option.bind (rq_body req) BodySchema \<noteq> None"
    by (auto simp: accepted_def)
  obtain x db1 where co: "checkout env c p db = (x, db1)" by fastforce
  note unf = createOrdersApi_def api_accepted [OF p] api_problem_def co
  from ok co show ?thesis
  proof (cases rule: checkout_cases)
    case (sold a b)
    then show ?thesis using r route by (simp add: unf) auto
  next
    case replayed
    have "(\<exists>e. x = Inl e) \<or> (\<exists>i t. x = Inr (CheckoutSuccess i t True))"
      unfolding replayed(2) by (auto simp: previous_result_def split: list.splits)
    then show ?thesis using r route replayed(3) by (auto simp: unf)
  next
    case (failed db2)
    show ?thesis
    proof (cases x)
      case (Inl e)
      then show ?thesis using r route failed by (auto simp: unf rollback_def)
    next
      case (Inr y)
      then obtain e where x: "x = Inr (CheckoutFailure e)" using failed by auto
      then have why: "e = out_of_stock \<and> stock_short env p db \<or> e = insufficient_funds \<and> funds_short env p db"
        using checkout_refused co by simp
      show ?thesis using r route failed p why by (auto simp: unf x rollback_def)
    qed
  qed
qed

text \<open>After a 201, whatever was sold in between, every well-formed request with
  the same key, even with another body, is answered 200 with
  \<open>Idempotent-Replayed\<close> and the same order id, and sells nothing.\<close>

theorem api_replays:
  assumes ok: "shop_ok db" and first: "createOrdersApi env c req db = (res, db1)" "ar_status res = 201"
    and run: "shop_run env db1 db2" and key: "rq_key req' = rq_key req" and again: "accepted req' p'"
  shows "\<exists>i t t'. ar_body res = ApiOrder i t \<and>
    createOrdersApi env' c' req' db2 = (\<lparr>ar_status = 200, ar_content_type = ''application/json'', ar_replayed = True, ar_body = ApiOrder i t'\<rparr>, db2)"
proof -
  have "\<exists>p. accepted req p"
    using first api_refused [of req env c db] by (fastforce simp: createOrdersApi_def api_problem_def)
  then obtain p where p: "accepted req p" by blast
  obtain x db' where co: "checkout env c p db = (x, db')" by fastforce
  have "\<exists>i t. x = Inr (CheckoutSuccess i t False) \<and> ar_body res = ApiOrder i t \<and> db' = db1"
    using first co by (auto simp: createOrdersApi_def api_accepted [OF p] api_problem_def split: sum.splits checkout_result.splits if_splits)
  then obtain i t where x: "x = Inr (CheckoutSuccess i t False)" "ar_body res = ApiOrder i t" "db' = db1" by blast
  obtain k where k: "cp_idempotencyKey p = Some k" "valid_key (rq_key req) = Some k" using accepted_key [OF p] by blast
  then have k': "cp_idempotencyKey p' = Some k" using accepted_key [OF again] key by auto
  from replayed_checkout [OF ok co [unfolded x(1,3)] k(1) run k', of env' c'] obtain t' where
    "checkout env' c' p' db2 = (Inr (CheckoutSuccess i t' True), db2)" by blast
  then have "createOrdersApi env' c' req' db2 =
      (\<lparr>ar_status = 200, ar_content_type = ''application/json'', ar_replayed = True, ar_body = ApiOrder i t'\<rparr>, db2)"
    by (simp add: createOrdersApi_def api_accepted [OF again])
  then show ?thesis using x(2) by blast
qed

definition example_request :: "rat \<Rightarrow> api_request" where
  "example_request n = \<lparr>rq_method = ''POST'', rq_url = ''/orders'', rq_key = Some ''k'',
     rq_body = Some (JObj [(''buyer_id'', JStr ''7''), (''product_id'', JStr ''3''), (''quantity'', JNum n)])\<rparr>"

lemma example_accepted: "0 < q \<Longrightarrow> accepted (example_request (of_int q)) (example_params q)"
proof -
  have "js_space CHR ''k'' = False" by code_simp
  then show "0 < q \<Longrightarrow> accepted (example_request (of_int q)) (example_params q)"
    by (simp add: accepted_def example_request_def BodySchema_def valid_key_def MAX_KEY_LENGTH_def example_params_def)
qed

lemma example_created:
  "\<exists>t. createOrdersApi example_shop_env (example_call None) (example_request 3) (example_shop 1) =
     (\<lparr>ar_status = 201, ar_content_type = ''application/json'', ar_replayed = False, ar_body = ApiOrder (show_nat 1) t\<rparr>, bought)"
  using example_accepted [of 3] bought_result by (simp add: createOrdersApi_def api_accepted)

theorem api_replays_witness:
  "\<exists>t. createOrdersApi example_shop_env (example_call None) (example_request 5) bought =
     (\<lparr>ar_status = 200, ar_content_type = ''application/json'', ar_replayed = True, ar_body = ApiOrder (show_nat 1) t\<rparr>, bought)"
proof -
  obtain t where c: "createOrdersApi example_shop_env (example_call None) (example_request 3) (example_shop 1) =
     (\<lparr>ar_status = 201, ar_content_type = ''application/json'', ar_replayed = False, ar_body = ApiOrder (show_nat 1) t\<rparr>, bought)"
    using example_created by blast
  have "accepted (example_request 5) (example_params 5)" using example_accepted [of 5] by simp
  from api_replays [OF one_ok c _ run_none _ this] show ?thesis by (simp add: example_request_def)
qed

theorem api_changes_only_on_201_witness:
  "snd (createOrdersApi example_shop_env (example_call None) ((example_request 3)\<lparr>rq_key := None\<rparr>) (example_shop 1)) = example_shop 1"
proof -
  let ?r = "createOrdersApi example_shop_env (example_call None) ((example_request 3)\<lparr>rq_key := None\<rparr>) (example_shop 1)"
  have "ar_status (fst ?r) = 400" by (simp add: createOrdersApi_def api_handle_def valid_key_def example_request_def api_problem_def)
  then show ?thesis using api_changes_only_on_201 [OF one_ok, of _ _ _ "fst ?r" "snd ?r"] by (metis insert_iff prod.collapse)
qed

end
