(* ===== verification/RateLimit.thy ===== *)
theory RateLimit
  imports JsNum "HOL-Library.Multiset"
begin

text \<open>
  The sliding-window rate limiter: \<open>src/redis/rate-limit.ts\<close>, its Lua script
  included.  A sorted set is its members with their scores and the time it
  expires; the script's commands have their documented meaning
  (\<open>ZREMRANGEBYSCORE\<close> inclusive, \<open>ZADD\<close> replacing a member's score, \<open>PEXPIRE\<close> of no time
  deleting the key).  The clock is the one of Redis.
\<close>

subsection \<open>The script\<close>

type_synonym zset = "((string \<times> int) list \<times> int) option"

definition live :: "int \<Rightarrow> zset \<Rightarrow> (string \<times> int) list" where
  "live now z = (case z of None \<Rightarrow> [] | Some (ms, expires) \<Rightarrow> if expires < now then [] else ms)"

definition zadd :: "string \<Rightarrow> int \<Rightarrow> (string \<times> int) list \<Rightarrow> (string \<times> int) list" where
  "zadd m s ms = filter (\<lambda>p. fst p \<noteq> m) ms @ [(m, s)]"

definition pexpire :: "int \<Rightarrow> int \<Rightarrow> (string \<times> int) list \<Rightarrow> zset" where
  "pexpire now win ms = (if win \<le> 0 then None else Some (ms, now + win))"

definition redis_time :: "int \<Rightarrow> int \<Rightarrow> int" where
  "redis_time secs micros = secs * 1000 + micros div 1000"

definition SLIDING_WINDOW_LUA :: "int \<Rightarrow> int \<Rightarrow> int \<Rightarrow> string \<Rightarrow> zset \<Rightarrow> (int \<times> int \<times> int) res \<times> zset" where
  "SLIDING_WINDOW_LUA now win lmt member z =
     (let ms = filter (\<lambda>p. \<not> (0 \<le> snd p \<and> snd p \<le> now - win)) (live now z);
          rest = (case z of None \<Rightarrow> None | Some (_, expires) \<Rightarrow> if ms = [] then None else Some (ms, expires));
          n = int (length ms)
      in if n < lmt then (Inr (1, lmt - n - 1, 0), pexpire now win (zadd member now ms))
         else if ms = [] then (Inl (Error ''ERR arithmetic on a nil value''), rest)
         else (Inr (0, 0, Min (snd ` set ms) + win - now), rest))"

subsection \<open>RateLimiter\<close>

record rate_limit_result =
  allowed :: bool
  remaining :: int
  retryAfterSec :: int

record rate_limit_options =
  limit :: int
  windowMs :: int
  prefix :: "string option"
  failOpen :: "bool option"

definition rl_key :: "rate_limit_options \<Rightarrow> string \<Rightarrow> string" where
  "rl_key opts clientId = (case prefix opts of None \<Rightarrow> ''rl:'' | Some p \<Rightarrow> p) @ clientId"

text \<open>\<open>outage\<close> is the error of a Redis that cannot be reached.\<close>

definition check :: "rate_limit_options \<Rightarrow> exn option \<Rightarrow> int \<Rightarrow> string \<Rightarrow> string \<Rightarrow> (string \<Rightarrow> zset) \<Rightarrow>
    rate_limit_result res \<times> (string \<Rightarrow> zset)" where
  "check opts outage now uuid clientId db =
     (let k = rl_key opts clientId;
          r = (case outage of Some e \<Rightarrow> (Inl e, db k) | None \<Rightarrow> SLIDING_WINDOW_LUA now (windowMs opts) (limit opts) uuid (db k))
      in (case fst r of
            Inr (a, rem, retryMs) \<Rightarrow>
              Inr \<lparr>allowed = (a = 1), remaining = rem,
                   retryAfterSec = (if a = 1 then 0 else max 1 \<lceil>of_int retryMs / (1000 :: rat)\<rceil>)\<rparr>
          | Inl e \<Rightarrow>
              if (case failOpen opts of None \<Rightarrow> True | Some b \<Rightarrow> b)
              then Inr \<lparr>allowed = True, remaining = limit opts, retryAfterSec = 0\<rparr> else Inl e,
          db(k := snd r)))"

text \<open>What the middleware does: go on, answer 429 with \<open>Retry-After\<close>, or fail.\<close>

datatype rl_action = NextHandler | TooMany int | NextError exn

definition rateLimitMiddleware :: "rate_limit_options \<Rightarrow> exn option \<Rightarrow> int \<Rightarrow> string \<Rightarrow> string \<Rightarrow> (string \<Rightarrow> zset) \<Rightarrow>
    rl_action \<times> (string \<Rightarrow> zset)" where
  "rateLimitMiddleware opts outage now uuid client db =
     (case check opts outage now uuid client db of
        (Inl e, db') \<Rightarrow> (NextError e, db')
      | (Inr r, db') \<Rightarrow> (if allowed r then NextHandler else TooMany (retryAfterSec r), db'))"

subsection \<open>The specification\<close>

text \<open>
  A limiter that remembers when it let every request through, forever: a request
  passes if fewer than \<open>lmt\<close> passed in the window \<open>(now - win, now]\<close>; a refused
  one may come back when the oldest of them leaves the window.
\<close>

definition in_window :: "int \<Rightarrow> int \<Rightarrow> int list \<Rightarrow> int list" where
  "in_window win now adm = filter (\<lambda>a. now - win < a) adm"

definition spec_check :: "int \<Rightarrow> int \<Rightarrow> int \<Rightarrow> int list \<Rightarrow> (int \<times> int \<times> int) \<times> int list" where
  "spec_check win lmt now adm =
     (let w = in_window win now adm; n = int (length w) in
      if n < lmt then ((1, lmt - n - 1, 0), adm @ [now])
      else ((0, 0, Min (set w) + win - now), adm))"

text \<open>Histories: requests of one client at their times, with the random members.\<close>

fun lua_run :: "int \<Rightarrow> int \<Rightarrow> (int \<times> string) list \<Rightarrow> zset \<Rightarrow> (int \<times> int \<times> int) res list" where
  "lua_run win lmt [] z = []"
| "lua_run win lmt ((now, m) # rs) z =
     (case SLIDING_WINDOW_LUA now win lmt m z of (r, z') \<Rightarrow> r # lua_run win lmt rs z')"

fun spec_run :: "int \<Rightarrow> int \<Rightarrow> (int \<times> string) list \<Rightarrow> int list \<Rightarrow> (int \<times> int \<times> int) list \<times> int list" where
  "spec_run win lmt [] adm = ([], adm)"
| "spec_run win lmt ((now, m) # rs) adm =
     (case spec_check win lmt now adm of (r, adm') \<Rightarrow>
       (case spec_run win lmt rs adm' of (out, adm'') \<Rightarrow> (r # out, adm'')))"

subsection \<open>The script implements it\<close>

text \<open>
  The set holds exactly the admissions still inside the window, at every later
  time; what has expired with the key had left the window before.
\<close>

definition simulates :: "int \<Rightarrow> int \<Rightarrow> string set \<Rightarrow> zset \<Rightarrow> int list \<Rightarrow> bool" where
  "simulates win t0 fresh z adm \<longleftrightarrow>
     (\<forall>now \<ge> t0. mset (filter (\<lambda>a. now - win < a) (map snd (live now z))) = mset (in_window win now adm)) \<and>
     (\<forall>a \<in> set adm. a \<le> t0) \<and>
     (case z of None \<Rightarrow> True | Some (ms, _) \<Rightarrow> (\<forall>p \<in> set ms. 0 \<le> snd p \<and> fst p \<notin> fresh))"

lemma live_sub: "z = Some (ms, e) \<Longrightarrow> set (live now z) \<subseteq> set ms"
  by (simp add: live_def)

lemma simulates_kept:
  assumes sim: "simulates win t0 fresh z adm" and now: "t0 \<le> now"
  shows "mset (map snd (filter (\<lambda>p. \<not> (0 \<le> snd p \<and> snd p \<le> now - win)) (live now z))) = mset (in_window win now adm)"
    "p \<in> set (live now z) \<Longrightarrow> 0 \<le> snd p \<and> fst p \<notin> fresh"
proof -
  have pos: "p \<in> set (live now z) \<Longrightarrow> 0 \<le> snd p \<and> fst p \<notin> fresh" for p
    using sim live_sub [of z] unfolding simulates_def by (cases z) (auto simp: live_def split: if_splits)
  then show "p \<in> set (live now z) \<Longrightarrow> 0 \<le> snd p \<and> fst p \<notin> fresh" .
  have "filter (\<lambda>p. \<not> (0 \<le> snd p \<and> snd p \<le> now - win)) (live now z) = filter (\<lambda>p. now - win < snd p) (live now z)"
    using pos by (intro filter_cong) auto
  then have "map snd (filter (\<lambda>p. \<not> (0 \<le> snd p \<and> snd p \<le> now - win)) (live now z)) =
      filter (\<lambda>a. now - win < a) (map snd (live now z))" by (simp add: filter_map o_def)
  then show "mset (map snd (filter (\<lambda>p. \<not> (0 \<le> snd p \<and> snd p \<le> now - win)) (live now z))) = mset (in_window win now adm)"
    using sim now by (simp add: simulates_def)
qed

lemma in_window_again: "now \<le> later \<Longrightarrow> in_window win later (in_window win now adm) = in_window win later adm"
  by (auto simp: in_window_def intro: filter_cong)

lemma script_step:
  assumes sim: "simulates win t0 (insert m fresh) z adm" and now: "t0 \<le> now" "0 \<le> now" and cfg: "0 < win" "0 < lmt"
    and m: "m \<notin> fresh"
  shows "\<exists>z'. SLIDING_WINDOW_LUA now win lmt m z = (Inr (fst (spec_check win lmt now adm)), z') \<and>
    simulates win now fresh z' (snd (spec_check win lmt now adm))"
proof -
  define ms where "ms = filter (\<lambda>p. \<not> (0 \<le> snd p \<and> snd p \<le> now - win)) (live now z)"
  have w: "mset (map snd ms) = mset (in_window win now adm)" unfolding ms_def by (rule simulates_kept(1) [OF sim now(1)])
  have len: "length ms = length (in_window win now adm)" using arg_cong [OF w, of size] by simp
  have ms: "0 \<le> snd p \<and> fst p \<noteq> m \<and> fst p \<notin> fresh" if "p \<in> set ms" for p
    using simulates_kept(2) [OF sim now(1), of p] that by (simp add: ms_def)
  have later: "mset (filter (\<lambda>a. t - win < a) (map snd ms)) = mset (in_window win t adm)" if "now \<le> t" for t
  proof -
    have "mset (filter (\<lambda>a. t - win < a) (map snd ms)) = filter_mset (\<lambda>a. t - win < a) (mset (in_window win now adm))"
      by (simp only: mset_filter w)
    also have "\<dots> = mset (in_window win t (in_window win now adm))" by (simp only: in_window_def [of win t] mset_filter)
    finally show ?thesis by (simp only: in_window_again [OF that])
  qed
  show ?thesis
  proof (cases "int (length ms) < lmt")
    case True
    let ?z = "Some (ms @ [(m, now)], now + win)"
    have add: "zadd m now ms = ms @ [(m, now)]" using ms by (auto simp: zadd_def intro: filter_True)
    have old: "\<forall>a \<in> set adm. a \<le> now" using sim now(1) unfolding simulates_def by force
    have "mset (filter (\<lambda>a. t - win < a) (map snd (live t ?z))) = mset (in_window win t (adm @ [now]))" if t: "now \<le> t" for t
    proof (cases "now + win < t")
      case True
      then have "in_window win t (adm @ [now]) = []" using old by (force simp: in_window_def filter_empty_conv)
      then show ?thesis using True by (simp add: live_def)
    next
      case False
      then show ?thesis using later [OF t] by (simp add: live_def in_window_def)
    qed
    then have "simulates win now fresh ?z (adm @ [now])"
      using ms m now(2) old unfolding simulates_def by auto
    then show ?thesis
      unfolding SLIDING_WINDOW_LUA_def spec_check_def Let_def ms_def [symmetric] add pexpire_def
      using True len cfg(1) by simp
  next
    case False
    then have ne: "ms \<noteq> []" using cfg(2) by auto
    then obtain ms0 e where z: "z = Some (ms0, e)" unfolding ms_def live_def by (cases z) auto
    have "mset (filter (\<lambda>a. t - win < a) (map snd (live t (Some (ms, e))))) = mset (in_window win t adm)" if t: "now \<le> t" for t
    proof (cases "e < t")
      case True
      then have "live t z = []" "live t (Some (ms, e)) = []" by (simp_all add: live_def z)
      moreover have "mset (filter (\<lambda>a. t - win < a) (map snd (live t z))) = mset (in_window win t adm)"
        using sim now(1) t unfolding simulates_def by (meson order_trans)
      ultimately show ?thesis by simp
    qed (use later [OF t] in \<open>simp add: live_def\<close>)
    then have sim': "simulates win now fresh (Some (ms, e)) adm"
      using ms sim now(1) unfolding simulates_def by force
    have "snd ` set ms = set (in_window win now adm)" using arg_cong [OF w, of set_mset] by simp
    then show ?thesis
      unfolding SLIDING_WINDOW_LUA_def spec_check_def Let_def ms_def [symmetric]
      using False len ne z sim' by simp
  qed
qed

lemma lua_run_spec:
  assumes "simulates win t0 (snd ` set rs) z adm" "sorted (t0 # map fst rs)" "0 \<le> t0" "distinct (map snd rs)" "0 < win" "0 < lmt"
  shows "lua_run win lmt rs z = map Inr (fst (spec_run win lmt rs adm))"
  using assms(1-4)
proof (induction rs arbitrary: t0 z adm)
  case (Cons r rs)
  obtain now m where r: "r = (now, m)" by fastforce
  have "simulates win t0 (insert m (snd ` set rs)) z adm" "t0 \<le> now" "0 \<le> now" "m \<notin> snd ` set rs"
    using Cons.prems r by auto
  from script_step [OF this(1-3) assms(5,6) this(4)] obtain z' where
    z': "SLIDING_WINDOW_LUA now win lmt m z = (Inr (fst (spec_check win lmt now adm)), z')"
      "simulates win now (snd ` set rs) z' (snd (spec_check win lmt now adm))" by blast
  have "lua_run win lmt rs z' = map Inr (fst (spec_run win lmt rs (snd (spec_check win lmt now adm))))"
    using Cons.prems r by (intro Cons.IH [OF z'(2)]) auto
  then show ?case using z'(1) by (simp add: r case_prod_unfold)
qed simp

subsection \<open>The limit holds in every window\<close>

definition passed_in :: "int \<Rightarrow> int \<Rightarrow> int list \<Rightarrow> int" where
  "passed_in win t adm = int (length (filter (\<lambda>a. t - win < a \<and> a \<le> t) adm))"

lemma passed_in_step:
  assumes "\<forall>a \<in> set adm. a \<le> now" "passed_in win t adm \<le> n" "int (length (in_window win now adm)) < n"
  shows "passed_in win t (adm @ [now]) \<le> n"
proof (cases "t - win < now \<and> now \<le> t")
  case True
  have "length (filter (\<lambda>a. t - win < a \<and> a \<le> t) adm) \<le> length (in_window win now adm)"
    unfolding in_window_def using True by (induction adm) auto
  then show ?thesis using assms(3) True by (simp add: passed_in_def)
next
  case False
  then show ?thesis using assms(2) by (simp add: passed_in_def) auto
qed

lemma spec_run_limit:
  assumes "sorted (t0 # map fst rs)" "\<forall>a \<in> set adm. a \<le> t0" "\<forall>t. passed_in win t adm \<le> n"
  shows "passed_in win t (snd (spec_run win n rs adm)) \<le> n"
  using assms
proof (induction rs arbitrary: t0 adm)
  case (Cons r rs)
  obtain now m where r: "r = (now, m)" by fastforce
  obtain x adm' where sc: "spec_check win n now adm = (x, adm')" by fastforce
  have now: "\<forall>a \<in> set adm. a \<le> now" using Cons.prems(1,2) r by force
  have "(\<forall>a \<in> set adm'. a \<le> now) \<and> (\<forall>t. passed_in win t adm' \<le> n)"
  proof (cases "int (length (in_window win now adm)) < n")
    case True
    then have "adm' = adm @ [now]" using sc by (simp add: spec_check_def Let_def)
    then show ?thesis using now passed_in_step [OF now _ True] Cons.prems(3) by auto
  next
    case False
    then have "adm' = adm" using sc by (simp add: spec_check_def Let_def)
    then show ?thesis using now Cons.prems(3) by simp
  qed
  then have "passed_in win t (snd (spec_run win n rs adm')) \<le> n"
    using Cons.prems(1) r by (intro Cons.IH [of now]) auto
  then show ?case by (simp add: r sc case_prod_unfold)
qed simp

text \<open>C32: on one client's requests, at any nondecreasing times and for a positive limit
  and a positive window, the Lua script answers exactly as the limiter that remembers every request it ever let through:
  pruning the set and letting the key expire never change an answer; and in
  every window of the configured length, wherever it starts, at most \<open>limit\<close>
  requests pass.\<close>

theorem script_is_sliding_window:
  assumes "sorted (map fst rs)" "\<forall>r \<in> set rs. 0 \<le> fst r" "distinct (map snd rs)" "0 < win" "0 < n"
  shows "lua_run win n rs None = map Inr (fst (spec_run win n rs [])) \<and>
    passed_in win t (snd (spec_run win n rs [])) \<le> n"
proof -
  have s: "sorted (0 # map fst rs)" using assms(1,2) by auto
  have "simulates win 0 (snd ` set rs) None []" by (simp add: simulates_def live_def in_window_def)
  from lua_run_spec [OF this s _ assms(3-5)] have "lua_run win n rs None = map Inr (fst (spec_run win n rs []))" by simp
  moreover have "passed_in win t (snd (spec_run win n rs [])) \<le> n"
    by (rule spec_run_limit [OF s]) (use assms(5) in \<open>simp_all add: passed_in_def\<close>)
  ultimately show ?thesis by blast
qed

theorem script_is_sliding_window_witness:
  "lua_run 1000 1 [(5, ''a''), (900, ''b''), (1005, ''c'')] None = [Inr (1, 0, 0), Inr (0, 0, 105), Inr (1, 0, 0)]"
proof -
  have "lua_run 1000 1 [(5, ''a''), (900, ''b''), (1005, ''c'')] None =
      map Inr (fst (spec_run 1000 1 [(5, ''a''), (900, ''b''), (1005, ''c'')] []))"
    using script_is_sliding_window [of "[(5, ''a''), (900, ''b''), (1005, ''c'')]" 1000 1 0] by simp
  then show ?thesis by (simp add: spec_check_def in_window_def Let_def)
qed

text \<open>
  A limit of 0 does not close the door: with an empty set the script subtracts
  from nothing, its error counts as an outage, and the default is to let
  requests through.
\<close>

lemma limit_zero_fails_open:
  assumes "limit opts \<le> 0" "failOpen opts = None" "db (rl_key opts client) = None"
  shows "fst (rateLimitMiddleware opts None now uuid client db) = NextHandler"
  using assms by (simp add: rateLimitMiddleware_def check_def SLIDING_WINDOW_LUA_def Let_def live_def)

text \<open>The middleware refuses with a wait of at least a second, and never when Redis is away.\<close>

lemma refusal_waits:
  assumes "fst (rateLimitMiddleware opts outage now uuid client db) = TooMany n"
  shows "1 \<le> n \<and> outage = None"
  using assms by (auto simp: rateLimitMiddleware_def check_def Let_def split: sum.splits option.splits if_splits)

end
