(* ===== verification/Redis.thy ===== *)
theory Redis
  imports Tokens
begin

text \<open>
  The string commands of Redis the program sends, as documented: a key holds a
  value and possibly the time (in ms) it expires.  A value is the JSON text the
  program stores, given by the JSON value, or any other text.
\<close>

datatype raw = RawJson json | RawText string

type_synonym kv = "string \<Rightarrow> (raw \<times> int option) option"

definition r_get :: "int \<Rightarrow> string \<Rightarrow> kv \<Rightarrow> raw option" where
  "r_get now k db =
     (case db k of
        None \<Rightarrow> None
      | Some (v, None) \<Rightarrow> Some v
      | Some (v, Some e) \<Rightarrow> if e < now then None else Some v)"

definition r_put :: "int \<Rightarrow> int \<Rightarrow> string \<Rightarrow> raw \<Rightarrow> kv \<Rightarrow> kv" where
  "r_put now ttl k v db = db(k \<mapsto> (v, Some (now + ttl)))"

definition r_del :: "string \<Rightarrow> kv \<Rightarrow> kv" where
  "r_del k db = db(k := None)"

text \<open>\<open>SET k v EX/PX ttl\<close> refuses a lifetime that is not positive.\<close>

definition r_set :: "int \<Rightarrow> int \<Rightarrow> string \<Rightarrow> raw \<Rightarrow> kv \<Rightarrow> unit res \<times> kv" where
  "r_set now ttl k v db =
     (if ttl \<le> 0 then (Inl (Error ''ERR invalid expire time''), db) else (Inr (), r_put now ttl k v db))"

definition r_set_nx :: "int \<Rightarrow> int \<Rightarrow> string \<Rightarrow> raw \<Rightarrow> kv \<Rightarrow> bool res \<times> kv" where
  "r_set_nx now ttl k v db =
     (if ttl \<le> 0 then (Inl (Error ''ERR invalid expire time''), db)
      else if r_get now k db \<noteq> None then (Inr False, db) else (Inr True, r_put now ttl k v db))"

definition r_getex :: "int \<Rightarrow> int \<Rightarrow> string \<Rightarrow> kv \<Rightarrow> raw option res \<times> kv" where
  "r_getex now ttl k db =
     (if ttl \<le> 0 then (Inl (Error ''ERR invalid expire time''), db)
      else case r_get now k db of None \<Rightarrow> (Inr None, db) | Some v \<Rightarrow> (Inr (Some v), r_put now ttl k v db))"

subsection \<open>The contract of a store with lifetimes\<close>

locale ttl_store =
  fixes get :: "int \<Rightarrow> 'k \<Rightarrow> 's \<Rightarrow> 'v option"
    and put :: "int \<Rightarrow> int \<Rightarrow> 'k \<Rightarrow> 'v \<Rightarrow> 's \<Rightarrow> 's"
    and del :: "'k \<Rightarrow> 's \<Rightarrow> 's"
  assumes get_put: "t \<le> now + ttl \<Longrightarrow> get t k (put now ttl k v s) = Some v"
    and get_expired: "now + ttl < t \<Longrightarrow> get t k (put now ttl k v s) = None"
    and get_put_other: "k' \<noteq> k \<Longrightarrow> get t k' (put now ttl k v s) = get t k' s"
    and get_del: "get t k (del k s) = None"
    and get_del_other: "k' \<noteq> k \<Longrightarrow> get t k' (del k s) = get t k' s"
begin

lemma get_put_iff: "get t k (put now ttl k v s) = (if t \<le> now + ttl then Some v else None)"
  using get_put get_expired by simp

text \<open>Writing the value back, as a rolling lifetime does, moves its end.\<close>

lemma renewed:
  assumes "get t k s = Some v" "t \<le> t'" "t' \<le> t + ttl"
  shows "get t' k (put t ttl k v s) = Some v"
  using get_put assms(3) .

lemma lookup_stays: "k' \<noteq> k \<Longrightarrow> get t k' (del k (put now ttl k v s)) = get t k' s"
  by (simp add: get_del_other get_put_other)

end

interpretation kv_store: ttl_store r_get r_put r_del
  by unfold_locales (auto simp: r_get_def r_put_def r_del_def)

end
