(* ===== verification/Session.thy ===== *)
theory Session
  imports Redis Base64
begin

text \<open>
  Sessions in Redis with a rolling lifetime: \<open>src/redis/session.ts\<close>.  The random
  bytes of a new session id are a parameter; session data is a JSON object.
\<close>

definition SESSION_COOKIE :: string where "SESSION_COOKIE = ''sid''"

record session_store =
  ss_ttlSec :: int
  ss_prefix :: string

definition session_key :: "session_store \<Rightarrow> string \<Rightarrow> string" where
  "session_key st sid = ss_prefix st @ sid"

definition session_create :: "session_store \<Rightarrow> int \<Rightarrow> string \<Rightarrow> json \<Rightarrow> kv \<Rightarrow> string res \<times> kv" where
  "session_create st now sid data db =
     (case r_set now (ss_ttlSec st * 1000) (session_key st sid) (RawJson data) db of
        (Inl e, db') \<Rightarrow> (Inl e, db') | (Inr _, db') \<Rightarrow> (Inr sid, db'))"

definition session_touch :: "session_store \<Rightarrow> int \<Rightarrow> string \<Rightarrow> kv \<Rightarrow> json option res \<times> kv" where
  "session_touch st now sid db =
     (case r_getex now (ss_ttlSec st * 1000) (session_key st sid) db of
        (Inl e, db') \<Rightarrow> (Inl e, db')
      | (Inr None, db') \<Rightarrow> (Inr None, db')
      | (Inr (Some (RawText _)), db') \<Rightarrow> (Inl (Error ''SyntaxError''), db')
      | (Inr (Some (RawJson JNull)), db') \<Rightarrow> (Inr None, db')
      | (Inr (Some (RawJson j)), db') \<Rightarrow> (Inr (Some j), db'))"

definition session_save :: "session_store \<Rightarrow> int \<Rightarrow> string \<Rightarrow> json \<Rightarrow> kv \<Rightarrow> unit res \<times> kv" where
  "session_save st now sid data db = r_set now (ss_ttlSec st * 1000) (session_key st sid) (RawJson data) db"

definition session_destroy :: "session_store \<Rightarrow> string \<Rightarrow> kv \<Rightarrow> kv" where
  "session_destroy st sid db = r_del (session_key st sid) db"

subsection \<open>The cookie\<close>

definition readCookie :: "string option \<Rightarrow> string \<Rightarrow> string option" where
  "readCookie header name =
     map_option (\<lambda>part. join_with ''='' (tl (split_on CHR ''='' (js_trim part))))
       (find (\<lambda>part. hd (split_on CHR ''='' (js_trim part)) = name)
         (split_on CHR '';'' (case header of None \<Rightarrow> [] | Some h \<Rightarrow> h)))"

subsection \<open>The middleware\<close>

record request_session =
  rs_id :: string
  rs_data :: json
  rs_isNew :: bool

definition set_cookie :: "string \<Rightarrow> string" where
  "set_cookie sid = SESSION_COOKIE @ ''='' @ sid @ ''; HttpOnly; Path=/; SameSite=Lax''"

text \<open>What counts as true in \<open>if (sid && existing)\<close>.\<close>

fun json_truthy :: "json \<Rightarrow> bool" where
  "json_truthy JNull = False"
| "json_truthy (JBool b) = b"
| "json_truthy (JNum q) = (q \<noteq> 0)"
| "json_truthy (JStr s) = (s \<noteq> '''')"
| "json_truthy _ = True"

text \<open>
  \<open>fresh\<close> is the id drawn for a new session.  The result is what \<open>next\<close> gets (the
  session, or an error), the \<open>Set-Cookie\<close> header, and the store.
\<close>

definition sessionMiddleware :: "session_store \<Rightarrow> int \<Rightarrow> string \<Rightarrow> string option \<Rightarrow> kv \<Rightarrow>
    request_session res \<times> string option \<times> kv" where
  "sessionMiddleware st now fresh cookie db =
     (let sid = (case readCookie cookie SESSION_COOKIE of None \<Rightarrow> None | Some s \<Rightarrow> if s = '''' then None else Some s);
          (existing, db1) = (case sid of None \<Rightarrow> (Inr None, db) | Some s \<Rightarrow> session_touch st now s db)
      in case existing of
           Inl e \<Rightarrow> (Inl e, None, db1)
         | Inr found \<Rightarrow>
             if sid \<noteq> None \<and> found \<noteq> None \<and> json_truthy (the found)
             then (Inr \<lparr>rs_id = the sid, rs_data = the found, rs_isNew = False\<rparr>, None, db1)
             else (case session_create st now fresh (JObj []) db1 of
                     (Inl e, db2) \<Rightarrow> (Inl e, None, db2)
                   | (Inr i, db2) \<Rightarrow>
                       (Inr \<lparr>rs_id = i, rs_data = JObj [], rs_isNew = True\<rparr>, Some (set_cookie i), db2)))"

text \<open>
  A request: the time it comes in, the id drawn if a new session is needed, the
  \<open>Cookie\<close> header, what its handler does with the session it is given (nothing, save
  other data, destroy it: any function of that session), and the time it does so.
\<close>

datatype session_action = LeaveSession | SaveSession "(string \<times> json) list" | DestroySession

record visit =
  vi_now :: int
  vi_fresh :: string
  vi_cookie :: "string option"
  vi_handler :: "request_session \<Rightarrow> session_action"
  vi_at :: int

definition handle_session :: "session_store \<Rightarrow> int \<Rightarrow> session_action \<Rightarrow> request_session \<Rightarrow> kv \<Rightarrow> kv" where
  "handle_session st now act s db =
     (case act of
        LeaveSession \<Rightarrow> db
      | SaveSession kvs \<Rightarrow> snd (session_save st now (rs_id s) (JObj kvs) db)
      | DestroySession \<Rightarrow> session_destroy st (rs_id s) db)"

definition serve_visit :: "session_store \<Rightarrow> visit \<Rightarrow> kv \<Rightarrow> request_session res \<times> string option \<times> kv" where
  "serve_visit st v db =
     (case sessionMiddleware st (vi_now v) (vi_fresh v) (vi_cookie v) db of
        (Inl e, header, db') \<Rightarrow> (Inl e, header, db')
      | (Inr s, header, db') \<Rightarrow> (Inr s, header, handle_session st (vi_at v) (vi_handler v s) s db'))"

text \<open>Requests of any clients, one after the other, and what each handler is given.\<close>

fun session_run :: "session_store \<Rightarrow> visit list \<Rightarrow> kv \<Rightarrow> request_session res list" where
  "session_run st [] db = []"
| "session_run st (v # visits) db =
     (case serve_visit st v db of (r, _, db') \<Rightarrow> r # session_run st visits db')"

text \<open>
  What the client of session \<open>sid\<close> should see: \<open>Some data\<close> while the session is
  there, with the data last saved, \<open>None\<close> once it was destroyed, when every
  request gets an empty session with the drawn id instead.
\<close>

definition own_visit :: "string \<Rightarrow> visit \<Rightarrow> bool" where
  "own_visit sid v \<longleftrightarrow> readCookie (vi_cookie v) SESSION_COOKIE = Some sid"

definition expected_session :: "string \<Rightarrow> (string \<times> json) list option \<Rightarrow> visit \<Rightarrow> request_session" where
  "expected_session sid data v = (case data of
     Some kvs \<Rightarrow> \<lparr>rs_id = sid, rs_data = JObj kvs, rs_isNew = False\<rparr>
   | None \<Rightarrow> \<lparr>rs_id = vi_fresh v, rs_data = JObj [], rs_isNew = True\<rparr>)"

definition next_data :: "string \<Rightarrow> (string \<times> json) list option \<Rightarrow> visit \<Rightarrow> (string \<times> json) list option" where
  "next_data sid data v =
     (if own_visit sid v \<and> data \<noteq> None
      then (case vi_handler v (expected_session sid data v) of
              LeaveSession \<Rightarrow> data | SaveSession kvs \<Rightarrow> Some kvs | DestroySession \<Rightarrow> None)
      else data)"

fun session_view :: "string \<Rightarrow> (string \<times> json) list option \<Rightarrow> visit list \<Rightarrow> request_session option list" where
  "session_view sid data [] = []"
| "session_view sid data (v # visits) =
     (if own_visit sid v then Some (expected_session sid data v) else None) # session_view sid (next_data sid data v) visits"

text \<open>
  The client, whose session was last read or written at \<open>t\<close>, never pauses longer than
  the lifetime while the session is there, and no request draws its id again.
\<close>

fun stays_active :: "session_store \<Rightarrow> string \<Rightarrow> (string \<times> json) list option \<Rightarrow> int \<Rightarrow> visit list \<Rightarrow> bool" where
  "stays_active st sid data t [] = True"
| "stays_active st sid data t (v # visits) =
     (vi_fresh v \<noteq> sid \<and>
      (own_visit sid v \<and> data \<noteq> None \<longrightarrow> vi_now v \<le> t + ss_ttlSec st * 1000) \<and>
      stays_active st sid (next_data sid data v)
        (if own_visit sid v
         then (case vi_handler v (expected_session sid data v) of SaveSession _ \<Rightarrow> vi_at v | _ \<Rightarrow> vi_now v) else t) visits)"

subsection \<open>The cookie comes back\<close>

definition sid_letters :: "string \<Rightarrow> bool" where
  "sid_letters s \<longleftrightarrow> s \<noteq> [] \<and> (\<forall>c \<in> set s. b64_val c \<noteq> None)"

lemma sid_letterD:
  assumes "b64_val c \<noteq> None"
  shows "\<not> js_space c" "c \<noteq> CHR '';''" "c \<noteq> CHR ''=''"
  using assms by (auto simp: b64_val_def js_space_def Let_def split: if_splits)

lemma js_trim_none:
  assumes "s \<noteq> []" "\<not> js_space (hd s)" "\<not> js_space (List.last s)"
  shows "js_trim s = s"
proof -
  have "dropWhile js_space s = s" "dropWhile js_space (rev s) = rev s"
    using assms by (simp_all add: dropWhile_eq_self_iff hd_rev)
  then show ?thesis by (simp add: js_trim_def)
qed

text \<open>
  Whatever cookies the browser sends before it: the id written by \<open>set_cookie\<close> is
  read back.
\<close>

lemma read_own_cookie:
  assumes "sid_letters sid"
  shows "readCookie (Some (''theme=dark; sid='' @ sid)) SESSION_COOKIE = Some sid"
    and "readCookie (Some (''sid='' @ sid)) SESSION_COOKIE = Some sid"
proof -
  have clean: "CHR '';'' \<notin> set sid" "CHR ''='' \<notin> set sid"
    using assms sid_letterD(2) [of "CHR '';''"] sid_letterD(3) [of "CHR ''=''"] by (auto simp: sid_letters_def)
  have e: "\<not> js_space (List.last sid)" "sid \<noteq> []"
    using assms sid_letterD(1) List.last_in_set [of sid] by (simp_all add: sid_letters_def)
  have trim: "js_trim (''sid='' @ sid) = ''sid='' @ sid"
  proof (rule js_trim_none)
    show "\<not> js_space (List.last (''sid='' @ sid))" using e by simp
  qed (simp_all add: js_space_def)
  have trim': "js_trim ('' sid='' @ sid) = ''sid='' @ sid"
    using trim by (simp add: js_trim_def js_space_def)
  have parts: "split_on CHR ''='' (''sid='' @ sid) = [''sid'', sid]"
    using clean by simp
  have dark: "split_on CHR ''='' (js_trim ''theme=dark'') = [''theme'', ''dark'']" by code_simp
  have own: "split_on CHR '';'' (''sid='' @ sid) = [''sid='' @ sid]" using clean by simp
  show "readCookie (Some (''sid='' @ sid)) SESSION_COOKIE = Some sid"
    unfolding readCookie_def option.case own using trim parts by (simp add: SESSION_COOKIE_def)
  have two: "split_on CHR '';'' (''theme=dark; sid='' @ sid) = [''theme=dark'', '' sid='' @ sid]"
    using clean by simp
  show "readCookie (Some (''theme=dark; sid='' @ sid)) SESSION_COOKIE = Some sid"
    unfolding readCookie_def option.case two using trim' parts dark by (simp add: SESSION_COOKIE_def)
qed

subsection \<open>Rolling lifetime\<close>

text \<open>The session of \<open>sid\<close> is stored with \<open>data\<close> and lives exactly a lifetime beyond \<open>t\<close>.\<close>

definition alive :: "session_store \<Rightarrow> string \<Rightarrow> json \<Rightarrow> int \<Rightarrow> kv \<Rightarrow> bool" where
  "alive st sid data t db \<longleftrightarrow> db (session_key st sid) = Some (RawJson data, Some (t + ss_ttlSec st * 1000))"

lemma session_key_inj [simp]: "session_key st a = session_key st b \<longleftrightarrow> a = b"
  by (simp add: session_key_def)

lemma session_touch_other:
  "sid \<noteq> s \<Longrightarrow> snd (session_touch st now s db) (session_key st sid) = db (session_key st sid)"
  by (auto simp: session_touch_def r_getex_def r_put_def split: option.split raw.split json.split)

lemma session_create_other:
  "sid \<noteq> s \<Longrightarrow> snd (session_create st now s d db) (session_key st sid) = db (session_key st sid)"
  by (auto simp: session_create_def r_set_def r_put_def)

lemma session_create_alive:
  "0 < ss_ttlSec st \<Longrightarrow> session_create st now sid d db = (r, db') \<Longrightarrow> r = Inr sid \<and> alive st sid d now db'"
  by (auto simp: session_create_def r_set_def r_put_def alive_def)

lemma session_touch_alive:
  assumes "alive st sid data t db" "now \<le> t + ss_ttlSec st * 1000" "0 < ss_ttlSec st" "data \<noteq> JNull"
  shows "\<exists>db'. session_touch st now sid db = (Inr (Some data), db') \<and> alive st sid data now db'"
  using assms by (cases data) (auto simp: session_touch_def r_getex_def r_get_def r_put_def alive_def)

lemma middleware_own:
  assumes "alive st sid data t db" "now \<le> t + ss_ttlSec st * 1000" "0 < ss_ttlSec st" "json_truthy data"
    and "readCookie cookie SESSION_COOKIE = Some sid" "sid \<noteq> ''''"
  shows "\<exists>db'. sessionMiddleware st now fresh cookie db = (Inr \<lparr>rs_id = sid, rs_data = data, rs_isNew = False\<rparr>, None, db')
    \<and> alive st sid data now db'"
proof -
  have "data \<noteq> JNull" using assms(4) by auto
  then obtain db' where "session_touch st now sid db = (Inr (Some data), db')" "alive st sid data now db'"
    using session_touch_alive [OF assms(1-3)] by blast
  then show ?thesis using assms(4-6) by (simp add: sessionMiddleware_def Let_def)
qed

lemma middleware_other:
  assumes "readCookie cookie SESSION_COOKIE \<noteq> Some sid" "fresh \<noteq> sid"
    and "sessionMiddleware st now fresh cookie db = (r, h, db')"
  shows "db' (session_key st sid) = db (session_key st sid) \<and> (\<forall>s. r = Inr s \<longrightarrow> rs_id s \<noteq> sid)"
proof -
  let ?k = "session_key st sid"
  define s where "s = (case readCookie cookie SESSION_COOKIE of None \<Rightarrow> None | Some s \<Rightarrow> if s = '''' then None else Some s)"
  define m where "m = (case s of None \<Rightarrow> (Inr None, db) | Some s \<Rightarrow> session_touch st now s db)"
  have "s \<noteq> Some sid" using assms(1) by (auto simp: s_def split: option.splits if_splits)
  then have "snd m ?k = db ?k"
    using session_touch_other [of sid _ st now db] by (cases s) (auto simp: m_def)
  moreover have "snd (session_create st now fresh (JObj []) (snd m)) ?k = snd m ?k"
    using assms(2) by (simp add: session_create_other)
  moreover have "db' = snd m \<or> db' = snd (session_create st now fresh (JObj []) (snd m))"
    using assms(3) unfolding sessionMiddleware_def s_def[symmetric]
    by (auto simp: m_def[symmetric] Let_def split: prod.splits sum.splits if_splits)
  moreover have "rs_id x \<noteq> sid" if "r = Inr x" for x
    using assms(2,3) that \<open>s \<noteq> Some sid\<close> unfolding sessionMiddleware_def s_def[symmetric]
    by (auto simp: m_def[symmetric] Let_def session_create_def split: prod.splits sum.splits if_splits)
  ultimately show ?thesis by metis
qed

lemma session_touch_gone:
  "db (session_key st sid) = None \<Longrightarrow> 0 < ss_ttlSec st \<Longrightarrow> session_touch st now sid db = (Inr None, db)"
  by (simp add: session_touch_def r_getex_def r_get_def)

lemma middleware_gone:
  assumes "db (session_key st sid) = None" "0 < ss_ttlSec st" "fresh \<noteq> sid"
    and "readCookie cookie SESSION_COOKIE = Some sid" "sid \<noteq> ''''"
  shows "\<exists>db'. sessionMiddleware st now fresh cookie db =
      (Inr \<lparr>rs_id = fresh, rs_data = JObj [], rs_isNew = True\<rparr>, Some (set_cookie fresh), db') \<and>
    db' (session_key st sid) = None"
proof -
  obtain r db' where c: "session_create st now fresh (JObj []) db = (r, db')" by fastforce
  have "r = Inr fresh" using session_create_alive [OF assms(2) c] by simp
  moreover have "db' (session_key st sid) = None"
    using session_create_other [of sid fresh st now "JObj []" db] assms(1,3) c by simp
  ultimately show ?thesis
    using assms(4,5) c by (simp add: sessionMiddleware_def session_touch_gone [where db = db, OF assms(1,2)])
qed

text \<open>\<open>session_stored st sid data t db\<close>: the session as the client should find it.\<close>

definition session_stored :: "session_store \<Rightarrow> string \<Rightarrow> (string \<times> json) list option \<Rightarrow> int \<Rightarrow> kv \<Rightarrow> bool" where
  "session_stored st sid data t db \<longleftrightarrow>
     (case data of None \<Rightarrow> db (session_key st sid) = None | Some kvs \<Rightarrow> alive st sid (JObj kvs) t db)"

lemma handle_session_other:
  "rs_id s \<noteq> sid \<Longrightarrow> handle_session st now act s db (session_key st sid) = db (session_key st sid)"
  by (auto simp: handle_session_def session_save_def session_destroy_def r_set_def r_put_def r_del_def
      split: session_action.split)

lemma handle_session_own:
  assumes "alive st sid (JObj kvs) t db" "0 < ss_ttlSec st" "rs_id s = sid"
  shows "session_stored st sid (case act of LeaveSession \<Rightarrow> Some kvs | SaveSession kvs' \<Rightarrow> Some kvs' | DestroySession \<Rightarrow> None)
    (case act of SaveSession _ \<Rightarrow> later | _ \<Rightarrow> t) (handle_session st later act s db)"
  using assms
  by (auto simp: handle_session_def session_save_def session_destroy_def r_set_def r_put_def r_del_def session_stored_def alive_def
      split: session_action.split)

lemma serve_other:
  assumes "\<not> own_visit sid v" "vi_fresh v \<noteq> sid" "serve_visit st v db = (r, h, db')"
  shows "session_stored st sid data t db' \<longleftrightarrow> session_stored st sid data t db"
proof -
  obtain r0 h0 d where m: "sessionMiddleware st (vi_now v) (vi_fresh v) (vi_cookie v) db = (r0, h0, d)"
    by (metis prod_cases3)
  note o = middleware_other [OF assms(1) [unfolded own_visit_def] assms(2) m]
  have "db' (session_key st sid) = db (session_key st sid)"
    using o assms(3) handle_session_other by (auto simp: serve_visit_def m split: sum.splits)
  then show ?thesis by (auto simp: session_stored_def alive_def split: option.split)
qed

lemma serve_own:
  assumes st: "session_stored st sid data t db" and v: "own_visit sid v" "vi_fresh v \<noteq> sid" and ttl: "0 < ss_ttlSec st" "sid \<noteq> ''''"
    and soon: "data \<noteq> None \<longrightarrow> vi_now v \<le> t + ss_ttlSec st * 1000"
  shows "\<exists>h db'. serve_visit st v db = (Inr (expected_session sid data v), h, db') \<and>
    session_stored st sid (next_data sid data v)
      (case vi_handler v (expected_session sid data v) of SaveSession _ \<Rightarrow> vi_at v | _ \<Rightarrow> vi_now v) db'"
proof (cases data)
  case None
  let ?s = "expected_session sid None v"
  obtain d where m: "sessionMiddleware st (vi_now v) (vi_fresh v) (vi_cookie v) db = (Inr ?s, Some (set_cookie (vi_fresh v)), d)"
    and d: "d (session_key st sid) = None"
    using middleware_gone [of db st sid "vi_fresh v" "vi_cookie v" "vi_now v"] st v ttl
    by (auto simp: None session_stored_def own_visit_def expected_session_def)
  have "handle_session st (vi_at v) (vi_handler v ?s) ?s d (session_key st sid) = None"
    using d v(2) handle_session_other [of ?s sid] by (simp add: expected_session_def)
  then show ?thesis by (simp add: serve_visit_def m None session_stored_def next_data_def)
next
  case (Some kvs)
  let ?s = "expected_session sid (Some kvs) v"
  have "alive st sid (JObj kvs) t db" using st by (simp add: Some session_stored_def)
  then obtain d where m: "sessionMiddleware st (vi_now v) (vi_fresh v) (vi_cookie v) db = (Inr ?s, None, d)"
    and d: "alive st sid (JObj kvs) (vi_now v) d"
    using middleware_own [of st sid "JObj kvs" t db "vi_now v" "vi_cookie v" "vi_fresh v"] v ttl soon
    by (auto simp: Some own_visit_def expected_session_def)
  have "rs_id ?s = sid" by (simp add: expected_session_def)
  from handle_session_own [OF d ttl(1) this, of "vi_handler v ?s" "vi_at v"] show ?thesis
    using v(1) by (simp add: serve_visit_def m Some next_data_def)
qed

lemma run_keeps_session:
  assumes "0 < ss_ttlSec st" "sid \<noteq> ''''"
  shows "session_stored st sid data t db \<Longrightarrow> stays_active st sid data t visits \<Longrightarrow>
    list_all2 (\<lambda>view r. \<forall>s. view = Some s \<longrightarrow> r = Inr s) (session_view sid data visits) (session_run st visits db)"
proof (induction visits arbitrary: data t db)
  case (Cons v visits)
  obtain r h db' where m: "serve_visit st v db = (r, h, db')" by (metis prod_cases3)
  show ?case
  proof (cases "own_visit sid v")
    case True
    then have "r = Inr (expected_session sid data v)" and next_st: "session_stored st sid (next_data sid data v)
        (case vi_handler v (expected_session sid data v) of SaveSession _ \<Rightarrow> vi_at v | _ \<Rightarrow> vi_now v) db'"
      using serve_own [OF Cons.prems(1) True _ assms] Cons.prems(2) m by auto
    then show ?thesis
      using True Cons.IH [OF next_st] Cons.prems(2) by (simp add: m)
  next
    case False
    then have "session_stored st sid (next_data sid data v) t db'"
      using serve_other [OF False _ m] Cons.prems by (simp add: next_data_def)
    then show ?thesis using False Cons.IH Cons.prems(2) by (simp add: m)
  qed
qed simp

text \<open>C33: a session lives as long as its client comes back, and it is the client's own:
  after a request was given the new session \<open>sid\<close>, every later request that carries
  its cookie gets that session with exactly the data the session's handlers saved last
  (empty until the first save), provided the client never pauses for longer than the
  lifetime, however long it goes on altogether and whatever the other clients' requests
  and handlers do in between; once a handler has destroyed it, no request gets it
  again: the cookie is answered with an empty session under the newly drawn id.
  (Requests are served one after the other; a drawn id is not drawn twice.)\<close>

theorem session_rolls:
  assumes "0 < ss_ttlSec st" "sid \<noteq> ''''"
    and "sessionMiddleware st t0 sid cookie0 db = (Inr s, header, db1)" "rs_isNew s"
    and "stays_active st sid (Some []) t0 visits"
  shows "header = Some (set_cookie sid) \<and> s = \<lparr>rs_id = sid, rs_data = JObj [], rs_isNew = True\<rparr> \<and>
    list_all2 (\<lambda>view r. \<forall>s. view = Some s \<longrightarrow> r = Inr s)
      (session_view sid (Some []) visits) (session_run st visits db1)"
proof -
  from assms(3,4) obtain d i where c: "session_create st t0 sid (JObj []) d = (Inr i, db1)" "header = Some (set_cookie i)"
      "s = \<lparr>rs_id = i, rs_data = JObj [], rs_isNew = True\<rparr>"
    by (auto simp: sessionMiddleware_def Let_def split: prod.splits sum.splits if_splits)
  have "i = sid" "alive st sid (JObj []) t0 db1" using session_create_alive [OF assms(1) c(1)] by simp_all
  then show ?thesis
    using c(2,3) run_keeps_session [OF assms(1,2), of "Some []" t0 db1 visits] assms(5) by (simp add: session_stored_def)
qed

text \<open>An id the store does not know is never adopted: the client gets the drawn one.\<close>

lemma unknown_sid_replaced:
  assumes "readCookie cookie SESSION_COOKIE = Some sid" "r_get now (session_key st sid) db = None" "0 < ss_ttlSec st"
  shows "fst (sessionMiddleware st now fresh cookie db) = Inr \<lparr>rs_id = fresh, rs_data = JObj [], rs_isNew = True\<rparr>"
  using assms by (auto simp: sessionMiddleware_def session_touch_def session_create_def r_getex_def r_set_def Let_def)

definition example_sessions :: session_store where
  "example_sessions = \<lparr>ss_ttlSec = 10, ss_prefix = ''sess:''\<rparr>"

text \<open>
  The client saves a cart, another client comes by, the first one reads its cart,
  logs out, and comes back with the old cookie.
\<close>

definition example_visits :: "visit list" where
  "example_visits =
     [\<lparr>vi_now = 9000, vi_fresh = ''x'', vi_cookie = Some ''sid=ab'', vi_handler = (\<lambda>_. SaveSession [(''cart'', JNum 1)]), vi_at = 9500\<rparr>,
      \<lparr>vi_now = 12000, vi_fresh = ''c'', vi_cookie = None, vi_handler = (\<lambda>_. SaveSession []), vi_at = 12001\<rparr>,
      \<lparr>vi_now = 19000, vi_fresh = ''y'', vi_cookie = Some ''theme=dark; sid=ab'', vi_handler = (\<lambda>_. DestroySession), vi_at = 19001\<rparr>,
      \<lparr>vi_now = 99000, vi_fresh = ''z'', vi_cookie = Some ''sid=ab'', vi_handler = (\<lambda>_. LeaveSession), vi_at = 99001\<rparr>]"

theorem session_rolls_witness:
  "list_all2 (\<lambda>view r. \<forall>s. view = Some s \<longrightarrow> r = Inr s)
     [Some \<lparr>rs_id = ''ab'', rs_data = JObj [], rs_isNew = False\<rparr>, None,
      Some \<lparr>rs_id = ''ab'', rs_data = JObj [(''cart'', JNum 1)], rs_isNew = False\<rparr>,
      Some \<lparr>rs_id = ''z'', rs_data = JObj [], rs_isNew = True\<rparr>]
    (session_run example_sessions example_visits
      (snd (snd (sessionMiddleware example_sessions 0 ''ab'' None (\<lambda>_. None)))))"
proof -
  have ab: "sid_letters ''ab''" by code_simp
  have none: "readCookie None SESSION_COOKIE = None" by code_simp
  have new: "sessionMiddleware example_sessions 0 ''ab'' None (\<lambda>_. None) =
      (Inr \<lparr>rs_id = ''ab'', rs_data = JObj [], rs_isNew = True\<rparr>, Some (set_cookie ''ab''),
       r_put 0 10000 (session_key example_sessions ''ab'') (RawJson (JObj [])) (\<lambda>_. None))"
    by (simp add: sessionMiddleware_def none session_create_def r_set_def example_sessions_def)
  note steps = example_visits_def own_visit_def next_data_def expected_session_def example_sessions_def
  have active: "stays_active example_sessions ''ab'' (Some []) 0 example_visits"
    using read_own_cookie [OF ab] none by (simp add: steps)
  have view: "session_view ''ab'' (Some []) example_visits =
     [Some \<lparr>rs_id = ''ab'', rs_data = JObj [], rs_isNew = False\<rparr>, None,
      Some \<lparr>rs_id = ''ab'', rs_data = JObj [(''cart'', JNum 1)], rs_isNew = False\<rparr>,
      Some \<lparr>rs_id = ''z'', rs_data = JObj [], rs_isNew = True\<rparr>]"
    using read_own_cookie [OF ab] none by (simp add: steps)
  have ttl: "0 < ss_ttlSec example_sessions" by (simp add: example_sessions_def)
  show ?thesis using session_rolls [OF ttl _ new _ active] unfolding view new snd_conv by simp
qed

end
