(* ===== verification/Cache.thy ===== *)
theory Cache
  imports Redis
begin

text \<open>
  The cache-aside of \<open>src/redis/cache.ts\<close>.  \<open>CacheAside.get\<close> awaits Redis, the
  loader or a timer at several points, and other callers run in between, so it is
  a machine whose program counter names those points; one step is the code from
  one \<open>await\<close> to the next.  A step is given what the world holds at that moment:
  whether Redis answers, the random number, and what the loader returns.
\<close>

record cache_options =
  co_ttlSec :: int
  co_jitterSec :: int
  co_singleFlight :: bool
  co_lockMs :: int
  co_waitMs :: int
  co_pollMs :: int

definition DEFAULT_CACHE_OPTIONS :: cache_options where
  "DEFAULT_CACHE_OPTIONS = \<lparr>co_ttlSec = 300, co_jitterSec = 60, co_singleFlight = True,
     co_lockMs = 5000, co_waitMs = 3000, co_pollMs = 20\<rparr>"

definition jitteredTtl :: "rat \<Rightarrow> int \<Rightarrow> int \<Rightarrow> int" where
  "jitteredTtl random ttlSec jitterSec = ttlSec + floor (random * of_int (jitterSec + 1))"

definition UNLOCK_LUA :: "int \<Rightarrow> string \<Rightarrow> string \<Rightarrow> kv \<Rightarrow> nat \<times> kv" where
  "UNLOCK_LUA now k token db = (if r_get now k db = Some (RawText token) then (1, r_del k db) else (0, db))"

text \<open>\<open>safe\<close>: an operation of Redis that fails gives the fallback.\<close>

definition safe :: "bool \<Rightarrow> 'a res \<times> kv \<Rightarrow> 'a \<Rightarrow> kv \<Rightarrow> 'a \<times> kv" where
  "safe down answer fallback db =
     (if down then (fallback, db) else case answer of (Inl e, db') \<Rightarrow> (fallback, db') | (Inr v, db') \<Rightarrow> (v, db'))"

text \<open>
  One step's view: the time, whether Redis is out of reach, \<open>Math.random()\<close>, the
  loader's answer, the extra milliseconds the step takes, and what other clients
  did to the store before it.
\<close>

record cache_world =
  w_down :: bool
  w_random :: rat
  w_load :: "json option res"
  w_delay :: nat
  w_others :: "kv \<Rightarrow> kv"

definition cache_read :: "int \<Rightarrow> bool \<Rightarrow> string \<Rightarrow> kv \<Rightarrow> json option res" where
  "cache_read now down key db =
     (case fst (safe down (Inr (r_get now key db), db) None db) of
        None \<Rightarrow> Inr None
      | Some (RawText _) \<Rightarrow> Inl (Error ''SyntaxError'')
      | Some (RawJson j) \<Rightarrow> Inr (if j = JNull then None else Some j))"

definition cache_write :: "cache_options \<Rightarrow> int \<Rightarrow> bool \<Rightarrow> rat \<Rightarrow> string \<Rightarrow> json \<Rightarrow> kv \<Rightarrow> kv" where
  "cache_write opts now down random key v db =
     snd (safe down (r_set now (jitteredTtl random (co_ttlSec opts) (co_jitterSec opts) * 1000) key (RawJson v) db) () db)"

definition invalidate :: "bool \<Rightarrow> string \<Rightarrow> kv \<Rightarrow> kv" where
  "invalidate down key db = snd (safe down (Inr (), r_del key db) () db)"

definition lock_key :: "string \<Rightarrow> string" where
  "lock_key key = ''lock:'' @ key"

text \<open>
  \<open>Load\<close> and \<open>Write\<close> are the body of \<open>fill\<close>; their flag says whether it runs inside
  the \<open>try\<close> whose \<open>finally\<close> unlocks.  \<open>Wait\<close> and \<open>Poll\<close> carry the deadline.
\<close>

datatype pc = Read | Lock | Recheck | Load bool | Write bool json | Unlock "json option res"
  | Wait int | Poll int | Done "json option res"

definition leave :: "bool \<Rightarrow> json option res \<Rightarrow> pc" where
  "leave locked r = (if locked then Unlock r else Done r)"

fun cache_step :: "cache_options \<Rightarrow> string \<Rightarrow> string \<Rightarrow> int \<Rightarrow> cache_world \<Rightarrow> pc \<Rightarrow> kv \<Rightarrow> pc \<times> kv" where
  "cache_step opts key token now w Read db =
     (case cache_read now (w_down w) key db of
        Inl e \<Rightarrow> (Done (Inl e), db)
      | Inr (Some v) \<Rightarrow> (Done (Inr (Some v)), db)
      | Inr None \<Rightarrow> (if co_singleFlight opts then Lock else Load False, db))"
| "cache_step opts key token now w Lock db =
     (let (got, db') = safe (w_down w) (r_set_nx now (co_lockMs opts) (lock_key key) (RawText token) db) False db
      in (if got then Recheck else Wait (now + co_waitMs opts), db'))"
| "cache_step opts key token now w Recheck db =
     (case cache_read now (w_down w) key db of
        Inl e \<Rightarrow> (leave True (Inl e), db)
      | Inr (Some v) \<Rightarrow> (leave True (Inr (Some v)), db)
      | Inr None \<Rightarrow> (Load True, db))"
| "cache_step opts key token now w (Load locked) db =
     (case w_load w of
        Inl e \<Rightarrow> (leave locked (Inl e), db)
      | Inr None \<Rightarrow> (leave locked (Inr None), db)
      | Inr (Some v) \<Rightarrow> (Write locked v, db))"
| "cache_step opts key token now w (Write locked v) db =
     (leave locked (Inr (Some v)), cache_write opts now (w_down w) (w_random w) key v db)"
| "cache_step opts key token now w (Unlock r) db =
     (Done r, snd (safe (w_down w) (map_prod Inr id (UNLOCK_LUA now (lock_key key) token db)) 0 db))"
| "cache_step opts key token now w (Wait deadline) db = (if now < deadline then Poll deadline else Load False, db)"
| "cache_step opts key token now w (Poll deadline) db =
     (case cache_read now (w_down w) key db of
        Inl e \<Rightarrow> (Done (Inl e), db)
      | Inr (Some v) \<Rightarrow> (Done (Inr (Some v)), db)
      | Inr None \<Rightarrow> (Wait deadline, db))"
| "cache_step opts key token now w (Done r) db = (Done r, db)"

text \<open>
  One call of \<open>get\<close>: \<open>n\<close> of its steps, with the time after them.  A timer fires no
  earlier than asked, and never before one millisecond.
\<close>

definition step_time :: "cache_options \<Rightarrow> cache_world \<Rightarrow> pc \<Rightarrow> int \<Rightarrow> int" where
  "step_time opts w p now =
     now + int (w_delay w) + (case p of Wait d \<Rightarrow> if now < d then max 1 (co_pollMs opts) else 0 | _ \<Rightarrow> 0)"

fun cache_run :: "cache_options \<Rightarrow> string \<Rightarrow> string \<Rightarrow> (nat \<Rightarrow> cache_world) \<Rightarrow> nat \<Rightarrow> int \<Rightarrow> kv \<Rightarrow> pc \<times> kv \<times> int" where
  "cache_run opts key token w 0 now db = (Read, db, now)"
| "cache_run opts key token w (Suc n) now db =
     (let (p, db1, t) = cache_run opts key token w n now db;
          (p', db2) = cache_step opts key token t (w n) p (w_others (w n) db1)
      in (p', db2, step_time opts (w n) p t))"

subsection \<open>The cache never breaks a request\<close>

text \<open>
  The entry of \<open>key\<close> is absent or one of the values \<open>good\<close> allows; other clients
  leave it so, and so does the loader.
\<close>

definition entry_good :: "(json \<Rightarrow> bool) \<Rightarrow> string \<Rightarrow> kv \<Rightarrow> bool" where
  "entry_good good key db \<longleftrightarrow> (case db key of None \<Rightarrow> True | Some (RawJson j, e) \<Rightarrow> good j | Some (RawText _, e) \<Rightarrow> False)"

definition coherent :: "(json \<Rightarrow> bool) \<Rightarrow> string \<Rightarrow> (nat \<Rightarrow> cache_world) \<Rightarrow> bool" where
  "coherent good key w \<longleftrightarrow>
     (\<forall>i. (\<forall>db. entry_good good key db \<longrightarrow> entry_good good key (w_others (w i) db)) \<and>
          (\<forall>v. w_load (w i) = Inr (Some v) \<longrightarrow> good v))"

text \<open>An answer the caller may get: one the loader gave, or a good cached value.\<close>

definition answer_ok :: "(json \<Rightarrow> bool) \<Rightarrow> (nat \<Rightarrow> cache_world) \<Rightarrow> nat \<Rightarrow> json option res \<Rightarrow> bool" where
  "answer_ok good w n r \<longleftrightarrow> (\<exists>i < n. r = w_load (w i)) \<or> (\<exists>v. r = Inr (Some v) \<and> good v)"

fun pc_ok :: "(json \<Rightarrow> bool) \<Rightarrow> (nat \<Rightarrow> cache_world) \<Rightarrow> nat \<Rightarrow> pc \<Rightarrow> bool" where
  "pc_ok good w n (Write _ v) = good v"
| "pc_ok good w n (Unlock r) = answer_ok good w n r"
| "pc_ok good w n (Done r) = answer_ok good w n r"
| "pc_ok good w n _ = True"

lemma answer_ok_mono: "answer_ok good w n r \<Longrightarrow> answer_ok good w (Suc n) r"
  unfolding answer_ok_def using less_SucI by metis

lemma pc_ok_leave [simp]: "pc_ok good w n (leave locked r) = answer_ok good w n r"
  by (simp add: leave_def)

lemma lock_key_other [simp]: "lock_key key \<noteq> key" "key \<noteq> lock_key key"
  by (simp_all add: lock_key_def)

text \<open>Steps on the lock leave the entry of the key alone, and a read returns what is stored.\<close>

lemma lock_other: "snd (safe d (r_set_nx now l (lock_key key) (RawText t) db) False db) key = db key"
  by (auto simp: safe_def r_set_nx_def r_put_def split: prod.split)

lemma unlock_other: "snd (safe d (map_prod Inr id (UNLOCK_LUA now (lock_key key) t db)) 0 db) key = db key"
  by (auto simp: safe_def UNLOCK_LUA_def r_del_def)

lemma cache_read_good:
  assumes "entry_good good key db"
  shows "cache_read now d key db = Inr None \<or> (\<exists>v. cache_read now d key db = Inr (Some v) \<and> good v)"
  using assms
  by (auto simp: cache_read_def safe_def entry_good_def r_get_def split: option.splits raw.splits prod.splits if_splits)

lemma cache_write_good:
  "entry_good good key db \<Longrightarrow> good v \<Longrightarrow> entry_good good key (cache_write opts now d x key v db)"
  by (auto simp: cache_write_def safe_def r_set_def r_put_def entry_good_def)

lemma entry_good_cong: "db key = db' key \<Longrightarrow> entry_good good key db = entry_good good key db'"
  by (simp add: entry_good_def)

lemma cache_step_ok:
  assumes "entry_good good key db" "pc_ok good w n p" "\<And>v. w_load (w n) = Inr (Some v) \<Longrightarrow> good v"
    and "cache_step opts key token now (w n) p db = (p', db')"
  shows "entry_good good key db' \<and> pc_ok good w (Suc n) p'"
proof -
  have loaded: "answer_ok good w (Suc n) (w_load (w n))" by (auto simp: answer_ok_def)
  have cached: "good v \<Longrightarrow> answer_ok good w m (Inr (Some v))" for m v by (auto simp: answer_ok_def)
  note rd = cache_read_good [OF assms(1), of now "w_down (w n)"]
  note same = entry_good_cong [of db' key db good]
  show ?thesis
  proof (cases p)
    case Lock
    then have "db' key = db key"
      using assms(4) lock_other [of "w_down (w n)" now "co_lockMs opts" key token db] by (auto split: prod.splits)
    then show ?thesis using Lock assms(1,4) same by (auto split: prod.splits if_splits)
  next
    case (Load locked)
    then show ?thesis using assms loaded by (auto split: sum.splits option.splits)
  next
    case (Write locked v)
    then show ?thesis using assms cached cache_write_good [OF assms(1), of v] by auto
  next
    case (Unlock r)
    then have "db' key = db key"
      using assms(4) unlock_other [of "w_down (w n)" now key token db] by auto
    then show ?thesis using Unlock assms(1,2,4) same answer_ok_mono by auto
  qed (use assms rd cached answer_ok_mono in \<open>auto split: if_splits\<close>)
qed

lemma cache_run_ok:
  assumes "coherent good key w" "entry_good good key db" "cache_run opts key token w n now db = (p, db', t)"
  shows "entry_good good key db' \<and> pc_ok good w n p"
  using assms(3)
proof (induction n arbitrary: p db' t)
  case 0
  then show ?case using assms(2) by auto
next
  case (Suc n)
  obtain p1 db1 t1 where r: "cache_run opts key token w n now db = (p1, db1, t1)" by (metis prod_cases3)
  obtain p2 db2 where s: "cache_step opts key token t1 (w n) p1 (w_others (w n) db1) = (p2, db2)" by fastforce
  have "entry_good good key (w_others (w n) db1)" using Suc.IH [OF r] assms(1) by (auto simp: coherent_def)
  moreover have "w_load (w n) = Inr (Some v) \<Longrightarrow> good v" for v using assms(1) by (auto simp: coherent_def)
  ultimately have "entry_good good key db2 \<and> pc_ok good w (Suc n) p2"
    using cache_step_ok [where good = good and w = w and n = n, OF _ _ _ s] Suc.IH [OF r] by blast
  then show ?case using Suc.prems r s by simp
qed

text \<open>How many steps a call can still take.\<close>

fun steps_left :: "cache_options \<Rightarrow> int \<Rightarrow> pc \<Rightarrow> nat" where
  "steps_left opts now (Done r) = 0"
| "steps_left opts now (Unlock r) = 1"
| "steps_left opts now (Write l v) = 2"
| "steps_left opts now (Load l) = 3"
| "steps_left opts now Recheck = 4"
| "steps_left opts now (Wait d) = 4 + 2 * nat (d - now)"
| "steps_left opts now (Poll d) = 5 + 2 * nat (d - now)"
| "steps_left opts now Lock = 5 + 2 * nat (co_waitMs opts)"
| "steps_left opts now Read = 6 + 2 * nat (co_waitMs opts)"

lemma steps_left_leave [simp]: "steps_left opts now (leave l r) = (if l then 1 else 0)"
  by (simp add: leave_def)

lemma cache_step_progress:
  assumes "cache_step opts key token now w p db = (p', db')"
  shows "steps_left opts (step_time opts w p now) p' \<le> steps_left opts now p - 1"
proof (cases p)
  case (Wait d)
  then show ?thesis using assms by (auto simp: step_time_def split: if_splits)
qed (use assms in \<open>auto simp: step_time_def Let_def split: if_splits sum.splits option.splits prod.splits\<close>)

lemma cache_run_steps:
  "cache_run opts key token w n now db = (p, db', t) \<Longrightarrow>
   steps_left opts t p \<le> 6 + 2 * nat (co_waitMs opts) - n"
proof (induction n arbitrary: p db' t)
  case (Suc n)
  obtain p1 db1 t1 where r: "cache_run opts key token w n now db = (p1, db1, t1)" by (metis prod_cases3)
  obtain p2 db2 where s: "cache_step opts key token t1 (w n) p1 (w_others (w n) db1) = (p2, db2)" by fastforce
  show ?case using Suc.IH [OF r] cache_step_progress [OF s] Suc.prems r s by auto
qed auto

lemma steps_left_0: "steps_left opts now p = 0 \<longleftrightarrow> (\<exists>r. p = Done r)"
  by (cases p) auto

lemma cache_run_done:
  assumes "cache_run opts key token w n now db = (Done r, db', t)"
  shows "fst (cache_run opts key token w (n + k) now db) = Done r"
proof (induction k)
  case (Suc k)
  then show ?case by (cases "cache_run opts key token w (n + k) now db") simp
qed (simp add: assms)

text \<open>C30: The cache never breaks a request: whatever Redis does (any of its operations may
  fail, at any step) and whatever other clients do to the store, as long as they
  leave under the key either nothing or a good value, a call of \<open>get\<close> returns,
  after at most \<open>6 + 2 * waitMs\<close> steps, and it returns what the loader answered
  (its error included) or a good value.
\<close>
theorem get_returns:
  assumes "coherent good key w" "entry_good good key db"
  shows "\<exists>r. (\<forall>n \<ge> 6 + 2 * nat (co_waitMs opts). fst (cache_run opts key token w n now db) = Done r) \<and>
    answer_ok good w (6 + 2 * nat (co_waitMs opts)) r"
proof -
  let ?N = "6 + 2 * nat (co_waitMs opts)"
  obtain p db' t where r: "cache_run opts key token w ?N now db = (p, db', t)" by (metis prod_cases3)
  obtain x where p: "p = Done x" using cache_run_steps [OF r] by (auto simp: steps_left_0)
  have "fst (cache_run opts key token w n now db) = Done x" if "?N \<le> n" for n
    using cache_run_done [of opts key token w ?N now db x db' t "n - ?N"] r p that by simp
  then show ?thesis using cache_run_ok [OF assms r] p by auto
qed

text \<open>With Redis down, the answer is the loader's.\<close>

lemma down_is_load:
  assumes "\<And>i. w_down (w i)" "coherent (\<lambda>v. \<exists>i. w_load (w i) = Inr (Some v)) key w"
    "entry_good (\<lambda>v. \<exists>i. w_load (w i) = Inr (Some v)) key db"
    and "cache_run opts key token w n now db = (Done r, db', t)"
  shows "\<exists>i. r = w_load (w i)"
  using cache_run_ok [OF assms(2-4)] by (auto simp: answer_ok_def) metis

text \<open>
  What the hypothesis on the entry excludes: \<open>read\<close> parses outside \<open>safe\<close>, so a value
  that is not JSON fails every request for its key until it expires.
\<close>

lemma corrupt_entry_fails:
  assumes "r_get now key db = Some (RawText s)" "\<not> w_down w"
  shows "cache_step opts key token now w Read db = (Done (Inl (Error ''SyntaxError'')), db)"
  using assms by (simp add: cache_read_def safe_def)

subsection \<open>Single flight\<close>

text \<open>
  Several callers of \<open>get\<close> on one key, in any interleaving: an event says which
  caller moves, when, and what the world shows it.  The state holds the callers,
  the store and how often the loader was called.
\<close>

type_synonym flight = "pc list \<times> kv \<times> nat"

definition loads :: "pc \<Rightarrow> nat" where
  "loads p = (case p of Load _ \<Rightarrow> 1 | _ \<Rightarrow> 0)"

definition flight_step :: "cache_options \<Rightarrow> string \<Rightarrow> (nat \<Rightarrow> string) \<Rightarrow> nat \<times> int \<times> cache_world \<Rightarrow> flight \<Rightarrow> flight" where
  "flight_step opts key token = (\<lambda>(c, now, w) (pcs, db, k).
     if c < List.length pcs
     then let (p', db') = cache_step opts key (token c) now w (pcs ! c) db in (pcs[c := p'], db', k + loads (pcs ! c))
     else (pcs, db, k))"

definition flight_run :: "cache_options \<Rightarrow> string \<Rightarrow> (nat \<Rightarrow> string) \<Rightarrow> (nat \<times> int \<times> cache_world) list \<Rightarrow> flight \<Rightarrow> flight" where
  "flight_run opts key token evs s = fold (flight_step opts key token) evs s"

text \<open>The entry is not readable from \<open>t\<close> on, or readable at least until \<open>t\<close>.\<close>

definition gone :: "int \<Rightarrow> string \<Rightarrow> kv \<Rightarrow> bool" where
  "gone t k db \<longleftrightarrow> (case db k of None \<Rightarrow> True | Some (_, None) \<Rightarrow> False | Some (_, Some e) \<Rightarrow> e < t)"

definition kept :: "int \<Rightarrow> string \<Rightarrow> raw \<Rightarrow> kv \<Rightarrow> bool" where
  "kept t k v db \<longleftrightarrow> (\<exists>e \<ge> t. db k = Some (v, Some e))"

fun leading :: "pc \<Rightarrow> bool" where
  "leading Recheck = True"
| "leading (Load l) = True"
| "leading (Write l v) = True"
| "leading (Unlock r) = True"
| "leading _ = False"

text \<open>What holds of a caller between \<open>t0\<close> and \<open>t1\<close> if the loader answers \<open>v\<close>.\<close>

fun caller_ok :: "int \<Rightarrow> json \<Rightarrow> pc \<Rightarrow> bool" where
  "caller_ok t1 v (Load l) = l"
| "caller_ok t1 v (Write l x) = (l \<and> x = v)"
| "caller_ok t1 v (Unlock r) = (r = Inr (Some v))"
| "caller_ok t1 v (Wait d) = (t1 \<le> d)"
| "caller_ok t1 v (Poll d) = (t1 \<le> d)"
| "caller_ok t1 v (Done r) = (r = Inr (Some v))"
| "caller_ok t1 v _ = True"

definition flight_ok :: "int \<Rightarrow> int \<Rightarrow> json \<Rightarrow> string \<Rightarrow> (nat \<Rightarrow> string) \<Rightarrow> flight \<Rightarrow> bool" where
  "flight_ok t0 t1 v key token = (\<lambda>(pcs, db, k).
     (\<forall>c < List.length pcs. caller_ok t1 v (pcs ! c)) \<and>
     (\<forall>c < List.length pcs. leading (pcs ! c) \<longrightarrow> kept t1 (lock_key key) (RawText (token c)) db) \<and>
     (gone t0 (lock_key key) db \<or> (\<exists>c. kept t1 (lock_key key) (RawText (token c)) db)) \<and>
     (gone t0 key db \<or> kept t1 key (RawJson v) db) \<and>
     (k = 0 \<or> k = 1 \<and> (kept t1 key (RawJson v) db \<or> (\<exists>c < List.length pcs. \<exists>l. pcs ! c = Write l v))) \<and>
     (\<forall>c < List.length pcs. \<forall>l. pcs ! c = Load l \<longrightarrow> k = 0))"

lemma gone_get: "gone t0 k db \<Longrightarrow> t0 \<le> now \<Longrightarrow> r_get now k db = None"
  by (auto simp: gone_def r_get_def split: option.splits prod.splits)

lemma kept_get: "kept t1 k x db \<Longrightarrow> now \<le> t1 \<Longrightarrow> r_get now k db = Some x"
  by (auto simp: kept_def r_get_def)

lemma kept_not_gone: "kept t1 k x db \<Longrightarrow> t0 \<le> t1 \<Longrightarrow> \<not> gone t0 k db"
  by (auto simp: kept_def gone_def)

lemma kept_unique: "kept t1 k x db \<Longrightarrow> kept t1 k y db \<Longrightarrow> x = y"
  by (auto simp: kept_def)

lemma jitteredTtl_range:
  assumes "0 \<le> x" "x < 1" "0 \<le> j"
  shows "ttl \<le> jitteredTtl x ttl j" "jitteredTtl x ttl j \<le> ttl + j"
proof -
  have "0 \<le> x * of_int (j + 1)" using assms by simp
  moreover have "x * of_int (j + 1) < of_int (j + 1)" using assms by (simp add: mult_less_cancel_right1)
  then have "floor (x * of_int (j + 1)) < j + 1" by (simp only: floor_less_iff)
  ultimately show "ttl \<le> jitteredTtl x ttl j" "jitteredTtl x ttl j \<le> ttl + j"
    by (simp_all add: jitteredTtl_def)
qed

lemma flight_okD:
  assumes "flight_ok t0 t1 v key token (pcs, db, k)"
  shows "c < List.length pcs \<Longrightarrow> caller_ok t1 v (pcs ! c)"
    and "c < List.length pcs \<Longrightarrow> leading (pcs ! c) \<Longrightarrow> kept t1 (lock_key key) (RawText (token c)) db"
    and "gone t0 (lock_key key) db \<or> (\<exists>c. kept t1 (lock_key key) (RawText (token c)) db)"
    and "gone t0 key db \<or> kept t1 key (RawJson v) db"
    and "k = 0 \<or> k = 1 \<and> (kept t1 key (RawJson v) db \<or> (\<exists>c < List.length pcs. \<exists>l. pcs ! c = Write l v))"
    and "c < List.length pcs \<Longrightarrow> pcs ! c = Load l \<Longrightarrow> k = 0"
  using assms by (auto simp: flight_ok_def)

lemma one_leader:
  assumes "flight_ok t0 t1 v key token (pcs, db, k)" "inj token" "c < List.length pcs" "d < List.length pcs"
    and "leading (pcs ! c)" "leading (pcs ! d)"
  shows "c = d"
  using kept_unique [OF flight_okD(2) [OF assms(1) assms(3,5)] flight_okD(2) [OF assms(1) assms(4,6)]] assms(2)
  by (simp add: inj_eq)

lemma writer_stays:
  assumes "c < n \<longrightarrow> (\<forall>l. pcs ! c \<noteq> Write l v)" "\<exists>x < n. \<exists>l. pcs ! x = Write l v"
  shows "\<exists>x < n. \<exists>l. pcs[c := p'] ! x = Write l v"
proof -
  from assms(2) obtain x l where "x < n" "pcs ! x = Write l v" by blast
  then have "x \<noteq> c" using assms(1) by auto
  then show ?thesis using \<open>x < n\<close> \<open>pcs ! x = _\<close> by (intro exI [of _ x] exI [of _ l] conjI) simp_all
qed

text \<open>Steps that leave the store alone and neither start nor end a trip to the database.\<close>

lemma flight_quiet:
  assumes ok: "flight_ok t0 t1 v key token (pcs, db, k)" and c: "c < List.length pcs"
    and p: "caller_ok t1 v p'" "leading p' \<longrightarrow> leading (pcs ! c)" "\<And>l. p' = Load l \<Longrightarrow> k = 0" "\<And>l. pcs ! c \<noteq> Write l v"
  shows "flight_ok t0 t1 v key token (pcs[c := p'], db, k)"
proof -
  note d = flight_okD [OF ok]
  have w: "k = 0 \<or> k = 1 \<and> (kept t1 key (RawJson v) db \<or> (\<exists>x < List.length pcs. \<exists>l. pcs[c := p'] ! x = Write l v))"
    using d(5) p(4) writer_stays [of c "List.length pcs" pcs v p'] by blast
  show ?thesis
    unfolding flight_ok_def prod.case length_list_update
    using d(1,2,6) p c by (intro conjI d(3,4) w) (auto simp: nth_list_update)
qed

lemma flight_lock:
  assumes ok: "flight_ok t0 t1 v key token (pcs, db, k)" and c: "c < List.length pcs" "pcs ! c = Lock"
    and free: "gone t0 (lock_key key) db" "t0 \<le> t1"
    and db': "db' = db(lock_key key \<mapsto> (RawText (token c), Some e))" "t1 \<le> e"
  shows "flight_ok t0 t1 v key token (pcs[c := Recheck], db', k)"
proof -
  note d = flight_okD [OF ok]
  have none: "\<not> leading (pcs ! x)" if "x < List.length pcs" for x
    using d(2) [OF that] kept_not_gone free by blast
  have lock: "kept t1 (lock_key key) (RawText (token c)) db'" using db' by (simp add: kept_def)
  have key: "gone t0 key db' = gone t0 key db" "kept t1 key x db' = kept t1 key x db" for x
    by (simp_all add: gone_def kept_def db'(1))
  have w: "k = 0 \<or> k = 1 \<and> (kept t1 key (RawJson v) db' \<or> (\<exists>x < List.length pcs. \<exists>l. pcs[c := Recheck] ! x = Write l v))"
    using d(5) none by (metis key(2) leading.simps(3))
  show ?thesis
    unfolding flight_ok_def prod.case length_list_update
    using d(1,4,6) c lock none key w by (intro conjI w) (auto simp: nth_list_update)
qed

lemma flight_load:
  assumes ok: "flight_ok t0 t1 v key token (pcs, db, k)" and c: "c < List.length pcs" "pcs ! c = Load l" and inj: "inj token"
  shows "flight_ok t0 t1 v key token (pcs[c := Write l v], db, k + 1)"
proof -
  note d = flight_okD [OF ok]
  have k: "k = 0" and l: "l" using d(6) d(1) [OF c(1)] c by (auto simp:)
  have lead: "leading (pcs ! c)" using c by simp
  have other: "\<not> leading (pcs ! x)" if "x < List.length pcs" "x \<noteq> c" for x
    using one_leader [OF ok inj that(1) c(1) _ lead] that(2) by blast
  have no_load: "pcs ! x \<noteq> Load m" if "x < List.length pcs" "x \<noteq> c" for x m
    using other [OF that] by auto
  have w: "\<exists>x < List.length pcs. \<exists>l. pcs[c := Write l v] ! x = Write l v" using c(1) by (intro exI [of _ c]) simp
  show ?thesis
    unfolding flight_ok_def prod.case length_list_update
    using d(1,2) c k l lead no_load w by (intro conjI d(3,4)) (auto simp: nth_list_update)
qed

lemma flight_write:
  assumes ok: "flight_ok t0 t1 v key token (pcs, db, k)" and c: "c < List.length pcs" "pcs ! c = Write l v"
    and db': "db' = db(key \<mapsto> (RawJson v, Some e))" "t1 \<le> e"
  shows "flight_ok t0 t1 v key token (pcs[c := leave l (Inr (Some v))], db', k)"
proof -
  note d = flight_okD [OF ok]
  have l: "l" using d(1) [OF c(1)] c(2) by (simp add:)
  have written: "kept t1 key (RawJson v) db'" using db' by (simp add: kept_def)
  have lock: "gone t0 (lock_key key) db' = gone t0 (lock_key key) db"
      "kept t1 (lock_key key) x db' = kept t1 (lock_key key) x db" for x
    by (simp_all add: gone_def kept_def db'(1))
  have lead: "leading (pcs ! c)" using c by simp
  show ?thesis
    unfolding flight_ok_def prod.case length_list_update
    using d(1,2,3,5,6) c l lead lock written by (auto simp: nth_list_update leave_def)
qed

lemma flight_unlock:
  assumes ok: "flight_ok t0 t1 v key token (pcs, db, k)" and c: "c < List.length pcs" "pcs ! c = Unlock r" and inj: "inj token"
    and db': "db' = db(lock_key key := None)"
  shows "flight_ok t0 t1 v key token (pcs[c := Done r], db', k)"
proof -
  note d = flight_okD [OF ok]
  have lead: "leading (pcs ! c)" using c by simp
  have other: "\<not> leading (pcs ! x)" if "x < List.length pcs" "x \<noteq> c" for x
    using one_leader [OF ok inj that(1) c(1) _ lead] that(2) by blast
  have key: "gone t0 key db' = gone t0 key db" "kept t1 key x db' = kept t1 key x db" for x
    by (simp_all add: gone_def kept_def db')
  have r: "r = Inr (Some v)" using d(1) [OF c(1)] c(2) by simp
  have g: "gone t0 (lock_key key) db'" by (simp add: gone_def db')
  have w: "k = 0 \<or> k = 1 \<and> (kept t1 key (RawJson v) db' \<or> (\<exists>x < List.length pcs. \<exists>l. pcs[c := Done r] ! x = Write l v))"
    using d(5) c writer_stays [of c "List.length pcs" pcs v "Done r"] by (auto simp: key)
  show ?thesis
    unfolding flight_ok_def prod.case length_list_update
    using d(1,4,6) c r other key g by (intro conjI w) (auto simp: nth_list_update)
qed

text \<open>
  A stampede: everything happens between \<open>t0\<close> and \<open>t1\<close>, which is shorter than the
  lock's lifetime, the waiting time and the entry's lifetime; Redis answers.
\<close>

definition roomy :: "cache_options \<Rightarrow> int \<Rightarrow> int \<Rightarrow> bool" where
  "roomy opts t0 t1 \<longleftrightarrow> co_singleFlight opts \<and> 0 \<le> co_jitterSec opts \<and>
     t1 \<le> t0 + co_lockMs opts \<and> t1 \<le> t0 + co_waitMs opts \<and> t1 \<le> t0 + co_ttlSec opts * 1000"

definition calm :: "int \<Rightarrow> int \<Rightarrow> json \<Rightarrow> nat \<times> int \<times> cache_world \<Rightarrow> bool" where
  "calm t0 t1 v = (\<lambda>(c, now, w). t0 \<le> now \<and> now < t1 \<and> \<not> w_down w \<and> 0 \<le> w_random w \<and> w_random w < 1 \<and>
     w_load w = Inr (Some v))"

lemma cache_read_up: "cache_read now False key db =
    (case r_get now key db of None \<Rightarrow> Inr None | Some (RawText _) \<Rightarrow> Inl (Error ''SyntaxError'')
     | Some (RawJson j) \<Rightarrow> Inr (if j = JNull then None else Some j))"
  by (simp add: cache_read_def safe_def)

text \<open>In a stampede a read sees no entry, or the value.\<close>

lemma stampede_read:
  assumes "flight_ok t0 t1 v key token (pcs, db, k)" "t0 \<le> now" "now < t1" "v \<noteq> JNull"
  shows "cache_read now False key db = Inr (Some v) \<or> cache_read now False key db = Inr None \<and> gone t0 key db"
  using flight_okD(4) [OF assms(1)] gone_get [of t0 key db now] kept_get [of t1 key "RawJson v" db now] assms(2-4)
  by (auto simp: cache_read_up)

lemma flight_cache_step:
  assumes ok: "flight_ok t0 t1 v key token (pcs, db, k)" and c: "c < List.length pcs"
    and room: "roomy opts t0 t1" and calm: "calm t0 t1 v (c, now, w)" and v: "v \<noteq> JNull" and inj: "inj token"
    and step: "cache_step opts key (token c) now w (pcs ! c) db = (p', db')"
  shows "flight_ok t0 t1 v key token (pcs[c := p'], db', k + loads (pcs ! c))"
proof -
  note d = flight_okD [OF ok]
  have w: "t0 \<le> now" "now < t1" "w_down w = False" "0 \<le> w_random w" "w_random w < 1" "w_load w = Inr (Some v)"
    using calm by (auto simp: calm_def)
  have r: "co_singleFlight opts" "t1 \<le> now + co_lockMs opts" "t1 \<le> now + co_waitMs opts" "t1 \<le> t0 + co_ttlSec opts * 1000"
    "0 < co_lockMs opts" "0 < co_ttlSec opts" "0 \<le> co_jitterSec opts"
    using room w(1,2) by (auto simp: roomy_def)
  note rd = stampede_read [OF ok w(1,2) v]
  note q = flight_quiet [OF ok c]
  show ?thesis
  proof (cases "pcs ! c")
    case Read
    then have "db' = db" "p' = Done (Inr (Some v)) \<or> p' = Lock" using rd step w(3) r(1) by auto
    then show ?thesis using Read q [of p'] by (auto simp: loads_def)
  next
    case Recheck
    have "k = 0" if "gone t0 key db"
    proof -
      have "\<not> kept t1 key (RawJson v) db" using that kept_not_gone w(1,2) by (meson le_less_trans less_imp_le)
      moreover have "pcs ! x \<noteq> Write l v" if "x < List.length pcs" for x l
        using one_leader [OF ok inj c that] Recheck by auto
      ultimately show ?thesis using d(5) by blast
    qed
    moreover have "db' = db" "p' = Unlock (Inr (Some v)) \<or> p' = Load True \<and> gone t0 key db"
      using Recheck rd step w(3) by (auto simp: leave_def)
    ultimately show ?thesis using Recheck q [of p'] by (auto simp: loads_def)
  next
    case Lock
    show ?thesis
    proof (cases "r_get now (lock_key key) db = None")
      case True
      then have "gone t0 (lock_key key) db" using d(3) kept_get w(2) by fastforce
      then show ?thesis
        using Lock step True w r flight_lock [OF ok c Lock, of db' "now + co_lockMs opts"]
        by (auto simp: safe_def r_set_nx_def r_put_def loads_def)
    next
      case False
      then have "db' = db" "p' = Wait (now + co_waitMs opts)"
        using Lock step w r by (auto simp: safe_def r_set_nx_def)
      then show ?thesis using Lock r(3) q [of p'] by (simp add: loads_def)
    qed
  next
    case (Load l)
    then show ?thesis using step w flight_load [OF ok c Load inj] by (simp add: loads_def)
  next
    case (Write l x)
    let ?ttl = "jitteredTtl (w_random w) (co_ttlSec opts) (co_jitterSec opts)"
    have x: "x = v" using d(1) [OF c] Write by simp
    have "co_ttlSec opts \<le> ?ttl" using jitteredTtl_range w r by blast
    then show ?thesis
      using Write x step w r flight_write [OF ok c Write [unfolded x], of db' "now + ?ttl * 1000"]
      by (auto simp: cache_write_def safe_def r_set_def r_put_def loads_def)
  next
    case (Unlock r)
    have "kept t1 (lock_key key) (RawText (token c)) db" using d(2) [OF c] Unlock by simp
    then have "r_get now (lock_key key) db = Some (RawText (token c))" using kept_get w(2) by fastforce
    then show ?thesis
      using Unlock step w flight_unlock [OF ok c Unlock inj, of db']
      by (auto simp: safe_def UNLOCK_LUA_def r_del_def loads_def)
  next
    case (Wait e)
    then have "db' = db" "p' = Poll e" "t1 \<le> e" using d(1) [OF c] step w by auto
    then show ?thesis using Wait q [of p'] by (simp add: loads_def)
  next
    case (Poll e)
    then have "db' = db" "p' = Done (Inr (Some v)) \<or> p' = Wait e" "t1 \<le> e" using d(1) [OF c] rd step w by auto
    then show ?thesis using Poll q [of p'] by (auto simp: loads_def)
  next
    case (Done r)
    then have "db' = db" "p' = Done r" "r = Inr (Some v)" using d(1) [OF c] step by auto
    then show ?thesis using Done q [of p'] by (simp add: loads_def)
  qed
qed

lemma flight_run_ok:
  assumes "roomy opts t0 t1" "v \<noteq> JNull" "inj token"
  shows "flight_ok t0 t1 v key token s \<Longrightarrow> list_all (calm t0 t1 v) evs \<Longrightarrow>
    flight_ok t0 t1 v key token (flight_run opts key token evs s)"
proof (induction evs arbitrary: s)
  case (Cons ev evs)
  obtain c now w where ev: "ev = (c, now, w)" by (cases ev)
  obtain pcs db k where s: "s = (pcs, db, k)" by (cases s)
  have "flight_ok t0 t1 v key token (flight_step opts key token ev s)"
  proof (cases "c < List.length pcs")
    case True
    obtain p' db' where step: "cache_step opts key (token c) now w (pcs ! c) db = (p', db')" by fastforce
    show ?thesis
      using flight_cache_step [OF _ True assms(1) _ assms(2,3) step] Cons.prems True step
      by (simp add: flight_step_def ev s)
  next
    case False
    then show ?thesis using Cons.prems by (simp add: flight_step_def ev s)
  qed
  then show ?case using Cons.IH Cons.prems by (simp add: flight_run_def)
qed (simp add: flight_run_def)

lemma flight_start:
  assumes "gone t0 key db" "gone t0 (lock_key key) db"
  shows "flight_ok t0 t1 v key token (replicate n Read, db, 0)"
  using assms by (simp add: flight_ok_def)

lemma flight_count: "List.length (fst (flight_run opts key token evs s)) = List.length (fst s)"
proof (induction evs arbitrary: s)
  case (Cons ev evs)
  then show ?case
    by (cases ev; cases s) (simp add: flight_run_def flight_step_def split: prod.split)
qed (simp add: flight_run_def)

text \<open>C31: Single flight: however many callers miss the same key at the same time, and
  however their steps interleave, the loader is called at most once, and every
  caller that returns gets its value; as long as this takes less than the lifetime
  of the lock, the waiting time and the lifetime of the entry, Redis answers, and
  the loader returns a value (a null is never cached: every caller would load).
\<close>
theorem single_flight:
  assumes "roomy opts t0 t1" "inj token" "v \<noteq> JNull" "gone t0 key db" "gone t0 (lock_key key) db"
    and "list_all (calm t0 t1 v) evs"
    and "flight_run opts key token evs (replicate n Read, db, 0) = (pcs, db', k)"
  shows "k \<le> 1 \<and> (\<forall>c < n. \<forall>r. pcs ! c = Done r \<longrightarrow> r = Inr (Some v))"
proof -
  have ok: "flight_ok t0 t1 v key token (pcs, db', k)"
    using flight_run_ok [OF assms(1,3,2) flight_start [OF assms(4,5)] assms(6), of n] assms(7) by simp
  have n: "List.length pcs = n"
    using flight_count [of opts key token evs "(replicate n Read, db, 0)"] assms(7) by simp
  show ?thesis using flight_okD(5) [OF ok] flight_okD(1) [OF ok] n by fastforce
qed

text \<open>The lock is only ever removed by the caller whose token it holds.\<close>

lemma foreign_lock_stays:
  assumes "r_get now (lock_key key) db = Some (RawText t)" "t \<noteq> token"
  shows "snd (cache_step opts key token now w (Unlock r) db) = db"
  using assms by (simp add: safe_def UNLOCK_LUA_def)

definition example_world :: "bool \<Rightarrow> json option res \<Rightarrow> cache_world" where
  "example_world down answer = \<lparr>w_down = down, w_random = 1 / 2, w_load = answer, w_delay = 1, w_others = id\<rparr>"

theorem get_returns_witness:
  "\<exists>r. (\<forall>n \<ge> 6006. fst (cache_run DEFAULT_CACHE_OPTIONS ''card'' ''t''
        (\<lambda>i. example_world (i = 1) (Inr (Some (JNum 5)))) n 0 (\<lambda>_. None)) = Done r) \<and>
     answer_ok (\<lambda>v. v = JNum 5) (\<lambda>i. example_world (i = 1) (Inr (Some (JNum 5)))) 6006 r"
proof -
  have "coherent (\<lambda>v. v = JNum 5) ''card'' (\<lambda>i. example_world (i = 1) (Inr (Some (JNum 5))))"
    by (simp add: coherent_def example_world_def)
  moreover have "entry_good (\<lambda>v. v = JNum 5) ''card'' (\<lambda>_. None)" by (simp add: entry_good_def)
  ultimately show ?thesis
    using get_returns [of "\<lambda>v. v = JNum 5" "''card''" "\<lambda>i. example_world (i = 1) (Inr (Some (JNum 5)))"
        "\<lambda>_. None" DEFAULT_CACHE_OPTIONS "''t''" 0]
    by (simp add: DEFAULT_CACHE_OPTIONS_def)
qed

text \<open>Two callers: the second is refused the lock, waits, and reads what the first wrote.\<close>

definition example_flight :: "(nat \<times> int \<times> cache_world) list" where
  "example_flight = map (\<lambda>(c, now). (c, now, example_world False (Inr (Some (JNum 5)))))
     [(0, 1), (1, 1), (0, 2), (1, 3), (0, 4), (0, 5), (1, 6), (0, 7), (0, 8), (1, 26)]"

definition example_token :: "nat \<Rightarrow> string" where
  "example_token c = replicate c CHR ''x''"

theorem single_flight_witness:
  "(\<lambda>(pcs, db, k). pcs = [Done (Inr (Some (JNum 5))), Done (Inr (Some (JNum 5)))] \<and> k \<le> 1)
     (flight_run DEFAULT_CACHE_OPTIONS ''card'' example_token example_flight (replicate 2 Read, \<lambda>_. None, 0))"
proof -
  let ?s = "flight_run DEFAULT_CACHE_OPTIONS ''card'' example_token example_flight (replicate 2 Read, \<lambda>_. None, 0)"
  obtain pcs db k where run: "?s = (pcs, db, k)" by (metis prod_cases3)
  have room: "roomy DEFAULT_CACHE_OPTIONS 0 3000" by (simp add: roomy_def DEFAULT_CACHE_OPTIONS_def)
  have inj: "inj example_token" by (rule injI) (metis example_token_def length_replicate)
  have gone: "gone 0 k (\<lambda>_. None)" for k by (simp add: gone_def)
  have calm: "list_all (calm 0 3000 (JNum 5)) example_flight"
    by (simp add: example_flight_def calm_def example_world_def)
  have all: "k \<le> 1 \<and> (\<forall>c < 2. \<forall>r. pcs ! c = Done r \<longrightarrow> r = Inr (Some (JNum 5)))"
    using single_flight [OF room inj _ gone gone calm run] by simp
  have "fst ?s = [Done (Inr (Some (JNum 5))), Done (Inr (Some (JNum 5)))]"
    by code_simp
  then show ?thesis using all run by simp
qed

end
