(* ===== verification/Edge.thy ===== *)
theory Edge
  imports Files
begin

text \<open>
  The edge cache in front of the closed bucket, \<open>src/cdn/edge.ts\<close>, and the assets
  published for it, \<open>src/cdn/assets.ts\<close>.  A path is the list of its UTF-8 bytes;
  \<open>decodeURIComponent\<close> and the regular expressions on \<open>Cache-Control\<close> are spelled out.
  The bucket and sha256 are parameters.
\<close>

subsection \<open>decodeURIComponent\<close>

text \<open>The byte of an escape at the front, and the rest.\<close>

fun escape :: "string \<Rightarrow> (nat \<times> string) option" where
  "escape (p # h # l # s) =
     (if p \<noteq> CHR ''%'' then None
      else case (hex_digit (of_char h), hex_digit (of_char l)) of
             (Some a, Some b) \<Rightarrow> Some (16 * a + b, s) | _ \<Rightarrow> None)"
| "escape _ = None"

fun escapes :: "nat \<Rightarrow> string \<Rightarrow> (nat list \<times> string) option" where
  "escapes 0 s = Some ([], s)"
| "escapes (Suc n) s =
     (case escape s of None \<Rightarrow> None
      | Some (b, r) \<Rightarrow> (case escapes n r of None \<Rightarrow> None | Some (bs, r') \<Rightarrow> Some (b # bs, r')))"

text \<open>How many bytes follow a lead byte, and which sequences are UTF-8.\<close>

definition utf8_more :: "nat \<Rightarrow> nat option" where
  "utf8_more b =
     (if b < 128 then Some 0
      else if 194 \<le> b \<and> b < 224 then Some 1
      else if 224 \<le> b \<and> b < 240 then Some 2
      else if 240 \<le> b \<and> b < 245 then Some 3 else None)"

definition utf8_tail :: "nat \<Rightarrow> nat list \<Rightarrow> bool" where
  "utf8_tail b bs \<longleftrightarrow>
     list_all (\<lambda>x. 128 \<le> x \<and> x < 192) bs \<and>
     (case bs of [] \<Rightarrow> True
      | x # _ \<Rightarrow> (b = 224 \<longrightarrow> 160 \<le> x) \<and> (b = 237 \<longrightarrow> x < 160) \<and> (b = 240 \<longrightarrow> 144 \<le> x) \<and> (b = 244 \<longrightarrow> x < 144))"

lemma escape_shorter: "escape s = Some (b, r) \<Longrightarrow> length r < length s"
  by (cases s rule: escape.cases) (auto split: if_splits option.splits)

lemma escapes_shorter: "escapes n s = Some (bs, r) \<Longrightarrow> length r \<le> length s"
  by (induction n arbitrary: s bs) (fastforce dest: escape_shorter split: option.splits prod.splits)+

text \<open>\<open>None\<close> is the \<open>URIError\<close>.\<close>

function uri_decode :: "string \<Rightarrow> string option" where
  "uri_decode s =
     (case s of
        [] \<Rightarrow> Some []
      | c # s' \<Rightarrow>
          if c \<noteq> CHR ''%'' then map_option ((#) c) (uri_decode s')
          else (case escape s of
                  None \<Rightarrow> None
                | Some (b, r) \<Rightarrow>
                    (case utf8_more b of
                       None \<Rightarrow> None
                     | Some n \<Rightarrow>
                         (case escapes n r of
                            None \<Rightarrow> None
                          | Some (bs, r') \<Rightarrow>
                              if utf8_tail b bs then map_option ((@) (map char_of (b # bs))) (uri_decode r')
                              else None))))"
  by pat_completeness auto
termination
  by (relation "measure length") (auto dest!: escape_shorter escapes_shorter)

declare uri_decode.simps [simp del]

subsection \<open>Cache-Control\<close>

definition word_char :: "char \<Rightarrow> bool" where
  "word_char c \<longleftrightarrow> (let n = of_char c :: nat in 48 \<le> n \<and> n \<le> 57 \<or> 65 \<le> n \<and> n \<le> 90 \<or> n = 95 \<or> 97 \<le> n \<and> n \<le> 122)"

definition digit_char :: "char \<Rightarrow> bool" where
  "digit_char c \<longleftrightarrow> is_digit (of_char c)"

text \<open>The leftmost match of \<open>m\<close> that starts at the beginning of a word.\<close>

fun search_word :: "(string \<Rightarrow> 'a option) \<Rightarrow> bool \<Rightarrow> string \<Rightarrow> 'a option" where
  "search_word m after_word s =
     (case (if after_word then None else m s) of
        Some x \<Rightarrow> Some x
      | None \<Rightarrow> (case s of [] \<Rightarrow> None | c # s' \<Rightarrow> search_word m (word_char c) s'))"

fun starts_ci :: "string \<Rightarrow> string \<Rightarrow> bool" where
  "starts_ci [] s = True"
| "starts_ci (w # ws) [] = False"
| "starts_ci (w # ws) (c # s) = (if ascii_lower c = w then starts_ci ws s else False)"

definition directive :: "string list \<Rightarrow> string \<Rightarrow> unit option" where
  "directive ws s =
     (if list_ex (\<lambda>w. if starts_ci w s then (case drop (length w) s of [] \<Rightarrow> True | c # _ \<Rightarrow> \<not> word_char c) else False) ws
      then Some () else None)"

definition seconds :: "string \<Rightarrow> string \<Rightarrow> nat option" where
  "seconds w s =
     (if starts_ci w s
      then (let ds = takeWhile digit_char (drop (length w) s) in if ds = [] then None else Some (digits_val (codes ds)))
      else None)"

definition ttlSec :: "string \<Rightarrow> nat" where
  "ttlSec cc =
     (if search_word (directive [''no-store'', ''no-cache'', ''private'']) False cc \<noteq> None then 0
      else case search_word (seconds ''s-maxage='') False cc of
             Some n \<Rightarrow> n
           | None \<Rightarrow> (case search_word (seconds ''max-age='') False cc of Some n \<Rightarrow> n | None \<Rightarrow> 0))"

subsection \<open>Assets\<close>

definition ASSET_PREFIX :: string where "ASSET_PREFIX = ''assets/''"

definition IMMUTABLE :: string where "IMMUTABLE = ''public, max-age=31536000, immutable''"

text \<open>The part of a name before its last dot, and the part from there, if the dot is not the first character.\<close>

definition split_ext :: "string \<Rightarrow> string \<times> string" where
  "split_ext name =
     (let ext = rev (takeWhile (\<lambda>c. c \<noteq> CHR ''.'') (rev name));
          stem = rev (tl (dropWhile (\<lambda>c. c \<noteq> CHR ''.'') (rev name)))
      in if stem \<noteq> [] then (stem, CHR ''.'' # ext) else (name, []))"

text \<open>\<open>sha256_hex\<close> is \<open>createHash('sha256')\<close> with its hexadecimal digest.\<close>

definition hashedKey :: "('b \<Rightarrow> string) \<Rightarrow> string \<Rightarrow> 'b \<Rightarrow> string" where
  "hashedKey sha256_hex name body =
     (let (stem, ext) = split_ext name in ASSET_PREFIX @ stem @ ''.'' @ take 8 (sha256_hex body) @ ext)"

record 'b object =
  o_body :: 'b
  o_type :: "string option"
  o_etag :: "string option"
  o_cc :: "string option"

text \<open>\<open>put\<close> is the bucket's answer to the \<open>PutObjectCommand\<close> that \<open>publishAsset\<close> sends.\<close>

record 'b put_command =
  put_key :: string
  put_body :: 'b
  put_type :: string
  put_cc :: string

definition publishAsset ::
    "('b \<Rightarrow> string) \<Rightarrow> ('b put_command \<Rightarrow> s3_error + unit) \<Rightarrow> string \<Rightarrow> 'b \<Rightarrow> string \<Rightarrow> s3_error + string" where
  "publishAsset sha256_hex put name body contentType =
     (let key = hashedKey sha256_hex name body
      in map_sum id (\<lambda>_. key) (put \<lparr>put_key = key, put_body = body, put_type = contentType, put_cc = IMMUTABLE\<rparr>))"

subsection \<open>The server\<close>

record edge_req =
  eq_method :: string
  eq_url :: "string option"

record 'b entry =
  e_body :: 'b
  e_type :: string
  e_etag :: "string option"
  e_cc :: string
  e_expires :: int

record 'b edge_response =
  er_status :: nat
  er_content :: "('b \<times> string \<times> string option \<times> string) option"
  er_xcache :: "string option"

text \<open>
  The state: the cache, \<open>stats.origin\<close>, and the keys whose fetch is under way; a
  request that misses continues when its fetch is answered, and others run in
  between.
\<close>

record 'b edge_state =
  es_cache :: "string \<rightharpoonup> 'b entry"
  es_origin :: nat
  es_pending :: "string list"

text \<open>\<open>Crash\<close>: the handler throws outside any \<open>try\<close>; nobody handles its rejected promise.\<close>

datatype 'b edge_reply = Crash | Respond "'b edge_response" | Fetch string

definition request_key :: "edge_req \<Rightarrow> string option" where
  "request_key req =
     map_option (\<lambda>p. if take 1 p = ''/'' then drop 1 p else p)
       (uri_decode (hd (split_on CHR ''?'' (case eq_url req of None \<Rightarrow> ''/'' | Some u \<Rightarrow> u))))"

definition dot_dot :: "string \<Rightarrow> bool" where
  "dot_dot key \<longleftrightarrow> list_ex (\<lambda>i. take 2 (drop i key) = ''..'') [0..<length key]"

definition public_key :: "string \<Rightarrow> bool" where
  "public_key key \<longleftrightarrow> take (length ASSET_PREFIX) key = ASSET_PREFIX \<and> \<not> dot_dot key"

definition serve :: "string \<Rightarrow> 'b entry \<Rightarrow> 'b edge_response" where
  "serve xcache hit = \<lparr>er_status = 200, er_content = Some (e_body hit, e_type hit, truthy (e_etag hit), e_cc hit), er_xcache = Some xcache\<rparr>"

definition bare :: "nat \<Rightarrow> 'b edge_response" where
  "bare status = \<lparr>er_status = status, er_content = None, er_xcache = None\<rparr>"

definition edge_request :: "int \<Rightarrow> edge_req \<Rightarrow> 'b edge_state \<Rightarrow> 'b edge_reply \<times> 'b edge_state" where
  "edge_request now req st =
     (case request_key req of
        None \<Rightarrow> (Crash, st)
      | Some key \<Rightarrow>
          if eq_method req \<noteq> ''GET'' \<or> \<not> public_key key then (Respond (bare 403), st)
          else (let cache = (case es_cache st key of None \<Rightarrow> es_cache st
                             | Some e \<Rightarrow> if e_expires e \<le> now then (es_cache st)(key := None) else es_cache st)
                in case cache key of
                     Some hit \<Rightarrow> (Respond (serve ''HIT'' hit), st\<lparr>es_cache := cache\<rparr>)
                   | None \<Rightarrow> (Fetch key, st\<lparr>es_cache := cache, es_origin := es_origin st + 1,
                                es_pending := es_pending st @ [key]\<rparr>)))"

definition object_cc :: "'b object \<Rightarrow> string" where
  "object_cc ob = (case o_cc ob of None \<Rightarrow> '''' | Some cc \<Rightarrow> cc)"

definition new_entry :: "int \<Rightarrow> 'b object \<Rightarrow> 'b entry" where
  "new_entry now ob =
     \<lparr>e_body = o_body ob, e_type = (case o_type ob of None \<Rightarrow> ''application/octet-stream'' | Some t \<Rightarrow> t),
      e_etag = o_etag ob, e_cc = object_cc ob, e_expires = now + int (ttlSec (object_cc ob)) * 1000\<rparr>"

definition edge_answer :: "int \<Rightarrow> string \<Rightarrow> s3_error + 'b object \<Rightarrow> 'b edge_state \<Rightarrow> 'b edge_response \<times> 'b edge_state" where
  "edge_answer now key answer st =
     (let st = st\<lparr>es_pending := remove1 key (es_pending st)\<rparr>
      in case answer of
           Inl e \<Rightarrow> (bare (if errName e = ''NoSuchKey'' \<or> errStatus e = 404 then 404 else 502), st)
         | Inr ob \<Rightarrow>
             (serve ''MISS'' (new_entry now ob),
              if 0 < ttlSec (object_cc ob) then st\<lparr>es_cache := (es_cache st)(key \<mapsto> new_entry now ob)\<rparr> else st))"

subsection \<open>What the edge serves\<close>

text \<open>
  The reachable states, in any interleaving of requests and answers.  The log holds
  what the bucket answered so far: the key, the time and the object.
\<close>

inductive edge_reach :: "(string \<times> int \<times> 'b object) list \<Rightarrow> 'b edge_state \<Rightarrow> bool" where
  start: "edge_reach [] \<lparr>es_cache = (\<lambda>_. None), es_origin = 0, es_pending = []\<rparr>"
| request: "edge_reach fetched st \<Longrightarrow> edge_request now req st = (r, st') \<Longrightarrow> edge_reach fetched st'"
| answer: "edge_reach fetched st \<Longrightarrow> key \<in> set (es_pending st) \<Longrightarrow> edge_answer now key (Inr ob) st = (r, st') \<Longrightarrow>
    edge_reach ((key, now, ob) # fetched) st'"
| failure: "edge_reach fetched st \<Longrightarrow> key \<in> set (es_pending st) \<Longrightarrow> edge_answer now key (Inl e) st = (r, st') \<Longrightarrow>
    edge_reach fetched st'"

definition edge_ok :: "(string \<times> int \<times> 'b object) list \<Rightarrow> 'b edge_state \<Rightarrow> bool" where
  "edge_ok fetched st \<longleftrightarrow>
     (\<forall>k \<in> set (es_pending st). public_key k) \<and> (\<forall>(k, t, ob) \<in> set fetched. public_key k) \<and>
     (\<forall>k e. es_cache st k = Some e \<longrightarrow>
        (\<exists>t ob. (k, t, ob) \<in> set fetched \<and> e = new_entry t ob \<and> 0 < ttlSec (object_cc ob)))"

lemma edge_okD:
  assumes "edge_ok fetched st"
  shows "k \<in> set (es_pending st) \<Longrightarrow> public_key k" "(k, t, ob) \<in> set fetched \<Longrightarrow> public_key k"
    "es_cache st k = Some e \<Longrightarrow> \<exists>t ob. (k, t, ob) \<in> set fetched \<and> e = new_entry t ob \<and> 0 < ttlSec (object_cc ob)"
  using assms by (auto simp: edge_ok_def)

lemma edge_ok_sub:
  assumes "edge_ok fetched st" "\<And>k e. es_cache st' k = Some e \<Longrightarrow> es_cache st k = Some e"
    and "\<And>k. k \<in> set (es_pending st') \<Longrightarrow> public_key k"
  shows "edge_ok fetched st'"
  using assms(1) assms(2,3) unfolding edge_ok_def by meson

lemma edge_request_cases:
  assumes "edge_request now req st = (r, st')"
  obtains (crash) "request_key req = None" "r = Crash" "st' = st"
  | (forbidden) "r = Respond (bare 403)" "st' = st"
  | (hit) key e where "request_key req = Some key" "public_key key" "es_cache st key = Some e" "now < e_expires e"
      "r = Respond (serve ''HIT'' e)" "st' = st"
  | (miss) key cache where "request_key req = Some key" "public_key key" "r = Fetch key"
      "\<And>k e. cache k = Some e \<Longrightarrow> es_cache st k = Some e"
      "st' = st\<lparr>es_cache := cache, es_origin := es_origin st + 1, es_pending := es_pending st @ [key]\<rparr>"
proof (cases "request_key req")
  case None
  then show thesis using assms crash by (simp add: edge_request_def)
next
  case (Some key)
  let ?cache = "case es_cache st key of None \<Rightarrow> es_cache st
      | Some e \<Rightarrow> if e_expires e \<le> now then (es_cache st)(key := None) else es_cache st"
  show thesis
  proof (cases "eq_method req \<noteq> ''GET'' \<or> \<not> public_key key")
    case True
    then show thesis using assms Some forbidden by (auto simp: edge_request_def)
  next
    case False
    have sub: "es_cache st k = Some e" if "?cache k = Some e" for k e
      using that by (auto split: option.splits if_splits)
    have now: "now < e_expires e \<and> ?cache = es_cache st" if "?cache key = Some e" for e
      using that by (auto split: option.splits if_splits)
    show thesis
    proof (cases "?cache key")
      case None
      then show thesis using assms Some False miss [of key ?cache, OF Some _ _ sub] by (simp add: edge_request_def)
    next
      case hit': (Some e)
      then show thesis
        using assms Some False hit [OF Some _ sub [OF hit']] now [OF hit'] by (simp add: edge_request_def)
    qed
  qed
qed

lemma edge_ok_answer:
  assumes "edge_ok fetched st" "key \<in> set (es_pending st)" "edge_answer now key (Inr ob) st = (r, st')"
  shows "edge_ok ((key, now, ob) # fetched) st'"
proof -
  note d = edge_okD [OF assms(1)]
  have pub: "public_key key" using d(1) assms(2) .
  have pend: "set (es_pending st') \<subseteq> set (es_pending st)"
    using assms(3) set_remove1_subset [of key "es_pending st"] by (auto simp: edge_answer_def Let_def split: if_splits)
  have cache: "es_cache st k = Some e \<or> k = key \<and> e = new_entry now ob \<and> 0 < ttlSec (object_cc ob)"
    if "es_cache st' k = Some e" for k e
    using that assms(3) by (auto simp: edge_answer_def Let_def split: if_splits)
  show ?thesis
    unfolding edge_ok_def
  proof (intro conjI allI impI)
    show "\<forall>k \<in> set (es_pending st'). public_key k" using pend d(1) by blast
    show "\<forall>(k, t, ob) \<in> set ((key, now, ob) # fetched). public_key k" using d(2) pub by auto
  next
    fix k e assume "es_cache st' k = Some e"
    then show "\<exists>t ob'. (k, t, ob') \<in> set ((key, now, ob) # fetched) \<and> e = new_entry t ob' \<and> 0 < ttlSec (object_cc ob')"
      using cache d(3) by (metis list.set_intros(1) list.set_intros(2))
  qed
qed

lemma edge_reach_ok: "edge_reach fetched st \<Longrightarrow> edge_ok fetched st"
proof (induction rule: edge_reach.induct)
  case start
  show ?case by (simp add: edge_ok_def)
next
  case (request fetched st now req r st')
  note d = edge_okD [OF request.IH]
  from request.hyps(2) show ?case
  proof (cases rule: edge_request_cases)
    case (miss key cache)
    then show ?thesis using d(1) by (intro edge_ok_sub [OF request.IH]) auto
  qed (use request.IH in simp_all)
next
  case (answer fetched st key now ob r st')
  then show ?case using edge_ok_answer by blast
next
  case (failure fetched st key now e r st')
  then show ?case
    using edge_okD(1) [OF failure.IH] set_remove1_subset [of key "es_pending st"]
    by (intro edge_ok_sub [OF failure.IH]) (auto simp: edge_answer_def Let_def)
qed

text \<open>C38: the edge serves published assets only, and only what the bucket said: no key
  outside \<open>assets/\<close>, or with \<open>..\<close> in it, is ever fetched, so no upload can be read
  through it; and an answer that comes from the cache is an object the bucket
  returned for this very key, whose \<open>Cache-Control\<close> allows it to be kept and whose
  lifetime is not over.\<close>

theorem edge_serves_fresh_assets:
  assumes "edge_reach fetched st"
  shows "(\<forall>(k, t, ob) \<in> set fetched. public_key k) \<and>
    (edge_request now req st = (Respond r, st') \<longrightarrow> er_status r = 200 \<longrightarrow>
      (\<exists>key t ob. request_key req = Some key \<and> public_key key \<and> (key, t, ob) \<in> set fetched \<and>
         r = serve ''HIT'' (new_entry t ob) \<and> 0 < ttlSec (object_cc ob) \<and>
         now < t + int (ttlSec (object_cc ob)) * 1000))"
proof (intro conjI impI)
  note d = edge_okD [OF edge_reach_ok [OF assms]]
  show "\<forall>(k, t, ob) \<in> set fetched. public_key k" using d(2) by auto
  assume "edge_request now req st = (Respond r, st')" "er_status r = 200"
  then show "\<exists>key t ob. request_key req = Some key \<and> public_key key \<and> (key, t, ob) \<in> set fetched \<and>
      r = serve ''HIT'' (new_entry t ob) \<and> 0 < ttlSec (object_cc ob) \<and> now < t + int (ttlSec (object_cc ob)) * 1000"
  proof (cases rule: edge_request_cases)
    case (hit key e)
    then show ?thesis using d(3) [OF hit(3)] by (fastforce simp: new_entry_def)
  qed (simp_all add: bare_def)
qed

text \<open>A malformed escape in the path is thrown in a promise nobody awaits.\<close>

lemma bad_escape_crashes:
  "edge_request now \<lparr>eq_method = ''GET'', eq_url = Some ''/assets/%zz''\<rparr> st = (Crash, st)"
proof -
  have "request_key \<lparr>eq_method = ''GET'', eq_url = Some ''/assets/%zz''\<rparr> = None" by code_simp
  then show ?thesis by (simp add: edge_request_def)
qed

text \<open>A path without escapes is itself.\<close>

lemma uri_decode_plain: "CHR ''%'' \<notin> set s \<Longrightarrow> uri_decode s = Some s"
proof (induction s)
  case Nil
  show ?case by (simp add: uri_decode.simps [of "[]"])
next
  case (Cons c s)
  then show ?case using Cons by (auto simp: uri_decode.simps [of "c # s"])
qed

lemma ttlSec_IMMUTABLE: "ttlSec IMMUTABLE = 31536000"
  by (simp add: ttlSec_def IMMUTABLE_def directive_def seconds_def word_char_def digit_char_def is_digit_def
      ascii_lower_def digits_val_def codes_def)

text \<open>
  A published asset, once fetched, is served from the cache for a year.
\<close>

lemma published_asset_cached:
  assumes "public_key key" "CHR ''%'' \<notin> set key" "CHR ''?'' \<notin> set key"
    and "edge_answer t key (Inr ob) st = (r, st')" "o_cc ob = Some IMMUTABLE" "now < t + 31536000 * 1000"
  shows "edge_request now \<lparr>eq_method = ''GET'', eq_url = Some (CHR ''/'' # key)\<rparr> st' = (Respond (serve ''HIT'' (new_entry t ob)), st')"
proof -
  have k: "request_key \<lparr>eq_method = ''GET'', eq_url = Some (CHR ''/'' # key)\<rparr> = Some key"
    using assms(2,3) uri_decode_plain [of "CHR ''/'' # key"] by (simp add: request_key_def)
  have ttl: "ttlSec (object_cc ob) = 31536000" using assms(5) ttlSec_IMMUTABLE by (simp add: object_cc_def)
  have "es_cache st' key = Some (new_entry t ob)" using assms(4) ttl by (auto simp: edge_answer_def Let_def)
  moreover have "now < e_expires (new_entry t ob)" using assms(6) ttl by (simp add: new_entry_def)
  ultimately show ?thesis using k assms(1) by (simp add: edge_request_def)
qed

definition example_css :: "string object" where
  "example_css = \<lparr>o_body = ''body{}'', o_type = Some ''text/css'', o_etag = None, o_cc = Some ''public, max-age=60''\<rparr>"

definition example_get :: edge_req where
  "example_get = \<lparr>eq_method = ''GET'', eq_url = Some ''/assets/app.css?v=1''\<rparr>"

definition example_edge :: "string edge_state" where
  "example_edge = \<lparr>es_cache = [''assets/app.css'' \<mapsto> new_entry 5 example_css], es_origin = 1, es_pending = []\<rparr>"

theorem edge_serves_fresh_assets_witness:
  "\<exists>key t ob. request_key example_get = Some key \<and> (key, t, ob) \<in> set [(''assets/app.css'', 5, example_css)] \<and>
     (serve ''HIT'' (new_entry 5 example_css)) = serve ''HIT'' (new_entry t ob) \<and>
     30000 < t + int (ttlSec (object_cc ob)) * 1000"
proof -
  have key: "request_key example_get = Some ''assets/app.css''" "public_key ''assets/app.css''" by code_simp+
  have ttl: "ttlSec (object_cc example_css) = 60" by code_simp
  have get: "eq_method example_get = ''GET''" by (simp add: example_get_def)
  let ?st = "\<lparr>es_cache = (\<lambda>_. None), es_origin = 1, es_pending = [''assets/app.css'']\<rparr> :: string edge_state"
  have "edge_request 0 example_get \<lparr>es_cache = (\<lambda>_. None), es_origin = 0, es_pending = []\<rparr> = (Fetch ''assets/app.css'', ?st)"
    using key get by (simp add: edge_request_def)
  then have one: "edge_reach [] ?st" by (rule edge_reach.request [OF edge_reach.start])
  have "edge_answer 5 ''assets/app.css'' (Inr example_css) ?st = (serve ''MISS'' (new_entry 5 example_css), example_edge)"
    using ttl by (simp add: edge_answer_def example_edge_def)
  then have two: "edge_reach [(''assets/app.css'', 5, example_css)] example_edge"
    using edge_reach.answer [OF one] by simp
  have "edge_request 30000 example_get example_edge = (Respond (serve ''HIT'' (new_entry 5 example_css)), example_edge)"
    using key get ttl by (simp add: edge_request_def example_edge_def new_entry_def)
  from edge_serves_fresh_assets [OF two, of 30000 example_get "serve ''HIT'' (new_entry 5 example_css)" example_edge] this
  show ?thesis by (simp add: serve_def)
qed

end
