(* ===== verification/Env.thy ===== *)
theory Env
  imports Files
begin

text \<open>
  The configuration: \<open>src/config/env.schema.ts\<close>, and the readers of the process
  environment outside Nest (\<open>src/storage/s3.ts\<close>, \<open>src/redis/config.ts\<close>,
  \<open>src/messaging/config.ts\<close>).  A zod check either aborts (no value) or goes on with a
  value and the issues found so far; refinements run unless something aborted.
  Strings are UTF-8 bytes.  The URL parser and the key parser of
  \<open>node:crypto\<close> are parameters.
\<close>

subsection \<open>zod\<close>

datatype zod_issue = Required | BadEnum | NotNumber | NotInteger | TooShort | TooSmall | TooBig | BadUrl | BadKey
  | NotTogether | SameKid

type_synonym 'a outcome = "zod_issue list \<times> 'a option"

definition z_string :: "nat \<Rightarrow> string option \<Rightarrow> string outcome" where
  "z_string n v = (case v of None \<Rightarrow> ([Required], None) | Some s \<Rightarrow> (if js_length s < n then [TooShort] else [], Some s))"

definition z_refine :: "('a \<Rightarrow> bool) \<Rightarrow> zod_issue \<Rightarrow> 'a outcome \<Rightarrow> 'a outcome" where
  "z_refine P i r = (case r of (is, None) \<Rightarrow> (is, None) | (is, Some x) \<Rightarrow> (is @ (if P x then [] else [i]), Some x))"

definition z_enum :: "string list \<Rightarrow> string option \<Rightarrow> string outcome" where
  "z_enum vs v = (case v of None \<Rightarrow> ([Required], None) | Some s \<Rightarrow> if s \<in> set vs then ([], Some s) else ([BadEnum], None))"

definition z_default :: "string \<Rightarrow> (string option \<Rightarrow> 'a outcome) \<Rightarrow> string option \<Rightarrow> 'a outcome" where
  "z_default d f v = f (Some (case v of None \<Rightarrow> d | Some s \<Rightarrow> s))"

definition blankToUndefined :: "string option \<Rightarrow> string option" where
  "blankToUndefined v = (if v = Some '''' then None else v)"

definition z_optional :: "(string option \<Rightarrow> 'a outcome) \<Rightarrow> string option \<Rightarrow> 'a option outcome" where
  "z_optional f v = (case v of None \<Rightarrow> ([], Some None) | Some s \<Rightarrow> (let (is, r) = f (Some s) in (is, map_option Some r)))"

fun js_less :: "jsnum \<Rightarrow> int \<Rightarrow> bool" where
  "js_less (Num x) k = (x < of_int k)"
| "js_less (Infinity neg) k = neg"
| "js_less NaN k = False"

fun js_greater :: "jsnum \<Rightarrow> int \<Rightarrow> bool" where
  "js_greater (Num x) k = (of_int k < x)"
| "js_greater (Infinity neg) k = (\<not> neg)"
| "js_greater NaN k = False"

fun int_value :: "jsnum \<Rightarrow> int" where
  "int_value (Num x) = \<lfloor>x\<rfloor>"
| "int_value _ = 0"

text \<open>\<open>z.coerce.number().int().min(lo).max(hi).default(d)\<close>; a value with an issue is never used.\<close>

definition z_int :: "int \<Rightarrow> int \<Rightarrow> int option \<Rightarrow> string option \<Rightarrow> int outcome" where
  "z_int d lo hi v =
     (let n = (case v of None \<Rightarrow> Num (of_int d) | Some s \<Rightarrow> js_number s)
      in if n = NaN then ([NotNumber], None)
         else ((if js_is_integer n then [] else [NotInteger]) @ (if js_less n lo then [TooSmall] else []) @
               (case hi of None \<Rightarrow> [] | Some h \<Rightarrow> if js_greater n h then [TooBig] else []), Some (int_value n)))"

subsection \<open>The schema\<close>

record env_lib =
  el_url :: "string \<Rightarrow> bool"
  el_private :: "string \<Rightarrow> (string \<times> string option) option"
  el_public :: "string \<Rightarrow> (string \<times> string option) option"

datatype key_kind = PrivateKey | PublicKey

definition isEcKey :: "env_lib \<Rightarrow> key_kind \<Rightarrow> string \<Rightarrow> bool" where
  "isEcKey lib kind b64 =
     (case (case kind of PrivateKey \<Rightarrow> el_private lib | PublicKey \<Rightarrow> el_public lib) (fromB64 b64) of
        None \<Rightarrow> False
      | Some (keytype, curve) \<Rightarrow> keytype = ''ec'' \<and> curve = Some ''prime256v1'')"

record env =
  NODE_ENV :: string
  PORT :: int
  DB_URL :: string
  DB_PASSWORD_FILE :: string
  JWT_PRIVATE_KEY :: string
  JWT_PUBLIC_KEY :: string
  JWT_KID :: string
  REFRESH_TOKEN_PEPPER :: string
  JWT_PREVIOUS_KID :: "string option"
  JWT_PREVIOUS_PUBLIC_KEY :: "string option"
  STORAGE_ENDPOINT :: "string option"
  STORAGE_REGION :: string
  STORAGE_ACCESS_KEY :: string
  STORAGE_SECRET_KEY :: string
  STORAGE_BUCKET :: string
  STORAGE_PUT_EXPIRES_SEC :: int
  STORAGE_PART_EXPIRES_SEC :: int
  STORAGE_GET_EXPIRES_SEC :: int
  STORAGE_MULTIPART_THRESHOLD :: int
  ACCESS_TOKEN_TTL_SEC :: int
  REFRESH_TOKEN_TTL_SEC :: int

text \<open>The outcome of each variable.\<close>

record env_outcomes =
  o_NODE_ENV :: "string outcome"
  o_PORT :: "int outcome"
  o_DB_URL :: "string outcome"
  o_DB_PASSWORD_FILE :: "string outcome"
  o_JWT_PRIVATE_KEY :: "string outcome"
  o_JWT_PUBLIC_KEY :: "string outcome"
  o_JWT_KID :: "string outcome"
  o_REFRESH_TOKEN_PEPPER :: "string outcome"
  o_JWT_PREVIOUS_KID :: "string option outcome"
  o_JWT_PREVIOUS_PUBLIC_KEY :: "string option outcome"
  o_STORAGE_ENDPOINT :: "string option outcome"
  o_STORAGE_REGION :: "string outcome"
  o_STORAGE_ACCESS_KEY :: "string outcome"
  o_STORAGE_SECRET_KEY :: "string outcome"
  o_STORAGE_BUCKET :: "string outcome"
  o_STORAGE_PUT_EXPIRES_SEC :: "int outcome"
  o_STORAGE_PART_EXPIRES_SEC :: "int outcome"
  o_STORAGE_GET_EXPIRES_SEC :: "int outcome"
  o_STORAGE_MULTIPART_THRESHOLD :: "int outcome"
  o_ACCESS_TOKEN_TTL_SEC :: "int outcome"
  o_REFRESH_TOKEN_TTL_SEC :: "int outcome"

definition envSchema :: "env_lib \<Rightarrow> (string \<rightharpoonup> string) \<Rightarrow> env_outcomes" where
  "envSchema lib raw =
     \<lparr>o_NODE_ENV = z_default ''development'' (z_enum [''development'', ''production'', ''test'']) (raw ''NODE_ENV''),
      o_PORT = z_int 3000 1 (Some 65535) (raw ''PORT''),
      o_DB_URL = z_refine (el_url lib) BadUrl (z_string 0 (raw ''DB_URL'')),
      o_DB_PASSWORD_FILE = z_default ''./secrets/db_password'' (z_string 1) (raw ''DB_PASSWORD_FILE''),
      o_JWT_PRIVATE_KEY = z_refine (isEcKey lib PrivateKey) BadKey (z_string 1 (raw ''JWT_PRIVATE_KEY'')),
      o_JWT_PUBLIC_KEY = z_refine (isEcKey lib PublicKey) BadKey (z_string 1 (raw ''JWT_PUBLIC_KEY'')),
      o_JWT_KID = z_string 1 (raw ''JWT_KID''),
      o_REFRESH_TOKEN_PEPPER = z_string 8 (raw ''REFRESH_TOKEN_PEPPER''),
      o_JWT_PREVIOUS_KID = z_optional (z_string 1) (blankToUndefined (raw ''JWT_PREVIOUS_KID'')),
      o_JWT_PREVIOUS_PUBLIC_KEY = z_optional (\<lambda>v. z_refine (isEcKey lib PublicKey) BadKey (z_string 0 v)) (blankToUndefined (raw ''JWT_PREVIOUS_PUBLIC_KEY'')),
      o_STORAGE_ENDPOINT = z_optional (\<lambda>v. z_refine (el_url lib) BadUrl (z_string 0 v)) (blankToUndefined (raw ''STORAGE_ENDPOINT'')),
      o_STORAGE_REGION = z_default ''us-east-1'' (z_string 1) (raw ''STORAGE_REGION''),
      o_STORAGE_ACCESS_KEY = z_string 1 (raw ''STORAGE_ACCESS_KEY''),
      o_STORAGE_SECRET_KEY = z_string 1 (raw ''STORAGE_SECRET_KEY''),
      o_STORAGE_BUCKET = z_string 3 (raw ''STORAGE_BUCKET''),
      o_STORAGE_PUT_EXPIRES_SEC = z_int 300 10 (Some 3600) (raw ''STORAGE_PUT_EXPIRES_SEC''),
      o_STORAGE_PART_EXPIRES_SEC = z_int 900 10 (Some 3600) (raw ''STORAGE_PART_EXPIRES_SEC''),
      o_STORAGE_GET_EXPIRES_SEC = z_int 60 5 (Some 3600) (raw ''STORAGE_GET_EXPIRES_SEC''),
      o_STORAGE_MULTIPART_THRESHOLD = z_int 8388608 5242880 None (raw ''STORAGE_MULTIPART_THRESHOLD''),
      o_ACCESS_TOKEN_TTL_SEC = z_int 600 30 (Some 3600) (raw ''ACCESS_TOKEN_TTL_SEC''),
      o_REFRESH_TOKEN_TTL_SEC = z_int 604800 60 None (raw ''REFRESH_TOKEN_TTL_SEC'')\<rparr>"

text \<open>A variable's issues, and whether its check aborted.\<close>

definition report :: "string \<Rightarrow> 'a outcome \<Rightarrow> string \<times> zod_issue list \<times> bool" where
  "report name r = (name, fst r, snd r = None)"

definition reports :: "env_outcomes \<Rightarrow> (string \<times> zod_issue list \<times> bool) list" where
  "reports r =
     [report ''NODE_ENV'' (o_NODE_ENV r),
      report ''PORT'' (o_PORT r),
      report ''DB_URL'' (o_DB_URL r),
      report ''DB_PASSWORD_FILE'' (o_DB_PASSWORD_FILE r),
      report ''JWT_PRIVATE_KEY'' (o_JWT_PRIVATE_KEY r),
      report ''JWT_PUBLIC_KEY'' (o_JWT_PUBLIC_KEY r),
      report ''JWT_KID'' (o_JWT_KID r),
      report ''REFRESH_TOKEN_PEPPER'' (o_REFRESH_TOKEN_PEPPER r),
      report ''JWT_PREVIOUS_KID'' (o_JWT_PREVIOUS_KID r),
      report ''JWT_PREVIOUS_PUBLIC_KEY'' (o_JWT_PREVIOUS_PUBLIC_KEY r),
      report ''STORAGE_ENDPOINT'' (o_STORAGE_ENDPOINT r),
      report ''STORAGE_REGION'' (o_STORAGE_REGION r),
      report ''STORAGE_ACCESS_KEY'' (o_STORAGE_ACCESS_KEY r),
      report ''STORAGE_SECRET_KEY'' (o_STORAGE_SECRET_KEY r),
      report ''STORAGE_BUCKET'' (o_STORAGE_BUCKET r),
      report ''STORAGE_PUT_EXPIRES_SEC'' (o_STORAGE_PUT_EXPIRES_SEC r),
      report ''STORAGE_PART_EXPIRES_SEC'' (o_STORAGE_PART_EXPIRES_SEC r),
      report ''STORAGE_GET_EXPIRES_SEC'' (o_STORAGE_GET_EXPIRES_SEC r),
      report ''STORAGE_MULTIPART_THRESHOLD'' (o_STORAGE_MULTIPART_THRESHOLD r),
      report ''ACCESS_TOKEN_TTL_SEC'' (o_ACCESS_TOKEN_TTL_SEC r),
      report ''REFRESH_TOKEN_TTL_SEC'' (o_REFRESH_TOKEN_TTL_SEC r)]"

definition parsed :: "env_outcomes \<Rightarrow> env" where
  "parsed r =
     \<lparr>NODE_ENV = the (snd (o_NODE_ENV r)),
      PORT = the (snd (o_PORT r)),
      DB_URL = the (snd (o_DB_URL r)),
      DB_PASSWORD_FILE = the (snd (o_DB_PASSWORD_FILE r)),
      JWT_PRIVATE_KEY = the (snd (o_JWT_PRIVATE_KEY r)),
      JWT_PUBLIC_KEY = the (snd (o_JWT_PUBLIC_KEY r)),
      JWT_KID = the (snd (o_JWT_KID r)),
      REFRESH_TOKEN_PEPPER = the (snd (o_REFRESH_TOKEN_PEPPER r)),
      JWT_PREVIOUS_KID = the (snd (o_JWT_PREVIOUS_KID r)),
      JWT_PREVIOUS_PUBLIC_KEY = the (snd (o_JWT_PREVIOUS_PUBLIC_KEY r)),
      STORAGE_ENDPOINT = the (snd (o_STORAGE_ENDPOINT r)),
      STORAGE_REGION = the (snd (o_STORAGE_REGION r)),
      STORAGE_ACCESS_KEY = the (snd (o_STORAGE_ACCESS_KEY r)),
      STORAGE_SECRET_KEY = the (snd (o_STORAGE_SECRET_KEY r)),
      STORAGE_BUCKET = the (snd (o_STORAGE_BUCKET r)),
      STORAGE_PUT_EXPIRES_SEC = the (snd (o_STORAGE_PUT_EXPIRES_SEC r)),
      STORAGE_PART_EXPIRES_SEC = the (snd (o_STORAGE_PART_EXPIRES_SEC r)),
      STORAGE_GET_EXPIRES_SEC = the (snd (o_STORAGE_GET_EXPIRES_SEC r)),
      STORAGE_MULTIPART_THRESHOLD = the (snd (o_STORAGE_MULTIPART_THRESHOLD r)),
      ACCESS_TOKEN_TTL_SEC = the (snd (o_ACCESS_TOKEN_TTL_SEC r)),
      REFRESH_TOKEN_TTL_SEC = the (snd (o_REFRESH_TOKEN_TTL_SEC r))\<rparr>"

definition env_refine :: "env \<Rightarrow> (string \<times> zod_issue) list" where
  "env_refine env =
     (if present (JWT_PREVIOUS_KID env) \<noteq> present (JWT_PREVIOUS_PUBLIC_KEY env) then [(''JWT_PREVIOUS_KID'', NotTogether)] else []) @
     (if present (JWT_PREVIOUS_KID env) \<and> JWT_PREVIOUS_KID env = Some (JWT_KID env) then [(''JWT_PREVIOUS_KID'', SameKid)] else [])"

text \<open>The error of \<open>validate\<close> lists the issues with their variables.\<close>

definition validate :: "env_lib \<Rightarrow> (string \<rightharpoonup> string) \<Rightarrow> (string \<times> zod_issue) list + env" where
  "validate lib raw =
     (let r = envSchema lib raw;
          issues = concat (map (\<lambda>(name, is, _). map (Pair name) is) (reports r));
          env = parsed r;
          all = (if list_ex (\<lambda>(_, _, aborted). aborted) (reports r) then issues else issues @ env_refine env)
      in if all = [] then Inr env else Inl all)"

subsection \<open>What a validated configuration guarantees\<close>

definition between :: "int \<Rightarrow> int \<Rightarrow> int \<Rightarrow> bool" where
  "between lo hi k \<longleftrightarrow> lo \<le> k \<and> k \<le> hi"

definition env_ok :: "env_lib \<Rightarrow> env \<Rightarrow> bool" where
  "env_ok lib env \<longleftrightarrow>
     NODE_ENV env \<in> {''development'', ''production'', ''test''} \<and> between 1 65535 (PORT env) \<and> el_url lib (DB_URL env) \<and>
     isEcKey lib PrivateKey (JWT_PRIVATE_KEY env) \<and> isEcKey lib PublicKey (JWT_PUBLIC_KEY env) \<and>
     JWT_PRIVATE_KEY env \<noteq> '''' \<and> JWT_PUBLIC_KEY env \<noteq> '''' \<and>
     DB_PASSWORD_FILE env \<noteq> '''' \<and> STORAGE_REGION env \<noteq> '''' \<and>
     JWT_KID env \<noteq> '''' \<and> 8 \<le> js_length (REFRESH_TOKEN_PEPPER env) \<and>
     (JWT_PREVIOUS_KID env = None \<longleftrightarrow> JWT_PREVIOUS_PUBLIC_KEY env = None) \<and>
     JWT_PREVIOUS_KID env \<noteq> Some (JWT_KID env) \<and>
     JWT_PREVIOUS_KID env \<noteq> Some '''' \<and>
     (\<forall>k. JWT_PREVIOUS_PUBLIC_KEY env = Some k \<longrightarrow> isEcKey lib PublicKey k) \<and>
     (\<forall>u. STORAGE_ENDPOINT env = Some u \<longrightarrow> u \<noteq> '''' \<and> el_url lib u) \<and>
     STORAGE_ACCESS_KEY env \<noteq> '''' \<and> STORAGE_SECRET_KEY env \<noteq> '''' \<and> 3 \<le> js_length (STORAGE_BUCKET env) \<and>
     between 10 3600 (STORAGE_PUT_EXPIRES_SEC env) \<and> between 10 3600 (STORAGE_PART_EXPIRES_SEC env) \<and>
     between 5 3600 (STORAGE_GET_EXPIRES_SEC env) \<and> MIN_PART \<le> STORAGE_MULTIPART_THRESHOLD env \<and>
     between 30 3600 (ACCESS_TOKEN_TTL_SEC env) \<and> 60 \<le> REFRESH_TOKEN_TTL_SEC env"


text \<open>What each check lets through.\<close>

lemma z_string_ok: "z_string n v = ([], Some s) \<Longrightarrow> n \<le> js_length s"
  by (auto simp: z_string_def split: option.splits if_splits)

lemma z_string_nonempty: "z_string n v = ([], Some s) \<Longrightarrow> 0 < n \<Longrightarrow> s \<noteq> ''''"
  by (auto simp: z_string_def js_length_0 split: option.splits if_splits)


lemma z_refine_ok: "z_refine P i r = ([], Some x) \<Longrightarrow> P x \<and> r = ([], Some x)"
  by (auto simp: z_refine_def split: prod.splits option.splits if_splits)

lemma z_enum_ok: "z_enum vs v = ([], Some s) \<Longrightarrow> s \<in> set vs"
  by (auto simp: z_enum_def split: option.splits if_splits)

lemma z_optional_ok:
  "z_optional f (blankToUndefined v) = ([], Some (Some x)) \<Longrightarrow> \<exists>s. s \<noteq> '''' \<and> f (Some s) = ([], Some x)"
  by (auto simp: z_optional_def blankToUndefined_def split: option.splits prod.splits if_splits)

lemma z_int_ok:
  assumes "z_int d lo hi v = ([], Some k)"
  shows "lo \<le> k" "hi = Some h \<Longrightarrow> k \<le> h"
proof -
  define n where "n = (case v of None \<Rightarrow> Num (of_int d) | Some s \<Rightarrow> js_number s)"
  have n: "n \<noteq> NaN" "js_is_integer n" "\<not> js_less n lo" "hi = Some h \<Longrightarrow> \<not> js_greater n h" "k = int_value n"
    using assms unfolding z_int_def n_def [symmetric] Let_def by (auto split: if_splits option.splits)
  obtain x where "n = Num x" "of_int \<lfloor>x\<rfloor> = x" using n(2) by (cases n) auto
  then show "lo \<le> k" "hi = Some h \<Longrightarrow> k \<le> h" using n(3-5) by (auto simp: floor_le_iff le_floor_iff)
qed

text \<open>A check that aborts says why.\<close>

definition says_why :: "'a outcome \<Rightarrow> bool" where
  "says_why r \<longleftrightarrow> (snd r = None \<longrightarrow> fst r \<noteq> [])"

lemma says_why [intro, simp]:
  "says_why (z_string n v)" "says_why (z_enum vs v)" "says_why (z_int d lo hi v)"
  by (auto simp: says_why_def z_string_def z_enum_def z_int_def Let_def split: option.splits if_splits)

lemma says_why_refine [intro]: "says_why r \<Longrightarrow> says_why (z_refine P i r)"
  by (auto simp: says_why_def z_refine_def split: prod.splits option.splits)

lemma says_why_optional [intro]: "(\<And>s. says_why (f s)) \<Longrightarrow> says_why (z_optional f v)"
proof (cases v)
  case (Some s)
  assume "\<And>s. says_why (f s)"
  then have "says_why (f (Some s))" .
  then show ?thesis using Some by (cases "f (Some s)") (auto simp: says_why_def z_optional_def)
qed (simp add: says_why_def z_optional_def)

lemma says_why_default [intro]: "(\<And>s. says_why (f s)) \<Longrightarrow> says_why (z_default d f v)"
  by (simp add: z_default_def)

text \<open>A check without issues gave a value.\<close>

lemma clean_outcome: "says_why r \<Longrightarrow> fst r = [] \<Longrightarrow> r = ([], Some (the (snd r)))"
  by (cases r) (auto simp: says_why_def)

lemma report_says_why: "(case report n r of (name, is, aborted) \<Rightarrow> aborted \<longrightarrow> is \<noteq> []) \<longleftrightarrow> says_why r"
  by (simp add: report_def says_why_def)

lemma report_clean: "(case report n r of (name, is, aborted) \<Rightarrow> is = []) \<longleftrightarrow> fst r = []"
  by (simp add: report_def)

lemma envSchema_says_why:
  "list_all (\<lambda>(name, is, aborted). aborted \<longrightarrow> is \<noteq> []) (reports (envSchema lib raw))"
  by (simp add: reports_def report_says_why envSchema_def)
    (intro conjI says_why_refine says_why_optional says_why_default says_why)

lemma validate_Inr:
  assumes "validate lib raw = Inr env"
  shows "list_all (\<lambda>(name, is, aborted). is = []) (reports (envSchema lib raw))"
    "env = parsed (envSchema lib raw)" "env_refine env = []"
proof -
  let ?r = "reports (envSchema lib raw)"
  have "concat (map (\<lambda>(name, is, _). map (Pair name) is) ?r) = []" and env: "env = parsed (envSchema lib raw)"
    using assms by (auto simp: validate_def Let_def split: if_splits)
  then show clean: "list_all (\<lambda>(name, is, aborted). is = []) ?r" by (auto simp: list_all_iff)
  then have "\<not> list_ex (\<lambda>(_, _, aborted). aborted) ?r"
    using envSchema_says_why [of lib raw] by (fastforce simp: list_all_iff list_ex_iff)
  then show "env_refine env = []" using assms env by (auto simp: validate_def Let_def split: if_splits)
  show "env = parsed (envSchema lib raw)" by (rule env)
qed

text \<open>If \<open>validate\<close> returns, every check gave the value without issues.\<close>

lemma validated_outcomes:
  fixes lib raw defines "r \<equiv> envSchema lib raw"
  assumes v: "validate lib raw = Inr env"
  shows "o_NODE_ENV r = ([], Some (NODE_ENV env))" "o_PORT r = ([], Some (PORT env))"
    "o_DB_URL r = ([], Some (DB_URL env))" "o_JWT_PRIVATE_KEY r = ([], Some (JWT_PRIVATE_KEY env))"
    "o_JWT_PUBLIC_KEY r = ([], Some (JWT_PUBLIC_KEY env))" "o_JWT_KID r = ([], Some (JWT_KID env))"
    "o_REFRESH_TOKEN_PEPPER r = ([], Some (REFRESH_TOKEN_PEPPER env))"
    "o_JWT_PREVIOUS_KID r = ([], Some (JWT_PREVIOUS_KID env))"
    "o_JWT_PREVIOUS_PUBLIC_KEY r = ([], Some (JWT_PREVIOUS_PUBLIC_KEY env))"
    "o_STORAGE_ENDPOINT r = ([], Some (STORAGE_ENDPOINT env))"
    "o_STORAGE_ACCESS_KEY r = ([], Some (STORAGE_ACCESS_KEY env))"
    "o_STORAGE_SECRET_KEY r = ([], Some (STORAGE_SECRET_KEY env))" "o_STORAGE_BUCKET r = ([], Some (STORAGE_BUCKET env))"
    "o_STORAGE_PUT_EXPIRES_SEC r = ([], Some (STORAGE_PUT_EXPIRES_SEC env))"
    "o_STORAGE_PART_EXPIRES_SEC r = ([], Some (STORAGE_PART_EXPIRES_SEC env))"
    "o_STORAGE_GET_EXPIRES_SEC r = ([], Some (STORAGE_GET_EXPIRES_SEC env))"
    "o_STORAGE_MULTIPART_THRESHOLD r = ([], Some (STORAGE_MULTIPART_THRESHOLD env))"
    "o_ACCESS_TOKEN_TTL_SEC r = ([], Some (ACCESS_TOKEN_TTL_SEC env))"
    "o_REFRESH_TOKEN_TTL_SEC r = ([], Some (REFRESH_TOKEN_TTL_SEC env))"
    "o_DB_PASSWORD_FILE r = ([], Some (DB_PASSWORD_FILE env))" "o_STORAGE_REGION r = ([], Some (STORAGE_REGION env))"
proof -
  note val = validate_Inr [OF v, folded r_def]
  note why = envSchema_says_why [of lib raw, folded r_def, unfolded reports_def, simplified, unfolded report_says_why]
  note clean = val(1) [unfolded reports_def, simplified, unfolded report_clean]
  show "o_NODE_ENV r = ([], Some (NODE_ENV env))" "o_PORT r = ([], Some (PORT env))"
    "o_DB_URL r = ([], Some (DB_URL env))" "o_JWT_PRIVATE_KEY r = ([], Some (JWT_PRIVATE_KEY env))"
    "o_JWT_PUBLIC_KEY r = ([], Some (JWT_PUBLIC_KEY env))" "o_JWT_KID r = ([], Some (JWT_KID env))"
    "o_REFRESH_TOKEN_PEPPER r = ([], Some (REFRESH_TOKEN_PEPPER env))"
    "o_JWT_PREVIOUS_KID r = ([], Some (JWT_PREVIOUS_KID env))"
    "o_JWT_PREVIOUS_PUBLIC_KEY r = ([], Some (JWT_PREVIOUS_PUBLIC_KEY env))"
    "o_STORAGE_ENDPOINT r = ([], Some (STORAGE_ENDPOINT env))"
    "o_STORAGE_ACCESS_KEY r = ([], Some (STORAGE_ACCESS_KEY env))"
    "o_STORAGE_SECRET_KEY r = ([], Some (STORAGE_SECRET_KEY env))" "o_STORAGE_BUCKET r = ([], Some (STORAGE_BUCKET env))"
    "o_STORAGE_PUT_EXPIRES_SEC r = ([], Some (STORAGE_PUT_EXPIRES_SEC env))"
    "o_STORAGE_PART_EXPIRES_SEC r = ([], Some (STORAGE_PART_EXPIRES_SEC env))"
    "o_STORAGE_GET_EXPIRES_SEC r = ([], Some (STORAGE_GET_EXPIRES_SEC env))"
    "o_STORAGE_MULTIPART_THRESHOLD r = ([], Some (STORAGE_MULTIPART_THRESHOLD env))"
    "o_ACCESS_TOKEN_TTL_SEC r = ([], Some (ACCESS_TOKEN_TTL_SEC env))"
    "o_REFRESH_TOKEN_TTL_SEC r = ([], Some (REFRESH_TOKEN_TTL_SEC env))"
    "o_DB_PASSWORD_FILE r = ([], Some (DB_PASSWORD_FILE env))" "o_STORAGE_REGION r = ([], Some (STORAGE_REGION env))"
    using why clean by (simp_all add: val(2) parsed_def clean_outcome)
qed

lemma optional_string:
  assumes "z_optional (z_string 1) (blankToUndefined v) = ([], Some kid)"
  shows "present kid \<longleftrightarrow> kid \<noteq> None" "kid \<noteq> Some ''''"
  using assms
  by (auto simp: present_def z_optional_def blankToUndefined_def z_string_def js_length_0 split: option.splits if_splits)

lemma optional_refined:
  assumes "z_optional (\<lambda>v. z_refine P i (z_string 0 v)) (blankToUndefined w) = ([], Some key)"
  shows "present key \<longleftrightarrow> key \<noteq> None" "key = Some k \<Longrightarrow> P k \<and> k \<noteq> ''''"
  using assms
  by (auto simp: present_def z_optional_def blankToUndefined_def z_string_def z_refine_def split: option.splits if_splits)

lemma env_refine_Nil:
  "env_refine env = [] \<longleftrightarrow> present (JWT_PREVIOUS_KID env) = present (JWT_PREVIOUS_PUBLIC_KEY env) \<and>
     \<not> (present (JWT_PREVIOUS_KID env) \<and> JWT_PREVIOUS_KID env = Some (JWT_KID env))"
  by (auto simp: env_refine_def)

lemma validated_env_ok:
  assumes v: "validate lib raw = Inr env"
  shows "env_ok lib env"
proof -
  note out = validated_outcomes [OF v, unfolded envSchema_def, simplified env_outcomes.simps]
  note kid = optional_string [OF out(8)] and key = optional_refined [OF out(9)]
  have "JWT_PREVIOUS_KID env = None \<longleftrightarrow> JWT_PREVIOUS_PUBLIC_KEY env = None" "JWT_PREVIOUS_KID env \<noteq> Some (JWT_KID env)"
    using validate_Inr(3) [OF v] kid(1) key(1) by (auto simp: env_refine_Nil)
  moreover have "u \<noteq> '''' \<and> el_url lib u" if "STORAGE_ENDPOINT env = Some u" for u
    using optional_refined(2) [OF out(10) that] by simp
  moreover have "NODE_ENV env \<in> {''development'', ''production'', ''test''}"
    using z_enum_ok [OF out(1) [unfolded z_default_def]] by simp
  moreover note z_refine_ok [OF out(3)] z_refine_ok [OF out(4)] z_refine_ok [OF out(5)]
    z_string_nonempty [OF out(6)] z_string_ok [OF out(7)] z_string_nonempty [OF out(11)] z_string_nonempty [OF out(12)]
    z_string_ok [OF out(13)] key(2) kid(2) z_string_nonempty [OF out(20) [unfolded z_default_def]]
    z_string_nonempty [OF out(21) [unfolded z_default_def]] z_string_nonempty [OF conjunct2 [OF z_refine_ok [OF out(4)]]]
    z_string_nonempty [OF conjunct2 [OF z_refine_ok [OF out(5)]]]
    z_int_ok [OF out(2)] z_int_ok [OF out(14)] z_int_ok [OF out(15)] z_int_ok [OF out(16)] z_int_ok(1) [OF out(17)]
    z_int_ok [OF out(18)] z_int_ok(1) [OF out(19)]
  ultimately show ?thesis by (simp add: env_ok_def between_def MIN_PART_def MIB_def)
qed



text \<open>
  The cross-checks of \<open>superRefine\<close> are left out of the list when another variable
  has no value.
\<close>

lemma refinements_wait:
  assumes "(name, is, True) \<in> set (reports (envSchema lib raw))" "validate lib raw = Inl issues"
  shows "issues = concat (map (\<lambda>(name, is, _). map (Pair name) is) (reports (envSchema lib raw)))"
proof -
  have "list_ex (\<lambda>(_, _, aborted). aborted) (reports (envSchema lib raw))"
    using assms(1) by (auto simp: list_ex_iff)
  then show ?thesis using assms(2) by (auto simp: validate_def Let_def split: if_splits)
qed





subsection \<open>Readers of the configuration\<close>

text \<open>The options of \<open>new S3Client\<close>; the client itself is the parameter \<open>client\<close>.\<close>

record storage_config =
  sc_endpoint :: "string option"
  sc_region :: string
  sc_accessKey :: string
  sc_secretKey :: string
  sc_bucket :: string

record s3_options =
  s3o_region :: string
  s3o_endpoint :: "string option"
  s3o_forcePathStyle :: bool
  s3o_credentials :: "string \<times> string"
  s3o_checksums :: string

definition makeS3 :: "(s3_options \<Rightarrow> 'c) \<Rightarrow> storage_config \<Rightarrow> 'c" where
  "makeS3 client cfg = client
     \<lparr>s3o_region = sc_region cfg, s3o_endpoint = truthy (sc_endpoint cfg), s3o_forcePathStyle = truthy (sc_endpoint cfg) \<noteq> None,
      s3o_credentials = (sc_accessKey cfg, sc_secretKey cfg), s3o_checksums = ''WHEN_REQUIRED''\<rparr>"

text \<open>The names that are missing, or the configuration.\<close>

definition storageFromEnv :: "(string \<rightharpoonup> string) \<Rightarrow> string list + storage_config" where
  "storageFromEnv env =
     (let missing = filter (\<lambda>n. truthy (env n) = None) [''STORAGE_ACCESS_KEY'', ''STORAGE_SECRET_KEY'', ''STORAGE_BUCKET'']
      in if missing \<noteq> [] then Inl missing
         else Inr \<lparr>sc_endpoint = truthy (env ''STORAGE_ENDPOINT''),
                sc_region = (case truthy (env ''STORAGE_REGION'') of None \<Rightarrow> ''us-east-1'' | Some r \<Rightarrow> r),
                sc_accessKey = the (env ''STORAGE_ACCESS_KEY''), sc_secretKey = the (env ''STORAGE_SECRET_KEY''),
                sc_bucket = the (env ''STORAGE_BUCKET'')\<rparr>)"

text \<open>\<open>StorageService\<close>'s constructor; \<open>bucket_of\<close> gives the operations on one bucket of a client.\<close>

definition storage_service_init :: "(s3_options \<Rightarrow> 'c) \<Rightarrow> ('c \<Rightarrow> string \<Rightarrow> s3 \<times> signer) \<Rightarrow> env \<Rightarrow> storage_service" where
  "storage_service_init client bucket_of env =
     (let c = makeS3 client \<lparr>sc_endpoint = STORAGE_ENDPOINT env, sc_region = STORAGE_REGION env,
                sc_accessKey = STORAGE_ACCESS_KEY env, sc_secretKey = STORAGE_SECRET_KEY env, sc_bucket = STORAGE_BUCKET env\<rparr>;
          (bytes, sgn) = bucket_of c (STORAGE_BUCKET env)
      in \<lparr>st_s3 = bytes, st_signer = sgn, putExpires = STORAGE_PUT_EXPIRES_SEC env,
          partExpires = STORAGE_PART_EXPIRES_SEC env, getExpires = STORAGE_GET_EXPIRES_SEC env,
          multipartThreshold = STORAGE_MULTIPART_THRESHOLD env\<rparr>)"

text \<open>\<open>need\<close> throws with the name of the variable.\<close>

definition need :: "(string \<rightharpoonup> string) \<Rightarrow> string \<Rightarrow> string res" where
  "need env name = (case truthy (env name) of None \<Rightarrow> Inl (Error name) | Some url \<Rightarrow> Inr url)"

definition cacheRedisUrl :: "(string \<rightharpoonup> string) \<Rightarrow> string res" where
  "cacheRedisUrl env = need env ''REDIS_URL''"

definition queueRedisUrl :: "(string \<rightharpoonup> string) \<Rightarrow> string res" where
  "queueRedisUrl env = need env ''REDIS_QUEUE_URL''"

definition brokerUrl :: "(string \<rightharpoonup> string) \<Rightarrow> string res" where
  "brokerUrl env = need env ''BROKER_URL''"

text \<open>
  The part of a validated environment the token service reads: both keys of a
  rotation verify, each under its own id.
\<close>

definition token_config_of :: "env \<Rightarrow> token_config" where
  "token_config_of env =
     \<lparr>cf_JWT_KID = JWT_KID env, cf_ACCESS_TOKEN_TTL_SEC = ACCESS_TOKEN_TTL_SEC env,
      cf_JWT_PRIVATE_KEY = JWT_PRIVATE_KEY env, cf_JWT_PUBLIC_KEY = JWT_PUBLIC_KEY env,
      cf_JWT_PREVIOUS_KID = JWT_PREVIOUS_KID env, cf_JWT_PREVIOUS_PUBLIC_KEY = JWT_PREVIOUS_PUBLIC_KEY env\<rparr>"

lemma rotation_keys:
  assumes "validate elib raw = Inr env"
    and "token_service_init lib priv pub now jti fid (token_config_of env) = Inr ts"
  shows "ts_verifyKeys ts (JWT_KID env) = Some (pub (fromB64 (JWT_PUBLIC_KEY env)))"
    and "JWT_PREVIOUS_KID env = Some kid \<Longrightarrow> kid \<noteq> '''' \<Longrightarrow> JWT_PREVIOUS_PUBLIC_KEY env = Some k \<Longrightarrow> k \<noteq> '''' \<Longrightarrow>
      ts_verifyKeys ts kid = Some (pub (fromB64 k))"
  using validated_env_ok [OF assms(1)] assms(2)
  by (auto simp: token_service_init_def token_config_of_def env_ok_def present_def Let_def split: sum.splits if_splits)

text \<open>A multipart upload of a configured service has at least one full part.\<close>

lemma multipart_is_large:
  assumes "validate elib raw = Inr env" "multipartThreshold (storage_service_init client bucket_of env) < n"
  shows "MIN_PART < n"
  using validated_env_ok [OF assms(1)] assms(2)
  by (auto simp: env_ok_def storage_service_init_def Let_def split: prod.splits)

end
