(* ===== verification/Seed.thy ===== *)
theory Seed
  imports JsNum
begin

text \<open>
  The seed script, \<open>src/seed.ts\<close>, over the columns it writes.  Product names and
  people's names are ASCII stand-ins.  The script runs without a transaction: it may
  die after any statement, so it has to cope with whatever a previous run left.
\<close>

subsection \<open>The data\<close>

record seed_user =
  su_id :: nat
  su_email :: string
  su_fullName :: string

record seed_product =
  sp_id :: nat
  sp_sku :: string
  sp_name :: string
  sp_price :: rat
  sp_isActive :: bool

record seed_order_row =
  so_id :: nat
  so_buyer :: nat
  so_email :: string
  so_status :: string
  so_total :: rat
  so_createdAt :: int

record seed_item_row =
  si_order :: nat
  si_product :: nat
  si_quantity :: int
  si_unitPrice :: rat

record seed_order =
  sd_buyerEmail :: string
  sd_status :: string
  sd_daysOffset :: int
  sd_items :: "(string \<times> int) list"

definition USERS :: "(string \<times> string) list" where
  "USERS = [(''anna@example.com'', ''Anna Koval''), (''bogdan@example.com'', ''Bohdan Tkachenko''),
     (''iryna@example.com'', ''Iryna Melnyk''), (''petro@example.com'', ''Petro Bondar''),
     (''olena@example.com'', ''Olena Shevchenko''), (''mykola@example.com'', ''Mykola Ivanov'')]"

definition SEED_PRODUCTS :: "(string \<times> string \<times> rat \<times> bool) list" where
  "SEED_PRODUCTS = [(''SKU-001'', ''Mechanical keyboard'', 1200, True), (''SKU-002'', ''Wireless mouse'', 450, True),
     (''SKU-003'', ''Monitor 27'', 7800, True), (''SKU-004'', ''Laptop 14'', 42000, True),
     (''SKU-005'', ''USB-C hub'', 890, True), (''SKU-006'', ''Headphones'', 1500, False)]"

definition BASE_DATE :: int where "BASE_DATE = 1735689600000"

definition DAY_MS :: int where "DAY_MS = 24 * 60 * 60 * 1000"

definition SEED_ORDERS :: "seed_order list" where
  "SEED_ORDERS = map (\<lambda>(e, s, d, is). \<lparr>sd_buyerEmail = e, sd_status = s, sd_daysOffset = d, sd_items = is\<rparr>)
    [(''anna@example.com'', ''paid'', 0, [(''SKU-001'', 1), (''SKU-002'', 2)]),
     (''bogdan@example.com'', ''pending'', 1, [(''SKU-003'', 1)]),
     (''iryna@example.com'', ''shipped'', 2, [(''SKU-004'', 1), (''SKU-005'', 3)]),
     (''petro@example.com'', ''cancelled'', 3, [(''SKU-006'', 2)]),
     (''olena@example.com'', ''refunded'', 4, [(''SKU-001'', 2)]),
     (''mykola@example.com'', ''paid'', 5, [(''SKU-002'', 1), (''SKU-004'', 1)]),
     (''anna@example.com'', ''shipped'', 6, [(''SKU-005'', 1)]),
     (''bogdan@example.com'', ''pending'', 7, [(''SKU-003'', 2), (''SKU-006'', 1)])]"

record seed_db =
  sx_users :: "seed_user list"
  sx_products :: "seed_product list"
  sx_orders :: "seed_order_row list"
  sx_items :: "seed_item_row list"
  sx_user_seq :: nat
  sx_product_seq :: nat
  sx_order_seq :: nat

subsection \<open>Upsert\<close>

text \<open>
  \<open>INSERT ... ON CONFLICT (key) DO UPDATE\<close>: each row takes a number from the identity
  sequence, whether it is inserted or not.
\<close>

definition upsert_row :: "('r \<Rightarrow> 'k) \<Rightarrow> ('r \<Rightarrow> 'r \<Rightarrow> 'r) \<Rightarrow> 'r \<Rightarrow> 'r list \<Rightarrow> 'r list" where
  "upsert_row key merge r t =
     (if key r \<in> key ` set t then update_where (\<lambda>x. key x = key r) (merge r) t else t @ [r])"

fun upsert :: "('r \<Rightarrow> 'k) \<Rightarrow> ('r \<Rightarrow> 'r \<Rightarrow> 'r) \<Rightarrow> (nat \<Rightarrow> 's \<Rightarrow> 'r) \<Rightarrow> 's list \<Rightarrow> nat \<Rightarrow> 'r list \<Rightarrow> nat \<times> 'r list" where
  "upsert key merge mk [] n t = (n, t)"
| "upsert key merge mk (s # ss) n t = upsert key merge mk ss (n + 1) (upsert_row key merge (mk n s) t)"

definition mk_user :: "nat \<Rightarrow> string \<times> string \<Rightarrow> seed_user" where
  "mk_user n = (\<lambda>(email, name). \<lparr>su_id = n, su_email = email, su_fullName = name\<rparr>)"

definition merge_user :: "seed_user \<Rightarrow> seed_user \<Rightarrow> seed_user" where
  "merge_user new old = old\<lparr>su_fullName := su_fullName new\<rparr>"

definition mk_product :: "nat \<Rightarrow> string \<times> string \<times> rat \<times> bool \<Rightarrow> seed_product" where
  "mk_product n = (\<lambda>(sku, name, price, active). \<lparr>sp_id = n, sp_sku = sku, sp_name = name, sp_price = price, sp_isActive = active\<rparr>)"

definition merge_product :: "seed_product \<Rightarrow> seed_product \<Rightarrow> seed_product" where
  "merge_product new old = old\<lparr>sp_name := sp_name new, sp_price := sp_price new, sp_isActive := sp_isActive new\<rparr>"

subsection \<open>Orders and their lines\<close>

definition seed_created_at :: "seed_order \<Rightarrow> int" where
  "seed_created_at o' = BASE_DATE + sd_daysOffset o' * DAY_MS"

definition same_line :: "nat \<Rightarrow> seed_product \<times> int \<Rightarrow> seed_item_row \<Rightarrow> bool" where
  "same_line i = (\<lambda>(p, q) it. si_order it = i \<and> si_product it = sp_id p \<and> si_quantity it = q \<and> si_unitPrice it = sp_price p)"

text \<open>The items of an order: the number written and the table.\<close>

fun seed_items :: "nat \<Rightarrow> (seed_product \<times> int) list \<Rightarrow> seed_item_row list \<Rightarrow> nat \<times> seed_item_row list" where
  "seed_items i [] t = (0, t)"
| "seed_items i ((p, q) # ls) t =
     (if select_first (same_line i (p, q)) t \<noteq> None then seed_items i ls t
      else (let (n, t') = seed_items i ls (t @ [\<lparr>si_order = i, si_product = sp_id p, si_quantity = q, si_unitPrice = sp_price p\<rparr>])
            in (n + 1, t')))"

definition seed_total :: "(seed_product \<times> int) list \<Rightarrow> rat" where
  "seed_total ls = foldl (\<lambda>sum (p, q). fl (sum + js_mul (sp_price p) (of_int q))) 0 ls"

text \<open>A map from the rows, in which a later row replaces an earlier one.\<close>

definition by_key :: "('r \<Rightarrow> 'k) \<Rightarrow> 'r list \<Rightarrow> 'k \<Rightarrow> 'r option" where
  "by_key key t k = map_of (rev (map (\<lambda>r. (key r, r)) t)) k"

fun seed_lines :: "(string \<Rightarrow> seed_product option) \<Rightarrow> (string \<times> int) list \<Rightarrow> (seed_product \<times> int) list res" where
  "seed_lines products [] = Inr []"
| "seed_lines products ((sku, q) # is) =
     (case products sku of None \<Rightarrow> Inl (Error sku)
      | Some p \<Rightarrow> map_sum id (\<lambda>ls. (p, q) # ls) (seed_lines products is))"

text \<open>One order: how many orders and items were written.\<close>

definition seed_one :: "seed_order \<Rightarrow> seed_db \<Rightarrow> (nat \<times> nat) res \<times> seed_db" where
  "seed_one o' db =
     (case by_key su_email (sx_users db) (sd_buyerEmail o') of
        None \<Rightarrow> (Inl (Error (sd_buyerEmail o')), db)
      | Some buyer \<Rightarrow>
          (case seed_lines (by_key sp_sku (sx_products db)) (sd_items o') of
             Inl e \<Rightarrow> (Inl e, db)
           | Inr ls \<Rightarrow>
               (let found = select_first (\<lambda>r. so_buyer r = su_id buyer \<and> so_createdAt r = seed_created_at o') (sx_orders db);
                    new = \<lparr>so_id = sx_order_seq db, so_buyer = su_id buyer, so_email = su_email buyer,
                           so_status = sd_status o', so_total = seed_total ls, so_createdAt = seed_created_at o'\<rparr>;
                    db1 = (case found of Some _ \<Rightarrow> db
                           | None \<Rightarrow> db\<lparr>sx_orders := sx_orders db @ [new], sx_order_seq := sx_order_seq db + 1\<rparr>);
                    (n, items) = seed_items (so_id (case found of Some r \<Rightarrow> r | None \<Rightarrow> new)) ls (sx_items db1)
                in (Inr (if found = None then 1 else 0, n), db1\<lparr>sx_items := items\<rparr>))))"

fun seed_orders :: "seed_order list \<Rightarrow> seed_db \<Rightarrow> (nat \<times> nat) res \<times> seed_db" where
  "seed_orders [] db = (Inr (0, 0), db)"
| "seed_orders (o' # os) db =
     (case seed_one o' db of
        (Inl e, db1) \<Rightarrow> (Inl e, db1)
      | (Inr (a, b), db1) \<Rightarrow>
          (case seed_orders os db1 of (Inl e, db2) \<Rightarrow> (Inl e, db2) | (Inr (c, d), db2) \<Rightarrow> (Inr (a + c, b + d), db2)))"

definition seed_main :: "seed_db \<Rightarrow> (nat \<times> nat) res \<times> seed_db" where
  "seed_main db =
     (let (un, us) = upsert su_email merge_user mk_user USERS (sx_user_seq db) (sx_users db);
          (pn, ps) = upsert sp_sku merge_product mk_product SEED_PRODUCTS (sx_product_seq db) (sx_products db)
      in seed_orders SEED_ORDERS (db\<lparr>sx_users := us, sx_products := ps, sx_user_seq := un, sx_product_seq := pn\<rparr>))"

subsection \<open>Upserting twice\<close>

text \<open>
  What the two upserts share: the update keeps the key, depends on the data only,
  and changes nothing in a row that holds the data already.
\<close>

locale upsertable =
  fixes key :: "'r \<Rightarrow> 'k" and merge :: "'r \<Rightarrow> 'r \<Rightarrow> 'r" and mk :: "nat \<Rightarrow> 's \<Rightarrow> 'r" and skey :: "'s \<Rightarrow> 'k"
  assumes key_mk: "key (mk n s) = skey s"
    and key_merge: "key (merge r x) = key x"
    and merge_again: "merge (mk m s) (merge (mk n s) x) = merge (mk n s) x"
    and merge_new: "merge (mk m s) (mk n s) = mk n s"
begin

definition settled :: "'r list \<Rightarrow> 's \<Rightarrow> bool" where
  "settled t s \<longleftrightarrow> (\<exists>x \<in> set t. key x = skey s \<and> (\<forall>m. merge (mk m s) x = x))"

lemma map_key_row:
  "map key (upsert_row key merge (mk n s) t) = map key t @ (if skey s \<in> key ` set t then [] else [skey s])"
  by (simp add: upsert_row_def key_mk map_update_where key_merge)

lemma distinct_row: "distinct (map key t) \<Longrightarrow> distinct (map key (upsert_row key merge (mk n s) t))"
  by (simp add: map_key_row)

lemma settled_row: "settled (upsert_row key merge (mk n s) t) s"
proof (cases "skey s \<in> key ` set t")
  case True
  then obtain x where "x \<in> set t" "key x = skey s" by auto
  then have "merge (mk n s) x \<in> set (upsert_row key merge (mk n s) t)"
    using True by (auto simp: upsert_row_def key_mk set_update_where)
  then show ?thesis
    using \<open>key x = skey s\<close> by (auto simp: settled_def key_merge merge_again intro!: bexI [of _ "merge (mk n s) x"])
next
  case False
  then show ?thesis by (auto simp: upsert_row_def settled_def key_mk merge_new)
qed

lemma settled_other:
  assumes "settled t s" "skey s' \<noteq> skey s"
  shows "settled (upsert_row key merge (mk n s') t) s"
  using assms by (force simp: settled_def upsert_row_def key_mk set_update_where)

lemma settled_same:
  assumes "settled t s" "distinct (map key t)"
  shows "upsert_row key merge (mk n s) t = t"
proof -
  from assms(1) obtain x where x: "x \<in> set t" "key x = skey s" "\<And>m. merge (mk m s) x = x"
    by (auto simp: settled_def)
  have "y = x" if "y \<in> set t" "key y = skey s" for y
    using distinct_key_unique [OF assms(2) that(1) x(1)] that(2) x(2) by simp
  then have "map (\<lambda>y. if key y = skey s then merge (mk n s) y else y) t = map id t"
    using x(3) by (intro map_cong) auto
  moreover have "skey s \<in> key ` set t" using x(1,2) by (metis imageI)
  ultimately show ?thesis by (simp add: upsert_row_def key_mk update_where_def)
qed

lemma upsert_distinct: "distinct (map key t) \<Longrightarrow> distinct (map key (snd (upsert key merge mk ss n t)))"
  by (induction ss arbitrary: n t) (auto simp: distinct_row)

lemma upsert_keeps: "settled t s \<Longrightarrow> skey s \<notin> skey ` set ss \<Longrightarrow> settled (snd (upsert key merge mk ss n t)) s"
  by (induction ss arbitrary: n t) (auto simp: settled_other)

lemma upsert_settles:
  "distinct (map skey ss) \<Longrightarrow> s \<in> set ss \<Longrightarrow> settled (snd (upsert key merge mk ss n t)) s"
  by (induction ss arbitrary: n t) (auto simp: settled_row intro: upsert_keeps)

lemma upsert_same: "distinct (map key t) \<Longrightarrow> \<forall>s \<in> set ss. settled t s \<Longrightarrow> snd (upsert key merge mk ss n t) = t"
  by (induction ss arbitrary: n) (auto simp: settled_same)

lemma upsert_twice:
  assumes "distinct (map key t)" "distinct (map skey ss)"
  shows "snd (upsert key merge mk ss m (snd (upsert key merge mk ss n t))) = snd (upsert key merge mk ss n t)"
  using upsert_same [OF upsert_distinct [OF assms(1)]] upsert_settles [OF assms(2)] by blast

lemma settled_key: "settled t s \<Longrightarrow> skey s \<in> key ` set t"
  unfolding settled_def by (metis imageI)

end

interpretation user_upsert: upsertable su_email merge_user mk_user fst
  by unfold_locales (auto simp: merge_user_def mk_user_def split: prod.splits)

interpretation product_upsert: upsertable sp_sku merge_product mk_product fst
  by unfold_locales (auto simp: merge_product_def mk_product_def split: prod.splits)

subsection \<open>Seeding an order twice\<close>

definition order_seeded :: "seed_db \<Rightarrow> seed_order \<Rightarrow> bool" where
  "order_seeded db o' \<longleftrightarrow>
     (\<exists>buyer ls r. by_key su_email (sx_users db) (sd_buyerEmail o') = Some buyer \<and>
        seed_lines (by_key sp_sku (sx_products db)) (sd_items o') = Inr ls \<and>
        select_first (\<lambda>r. so_buyer r = su_id buyer \<and> so_createdAt r = seed_created_at o') (sx_orders db) = Some r \<and>
        (\<forall>l \<in> set ls. select_first (same_line (so_id r) l) (sx_items db) \<noteq> None))"

text \<open>The buyer and the products of an order are known.\<close>

definition order_known :: "seed_db \<Rightarrow> seed_order \<Rightarrow> bool" where
  "order_known db o' \<longleftrightarrow> by_key su_email (sx_users db) (sd_buyerEmail o') \<noteq> None \<and>
     (\<exists>ls. seed_lines (by_key sp_sku (sx_products db)) (sd_items o') = Inr ls)"

text \<open>Later statements only append orders and items.\<close>

definition grown :: "seed_db \<Rightarrow> seed_db \<Rightarrow> bool" where
  "grown db db' \<longleftrightarrow> sx_users db' = sx_users db \<and> sx_products db' = sx_products db \<and>
     (\<exists>os. sx_orders db' = sx_orders db @ os) \<and> (\<exists>is. sx_items db' = sx_items db @ is)"

lemma grown_refl [simp]: "grown db db"
  by (simp add: grown_def)

lemma grown_trans: "grown a b \<Longrightarrow> grown b c \<Longrightarrow> grown a c"
  by (auto simp: grown_def)

lemma grown_known: "grown db db' \<Longrightarrow> order_known db o' \<Longrightarrow> order_known db' o'"
  by (auto simp: grown_def order_known_def)

lemma select_first_grown: "select_first P t \<noteq> None \<Longrightarrow> select_first P (t @ u) = select_first P t"
  by (auto simp: select_first_append)

lemma grown_seeded: "grown db db' \<Longrightarrow> order_seeded db o' \<Longrightarrow> order_seeded db' o'"
  unfolding grown_def order_seeded_def by (elim conjE exE) (auto simp: select_first_append split: option.split)

lemma same_line_new: "same_line i (p, q) \<lparr>si_order = i, si_product = sp_id p, si_quantity = q, si_unitPrice = sp_price p\<rparr>"
  by (simp add: same_line_def)

lemma seed_items_grow:
  "seed_items i ls t = (n, t') \<Longrightarrow>
     n \<le> length ls \<and> (\<exists>u. t' = t @ u) \<and> (\<forall>l \<in> set ls. select_first (same_line i l) t' \<noteq> None)"
proof (induction i ls t arbitrary: n t' rule: seed_items.induct)
  case (2 i p q ls t)
  show ?case
  proof (cases "select_first (same_line i (p, q)) t \<noteq> None")
    case True
    then show ?thesis using 2 select_first_grown [OF True] by fastforce
  next
    case False
    let ?new = "\<lparr>si_order = i, si_product = sp_id p, si_quantity = q, si_unitPrice = sp_price p\<rparr>"
    obtain m u where r: "seed_items i ls (t @ [?new]) = (m, u)" by fastforce
    have "select_first (same_line i (p, q)) (t @ [?new]) \<noteq> None"
      using same_line_new by (auto simp: select_first_append split: option.split)
    then show ?thesis using 2(2) [OF False r] 2(3) False r select_first_grown by fastforce
  qed
qed simp

lemma seed_items_again:
  "\<forall>l \<in> set ls. select_first (same_line i l) t \<noteq> None \<Longrightarrow> seed_items i ls t = (0, t)"
  by (induction i ls t rule: seed_items.induct) auto

lemma length_seed_lines: "seed_lines f is = Inr ls \<Longrightarrow> length ls = length is"
proof (induction f "is" arbitrary: ls rule: seed_lines.induct)
  case (2 f sku q "is")
  then show ?case by (cases "seed_lines f is") (auto split: option.splits)
qed simp

lemma seed_one_grows:
  assumes "order_known db o'"
  shows "\<exists>a b db'. seed_one o' db = (Inr (a, b), db') \<and> a \<le> 1 \<and> b \<le> length (sd_items o') \<and> grown db db' \<and> order_seeded db' o'"
proof -
  obtain buyer ls where k: "by_key su_email (sx_users db) (sd_buyerEmail o') = Some buyer"
    "seed_lines (by_key sp_sku (sx_products db)) (sd_items o') = Inr ls"
    using assms by (auto simp: order_known_def)
  let ?P = "\<lambda>r. so_buyer r = su_id buyer \<and> so_createdAt r = seed_created_at o'"
  define new where "new = \<lparr>so_id = sx_order_seq db, so_buyer = su_id buyer, so_email = su_email buyer,
    so_status = sd_status o', so_total = seed_total ls, so_createdAt = seed_created_at o'\<rparr>"
  define r where "r = (case select_first ?P (sx_orders db) of Some r \<Rightarrow> r | None \<Rightarrow> new)"
  define db1 where "db1 = (case select_first ?P (sx_orders db) of Some _ \<Rightarrow> db
    | None \<Rightarrow> db\<lparr>sx_orders := sx_orders db @ [new], sx_order_seq := sx_order_seq db + 1\<rparr>)"
  obtain n items where it: "seed_items (so_id r) ls (sx_items db1) = (n, items)" by fastforce
  have one: "seed_one o' db = (Inr (if select_first ?P (sx_orders db) = None then 1 else 0, n), db1\<lparr>sx_items := items\<rparr>)"
    using k it by (cases "select_first ?P (sx_orders db)") (simp_all add: seed_one_def r_def db1_def new_def)
  have found: "select_first ?P (sx_orders db1) = Some r"
    by (auto simp: db1_def r_def new_def select_first_append split: option.split)
  have grow: "grown db db1" by (auto simp: db1_def grown_def split: option.split)
  have items: "n \<le> length ls" "\<exists>u. items = sx_items db1 @ u" "\<forall>l \<in> set ls. select_first (same_line (so_id r) l) items \<noteq> None"
    using seed_items_grow [OF it] by auto
  have "grown db1 (db1\<lparr>sx_items := items\<rparr>)" using items(2) by (auto simp: grown_def)
  then have g: "grown db (db1\<lparr>sx_items := items\<rparr>)" by (rule grown_trans [OF grow])
  moreover have "order_seeded (db1\<lparr>sx_items := items\<rparr>) o'"
    using k found items(3) grow by (auto simp: order_seeded_def grown_def)
  ultimately show ?thesis using one items(1) length_seed_lines [OF k(2)] by auto
qed

lemma seed_one_again:
  assumes "order_seeded db o'"
  shows "seed_one o' db = (Inr (0, 0), db)"
  using assms seed_items_again by (fastforce simp: order_seeded_def seed_one_def)

lemma seed_orders_grow:
  "\<forall>o' \<in> set os. order_known db o' \<Longrightarrow>
   \<exists>a b db'. seed_orders os db = (Inr (a, b), db') \<and> a \<le> length os \<and> b \<le> sum_list (map (\<lambda>o'. length (sd_items o')) os) \<and>
     grown db db' \<and> (\<forall>o' \<in> set os. order_seeded db' o')"
proof (induction os arbitrary: db)
  case (Cons o' os)
  obtain a b db1 where one: "seed_one o' db = (Inr (a, b), db1)" "a \<le> 1" "b \<le> length (sd_items o')" "grown db db1" "order_seeded db1 o'"
    using seed_one_grows Cons.prems by (metis list.set_intros(1))
  have "\<forall>x \<in> set os. order_known db1 x" using Cons.prems grown_known [OF one(4)] by simp
  then obtain c d db2 where rest: "seed_orders os db1 = (Inr (c, d), db2)" "c \<le> length os"
      "d \<le> sum_list (map (\<lambda>o'. length (sd_items o')) os)" "grown db1 db2" "\<forall>x \<in> set os. order_seeded db2 x"
    using Cons.IH by blast
  have "b + d \<le> sum_list (map (\<lambda>o'. length (sd_items o')) (o' # os))" using add_mono [OF one(3) rest(3)] by simp
  then show ?case
    using one rest grown_trans [OF one(4) rest(4)] grown_seeded [OF rest(4) one(5)] by simp
qed simp

lemma seed_orders_again: "\<forall>o' \<in> set os. order_seeded db o' \<Longrightarrow> seed_orders os db = (Inr (0, 0), db)"
  by (induction os) (simp_all add: seed_one_again)

subsection \<open>The script\<close>

lemma by_key_known: "k \<in> key ` set t \<Longrightarrow> by_key key t k \<noteq> None"
proof -
  assume "k \<in> key ` set t"
  then have "k \<in> fst ` set (rev (map (\<lambda>r. (key r, r)) t))" by (auto simp: image_image)
  then show ?thesis unfolding by_key_def by (simp add: map_of_eq_None_iff del: rev_map [symmetric])
qed

lemma seed_lines_known: "\<forall>(sku, q) \<in> set is. f sku \<noteq> None \<Longrightarrow> \<exists>ls. seed_lines f is = Inr ls"
  by (induction f "is" rule: seed_lines.induct) fastforce+

definition seed_upserted :: "seed_db \<Rightarrow> seed_db" where
  "seed_upserted db =
     (let (un, us) = upsert su_email merge_user mk_user USERS (sx_user_seq db) (sx_users db);
          (pn, ps) = upsert sp_sku merge_product mk_product SEED_PRODUCTS (sx_product_seq db) (sx_products db)
      in db\<lparr>sx_users := us, sx_products := ps, sx_user_seq := un, sx_product_seq := pn\<rparr>)"

lemma seed_main_alt: "seed_main db = seed_orders SEED_ORDERS (seed_upserted db)"
  by (simp add: seed_main_def seed_upserted_def split: prod.split)

lemma seed_upserted_tables:
  "sx_users (seed_upserted db) = snd (upsert su_email merge_user mk_user USERS (sx_user_seq db) (sx_users db))"
  "sx_products (seed_upserted db) = snd (upsert sp_sku merge_product mk_product SEED_PRODUCTS (sx_product_seq db) (sx_products db))"
  "sx_orders (seed_upserted db) = sx_orders db" "sx_items (seed_upserted db) = sx_items db"
  by (simp_all add: seed_upserted_def split: prod.split)

lemma seed_keys_distinct: "distinct (map fst USERS)" "distinct (map fst SEED_PRODUCTS)"
  by (simp_all add: USERS_def SEED_PRODUCTS_def)

lemma seed_orders_known: "\<forall>o' \<in> set SEED_ORDERS. order_known (seed_upserted db) o'"
proof
  fix o' assume o': "o' \<in> set SEED_ORDERS"
  have u: "fst s \<in> su_email ` set (sx_users (seed_upserted db))" if "s \<in> set USERS" for s
    unfolding seed_upserted_tables
    using user_upsert.settled_key [OF user_upsert.upsert_settles [OF seed_keys_distinct(1) that]] .
  have p: "fst s \<in> sp_sku ` set (sx_products (seed_upserted db))" if "s \<in> set SEED_PRODUCTS" for s
    unfolding seed_upserted_tables
    using product_upsert.settled_key [OF product_upsert.upsert_settles [OF seed_keys_distinct(2) that]] .
  have email: "sd_buyerEmail o' \<in> fst ` set USERS" and skus: "\<forall>x \<in> set (sd_items o'). fst x \<in> fst ` set SEED_PRODUCTS"
    using o' by (auto simp: SEED_ORDERS_def USERS_def SEED_PRODUCTS_def)
  have "fst ` set USERS \<subseteq> su_email ` set (sx_users (seed_upserted db))" by (rule image_subsetI) (rule u)
  then have buyer: "by_key su_email (sx_users (seed_upserted db)) (sd_buyerEmail o') \<noteq> None"
    by (intro by_key_known) (rule subsetD [OF _ email])
  have "fst ` set SEED_PRODUCTS \<subseteq> sp_sku ` set (sx_products (seed_upserted db))" by (rule image_subsetI) (rule p)
  then have "by_key sp_sku (sx_products (seed_upserted db)) (fst x) \<noteq> None" if "x \<in> set (sd_items o')" for x
    by (intro by_key_known) (rule subsetD [OF _ bspec [OF skus that]])
  then have "\<exists>ls. seed_lines (by_key sp_sku (sx_products (seed_upserted db))) (sd_items o') = Inr ls"
    by (intro seed_lines_known) (simp add: case_prod_beta)
  then show "order_known (seed_upserted db) o'" using buyer by (simp add: order_known_def)
qed

lemma seed_upserted_again:
  assumes "distinct (map su_email (sx_users db))" "distinct (map sp_sku (sx_products db))" "grown (seed_upserted db) db1"
  shows "sx_users (seed_upserted db1) = sx_users db1" "sx_products (seed_upserted db1) = sx_products db1"
  using assms(3) user_upsert.upsert_twice [OF assms(1) seed_keys_distinct(1)]
    product_upsert.upsert_twice [OF assms(2) seed_keys_distinct(2)]
  by (simp_all add: grown_def seed_upserted_tables)

text \<open>the seed is idempotent: whatever the tables hold (nothing, other rows, or what
  a seed that died half-way left), a run succeeds, adds at most its 8 orders and 12
  items, and leaves every one of its orders with all its lines; a second run adds
  none and changes no row.\<close>

theorem seed_idempotent:
  assumes "distinct (map su_email (sx_users db))" "distinct (map sp_sku (sx_products db))"
  shows "\<exists>a b db1. seed_main db = (Inr (a, b), db1) \<and> a \<le> 8 \<and> b \<le> 12 \<and> (\<forall>o' \<in> set SEED_ORDERS. order_seeded db1 o') \<and>
    (\<exists>db2. seed_main db1 = (Inr (0, 0), db2) \<and> sx_users db2 = sx_users db1 \<and> sx_products db2 = sx_products db1 \<and>
       sx_orders db2 = sx_orders db1 \<and> sx_items db2 = sx_items db1)"
proof -
  obtain a b db1 where one: "seed_main db = (Inr (a, b), db1)" "a \<le> length SEED_ORDERS"
    "b \<le> sum_list (map (\<lambda>o'. length (sd_items o')) SEED_ORDERS)" "grown (seed_upserted db) db1"
    "\<forall>o' \<in> set SEED_ORDERS. order_seeded db1 o'"
    using seed_orders_grow [OF seed_orders_known] unfolding seed_main_alt by blast
  note same = seed_upserted_again [OF assms one(4)] seed_upserted_tables(3,4) [of db1]
  have "\<forall>o' \<in> set SEED_ORDERS. order_seeded (seed_upserted db1) o'"
    using one(5) by (simp add: order_seeded_def same)
  then have "seed_main db1 = (Inr (0, 0), seed_upserted db1)"
    unfolding seed_main_alt by (rule seed_orders_again)
  moreover have "length SEED_ORDERS = 8" "sum_list (map (\<lambda>o'. length (sd_items o')) SEED_ORDERS) = 12"
    by (simp_all add: SEED_ORDERS_def)
  ultimately show ?thesis using one same by (intro exI [of _ a] exI [of _ b] exI [of _ db1]) auto
qed

theorem seed_idempotent_witness:
  "\<exists>a b db1. seed_main \<lparr>sx_users = [], sx_products = [], sx_orders = [], sx_items = [], sx_user_seq = 1, sx_product_seq = 1,
      sx_order_seq = 1\<rparr> = (Inr (a, b), db1) \<and> a \<le> 8 \<and> b \<le> 12"
  using seed_idempotent [of "\<lparr>sx_users = [], sx_products = [], sx_orders = [], sx_items = [], sx_user_seq = 1, sx_product_seq = 1,
      sx_order_seq = 1\<rparr>"] by auto

end
