(* ===== verification/Topology.thy ===== *)
theory Topology
  imports Pipeline Base64
begin

text \<open>
  The exchanges, queues and bindings of \<open>src/messaging/topology.ts\<close>, and where the
  broker puts a message under them.  The broker's part is AMQP 0-9-1 as RabbitMQ
  documents it: declaring an existing object again succeeds only with the same
  arguments, a topic exchange matches word by word, an exchange that finds no
  queue hands the message to its alternate exchange, and a message that reaches
  no queue at all is returned to a publisher that asked for it.
\<close>

subsection \<open>Declarations\<close>

datatype exchange_type = Fanout | Topic | Direct

record exchange =
  ex_type :: exchange_type
  ex_durable :: bool
  ex_alternate :: "string option"

record queue_decl =
  qu_durable :: bool
  qu_type :: string
  qu_dead_exchange :: "string option"
  qu_dead_key :: "string option"
  qu_delivery_limit :: "nat option"

text \<open>A binding is a queue, an exchange and the binding key.\<close>

record broker =
  br_exchanges :: "(string \<times> exchange) list"
  br_queues :: "(string \<times> queue_decl) list"
  br_bindings :: "(string \<times> string \<times> string) list"

type_synonym declare_step = "broker \<Rightarrow> unit res \<times> broker"

definition EXCHANGE :: string where "EXCHANGE = ''shop.events''"
definition ROUTING_KEY_ORDER_PLACED :: string where "ROUTING_KEY_ORDER_PLACED = ''order.placed''"
definition WORK_QUEUE :: string where "WORK_QUEUE = ''shop.order-placed''"
definition DLX :: string where "DLX = ''shop.dlx''"
definition DLQ :: string where "DLQ = ''shop.order-placed.dlq''"
definition ALT_EXCHANGE :: string where "ALT_EXCHANGE = ''shop.unroutable''"
definition UNROUTABLE_QUEUE :: string where "UNROUTABLE_QUEUE = ''shop.unroutable''"

lemmas names = EXCHANGE_def ROUTING_KEY_ORDER_PLACED_def WORK_QUEUE_def DLX_def DLQ_def ALT_EXCHANGE_def UNROUTABLE_QUEUE_def

definition assertExchange :: "string \<Rightarrow> exchange \<Rightarrow> declare_step" where
  "assertExchange n d b =
     (case map_of (br_exchanges b) n of
        None \<Rightarrow> (Inr (), b\<lparr>br_exchanges := (n, d) # br_exchanges b\<rparr>)
      | Some d' \<Rightarrow> (if d' = d then Inr () else Inl (Error ''PRECONDITION_FAILED''), b))"

definition assertQueue :: "string \<Rightarrow> queue_decl \<Rightarrow> declare_step" where
  "assertQueue n d b =
     (case map_of (br_queues b) n of
        None \<Rightarrow> (Inr (), b\<lparr>br_queues := (n, d) # br_queues b\<rparr>)
      | Some d' \<Rightarrow> (if d' = d then Inr () else Inl (Error ''PRECONDITION_FAILED''), b))"

definition bindQueue :: "string \<Rightarrow> string \<Rightarrow> string \<Rightarrow> declare_step" where
  "bindQueue q e k b =
     (if map_of (br_queues b) q = None \<or> map_of (br_exchanges b) e = None then (Inl (Error ''NOT_FOUND''), b)
      else (Inr (), b\<lparr>br_bindings := List.insert (q, e, k) (br_bindings b)\<rparr>))"

text \<open>The awaits of the code: each declaration runs if the one before it succeeded.\<close>

fun each_step :: "declare_step list \<Rightarrow> declare_step" where
  "each_step [] b = (Inr (), b)"
| "each_step (d # ds) b = (case d b of (Inl e, b') \<Rightarrow> (Inl e, b') | (Inr _, b') \<Rightarrow> each_step ds b')"

definition plain_exchange :: "exchange_type \<Rightarrow> exchange" where
  "plain_exchange t = \<lparr>ex_type = t, ex_durable = True, ex_alternate = None\<rparr>"

definition plain_queue :: queue_decl where
  "plain_queue = \<lparr>qu_durable = True, qu_type = ''quorum'', qu_dead_exchange = None, qu_dead_key = None, qu_delivery_limit = None\<rparr>"

definition topology_steps :: "declare_step list" where
  "topology_steps =
     [assertExchange ALT_EXCHANGE (plain_exchange Fanout),
      assertQueue UNROUTABLE_QUEUE plain_queue,
      bindQueue UNROUTABLE_QUEUE ALT_EXCHANGE [],
      assertExchange EXCHANGE ((plain_exchange Topic)\<lparr>ex_alternate := Some ALT_EXCHANGE\<rparr>),
      assertExchange DLX (plain_exchange Direct),
      assertQueue DLQ plain_queue,
      bindQueue DLQ DLX ROUTING_KEY_ORDER_PLACED,
      assertQueue WORK_QUEUE (plain_queue\<lparr>qu_dead_exchange := Some DLX, qu_dead_key := Some ROUTING_KEY_ORDER_PLACED,
        qu_delivery_limit := Some DELIVERY_LIMIT\<rparr>),
      bindQueue WORK_QUEUE EXCHANGE ROUTING_KEY_ORDER_PLACED]"

definition assertTopology :: declare_step where
  "assertTopology = each_step topology_steps"

subsection \<open>Routing\<close>

fun topic_match :: "string list \<Rightarrow> string list \<Rightarrow> bool" where
  "topic_match [] ks = (ks = [])"
| "topic_match (p # ps) [] = (p = ''#'' \<and> topic_match ps [])"
| "topic_match (p # ps) (k # ks) =
     (if p = ''#'' then topic_match ps (k # ks) \<or> topic_match (p # ps) ks
      else (p = ''*'' \<or> p = k) \<and> topic_match ps ks)"

fun binding_matches :: "exchange_type \<Rightarrow> string \<Rightarrow> string \<Rightarrow> bool" where
  "binding_matches Fanout bk key = True"
| "binding_matches Direct bk key = (bk = key)"
| "binding_matches Topic bk key = topic_match (split_on CHR ''.'' bk) (split_on CHR ''.'' key)"

definition bound_queues :: "broker \<Rightarrow> string \<Rightarrow> exchange_type \<Rightarrow> string \<Rightarrow> string list" where
  "bound_queues b e t key = remdups [q. (q, e', bk) \<leftarrow> br_bindings b, e' = e \<and> binding_matches t bk key]"

text \<open>The alternate exchange of an alternate exchange is followed too, \<open>n\<close> hops at most.\<close>

fun route_to :: "nat \<Rightarrow> broker \<Rightarrow> string \<Rightarrow> string \<Rightarrow> string list" where
  "route_to n b e key =
     (case map_of (br_exchanges b) e of
        None \<Rightarrow> []
      | Some d \<Rightarrow>
          (case (bound_queues b e (ex_type d) key, ex_alternate d, n) of
             ([], Some a, Suc m) \<Rightarrow> route_to m b a key
           | (qs, _, _) \<Rightarrow> qs))"

declare route_to.simps [simp del]

text \<open>Where a message published to the shop's exchange goes, and where one goes that the
  work queue gives up.\<close>

definition publish_queues :: "broker \<Rightarrow> string \<Rightarrow> string list" where
  "publish_queues b key = route_to (length (br_exchanges b)) b EXCHANGE key"

definition dead_queues :: "broker \<Rightarrow> string \<Rightarrow> string \<Rightarrow> string list" where
  "dead_queues b q key =
     (case map_of (br_queues b) q of
        None \<Rightarrow> []
      | Some d \<Rightarrow>
          (case qu_dead_exchange d of
             None \<Rightarrow> []
           | Some e \<Rightarrow> route_to (length (br_exchanges b)) b e (case qu_dead_key d of None \<Rightarrow> key | Some k \<Rightarrow> k)))"

text \<open>What a publication with \<open>mandatory\<close> sees of a broker that confirms it.\<close>

definition broker_wire :: "broker \<Rightarrow> string \<Rightarrow> wire" where
  "broker_wire b key = \<lparr>w_stored = publish_queues b key \<noteq> [], w_returned = publish_queues b key = [], w_error = None\<rparr>"

subsection \<open>Declaring again changes nothing\<close>

text \<open>
  A broker only grows, and a declaration that succeeded succeeds again, without
  any effect, on whatever the broker has grown to.
\<close>

definition extends :: "broker \<Rightarrow> broker \<Rightarrow> bool" where
  "extends b b' \<longleftrightarrow> map_of (br_exchanges b) \<subseteq>\<^sub>m map_of (br_exchanges b') \<and> map_of (br_queues b) \<subseteq>\<^sub>m map_of (br_queues b') \<and>
     set (br_bindings b) \<subseteq> set (br_bindings b')"

definition declares :: "declare_step \<Rightarrow> bool" where
  "declares d \<longleftrightarrow> (\<forall>b b1. d b = (Inr (), b1) \<longrightarrow> extends b b1 \<and> (\<forall>b2. extends b1 b2 \<longrightarrow> d b2 = (Inr (), b2)))"

lemma extends_refl [simp]: "extends b b"
  by (simp add: extends_def)

lemma extends_trans: "extends b b1 \<Longrightarrow> extends b1 b2 \<Longrightarrow> extends b b2"
  unfolding extends_def by (meson map_le_trans subset_trans)

lemma extends_lookup:
  assumes "extends b b'"
  shows "map_of (br_exchanges b) n = Some d \<Longrightarrow> map_of (br_exchanges b') n = Some d"
    "map_of (br_queues b) m = Some q \<Longrightarrow> map_of (br_queues b') m = Some q"
    "x \<in> set (br_bindings b) \<Longrightarrow> x \<in> set (br_bindings b')"
  using assms by (auto simp: extends_def map_le_def dom_def)

lemma declares_exchange [inv_intros]: "declares (assertExchange n d)"
  by (auto simp: declares_def assertExchange_def extends_def map_le_def dom_def split: option.splits if_splits)

lemma declares_queue [inv_intros]: "declares (assertQueue n d)"
  by (auto simp: declares_def assertQueue_def extends_def map_le_def dom_def split: option.splits if_splits)

lemma declares_bind [inv_intros]: "declares (bindQueue q e k)"
proof -
  have "bindQueue q e k b2 = (Inr (), b2)" if "bindQueue q e k b = (Inr (), b1)" "extends b1 b2" for b b1 b2
  proof -
    from that(1) have "map_of (br_queues b1) q \<noteq> None" "map_of (br_exchanges b1) e \<noteq> None" "(q, e, k) \<in> set (br_bindings b1)"
      by (auto simp: bindQueue_def split: if_splits)
    then show ?thesis using extends_lookup [OF that(2)] by (fastforce simp: bindQueue_def)
  qed
  then show ?thesis by (auto simp: declares_def bindQueue_def extends_def split: if_splits)
qed

lemma topology_declares: "\<forall>d \<in> set topology_steps. declares d"
  by (simp add: topology_steps_def declares_exchange declares_queue declares_bind)

lemma each_step_done:
  assumes "\<forall>d \<in> set ds. declares d" "each_step ds b = (Inr (), b')"
  shows "extends b b' \<and> (\<forall>d \<in> set ds. \<forall>b2. extends b' b2 \<longrightarrow> d b2 = (Inr (), b2))"
  using assms
proof (induction ds arbitrary: b)
  case (Cons d ds)
  from Cons.prems(2) obtain b1 where d: "d b = (Inr (), b1)" and ds: "each_step ds b1 = (Inr (), b')"
    by (auto split: prod.splits sum.splits)
  have "declares d" using Cons.prems(1) by simp
  then have "extends b b1 \<and> (\<forall>b2. extends b1 b2 \<longrightarrow> d b2 = (Inr (), b2))"
    using d unfolding declares_def by blast
  moreover have "extends b1 b' \<and> (\<forall>d \<in> set ds. \<forall>b2. extends b' b2 \<longrightarrow> d b2 = (Inr (), b2))"
    using Cons.IH [OF _ ds] Cons.prems(1) by simp
  ultimately show ?case by (auto intro: extends_trans)
qed simp

lemma each_step_again:
  "\<forall>d \<in> set ds. d b = (Inr (), b) \<Longrightarrow> each_step ds b = (Inr (), b)"
  by (induction ds) simp_all

subsection \<open>What a broker with this topology knows\<close>

lemma asserted_exchange: "assertExchange n d b = (Inr (), b) \<Longrightarrow> map_of (br_exchanges b) n = Some d"
  by (cases b) (auto simp: assertExchange_def split: option.splits if_splits)

lemma asserted_queue: "assertQueue n d b = (Inr (), b) \<Longrightarrow> map_of (br_queues b) n = Some d"
  by (cases b) (auto simp: assertQueue_def split: option.splits if_splits)

lemma asserted_binding:
  assumes "bindQueue q e k b = (Inr (), b)" shows "(q, e, k) \<in> set (br_bindings b)"
proof -
  have "br_bindings b = List.insert (q, e, k) (br_bindings b)"
    using assms by (cases b) (auto simp: bindQueue_def split: if_splits)
  then show ?thesis by (metis in_set_insert insert_Nil list.set_intros(1) not_in_set_insert set_insert insertI1)
qed

definition shop_exchange :: exchange where
  "shop_exchange = (plain_exchange Topic)\<lparr>ex_alternate := Some ALT_EXCHANGE\<rparr>"

definition work_queue :: queue_decl where
  "work_queue = plain_queue\<lparr>qu_dead_exchange := Some DLX, qu_dead_key := Some ROUTING_KEY_ORDER_PLACED,
     qu_delivery_limit := Some DELIVERY_LIMIT\<rparr>"

lemma topology_facts:
  assumes "assertTopology b = (Inr (), b')" "extends b' b2"
  shows "map_of (br_exchanges b2) ALT_EXCHANGE = Some (plain_exchange Fanout)"
    "map_of (br_exchanges b2) EXCHANGE = Some shop_exchange"
    "map_of (br_exchanges b2) DLX = Some (plain_exchange Direct)"
    "map_of (br_queues b2) WORK_QUEUE = Some work_queue"
    "(UNROUTABLE_QUEUE, ALT_EXCHANGE, []) \<in> set (br_bindings b2)"
    "(DLQ, DLX, ROUTING_KEY_ORDER_PLACED) \<in> set (br_bindings b2)"
    "(WORK_QUEUE, EXCHANGE, ROUTING_KEY_ORDER_PLACED) \<in> set (br_bindings b2)"
proof -
  have again: "d b2 = (Inr (), b2)" if "d \<in> set topology_steps" for d
    using each_step_done [OF topology_declares, of b b'] assms that by (simp add: assertTopology_def)
  note steps = again [unfolded topology_steps_def, simplified]
  show "map_of (br_exchanges b2) ALT_EXCHANGE = Some (plain_exchange Fanout)"
    "map_of (br_exchanges b2) DLX = Some (plain_exchange Direct)"
    "map_of (br_exchanges b2) EXCHANGE = Some shop_exchange"
    "map_of (br_queues b2) WORK_QUEUE = Some work_queue"
    unfolding shop_exchange_def work_queue_def by (rule asserted_exchange asserted_queue, rule steps, simp)+
  show "(UNROUTABLE_QUEUE, ALT_EXCHANGE, []) \<in> set (br_bindings b2)"
    "(DLQ, DLX, ROUTING_KEY_ORDER_PLACED) \<in> set (br_bindings b2)"
    "(WORK_QUEUE, EXCHANGE, ROUTING_KEY_ORDER_PLACED) \<in> set (br_bindings b2)"
    by (rule asserted_binding, rule steps, simp)+
qed

subsection \<open>Where messages go\<close>

lemma bound_queue:
  assumes "(q, e, bk) \<in> set (br_bindings b)" "binding_matches t bk key"
  shows "q \<in> set (bound_queues b e t key)"
  using assms by (fastforce simp: bound_queues_def)

text \<open>A binding key without wildcards matches itself only.\<close>

lemma topic_match_literal:
  "''#'' \<notin> set ps \<Longrightarrow> ''*'' \<notin> set ps \<Longrightarrow> topic_match ps ks \<longleftrightarrow> ks = ps"
  by (induction ps ks rule: topic_match.induct) auto

lemma split_on_inj: "split_on c s = split_on c t \<longleftrightarrow> s = t"
  by (metis join_split)

lemma order_placed_matches: "binding_matches Topic ROUTING_KEY_ORDER_PLACED key \<longleftrightarrow> key = ROUTING_KEY_ORDER_PLACED"
proof -
  have "split_on CHR ''.'' ROUTING_KEY_ORDER_PLACED = [''order'', ''placed'']"
    by (simp add: ROUTING_KEY_ORDER_PLACED_def)
  then have "topic_match (split_on CHR ''.'' ROUTING_KEY_ORDER_PLACED) ks \<longleftrightarrow> ks = split_on CHR ''.'' ROUTING_KEY_ORDER_PLACED" for ks
    by (subst topic_match_literal) auto
  then show ?thesis by (simp add: split_on_inj)
qed

lemma route_bound:
  assumes "map_of (br_exchanges b) e = Some d" "bound_queues b e (ex_type d) key \<noteq> []"
  shows "route_to n b e key = bound_queues b e (ex_type d) key"
  using assms by (subst route_to.simps) (auto split: list.splits)

lemma route_alternate:
  assumes "map_of (br_exchanges b) e = Some d" "bound_queues b e (ex_type d) key = []" "ex_alternate d = Some a"
  shows "route_to (Suc n) b e key = route_to n b a key"
  using assms by (subst route_to.simps) simp

lemma map_of_nonempty: "map_of xs k = Some v \<Longrightarrow> \<exists>n. length xs = Suc n"
  by (cases xs) auto

lemma topology_stores:
  assumes "assertTopology b = (Inr (), b')" "extends b' b2"
  shows "publish_queues b2 key \<noteq> []"
proof -
  note facts = topology_facts [OF assms]
  obtain n where n: "length (br_exchanges b2) = Suc n" using map_of_nonempty [OF facts(1)] ..
  have "UNROUTABLE_QUEUE \<in> set (bound_queues b2 ALT_EXCHANGE Fanout key)"
    using bound_queue [OF facts(5)] by simp
  then have alt: "route_to m b2 ALT_EXCHANGE key \<noteq> []" for m
    using route_bound [OF facts(1), of key m] by (force simp: plain_exchange_def)
  show ?thesis
  proof (cases "bound_queues b2 EXCHANGE Topic key = []")
    case True
    then have "publish_queues b2 key = route_to n b2 ALT_EXCHANGE key"
      unfolding publish_queues_def n by (intro route_alternate [OF facts(2)]) (simp_all add: shop_exchange_def plain_exchange_def)
    then show ?thesis using alt by simp
  next
    case False
    then show ?thesis
      using route_bound [OF facts(2), of key] by (simp add: publish_queues_def shop_exchange_def plain_exchange_def)
  qed
qed

text \<open>C21: No message can fall through the topology: on a broker where it was declared,
  whatever else was or is declared there, a message published under any routing key
  reaches at least one queue, \<open>order.placed\<close> reaches the work queue, and what the work
  queue gives up reaches the dead-letter queue.  Declaring the topology once more
  changes nothing, so every process may do it at its start.\<close>

theorem topology_routes_everything:
  assumes "assertTopology b = (Inr (), b')" "extends b' b2"
  shows "publish_queues b2 key \<noteq> [] \<and> WORK_QUEUE \<in> set (publish_queues b2 ROUTING_KEY_ORDER_PLACED) \<and>
    DLQ \<in> set (dead_queues b2 WORK_QUEUE key) \<and> assertTopology b2 = (Inr (), b2)"
proof -
  note facts = topology_facts [OF assms]
  have "publish_queues b2 key \<noteq> []" using assms by (rule topology_stores)
  moreover have "WORK_QUEUE \<in> set (bound_queues b2 EXCHANGE Topic ROUTING_KEY_ORDER_PLACED)"
    using bound_queue [OF facts(7)] order_placed_matches by blast
  then have "WORK_QUEUE \<in> set (publish_queues b2 ROUTING_KEY_ORDER_PLACED)"
    using route_bound [OF facts(2), of ROUTING_KEY_ORDER_PLACED]
    by (force simp: publish_queues_def shop_exchange_def plain_exchange_def)
  moreover have "DLQ \<in> set (bound_queues b2 DLX Direct ROUTING_KEY_ORDER_PLACED)"
    using bound_queue [OF facts(6)] by simp
  then have "DLQ \<in> set (dead_queues b2 WORK_QUEUE key)"
    using route_bound [OF facts(3), of ROUTING_KEY_ORDER_PLACED] facts(4)
    by (force simp: dead_queues_def work_queue_def plain_exchange_def)
  moreover have "assertTopology b2 = (Inr (), b2)"
    using each_step_done [OF topology_declares, of b b'] assms unfolding assertTopology_def
    by (intro each_step_again) blast
  ultimately show ?thesis by blast
qed

subsection \<open>A fresh broker\<close>

definition empty_broker :: broker where
  "empty_broker = \<lparr>br_exchanges = [], br_queues = [], br_bindings = []\<rparr>"

definition fresh_broker :: broker where
  "fresh_broker = snd (assertTopology empty_broker)"

lemma fresh_broker_rows:
  "assertTopology empty_broker = (Inr (), fresh_broker)"
  "br_exchanges fresh_broker = [(DLX, plain_exchange Direct), (EXCHANGE, shop_exchange), (ALT_EXCHANGE, plain_exchange Fanout)]"
  "br_queues fresh_broker = [(WORK_QUEUE, work_queue), (DLQ, plain_queue), (UNROUTABLE_QUEUE, plain_queue)]"
  "br_bindings fresh_broker = [(WORK_QUEUE, EXCHANGE, ROUTING_KEY_ORDER_PLACED), (DLQ, DLX, ROUTING_KEY_ORDER_PLACED),
     (UNROUTABLE_QUEUE, ALT_EXCHANGE, [])]"
  by (simp_all add: fresh_broker_def assertTopology_def topology_steps_def empty_broker_def assertExchange_def assertQueue_def
      bindQueue_def shop_exchange_def work_queue_def names)

text \<open>On a fresh broker each message goes to exactly one queue.\<close>

theorem fresh_broker_routes:
  "publish_queues fresh_broker key = [if key = ROUTING_KEY_ORDER_PLACED then WORK_QUEUE else UNROUTABLE_QUEUE] \<and>
   dead_queues fresh_broker WORK_QUEUE key = [DLQ]"
proof -
  have diff: "ALT_EXCHANGE \<noteq> EXCHANGE" "DLX \<noteq> EXCHANGE" "DLX \<noteq> ALT_EXCHANGE" by (simp_all add: names)
  have topic: "bound_queues fresh_broker EXCHANGE Topic key = (if key = ROUTING_KEY_ORDER_PLACED then [WORK_QUEUE] else [])"
    using order_placed_matches [of key] diff by (auto simp: bound_queues_def fresh_broker_rows)
  have fanout: "bound_queues fresh_broker ALT_EXCHANGE Fanout key = [UNROUTABLE_QUEUE]"
    and direct: "bound_queues fresh_broker DLX Direct ROUTING_KEY_ORDER_PLACED = [DLQ]"
    using diff by (simp_all add: bound_queues_def fresh_broker_rows)
  have ex: "map_of (br_exchanges fresh_broker) EXCHANGE = Some shop_exchange"
    "map_of (br_exchanges fresh_broker) ALT_EXCHANGE = Some (plain_exchange Fanout)"
    "map_of (br_exchanges fresh_broker) DLX = Some (plain_exchange Direct)"
    using diff by (simp_all add: fresh_broker_rows)
  have "publish_queues fresh_broker key = [if key = ROUTING_KEY_ORDER_PLACED then WORK_QUEUE else UNROUTABLE_QUEUE]"
    using route_bound [OF ex(1), of key 3] route_alternate [OF ex(1), of key ALT_EXCHANGE 2]
      route_bound [OF ex(2), of key 2] topic fanout
    by (auto simp: publish_queues_def fresh_broker_rows(2) shop_exchange_def plain_exchange_def numeral_3_eq_3 numeral_2_eq_2)
  moreover have "dead_queues fresh_broker WORK_QUEUE key = [DLQ]"
    using route_bound [OF ex(3), of ROUTING_KEY_ORDER_PLACED "length (br_exchanges fresh_broker)"] direct
    by (simp add: dead_queues_def fresh_broker_rows(3) work_queue_def plain_exchange_def)
  ultimately show ?thesis by blast
qed

text \<open>
  So on a broker with this topology a confirmed message is stored, as the relay
  assumes, and no message ever comes back: the publisher's counter of returned
  messages stays as it is, and its check for unroutable ones never fires.
\<close>

theorem nothing_returned:
  assumes "assertTopology b = (Inr (), b')" "extends b' b2"
  shows "confirms_mean_stored (\<lambda>row. broker_wire b2 (key row)) \<and>
    publishRaw throwIfUnroutable (broker_wire b2 k) returned = (Inr (), returned)"
proof -
  have "publish_queues b2 k \<noteq> []" for k using assms by (rule topology_stores)
  then show ?thesis by (auto simp: confirms_mean_stored_def broker_wire_def publishRaw_def)
qed

theorem topology_routes_everything_witness:
  "publish_queues fresh_broker ''order.unknown'' \<noteq> [] \<and> assertTopology fresh_broker = (Inr (), fresh_broker)"
  using topology_routes_everything [OF fresh_broker_rows(1) extends_refl] by blast

end
