(* ===== verification/Reports.thy ===== *)
theory Reports
  imports Checkout "HOL-Library.Multiset"
begin

text \<open>
  The reading side of the data layer: the product card with its rating
  (\<open>src/redis/product-card.ts\<close> over the table of \<open>1789600000000-Reviews.ts\<close>), the
  revenue report (\<open>src/report.ts\<close>), and the query counter with the N+1 measurement
  (\<open>src/query-count-logger.ts\<close>, \<open>src/demo-nplus1.ts\<close>).
\<close>

subsection \<open>Reviews\<close>

record review_row =
  rv_id :: nat
  rv_product :: int
  rv_rating :: int

definition fk_violation :: exn where
  "fk_violation = DbError ''23503''"

text \<open>\<open>n\<close> is the next value of the identity column.\<close>

definition insert_review :: "product_row list \<Rightarrow> nat \<Rightarrow> int \<Rightarrow> int \<Rightarrow> review_row list \<Rightarrow> unit res \<times> review_row list" where
  "insert_review ps n pid rating t =
     (if \<not> (1 \<le> rating \<and> rating \<le> 5) then (Inl check_violation, t)
      else if pid \<notin> p_id ` set ps then (Inl fk_violation, t)
      else (Inr (), t @ [\<lparr>rv_id = n, rv_product = pid, rv_rating = rating\<rparr>]))"

text \<open>Deleting a product deletes its reviews.\<close>

definition delete_product :: "int \<Rightarrow> product_row list \<Rightarrow> review_row list \<Rightarrow> product_row list \<times> review_row list" where
  "delete_product i ps t = (filter (\<lambda>p. p_id p \<noteq> i) ps, filter (\<lambda>r. rv_product r \<noteq> i) t)"

definition reviews_ok :: "product_row list \<Rightarrow> review_row list \<Rightarrow> bool" where
  "reviews_ok ps t \<longleftrightarrow> (\<forall>r \<in> set t. 1 \<le> rv_rating r \<and> rv_rating r \<le> 5 \<and> rv_product r \<in> p_id ` set ps)"

lemma reviews_ok_insert [inv_intros]: "reviews_ok ps t \<Longrightarrow> reviews_ok ps (snd (insert_review ps n pid x t))"
  by (auto simp: reviews_ok_def insert_review_def)

lemma reviews_ok_delete [inv_intros]:
  assumes "reviews_ok ps t" shows "reviews_ok (fst (delete_product i ps t)) (snd (delete_product i ps t))"
  using assms by (fastforce simp: reviews_ok_def delete_product_def)

subsection \<open>The product card\<close>

record product_card =
  cd_id :: string
  cd_sku :: string
  cd_name :: string
  cd_price :: rat
  cd_stock :: int
  cd_rating :: rat
  cd_reviews :: rat

definition bigint_text :: "int \<Rightarrow> string" where
  "bigint_text i = (if i < 0 then CHR ''-'' # show_nat (nat (- i)) else show_nat (nat i))"

definition ratings :: "int \<Rightarrow> review_row list \<Rightarrow> int list" where
  "ratings i t = map rv_rating (filter (\<lambda>r. rv_product r = i) t)"

definition mean :: "int list \<Rightarrow> rat" where
  "mean xs = of_int (sum_list xs) / of_nat (length xs)"

text \<open>\<open>COALESCE(ROUND(AVG(rating), 2), 0)\<close>.  \<open>AVG\<close> keeps 16 digits and more, so rounding the
  exact mean gives the same two places for any number of reviews a table can hold.\<close>

definition rating_column :: "int list \<Rightarrow> rat" where
  "rating_column xs = (if xs = [] then 0 else round2 (mean xs))"

definition loadProductCard :: "checkout_env \<Rightarrow> product_row list \<Rightarrow> review_row list \<Rightarrow> string \<Rightarrow> product_card option res" where
  "loadProductCard env ps t i =
     (case ce_bigint env i of
        None \<Rightarrow> Inl (DbError ''22P02'')
      | Some pid \<Rightarrow> Inr (map_option
          (\<lambda>p. \<lparr>cd_id = bigint_text (p_id p), cd_sku = p_sku p, cd_name = p_name p, cd_price = fl (p_price p),
                cd_stock = p_stock p, cd_rating = fl (rating_column (ratings (p_id p) t)),
                cd_reviews = fl (of_nat (length (ratings (p_id p) t)))\<rparr>)
          (find (\<lambda>p. p_id p = pid) ps)))"

lemma round2_error: "\<bar>round2 x - x\<bar> \<le> 1 / 200"
proof -
  have *: "\<bar>of_int \<lfloor>y * 100 + 1 / 2\<rfloor> / 100 - y\<bar> \<le> 1 / 200" if "0 \<le> y" for y :: rat
    using of_int_floor_le [of "y * 100 + 1 / 2"] floor_correct [of "y * 100 + 1 / 2"] unfolding abs_le_iff by linarith
  show ?thesis
    using * [of "\<bar>x\<bar>"] unfolding abs_le_iff by (cases x "0 :: rat" rule: linorder_cases) (auto simp: round2_def)
qed
lemma sum_list_bounds:
  "(\<And>x. x \<in> set xs \<Longrightarrow> a \<le> x \<and> x \<le> b) \<Longrightarrow> int (length xs) * a \<le> sum_list xs \<and> sum_list xs \<le> int (length xs) * (b :: int)"
proof (induction xs)
  case (Cons y xs)
  then have "a \<le> y \<and> y \<le> b" "int (length xs) * a \<le> sum_list xs \<and> sum_list xs \<le> int (length xs) * b" by simp_all
  then show ?case by (simp add: distrib_right)
qed simp

lemma mean_bounds:
  assumes "xs \<noteq> []" "\<And>x. x \<in> set xs \<Longrightarrow> a \<le> x \<and> x \<le> b"
  shows "of_int a \<le> mean xs" "mean xs \<le> of_int b"
proof -
  have "of_int (int (length xs) * a) \<le> (of_int (sum_list xs) :: rat)" "(of_int (sum_list xs) :: rat) \<le> of_int (int (length xs) * b)"
    using sum_list_bounds [OF assms(2)] by (simp_all only: of_int_le_iff)
  moreover have "0 < (of_nat (length xs) :: rat)" using assms(1) by simp
  ultimately show "of_int a \<le> mean xs" "mean xs \<le> of_int b"
    by (simp_all add: mean_def field_simps)
qed

text \<open>Between whole numbers, rounding to a double does not leave the interval.\<close>

lemma fl_cents_bounds:
  assumes "cents x" "1 \<le> x" "x \<le> 5"
  shows "1 \<le> fl x \<and> fl x \<le> 5"
proof -
  obtain n where n: "x = of_int n / 100" using assms(1) by (auto simp: cents_iff)
  have "\<bar>fl x - x\<bar> * 9007199254740992 \<le> \<bar>x\<bar>"
    using fl_error' [of x] assms(2) pow2_mono [of "- 1022" 0] by (simp add: pow2_def [of 0])
  then have near: "\<bar>fl x - x\<bar> \<le> 1 / 100" using assms(2,3) by simp
  have "100 \<le> n" "n \<le> 500" using assms(2,3) unfolding n by simp_all
  then consider "n = 100" | "n = 500" | "101 \<le> n" "n \<le> 499" by linarith
  then show ?thesis
  proof cases
    case 1
    then show ?thesis using fl_int [of 1] by (simp add: n)
  next
    case 2
    then show ?thesis using fl_int [of 5] by (simp add: n)
  next
    case 3
    then have "101 / 100 \<le> x" "x \<le> 499 / 100" unfolding n by simp_all
    then show ?thesis using near by linarith
  qed
qed

lemma count_exact: "n \<le> 2 ^ 53 \<Longrightarrow> fl (of_nat n) = of_nat n"
  using fl_int [of "int n"] zle_int [of n "2 ^ 53"] by simp

text \<open>C40: A card exists exactly for the id of a product.  It shows that product's stock and
  the number of its reviews; without reviews the rating is 0, otherwise it lies
  between 1 and 5 and is the double of a two-place decimal at most half a
  hundredth away from the mean.\<close>

theorem card_reflects_reviews:
  assumes ok: "reviews_ok ps t" and small: "length t \<le> 2 ^ 53" and pid: "ce_bigint env i = Some pid"
  shows "(loadProductCard env ps t i = Inr None \<longleftrightarrow> pid \<notin> p_id ` set ps) \<and>
    (\<forall>c. loadProductCard env ps t i = Inr (Some c) \<longrightarrow>
      (\<exists>p \<in> set ps. p_id p = pid \<and> cd_sku c = p_sku p \<and> cd_stock c = p_stock p) \<and>
      cd_reviews c = of_nat (length (ratings pid t)) \<and>
      (ratings pid t = [] \<longrightarrow> cd_rating c = 0) \<and>
      (ratings pid t \<noteq> [] \<longrightarrow> 1 \<le> cd_rating c \<and> cd_rating c \<le> 5 \<and>
        (\<exists>d. cents d \<and> cd_rating c = fl d \<and> \<bar>d - mean (ratings pid t)\<bar> \<le> 1 / 200)))"
proof -
  let ?xs = "ratings pid t"
  have "length ?xs \<le> length t" by (simp add: ratings_def)
  then have count: "fl (of_nat (length ?xs)) = of_nat (length ?xs)" using small by (intro count_exact) (rule le_trans)
  have rating: "1 \<le> fl (rating_column ?xs) \<and> fl (rating_column ?xs) \<le> 5" if "?xs \<noteq> []"
  proof -
    have "1 \<le> mean ?xs" "mean ?xs \<le> 5"
      using mean_bounds [OF that, of 1 5] ok by (auto simp: ratings_def reviews_ok_def)
    moreover obtain n where n: "round2 (mean ?xs) = of_int n / 100" using cents_round2 cents_iff by blast
    ultimately have "99 < (of_int n :: rat)" "(of_int n :: rat) < 501"
      using round2_error [of "mean ?xs"] unfolding n abs_le_iff by linarith+
    then have "1 \<le> round2 (mean ?xs) \<and> round2 (mean ?xs) \<le> 5" unfolding n by simp
    then show ?thesis using fl_cents_bounds [of "round2 (mean ?xs)"] that by (simp add: rating_column_def)
  qed
  have near: "\<exists>d. cents d \<and> fl (rating_column ?xs) = fl d \<and> \<bar>d - mean ?xs\<bar> \<le> 1 / 200" if "?xs \<noteq> []"
    using that round2_error [of "mean ?xs"] by (intro exI [of _ "round2 (mean ?xs)"]) (simp add: rating_column_def)
  have found: "p \<in> set ps \<and> p_id p = pid" if "find (\<lambda>p. p_id p = pid) ps = Some p" for p
    using that by (auto simp: find_Some_iff)
  show ?thesis
    using found count rating near
    by (auto simp: loadProductCard_def pid find_None_iff rating_column_def split: option.splits)
qed

subsection \<open>The revenue report\<close>

record revenue_row =
  rr_sku :: string
  rr_name :: string
  rr_units :: int
  rr_revenue :: rat

definition lines_of :: "shop_db \<Rightarrow> int \<Rightarrow> item_row list" where
  "lines_of db i = filter (\<lambda>x. it_product x = i) (s_items db)"

definition revenue_row_of :: "shop_db \<Rightarrow> product_row \<Rightarrow> revenue_row" where
  "revenue_row_of db p = \<lparr>rr_sku = p_sku p, rr_name = p_name p, rr_units = (\<Sum>x\<leftarrow>lines_of db (p_id p). it_quantity x),
     rr_revenue = (\<Sum>x\<leftarrow>lines_of db (p_id p). of_int (it_quantity x) * it_price x)\<rparr>"

text \<open>The inner join leaves a group for each product that has a line.\<close>

definition revenue_query :: "shop_db \<Rightarrow> revenue_row list" where
  "revenue_query db = sort_key (\<lambda>r. - rr_revenue r)
     (map (revenue_row_of db) (filter (\<lambda>p. lines_of db (p_id p) \<noteq> []) (s_products db)))"

text \<open>\<open>Number(text).toFixed(2)\<close> of a non-negative amount, as the number its text denotes.\<close>

definition toFixed2 :: "rat \<Rightarrow> rat" where
  "toFixed2 x = of_int \<lfloor>x * 100 + 1 / 2\<rfloor> / 100"

definition report_main :: "shop_db \<Rightarrow> (string \<times> string \<times> rat \<times> rat) list" where
  "report_main db = map (\<lambda>r. (rr_sku r, rr_name r, fl (of_int (rr_units r)), toFixed2 (fl (rr_revenue r)))) (revenue_query db)"

text \<open>Grouping by a key loses nothing when each row has its key in the list.\<close>

lemma sum_list_pick:
  fixes c :: "'a :: comm_monoid_add"
  assumes "distinct (map key ps)" "k \<in> key ` set ps"
  shows "(\<Sum>p\<leftarrow>ps. if k = key p then c else 0) = c"
  using assms
proof (induction ps)
  case (Cons p ps)
  have "(\<Sum>p\<leftarrow>ps. if k = key p then c else 0) = 0" if "k \<notin> key ` set ps"
    using that by (induction ps) auto
  then show ?case using Cons by auto
qed simp

lemma sum_list_groups:
  fixes f :: "'x \<Rightarrow> 'a :: comm_monoid_add"
  assumes "distinct (map key ps)" "\<And>x. x \<in> set xs \<Longrightarrow> g x \<in> key ` set ps"
  shows "(\<Sum>p\<leftarrow>ps. \<Sum>x\<leftarrow>filter (\<lambda>x. g x = key p) xs. f x) = (\<Sum>x\<leftarrow>xs. f x)"
  using assms(2)
proof (induction xs)
  case (Cons x xs)
  have "(\<Sum>p\<leftarrow>ps. \<Sum>y\<leftarrow>filter (\<lambda>y. g y = key p) (x # xs). f y) =
      (\<Sum>p\<leftarrow>ps. (if g x = key p then f x else 0) + (\<Sum>y\<leftarrow>filter (\<lambda>y. g y = key p) xs. f y))"
    by (intro arg_cong [where f = sum_list] map_cong) auto
  also have "\<dots> = f x + (\<Sum>y\<leftarrow>xs. f y)"
    using Cons sum_list_pick [OF assms(1), of "g x" "f x"] by (simp add: sum_list_addf)
  finally show ?case by simp
qed simp

lemma sum_list_filter_zero:
  "(\<And>x. x \<in> set xs \<Longrightarrow> \<not> P x \<Longrightarrow> f x = (0 :: 'a :: comm_monoid_add)) \<Longrightarrow> (\<Sum>x\<leftarrow>filter P xs. f x) = (\<Sum>x\<leftarrow>xs. f x)"
  by (induction xs) auto

lemma sum_list_insort_key: "(\<Sum>y\<leftarrow>insort_key k x xs. f y) = f x + (\<Sum>y\<leftarrow>xs. f y :: 'a :: comm_monoid_add)"
  by (induction xs) (auto simp: add.left_commute)

lemma sum_list_sort_key: "(\<Sum>x\<leftarrow>sort_key k xs. f x) = (\<Sum>x\<leftarrow>xs. f x :: 'a :: comm_monoid_add)"
  by (induction xs) (auto simp: sum_list_insort_key)

lemma sum_list_filter_if: "(\<Sum>x\<leftarrow>filter P xs. f x) = (\<Sum>x\<leftarrow>xs. if P x then f x else (0 :: 'a :: comm_monoid_add))"
  by (induction xs) auto

lemma sum_list_pos:
  fixes f :: "'x \<Rightarrow> int"
  assumes "xs \<noteq> []" "\<forall>x \<in> set xs. 0 < f x" shows "0 < (\<Sum>x\<leftarrow>xs. f x)"
  using assms
proof (induction xs)
  case (Cons x xs)
  then show ?case by (cases "xs = []") auto
qed simp

text \<open>Every item names a product of the table.\<close>

definition items_ok :: "shop_db \<Rightarrow> bool" where
  "items_ok db \<longleftrightarrow> (\<forall>x \<in> set (s_items db). it_product x \<in> p_id ` set (s_products db) \<and> 0 < it_quantity x \<and>
     0 \<le> it_price x \<and> cents (it_price x))"

lemma items_ok_checkout [inv_intros]:
  assumes ok: "shop_ok db" and it: "items_ok db" shows "items_ok (snd (checkout env c p db))"
proof -
  obtain res db' where co: "checkout env c p db = (res, db')" by fastforce
  show ?thesis
    using ok co
  proof (cases rule: checkout_cases)
    case (sold r u)
    have "p_id ` set (s_products db') = p_id ` set (s_products db)"
      using sold(10) by (simp add: sold_def Let_def map_update_where flip: set_map)
    moreover have "s_items db' = s_items db @ [\<lparr>it_order = order_seq db, it_product = p_id r,
        it_quantity = cp_quantity p, it_price = p_price r\<rparr>]"
      using sold(10) by (simp add: sold_def Let_def)
    ultimately show ?thesis
      using it sold(2,6) shop_okD(6) [OF ok sold(2)] co by (auto simp: items_ok_def)
  next
    case replayed
    then show ?thesis using it co by simp
  next
    case (failed db2)
    then show ?thesis using it co by (simp add: items_ok_def rollback_def)
  qed
qed

lemma shop_run_invs:
  assumes "shop_run env db db'" "shop_ok db" "linked db" "items_ok db"
  shows "shop_ok db' \<and> linked db' \<and> items_ok db'"
  using assms by (induction rule: shop_run.induct) (auto intro: inv_intros)

lemma revenue_of_group: "rr_revenue (revenue_row_of db p) = (\<Sum>x\<leftarrow>lines_of db (p_id p). of_int (it_quantity x) * it_price x)"
  by (simp add: revenue_row_of_def)

lemma report_total:
  assumes "shop_ok db" "items_ok db" "linked db"
  shows "(\<Sum>r\<leftarrow>revenue_query db. rr_revenue r) = (\<Sum>x\<leftarrow>s_orders db. or_total x)"
proof -
  let ?amount = "\<lambda>x. of_int (it_quantity x) * it_price x"
  have "(\<Sum>r\<leftarrow>revenue_query db. rr_revenue r) =
      (\<Sum>p\<leftarrow>filter (\<lambda>p. lines_of db (p_id p) \<noteq> []) (s_products db). rr_revenue (revenue_row_of db p))"
    by (simp add: revenue_query_def sum_list_sort_key comp_def)
  also have "\<dots> = (\<Sum>p\<leftarrow>s_products db. rr_revenue (revenue_row_of db p))"
    by (rule sum_list_filter_zero) (simp add: revenue_of_group)
  also have "\<dots> = (\<Sum>x\<leftarrow>s_items db. ?amount x)"
    using sum_list_groups [of p_id "s_products db" "s_items db" it_product ?amount] assms(1,2)
    by (simp add: revenue_of_group lines_of_def shop_ok_def items_ok_def)
  also have "\<dots> = (\<Sum>x\<leftarrow>s_orders db. or_total x)"
    using assms(3) by (metis (no_types, lifting) linked_def mult.commute map_eq_conv)
  finally show ?thesis .
qed

lemma toFixed2_cents:
  assumes "cents x" "0 \<le> x" "x < 10 ^ 13"
  shows "toFixed2 (fl x) = x"
proof (cases "x = 0")
  case False
  obtain n where n: "x = of_int n / 100" using assms(1) by (auto simp: cents_iff)
  have "pow2 (- 1022) \<le> 1 / 128" using pow2_mono [of "- 1022" "- 7"] by (simp add: pow2_def [of "- 7"])
  moreover have "0 < n" using assms(2) False unfolding n by (simp add: less_le)
  then have x: "1 / 100 \<le> x" unfolding n by simp
  ultimately have "\<bar>fl x - x\<bar> * 9007199254740992 \<le> x" using fl_error' [of x] by linarith
  then have "\<bar>fl x - x\<bar> < 1 / 200" using assms(3) by simp
  then have "x - 1 / 200 < fl x" "fl x < x + 1 / 200" by linarith+
  then have "\<lfloor>fl x * 100 + 1 / 2\<rfloor> = n" unfolding n by (intro floor_unique) simp_all
  then show ?thesis by (simp add: toFixed2_def n)
qed (simp add: toFixed2_def floor_eq_iff)

lemma cents_add: "cents x \<Longrightarrow> cents y \<Longrightarrow> cents (x + y)"
  by (metis cents_iff add_divide_distrib of_int_add)

lemma cents_sum:
  "\<forall>x \<in> set xs. 0 < q x \<and> 0 \<le> p x \<and> cents (p x) \<Longrightarrow>
   cents (\<Sum>x\<leftarrow>xs. of_int (q x) * p x) \<and> 0 \<le> (\<Sum>x\<leftarrow>xs. of_int (q x) * p x)"
proof (induction xs)
  case (Cons x xs)
  then have "cents (of_int (q x) * p x)" using cents_times_int [of "p x" "q x"] by (simp add: mult.commute)
  then show ?case using Cons cents_add by simp
qed (simp add: cents_def)

text \<open>C39: the report agrees with the books.  After any series of checkouts that started
  without orders, its revenues add up to the totals of all orders.  It has exactly one
  row for every product whose stock went down, given away ones included, and none for
  the others, best revenue first: with the pieces that left its stock and the sum of
  its order lines.  The amounts and counts it prints are exact as long as each revenue
  is below 10^13 and each count at most 2^53 (beyond that a double is not exact to
  the cent).\<close>

theorem report_adds_up:
  assumes run: "shop_run env db db'" and ok: "shop_ok db"
    and empty: "s_orders db = []" "s_items db = []" "s_jobs db = []" "s_outbox db = []"
  shows "(\<Sum>r\<leftarrow>revenue_query db'. rr_revenue r) = (\<Sum>x\<leftarrow>s_orders db'. or_total x) \<and>
    sorted (map (\<lambda>r. - rr_revenue r) (revenue_query db')) \<and>
    mset (revenue_query db') =
      mset (map (\<lambda>p. \<lparr>rr_sku = p_sku p, rr_name = p_name p, rr_units = stock_of db (p_id p) - stock_of db' (p_id p),
                      rr_revenue = (\<Sum>x\<leftarrow>filter (\<lambda>x. it_product x = p_id p) (s_items db'). of_int (it_quantity x) * it_price x)\<rparr>)
              (filter (\<lambda>p. stock_of db' (p_id p) < stock_of db (p_id p)) (s_products db'))) \<and>
    ((\<forall>r \<in> set (revenue_query db'). rr_revenue r < 10 ^ 13 \<and> rr_units r \<le> 2 ^ 53) \<longrightarrow>
      report_main db' = map (\<lambda>r. (rr_sku r, rr_name r, of_int (rr_units r), rr_revenue r)) (revenue_query db'))"
proof -
  have "linked db" "items_ok db" using empty by (auto simp: linked_def items_ok_def)
  then have inv: "shop_ok db'" "linked db'" "items_ok db'" using shop_run_invs [OF run ok] by auto
  have sold: "(\<Sum>x\<leftarrow>lines_of db' i. it_quantity x) = sold_of db' i" for i
    unfolding lines_of_def sold_of_def by (rule sum_list_filter_if)
  have kept: "stock_of db' i + sold_of db' i = stock_of db i" for i
    using shop_run_conserves [OF run ok, of i] empty by (simp add: sold_of_def)
  have row: "\<exists>p \<in> set (s_products db'). r = revenue_row_of db' p \<and> lines_of db' (p_id p) \<noteq> []"
    if "r \<in> set (revenue_query db')" for r
    using that by (auto simp: revenue_query_def)
  have line: "0 < it_quantity x \<and> 0 \<le> it_price x \<and> cents (it_price x)" if "x \<in> set (lines_of db' i)" for x i
    using inv(3) that by (auto simp: lines_of_def items_ok_def)
  have units: "rr_sku (revenue_row_of db' p) = p_sku p \<and> 0 < rr_units (revenue_row_of db' p) \<and>
      rr_units (revenue_row_of db' p) = stock_of db (p_id p) - stock_of db' (p_id p)" if "lines_of db' (p_id p) \<noteq> []" for p
    using sum_list_pos [OF that, of it_quantity] line sold kept [of "p_id p"] by (simp add: revenue_row_of_def)
  have money: "cents (rr_revenue (revenue_row_of db' p)) \<and> 0 \<le> rr_revenue (revenue_row_of db' p)" for p
    unfolding revenue_of_group using line by (intro cents_sum) blast
  have printed: "fl (of_int (rr_units r)) = of_int (rr_units r)" "toFixed2 (fl (rr_revenue r)) = rr_revenue r"
    if r: "r \<in> set (revenue_query db')" and "rr_revenue r < 10 ^ 13" "rr_units r \<le> 2 ^ 53" for r
  proof -
    obtain p where p: "r = revenue_row_of db' p" "lines_of db' (p_id p) \<noteq> []" using row [OF r] by auto
    show "fl (of_int (rr_units r)) = of_int (rr_units r)" using units [OF p(2)] that(3) by (intro fl_int) (simp add: p(1))
    show "toFixed2 (fl (rr_revenue r)) = rr_revenue r" using money [of p] that(2) by (intro toFixed2_cents) (simp_all add: p(1))
  qed
  have listed: "lines_of db' i \<noteq> [] \<longleftrightarrow> stock_of db' i < stock_of db i" for i
  proof (cases "lines_of db' i = []")
    case True
    then show ?thesis using sold [of i] kept [of i] by simp
  next
    case False
    then show ?thesis using sum_list_pos [OF False, of it_quantity] line sold kept [of i] by simp
  qed
  have "revenue_row_of db' = (\<lambda>p. \<lparr>rr_sku = p_sku p, rr_name = p_name p, rr_units = stock_of db (p_id p) - stock_of db' (p_id p),
      rr_revenue = (\<Sum>x\<leftarrow>filter (\<lambda>x. it_product x = p_id p) (s_items db'). of_int (it_quantity x) * it_price x)\<rparr>)"
  proof
    fix p show "revenue_row_of db' p = \<lparr>rr_sku = p_sku p, rr_name = p_name p, rr_units = stock_of db (p_id p) - stock_of db' (p_id p),
        rr_revenue = (\<Sum>x\<leftarrow>filter (\<lambda>x. it_product x = p_id p) (s_items db'). of_int (it_quantity x) * it_price x)\<rparr>"
      using sold [of "p_id p"] kept [of "p_id p"] by (simp add: revenue_row_of_def lines_of_def [symmetric])
  qed
  then have "mset (revenue_query db') =
      mset (map (\<lambda>p. \<lparr>rr_sku = p_sku p, rr_name = p_name p, rr_units = stock_of db (p_id p) - stock_of db' (p_id p),
                      rr_revenue = (\<Sum>x\<leftarrow>filter (\<lambda>x. it_product x = p_id p) (s_items db'). of_int (it_quantity x) * it_price x)\<rparr>)
              (filter (\<lambda>p. stock_of db' (p_id p) < stock_of db (p_id p)) (s_products db')))"
    unfolding revenue_query_def mset_sort listed by (simp only:)
  moreover have "sorted (map (\<lambda>r. - rr_revenue r) (revenue_query db'))" by (simp add: revenue_query_def)
  moreover have "(\<forall>r \<in> set (revenue_query db'). rr_revenue r < 10 ^ 13 \<and> rr_units r \<le> 2 ^ 53) \<longrightarrow>
      report_main db' = map (\<lambda>r. (rr_sku r, rr_name r, of_int (rr_units r), rr_revenue r)) (revenue_query db')"
    unfolding report_main_def by (intro impI map_cong) (use printed in simp_all)
  ultimately show ?thesis using report_total [OF inv(1,3,2)] by blast
qed

theorem report_adds_up_witness:
  "report_main bought = [(''SKU'', ''Pen'', 3, 3 / 10)] \<and> (\<Sum>r\<leftarrow>revenue_query bought. rr_revenue r) = 3 / 10"
proof -
  have run: "shop_run example_shop_env (example_shop 1) bought"
    unfolding bought_def by (intro shop_run.intros)
  have rows: "s_products bought = [\<lparr>p_id = 3, p_sku = ''SKU'', p_name = ''Pen'', p_price = 1 / 10, p_stock = 2\<rparr>]"
      "s_items bought = [\<lparr>it_order = 1, it_product = 3, it_quantity = 3, it_price = 1 / 10\<rparr>]"
    by (simp_all add: bought_def run_checkout_simps floor_eq_iff)
  then have "revenue_query bought = [\<lparr>rr_sku = ''SKU'', rr_name = ''Pen'', rr_units = 3, rr_revenue = 3 / 10\<rparr>]"
    by (simp add: revenue_query_def revenue_row_of_def lines_of_def)
  then show ?thesis using report_adds_up [OF run one_ok] by (auto simp: example_shop_def)
qed

theorem card_reflects_reviews_witness:
  "\<exists>c. loadProductCard example_shop_env (s_products (example_shop 1))
     (map (\<lambda>x. \<lparr>rv_id = nat x, rv_product = 3, rv_rating = x\<rparr>) [4, 5, 5]) ''3'' = Inr (Some c) \<and>
     cd_reviews c = 3 \<and> 1 \<le> cd_rating c \<and> cd_rating c \<le> 5"
proof -
  let ?t = "map (\<lambda>x. \<lparr>rv_id = nat x, rv_product = 3, rv_rating = x\<rparr>) [4, 5, 5]"
  have "reviews_ok (s_products (example_shop 1)) ?t" "length ?t \<le> 2 ^ 53" "ce_bigint example_shop_env ''3'' = Some 3"
    by (simp_all add: reviews_ok_def example_shop_def example_shop_env_def)
  moreover have "ratings 3 ?t = [4, 5, 5]" by (simp add: ratings_def)
  moreover obtain c where "loadProductCard example_shop_env (s_products (example_shop 1)) ?t ''3'' = Inr (Some c)"
    by (simp add: loadProductCard_def example_shop_def example_shop_env_def)
  ultimately show ?thesis using card_reflects_reviews [of "s_products (example_shop 1)" ?t example_shop_env "''3''" 3] by auto
qed

subsection \<open>Counting queries\<close>

record query_logger =
  lg_count :: nat
  lg_echo :: bool

text \<open>A message is its type and its text.\<close>

datatype log_message = LogMessage string string

fun writeLog :: "log_message list \<Rightarrow> query_logger \<Rightarrow> query_logger \<times> string list" where
  "writeLog [] g = (g, [])"
| "writeLog (LogMessage ty m # ms) g =
     (if ty = ''query''
      then (let g1 = g\<lparr>lg_count := lg_count g + 1\<rparr>;
                line = (if lg_echo g then [''  SQL#'' @ show_nat (lg_count g1) @ '': '' @ take 120 m] else []);
                (g2, ls) = writeLog ms g1
            in (g2, line @ ls))
      else writeLog ms g)"

definition logger_reset :: "query_logger \<Rightarrow> query_logger" where
  "logger_reset g = g\<lparr>lg_count := 0\<rparr>"

text \<open>A \<open>find\<close> of a repository without relations sends one query, which the driver logs.\<close>

definition orm_find :: "('r \<Rightarrow> bool) \<Rightarrow> 'r list \<Rightarrow> query_logger \<Rightarrow> 'r list \<times> query_logger" where
  "orm_find P t g = (filter P t, fst (writeLog [LogMessage ''query'' ''SELECT''] g))"

fun naive_items :: "shop_db \<Rightarrow> item_row list \<Rightarrow> query_logger \<Rightarrow> query_logger" where
  "naive_items db [] g = g"
| "naive_items db (x # xs) g = naive_items db xs (snd (orm_find (\<lambda>p. p_id p = it_product x) (s_products db) g))"

fun naive_orders :: "shop_db \<Rightarrow> order_row list \<Rightarrow> query_logger \<Rightarrow> query_logger" where
  "naive_orders db [] g = g"
| "naive_orders db (x # xs) g =
     (let (items, g1) = orm_find (\<lambda>y. it_order y = or_id x) (s_items db) g
      in naive_orders db xs (naive_items db items g1))"

definition measureNaive :: "shop_db \<Rightarrow> nat list \<Rightarrow> query_logger \<Rightarrow> query_logger" where
  "measureNaive db orderIds g =
     (let (orders, g1) = orm_find (\<lambda>x. or_id x \<in> set orderIds) (s_orders db) (logger_reset g)
      in naive_orders db orders g1)"

definition unique_violation :: exn where
  "unique_violation = DbError ''23505''"

text \<open>\<open>manager.save\<close> of the demo's order and its line.\<close>

definition save_order :: "account_row \<Rightarrow> product_row \<Rightarrow> shop_db \<Rightarrow> nat \<times> shop_db" where
  "save_order buyer product db =
     (let oid = order_seq db
      in (oid, db\<lparr>order_seq := Suc oid,
            s_orders := s_orders db @ [\<lparr>or_id = oid, or_buyer = a_id buyer, or_email = a_email buyer, or_status = ''paid'', or_total = 10\<rparr>],
            s_items := s_items db @ [\<lparr>it_order = oid, it_product = p_id product, it_quantity = 1, it_price = 10\<rparr>]\<rparr>))"

fun save_orders :: "nat \<Rightarrow> account_row \<Rightarrow> product_row \<Rightarrow> shop_db \<Rightarrow> nat list \<times> shop_db" where
  "save_orders 0 buyer product db = ([], db)"
| "save_orders (Suc n) buyer product db =
     (let (oid, db1) = save_order buyer product db; (ids, db2) = save_orders n buyer product db1 in (oid # ids, db2))"

text \<open>\<open>now\<close> is the text of \<open>Date.now()\<close>; the columns not given have the defaults of the migrations.\<close>

definition makeDataset :: "nat \<Rightarrow> string \<Rightarrow> string \<Rightarrow> shop_db \<Rightarrow> nat list res \<times> shop_db" where
  "makeDataset ordersCount tag now db =
     (let buyer = \<lparr>a_id = int (user_seq db), a_email = ''nplus1-'' @ tag @ ''-'' @ now @ ''@example.com'', a_balance = 1000000\<rparr>;
          product = \<lparr>p_id = int (product_seq db), p_sku = ''NPLUS1-'' @ tag @ ''-'' @ now, p_name = ''Demo product '' @ tag,
                     p_price = 10, p_stock = 0\<rparr>;
          db1 = db\<lparr>user_seq := Suc (user_seq db)\<rparr>
      in if a_email buyer \<in> a_email ` set (s_users db) then (Inl unique_violation, db1)
         else (let db2 = db1\<lparr>s_users := s_users db @ [buyer], product_seq := Suc (product_seq db)\<rparr>
               in if p_sku product \<in> p_sku ` set (s_products db) then (Inl unique_violation, db2)
                  else (let (ids, db3) = save_orders ordersCount buyer product (db2\<lparr>s_products := s_products db @ [product]\<rparr>)
                        in (Inr ids, db3))))"

text \<open>What the naive way costs: a query, one more per order, one more per line.\<close>

lemma lg_count_find: "lg_count (snd (orm_find P t g)) = lg_count g + 1"
  by (simp add: orm_find_def Let_def)

lemma lg_count_items: "lg_count (naive_items db xs g) = lg_count g + length xs"
  by (induction xs arbitrary: g) (auto simp: lg_count_find)

lemma lg_count_orders:
  "lg_count (naive_orders db xs g) =
     lg_count g + (\<Sum>x\<leftarrow>xs. 1 + length (filter (\<lambda>y. it_order y = or_id x) (s_items db)))"
proof (induction xs arbitrary: g)
  case (Cons x xs)
  have "fst (orm_find (\<lambda>y. it_order y = or_id x) (s_items db) g) = filter (\<lambda>y. it_order y = or_id x) (s_items db)"
    by (simp add: orm_find_def)
  then show ?case
    using Cons lg_count_find [of "\<lambda>y. it_order y = or_id x" "s_items db" g]
    by (auto simp: lg_count_items split: prod.splits)
qed simp

lemma save_orders_rows:
  assumes "save_orders n buyer product db = (ids, db')"
  shows "ids = [order_seq db ..< order_seq db + n] \<and>
    s_orders db' = s_orders db @ map (\<lambda>i. \<lparr>or_id = i, or_buyer = a_id buyer, or_email = a_email buyer, or_status = ''paid'', or_total = 10\<rparr>) ids \<and>
    s_items db' = s_items db @ map (\<lambda>i. \<lparr>it_order = i, it_product = p_id product, it_quantity = 1, it_price = 10\<rparr>) ids"
  using assms
proof (induction n arbitrary: db db' ids)
  case (Suc n)
  obtain oid db1 where s: "save_order buyer product db = (oid, db1)" by fastforce
  obtain js db2 where t: "save_orders n buyer product db1 = (js, db2)" by fastforce
  have "ids = oid # js" "db' = db2" using Suc.prems s t by auto
  then show ?case using Suc.IH [OF t] s by (auto simp: save_order_def Let_def upt_conv_Cons)
qed simp

text \<open>Orders of one line each: what the naive loop costs on them, and what making another
  data set does to the rows.\<close>

definition one_line_each :: "shop_db \<Rightarrow> nat list \<Rightarrow> bool" where
  "one_line_each db ids \<longleftrightarrow> length (filter (\<lambda>x. or_id x \<in> set ids) (s_orders db)) = length ids \<and>
     (\<forall>i \<in> set ids. length (filter (\<lambda>y. it_order y = i) (s_items db)) = 1)"

definition rows_ok :: "shop_db \<Rightarrow> bool" where
  "rows_ok db \<longleftrightarrow> (\<forall>x \<in> set (s_orders db). or_id x < order_seq db) \<and> (\<forall>x \<in> set (s_items db). it_order x < order_seq db)"

lemma naive_counted:
  assumes "one_line_each db ids"
  shows "lg_count (measureNaive db ids g) = 1 + 2 * length ids"
proof -
  let ?os = "filter (\<lambda>x. or_id x \<in> set ids) (s_orders db)"
  have "(\<Sum>x\<leftarrow>?os. 1 + length (filter (\<lambda>y. it_order y = or_id x) (s_items db))) = (\<Sum>x\<leftarrow>?os. 2)"
    using assms by (intro arg_cong [where f = sum_list] map_cong) (auto simp: one_line_each_def)
  then show ?thesis
    using assms by (simp add: measureNaive_def logger_reset_def orm_find_def lg_count_orders one_line_each_def Let_def sum_list_triv)
qed

lemma save_orders_seq: "save_orders n buyer product db = (ids, db') \<Longrightarrow> order_seq db' = order_seq db + n"
proof (induction n arbitrary: db db' ids)
  case (Suc n)
  obtain oid db1 where s: "save_order buyer product db = (oid, db1)" by fastforce
  obtain js db2 where t: "save_orders n buyer product db1 = (js, db2)" by fastforce
  show ?case using Suc.IH [OF t] Suc.prems s t by (auto simp: save_order_def Let_def)
qed simp

lemma makeDataset_rows:
  assumes "makeDataset n tag now db = (Inr ids, db')"
  shows "ids = [order_seq db ..< order_seq db + n]" "order_seq db' = order_seq db + n"
    "\<exists>f. s_orders db' = s_orders db @ map f ids \<and> (\<forall>i. or_id (f i) = i)"
    "\<exists>f. s_items db' = s_items db @ map f ids \<and> (\<forall>i. it_order (f i) = i)"
proof -
  obtain buyer product db2 where s: "save_orders n buyer product db2 = (ids, db')"
    and same: "s_orders db2 = s_orders db" "s_items db2 = s_items db" "order_seq db2 = order_seq db"
    using assms by (auto simp: makeDataset_def Let_def split: if_splits prod.splits)
  show "ids = [order_seq db ..< order_seq db + n]" "order_seq db' = order_seq db + n"
    using save_orders_rows [OF s] save_orders_seq [OF s] same by simp_all
  show "\<exists>f. s_orders db' = s_orders db @ map f ids \<and> (\<forall>i. or_id (f i) = i)"
    using save_orders_rows [OF s] same
    by (intro exI [of _ "\<lambda>i. \<lparr>or_id = i, or_buyer = a_id buyer, or_email = a_email buyer, or_status = ''paid'', or_total = 10\<rparr>"]) simp
  show "\<exists>f. s_items db' = s_items db @ map f ids \<and> (\<forall>i. it_order (f i) = i)"
    using save_orders_rows [OF s] same
    by (intro exI [of _ "\<lambda>i. \<lparr>it_order = i, it_product = p_id product, it_quantity = 1, it_price = 10\<rparr>"]) simp
qed

lemma dataset_lines:
  assumes rows: "rows_ok db" and mk: "makeDataset n tag now db = (Inr ids, db')"
  shows "one_line_each db' ids" "length ids = n" "rows_ok db'"
    and "one_line_each db js \<Longrightarrow> \<forall>j \<in> set js. j < order_seq db \<Longrightarrow> one_line_each db' js"
proof -
  note R = makeDataset_rows [OF mk]
  obtain f g where f: "s_orders db' = s_orders db @ map f ids" "\<And>i. or_id (f i) = i"
    and g: "s_items db' = s_items db @ map g ids" "\<And>i. it_order (g i) = i" using R(3,4) by blast
  have ids: "distinct ids" "i \<in> set ids \<Longrightarrow> order_seq db \<le> i \<and> i < order_seq db'" "length ids = n" for i
    using R(1,2) by auto
  have old: "filter (\<lambda>x. or_id x \<in> set ids) (s_orders db) = []" "i \<in> set ids \<Longrightarrow> filter (\<lambda>y. it_order y = i) (s_items db) = []" for i
    using rows ids(2) by (fastforce simp: rows_ok_def filter_empty_conv)+
  have "length (filter (\<lambda>y. it_order y = i) (map g ids)) = 1" if "i \<in> set ids" for i
    using that ids(1) distinct_length_filter [of ids "\<lambda>j. j = i"] by (simp add: filter_map comp_def g(2) Int_commute)
  then show "one_line_each db' ids" using old by (simp add: one_line_each_def f g filter_map comp_def)
  show "length ids = n" by (rule ids(3))
  show "rows_ok db'" using rows ids(2) R(2) by (fastforce simp: rows_ok_def f g)
  assume js: "one_line_each db js" "\<forall>j \<in> set js. j < order_seq db"
  have "filter (\<lambda>x. or_id x \<in> set js) (map f ids) = []" "j \<in> set js \<Longrightarrow> filter (\<lambda>y. it_order y = j) (map g ids) = []" for j
    using js(2) ids(2) by (fastforce simp: filter_empty_conv f g)+
  then show "one_line_each db' js" using js(1) by (simp add: one_line_each_def f g)
qed

lemma shop_rows: "shop_ok db \<Longrightarrow> \<forall>x \<in> set (s_items db). it_order x \<in> or_id ` set (s_orders db) \<Longrightarrow> rows_ok db"
  using shop_okD(8) by (fastforce simp: rows_ok_def)

text \<open>The N+1 problem, measured: on \<open>n\<close> fresh orders of one line each, the naive loop sends
  \<open>1 + 2 * n\<close> queries, whatever else the tables hold.\<close>

theorem naive_grows:
  assumes ok: "shop_ok db" and fk: "\<forall>x \<in> set (s_items db). it_order x \<in> or_id ` set (s_orders db)"
    and mk: "makeDataset n tag now db = (Inr ids, db')"
  shows "length ids = n \<and> lg_count (measureNaive db' ids g) = 1 + 2 * n"
  using dataset_lines [OF shop_rows [OF ok fk] mk] naive_counted by simp

theorem naive_grows_witness:
  "\<exists>ids db'. makeDataset 5 ''small'' ''1'' (example_shop 1) = (Inr ids, db') \<and> lg_count (measureNaive db' ids g) = 11"
proof -
  have "\<exists>ids db'. makeDataset 5 ''small'' ''1'' (example_shop 1) = (Inr ids, db')"
    by (simp add: makeDataset_def Let_def example_shop_def split: prod.splits)
  moreover have "\<forall>x \<in> set (s_items (example_shop 1)). it_order x \<in> or_id ` set (s_orders (example_shop 1))"
    by (simp add: example_shop_def)
  ultimately show ?thesis using naive_grows [OF one_ok, of 5 "''small''" "''1''"] by fastforce
qed

end
