(* ===== verification/Jobs.thy ===== *)
theory Jobs
  imports JsNum
begin

text \<open>
  The job queue of \<open>src/redis/queue.ts\<close>.  BullMQ itself is a parameter: \<open>add\<close> and
  \<open>upsertJobScheduler\<close> of its queue are arguments, and what the program relies on is
  stated as hypotheses taken from its documentation (\<open>bull_add\<close>, \<open>bull_scheduler\<close>,
  \<open>bull_keeps\<close>).
\<close>

subsection \<open>Options\<close>

record backoff_opts =
  bo_type :: string
  bo_delay :: int
  bo_jitter :: rat

text \<open>\<open>removeOnComplete\<close> and \<open>removeOnFail\<close>: never, at once, or after so many seconds.\<close>

datatype removal = Keep | RemoveNow | KeepFor int

record jobs_options =
  jo_attempts :: "nat option"
  jo_backoff :: "backoff_opts option"
  jo_removeOnComplete :: "removal option"
  jo_removeOnFail :: "removal option"
  jo_jobId :: "string option"

definition no_options :: jobs_options where
  "no_options = \<lparr>jo_attempts = None, jo_backoff = None, jo_removeOnComplete = None, jo_removeOnFail = None, jo_jobId = None\<rparr>"

definition DEFAULT_JOB_OPTS :: jobs_options where
  "DEFAULT_JOB_OPTS = \<lparr>jo_attempts = Some 4,
     jo_backoff = Some \<lparr>bo_type = ''exponential'', bo_delay = 200, bo_jitter = 1 / 2\<rparr>,
     jo_removeOnComplete = Some (KeepFor 3600), jo_removeOnFail = Some (KeepFor (24 * 3600)), jo_jobId = None\<rparr>"

definition or_else :: "'a option \<Rightarrow> 'a option \<Rightarrow> 'a option" where
  "or_else x y = (case y of None \<Rightarrow> x | Some _ \<Rightarrow> y)"

text \<open>\<open>{ ...a, ...b }\<close>: the properties \<open>b\<close> has replace those of \<open>a\<close>.\<close>

definition spread :: "jobs_options \<Rightarrow> jobs_options \<Rightarrow> jobs_options" where
  "spread a b = \<lparr>jo_attempts = or_else (jo_attempts a) (jo_attempts b), jo_backoff = or_else (jo_backoff a) (jo_backoff b),
     jo_removeOnComplete = or_else (jo_removeOnComplete a) (jo_removeOnComplete b),
     jo_removeOnFail = or_else (jo_removeOnFail a) (jo_removeOnFail b), jo_jobId = or_else (jo_jobId a) (jo_jobId b)\<rparr>"

subsection \<open>Adding a job\<close>

definition QUEUE_NAME :: string where "QUEUE_NAME = ''marketplace-jobs''"
definition RECALC_RATING :: string where "RECALC_RATING = ''recalc-rating''"

record recalc_data =
  rd_productId :: string
  rd_failTimes :: "nat option"

text \<open>\<open>jb_finished\<close> is the time (in ms) a job completed or failed for good, and whether it completed.\<close>

record bull_job =
  jb_id :: string
  jb_name :: string
  jb_data :: recalc_data
  jb_opts :: jobs_options
  jb_attemptsMade :: nat
  jb_finished :: "(int \<times> bool) option"

type_synonym 'q add_fn = "string \<Rightarrow> recalc_data \<Rightarrow> jobs_options \<Rightarrow> 'q \<Rightarrow> string \<times> 'q"

definition job_id :: "recalc_data \<Rightarrow> string" where
  "job_id d = RECALC_RATING @ ''-'' @ rd_productId d"

definition enqueueRecalcRating :: "'q add_fn \<Rightarrow> recalc_data \<Rightarrow> jobs_options \<Rightarrow> 'q \<Rightarrow> string \<times> 'q" where
  "enqueueRecalcRating add d opts = add RECALC_RATING d (spread (DEFAULT_JOB_OPTS\<lparr>jo_jobId := Some (job_id d)\<rparr>) opts)"

record scheduler_opts =
  so_every :: int
  so_name :: string
  so_removeOnComplete :: removal

definition upsertScheduler :: "(string \<Rightarrow> scheduler_opts \<Rightarrow> 'q \<Rightarrow> 'q) \<Rightarrow> string \<Rightarrow> int \<Rightarrow> string \<Rightarrow> 'q \<Rightarrow> 'q" where
  "upsertScheduler upsert i everyMs name = upsert i \<lparr>so_every = everyMs, so_name = name, so_removeOnComplete = RemoveNow\<rparr>"

subsection \<open>The processor\<close>

record processor_deps =
  pd_recalcRating :: "recalc_data \<Rightarrow> bull_job \<Rightarrow> unit res"
  pd_onTick :: "(bull_job \<Rightarrow> unit res) option"

definition createProcessor :: "processor_deps \<Rightarrow> bull_job \<Rightarrow> unit res" where
  "createProcessor deps job =
     (if jb_name job = RECALC_RATING then pd_recalcRating deps (jb_data job) job
      else if jb_name job = ''tick'' then (case pd_onTick deps of None \<Rightarrow> Inr () | Some f \<Rightarrow> f job)
      else Inl (Error ''unknown job''))"

subsection \<open>What BullMQ documents\<close>

text \<open>
  \<open>add\<close> with a job id: an id the queue still knows changes nothing, an unknown one makes
  a new job; either way the job of that id is returned.
\<close>

definition bull_add :: "'q add_fn \<Rightarrow> ('q \<Rightarrow> string \<Rightarrow> bull_job option) \<Rightarrow> bool" where
  "bull_add add look \<longleftrightarrow> (\<forall>name d opts q i. jo_jobId opts = Some i \<longrightarrow>
     (let (i', q') = add name d opts q
      in i' = i \<and> (if look q i \<noteq> None then q' = q
                   else look q' = (look q)(i \<mapsto> \<lparr>jb_id = i, jb_name = name, jb_data = d, jb_opts = opts,
                          jb_attemptsMade = 0, jb_finished = None\<rparr>))))"

text \<open>
  What the workers and the cleaning do in the meantime: an unfinished job stays; a
  finished one is removed no earlier than its options say; its data, options and end
  are kept as long as it is known.  \<open>t\<close> is the time it happens.
\<close>

definition due :: "removal option \<Rightarrow> int \<Rightarrow> int \<Rightarrow> bool" where
  "due r fin t \<longleftrightarrow> (case r of None \<Rightarrow> False | Some Keep \<Rightarrow> False | Some RemoveNow \<Rightarrow> True | Some (KeepFor s) \<Rightarrow> fin + s * 1000 < t)"

definition bull_keeps :: "('q \<Rightarrow> string \<Rightarrow> bull_job option) \<Rightarrow> int \<Rightarrow> ('q \<Rightarrow> 'q) \<Rightarrow> bool" where
  "bull_keeps look t f \<longleftrightarrow> (\<forall>q i j. look q i = Some j \<longrightarrow>
     (case look (f q) i of
        None \<Rightarrow> (\<exists>fin ok. jb_finished j = Some (fin, ok) \<and>
           due (if ok then jo_removeOnComplete (jb_opts j) else jo_removeOnFail (jb_opts j)) fin t)
      | Some j' \<Rightarrow> jb_id j' = jb_id j \<and> jb_data j' = jb_data j \<and> jb_opts j' = jb_opts j \<and>
           (case jb_finished j of None \<Rightarrow> (\<forall>fin ok. jb_finished j' = Some (fin, ok) \<longrightarrow> fin = t)
            | Some x \<Rightarrow> jb_finished j' = Some x)))"

definition bull_scheduler :: "(string \<Rightarrow> scheduler_opts \<Rightarrow> 'q \<Rightarrow> 'q) \<Rightarrow> ('q \<Rightarrow> string \<Rightarrow> scheduler_opts option) \<Rightarrow> bool" where
  "bull_scheduler upsert schedulers \<longleftrightarrow> (\<forall>i opts q. schedulers (upsert i opts q) = (schedulers q)(i \<mapsto> opts))"

subsection \<open>One job per product\<close>

text \<open>
  A history: calls of \<open>enqueueRecalcRating\<close> (with the options of the caller) and whatever
  BullMQ does in between, each at its time.
\<close>

datatype 'q bull_event = Enqueue recalc_data jobs_options | Progress "'q \<Rightarrow> 'q"

fun bull_run :: "'q add_fn \<Rightarrow> (int \<times> 'q bull_event) list \<Rightarrow> 'q \<Rightarrow> 'q" where
  "bull_run add [] q = q"
| "bull_run add ((t, Enqueue d opts) # es) q = bull_run add es (snd (enqueueRecalcRating add d opts q))"
| "bull_run add ((t, Progress f) # es) q = bull_run add es (f q)"

text \<open>Events of at most an hour from \<open>t0\<close>; the callers give no job id of their own.\<close>

definition within_hour :: "('q \<Rightarrow> string \<Rightarrow> bull_job option) \<Rightarrow> int \<Rightarrow> (int \<times> 'q bull_event) list \<Rightarrow> bool" where
  "within_hour look t0 es \<longleftrightarrow> (\<forall>(t, e) \<in> set es. t0 \<le> t \<and> t \<le> t0 + 3600 * 1000 \<and>
     (case e of Enqueue d opts \<Rightarrow> jo_jobId opts = None | Progress f \<Rightarrow> bull_keeps look t f))"

definition kept_job :: "recalc_data \<Rightarrow> jobs_options \<Rightarrow> int \<Rightarrow> bull_job option \<Rightarrow> bool" where
  "kept_job d opts t0 x \<longleftrightarrow> (\<exists>j. x = Some j \<and> jb_id j = job_id d \<and> jb_data j = d \<and> jb_opts j = opts \<and>
     (\<forall>fin ok. jb_finished j = Some (fin, ok) \<longrightarrow> t0 \<le> fin))"

definition job_opts :: "recalc_data \<Rightarrow> jobs_options \<Rightarrow> jobs_options" where
  "job_opts d opts = spread (DEFAULT_JOB_OPTS\<lparr>jo_jobId := Some (job_id d)\<rparr>) opts"

lemma job_opts_id: "jo_jobId opts = None \<Longrightarrow> jo_jobId (job_opts d opts) = Some (job_id d)"
  by (simp add: job_opts_def spread_def or_else_def)

lemma job_opts_default:
  "jo_removeOnComplete (job_opts d no_options) = Some (KeepFor 3600)"
  "jo_removeOnFail (job_opts d no_options) = Some (KeepFor (24 * 3600))"
  "jo_attempts (job_opts d no_options) = Some 4"
  by (simp_all add: job_opts_def spread_def or_else_def no_options_def DEFAULT_JOB_OPTS_def)

lemma job_id_inj: "job_id d = job_id d' \<longleftrightarrow> rd_productId d = rd_productId d'"
  by (simp add: job_id_def)

lemma bull_addD:
  assumes "bull_add add look" "jo_jobId opts = Some i" "add name d opts q = (i', q')"
  shows "i' = i" "look q i \<noteq> None \<Longrightarrow> q' = q"
    "look q i = None \<Longrightarrow> look q' = (look q)(i \<mapsto> \<lparr>jb_id = i, jb_name = name, jb_data = d, jb_opts = opts,
       jb_attemptsMade = 0, jb_finished = None\<rparr>)"
proof -
  have "case add name d opts q of (i', q') \<Rightarrow> i' = i \<and> (if look q i \<noteq> None then q' = q
      else look q' = (look q)(i \<mapsto> \<lparr>jb_id = i, jb_name = name, jb_data = d, jb_opts = opts, jb_attemptsMade = 0, jb_finished = None\<rparr>))"
    by (rule assms(1) [unfolded bull_add_def Let_def, THEN spec, THEN spec, THEN spec, THEN spec, THEN spec, THEN mp, OF assms(2)])
  then show "i' = i" "look q i \<noteq> None \<Longrightarrow> q' = q"
    "look q i = None \<Longrightarrow> look q' = (look q)(i \<mapsto> \<lparr>jb_id = i, jb_name = name, jb_data = d, jb_opts = opts,
       jb_attemptsMade = 0, jb_finished = None\<rparr>)"
    unfolding assms(3) by simp_all
qed

lemma bull_keepsD:
  assumes "bull_keeps look t f" "look q i = Some j"
  shows "look (f q) i = None \<Longrightarrow> \<exists>fin ok. jb_finished j = Some (fin, ok) \<and>
      due (if ok then jo_removeOnComplete (jb_opts j) else jo_removeOnFail (jb_opts j)) fin t"
    "look (f q) i = Some j' \<Longrightarrow> jb_id j' = jb_id j \<and> jb_data j' = jb_data j \<and> jb_opts j' = jb_opts j \<and>
      (case jb_finished j of None \<Rightarrow> (\<forall>fin ok. jb_finished j' = Some (fin, ok) \<longrightarrow> fin = t)
       | Some x \<Rightarrow> jb_finished j' = Some x)"
  using assms(1) [unfolded bull_keeps_def, rule_format, OF assms(2)] by simp_all

lemma enqueue_known:
  assumes "bull_add add look" "jo_jobId opts = None" "look q (job_id d) \<noteq> None"
  shows "enqueueRecalcRating add d opts q = (job_id d, q)"
proof -
  obtain i' q' where a: "add RECALC_RATING d (job_opts d opts) q = (i', q')" by fastforce
  then show ?thesis
    using bull_addD(1,2) [OF assms(1) job_opts_id [OF assms(2)] a] assms(3) by (simp add: enqueueRecalcRating_def job_opts_def)
qed

lemma enqueue_new:
  assumes "bull_add add look" "jo_jobId opts = None" "look q (job_id d) = None"
    and a: "enqueueRecalcRating add d opts q = (i, q')"
  shows "i = job_id d" "look q' = (look q)(job_id d \<mapsto> \<lparr>jb_id = job_id d, jb_name = RECALC_RATING, jb_data = d,
    jb_opts = job_opts d opts, jb_attemptsMade = 0, jb_finished = None\<rparr>)"
  using bull_addD [OF assms(1) job_opts_id [OF assms(2)] a [unfolded enqueueRecalcRating_def, folded job_opts_def]] assms(3)
  by auto

lemma progress_keeps:
  assumes keeps: "bull_keeps look t f" and time: "t0 \<le> t" "t \<le> t0 + 3600 * 1000"
    and k: "kept_job d (job_opts d no_options) t0 (look q (job_id d))"
  shows "kept_job d (job_opts d no_options) t0 (look (f q) (job_id d))"
proof -
  obtain j where j: "look q (job_id d) = Some j" "jb_id j = job_id d" "jb_data j = d" "jb_opts j = job_opts d no_options"
    and fin: "\<And>fin ok. jb_finished j = Some (fin, ok) \<Longrightarrow> t0 \<le> fin"
    using k unfolding kept_job_def by blast
  have alive: "\<not> due (if ok then jo_removeOnComplete (jb_opts j) else jo_removeOnFail (jb_opts j)) fin' t"
    if "jb_finished j = Some (fin', ok)" for fin' ok
    using fin [OF that] time by (simp add: j(4) job_opts_default due_def)
  show ?thesis
  proof (cases "look (f q) (job_id d)")
    case None
    then show ?thesis using bull_keepsD(1) [OF keeps j(1)] alive by blast
  next
    case (Some j')
    have "t0 \<le> fin'" if "jb_finished j' = Some (fin', ok)" for fin' ok
      using bull_keepsD(2) [OF keeps j(1) Some] that fin time(1) by (cases "jb_finished j") auto
    moreover have "jb_id j' = job_id d \<and> jb_data j' = d \<and> jb_opts j' = job_opts d no_options"
      using bull_keepsD(2) [OF keeps j(1) Some] j by simp
    ultimately show ?thesis unfolding kept_job_def using Some by blast
  qed
qed

lemma others_keep:
  assumes "bull_add add look" "jo_jobId opts = None" "kept_job d o0 t0 (look q (job_id d))"
  shows "kept_job d o0 t0 (look (snd (enqueueRecalcRating add d' opts q)) (job_id d))"
proof (cases "look q (job_id d') = None")
  case True
  then have "job_id d \<noteq> job_id d'" using assms(3) by (auto simp: kept_job_def)
  then show ?thesis
    using enqueue_new(2) [OF assms(1,2) True] assms(3) by (cases "enqueueRecalcRating add d' opts q") simp
next
  case False
  then show ?thesis using enqueue_known [OF assms(1,2)] assms(3) by simp
qed

lemma kept_run:
  assumes "bull_add add look" "within_hour look t0 es" "kept_job d (job_opts d no_options) t0 (look q (job_id d))"
  shows "kept_job d (job_opts d no_options) t0 (look (bull_run add es q) (job_id d))"
  using assms(2,3)
proof (induction es arbitrary: q)
  case (Cons x es)
  obtain t e where x: "x = (t, e)" by fastforce
  have rest: "within_hour look t0 es" and t: "t0 \<le> t" "t \<le> t0 + 3600 * 1000"
    and e: "case e of Enqueue d opts \<Rightarrow> jo_jobId opts = None | Progress f \<Rightarrow> bull_keeps look t f"
    using Cons.prems(1) by (simp_all add: within_hour_def x)
  show ?case
  proof (cases e)
    case (Enqueue d' opts)
    then have "kept_job d (job_opts d no_options) t0 (look (snd (enqueueRecalcRating add d' opts q)) (job_id d))"
      using others_keep [OF assms(1) _ Cons.prems(2)] e by simp
    then show ?thesis using Cons.IH [OF rest] by (simp add: x Enqueue)
  next
    case (Progress f)
    then have "kept_job d (job_opts d no_options) t0 (look (f q) (job_id d))"
      using progress_keeps [of look t f t0 d q] t Cons.prems(2) e by simp
    then show ?thesis using Cons.IH [OF rest] by (simp add: x Progress)
  qed
qed simp

text \<open>A product's rating is queued once: after a first call for a product the queue does
  not know, any calls (for this product or others) and any progress of the workers
  within the hour leave exactly that job, with the data of the first call; a further
  call for the product returns its id and changes nothing, whether the job still
  waits, runs or is finished.  Jobs of different products never share an id.
  Assumes what BullMQ documents of \<open>add\<close> with a job id and of the removal of
  finished jobs.\<close>

theorem one_job_per_product:
  assumes bull: "bull_add add look" and new: "look q (job_id d) = None"
    and call: "enqueueRecalcRating add d no_options q = (i, q1)" and hour: "within_hour look t0 es"
  shows "(\<exists>j. look (bull_run add es q1) i = Some j \<and> jb_data j = d \<and> jo_attempts (jb_opts j) = Some 4) \<and>
    (\<forall>d' opts. jo_jobId opts = None \<longrightarrow>
       (if rd_productId d' = rd_productId d
        then enqueueRecalcRating add d' opts (bull_run add es q1) = (i, bull_run add es q1)
        else fst (enqueueRecalcRating add d' opts (bull_run add es q1)) \<noteq> i))"
proof -
  let ?q = "bull_run add es q1"
  have none: "jo_jobId no_options = None" by (simp add: no_options_def)
  note first = enqueue_new [OF bull none new call]
  have "kept_job d (job_opts d no_options) t0 (look q1 (job_id d))" by (simp add: kept_job_def first(2))
  from kept_run [OF bull hour this] obtain j where j: "look ?q i = Some j" "jb_data j = d" "jb_opts j = job_opts d no_options"
    unfolding kept_job_def first(1) by blast
  have again: "enqueueRecalcRating add d' opts ?q = (i, ?q)" if "jo_jobId opts = None" "rd_productId d' = rd_productId d" for d' opts
    using enqueue_known [OF bull that(1), of ?q d'] j(1) that(2) job_id_inj [of d' d] first(1) by simp
  have other: "fst (enqueueRecalcRating add d' opts ?q) = job_id d'" if "jo_jobId opts = None" for d' opts
  proof (cases "look ?q (job_id d') = None")
    case True
    then show ?thesis using enqueue_new(1) [OF bull that True] by (cases "enqueueRecalcRating add d' opts ?q") simp
  next
    case False
    then show ?thesis using enqueue_known [OF bull that] by simp
  qed
  show ?thesis using j again other job_id_inj [of _ d] by (auto simp: job_opts_default first(1))
qed

subsection \<open>Retries\<close>

text \<open>
  BullMQ runs a job until the processor does not fail or the attempts are used up, and
  tells it how many attempts it has made.  The result is the number of runs and
  whether the job completed.
\<close>

fun bull_work :: "nat \<Rightarrow> (bull_job \<Rightarrow> unit res) \<Rightarrow> bull_job \<Rightarrow> nat \<times> bool" where
  "bull_work 0 p job = (0, False)"
| "bull_work (Suc n) p job =
     (case p job of
        Inr _ \<Rightarrow> (1, True)
      | Inl _ \<Rightarrow> (let (k, ok) = bull_work n p (job\<lparr>jb_attemptsMade := jb_attemptsMade job + 1\<rparr>) in (Suc k, ok)))"

text \<open>The neighbour service of \<open>demo-queue.ts\<close>, down for the first \<open>failTimes\<close> runs.\<close>

definition demo_recalc :: "recalc_data \<Rightarrow> bull_job \<Rightarrow> unit res" where
  "demo_recalc d job =
     (if jb_attemptsMade job < (case rd_failTimes d of None \<Rightarrow> 0 | Some n \<Rightarrow> n) then Inl (Error ''down'') else Inr ())"

lemma bull_work_demo:
  assumes "jb_name job = RECALC_RATING" "rd_failTimes (jb_data job) = Some k"
  shows "bull_work n (createProcessor \<lparr>pd_recalcRating = demo_recalc, pd_onTick = t\<rparr>) job =
    (min n (k - jb_attemptsMade job + 1), k - jb_attemptsMade job < n)"
  using assms
proof (induction n arbitrary: job)
  case (Suc n)
  show ?case
  proof (cases "jb_attemptsMade job < k")
    case True
    then have "k - jb_attemptsMade job = Suc (k - Suc (jb_attemptsMade job))" by simp
    then show ?thesis using Suc True by (simp add: createProcessor_def demo_recalc_def)
  qed (use Suc.prems in \<open>simp add: createProcessor_def demo_recalc_def\<close>)
qed simp

text \<open>With the default options a job survives three failures, and no more.\<close>

theorem default_attempts:
  assumes "jb_name job = RECALC_RATING" "rd_failTimes (jb_data job) = Some k" "jb_attemptsMade job = 0"
    and "jo_attempts (jb_opts job) = jo_attempts (job_opts d no_options)"
  shows "bull_work (the (jo_attempts (jb_opts job))) (createProcessor \<lparr>pd_recalcRating = demo_recalc, pd_onTick = t\<rparr>) job =
    (min 4 (k + 1), k \<le> 3)"
  using bull_work_demo [OF assms(1,2), of 4 t] assms(3,4) by (auto simp: job_opts_default)

subsection \<open>The scheduler\<close>

text \<open>Every start of the program may set the scheduler up again.\<close>

theorem scheduler_once:
  assumes "bull_scheduler upsert schedulers"
  shows "schedulers (upsertScheduler upsert i ms name (upsertScheduler upsert i ms name q)) =
      schedulers (upsertScheduler upsert i ms name q) \<and>
    dom (schedulers (upsertScheduler upsert i ms name q)) = insert i (dom (schedulers q))"
  using assms by (simp add: bull_scheduler_def upsertScheduler_def)

theorem unknown_job_fails:
  "jb_name job \<noteq> RECALC_RATING \<Longrightarrow> jb_name job \<noteq> ''tick'' \<Longrightarrow> createProcessor deps job = Inl (Error ''unknown job'')"
  by (simp add: createProcessor_def)

subsection \<open>Instance\<close>

text \<open>A queue that is a map from ids to jobs behaves as documented.\<close>

definition assoc_add :: "(string \<Rightarrow> bull_job option) add_fn" where
  "assoc_add name d opts q =
     (let i = (case jo_jobId opts of None \<Rightarrow> ''0'' | Some i \<Rightarrow> i)
      in (i, if q i \<noteq> None then q
             else q(i \<mapsto> \<lparr>jb_id = i, jb_name = name, jb_data = d, jb_opts = opts, jb_attemptsMade = 0, jb_finished = None\<rparr>)))"

lemma assoc_add_bull: "bull_add assoc_add (\<lambda>q. q)"
  by (simp add: bull_add_def assoc_add_def Let_def)

definition finish_at :: "int \<Rightarrow> string \<Rightarrow> (string \<Rightarrow> bull_job option) \<Rightarrow> string \<Rightarrow> bull_job option" where
  "finish_at t i q = (case q i of None \<Rightarrow> q
     | Some j \<Rightarrow> if jb_finished j = None then q(i \<mapsto> j\<lparr>jb_finished := Some (t, True)\<rparr>) else q)"

lemma finish_at_keeps: "bull_keeps (\<lambda>q. q) t (finish_at t i)"
  by (auto simp: bull_keeps_def finish_at_def split: option.splits)

theorem one_job_per_product_witness:
  "let d = \<lparr>rd_productId = ''42'', rd_failTimes = Some 2\<rparr>; (i, q1) = enqueueRecalcRating assoc_add d no_options (\<lambda>_. None);
       q2 = bull_run assoc_add [(0, Enqueue d no_options), (60, Progress (finish_at 60 i))] q1
   in enqueueRecalcRating assoc_add \<lparr>rd_productId = ''42'', rd_failTimes = None\<rparr> no_options q2 = (i, q2)"
proof -
  let ?d = "\<lparr>rd_productId = ''42'', rd_failTimes = Some 2\<rparr>"
  obtain i q1 where e: "enqueueRecalcRating assoc_add ?d no_options (\<lambda>_. None) = (i, q1)" by fastforce
  let ?es = "[(0, Enqueue ?d no_options), (60, Progress (finish_at 60 i))]"
  have none: "jo_jobId no_options = None" by (simp add: no_options_def)
  have hour: "within_hour (\<lambda>q. q) 0 ?es"
    using finish_at_keeps [of 60 i] none by (simp add: within_hour_def)
  have "enqueueRecalcRating assoc_add \<lparr>rd_productId = ''42'', rd_failTimes = None\<rparr> no_options (bull_run assoc_add ?es q1) =
      (i, bull_run assoc_add ?es q1)"
    using one_job_per_product [OF assoc_add_bull _ e hour] none by (simp del: bull_run.simps)
  then show ?thesis unfolding Let_def e prod.case .
qed

end
