(* ===== verification/Retry.thy ===== *)
theory Retry
  imports JobQueue
begin

text \<open>
  The read-modify-write of \<open>src/demo-retry.ts\<close> by many clients at once, each inside
  \<open>withRetry\<close> of \<open>src/concurrency/lib.ts\<close>, under \<open>REPEATABLE READ\<close>: the first statement
  of a transaction takes the snapshot, and an update of a row that another
  transaction has changed since then fails with 40001 (while that transaction is
  still open, the update waits for its end).  A transaction is one move that reads
  and one that updates and commits, or fails; between the two others may move.
\<close>

subsection \<open>One client\<close>

text \<open>\<open>Thinking\<close> carries the attempt, the balance seen and the version of the row in the snapshot.\<close>

datatype client = Waiting nat | Thinking nat rat nat | Committed | Failed exn

definition store_balance :: "rat \<Rightarrow> rat res" where
  "store_balance next =
     (case numeric122 (js_decimal next) of Inl e \<Rightarrow> Inl e | Inr b \<Rightarrow> if b < 0 then Inl check_violation else Inr b)"

definition adjust_write :: "int \<Rightarrow> rat \<Rightarrow> nat \<Rightarrow> nat \<Rightarrow> rat res" where
  "adjust_write delta seen snapshot version =
     (if snapshot \<noteq> version then Inl (DbError ''40001'') else store_balance (fl (seen + of_int delta)))"

text \<open>A move of a client on the balance and the version of its row.\<close>

fun client_move :: "nat \<Rightarrow> int \<Rightarrow> client \<Rightarrow> rat \<times> nat \<Rightarrow> client \<times> rat \<times> nat" where
  "client_move maxAttempts delta (Waiting attempt) (b, v) = (Thinking attempt (fl b) v, b, v)"
| "client_move maxAttempts delta (Thinking attempt seen snapshot) (b, v) =
     (case adjust_write delta seen snapshot v of
        Inr b' \<Rightarrow> (Committed, b', Suc v)
      | Inl e \<Rightarrow> (if retryable e \<and> attempt < maxAttempts then Waiting (Suc attempt) else Failed e, b, v))"
| "client_move maxAttempts delta c (b, v) = (c, b, v)"

fun active :: "client \<Rightarrow> bool" where
  "active (Waiting _) = True"
| "active (Thinking _ _ _) = True"
| "active _ = False"

text \<open>A withdrawal of 30 from 10 is refused by the column and not tried again.\<close>

lemma overdraft_fails: "client_move 8 (- 30) (Thinking 1 10 0) (10, 0) = (Failed check_violation, 10, 0)"
  by code_simp

subsection \<open>All of them\<close>

record adjust_state =
  ad_balance :: rat
  ad_version :: nat
  ad_clients :: "client list"

definition adjust_move :: "nat \<Rightarrow> int list \<Rightarrow> nat \<Rightarrow> adjust_state \<Rightarrow> adjust_state" where
  "adjust_move m ds i s =
     (case client_move m (ds ! i) (ad_clients s ! i) (ad_balance s, ad_version s) of
        (c, b, v) \<Rightarrow> \<lparr>ad_balance = b, ad_version = v, ad_clients = (ad_clients s)[i := c]\<rparr>)"

definition adjust_start :: "rat \<Rightarrow> int list \<Rightarrow> adjust_state" where
  "adjust_start b ds = \<lparr>ad_balance = b, ad_version = 0, ad_clients = replicate (length ds) (Waiting 1)\<rparr>"

text \<open>\<open>k\<close> moves, in any order.\<close>

inductive adjust_steps :: "nat \<Rightarrow> int list \<Rightarrow> adjust_state \<Rightarrow> nat \<Rightarrow> adjust_state \<Rightarrow> bool" for m ds s where
  adjust_none: "adjust_steps m ds s 0 s"
| adjust_next: "adjust_steps m ds s k s1 \<Longrightarrow> i < length (ad_clients s1) \<Longrightarrow> active (ad_clients s1 ! i) \<Longrightarrow>
    adjust_steps m ds s (Suc k) (adjust_move m ds i s1)"

subsection \<open>What has been committed\<close>

definition committed :: "(nat \<Rightarrow> int) \<Rightarrow> client list \<Rightarrow> int" where
  "committed w cs = (\<Sum>i<length cs. if cs ! i = Committed then w i else 0)"

lemma committed_update:
  assumes "i < length cs" "cs ! i \<noteq> Committed"
  shows "committed w (cs[i := c]) = committed w cs + (if c = Committed then w i else 0)"
proof -
  have split: "(\<Sum>j<length cs. f j) = f i + (\<Sum>j \<in> {..<length cs} - {i}. f j)" for f :: "nat \<Rightarrow> int"
    using assms(1) by (intro sum.remove) auto
  have "(\<Sum>j \<in> {..<length cs} - {i}. if cs[i := c] ! j = Committed then w j else 0) =
      (\<Sum>j \<in> {..<length cs} - {i}. if cs ! j = Committed then w j else 0)"
    by (intro sum.cong) auto
  then show ?thesis using assms by (simp add: committed_def split)
qed

lemma committed_bound: "\<bar>committed w cs\<bar> \<le> (\<Sum>i<length cs. \<bar>w i\<bar>)"
  unfolding committed_def by (rule order_trans [OF sum_abs]) (intro sum_mono, simp)

lemma committed_all: "\<forall>i < length cs. cs ! i = Committed \<Longrightarrow> committed w cs = (\<Sum>i<length cs. w i)"
  by (simp add: committed_def)

lemma committed_le: "committed (\<lambda>_. 1) cs \<le> int (length cs)"
  unfolding committed_def by (rule order_trans [OF sum_mono [where g = "\<lambda>_. 1"]]) simp_all

subsection \<open>The invariant\<close>

fun client_ok :: "rat \<Rightarrow> nat \<Rightarrow> client \<Rightarrow> bool" where
  "client_ok b v (Waiting a) = (a \<le> Suc v)"
| "client_ok b v (Thinking a seen snapshot) = (a \<le> Suc snapshot \<and> snapshot \<le> v \<and> (snapshot = v \<longrightarrow> seen = b))"
| "client_ok b v Committed = True"
| "client_ok b v (Failed e) = False"

definition adjust_ok :: "int \<Rightarrow> int list \<Rightarrow> adjust_state \<Rightarrow> bool" where
  "adjust_ok b0 ds s \<longleftrightarrow> length (ad_clients s) = length ds \<and>
     ad_balance s = of_int (b0 + committed ((!) ds) (ad_clients s)) \<and>
     int (ad_version s) = committed (\<lambda>_. 1) (ad_clients s) \<and>
     (\<forall>c \<in> set (ad_clients s). client_ok (ad_balance s) (ad_version s) c)"

text \<open>The balance never leaves the range in which whole numbers are exact everywhere.\<close>

definition in_range :: "int \<Rightarrow> int list \<Rightarrow> bool" where
  "in_range b0 ds \<longleftrightarrow> (\<Sum>i<length ds. \<bar>ds ! i\<bar>) \<le> b0 \<and> b0 + (\<Sum>i<length ds. \<bar>ds ! i\<bar>) < 10 ^ 10"

lemma store_whole:
  assumes "0 \<le> n" "n < 10 ^ 10"
  shows "store_balance (fl (of_int n)) = Inr (of_int n)"
proof -
  have "cents (of_int n)" unfolding cents_iff by (intro exI [of _ "n * 100"]) simp
  then have "round2 (js_decimal (fl (of_int n))) = of_int n" using assms by (intro text_rounds) simp_all
  then show ?thesis using assms by (simp add: store_balance_def numeric122_def)
qed

lemma client_ok_later:
  "client_ok b v c \<Longrightarrow> v < v' \<Longrightarrow> client_ok b' v' c"
  by (cases c) auto

lemma adjust_okD:
  assumes "adjust_ok b0 ds s"
  shows "length (ad_clients s) = length ds" "ad_balance s = of_int (b0 + committed ((!) ds) (ad_clients s))"
    "int (ad_version s) = committed (\<lambda>_. 1) (ad_clients s)"
    "c \<in> set (ad_clients s) \<Longrightarrow> client_ok (ad_balance s) (ad_version s) c"
  using assms unfolding adjust_ok_def by blast+

lemma adjust_ok_start: "adjust_ok b0 ds (adjust_start (of_int b0) ds)"
  by (simp add: adjust_ok_def adjust_start_def committed_def)

lemma adjust_ok_move:
  assumes ok: "adjust_ok b0 ds s" and i: "i < length (ad_clients s)" "active (ad_clients s ! i)"
    and range: "in_range b0 ds" and m: "length ds \<le> m"
  shows "adjust_ok b0 ds (adjust_move m ds i s)"
proof -
  let ?cs = "ad_clients s" and ?b = "ad_balance s" and ?v = "ad_version s"
  have len: "length ?cs = length ds" and b: "?b = of_int (b0 + committed ((!) ds) ?cs)"
    and v: "int ?v = committed (\<lambda>_. 1) ?cs" and cl: "\<forall>c \<in> set ?cs. client_ok ?b ?v c"
    using adjust_okD [OF ok] by auto
  have open_i: "?cs ! i \<noteq> Committed" using i(2) by (cases "?cs ! i") auto
  note upd = committed_update [OF i(1) open_i]
  have room: "Suc ?v \<le> length ds"
    using committed_le [of "?cs[i := Committed]"] upd [of "\<lambda>_. 1" Committed] v len by simp
  have keep: "adjust_ok b0 ds \<lparr>ad_balance = ?b, ad_version = ?v, ad_clients = ?cs[i := c]\<rparr>"
    if "c \<noteq> Committed" "client_ok ?b ?v c" for c
    using that len b v cl upd by (auto simp: adjust_ok_def dest: set_update_subset_insert [THEN subsetD])
  have fin: "\<bar>committed ((!) ds) (?cs[i := Committed])\<bar> \<le> (\<Sum>j<length ds. \<bar>ds ! j\<bar>)"
    using committed_bound [of "(!) ds" "?cs[i := Committed]"] len by simp
  have old: "\<bar>committed ((!) ds) ?cs\<bar> \<le> (\<Sum>j<length ds. \<bar>ds ! j\<bar>)"
    using committed_bound [of "(!) ds" ?cs] len by simp
  have okc: "client_ok ?b ?v (?cs ! i)" using cl i(1) by simp
  show ?thesis
  proof (cases "?cs ! i")
    case (Waiting a)
    have "\<bar>b0 + committed ((!) ds) ?cs\<bar> < 10 ^ 10" using old range unfolding in_range_def by linarith
    then have "fl ?b = ?b" unfolding b by (intro fl_int) simp
    then show ?thesis using keep [of "Thinking a ?b ?v"] okc Waiting by (simp add: adjust_move_def)
  next
    case (Thinking a seen sn)
    show ?thesis
    proof (cases "sn = ?v")
      case True
      let ?n = "b0 + committed ((!) ds) (?cs[i := Committed])"
      have "seen + of_int (ds ! i) = of_int ?n" using okc Thinking True b upd [of "(!) ds" Committed] by simp
      moreover have "0 \<le> ?n" "?n < 10 ^ 10" using fin range unfolding in_range_def by linarith+
      ultimately have "adjust_write (ds ! i) seen sn ?v = Inr (of_int ?n)"
        using store_whole [of ?n] True by (simp add: adjust_write_def)
      then have "adjust_move m ds i s = \<lparr>ad_balance = of_int ?n, ad_version = Suc ?v, ad_clients = ?cs[i := Committed]\<rparr>"
        by (simp add: adjust_move_def Thinking)
      moreover have "\<forall>c \<in> set (?cs[i := Committed]). client_ok (of_int ?n) (Suc ?v) c"
        using cl client_ok_later by (auto dest!: set_update_subset_insert [THEN subsetD])
      ultimately show ?thesis using len v upd [of "\<lambda>_. 1" Committed] by (simp add: adjust_ok_def)
    next
      case False
      then have "a \<le> ?v" "a < m" using okc Thinking room m by auto
      then show ?thesis using keep [of "Waiting (Suc a)"] Thinking False
        by (simp add: adjust_move_def adjust_write_def retryable_def RETRYABLE_CODES_def)
    qed
  qed (use i(2) in simp_all)
qed

subsection \<open>Every run ends, and nothing is lost\<close>

text \<open>What a client may still do, when at most \<open>n\<close> of them are there.\<close>

fun moves_left :: "nat \<Rightarrow> client \<Rightarrow> nat" where
  "moves_left n (Waiting a) = 2 * (n + 1 - a)"
| "moves_left n (Thinking a _ _) = 2 * (n + 1 - a) - 1"
| "moves_left n _ = 0"

lemma client_move_left:
  assumes "active c" "client_ok b v c" "v < n"
    and "client_move m d c (b, v) = (c', r)"
  shows "moves_left n c' < moves_left n c"
  using assms by (cases c) (auto split: sum.splits if_splits)

definition adjust_left :: "adjust_state \<Rightarrow> nat" where
  "adjust_left s = (\<Sum>c\<leftarrow>ad_clients s. moves_left (length (ad_clients s)) c)"

lemma sum_list_update_less:
  "i < length xs \<Longrightarrow> f x < f (xs ! i) \<Longrightarrow> (\<Sum>y\<leftarrow>xs[i := x]. f y) < (\<Sum>y\<leftarrow>xs. f y :: nat)"
proof (induction xs arbitrary: i)
  case (Cons y ys)
  then show ?case by (cases i) (auto simp: less_Suc_eq_0_disj)
qed simp

lemma adjust_left_move:
  assumes ok: "adjust_ok b0 ds s" and i: "i < length (ad_clients s)" "active (ad_clients s ! i)"
  shows "adjust_left (adjust_move m ds i s) < adjust_left s"
proof -
  let ?cs = "ad_clients s"
  have open_i: "?cs ! i \<noteq> Committed" using i(2) by (cases "?cs ! i") auto
  have "ad_version s < length ?cs"
    using committed_le [of "?cs[i := Committed]"] committed_update [OF i(1) open_i, of "\<lambda>_. 1" Committed] ok
    by (simp add: adjust_ok_def)
  moreover obtain c b v where m: "client_move m (ds ! i) (?cs ! i) (ad_balance s, ad_version s) = (c, b, v)"
    by (metis prod_cases3)
  moreover have "client_ok (ad_balance s) (ad_version s) (?cs ! i)" using adjust_okD(4) [OF ok] i(1) by simp
  ultimately have "moves_left (length ?cs) c < moves_left (length ?cs) (?cs ! i)"
    using client_move_left [OF i(2)] by blast
  then show ?thesis using sum_list_update_less [OF i(1), of "moves_left (length ?cs)" c] m
    by (simp add: adjust_move_def adjust_left_def)
qed

lemma adjust_steps_ok:
  assumes "adjust_steps m ds s k s'" "adjust_ok b0 ds s" "in_range b0 ds" "length ds \<le> m"
  shows "adjust_ok b0 ds s' \<and> k + adjust_left s' \<le> adjust_left s"
  using assms
proof (induction rule: adjust_steps.induct)
  case (adjust_next k s1 i)
  then have "adjust_ok b0 ds s1" "k + adjust_left s1 \<le> adjust_left s" by simp_all
  then show ?case using adjust_ok_move adjust_left_move adjust_next by (metis Suc_leI add_Suc add_Suc_right add_le_mono le_refl order_trans plus_1_eq_Suc)
qed simp

lemma adjust_left_start: "adjust_left (adjust_start b ds) = 2 * length ds * length ds"
  by (simp add: adjust_left_def adjust_start_def sum_list_replicate)

text \<open>When nobody can move, all have committed.\<close>

lemma adjust_idle:
  assumes ok: "adjust_ok b0 ds s" and idle: "\<nexists>i. i < length (ad_clients s) \<and> active (ad_clients s ! i)"
  shows "set (ad_clients s) \<subseteq> {Committed} \<and> ad_balance s = of_int (b0 + sum_list ds)"
proof -
  have fine: "c \<noteq> Failed e" if "c \<in> set (ad_clients s)" for c e using ok that by (auto simp: adjust_ok_def)
  have "c = Committed" if "c \<in> set (ad_clients s)" for c
    using idle fine [OF that] that by (cases c) (auto simp: in_set_conv_nth)
  then have "set (ad_clients s) \<subseteq> {Committed}" "\<forall>i < length (ad_clients s). ad_clients s ! i = Committed" by auto
  then show ?thesis using committed_all [of "ad_clients s" "(!) ds"] ok
    by (simp add: adjust_ok_def sum_list_sum_nth atLeast0LessThan)
qed

text \<open>C35: no update is lost and nobody gives up.  \<open>n\<close> clients that each add a whole
  amount to one balance by reading, thinking and writing, in any interleaving, make at
  most \<open>2 * n * n\<close> moves in all; no client ever fails as long as \<open>withRetry\<close> allows \<open>n\<close>
  attempts (its default is 8) and the balance covers every order of withdrawals: the
  start is at least the sum of all the amounts taken absolutely, and with them added
  stays below the column's 10^10 (\<open>in_range\<close>; a withdrawal below zero fails on the CHECK
  of the column at once, see \<open>overdraft_fails\<close>); at every moment the balance is the
  start plus what the committed clients added; and when nobody can move, all have
  committed and the balance is the start plus all the amounts.\<close>

theorem retries_lose_nothing:
  assumes run: "adjust_steps m ds (adjust_start (of_int b0) ds) k s"
    and range: "in_range b0 ds" and m: "length ds \<le> m"
  shows "k \<le> 2 * length ds * length ds \<and>
    (\<forall>c \<in> set (ad_clients s). \<forall>e. c \<noteq> Failed e) \<and>
    ad_balance s = of_int (b0 + committed ((!) ds) (ad_clients s)) \<and>
    ((\<nexists>i. i < length (ad_clients s) \<and> active (ad_clients s ! i)) \<longrightarrow>
      set (ad_clients s) \<subseteq> {Committed} \<and> ad_balance s = of_int (b0 + sum_list ds))"
proof -
  have ok: "adjust_ok b0 ds s" and k: "k \<le> 2 * length ds * length ds"
    using adjust_steps_ok [OF run adjust_ok_start range m] by (simp_all add: adjust_left_start)
  have fine: "c \<noteq> Failed e" if "c \<in> set (ad_clients s)" for c e using ok that by (auto simp: adjust_ok_def)
  from adjust_idle [OF ok] show ?thesis using ok k fine by (auto simp: adjust_ok_def)
qed

lemma run_finishes:
  assumes "adjust_steps m ds s0 k s" "adjust_ok b0 ds s" "in_range b0 ds" "length ds \<le> m"
  shows "\<exists>k' s'. adjust_steps m ds s0 k' s' \<and> (\<nexists>i. i < length (ad_clients s') \<and> active (ad_clients s' ! i))"
  using assms
proof (induction s arbitrary: k rule: measure_induct_rule [of adjust_left])
  case (less s)
  show ?case
  proof (cases "\<exists>i. i < length (ad_clients s) \<and> active (ad_clients s ! i)")
    case True
    then obtain i where i: "i < length (ad_clients s)" "active (ad_clients s ! i)" by blast
    show ?thesis
      using less.IH [OF adjust_left_move [OF less.prems(2) i] adjust_next [OF less.prems(1) i]
          adjust_ok_move [OF less.prems(2) i less.prems(3,4)] less.prems(3,4)] .
  next
    case False
    then show ?thesis using less.prems(1) by blast
  qed
qed

text \<open>The two transfers of the demo: 100 + 50 - 30, whoever is first.\<close>

theorem retries_lose_nothing_witness:
  "\<exists>k s. adjust_steps 8 [50, - 30] (adjust_start 100 [50, - 30]) k s \<and> ad_balance s = 120"
proof -
  have range: "in_range 100 [50, - 30]" by (simp add: in_range_def lessThan_Suc)
  obtain k s where run: "adjust_steps 8 [50, - 30] (adjust_start (of_int 100) [50, - 30]) k s"
    and idle: "\<nexists>i. i < length (ad_clients s) \<and> active (ad_clients s ! i)"
    using run_finishes [OF adjust_none adjust_ok_start range, of 8] by auto
  then show ?thesis using retries_lose_nothing [OF run range] by auto
qed

end
