(* ===== verification/CheckoutProgress.thy ===== *)
theory CheckoutProgress
  imports Checkout
begin

text \<open>
  When a checkout of \<open>src/checkout.ts\<close> must succeed, when it must be refused, and what
  a series of checkouts of one product comes to.
\<close>

subsection \<open>One checkout, when it must succeed and when it must not\<close>

definition unit_amount :: "rat \<Rightarrow> int \<Rightarrow> rat" where
  "unit_amount price q = js_decimal (js_mul (fl price) (of_int q))"

lemma find_by_key:
  assumes "distinct (map key t)" "r \<in> set t" "P r"
  shows "find (\<lambda>x. key x = key r \<and> P x) t = Some r"
proof -
  have "find (\<lambda>x. key x = key r \<and> P x) t \<noteq> None" using assms(2,3) by (auto simp: find_None_iff)
  then obtain x where x: "find (\<lambda>x. key x = key r \<and> P x) t = Some x" by blast
  then have "x \<in> set t" "key x = key r" by (auto simp: find_Some_iff)
  then show ?thesis using x distinct_key_unique [OF assms(1) _ assms(2)] by blast
qed

text \<open>A request of a quantity the column type holds, for a product and a buyer that exist.\<close>

definition valid_request :: "checkout_env \<Rightarrow> checkout_params \<Rightarrow> product_row \<Rightarrow> account_row \<Rightarrow> bool" where
  "valid_request env p r u \<longleftrightarrow> ce_bigint env (cp_productId p) = Some (p_id r) \<and> ce_bigint env (cp_buyerId p) = Some (a_id u) \<and>
     0 < cp_quantity p \<and> in_int4 (cp_quantity p)"

definition plain_request :: "checkout_env \<Rightarrow> checkout_params \<Rightarrow> product_row \<Rightarrow> account_row \<Rightarrow> bool" where
  "plain_request env p r u \<longleftrightarrow> valid_request env p r u \<and> cp_idempotencyKey p = None"

lemma claimed_rest:
  assumes "claim_key key db = (True, db1)"
  shows "s_products db1 = s_products db" "s_users db1 = s_users db" "order_seq db1 = order_seq db"
  by (subst claimed_keys(2) [OF assms], simp)+

lemma place_order_succeeds:
  assumes ok: "shop_ok db" and r: "r \<in> set (s_products db)" and u: "u \<in> set (s_users db)"
    and p: "valid_request env p r u" and hook: "cc_hook c = None"
    and stock: "cp_quantity p \<le> p_stock r" and money: "unit_amount (p_price r) (cp_quantity p) \<le> a_balance u"
    and cl: "claim_key (cp_idempotencyKey p) db = (True, db1)"
  shows "\<exists>t. place_order env c p db1 = (Inr (order_seq db, t), sold env c p r u db)"
proof -
  let ?q = "cp_quantity p" and ?t = "js_mul (fl (p_price r)) (of_int (cp_quantity p))"
  note rest = claimed_rest [OF cl]
  have q: "0 < ?q" "in_int4 ?q" using p by (simp_all add: valid_request_def)
  have pr: "cents (p_price r)" "0 \<le> p_price r" "p_price r < 10 ^ 10" "in_int4 (p_stock r)" using shop_okD(6) [OF ok r] by auto
  have bal: "cents (a_balance u)" "0 \<le> a_balance u" "a_balance u < 10 ^ 10" using shop_okD(7) [OF ok u] by auto
  note ch = charge_exact [OF pr(1,2) less_imp_le [OF q(1)] bal(1,3) money [unfolded unit_amount_def]]
  have amt: "0 \<le> p_price r * of_int ?q" using pr(2) q(1) by simp
  have item: "round2 (js_decimal (fl (p_price r))) = p_price r" using pr by (intro text_rounds) auto
  have fr: "find (\<lambda>x. p_id x = p_id r \<and> ?q \<le> p_stock x) (s_products db) = Some r"
    using find_by_key [of p_id, OF shop_okD(1) [OF ok] r, of "\<lambda>x. ?q \<le> p_stock x"] stock by simp
  have fu: "find (\<lambda>x. a_id x = a_id u \<and> js_decimal ?t \<le> a_balance x) (s_users db) = Some u"
    using find_by_key [of a_id, OF shop_okD(2) [OF ok] u, of "\<lambda>x. js_decimal ?t \<le> a_balance x"] money
    by (simp add: unit_amount_def)
  have int4: "in_int4 (p_stock r - ?q)" using pr(4) q(1) stock by (simp add: in_int4_def)
  have "\<bar>a_balance u - p_price r * of_int ?q\<bar> < 10 ^ 10" "\<bar>p_price r * of_int ?q\<bar> < 10 ^ 10" "\<bar>p_price r\<bar> < 10 ^ 10"
    using ch(1) amt bal(3) pr by simp_all
  then have po: "place_order env c p db1 = (Inr (order_seq db, ?t), raw_sold env c p (p_id r) (a_id u) r db1)"
    unfolding place_order_Inr rest using p hook q int4 fr fu ch(2,3) amt item pr(2)
    by (intro exI [of _ "p_id r"] exI [of _ "a_id u"] exI [of _ r] exI [of _ u]) (simp add: valid_request_def)
  then obtain r' u' where ru: "r' \<in> set (s_products db)" "u' \<in> set (s_users db)"
      "ce_bigint env (cp_productId p) = Some (p_id r')" "ce_bigint env (cp_buyerId p) = Some (a_id u')"
      and sold: "raw_sold env c p (p_id r) (a_id u) r db1 = sold env c p r' u' db"
    using place_order_sold [OF ok cl po] by blast
  have "r' = r" "u' = u"
    using ru r u p distinct_key_unique [OF shop_okD(1) [OF ok]] distinct_key_unique [OF shop_okD(2) [OF ok]]
    by (auto simp: valid_request_def)
  then show ?thesis using po sold by simp
qed

lemma checkout_succeeds:
  assumes "shop_ok db" "r \<in> set (s_products db)" "u \<in> set (s_users db)" "valid_request env p r u" "cc_hook c = None"
    and "cp_quantity p \<le> p_stock r" "unit_amount (p_price r) (cp_quantity p) \<le> a_balance u"
    and new: "fst (claim_key (cp_idempotencyKey p) db)"
  shows "\<exists>t. checkout env c p db = (Inr (CheckoutSuccess (show_nat (order_seq db)) t False), sold env c p r u db)"
proof -
  obtain db1 where cl: "claim_key (cp_idempotencyKey p) db = (True, db1)"
    using new by (cases "claim_key (cp_idempotencyKey p) db") auto
  then show ?thesis using place_order_succeeds [OF assms(1-7) cl] by (auto simp: checkout_def)
qed

text \<open>The same request when the hook after the outbox insert throws: the call throws what
  the hook threw, so it got as far as that.\<close>

lemma and_then_throws:
  assumes "and_then m f db = (Inr b, d)" "\<And>a db1. f a db1 = (Inr b, d) \<Longrightarrow> \<exists>d'. g a db1 = (Inl x, d')"
  shows "\<exists>d'. and_then m g db = (Inl x, d')"
  using assms by (auto simp: and_then_def split: prod.splits sum.splits)

lemma place_order_throws:
  assumes "place_order env (c\<lparr>cc_hook := None\<rparr>) p db = (Inr b, d)" "cc_hook c = Some e"
  shows "\<exists>d'. place_order env c p db = (Inl (Thrown e), d')"
  using assms(1) unfolding place_order_def Let_def
  by (elim and_then_throws) (simp_all add: insert_outbox_def and_then_def run_hook_def assms(2))

lemma checkout_throws:
  assumes "shop_ok db" "r \<in> set (s_products db)" "u \<in> set (s_users db)" "valid_request env p r u" "cc_hook c = Some e"
    and "cp_quantity p \<le> p_stock r" "unit_amount (p_price r) (cp_quantity p) \<le> a_balance u"
    and new: "fst (claim_key (cp_idempotencyKey p) db)"
  shows "fst (checkout env c p db) = Inl e"
proof -
  obtain db1 where cl: "claim_key (cp_idempotencyKey p) db = (True, db1)"
    using new by (cases "claim_key (cp_idempotencyKey p) db") auto
  obtain t where "place_order env (c\<lparr>cc_hook := None\<rparr>) p db1 = (Inr (order_seq db, t), sold env (c\<lparr>cc_hook := None\<rparr>) p r u db)"
    using place_order_succeeds [OF assms(1-4) _ assms(6,7) cl, of "c\<lparr>cc_hook := None\<rparr>"] by auto
  from place_order_throws [OF this assms(5)] show ?thesis using cl by (auto simp: checkout_def)
qed

lemma checkout_out_of_stock:
  assumes ok: "shop_ok db" and r: "r \<in> set (s_products db)" and p: "plain_request env p r u"
    and stock: "p_stock r < cp_quantity p"
  shows "checkout env c p db = (Inr (CheckoutFailure out_of_stock), db)"
proof -
  have "find (\<lambda>x. p_id x = p_id r \<and> cp_quantity p \<le> p_stock x) (s_products db) = None"
    using distinct_key_unique [OF shop_okD(1) [OF ok] _ r] stock by (fastforce simp: find_None_iff)
  then show ?thesis
    using p by (simp add: checkout_def claim_key_def place_order_def and_then_def read_bigint_def decrement_stock_def
        plain_request_def valid_request_def Let_def rollback_def)
qed

text \<open>What is left of the two rows after a sale.\<close>

lemma sold_rows:
  assumes "r \<in> set (s_products db)" "u \<in> set (s_users db)"
  shows "r\<lparr>p_stock := p_stock r - cp_quantity p\<rparr> \<in> set (s_products (sold env c p r u db))"
    "u\<lparr>a_balance := a_balance u - p_price r * of_int (cp_quantity p)\<rparr> \<in> set (s_users (sold env c p r u db))"
  using assms by (auto simp: sold_def Let_def set_update_where)

subsection \<open>Many checkouts of one product\<close>

fun checkouts :: "checkout_env \<Rightarrow> checkout_params \<Rightarrow> checkout_call list \<Rightarrow> shop_db \<Rightarrow> checkout_result res list \<times> shop_db" where
  "checkouts env p [] db = ([], db)"
| "checkouts env p (c # cs) db =
     (let (r, db1) = checkout env c p db; (rs, db2) = checkouts env p cs db1 in (r # rs, db2))"

definition succeeded :: "checkout_result res list \<Rightarrow> nat" where
  "succeeded rs = length (filter (\<lambda>r. case r of Inr (CheckoutSuccess _ _ _) \<Rightarrow> True | _ \<Rightarrow> False) rs)"

lemma succeeded_simps [simp]:
  "succeeded [] = 0"
  "succeeded (Inr (CheckoutSuccess i t b) # rs) = Suc (succeeded rs)"
  "succeeded (Inr (CheckoutFailure f) # rs) = succeeded rs"
  by (simp_all add: succeeded_def)

lemma shop_run_trans: "shop_run env b c \<Longrightarrow> shop_run env a b \<Longrightarrow> shop_run env a c"
  by (induction rule: shop_run.induct) (auto intro: shop_run.intros)

lemma stock_div:
  assumes "0 < q" "q \<le> (s :: int)"
  shows "nat (s div q) = Suc (nat ((s - q) div q))"
proof -
  have "s div q = (s - q) div q + 1" using assms(1) div_add_self2 [of q "s - q"] by simp
  moreover have "0 \<le> (s - q) div q" using assms by (simp add: pos_imp_zdiv_nonneg_iff)
  ultimately show ?thesis by simp
qed

lemma checkouts_sold:
  assumes ok: "shop_ok db" and r: "r \<in> set (s_products db)" and u: "u \<in> set (s_users db)"
    and p: "plain_request env p r u" and hook: "cc_hook c = None" and stock: "cp_quantity p \<le> p_stock r"
    and money: "unit_amount (p_price r) (cp_quantity p) + of_nat (Suc n) * (p_price r * of_int (cp_quantity p)) \<le> a_balance u"
  obtains r1 u1 i t where "checkout env c p db = (Inr (CheckoutSuccess i t False), sold env c p r u db)"
    "shop_ok (sold env c p r u db)" "r1 = r\<lparr>p_stock := p_stock r - cp_quantity p\<rparr>"
    "r1 \<in> set (s_products (sold env c p r u db))" "u1 \<in> set (s_users (sold env c p r u db))" "plain_request env p r1 u1"
    "unit_amount (p_price r1) (cp_quantity p) + of_nat n * (p_price r1 * of_int (cp_quantity p)) \<le> a_balance u1"
proof -
  let ?amt = "p_price r * of_int (cp_quantity p)"
  let ?r = "r\<lparr>p_stock := p_stock r - cp_quantity p\<rparr>" and ?u = "u\<lparr>a_balance := a_balance u - ?amt\<rparr>"
  have "0 \<le> ?amt" using shop_okD(6) [OF ok r] p by (simp add: plain_request_def valid_request_def)
  then have more: "0 \<le> of_nat (Suc n) * ?amt" by (rule mult_nonneg_nonneg [OF of_nat_0_le_iff])
  then have "unit_amount (p_price r) (cp_quantity p) \<le> a_balance u" using money by linarith
  then obtain i t where co: "checkout env c p db = (Inr (CheckoutSuccess i t False), sold env c p r u db)"
    using checkout_succeeds [OF ok r u _ hook stock, of env] p unfolding plain_request_def by (auto simp: claim_key_def)
  have "shop_ok (sold env c p r u db)" using shop_ok_checkout [OF ok, of env c p] co by simp
  moreover have "plain_request env p ?r ?u" using p by (simp add: plain_request_def valid_request_def)
  moreover have "unit_amount (p_price ?r) (cp_quantity p) + of_nat n * (p_price ?r * of_int (cp_quantity p)) \<le> a_balance ?u"
    using money by (simp add: distrib_right)
  ultimately show ?thesis using that [OF co _ refl] sold_rows [OF r u] by blast
qed

lemma checkouts_length: "checkouts env p cs db = (rs, db') \<Longrightarrow> length rs = length cs"
  by (induction cs arbitrary: db rs) (auto split: prod.splits)

text \<open>C3: Neither more nor less than the stock is sold: of any number of checkouts of \<open>q\<close>
  pieces of one product by a buyer with enough money, exactly as many succeed as the
  stock covers, in whatever order they commit; the others are refused as out of
  stock, and what is left is what cannot make up another order.\<close>

theorem sells_out_exactly:
  assumes "shop_ok db" "r \<in> set (s_products db)" "u \<in> set (s_users db)" "plain_request env p r u"
    and "\<forall>c \<in> set cs. cc_hook c = None"
    and "unit_amount (p_price r) (cp_quantity p) + of_nat (length cs) * (p_price r * of_int (cp_quantity p)) \<le> a_balance u"
    and "checkouts env p cs db = (rs, db')"
  shows "succeeded rs = min (length cs) (nat (p_stock r div cp_quantity p)) \<and>
    set rs \<subseteq> {x. \<exists>i t. x = Inr (CheckoutSuccess i t False)} \<union> {Inr (CheckoutFailure out_of_stock)} \<and>
    r\<lparr>p_stock := p_stock r - int (succeeded rs) * cp_quantity p\<rparr> \<in> set (s_products db') \<and> shop_run env db db'"
  using assms
proof (induction cs arbitrary: db r u rs)
  case (Cons c cs)
  let ?q = "cp_quantity p"
  have q: "0 < ?q" and hook: "cc_hook c = None" "\<forall>c \<in> set cs. cc_hook c = None"
    using Cons.prems(4,5) by (simp_all add: plain_request_def valid_request_def)
  obtain r1 db1 where co: "checkout env c p db = (r1, db1)" by fastforce
  obtain rs1 where rest: "checkouts env p cs db1 = (rs1, db')" and rs: "rs = r1 # rs1"
    using Cons.prems(7) co by (auto split: prod.splits)
  have run: "shop_run env db db1" using run_checkout [OF run_none, of env db c p] co by simp
  show ?case
  proof (cases "?q \<le> p_stock r")
    case True
    have money: "unit_amount (p_price r) ?q + of_nat (Suc (length cs)) * (p_price r * of_int ?q) \<le> a_balance u"
      using Cons.prems(6) by simp
    obtain r' u' i t where s: "checkout env c p db = (Inr (CheckoutSuccess i t False), sold env c p r u db)"
      "shop_ok (sold env c p r u db)" and r': "r' = r\<lparr>p_stock := p_stock r - ?q\<rparr>"
      and h: "r' \<in> set (s_products (sold env c p r u db))" "u' \<in> set (s_users (sold env c p r u db))" "plain_request env p r' u'"
      "unit_amount (p_price r') ?q + of_nat (length cs) * (p_price r' * of_int ?q) \<le> a_balance u'"
      using checkouts_sold [OF Cons.prems(1-4) hook(1) True money] by metis
    have db1: "db1 = sold env c p r u db" "r1 = Inr (CheckoutSuccess i t False)" using co s(1) by simp_all
    note IH = Cons.IH [OF s(2) h(1-3) hook(2) h(4) rest [unfolded db1(1)]]
    have "succeeded rs = Suc (succeeded rs1)" by (simp add: rs db1(2))
    moreover have "p_stock r' div ?q = (p_stock r - ?q) div ?q" by (simp add: r')
    ultimately show ?thesis
      using IH stock_div [OF q True] shop_run_trans [OF _ run [unfolded db1(1)]]
      by (auto simp: rs db1(2) r' algebra_simps)
  next
    case False
    then have "r1 = Inr (CheckoutFailure out_of_stock)" "db1 = db"
      using checkout_out_of_stock [OF Cons.prems(1,2,4)] co by simp_all
    moreover have "0 \<le> p_price r * of_int ?q" using shop_okD(6) [OF Cons.prems(1,2)] q by simp
    then have "unit_amount (p_price r) ?q + of_nat (length cs) * (p_price r * of_int ?q) \<le> a_balance u"
      using Cons.prems(6) by (simp add: distrib_right)
    moreover have "nat (p_stock r div ?q) = 0"
      using False q shop_okD(6) [OF Cons.prems(1,2)] by (simp add: div_pos_pos_trivial)
    ultimately show ?thesis using Cons.IH [OF Cons.prems(1-4) hook(2)] rest by (clarsimp simp: rs)
  qed
qed (auto intro: run_none)

theorem sells_out_exactly_witness:
  "\<exists>rs db'. checkouts example_shop_env (example_params 3\<lparr>cp_idempotencyKey := None\<rparr>) (replicate 2 (example_call None))
     (example_shop 1) = (rs, db') \<and> succeeded rs = 1"
proof -
  let ?p = "example_params 3\<lparr>cp_idempotencyKey := None\<rparr>" and ?cs = "replicate 2 (example_call None)"
  let ?r = "\<lparr>p_id = 3, p_sku = ''SKU'', p_name = ''Pen'', p_price = 1 / 10, p_stock = 5\<rparr>"
  let ?u = "\<lparr>a_id = 7, a_email = ''a'', a_balance = 1\<rparr>"
  obtain rs db' where run: "checkouts example_shop_env ?p ?cs (example_shop 1) = (rs, db')" by fastforce
  have "?r \<in> set (s_products (example_shop 1))" "?u \<in> set (s_users (example_shop 1))" "plain_request example_shop_env ?p ?r ?u"
    by (simp_all add: example_shop_def plain_request_def valid_request_def example_params_def example_shop_env_def in_int4_def)
  moreover have "\<forall>c \<in> set ?cs. cc_hook c = None" by (simp add: example_call_def)
  moreover have "unit_amount (p_price ?r) (cp_quantity ?p) + of_nat (length ?cs) * (p_price ?r * of_int (cp_quantity ?p)) \<le> a_balance ?u"
    by (simp add: unit_amount_def example_params_def example_amount)
  ultimately have "succeeded rs = 1"
    using sells_out_exactly [OF one_ok _ _ _ _ _ run] by (simp add: example_params_def)
  then show ?thesis using run by blast
qed

end
