(* ===== verification/ShopDemos.thy ===== *)
theory ShopDemos
  imports Reports JobQueue CheckoutProgress
begin

text \<open>
  The acceptance runs of the data layer: many checkouts of one product at once
  (\<open>src/demo-race.ts\<close>) and workers on the jobs that checkouts leave
  (\<open>src/demo-workers.ts\<close>).  Each run is its \<open>main\<close>: the rows it prepares, the calls
  in the order the database commits them, and the check its exit code depends on.
\<close>

subsection \<open>The rows a run prepares\<close>

definition product_ok :: "product_row \<Rightarrow> bool" where
  "product_ok r \<longleftrightarrow> cents (p_price r) \<and> 0 \<le> p_price r \<and> p_price r < 10 ^ 10 \<and> 0 \<le> p_stock r \<and> in_int4 (p_stock r)"

text \<open>\<open>INSERT ... ON CONFLICT (sku) DO UPDATE ... RETURNING id\<close>, and the same for users by
  e-mail, whose balance has a default.  A number of the sequence is used up either way.\<close>

definition upsert_product :: "string \<Rightarrow> string \<Rightarrow> rat \<Rightarrow> int \<Rightarrow> (product_row \<Rightarrow> product_row) \<Rightarrow> shop_db \<Rightarrow> int \<times> shop_db" where
  "upsert_product sku name price stock upd db =
     (let n = int (product_seq db); db1 = db\<lparr>product_seq := Suc (product_seq db)\<rparr>
      in case find (\<lambda>r. p_sku r = sku) (s_products db) of
           None \<Rightarrow> (n, db1\<lparr>s_products := s_products db @
                      [\<lparr>p_id = n, p_sku = sku, p_name = name, p_price = price, p_stock = stock\<rparr>]\<rparr>)
         | Some r \<Rightarrow> (p_id r, db1\<lparr>s_products := update_where (\<lambda>r. p_sku r = sku) upd (s_products db)\<rparr>))"

definition DEFAULT_BALANCE :: rat where
  "DEFAULT_BALANCE = 1000000"

definition upsert_buyer :: "string \<Rightarrow> rat \<Rightarrow> shop_db \<Rightarrow> int \<times> shop_db" where
  "upsert_buyer email balance db =
     (let n = int (user_seq db); db1 = db\<lparr>user_seq := Suc (user_seq db)\<rparr>
      in case find (\<lambda>u. a_email u = email) (s_users db) of
           None \<Rightarrow> (n, db1\<lparr>s_users := s_users db @ [\<lparr>a_id = n, a_email = email, a_balance = DEFAULT_BALANCE\<rparr>]\<rparr>)
         | Some u \<Rightarrow> (a_id u, db1\<lparr>s_users := update_where (\<lambda>u. a_email u = email) (\<lambda>u. u\<lparr>a_balance := balance\<rparr>) (s_users db)\<rparr>))"

text \<open>A database with its unique keys and sequences in order.\<close>

definition world_ok :: "shop_db \<Rightarrow> bool" where
  "world_ok db \<longleftrightarrow> shop_ok db \<and> distinct (map p_sku (s_products db)) \<and> distinct (map a_email (s_users db)) \<and>
     (\<forall>r \<in> set (s_products db). 0 \<le> p_id r \<and> p_id r < int (product_seq db)) \<and>
     (\<forall>u \<in> set (s_users db). 0 \<le> a_id u \<and> a_id u < int (user_seq db))"

lemma world_okD:
  assumes "world_ok db"
  shows "shop_ok db" "distinct (map p_sku (s_products db))" "distinct (map a_email (s_users db))"
    "r \<in> set (s_products db) \<Longrightarrow> 0 \<le> p_id r \<and> p_id r < int (product_seq db)"
    "u \<in> set (s_users db) \<Longrightarrow> 0 \<le> a_id u \<and> a_id u < int (user_seq db)"
  using assms by (auto simp: world_ok_def)

lemma shop_products_ok: "shop_ok db \<Longrightarrow> r \<in> set (s_products db) \<Longrightarrow> product_ok r"
  using shop_okD(6) by (simp add: product_ok_def)

lemma upsert_product_ok:
  assumes w: "world_ok db" and new: "product_ok \<lparr>p_id = int (product_seq db), p_sku = sku, p_name = name, p_price = price, p_stock = stock\<rparr>"
    and upd: "\<And>r. p_id (upd r) = p_id r \<and> p_sku (upd r) = p_sku r" "\<And>r. product_ok r \<Longrightarrow> product_ok (upd r)"
    and run: "upsert_product sku name price stock upd db = (i, db')"
  shows "world_ok db'" "s_users db' = s_users db" "user_seq db' = user_seq db" "0 \<le> i" "i \<le> int (product_seq db)"
    "\<exists>r \<in> set (s_products db'). p_id r = i \<and>
       (p_price r = price \<and> p_stock r = stock \<or>
        (\<exists>x \<in> set (s_products db). p_sku x = sku \<and> r = upd x))"
proof -
  let ?ps = "s_products db" and ?n = "int (product_seq db)"
  let ?new = "\<lparr>p_id = ?n, p_sku = sku, p_name = name, p_price = price, p_stock = stock\<rparr>"
  note ok = world_okD [OF w]
  have old: "\<forall>r \<in> set ?ps. product_ok r" using shop_products_ok ok(1) by blast
  have settled: "world_ok (db\<lparr>product_seq := Suc (product_seq db), s_products := ps\<rparr>)"
    if "distinct (map p_id ps)" "distinct (map p_sku ps)" "\<forall>r \<in> set ps. product_ok r \<and> 0 \<le> p_id r \<and> p_id r \<le> ?n" for ps
  proof -
    have "shop_ok (db\<lparr>product_seq := Suc (product_seq db), s_products := ps\<rparr>)"
      using ok(1) that(1,3) unfolding shop_ok_def product_ok_def by simp
    moreover have "\<forall>r \<in> set ps. 0 \<le> p_id r \<and> p_id r < 1 + ?n" using that(3) by force
    ultimately show ?thesis using that(2) ok(3,5) by (simp add: world_ok_def)
  qed
  show "s_users db' = s_users db" "user_seq db' = user_seq db"
    using run by (auto simp: upsert_product_def Let_def split: option.splits)
  have "world_ok db' \<and> 0 \<le> i \<and> i \<le> ?n \<and> (\<exists>r \<in> set (s_products db'). p_id r = i \<and> (p_price r = price \<and> p_stock r = stock \<or>
      (\<exists>x \<in> set ?ps. p_sku x = sku \<and> r = upd x)))"
  proof (cases "find (\<lambda>r. p_sku r = sku) ?ps")
    case None
    then have fresh: "sku \<notin> p_sku ` set ?ps" by (auto simp: find_None_iff)
    have "?n \<notin> p_id ` set ?ps" using ok(4) by force
    then have "world_ok (db\<lparr>product_seq := Suc (product_seq db), s_products := ?ps @ [?new]\<rparr>)"
      using shop_okD(1) [OF ok(1)] ok(2) fresh old new by (intro settled) (auto dest!: ok(4))
    then show ?thesis using run None by (auto simp: upsert_product_def Let_def)
  next
    case (Some x)
    then have x: "x \<in> set ?ps" "p_sku x = sku" by (auto simp: find_Some_iff)
    let ?ps' = "update_where (\<lambda>r. p_sku r = sku) upd ?ps"
    have "map p_id ?ps' = map p_id ?ps" "map p_sku ?ps' = map p_sku ?ps" using upd(1) by (simp_all add: map_update_where)
    moreover have "product_ok r \<and> 0 \<le> p_id r \<and> p_id r \<le> ?n" if "r \<in> set ?ps'" for r
      using that old ok(4) upd by (auto simp: set_update_where less_imp_le)
    ultimately have "world_ok (db\<lparr>product_seq := Suc (product_seq db), s_products := ?ps'\<rparr>)"
      using shop_okD(1) [OF ok(1)] ok(2) by (intro settled) auto
    moreover have "upd x \<in> set ?ps'" using x by (auto simp: set_update_where)
    then have "\<exists>r \<in> set ?ps'. p_id r = p_id x \<and> (\<exists>y \<in> set ?ps. p_sku y = sku \<and> r = upd y)" using x upd(1) by blast
    moreover have "i = p_id x" "db' = db\<lparr>product_seq := Suc (product_seq db), s_products := ?ps'\<rparr>"
      using run Some by (simp_all add: upsert_product_def Let_def)
    ultimately show ?thesis using ok(4) [OF x(1)] by auto
  qed
  then show "world_ok db'" "0 \<le> i" "i \<le> ?n" "\<exists>r \<in> set (s_products db'). p_id r = i \<and>
       (p_price r = price \<and> p_stock r = stock \<or>
        (\<exists>x \<in> set ?ps. p_sku x = sku \<and> r = upd x))" by auto
qed

lemma upsert_buyer_ok:
  assumes w: "world_ok db" and b: "cents balance" "0 \<le> balance" "balance < 10 ^ 10"
    and run: "upsert_buyer email balance db = (i, db')"
  shows "world_ok db'" "s_products db' = s_products db" "product_seq db' = product_seq db" "0 \<le> i" "i \<le> int (user_seq db)"
    "\<exists>u \<in> set (s_users db'). a_id u = i \<and> a_email u = email \<and> (a_balance u = DEFAULT_BALANCE \<or> a_balance u = balance)"
proof -
  let ?us = "s_users db" and ?n = "int (user_seq db)"
  let ?new = "\<lparr>a_id = ?n, a_email = email, a_balance = DEFAULT_BALANCE\<rparr>"
  note ok = world_okD [OF w]
  have settled: "world_ok (db\<lparr>user_seq := Suc (user_seq db), s_users := us\<rparr>)"
    if "distinct (map a_id us)" "distinct (map a_email us)"
      "\<forall>u \<in> set us. cents (a_balance u) \<and> 0 \<le> a_balance u \<and> a_balance u < 10 ^ 10 \<and> 0 \<le> a_id u \<and> a_id u \<le> ?n" for us
  proof -
    have "shop_ok (db\<lparr>user_seq := Suc (user_seq db), s_users := us\<rparr>)"
      using ok(1) that(1,3) unfolding shop_ok_def by simp
    moreover have "\<forall>u \<in> set us. 0 \<le> a_id u \<and> a_id u < 1 + ?n" using that(3) by force
    ultimately show ?thesis using that(2) ok(2,4) by (simp add: world_ok_def)
  qed
  show "s_products db' = s_products db" "product_seq db' = product_seq db"
    using run by (auto simp: upsert_buyer_def Let_def split: option.splits)
  have dflt: "cents DEFAULT_BALANCE" "0 \<le> DEFAULT_BALANCE" "DEFAULT_BALANCE < 10 ^ 10"
    by (simp_all add: DEFAULT_BALANCE_def cents_def)
  have "world_ok db' \<and> 0 \<le> i \<and> i \<le> ?n \<and>
      (\<exists>u \<in> set (s_users db'). a_id u = i \<and> a_email u = email \<and> (a_balance u = DEFAULT_BALANCE \<or> a_balance u = balance))"
  proof (cases "find (\<lambda>u. a_email u = email) ?us")
    case None
    then have fresh: "email \<notin> a_email ` set ?us" by (auto simp: find_None_iff)
    have "?n \<notin> a_id ` set ?us" using ok(5) by force
    then have "world_ok (db\<lparr>user_seq := Suc (user_seq db), s_users := ?us @ [?new]\<rparr>)"
      using shop_okD(2,7) [OF ok(1)] ok(3) fresh dflt by (intro settled) (auto dest!: ok(5))
    then show ?thesis using run None by (auto simp: upsert_buyer_def Let_def)
  next
    case (Some x)
    then have x: "x \<in> set ?us" "a_email x = email" by (auto simp: find_Some_iff)
    let ?us' = "update_where (\<lambda>u. a_email u = email) (\<lambda>u. u\<lparr>a_balance := balance\<rparr>) ?us"
    have "map a_id ?us' = map a_id ?us" "map a_email ?us' = map a_email ?us" by (simp_all add: map_update_where)
    moreover have "cents (a_balance u) \<and> 0 \<le> a_balance u \<and> a_balance u < 10 ^ 10 \<and> 0 \<le> a_id u \<and> a_id u \<le> ?n"
      if "u \<in> set ?us'" for u
      using that shop_okD(7) [OF ok(1)] ok(5) b by (auto simp: set_update_where less_imp_le)
    ultimately have "world_ok (db\<lparr>user_seq := Suc (user_seq db), s_users := ?us'\<rparr>)"
      using shop_okD(2) [OF ok(1)] ok(3) by (intro settled) auto
    moreover have "x\<lparr>a_balance := balance\<rparr> \<in> set ?us'" using x by (auto simp: set_update_where)
    then have "\<exists>u \<in> set ?us'. a_id u = a_id x \<and> a_email u = email \<and> a_balance u = balance"
      using x(2) by (intro bexI [of _ "x\<lparr>a_balance := balance\<rparr>"]) simp_all
    moreover have "i = a_id x" "db' = db\<lparr>user_seq := Suc (user_seq db), s_users := ?us'\<rparr>"
      using run Some by (simp_all add: upsert_buyer_def Let_def)
    ultimately show ?thesis using ok(5) [OF x(1)] by auto
  qed
  then show "world_ok db'" "0 \<le> i" "i \<le> ?n"
    "\<exists>u \<in> set (s_users db'). a_id u = i \<and> a_email u = email \<and> (a_balance u = DEFAULT_BALANCE \<or> a_balance u = balance)"
    by auto
qed

subsection \<open>demo:race\<close>

text \<open>Postgres reads back the text it printed, for every \<open>bigint\<close>.\<close>

definition bigint_io :: "checkout_env \<Rightarrow> bool" where
  "bigint_io env \<longleftrightarrow> (\<forall>i. - (2 ^ 63) \<le> i \<and> i < 2 ^ 63 \<longrightarrow> ce_bigint env (bigint_text i) = Some i)"

definition plain_params :: "int \<Rightarrow> int \<Rightarrow> checkout_params" where
  "plain_params uid pid = \<lparr>cp_buyerId = bigint_text uid, cp_productId = bigint_text pid, cp_quantity = 1, cp_idempotencyKey = None\<rparr>"

definition ATTEMPTS :: nat where "ATTEMPTS = 60"
definition INITIAL_STOCK :: int where "INITIAL_STOCK = 10"

text \<open>The exit code; \<open>calls\<close> are the 60 checkouts in the order the database commits them.\<close>

definition demo_race :: "checkout_env \<Rightarrow> checkout_call list \<Rightarrow> shop_db \<Rightarrow> nat" where
  "demo_race env calls db =
     (let (pid, db1) = upsert_product ''RACE-DEMO'' ''race'' 100 INITIAL_STOCK (\<lambda>r. r\<lparr>p_stock := INITIAL_STOCK, p_price := 100\<rparr>) db;
          (uid, db2) = upsert_buyer ''race-demo@example.com'' 1000000 db1;
          (results, db3) = checkouts env (plain_params uid pid) calls db2;
          finalStock = stock_of db3 pid;
          negativeStockRows = length (filter (\<lambda>r. p_stock r < 0) (s_products db3))
      in if int (succeeded results) \<noteq> INITIAL_STOCK \<or> finalStock \<noteq> 0 \<or> 0 < negativeStockRows then 1 else 0)"

lemma js_decimal_whole: "js_decimal (js_mul (fl 100) 1) = 100" "js_decimal (js_mul (fl 10) 1) = 10"
  by code_simp+

lemma stock_of_row: "distinct (map p_id (s_products db)) \<Longrightarrow> r \<in> set (s_products db) \<Longrightarrow> stock_of db (p_id r) = p_stock r"
  unfolding stock_of_def using sum_list_pick [of p_id "s_products db" "p_id r" "p_stock r"] distinct_key_unique [of p_id "s_products db" _ r]
  by (smt (verit, best) image_eqI map_cong)

text \<open>The race demo always ends with exit code 0: on any consistent database, whatever the
  interleaving, exactly 10 of its 60 concurrent checkouts succeed, the stock ends at
  0 and no row of the table is negative.\<close>

theorem race_demo_passes:
  assumes w: "world_ok db" and io: "bigint_io env" and seq: "product_seq db < 2 ^ 63" "user_seq db < 2 ^ 63"
    and calls: "length calls = ATTEMPTS" "\<forall>c \<in> set calls. cc_hook c = None"
  shows "demo_race env calls db = 0"
proof -
  let ?upd = "\<lambda>r. r\<lparr>p_stock := INITIAL_STOCK, p_price := 100\<rparr>"
  obtain pid db1 where 1: "upsert_product ''RACE-DEMO'' ''race'' 100 INITIAL_STOCK ?upd db = (pid, db1)" by fastforce
  obtain uid db2 where 2: "upsert_buyer ''race-demo@example.com'' 1000000 db1 = (uid, db2)" by fastforce
  obtain rs db3 where 3: "checkouts env (plain_params uid pid) calls db2 = (rs, db3)" by fastforce
  have row: "product_ok (r\<lparr>p_stock := INITIAL_STOCK, p_price := 100\<rparr>)" for r
    by (simp add: product_ok_def INITIAL_STOCK_def in_int4_def cents_def)
  have new: "product_ok \<lparr>p_id = i, p_sku = s, p_name = n, p_price = 100, p_stock = INITIAL_STOCK\<rparr>" for i s n
    by (simp add: product_ok_def INITIAL_STOCK_def in_int4_def cents_def)
  note p = upsert_product_ok [OF w new _ row 1, simplified]
  have "cents 1000000" by (simp add: cents_def)
  note b = upsert_buyer_ok [OF p(1) this _ _ 2, simplified]
  obtain r where r0: "r \<in> set (s_products db1)" "p_id r = pid"
    and "p_price r = 100 \<and> p_stock r = INITIAL_STOCK \<or>
      (\<exists>x \<in> set (s_products db). p_sku x = ''RACE-DEMO'' \<and> r = ?upd x)" using p(6) by blast
  then have "p_price r = 100 \<and> p_stock r = INITIAL_STOCK" by auto
  with r0 have r: "r \<in> set (s_products db2)" "p_id r = pid" "p_price r = 100" "p_stock r = INITIAL_STOCK"
    by (simp_all add: b(2))
  obtain u where u: "u \<in> set (s_users db2)" "a_id u = uid" "a_balance u = 1000000" using b(6) by (auto simp: DEFAULT_BALANCE_def)
  note ok = world_okD(1) [OF b(1)]
  have ids: "ce_bigint env (bigint_text pid) = Some pid" "ce_bigint env (bigint_text uid) = Some uid"
    using io p(4,5) b(4,5) p(3) seq by (auto simp: bigint_io_def)
  have req: "plain_request env (plain_params uid pid) r u"
    using ids r(2) u(2) by (simp add: plain_request_def valid_request_def plain_params_def in_int4_def)
  have "unit_amount (p_price r) (cp_quantity (plain_params uid pid)) +
      of_nat (length calls) * (p_price r * of_int (cp_quantity (plain_params uid pid))) \<le> a_balance u"
    by (simp add: r(3) u(3) calls(1) ATTEMPTS_def plain_params_def unit_amount_def js_decimal_whole)
  note sells = sells_out_exactly [OF ok r(1) u(1) req calls(2) this 3]
  have n: "succeeded rs = 10" using sells calls(1) by (simp add: plain_params_def r(4) INITIAL_STOCK_def ATTEMPTS_def)
  have ok3: "shop_ok db3" using sells shop_run_ok ok by blast
  have "r\<lparr>p_stock := 0\<rparr> \<in> set (s_products db3)" using sells n by (simp add: plain_params_def r(4) INITIAL_STOCK_def)
  then have "stock_of db3 pid = 0" using stock_of_row [OF shop_okD(1) [OF ok3]] r(2) by fastforce
  moreover have "filter (\<lambda>r. p_stock r < 0) (s_products db3) = []"
    using shop_okD(6) [OF ok3] by (force simp: filter_empty_conv)
  ultimately show ?thesis
    by (simp only: demo_race_def 1 2 3 Let_def prod.case) (simp add: n INITIAL_STOCK_def)
qed

text \<open>An instance of the input function of \<open>bigint\<close>.\<close>

definition read_int :: "string \<Rightarrow> int option" where
  "read_int s = (case s of [] \<Rightarrow> None
     | c # r \<Rightarrow> Some (if c = CHR ''-'' then - int (digits_val (codes r)) else int (digits_val (codes s))))"

definition demo_env :: checkout_env where
  "demo_env = \<lparr>ce_sha1 = (\<lambda>_. replicate 20 0), ce_bigint = read_int\<rparr>"

lemma read_bigint_text: "read_int (bigint_text i) = Some i"
proof (cases "i < 0")
  case True
  then show ?thesis by (simp add: read_int_def bigint_text_def digits_val_show_nat)
next
  case False
  obtain c r where s: "show_nat (nat i) = c # r" using show_nat_nonempty [of "nat i"] by (cases "show_nat (nat i)") auto
  have "c \<noteq> CHR ''-''" using show_nat_digits [of "nat i"] by (auto simp: s codes_def is_digit_def)
  then show ?thesis
    using False digits_val_show_nat [of "nat i"] by (simp add: read_int_def bigint_text_def s)
qed

lemma demo_env_io: "bigint_io demo_env"
  by (simp add: bigint_io_def demo_env_def read_bigint_text)

lemma example_world: "world_ok (example_shop 1)"
  using one_ok by (simp add: world_ok_def example_shop_def)

theorem race_demo_passes_witness:
  "demo_race demo_env (replicate 60 (example_call None)) (example_shop 1) = 0"
  by (rule race_demo_passes [OF example_world demo_env_io])
    (simp_all add: example_shop_def example_call_def ATTEMPTS_def)

subsection \<open>demo:workers\<close>

definition JOBS :: nat where "JOBS = 20"
definition WORKERS :: "string list" where "WORKERS = [''w1'', ''w2'', ''w3'', ''w4'']"

fun order_ids :: "checkout_result res list \<Rightarrow> string list res" where
  "order_ids [] = Inr []"
| "order_ids (Inr (CheckoutSuccess i _ _) # rs) = map_sum id ((#) i) (order_ids rs)"
| "order_ids (Inr (CheckoutFailure _) # rs) = Inl (Error ''checkout failed'')"
| "order_ids (Inl e # rs) = Inl e"

text \<open>The jobs the run starts its workers on: those of 20 orders, and whatever the table held.\<close>

definition prepare_jobs :: "checkout_env \<Rightarrow> checkout_call list \<Rightarrow> shop_db \<Rightarrow> string list res \<times> shop_db" where
  "prepare_jobs env calls db =
     (let (pid, db1) = upsert_product ''WORKERS-DEMO'' ''workers'' 10 1000000 (\<lambda>r. r\<lparr>p_stock := 1000000\<rparr>) db;
          (uid, db2) = upsert_buyer ''workers-demo@example.com'' 1000000 db1;
          (results, db3) = checkouts env (plain_params uid pid) calls db2
      in (order_ids results, db3))"

text \<open>What the run counts at its end.\<close>

definition processed_twice :: "job_row list \<Rightarrow> nat" where
  "processed_twice t = length (filter (\<lambda>j. 1 < j_processed j) t)"

inductive pool_steps :: "pool \<Rightarrow> pool \<Rightarrow> bool" for s where
  pool_none: "pool_steps s s"
| pool_more: "pool_steps s s1 \<Longrightarrow> pool_step s1 s2 \<Longrightarrow> pool_steps s s2"

lemma pool_steps_ok: "pool_steps s s' \<Longrightarrow> pool_ok s \<Longrightarrow> pool_ok s'"
  by (induction rule: pool_steps.induct) (auto intro: pool_ok_step)

lemma pool_jobs_once:
  assumes "pool_ok s"
  shows "processed_twice (pool_jobs s) = 0 \<and>
    (count_new (pool_jobs s) = 0 \<longrightarrow> (\<forall>x \<in> set (pool_jobs s). j_processed x = 1 \<and> j_worker x \<noteq> None))"
proof -
  have ok: "job_ok x" if "x \<in> set (pool_jobs s)" for x using pool_okD(2) [OF assms that] .
  have "\<not> 1 < j_processed x" if "x \<in> set (pool_jobs s)" for x
    using ok [OF that] by (auto simp: job_ok_def split: job_status.splits)
  moreover have "j_processed x = 1 \<and> j_worker x \<noteq> None" if "count_new (pool_jobs s) = 0" "x \<in> set (pool_jobs s)" for x
  proof -
    have "j_status x \<noteq> JobNew" using that by (auto simp: count_new_def filter_empty_conv)
    then show ?thesis using ok [OF that(2)] by (cases "j_status x") (auto simp: job_ok_def)
  qed
  ultimately show ?thesis by (auto simp: processed_twice_def filter_empty_conv)
qed

definition jobs_ok :: "job_row list \<Rightarrow> bool" where
  "jobs_ok t \<longleftrightarrow> (\<forall>j \<in> set t. job_ok j)"

lemma jobs_ok_checkout:
  assumes ok: "shop_ok db" and j: "jobs_ok (s_jobs db)"
  shows "jobs_ok (s_jobs (snd (checkout env c p db)))"
proof -
  obtain res db' where co: "checkout env c p db = (res, db')" by fastforce
  show ?thesis
    using ok co
  proof (cases rule: checkout_cases)
    case (sold r u)
    then show ?thesis using j co by (auto simp: sold_def Let_def jobs_ok_def job_ok_def)
  qed (use j co in \<open>auto simp: rollback_def\<close>)
qed

lemma jobs_ok_run: "shop_run env db db' \<Longrightarrow> shop_ok db \<Longrightarrow> jobs_ok (s_jobs db) \<Longrightarrow> jobs_ok (s_jobs db')"
proof (induction rule: shop_run.induct)
  case (run_checkout db db1 c p)
  then show ?case using jobs_ok_checkout [OF shop_run_ok] by blast
qed simp

lemma order_ids_all:
  "set rs \<subseteq> {x. \<exists>i t. x = Inr (CheckoutSuccess i t False)} \<union> {Inr (CheckoutFailure out_of_stock)} \<Longrightarrow>
   succeeded rs = length rs \<Longrightarrow> \<exists>ids. order_ids rs = Inr ids \<and> length ids = length rs"
proof (induction rs)
  case (Cons r rs)
  have "succeeded rs \<le> length rs" by (simp add: succeeded_def)
  then obtain i t where r: "r = Inr (CheckoutSuccess i t False)" using Cons.prems by auto
  then show ?case using Cons by auto
qed simp

text \<open>Each success leaves one job.\<close>

lemma checkouts_jobs:
  assumes "shop_ok db" "checkouts env p cs db = (rs, db')"
    and "set rs \<subseteq> {x. \<exists>i t. x = Inr (CheckoutSuccess i t False)} \<union> {Inr (CheckoutFailure out_of_stock)}"
  shows "length (s_jobs db') = length (s_jobs db) + succeeded rs"
  using assms
proof (induction cs arbitrary: db rs)
  case (Cons c cs)
  obtain r1 db1 where co: "checkout env c p db = (r1, db1)" by fastforce
  obtain rs1 where rest: "checkouts env p cs db1 = (rs1, db')" and rs: "rs = r1 # rs1"
    using Cons.prems(2) co by (auto split: prod.splits)
  have ok1: "shop_ok db1" using shop_ok_checkout [OF Cons.prems(1), of env c p] co by simp
  have IH: "length (s_jobs db') = length (s_jobs db1) + succeeded rs1"
    using Cons.IH [OF ok1 rest] Cons.prems(3) rs by auto
  from Cons.prems(1) co have "length (s_jobs db1) = length (s_jobs db) + succeeded [r1]"
  proof (cases rule: checkout_cases)
    case (sold r u)
    then show ?thesis by (simp add: sold_def Let_def)
  next
    case replayed
    then have "r1 \<noteq> Inr (CheckoutSuccess i t False)" for i t by (auto simp: previous_result_def split: list.splits)
    then show ?thesis using Cons.prems(3) rs replayed by auto
  next
    case (failed db2)
    then show ?thesis by (auto simp: rollback_def succeeded_def)
  qed
  then show ?case using IH by (simp add: rs succeeded_def)
qed simp

text \<open>The workers run: on any consistent database in which an older product of the run kept
  its price, the 20 checkouts all succeed, and whatever the workers then do in whatever
  order (finish, fail, die) no job is ever processed twice.  When no new job is left,
  every job has been processed exactly once.\<close>

theorem workers_demo_passes:
  assumes w: "world_ok db" and j: "jobs_ok (s_jobs db)" and io: "bigint_io env"
    and seq: "product_seq db < 2 ^ 63" "user_seq db < 2 ^ 63"
    and price: "\<forall>r \<in> set (s_products db). p_sku r = ''WORKERS-DEMO'' \<longrightarrow> p_price r = 10"
    and calls: "length calls = JOBS" "\<forall>c \<in> set calls. cc_hook c = None"
  shows "\<exists>ids db'. prepare_jobs env calls db = (Inr ids, db') \<and> length ids = JOBS \<and>
    length (s_jobs db') = length (s_jobs db) + JOBS \<and>
    (\<forall>s. pool_steps \<lparr>pool_jobs = s_jobs db', pool_held = []\<rparr> s \<longrightarrow>
       processed_twice (pool_jobs s) = 0 \<and>
       (count_new (pool_jobs s) = 0 \<longrightarrow> (\<forall>x \<in> set (pool_jobs s). j_processed x = 1 \<and> j_worker x \<noteq> None)))"
proof -
  let ?upd = "\<lambda>r. r\<lparr>p_stock := 1000000\<rparr>"
  obtain pid db1 where 1: "upsert_product ''WORKERS-DEMO'' ''workers'' 10 1000000 ?upd db = (pid, db1)" by fastforce
  obtain uid db2 where 2: "upsert_buyer ''workers-demo@example.com'' 1000000 db1 = (uid, db2)" by fastforce
  obtain rs db3 where 3: "checkouts env (plain_params uid pid) calls db2 = (rs, db3)" by fastforce
  have row: "product_ok r \<Longrightarrow> product_ok (r\<lparr>p_stock := 1000000\<rparr>)" for r by (simp add: product_ok_def in_int4_def)
  have new: "product_ok \<lparr>p_id = i, p_sku = s, p_name = n, p_price = 10, p_stock = 1000000\<rparr>" for i s n
    by (simp add: product_ok_def in_int4_def cents_def)
  note p = upsert_product_ok [OF w new _ row 1, simplified]
  have "cents 1000000" by (simp add: cents_def)
  note b = upsert_buyer_ok [OF p(1) this _ _ 2, simplified]
  obtain r where r0: "r \<in> set (s_products db1)" "p_id r = pid"
    and "p_price r = 10 \<and> p_stock r = 1000000 \<or> (\<exists>x \<in> set (s_products db). p_sku x = ''WORKERS-DEMO'' \<and> r = ?upd x)"
    using p(6) by blast
  then have "p_price r = 10 \<and> p_stock r = 1000000" using price by auto
  with r0 have r: "r \<in> set (s_products db2)" "p_id r = pid" "p_price r = 10" "p_stock r = 1000000"
    by (simp_all add: b(2))
  obtain u where u: "u \<in> set (s_users db2)" "a_id u = uid" "a_balance u = 1000000" using b(6) by (auto simp: DEFAULT_BALANCE_def)
  note ok = world_okD(1) [OF b(1)]
  have ids: "ce_bigint env (bigint_text pid) = Some pid" "ce_bigint env (bigint_text uid) = Some uid"
    using io p(4,5) b(4,5) p(3) seq by (auto simp: bigint_io_def)
  have req: "plain_request env (plain_params uid pid) r u"
    using ids r(2) u(2) by (simp add: plain_request_def valid_request_def plain_params_def in_int4_def)
  have "unit_amount (p_price r) (cp_quantity (plain_params uid pid)) +
      of_nat (length calls) * (p_price r * of_int (cp_quantity (plain_params uid pid))) \<le> a_balance u"
    by (simp add: r(3) u(3) calls(1) JOBS_def plain_params_def unit_amount_def js_decimal_whole)
  note sells = sells_out_exactly [OF ok r(1) u(1) req calls(2) this 3]
  have len: "length rs = length calls" using 3 checkouts_length by metis
  have n: "succeeded rs = JOBS" using sells calls(1) by (simp add: plain_params_def r(4) JOBS_def)
  obtain ids where ids: "order_ids rs = Inr ids" "length ids = JOBS" using order_ids_all [of rs] sells n len calls(1) by auto
  have same: "s_jobs db2 = s_jobs db"
    using 1 2 by (auto simp: upsert_product_def upsert_buyer_def Let_def split: option.splits)
  have "length (s_jobs db3) = length (s_jobs db) + JOBS" using checkouts_jobs [OF ok 3] sells n same by simp
  moreover have "shop_ok db3" "jobs_ok (s_jobs db3)"
    using sells shop_run_ok [OF _ ok] jobs_ok_run [OF _ ok] j same by auto
  then have "pool_ok \<lparr>pool_jobs = s_jobs db3, pool_held = []\<rparr>" using shop_okD(5) by (simp add: pool_ok_def jobs_ok_def)
  then have "processed_twice (pool_jobs s) = 0 \<and>
       (count_new (pool_jobs s) = 0 \<longrightarrow> (\<forall>x \<in> set (pool_jobs s). j_processed x = 1 \<and> j_worker x \<noteq> None))"
    if "pool_steps \<lparr>pool_jobs = s_jobs db3, pool_held = []\<rparr> s" for s
    using pool_jobs_once [OF pool_steps_ok [OF that]] by blast
  moreover have "prepare_jobs env calls db = (Inr ids, db3)"
    by (simp only: prepare_jobs_def 1 2 3 Let_def prod.case ids(1))
  ultimately show ?thesis using ids(2) by blast
qed

end
