(* ===== verification/Runs.thy ===== *)
theory Runs
  imports Prelude
begin

text \<open>
  How the acceptance runs (the \<open>demo-*.ts\<close> scripts under \<open>src\<close>) are put together: an
  \<open>await\<close> whose error ends the run, the exit code of \<open>main().catch(...)\<close>, and the check
  of the collected violations (\<open>src/messaging/demo-lib.ts\<close>, \<open>assertInvariant\<close>).  A run
  is a function on the world it works on.
\<close>

definition then_run :: "('w \<Rightarrow> 'a res \<times> 'w) \<Rightarrow> ('a \<Rightarrow> 'w \<Rightarrow> 'b res \<times> 'w) \<Rightarrow> 'w \<Rightarrow> 'b res \<times> 'w" where
  "then_run m f w = (case m w of (Inl e, w') \<Rightarrow> (Inl e, w') | (Inr a, w') \<Rightarrow> f a w')"

lemma then_run_Inr: "m w = (Inr a, w') \<Longrightarrow> then_run m f w = f a w'"
  by (simp add: then_run_def)

definition exit_code :: "('w \<Rightarrow> nat res \<times> 'w) \<Rightarrow> 'w \<Rightarrow> nat" where
  "exit_code main w = (case fst (main w) of Inl _ \<Rightarrow> 1 | Inr n \<Rightarrow> n)"

text \<open>The broken invariants, each with its message, make the exit code 1.\<close>

definition violation :: "bool \<Rightarrow> string \<Rightarrow> string list" where
  "violation broken msg = (if broken then [msg] else [])"

definition assertInvariant :: "string list \<Rightarrow> nat" where
  "assertInvariant violations = (if violations \<noteq> [] then 1 else 0)"

definition check_world :: "('w \<Rightarrow> string list) \<Rightarrow> 'w \<Rightarrow> nat res \<times> 'w" where
  "check_world bad w = (Inr (assertInvariant (bad w)), w)"

text \<open>A wait whose condition never becomes true throws.\<close>

definition wait_until :: "('w \<Rightarrow> bool) \<Rightarrow> 'w \<Rightarrow> unit res \<times> 'w" where
  "wait_until cond w = (if cond w then Inr () else Inl (Error ''timeout''), w)"

end
