(* ===== verification/BrokerWorld.thy ===== *)
theory BrokerWorld
  imports Runs Topology ShopDemos OrdersApi
begin

text \<open>
  What the acceptance runs of the broker path work on: \<open>src/messaging/demo-lib.ts\<close>,
  \<open>src/outbox/demo-lib.ts\<close>, and the start of a consumer
  (\<open>src/messaging/consumer.ts\<close>, \<open>startConsumer\<close>).  A world is the shop's database, the
  consumer's side (its tables, its counters, the work queue and the dead-letter
  queue), the declarations of the broker and the queue of unroutable messages.
\<close>

subsection \<open>The world\<close>

record demo_world =
  dw_shop :: shop_db
  dw_side :: consumer_system
  dw_broker :: broker
  dw_unroutable :: "json option list"

definition PREFETCH :: nat where "PREFETCH = 10"

text \<open>A purge of the work queue starts the record of what was sent anew.\<close>

definition purge_queue :: "string \<Rightarrow> demo_world \<Rightarrow> demo_world" where
  "purge_queue q w =
     (if q = WORK_QUEUE then w\<lparr>dw_side := (dw_side w)\<lparr>cs_work := [], cs_sent := []\<rparr>\<rparr>
      else if q = DLQ then w\<lparr>dw_side := (dw_side w)\<lparr>cs_dlq := []\<rparr>\<rparr>
      else if q = UNROUTABLE_QUEUE then w\<lparr>dw_unroutable := []\<rparr> else w)"

definition purgeAll :: "demo_world \<Rightarrow> demo_world" where
  "purgeAll w = fold purge_queue [WORK_QUEUE, DLQ, UNROUTABLE_QUEUE] w"

definition depth :: "string \<Rightarrow> demo_world \<Rightarrow> nat" where
  "depth q w =
     (if q = WORK_QUEUE then length (cs_work (dw_side w)) else if q = DLQ then length (cs_dlq (dw_side w))
      else if q = UNROUTABLE_QUEUE then length (dw_unroutable w) else 0)"

text \<open>Declaring the topology, and what follows if that succeeded.\<close>

definition with_topology :: "(demo_world \<Rightarrow> 'a \<times> demo_world) \<Rightarrow> demo_world \<Rightarrow> 'a res \<times> demo_world" where
  "with_topology f w =
     (case assertTopology (dw_broker w) of
        (Inl e, b) \<Rightarrow> (Inl e, w\<lparr>dw_broker := b\<rparr>)
      | (Inr _, b) \<Rightarrow> (let (a, w') = f (w\<lparr>dw_broker := b\<rparr>) in (Inr a, w')))"

definition resetState :: "demo_world \<Rightarrow> unit res \<times> demo_world" where
  "resetState w =
     with_topology (\<lambda>w. ((), purgeAll w))
       (w\<lparr>dw_shop := (dw_shop w)\<lparr>s_keys := [], s_outbox := []\<rparr>,
          dw_side := (dw_side w)\<lparr>cs_db := \<lparr>processed_messages = [], order_receipts = []\<rparr>\<rparr>\<rparr>)"

definition startConsumer :: "nat option \<Rightarrow> demo_world \<Rightarrow> nat res \<times> demo_world" where
  "startConsumer prefetch =
     with_topology (\<lambda>w. (case prefetch of None \<Rightarrow> PREFETCH | Some n \<Rightarrow> n, w\<lparr>dw_side := (dw_side w)\<lparr>cs_stats := fresh_stats\<rparr>\<rparr>))"

subsection \<open>Rows of a run\<close>

definition DEMO_STOCK :: int where "DEMO_STOCK = 100"
definition DEMO_PRICE :: rat where "DEMO_PRICE = 100"

text \<open>Items, jobs and keys go with their orders, by the foreign keys.\<close>

definition delete_orders :: "int \<Rightarrow> shop_db \<Rightarrow> shop_db" where
  "delete_orders uid db =
     (let gone = or_id ` set (filter (\<lambda>x. or_buyer x = uid) (s_orders db))
      in db\<lparr>s_orders := filter (\<lambda>x. or_buyer x \<noteq> uid) (s_orders db), s_items := filter (\<lambda>i. it_order i \<notin> gone) (s_items db),
            s_keys := filter (\<lambda>k. k_order k \<notin> Some ` gone) (s_keys db), s_jobs := filter (\<lambda>j. j_order j \<notin> gone) (s_jobs db)\<rparr>)"

definition prepareWorld :: "string \<Rightarrow> demo_world \<Rightarrow> (int \<times> int) res \<times> demo_world" where
  "prepareWorld tag w =
     (case resetState w of
        (Inl e, w1) \<Rightarrow> (Inl e, w1)
      | (Inr _, w1) \<Rightarrow>
          (let (pid, db1) = upsert_product (''OUTBOX-'' @ tag) (''demo '' @ tag) DEMO_PRICE DEMO_STOCK
                 (\<lambda>r. r\<lparr>p_stock := DEMO_STOCK, p_price := DEMO_PRICE\<rparr>) (dw_shop w1);
               (uid, db2) = upsert_buyer (''outbox-'' @ tag @ ''@example.com'') 1000000 db1
           in (Inr (uid, pid), w1\<lparr>dw_shop := delete_orders uid db2\<rparr>)))"

definition countOrders :: "int \<Rightarrow> demo_world \<Rightarrow> nat" where
  "countOrders uid w = length (filter (\<lambda>x. or_buyer x = uid) (s_orders (dw_shop w)))"

definition countOutbox :: "demo_world \<Rightarrow> nat" where
  "countOutbox w = length (s_outbox (dw_shop w))"

definition countPublished :: "demo_world \<Rightarrow> nat" where
  "countPublished w = length (filter (\<lambda>r. ob_published_at r \<noteq> None) (s_outbox (dw_shop w)))"

definition countProcessed :: "demo_world \<Rightarrow> nat" where
  "countProcessed w = length (processed_messages (cs_db (dw_side w)))"

definition countEffects :: "demo_world \<Rightarrow> nat" where
  "countEffects w = length (order_receipts (cs_db (dw_side w)))"

definition stockOf :: "int \<Rightarrow> demo_world \<Rightarrow> int" where
  "stockOf pid w = stock_of (dw_shop w) pid"

subsection \<open>Waiting\<close>

text \<open>
  The condition is looked at at the given times (milliseconds since the call); \<open>None\<close> is
  a wait that these looks do not end.
\<close>

fun waitFor :: "nat \<Rightarrow> (nat \<times> bool) list \<Rightarrow> unit res option" where
  "waitFor timeoutMs [] = None"
| "waitFor timeoutMs ((t, cond) # looks) =
     (if cond then Some (Inr ())
      else if timeoutMs < t then Some (Inl (Error ''timeout'')) else waitFor timeoutMs looks)"

text \<open>Looks are 50 ms apart or more, so a wait of 20 seconds ends within 402 of them.\<close>

fun spaced :: "nat \<Rightarrow> (nat \<times> bool) list \<Rightarrow> bool" where
  "spaced t [] = True"
| "spaced t ((t', _) # looks) = (t \<le> t' \<and> spaced (t' + 50) looks)"

lemma waitFor_ends:
  assumes "spaced t looks" "timeoutMs < t + 50 * (length looks - 1)" "looks \<noteq> []"
  shows "waitFor timeoutMs looks \<noteq> None"
  using assms
proof (induction timeoutMs looks arbitrary: t rule: waitFor.induct)
  case (2 timeoutMs t' cond looks)
  show ?case
  proof (cases "cond \<or> timeoutMs < t'")
    case False
    then have "looks \<noteq> []" using 2(3) 2(2) by auto
    then obtain n where n: "length looks = Suc n" by (cases looks) auto
    show ?thesis using False 2(1) [of "t' + 50"] 2(2,3) \<open>looks \<noteq> []\<close> n by simp
  qed auto
qed simp

theorem wait_is_bounded:
  assumes "spaced 0 looks" "402 \<le> length looks"
  shows "waitFor 20000 looks \<in> {Some (Inr ()), Some (Inl (Error ''timeout''))}"
proof -
  have shape: "waitFor n ls \<in> {None, Some (Inr ()), Some (Inl (Error ''timeout''))}" for n ls
    by (induction n ls rule: waitFor.induct) auto
  have "waitFor 20000 looks \<noteq> None" using assms by (intro waitFor_ends [of 0]) auto
  then show ?thesis using shape [of 20000 looks] by auto
qed

subsection \<open>Messages\<close>

definition put_in :: "json option \<Rightarrow> string \<Rightarrow> demo_world \<Rightarrow> demo_world" where
  "put_in c q w =
     (if q = WORK_QUEUE then w\<lparr>dw_side := publish_all [c] (dw_side w)\<rparr>
      else if q = UNROUTABLE_QUEUE then w\<lparr>dw_unroutable := dw_unroutable w @ [c]\<rparr> else w)"

text \<open>A publication under a routing key, by a publisher that does not mind returned messages.\<close>

definition publish_to :: "string \<Rightarrow> json option \<Rightarrow> demo_world \<Rightarrow> unit res \<times> demo_world" where
  "publish_to key c w =
     (fst (publishRaw False (broker_wire (dw_broker w) key) 0), fold (put_in c) (publish_queues (dw_broker w) key) w)"

definition publishOrderPlaced :: "order_placed \<Rightarrow> demo_world \<Rightarrow> unit res \<times> demo_world" where
  "publishOrderPlaced event = publish_to ROUTING_KEY_ORDER_PLACED (Some (event_json event))"

text \<open>The relay against this broker: what was sent is in the queues its routing key leads to.\<close>

definition row_wire :: "demo_world \<Rightarrow> outbox_row \<Rightarrow> wire" where
  "row_wire w row = broker_wire (dw_broker w) (ob_type row)"

definition after_relay :: "outbox_row list \<Rightarrow> outbox_row list \<Rightarrow> demo_world \<Rightarrow> demo_world" where
  "after_relay t sent w =
     fold (\<lambda>r. fold (put_in (Some (ob_payload r))) (publish_queues (dw_broker w) (ob_type r))) sent
       (w\<lparr>dw_shop := (dw_shop w)\<lparr>s_outbox := t\<rparr>\<rparr>)"

definition relay_pass_of :: "string set \<Rightarrow> (outbox_row \<Rightarrow> exn option) \<Rightarrow> rat \<Rightarrow> demo_world \<Rightarrow> relay_pass res \<times> demo_world" where
  "relay_pass_of locked hook now w =
     (case relayOnce 50 locked (row_wire w) hook now 0 (s_outbox (dw_shop w)) of
        (res, t, sent, _) \<Rightarrow> (res, after_relay t sent w))"

definition relay_rest :: "(nat \<Rightarrow> rat) \<Rightarrow> demo_world \<Rightarrow> nat res \<times> demo_world" where
  "relay_rest now w =
     (case relayUntilEmpty (Suc (length (unpublished (s_outbox (dw_shop w))))) 50 (\<lambda>_. {}) (\<lambda>_. row_wire w)
             (\<lambda>_ _. None) now 0 0 0 (s_outbox (dw_shop w)) of
        None \<Rightarrow> (Inl (Error ''relay''), w)
      | Some (res, t, sent) \<Rightarrow> (res, after_relay t sent w))"

text \<open>Deliveries: each takes some message of the work queue, as long as there is one.\<close>

definition deliver_at :: "schema_lib \<Rightarrow> nat \<Rightarrow> consumer_system \<Rightarrow> consumer_system" where
  "deliver_at lib k s =
     (if cs_work s = [] then s
      else (let i = k mod length (cs_work s); m = cs_work s ! i
            in case handle lib None (m_content m) (cs_stats s, cs_db s) of
                 (v, st, db) \<Rightarrow> settle v m (take i (cs_work s)) (drop (Suc i) (cs_work s)) (s\<lparr>cs_stats := st, cs_db := db\<rparr>)))"

definition deliveries :: "schema_lib \<Rightarrow> nat list \<Rightarrow> demo_world \<Rightarrow> demo_world" where
  "deliveries lib ks w = w\<lparr>dw_side := fold (deliver_at lib) ks (dw_side w)\<rparr>"

text \<open>The consumer that is killed after its transaction and before its ack.\<close>

definition killed_at :: "schema_lib \<Rightarrow> nat \<Rightarrow> consumer_system \<Rightarrow> consumer_system" where
  "killed_at lib k s =
     (if cs_work s = [] then s
      else (let i = k mod length (cs_work s); m = cs_work s ! i
            in case handle lib None (m_content m) (cs_stats s, cs_db s) of
                 (v, st, db) \<Rightarrow> requeue m (take i (cs_work s)) (drop (Suc i) (cs_work s)) (s\<lparr>cs_stats := fresh_stats, cs_db := db\<rparr>)))"

lemma deliver_is_step:
  assumes "cs_work s \<noteq> []"
  shows "consumer_step lib s (deliver_at lib k s)" "consumer_step lib s (killed_at lib k s)"
proof -
  let ?i = "k mod length (cs_work s)"
  have split: "cs_work s = take ?i (cs_work s) @ cs_work s ! ?i # drop (Suc ?i) (cs_work s)"
    using assms by (intro id_take_nth_drop) simp
  obtain v st db where h: "handle lib None (m_content (cs_work s ! ?i)) (cs_stats s, cs_db s) = (v, st, db)"
    by (cases "handle lib None (m_content (cs_work s ! ?i)) (cs_stats s, cs_db s)") auto
  show "consumer_step lib s (deliver_at lib k s)"
    using consumer_step.deliver [OF split h] assms by (simp add: deliver_at_def Let_def h)
  show "consumer_step lib s (killed_at lib k s)"
    using consumer_step.die [OF split h, of db] assms by (simp add: killed_at_def Let_def h)
qed

subsection \<open>A broker with nothing but this topology\<close>

lemma fresh_queues:
  "publish_queues fresh_broker ''order.placed'' = [WORK_QUEUE]" "publish_queues fresh_broker ROUTING_KEY_ORDER_PLACED = [WORK_QUEUE]"
  "key \<noteq> ''order.placed'' \<Longrightarrow> publish_queues fresh_broker key = [UNROUTABLE_QUEUE]"
  using fresh_broker_routes by (simp_all add: ROUTING_KEY_ORDER_PLACED_def)

lemma fresh_wire: "broker_wire fresh_broker key = \<lparr>w_stored = True, w_returned = False, w_error = None\<rparr>"
  using fresh_broker_routes [of key] by (auto simp: broker_wire_def)

lemma queue_names: "UNROUTABLE_QUEUE \<noteq> WORK_QUEUE" "DLQ \<noteq> WORK_QUEUE" "UNROUTABLE_QUEUE \<noteq> DLQ"
  by (simp_all add: names)

lemma publish_to_fresh:
  assumes "dw_broker w = fresh_broker"
  shows "publish_to ROUTING_KEY_ORDER_PLACED c w = (Inr (), w\<lparr>dw_side := publish_all [c] (dw_side w)\<rparr>)"
    "key \<noteq> ''order.placed'' \<Longrightarrow> publish_to key c w = (Inr (), w\<lparr>dw_unroutable := dw_unroutable w @ [c]\<rparr>)"
  using assms queue_names by (simp_all add: publish_to_def fresh_queues fresh_wire put_in_def publishRaw_def)

lemma publish_all_Cons: "publish_all (c # cs) s = publish_all cs (publish_all [c] s)"
  by (simp add: publish_all_def)

lemma after_relay_fresh:
  assumes "dw_broker w = fresh_broker" "\<forall>r \<in> set sent. ob_type r = ''order.placed''"
  shows "after_relay t sent w = w\<lparr>dw_shop := (dw_shop w)\<lparr>s_outbox := t\<rparr>,
    dw_side := publish_all (map (\<lambda>r. Some (ob_payload r)) sent) (dw_side w)\<rparr>"
proof -
  have "fold (\<lambda>r. fold (put_in (Some (ob_payload r))) (publish_queues fresh_broker (ob_type r))) sent v =
      v\<lparr>dw_side := publish_all (map (\<lambda>r. Some (ob_payload r)) sent) (dw_side v)\<rparr>" for v
    using assms(2)
  proof (induction sent arbitrary: v)
    case (Cons r sent)
    then show ?case by (simp add: fresh_queues put_in_def publish_all_Cons [of _ "map _ sent"])
  qed (simp add: publish_all_def)
  then show ?thesis by (simp add: after_relay_def assms(1))
qed

lemma map_id_update: "(\<And>r. ob_id (f r) = ob_id r) \<Longrightarrow> map ob_id (update_where P f t) = map ob_id t"
  by (simp add: map_update_where)

lemma relayOnce_ids: "relayOnce b l w h now ret t = (res, t', sent, ret') \<Longrightarrow> map ob_id t' = map ob_id t"
  by (auto simp: relayOnce_def Let_def map_id_update split: if_splits option.splits prod.splits)

lemma relayUntilEmpty_ids: "relayUntilEmpty n b l w h now k tot ret t = Some (res, t', sent) \<Longrightarrow> map ob_id t' = map ob_id t"
proof (induction n arbitrary: k tot ret t t' res sent)
  case (Suc n)
  obtain r t1 s1 ret1 where once: "relayOnce b (l k) (w k) (h k) (now k) ret t = (r, t1, s1, ret1)"
    by (cases "relayOnce b (l k) (w k) (h k) (now k) ret t") auto
  note ids = relayOnce_ids [OF once]
  show ?case
    using Suc.prems Suc.IH ids by (auto simp: once split: sum.splits option.splits if_splits)
qed simp

lemma relay_rest_fresh:
  assumes b: "dw_broker w = fresh_broker" and d: "distinct (map ob_id (s_outbox (dw_shop w)))"
    and ty: "\<forall>r \<in> set (s_outbox (dw_shop w)). ob_type r = ''order.placed''"
  obtains t where "relay_rest now w = (Inr (length (unpublished (s_outbox (dw_shop w)))),
      w\<lparr>dw_shop := (dw_shop w)\<lparr>s_outbox := t\<rparr>,
        dw_side := publish_all (map (\<lambda>r. Some (ob_payload r)) (in_order (unpublished (s_outbox (dw_shop w))))) (dw_side w)\<rparr>)"
    "unpublished t = []" "length t = length (s_outbox (dw_shop w))"
proof -
  let ?o = "s_outbox (dw_shop w)"
  have good: "all_good (\<lambda>_. row_wire w) (\<lambda>_ _. None)" using b by (simp add: all_good_def row_wire_def fresh_wire)
  obtain t where t: "relayUntilEmpty (Suc (length (unpublished ?o))) 50 (\<lambda>_. {}) (\<lambda>_. row_wire w) (\<lambda>_ _. None) now 0 0 0 ?o =
      Some (Inr (0 + length (unpublished ?o)), t, in_order (unpublished ?o))" "unpublished t = []"
    using relay_drains [OF good _ d, of 50 "Suc (length (unpublished ?o))" now 0 0 0] by auto
  have len: "length t = length ?o" using relayUntilEmpty_ids [OF t(1)] by (metis length_map)
  have "\<forall>r \<in> set (in_order (unpublished ?o)). ob_type r = ''order.placed''" using ty by (simp add: unpublished_def)
  note a = after_relay_fresh [OF b this, of t]
  show thesis by (rule that [of t]) (simp_all add: relay_rest_def t a len del: relayUntilEmpty.simps)
qed

lemma all_published: "unpublished t = [] \<Longrightarrow> filter (\<lambda>r. ob_published_at r \<noteq> None) t = t"
  by (auto simp: unpublished_def filter_empty_conv filter_id_conv)

subsection \<open>Deliveries\<close>

definition within_limits :: "order_placed \<Rightarrow> bool" where
  "within_limits e \<longleftrightarrow> \<bar>round2 (js_decimal (od_totalAmount (op_data e)))\<bar> < 10 ^ 10"

definition unseen :: "inbox_db \<Rightarrow> order_placed \<Rightarrow> bool" where
  "unseen db e \<longleftrightarrow> message_key e \<notin> set (processed_messages db) \<and> od_orderId (op_data e) \<notin> rc_order_id ` set (order_receipts db) \<and>
     uuid_value (op_eventId e) \<notin> rc_event_id ` set (order_receipts db)"

definition after_event :: "order_placed \<Rightarrow> inbox_db \<Rightarrow> inbox_db" where
  "after_event e db = \<lparr>processed_messages = processed_messages db @ [message_key e], order_receipts = order_receipts db @
     [\<lparr>rc_event_id = uuid_value (op_eventId e), rc_order_id = od_orderId (op_data e), rc_buyer_id = od_buyerId (op_data e),
       rc_total = round2 (js_decimal (od_totalAmount (op_data e)))\<rparr>]\<rparr>"

lemma apply_unseen: "within_limits e \<Longrightarrow> unseen db e \<Longrightarrow> applyOrderPlaced e db = (Inr True, after_event e db)"
  by (simp add: within_limits_def unseen_def applyOrderPlaced_def insert_on_conflict_def insert_receipt_def numeric122_def
      Let_def after_event_def)

text \<open>The counters after \<open>a\<close> effects and \<open>d\<close> skipped duplicates.\<close>

definition counted :: "nat \<Rightarrow> nat \<Rightarrow> consumer_stats \<Rightarrow> consumer_stats" where
  "counted a d st = \<lparr>delivered = delivered st + a + d, applied = applied st + a, skipped = skipped st + d,
     acked = acked st + a + d, rejected = rejected st\<rparr>"

lemma counted_counted [simp]: "counted a d (counted a' d' st) = counted (a' + a) (d' + d) st"
  by (simp add: counted_def)

lemma counted_0 [simp]: "counted 0 0 st = st"
  by (simp add: counted_def)

definition reads_as :: "schema_lib \<Rightarrow> Inbox.message \<Rightarrow> order_placed \<Rightarrow> bool" where
  "reads_as lib m e \<longleftrightarrow> Option.bind (m_content m) (OrderPlacedSchema lib) = Some e"

lemma handle_event:
  assumes "reads_as lib m e" "within_limits e"
  shows "unseen db e \<Longrightarrow> handle lib None (m_content m) (st, db) = (Ack, counted 1 0 st, after_event e db)"
    "message_key e \<in> set (processed_messages db) \<Longrightarrow> handle lib None (m_content m) (st, db) = (Ack, counted 0 1 st, db)"
  using assms apply_seen [of e db] by (simp_all add: reads_as_def handle_def Let_def apply_unseen counted_def)

text \<open>Messages of different events, none of them processed yet.\<close>

definition waiting :: "schema_lib \<Rightarrow> order_placed list \<Rightarrow> consumer_system \<Rightarrow> bool" where
  "waiting lib es s \<longleftrightarrow> list_all2 (reads_as lib) (cs_work s) es \<and> distinct (map message_key es) \<and>
     distinct (map (\<lambda>e. od_orderId (op_data e)) es) \<and> (\<forall>e \<in> set es. within_limits e \<and> unseen (cs_db s) e)"

lemma unseen_after_event:
  "unseen db x \<Longrightarrow> message_key x \<noteq> message_key e \<Longrightarrow> od_orderId (op_data x) \<noteq> od_orderId (op_data e) \<Longrightarrow>
   unseen (after_event e db) x"
  by (auto simp: unseen_def after_event_def message_key_def)

lemma distinct_middle:
  "distinct (a @ y # b) \<Longrightarrow> distinct (a @ b)" "distinct (a @ y # b) \<Longrightarrow> x \<in> set (a @ b) \<Longrightarrow> x \<noteq> y"
  by auto

lemma distinct_drop_one:
  assumes "distinct xs" "i < length xs"
  shows "distinct (take i xs @ drop (Suc i) xs)" "x \<in> set (take i xs @ drop (Suc i) xs) \<Longrightarrow> x \<noteq> xs ! i"
proof -
  have d: "distinct (take i xs @ xs ! i # drop (Suc i) xs)"
    by (subst id_take_nth_drop [OF assms(2), symmetric]) (rule assms(1))
  show "distinct (take i xs @ drop (Suc i) xs)" by (rule distinct_middle(1) [OF d])
  show "x \<in> set (take i xs @ drop (Suc i) xs) \<Longrightarrow> x \<noteq> xs ! i" by (rule distinct_middle(2) [OF d])
qed

lemma deliver_waiting:
  assumes w: "waiting lib es s" and ne: "es \<noteq> []"
  obtains e es' ms where "waiting lib es' (deliver_at lib k s)" "length es = Suc (length es')" "e \<in> set es"
    "deliver_at lib k s = s\<lparr>cs_stats := counted 1 0 (cs_stats s), cs_db := after_event e (cs_db s), cs_work := ms\<rparr>"
proof -
  have l: "list_all2 (reads_as lib) (cs_work s) es" and d: "distinct (map message_key es)" "distinct (map (\<lambda>e. od_orderId (op_data e)) es)"
    and u: "\<forall>e \<in> set es. within_limits e \<and> unseen (cs_db s) e" using w by (simp_all add: waiting_def)
  have len: "length (cs_work s) = length es" using l by (rule list_all2_lengthD)
  define i where "i = k mod length es"
  have i: "i < length es" using ne by (simp add: i_def)
  let ?ms = "take i (cs_work s) @ drop (Suc i) (cs_work s)" and ?es = "take i es @ drop (Suc i) es" and ?e = "es ! i"
  have e: "?e \<in> set es" "reads_as lib (cs_work s ! i) ?e" using i l by (simp_all add: list_all2_conv_all_nth)
  have "handle lib None (m_content (cs_work s ! i)) (cs_stats s, cs_db s) = (Ack, counted 1 0 (cs_stats s), after_event ?e (cs_db s))"
    using handle_event(1) [OF e(2)] u e(1) by blast
  then have run: "deliver_at lib k s = s\<lparr>cs_stats := counted 1 0 (cs_stats s), cs_db := after_event ?e (cs_db s), cs_work := ?ms\<rparr>"
    using ne len by (auto simp: deliver_at_def Let_def i_def)
  have "unseen (after_event ?e (cs_db s)) x" if x: "x \<in> set ?es" for x
  proof (rule unseen_after_event)
    show "unseen (cs_db s) x" using u x by (auto dest: in_set_takeD in_set_dropD)
    show "message_key x \<noteq> message_key ?e"
      using distinct_drop_one(2) [OF d(1), of i "message_key x"] i x by (auto simp: take_map drop_map)
    show "od_orderId (op_data x) \<noteq> od_orderId (op_data ?e)"
      using distinct_drop_one(2) [OF d(2), of i "od_orderId (op_data x)"] i x by (auto simp: take_map drop_map)
  qed
  moreover have "list_all2 (reads_as lib) ?ms ?es" using l by (intro list_all2_appendI) simp_all
  moreover have "distinct (map message_key ?es)" "distinct (map (\<lambda>e. od_orderId (op_data e)) ?es)"
    using distinct_drop_one(1) [OF d(1), of i] distinct_drop_one(1) [OF d(2), of i] i by (simp_all add: take_map drop_map)
  moreover have "\<forall>x \<in> set ?es. within_limits x" using u by (auto dest: in_set_takeD in_set_dropD)
  ultimately have "waiting lib ?es (deliver_at lib k s)" unfolding run waiting_def by simp
  then show thesis by (rule that [OF _ _ e(1) run]) (use i in simp)
qed

text \<open>However the deliveries are ordered, each event takes effect once.\<close>

lemma deliver_all:
  assumes "waiting lib es s" "length es \<le> length ks"
  shows "cs_work (fold (deliver_at lib) ks s) = [] \<and> cs_dlq (fold (deliver_at lib) ks s) = cs_dlq s \<and>
    cs_stats (fold (deliver_at lib) ks s) = counted (length es) 0 (cs_stats s) \<and>
    length (order_receipts (cs_db (fold (deliver_at lib) ks s))) = length (order_receipts (cs_db s)) + length es \<and>
    length (processed_messages (cs_db (fold (deliver_at lib) ks s))) = length (processed_messages (cs_db s)) + length es"
  using assms
proof (induction ks arbitrary: es s)
  case Nil
  then show ?case by (simp add: waiting_def)
next
  case (Cons k ks)
  show ?case
  proof (cases "es = []")
    case True
    then have "cs_work s = []" using Cons.prems(1) by (simp add: waiting_def)
    then have "deliver_at lib k s = s" by (simp add: deliver_at_def)
    then show ?thesis using Cons.IH [of "[]" s] Cons.prems(1) True by simp
  next
    case False
    obtain e es' ms where es': "waiting lib es' (deliver_at lib k s)" "length es = Suc (length es')"
      and run: "deliver_at lib k s = s\<lparr>cs_stats := counted 1 0 (cs_stats s), cs_db := after_event e (cs_db s), cs_work := ms\<rparr>"
      by (rule deliver_waiting [OF Cons.prems(1) False])
    have "length es' \<le> length ks" using es'(2) Cons.prems(2) by simp
    from Cons.IH [OF es'(1) this] show ?thesis unfolding fold_Cons o_apply by (simp add: run after_event_def es'(2))
  qed
qed

text \<open>Copies of one event that was processed are skipped.\<close>

lemma deliver_seen:
  assumes "\<forall>m \<in> set (cs_work s). reads_as lib m e" "within_limits e" "message_key e \<in> set (processed_messages (cs_db s))"
    "length (cs_work s) \<le> length ks"
  shows "fold (deliver_at lib) ks s = s\<lparr>cs_stats := counted 0 (length (cs_work s)) (cs_stats s), cs_work := []\<rparr>"
  using assms
proof (induction ks arbitrary: s)
  case (Cons k ks)
  show ?case
  proof (cases "cs_work s = []")
    case True
    then have "deliver_at lib k s = s" by (simp add: deliver_at_def)
    then show ?thesis using Cons True by simp
  next
    case False
    define i where "i = k mod length (cs_work s)"
    let ?ms = "take i (cs_work s) @ drop (Suc i) (cs_work s)"
    have i: "i < length (cs_work s)" using False by (simp add: i_def)
    have "handle lib None (m_content (cs_work s ! i)) (cs_stats s, cs_db s) = (Ack, counted 0 1 (cs_stats s), cs_db s)"
      using handle_event(2) [of lib "cs_work s ! i" e] Cons.prems i by simp
    then have run: "deliver_at lib k s = s\<lparr>cs_stats := counted 0 1 (cs_stats s), cs_work := ?ms\<rparr>"
      using False by (simp add: deliver_at_def Let_def flip: i_def)
    obtain n where n: "length (cs_work s) = Suc n" "length ?ms = n" using i by (cases "length (cs_work s)") simp_all
    have "\<forall>m \<in> set ?ms. reads_as lib m e" using Cons.prems(1) by (auto dest: in_set_takeD in_set_dropD)
    moreover have "n \<le> length ks" using Cons.prems(4) n(1) by simp
    ultimately have "fold (deliver_at lib) ks (deliver_at lib k s) =
        (deliver_at lib k s)\<lparr>cs_stats := counted 0 n (cs_stats (deliver_at lib k s)), cs_work := []\<rparr>"
      using Cons.IH [of "deliver_at lib k s"] Cons.prems(2,3) n(2) unfolding run by (simp del: length_append)
    then show ?thesis unfolding fold_Cons o_apply n(1) by (simp add: run)
  qed
qed simp

end
