(* ===== verification/BrokerDemos.thy ===== *)
theory BrokerDemos
  imports BrokerWorld
begin

text \<open>
  The acceptance runs of the broker path: \<open>src/demo-publish.ts\<close>, \<open>src/demo-dlq.ts\<close>,
  \<open>src/demo-duplicate.ts\<close>, \<open>src/demo-outbox.ts\<close>, \<open>src/demo-crash-write.ts\<close> and
  \<open>src/demo-crash-relay.ts\<close>.  Each is its \<open>main\<close>: the world it prepares, the calls it
  makes and the exit code of its check; the deliveries it waits for are a schedule, a
  list that says which message of the work queue is taken next.
\<close>

subsection \<open>The prepared world\<close>

definition ready_world :: "demo_world \<Rightarrow> bool" where
  "ready_world w \<longleftrightarrow> world_ok (dw_shop w) \<and> dw_broker w \<in> {empty_broker, fresh_broker} \<and>
     product_seq (dw_shop w) < 2 ^ 63 \<and> user_seq (dw_shop w) < 2 ^ 63"

definition empty_tables :: inbox_db where
  "empty_tables = \<lparr>processed_messages = [], order_receipts = []\<rparr>"

definition empty_queues :: "demo_world \<Rightarrow> bool" where
  "empty_queues w \<longleftrightarrow> cs_db (dw_side w) = empty_tables \<and> cs_work (dw_side w) = [] \<and> cs_dlq (dw_side w) = [] \<and>
     dw_unroutable w = [] \<and> dw_broker w = fresh_broker"

definition stocked :: "int \<Rightarrow> int \<Rightarrow> int \<Rightarrow> shop_db \<Rightarrow> bool" where
  "stocked n uid pid db \<longleftrightarrow> world_ok db \<and> s_outbox db = [] \<and> s_keys db = [] \<and>
     (\<exists>r \<in> set (s_products db). p_id r = pid \<and> p_price r = 100 \<and> p_stock r = n) \<and>
     (\<exists>u \<in> set (s_users db). a_id u = uid \<and> a_balance u = 1000000) \<and>
     0 \<le> uid \<and> uid < 2 ^ 63 \<and> 0 \<le> pid \<and> pid < 2 ^ 63"

definition prepared :: "int \<Rightarrow> int \<Rightarrow> demo_world \<Rightarrow> bool" where
  "prepared uid pid w \<longleftrightarrow> stocked DEMO_STOCK uid pid (dw_shop w) \<and> countOrders uid w = 0 \<and> empty_queues w"

lemma with_topology_ready:
  assumes "dw_broker w \<in> {empty_broker, fresh_broker}"
  shows "with_topology f w = (Inr (fst (f (w\<lparr>dw_broker := fresh_broker\<rparr>))), snd (f (w\<lparr>dw_broker := fresh_broker\<rparr>)))"
proof -
  have "assertTopology (dw_broker w) = (Inr (), fresh_broker)"
    using assms fresh_broker_rows(1) topology_routes_everything_witness by auto
  then show ?thesis by (simp add: with_topology_def split_beta Let_def)
qed

lemma resetState_ready:
  assumes "ready_world w"
  obtains w' where "resetState w = (Inr (), w')" "empty_queues w'"
    "dw_shop w' = (dw_shop w)\<lparr>s_keys := [], s_outbox := []\<rparr>" "world_ok (dw_shop w')"
proof -
  let ?w = "w\<lparr>dw_shop := (dw_shop w)\<lparr>s_keys := [], s_outbox := []\<rparr>, dw_side := (dw_side w)\<lparr>cs_db := empty_tables\<rparr>\<rparr>"
  let ?w' = "purgeAll (?w\<lparr>dw_broker := fresh_broker\<rparr>)"
  have "resetState w = (Inr (), ?w')"
    using assms with_topology_ready [of ?w "\<lambda>w. ((), purgeAll w)"] by (simp add: resetState_def ready_world_def empty_tables_def)
  moreover have "empty_queues ?w'" "dw_shop ?w' = (dw_shop w)\<lparr>s_keys := [], s_outbox := []\<rparr>"
    using queue_names by (simp_all add: empty_queues_def purgeAll_def purge_queue_def)
  moreover have "world_ok ((dw_shop w)\<lparr>s_keys := [], s_outbox := []\<rparr>)"
    using assms by (simp add: ready_world_def world_ok_def shop_ok_def)
  ultimately show thesis using that by simp
qed

lemma delete_orders_ok:
  assumes "world_ok db" "s_keys db = []"
  shows "world_ok (delete_orders uid db)" "s_keys (delete_orders uid db) = []"
    "filter (\<lambda>x. or_buyer x = uid) (s_orders (delete_orders uid db)) = []"
  using assms by (auto simp: delete_orders_def world_ok_def shop_ok_def Let_def distinct_map_filter filter_empty_conv)

text \<open>The rows of both ways a run prepares them, for any names.\<close>

lemma upserts_stocked:
  assumes w: "world_ok db" "s_outbox db = []" "s_keys db = []" and seq: "product_seq db < 2 ^ 63" "user_seq db < 2 ^ 63"
    and n: "0 \<le> n" "in_int4 n"
    and p: "upsert_product sku name 100 n (\<lambda>r. r\<lparr>p_stock := n, p_price := 100\<rparr>) db = (pid, db1)"
    and b: "upsert_buyer email 1000000 db1 = (uid, db2)"
  shows "stocked n uid pid db2"
proof -
  let ?upd = "\<lambda>r :: product_row. r\<lparr>p_stock := n, p_price := 100\<rparr>"
  have row: "product_ok (?upd r)" for r using n by (simp add: product_ok_def cents_def)
  have new: "product_ok \<lparr>p_id = i, p_sku = sku, p_name = name, p_price = 100, p_stock = n\<rparr>" for i
    using n by (simp add: product_ok_def cents_def)
  note p' = upsert_product_ok [OF w(1) new _ row p, simplified]
  have "cents 1000000" by (simp add: cents_def)
  note b' = upsert_buyer_ok [OF p'(1) this _ _ b, simplified]
  have "s_outbox db2 = s_outbox db" "s_keys db2 = s_keys db"
    using p b by (auto simp: upsert_product_def upsert_buyer_def Let_def split: option.splits)
  moreover have "\<exists>r \<in> set (s_products db2). p_id r = pid \<and> p_price r = 100 \<and> p_stock r = n"
    using p'(6) unfolding b'(2) by auto
  moreover have "\<exists>u \<in> set (s_users db2). a_id u = uid \<and> a_balance u = 1000000"
    using b'(6) by (auto simp: DEFAULT_BALANCE_def)
  ultimately show ?thesis using w b'(1,4,5) p'(3,4,5) seq by (simp add: stocked_def)
qed

lemma prepareWorld_ready:
  assumes "ready_world w"
  obtains uid pid w' where "prepareWorld tag w = (Inr (uid, pid), w')" "prepared uid pid w'"
proof -
  obtain w1 where r: "resetState w = (Inr (), w1)" "empty_queues w1"
    "dw_shop w1 = (dw_shop w)\<lparr>s_keys := [], s_outbox := []\<rparr>" "world_ok (dw_shop w1)" by (rule resetState_ready [OF assms])
  obtain pid db1 where p: "upsert_product (''OUTBOX-'' @ tag) (''demo '' @ tag) 100 100 (\<lambda>r. r\<lparr>p_stock := 100, p_price := 100\<rparr>)
      (dw_shop w1) = (pid, db1)" by fastforce
  obtain uid db2 where b: "upsert_buyer (''outbox-'' @ tag @ ''@example.com'') 1000000 db1 = (uid, db2)" by fastforce
  let ?w = "w1\<lparr>dw_shop := delete_orders uid db2\<rparr>"
  have s: "stocked 100 uid pid db2"
    using assms r(3,4) by (intro upserts_stocked [OF _ _ _ _ _ _ _ p b]) (simp_all add: ready_world_def in_int4_def)
  note del = delete_orders_ok [of db2 uid]
  have "stocked 100 uid pid (delete_orders uid db2)"
    using s del by (simp add: stocked_def) (simp add: delete_orders_def)
  then have "prepared uid pid ?w"
    using r(2) s del by (simp add: prepared_def countOrders_def empty_queues_def DEMO_STOCK_def stocked_def)
  moreover have "prepareWorld tag w = (Inr (uid, pid), ?w)"
    using p b by (simp add: prepareWorld_def r(1) DEMO_STOCK_def DEMO_PRICE_def)
  ultimately show thesis using that by blast
qed

lemma startConsumer_ready:
  "dw_broker w = fresh_broker \<Longrightarrow> startConsumer p w =
    (Inr (case p of None \<Rightarrow> PREFETCH | Some n \<Rightarrow> n), w\<lparr>dw_side := (dw_side w)\<lparr>cs_stats := fresh_stats\<rparr>\<rparr>)"
  unfolding startConsumer_def by (subst with_topology_ready) simp_all


subsection \<open>Steps of a run\<close>

definition checkout_in :: "checkout_env \<Rightarrow> checkout_call \<Rightarrow> checkout_params \<Rightarrow> demo_world \<Rightarrow> checkout_result res \<times> demo_world" where
  "checkout_in env c p w = (let (r, db) = checkout env c p (dw_shop w) in (r, w\<lparr>dw_shop := db\<rparr>))"

definition post_in :: "checkout_env \<Rightarrow> checkout_call \<Rightarrow> api_request \<Rightarrow> demo_world \<Rightarrow> api_response res \<times> demo_world" where
  "post_in env c req w = (let (r, db) = createOrdersApi env c req (dw_shop w) in (Inr r, w\<lparr>dw_shop := db\<rparr>))"

definition demo_params :: "int \<Rightarrow> int \<Rightarrow> string \<Rightarrow> checkout_params" where
  "demo_params uid pid key = (plain_params uid pid)\<lparr>cp_idempotencyKey := Some key\<rparr>"

definition deliver_now :: "schema_lib \<Rightarrow> nat list \<Rightarrow> demo_world \<Rightarrow> unit res \<times> demo_world" where
  "deliver_now lib ks w = (Inr (), deliveries lib ks w)"

abbreviation stats_of :: "demo_world \<Rightarrow> consumer_stats" where
  "stats_of w \<equiv> cs_stats (dw_side w)"

subsection \<open>demo:crash-write\<close>

text \<open>The hook of the run throws this error and nothing else does, so the error also tells
  that the hook was reached.\<close>

definition crash_error :: exn where "crash_error = Error ''crash-write''"

definition crashing_checkout :: "checkout_env \<Rightarrow> checkout_call \<Rightarrow> checkout_params \<Rightarrow> demo_world \<Rightarrow> bool res \<times> demo_world" where
  "crashing_checkout env c p w =
     (case checkout_in env (c\<lparr>cc_hook := Some crash_error\<rparr>) p w of
        (Inl e, w') \<Rightarrow> (if e = crash_error then Inr True else Inl e, w')
      | (Inr _, w') \<Rightarrow> (Inr False, w'))"

definition demo_crash_write :: "checkout_env \<Rightarrow> schema_lib \<Rightarrow> checkout_call \<Rightarrow> (nat \<Rightarrow> rat) \<Rightarrow> nat list \<Rightarrow> demo_world \<Rightarrow> nat res \<times> demo_world" where
  "demo_crash_write env lib c now ks =
     then_run (prepareWorld ''crash-write'') (\<lambda>(uid, pid).
     then_run (startConsumer None) (\<lambda>_.
     then_run (crashing_checkout env c (demo_params uid pid ''crash-write-1'')) (\<lambda>writeFailed.
     then_run (relay_rest now) (\<lambda>_.
     then_run (deliver_now lib ks) (\<lambda>_.
     check_world (\<lambda>w.
       violation (\<not> writeFailed) ''write-failed'' @
       violation (countOrders uid w \<noteq> 0) ''orders'' @
       violation (countOutbox w \<noteq> 0) ''outbox'' @
       violation (countPublished w \<noteq> 0) ''published'' @
       violation (delivered (stats_of w) \<noteq> 0 \<or> depth WORK_QUEUE w \<noteq> 0) ''deliveries'' @
       violation (countEffects w \<noteq> 0) ''effect'' @
       violation (stockOf pid w \<noteq> DEMO_STOCK) ''stock'' @
       violation (s_keys (dw_shop w) \<noteq> []) ''idempotency-keys''))))))"

lemma checkout_Inl: "checkout env c p db = (Inl e, db') \<Longrightarrow> db' = rollback db db'"
  by (auto simp: checkout_def rollback_def split: prod.splits bool.splits sum.splits abort.splits)

lemma stocked_request:
  assumes s: "stocked n uid pid db" and io: "bigint_io env"
  obtains r u where "r \<in> set (s_products db)" "u \<in> set (s_users db)" "p_id r = pid" "p_price r = 100" "p_stock r = n"
    "a_id u = uid" "a_balance u = 1000000" "valid_request env (demo_params uid pid key) r u"
    "plain_request env (plain_params uid pid) r u" "unit_amount (p_price r) 1 \<le> a_balance u" "shop_ok db" "stock_of db pid = n"
proof -
  obtain r u where r: "r \<in> set (s_products db)" "p_id r = pid" "p_price r = 100" "p_stock r = n"
    and u: "u \<in> set (s_users db)" "a_id u = uid" "a_balance u = 1000000" using s unfolding stocked_def by blast
  have ids: "ce_bigint env (bigint_text pid) = Some pid" "ce_bigint env (bigint_text uid) = Some uid"
    using io s by (simp_all add: bigint_io_def stocked_def)
  have ok: "shop_ok db" using s world_okD(1) by (simp add: stocked_def)
  show thesis
  proof (rule that [OF r(1) u(1) r(2-4) u(2,3) _ _ _ ok])
    show "valid_request env (demo_params uid pid key) r u" "plain_request env (plain_params uid pid) r u"
      using ids r(2) u(2) by (simp_all add: valid_request_def plain_request_def demo_params_def plain_params_def in_int4_def)
    show "unit_amount (p_price r) 1 \<le> a_balance u"
      unfolding r(3) u(3) unit_amount_def of_int_1 js_decimal_whole(1) by simp
    show "stock_of db pid = n" using stock_of_row [OF shop_okD(1) [OF ok] r(1)] r(2,4) by simp
  qed
qed

text \<open>Consumer and relay with nothing to do.\<close>

lemma deliveries_none: "cs_work (dw_side w) = [] \<Longrightarrow> deliveries lib ks w = w"
proof -
  assume w: "cs_work (dw_side w) = []"
  have "fold (deliver_at lib) ks (dw_side w) = dw_side w"
    using w by (induction ks) (simp_all add: deliver_at_def)
  then show ?thesis by (simp add: deliveries_def)
qed

lemma relay_rest_none:
  assumes "dw_broker w = fresh_broker" "s_outbox (dw_shop w) = []"
  shows "relay_rest now w = (Inr 0, w)"
proof (rule relay_rest_fresh [of w now])
  fix t
  assume "relay_rest now w = (Inr (length (unpublished (s_outbox (dw_shop w)))), w\<lparr>dw_shop := (dw_shop w)\<lparr>s_outbox := t\<rparr>,
      dw_side := publish_all (map (\<lambda>r. Some (ob_payload r)) (in_order (unpublished (s_outbox (dw_shop w))))) (dw_side w)\<rparr>)"
    "length t = length (s_outbox (dw_shop w))"
  moreover from this assms have "t = s_outbox (dw_shop w)" by simp
  ultimately show ?thesis using assms by (simp add: unpublished_def in_order_def publish_all_def)
qed (use assms in simp_all)

text \<open>The failing write leaves nothing behind: no order, no event, no key, the stock as it was,
  and nothing reaches the consumer.\<close>

theorem crash_write_passes:
  assumes w: "ready_world w" and io: "bigint_io env"
  shows "exit_code (demo_crash_write env lib c now ks) w = 0"
proof -
  obtain uid pid w1 where 1: "prepareWorld ''crash-write'' w = (Inr (uid, pid), w1)" and p: "prepared uid pid w1"
    by (rule prepareWorld_ready [OF w])
  let ?w2 = "w1\<lparr>dw_side := (dw_side w1)\<lparr>cs_stats := fresh_stats\<rparr>\<rparr>"
  have st: "stocked DEMO_STOCK uid pid (dw_shop w1)" and q: "empty_queues w1" and n0: "countOrders uid w1 = 0"
    using p by (simp_all add: prepared_def)
  have "dw_broker w1 = fresh_broker" using q by (simp add: empty_queues_def)
  note 2 = startConsumer_ready [OF this, of None]
  obtain r u where ru: "r \<in> set (s_products (dw_shop w1))" "u \<in> set (s_users (dw_shop w1))" "p_stock r = DEMO_STOCK"
    "valid_request env (demo_params uid pid ''crash-write-1'') r u" "unit_amount (p_price r) 1 \<le> a_balance u"
    "shop_ok (dw_shop w1)" "stock_of (dw_shop w1) pid = DEMO_STOCK"
    by (rule stocked_request [OF st io, of "''crash-write-1''"])
  have "fst (checkout env (c\<lparr>cc_hook := Some crash_error\<rparr>) (demo_params uid pid ''crash-write-1'') (dw_shop w1)) = Inl crash_error"
    using ru st by (intro checkout_throws [OF ru(6) ru(1,2,4)])
      (simp_all add: demo_params_def plain_params_def DEMO_STOCK_def claim_key_def insert_on_conflict_def stocked_def)
  then obtain i j where co: "checkout env (c\<lparr>cc_hook := Some crash_error\<rparr>) (demo_params uid pid ''crash-write-1'') (dw_shop w1) =
      (Inl crash_error, (dw_shop w1)\<lparr>order_seq := i, job_seq := j\<rparr>)"
    using checkout_Inl unfolding rollback_def by (metis prod.collapse)
  let ?w3 = "?w2\<lparr>dw_shop := (dw_shop w1)\<lparr>order_seq := i, job_seq := j\<rparr>\<rparr>"
  have 3: "crashing_checkout env c (demo_params uid pid ''crash-write-1'') ?w2 = (Inr True, ?w3)"
    by (simp add: crashing_checkout_def checkout_in_def co)
  have 4: "relay_rest now ?w3 = (Inr 0, ?w3)"
    using q st by (intro relay_rest_none) (simp_all add: empty_queues_def stocked_def)
  have 5: "deliver_now lib ks ?w3 = (Inr (), ?w3)"
    using q by (simp add: deliver_now_def deliveries_none empty_queues_def)
  have "stock_of ((dw_shop w1)\<lparr>order_seq := i, job_seq := j\<rparr>) pid = DEMO_STOCK" using ru(7) by (simp add: stock_of_def)
  then show ?thesis
    using q n0 st
    by (simp add: exit_code_def demo_crash_write_def then_run_def 1 2 3 4 5 check_world_def assertInvariant_def violation_def)
      (simp add: countOrders_def countOutbox_def countPublished_def countEffects_def stockOf_def depth_def empty_queues_def
        empty_tables_def stocked_def fresh_stats_def)
qed

subsection \<open>An order and its event\<close>

definition one_event :: "schema_lib \<Rightarrow> order_placed \<Rightarrow> outbox_row \<Rightarrow> bool" where
  "one_event lib e y \<longleftrightarrow> ob_type y = ''order.placed'' \<and> ob_published_at y = None \<and>
     OrderPlacedSchema lib (ob_payload y) = Some e \<and> within_limits e"

lemma sold_event:
  assumes "shop_ok db" "lib_ok env lib" "is_datetime lib (cc_placedAt c)" "r \<in> set (s_products db)" "u \<in> set (s_users db)"
    "ce_bigint env (cp_productId p) = Some (p_id r)" "ce_bigint env (cp_buyerId p) = Some (a_id u)" "0 < cp_quantity p"
    "p_price r * of_int (cp_quantity p) \<le> a_balance u" "p_price r * of_int (cp_quantity p) < 10 ^ 10"
  obtains y e where "s_outbox (sold env c p r u db) = s_outbox db @ [y]" "one_event lib e y" "ob_id y = cc_rowId c"
    "op_eventId e = eventIdFor (ce_sha1 env) ''order.placed'' (show_nat (order_seq db))" "od_orderId (op_data e) = show_nat (order_seq db)"
proof -
  obtain x y where o: "s_orders (sold env c p r u db) = s_orders db @ [x]" and y: "s_outbox (sold env c p r u db) = s_outbox db @ [y]"
    and xy: "row_of_order env lib x y" "ob_id y = cc_rowId c" "ob_published_at y = None"
    using sold_row [OF assms(1-9)] by blast
  have x: "or_id x = order_seq db" "or_total x = p_price r * of_int (cp_quantity p)" using o by (auto simp: sold_def Let_def)
  have ty: "ob_type y = ''order.placed''" using y by (auto simp: sold_def Let_def)
  from xy(1) obtain e where e: "OrderPlacedSchema lib (ob_payload y) = Some e"
    "op_eventId e = eventIdFor (ce_sha1 env) ''order.placed'' (show_nat (or_id x))" "od_orderId (op_data e) = show_nat (or_id x)"
    "round2 (js_decimal (od_totalAmount (op_data e))) = or_total x" unfolding row_of_order_def by blast
  have "0 \<le> p_price r * of_int (cp_quantity p)" using shop_okD(6) [OF assms(1,4)] assms(8) by simp
  then have "within_limits e" using assms(10) by (simp add: within_limits_def e(4) x(2))
  then show thesis using that [OF y _ xy(2)] e xy(3) ty by (simp add: one_event_def x)
qed

lemma DEMO_STOCK_pos: "1 \<le> DEMO_STOCK"
  by (simp add: DEMO_STOCK_def)

text \<open>One order of one piece in a prepared world.\<close>

lemma stocked_checkout:
  assumes s: "stocked n uid pid db" and n: "1 \<le> n" and io: "bigint_io env" and lib: "lib_ok env lib"
    and dt: "is_datetime lib (cc_placedAt c)" and hook: "cc_hook c = None"
  obtains t e y db' where "checkout env c (demo_params uid pid key) db =
      (Inr (CheckoutSuccess (show_nat (order_seq db)) t False), db')" "s_outbox db' = [y]" "one_event lib e y" "ob_id y = cc_rowId c"
    "shop_ok db'" "map or_buyer (s_orders db') = map or_buyer (s_orders db) @ [uid]"
proof -
  let ?p = "demo_params uid pid key"
  obtain r u where ru: "r \<in> set (s_products db)" "u \<in> set (s_users db)" "p_price r = 100" "p_stock r = n" "a_balance u = 1000000"
    and a: "valid_request env ?p r u" "unit_amount (p_price r) 1 \<le> a_balance u" "shop_ok db" "a_id u = uid"
    by (rule stocked_request [OF s io, of key])
  have q: "cp_quantity ?p = 1" by (simp add: demo_params_def plain_params_def)
  have "fst (claim_key (cp_idempotencyKey ?p) db)"
    using s by (simp add: demo_params_def claim_key_def insert_on_conflict_def stocked_def)
  then obtain t where co: "checkout env c ?p db = (Inr (CheckoutSuccess (show_nat (order_seq db)) t False), sold env c ?p r u db)"
    using checkout_succeeds [OF a(3) ru(1,2) a(1) hook] q n a(2) ru(4) by auto
  obtain y e where y: "s_outbox (sold env c ?p r u db) = s_outbox db @ [y]" "one_event lib e y" "ob_id y = cc_rowId c"
    "op_eventId e = eventIdFor (ce_sha1 env) ''order.placed'' (show_nat (order_seq db))" "od_orderId (op_data e) = show_nat (order_seq db)"
    by (rule sold_event [OF a(3) lib dt ru(1,2), of ?p])
      (use a(1) in \<open>simp_all add: valid_request_def q ru(3,5)\<close>)
  have "shop_ok (sold env c ?p r u db)" using shop_ok_checkout [OF a(3), of env c ?p] co by simp
  moreover have "map or_buyer (s_orders (sold env c ?p r u db)) = map or_buyer (s_orders db) @ [uid]"
    by (simp add: sold_def Let_def a(4))
  ultimately show thesis using that [OF co _ y(2,3)] y(1) s by (simp add: stocked_def)
qed

lemma filter_by_key: "map f xs = ys \<Longrightarrow> length (filter (\<lambda>x. f x = k) xs) = length (filter (\<lambda>y. y = k) ys)"
  by (auto simp: filter_map o_def)

lemma bought_count:
  assumes "countOrders uid w = 0" "map or_buyer (s_orders (dw_shop w')) = map or_buyer (s_orders (dw_shop w)) @ [uid]"
  shows "countOrders uid w' = 1"
  using assms filter_by_key [of or_buyer "s_orders (dw_shop w)" "map or_buyer (s_orders (dw_shop w))" uid]
    filter_by_key [OF assms(2), of uid] by (simp add: countOrders_def)

subsection \<open>demo:outbox\<close>

text \<open>The background relay for some ticks, against this broker.\<close>

definition relay_ticks :: "nat \<Rightarrow> (nat \<Rightarrow> rat) \<Rightarrow> demo_world \<Rightarrow> unit res \<times> demo_world" where
  "relay_ticks n now w =
     (case startRelay n None (\<lambda>_. {}) (\<lambda>_. row_wire w) now 0 0 (s_outbox (dw_shop w)) of
        (_, t, sent) \<Rightarrow> (Inr (), after_relay t sent w))"

definition order_request :: "int \<Rightarrow> int \<Rightarrow> string \<Rightarrow> api_request" where
  "order_request uid pid key = \<lparr>rq_method = ''POST'', rq_url = ''/orders'', rq_key = Some key,
     rq_body = Some (JObj [(''buyer_id'', JStr (bigint_text uid)), (''product_id'', JStr (bigint_text pid)), (''quantity'', JNum 1)])\<rparr>"

definition demo_key :: "nat \<Rightarrow> string" where
  "demo_key ms = ''demo-outbox-'' @ show_nat ms"

fun body_order :: "api_body \<Rightarrow> string option" where
  "body_order (ApiOrder i _) = Some i"
| "body_order (ApiProblem _) = None"

text \<open>The clients' calls \<open>c1\<close>, \<open>c2\<close> carry the same key; \<open>ms\<close> is the clock the key is made of.\<close>

definition demo_outbox ::
    "checkout_env \<Rightarrow> schema_lib \<Rightarrow> checkout_call \<Rightarrow> checkout_call \<Rightarrow> nat \<Rightarrow> nat \<Rightarrow> (nat \<Rightarrow> rat) \<Rightarrow> nat list \<Rightarrow>
     demo_world \<Rightarrow> nat res \<times> demo_world" where
  "demo_outbox env lib c1 c2 ms ticks now ks =
     then_run (prepareWorld ''happy'') (\<lambda>(uid, pid).
     then_run (startConsumer None) (\<lambda>_.
     then_run (post_in env c1 (order_request uid pid (demo_key ms))) (\<lambda>r1.
     then_run (post_in env c2 (order_request uid pid (demo_key ms))) (\<lambda>r2.
     then_run (\<lambda>w. (Inr (int (countOutbox w) - int (countPublished w)), w)) (\<lambda>unpublishedBefore.
     then_run (relay_ticks ticks now) (\<lambda>_.
     then_run (deliver_now lib ks) (\<lambda>_.
     then_run (wait_until (\<lambda>w. 1 \<le> countPublished w \<and> 1 \<le> acked (stats_of w))) (\<lambda>_.
     check_world (\<lambda>w.
       violation (ar_status r1 \<noteq> 201) ''status1'' @
       violation (ar_status r2 \<noteq> 200 \<or> \<not> ar_replayed r2) ''status2'' @
       violation (body_order (ar_body r1) \<noteq> body_order (ar_body r2)) ''same-order'' @
       violation (countOrders uid w \<noteq> 1) ''orders'' @
       violation (countOutbox w \<noteq> 1) ''outbox'' @
       violation (unpublishedBefore \<noteq> 1) ''unpublished-before-relay'' @
       violation (countPublished w \<noteq> 1) ''published'' @
       violation (countEffects w \<noteq> 1) ''effect'' @
       violation (countProcessed w \<noteq> 1) ''processed'')))))))))"

lemma startRelay_idle:
  assumes "all_good (\<lambda>_. wire) (\<lambda>_ _. None)" "unpublished t = []"
  shows "snd (startRelay n None (\<lambda>_. {}) (\<lambda>_. wire) now k ret t) = (t, [])"
proof (induction n arbitrary: k ret)
  case (Suc n)
  have "relay_tick 50 {} wire (now k) ret t = (True, t, [], ret)"
    using relayOnce_good [OF assms(1), of 50 "now k" ret t] assms(2) by (simp add: relay_tick_def in_order_def Let_def)
  then show ?case using Suc.IH [of "Suc k" ret] by (simp add: case_prod_unfold)
qed simp

text \<open>One event waits in the outbox: the first tick sends it.\<close>

definition row_sent :: "rat \<Rightarrow> outbox_row \<Rightarrow> outbox_row" where
  "row_sent now y = y\<lparr>ob_published_at := Some now, ob_attempts := ob_attempts y + 1\<rparr>"

lemma one_row:
  assumes "ob_published_at y = None"
  shows "unpublished [y] = [y]" "in_order [y] = [y]" "mark_published now [ob_id y] [y] = [row_sent now y]" "unpublished [row_sent now y] = []"
  using assms by (simp_all add: unpublished_def in_order_def mark_published_def row_sent_def)

lemma relay_ticks_one:
  assumes b: "dw_broker w = fresh_broker" and o: "s_outbox (dw_shop w) = [y]" and e: "one_event lib e y" and n: "0 < ticks"
  obtains t where "relay_ticks ticks now w = (Inr (), w\<lparr>dw_shop := (dw_shop w)\<lparr>s_outbox := [row_sent t y]\<rparr>,
     dw_side := publish_all [Some (ob_payload y)] (dw_side w)\<rparr>)"
proof -
  have y: "ob_published_at y = None" "ob_type y = ''order.placed''" using e by (simp_all add: one_event_def)
  note row = one_row [OF y(1)]
  have good: "all_good (\<lambda>_. row_wire w) (\<lambda>_ _. None)" using b by (simp add: all_good_def row_wire_def fresh_wire)
  obtain m where m: "ticks = Suc m" using n by (cases ticks) auto
  have tick: "relay_tick 50 {} (row_wire w) (now 0) 0 [y] = (False, [row_sent (now 0) y], [y], 0)"
    using relayOnce_good [OF good, of 50 "now 0" 0 "[y]"] row by (simp add: relay_tick_def Let_def)
  have run: "snd (startRelay ticks None (\<lambda>_. {}) (\<lambda>_. row_wire w) now 0 0 [y]) = ([row_sent (now 0) y], [y])"
    using startRelay_idle [OF good row(4), of m now 1 0] tick by (simp add: m case_prod_unfold)
  show thesis
    by (rule that [of "now 0"])
      (use run y b in \<open>simp add: relay_ticks_def o case_prod_unfold after_relay_fresh\<close>)
qed

lemma order_request_accepted:
  assumes "length (show_nat ms) \<le> 200"
  shows "accepted (order_request uid pid (demo_key ms)) (demo_params uid pid (demo_key ms))"
proof -
  have "js_space CHR ''d'' = False" by code_simp
  moreover have "bigint_text uid \<noteq> ''''" "bigint_text pid \<noteq> ''''" using show_nat_nonempty by (simp_all add: bigint_text_def)
  ultimately show ?thesis
    using assms by (simp add: accepted_def order_request_def BodySchema_def valid_key_def MAX_KEY_LENGTH_def demo_params_def plain_params_def
        demo_key_def)
qed


text \<open>What the run of one event comes to once the consumer got the message.\<close>

lemma one_message:
  assumes e: "one_event lib e y" and s: "cs_work s = []" "cs_db s = empty_tables" and ks: "ks \<noteq> []"
  shows "cs_work (fold (deliver_at lib) ks (publish_all [Some (ob_payload y)] s)) = [] \<and>
    cs_stats (fold (deliver_at lib) ks (publish_all [Some (ob_payload y)] s)) = counted 1 0 (cs_stats s) \<and>
    length (order_receipts (cs_db (fold (deliver_at lib) ks (publish_all [Some (ob_payload y)] s)))) = 1 \<and>
    length (processed_messages (cs_db (fold (deliver_at lib) ks (publish_all [Some (ob_payload y)] s)))) = 1"
proof -
  have "waiting lib [e] (publish_all [Some (ob_payload y)] s)"
    using e s by (simp add: waiting_def publish_all_def reads_as_def one_event_def unseen_def empty_tables_def)
  moreover have "length [e] \<le> length ks" using ks by (cases ks) simp_all
  ultimately show ?thesis
    using deliver_all [of lib "[e]" "publish_all [Some (ob_payload y)] s" ks] s(2) by (simp add: publish_all_def empty_tables_def)
qed

text \<open>Two requests with one key make one order, one event, one publication and one effect; the
  event is not published in the transaction of the order, but by the relay later.\<close>

theorem outbox_demo_passes:
  assumes w: "ready_world w" and io: "bigint_io env" and lib: "lib_ok env lib" and dt: "is_datetime lib (cc_placedAt c1)"
    and hook: "cc_hook c1 = None" and ms: "length (show_nat ms) \<le> 200" and n: "0 < ticks" and ks: "ks \<noteq> []"
  shows "exit_code (demo_outbox env lib c1 c2 ms ticks now ks) w = 0"
proof -
  let ?key = "demo_key ms"
  obtain uid pid w1 where 1: "prepareWorld ''happy'' w = (Inr (uid, pid), w1)" and p: "prepared uid pid w1"
    by (rule prepareWorld_ready [OF w])
  let ?w2 = "w1\<lparr>dw_side := (dw_side w1)\<lparr>cs_stats := fresh_stats\<rparr>\<rparr>"
  have st: "stocked DEMO_STOCK uid pid (dw_shop w1)" and q: "empty_queues w1" and n0: "countOrders uid w1 = 0"
    using p by (simp_all add: prepared_def)
  have b: "dw_broker w1 = fresh_broker" using q by (simp add: empty_queues_def)
  note 2 = startConsumer_ready [OF b, of None]
  obtain t e y db where co: "checkout env c1 (demo_params uid pid ?key) (dw_shop w1) =
      (Inr (CheckoutSuccess (show_nat (order_seq (dw_shop w1))) t False), db)"
    and y: "s_outbox db = [y]" "one_event lib e y" "ob_id y = cc_rowId c1"
    and db: "shop_ok db" "map or_buyer (s_orders db) = map or_buyer (s_orders (dw_shop w1)) @ [uid]"
    by (rule stocked_checkout [OF st DEMO_STOCK_pos io lib dt hook, of ?key])
  let ?i = "show_nat (order_seq (dw_shop w1))" and ?req = "order_request uid pid ?key" and ?w3 = "?w2\<lparr>dw_shop := db\<rparr>"
  note acc = order_request_accepted [OF ms, of uid pid]
  have 3: "post_in env c1 ?req ?w2 =
      (Inr \<lparr>ar_status = 201, ar_content_type = ''application/json'', ar_replayed = False, ar_body = ApiOrder ?i t\<rparr>, ?w3)"
    by (simp add: post_in_def createOrdersApi_def api_accepted [OF acc] co)
  have key: "cp_idempotencyKey (demo_params uid pid ?key) = Some ?key" by (simp add: demo_params_def)
  obtain t' where "checkout env c2 (demo_params uid pid ?key) db = (Inr (CheckoutSuccess ?i t' True), db)"
    using st replayed_checkout [OF world_okD(1) co key run_none key, of env c2] by (auto simp: stocked_def)
  then have 4: "post_in env c2 ?req ?w3 =
      (Inr \<lparr>ar_status = 200, ar_content_type = ''application/json'', ar_replayed = True, ar_body = ApiOrder ?i t'\<rparr>, ?w3)"
    by (simp add: post_in_def createOrdersApi_def api_accepted [OF acc])
  have "dw_broker ?w3 = fresh_broker" "s_outbox (dw_shop ?w3) = [y]" using b y by simp_all
  then obtain d where 5: "relay_ticks ticks now ?w3 = (Inr (), ?w3\<lparr>dw_shop := (dw_shop ?w3)\<lparr>s_outbox := [row_sent d y]\<rparr>,
      dw_side := publish_all [Some (ob_payload y)] (dw_side ?w3)\<rparr>)"
    by (rule relay_ticks_one [OF _ _ y(2) n])
  let ?w5 = "?w3\<lparr>dw_shop := db\<lparr>s_outbox := [row_sent d y]\<rparr>,
     dw_side := fold (deliver_at lib) ks (publish_all [Some (ob_payload y)] (dw_side ?w2))\<rparr>"
  have 6: "deliver_now lib ks (?w3\<lparr>dw_shop := db\<lparr>s_outbox := [row_sent d y]\<rparr>,
      dw_side := publish_all [Some (ob_payload y)] (dw_side ?w2)\<rparr>) = (Inr (), ?w5)"
    by (simp add: deliver_now_def deliveries_def)
  have m: "acked (stats_of ?w5) = 1" "countEffects ?w5 = 1" "countProcessed ?w5 = 1"
    using one_message [OF y(2), of "dw_side ?w2" ks] q ks
    by (simp_all add: empty_queues_def countEffects_def countProcessed_def counted_def fresh_stats_def)
  have o: "countOrders uid ?w5 = 1" using db(2) by (intro bought_count [OF n0]) simp
  have c: "countPublished ?w5 = 1" "countOutbox ?w5 = 1" by (simp_all add: countPublished_def countOutbox_def row_sent_def)
  have u: "countOutbox ?w3 = 1" "countPublished ?w3 = 0" using y by (simp_all add: countOutbox_def countPublished_def one_event_def)
  have 7: "wait_until (\<lambda>w. 1 \<le> countPublished w \<and> 1 \<le> acked (stats_of w)) ?w5 = (Inr (), ?w5)"
    using m c by (simp add: wait_until_def)
  show ?thesis
    unfolding exit_code_def demo_outbox_def then_run_def 1 2 3 prod.case sum.case 4 5 u
    using 6 7 m o c by (simp add: check_world_def assertInvariant_def violation_def)
qed

subsection \<open>demo:crash-relay\<close>

text \<open>
  The relay process (\<open>src/outbox/relay-process.ts\<close>): its hook tells the parent that the
  message is published and then waits; the kill that arrives there ends the pass like
  an error would.  The result says whether the process was killed in the hook.
\<close>

definition killed :: exn where "killed = Error ''SIGKILL''"

definition relay_process :: "rat \<Rightarrow> demo_world \<Rightarrow> bool res \<times> demo_world" where
  "relay_process now w =
     (case relay_pass_of {} (\<lambda>_. Some killed) now w of
        (Inl e, w') \<Rightarrow> (if e = killed then Inr True else Inl e, w')
      | (Inr _, w') \<Rightarrow> (Inr False, w'))"

text \<open>The restarted relay tries until its row is published; the locks it meets go one by one.\<close>

fun restarted_relay :: "(string set \<times> rat) list \<Rightarrow> demo_world \<Rightarrow> unit res \<times> demo_world" where
  "restarted_relay [] w = (Inl (Error ''timeout''), w)"
| "restarted_relay ((locked, now) # tries) w =
     (case relay_pass_of locked (\<lambda>_. None) now w of
        (Inl e, w') \<Rightarrow> (Inl e, w')
      | (Inr _, w') \<Rightarrow> if countPublished w' = 1 then (Inr (), w') else restarted_relay tries w')"

definition demo_crash_relay ::
    "checkout_env \<Rightarrow> schema_lib \<Rightarrow> checkout_call \<Rightarrow> rat \<Rightarrow> nat list \<Rightarrow> (string set \<times> rat) list \<Rightarrow> nat list \<Rightarrow>
     demo_world \<Rightarrow> nat res \<times> demo_world" where
  "demo_crash_relay env lib c now ks1 tries ks2 =
     then_run (prepareWorld ''crash-relay'') (\<lambda>(uid, pid).
     then_run (startConsumer None) (\<lambda>_.
     then_run (checkout_in env c (demo_params uid pid ''crash-relay-1'')) (\<lambda>r.
     then_run (\<lambda>w. (case r of CheckoutSuccess _ _ _ \<Rightarrow> Inr () | CheckoutFailure _ \<Rightarrow> Inl (Error ''checkout''), w)) (\<lambda>_.
     then_run (relay_process now) (\<lambda>wasKilled.
     then_run (deliver_now lib ks1) (\<lambda>_.
     then_run (\<lambda>w. (Inr (countPublished w), w)) (\<lambda>publishedAfterKill.
     then_run (restarted_relay tries) (\<lambda>_.
     then_run (deliver_now lib ks2) (\<lambda>_.
     then_run (wait_until (\<lambda>w. 2 \<le> delivered (stats_of w))) (\<lambda>_.
     then_run (wait_until (\<lambda>w. 2 \<le> acked (stats_of w))) (\<lambda>_.
     check_world (\<lambda>w.
       violation (\<not> wasKilled) ''not-killed'' @
       violation (publishedAfterKill \<noteq> 0) ''published-after-kill'' @
       violation (countPublished w \<noteq> 1) ''published'' @
       violation (delivered (stats_of w) < 2) ''deliveries'' @
       violation (applied (stats_of w) \<noteq> 1) ''applied'' @
       violation (countEffects w \<noteq> 1) ''effect'' @
       violation (countProcessed w \<noteq> 1) ''processed''))))))))))))"

lemma fresh_row_wire: "dw_broker w = fresh_broker \<Longrightarrow> row_wire w = (\<lambda>_. \<lparr>w_stored = True, w_returned = False, w_error = None\<rparr>)"
  by (intro ext) (simp add: row_wire_def fresh_wire)

text \<open>A pass over a single row that waits: killed after the publication, locked out, or done.\<close>

lemma relay_pass_one:
  assumes b: "dw_broker w = fresh_broker" and o: "s_outbox (dw_shop w) = [y]" and e: "one_event lib e y"
  defines "sent \<equiv> w\<lparr>dw_side := publish_all [Some (ob_payload y)] (dw_side w)\<rparr>"
  shows "relay_pass_of {} (\<lambda>_. Some x) now w = (Inl x, sent)"
    "ob_id y \<in> locked \<Longrightarrow> relay_pass_of locked (\<lambda>_. None) now w = (Inr \<lparr>rp_claimed = 0, rp_published = 0, rp_error = None\<rparr>, w)"
    "ob_id y \<notin> locked \<Longrightarrow> relay_pass_of locked (\<lambda>_. None) now w =
       (Inr \<lparr>rp_claimed = 1, rp_published = 1, rp_error = None\<rparr>, sent\<lparr>dw_shop := (dw_shop w)\<lparr>s_outbox := [row_sent now y]\<rparr>\<rparr>)"
proof -
  have y: "ob_published_at y = None" "ob_type y = ''order.placed''" using e by (simp_all add: one_event_def)
  have same: "w\<lparr>dw_shop := (dw_shop w)\<lparr>s_outbox := [y]\<rparr>\<rparr> = w" by (simp flip: o)
  have claim: "claim_batch 50 L [y] = (if ob_id y \<in> L then [] else [y])" for L
    using one_row [OF y(1)] by (simp add: claim_batch_def in_order_def)
  note simps = relay_pass_of_def relayOnce_def o claim fresh_row_wire [OF b] publishRaw_def Let_def
  show "relay_pass_of {} (\<lambda>_. Some x) now w = (Inl x, sent)"
    using y b after_relay_fresh [of w "[y]" "[y]"] same by (simp add: simps sent_def)
  show "ob_id y \<in> locked \<Longrightarrow> relay_pass_of locked (\<lambda>_. None) now w = (Inr \<lparr>rp_claimed = 0, rp_published = 0, rp_error = None\<rparr>, w)"
    using b after_relay_fresh [of w "[]" "[y]"] same by (simp add: simps publish_all_def)
  show "ob_id y \<notin> locked \<Longrightarrow> relay_pass_of locked (\<lambda>_. None) now w =
       (Inr \<lparr>rp_claimed = 1, rp_published = 1, rp_error = None\<rparr>, sent\<lparr>dw_shop := (dw_shop w)\<lparr>s_outbox := [row_sent now y]\<rparr>\<rparr>)"
    using y b after_relay_fresh [of w "[y]" "[row_sent now y]"] one_row(3) [OF y(1), of now] by (simp add: simps sent_def)
qed

lemma restarted_relay_one:
  assumes b: "dw_broker w = fresh_broker" and o: "s_outbox (dw_shop w) = [y]" and e: "one_event lib e y"
    and free: "\<exists>(locked, now) \<in> set tries. ob_id y \<notin> locked"
  obtains t where "restarted_relay tries w = (Inr (), w\<lparr>dw_side := publish_all [Some (ob_payload y)] (dw_side w),
      dw_shop := (dw_shop w)\<lparr>s_outbox := [row_sent t y]\<rparr>\<rparr>)"
proof -
  have "\<exists>t. restarted_relay tries w = (Inr (), w\<lparr>dw_side := publish_all [Some (ob_payload y)] (dw_side w),
      dw_shop := (dw_shop w)\<lparr>s_outbox := [row_sent t y]\<rparr>\<rparr>)"
    using free
  proof (induction tries)
    case (Cons x tries)
    obtain L t where x: "x = (L, t)" by fastforce
    have n: "countPublished w = 0" using o e by (simp add: countPublished_def one_event_def)
    show ?case
    proof (cases "ob_id y \<in> L")
      case True
      then show ?thesis using Cons by (simp add: x relay_pass_one(2) [OF b o e True] n)
    next
      case False
      then show ?thesis by (auto simp: x relay_pass_one(3) [OF b o e False] countPublished_def row_sent_def)
    qed
  qed simp
  then show thesis using that by blast
qed

text \<open>Two copies of one message, whenever the first of them is delivered: one effect, one duplicate.\<close>

lemma twice_delivered:
  fixes ks1 :: "nat list"
  assumes e: "one_event lib e y" and s: "cs_work s = []" "cs_db s = empty_tables" and ks: "2 \<le> length ks2"
  defines "s2 \<equiv> fold (deliver_at lib) ks2 (publish_all [Some (ob_payload y)]
     (fold (deliver_at lib) ks1 (publish_all [Some (ob_payload y)] s)))"
  shows "cs_stats s2 = counted 1 1 (cs_stats s) \<and> length (order_receipts (cs_db s2)) = 1 \<and>
    length (processed_messages (cs_db s2)) = 1"
proof -
  let ?m = "\<lparr>m_content = Some (ob_payload y), m_count = 0\<rparr>" and ?p = "publish_all [Some (ob_payload y)]"
  have r: "reads_as lib ?m e" and lim: "within_limits e" and u: "unseen (cs_db s) e"
    using e s by (simp_all add: one_event_def reads_as_def unseen_def empty_tables_def)
  have pub: "?p x = x\<lparr>cs_work := cs_work x @ [?m], cs_sent := Some (ob_payload y) # cs_sent x\<rparr>" for x
    by (simp add: publish_all_def)
  note new = handle_event(1) [OF r lim u]
  have first: "deliver_at lib k (s\<lparr>cs_work := ?m # ms, cs_sent := t\<rparr>) =
      s\<lparr>cs_stats := counted 1 0 (cs_stats s), cs_db := after_event e (cs_db s), cs_work := ms, cs_sent := t\<rparr>"
    if "ms \<in> {[], [?m]}" for ms t k
  proof -
    have at: "(?m # ms) ! (k mod length (?m # ms)) = ?m" "take (k mod length (?m # ms)) (?m # ms) @
        drop (Suc (k mod length (?m # ms))) (?m # ms) = ms"
      using that mod_less_divisor [of 2 k] by (auto simp: less_2_cases_iff numeral_2_eq_2 less_Suc_eq)
    then show ?thesis using new by (simp add: deliver_at_def Let_def)
  qed
  have rest: "fold (deliver_at lib) ks (s\<lparr>cs_stats := counted 1 0 (cs_stats s), cs_db := after_event e (cs_db s), cs_work := ms, cs_sent := t\<rparr>) =
      s\<lparr>cs_stats := counted 1 (length ms) (cs_stats s), cs_db := after_event e (cs_db s), cs_work := [], cs_sent := t\<rparr>"
    if "set ms \<subseteq> {?m}" "length ms \<le> length ks" for ks ms t
  proof -
    have "\<forall>m \<in> set ms. reads_as lib m e" using that(1) r by blast
    then show ?thesis
      using deliver_seen [of "s\<lparr>cs_stats := counted 1 0 (cs_stats s), cs_db := after_event e (cs_db s), cs_work := ms, cs_sent := t\<rparr>"
          lib e ks] lim that(2) by (simp add: after_event_def)
  qed
  have final: "\<exists>t. s2 = s\<lparr>cs_stats := counted 1 1 (cs_stats s), cs_db := after_event e (cs_db s), cs_work := [], cs_sent := t\<rparr>"
  proof (cases ks1)
    case Nil
    obtain k ks where k: "ks2 = k # ks" "1 \<le> length ks" using ks by (cases ks2) auto
    show ?thesis unfolding s2_def Nil k(1) using s(1) first [of "[?m]" k] rest [of "[?m]" ks] k(2) by (auto simp: pub)
  next
    case (Cons k ks)
    show ?thesis unfolding s2_def Cons using s(1) first [of "[]" k] rest [of "[]" ks] rest [of "[?m]" ks2] assms(4)
      by (auto simp: pub)
  qed
  then show ?thesis using s(2) by (auto simp: after_event_def empty_tables_def)
qed

text \<open>C23: an order whose relay is killed after the broker confirmed the event and before the
  outbox row is marked is neither lost nor counted twice: the row is still to be published,
  the restarted relay sends the event again with the same id, and the two deliveries have
  one receipt, wherever the first of them falls.  The run of checkout, relay, broker and
  consumer from any prepared database ends with exit code 0, whatever locks the restarted
  relay meets, provided one of its tries finds the row free and the consumer two deliveries.\<close>

theorem crash_relay_passes:
  assumes w: "ready_world w" and io: "bigint_io env" and lib: "lib_ok env lib" and dt: "is_datetime lib (cc_placedAt c)"
    and hook: "cc_hook c = None" and free: "\<exists>(locked, t) \<in> set tries. cc_rowId c \<notin> locked" and ks: "2 \<le> length ks2"
  shows "exit_code (demo_crash_relay env lib c now ks1 tries ks2) w = 0"
proof -
  obtain uid pid w1 where 1: "prepareWorld ''crash-relay'' w = (Inr (uid, pid), w1)" and p: "prepared uid pid w1"
    by (rule prepareWorld_ready [OF w])
  let ?s2 = "(dw_side w1)\<lparr>cs_stats := fresh_stats\<rparr>" and ?p = "demo_params uid pid ''crash-relay-1''"
  have st: "stocked DEMO_STOCK uid pid (dw_shop w1)" and q: "empty_queues w1" using p by (simp_all add: prepared_def)
  have b: "dw_broker w1 = fresh_broker" using q by (simp add: empty_queues_def)
  note 2 = startConsumer_ready [OF b, of None]
  obtain t e y db where co: "checkout env c ?p (dw_shop w1) = (Inr (CheckoutSuccess (show_nat (order_seq (dw_shop w1))) t False), db)"
    and y: "s_outbox db = [y]" "one_event lib e y" "ob_id y = cc_rowId c"
    and "shop_ok db" "map or_buyer (s_orders db) = map or_buyer (s_orders (dw_shop w1)) @ [uid]"
    by (rule stocked_checkout [OF st DEMO_STOCK_pos io lib dt hook, of "''crash-relay-1''"])
  let ?w3 = "w1\<lparr>dw_side := ?s2, dw_shop := db\<rparr>" and ?pub = "publish_all [Some (ob_payload y)]"
  have 3: "checkout_in env c ?p (w1\<lparr>dw_side := ?s2\<rparr>) = (Inr (CheckoutSuccess (show_nat (order_seq (dw_shop w1))) t False), ?w3)"
    by (simp add: checkout_in_def co)
  have w3: "dw_broker ?w3 = fresh_broker" "s_outbox (dw_shop ?w3) = [y]" using b y by simp_all
  let ?w4 = "w1\<lparr>dw_side := ?pub ?s2, dw_shop := db\<rparr>"
  have 4: "relay_process now ?w3 = (Inr True, ?w4)"
    by (simp add: relay_process_def relay_pass_one(1) [OF w3 y(2)])
  let ?s5 = "fold (deliver_at lib) ks1 (?pub ?s2)" and ?w5 = "w1\<lparr>dw_side := fold (deliver_at lib) ks1 (?pub ?s2), dw_shop := db\<rparr>"
  have 5: "deliver_now lib ks1 ?w4 = (Inr (), ?w5)" by (simp add: deliver_now_def deliveries_def)
  have w5: "dw_broker ?w5 = fresh_broker" "s_outbox (dw_shop ?w5) = [y]" "countPublished ?w5 = 0"
    using b y by (simp_all add: countPublished_def one_event_def)
  obtain d where 6: "restarted_relay tries ?w5 = (Inr (), ?w5\<lparr>dw_side := ?pub (dw_side ?w5),
      dw_shop := (dw_shop ?w5)\<lparr>s_outbox := [row_sent d y]\<rparr>\<rparr>)"
    by (rule restarted_relay_one [OF w5(1,2) y(2)]) (use free y(3) in simp)
  let ?w7 = "w1\<lparr>dw_side := fold (deliver_at lib) ks2 (?pub ?s5), dw_shop := db\<lparr>s_outbox := [row_sent d y]\<rparr>\<rparr>"
  have 7: "deliver_now lib ks2 (?w5\<lparr>dw_side := ?pub (dw_side ?w5), dw_shop := (dw_shop ?w5)\<lparr>s_outbox := [row_sent d y]\<rparr>\<rparr>) = (Inr (), ?w7)"
    by (simp add: deliver_now_def deliveries_def)
  have "cs_work ?s2 = []" "cs_db ?s2 = empty_tables" using q by (simp_all add: empty_queues_def)
  note m = twice_delivered [OF y(2) this ks, of ks1]
  have s: "delivered (stats_of ?w7) = 2" "acked (stats_of ?w7) = 2" "applied (stats_of ?w7) = 1" "countEffects ?w7 = 1" "countProcessed ?w7 = 1"
    using m by (simp_all add: counted_def fresh_stats_def countEffects_def countProcessed_def)
  have c: "countPublished ?w7 = 1" by (simp add: countPublished_def row_sent_def)
  have 8: "wait_until (\<lambda>w. 2 \<le> delivered (stats_of w)) ?w7 = (Inr (), ?w7)" "wait_until (\<lambda>w. 2 \<le> acked (stats_of w)) ?w7 = (Inr (), ?w7)"
    using s by (simp_all add: wait_until_def)
  show ?thesis
    unfolding exit_code_def demo_crash_relay_def then_run_def 1 2 3 prod.case sum.case checkout_result.case 4 5 w5(3) 6 7 8
    using s c by (simp add: check_world_def assertInvariant_def violation_def)
qed

subsection \<open>demo:duplicate\<close>

text \<open>
  The consumer process (\<open>src/messaging/consumer-process.ts\<close>) pauses between effect and ack;
  the parent kills it there, once it reported the effect.  Its stats end with it.
\<close>

definition consumer_process :: "schema_lib \<Rightarrow> nat \<Rightarrow> demo_world \<Rightarrow> nat res \<times> demo_world" where
  "consumer_process lib k w =
     (let s = deliver_at lib k (dw_side w)
      in (if applied (cs_stats s) = applied (stats_of w) then Inl (Error ''timeout'') else Inr (delivered (cs_stats s) - delivered (stats_of w)),
          w\<lparr>dw_side := killed_at lib k (dw_side w)\<rparr>))"

definition demo_duplicate :: "(string \<Rightarrow> 8 word list) \<Rightarrow> string \<Rightarrow> schema_lib \<Rightarrow> nat \<Rightarrow> nat list \<Rightarrow> demo_world \<Rightarrow> nat res \<times> demo_world" where
  "demo_duplicate sha1 now lib k ks =
     then_run resetState (\<lambda>_.
     then_run (startConsumer None) (\<lambda>_.
     then_run (publishOrderPlaced (buildOrderPlaced sha1 now
         \<lparr>od_orderId = ''dup-demo-1'', od_buyerId = ''u-dup'', od_productId = ''p-dup'', od_quantity = 1, od_totalAmount = 100\<rparr>)) (\<lambda>_.
     then_run (consumer_process lib k) (\<lambda>received.
     then_run (startConsumer None) (\<lambda>_.
     then_run (deliver_now lib ks) (\<lambda>_.
     then_run (wait_until (\<lambda>w. 1 \<le> acked (stats_of w))) (\<lambda>_.
     check_world (\<lambda>w.
       violation (received + delivered (stats_of w) < 2) ''deliveries'' @
       violation (countEffects w \<noteq> 1) ''effect'' @
       violation (skipped (stats_of w) \<noteq> 1) ''skipped'' @
       violation (depth WORK_QUEUE w \<noteq> 0) ''work''))))))))"

text \<open>The unacknowledged message comes back, the second consumer skips it and acknowledges.\<close>

theorem duplicate_demo_passes:
  assumes w: "ready_world w" and sha1: "\<forall>s. length (sha1 s) = 20" and lib: "accepts_uuids lib" "is_datetime lib now" and ks: "ks \<noteq> []"
  shows "exit_code (demo_duplicate sha1 now lib k ks) w = 0"
proof -
  obtain w1 where 1: "resetState w = (Inr (), w1)" and q: "empty_queues w1" by (rule resetState_ready [OF w])
  let ?e = "buildOrderPlaced sha1 now
     \<lparr>od_orderId = ''dup-demo-1'', od_buyerId = ''u-dup'', od_productId = ''p-dup'', od_quantity = 1, od_totalAmount = 100\<rparr>"
  let ?s2 = "(dw_side w1)\<lparr>cs_stats := fresh_stats\<rparr>" and ?c = "Some (event_json ?e)"
  let ?m = "\<lparr>m_content = ?c, m_count = 0\<rparr>" and ?m1 = "\<lparr>m_content = ?c, m_count = 1\<rparr>"
  have b: "dw_broker w1 = fresh_broker" using q by (simp add: empty_queues_def)
  note 2 = startConsumer_ready [OF b, of None]
  have 3: "publishOrderPlaced ?e (w1\<lparr>dw_side := ?s2\<rparr>) = (Inr (), w1\<lparr>dw_side := publish_all [?c] ?s2\<rparr>)"
    using b by (simp add: publishOrderPlaced_def publish_to_fresh)
  have "is_uuid lib (op_eventId ?e)"
    using eventIdFor_uuid [of sha1 "''order.placed''" "''dup-demo-1''"] sha1 lib(1) by (simp add: buildOrderPlaced_def accepts_uuids_def)
  then have "OrderPlacedSchema lib (event_json ?e) = Some ?e"
    using lib(2) by (intro parse_event_json [where q = 1]) (simp_all add: buildOrderPlaced_def)
  then have r: "reads_as lib ?m ?e" "reads_as lib ?m1 ?e" by (simp_all add: reads_as_def)
  have "js_decimal 100 = 100" by code_simp
  then have lim: "within_limits ?e" by (simp add: within_limits_def buildOrderPlaced_def round2_def)
  have db: "cs_db ?s2 = empty_tables" "cs_work ?s2 = []" using q by (simp_all add: empty_queues_def)
  then have "unseen (cs_db ?s2) ?e" by (simp add: unseen_def empty_tables_def)
  note h = handle_event(1) [OF r(1) lim this, of fresh_stats]
  let ?s3 = "?s2\<lparr>cs_db := after_event ?e empty_tables, cs_work := [?m1], cs_sent := ?c # cs_sent ?s2\<rparr>"
  have 4: "consumer_process lib k (w1\<lparr>dw_side := publish_all [?c] ?s2\<rparr>) = (Inr 1, w1\<lparr>dw_side := ?s3\<rparr>)"
    using h db by (simp add: consumer_process_def deliver_at_def killed_at_def publish_all_def requeue_def DELIVERY_LIMIT_def
        counted_def fresh_stats_def Let_def)
  have 5: "startConsumer None (w1\<lparr>dw_side := ?s3\<rparr>) = (Inr PREFETCH, w1\<lparr>dw_side := ?s3\<rparr>)"
    using startConsumer_ready [of "w1\<lparr>dw_side := ?s3\<rparr>" None] b by simp
  have key: "message_key ?e \<in> set (processed_messages (cs_db ?s3))" by (simp add: after_event_def)
  have "fold (deliver_at lib) ks ?s3 = ?s3\<lparr>cs_stats := counted 0 (length (cs_work ?s3)) (cs_stats ?s3), cs_work := []\<rparr>"
    by (rule deliver_seen [of ?s3 lib ?e, OF _ lim key]) (use r ks in \<open>cases ks; simp\<close>)+
  then have 6: "deliver_now lib ks (w1\<lparr>dw_side := ?s3\<rparr>) =
      (Inr (), w1\<lparr>dw_side := ?s3\<lparr>cs_stats := counted 0 1 fresh_stats, cs_work := []\<rparr>\<rparr>)" (is "_ = (_, ?w6)")
    by (simp add: deliver_now_def deliveries_def)
  have 7: "wait_until (\<lambda>w. 1 \<le> acked (stats_of w)) ?w6 = (Inr (), ?w6)" by (simp add: wait_until_def counted_def)
  show ?thesis
    unfolding exit_code_def demo_duplicate_def then_run_def 1 2 3 prod.case sum.case option.case 4 5 6 7
    by (simp add: check_world_def assertInvariant_def violation_def counted_def fresh_stats_def countEffects_def after_event_def
        empty_tables_def depth_def)
qed

subsection \<open>demo:dlq\<close>

definition REASONS :: "string list" where "REASONS = [''rejected'', ''expired'', ''maxlen'', ''delivery_limit'']"

text \<open>The reason the broker notes on a dead letter: returned too often, or rejected.\<close>

definition death_reason :: "Inbox.message \<Rightarrow> string" where
  "death_reason m = (if DELIVERY_LIMIT \<le> m_count m then ''delivery_limit'' else ''rejected'')"

definition dlq_reason :: "demo_world \<Rightarrow> string" where
  "dlq_reason w = (case cs_dlq (dw_side w) of [] \<Rightarrow> '''' | m # _ \<Rightarrow> death_reason m)"

definition demo_dlq :: "schema_lib \<Rightarrow> nat list \<Rightarrow> demo_world \<Rightarrow> nat res \<times> demo_world" where
  "demo_dlq lib ks =
     then_run resetState (\<lambda>_.
     then_run (startConsumer None) (\<lambda>_.
     then_run (publish_to ROUTING_KEY_ORDER_PLACED None) (\<lambda>_.
     then_run (deliver_now lib ks) (\<lambda>_.
     then_run (wait_until (\<lambda>w. depth DLQ w = 1)) (\<lambda>_.
     check_world (\<lambda>w.
       violation (depth WORK_QUEUE w \<noteq> 0) ''work'' @
       violation (depth DLQ w \<noteq> 1) ''dlq'' @
       violation (dlq_reason w \<notin> set REASONS) ''dlq-reason'' @
       violation (countEffects w \<noteq> 0) ''effect''))))))"

theorem dlq_demo_passes:
  assumes w: "ready_world w" and ks: "ks \<noteq> []"
  shows "exit_code (demo_dlq lib ks) w = 0"
proof -
  obtain w1 where 1: "resetState w = (Inr (), w1)" and q: "empty_queues w1" by (rule resetState_ready [OF w])
  let ?s2 = "(dw_side w1)\<lparr>cs_stats := fresh_stats\<rparr>" and ?m = "\<lparr>m_content = None, m_count = 0\<rparr>"
  have b: "dw_broker w1 = fresh_broker" and e: "cs_work (dw_side w1) = []" "cs_dlq (dw_side w1) = []" "cs_db (dw_side w1) = empty_tables"
    using q by (simp_all add: empty_queues_def)
  note 2 = startConsumer_ready [OF b, of None]
  have 3: "publish_to ROUTING_KEY_ORDER_PLACED None (w1\<lparr>dw_side := ?s2\<rparr>) = (Inr (), w1\<lparr>dw_side := publish_all [None] ?s2\<rparr>)"
    using b by (simp add: publish_to_fresh)
  obtain k ks' where k: "ks = k # ks'" using ks by (cases ks) auto
  define s3 where "s3 = deliver_at lib k (publish_all [None] ?s2)"
  have s3: "cs_work s3 = []" "cs_dlq s3 = [?m]" "cs_db s3 = empty_tables"
    using e by (simp_all add: s3_def deliver_at_def publish_all_def handle_def Let_def)
  then have "deliveries lib ks (w1\<lparr>dw_side := publish_all [None] ?s2\<rparr>) = w1\<lparr>dw_side := s3\<rparr>"
    using deliveries_none [of "w1\<lparr>dw_side := s3\<rparr>" lib ks'] by (simp add: deliveries_def k s3_def)
  then have 4: "deliver_now lib ks (w1\<lparr>dw_side := publish_all [None] ?s2\<rparr>) = (Inr (), w1\<lparr>dw_side := s3\<rparr>)"
    by (simp add: deliver_now_def)
  have d: "depth WORK_QUEUE (w1\<lparr>dw_side := s3\<rparr>) = 0" "depth DLQ (w1\<lparr>dw_side := s3\<rparr>) = 1"
    "dlq_reason (w1\<lparr>dw_side := s3\<rparr>) = ''rejected''"
    using s3 queue_names by (simp_all add: depth_def dlq_reason_def death_reason_def DELIVERY_LIMIT_def)
  show ?thesis
    unfolding exit_code_def demo_dlq_def then_run_def 1 2 3 prod.case sum.case 4
    by (simp add: wait_until_def check_world_def assertInvariant_def violation_def d REASONS_def countEffects_def s3 empty_tables_def)
qed

subsection \<open>demo:publish\<close>

definition EVENTS :: nat where "EVENTS = 5"

text \<open>A refused checkout is no error for this run, one that throws is.\<close>

fun run_checkouts :: "checkout_env \<Rightarrow> checkout_params \<Rightarrow> checkout_call list \<Rightarrow> demo_world \<Rightarrow> unit res \<times> demo_world" where
  "run_checkouts env p [] w = (Inr (), w)"
| "run_checkouts env p (c # cs) w =
     (case checkout_in env c p w of (Inl e, w') \<Rightarrow> (Inl e, w') | (Inr _, w') \<Rightarrow> run_checkouts env p cs w')"

definition publish_rows_of :: "demo_world \<Rightarrow> (int \<times> int) res \<times> demo_world" where
  "publish_rows_of w =
     (let (pid, db1) = upsert_product ''MQ-DEMO'' ''demo RabbitMQ'' 100 1000 (\<lambda>r. r\<lparr>p_stock := 1000, p_price := 100\<rparr>) (dw_shop w);
          (uid, db2) = upsert_buyer ''mq-demo@example.com'' 1000000 db1
      in (Inr (uid, pid), w\<lparr>dw_shop := db2\<rparr>))"

definition demo_publish ::
    "checkout_env \<Rightarrow> schema_lib \<Rightarrow> checkout_call list \<Rightarrow> (nat \<Rightarrow> rat) \<Rightarrow> nat list \<Rightarrow> demo_world \<Rightarrow> nat res \<times> demo_world" where
  "demo_publish env lib calls now ks =
     then_run resetState (\<lambda>_.
     then_run publish_rows_of (\<lambda>(uid, pid).
     then_run (startConsumer (Some PREFETCH)) (\<lambda>prefetch.
     then_run (run_checkouts env (plain_params uid pid) calls) (\<lambda>_.
     then_run (relay_rest now) (\<lambda>published.
     then_run (publish_to ''order.unknown'' (Some (JObj []))) (\<lambda>_.
     then_run (deliver_now lib ks) (\<lambda>_.
     then_run (wait_until (\<lambda>w. EVENTS \<le> countEffects w)) (\<lambda>_.
     then_run (wait_until (\<lambda>w. EVENTS \<le> acked (stats_of w))) (\<lambda>_.
     check_world (\<lambda>w.
       violation (published \<noteq> EVENTS) ''published'' @
       violation (countEffects w \<noteq> EVENTS) ''effect'' @
       violation (acked (stats_of w) \<noteq> EVENTS) ''acked'' @
       violation (depth DLQ w \<noteq> 0) ''dlq'' @
       violation (depth WORK_QUEUE w \<noteq> 0) ''work'' @
       violation (depth UNROUTABLE_QUEUE w \<noteq> 1) ''unroutable'' @
       violation (prefetch < 1 \<or> 2000 < prefetch) ''prefetch''))))))))))"

lemma publish_rows_ready:
  assumes w: "world_ok (dw_shop w)" "s_outbox (dw_shop w) = []" "s_keys (dw_shop w) = []"
    and seq: "product_seq (dw_shop w) < 2 ^ 63" "user_seq (dw_shop w) < 2 ^ 63"
  obtains uid pid db where "publish_rows_of w = (Inr (uid, pid), w\<lparr>dw_shop := db\<rparr>)" "stocked 1000 uid pid db"
    "order_seq db = order_seq (dw_shop w)"
proof -
  obtain pid db1 where p: "upsert_product ''MQ-DEMO'' ''demo RabbitMQ'' 100 1000 (\<lambda>r. r\<lparr>p_stock := 1000, p_price := 100\<rparr>) (dw_shop w) = (pid, db1)"
    by fastforce
  obtain uid db2 where b: "upsert_buyer ''mq-demo@example.com'' 1000000 db1 = (uid, db2)" by fastforce
  have "stocked 1000 uid pid db2"
    by (rule upserts_stocked [OF w seq _ _ p b]) (simp_all add: in_int4_def)
  moreover have "order_seq db2 = order_seq (dw_shop w)"
    using p b by (auto simp: upsert_product_def upsert_buyer_def Let_def split: option.splits)
  ultimately show thesis using that p b by (simp add: publish_rows_of_def)
qed

lemma run_checkouts_events:
  assumes "shop_ok (dw_shop w)" "r \<in> set (s_products (dw_shop w))" "u \<in> set (s_users (dw_shop w))" "plain_request env p r u"
    and "cp_quantity p = 1" "p_price r = 100" "int (length cs) \<le> p_stock r" "100 + of_nat (length cs) * 100 \<le> a_balance u"
    and "\<forall>c \<in> set cs. cc_hook c = None \<and> is_datetime lib (cc_placedAt c)" and lib: "lib_ok env lib"
  shows "\<exists>db ys es. run_checkouts env p cs w = (Inr (), w\<lparr>dw_shop := db\<rparr>) \<and> s_outbox db = s_outbox (dw_shop w) @ ys \<and>
    list_all2 (one_event lib) es ys \<and> map ob_id ys = map cc_rowId cs \<and>
    map (\<lambda>e. (op_eventId e, od_orderId (op_data e))) es =
      map (\<lambda>i. (eventIdFor (ce_sha1 env) ''order.placed'' (show_nat i), show_nat i)) [order_seq (dw_shop w) ..< order_seq (dw_shop w) + length cs]"
  using assms(1-9)
proof (induction cs arbitrary: w r u)
  case Nil
  have "run_checkouts env p [] w = (Inr (), w\<lparr>dw_shop := dw_shop w\<rparr>)" by simp
  then show ?case by (intro exI [of _ "dw_shop w"] exI [of _ "[]"]) simp
next
  case (Cons c cs)
  let ?db = "sold env c p r u (dw_shop w)"
  have ua: "unit_amount (p_price r) (cp_quantity p) = 100" by (simp add: Cons.prems(5,6) unit_amount_def js_decimal_whole)
  have stock: "cp_quantity p \<le> p_stock r" using Cons.prems(5,7) by simp
  have money: "unit_amount (p_price r) (cp_quantity p) + of_nat (Suc (length cs)) * (p_price r * of_int (cp_quantity p)) \<le> a_balance u"
    using Cons.prems(5,6,8) ua by simp
  have hook: "cc_hook c = None" using Cons.prems(9) by simp
  obtain r1 u1 i t where co: "checkout env c p (dw_shop w) = (Inr (CheckoutSuccess i t False), ?db)" and ok: "shop_ok ?db"
    and r1: "r1 = r\<lparr>p_stock := p_stock r - cp_quantity p\<rparr>" "r1 \<in> set (s_products ?db)"
    and u1: "u1 \<in> set (s_users ?db)" "plain_request env p r1 u1"
      "unit_amount (p_price r1) (cp_quantity p) + of_nat (length cs) * (p_price r1 * of_int (cp_quantity p)) \<le> a_balance u1"
    using checkouts_sold [OF Cons.prems(1-4) hook stock money] by metis
  have "0 \<le> of_nat (length cs) * (100 :: rat)" by simp
  then have le: "p_price r * of_int (cp_quantity p) \<le> a_balance u" using Cons.prems(5,6,8) by (simp add: distrib_right)
  have dt: "is_datetime lib (cc_placedAt c)" using Cons.prems(9) by simp
  obtain y e where y: "s_outbox ?db = s_outbox (dw_shop w) @ [y]" "one_event lib e y" "ob_id y = cc_rowId c"
    "op_eventId e = eventIdFor (ce_sha1 env) ''order.placed'' (show_nat (order_seq (dw_shop w)))"
    "od_orderId (op_data e) = show_nat (order_seq (dw_shop w))"
    by (rule sold_event [OF Cons.prems(1) lib dt Cons.prems(2,3) _ _ _ le])
      (use Cons.prems(4-6) in \<open>simp_all add: plain_request_def valid_request_def\<close>)
  let ?w = "w\<lparr>dw_shop := ?db\<rparr>"
  have seq: "order_seq ?db = Suc (order_seq (dw_shop w))" by (simp add: sold_def Let_def)
  have "p_price r1 = 100" "int (length cs) \<le> p_stock r1" "100 + of_nat (length cs) * 100 \<le> a_balance u1"
    using Cons.prems(5-7) u1(3) ua by (simp_all add: r1(1))
  then obtain db ys es where rest: "run_checkouts env p cs ?w = (Inr (), ?w\<lparr>dw_shop := db\<rparr>)" "s_outbox db = s_outbox ?db @ ys"
    "list_all2 (one_event lib) es ys" "map ob_id ys = map cc_rowId cs" "map (\<lambda>e. (op_eventId e, od_orderId (op_data e))) es =
      map (\<lambda>i. (eventIdFor (ce_sha1 env) ''order.placed'' (show_nat i), show_nat i)) [order_seq ?db ..< order_seq ?db + length cs]"
    using Cons.IH [of ?w r1 u1] ok r1(2) u1(1,2) Cons.prems(5,9) by auto
  have "[order_seq (dw_shop w) ..< order_seq (dw_shop w) + length (c # cs)] =
      order_seq (dw_shop w) # [order_seq ?db ..< order_seq ?db + length cs]" by (subst upt_conv_Cons) (simp_all add: seq)
  then show ?case
    using rest y by (intro exI [of _ db] exI [of _ "y # ys"] exI [of _ "e # es"]) (simp add: checkout_in_def co)
qed

lemma distinct_map_in_order: "distinct (map g (in_order t)) = distinct (map g t)"
  by (simp add: in_order_def distinct_map)

lemma distinct_events:
  assumes lib: "lib_ok env lib" and es: "map (\<lambda>e. (op_eventId e, od_orderId (op_data e))) es =
      map (\<lambda>i. (eventIdFor (ce_sha1 env) ''order.placed'' (show_nat i), show_nat i)) [m ..< n]"
    and ids: "inj_on (\<lambda>i. eventIdFor (ce_sha1 env) ''order.placed'' (show_nat i)) {m ..< n}"
  shows "distinct (map message_key es)" "distinct (map (\<lambda>e. od_orderId (op_data e)) es)"
proof -
  have pairs: "map op_eventId es = map (\<lambda>i. eventIdFor (ce_sha1 env) ''order.placed'' (show_nat i)) [m ..< n]"
    "map (\<lambda>e. od_orderId (op_data e)) es = map show_nat [m ..< n]"
    using arg_cong [OF es, of "map fst"] arg_cong [OF es, of "map snd"] by (simp_all add: o_def)
  have "uuid_value x = x" if "x \<in> set (map op_eventId es)" for x
    using that unfolding pairs(1) by (auto simp: lib_ok_uuid [OF lib])
  then have "map message_key es = map (\<lambda>i. (i, CONSUMER_NAME)) (map op_eventId es)" by (simp add: message_key_def)
  moreover have "distinct (map op_eventId es)" using ids by (simp add: pairs(1) distinct_map)
  ultimately show "distinct (map message_key es)" by (simp add: distinct_map inj_on_def)
  show "distinct (map (\<lambda>e. od_orderId (op_data e)) es)" by (simp add: pairs(2) distinct_map inj_on_def show_nat_inj)
qed

lemma publish_all_keeps:
  "cs_work (publish_all cs s) = cs_work s @ map (\<lambda>c. \<lparr>m_content = c, m_count = 0\<rparr>) cs"
  "cs_db (publish_all cs s) = cs_db s" "cs_dlq (publish_all cs s) = cs_dlq s" "cs_stats (publish_all cs s) = cs_stats s"
  by (induction cs arbitrary: s) (simp_all add: publish_all_def)

lemma relayed_waiting:
  assumes ev: "list_all2 (one_event lib) es ys" and d: "distinct (map message_key es)" "distinct (map (\<lambda>e. od_orderId (op_data e)) es)"
    and s: "cs_work s = []" "cs_db s = empty_tables"
  shows "unpublished ys = ys \<and> (\<forall>y \<in> set ys. ob_type y = ''order.placed'') \<and> (\<exists>es'. length es' = length ys \<and>
    waiting lib es' (publish_all (map (\<lambda>r. Some (ob_payload r)) (in_order ys)) s))"
proof -
  let ?f = "\<lambda>y. the (OrderPlacedSchema lib (ob_payload y))"
  have y: "one_event lib (?f y) y" if y: "y \<in> set ys" for y
  proof -
    obtain e where "one_event lib e y" using ev y by (metis in_set_conv_nth list_all2_conv_all_nth)
    then show ?thesis by (simp add: one_event_def)
  qed
  have es: "map ?f ys = es" using ev by (induction rule: list_all2_induct) (simp_all add: one_event_def)
  have "unpublished ys = ys" using y by (auto simp: unpublished_def one_event_def filter_id_conv)
  moreover have "\<forall>y \<in> set ys. ob_type y = ''order.placed''" using y by (simp add: one_event_def)
  moreover have "list_all2 (reads_as lib) (map (\<lambda>y. \<lparr>m_content = Some (ob_payload y), m_count = 0\<rparr>) (in_order ys)) (map ?f (in_order ys))"
    using y by (simp add: list.rel_map list_all2_same reads_as_def one_event_def)
  moreover have "distinct (map (\<lambda>y. message_key (?f y)) (in_order ys))" "distinct (map (\<lambda>y. od_orderId (op_data (?f y))) (in_order ys))"
    using d by (simp_all add: distinct_map_in_order flip: es) (simp_all add: o_def)
  moreover have "within_limits e \<and> unseen empty_tables e" if "e \<in> set (map ?f (in_order ys))" for e
    using that y by (auto simp: one_event_def unseen_def empty_tables_def)
  ultimately have "waiting lib (map ?f (in_order ys)) (publish_all (map (\<lambda>r. Some (ob_payload r)) (in_order ys)) s)"
    using s by (simp add: waiting_def publish_all_keeps o_def)
  moreover have "length (map ?f (in_order ys)) = length ys" by (simp add: in_order_def)
  ultimately show ?thesis using \<open>unpublished ys = ys\<close> \<open>\<forall>y \<in> set ys. ob_type y = _\<close> by blast
qed

text \<open>Five orders give five publications and five effects in whatever order the relay sends them
  and the consumer takes them, and the message nobody bound a queue for is kept.  The
  ids of the five events have to differ, which sha1 is trusted with.\<close>

theorem publish_demo_passes:
  assumes w: "ready_world w" and io: "bigint_io env" and lib: "lib_ok env lib"
    and calls: "length calls = EVENTS" "\<forall>c \<in> set calls. cc_hook c = None \<and> is_datetime lib (cc_placedAt c)" "distinct (map cc_rowId calls)"
    and ids: "inj_on (\<lambda>i. eventIdFor (ce_sha1 env) ''order.placed'' (show_nat i)) {order_seq (dw_shop w) ..< order_seq (dw_shop w) + EVENTS}"
    and ks: "EVENTS \<le> length ks"
  shows "exit_code (demo_publish env lib calls now ks) w = 0"
proof -
  obtain w1 where 1: "resetState w = (Inr (), w1)" and q: "empty_queues w1"
    and shop: "dw_shop w1 = (dw_shop w)\<lparr>s_keys := [], s_outbox := []\<rparr>" "world_ok (dw_shop w1)" by (rule resetState_ready [OF w])
  obtain uid pid db2 where 2: "publish_rows_of w1 = (Inr (uid, pid), w1\<lparr>dw_shop := db2\<rparr>)" and st: "stocked 1000 uid pid db2"
    and seq: "order_seq db2 = order_seq (dw_shop w)"
    using w shop publish_rows_ready [of w1] by (auto simp: ready_world_def)
  have br: "dw_broker w1 = fresh_broker" using q by (simp add: empty_queues_def)
  let ?s2 = "(dw_side w1)\<lparr>cs_stats := fresh_stats\<rparr>" and ?w2 = "w1\<lparr>dw_shop := db2, dw_side := (dw_side w1)\<lparr>cs_stats := fresh_stats\<rparr>\<rparr>"
  have 3: "startConsumer (Some PREFETCH) (w1\<lparr>dw_shop := db2\<rparr>) = (Inr PREFETCH, ?w2)"
    using startConsumer_ready [of "w1\<lparr>dw_shop := db2\<rparr>" "Some PREFETCH"] br by simp
  obtain r u where ru: "r \<in> set (s_products db2)" "u \<in> set (s_users db2)" "p_price r = 100" "p_stock r = 1000" "a_balance u = 1000000"
    "plain_request env (plain_params uid pid) r u" "shop_ok db2" by (rule stocked_request [OF st io])
  obtain db ys es where run: "run_checkouts env (plain_params uid pid) calls ?w2 = (Inr (), ?w2\<lparr>dw_shop := db\<rparr>)" "s_outbox db = ys"
    and ev: "list_all2 (one_event lib) es ys" and rows: "map ob_id ys = map cc_rowId calls"
    and es: "map (\<lambda>e. (op_eventId e, od_orderId (op_data e))) es =
      map (\<lambda>i. (eventIdFor (ce_sha1 env) ''order.placed'' (show_nat i), show_nat i)) [order_seq (dw_shop w) ..< order_seq (dw_shop w) + EVENTS]"
    using run_checkouts_events [of ?w2 r u env "plain_params uid pid" calls lib] ru calls(1,2) lib seq st
    by (auto simp: plain_params_def EVENTS_def stocked_def)
  note d = distinct_events [OF lib es ids]
  have n: "length ys = EVENTS" using rows calls(1) by (metis length_map)
  have s2: "cs_work ?s2 = []" "cs_db ?s2 = empty_tables" "cs_dlq ?s2 = []" using q by (simp_all add: empty_queues_def)
  note wt = relayed_waiting [OF ev d s2(1,2)]
  let ?w4 = "?w2\<lparr>dw_shop := db\<rparr>" and ?sent = "publish_all (map (\<lambda>r. Some (ob_payload r)) (in_order ys)) ?s2"
  have "dw_broker ?w4 = fresh_broker" "distinct (map ob_id (s_outbox (dw_shop ?w4)))" "\<forall>r \<in> set (s_outbox (dw_shop ?w4)). ob_type r = ''order.placed''"
    using br run(2) rows calls(3) wt by simp_all
  then obtain t where 5: "relay_rest now ?w4 = (Inr EVENTS, ?w4\<lparr>dw_shop := db\<lparr>s_outbox := t\<rparr>, dw_side := ?sent\<rparr>)"
    using relay_rest_fresh [of ?w4 now] wt n by (auto simp: run(2))
  let ?w5 = "?w4\<lparr>dw_shop := db\<lparr>s_outbox := t\<rparr>, dw_side := ?sent\<rparr>"
  let ?w6 = "?w5\<lparr>dw_unroutable := [Some (JObj [])]\<rparr>" and ?s7 = "fold (deliver_at lib) ks ?sent"
  have 6: "publish_to ''order.unknown'' (Some (JObj [])) ?w5 = (Inr (), ?w6)"
    using publish_to_fresh(2) [of ?w5 "''order.unknown''"] br q by (simp add: empty_queues_def)
  have 7: "deliver_now lib ks ?w6 = (Inr (), ?w6\<lparr>dw_side := ?s7\<rparr>)" by (simp add: deliver_now_def deliveries_def)
  obtain es' where "length es' = EVENTS" "waiting lib es' ?sent" using wt n by auto
  note del = deliver_all [OF this(2), of ks, unfolded this(1), OF ks]
  have keep: "cs_dlq ?sent = []" "cs_stats ?sent = fresh_stats" "cs_db ?sent = empty_tables"
    using s2(2,3) by (simp_all add: publish_all_keeps)
  let ?w7 = "?w6\<lparr>dw_side := ?s7\<rparr>"
  have s: "countEffects ?w7 = EVENTS" "acked (stats_of ?w7) = EVENTS" "depth DLQ ?w7 = 0" "depth WORK_QUEUE ?w7 = 0" "depth UNROUTABLE_QUEUE ?w7 = 1"
    using del keep queue_names by (simp_all add: countEffects_def counted_def fresh_stats_def depth_def empty_tables_def)
  show ?thesis
    unfolding exit_code_def demo_publish_def then_run_def 1 2 3 prod.case sum.case option.case run(1) 5 6 7
    using s by (simp add: wait_until_def check_world_def assertInvariant_def violation_def PREFETCH_def)
qed

subsection \<open>Instances\<close>

text \<open>Digests that tell the last characters of the input apart, enough for a few orders.\<close>

definition last_char_sha1 :: "string \<Rightarrow> 8 word list" where
  "last_char_sha1 s = (case map_of (zip ''12345'' [1, 2, 3, 4, 5]) (last s) of None \<Rightarrow> 0 | Some b \<Rightarrow> b) # replicate 19 0"

definition run_env :: checkout_env where
  "run_env = \<lparr>ce_sha1 = last_char_sha1, ce_bigint = read_int\<rparr>"

definition run_world :: demo_world where
  "run_world = \<lparr>dw_shop = example_shop 1, dw_side = empty_consumer, dw_broker = empty_broker, dw_unroutable = []\<rparr>"

lemma run_world_ready: "ready_world run_world"
  using example_world by (simp add: ready_world_def run_world_def) (simp add: example_shop_def)

lemma run_env_facts: "bigint_io run_env" "lib_ok run_env example_schema" "is_datetime example_schema (cc_placedAt (example_call None))"
proof -
  show "bigint_io run_env" by (simp add: bigint_io_def run_env_def read_bigint_text)
qed (simp_all add: run_env_def lib_ok_def last_char_sha1_def read_int_def accepts_uuids_def example_schema_def example_call_def)

theorem crash_relay_passes_witness:
  "exit_code (demo_crash_relay run_env example_schema (example_call None) 1 [] [({cc_rowId (example_call None)}, 2), ({}, 3)] [0, 1]) run_world = 0"
  by (rule crash_relay_passes [OF run_world_ready run_env_facts]) (simp_all add: example_call_def)

lemma event_id_start:
  assumes "sha1 (ty @ '':'' @ k) = b # replicate 19 0"
  shows "take 2 (eventIdFor sha1 ty k) = hex_byte b"
proof -
  define h where "h = (b # replicate 19 0)[6 := ((b # replicate 19 0) ! 6 AND 0x0f) OR 0x50]"
  define h2 where "h2 = h[8 := (h ! 8 AND 0x3f) OR 0x80]"
  have "h2 \<noteq> []" "h2 ! 0 = b" by (simp_all add: h2_def h_def)
  then obtain t where t: "h2 = b # t" by (cases h2) auto
  have "take 2 (str_slice 0 8 (to_hex (take 16 h2))) = hex_byte b"
    by (simp add: t str_slice_def to_hex_def hex_byte_def)
  moreover have "\<exists>r. eventIdFor sha1 ty k = str_slice 0 8 (to_hex (take 16 h2)) @ r"
    unfolding eventIdFor_def assms Let_def h2_def h_def by blast
  moreover have "2 \<le> length (str_slice 0 8 (to_hex (take 16 h2)))" by (simp add: str_slice_def t)
  ultimately show ?thesis by auto
qed

theorem publish_demo_passes_witness:
  "exit_code (demo_publish run_env example_schema (map (\<lambda>i. (example_call None)\<lparr>cc_rowId := show_nat i\<rparr>) [0 ..< 5]) (\<lambda>_. 1) [4, 3, 2, 1, 0]) run_world = 0"
proof -
  have seq: "order_seq (dw_shop run_world) = 1" by (simp add: run_world_def example_shop_def)
  let ?byte = "\<lambda>c. (case map_of (zip ''12345'' [1, 2, 3, 4, 5]) c of None \<Rightarrow> 0 | Some b \<Rightarrow> b) :: 8 word"
  have start: "take 2 (eventIdFor last_char_sha1 ''order.placed'' (show_nat i)) = hex_byte (?byte (last (show_nat i)))" for i
    by (rule event_id_start) (simp add: last_char_sha1_def)
  have chars: "map (\<lambda>i. last (show_nat i)) [1, 2, 3, 4, 5] = ''12345''" by code_simp
  have bytes: "map ?byte ''12345'' = [1, 2, 3, 4, 5]" by simp
  have hex: "distinct (map hex_byte [1, 2, 3, 4, 5])" by (simp add: hex_byte_def hex_char_def)
  have "map (take 2) (map (\<lambda>i. eventIdFor last_char_sha1 ''order.placed'' (show_nat i)) [1, 2, 3, 4, 5]) =
      map hex_byte (map ?byte (map (\<lambda>i. last (show_nat i)) [1, 2, 3, 4, 5]))"
    by (simp only: map_map o_def start)
  then have "distinct (map (take 2) (map (\<lambda>i. eventIdFor last_char_sha1 ''order.placed'' (show_nat i)) [1, 2, 3, 4, 5]))"
    unfolding chars bytes using hex by simp
  then have "distinct (map (\<lambda>i. eventIdFor last_char_sha1 ''order.placed'' (show_nat i)) [1, 2, 3, 4, 5])"
    unfolding distinct_map by blast
  then have "inj_on (\<lambda>i. eventIdFor last_char_sha1 ''order.placed'' (show_nat i)) (set [1, 2, 3, 4, 5])"
    unfolding distinct_map by blast
  moreover have "{order_seq (dw_shop run_world) ..< order_seq (dw_shop run_world) + EVENTS} = set [1, 2, 3, 4, 5]"
    unfolding seq by (auto simp: EVENTS_def)
  ultimately have "inj_on (\<lambda>i. eventIdFor (ce_sha1 run_env) ''order.placed'' (show_nat i))
      {order_seq (dw_shop run_world) ..< order_seq (dw_shop run_world) + EVENTS}"
    by (simp add: run_env_def del: set_simps)
  then show ?thesis
    using run_env_facts(3)
    by (intro publish_demo_passes [OF run_world_ready run_env_facts(1,2)])
      (simp_all add: EVENTS_def example_call_def distinct_map inj_on_def show_nat_inj)
qed

end
