(* ===== verification/AuthDemos.thy ===== *)
theory AuthDemos
  imports Runs Guards Orders "HOL-Library.Countable"
begin

text \<open>
  The acceptance runs of the authentication: \<open>src/demo-auth.ts\<close>, \<open>src/demo-reuse.ts\<close>,
  \<open>src/demo-rbac.ts\<close> and what they share, \<open>src/auth/demo-lib.ts\<close>.  The application they
  start is the guards, the controllers and the services of the other theories; each
  call draws its clocks and random values from the outside.
\<close>

subsection \<open>The application\<close>

record api_state =
  ap_auth :: auth_db
  ap_orders :: orders_state
  ap_products :: products_state

datatype api_call =
    PostLogin string string
  | PostRefresh string
  | PostLogout
  | ListOrders
  | GetOrder string
  | PostOrder "order_item list"
  | PostProduct string int

record draws =
  dr_dbnow :: rat
  dr_appnow :: rat
  dr_raw :: string
  dr_jti :: string
  dr_fid :: string
  dr_iso :: string

datatype reply = Empty | Tokens token_pair | Orders "order page" | Order order | Product product

fun endpoint_of :: "api_call \<Rightarrow> endpoint" where
  "endpoint_of (PostLogin _ _) = auth_routes ! 0"
| "endpoint_of (PostRefresh _) = auth_routes ! 1"
| "endpoint_of PostLogout = auth_routes ! 2"
| "endpoint_of ListOrders = orders_routes ! 0"
| "endpoint_of (GetOrder _) = orders_routes ! 1"
| "endpoint_of (PostOrder _) = orders_routes ! 2"
| "endpoint_of (PostProduct _ _) = products_routes ! 2"

text \<open>The status the filter gives an exception.\<close>

fun error_status :: "exn \<Rightarrow> nat" where
  "error_status (HttpException s _) = s"
| "error_status _ = 500"

definition answered :: "nat \<Rightarrow> ('a \<Rightarrow> reply) \<Rightarrow> 'a res \<Rightarrow> nat \<times> reply" where
  "answered status body r = (case r of Inl e \<Rightarrow> (error_status e, Empty) | Inr a \<Rightarrow> (status, body a))"

text \<open>The controllers; the request's user is what the guard found.  The requests of the runs are
  valid under \<open>openapi.yaml\<close>, whose validator lets them through before the guards.  The defaults of a list are
  20 entries from the start.\<close>

definition handle_call :: "('priv, 'pub) auth_env \<Rightarrow> draws \<Rightarrow> api_call \<Rightarrow> auth_user option \<Rightarrow> api_state \<Rightarrow> (nat \<times> reply) \<times> api_state" where
  "handle_call env d c user s =
     (case c of
        PostLogin email pw \<Rightarrow>
          (let (r, db) = login env (dr_dbnow d) (dr_appnow d) (dr_raw d) (dr_jti d) (dr_fid d) email pw (ap_auth s)
           in (answered 200 Tokens r, s\<lparr>ap_auth := db\<rparr>))
      | PostRefresh tok \<Rightarrow>
          (let (r, db) = refresh env (dr_dbnow d) (dr_appnow d) (dr_raw d) (dr_jti d) tok (ap_auth s)
           in (answered 200 Tokens r, s\<lparr>ap_auth := db\<rparr>))
      | PostLogout \<Rightarrow>
          (case CurrentUser user of
             Inl e \<Rightarrow> ((error_status e, Empty), s)
           | Inr u \<Rightarrow> ((204, Empty), s\<lparr>ap_auth := logout (dr_dbnow d) u (ap_auth s)\<rparr>))
      | ListOrders \<Rightarrow>
          (answered 200 Orders (case CurrentUser user of Inl e \<Rightarrow> Inl e | Inr u \<Rightarrow> listFor (ap_orders s) u 20 None), s)
      | GetOrder i \<Rightarrow>
          (answered 200 Order (case CurrentUser user of Inl e \<Rightarrow> Inl e | Inr u \<Rightarrow> getOwned (ap_orders s) i u), s)
      | PostOrder items \<Rightarrow>
          (case CurrentUser user of
             Inl e \<Rightarrow> ((error_status e, Empty), s)
           | Inr u \<Rightarrow> (let (x, os) = create (ap_products s) (ap_orders s) items (au_id u) (dr_iso d)
                      in ((201, Order x), s\<lparr>ap_orders := os\<rparr>)))
      | PostProduct name cents \<Rightarrow>
          (let (p, ps) = products_create (ap_products s) name cents in ((201, Product p), s\<lparr>ap_products := ps\<rparr>)))"

definition serve_call :: "('priv, 'pub) auth_env \<Rightarrow> draws \<Rightarrow> api_call \<Rightarrow> string option \<Rightarrow> api_state \<Rightarrow> (nat \<times> reply) \<times> api_state" where
  "serve_call env d c token s =
     (case guards env (dr_appnow d) (ap_auth s) (endpoint_of c) (map_option (\<lambda>t. ''Bearer '' @ t) token) of
        Inl e \<Rightarrow> ((error_status e, Empty), s)
      | Inr user \<Rightarrow> handle_call env d c user s)"

subsection \<open>auth/demo-lib\<close>

definition PASSWORD :: string where "PASSWORD = ''demo-password-1''"

definition REQUIRED_ENV :: "string list" where
  "REQUIRED_ENV = [''DB_HOST'', ''DB_USER'', ''DB_PASSWORD'', ''DB_NAME'', ''JWT_PRIVATE_KEY'', ''JWT_PUBLIC_KEY'',
     ''JWT_KID'', ''REFRESH_TOKEN_PEPPER'']"

record demo_state =
  ds_api :: api_state
  ds_failed :: bool

text \<open>The application starts with its in-memory state; the token tables are emptied.\<close>

definition startDemo :: "(string \<Rightarrow> string option) \<Rightarrow> demo_state \<Rightarrow> unit res \<times> demo_state" where
  "startDemo getenv w =
     (if filter (\<lambda>n. \<not> present (getenv n)) REQUIRED_ENV \<noteq> [] then (Inl (Error ''missing''), w)
      else (Inr (), \<lparr>ds_api = \<lparr>ap_auth = (ap_auth (ds_api w))\<lparr>refresh_tokens := [], access_denylist := []\<rparr>,
              ap_orders = orders_init, ap_products = products_init\<rparr>, ds_failed = False\<rparr>))"

definition call :: "('priv, 'pub) auth_env \<Rightarrow> draws \<Rightarrow> api_call \<Rightarrow> string option \<Rightarrow> demo_state \<Rightarrow> (nat \<times> reply) res \<times> demo_state" where
  "call env d c token w = (let (r, s) = serve_call env d c token (ds_api w) in (Inr r, w\<lparr>ds_api := s\<rparr>))"

text \<open>\<open>INSERT ... ON CONFLICT (email) DO UPDATE\<close>; \<open>new_id\<close> is the sequence's next value, \<open>hash\<close> the hash of \<open>PASSWORD\<close>.\<close>

definition upsert_user :: "string \<Rightarrow> nat \<Rightarrow> string \<Rightarrow> role \<Rightarrow> demo_state \<Rightarrow> unit res \<times> demo_state" where
  "upsert_user hash new_id email rl w =
     (let db = ap_auth (ds_api w);
          us = (if select_first (\<lambda>u. u_email u = email) (users db) = None
                then users db @ [\<lparr>u_id = new_id, u_email = email, u_role = rl, u_password_hash = Some hash\<rparr>]
                else update_where (\<lambda>u. u_email u = email) (\<lambda>u. u\<lparr>u_role := rl, u_password_hash := Some hash\<rparr>) (users db))
      in (Inr (), w\<lparr>ds_api := (ds_api w)\<lparr>ap_auth := db\<lparr>users := us\<rparr>\<rparr>\<rparr>))"

definition login_as :: "('priv, 'pub) auth_env \<Rightarrow> draws \<Rightarrow> string \<Rightarrow> demo_state \<Rightarrow> reply res \<times> demo_state" where
  "login_as env d email =
     then_run (call env d (PostLogin email PASSWORD) None) (\<lambda>(status, body) w.
       (if status \<noteq> 200 then Inl (Error ''login'') else Inr body, w))"

definition expect_status :: "nat \<Rightarrow> nat list \<Rightarrow> demo_state \<Rightarrow> unit res \<times> demo_state" where
  "expect_status actual allowed w = (Inr (), if actual \<notin> set allowed then w\<lparr>ds_failed := True\<rparr> else w)"

definition invariant :: "(demo_state \<Rightarrow> bool) \<Rightarrow> demo_state \<Rightarrow> unit res \<times> demo_state" where
  "invariant ok w = (Inr (), if \<not> ok w then w\<lparr>ds_failed := True\<rparr> else w)"

text \<open>The exit code: an error or a failed expectation.\<close>

definition runDemo :: "(string \<Rightarrow> string option) \<Rightarrow> (demo_state \<Rightarrow> unit res \<times> demo_state) \<Rightarrow> demo_state \<Rightarrow> nat" where
  "runDemo getenv body =
     exit_code (then_run (startDemo getenv) (\<lambda>_. then_run body (\<lambda>_ w. (Inr (if ds_failed w then 1 else 0), w))))"

text \<open>A call and what is expected of its status.\<close>

definition expecting :: "nat list \<Rightarrow> (demo_state \<Rightarrow> (nat \<times> reply) res \<times> demo_state) \<Rightarrow> demo_state \<Rightarrow> reply res \<times> demo_state" where
  "expecting allowed m = then_run m (\<lambda>(status, body). then_run (expect_status status allowed) (\<lambda>_ w. (Inr body, w)))"

fun access_of :: "reply \<Rightarrow> string" where
  "access_of (Tokens p) = access_token p"
| "access_of _ = ''undefined''"

fun refresh_of :: "reply \<Rightarrow> string" where
  "refresh_of (Tokens p) = refresh_token p"
| "refresh_of _ = ''undefined''"

definition alive_tokens :: "string \<Rightarrow> demo_state \<Rightarrow> nat" where
  "alive_tokens email w =
     (let db = ap_auth (ds_api w)
      in length [r. r \<leftarrow> refresh_tokens db, u \<leftarrow> users db, u_id u = rt_user_id r \<and> u_email u = email \<and> revoked_at r = None])"

subsection \<open>demo:auth\<close>

definition AUTH_EMAIL :: string where "AUTH_EMAIL = ''demo-auth@auth.test''"

text \<open>\<open>d k\<close> is what call number \<open>k\<close> draws.\<close>

definition demo_auth :: "('priv, 'pub) auth_env \<Rightarrow> string \<Rightarrow> nat \<Rightarrow> (nat \<Rightarrow> draws) \<Rightarrow> demo_state \<Rightarrow> unit res \<times> demo_state" where
  "demo_auth env hash new_id d =
     then_run (upsert_user hash new_id AUTH_EMAIL customer) (\<lambda>_.
     then_run (expecting [200] (call env (d 0) (PostLogin AUTH_EMAIL PASSWORD) None)) (\<lambda>first.
     then_run (expecting [401] (call env (d 1) ListOrders None)) (\<lambda>_.
     then_run (expecting [200] (call env (d 2) ListOrders (Some (access_of first)))) (\<lambda>_.
     then_run (expecting [200] (call env (d 3) (PostRefresh (refresh_of first)) None)) (\<lambda>second.
     then_run (expecting [200, 204] (call env (d 4) PostLogout (Some (access_of second)))) (\<lambda>_.
     then_run (expecting [401] (call env (d 5) ListOrders (Some (access_of second)))) (\<lambda>_.
     then_run (expecting [401] (call env (d 6) (PostRefresh (refresh_of second)) None)) (\<lambda>_.
     then_run (invariant (\<lambda>w. alive_tokens AUTH_EMAIL w = 0)) (\<lambda>_.
     invariant (\<lambda>w. length (access_denylist (ap_auth (ds_api w))) = 1))))))))))"

subsection \<open>demo:reuse\<close>

definition REUSE_EMAIL :: string where "REUSE_EMAIL = ''demo-reuse@auth.test''"

definition demo_reuse :: "('priv, 'pub) auth_env \<Rightarrow> string \<Rightarrow> nat \<Rightarrow> (nat \<Rightarrow> draws) \<Rightarrow> demo_state \<Rightarrow> unit res \<times> demo_state" where
  "demo_reuse env hash new_id d =
     then_run (upsert_user hash new_id REUSE_EMAIL customer) (\<lambda>_.
     then_run (expecting [200] (call env (d 0) (PostLogin REUSE_EMAIL PASSWORD) None)) (\<lambda>first.
     then_run (expecting [200] (call env (d 1) (PostRefresh (refresh_of first)) None)) (\<lambda>second.
     then_run (expecting [401] (call env (d 2) (PostRefresh (refresh_of first)) None)) (\<lambda>_.
     then_run (expecting [401] (call env (d 3) (PostRefresh (refresh_of second)) None)) (\<lambda>_.
     invariant (\<lambda>w. alive_tokens REUSE_EMAIL w = 0))))))"

subsection \<open>demo:rbac\<close>

text \<open>
  The payload part of the token with another role, the signature part as it was.
  \<open>parse\<close> and \<open>text\<close> are \<open>JSON.parse\<close> and \<open>JSON.stringify\<close>; assigning a property that
  exists keeps its place.
\<close>

fun set_field :: "string \<Rightarrow> json \<Rightarrow> json \<Rightarrow> json" where
  "set_field k v (JObj kvs) =
     JObj (if k \<in> fst ` set kvs then map (\<lambda>(k', v'). (k', if k' = k then v else v')) kvs else kvs @ [(k, v)])"
| "set_field k v j = j"

definition tampered :: "(string \<Rightarrow> json) \<Rightarrow> (json \<Rightarrow> string) \<Rightarrow> string \<Rightarrow> string" where
  "tampered parse text tok =
     (let parts = split_on CHR ''.'' tok;
          payload = set_field ''role'' (JStr ''admin'') (parse (from_base64 (parts ! 1)))
      in join_with ''.'' (parts[1 := to_base64url (text payload)]))"

definition demo_rbac ::
    "('priv, 'pub) auth_env \<Rightarrow> (string \<Rightarrow> json) \<Rightarrow> (json \<Rightarrow> string) \<Rightarrow> string \<Rightarrow> (nat \<Rightarrow> nat) \<Rightarrow> (nat \<Rightarrow> draws) \<Rightarrow>
     demo_state \<Rightarrow> unit res \<times> demo_state" where
  "demo_rbac env parse text hash new_id d =
     then_run (upsert_user hash (new_id 0) ''demo-owner@auth.test'' customer) (\<lambda>_.
     then_run (upsert_user hash (new_id 1) ''demo-stranger@auth.test'' customer) (\<lambda>_.
     then_run (upsert_user hash (new_id 2) ''demo-seller@auth.test'' seller) (\<lambda>_.
     then_run (login_as env (d 0) ''demo-owner@auth.test'') (\<lambda>owner.
     then_run (login_as env (d 1) ''demo-stranger@auth.test'') (\<lambda>stranger.
     then_run (login_as env (d 2) ''demo-seller@auth.test'') (\<lambda>sell.
     then_run (call env (d 3) (PostOrder [\<lparr>product_id = ''p1'', quantity = 1\<rparr>]) (Some (access_of owner))) (\<lambda>(status, created).
     then_run (invariant (\<lambda>_. status = 201)) (\<lambda>_.
     (let i = (case created of Order x \<Rightarrow> o_id x | _ \<Rightarrow> ''undefined'') in
     then_run (expecting [401] (call env (d 4) (GetOrder i) None)) (\<lambda>_.
     then_run (expecting [200] (call env (d 5) (GetOrder i) (Some (access_of owner)))) (\<lambda>_.
     then_run (expecting [403] (call env (d 6) (GetOrder i) (Some (access_of stranger)))) (\<lambda>_.
     then_run (expecting [403] (call env (d 7) (PostProduct ''webcam'' 99900) (Some (access_of owner)))) (\<lambda>_.
     then_run (expecting [200, 201] (call env (d 8) (PostProduct ''webcam'' 99900) (Some (access_of sell)))) (\<lambda>_.
     then_run (expecting [401] (call env (d 9) (PostProduct ''webcam'' 99900) (Some (tampered parse text (access_of owner))))) (\<lambda>_ w.
     (Inr (), w))))))))))))))))"

subsection \<open>What the runs rely on\<close>

text \<open>
  The JWT library as documented: a token it signed with the key pair of this service is a
  non-empty text without white space that names the key, and is verified, with the
  claims it was signed with, until it expires.
\<close>

definition jwt_signs :: "('priv, 'pub) auth_env \<Rightarrow> bool" where
  "jwt_signs env \<longleftrightarrow> ts_kid (ae_tokens env) \<noteq> '''' \<and>
     (\<exists>k. ts_verifyKeys (ae_tokens env) (ts_kid (ae_tokens env)) = Some k \<and>
       (\<forall>now jti sub rl fid. let tok = fst (sign (ae_lib env) (ae_tokens env) now jti sub rl fid) in
          tok \<noteq> [] \<and> (\<forall>c \<in> set tok. \<not> js_space c) \<and> jl_decode_kid (ae_lib env) tok = DecodedKid (Some (ts_kid (ae_tokens env))) \<and>
          (\<forall>now'. \<lfloor>now'\<rfloor> < \<lfloor>now\<rfloor> + ts_accessTtlSec (ae_tokens env) \<longrightarrow>
             (\<exists>p. jl_verify (ae_lib env) now' tok k ALLOWED_ALGORITHMS ISSUER AUDIENCE = VPayload p \<and>
                read_claims p = Inr \<lparr>vc_sub = sub, vc_role = rl, vc_jti = jti,
                  vc_exp = of_int (\<lfloor>now\<rfloor> + ts_accessTtlSec (ae_tokens env)), vc_fid = fid\<rparr>))))"

text \<open>The draws of a run: no token expires during it.\<close>

definition timely :: "('priv, 'pub) auth_env \<Rightarrow> (nat \<Rightarrow> draws) \<Rightarrow> bool" where
  "timely env d \<longleftrightarrow> (\<forall>i j. \<lfloor>dr_appnow (d j)\<rfloor> < \<lfloor>dr_appnow (d i)\<rfloor> + ts_accessTtlSec (ae_tokens env) \<and>
     dr_appnow (d j) < dr_dbnow (d i) + ae_refreshTtlSec env)"

definition access_for :: "('priv, 'pub) auth_env \<Rightarrow> draws \<Rightarrow> user_row \<Rightarrow> string \<Rightarrow> string" where
  "access_for env d u fid = fst (sign (ae_lib env) (ae_tokens env) (dr_appnow d) (dr_jti d) (show_nat (u_id u)) (u_role u) fid)"

definition user_for :: "('priv, 'pub) auth_env \<Rightarrow> draws \<Rightarrow> user_row \<Rightarrow> string \<Rightarrow> auth_user" where
  "user_for env d u fid = \<lparr>au_id = show_nat (u_id u), au_role = u_role u, au_jti = dr_jti d,
     au_exp = of_int (\<lfloor>dr_appnow d\<rfloor> + ts_accessTtlSec (ae_tokens env)), au_fid = fid\<rparr>"

lemma signed_authenticates:
  assumes "jwt_signs env" "timely env d"
  shows "authenticate env (dr_appnow (d j)) (access_for env (d i) u fid) db =
    (if dr_jti (d i) \<in> dn_jti ` set (access_denylist db) then Inl (unauthorized ''token-revoked'') else Inr (user_for env (d i) u fid))"
proof -
  let ?tok = "access_for env (d i) u fid"
  obtain k p where k: "ts_kid (ae_tokens env) \<noteq> ''''" "ts_verifyKeys (ae_tokens env) (ts_kid (ae_tokens env)) = Some k"
    "jl_decode_kid (ae_lib env) ?tok = DecodedKid (Some (ts_kid (ae_tokens env)))"
    "jl_verify (ae_lib env) (dr_appnow (d j)) ?tok k ALLOWED_ALGORITHMS ISSUER AUDIENCE = VPayload p"
    "read_claims p = Inr \<lparr>vc_sub = show_nat (u_id u), vc_role = u_role u, vc_jti = dr_jti (d i),
       vc_exp = of_int (\<lfloor>dr_appnow (d i)\<rfloor> + ts_accessTtlSec (ae_tokens env)), vc_fid = fid\<rparr>"
    using assms unfolding jwt_signs_def timely_def access_for_def Let_def by blast
  then have "verify (ae_lib env) (ae_tokens env) (dr_appnow (d j)) ?tok =
      Inr \<lparr>vc_sub = show_nat (u_id u), vc_role = u_role u, vc_jti = dr_jti (d i),
       vc_exp = of_int (\<lfloor>dr_appnow (d i)\<rfloor> + ts_accessTtlSec (ae_tokens env)), vc_fid = fid\<rparr>"
    unfolding verify_Inr by (intro exI conjI)
  moreover have "select_first (\<lambda>e. dn_jti e = dr_jti (d i)) (access_denylist db) = None \<longleftrightarrow> dr_jti (d i) \<notin> dn_jti ` set (access_denylist db)"
    unfolding select_first_None by force
  ultimately show ?thesis by (simp add: authenticate_def user_for_def)
qed

lemma signed_bearer:
  assumes "jwt_signs env"
  shows "bearer_token (Some (''Bearer '' @ access_for env d u fid)) = Some (access_for env d u fid)"
proof -
  have lower: "map ascii_lower ''Bearer '' = ''bearer ''" by code_simp
  have "access_for env d u fid \<noteq> [] \<and> (\<forall>c \<in> set (access_for env d u fid). \<not> js_space c)"
    using assms unfolding jwt_signs_def access_for_def Let_def by blast
  then show ?thesis using lower by (simp add: bearer_token_def list_all_iff)
qed

subsection \<open>The calls\<close>

lemma served_public:
  "serve_call env d (PostLogin e p) None s = handle_call env d (PostLogin e p) None s"
  "serve_call env d (PostRefresh t) None s = handle_call env d (PostRefresh t) None s"
  by (simp_all add: serve_call_def guards_def auth_guard_def roles_guard_def route_defs)

lemma served_anonymous:
  "serve_call env d ListOrders None s = ((401, Empty), s)" "serve_call env d (GetOrder i) None s = ((401, Empty), s)"
  by (simp_all add: serve_call_def guards_def auth_guard_def bearer_token_def unauthorized_def route_defs)

fun public_call :: "api_call \<Rightarrow> bool" where
  "public_call (PostLogin _ _) = True"
| "public_call (PostRefresh _) = True"
| "public_call _ = False"

fun catalogue_write :: "api_call \<Rightarrow> bool" where
  "catalogue_write (PostProduct _ _) = True"
| "catalogue_write _ = False"

text \<open>With a token of this service that is not denied, and one that is.\<close>

lemma served_as:
  assumes "jwt_signs env" "timely env d" "dr_jti (d i) \<notin> dn_jti ` set (access_denylist (ap_auth s))"
    and "\<not> public_call c"
  shows "serve_call env (d j) c (Some (access_for env (d i) u fid)) s =
    (if catalogue_write c \<and> u_role u = customer then ((403, Empty), s)
     else handle_call env (d j) c (Some (user_for env (d i) u fid)) s)"
  using assms(3,4) signed_bearer [OF assms(1), of "d i" u fid] signed_authenticates [OF assms(1,2), of j i u fid "ap_auth s"]
  by (cases c; cases "u_role u")
    (auto simp: serve_call_def guards_def auth_guard_def roles_guard_def route_defs user_for_def)

lemma served_denied:
  assumes "jwt_signs env" "timely env d" "dr_jti (d i) \<in> dn_jti ` set (access_denylist (ap_auth s))"
  shows "serve_call env (d j) ListOrders (Some (access_for env (d i) u fid)) s = ((401, Empty), s)"
  using assms(3) signed_bearer [OF assms(1), of "d i" u fid] signed_authenticates [OF assms(1,2), of j i u fid "ap_auth s"]
  by (simp add: serve_call_def guards_def auth_guard_def route_defs unauthorized_def)

lemma expecting_Inr: "m w = (Inr (st, b), w') \<Longrightarrow> st \<in> set allowed \<Longrightarrow> expecting allowed m w = (Inr b, w')"
  by (simp add: expecting_def then_run_def expect_status_def)

lemma call_served: "serve_call env d c token (ds_api w) = ((st, b), s) \<Longrightarrow> call env d c token w = (Inr (st, b), w\<lparr>ds_api := s\<rparr>)"
  by (simp add: call_def)

text \<open>A hash made by \<open>hashPassword\<close> with the scrypt of the application.\<close>

definition demo_hash :: "('priv, 'pub) auth_env \<Rightarrow> string \<Rightarrow> bool" where
  "demo_hash env h \<longleftrightarrow> (\<exists>salt. salt \<noteq> [] \<and> (\<forall>b \<in> set salt. b < 256) \<and> h = hashPassword (ae_scrypt env) salt PASSWORD) \<and>
     (\<forall>p s n. length (ae_scrypt env p s n) = n \<and> (\<forall>b \<in> set (ae_scrypt env p s n). b < 256))"

lemma demo_hash_verifies: "demo_hash env h \<Longrightarrow> verifyPassword (ae_scrypt env) dummy PASSWORD (Some h)"
  using verify_hashPassword [of "ae_scrypt env"] unfolding demo_hash_def by blast

text \<open>The user tables a run may find, and the user it makes sure of.\<close>

definition users_ok :: "user_row list \<Rightarrow> bool" where
  "users_ok us \<longleftrightarrow> distinct (map u_id us) \<and> distinct (map u_email us)"

definition known_user :: "auth_db \<Rightarrow> string \<Rightarrow> role \<Rightarrow> string \<Rightarrow> user_row \<Rightarrow> bool" where
  "known_user db email rl h u \<longleftrightarrow> u \<in> set (users db) \<and> u_email u = email \<and> u_role u = rl \<and> u_password_hash u = Some h"

lemma selected:
  assumes "distinct (map f us)" "u \<in> set us" "f u = k"
  shows "select_first (\<lambda>x. f x = k) us = Some u"
  using assms by (induction us) (auto simp: select_first_def)

lemma upsert_user_known:
  assumes ok: "users_ok (users (ap_auth (ds_api w)))" and new: "new_id \<notin> u_id ` set (users (ap_auth (ds_api w)))"
  obtains us u where "upsert_user h new_id email rl w = (Inr (), w\<lparr>ds_api := (ds_api w)\<lparr>ap_auth := (ap_auth (ds_api w))\<lparr>users := us\<rparr>\<rparr>\<rparr>)"
    "users_ok us" "u \<in> set us" "u_email u = email" "u_role u = rl" "u_password_hash u = Some h"
    "u_id ` set us \<subseteq> insert new_id (u_id ` set (users (ap_auth (ds_api w))))"
    "\<forall>x \<in> set (users (ap_auth (ds_api w))). u_email x \<noteq> email \<longrightarrow> x \<in> set us"
proof -
  let ?us = "users (ap_auth (ds_api w))"
  show thesis
  proof (cases "select_first (\<lambda>u. u_email u = email) ?us")
    case None
    let ?u = "\<lparr>u_id = new_id, u_email = email, u_role = rl, u_password_hash = Some h\<rparr>"
    show thesis
      by (rule that [of "?us @ [?u]" ?u])
        (use None ok new in \<open>auto simp: upsert_user_def Let_def users_ok_def select_first_None\<close>)
  next
    case (Some x)
    let ?f = "\<lambda>u. u\<lparr>u_role := rl, u_password_hash := Some h\<rparr>"
    let ?us' = "update_where (\<lambda>u. u_email u = email) ?f ?us"
    have x: "x \<in> set ?us" "u_email x = email" using select_first_Some [OF Some] by simp_all
    have maps: "map u_id ?us' = map u_id ?us" "map u_email ?us' = map u_email ?us" by (simp_all add: map_update_where)
    have ids: "u_id ` set ?us' = u_id ` set ?us" using arg_cong [OF maps(1), of set] by simp
    show thesis
    proof (rule that [of ?us' "?f x"])
      show "users_ok ?us'" using ok unfolding users_ok_def maps .
      show "?f x \<in> set ?us'" using x by (auto simp: set_update_where)
      show "\<forall>y \<in> set ?us. u_email y \<noteq> email \<longrightarrow> y \<in> set ?us'" by (force simp: set_update_where)
    qed (use Some x ids in \<open>auto simp: upsert_user_def Let_def\<close>)
  qed
qed

definition token_row :: "('priv, 'pub) auth_env \<Rightarrow> draws \<Rightarrow> nat \<Rightarrow> user_row \<Rightarrow> string \<Rightarrow> refresh_row" where
  "token_row env d n u fid = \<lparr>rt_id = n, token_hash = ae_hmac env (dr_raw d), family_id = fid, rt_user_id = u_id u,
     used_at = None, revoked_at = None, rt_expires_at = dr_dbnow d + ae_refreshTtlSec env\<rparr>"

definition pair_for :: "('priv, 'pub) auth_env \<Rightarrow> draws \<Rightarrow> user_row \<Rightarrow> string \<Rightarrow> token_pair" where
  "pair_for env d u fid = \<lparr>access_token = access_for env d u fid, refresh_token = dr_raw d, token_type = ''Bearer'',
     expires_in = ts_accessTtlSec (ae_tokens env)\<rparr>"

lemma issued:
  assumes "ae_hmac env (dr_raw d) \<notin> token_hash ` set (refresh_tokens db)"
  shows "issue env (dr_dbnow d) (dr_appnow d) (dr_raw d) (dr_jti d) (u_id u) (u_role u) fid db =
    (Inr (pair_for env d u fid), db\<lparr>refresh_tokens := refresh_tokens db @ [token_row env d (next_token_id db) u fid],
       next_token_id := Suc (next_token_id db)\<rparr>)"
  using assms by (simp add: issue_def Let_def pair_for_def token_row_def access_for_def)

lemma login_served:
  assumes "users_ok (users (ap_auth s))" "known_user (ap_auth s) email rl h u" "demo_hash env h"
    and "ae_hmac env (dr_raw d) \<notin> token_hash ` set (refresh_tokens (ap_auth s))"
  shows "serve_call env d (PostLogin email PASSWORD) None s =
    ((200, Tokens (pair_for env d u (dr_fid d))),
     s\<lparr>ap_auth := (ap_auth s)\<lparr>refresh_tokens := refresh_tokens (ap_auth s) @ [token_row env d (next_token_id (ap_auth s)) u (dr_fid d)],
       next_token_id := Suc (next_token_id (ap_auth s))\<rparr>\<rparr>)"
proof -
  have "select_first (\<lambda>u. u_email u = email) (users (ap_auth s)) = Some u"
    using assms(1,2) selected [of u_email] by (auto simp: users_ok_def known_user_def)
  moreover have "u_password_hash u = Some h" using assms(2) by (simp add: known_user_def)
  ultimately show ?thesis
    using demo_hash_verifies [OF assms(3)] issued [OF assms(4)]
    by (simp add: served_public handle_call_def login_def answered_def)
qed

text \<open>A refresh with a token that is live, one that was used, one whose family is revoked.\<close>

lemma refresh_served:
  assumes d: "timely env d" and us: "users_ok (users (ap_auth s))" "u \<in> set (users (ap_auth s))"
    and rows: "distinct (map token_hash (refresh_tokens (ap_auth s)))" "row \<in> set (refresh_tokens (ap_auth s))"
      "token_hash row = ae_hmac env tok" "rt_user_id row = u_id u" "rt_expires_at row = dr_dbnow (d i) + ae_refreshTtlSec env"
    and new: "ae_hmac env (dr_raw (d j)) \<notin> token_hash ` set (refresh_tokens (ap_auth s))"
  shows "live row \<Longrightarrow> serve_call env (d j) (PostRefresh tok) None s =
      ((200, Tokens (pair_for env (d j) u (family_id row))),
       s\<lparr>ap_auth := (ap_auth s)\<lparr>refresh_tokens := update_where (\<lambda>r. rt_id r = rt_id row) (\<lambda>r. r\<lparr>used_at := Some (dr_dbnow (d j))\<rparr>)
           (refresh_tokens (ap_auth s)) @ [token_row env (d j) (next_token_id (ap_auth s)) u (family_id row)],
         next_token_id := Suc (next_token_id (ap_auth s))\<rparr>\<rparr>)"
    "revoked_at row = None \<Longrightarrow> used_at row \<noteq> None \<Longrightarrow> serve_call env (d j) (PostRefresh tok) None s =
      ((401, Empty), s\<lparr>ap_auth := revoke_family (dr_dbnow (d j)) (family_id row) (ap_auth s)\<rparr>)"
    "revoked_at row \<noteq> None \<Longrightarrow> serve_call env (d j) (PostRefresh tok) None s = ((401, Empty), s)"
proof -
  have row: "select_first (\<lambda>r. token_hash r = ae_hmac env tok) (refresh_tokens (ap_auth s)) = Some row"
    using selected [OF rows(1-3)] .
  have usr: "select_first (\<lambda>x. u_id x = u_id u) (users (ap_auth s)) = Some u"
    using us selected [of u_id "users (ap_auth s)" u] by (simp add: users_ok_def)
  have time: "\<not> rt_expires_at row \<le> dr_appnow (d j)" using d rows(5) by (simp add: timely_def not_le)
  let ?db = "(ap_auth s)\<lparr>refresh_tokens := update_where (\<lambda>r. rt_id r = rt_id row) (\<lambda>r. r\<lparr>used_at := Some (dr_dbnow (d j))\<rparr>)
           (refresh_tokens (ap_auth s))\<rparr>"
  have "map token_hash (refresh_tokens ?db) = map token_hash (refresh_tokens (ap_auth s))" by (simp add: map_update_where)
  then have "token_hash ` set (refresh_tokens ?db) = token_hash ` set (refresh_tokens (ap_auth s))" by (metis list.set_map)
  then have "ae_hmac env (dr_raw (d j)) \<notin> token_hash ` set (refresh_tokens ?db)" using new by simp
  note iss = issued [OF this, of u "family_id row"]
  show "live row \<Longrightarrow> serve_call env (d j) (PostRefresh tok) None s =
      ((200, Tokens (pair_for env (d j) u (family_id row))),
       s\<lparr>ap_auth := (ap_auth s)\<lparr>refresh_tokens := update_where (\<lambda>r. rt_id r = rt_id row) (\<lambda>r. r\<lparr>used_at := Some (dr_dbnow (d j))\<rparr>)
           (refresh_tokens (ap_auth s)) @ [token_row env (d j) (next_token_id (ap_auth s)) u (family_id row)],
         next_token_id := Suc (next_token_id (ap_auth s))\<rparr>\<rparr>)"
    using iss rows(4) by (simp add: served_public handle_call_def refresh_def row usr time live_def Let_def answered_def)
  show "revoked_at row = None \<Longrightarrow> used_at row \<noteq> None \<Longrightarrow> serve_call env (d j) (PostRefresh tok) None s =
      ((401, Empty), s\<lparr>ap_auth := revoke_family (dr_dbnow (d j)) (family_id row) (ap_auth s)\<rparr>)"
    "revoked_at row \<noteq> None \<Longrightarrow> serve_call env (d j) (PostRefresh tok) None s = ((401, Empty), s)"
    by (simp_all add: served_public handle_call_def refresh_def row answered_def BAD_REFRESH_def unauthorized_def)
qed

subsection \<open>The runs pass\<close>

text \<open>What the environment of a run has to provide.\<close>

definition demo_ready :: "('priv, 'pub) auth_env \<Rightarrow> (string \<Rightarrow> string option) \<Rightarrow> (nat \<Rightarrow> draws) \<Rightarrow> string \<Rightarrow> demo_state \<Rightarrow> bool" where
  "demo_ready env getenv d h w \<longleftrightarrow> jwt_signs env \<and> timely env d \<and> demo_hash env h \<and>
     users_ok (users (ap_auth (ds_api w))) \<and> (\<forall>n \<in> set REQUIRED_ENV. present (getenv n))"

definition clean_api :: "demo_state \<Rightarrow> user_row list \<Rightarrow> api_state" where
  "clean_api w us = \<lparr>ap_auth = (ap_auth (ds_api w))\<lparr>refresh_tokens := [], access_denylist := [], users := us\<rparr>,
     ap_orders = orders_init, ap_products = products_init\<rparr>"

lemma clean_api_simps [simp]:
  "users (ap_auth (clean_api w us)) = us" "refresh_tokens (ap_auth (clean_api w us)) = []"
  "access_denylist (ap_auth (clean_api w us)) = []" "next_token_id (ap_auth (clean_api w us)) = next_token_id (ap_auth (ds_api w))"
  "ap_orders (clean_api w us) = orders_init" "ap_products (clean_api w us) = products_init"
  by (simp_all add: clean_api_def)

lemma startDemo_ready:
  assumes "demo_ready env getenv d h w"
  shows "startDemo getenv w = (Inr (), \<lparr>ds_api = clean_api w (users (ap_auth (ds_api w))), ds_failed = False\<rparr>)"
  using assms by (cases "ap_auth (ds_api w)") (simp add: startDemo_def demo_ready_def clean_api_def filter_empty_conv)

lemma upsert_clean:
  assumes "users_ok us0" "new_id \<notin> u_id ` set us0"
  obtains us u where "upsert_user h new_id email rl \<lparr>ds_api = clean_api w us0, ds_failed = False\<rparr> =
      (Inr (), \<lparr>ds_api = clean_api w us, ds_failed = False\<rparr>)"
    "users_ok us" "u \<in> set us" "u_email u = email" "u_role u = rl" "u_password_hash u = Some h"
    "u_id ` set us \<subseteq> insert new_id (u_id ` set us0)" "\<forall>x \<in> set us0. u_email x \<noteq> email \<longrightarrow> x \<in> set us"
  by (rule upsert_user_known [of "\<lparr>ds_api = clean_api w us0, ds_failed = False\<rparr>" new_id h email rl])
    (use assms in \<open>simp_all add: clean_api_def\<close>)

lemma alive_none: "\<forall>r \<in> set (refresh_tokens (ap_auth (ds_api w))). revoked_at r \<noteq> None \<Longrightarrow> alive_tokens email w = 0"
  by (auto simp: alive_tokens_def Let_def)

lemma handled_list: "handle_call env d ListOrders (Some u) s = ((200, Orders (projr (listFor (ap_orders s) u 20 None))), s)"
  by (simp add: handle_call_def CurrentUser_def answered_def listFor_def paginate_def Let_def)

lemma handled_logout: "handle_call env d PostLogout (Some u) s = ((204, Empty), s\<lparr>ap_auth := logout (dr_dbnow d) u (ap_auth s)\<rparr>)"
  by (simp add: handle_call_def CurrentUser_def)

text \<open>The calls of demo:reuse after the login: an honest rotation, the theft of the first token
  that shows, and the second token that dies with its family.\<close>

theorem reuse_demo_passes:
  assumes r: "demo_ready env getenv d h w" and new: "new_id \<notin> u_id ` set (users (ap_auth (ds_api w)))"
    and hmac: "ae_hmac env (dr_raw (d 0)) \<noteq> ae_hmac env (dr_raw (d 1))"
      "ae_hmac env (dr_raw (d 2)) \<notin> {ae_hmac env (dr_raw (d 0)), ae_hmac env (dr_raw (d 1))}"
      "ae_hmac env (dr_raw (d 3)) \<notin> {ae_hmac env (dr_raw (d 0)), ae_hmac env (dr_raw (d 1))}"
  shows "runDemo getenv (demo_reuse env h new_id d) w = 0"
proof -
  have t: "timely env d" and hash: "demo_hash env h" and ok: "users_ok (users (ap_auth (ds_api w)))" using r by (simp_all add: demo_ready_def)
  obtain us u where 1: "upsert_user h new_id REUSE_EMAIL customer \<lparr>ds_api = clean_api w (users (ap_auth (ds_api w))), ds_failed = False\<rparr> =
      (Inr (), \<lparr>ds_api = clean_api w us, ds_failed = False\<rparr>)"
    and us: "users_ok us" "u \<in> set us" and u: "u_email u = REUSE_EMAIL" "u_role u = customer" "u_password_hash u = Some h"
    using upsert_clean [OF ok new, of h REUSE_EMAIL customer w] by metis
  let ?s = "\<lambda>ts n. (clean_api w us)\<lparr>ap_auth := (ap_auth (clean_api w us))\<lparr>refresh_tokens := ts, next_token_id := n\<rparr>\<rparr>"
  let ?n = "next_token_id (ap_auth (ds_api w))" and ?f = "dr_fid (d 0)"
  let ?r1 = "token_row env (d 0) ?n u ?f" and ?r2 = "token_row env (d 1) (Suc ?n) u ?f"
  let ?u1 = "?r1\<lparr>used_at := Some (dr_dbnow (d 1))\<rparr>" and ?dead = "\<lambda>r. r\<lparr>revoked_at := Some (dr_dbnow (d 2))\<rparr>"
  have row: "token_hash (token_row env e k u f) = ae_hmac env (dr_raw e)" "rt_user_id (token_row env e k u f) = u_id u"
    "rt_expires_at (token_row env e k u f) = dr_dbnow e + ae_refreshTtlSec env" "family_id (token_row env e k u f) = f"
    "live (token_row env e k u f)" "rt_id (token_row env e k u f) = k" "revoked_at (token_row env e k u f) = None" for e k f
    by (simp_all add: token_row_def live_def)
  have 2: "serve_call env (d 0) (PostLogin REUSE_EMAIL PASSWORD) None (clean_api w us) = ((200, Tokens (pair_for env (d 0) u ?f)), ?s [?r1] (Suc ?n))"
    using login_served [OF _ _ hash, of "clean_api w us" REUSE_EMAIL customer u "d 0"] us u
    by (simp add: known_user_def)
  have 3: "serve_call env (d 1) (PostRefresh (dr_raw (d 0))) None (?s [?r1] (Suc ?n)) =
      ((200, Tokens (pair_for env (d 1) u ?f)), ?s [?u1, ?r2] (Suc (Suc ?n)))"
    using refresh_served(1) [OF t, of "?s [?r1] (Suc ?n)" u ?r1 "dr_raw (d 0)" 0 1] us hmac
    by (simp add: row)
  have 4: "serve_call env (d 2) (PostRefresh (dr_raw (d 0))) None (?s [?u1, ?r2] (Suc (Suc ?n))) =
      ((401, Empty), ?s [?dead ?u1, ?dead ?r2] (Suc (Suc ?n)))"
    using refresh_served(2) [OF t, of "?s [?u1, ?r2] (Suc (Suc ?n))" u ?u1 "dr_raw (d 0)" 0 2] us hmac
    by (simp add: row revoke_family_def)
  have 5: "serve_call env (d 3) (PostRefresh (dr_raw (d 1))) None (?s [?dead ?u1, ?dead ?r2] (Suc (Suc ?n))) =
      ((401, Empty), ?s [?dead ?u1, ?dead ?r2] (Suc (Suc ?n)))"
    using refresh_served(3) [OF t, of "?s [?dead ?u1, ?dead ?r2] (Suc (Suc ?n))" u "?dead ?r2" "dr_raw (d 1)" 1 3] us hmac
    by (simp add: row)
  have tok: "refresh_of (Tokens (pair_for env e u f)) = dr_raw e" for e f by (simp add: pair_for_def)
  have alive: "alive_tokens REUSE_EMAIL \<lparr>ds_api = ?s [?dead ?u1, ?dead ?r2] (Suc (Suc ?n)), ds_failed = False\<rparr> = 0"
    by (rule alive_none) simp
  show ?thesis
    unfolding runDemo_def exit_code_def
    by (simp add: then_run_def startDemo_ready [OF r] demo_reuse_def 1 expecting_def call_def 2 3 4 5 tok expect_status_def invariant_def alive
        del: refresh_of.simps One_nat_def)
qed

text \<open>After the logout neither token works: the access token is on the denylist, the refresh
  token is revoked with its family, and nothing else is denied or alive.\<close>

theorem auth_demo_passes:
  assumes r: "demo_ready env getenv d h w" and new: "new_id \<notin> u_id ` set (users (ap_auth (ds_api w)))"
    and hmac: "ae_hmac env (dr_raw (d 0)) \<noteq> ae_hmac env (dr_raw (d 3))"
      "ae_hmac env (dr_raw (d 6)) \<notin> {ae_hmac env (dr_raw (d 0)), ae_hmac env (dr_raw (d 3))}"
  shows "runDemo getenv (demo_auth env h new_id d) w = 0"
proof -
  have j: "jwt_signs env" and t: "timely env d" and hash: "demo_hash env h" and ok: "users_ok (users (ap_auth (ds_api w)))" using r by (simp_all add: demo_ready_def)
  obtain us u where 1: "upsert_user h new_id AUTH_EMAIL customer \<lparr>ds_api = clean_api w (users (ap_auth (ds_api w))), ds_failed = False\<rparr> =
      (Inr (), \<lparr>ds_api = clean_api w us, ds_failed = False\<rparr>)"
    and us: "users_ok us" "u \<in> set us" and u: "u_email u = AUTH_EMAIL" "u_role u = customer" "u_password_hash u = Some h"
    using upsert_clean [OF ok new, of h AUTH_EMAIL customer w] by metis
  let ?s = "\<lambda>ts n. (clean_api w us)\<lparr>ap_auth := (ap_auth (clean_api w us))\<lparr>refresh_tokens := ts, next_token_id := n\<rparr>\<rparr>"
  let ?n = "next_token_id (ap_auth (ds_api w))" and ?f = "dr_fid (d 0)"
  let ?r1 = "token_row env (d 0) ?n u ?f" and ?r2 = "token_row env (d 3) (Suc ?n) u ?f"
  let ?u1 = "?r1\<lparr>used_at := Some (dr_dbnow (d 3))\<rparr>" and ?dead = "\<lambda>r. r\<lparr>revoked_at := Some (dr_dbnow (d 4))\<rparr>"
  have row: "token_hash (token_row env e k u f) = ae_hmac env (dr_raw e)" "rt_user_id (token_row env e k u f) = u_id u"
    "rt_expires_at (token_row env e k u f) = dr_dbnow e + ae_refreshTtlSec env" "family_id (token_row env e k u f) = f"
    "live (token_row env e k u f)" "rt_id (token_row env e k u f) = k" "revoked_at (token_row env e k u f) = None" for e k f
    by (simp_all add: token_row_def live_def)
  have 2: "serve_call env (d 0) (PostLogin AUTH_EMAIL PASSWORD) None (clean_api w us) = ((200, Tokens (pair_for env (d 0) u ?f)), ?s [?r1] (Suc ?n))"
    using login_served [OF _ _ hash, of "clean_api w us" AUTH_EMAIL customer u "d 0"] us u by (simp add: known_user_def)
  have 3: "\<exists>b. serve_call env (d 2) ListOrders (Some (access_for env (d 0) u ?f)) (?s [?r1] (Suc ?n)) = ((200, b), ?s [?r1] (Suc ?n))"
    using served_as [OF j t, of 0 "?s [?r1] (Suc ?n)" ListOrders 2 u ?f] by (auto simp: handled_list)
  have 4: "serve_call env (d 3) (PostRefresh (dr_raw (d 0))) None (?s [?r1] (Suc ?n)) =
      ((200, Tokens (pair_for env (d 3) u ?f)), ?s [?u1, ?r2] (Suc (Suc ?n)))"
    using refresh_served(1) [OF t, of "?s [?r1] (Suc ?n)" u ?r1 "dr_raw (d 0)" 0 3] us hmac by (simp add: row)
  let ?out = "(clean_api w us)\<lparr>ap_auth := (ap_auth (clean_api w us))\<lparr>refresh_tokens := [?dead ?u1, ?dead ?r2],
     next_token_id := Suc (Suc ?n), access_denylist := [\<lparr>dn_jti = dr_jti (d 3), dn_expires_at = au_exp (user_for env (d 3) u ?f)\<rparr>]\<rparr>\<rparr>"
  have 5: "serve_call env (d 4) PostLogout (Some (access_for env (d 3) u ?f)) (?s [?u1, ?r2] (Suc (Suc ?n))) = ((204, Empty), ?out)"
    using served_as [OF j t, of 3 "?s [?u1, ?r2] (Suc (Suc ?n))" PostLogout 4 u ?f]
    by (auto simp: handled_logout logout_def revoke_family_def insert_on_conflict_def user_for_def row)
  have 6: "serve_call env (d 5) ListOrders (Some (access_for env (d 3) u ?f)) ?out = ((401, Empty), ?out)"
    by (rule served_denied [OF j t]) simp
  have 7: "serve_call env (d 6) (PostRefresh (dr_raw (d 3))) None ?out = ((401, Empty), ?out)"
    using refresh_served(3) [OF t, of ?out u "?dead ?r2" "dr_raw (d 3)" 3 6] us hmac by (simp add: row)
  have tok: "refresh_of (Tokens (pair_for env e u f)) = dr_raw e" "access_of (Tokens (pair_for env e u f)) = access_for env e u f" for e f
    by (simp_all add: pair_for_def)
  have alive: "alive_tokens AUTH_EMAIL \<lparr>ds_api = ?out, ds_failed = False\<rparr> = 0" by (rule alive_none) simp
  obtain b where 3: "serve_call env (d 2) ListOrders (Some (access_for env (d 0) u ?f)) (?s [?r1] (Suc ?n)) = ((200, b), ?s [?r1] (Suc ?n))"
    using 3 by blast
  show ?thesis
    unfolding runDemo_def exit_code_def
    by (simp add: then_run_def startDemo_ready [OF r] demo_auth_def 1 expecting_def call_def 2 3 4 5 6 7 tok served_anonymous expect_status_def
        invariant_def alive del: refresh_of.simps access_of.simps One_nat_def)
qed

subsection \<open>A forged payload is refused\<close>

definition with_payload :: "string \<Rightarrow> string \<Rightarrow> string" where
  "with_payload b tok = join_with ''.'' ((split_on CHR ''.'' tok)[1 := b])"

text \<open>
  What signatures promise, for the library and the JSON functions: no signature is good
  for two payloads, the second part of a signed token is the text of its payload, with
  any other JSON text in its place the token still decodes, and \<open>JSON.parse\<close> undoes
  \<open>JSON.stringify\<close>.
\<close>

definition signature_covers :: "('priv, 'pub) auth_env \<Rightarrow> bool" where
  "signature_covers env \<longleftrightarrow> (\<forall>now now' tok b k k' p p'.
     jl_verify (ae_lib env) now tok k ALLOWED_ALGORITHMS ISSUER AUDIENCE = VPayload p \<longrightarrow>
     jl_verify (ae_lib env) now' (with_payload b tok) k' ALLOWED_ALGORITHMS ISSUER AUDIENCE = VPayload p' \<longrightarrow>
     b = split_on CHR ''.'' tok ! 1)"

definition payload_part :: "('priv, 'pub) auth_env \<Rightarrow> (string \<Rightarrow> json) \<Rightarrow> (json \<Rightarrow> string) \<Rightarrow> bool" where
  "payload_part env parse text \<longleftrightarrow> (\<forall>now jti sub rl fid.
     let tok = fst (sign (ae_lib env) (ae_tokens env) now jti sub rl fid) in
       field (parse (from_base64 (split_on CHR ''.'' tok ! 1))) ''role'' = Some (JStr (role_name rl)) \<and>
       (\<forall>j. jl_decode_kid (ae_lib env) (with_payload (to_base64url (text j)) tok) \<noteq> DecodeThrows))"

lemma map_of_set:
  "k \<in> fst ` set xs \<Longrightarrow> map_of (map (\<lambda>(k', v'). (k', if k' = k then v else v')) xs) k = Some v"
  by (induction xs) auto

lemma field_set_field:
  assumes "field j k \<noteq> None" shows "field (set_field k v j) k = Some v"
proof (cases j)
  case (JObj kvs)
  have "k \<in> fst ` set kvs" using assms by (simp add: JObj map_of_eq_None_iff)
  then show ?thesis using map_of_set [of k "rev kvs" v] by (simp add: JObj rev_map)
qed (use assms in simp_all)

lemma tampered_refused:
  assumes j: "jwt_signs env" and sig: "signature_covers env" and part: "payload_part env parse text" and json: "\<And>x. parse (text x) = x"
    and ttl: "0 < ts_accessTtlSec (ae_tokens env)" and u: "u_role u \<noteq> admin"
  shows "\<exists>c. authenticate env now (tampered parse text (access_for env d u fid)) db = Inl (unauthorized c)"
proof -
  let ?tok = "access_for env d u fid"
  let ?b = "to_base64url (text (set_field ''role'' (JStr ''admin'') (parse (from_base64 (split_on CHR ''.'' ?tok ! 1)))))"
  have t: "tampered parse text ?tok = with_payload ?b ?tok" by (simp add: tampered_def with_payload_def Let_def)
  have role: "field (parse (from_base64 (split_on CHR ''.'' ?tok ! 1))) ''role'' = Some (JStr (role_name (u_role u)))"
    using part unfolding payload_part_def access_for_def Let_def by blast
  have decodes: "jl_decode_kid (ae_lib env) (tampered parse text ?tok) \<noteq> DecodeThrows"
    using part unfolding payload_part_def Let_def t by (simp add: access_for_def)
  have new: "?b \<noteq> split_on CHR ''.'' ?tok ! 1"
  proof
    assume "?b = split_on CHR ''.'' ?tok ! 1"
    then have "parse (from_base64 (split_on CHR ''.'' ?tok ! 1)) =
        set_field ''role'' (JStr ''admin'') (parse (from_base64 (split_on CHR ''.'' ?tok ! 1)))"
      by (metis from_to_base64 json)
    then have "role_name (u_role u) = ''admin''" using role field_set_field by (metis json.inject(3) option.distinct(1) option.inject)
    then show False using u role_name_inj [of "u_role u" admin] by simp
  qed
  have now: "\<lfloor>dr_appnow d\<rfloor> < \<lfloor>dr_appnow d\<rfloor> + ts_accessTtlSec (ae_tokens env)" using ttl by simp
  obtain k p where "jl_verify (ae_lib env) (dr_appnow d) ?tok k ALLOWED_ALGORITHMS ISSUER AUDIENCE = VPayload p"
    using j now unfolding jwt_signs_def access_for_def Let_def by blast
  with new have "jl_verify (ae_lib env) now (tampered parse text ?tok) k' ALLOWED_ALGORITHMS ISSUER AUDIENCE \<noteq> VPayload p'" for k' p'
    using sig unfolding signature_covers_def t by blast
  then have "verify (ae_lib env) (ae_tokens env) now (tampered parse text ?tok) \<noteq> Inr c" for c
    unfolding verify_Inr by blast
  then obtain e where e: "verify (ae_lib env) (ae_tokens env) now (tampered parse text ?tok) = Inl e" by (metis sum.exhaust)
  then show ?thesis using verify_Inl [OF e decodes] by (auto simp: authenticate_def)
qed

lemma served_tampered:
  assumes "\<exists>c. authenticate env (dr_appnow d) tok (ap_auth s) = Inl (unauthorized c)"
  shows "serve_call env d (PostProduct n p) (Some tok) s = ((401, Empty), s)"
  using assms by (auto simp: serve_call_def guards_def auth_guard_def route_defs unauthorized_def bearer_token_def Let_def)


lemma three_users:
  assumes ok: "users_ok us0" and new: "inj_on new_id {0, 1, 2 :: nat}" "new_id ` {0, 1, 2} \<inter> u_id ` set us0 = {}"
    and e: "e1 \<noteq> e2" "e1 \<noteq> e3" "e2 \<noteq> e3"
  obtains us1 us2 us u1 u2 u3 where
    "upsert_user h (new_id 0) e1 customer \<lparr>ds_api = clean_api w us0, ds_failed = False\<rparr> = (Inr (), \<lparr>ds_api = clean_api w us1, ds_failed = False\<rparr>)"
    "upsert_user h (new_id 1) e2 customer \<lparr>ds_api = clean_api w us1, ds_failed = False\<rparr> = (Inr (), \<lparr>ds_api = clean_api w us2, ds_failed = False\<rparr>)"
    "upsert_user h (new_id 2) e3 seller \<lparr>ds_api = clean_api w us2, ds_failed = False\<rparr> = (Inr (), \<lparr>ds_api = clean_api w us, ds_failed = False\<rparr>)"
    "users_ok us" "set [u1, u2, u3] \<subseteq> set us" "map u_email [u1, u2, u3] = [e1, e2, e3]" "map u_role [u1, u2, u3] = [customer, customer, seller]"
    "map u_password_hash [u1, u2, u3] = [Some h, Some h, Some h]"
proof -
  have f: "new_id 0 \<notin> u_id ` set us0" "new_id 1 \<notin> u_id ` set us0" "new_id 2 \<notin> u_id ` set us0" using new(2) by blast+
  note n0 = f(1)
  have d: "new_id 1 \<noteq> new_id 0" "new_id 2 \<noteq> new_id 0" "new_id 2 \<noteq> new_id 1"
    using inj_onD [OF new(1), of 1 0] inj_onD [OF new(1), of 2 0] inj_onD [OF new(1), of 2 1] by auto
  obtain us1 u1 where 1: "upsert_user h (new_id 0) e1 customer \<lparr>ds_api = clean_api w us0, ds_failed = False\<rparr> = (Inr (), \<lparr>ds_api = clean_api w us1, ds_failed = False\<rparr>)"
    "users_ok us1" "u1 \<in> set us1" "u_email u1 = e1" "u_role u1 = customer" "u_password_hash u1 = Some h"
    "u_id ` set us1 \<subseteq> insert (new_id 0) (u_id ` set us0)" "\<forall>x \<in> set us0. u_email x \<noteq> e1 \<longrightarrow> x \<in> set us1"
    by (rule upsert_clean [OF ok n0, where h = h and email = e1 and rl = customer and w = w])
  have n1: "new_id 1 \<notin> u_id ` set us1" using subsetD [OF 1(7), of "new_id 1"] f d by auto
  obtain us2 u2 where 2: "upsert_user h (new_id 1) e2 customer \<lparr>ds_api = clean_api w us1, ds_failed = False\<rparr> = (Inr (), \<lparr>ds_api = clean_api w us2, ds_failed = False\<rparr>)"
    "users_ok us2" "u2 \<in> set us2" "u_email u2 = e2" "u_role u2 = customer" "u_password_hash u2 = Some h"
    "u_id ` set us2 \<subseteq> insert (new_id 1) (u_id ` set us1)" "\<forall>x \<in> set us1. u_email x \<noteq> e2 \<longrightarrow> x \<in> set us2"
    by (rule upsert_clean [OF 1(2) n1, where h = h and email = e2 and rl = customer and w = w])
  have n2: "new_id 2 \<notin> u_id ` set us2" using subsetD [OF 2(7), of "new_id 2"] subsetD [OF 1(7), of "new_id 2"] f d by auto
  obtain us u3 where 3: "upsert_user h (new_id 2) e3 seller \<lparr>ds_api = clean_api w us2, ds_failed = False\<rparr> = (Inr (), \<lparr>ds_api = clean_api w us, ds_failed = False\<rparr>)"
    "users_ok us" "u3 \<in> set us" "u_email u3 = e3" "u_role u3 = seller" "u_password_hash u3 = Some h"
    "u_id ` set us \<subseteq> insert (new_id 2) (u_id ` set us2)" "\<forall>x \<in> set us2. u_email x \<noteq> e3 \<longrightarrow> x \<in> set us" 
    by (rule upsert_clean [OF 2(2) n2, where h = h and email = e3 and rl = seller and w = w])
  have "u1 \<in> set us2" using 1(3,4) 2(8) e(1) by auto
  then have "u1 \<in> set us" "u2 \<in> set us" using 1(4) 2(3,4) 3(8) e(2,3) by auto
  then show thesis
    by (intro that [OF 1(1) 2(1) 3(1,2), of u1 u2 u3]) (simp_all add: 1(4-6) 2(4-6) 3(3-6))
qed

text \<open>The logins of three users, one after the other.\<close>

definition with_tokens :: "demo_state \<Rightarrow> user_row list \<Rightarrow> refresh_row list \<Rightarrow> api_state" where
  "with_tokens w us ts = (clean_api w us)\<lparr>ap_auth := (ap_auth (clean_api w us))\<lparr>refresh_tokens := ts,
     next_token_id := length ts + next_token_id (ap_auth (ds_api w))\<rparr>\<rparr>"

lemma with_tokens_simps [simp]:
  "users (ap_auth (with_tokens w us ts)) = us" "refresh_tokens (ap_auth (with_tokens w us ts)) = ts"
  "access_denylist (ap_auth (with_tokens w us ts)) = []" "ap_orders (with_tokens w us ts) = orders_init"
  "ap_products (with_tokens w us ts) = products_init" "with_tokens w us [] = clean_api w us"
  by (simp_all add: with_tokens_def)

lemma another_login:
  assumes "users_ok us" "u \<in> set us" "u_email u = email" "u_password_hash u = Some h" "demo_hash env h"
    and "ae_hmac env (dr_raw d) \<notin> token_hash ` set ts"
  shows "serve_call env d (PostLogin email PASSWORD) None (with_tokens w us ts) =
    ((200, Tokens (pair_for env d u (dr_fid d))),
     with_tokens w us (ts @ [token_row env d (length ts + next_token_id (ap_auth (ds_api w))) u (dr_fid d)]))"
  using login_served [OF _ _ assms(5), of "with_tokens w us ts" email "u_role u" u d] assms
  by (simp add: known_user_def) (simp add: with_tokens_def)

lemma three_logins:
  assumes us: "users_ok us" "set [u1, u2, u3] \<subseteq> set us" "map u_email [u1, u2, u3] = [e1, e2, e3]"
      "map u_password_hash [u1, u2, u3] = [Some h, Some h, Some h]"
    and hash: "demo_hash env h" and hmac: "distinct (map (\<lambda>i. ae_hmac env (dr_raw (d i))) [0, 1, 2])"
  obtains s1 s2 s where
    "serve_call env (d 0) (PostLogin e1 PASSWORD) None (clean_api w us) = ((200, Tokens (pair_for env (d 0) u1 (dr_fid (d 0)))), s1)"
    "serve_call env (d 1) (PostLogin e2 PASSWORD) None s1 = ((200, Tokens (pair_for env (d 1) u2 (dr_fid (d 1)))), s2)"
    "serve_call env (d 2) (PostLogin e3 PASSWORD) None s2 = ((200, Tokens (pair_for env (d 2) u3 (dr_fid (d 2)))), s)"
    "access_denylist (ap_auth s) = []" "ap_orders s = orders_init"
proof -
  let ?n = "next_token_id (ap_auth (ds_api w))"
  let ?r1 = "token_row env (d 0) (length ([] :: refresh_row list) + ?n) u1 (dr_fid (d 0))"
  let ?r2 = "token_row env (d 1) (length [?r1] + ?n) u2 (dr_fid (d 1))"
  let ?r3 = "token_row env (d 2) (length [?r1, ?r2] + ?n) u3 (dr_fid (d 2))"
  have hash_of: "token_hash (token_row env e k u f) = ae_hmac env (dr_raw e)" for e k u f by (simp add: token_row_def)
  note logins = another_login [OF us(1) _ _ _ hash, of u1 e1 "d 0" "[]" w] another_login [OF us(1) _ _ _ hash, of u2 e2 "d 1" "[?r1]" w]
    another_login [OF us(1) _ _ _ hash, of u3 e3 "d 2" "[?r1, ?r2]" w]
  show thesis
    by (rule that [of "with_tokens w us [?r1]" "with_tokens w us [?r1, ?r2]" "with_tokens w us [?r1, ?r2, ?r3]"])
      (use logins us hmac in \<open>simp_all add: hash_of eq_commute del: One_nat_def\<close>)
qed

text \<open>The buyer's order, read by its buyer and by a stranger; the catalogue, written by a seller only.\<close>

lemma order_calls:
  assumes j: "jwt_signs env" and t: "timely env d" and s: "access_denylist (ap_auth s) = []" "ap_orders s = orders_init"
    and u: "u_role u1 = customer" "u_role u2 = customer" "u_id u2 \<noteq> u_id u1"
  obtains x os where
    "serve_call env (d 3) (PostOrder items) (Some (access_for env (d 0) u1 (dr_fid (d 0)))) s = ((201, Order x), s\<lparr>ap_orders := os\<rparr>)"
    "serve_call env (d 5) (GetOrder (o_id x)) (Some (access_for env (d 0) u1 (dr_fid (d 0)))) (s\<lparr>ap_orders := os\<rparr>) =
      ((200, Order x), s\<lparr>ap_orders := os\<rparr>)"
    "serve_call env (d 6) (GetOrder (o_id x)) (Some (access_for env (d 1) u2 (dr_fid (d 1)))) (s\<lparr>ap_orders := os\<rparr>) =
      ((403, Empty), s\<lparr>ap_orders := os\<rparr>)"
proof -
  let ?u = "\<lambda>i u. user_for env (d i) u (dr_fid (d i))"
  obtain x os where cr: "create (ap_products s) orders_init items (au_id (?u 0 u1)) (dr_iso (d 3)) = (x, os)" by fastforce
  have x: "getById os (o_id x) = Inr x" "buyer_id x = au_id (?u 0 u1)" using create_then_read [OF orders_ok_init cr] by simp_all
  have ids: "au_id (?u 1 u2) \<noteq> au_id (?u 0 u1)" using u by (simp add: user_for_def show_nat_inj)
  have own: "getOwned os (o_id x) (?u 0 u1) = Inr x" "getOwned os (o_id x) (?u 1 u2) = Inl (HttpException 403 (Some ''not-owner''))"
    using x ids u by (simp_all add: getOwned_def user_for_def del: One_nat_def)
  show thesis
    by (rule that [of x os])
      (use served_as [OF j t, of 0 s "PostOrder items" 3 u1] served_as [OF j t, of 0 "s\<lparr>ap_orders := os\<rparr>" _ _ u1]
        served_as [OF j t, of 1 "s\<lparr>ap_orders := os\<rparr>" _ _ u2] s in
       \<open>simp_all add: handle_call_def CurrentUser_def answered_def cr own del: One_nat_def\<close>)
qed

lemma catalogue_calls:
  assumes j: "jwt_signs env" and t: "timely env d" and s: "access_denylist (ap_auth s) = []"
    and u: "u_role u1 = customer" "u_role u3 = seller"
  obtains p ps where
    "serve_call env (d 7) (PostProduct n c) (Some (access_for env (d 0) u1 (dr_fid (d 0)))) s = ((403, Empty), s)"
    "serve_call env (d 8) (PostProduct n c) (Some (access_for env (d 2) u3 (dr_fid (d 2)))) s = ((201, Product p), s\<lparr>ap_products := ps\<rparr>)"
proof -
  obtain p ps where "products_create (ap_products s) n c = (p, ps)" by fastforce
  then show thesis
    by (intro that [of p ps])
      (use served_as [OF j t, of 0 s _ 7 u1] served_as [OF j t, of 2 s _ 8 u3] s u in \<open>simp_all add: handle_call_def\<close>)
qed

text \<open>C13: access is decided by identity, ownership and role, from the HTTP call down: of an
  order its buyer reads 200, a stranger 403, nobody 401; a customer may not write the
  catalogue (403), a seller may (201); and a token whose payload was changed to the
  administrator's under the old signature is 401, since the signature is checked and not
  just decoded.  The run ends with exit code 0 for every hash, HMAC and JWT library that
  keep the promises named.\<close>

theorem rbac_demo_passes:
  assumes r: "demo_ready env getenv d h w" and new: "inj_on new_id {0, 1, 2}" "new_id ` {0, 1, 2} \<inter> u_id ` set (users (ap_auth (ds_api w))) = {}"
    and hmac: "distinct (map (\<lambda>i. ae_hmac env (dr_raw (d i))) [0, 1, 2])"
    and sig: "signature_covers env" "payload_part env parse text" "\<And>x. parse (text x) = x" "0 < ts_accessTtlSec (ae_tokens env)"
  shows "runDemo getenv (demo_rbac env parse text h new_id d) w = 0"
proof -
  have j: "jwt_signs env" and t: "timely env d" and hash: "demo_hash env h" and ok: "users_ok (users (ap_auth (ds_api w)))"
    using r by (simp_all add: demo_ready_def)
  let ?o = "''demo-owner@auth.test''" and ?st = "''demo-stranger@auth.test''" and ?se = "''demo-seller@auth.test''"
  obtain us1 us2 us u1 u2 u3 where 1:
    "upsert_user h (new_id 0) ?o customer \<lparr>ds_api = clean_api w (users (ap_auth (ds_api w))), ds_failed = False\<rparr> = (Inr (), \<lparr>ds_api = clean_api w us1, ds_failed = False\<rparr>)"
    "upsert_user h (new_id 1) ?st customer \<lparr>ds_api = clean_api w us1, ds_failed = False\<rparr> = (Inr (), \<lparr>ds_api = clean_api w us2, ds_failed = False\<rparr>)"
    "upsert_user h (new_id 2) ?se seller \<lparr>ds_api = clean_api w us2, ds_failed = False\<rparr> = (Inr (), \<lparr>ds_api = clean_api w us, ds_failed = False\<rparr>)"
    and us: "users_ok us" "set [u1, u2, u3] \<subseteq> set us" "map u_email [u1, u2, u3] = [?o, ?st, ?se]"
      "map u_role [u1, u2, u3] = [customer, customer, seller]" "map u_password_hash [u1, u2, u3] = [Some h, Some h, Some h]"
    by (rule three_users [OF ok new, of ?o ?st ?se h w]) simp_all
  have roles: "u_role u1 = customer" "u_role u2 = customer" "u_role u3 = seller" using us(4) by simp_all
  obtain s1 s2 s where 2:
    "serve_call env (d 0) (PostLogin ?o PASSWORD) None (clean_api w us) = ((200, Tokens (pair_for env (d 0) u1 (dr_fid (d 0)))), s1)"
    "serve_call env (d 1) (PostLogin ?st PASSWORD) None s1 = ((200, Tokens (pair_for env (d 1) u2 (dr_fid (d 1)))), s2)"
    "serve_call env (d 2) (PostLogin ?se PASSWORD) None s2 = ((200, Tokens (pair_for env (d 2) u3 (dr_fid (d 2)))), s)"
    and s: "access_denylist (ap_auth s) = []" "ap_orders s = orders_init"
    by (rule three_logins [OF us(1-3,5) hash hmac])
  have "u_id u2 \<noteq> u_id u1" using us(1-3) distinct_key_unique [of u_id us u2 u1] by (auto simp: users_ok_def)
  note ids = this
  obtain x os where 3:
    "serve_call env (d 3) (PostOrder [\<lparr>product_id = ''p1'', quantity = 1\<rparr>]) (Some (access_for env (d 0) u1 (dr_fid (d 0)))) s = ((201, Order x), s\<lparr>ap_orders := os\<rparr>)"
    "serve_call env (d 5) (GetOrder (o_id x)) (Some (access_for env (d 0) u1 (dr_fid (d 0)))) (s\<lparr>ap_orders := os\<rparr>) = ((200, Order x), s\<lparr>ap_orders := os\<rparr>)"
    "serve_call env (d 6) (GetOrder (o_id x)) (Some (access_for env (d 1) u2 (dr_fid (d 1)))) (s\<lparr>ap_orders := os\<rparr>) = ((403, Empty), s\<lparr>ap_orders := os\<rparr>)"
    by (rule order_calls [OF j t s roles(1,2) ids])
  have s': "access_denylist (ap_auth (s\<lparr>ap_orders := os\<rparr>)) = []" using s by simp
  obtain p ps where 4:
    "serve_call env (d 7) (PostProduct ''webcam'' 99900) (Some (access_for env (d 0) u1 (dr_fid (d 0)))) (s\<lparr>ap_orders := os\<rparr>) = ((403, Empty), s\<lparr>ap_orders := os\<rparr>)"
    "serve_call env (d 8) (PostProduct ''webcam'' 99900) (Some (access_for env (d 2) u3 (dr_fid (d 2)))) (s\<lparr>ap_orders := os\<rparr>) =
      ((201, Product p), s\<lparr>ap_orders := os, ap_products := ps\<rparr>)"
    by (rule catalogue_calls [OF j t s' roles(1,3)])
  have 5: "serve_call env (d 9) (PostProduct ''webcam'' 99900) (Some (tampered parse text (access_for env (d 0) u1 (dr_fid (d 0))))) (s\<lparr>ap_orders := os, ap_products := ps\<rparr>) =
      ((401, Empty), s\<lparr>ap_orders := os, ap_products := ps\<rparr>)"
    using roles by (intro served_tampered tampered_refused [OF j sig]) simp
  have tok: "access_of (Tokens (pair_for env e u f)) = access_for env e u f" for e u f by (simp add: pair_for_def)
  show ?thesis
    unfolding runDemo_def exit_code_def
    by (simp add: then_run_def startDemo_ready [OF r] demo_rbac_def 1 login_as_def expecting_def call_def 2 3 4 5 tok served_anonymous
        expect_status_def invariant_def Let_def del: access_of.simps One_nat_def)
qed

subsection \<open>A library that keeps these promises\<close>

text \<open>
  The payload, its text numbered by the countability of the type, once as the payload part
  and once as its own signature: enough to show that what the runs rely on can hold.
\<close>

instance json :: countable
  by countable_datatype

definition some_text :: "json \<Rightarrow> string" where "some_text j = show_nat (to_nat j)"

definition some_parse :: "string \<Rightarrow> json" where "some_parse s = from_nat (digits_val (codes s))"

definition some_payload :: "string \<Rightarrow> string \<Rightarrow> string \<Rightarrow> rat \<Rightarrow> string \<Rightarrow> json" where
  "some_payload sub rl jti e fid =
     JObj [(''sub'', JStr sub), (''role'', JStr rl), (''jti'', JStr jti), (''exp'', JNum e), (''fid'', JStr fid)]"

definition some_token :: "json \<Rightarrow> string" where
  "some_token p = CHR ''h'' # CHR ''.'' # to_base64url (some_text p) @ CHR ''.'' # to_base64url (some_text p)"

definition some_body :: "json \<Rightarrow> string \<Rightarrow> string" where
  "some_body j k = (case field j k of Some (JStr s) \<Rightarrow> s | _ \<Rightarrow> '''')"

definition some_exp :: "json \<Rightarrow> rat" where
  "some_exp j = (case field j ''exp'' of Some (JNum e) \<Rightarrow> e | _ \<Rightarrow> 0)"

definition some_lib :: "(unit, unit) jwt_lib" where
  "some_lib = \<lparr>
     jl_sign = (\<lambda>now j _ so. some_token (some_payload (so_subject so) (some_body j ''role'') (so_jwtid so)
       (of_int (\<lfloor>now\<rfloor> + so_expiresIn so)) (some_body j ''fid''))),
     jl_decode_kid = (\<lambda>_. DecodedKid (Some ''k'')), jl_decode_exp = (\<lambda>_. 0),
     jl_verify = (\<lambda>now tok _ _ _ _. case split_on CHR ''.'' tok of
        [_, p, s] \<Rightarrow> (let j = some_parse (from_base64 p) in
           if s = p \<and> of_int \<lfloor>now\<rfloor> < some_exp j then VPayload j else VExpired)
      | _ \<Rightarrow> VExpired)\<rparr>"

definition some_env :: "(unit, unit) auth_env" where
  "some_env = example_env\<lparr>ae_lib := some_lib\<rparr>"

definition some_draws :: "nat \<Rightarrow> draws" where
  "some_draws i = \<lparr>dr_dbnow = 0, dr_appnow = 0, dr_raw = show_nat i, dr_jti = show_nat i, dr_fid = ''f'', dr_iso = ''''\<rparr>"

definition some_world :: demo_state where
  "some_world = \<lparr>ds_api = \<lparr>ap_auth = \<lparr>users = [], refresh_tokens = [], next_token_id = 1, access_denylist = []\<rparr>,
     ap_orders = orders_init, ap_products = products_init\<rparr>, ds_failed = False\<rparr>"

lemma some_parse_text [simp]: "some_parse (some_text j) = j"
  by (simp add: some_parse_def some_text_def digits_val_show_nat)

lemma base64url_chars: "c \<in> set (to_base64url s) \<Longrightarrow> c \<noteq> CHR ''.'' \<and> \<not> js_space c"
proof -
  assume "c \<in> set (to_base64url s)"
  then have "b64_val c \<noteq> None"
    using sextets_bound [of "codes s"] by (auto simp: to_base64url_def codes_def of_char_less)
  then show ?thesis by (auto simp: b64_val_def js_space_def Let_def split: if_splits)
qed

lemma split_on_dot: "split_on c (s @ c # t) = split_on c s @ split_on c t"
  by (induction s) (auto split: list.splits)

lemma split_on_parts: "p \<in> set (split_on c s) \<Longrightarrow> c \<notin> set p"
  by (induction s arbitrary: p) (auto split: list.splits if_splits)

lemma some_token_split: "split_on CHR ''.'' (some_token p) = [''h'', to_base64url (some_text p), to_base64url (some_text p)]"
proof -
  have "CHR ''.'' \<notin> set (to_base64url (some_text p))" using base64url_chars by blast
  then show ?thesis by (simp add: some_token_def split_on_append)
qed

lemma some_sign:
  "fst (sign (ae_lib some_env) (ae_tokens some_env) now jti sub rl fid) =
     some_token (some_payload sub (role_name rl) jti (of_int (\<lfloor>now\<rfloor> + 600)) fid)"
  by (simp add: sign_def some_env_def some_lib_def some_body_def example_env_def Let_def)

lemma some_jwt_signs: "jwt_signs some_env"
proof -
  have "tok \<noteq> [] \<and> (\<forall>c \<in> set tok. \<not> js_space c)" if "tok = some_token p" for tok p
    using that base64url_chars by (auto simp: some_token_def js_space_def)
  moreover have "jl_verify some_lib now (some_token p) k a i u = (if of_int \<lfloor>now\<rfloor> < some_exp p then VPayload p else VExpired)" for now p k a i u
    by (simp add: some_lib_def some_token_split Let_def)
  moreover have "read_claims (some_payload sub (role_name rl) jti e fid) = Inr \<lparr>vc_sub = sub, vc_role = rl, vc_jti = jti, vc_exp = e, vc_fid = fid\<rparr>"
    for sub rl jti e fid by (simp add: read_claims_Inr some_payload_def)
  moreover have "some_exp (some_payload sub r jti e fid) = e" for sub r jti e fid by (simp add: some_exp_def some_payload_def)
  moreover have "ae_lib some_env = some_lib" "ts_kid (ae_tokens some_env) = ''k''" "ts_verifyKeys (ae_tokens some_env) ''k'' = Some ()"
    "ts_accessTtlSec (ae_tokens some_env) = 600" "jl_decode_kid some_lib t = DecodedKid (Some ''k'')" for t
    by (simp_all add: some_env_def example_env_def some_lib_def)
  ultimately show ?thesis
    unfolding jwt_signs_def Let_def some_sign by (simp del: of_int_add)
qed

lemma some_signature_covers: "signature_covers some_env"
proof -
  have "b = split_on CHR ''.'' tok ! 1"
    if ok: "jl_verify some_lib now tok k a i u = VPayload p" "jl_verify some_lib now' (with_payload b tok) k' a' i' u' = VPayload p'"
    for now now' tok b k k' a a' i i' u u' p p'
  proof -
    obtain x y where s: "split_on CHR ''.'' tok = [x, y, y]"
      using ok(1) by (auto simp: some_lib_def Let_def split: list.splits if_splits)
    have dots: "CHR ''.'' \<notin> set x" "CHR ''.'' \<notin> set y" using split_on_parts [of _ "CHR ''.''" tok] s by auto
    have "split_on CHR ''.'' (with_payload b tok) = x # split_on CHR ''.'' b @ [y]"
      using dots by (simp add: with_payload_def s split_on_append split_on_dot)
    then obtain z where "split_on CHR ''.'' b @ [y] = [z, z]"
      using ok(2) by (auto simp: some_lib_def Let_def split: list.splits if_splits)
    then have "split_on CHR ''.'' b = [y]" by auto
    then have "b = y" using join_split [of "CHR ''.''" b] by simp
    then show ?thesis using s by simp
  qed
  then show ?thesis by (simp add: signature_covers_def some_env_def)
qed

lemma some_payload_part: "payload_part some_env some_parse some_text"
  by (simp add: payload_part_def some_sign some_token_split Let_def)
    (simp add: some_payload_def some_env_def some_lib_def)

lemma some_ready: "demo_ready some_env (\<lambda>_. Some ''x'') some_draws (hashPassword (ae_scrypt some_env) [1] PASSWORD) some_world"
proof -
  have "timely some_env some_draws" by (simp add: timely_def some_draws_def some_env_def example_env_def)
  moreover have "demo_hash some_env (hashPassword (ae_scrypt some_env) [1] PASSWORD)"
    unfolding demo_hash_def by (intro conjI exI [of _ "[1]"]) (simp_all add: some_env_def example_env_def)
  ultimately show ?thesis
    by (simp add: demo_ready_def some_jwt_signs some_world_def users_ok_def present_def)
qed

lemma some_hmac: "ae_hmac some_env (dr_raw (some_draws i)) = ae_hmac some_env (dr_raw (some_draws j)) \<longleftrightarrow> i = j"
  by (simp add: some_env_def example_env_def some_draws_def show_nat_inj)

theorem rbac_demo_passes_witness:
  "runDemo (\<lambda>_. Some ''x'') (demo_rbac some_env some_parse some_text (hashPassword (ae_scrypt some_env) [1] PASSWORD) id some_draws) some_world = 0"
proof (rule rbac_demo_passes [OF some_ready _ _ _ some_signature_covers some_payload_part some_parse_text])
  show "distinct (map (\<lambda>i. ae_hmac some_env (dr_raw (some_draws i))) [0, 1, 2])" by (simp add: some_hmac del: One_nat_def)
qed (simp_all add: some_world_def some_env_def example_env_def)

lemma reuse_demo_instance:
  "runDemo (\<lambda>_. Some ''x'') (demo_reuse some_env (hashPassword (ae_scrypt some_env) [1] PASSWORD) 1 some_draws) some_world = 0"
  by (rule reuse_demo_passes [OF some_ready]) (simp_all add: some_hmac some_world_def del: One_nat_def)

lemma auth_demo_instance:
  "runDemo (\<lambda>_. Some ''x'') (demo_auth some_env (hashPassword (ae_scrypt some_env) [1] PASSWORD) 1 some_draws) some_world = 0"
  by (rule auth_demo_passes [OF some_ready]) (simp_all add: some_hmac some_world_def del: One_nat_def)

end
