(* ===== verification/RedisDemos.thy ===== *)
theory RedisDemos
  imports Runs RateLimit Session
begin

text \<open>
  The acceptance runs of the rate limiter and of the sessions:
  \<open>src/demo-ratelimit.ts\<close> and \<open>src/demo-session.ts\<close>, with \<open>expect\<close> and \<open>run\<close> of
  \<open>src/redis/demo-lib.ts\<close>.  Both servers are \<open>node:http\<close> handlers around the middleware;
  a request is handled at one time, which an argument gives, like the random ids.
\<close>

subsection \<open>redis/demo-lib\<close>

text \<open>A failed expectation sets the exit code and the run goes on; an error ends it with 1.\<close>

definition bool_kv :: "bool \<Rightarrow> int" where "bool_kv v = (if v then 1 else 0)"

definition expect_ok :: "bool \<Rightarrow> nat \<Rightarrow> nat" where
  "expect_ok cond code = (if \<not> cond then 1 else code)"

definition run_exit :: "nat res \<Rightarrow> nat" where
  "run_exit r = (case r of Inl _ \<Rightarrow> 1 | Inr code \<Rightarrow> code)"

subsection \<open>demo:ratelimit\<close>

definition LIMIT :: int where "LIMIT = 5"
definition WINDOW_MS :: int where "WINDOW_MS = 10000"
definition TOTAL :: nat where "TOTAL = 14"

text \<open>A pod is a server with a limiter of its own; the sorted sets are those of the one Redis.\<close>

definition pods :: "rate_limit_options list" where
  "pods = map (\<lambda>n. \<lparr>limit = LIMIT, windowMs = WINDOW_MS, prefix = None, failOpen = None\<rparr>) [1, 2 :: nat]"

text \<open>Status and \<open>Retry-After\<close>; the handler answers 200 whatever \<open>next\<close> is given.\<close>

fun pod_response :: "rl_action \<Rightarrow> nat \<times> int option" where
  "pod_response NextHandler = (200, None)"
| "pod_response (NextError e) = (200, None)"
| "pod_response (TooMany n) = (429, Some n)"

text \<open>The request number \<open>i\<close> goes to the pods in turn; its time and the script's random member
  are given, as is the outage, if Redis is away.\<close>

definition pod_request :: "string \<Rightarrow> nat \<Rightarrow> exn option \<times> int \<times> string \<Rightarrow> (string \<Rightarrow> zset) \<Rightarrow> (nat \<times> int option) \<times> (string \<Rightarrow> zset)" where
  "pod_request client i r db =
     (case r of (outage, now, uuid) \<Rightarrow>
       (case rateLimitMiddleware (pods ! (i mod length pods)) outage now uuid client db of
          (a, db') \<Rightarrow> (pod_response a, db')))"

fun pod_requests :: "string \<Rightarrow> nat \<Rightarrow> (exn option \<times> int \<times> string) list \<Rightarrow> (string \<Rightarrow> zset) \<Rightarrow> (nat \<times> int option) list \<times> (string \<Rightarrow> zset)" where
  "pod_requests client i [] db = ([], db)"
| "pod_requests client i (r # rs) db =
     (case pod_request client i r db of (x, db') \<Rightarrow>
       (case pod_requests client (Suc i) rs db' of (xs, db'') \<Rightarrow> (x # xs, db'')))"

record ratelimit_report =
  rr_allowed :: nat
  rr_blocked :: nat
  rr_status :: nat
  rr_retry_after :: int

definition ratelimit_counts :: "(nat \<times> int option) list \<Rightarrow> ratelimit_report" where
  "ratelimit_counts xs =
     (let blocked = filter (\<lambda>x. fst x = 429) xs; lastBlocked = (if blocked = [] then None else Some (last blocked))
      in \<lparr>rr_allowed = length (filter (\<lambda>x. fst x \<noteq> 429) xs), rr_blocked = length blocked,
          rr_status = (case lastBlocked of None \<Rightarrow> 0 | Some x \<Rightarrow> fst x),
          rr_retry_after = bool_kv (case lastBlocked of None \<Rightarrow> False | Some x \<Rightarrow> snd x \<noteq> None)\<rparr>)"

definition demo_ratelimit :: "string \<Rightarrow> (exn option \<times> int \<times> string) list \<Rightarrow> (string \<Rightarrow> zset) \<Rightarrow> (ratelimit_report \<times> nat) \<times> (string \<Rightarrow> zset)" where
  "demo_ratelimit client rs db =
     (let (xs, db') = pod_requests client 0 (take TOTAL rs) db; c = ratelimit_counts xs
      in ((c, run_exit (Inr (expect_ok (int (rr_allowed c) = LIMIT \<and> int (rr_blocked c) = int TOTAL - LIMIT) 0))),
          db'(''rl:'' @ client := None)))"

subsection \<open>The pods share the limit\<close>

lemma pod_answers:
  assumes k: "k = ''rl:'' @ client" and rs: "\<forall>r \<in> set rs. fst r = None"
  shows "fst (pod_requests client i rs db) =
    map (\<lambda>r. case r of Inl e \<Rightarrow> (200, None) | Inr (a, rem, ms) \<Rightarrow>
        if a = 1 then (200, None) else (429, Some (max 1 \<lceil>of_int ms / (1000 :: rat)\<rceil>)))
      (lua_run WINDOW_MS LIMIT (map snd rs) (db k))"
  using rs
proof (induction rs arbitrary: i db)
  case (Cons r rs)
  obtain now m where r: "r = (None, now, m)" using Cons.prems by (cases r) auto
  have "\<forall>p \<in> set pods. p = \<lparr>limit = LIMIT, windowMs = WINDOW_MS, prefix = None, failOpen = None\<rparr>" "0 < length pods"
    by (simp_all add: pods_def)
  then have p: "pods ! (i mod length pods) = \<lparr>limit = LIMIT, windowMs = WINDOW_MS, prefix = None, failOpen = None\<rparr>"
    using nth_mem mod_less_divisor by blast
  have key: "rl_key \<lparr>limit = LIMIT, windowMs = WINDOW_MS, prefix = None, failOpen = None\<rparr> client = k" by (simp add: rl_key_def k)
  obtain x z where l: "SLIDING_WINDOW_LUA now WINDOW_MS LIMIT m (db (k)) = (x, z)" by fastforce
  have "pod_request client i r db = (case x of Inl e \<Rightarrow> (200, None) | Inr (a, rem, ms) \<Rightarrow>
        if a = 1 then (200, None) else (429, Some (max 1 \<lceil>of_int ms / (1000 :: rat)\<rceil>)), db(k := z))"
    by (cases x) (auto simp: pod_request_def r p rateLimitMiddleware_def check_def key Let_def l)
  then obtain db' where step: "pod_request client i r db = ((case x of Inl e \<Rightarrow> (200, None) | Inr (a, rem, ms) \<Rightarrow>
        if a = 1 then (200, None) else (429, Some (max 1 \<lceil>of_int ms / (1000 :: rat)\<rceil>))), db')" "db' k = z" by simp
  show ?case using Cons.prems Cons.IH [of "Suc i" db'] step by (auto simp: r l split: prod.split)
qed simp

text \<open>As long as nothing leaves the window, the first \<open>n\<close> requests pass and the others wait.\<close>

lemma spec_in_window:
  assumes "\<forall>a \<in> set adm. \<forall>r \<in> set rs. fst r - win < a" "\<forall>r \<in> set rs. \<forall>r' \<in> set rs. fst r' - win < fst r"
  shows "map (\<lambda>(a, _, _). a = 1) (fst (spec_run win n rs adm)) =
    map (\<lambda>k. int (length adm + k) < n) [0..<length rs]"
  using assms
proof (induction rs arbitrary: adm)
  case (Cons r rs)
  obtain now m where r: "r = (now, m)" by fastforce
  have w: "in_window win now adm = adm" using Cons.prems(1) by (auto simp: in_window_def r)
  have shift: "map f [0..<Suc k] = f 0 # map (\<lambda>i. f (Suc i)) [0..<k]" for f :: "nat \<Rightarrow> bool" and k
    by (simp add: upt_conv_Cons map_Suc_upt [symmetric] del: upt_Suc)
  show ?case
  proof (cases "int (length adm) < n")
    case True
    have "map (\<lambda>(a, _, _). a = 1) (fst (spec_run win n rs (adm @ [now]))) =
        map (\<lambda>k. int (length (adm @ [now]) + k) < n) [0..<length rs]"
      by (rule Cons.IH) (use Cons.prems r in auto)
    then show ?thesis using True by (simp add: r spec_check_def w Let_def case_prod_unfold shift algebra_simps del: upt_Suc)
  next
    case False
    have "map (\<lambda>(a, _, _). a = 1) (fst (spec_run win n rs adm)) = map (\<lambda>k. int (length adm + k) < n) [0..<length rs]"
      by (rule Cons.IH) (use Cons.prems in auto)
    then show ?thesis using False by (simp add: r spec_check_def w Let_def case_prod_unfold shift algebra_simps del: upt_Suc)
  qed
qed simp

lemma counts_of_answers:
  assumes xs: "xs = map (\<lambda>(a, rem, ms). if a = (1 :: int) then (200, None) else (429, Some (f ms))) ys"
    and bs: "map (\<lambda>(a, _, _). a = 1) ys = bs" "False \<in> set bs"
  shows "ratelimit_counts xs = \<lparr>rr_allowed = length (filter id bs), rr_blocked = length (filter Not bs), rr_status = 429, rr_retry_after = 1\<rparr>"
proof -
  have n: "length (filter (\<lambda>x. fst x \<noteq> 429) xs) = length (filter id bs)" "length (filter (\<lambda>x. fst x = 429) xs) = length (filter Not bs)"
    unfolding xs bs(1) [symmetric] by (induction ys) (auto split: if_splits)
  then have ne: "filter (\<lambda>x. fst x = 429) xs \<noteq> []" using bs(2) by (metis filter_empty_conv length_0_conv)
  then have "last (filter (\<lambda>x. fst x = 429) xs) \<in> set (filter (\<lambda>x. fst x = 429) xs)" by (rule last_in_set)
  then have "fst (last (filter (\<lambda>x. fst x = 429) xs)) = 429" "snd (last (filter (\<lambda>x. fst x = 429) xs)) \<noteq> None"
    by (auto simp: xs split: if_splits)
  then show ?thesis using n ne by (simp add: ratelimit_counts_def Let_def bool_kv_def)
qed

text \<open>Two limiters in two processes let exactly \<open>LIMIT\<close> of the client's requests through, and the
  others are told when to come back.\<close>

theorem ratelimit_demo_passes:
  assumes rs: "length rs = TOTAL" "\<forall>r \<in> set rs. fst r = None" and new: "db (''rl:'' @ client) = None"
    and times: "sorted (map (fst \<circ> snd) rs)" "\<forall>r \<in> set rs. 0 \<le> fst (snd r)"
      "\<forall>r \<in> set rs. \<forall>r' \<in> set rs. fst (snd r') - fst (snd r) < WINDOW_MS" and ids: "distinct (map (snd \<circ> snd) rs)"
  shows "fst (demo_ratelimit client rs db) = (\<lparr>rr_allowed = 5, rr_blocked = 9, rr_status = 429, rr_retry_after = 1\<rparr>, 0)"
proof -
  let ?ys = "fst (spec_run WINDOW_MS LIMIT (map snd rs) [])"
  have sim: "simulates WINDOW_MS 0 (snd ` set (map snd rs)) None []" by (simp add: simulates_def live_def in_window_def)
  have "lua_run WINDOW_MS LIMIT (map snd rs) None = map Inr ?ys"
    by (rule lua_run_spec [OF sim]) (use times ids in \<open>auto simp: WINDOW_MS_def LIMIT_def\<close>)
  then have xs: "fst (pod_requests client 0 rs db) =
      map (\<lambda>(a, rem, ms). if a = 1 then (200, None) else (429, Some (max 1 \<lceil>of_int ms / (1000 :: rat)\<rceil>))) ?ys"
    by (simp add: pod_answers [OF refl rs(2)] case_prod_unfold o_def flip: new)
  have "map (\<lambda>(a, _, _). a = 1) ?ys = map (\<lambda>k. int (length ([] :: int list) + k) < LIMIT) [0..<length (map snd rs)]"
    by (rule spec_in_window) (use times(3) in \<open>force+\<close>)
  then have bs: "map (\<lambda>(a, _, _). a = 1) ?ys = [True, True, True, True, True, False, False, False, False, False, False, False, False, False]"
    by (simp add: rs(1) TOTAL_def LIMIT_def upt_rec)
  have "ratelimit_counts (fst (pod_requests client 0 rs db)) = \<lparr>rr_allowed = 5, rr_blocked = 9, rr_status = 429, rr_retry_after = 1\<rparr>"
    using counts_of_answers [OF xs bs] by simp
  then show ?thesis
    using rs(1) by (simp add: demo_ratelimit_def case_prod_unfold Let_def run_exit_def expect_ok_def LIMIT_def TOTAL_def)
qed

subsection \<open>demo:session\<close>

definition TTL_SEC :: int where "TTL_SEC = 20"

text \<open>\<open>new SessionStore(redis, TTL_SEC)\<close>; a restart makes another one, on the same Redis.\<close>

definition new_store :: session_store where "new_store = \<lparr>ss_ttlSec = TTL_SEC, ss_prefix = ''sess:''\<rparr>"

text \<open>\<open>Number\<close> of a JSON value (\<open>undefined\<close> is replaced before), and what spreading it gives.\<close>

fun element_number :: "json \<Rightarrow> jsnum" where
  "element_number JNull = Num 0"
| "element_number (JBool _) = NaN"
| "element_number (JNum q) = Num q"
| "element_number (JStr s) = js_number s"
| "element_number (JArr []) = Num 0"
| "element_number (JArr [j]) = element_number j"
| "element_number (JArr _) = NaN"
| "element_number (JObj _) = NaN"

fun json_number :: "json \<Rightarrow> jsnum" where
  "json_number (JBool b) = Num (if b then 1 else 0)"
| "json_number j = element_number j"

fun spread_entries :: "json \<Rightarrow> (string \<times> json) list" where
  "spread_entries (JObj kvs) = kvs"
| "spread_entries (JArr xs) = map (\<lambda>i. (show_nat i, xs ! i)) [0..<length xs]"
| "spread_entries (JStr s) = map (\<lambda>i. (show_nat i, JStr [s ! i])) [0..<length s]"
| "spread_entries _ = []"

definition with_entry :: "string \<Rightarrow> json \<Rightarrow> (string \<times> json) list \<Rightarrow> json" where
  "with_entry k v kvs =
     JObj (if k \<in> fst ` set kvs then map (\<lambda>(k', v'). (k', if k' = k then v else v')) kvs else kvs @ [(k, v)])"

definition next_visits :: "json \<Rightarrow> jsnum" where
  "next_visits data =
     (case field data ''visits'' of
        None \<Rightarrow> Num 1 | Some JNull \<Rightarrow> Num 1
      | Some j \<Rightarrow> (case json_number j of Num q \<Rightarrow> to_jsnum (q + 1) | x \<Rightarrow> x))"

text \<open>\<open>JSON.stringify\<close> of a number.\<close>

fun number_json :: "jsnum \<Rightarrow> json" where
  "number_json (Num q) = JNum q"
| "number_json _ = JNull"

text \<open>The handler: the response has the session's id and its visits; a failed write is a
  rejection nobody handles, and leaves the client without one.\<close>

definition session_handler :: "session_store \<Rightarrow> int \<Rightarrow> string \<Rightarrow> string option \<Rightarrow> kv \<Rightarrow>
    ((string \<times> json) res \<times> string option) \<times> kv" where
  "session_handler st now fresh cookie db =
     (case sessionMiddleware st now fresh cookie db of
        (Inl e, header, db1) \<Rightarrow> ((Inl e, header), db1)
      | (Inr s, header, db1) \<Rightarrow>
          (let visits = number_json (next_visits (rs_data s)) in
           case session_save st now (rs_id s) (with_entry ''visits'' visits (spread_entries (rs_data s))) db1 of
             (Inl e, db2) \<Rightarrow> ((Inl e, header), db2)
           | (Inr _, db2) \<Rightarrow> ((Inr (rs_id s, visits), header), db2)))"

text \<open>The client: its cookie, the ids it saw, the requests it made.\<close>

record session_client =
  sc_cookie :: string
  sc_sids :: "string list"
  sc_requests :: nat

definition hit :: "session_store \<Rightarrow> int \<Rightarrow> string \<Rightarrow> session_client \<times> kv \<Rightarrow> (string \<times> json) res \<times> session_client \<times> kv" where
  "hit st now fresh w =
     (let (c, db) = w;
          ((body, header), db') = session_handler st now fresh (if sc_cookie c = '''' then None else Some (sc_cookie c)) db;
          c1 = (case header of None \<Rightarrow> c | Some h \<Rightarrow> c\<lparr>sc_cookie := hd (split_on CHR '';'' h)\<rparr>)
      in case body of
           Inl e \<Rightarrow> (Inl (Error ''SyntaxError''), c1, db')
         | Inr (sid, v) \<Rightarrow> (Inr (sid, v), c1\<lparr>sc_sids := List.insert sid (sc_sids c), sc_requests := Suc (sc_requests c)\<rparr>, db'))"

definition pttl :: "int \<Rightarrow> string \<Rightarrow> kv \<Rightarrow> int" where
  "pttl now k db =
     (case db k of
        None \<Rightarrow> -2 | Some (_, None) \<Rightarrow> -1
      | Some (_, Some e) \<Rightarrow> if e < now then -2 else e - now)"

text \<open>\<open>t k\<close> is the time of the step number \<open>k\<close>, \<open>f k\<close> the id drawn if request \<open>k\<close> needs one.\<close>

definition demo_session :: "(nat \<Rightarrow> int) \<Rightarrow> (nat \<Rightarrow> string) \<Rightarrow> session_client \<times> kv \<Rightarrow> nat res \<times> session_client \<times> kv" where
  "demo_session t f =
     then_run (hit new_store (t 0) (f 0)) (\<lambda>(sid, _) w1.
     let key = ''sess:'' @ sid; ttlBefore = pttl (t 1) key (snd w1) in
     then_run (hit new_store (t 2) (f 1)) (\<lambda>_ w2.
     let ttlAfter = pttl (t 3) key (snd w2) in
     then_run (hit new_store (t 4) (f 2)) (\<lambda>(_, visits).
     then_run (hit new_store (t 5) (f 3)) (\<lambda>_ (c, db).
     let code = expect_ok (visits = JNum 3) 0;
         inRedis = (r_get (t 6) key db \<noteq> None);
         code = expect_ok (length (sc_sids c) = 1 \<and> inRedis \<and> ttlBefore < ttlAfter \<and> 3 \<le> sc_requests c) code
     in (Inr code, c, r_del key db))) w2) w1)"

subsection \<open>The session survives the restart\<close>

definition visited :: "rat \<Rightarrow> json" where "visited n = JObj [(''visits'', JNum n)]"

lemma fl_small: "to_jsnum 2 = Num 2" "to_jsnum 3 = Num 3" "to_jsnum 4 = Num 4"
  using fl_int [of 2] fl_int [of 3] fl_int [of 4] by (simp_all add: to_jsnum_def)

lemma next_visits_simps: "next_visits (JObj []) = Num 1" "to_jsnum (q + 1) = Num r \<Longrightarrow> next_visits (visited q) = Num r"
  by (simp_all add: next_visits_def visited_def)

lemma entry_visits: "with_entry ''visits'' (JNum r) (spread_entries (visited q)) = visited r"
  "with_entry ''visits'' (JNum r) [] = visited r"
  by (simp_all add: with_entry_def visited_def)

definition after_hits :: "string \<Rightarrow> nat \<Rightarrow> session_client" where
  "after_hits sid n = \<lparr>sc_cookie = ''sid='' @ sid, sc_sids = [sid], sc_requests = n\<rparr>"

lemma saved_alive: "session_save new_store now sid d db = (Inr (), r_put now 20000 (session_key new_store sid) (RawJson d) db)"
  by (simp add: session_save_def r_set_def new_store_def TTL_SEC_def)

lemma first_hit:
  assumes "sid_letters sid"
  shows "\<exists>db'. hit new_store now sid (\<lparr>sc_cookie = '''', sc_sids = [], sc_requests = 0\<rparr>, db) = (Inr (sid, JNum 1), after_hits sid 1, db')
    \<and> alive new_store sid (visited 1) now db'"
proof -
  have none: "readCookie None SESSION_COOKIE = None" by code_simp
  have new: "sessionMiddleware new_store now sid None db =
      (Inr \<lparr>rs_id = sid, rs_data = JObj [], rs_isNew = True\<rparr>, Some (set_cookie sid), r_put now 20000 (session_key new_store sid) (RawJson (JObj [])) db)"
    by (simp add: sessionMiddleware_def none session_create_def r_set_def new_store_def TTL_SEC_def)
  have "CHR '';'' \<notin> set sid" using assms sid_letterD(2) [of "CHR '';''"] by (auto simp: sid_letters_def)
  then have cookie: "hd (split_on CHR '';'' (set_cookie sid)) = ''sid='' @ sid"
    using split_on_append [of "CHR '';''" "''sid='' @ sid" "'' HttpOnly; Path=/; SameSite=Lax''"]
    by (simp add: set_cookie_def SESSION_COOKIE_def)
  have h: "\<exists>db'. session_handler new_store now sid None db = ((Inr (sid, JNum 1), Some (set_cookie sid)), db') \<and> alive new_store sid (visited 1) now db'"
    by (simp add: session_handler_def new next_visits_simps entry_visits saved_alive alive_def r_put_def Let_def)
      (simp add: new_store_def TTL_SEC_def)
  then show ?thesis by (auto simp: hit_def cookie after_hits_def Let_def)
qed

lemma next_hit:
  assumes "sid_letters sid" "alive new_store sid (visited q) t db" "now \<le> t + 20000" "to_jsnum (q + 1) = Num r"
  shows "\<exists>db'. hit new_store now fresh (after_hits sid n, db) = (Inr (sid, JNum r), after_hits sid (Suc n), db')
    \<and> alive new_store sid (visited r) now db'"
proof -
  have ne: "sid \<noteq> ''''" using assms(1) by (simp add: sid_letters_def)
  obtain db' where "sessionMiddleware new_store now fresh (Some (''sid='' @ sid)) db =
      (Inr \<lparr>rs_id = sid, rs_data = visited q, rs_isNew = False\<rparr>, None, db')"
    using middleware_own [OF assms(2) _ _ _ read_own_cookie(2) [OF assms(1)] ne, of now fresh] assms(3)
    by (auto simp: new_store_def TTL_SEC_def visited_def)
  then have "\<exists>db'. session_handler new_store now fresh (Some (''sid='' @ sid)) db = ((Inr (sid, JNum r), None), db') \<and> alive new_store sid (visited r) now db'"
    by (simp add: session_handler_def next_visits_simps(2) [OF assms(4)] entry_visits saved_alive alive_def r_put_def Let_def)
      (simp add: new_store_def TTL_SEC_def)
  then show ?thesis by (auto simp: hit_def after_hits_def Let_def)
qed

text \<open>Four requests are one session, before and after the restart: the visits go on counting, and
  the second request moved the end of its lifetime.\<close>

theorem session_demo_passes:
  assumes sid: "sid_letters (f 0)" and t: "t 2 \<le> t 0 + 20000" "t 4 \<le> t 2 + 20000" "t 5 \<le> t 4 + 20000" "t 6 \<le> t 5 + 20000"
    and sleep: "t 0 + 2000 \<le> t 1" and soon: "t 3 - t 2 < 2000" "t 1 \<le> t 2" "t 2 \<le> t 3"
  shows "exit_code (demo_session t f) (\<lparr>sc_cookie = [], sc_sids = [], sc_requests = 0\<rparr>, db) = 0"
proof -
  obtain d0 where 1: "hit new_store (t 0) (f 0) (\<lparr>sc_cookie = [], sc_sids = [], sc_requests = 0\<rparr>, db) = (Inr (f 0, JNum 1), after_hits (f 0) 1, d0)"
    "alive new_store (f 0) (visited 1) (t 0) d0" using first_hit [OF sid] by blast
  obtain d1 where 2: "hit new_store (t 2) (f 1) (after_hits (f 0) 1, d0) = (Inr (f 0, JNum 2), after_hits (f 0) (Suc 1), d1)"
    "alive new_store (f 0) (visited 2) (t 2) d1" using next_hit [OF sid 1(2) t(1), of 2] fl_small by fastforce
  obtain d2 where 3: "hit new_store (t 4) (f 2) (after_hits (f 0) (Suc 1), d1) = (Inr (f 0, JNum 3), after_hits (f 0) (Suc (Suc 1)), d2)"
    "alive new_store (f 0) (visited 3) (t 4) d2" using next_hit [OF sid 2(2) t(2), of 3] fl_small by fastforce
  obtain d3 where 4: "hit new_store (t 5) (f 3) (after_hits (f 0) (Suc (Suc 1)), d2) = (Inr (f 0, JNum 4), after_hits (f 0) (Suc (Suc (Suc 1))), d3)"
    "alive new_store (f 0) (visited 4) (t 5) d3" using next_hit [OF sid 3(2) t(3), of 4] fl_small by fastforce
  define k where "k = ''sess:'' @ f 0"
  have key: "session_key new_store (f 0) = k" by (simp add: session_key_def new_store_def k_def)
  have ttl: "ss_ttlSec new_store = 20" by (simp add: new_store_def TTL_SEC_def)
  have before: "pttl (t 1) k d0 \<le> t 0 + 20000 - t 1" and after: "pttl (t 3) k d1 = t 2 + 20000 - t 3" and left: "r_get (t 6) k d3 \<noteq> None"
    using 1(2) 2(2) 4(2) sleep soon t by (simp_all add: alive_def key ttl pttl_def r_get_def)
  have "demo_session t f (\<lparr>sc_cookie = [], sc_sids = [], sc_requests = 0\<rparr>, db) = (Inr 0, after_hits (f 0) (Suc (Suc (Suc 1))), r_del k d3)"
    unfolding demo_session_def then_run_def 1 2 3 4 prod.case sum.case Let_def k_def [symmetric] snd_conv
    using before after left sleep soon by (simp add: expect_ok_def after_hits_def)
  then show ?thesis by (simp add: exit_code_def)
qed

end
