(* ===== verification/RealtimeDemo.thy ===== *)
theory RealtimeDemo
  imports AuthDemos
begin

text \<open>
  The run of the WebSocket rooms, \<open>scripts/realtime-demo.mjs\<close>: two clients, each with an
  order, join rooms; the status of the first order is changed over HTTP; who gets the
  event decides the exit code.  The application is that of \<open>AuthDemos\<close> with the gateway.
\<close>

record realtime_world =
  rw_api :: api_state
  rw_gw :: gateway

subsection \<open>What the clients do\<close>

text \<open>\<open>createOrder\<close>: anything but a 2xx throws; the result is the id.\<close>

definition createOrder :: "('priv, 'pub) auth_env \<Rightarrow> draws \<Rightarrow> string \<Rightarrow> realtime_world \<Rightarrow> string res \<times> realtime_world" where
  "createOrder env d token w =
     (case serve_call env d (PostOrder [\<lparr>product_id = ''p1'', quantity = 1\<rparr>]) (Some token) (rw_api w) of
        ((status, body), s) \<Rightarrow>
          (if status < 200 \<or> 300 \<le> status then Inl (Error ''POST /orders'')
           else Inr (case body of Order x \<Rightarrow> o_id x | _ \<Rightarrow> ''undefined''), w\<lparr>rw_api := s\<rparr>))"

text \<open>\<open>setStatus\<close> through the guards and the controller; the events it puts on the bus are the result.\<close>

definition setStatus :: "('priv, 'pub) auth_env \<Rightarrow> draws \<Rightarrow> string \<Rightarrow> string \<Rightarrow> order_status \<Rightarrow> realtime_world \<Rightarrow>
    order_event list res \<times> realtime_world" where
  "setStatus env d token i st w =
     (case guards env (dr_appnow d) (ap_auth (rw_api w)) (orders_routes ! 3) (Some (''Bearer '' @ token)) of
        Inl e \<Rightarrow> (Inl (Error ''PATCH /orders/:id/status''), w)
      | Inr _ \<Rightarrow>
          (case updateStatus (ap_orders (rw_api w)) i st (dr_iso d) of
             (Inl e, _, _) \<Rightarrow> (Inl (Error ''PATCH /orders/:id/status''), w)
           | (Inr _, evs, os) \<Rightarrow> (Inr evs, w\<lparr>rw_api := (rw_api w)\<lparr>ap_orders := os\<rparr>\<rparr>)))"

definition connect_as :: "('priv, 'pub) auth_env \<Rightarrow> draws \<Rightarrow> nat \<Rightarrow> string \<Rightarrow> realtime_world \<Rightarrow> realtime_world" where
  "connect_as env d client token w =
     w\<lparr>rw_gw := handleConnection (\<lambda>t. authenticate env (dr_appnow d) t (ap_auth (rw_api w))) client (Some (JStr token)) (rw_gw w)\<rparr>"

text \<open>\<open>join\<close> waits for the \<open>joined\<close> event and rejects when it says no.\<close>

definition join_room :: "nat \<Rightarrow> string \<Rightarrow> realtime_world \<Rightarrow> unit res \<times> realtime_world" where
  "join_room client orderId w =
     (case join_order (ap_orders (rw_api w)) client orderId (rw_gw w) of
        (JoinOk _, gw) \<Rightarrow> (Inr (), w\<lparr>rw_gw := gw\<rparr>)
      | (_, gw) \<Rightarrow> (Inl (Error ''join''), w\<lparr>rw_gw := gw\<rparr>))"

text \<open>Whether a client's handler sets its flag: an event of this order was sent to its socket.\<close>

definition received :: "nat \<Rightarrow> string \<Rightarrow> order_event list \<Rightarrow> gateway \<Rightarrow> bool" where
  "received client orderId evs gw \<longleftrightarrow> (\<exists>e \<in> set evs. client \<in> set (broadcast e gw) \<and> ev_orderId e = orderId)"

subsection \<open>The run\<close>

text \<open>The tokens come from the environment; \<open>d k\<close> is what call number \<open>k\<close> draws, \<open>ca\<close> and \<open>cb\<close> the sockets.\<close>

definition realtime_demo :: "('priv, 'pub) auth_env \<Rightarrow> (nat \<Rightarrow> draws) \<Rightarrow> nat \<Rightarrow> nat \<Rightarrow> bool \<Rightarrow>
    string option \<Rightarrow> string option \<Rightarrow> string option \<Rightarrow> realtime_world \<Rightarrow> nat res \<times> realtime_world" where
  "realtime_demo env d ca cb SAME_ROOM access_a access_b access_seller w0 =
     (if \<not> present access_a \<or> \<not> present access_b \<or> \<not> present access_seller then (Inr 1, w0)
      else
        then_run (createOrder env (d 0) (the access_a)) (\<lambda>orderA.
        then_run (createOrder env (d 1) (the access_b)) (\<lambda>orderB w.
        then_run (join_room ca orderA) (\<lambda>_.
        then_run (join_room cb (if SAME_ROOM then orderA else orderB)) (\<lambda>_.
        then_run (setStatus env (d 4) (the access_seller) orderA packed) (\<lambda>evs w.
          let aReceived = received ca orderA evs (rw_gw w); bReceived = received cb orderA evs (rw_gw w)
          in (Inr (if aReceived \<and> bReceived = SAME_ROOM then 0 else 1), w))))
          (connect_as env (d 3) cb (the (if SAME_ROOM then access_a else access_b))
            (connect_as env (d 2) ca (the access_a) w)))) w0)"

subsection \<open>Only the room gets the event\<close>

definition joined_as :: "nat \<Rightarrow> auth_user \<Rightarrow> string \<Rightarrow> realtime_world \<Rightarrow> bool" where
  "joined_as c u i w \<longleftrightarrow> gw_users (rw_gw w) c = Some u \<and> may_see (ap_orders (rw_api w)) u i"

lemma createOrder_served:
  assumes j: "jwt_signs env" and t: "timely env d" and ok: "orders_ok (ap_orders (rw_api w))"
    and live: "access_denylist (ap_auth (rw_api w)) = []"
  shows "\<exists>(x :: order) os. createOrder env (d k) (access_for env (d i) u fid) w = (Inr (o_id x), w\<lparr>rw_api := (rw_api w)\<lparr>ap_orders := os\<rparr>\<rparr>) \<and>
    orders_ok os \<and> may_see os (user_for env (d i) u fid) (o_id x) \<and>
    getById (ap_orders (rw_api w)) (o_id x) = Inl not_found \<and> (\<forall>v m. may_see (ap_orders (rw_api w)) v m \<longrightarrow> may_see os v m)"
proof -
  let ?items = "[\<lparr>product_id = ''p1'', quantity = 1\<rparr>]" and ?u = "user_for env (d i) u fid"
  obtain x os where c: "create (ap_products (rw_api w)) (ap_orders (rw_api w)) ?items (au_id ?u) (dr_iso (d k)) = (x, os)" by fastforce
  have 1: "createOrder env (d k) (access_for env (d i) u fid) w = (Inr (o_id x), w\<lparr>rw_api := (rw_api w)\<lparr>ap_orders := os\<rparr>\<rparr>)"
    using served_as [OF j t, of i "rw_api w" "PostOrder ?items" k u fid] live
    by (simp add: createOrder_def handle_call_def CurrentUser_def c)
  have 2: "may_see os v m" if "may_see (ap_orders (rw_api w)) v m" for v m
    using may_see_create [OF ok that, of "ap_products (rw_api w)" ?items "au_id ?u" "dr_iso (d k)"] by (simp add: c)
  note 3 = create_then_read [OF ok c]
  have 4: "may_see os ?u (o_id x)" using 3 by (simp add: may_see_iff)
  show ?thesis by (rule exI [of _ x], rule exI [of _ os]) (use 1 2 3 4 in simp)
qed

lemma connect_signed:
  assumes "jwt_signs env" "timely env d" "access_denylist (ap_auth (rw_api w)) = []"
  shows "connect_as env (d k) c (access_for env (d i) u fid) w =
    w\<lparr>rw_gw := (rw_gw w)\<lparr>gw_users := (gw_users (rw_gw w))(c \<mapsto> user_for env (d i) u fid)\<rparr>\<rparr>"
  using signed_authenticates [OF assms(1,2), of k i u fid "ap_auth (rw_api w)"] assms(3)
  by (simp add: connect_as_def handleConnection_def)

lemma join_allowed:
  assumes "gw_users (rw_gw w) c = Some u" "may_see (ap_orders (rw_api w)) u i"
  shows "join_room c i w = (Inr (), w\<lparr>rw_gw := (rw_gw w)\<lparr>gw_rooms := (c, roomForOrder i) # gw_rooms (rw_gw w)\<rparr>\<rparr>)"
  using assms by (auto simp: join_room_def join_order_def may_see_iff)

lemma setStatus_signed:
  assumes j: "jwt_signs env" and t: "timely env d" and live: "access_denylist (ap_auth (rw_api w)) = []"
    and u: "u_role u \<noteq> customer" and seen: "may_see (ap_orders (rw_api w)) v m"
  shows "\<exists>e w'. setStatus env (d k) (access_for env (d i) u fid) m st w = (Inr [e], w') \<and> ev_orderId e = m \<and> rw_gw w' = rw_gw w"
proof -
  have "guards env (dr_appnow (d k)) (ap_auth (rw_api w)) (orders_routes ! 3) (Some (''Bearer '' @ access_for env (d i) u fid)) =
      Inr (Some (user_for env (d i) u fid))"
    using u live signed_bearer [OF j, of "d i" u fid] signed_authenticates [OF j t, of k i u fid "ap_auth (rw_api w)"]
    by (cases "u_role u") (auto simp: guards_def auth_guard_def roles_guard_def route_defs user_for_def)
  moreover obtain x where "getById (ap_orders (rw_api w)) m = Inr x" using seen by (auto simp: may_see_iff)
  moreover have "o_id x = m" using calculation(2) by (auto simp: getById_def find_Some_iff split: option.splits)
  ultimately show ?thesis by (simp add: setStatus_def updateStatus_def emitStatusChange_def Let_def)
qed

text \<open>Both modes end with exit code 0: the client in the room of the order gets the event, and
  the other one gets it exactly when it joined the same room.\<close>

theorem realtime_demo_passes:
  assumes j: "jwt_signs env" and t: "timely env d" and live: "access_denylist (ap_auth (rw_api w)) = []"
    and ok: "orders_ok (ap_orders (rw_api w))" and new: "{ca, cb} \<inter> fst ` set (gw_rooms (rw_gw w)) = {}" "ca \<noteq> cb"
    and u: "u_role us \<noteq> customer"
  shows "fst (realtime_demo env d ca cb same (Some (access_for env (d 10) ua fa)) (Some (access_for env (d 11) ub fb))
     (Some (access_for env (d 12) us fs)) w) = Inr 0"
proof -
  let ?a = "user_for env (d 10) ua fa" and ?b = "user_for env (d 11) ub fb" and ?tok = "\<lambda>i u f. access_for env (d i) u f"
  obtain x :: order and os where 1: "createOrder env (d 0) (?tok 10 ua fa) w = (Inr (o_id x), w\<lparr>rw_api := (rw_api w)\<lparr>ap_orders := os\<rparr>\<rparr>)"
    "orders_ok os" "may_see os ?a (o_id x)" using createOrder_served [OF j t ok live, of 0 10 ua fa] by blast
  let ?w1 = "w\<lparr>rw_api := (rw_api w)\<lparr>ap_orders := os\<rparr>\<rparr>"
  obtain y :: order and os2 where 2: "createOrder env (d 1) (?tok 11 ub fb) ?w1 = (Inr (o_id y), ?w1\<lparr>rw_api := (rw_api ?w1)\<lparr>ap_orders := os2\<rparr>\<rparr>)"
    "may_see os2 ?b (o_id y)" "getById os (o_id y) = Inl not_found" "\<forall>v m. may_see os v m \<longrightarrow> may_see os2 v m"
    using createOrder_served [OF j t, of ?w1 1 11 ub fb] 1(2) live by auto
  have seen: "may_see os2 ?a (o_id x)" "o_id y \<noteq> o_id x" using 1(3) 2(3,4) by (auto simp: may_see_iff)
  let ?w2 = "w\<lparr>rw_api := (rw_api w)\<lparr>ap_orders := os2\<rparr>\<rparr>" and ?c = "if same then ?a else ?b" and ?i = "if same then o_id x else o_id y"
  let ?gw = "(rw_gw w)\<lparr>gw_users := (gw_users (rw_gw w))(ca \<mapsto> ?a, cb \<mapsto> ?c)\<rparr>"
  have 3: "connect_as env (d 3) cb (if same then ?tok 10 ua fa else ?tok 11 ub fb) (connect_as env (d 2) ca (?tok 10 ua fa) ?w2) = ?w2\<lparr>rw_gw := ?gw\<rparr>"
    using live by (simp add: connect_signed [OF j t])
  have 4: "join_room ca (o_id x) (?w2\<lparr>rw_gw := ?gw\<rparr>) = (Inr (), ?w2\<lparr>rw_gw := ?gw\<lparr>gw_rooms := (ca, roomForOrder (o_id x)) # gw_rooms (rw_gw w)\<rparr>\<rparr>)"
    using new(2) seen(1) by (subst join_allowed [of _ _ ?a]) simp_all
  let ?rooms = "(cb, roomForOrder ?i) # (ca, roomForOrder (o_id x)) # gw_rooms (rw_gw w)"
  have 5: "join_room cb ?i (?w2\<lparr>rw_gw := ?gw\<lparr>gw_rooms := (ca, roomForOrder (o_id x)) # gw_rooms (rw_gw w)\<rparr>\<rparr>) = (Inr (), ?w2\<lparr>rw_gw := ?gw\<lparr>gw_rooms := ?rooms\<rparr>\<rparr>)"
    using seen(1) 2(2) by (subst join_allowed [of _ _ ?c]) simp_all
  obtain e w' where 6: "setStatus env (d 4) (?tok 12 us fs) (o_id x) packed (?w2\<lparr>rw_gw := ?gw\<lparr>gw_rooms := ?rooms\<rparr>\<rparr>) = (Inr [e], w')"
    "ev_orderId e = o_id x" "rw_gw w' = ?gw\<lparr>gw_rooms := ?rooms\<rparr>"
    using setStatus_signed [OF j t _ u, of "?w2\<lparr>rw_gw := ?gw\<lparr>gw_rooms := ?rooms\<rparr>\<rparr>" ?a "o_id x" 4 12 fs packed] live seen(1) by auto
  have sent: "received ca (o_id x) [e] (rw_gw w')" "received cb (o_id x) [e] (rw_gw w') = same"
    using new 6(2) seen(2) by (auto simp: received_def broadcast_def 6(3) image_iff)
  have tok: "present (Some (access_for env (d i) v f))" for i v f
    using j unfolding jwt_signs_def access_for_def present_def Let_def by blast
  show ?thesis
    using 2(1) 3 4 5 6(1) sent by (cases same) (simp_all add: realtime_demo_def tok then_run_def 1(1) Let_def del: One_nat_def)
qed

definition some_customer :: user_row where
  "some_customer = \<lparr>u_id = 1, u_email = ''a'', u_role = customer, u_password_hash = None\<rparr>"

lemma realtime_demo_instance:
  "fst (realtime_demo some_env some_draws 0 1 same (Some (access_for some_env (some_draws 10) some_customer ''f''))
     (Some (access_for some_env (some_draws 11) (some_customer\<lparr>u_id := 2\<rparr>) ''f''))
     (Some (access_for some_env (some_draws 12) (some_customer\<lparr>u_id := 3, u_role := seller\<rparr>) ''f''))
     \<lparr>rw_api = ds_api some_world, rw_gw = \<lparr>gw_users = Map.empty, gw_rooms = []\<rparr>\<rparr>) = Inr 0"
  using some_ready
  by (intro realtime_demo_passes) (simp_all add: demo_ready_def some_world_def some_customer_def orders_ok_init)

end
