(* ===== verification/Scripts.thy ===== *)
theory Scripts
  imports Runs Redis
begin

text \<open>
  The checks of the build: \<open>scripts/check-env-example.mjs\<close> (the keys of
  \<open>.env.example\<close> against those of \<open>src/config/env.schema.ts\<close>) and
  \<open>scripts/check-spec.cjs\<close> (the size of the bundled OpenAPI document), as functions
  from the texts they read to their exit code.
\<close>

subsection \<open>The keys of the schema\<close>

text \<open>
  \<open>/^\s*([A-Z][A-Z0-9_]*)\s*:\s*z\b/gm\<close> at one position: the runs are maximal, since what
  follows each of them cannot begin with a character of the run.
\<close>

definition upper_letter :: "char \<Rightarrow> bool" where
  "upper_letter c \<longleftrightarrow> (let n = of_char c :: nat in 65 \<le> n \<and> n \<le> 90)"

definition key_char :: "char \<Rightarrow> bool" where
  "key_char c \<longleftrightarrow> (let n = of_char c :: nat in 65 \<le> n \<and> n \<le> 90 \<or> 48 \<le> n \<and> n \<le> 57 \<or> n = 95)"

definition ident_char :: "char \<Rightarrow> bool" where
  "ident_char c \<longleftrightarrow> key_char c \<or> (let n = of_char c :: nat in 97 \<le> n \<and> n \<le> 122)"

definition match_key :: "string \<Rightarrow> (string \<times> string) option" where
  "match_key s =
     (let s1 = dropWhile js_space s; k = takeWhile key_char s1; s2 = dropWhile js_space (dropWhile key_char s1)
      in if k = [] \<or> \<not> upper_letter (hd k) then None
         else (case s2 of
             c # s3 \<Rightarrow>
               if c \<noteq> CHR '':'' then None
               else (case dropWhile js_space s3 of
                   z # rest \<Rightarrow> if z = CHR ''z'' \<and> (rest = [] \<or> \<not> ident_char (hd rest)) then Some (k, rest) else None
                 | [] \<Rightarrow> None)
           | [] \<Rightarrow> None))"

lemma length_dropWhile_less: "length (dropWhile P s) \<le> length s"
  by (induction s) auto

lemma match_key_shorter:
  assumes "match_key s = Some (k, rest)" shows "length rest < length s"
proof -
  let ?s1 = "dropWhile js_space s"
  obtain c s3 z where s2: "dropWhile js_space (dropWhile key_char ?s1) = c # s3" and s3: "dropWhile js_space s3 = z # rest"
    using assms by (auto simp: match_key_def Let_def split: list.splits if_splits)
  have "length (c # s3) \<le> length s"
    unfolding s2 [symmetric] by (meson length_dropWhile_less order_trans)
  moreover have "length (z # rest) \<le> length s3" unfolding s3 [symmetric] by (rule length_dropWhile_less)
  ultimately show ?thesis by simp
qed

text \<open>\<open>matchAll\<close>: \<open>bol\<close> says that the position is the start of a line.\<close>

function scan_keys :: "bool \<Rightarrow> string \<Rightarrow> string list" where
  "scan_keys bol s =
     (case if bol then match_key s else None of
        Some (k, rest) \<Rightarrow> k # scan_keys False rest
      | None \<Rightarrow> (case s of [] \<Rightarrow> [] | c # cs \<Rightarrow> scan_keys (c = CHR 0x0A \<or> c = CHR 0x0D) cs))"
  by pat_completeness auto
termination
proof (relation "measure (\<lambda>(bol, s). length s)")
  fix bol s k rest x
  assume "(if bol then match_key s else None) = Some x" "(k, rest) = x"
  then show "((False, rest), (bol, s)) \<in> measure (\<lambda>(bol, s). length s)"
    using match_key_shorter [of s k rest] by (cases bol) simp_all
qed simp_all

declare scan_keys.simps [simp del]

definition schema_keys :: "string \<Rightarrow> string set" where
  "schema_keys src = set (scan_keys True src)"

subsection \<open>The keys of the example\<close>

definition example_keys :: "string \<Rightarrow> string set" where
  "example_keys src =
     set (filter (\<lambda>k. k \<noteq> '''')
       (map (\<lambda>l. js_trim (hd (split_on CHR ''='' l)))
         (filter (\<lambda>l. l \<noteq> '''' \<and> take 1 l \<noteq> ''#'') (map js_trim (split_on CHR 0x0A src)))))"

definition check_env_example :: "string \<Rightarrow> string \<Rightarrow> nat" where
  "check_env_example schemaSrc exampleSrc =
     (let missing = schema_keys schemaSrc - example_keys exampleSrc; extra = example_keys exampleSrc - schema_keys schemaSrc
      in if missing = {} \<and> extra = {} then 0 else 1)"

subsection \<open>The size of the specification\<close>

definition METHODS :: "string list" where
  "METHODS = [''get'', ''post'', ''put'', ''patch'', ''delete'']"

text \<open>\<open>Object.entries\<close>: the members of an object, the elements of an array or a string.\<close>

fun own_entries :: "json \<Rightarrow> (string \<times> json) list res" where
  "own_entries (JObj kvs) = Inr (map (\<lambda>k. (k, the (map_of (rev kvs) k))) (remdups (map fst kvs)))"
| "own_entries (JArr xs) = Inr (map (\<lambda>i. (show_nat i, xs ! i)) [0..<length xs])"
| "own_entries (JStr s) = Inr (map (\<lambda>i. (show_nat i, JStr [s ! i])) [0..<length s])"
| "own_entries JNull = Inl (Error ''TypeError'')"
| "own_entries _ = Inr []"

text \<open>A property of a value that is used; \<open>None\<close> is \<open>undefined\<close>.\<close>

definition prop_of :: "json option \<Rightarrow> string \<Rightarrow> json option res" where
  "prop_of j k = (case j of None \<Rightarrow> Inl (Error ''TypeError'') | Some JNull \<Rightarrow> Inl (Error ''TypeError'') | Some v \<Rightarrow> Inr (field v k))"

definition path_operations :: "string \<times> json \<Rightarrow> (string \<times> json) list res" where
  "path_operations e =
     (case own_entries (snd e) of
        Inl err \<Rightarrow> Inl err
      | Inr ks \<Rightarrow> Inr (map (\<lambda>(m, op'). (fst e, op')) (filter (\<lambda>(m, _). m \<in> set METHODS) ks)))"

fun collect :: "('a \<Rightarrow> 'b list res) \<Rightarrow> 'a list \<Rightarrow> 'b list res" where
  "collect f [] = Inr []"
| "collect f (x # xs) =
     (case f x of Inl e \<Rightarrow> Inl e | Inr ys \<Rightarrow> (case collect f xs of Inl e \<Rightarrow> Inl e | Inr zs \<Rightarrow> Inr (ys @ zs)))"

text \<open>The parameters of an operation, flattened by one level.\<close>

definition parameters_of :: "string \<times> json \<Rightarrow> json list res" where
  "parameters_of op' =
     (case prop_of (Some (snd op')) ''parameters'' of
        Inl e \<Rightarrow> Inl e
      | Inr None \<Rightarrow> Inr [] | Inr (Some JNull) \<Rightarrow> Inr []
      | Inr (Some (JArr xs)) \<Rightarrow> Inr xs
      | Inr (Some j) \<Rightarrow> Inr [j])"

text \<open>\<open>/idempotency-key/i.test(x.name)\<close>: the name becomes a text; that of an array joins its
  elements with commas, of which the pattern has none.\<close>

fun mentions_key :: "json \<Rightarrow> bool" where
  "mentions_key (JStr s) = (\<exists>i \<in> set [0..<Suc (length s)]. take 15 (map ascii_lower (drop i s)) = ''idempotency-key'')"
| "mentions_key (JArr xs) = (\<exists>x \<in> set xs. mentions_key x)"
| "mentions_key _ = False"

fun find_idempotency :: "json list \<Rightarrow> json option res" where
  "find_idempotency [] = Inr None"
| "find_idempotency (x # xs) =
     (case prop_of (Some x) ''in'' of
        Inl e \<Rightarrow> Inl e
      | Inr v \<Rightarrow>
          if v = Some (JStr ''header'') \<and> (case field x ''name'' of None \<Rightarrow> False | Some n \<Rightarrow> mentions_key n)
          then Inr (Some x) else find_idempotency xs)"

definition description_length :: "json option \<Rightarrow> nat res" where
  "description_length idem =
     (case idem of
        None \<Rightarrow> Inr 0
      | Some x \<Rightarrow>
          (case field x ''description'' of
             None \<Rightarrow> Inr 0 | Some JNull \<Rightarrow> Inr 0
           | Some (JStr s) \<Rightarrow> Inr (length (js_trim s))
           | Some _ \<Rightarrow> Inl (Error ''TypeError'')))"

text \<open>The failures, for the paths of the document.\<close>

definition spec_failures :: "(string \<times> json) list \<Rightarrow> nat res" where
  "spec_failures paths =
     (case collect path_operations paths of
        Inl e \<Rightarrow> Inl e
      | Inr ops \<Rightarrow>
          (case collect parameters_of ops of
             Inl e \<Rightarrow> Inl e
           | Inr ps \<Rightarrow>
               (case find_idempotency ps of
                  Inl e \<Rightarrow> Inl e
                | Inr idem \<Rightarrow>
                    (case description_length idem of
                       Inl e \<Rightarrow> Inl e
                     | Inr descLength \<Rightarrow>
                         (let resources = set (map (\<lambda>e. case split_on CHR ''/'' (fst e) of _ # r # _ \<Rightarrow> Some r | _ \<Rightarrow> None) paths)
                          in Inr (assertInvariant
                               (violation (length ops < 5) ''operations'' @ violation (card resources < 2) ''resources'' @
                                violation (idem = None \<or> field (the idem) ''required'' \<noteq> Some (JBool True)) ''required'' @
                                violation (descLength < 40) ''description'')))))))"

text \<open>The exit code: 2 without the file, 1 on any error; the file's text is given as the JSON value it
  parses to, if it parses.\<close>

definition check_spec :: "json option option \<Rightarrow> nat" where
  "check_spec file =
     (case file of
        None \<Rightarrow> 2
      | Some None \<Rightarrow> 1
      | Some (Some spec) \<Rightarrow>
          (case prop_of (Some spec) ''paths'' of
             Inl _ \<Rightarrow> 1
           | Inr None \<Rightarrow> 1
           | Inr (Some p) \<Rightarrow>
               (case own_entries p of
                  Inl _ \<Rightarrow> 1
                | Inr es \<Rightarrow> (case spec_failures es of Inl _ \<Rightarrow> 1 | Inr n \<Rightarrow> n))))"

subsection \<open>Both texts are read back\<close>

definition env_key :: "string \<Rightarrow> bool" where
  "env_key k \<longleftrightarrow> k \<noteq> [] \<and> upper_letter (hd k) \<and> (\<forall>c \<in> set k. key_char c)"

lemma key_charD:
  assumes "key_char c"
  shows "\<not> js_space c" "c \<noteq> CHR ''=''" "c \<noteq> CHR ''#''" "c \<noteq> CHR '':''"
  using assms by (auto simp: key_char_def js_space_def Let_def)

lemma js_trim_key: "env_key k \<Longrightarrow> js_trim k = k"
proof -
  assume k: "env_key k"
  then have "k \<noteq> []" "\<forall>c \<in> set k. \<not> js_space c" using key_charD(1) by (auto simp: env_key_def)
  then have "dropWhile js_space k = k" "dropWhile js_space (rev k) = rev k"
    by (simp_all add: dropWhile_eq_self_iff hd_rev)
  then show ?thesis by (simp add: js_trim_def)
qed

text \<open>A line of the example: a comment, an empty line or an assignment.\<close>

datatype env_line = Comment string | Blank | Assign string string

fun line_text :: "env_line \<Rightarrow> string" where
  "line_text (Comment s) = CHR ''#'' # s"
| "line_text Blank = []"
| "line_text (Assign k v) = k @ CHR ''='' # v"

fun line_ok :: "env_line \<Rightarrow> bool" where
  "line_ok (Comment s) = (CHR 0x0A \<notin> set s)"
| "line_ok Blank = True"
| "line_ok (Assign k v) = (env_key k \<and> CHR 0x0A \<notin> set v)"

fun line_keys :: "env_line \<Rightarrow> string list" where
  "line_keys (Assign k v) = [k]"
| "line_keys _ = []"

lemma split_join: "ls \<noteq> [] \<Longrightarrow> \<forall>l \<in> set ls. c \<notin> set l \<Longrightarrow> split_on c (join_with [c] ls) = ls"
  by (induction "[c]" ls rule: join_with.induct) (auto simp: split_on_append)

lemma trim_starts: "\<not> js_space c \<Longrightarrow> \<exists>t. js_trim (c # s) = c # t \<and> (\<exists>u. s = t @ u \<and> (\<forall>x \<in> set u. js_space x))"
proof -
  assume c: "\<not> js_space c"
  have "dropWhile js_space (rev s @ [c]) = dropWhile js_space (rev s) @ [c]" using c by (induction s rule: rev_induct) auto
  moreover have "s = rev (dropWhile js_space (rev s)) @ rev (takeWhile js_space (rev s))"
    by (metis rev_append rev_rev_ident takeWhile_dropWhile_id)
  moreover have "\<forall>x \<in> set (takeWhile js_space (rev s)). js_space x" using set_takeWhileD by fast
  ultimately show ?thesis using c by (simp add: js_trim_def) (metis set_rev)
qed

lemma assignment_key: "env_key k \<Longrightarrow> js_trim (hd (split_on CHR ''='' (js_trim (k @ CHR ''='' # v)))) = k"
proof -
  assume k: "env_key k"
  then obtain c k' where c: "k = c # k'" "\<not> js_space c" by (cases k) (auto simp: env_key_def key_charD)
  obtain t u where t: "js_trim (k @ CHR ''='' # v) = c # t" "k' @ CHR ''='' # v = t @ u" "\<forall>x \<in> set u. js_space x"
    using trim_starts [OF c(2), of "k' @ CHR ''='' # v"] c(1) by auto
  have "\<not> js_space CHR ''=''" by code_simp
  then have "CHR ''='' \<notin> set u" using t(3) by blast
  then have "\<exists>v'. t = k' @ CHR ''='' # v'"
    using t(2) by (auto simp: append_eq_append_conv2 Cons_eq_append_conv)
  moreover have "CHR ''='' \<notin> set k" using k key_charD(2) by (auto simp: env_key_def)
  ultimately show ?thesis using t(1) c(1) js_trim_key [OF k] split_on_append [of "CHR ''=''" k] by auto
qed

lemma trim_comment: "take 1 (js_trim (CHR ''#'' # s)) = ''#''"
proof -
  have "\<not> js_space CHR ''#''" by code_simp
  then show ?thesis using trim_starts [of "CHR ''#''" s] by auto
qed

lemma line_read:
  assumes "line_ok l"
  shows "map (\<lambda>l. js_trim (hd (split_on CHR ''='' l))) (filter (\<lambda>l. l \<noteq> '''' \<and> take 1 l \<noteq> ''#'') [js_trim (line_text l)]) = line_keys l"
proof (cases l)
  case (Comment s)
  then show ?thesis using trim_comment [of s] by auto
next
  case Blank
  then show ?thesis by (simp add: js_trim_def)
next
  case (Assign k v)
  then have k: "env_key k" using assms by simp
  then obtain c k' where c: "k = c # k'" "\<not> js_space c" "c \<noteq> CHR ''#''" by (cases k) (auto simp: env_key_def key_charD)
  then obtain t where "js_trim (k @ CHR ''='' # v) = c # t" using trim_starts [OF c(2), of "k' @ CHR ''='' # v"] by auto
  then show ?thesis using assignment_key [OF k, of v] c(3) by (simp add: Assign)
qed

lemma example_keys_text:
  assumes "ls \<noteq> []" "\<forall>l \<in> set ls. line_ok l"
  shows "example_keys (join_with [CHR 0x0A] (map line_text ls)) = set (concat (map line_keys ls))"
proof -
  have nl: "\<not> key_char CHR 0x0A" by code_simp
  have "CHR 0x0A \<notin> set (line_text l)" if "line_ok l" for l using that nl by (cases l) (auto simp: env_key_def)
  then have s: "split_on CHR 0x0A (join_with [CHR 0x0A] (map line_text ls)) = map line_text ls"
    using assms by (intro split_join) auto
  have "map (\<lambda>l. js_trim (hd (split_on CHR ''='' l))) (filter (\<lambda>l. l \<noteq> '''' \<and> take 1 l \<noteq> ''#'') (map js_trim (map line_text ls))) =
      concat (map line_keys ls)" using assms(2)
  proof (induction ls)
    case (Cons l ls)
    then show ?case using line_read [of l] by (auto split: if_splits)
  qed simp
  moreover have "[] \<notin> set (concat (map line_keys ls))"
  proof
    assume "[] \<in> set (concat (map line_keys ls))"
    then obtain l where "l \<in> set ls" "[] \<in> set (line_keys l)" by auto
    moreover have "line_ok l" using assms(2) calculation(1) by blast
    ultimately show False by (cases l rule: env_line.exhaust) (simp_all add: env_key_def)
  qed
  ultimately show ?thesis unfolding example_keys_def s by (auto simp: filter_id_conv)
qed

text \<open>The schema, one entry a line: the key, then a definition that does not break the line.\<close>

fun schema_text :: "(string \<times> string) list \<Rightarrow> string" where
  "schema_text [] = []"
| "schema_text ((k, r) # es) = ''  '' @ k @ '': z'' @ r @ CHR 0x0A # schema_text es"

definition entry_ok :: "string \<times> string \<Rightarrow> bool" where
  "entry_ok e \<longleftrightarrow> env_key (fst e) \<and> CHR 0x0A \<notin> set (snd e) \<and> CHR 0x0D \<notin> set (snd e) \<and> (snd e = [] \<or> \<not> ident_char (hd (snd e)))"

lemma scan_rest_of_line:
  "CHR 0x0A \<notin> set r \<Longrightarrow> CHR 0x0D \<notin> set r \<Longrightarrow> scan_keys False (r @ CHR 0x0A # t) = scan_keys True t"
proof (induction r)
  case Nil
  then show ?case by (subst scan_keys.simps) simp
next
  case (Cons c r)
  then show ?case by (subst scan_keys.simps) auto
qed

lemma match_entry:
  assumes "entry_ok (k, r)"
  shows "match_key (''  '' @ k @ '': z'' @ r @ CHR 0x0A # t) = Some (k, r @ CHR 0x0A # t)"
proof -
  obtain c k' where c: "k = c # k'" "\<not> js_space c" "upper_letter c" using assms by (cases k) (auto simp: entry_ok_def env_key_def key_charD)
  have sp: "js_space CHR '' ''" "\<not> js_space CHR '':''" "\<not> key_char CHR '':''" "\<not> js_space CHR ''z''" "\<not> ident_char CHR 0x0A" by code_simp+
  have k: "\<forall>x \<in> set k. key_char x" using assms by (simp add: entry_ok_def env_key_def)
  have s1: "dropWhile js_space (''  '' @ k @ '': z'' @ r @ CHR 0x0A # t) = k @ '': z'' @ r @ CHR 0x0A # t"
    using sp(1) c by simp
  have s2: "takeWhile key_char (k @ '': z'' @ r @ CHR 0x0A # t) = k" "dropWhile key_char (k @ '': z'' @ r @ CHR 0x0A # t) = '': z'' @ r @ CHR 0x0A # t"
    using k sp(3) by (simp_all add: takeWhile_append dropWhile_append)
  have "\<not> ident_char (hd (r @ CHR 0x0A # t))" using assms sp(5) by (cases r) (auto simp: entry_ok_def)
  then show ?thesis
    unfolding match_key_def Let_def s1 s2 using c sp by simp
qed

lemma schema_keys_text: "\<forall>e \<in> set es. entry_ok e \<Longrightarrow> schema_keys (schema_text es) = fst ` set es"
proof -
  have "\<forall>e \<in> set es. entry_ok e \<Longrightarrow> scan_keys True (schema_text es) = map fst es"
  proof (induction es)
    case Nil
    then show ?case by (subst scan_keys.simps) (simp add: match_key_def)
  next
    case (Cons e es)
    obtain k r where e: "e = (k, r)" by (cases e)
    then have ok: "entry_ok (k, r)" using Cons.prems by simp
    have "scan_keys True (schema_text (e # es)) = k # scan_keys False (r @ CHR 0x0A # schema_text es)"
      unfolding e schema_text.simps by (subst scan_keys.simps) (simp only: match_entry [OF ok] if_True option.case prod.case)
    then show ?case using scan_rest_of_line [of r "schema_text es"] ok Cons by (simp add: e entry_ok_def)
  qed
  then show "\<forall>e \<in> set es. entry_ok e \<Longrightarrow> schema_keys (schema_text es) = fst ` set es" by (simp add: schema_keys_def)
qed

text \<open>On texts of this shape the check passes exactly when both name the same variables,
  whatever the comments and the values are.\<close>

theorem env_check_compares_keys:
  assumes "\<forall>e \<in> set es. entry_ok e" "ls \<noteq> []" "\<forall>l \<in> set ls. line_ok l"
  shows "check_env_example (schema_text es) (join_with [CHR 0x0A] (map line_text ls)) = 0 \<longleftrightarrow>
    fst ` set es = set (concat (map line_keys ls))"
  by (auto simp: check_env_example_def schema_keys_text [OF assms(1)] example_keys_text [OF assms(2,3)] Let_def)

subsection \<open>What the size check asks for\<close>

lemma check_spec_passes:
  assumes "own_entries p = Inr es" "field spec ''paths'' = Some p" "spec \<noteq> JNull"
    and "collect path_operations es = Inr ops" "collect parameters_of ops = Inr ps"
    and "find_idempotency ps = Inr (Some x)" "field x ''description'' = Some (JStr s)"
  shows "check_spec (Some (Some spec)) = 0 \<longleftrightarrow>
    5 \<le> length ops \<and> 40 \<le> length (js_trim s) \<and> field x ''required'' = Some (JBool True) \<and>
    2 \<le> card (set (map (\<lambda>e. case split_on CHR ''/'' (fst e) of _ # r # _ \<Rightarrow> Some r | _ \<Rightarrow> None) es))"
proof -
  have "prop_of (Some spec) ''paths'' = Inr (Some p)" using assms(2,3) by (cases spec) (simp_all add: prop_of_def)
  then show ?thesis
    using assms by (auto simp: check_spec_def spec_failures_def description_length_def assertInvariant_def violation_def Let_def)
qed

lemma spec_missing: "check_spec None = 2" "check_spec (Some None) = 1" "check_spec (Some (Some JNull)) = 1"
  by (simp_all add: check_spec_def prop_of_def)

lemma env_check_instance:
  "check_env_example (schema_text [(''PORT'', ''.coerce''), (''DB_URL'', ''.string()'')])
     (join_with [CHR 0x0A] (map line_text [Comment ''PORT=1'', Assign ''DB_URL'' ''x=y'', Blank, Assign ''PORT'' ''3000''])) = 0"
proof -
  have "\<forall>e \<in> set [(''PORT'', ''.coerce''), (''DB_URL'', ''.string()'')]. entry_ok e" by code_simp
  moreover have "\<forall>l \<in> set [Comment ''PORT=1'', Assign ''DB_URL'' ''x=y'', Blank, Assign ''PORT'' ''3000'']. line_ok l" by code_simp
  ultimately show ?thesis by (subst env_check_compares_keys) (simp_all add: insert_commute)
qed

end
