(* ===== verification/FileStore.thy ===== *)
theory FileStore
  imports Files Runs "HOL-Library.Sublist"
begin

text \<open>
  The bucket the acceptance runs of the uploads work on, and what
  \<open>src/files/demo-lib.ts\<close> does with it: \<open>ensureBucket\<close> and \<open>wipe\<close>.  The object store
  is not part of the repository: its commands are the parameter \<open>bucket\<close>, on a state of
  any type, and what the runs rely on is stated over what the state holds.
\<close>

subsection \<open>The commands\<close>

text \<open>
  A command that fails changes nothing.  A \<open>PUT\<close> or \<open>GET\<close> of a presigned URL carries no
  credentials: the status depends on the URL, the content type sent and the store's clock.
\<close>

record 'b bucket =
  bk_exists :: "'b \<Rightarrow> bool"
  bk_create :: "'b \<Rightarrow> s3_error + 'b"
  bk_lifecycle :: "nat \<Rightarrow> 'b \<Rightarrow> s3_error + 'b"
  bk_list :: "string \<Rightarrow> 'b \<Rightarrow> s3_error + string list"
  bk_delete :: "string list \<Rightarrow> 'b \<Rightarrow> s3_error + 'b"
  bk_uploads :: "'b \<Rightarrow> s3_error + (string \<times> string) list"
  bk_abort :: "string \<Rightarrow> string \<Rightarrow> 'b \<Rightarrow> s3_error + 'b"
  bk_start :: "string \<Rightarrow> string \<Rightarrow> 'b \<Rightarrow> s3_error + string \<times> 'b"
  bk_parts :: "string \<Rightarrow> string \<Rightarrow> string option \<Rightarrow> 'b \<Rightarrow> s3_error + list_page"
  bk_complete :: "string \<Rightarrow> string \<Rightarrow> (nat \<times> string option) list \<Rightarrow> 'b \<Rightarrow> s3_error + 'b"
  bk_head :: "string \<Rightarrow> 'b \<Rightarrow> s3_error + int option \<times> string option"
  bk_put :: "string \<Rightarrow> string option \<Rightarrow> nat list \<Rightarrow> rat \<Rightarrow> 'b \<Rightarrow> nat \<times> 'b"
  bk_get :: "string \<Rightarrow> rat \<Rightarrow> 'b \<Rightarrow> nat \<times> nat list"

text \<open>The answers the service gets from the bucket as it is.\<close>

definition s3_at :: "'b bucket \<Rightarrow> 'b \<Rightarrow> s3" where
  "s3_at bk b = \<lparr>s3_create = (\<lambda>k ct. map_sum id fst (bk_start bk k ct b)), s3_list = (\<lambda>k u m. bk_parts bk k u m b),
     s3_complete = (\<lambda>k u ps. map_sum id (\<lambda>_. ()) (bk_complete bk k u ps b)), s3_head = (\<lambda>k. bk_head bk k b)\<rparr>"

subsection \<open>What the state holds\<close>

record stored_part =
  sp_number :: nat
  sp_body :: "nat list"
  sp_etag :: string

record contents =
  co_objects :: "string \<Rightarrow> (nat list \<times> string) option"
  co_uploads :: "string \<times> string \<Rightarrow> stored_part list option"

definition listed :: "stored_part \<Rightarrow> s3_part" where
  "listed p = \<lparr>PartNumber = sp_number p, Size = Some (int (length (sp_body p))), ETag = Some (sp_etag p)\<rparr>"

definition keys_under :: "string \<Rightarrow> contents \<Rightarrow> string set" where
  "keys_under p c = {k \<in> dom (co_objects c). prefix p k}"

text \<open>Objects: listing a prefix answers one page, which is empty only when nothing is left.\<close>

definition keeps_objects :: "'b bucket \<Rightarrow> ('b \<Rightarrow> contents) \<Rightarrow> bool" where
  "keeps_objects bk see \<longleftrightarrow>
     (\<forall>b. finite (dom (co_objects (see b)))) \<and>
     (\<forall>b k. case co_objects (see b) k of
        None \<Rightarrow> (\<exists>e. bk_head bk k b = Inl e \<and> errStatus e = 404)
      | Some (body, et) \<Rightarrow> bk_head bk k b = Inr (Some (int (length body)), Some et)) \<and>
     (\<forall>b p. \<exists>ks. bk_list bk p b = Inr ks \<and> set ks \<subseteq> keys_under p (see b) \<and> (ks = [] \<longrightarrow> keys_under p (see b) = {})) \<and>
     (\<forall>b ks. \<exists>b'. bk_delete bk ks b = Inr b' \<and>
        see b' = (see b)\<lparr>co_objects := (\<lambda>k. if k \<in> set ks then None else co_objects (see b) k)\<rparr>)"

text \<open>
  Multipart uploads: a fresh id for each, the parts in the order of their numbers, and an
  object of all their bytes when every part but the last has the minimal size.  Its ETag,
  in quotes or not, ends with the number of parts.
\<close>

definition unquoted :: "string \<Rightarrow> string" where
  "unquoted s = filter (\<lambda>c. c \<noteq> CHR 0x22) s"

definition keeps_uploads :: "'b bucket \<Rightarrow> ('b \<Rightarrow> contents) \<Rightarrow> bool" where
  "keeps_uploads bk see \<longleftrightarrow>
     (\<forall>b. \<exists>us. bk_uploads bk b = Inr us \<and> set us \<subseteq> dom (co_uploads (see b)) \<and> distinct us) \<and>
     (\<forall>b k u. co_uploads (see b) (k, u) \<noteq> None \<longrightarrow>
        (\<exists>b'. bk_abort bk k u b = Inr b' \<and> see b' = (see b)\<lparr>co_uploads := (co_uploads (see b))((k, u) := None)\<rparr>)) \<and>
     (\<forall>b k ct. \<exists>u b'. bk_start bk k ct b = Inr (u, b') \<and> u \<noteq> '''' \<and> co_uploads (see b) (k, u) = None \<and>
        see b' = (see b)\<lparr>co_uploads := (co_uploads (see b))((k, u) \<mapsto> [])\<rparr>) \<and>
     (\<forall>b k u ps. co_uploads (see b) (k, u) = Some ps \<longrightarrow> pages_of (s3_at bk b) k u (map listed ps)) \<and>
     (\<forall>b k u ps. co_uploads (see b) (k, u) = Some ps \<longrightarrow> ps \<noteq> [] \<longrightarrow>
        (\<forall>p \<in> set (butlast ps). MIN_PART \<le> int (length (sp_body p))) \<longrightarrow>
        (\<exists>b' et x. bk_complete bk k u (map (\<lambda>p. (sp_number p, Some (sp_etag p))) ps) b = Inr b' \<and>
           see b' = \<lparr>co_objects = (co_objects (see b))(k \<mapsto> (concat (map sp_body ps), et)),
             co_uploads = (co_uploads (see b))((k, u) := None)\<rparr> \<and>
           unquoted et = x @ ''-'' @ show_nat (length ps)))"

text \<open>
  Presigned URLs: good from the second they are signed in until they expire, for the path
  and the content type they were signed for; the signature stands after the \<open>?\<close>.
\<close>

definition url_query :: "string \<Rightarrow> string" where
  "url_query url = dropWhile (\<lambda>c. c \<noteq> CHR ''?'') url"

definition url_path :: "string \<Rightarrow> string" where
  "url_path url = takeWhile (\<lambda>c. c \<noteq> CHR ''?'') url"

definition in_force :: "rat \<Rightarrow> int \<Rightarrow> rat \<Rightarrow> bool" where
  "in_force t e now \<longleftrightarrow> t \<le> now \<and> now < of_int (\<lfloor>t\<rfloor> + e)"

definition put_part :: "stored_part \<Rightarrow> stored_part list \<Rightarrow> stored_part list" where
  "put_part p ps = insort_key sp_number p (filter (\<lambda>q. sp_number q \<noteq> sp_number p) ps)"

definition honours_urls :: "'b bucket \<Rightarrow> ('b \<Rightarrow> contents) \<Rightarrow> (rat \<Rightarrow> signer) \<Rightarrow> bool" where
  "honours_urls bk see sg \<longleftrightarrow>
     (\<forall>t k ct e now body b. in_force t e now \<longrightarrow> (\<exists>b' et. bk_put bk (sign_put (sg t) k ct e) (Some ct) body now b = (200, b') \<and>
        see b' = (see b)\<lparr>co_objects := (co_objects (see b))(k \<mapsto> (body, et))\<rparr>)) \<and>
     (\<forall>t k ct e now body b. of_int (\<lfloor>t\<rfloor> + e) < now \<longrightarrow> bk_put bk (sign_put (sg t) k ct e) (Some ct) body now b = (403, b)) \<and>
     (\<forall>t k ct e now body b url. url_query url = url_query (sign_put (sg t) k ct e) \<longrightarrow> url \<noteq> sign_put (sg t) k ct e \<longrightarrow>
        bk_put bk url (Some ct) body now b = (403, b)) \<and>
     (\<forall>t k ct e. 5 \<le> length (url_path (sign_put (sg t) k ct e))) \<and>
     (\<forall>t k e now b body et. in_force t e now \<longrightarrow> co_objects (see b) k = Some (body, et) \<longrightarrow>
        bk_get bk (sign_get (sg t) k e) now b = (200, body)) \<and>
     (\<forall>t k u n e now body b ps. in_force t e now \<longrightarrow> 1 \<le> n \<longrightarrow> n \<le> MAX_PARTS \<longrightarrow> co_uploads (see b) (k, u) = Some ps \<longrightarrow>
        (\<exists>b' et. bk_put bk (sign_part (sg t) k u n e) None body now b = (200, b') \<and>
           see b' = (see b)\<lparr>co_uploads := (co_uploads (see b))((k, u) \<mapsto> put_part \<lparr>sp_number = nat n, sp_body = body, sp_etag = et\<rparr> ps)\<rparr>))"

text \<open>The bucket can be made when it is missing, and its lifecycle rules touch nothing at once.\<close>

definition keeps_bucket :: "'b bucket \<Rightarrow> ('b \<Rightarrow> contents) \<Rightarrow> bool" where
  "keeps_bucket bk see \<longleftrightarrow> (\<forall>b. \<not> bk_exists bk b \<longrightarrow> (\<exists>b'. bk_create bk b = Inr b' \<and> see b' = see b)) \<and>
     (\<forall>n b b'. bk_lifecycle bk n b = Inr b' \<longrightarrow> see b' = see b)"

definition store_documented :: "'b bucket \<Rightarrow> ('b \<Rightarrow> contents) \<Rightarrow> (rat \<Rightarrow> signer) \<Rightarrow> bool" where
  "store_documented bk see sg \<longleftrightarrow> keeps_bucket bk see \<and> keeps_objects bk see \<and> keeps_uploads bk see \<and> honours_urls bk see sg"

subsection \<open>ensureBucket, wipe\<close>

text \<open>A bucket that is not there is created; a store without lifecycle rules is only reported.\<close>

definition ensureBucket :: "'b bucket \<Rightarrow> 'b \<Rightarrow> unit res \<times> 'b" where
  "ensureBucket bk b =
     (case (if bk_exists bk b then Inr b else bk_create bk b) of
        Inl e \<Rightarrow> (Inl (Error (errName e)), b)
      | Inr b' \<Rightarrow> (Inr (), case bk_lifecycle bk 7 b' of Inl _ \<Rightarrow> b' | Inr b'' \<Rightarrow> b''))"

lemma ensureBucket_keeps:
  assumes k: "keeps_bucket bk see"
  shows "\<exists>b'. ensureBucket bk b = (Inr (), b') \<and> see b' = see b"
proof -
  obtain b1 where b1: "(if bk_exists bk b then Inr b else bk_create bk b) = Inr b1" "see b1 = see b"
    using k unfolding keeps_bucket_def by (cases "bk_exists bk b") auto
  moreover have "see b2 = see b1" if "bk_lifecycle bk 7 b1 = Inr b2" for b2 using k that unfolding keeps_bucket_def by blast
  ultimately show ?thesis by (cases "bk_lifecycle bk 7 b1") (auto simp: ensureBucket_def)
qed

text \<open>The loop over the pages of a prefix; \<open>Error ''running''\<close>: the rounds ran out.\<close>

fun wipe_prefix :: "nat \<Rightarrow> 'b bucket \<Rightarrow> string \<Rightarrow> 'b \<Rightarrow> unit res \<times> 'b" where
  "wipe_prefix 0 bk p b = (Inl (Error ''running''), b)"
| "wipe_prefix (Suc fuel) bk p b =
     (case bk_list bk p b of
        Inl e \<Rightarrow> (Inl (Error (errName e)), b)
      | Inr [] \<Rightarrow> (Inr (), b)
      | Inr ks \<Rightarrow> (case bk_delete bk ks b of Inl e \<Rightarrow> (Inl (Error (errName e)), b) | Inr b' \<Rightarrow> wipe_prefix fuel bk p b'))"

fun wipe_prefixes :: "nat \<Rightarrow> 'b bucket \<Rightarrow> string list \<Rightarrow> 'b \<Rightarrow> unit res \<times> 'b" where
  "wipe_prefixes fuel bk [] b = (Inr (), b)"
| "wipe_prefixes fuel bk (p # ps) b = then_run (wipe_prefix fuel bk p) (\<lambda>_. wipe_prefixes fuel bk ps) b"

fun abort_all :: "'b bucket \<Rightarrow> (string \<times> string) list \<Rightarrow> 'b \<Rightarrow> unit res \<times> 'b" where
  "abort_all bk [] b = (Inr (), b)"
| "abort_all bk ((k, u) # us) b = (case bk_abort bk k u b of Inl e \<Rightarrow> (Inl (Error (errName e)), b) | Inr b' \<Rightarrow> abort_all bk us b')"

definition wipe :: "nat \<Rightarrow> 'b bucket \<Rightarrow> string list \<Rightarrow> 'b \<Rightarrow> unit res \<times> 'b" where
  "wipe fuel bk ps =
     then_run (wipe_prefixes fuel bk ps) (\<lambda>_ b.
       (case bk_uploads bk b of Inl e \<Rightarrow> (Inl (Error (errName e)), b) | Inr us \<Rightarrow> abort_all bk us b))"

lemma wipe_prefix_clean:
  assumes k: "keeps_objects bk see" and fuel: "card (keys_under p (see b)) < fuel"
  shows "\<exists>b'. wipe_prefix fuel bk p b = (Inr (), b') \<and>
    see b' = (see b)\<lparr>co_objects := (\<lambda>k. if prefix p k then None else co_objects (see b) k)\<rparr>"
  using fuel
proof (induction fuel arbitrary: b)
  case (Suc fuel)
  obtain ks where ks: "bk_list bk p b = Inr ks" "set ks \<subseteq> keys_under p (see b)" "ks = [] \<longrightarrow> keys_under p (see b) = {}"
    using k unfolding keeps_objects_def by blast
  show ?case
  proof (cases ks)
    case Nil
    then have "co_objects (see b) k = None" if "prefix p k" for k using ks(3) that by (force simp: keys_under_def)
    then have "(\<lambda>k. if prefix p k then None else co_objects (see b) k) = co_objects (see b)" by auto
    then show ?thesis using Nil ks(1) by simp
  next
    case (Cons x xs)
    obtain b1 where b1: "bk_delete bk ks b = Inr b1"
      "see b1 = (see b)\<lparr>co_objects := (\<lambda>k. if k \<in> set ks then None else co_objects (see b) k)\<rparr>"
      using k unfolding keeps_objects_def by blast
    have "finite (keys_under p (see b))" using k unfolding keeps_objects_def keys_under_def by auto
    moreover have "keys_under p (see b1) \<subset> keys_under p (see b)" using ks(2) Cons b1(2) by (auto simp: keys_under_def split: if_splits)
    ultimately have "card (keys_under p (see b1)) < card (keys_under p (see b))" by (rule psubset_card_mono)
    then have "card (keys_under p (see b1)) < fuel" using Suc.prems by linarith
    from Suc.IH [OF this] obtain b' where b': "wipe_prefix fuel bk p b1 = (Inr (), b')"
      "see b' = (see b1)\<lparr>co_objects := (\<lambda>k. if prefix p k then None else co_objects (see b1) k)\<rparr>" by blast
    have "(\<lambda>k. if prefix p k then None else if k \<in> set ks then None else co_objects (see b) k) =
        (\<lambda>k. if prefix p k then None else co_objects (see b) k)"
    proof
      fix x show "(if prefix p x then None else if x \<in> set ks then None else co_objects (see b) x) =
          (if prefix p x then None else co_objects (see b) x)"
        using subsetD [OF ks(2), of x] by (simp add: keys_under_def)
    qed
    then have "see b' = (see b)\<lparr>co_objects := (\<lambda>k. if prefix p k then None else co_objects (see b) k)\<rparr>"
      by (simp add: b'(2) b1(2) cong: if_cong)
    then show ?thesis using ks(1) b1(1) b'(1) Cons by simp
  qed
qed simp

lemma abort_known:
  assumes "keeps_uploads bk see" "co_uploads (see b) (k, u) \<noteq> None"
  obtains b' where "bk_abort bk k u b = Inr b'" "see b' = (see b)\<lparr>co_uploads := (co_uploads (see b))((k, u) := None)\<rparr>"
  using assms unfolding keeps_uploads_def by blast

lemma abort_all_clean:
  assumes "keeps_uploads bk see" "set us \<subseteq> dom (co_uploads (see b))" "distinct us"
  shows "\<exists>b'. abort_all bk us b = (Inr (), b') \<and> co_objects (see b') = co_objects (see b) \<and>
    co_uploads (see b') = (\<lambda>x. if x \<in> set us then None else co_uploads (see b) x)"
  using assms(2,3)
proof (induction us arbitrary: b)
  case (Cons x us)
  obtain k u where x: "x = (k, u)" by fastforce
  obtain b1 where b1: "bk_abort bk k u b = Inr b1" "see b1 = (see b)\<lparr>co_uploads := (co_uploads (see b))((k, u) := None)\<rparr>"
    using abort_known [OF assms(1), of b k u] Cons.prems(1) x by auto
  have known: "set us \<subseteq> dom (co_uploads (see b1))" using Cons.prems by (auto simp: b1(2) x)
  have distinct_tl': "distinct us" using Cons.prems(2) by simp
  from Cons.IH [OF known distinct_tl'] obtain b' where "abort_all bk us b1 = (Inr (), b')" "co_objects (see b') = co_objects (see b1)"
    "co_uploads (see b') = (\<lambda>x. if x \<in> set us then None else co_uploads (see b1) x)" by blast
  note b' = this
  have "co_uploads (see b') = (\<lambda>y. if y \<in> set ((k, u) # us) then None else co_uploads (see b) y)"
    unfolding b'(3) by (rule ext) (simp add: b1(2))
  then show ?case using b1 b'(1,2) by (intro exI [of _ b']) (simp add: x)
qed simp

text \<open>Wiping a prefix ends after at most one round per object and one more, leaves no object under
  the prefix, keeps every other one and starts no upload.\<close>

lemma wipe_clean:
  assumes k: "keeps_objects bk see" and u: "keeps_uploads bk see" and fuel: "card (keys_under p (see b)) < fuel"
  shows "\<exists>b'. wipe fuel bk [p] b = (Inr (), b') \<and>
    co_objects (see b') = (\<lambda>k. if prefix p k then None else co_objects (see b) k) \<and>
    dom (co_uploads (see b')) \<subseteq> dom (co_uploads (see b))"
proof -
  obtain b1 where b1: "wipe_prefix fuel bk p b = (Inr (), b1)"
    "see b1 = (see b)\<lparr>co_objects := (\<lambda>k. if prefix p k then None else co_objects (see b) k)\<rparr>"
    using wipe_prefix_clean [OF k fuel] by blast
  obtain us where us: "bk_uploads bk b1 = Inr us" "set us \<subseteq> dom (co_uploads (see b1))" "distinct us"
    using u unfolding keeps_uploads_def by blast
  obtain b' where "abort_all bk us b1 = (Inr (), b')" "co_objects (see b') = co_objects (see b1)"
    "co_uploads (see b') = (\<lambda>x. if x \<in> set us then None else co_uploads (see b1) x)"
    using abort_all_clean [OF u us(2,3)] by blast
  then show ?thesis
    by (intro exI [of _ b']) (auto simp: wipe_def then_run_def b1 us(1) split: if_splits)
qed

lemma wiped_keys: "co_objects c' = (\<lambda>k. if prefix p k then None else co_objects c k) \<Longrightarrow> keys_under p c' = {}"
  by (auto simp: keys_under_def split: if_splits)

end
