(* ===== verification/FileDemos.thy ===== *)
theory FileDemos
  imports FileStore AuthDemos Env
begin

text \<open>
  The acceptance run of the single upload, \<open>src/demo-upload.ts\<close>, its client without
  credentials \<open>src/files/client-put.ts\<close>, and what the runs of the uploads share,
  \<open>src/files/demo-lib.ts\<close>.  The application they start is the guards, the controller and
  the service of the other theories, on the users of the database and the bucket.
\<close>

subsection \<open>The world of the runs\<close>

record 'b files_world =
  fw_demo :: demo_state
  fw_files :: "file_row list"
  fw_bucket :: 'b
  fw_port :: "nat option"

text \<open>
  What does not change during a run: the authentication and its libraries, the bucket's
  commands, the signer at a time, the storage settings, Postgres's \<open>bigint\<close>, and the
  bound for the loops over pages.
\<close>

record ('priv, 'pub, 'b) files_lib =
  fl_env :: "('priv, 'pub) auth_env"
  fl_bk :: "'b bucket"
  fl_sg :: "rat \<Rightarrow> signer"
  fl_st :: storage_service
  fl_bigint :: "string \<Rightarrow> string option"
  fl_fuel :: nat

definition in_demo :: "(demo_state \<Rightarrow> 'a res \<times> demo_state) \<Rightarrow> 'b files_world \<Rightarrow> 'a res \<times> 'b files_world" where
  "in_demo m w = (case m (fw_demo w) of (r, s) \<Rightarrow> (r, w\<lparr>fw_demo := s\<rparr>))"

definition in_bucket :: "('b \<Rightarrow> 'a res \<times> 'b) \<Rightarrow> 'b files_world \<Rightarrow> 'a res \<times> 'b files_world" where
  "in_bucket m w = (case m (fw_bucket w) of (r, b) \<Rightarrow> (r, w\<lparr>fw_bucket := b\<rparr>))"

subsection \<open>The routes of the uploads\<close>

datatype files_req =
    PostIntent json "string option"
  | GetParts string
  | PostCommit string
  | GetFile string

datatype files_reply = NoBody | Descriptor upload_descriptor | PartsView parts_view | FileView file_view | Location string

fun files_endpoint :: "files_req \<Rightarrow> endpoint" where
  "files_endpoint (PostIntent _ _) = files_routes ! 0"
| "files_endpoint (GetParts _) = files_routes ! 1"
| "files_endpoint (PostCommit _) = files_routes ! 2"
| "files_endpoint (GetFile _) = files_routes ! 3"

definition files_answer :: "nat \<Rightarrow> ('a \<Rightarrow> files_reply) \<Rightarrow> 'a res \<Rightarrow> nat \<times> files_reply" where
  "files_answer status body r = (case r of Inl e \<Rightarrow> (error_status e, NoBody) | Inr a \<Rightarrow> (status, body a))"

definition storage_at :: "('priv, 'pub, 'b) files_lib \<Rightarrow> rat \<Rightarrow> 'b \<Rightarrow> storage_service" where
  "storage_at lib now b = (fl_st lib)\<lparr>st_s3 := s3_at (fl_bk lib) b, st_signer := fl_sg lib now\<rparr>"

definition files_env_at :: "('priv, 'pub, 'b) files_lib \<Rightarrow> rat \<Rightarrow> 'b files_world \<Rightarrow> files_env" where
  "files_env_at lib now w = \<lparr>fe_storage = storage_at lib now (fw_bucket w), fe_bigint = fl_bigint lib,
     fe_users = map (\<lambda>u. show_nat (u_id u)) (users (ap_auth (ds_api (fw_demo w))))\<rparr>"

text \<open>
  What a request does to the bucket.  \<open>intent\<close> starts a multipart upload for a new file
  above the threshold and aborts it when the insert fails; \<open>commit\<close> completes the upload
  when no part is missing.
\<close>

definition intent_starts :: "files_env \<Rightarrow> string \<Rightarrow> auth_user \<Rightarrow> json \<Rightarrow> string option \<Rightarrow> file_row list \<Rightarrow> (string \<times> string) option" where
  "intent_starts env i user body key t =
     (case parse_intent body of
        None \<Rightarrow> None
      | Some (contentType, sz) \<Rightarrow>
          if (case truthy key of None \<Rightarrow> False | Some k \<Rightarrow> find_intent env (au_id user) k t \<noteq> Inr None) then None
          else if multipartThreshold (fe_storage env) < sz
          then Some (object_key (au_id user) i (the (map_of CONTENT_TYPES contentType)), contentType) else None)"

definition intent_bucket :: "'b bucket \<Rightarrow> (string \<times> string) option \<Rightarrow> string list \<Rightarrow> 'b \<Rightarrow> 'b" where
  "intent_bucket bk start aborted b =
     (case start of
        None \<Rightarrow> b
      | Some (k, ct) \<Rightarrow>
          (case bk_start bk k ct b of
             Inl _ \<Rightarrow> b
           | Inr (_, b') \<Rightarrow> fold (\<lambda>u b. case bk_abort bk k u b of Inl _ \<Rightarrow> b | Inr b' \<Rightarrow> b') aborted b'))"

definition commit_completes :: "nat \<Rightarrow> storage_service \<Rightarrow> auth_user \<Rightarrow> string \<Rightarrow> file_row list \<Rightarrow>
    (string \<times> string \<times> (nat \<times> string option) list) option" where
  "commit_completes fuel st user i t =
     (case owned t i user of
        Inl _ \<Rightarrow> None
      | Inr row \<Rightarrow>
          if f_status row = COMPLETED then None
          else (case (truthy (f_upload_id row), computePartSize (f_size row)) of
             (Some u, Inr p) \<Rightarrow>
               (case listAllParts fuel (st_s3 st) row u None [] of
                  Some (Inr ps) \<Rightarrow>
                    if missing_parts (f_size row) p ps \<noteq> [] then None
                    else Some (f_key row, u, map (\<lambda>q. (PartNumber q, ETag q)) (sort_key PartNumber (filter (good_part (f_size row) p) ps)))
                | _ \<Rightarrow> None)
           | _ \<Rightarrow> None))"

definition commit_bucket :: "'b bucket \<Rightarrow> (string \<times> string \<times> (nat \<times> string option) list) option \<Rightarrow> 'b \<Rightarrow> 'b" where
  "commit_bucket bk request b =
     (case request of None \<Rightarrow> b | Some (k, u, ps) \<Rightarrow> (case bk_complete bk k u ps b of Inl _ \<Rightarrow> b | Inr b' \<Rightarrow> b'))"

text \<open>The controller.  \<open>commit\<close> looks at the object after it has completed the upload.\<close>

definition handle_files :: "('priv, 'pub, 'b) files_lib \<Rightarrow> draws \<Rightarrow> files_req \<Rightarrow> auth_user \<Rightarrow> 'b files_world \<Rightarrow>
    (nat \<times> files_reply) \<times> 'b files_world" where
  "handle_files lib d c user w =
     (let env = files_env_at lib (dr_appnow d) w; st = fe_storage env; bk = fl_bk lib; running = Error ''running''
      in case c of
        PostIntent body key \<Rightarrow>
          (let start = intent_starts env (dr_fid d) user body key (fw_files w);
               (r, t, aborted) = intent env (dr_fid d) (\<lambda>t. t) user body key (fw_files w)
           in (files_answer 200 Descriptor r, w\<lparr>fw_files := t, fw_bucket := intent_bucket bk start aborted (fw_bucket w)\<rparr>))
      | GetParts i \<Rightarrow>
          (files_answer 200 PartsView (case parts (fl_fuel lib) st user i (fw_files w) of None \<Rightarrow> Inl running | Some r \<Rightarrow> r), w)
      | PostCommit i \<Rightarrow>
          (let b = commit_bucket bk (commit_completes (fl_fuel lib) st user i (fw_files w)) (fw_bucket w);
               seen = st\<lparr>st_s3 := (st_s3 st)\<lparr>s3_head := s3_head (s3_at bk b)\<rparr>\<rparr>
           in case commit (fl_fuel lib) seen (\<lambda>t. t) user i (fw_files w) of
                None \<Rightarrow> (files_answer 200 FileView (Inl running), w)
              | Some (r, t) \<Rightarrow> (files_answer 200 FileView r, w\<lparr>fw_files := t, fw_bucket := b\<rparr>))
      | GetFile i \<Rightarrow> (files_answer 302 Location (downloadUrl st user i (fw_files w)), w))"

subsection \<open>files/demo-lib\<close>

definition REQUIRED_DB :: "string list" where
  "REQUIRED_DB = [''DB_HOST'', ''DB_USER'', ''DB_PASSWORD'', ''DB_NAME'', ''JWT_PRIVATE_KEY'', ''JWT_PUBLIC_KEY'',
     ''JWT_KID'', ''REFRESH_TOKEN_PEPPER'']"

text \<open>A run without the API only needs the bucket.\<close>

definition files_boot :: "('priv, 'pub, 'b) files_lib \<Rightarrow> (string \<rightharpoonup> string) \<Rightarrow> bool \<Rightarrow> 'b files_world \<Rightarrow> unit res \<times> 'b files_world" where
  "files_boot lib getenv api w =
     (case storageFromEnv getenv of
        Inl _ \<Rightarrow> (Inl (Error ''storage''), w)
      | Inr _ \<Rightarrow>
          then_run (in_bucket (ensureBucket (fl_bk lib))) (\<lambda>_ w.
            if \<not> api then (Inr (), w)
            else if filter (\<lambda>n. \<not> present (getenv n)) REQUIRED_DB \<noteq> [] then (Inl (Error ''missing''), w)
            else (Inr (), w\<lparr>fw_files := []\<rparr>)) w)"

text \<open>A new process of the application on a new port, with its in-memory state.\<close>

definition startApi :: "nat \<Rightarrow> 'b files_world \<Rightarrow> unit res \<times> 'b files_world" where
  "startApi port w = (Inr (), w\<lparr>fw_port := Some port,
     fw_demo := (fw_demo w)\<lparr>ds_api := \<lparr>ap_auth = ap_auth (ds_api (fw_demo w)), ap_orders = orders_init, ap_products = products_init\<rparr>\<rparr>\<rparr>)"

definition stopApi :: "'b files_world \<Rightarrow> unit res \<times> 'b files_world" where
  "stopApi w = (Inr (), w\<lparr>fw_port := None\<rparr>)"

definition portAlive :: "nat \<Rightarrow> 'b files_world \<Rightarrow> bool" where
  "portAlive port w \<longleftrightarrow> fw_port w = Some port"

text \<open>The request on a port where nobody listens throws.\<close>

definition files_call :: "('priv, 'pub, 'b) files_lib \<Rightarrow> draws \<Rightarrow> nat \<Rightarrow> files_req \<Rightarrow> string \<Rightarrow> 'b files_world \<Rightarrow>
    (nat \<times> files_reply) res \<times> 'b files_world" where
  "files_call lib d base c token w =
     (if \<not> portAlive base w then (Inl (Error ''fetch failed''), w)
      else (case guards (fl_env lib) (dr_appnow d) (ap_auth (ds_api (fw_demo w))) (files_endpoint c) (Some (''Bearer '' @ token)) of
              Inl e \<Rightarrow> (Inr (error_status e, NoBody), w)
            | Inr user \<Rightarrow>
                (case CurrentUser user of
                   Inl e \<Rightarrow> (Inr (error_status e, NoBody), w)
                 | Inr u \<Rightarrow> (let (r, w') = handle_files lib d c u w in (Inr r, w')))))"

definition files_user :: "string \<Rightarrow> nat \<Rightarrow> string \<Rightarrow> role \<Rightarrow> 'b files_world \<Rightarrow> string res \<times> 'b files_world" where
  "files_user hash new_id email rl =
     then_run (in_demo (upsert_user hash new_id email rl)) (\<lambda>_ w.
       (case select_first (\<lambda>u. u_email u = email) (users (ap_auth (ds_api (fw_demo w)))) of
          None \<Rightarrow> Inl (Error ''TypeError'') | Some u \<Rightarrow> Inr (show_nat (u_id u)), w))"

definition files_login :: "('priv, 'pub, 'b) files_lib \<Rightarrow> draws \<Rightarrow> nat \<Rightarrow> string \<Rightarrow> 'b files_world \<Rightarrow> string res \<times> 'b files_world" where
  "files_login lib d base email w =
     (if \<not> portAlive base w then (Inl (Error ''fetch failed''), w)
      else then_run (in_demo (login_as (fl_env lib) d email)) (\<lambda>r w. (Inr (access_of r), w)) w)"

definition files_expect :: "nat \<Rightarrow> nat list \<Rightarrow> 'b files_world \<Rightarrow> unit res \<times> 'b files_world" where
  "files_expect actual allowed = in_demo (expect_status actual allowed)"

definition files_invariant :: "('b files_world \<Rightarrow> bool) \<Rightarrow> 'b files_world \<Rightarrow> unit res \<times> 'b files_world" where
  "files_invariant ok w = in_demo (invariant (\<lambda>_. ok w)) w"

definition bool_num :: "bool \<Rightarrow> nat" where
  "bool_num b = (if b then 1 else 0)"

definition files_run :: "('priv, 'pub, 'b) files_lib \<Rightarrow> (string \<rightharpoonup> string) \<Rightarrow> bool \<Rightarrow> ('b files_world \<Rightarrow> unit res \<times> 'b files_world) \<Rightarrow>
    'b files_world \<Rightarrow> nat" where
  "files_run lib getenv api body =
     exit_code (then_run (files_boot lib getenv api) (\<lambda>_. then_run body (\<lambda>_ w. (Inr (if ds_failed (fw_demo w) then 1 else 0), w))))"

text \<open>A \<open>PUT\<close> and a \<open>GET\<close> on a presigned URL.\<close>

definition files_put :: "('priv, 'pub, 'b) files_lib \<Rightarrow> rat \<Rightarrow> string \<Rightarrow> string option \<Rightarrow> nat list \<Rightarrow> 'b files_world \<Rightarrow> nat res \<times> 'b files_world" where
  "files_put lib now url ct body = in_bucket (\<lambda>b. case bk_put (fl_bk lib) url ct body now b of (st, b') \<Rightarrow> (Inr st, b'))"

definition files_get :: "('priv, 'pub, 'b) files_lib \<Rightarrow> rat \<Rightarrow> string \<Rightarrow> 'b files_world \<Rightarrow> (nat \<times> nat list) res \<times> 'b files_world" where
  "files_get lib now url w = (Inr (bk_get (fl_bk lib) url now (fw_bucket w)), w)"

text \<open>\<open>TRUNCATE files\<close>\<close>

definition truncate_files :: "'b files_world \<Rightarrow> unit res \<times> 'b files_world" where
  "truncate_files w = (Inr (), w\<lparr>fw_files := []\<rparr>)"

subsection \<open>demo:upload\<close>

text \<open>\<open>client-put.ts\<close> prints the status.\<close>

definition client_put :: "('priv, 'pub, 'b) files_lib \<Rightarrow> rat \<Rightarrow> string \<Rightarrow> string \<Rightarrow> nat \<Rightarrow> 'b files_world \<Rightarrow> nat res \<times> 'b files_world" where
  "client_put lib now url contentType len = files_put lib now url (Some contentType) (replicate len 117)"

fun id_of :: "files_reply \<Rightarrow> string" where
  "id_of (Descriptor d) = ud_id d"
| "id_of _ = ''undefined''"

fun key_of :: "files_reply \<Rightarrow> string" where
  "key_of (Descriptor d) = ud_key d"
| "key_of _ = ''undefined''"

fun url_of :: "files_reply \<Rightarrow> string" where
  "url_of (Descriptor d) = (case ud_body d of SinglePut url _ \<Rightarrow> url | Multipart _ _ _ _ \<Rightarrow> ''undefined'')"
| "url_of (Location url) = url"
| "url_of _ = ''undefined''"

definition BYTES :: nat where "BYTES = 2048"

definition UPLOADER :: string where "UPLOADER = ''demo-uploader@files.test''"

definition png :: string where "png = ''image/png''"

definition intent_body :: "string \<Rightarrow> json" where
  "intent_body filename = JObj [(''filename'', JStr filename), (''contentType'', JStr png), (''size'', JNum (of_nat BYTES))]"

text \<open>The user's prefix, 36 characters of a UUID, \<open>.png\<close>; nothing of the file name.\<close>

definition key_from_server :: "string \<Rightarrow> string \<Rightarrow> bool" where
  "key_from_server uid key \<longleftrightarrow>
     (let pre = ''uploads/'' @ uid @ ''/''; rest = drop (length pre) key
      in take (length pre) key = pre \<and> length rest = 40 \<and> list_all (\<lambda>c. c \<in> set ''0123456789abcdef-'') (take 36 rest) \<and> drop 36 rest = ''.png'') \<and>
     \<not> sublist ''passwd'' key \<and> \<not> sublist ''..'' key"

definition demo_intent :: "('priv, 'pub, 'b) files_lib \<Rightarrow> (nat \<Rightarrow> draws) \<Rightarrow> nat \<Rightarrow> string \<Rightarrow> string \<Rightarrow> 'b files_world \<Rightarrow>
    files_reply res \<times> 'b files_world" where
  "demo_intent lib d p1 uid token =
     (let req = PostIntent (intent_body ''../../etc/passwd'') (Some ''demo-upload-1'') in
     then_run (files_call lib (d 1) p1 req token) (\<lambda>(status, reply).
     then_run (files_expect status [200]) (\<lambda>_.
     then_run (files_expect (bool_num (key_from_server uid (key_of reply))) [1]) (\<lambda>_.
     then_run (files_call lib (d 2) p1 req token) (\<lambda>(_, again).
     then_run (files_invariant (\<lambda>_. id_of again = id_of reply)) (\<lambda>_.
     then_run (files_invariant (\<lambda>w. length (fw_files w) = 1)) (\<lambda>_ w.
     (Inr reply, w))))))))"

text \<open>The application is down; the bytes go to the store; it comes back on another port.\<close>

definition demo_put_commit :: "('priv, 'pub, 'b) files_lib \<Rightarrow> (nat \<Rightarrow> draws) \<Rightarrow> nat \<Rightarrow> nat \<Rightarrow> string \<Rightarrow> files_reply \<Rightarrow> 'b files_world \<Rightarrow>
    unit res \<times> 'b files_world" where
  "demo_put_commit lib d p1 p2 token reply =
     then_run stopApi (\<lambda>_.
     then_run (\<lambda>w. files_expect (bool_num (portAlive p1 w)) [0] w) (\<lambda>_.
     then_run (client_put lib (dr_appnow (d 3)) (url_of reply) png BYTES) (\<lambda>st.
     then_run (files_expect st [200]) (\<lambda>_.
     then_run (startApi p2) (\<lambda>_.
     then_run (files_invariant (\<lambda>_. p2 \<noteq> p1)) (\<lambda>_.
     then_run (files_call lib (d 4) p2 (PostCommit (id_of reply)) token) (\<lambda>(status, _).
     then_run (files_expect status [200]) (\<lambda>_.
     then_run (files_invariant (\<lambda>w. map_option f_status (select_first (\<lambda>r. f_id r = id_of reply) (fw_files w)) = Some COMPLETED)) (\<lambda>_.
     then_run (files_call lib (d 5) p2 (GetFile (id_of reply)) token) (\<lambda>(status, redirect).
     then_run (files_invariant (\<lambda>_. status = 302)) (\<lambda>_.
     then_run (files_get lib (dr_appnow (d 5)) (url_of redirect)) (\<lambda>(_, got).
     files_invariant (\<lambda>_. length got = BYTES \<and> list_all (\<lambda>b. b = 117) got)))))))))))))"

text \<open>The letter before \<open>.png\<close> in the path of a URL, replaced.\<close>

definition tampered_url :: "string \<Rightarrow> string" where
  "tampered_url url =
     (let p = url_path url; last' = length p - 1 - length ''.png''
      in p[last' := (if p ! last' = CHR ''a'' then CHR ''b'' else CHR ''a'')] @ url_query url)"

definition demo_refusals :: "('priv, 'pub, 'b) files_lib \<Rightarrow> (nat \<Rightarrow> draws) \<Rightarrow> nat \<Rightarrow> string \<Rightarrow> 'b files_world \<Rightarrow> unit res \<times> 'b files_world" where
  "demo_refusals lib d p2 token =
     then_run (files_call lib (d 6) p2 (PostIntent (intent_body ''x.png'') None) token) (\<lambda>(_, empty).
     then_run (files_call lib (d 7) p2 (PostCommit (id_of empty)) token) (\<lambda>(status, _).
     then_run (files_expect status [409]) (\<lambda>_.
     then_run (files_call lib (d 8) p2 (PostIntent (intent_body ''v.png'') None) token) (\<lambda>(_, victim).
     then_run (files_put lib (dr_appnow (d 9)) (tampered_url (url_of victim)) (Some png) (replicate BYTES 0)) (\<lambda>st.
     then_run (files_expect st [403]) (\<lambda>_.
     (let shortUrl = sign_put (fl_sg lib (dr_appnow (d 10))) (key_of victim) png 1 in
     then_run (files_put lib (dr_appnow (d 11)) shortUrl (Some png) (replicate BYTES 0)) (\<lambda>st.
     then_run (files_invariant (\<lambda>_. st = 200)) (\<lambda>_.
     then_run (files_put lib (dr_appnow (d 12)) shortUrl (Some png) (replicate BYTES 0)) (\<lambda>st.
     files_expect st [403]))))))))))"

definition demo_upload :: "('priv, 'pub, 'b) files_lib \<Rightarrow> string \<Rightarrow> nat \<Rightarrow> (nat \<Rightarrow> draws) \<Rightarrow> nat \<Rightarrow> nat \<Rightarrow> 'b files_world \<Rightarrow>
    unit res \<times> 'b files_world" where
  "demo_upload lib hash new_id d p1 p2 =
     then_run (in_bucket (wipe (fl_fuel lib) (fl_bk lib) [''uploads/''])) (\<lambda>_.
     then_run (files_user hash new_id UPLOADER customer) (\<lambda>uid.
     then_run (startApi p1) (\<lambda>_.
     then_run (files_login lib (d 0) p1 UPLOADER) (\<lambda>token.
     then_run (demo_intent lib d p1 uid token) (\<lambda>reply.
     then_run (demo_put_commit lib d p1 p2 token reply) (\<lambda>_.
     then_run (demo_refusals lib d p2 token) (\<lambda>_.
     then_run stopApi (\<lambda>_.
     then_run (in_bucket (wipe (fl_fuel lib) (fl_bk lib) [''uploads/''])) (\<lambda>_. truncate_files)))))))))"

subsection \<open>The world, with a session\<close>

definition fworld :: "auth_db \<Rightarrow> file_row list \<Rightarrow> 'b \<Rightarrow> nat option \<Rightarrow> 'b files_world" where
  "fworld A t b p = \<lparr>fw_demo = \<lparr>ds_api = \<lparr>ap_auth = A, ap_orders = orders_init, ap_products = products_init\<rparr>, ds_failed = False\<rparr>,
     fw_files = t, fw_bucket = b, fw_port = p\<rparr>"

lemma fworld_simps [simp]:
  "ap_auth (ds_api (fw_demo (fworld A t b p))) = A" "ds_failed (fw_demo (fworld A t b p)) = False"
  "fw_files (fworld A t b p) = t" "fw_bucket (fworld A t b p) = b"
  "fw_port (fworld A t b p) = p" "(fworld A t b p)\<lparr>fw_files := t'\<rparr> = fworld A t' b p" "(fworld A t b p)\<lparr>fw_bucket := b'\<rparr> = fworld A t b' p"
  by (simp_all add: fworld_def)

lemma fworld_steps [simp]:
  "startApi q (fworld A t b p) = (Inr (), fworld A t b (Some q))" "stopApi (fworld A t b p) = (Inr (), fworld A t b None)"
  "portAlive q (fworld A t b p) \<longleftrightarrow> p = Some q" "truncate_files (fworld A t b p) = (Inr (), fworld A [] b p)"
  "files_put lib now url ct body (fworld A t b p) = (Inr (fst (bk_put (fl_bk lib) url ct body now b)), fworld A t (snd (bk_put (fl_bk lib) url ct body now b)) p)"
  "files_get lib now url (fworld A t b p) = (Inr (bk_get (fl_bk lib) url now b), fworld A t b p)"
  by (simp_all add: startApi_def stopApi_def portAlive_def truncate_files_def files_put_def files_get_def in_bucket_def case_prod_beta)
    (simp_all add: fworld_def)

lemma fworld_checks [simp]:
  "x \<in> set allowed \<Longrightarrow> files_expect x allowed (fworld A t b p) = (Inr (), fworld A t b p)"
  "ok (fworld A t b p) \<Longrightarrow> files_invariant ok (fworld A t b p) = (Inr (), fworld A t b p)"
  by (simp_all add: files_expect_def files_invariant_def in_demo_def expect_status_def invariant_def fworld_def)

text \<open>The user \<open>u\<close> has logged in with call 0 and her token is not denied.\<close>

definition holds_session :: "('priv, 'pub, 'b) files_lib \<Rightarrow> (nat \<Rightarrow> draws) \<Rightarrow> auth_db \<Rightarrow> user_row \<Rightarrow> bool" where
  "holds_session lib d A u \<longleftrightarrow> jwt_signs (fl_env lib) \<and> timely (fl_env lib) d \<and> dr_jti (d 0) \<notin> dn_jti ` set (access_denylist A) \<and>
     u \<in> set (users A) \<and> fl_bigint lib (show_nat (u_id u)) = Some (show_nat (u_id u))"

abbreviation session_token :: "('priv, 'pub, 'b) files_lib \<Rightarrow> (nat \<Rightarrow> draws) \<Rightarrow> user_row \<Rightarrow> string" where
  "session_token lib d u \<equiv> access_for (fl_env lib) (d 0) u (dr_fid (d 0))"

abbreviation session_user :: "('priv, 'pub, 'b) files_lib \<Rightarrow> (nat \<Rightarrow> draws) \<Rightarrow> user_row \<Rightarrow> auth_user" where
  "session_user lib d u \<equiv> user_for (fl_env lib) (d 0) u (dr_fid (d 0))"

lemma session_user_simps [simp]: "au_id (user_for env e u fid) = show_nat (u_id u)" "au_role (user_for env e u fid) = u_role u"
  by (simp_all add: user_for_def)

lemma files_served:
  assumes "holds_session lib d A u"
  shows "files_call lib (d j) p c (session_token lib d u) (fworld A t b (Some p)) =
    (Inr (fst (handle_files lib (d j) c (session_user lib d u) (fworld A t b (Some p)))),
     snd (handle_files lib (d j) c (session_user lib d u) (fworld A t b (Some p))))"
proof -
  have j: "jwt_signs (fl_env lib)" and t: "timely (fl_env lib) d" and ok: "dr_jti (d 0) \<notin> dn_jti ` set (access_denylist A)"
    using assms by (simp_all add: holds_session_def)
  have "guards (fl_env lib) (dr_appnow (d j)) A (files_endpoint c) (Some (''Bearer '' @ session_token lib d u)) = Inr (Some (session_user lib d u))"
    using ok signed_bearer [OF j, of "d 0" u "dr_fid (d 0)"] signed_authenticates [OF j t, of j 0 u "dr_fid (d 0)" A]
    by (cases c; cases "u_role u") (simp_all add: guards_def auth_guard_def roles_guard_def route_defs)
  then show ?thesis by (simp add: files_call_def CurrentUser_def case_prod_beta)
qed

lemma owned_files:
  assumes "uuid_shape i" "select_first (\<lambda>r. f_id r = i) t = Some row" "f_owner row = au_id user"
  shows "owned t i user = Inr row"
  using assms by (simp add: owned_row_Inr)

subsection \<open>The single upload\<close>

definition png_row :: "user_row \<Rightarrow> string \<Rightarrow> string option \<Rightarrow> file_row" where
  "png_row u i key = \<lparr>f_id = i, f_key = object_key (show_nat (u_id u)) i ''png'', f_owner = show_nat (u_id u), f_status = PENDING,
     f_content_type = png, f_size = int BYTES, f_upload_id = None, f_etag = None, f_idempotency_key = key\<rparr>"

definition png_descriptor :: "('priv, 'pub, 'b) files_lib \<Rightarrow> rat \<Rightarrow> file_row \<Rightarrow> upload_descriptor" where
  "png_descriptor lib now row = \<lparr>ud_id = f_id row, ud_key = f_key row, ud_status = f_status row, ud_expires_in = putExpires (fl_st lib),
     ud_body = SinglePut (sign_put (fl_sg lib now) (f_key row) (f_content_type row) (putExpires (fl_st lib))) (f_content_type row)\<rparr>"

lemma storage_at_simps [simp]:
  "st_s3 (storage_at lib now b) = s3_at (fl_bk lib) b" "st_signer (storage_at lib now b) = fl_sg lib now"
  "putExpires (storage_at lib now b) = putExpires (fl_st lib)" "partExpires (storage_at lib now b) = partExpires (fl_st lib)"
  "getExpires (storage_at lib now b) = getExpires (fl_st lib)" "multipartThreshold (storage_at lib now b) = multipartThreshold (fl_st lib)"
  by (simp_all add: storage_at_def)

lemma described_single: "f_upload_id row = None \<Longrightarrow> describe (storage_at lib now b) row = Inr (png_descriptor lib now row)"
  by (simp add: describe_def png_descriptor_def presignPut_def)

lemma demo_filenames [simp]:
  "js_length ''../../etc/passwd'' = 16" "js_length ''x.png'' = 5" "js_length ''v.png'' = 5"
  by (simp_all add: js_length_def)

lemma parse_png: "1 \<le> js_length f \<Longrightarrow> js_length f \<le> 255 \<Longrightarrow> parse_intent (intent_body f) = Some (png, int BYTES)"
proof -
  have "js_is_integer (Num 2048)" by code_simp
  moreover assume "1 \<le> js_length f" "js_length f \<le> 255"
  ultimately show ?thesis
    by (simp add: parse_intent_def intent_body_def BYTES_def png_def CONTENT_TYPES_def limit_defs)
qed

lemma png_ext: "map_of CONTENT_TYPES png = Some ''png''"
  by (simp add: CONTENT_TYPES_def png_def)

lemma object_key_inj: "object_key uid i ext = object_key uid j ext \<longleftrightarrow> i = j"
  by (simp add: object_key_def)

text \<open>A new file, and the request repeated.\<close>

lemma intent_new:
  assumes s: "holds_session lib d A u" and small: "int BYTES \<le> multipartThreshold (fl_st lib)" and f: "1 \<le> js_length f" "js_length f \<le> 255"
    and key: "key = None \<or> key = Some k \<and> k \<noteq> '''' \<and> k \<notin> the ` f_idempotency_key ` set t"
    and new: "dr_fid (d j) \<notin> f_id ` set t" "object_key (show_nat (u_id u)) (dr_fid (d j)) ''png'' \<notin> f_key ` set t"
  shows "handle_files lib (d j) (PostIntent (intent_body f) key) (session_user lib d u) (fworld A t b p) =
    ((200, Descriptor (png_descriptor lib (dr_appnow (d j)) (png_row u (dr_fid (d j)) key))), fworld A (t @ [png_row u (dr_fid (d j)) key]) b p)"
proof -
  let ?env = "files_env_at lib (dr_appnow (d j)) (fworld A t b p)" and ?uid = "show_nat (u_id u)" and ?row = "png_row u (dr_fid (d j)) key"
  have uid: "fl_bigint lib ?uid = Some ?uid" "?uid \<in> set (fe_users ?env)" using s by (auto simp: holds_session_def files_env_at_def)
  have env: "fe_storage ?env = storage_at lib (dr_appnow (d j)) b" "fe_bigint ?env = fl_bigint lib" by (simp_all add: files_env_at_def)
  have keyed: "key = None \<or> (?uid, key) \<notin> (\<lambda>r. (f_owner r, f_idempotency_key r)) ` set t" using key by force
  have found: "find_intent ?env ?uid k t = Inr None" if "key = Some k"
    using key that by (force simp: find_intent_def env uid select_first_None image_iff)
  have "insert_file ?env ?uid ?row t = (Inr ?row, t @ [?row])"
    using uid(2) new keyed by (simp add: insert_file_def env uid(1) png_row_def BYTES_def)
  moreover have "f_upload_id ?row = None" by (simp add: png_row_def)
  ultimately have "store_intent ?env ?uid key None ?row t = (Inr (png_descriptor lib (dr_appnow (d j)) ?row), t @ [?row], [])"
    by (simp add: store_intent_def env described_single)
  then have "new_intent ?env (dr_fid (d j)) (\<lambda>t. t) (session_user lib d u) png (int BYTES) key t =
      (Inr (png_descriptor lib (dr_appnow (d j)) ?row), t @ [?row], [])"
    using small by (simp add: new_intent_def env png_ext png_row_def Let_def not_less)
  moreover have "intent_starts ?env (dr_fid (d j)) (session_user lib d u) (intent_body f) key t = None"
    using small by (simp add: intent_starts_def parse_png [OF f] env not_less)
  ultimately show ?thesis
    using key found
    by (auto simp: handle_files_def intent_def parse_png [OF f] files_answer_def intent_bucket_def Let_def)
qed

lemma intent_again:
  assumes s: "holds_session lib d A u" and f: "1 \<le> js_length f" "js_length f \<le> 255" and k: "k \<noteq> ''''"
  shows "handle_files lib (d j) (PostIntent (intent_body f) (Some k)) (session_user lib d u) (fworld A [png_row u i (Some k)] b p) =
    ((200, Descriptor (png_descriptor lib (dr_appnow (d j)) (png_row u i (Some k)))), fworld A [png_row u i (Some k)] b p)"
proof -
  let ?env = "files_env_at lib (dr_appnow (d j)) (fworld A [png_row u i (Some k)] b p)" and ?uid = "show_nat (u_id u)"
  have "find_intent ?env ?uid k [png_row u i (Some k)] = Inr (Some (png_row u i (Some k)))"
    using s by (simp add: find_intent_def files_env_at_def holds_session_def png_row_def select_first_def)
  moreover have "describe (fe_storage ?env) (png_row u i (Some k)) = Inr (png_descriptor lib (dr_appnow (d j)) (png_row u i (Some k)))"
    by (simp add: files_env_at_def described_single png_row_def)
  ultimately show ?thesis
    using k by (simp add: handle_files_def intent_def intent_starts_def parse_png [OF f] files_answer_def intent_bucket_def Let_def)
qed

text \<open>The commit, with and without the bytes, and the download.\<close>

lemma head_answer:
  assumes "keeps_objects bk see"
  shows "co_objects (see b) k = None \<Longrightarrow> \<exists>e. bk_head bk k b = Inl e \<and> errStatus e = 404"
    "co_objects (see b) k = Some (body, et) \<Longrightarrow> bk_head bk k b = Inr (Some (int (length body)), Some et)"
proof -
  have a: "case co_objects (see b) k of None \<Rightarrow> (\<exists>e. bk_head bk k b = Inl e \<and> errStatus e = 404)
      | Some (body, et) \<Rightarrow> bk_head bk k b = Inr (Some (int (length body)), Some et)"
    using assms unfolding keeps_objects_def by blast
  show "co_objects (see b) k = None \<Longrightarrow> \<exists>e. bk_head bk k b = Inl e \<and> errStatus e = 404"
    "co_objects (see b) k = Some (body, et) \<Longrightarrow> bk_head bk k b = Inr (Some (int (length body)), Some et)"
    using a by simp_all
qed

lemma commit_single:
  assumes k: "keeps_objects (fl_bk lib) see" and o': "owned t i user = Inr row" and row: "f_status row = PENDING" "f_upload_id row = None"
  shows "co_objects (see b) (f_key row) = Some (body, et) \<Longrightarrow> int (length body) = f_size row \<Longrightarrow>
      \<exists>v. handle_files lib d (PostCommit i) user (fworld A t b p) = ((200, FileView v), fworld A (complete_row (f_id row) (Some et) t) b p)"
    "co_objects (see b) (f_key row) = None \<Longrightarrow>
      handle_files lib d (PostCommit i) user (fworld A t b p) = ((409, NoBody), fworld A t b p)"
proof -
  let ?env = "files_env_at lib (dr_appnow d) (fworld A t b p)"
  have none: "commit_completes (fl_fuel lib) (fe_storage ?env) user i t = None" using o' row by (simp add: commit_completes_def)
  have seen: "commit (fl_fuel lib) ((fe_storage ?env)\<lparr>st_s3 := (st_s3 (fe_storage ?env))\<lparr>s3_head := s3_head (s3_at (fl_bk lib) b)\<rparr>\<rparr>) (\<lambda>t. t) user i t =
      Some (check_object ((fe_storage ?env)\<lparr>st_s3 := (st_s3 (fe_storage ?env))\<lparr>s3_head := s3_head (s3_at (fl_bk lib) b)\<rparr>\<rparr>) (\<lambda>t. t) row t)"
    using o' row by (simp add: commit_def)
  have r: "\<exists>r'. select_first (\<lambda>r. f_id r = f_id row) (complete_row (f_id row) (Some et) t) = Some r'" for et
  proof -
    have "row \<in> set t" using o' by (auto simp: owned_row_Inr dest: select_first_Some)
    moreover have "map f_id (complete_row (f_id row) (Some et) t) = map f_id t" by (simp add: complete_row_def map_update_where)
    ultimately have "f_id row \<in> f_id ` set (complete_row (f_id row) (Some et) t)" by (metis image_eqI list.set_map)
    then show ?thesis
      using select_first_None [of "\<lambda>r. f_id r = f_id row" "complete_row (f_id row) (Some et) t"]
      by (cases "select_first (\<lambda>r. f_id r = f_id row) (complete_row (f_id row) (Some et) t)") auto
  qed
  have h: "handle_files lib d (PostCommit i) user (fworld A t b p) =
      (case check_object ((fe_storage ?env)\<lparr>st_s3 := (st_s3 (fe_storage ?env))\<lparr>s3_head := s3_head (s3_at (fl_bk lib) b)\<rparr>\<rparr>) (\<lambda>t. t) row t of
         (r, t') \<Rightarrow> (files_answer 200 FileView r, fworld A t' b p))"
    by (simp add: handle_files_def Let_def none seen commit_bucket_def case_prod_beta)
  show "co_objects (see b) (f_key row) = Some (body, et) \<Longrightarrow> int (length body) = f_size row \<Longrightarrow>
      \<exists>v. handle_files lib d (PostCommit i) user (fworld A t b p) = ((200, FileView v), fworld A (complete_row (f_id row) (Some et) t) b p)"
    using head_answer(2) [OF k, of b "f_key row" body et] r [of et]
    by (auto simp: h check_object_def s3_at_def files_answer_def Let_def)
  show "co_objects (see b) (f_key row) = None \<Longrightarrow>
      handle_files lib d (PostCommit i) user (fworld A t b p) = ((409, NoBody), fworld A t b p)"
    using head_answer(1) [OF k, of b "f_key row"]
    by (auto simp: h check_object_def s3_at_def files_answer_def conflict_error_def)
qed

lemma get_single:
  assumes "owned t i user = Inr row" "f_status row = COMPLETED"
  shows "handle_files lib d (GetFile i) user (fworld A t b p) =
    ((302, Location (sign_get (fl_sg lib (dr_appnow d)) (f_key row) (getExpires (fl_st lib)))), fworld A t b p)"
  using assms by (simp add: handle_files_def Let_def downloadUrl_def presignGet_def files_answer_def files_env_at_def)

text \<open>
  The clock during a run: the calls come one after the other and no URL of the service
  expires before the run is over.
\<close>

definition urls_last :: "('priv, 'pub, 'b) files_lib \<Rightarrow> (nat \<Rightarrow> draws) \<Rightarrow> bool" where
  "urls_last lib d \<longleftrightarrow> (\<forall>i j e. i \<le> j \<longrightarrow> e \<in> {putExpires (fl_st lib), partExpires (fl_st lib), getExpires (fl_st lib)} \<longrightarrow>
     in_force (dr_appnow (d i)) e (dr_appnow (d j)))"

lemma put_answer:
  assumes "honours_urls bk see sg" "in_force t e now"
  shows "\<exists>b' et. bk_put bk (sign_put (sg t) k ct e) (Some ct) body now b = (200, b') \<and>
    see b' = (see b)\<lparr>co_objects := (co_objects (see b))(k \<mapsto> (body, et))\<rparr>"
  using assms unfolding honours_urls_def by metis

lemma get_answer:
  assumes "honours_urls bk see sg" "in_force t e now" "co_objects (see b) k = Some (body, et)"
  shows "bk_get bk (sign_get (sg t) k e) now b = (200, body)"
  using assms unfolding honours_urls_def by metis

lemma put_refused:
  assumes "honours_urls bk see sg"
  shows "of_int (\<lfloor>t\<rfloor> + e) < now \<Longrightarrow> bk_put bk (sign_put (sg t) k ct e) (Some ct) body now b = (403, b)"
    "url_query url = url_query (sign_put (sg t) k ct e) \<Longrightarrow> url \<noteq> sign_put (sg t) k ct e \<Longrightarrow> bk_put bk url (Some ct) body now b = (403, b)"
    "5 \<le> length (url_path (sign_put (sg t) k ct e))"
  using assms(1) unfolding honours_urls_def by (elim conjE, simp)+

lemma tampered_url:
  assumes "5 \<le> length (url_path url)"
  shows "url_query (tampered_url url) = url_query url" "tampered_url url \<noteq> url"
proof -
  let ?p = "url_path url" and ?n = "length (url_path url) - 5"
  let ?c = "if ?p ! ?n = CHR ''a'' then CHR ''b'' else CHR ''a''"
  have t: "tampered_url url = ?p[?n := ?c] @ url_query url" by (simp add: tampered_url_def Let_def numeral_eq_Suc)
  have "\<forall>c \<in> set ?p. c \<noteq> CHR ''?''" by (auto simp: url_path_def dest: set_takeWhileD)
  then have all: "\<forall>c \<in> set (?p[?n := ?c]). c \<noteq> CHR ''?''" by (auto dest!: set_update_subset_insert [THEN subsetD])
  have q: "url_query url = [] \<or> hd (url_query url) = CHR ''?''"
    using hd_dropWhile [of "\<lambda>c. c \<noteq> CHR ''?''" url] by (auto simp: url_query_def)
  have "dropWhile (\<lambda>c. c \<noteq> CHR ''?'') (url_query url) = url_query url" using q by (cases "url_query url") simp_all
  then show "url_query (tampered_url url) = url_query url"
    using all unfolding t by (subst url_query_def) (simp add: dropWhile_append2)
  have "url = ?p @ url_query url" by (simp add: url_path_def url_query_def)
  moreover have "?p[?n := ?c] \<noteq> ?p"
  proof
    assume "?p[?n := ?c] = ?p"
    then have "?p[?n := ?c] ! ?n = ?p ! ?n" by simp
    then show False using assms by (simp split: if_splits)
  qed
  ultimately show "tampered_url url \<noteq> url" unfolding t by (metis append_same_eq)
qed

subsection \<open>The parts of the run\<close>

lemma key_from_server:
  assumes "uuid_shape i" shows "key_from_server (show_nat n) (object_key (show_nat n) i ''png'')"
proof -
  have len: "length i = 36" using assms by (simp add: uuid_shape_def)
  have i: "c \<in> set ''0123456789abcdef-''" if c: "c \<in> set i" for c
  proof -
    obtain k where "k < 36" "c = i ! k" using c len by (metis in_set_conv_nth)
    then have "c = CHR ''-'' \<or> is_hex c" using assms by (auto simp: uuid_shape_def split: if_splits)
    then show ?thesis by (auto simp: is_hex_def)
  qed
  have n: "CHR ''w'' \<notin> set (show_nat n)" "CHR ''.'' \<notin> set (show_nat n)"
    using show_nat_digits [of n] by (auto simp: codes_def is_digit_def)
  have "CHR ''.'' \<notin> set i" using i [of "CHR ''.''"] by auto
  then have dots: "count_list i CHR ''.'' = 0" "count_list (show_nat n) CHR ''.'' = 0"
    using count_notin [of "CHR ''.''" i] count_notin [OF n(2)] by simp_all
  let ?k = "object_key (show_nat n) i ''png''"
  have "CHR ''w'' \<notin> set ?k" using i [of "CHR ''w''"] n(1) by (auto simp: object_key_def)
  then have "\<not> sublist ''passwd'' ?k" using set_mono_sublist [of "''passwd''" ?k] by auto
  moreover have "count_list ?k CHR ''.'' = 1"
    using dots by (simp add: object_key_def count_list_append)
  then have "\<not> sublist ''..'' ?k" by (auto simp: sublist_def count_list_append)
  moreover define pre where "pre = ''uploads/'' @ show_nat n @ ''/''"
  then have k: "?k = pre @ i @ ''.png''" by (simp add: object_key_def)
  have "list_all (\<lambda>c. c \<in> set ''0123456789abcdef-'') i" unfolding list_all_iff using i by blast
  ultimately show ?thesis unfolding key_from_server_def Let_def k pre_def [symmetric] by (simp only: k) (simp add: len)
qed

lemma demo_intent_passes:
  assumes s: "holds_session lib d A u" and small: "int BYTES \<le> multipartThreshold (fl_st lib)" and ids: "uuid_shape (dr_fid (d 1))"
  shows "demo_intent lib d p (show_nat (u_id u)) (session_token lib d u) (fworld A [] b (Some p)) =
    (Inr (Descriptor (png_descriptor lib (dr_appnow (d 1)) (png_row u (dr_fid (d 1)) (Some ''demo-upload-1'')))),
     fworld A [png_row u (dr_fid (d 1)) (Some ''demo-upload-1'')] b (Some p))"
proof -
  let ?r = "png_row u (dr_fid (d 1)) (Some ''demo-upload-1'')"
  have 1: "handle_files lib (d 1) (PostIntent (intent_body ''../../etc/passwd'') (Some ''demo-upload-1'')) (session_user lib d u) (fworld A [] b (Some p)) =
      ((200, Descriptor (png_descriptor lib (dr_appnow (d 1)) ?r)), fworld A [?r] b (Some p))"
    using intent_new [OF s small, of "''../../etc/passwd''" "Some ''demo-upload-1''" "''demo-upload-1''" "[]" 1 b "Some p"]
    by (simp del: One_nat_def)
  have 2: "handle_files lib (d 2) (PostIntent (intent_body ''../../etc/passwd'') (Some ''demo-upload-1'')) (session_user lib d u) (fworld A [?r] b (Some p)) =
      ((200, Descriptor (png_descriptor lib (dr_appnow (d 2)) ?r)), fworld A [?r] b (Some p))"
    using intent_again [OF s, of "''../../etc/passwd''" "''demo-upload-1''" 2 "dr_fid (d 1)" b "Some p"] by (simp del: One_nat_def)
  have k: "key_from_server (show_nat (u_id u)) (ud_key (png_descriptor lib now ?r))" for now
    using key_from_server [OF ids] by (simp add: png_descriptor_def png_row_def)
  have i: "ud_id (png_descriptor lib now ?r) = dr_fid (d 1)" for now by (simp add: png_descriptor_def png_row_def)
  show ?thesis
    unfolding demo_intent_def then_run_def Let_def
    by (simp add: files_served [OF s] 1 2 k i bool_num_def del: One_nat_def)
qed

lemma demo_put_commit_passes:
  assumes s: "holds_session lib d A u" and st: "store_documented (fl_bk lib) see (fl_sg lib)" and t: "urls_last lib d"
    and ids: "uuid_shape i" and p: "p2 \<noteq> p1"
  shows "\<exists>b' et. demo_put_commit lib d p1 p2 (session_token lib d u) (Descriptor (png_descriptor lib (dr_appnow (d 1)) (png_row u i key)))
      (fworld A [png_row u i key] b (Some p1)) =
    (Inr (), fworld A [(png_row u i key)\<lparr>f_status := COMPLETED, f_etag := Some et\<rparr>] b' (Some p2)) \<and>
    see b' = (see b)\<lparr>co_objects := (co_objects (see b))(f_key (png_row u i key) \<mapsto> (replicate BYTES 117, et))\<rparr>"
proof -
  let ?r = "png_row u i key" and ?tok = "session_token lib d u" and ?body = "replicate BYTES (117 :: nat)"
  have h: "honours_urls (fl_bk lib) see (fl_sg lib)" and k: "keeps_objects (fl_bk lib) see" using st by (simp_all add: store_documented_def)
  have e: "in_force (dr_appnow (d 1)) (putExpires (fl_st lib)) (dr_appnow (d 3))" "in_force (dr_appnow (d 5)) (getExpires (fl_st lib)) (dr_appnow (d 5))"
    using t unfolding urls_last_def by (simp_all del: One_nat_def)
  obtain b' et where put: "bk_put (fl_bk lib) (sign_put (fl_sg lib (dr_appnow (d 1))) (f_key ?r) png (putExpires (fl_st lib))) (Some png) ?body (dr_appnow (d 3)) b = (200, b')"
    "see b' = (see b)\<lparr>co_objects := (co_objects (see b))(f_key ?r \<mapsto> (?body, et))\<rparr>"
    using put_answer [OF h e(1)] by blast
  let ?c = "?r\<lparr>f_status := COMPLETED, f_etag := Some et\<rparr>"
  have row: "f_id ?r = i" "f_status ?r = PENDING" "f_upload_id ?r = None" "f_owner ?r = show_nat (u_id u)" "f_size ?r = int BYTES"
    "f_content_type ?r = png" by (simp_all add: png_row_def)
  have own: "owned [r] i (session_user lib d u) = Inr r" if "f_id r = i" "f_owner r = show_nat (u_id u)" for r
    using that ids by (simp add: owned_row_Inr select_first_def)
  obtain v where 4: "handle_files lib (d 4) (PostCommit i) (session_user lib d u) (fworld A [?r] b' (Some p2)) =
      ((200, FileView v), fworld A [?c] b' (Some p2))"
    using commit_single(1) [OF k own row(2,3), of b' ?body et "d 4" A "Some p2"] put(2) row by (auto simp: complete_row_def)
  have 5: "handle_files lib (d 5) (GetFile i) (session_user lib d u) (fworld A [?c] b' (Some p2)) =
      ((302, Location (sign_get (fl_sg lib (dr_appnow (d 5))) (f_key ?r) (getExpires (fl_st lib)))), fworld A [?c] b' (Some p2))"
    using get_single [OF own, of ?c lib "d 5" A b' "Some p2"] row by simp
  have got: "bk_get (fl_bk lib) (sign_get (fl_sg lib (dr_appnow (d 5))) (f_key ?r) (getExpires (fl_st lib))) (dr_appnow (d 5)) b' = (200, ?body)"
    by (rule get_answer [OF h e(2)]) (simp add: put(2))
  have desc: "url_of (Descriptor (png_descriptor lib now ?r)) = sign_put (fl_sg lib now) (f_key ?r) png (putExpires (fl_st lib))"
    "id_of (Descriptor (png_descriptor lib now ?r)) = i" for now by (simp_all add: png_descriptor_def row)
  have "demo_put_commit lib d p1 p2 ?tok (Descriptor (png_descriptor lib (dr_appnow (d 1)) ?r)) (fworld A [?r] b (Some p1)) =
      (Inr (), fworld A [?c] b' (Some p2))"
    unfolding demo_put_commit_def then_run_def client_put_def desc
    by (simp add: put(1) files_served [OF s] 4 5 got p bool_num_def row select_first_def list_all_iff del: One_nat_def)
  then show ?thesis using put(2) by blast
qed

text \<open>The waits of the last part: the short URL is used at once, and again 2.5 s later.\<close>

definition waits :: "(nat \<Rightarrow> draws) \<Rightarrow> bool" where
  "waits d \<longleftrightarrow> in_force (dr_appnow (d 10)) 1 (dr_appnow (d 11)) \<and> dr_appnow (d 11) + 5 / 2 \<le> dr_appnow (d 12)"

lemma demo_refusals_passes:
  assumes s: "holds_session lib d A u" and st: "store_documented (fl_bk lib) see (fl_sg lib)" and wait: "waits d"
    and small: "int BYTES \<le> multipartThreshold (fl_st lib)" and ids: "\<forall>j. uuid_shape (dr_fid (d j))" "dr_fid (d 6) \<noteq> dr_fid (d 8)"
    and t: "f_id r = i" "f_key r = object_key (show_nat (u_id u)) i ''png''" "i \<noteq> dr_fid (d 6)" "i \<noteq> dr_fid (d 8)"
    and none: "co_objects (see b) (object_key (show_nat (u_id u)) (dr_fid (d 6)) ''png'') = None"
  shows "\<exists>t b' x. demo_refusals lib d p (session_token lib d u) (fworld A [r] b (Some p)) = (Inr (), fworld A t b' (Some p)) \<and>
    dom (co_objects (see b')) \<subseteq> insert x (dom (co_objects (see b)))"
proof -
  let ?r2 = "png_row u (dr_fid (d 6)) None" and ?r3 = "png_row u (dr_fid (d 8)) None" and ?tok = "session_token lib d u"
  let ?u = "session_user lib d u" and ?D = "png_descriptor lib" and ?zeros = "replicate BYTES (0 :: nat)"
  have h: "honours_urls (fl_bk lib) see (fl_sg lib)" and k: "keeps_objects (fl_bk lib) see" using st by (simp_all add: store_documented_def)
  have row: "f_id (png_row u j None) = j" "f_status (png_row u j None) = PENDING" "f_upload_id (png_row u j None) = None"
    "f_owner (png_row u j None) = show_nat (u_id u)" "f_key (png_row u j None) = object_key (show_nat (u_id u)) j ''png''"
    "f_content_type (png_row u j None) = png" for j by (simp_all add: png_row_def)
  have 6: "handle_files lib (d 6) (PostIntent (intent_body ''x.png'') None) ?u (fworld A [r] b (Some p)) =
      ((200, Descriptor (?D (dr_appnow (d 6)) ?r2)), fworld A [r, ?r2] b (Some p))"
    using intent_new [OF s small, of "''x.png''" None undefined "[r]" 6 b "Some p"] t by (simp add: object_key_inj)
  have own: "owned [r, ?r2] (dr_fid (d 6)) ?u = Inr ?r2"
    using t(1,3) ids(1) by (simp add: owned_row_Inr select_first_def row)
  have 7: "handle_files lib (d 7) (PostCommit (dr_fid (d 6))) ?u (fworld A [r, ?r2] b (Some p)) = ((409, NoBody), fworld A [r, ?r2] b (Some p))"
    by (rule commit_single(2) [OF k own]) (simp_all add: row none)
  have 8: "handle_files lib (d 8) (PostIntent (intent_body ''v.png'') None) ?u (fworld A [r, ?r2] b (Some p)) =
      ((200, Descriptor (?D (dr_appnow (d 8)) ?r3)), fworld A [r, ?r2, ?r3] b (Some p))"
    using intent_new [OF s small, of "''v.png''" None undefined "[r, ?r2]" 8 b "Some p"] t ids(2) by (auto simp: object_key_inj row)
  let ?url = "sign_put (fl_sg lib (dr_appnow (d 8))) (f_key ?r3) png (putExpires (fl_st lib))"
  note tu = tampered_url [OF put_refused(3) [OF h]]
  have 9: "bk_put (fl_bk lib) (tampered_url ?url) (Some png) ?zeros (dr_appnow (d 9)) b = (403, b)"
    by (rule put_refused(2) [OF h tu])
  let ?short = "sign_put (fl_sg lib (dr_appnow (d 10))) (f_key ?r3) png 1"
  obtain b' et where 11: "bk_put (fl_bk lib) ?short (Some png) ?zeros (dr_appnow (d 11)) b = (200, b')"
    "see b' = (see b)\<lparr>co_objects := (co_objects (see b))(f_key ?r3 \<mapsto> (?zeros, et))\<rparr>"
    using put_answer [OF h, of "dr_appnow (d 10)" 1 "dr_appnow (d 11)"] wait unfolding waits_def by blast
  have "of_int (\<lfloor>dr_appnow (d 10)\<rfloor> + 1) < dr_appnow (d 12)"
    using wait unfolding waits_def in_force_def by (simp del: of_int_add) linarith
  then have 12: "bk_put (fl_bk lib) ?short (Some png) ?zeros (dr_appnow (d 12)) b' = (403, b')" by (rule put_refused(1) [OF h])
  have desc: "url_of (Descriptor (?D now ?r3)) = sign_put (fl_sg lib now) (f_key ?r3) png (putExpires (fl_st lib))"
    "key_of (Descriptor (?D now ?r3)) = f_key ?r3" "id_of (Descriptor (?D now ?r2)) = dr_fid (d 6)" for now
    by (simp_all add: png_descriptor_def row)
  have "demo_refusals lib d p ?tok (fworld A [r] b (Some p)) = (Inr (), fworld A [r, ?r2, ?r3] b' (Some p))"
    unfolding demo_refusals_def then_run_def
    by (simp add: files_served [OF s] 6 7 8 9 11(1) 12 desc Let_def del: One_nat_def url_of.simps key_of.simps id_of.simps)
  moreover have "dom (co_objects (see b')) \<subseteq> insert (f_key ?r3) (dom (co_objects (see b)))" by (auto simp: 11(2))
  ultimately show ?thesis by blast
qed

subsection \<open>The run passes\<close>

text \<open>What a run finds: a database whose users it may add to, and fresh random values for the login.\<close>

definition session_ready :: "('priv, 'pub, 'b) files_lib \<Rightarrow> (nat \<Rightarrow> draws) \<Rightarrow> string \<Rightarrow> nat \<Rightarrow> 'b files_world \<Rightarrow> bool" where
  "session_ready lib d h new_id w \<longleftrightarrow>
     (let A = ap_auth (ds_api (fw_demo w)) in
      jwt_signs (fl_env lib) \<and> timely (fl_env lib) d \<and> demo_hash (fl_env lib) h \<and> users_ok (users A) \<and> new_id \<notin> u_id ` set (users A) \<and>
      ae_hmac (fl_env lib) (dr_raw (d 0)) \<notin> token_hash ` set (refresh_tokens A) \<and> dr_jti (d 0) \<notin> dn_jti ` set (access_denylist A) \<and>
      (\<forall>n \<in> insert new_id (u_id ` set (users A)). fl_bigint lib (show_nat n) = Some (show_nat n)) \<and> \<not> ds_failed (fw_demo w))"

lemma session_started:
  assumes r: "session_ready lib d h new_id w"
  obtains u w' A A' where "files_user h new_id email rl w = (Inr (show_nat (u_id u)), w')"
    "startApi p w' = (Inr (), fworld A (fw_files w) (fw_bucket w) (Some p))"
    "files_login lib (d 0) p email (fworld A (fw_files w) (fw_bucket w) (Some p)) =
      (Inr (session_token lib d u), fworld A' (fw_files w) (fw_bucket w) (Some p))"
    "holds_session lib d A' u"
proof -
  let ?D = "fw_demo w" and ?A = "ap_auth (ds_api (fw_demo w))"
  have r': "users_ok (users ?A)" "new_id \<notin> u_id ` set (users ?A)" "demo_hash (fl_env lib) h"
    "ae_hmac (fl_env lib) (dr_raw (d 0)) \<notin> token_hash ` set (refresh_tokens ?A)" "\<not> ds_failed ?D"
    using r by (simp_all add: session_ready_def Let_def)
  obtain us u where up: "upsert_user h new_id email rl ?D = (Inr (), ?D\<lparr>ds_api := (ds_api ?D)\<lparr>ap_auth := ?A\<lparr>users := us\<rparr>\<rparr>\<rparr>)"
    and us: "users_ok us" "u \<in> set us" "u_email u = email" "u_role u = rl" "u_password_hash u = Some h"
    "u_id ` set us \<subseteq> insert new_id (u_id ` set (users ?A))"
    using upsert_user_known [OF r'(1,2)] by metis
  let ?A1 = "?A\<lparr>users := us\<rparr>"
  let ?w1 = "w\<lparr>fw_demo := ?D\<lparr>ds_api := (ds_api ?D)\<lparr>ap_auth := ?A1\<rparr>\<rparr>\<rparr>"
  let ?A2 = "?A1\<lparr>refresh_tokens := refresh_tokens ?A1 @ [token_row (fl_env lib) (d 0) (next_token_id ?A1) u (dr_fid (d 0))],
      next_token_id := Suc (next_token_id ?A1)\<rparr>"
  have "select_first (\<lambda>u. u_email u = email) us = Some u" using us selected [of u_email us u] by (simp add: users_ok_def)
  then have 1: "files_user h new_id email rl w = (Inr (show_nat (u_id u)), ?w1)"
    by (simp add: files_user_def then_run_def in_demo_def up)
  have 2: "startApi p ?w1 = (Inr (), fworld ?A1 (fw_files w) (fw_bucket w) (Some p))"
    using r'(5) by (cases w; cases "fw_demo w") (simp add: startApi_def fworld_def)
  have "serve_call (fl_env lib) (d 0) (PostLogin email PASSWORD) None \<lparr>ap_auth = ?A1, ap_orders = orders_init, ap_products = products_init\<rparr> =
      ((200, Tokens (pair_for (fl_env lib) (d 0) u (dr_fid (d 0)))), \<lparr>ap_auth = ?A2, ap_orders = orders_init, ap_products = products_init\<rparr>)"
    using login_served [OF _ _ r'(3), of "\<lparr>ap_auth = ?A1, ap_orders = orders_init, ap_products = products_init\<rparr>" email rl u "d 0"] us r'(4)
    by (simp add: known_user_def)
  then have 3: "files_login lib (d 0) p email (fworld ?A1 (fw_files w) (fw_bucket w) (Some p)) =
      (Inr (session_token lib d u), fworld ?A2 (fw_files w) (fw_bucket w) (Some p))"
    by (simp add: files_login_def then_run_def in_demo_def login_as_def call_def pair_for_def) (simp add: fworld_def)
  have "fl_bigint lib (show_nat (u_id u)) = Some (show_nat (u_id u))"
    using r subsetD [OF us(6), of "u_id u"] us(2) unfolding session_ready_def Let_def by blast
  then have 4: "holds_session lib d ?A2 u" using r us(2) by (simp add: holds_session_def session_ready_def Let_def)
  show thesis by (rule that [OF 1 2 3 4])
qed

lemma boot_ready:
  assumes st: "store_documented (fl_bk lib) see (fl_sg lib)" and s: "storageFromEnv getenv = Inr cfg"
    and e: "\<forall>n \<in> set REQUIRED_DB. present (getenv n)"
  obtains b where "files_boot lib getenv True w = (Inr (), w\<lparr>fw_files := [], fw_bucket := b\<rparr>)" "see b = see (fw_bucket w)"
proof -
  have k: "keeps_bucket (fl_bk lib) see" using st by (simp add: store_documented_def)
  obtain b where b: "ensureBucket (fl_bk lib) (fw_bucket w) = (Inr (), b)" "see b = see (fw_bucket w)"
    using ensureBucket_keeps [OF k] by blast
  have swap: "w\<lparr>fw_bucket := b, fw_files := []\<rparr> = w\<lparr>fw_files := [], fw_bucket := b\<rparr>" by simp
  show thesis
    by (rule that [of b]) (use e in \<open>simp_all add: files_boot_def s then_run_def in_bucket_def b filter_empty_conv swap\<close>)
qed

text \<open>A wipe on the bucket of the world.\<close>

lemma wipe_step:
  assumes st: "store_documented (fl_bk lib) see (fl_sg lib)" and fuel: "card (keys_under q (see b)) < fl_fuel lib"
  obtains b' where "\<forall>w. fw_bucket w = b \<longrightarrow> in_bucket (wipe (fl_fuel lib) (fl_bk lib) [q]) w = (Inr (), w\<lparr>fw_bucket := b'\<rparr>)"
    "\<And>k. prefix q k \<Longrightarrow> co_objects (see b') k = None"
proof -
  have k: "keeps_objects (fl_bk lib) see" "keeps_uploads (fl_bk lib) see" using st by (simp_all add: store_documented_def)
  obtain b' where b': "wipe (fl_fuel lib) (fl_bk lib) [q] b = (Inr (), b')"
    "co_objects (see b') = (\<lambda>k. if prefix q k then None else co_objects (see b) k)"
    using wipe_clean [OF k fuel] by blast
  show thesis by (rule that [of b']) (simp_all add: in_bucket_def b')
qed

lemma object_key_prefix: "prefix ''uploads/'' (object_key uid i ext)"
  by (simp add: object_key_def)

text \<open>The run ends with exit code 0: every expectation and invariant of it holds, and it ends.\<close>

theorem upload_demo_passes:
  assumes st: "store_documented (fl_bk lib) see (fl_sg lib)" and ready: "session_ready lib d h new_id w"
    and e: "storageFromEnv getenv = Inr cfg" "\<forall>n \<in> set REQUIRED_DB. present (getenv n)"
    and clock: "urls_last lib d" "waits d" and small: "int BYTES \<le> multipartThreshold (fl_st lib)"
    and ids: "\<forall>j. uuid_shape (dr_fid (d j))" "distinct [dr_fid (d 1), dr_fid (d 6), dr_fid (d 8)]"
    and fuel: "card (keys_under ''uploads/'' (see (fw_bucket w))) < fl_fuel lib" "2 < fl_fuel lib" and ports: "p2 \<noteq> p1"
  shows "files_run lib getenv True (demo_upload lib h new_id d p1 p2) w = 0"
proof -
  obtain b0 where b0: "files_boot lib getenv True w = (Inr (), w\<lparr>fw_files := [], fw_bucket := b0\<rparr>)" "see b0 = see (fw_bucket w)"
    using boot_ready [OF st e] by blast
  obtain b1 where b1: "in_bucket (wipe (fl_fuel lib) (fl_bk lib) [''uploads/'']) (w\<lparr>fw_files := [], fw_bucket := b0\<rparr>) =
      (Inr (), w\<lparr>fw_files := [], fw_bucket := b1\<rparr>)" "\<And>k. prefix ''uploads/'' k \<Longrightarrow> co_objects (see b1) k = None"
    by (rule wipe_step [OF st, of "''uploads/''" b0]) (use fuel(1) b0(2) in \<open>simp_all\<close>)
  have "session_ready lib d h new_id (w\<lparr>fw_files := [], fw_bucket := b1\<rparr>)" using ready by (simp add: session_ready_def)
  then obtain u w' A A' where s: "files_user h new_id UPLOADER customer (w\<lparr>fw_files := [], fw_bucket := b1\<rparr>) = (Inr (show_nat (u_id u)), w')"
    "startApi p1 w' = (Inr (), fworld A [] b1 (Some p1))"
    "files_login lib (d 0) p1 UPLOADER (fworld A [] b1 (Some p1)) = (Inr (session_token lib d u), fworld A' [] b1 (Some p1))"
    "holds_session lib d A' u"
    by (rule session_started [of lib d h new_id _ UPLOADER customer p1]) simp
  let ?r = "png_row u (dr_fid (d 1)) (Some ''demo-upload-1'')"
  note int = demo_intent_passes [OF s(4) small, of p1 b1]
  obtain b2 et where c: "demo_put_commit lib d p1 p2 (session_token lib d u) (Descriptor (png_descriptor lib (dr_appnow (d 1)) ?r)) (fworld A' [?r] b1 (Some p1)) =
      (Inr (), fworld A' [?r\<lparr>f_status := COMPLETED, f_etag := Some et\<rparr>] b2 (Some p2))"
    "see b2 = (see b1)\<lparr>co_objects := (co_objects (see b1))(f_key ?r \<mapsto> (replicate BYTES 117, et))\<rparr>"
    using demo_put_commit_passes [OF s(4) st clock(1) _ ports] ids(1) by blast
  have "co_objects (see b2) (object_key (show_nat (u_id u)) (dr_fid (d 6)) ''png'') = None"
    using ids(2) b1(2) [OF object_key_prefix] by (auto simp: c(2) png_row_def object_key_inj)
  then obtain t b3 x where f: "demo_refusals lib d p2 (session_token lib d u) (fworld A' [?r\<lparr>f_status := COMPLETED, f_etag := Some et\<rparr>] b2 (Some p2)) =
      (Inr (), fworld A' t b3 (Some p2))" "dom (co_objects (see b3)) \<subseteq> insert x (dom (co_objects (see b2)))"
    using demo_refusals_passes [OF s(4) st clock(2) small ids(1), of "?r\<lparr>f_status := COMPLETED, f_etag := Some et\<rparr>" "dr_fid (d 1)" b2 p2] ids(2)
    by (auto simp: png_row_def)
  have "keys_under ''uploads/'' (see b3) \<subseteq> {x, f_key ?r}"
    using f(2) b1(2) by (fastforce simp: keys_under_def c(2))
  then have "card (keys_under ''uploads/'' (see b3)) \<le> card {x, f_key ?r}" by (rule card_mono [rotated]) simp
  also have "\<dots> < fl_fuel lib" using fuel(2) card_insert_le_m1 [of 2 "{f_key ?r}" x] by simp
  finally obtain b4 where b4: "in_bucket (wipe (fl_fuel lib) (fl_bk lib) [''uploads/'']) (fworld A' t b3 None) = (Inr (), fworld A' t b4 None)"
    using wipe_step [OF st, of "''uploads/''" b3] by (metis fworld_simps(4,7))
  show ?thesis
    unfolding files_run_def exit_code_def
    by (simp add: then_run_def b0(1) demo_upload_def b1(1) s(1-3) int ids c(1) f(1) b4 del: One_nat_def)
qed

end
