(* ===== verification/MultipartDemo.thy ===== *)
theory MultipartDemo
  imports FileDemos
begin

text \<open>
  The acceptance run of the resumed upload, \<open>src/demo-multipart.ts\<close>, and its client,
  \<open>src/files/client-mpu.ts\<close>: a process that is killed after two of three parts, and a
  second one that asks the service what is missing.
\<close>

subsection \<open>The client\<close>

text \<open>The lines the client prints.\<close>

datatype client_line = ID string | PART int | DIE | HAVE "nat list" | REUPLOAD int

definition part_body :: "int \<Rightarrow> int \<Rightarrow> nat list" where
  "part_body n len = replicate (nat len) (nat (96 + n))"

text \<open>The parts one after the other, until one fails or the process kills itself; the flag says whether it ended well.\<close>

fun put_parts :: "('priv, 'pub, 'b) files_lib \<Rightarrow> rat \<Rightarrow> (int \<Rightarrow> client_line) \<Rightarrow> int option \<Rightarrow> part_info list \<Rightarrow> client_line list \<Rightarrow>
    'b files_world \<Rightarrow> (client_line list \<times> bool) \<times> 'b files_world" where
  "put_parts lib now line dieAfter [] out w = ((out, True), w)"
| "put_parts lib now line dieAfter (p # ps) out w =
     (case bk_put (fl_bk lib) (pi_url p) None (part_body (pi_number p) (pi_length p)) now (fw_bucket w) of
        (st, b) \<Rightarrow>
          if st \<noteq> 200 then ((out, False), w\<lparr>fw_bucket := b\<rparr>)
          else if (case dieAfter of None \<Rightarrow> False | Some n \<Rightarrow> n \<le> pi_number p)
          then ((out @ [line (pi_number p), DIE], False), w\<lparr>fw_bucket := b\<rparr>)
          else put_parts lib now line dieAfter ps (out @ [line (pi_number p)]) (w\<lparr>fw_bucket := b\<rparr>))"

definition big_intent :: "int \<Rightarrow> json" where
  "big_intent size' = JObj [(''filename'', JStr ''big.bin''), (''contentType'', JStr ''application/octet-stream''), (''size'', JNum (of_int size'))]"

text \<open>The output of the first process; the run does not ask how it ended.\<close>

definition client_start :: "('priv, 'pub, 'b) files_lib \<Rightarrow> draws \<Rightarrow> rat \<Rightarrow> nat \<Rightarrow> string \<Rightarrow> int \<Rightarrow> int \<Rightarrow> 'b files_world \<Rightarrow>
    client_line list res \<times> 'b files_world" where
  "client_start lib d now base token size' dieAfter w =
     (case files_call lib d base (PostIntent (big_intent size') None) token w of
        (Inr (status, Descriptor d'), w') \<Rightarrow>
          if status < 200 \<or> 300 \<le> status then (Inr [], w')
          else (case ud_body d' of
             Multipart _ _ _ ps \<Rightarrow>
               (let (r, w'') = put_parts lib now PART (Some dieAfter) ps [ID (ud_id d')] w' in (Inr (fst r), w''))
           | SinglePut _ _ \<Rightarrow> (Inr [ID (ud_id d')], w'))
      | (_, w') \<Rightarrow> (Inr [], w'))"

text \<open>The second process: a failure makes its exit code, and the run, fail.\<close>

definition client_resume :: "('priv, 'pub, 'b) files_lib \<Rightarrow> draws \<Rightarrow> rat \<Rightarrow> nat \<Rightarrow> string \<Rightarrow> string \<Rightarrow> 'b files_world \<Rightarrow>
    client_line list res \<times> 'b files_world" where
  "client_resume lib d now base token i w =
     (case files_call lib d base (GetParts i) token w of
        (Inr (status, PartsView v), w') \<Rightarrow>
          if status < 200 \<or> 300 \<le> status then (Inl (Error ''GET parts''), w')
          else (case put_parts lib now REUPLOAD None (pv_missing v) [HAVE (map fst (pv_uploaded v))] w' of
             ((out, True), w'') \<Rightarrow> (Inr out, w'')
           | ((out, False), w'') \<Rightarrow> (Inl (Error ''PUT part''), w''))
      | (_, w') \<Rightarrow> (Inl (Error ''GET parts''), w'))"

subsection \<open>demo:multipart\<close>

definition FILE_TOTAL :: int where "FILE_TOTAL = 11 * MIB"

definition MPU_USER :: string where "MPU_USER = ''demo-mpu@files.test''"

definition headStatus :: "('priv, 'pub, 'b) files_lib \<Rightarrow> string \<Rightarrow> 'b files_world \<Rightarrow> nat" where
  "headStatus lib key w = (case bk_head (fl_bk lib) key (fw_bucket w) of Inl e \<Rightarrow> nat (errStatus e) | Inr _ \<Rightarrow> 200)"

fun id_line :: "client_line list \<Rightarrow> string" where
  "id_line [] = ''''"
| "id_line (ID i # ls) = i"
| "id_line (_ # ls) = id_line ls"

fun is_part :: "client_line \<Rightarrow> bool" where
  "is_part (PART _) = True"
| "is_part _ = False"

fun is_reupload :: "client_line \<Rightarrow> bool" where
  "is_reupload (REUPLOAD _) = True"
| "is_reupload _ = False"

text \<open>Postgres refuses a text that is no UUID; without a row the key is empty.\<close>

definition key_of_file :: "string \<Rightarrow> 'b files_world \<Rightarrow> string res \<times> 'b files_world" where
  "key_of_file i w =
     (if \<not> uuid_shape i then Inl (DbError ''22P02'')
      else Inr (case select_first (\<lambda>r. f_id r = i) (fw_files w) of None \<Rightarrow> '''' | Some r \<Rightarrow> f_key r), w)"

definition multipart_etag :: "(nat list \<Rightarrow> string) \<Rightarrow> int \<Rightarrow> string option \<Rightarrow> bool" where
  "multipart_etag md5 partSize et \<longleftrightarrow>
     (let whole = concat (map (\<lambda>n. part_body n (partLength FILE_TOTAL partSize n)) [1, 2, 3]);
          etag = unquoted (case et of None \<Rightarrow> '''' | Some e \<Rightarrow> e)
      in suffix ''-3'' etag \<and> etag \<noteq> md5 whole)"

text \<open>The two processes.\<close>

definition demo_two_clients :: "('priv, 'pub, 'b) files_lib \<Rightarrow> (nat \<Rightarrow> draws) \<Rightarrow> nat \<Rightarrow> string \<Rightarrow> 'b files_world \<Rightarrow>
    (string \<times> string) res \<times> 'b files_world" where
  "demo_two_clients lib d p token =
     then_run (client_start lib (d 1) (dr_appnow (d 2)) p token FILE_TOTAL 2) (\<lambda>out.
     (let i = id_line out in
     then_run (files_invariant (\<lambda>_. DIE \<in> set out \<and> length (filter is_part out) = 2)) (\<lambda>_.
     then_run (key_of_file i) (\<lambda>key.
     then_run (\<lambda>w. files_expect (headStatus lib key w) [404] w) (\<lambda>_.
     then_run (client_resume lib (d 3) (dr_appnow (d 4)) p token i) (\<lambda>out'.
     then_run (files_expect (length (filter is_reupload out')) [1]) (\<lambda>_.
     then_run (files_invariant (\<lambda>_. HAVE [1, 2] \<in> set out')) (\<lambda>_ w. (Inr (i, key), w)))))))))"

definition demo_complete :: "('priv, 'pub, 'b) files_lib \<Rightarrow> (nat list \<Rightarrow> string) \<Rightarrow> draws \<Rightarrow> nat \<Rightarrow> string \<Rightarrow> int \<Rightarrow> string \<Rightarrow> string \<Rightarrow>
    'b files_world \<Rightarrow> unit res \<times> 'b files_world" where
  "demo_complete lib md5 d p token partSize i key =
     then_run (files_call lib d p (PostCommit i) token) (\<lambda>(status, _).
     then_run (files_expect status [200]) (\<lambda>_ w.
     (case bk_head (fl_bk lib) key (fw_bucket w) of
        Inl e \<Rightarrow> (Inl (Error (errName e)), w)
      | Inr (len, et) \<Rightarrow>
          then_run (files_expect (bool_num (len = Some FILE_TOTAL)) [1]) (\<lambda>_.
          files_expect (bool_num (multipart_etag md5 partSize et)) [1]) w)))"

definition demo_multipart :: "('priv, 'pub, 'b) files_lib \<Rightarrow> (nat list \<Rightarrow> string) \<Rightarrow> string \<Rightarrow> nat \<Rightarrow> (nat \<Rightarrow> draws) \<Rightarrow> nat \<Rightarrow>
    'b files_world \<Rightarrow> unit res \<times> 'b files_world" where
  "demo_multipart lib md5 hash new_id d p =
     then_run (in_bucket (wipe (fl_fuel lib) (fl_bk lib) [''uploads/''])) (\<lambda>_.
     then_run (files_user hash new_id MPU_USER customer) (\<lambda>_.
     then_run (startApi p) (\<lambda>_.
     then_run (files_login lib (d 0) p MPU_USER) (\<lambda>token.
     then_run (\<lambda>w. (computePartSize FILE_TOTAL, w)) (\<lambda>partSize.
     then_run (files_invariant (\<lambda>_. partSize = 5 * MIB \<and> partCount FILE_TOTAL partSize = 3)) (\<lambda>_.
     then_run (demo_two_clients lib d p token) (\<lambda>(i, key).
     then_run (demo_complete lib md5 (d 5) p token partSize i key) (\<lambda>_.
     then_run stopApi (\<lambda>_.
     then_run (in_bucket (wipe (fl_fuel lib) (fl_bk lib) [''uploads/''])) (\<lambda>_. truncate_files))))))))))"

subsection \<open>The plan of 11 MiB\<close>

definition PS :: int where "PS = 5 * MIB"

lemma total_plan:
  "computePartSize FILE_TOTAL = Inr PS" "partCount FILE_TOTAL PS = 3" "[1 .. 3] = [1, 2, 3 :: int]"
  "partLength FILE_TOTAL PS 1 = PS" "partLength FILE_TOTAL PS 2 = PS" "partLength FILE_TOTAL PS 3 = MIB"
proof -
  show c: "computePartSize FILE_TOTAL = Inr PS" "partCount FILE_TOTAL PS = 3" by code_simp+
  show "[1 .. 3] = [1, 2, 3 :: int]" by code_simp
qed (simp_all add: partLength_def FILE_TOTAL_def PS_def MIB_def)

lemma length_part_body: "0 \<le> len \<Longrightarrow> int (length (part_body n len)) = len"
  by (simp add: part_body_def)

subsection \<open>The first process\<close>

definition bin_row :: "user_row \<Rightarrow> string \<Rightarrow> string \<Rightarrow> file_row" where
  "bin_row u i up = \<lparr>f_id = i, f_key = object_key (show_nat (u_id u)) i ''bin'', f_owner = show_nat (u_id u), f_status = PENDING,
     f_content_type = ''application/octet-stream'', f_size = FILE_TOTAL, f_upload_id = Some up, f_etag = None, f_idempotency_key = None\<rparr>"

definition part_at :: "('priv, 'pub, 'b) files_lib \<Rightarrow> rat \<Rightarrow> string \<Rightarrow> string \<Rightarrow> int \<Rightarrow> part_info" where
  "part_at lib now key up n = \<lparr>pi_number = n, pi_length = partLength FILE_TOTAL PS n,
     pi_url = sign_part (fl_sg lib now) key up n (partExpires (fl_st lib))\<rparr>"

definition stored :: "int \<Rightarrow> string \<Rightarrow> stored_part" where
  "stored n et = \<lparr>sp_number = nat n, sp_body = part_body n (partLength FILE_TOTAL PS n), sp_etag = et\<rparr>"

lemma stored_simps [simp]:
  "sp_number (stored n et) = nat n" "sp_etag (stored n et) = et" "sp_body (stored n et) = part_body n (partLength FILE_TOTAL PS n)"
  by (simp_all add: stored_def)

lemma part_infos_at:
  "part_infos (storage_at lib now b) (bin_row u i up) up PS ns = map (part_at lib now (f_key (bin_row u i up)) up) ns"
  by (simp add: part_infos_def part_at_def presignPart_def bin_row_def)

lemma parse_big: "parse_intent (big_intent FILE_TOTAL) = Some (''application/octet-stream'', FILE_TOTAL)"
proof -
  have "js_is_integer (Num 11534336)" by code_simp
  then show ?thesis by (simp add: parse_intent_def big_intent_def FILE_TOTAL_def CONTENT_TYPES_def limit_defs js_length_def)
qed

lemma start_answer:
  assumes "keeps_uploads bk see"
  shows "\<exists>u b'. bk_start bk k ct b = Inr (u, b') \<and> u \<noteq> '''' \<and> see b' = (see b)\<lparr>co_uploads := (co_uploads (see b))((k, u) \<mapsto> [])\<rparr>"
  using assms unfolding keeps_uploads_def by metis

lemma part_answer:
  assumes "honours_urls bk see sg" "in_force t e now" "1 \<le> n" "n \<le> MAX_PARTS" "co_uploads (see b) (k, u) = Some ps"
  shows "\<exists>b' et. bk_put bk (sign_part (sg t) k u n e) None body now b = (200, b') \<and>
    see b' = (see b)\<lparr>co_uploads := (co_uploads (see b))((k, u) \<mapsto> put_part \<lparr>sp_number = nat n, sp_body = body, sp_etag = et\<rparr> ps)\<rparr>"
  using assms unfolding honours_urls_def by metis

lemma intent_multipart:
  assumes s: "holds_session lib d A u" and k: "keeps_uploads (fl_bk lib) see" and big: "multipartThreshold (fl_st lib) < FILE_TOTAL"
  obtains up b' D where
    "handle_files lib (d j) (PostIntent (big_intent FILE_TOTAL) None) (session_user lib d u) (fworld A [] b p) =
      ((200, Descriptor D), fworld A [bin_row u (dr_fid (d j)) up] b' p)"
    "up \<noteq> ''''" "ud_id D = dr_fid (d j)"
    "ud_body D = Multipart up PS 3 (map (part_at lib (dr_appnow (d j)) (object_key (show_nat (u_id u)) (dr_fid (d j)) ''bin'') up) [1, 2, 3])"
    "co_objects (see b') = co_objects (see b)"
    "co_uploads (see b') (object_key (show_nat (u_id u)) (dr_fid (d j)) ''bin'', up) = Some []"
proof -
  let ?env = "files_env_at lib (dr_appnow (d j)) (fworld A [] b p)" and ?uid = "show_nat (u_id u)" and ?i = "dr_fid (d j)"
  let ?k = "object_key ?uid ?i ''bin''" and ?ct = "''application/octet-stream''"
  obtain up b' where up: "bk_start (fl_bk lib) ?k ?ct b = Inr (up, b')" "up \<noteq> ''''"
    "see b' = (see b)\<lparr>co_uploads := (co_uploads (see b))((?k, up) \<mapsto> [])\<rparr>"
    using start_answer [OF k] by blast
  let ?row = "bin_row u ?i up"
  have uid: "fl_bigint lib ?uid = Some ?uid" "?uid \<in> set (fe_users ?env)" using s by (auto simp: holds_session_def files_env_at_def)
  have env: "fe_storage ?env = storage_at lib (dr_appnow (d j)) b" "fe_bigint ?env = fl_bigint lib" by (simp_all add: files_env_at_def)
  have ext: "map_of CONTENT_TYPES ?ct = Some ''bin''" by (simp add: CONTENT_TYPES_def)
  have create: "s3_create (s3_at (fl_bk lib) b) ?k ?ct = Inr up" by (simp add: s3_at_def up(1))
  let ?D = "\<lparr>ud_id = ?i, ud_key = ?k, ud_status = PENDING, ud_expires_in = partExpires (fl_st lib),
     ud_body = Multipart up PS 3 (map (part_at lib (dr_appnow (d j)) ?k up) [1, 2, 3])\<rparr>"
  have row: "truthy (f_upload_id ?row) = Some up" "f_size ?row = FILE_TOTAL" "f_id ?row = ?i" "f_key ?row = ?k" "f_status ?row = PENDING"
    using up(2) by (simp_all add: bin_row_def)
  have "insert_file ?env ?uid ?row [] = (Inr ?row, [?row])"
    using uid(2) by (simp add: insert_file_def env uid(1) bin_row_def FILE_TOTAL_def MIB_def)
  moreover have "describe (storage_at lib (dr_appnow (d j)) b) ?row = Inr ?D"
    using part_infos_at [of lib "dr_appnow (d j)" b u ?i up "[1, 2, 3]"]
    by (simp add: describe_def row total_plan Let_def)
  ultimately have "store_intent ?env ?uid None (Some up) ?row [] = (Inr ?D, [?row], [])" by (simp add: store_intent_def env)
  then have "new_intent ?env ?i (\<lambda>t. t) (session_user lib d u) ?ct FILE_TOTAL None [] = (Inr ?D, [?row], [])"
    using big by (simp add: new_intent_def env ext create bin_row_def Let_def)
  moreover have "intent_starts ?env ?i (session_user lib d u) (big_intent FILE_TOTAL) None [] = Some (?k, ?ct)"
    using big by (simp add: intent_starts_def parse_big env ext)
  ultimately have h: "handle_files lib (d j) (PostIntent (big_intent FILE_TOTAL) None) (session_user lib d u) (fworld A [] b p) =
      ((200, Descriptor ?D), fworld A [?row] b' p)"
    by (simp add: handle_files_def intent_def parse_big files_answer_def intent_bucket_def Let_def up(1))
  show thesis by (rule that [OF h up(2)]) (simp_all add: up(3))
qed

lemma put_part_step:
  assumes h: "honours_urls (fl_bk lib) see (fl_sg lib)" and t: "in_force t (partExpires (fl_st lib)) now" and n: "n \<in> {1, 2, 3}"
    and ps: "co_uploads (see b) (k, up) = Some ps"
  obtains b' et where
    "bk_put (fl_bk lib) (pi_url (part_at lib t k up n)) None (part_body (pi_number (part_at lib t k up n)) (pi_length (part_at lib t k up n))) now b = (200, b')"
    "co_objects (see b') = co_objects (see b)" "co_uploads (see b') (k, up) = Some (put_part (stored n et) ps)"
proof -
  have n': "1 \<le> n" "n \<le> MAX_PARTS" using n by (auto simp: MAX_PARTS_def)
  obtain b' et where b': "bk_put (fl_bk lib) (sign_part (fl_sg lib t) k up n (partExpires (fl_st lib))) None (part_body n (partLength FILE_TOTAL PS n)) now b = (200, b')"
    "see b' = (see b)\<lparr>co_uploads := (co_uploads (see b))((k, up) \<mapsto>
       put_part \<lparr>sp_number = nat n, sp_body = part_body n (partLength FILE_TOTAL PS n), sp_etag = et\<rparr> ps)\<rparr>"
    using part_answer [OF h t n' ps] by blast
  show thesis by (rule that [of b' et]) (simp_all add: part_at_def b' stored_def)
qed

text \<open>The first process stores two parts and dies; the object is not there.\<close>

lemma first_process:
  assumes h: "honours_urls (fl_bk lib) see (fl_sg lib)" and t: "in_force now0 (partExpires (fl_st lib)) now"
    and ps: "co_uploads (see b) (k, up) = Some []"
  obtains b' e1 e2 where
    "put_parts lib now PART (Some 2) (map (part_at lib now0 k up) [1, 2, 3]) [ID i] (fworld A t b p) =
      (([ID i, PART 1, PART 2, DIE], False), fworld A t b' p)"
    "co_objects (see b') = co_objects (see b)" "co_uploads (see b') (k, up) = Some [stored 1 e1, stored 2 e2]"
proof -
  obtain b1 e1 where 1: "bk_put (fl_bk lib) (pi_url (part_at lib now0 k up 1)) None
      (part_body (pi_number (part_at lib now0 k up 1)) (pi_length (part_at lib now0 k up 1))) now b = (200, b1)"
    "co_objects (see b1) = co_objects (see b)" "co_uploads (see b1) (k, up) = Some (put_part (stored 1 e1) [])"
    by (rule put_part_step [OF h t _ ps, of 1]) simp_all
  obtain b2 e2 where 2: "bk_put (fl_bk lib) (pi_url (part_at lib now0 k up 2)) None
      (part_body (pi_number (part_at lib now0 k up 2)) (pi_length (part_at lib now0 k up 2))) now b1 = (200, b2)"
    "co_objects (see b2) = co_objects (see b1)" "co_uploads (see b2) (k, up) = Some (put_part (stored 2 e2) (put_part (stored 1 e1) []))"
    by (rule put_part_step [OF h t _ 1(3), of 2]) simp_all
  have n: "pi_number (part_at lib now0 k up m) = m" for m by (simp add: part_at_def)
  show thesis
    by (rule that [of b2 e1 e2]) (use 1 2 in \<open>simp_all add: n put_part_def del: One_nat_def\<close>)
qed

subsection \<open>The second process\<close>

lemma listing:
  assumes k: "keeps_uploads (fl_bk lib) see" and ps: "co_uploads (see b) (f_key row, up) = Some ps" and fuel: "length ps < fuel"
  shows "listAllParts fuel (s3_at (fl_bk lib) b) row up None [] = Some (Inr (map listed ps))"
proof -
  have "pages_of (s3_at (fl_bk lib) b) (f_key row) up (map listed ps)" using k ps unfolding keeps_uploads_def by metis
  then show ?thesis using fuel by (intro listAllParts_all) simp_all
qed

lemma part_lengths_pos: "n \<in> {1, 2, 3} \<Longrightarrow> 0 \<le> partLength FILE_TOTAL PS n"
  by (auto simp: partLength_def FILE_TOTAL_def PS_def MIB_def)

lemma listed_stored [simp]:
  "n \<in> {1, 2, 3} \<Longrightarrow> PartNumber (listed (stored n et)) = nat n" "n \<in> {1, 2, 3} \<Longrightarrow> ETag (listed (stored n et)) = Some et"
  "n \<in> {1, 2, 3} \<Longrightarrow> Size (listed (stored n et)) = Some (partLength FILE_TOTAL PS n)"
  "n \<in> {1, 2, 3} \<Longrightarrow> good_part FILE_TOTAL PS (listed (stored n et))"
proof -
  assume n: "n \<in> {1, 2, 3}"
  then show "PartNumber (listed (stored n et)) = nat n" "ETag (listed (stored n et)) = Some et"
    "Size (listed (stored n et)) = Some (partLength FILE_TOTAL PS n)" "good_part FILE_TOTAL PS (listed (stored n et))"
    using n part_lengths_pos [OF n] by (auto simp: listed_def length_part_body good_part_def)
qed

lemma parts_of_two:
  assumes k: "keeps_uploads (fl_bk lib) see" and own: "owned [bin_row u i up] i user = Inr (bin_row u i up)" and up: "up \<noteq> ''''"
    and ps: "co_uploads (see b) (f_key (bin_row u i up), up) = Some [stored 1 e1, stored 2 e2]" and fuel: "2 < fuel"
  obtains v where "parts fuel (storage_at lib now b) user i [bin_row u i up] = Some (Inr v)"
    "map fst (pv_uploaded v) = [1, 2]" "pv_missing v = [part_at lib now (f_key (bin_row u i up)) up 3]"
proof -
  let ?row = "bin_row u i up" and ?ps = "[listed (stored 1 e1), listed (stored 2 e2)]"
  have row: "truthy (f_upload_id ?row) = Some up" "f_size ?row = FILE_TOTAL" "f_status ?row = PENDING" using up by (simp_all add: bin_row_def)
  have l: "listAllParts fuel (s3_at (fl_bk lib) b) ?row up None [] = Some (Inr ?ps)" using listing [OF k ps] fuel by simp
  have good: "good_parts FILE_TOTAL PS ?ps = [(1, listed (stored 1 e1)), (2, listed (stored 2 e2))]"
    by (simp add: good_parts_def map_set_def)
  let ?v = "\<lparr>pv_part_size = PS, pv_part_count = 3, pv_uploaded = [(1, Some PS), (2, Some PS)],
    pv_missing = part_infos (storage_at lib now b) ?row up PS [3], pv_expires_in = partExpires (fl_st lib)\<rparr>"
  have "parts fuel (storage_at lib now b) user i [?row] = Some (Inr ?v)"
    by (simp add: parts_def own row total_plan l good Let_def)
  then show thesis by (rule that) (simp_all add: part_infos_at)
qed

lemma second_process:
  assumes s: "holds_session lib d A u" and st: "store_documented (fl_bk lib) see (fl_sg lib)" and i: "uuid_shape i" and up: "up \<noteq> ''''"
    and ps: "co_uploads (see b) (f_key (bin_row u i up), up) = Some [stored 1 e1, stored 2 e2]" and fuel: "2 < fl_fuel lib"
    and t: "in_force (dr_appnow (d j)) (partExpires (fl_st lib)) now"
  obtains b' e3 where "client_resume lib (d j) now p (session_token lib d u) i (fworld A [bin_row u i up] b (Some p)) =
      (Inr [HAVE [1, 2], REUPLOAD 3], fworld A [bin_row u i up] b' (Some p))"
    "co_objects (see b') = co_objects (see b)"
    "co_uploads (see b') (f_key (bin_row u i up), up) = Some [stored 1 e1, stored 2 e2, stored 3 e3]"
proof -
  let ?row = "bin_row u i up" and ?k = "f_key (bin_row u i up)"
  have k: "keeps_uploads (fl_bk lib) see" and h: "honours_urls (fl_bk lib) see (fl_sg lib)" using st by (simp_all add: store_documented_def)
  have own: "owned [?row] i (session_user lib d u) = Inr ?row" using i by (simp add: owned_row_Inr select_first_def bin_row_def)
  obtain v where v: "parts (fl_fuel lib) (storage_at lib (dr_appnow (d j)) b) (session_user lib d u) i [?row] = Some (Inr v)"
    "map fst (pv_uploaded v) = [1, 2]" "pv_missing v = [part_at lib (dr_appnow (d j)) ?k up 3]"
    by (rule parts_of_two [OF k own up ps fuel])
  have g: "handle_files lib (d j) (GetParts i) (session_user lib d u) (fworld A [?row] b (Some p)) =
      ((200, PartsView v), fworld A [?row] b (Some p))"
    using v(1) by (simp add: handle_files_def files_env_at_def files_answer_def Let_def)
  obtain b' e3 where 3: "bk_put (fl_bk lib) (pi_url (part_at lib (dr_appnow (d j)) ?k up 3)) None
      (part_body (pi_number (part_at lib (dr_appnow (d j)) ?k up 3)) (pi_length (part_at lib (dr_appnow (d j)) ?k up 3))) now b = (200, b')"
    "co_objects (see b') = co_objects (see b)" "co_uploads (see b') (?k, up) = Some (put_part (stored 3 e3) [stored 1 e1, stored 2 e2])"
    by (rule put_part_step [OF h t _ ps, of 3]) simp_all
  have n: "pi_number (part_at lib now k up m) = m" for now k m by (simp add: part_at_def)
  show thesis
    by (rule that [of b' e3])
      (use 3 v(2,3) in \<open>simp_all add: client_resume_def files_served [OF s] g n put_part_def del: One_nat_def\<close>)
qed

subsection \<open>The commit\<close>

lemma assemble_complete:
  assumes "computePartSize (f_size row) = Inr p" "listAllParts fuel (st_s3 st) row u None [] = Some (Inr ps)"
    and "missing_parts (f_size row) p ps = []"
    and "s3_complete (st_s3 st) (f_key row) u (map (\<lambda>q. (PartNumber q, ETag q)) (sort_key PartNumber (filter (good_part (f_size row) p) ps))) = Inr ()"
  shows "assemble fuel st row u = Some (Inr ())"
  using assms by (simp add: assemble_def Let_def missing_parts_def)

lemma listAllParts_head: "listAllParts fuel (s\<lparr>s3_head := hd'\<rparr>) row u m out = listAllParts fuel s row u m out"
  by (induction fuel arbitrary: m out) (simp_all add: Let_def split: sum.split)

lemma complete_answer:
  assumes "keeps_uploads bk see" "co_uploads (see b) (k, u) = Some ps" "ps \<noteq> []"
    and "\<forall>p \<in> set (butlast ps). MIN_PART \<le> int (length (sp_body p))"
  shows "\<exists>b' et x. bk_complete bk k u (map (\<lambda>p. (sp_number p, Some (sp_etag p))) ps) b = Inr b' \<and>
    co_objects (see b') = (co_objects (see b))(k \<mapsto> (concat (map sp_body ps), et)) \<and> unquoted et = x @ ''-'' @ show_nat (length ps)"
proof -
  have "\<forall>b k u ps. co_uploads (see b) (k, u) = Some ps \<longrightarrow> ps \<noteq> [] \<longrightarrow>
        (\<forall>p \<in> set (butlast ps). MIN_PART \<le> int (length (sp_body p))) \<longrightarrow>
        (\<exists>b' et x. bk_complete bk k u (map (\<lambda>p. (sp_number p, Some (sp_etag p))) ps) b = Inr b' \<and>
           see b' = \<lparr>co_objects = (co_objects (see b))(k \<mapsto> (concat (map sp_body ps), et)),
             co_uploads = (co_uploads (see b))((k, u) := None)\<rparr> \<and>
           unquoted et = x @ ''-'' @ show_nat (length ps))"
    using assms(1) unfolding keeps_uploads_def by (elim conjE)
  from this [rule_format, OF assms(2,3)] assms(4)
  obtain b' et x where "bk_complete bk k u (map (\<lambda>p. (sp_number p, Some (sp_etag p))) ps) b = Inr b'"
    "see b' = \<lparr>co_objects = (co_objects (see b))(k \<mapsto> (concat (map sp_body ps), et)), co_uploads = (co_uploads (see b))((k, u) := None)\<rparr>"
    "unquoted et = x @ ''-'' @ show_nat (length ps)" by blast
  then show ?thesis by (intro exI [of _ b'] exI [of _ et] exI [of _ x]) simp
qed

lemma commit_three:
  assumes s: "holds_session lib d A u" and st: "store_documented (fl_bk lib) see (fl_sg lib)" and i: "uuid_shape i" and up: "up \<noteq> ''''"
    and ps: "co_uploads (see b) (f_key (bin_row u i up), up) = Some [stored 1 e1, stored 2 e2, stored 3 e3]" and fuel: "3 < fl_fuel lib"
  obtains b' v r body et x where "handle_files lib (d j) (PostCommit i) (session_user lib d u) (fworld A [bin_row u i up] b (Some p)) =
      ((200, FileView v), fworld A [r] b' (Some p))"
    "co_objects (see b') = (co_objects (see b))(f_key (bin_row u i up) \<mapsto> (body, et))" "int (length body) = FILE_TOTAL" "unquoted et = x @ ''-3''"
proof -
  let ?row = "bin_row u i up" and ?k = "f_key (bin_row u i up)" and ?u = "session_user lib d u"
  let ?ps = "[stored 1 e1, stored 2 e2, stored 3 e3]" and ?st = "storage_at lib (dr_appnow (d j)) b"
  have k: "keeps_uploads (fl_bk lib) see" and o': "keeps_objects (fl_bk lib) see" using st by (simp_all add: store_documented_def)
  have own: "owned [?row] i ?u = Inr ?row" using i by (simp add: owned_row_Inr select_first_def bin_row_def)
  have row: "truthy (f_upload_id ?row) = Some up" "f_size ?row = FILE_TOTAL" "f_status ?row = PENDING" "f_id ?row = i"
    using up by (simp_all add: bin_row_def)
  have l: "listAllParts (fl_fuel lib) (s3_at (fl_bk lib) b) ?row up None [] = Some (Inr (map listed ?ps))" using listing [OF k ps] fuel by simp
  have len: "int (length (part_body n (partLength FILE_TOTAL PS n))) = partLength FILE_TOTAL PS n" if "n \<in> {1, 2, 3}" for n
    using length_part_body [OF part_lengths_pos [OF that]] .
  have "\<forall>p \<in> set (butlast ?ps). MIN_PART \<le> int (length (sp_body p))"
    using len [of 1] len [of 2] by (simp add: total_plan) (simp add: PS_def MIN_PART_def)
  then obtain b' et x where b': "bk_complete (fl_bk lib) ?k up (map (\<lambda>p. (sp_number p, Some (sp_etag p))) ?ps) b = Inr b'"
    "co_objects (see b') = (co_objects (see b))(?k \<mapsto> (concat (map sp_body ?ps), et))" "unquoted et = x @ ''-'' @ show_nat (length ?ps)"
    using complete_answer [OF k ps] by blast
  let ?req = "[(1, Some e1), (2, Some e2), (3, Some e3)] :: (nat \<times> string option) list"
  have req: "map (\<lambda>p. (sp_number p, Some (sp_etag p))) ?ps = ?req" by simp
  have none: "missing_parts FILE_TOTAL PS (map listed ?ps) = []" by (simp add: missing_parts_def total_plan)
  have sorted: "map (\<lambda>q. (PartNumber q, ETag q)) (sort_key PartNumber (filter (good_part FILE_TOTAL PS) (map listed ?ps))) = ?req" by simp
  have body: "int (length (concat (map sp_body ?ps))) = FILE_TOTAL"
    using len [of 1] len [of 2] len [of 3] by (simp add: total_plan) (simp add: PS_def FILE_TOTAL_def)
  have c: "commit_completes (fl_fuel lib) ?st ?u i [?row] = Some (?k, up, ?req)"
    using none sorted by (simp add: commit_completes_def own row total_plan l)
  have s3c: "s3_complete (s3_at (fl_bk lib) b) ?k up ?req = Inr ()" using b'(1) unfolding req by (simp add: s3_at_def)
  have asm: "assemble (fl_fuel lib) seen ?row up = Some (Inr ())" if "st_s3 seen = (s3_at (fl_bk lib) b)\<lparr>s3_head := hd'\<rparr>" for seen hd'
  proof (rule assemble_complete)
    show "listAllParts (fl_fuel lib) (st_s3 seen) ?row up None [] = Some (Inr (map listed ?ps))" by (simp only: that listAllParts_head l)
    show "computePartSize (f_size ?row) = Inr PS" "missing_parts (f_size ?row) PS (map listed ?ps) = []"
      by (simp_all only: row total_plan none)
    show "s3_complete (st_s3 seen) (f_key ?row) up
        (map (\<lambda>q. (PartNumber q, ETag q)) (sort_key PartNumber (filter (good_part (f_size ?row) PS) (map listed ?ps)))) = Inr ()"
      unfolding row(2) sorted that using s3c by simp
  qed
  let ?seen = "?st\<lparr>st_s3 := (s3_at (fl_bk lib) b)\<lparr>s3_head := s3_head (s3_at (fl_bk lib) b')\<rparr>\<rparr>"
  let ?r = "?row\<lparr>f_status := COMPLETED, f_etag := Some et\<rparr>"
  have hd: "bk_head (fl_bk lib) ?k b' = Inr (Some FILE_TOTAL, Some et)"
    using head_answer(2) [OF o', of b' ?k "concat (map sp_body ?ps)" et] body b'(2) by simp
  have "check_object ?seen (\<lambda>t. t) ?row [?row] = (Inr (view ?r), [?r])"
    by (simp add: check_object_def s3_at_def hd row complete_row_def select_first_def Let_def)
  then have com: "commit (fl_fuel lib) ?seen (\<lambda>t. t) ?u i [?row] = Some (Inr (view ?r), [?r])"
    using asm [of ?seen] by (simp add: commit_def own row)
  have "handle_files lib (d j) (PostCommit i) ?u (fworld A [?row] b (Some p)) = ((200, FileView (view ?r)), fworld A [?r] b' (Some p))"
    using b'(1) unfolding req by (simp add: handle_files_def files_env_at_def c com commit_bucket_def files_answer_def Let_def)
  moreover have "show_nat (Suc (Suc (Suc 0))) = ''3''" by code_simp
  then have "unquoted et = x @ ''-3''" using b'(3) by simp
  ultimately show thesis using that b'(2) body by blast
qed

subsection \<open>The run passes\<close>

lemma two_clients:
  assumes s: "holds_session lib d A u" and st: "store_documented (fl_bk lib) see (fl_sg lib)" and t: "urls_last lib d"
    and ids: "uuid_shape (dr_fid (d 1))" and big: "multipartThreshold (fl_st lib) < FILE_TOTAL" and fuel: "2 < fl_fuel lib"
    and free: "\<And>k. prefix ''uploads/'' k \<Longrightarrow> co_objects (see b) k = None"
  obtains up b' e1 e2 e3 where "up \<noteq> ''''"
    "demo_two_clients lib d p (session_token lib d u) (fworld A [] b (Some p)) =
      (Inr (dr_fid (d 1), f_key (bin_row u (dr_fid (d 1)) up)), fworld A [bin_row u (dr_fid (d 1)) up] b' (Some p))"
    "co_objects (see b') = co_objects (see b)"
    "co_uploads (see b') (f_key (bin_row u (dr_fid (d 1)) up), up) = Some [stored 1 e1, stored 2 e2, stored 3 e3]"
proof -
  let ?i = "dr_fid (d 1)" and ?tok = "session_token lib d u" and ?u = "session_user lib d u"
  have k: "keeps_uploads (fl_bk lib) see" and h: "honours_urls (fl_bk lib) see (fl_sg lib)" and o': "keeps_objects (fl_bk lib) see"
    using st by (simp_all add: store_documented_def)
  have e: "in_force (dr_appnow (d 1)) (partExpires (fl_st lib)) (dr_appnow (d 2))" "in_force (dr_appnow (d 3)) (partExpires (fl_st lib)) (dr_appnow (d 4))"
    using t unfolding urls_last_def by (simp_all del: One_nat_def)
  obtain up b1 D where 1: "handle_files lib (d 1) (PostIntent (big_intent FILE_TOTAL) None) ?u (fworld A [] b (Some p)) =
      ((200, Descriptor D), fworld A [bin_row u ?i up] b1 (Some p))" "up \<noteq> ''''" "ud_id D = ?i"
    "ud_body D = Multipart up PS 3 (map (part_at lib (dr_appnow (d 1)) (object_key (show_nat (u_id u)) ?i ''bin'') up) [1, 2, 3])"
    "co_objects (see b1) = co_objects (see b)" "co_uploads (see b1) (object_key (show_nat (u_id u)) ?i ''bin'', up) = Some []"
    by (rule intent_multipart [OF s k big])
  let ?row = "bin_row u ?i up"
  have key: "f_key ?row = object_key (show_nat (u_id u)) ?i ''bin''" "f_id ?row = ?i" by (simp_all add: bin_row_def)
  have u0: "co_uploads (see b1) (f_key ?row, up) = Some []" unfolding key by (rule 1(6))
  obtain b2 e1 e2 where 2: "put_parts lib (dr_appnow (d 2)) PART (Some 2) (map (part_at lib (dr_appnow (d 1)) (f_key ?row) up) [1, 2, 3]) [ID ?i]
      (fworld A [?row] b1 (Some p)) = (([ID ?i, PART 1, PART 2, DIE], False), fworld A [?row] b2 (Some p))"
    "co_objects (see b2) = co_objects (see b1)" "co_uploads (see b2) (f_key ?row, up) = Some [stored 1 e1, stored 2 e2]"
    by (rule first_process [OF h e(1) u0, where i = ?i and A = A and t = "[?row]" and p = "Some p"])
  obtain b3 e3 where 3: "client_resume lib (d 3) (dr_appnow (d 4)) p ?tok ?i (fworld A [?row] b2 (Some p)) =
      (Inr [HAVE [1, 2], REUPLOAD 3], fworld A [?row] b3 (Some p))" "co_objects (see b3) = co_objects (see b2)"
    "co_uploads (see b3) (f_key ?row, up) = Some [stored 1 e1, stored 2 e2, stored 3 e3]"
    by (rule second_process [OF s st ids 1(2) 2(3) fuel e(2)])
  have start: "client_start lib (d 1) (dr_appnow (d 2)) p ?tok FILE_TOTAL 2 (fworld A [] b (Some p)) =
      (Inr [ID ?i, PART 1, PART 2, DIE], fworld A [?row] b2 (Some p))"
    using 2(1) by (simp add: client_start_def files_served [OF s] 1(1,3,4) key del: One_nat_def put_parts.simps list.map)
  have "co_objects (see b2) (f_key ?row) = None" unfolding 1(5) 2(2) key by (rule free [OF object_key_prefix])
  then have "headStatus lib (f_key ?row) (fworld A [?row] b2 (Some p)) = 404"
    using head_answer(1) [OF o', of b2 "f_key ?row"] by (auto simp: headStatus_def)
  moreover have "key_of_file ?i (fworld A [?row] b2 (Some p)) = (Inr (f_key ?row), fworld A [?row] b2 (Some p))"
    using ids key by (simp add: key_of_file_def select_first_def)
  ultimately have "demo_two_clients lib d p ?tok (fworld A [] b (Some p)) = (Inr (?i, f_key ?row), fworld A [?row] b3 (Some p))"
    unfolding demo_two_clients_def then_run_def by (simp add: start 3(1) Let_def del: One_nat_def)
  then show thesis by (rule that [OF 1(2) _ _ 3(3)]) (simp add: 1(5) 2(2) 3(2))
qed

lemma demo_complete_passes:
  assumes s: "holds_session lib d A u" and st: "store_documented (fl_bk lib) see (fl_sg lib)" and i: "uuid_shape i" and up: "up \<noteq> ''''"
    and ps: "co_uploads (see b) (f_key (bin_row u i up), up) = Some [stored 1 e1, stored 2 e2, stored 3 e3]" and fuel: "3 < fl_fuel lib"
    and md5: "\<And>x. CHR ''-'' \<notin> set (md5 x)"
  obtains t b' where "demo_complete lib md5 (d j) p (session_token lib d u) partSize i (f_key (bin_row u i up)) (fworld A [bin_row u i up] b (Some p)) =
      (Inr (), fworld A t b' (Some p))"
    "dom (co_objects (see b')) \<subseteq> insert (f_key (bin_row u i up)) (dom (co_objects (see b)))"
proof -
  let ?k = "f_key (bin_row u i up)"
  obtain b' v r body et x where c: "handle_files lib (d j) (PostCommit i) (session_user lib d u) (fworld A [bin_row u i up] b (Some p)) =
      ((200, FileView v), fworld A [r] b' (Some p))" "co_objects (see b') = (co_objects (see b))(?k \<mapsto> (body, et))"
    "int (length body) = FILE_TOTAL" "unquoted et = x @ ''-3''"
    by (rule commit_three [OF s st i up ps fuel])
  have "keeps_objects (fl_bk lib) see" using st by (simp add: store_documented_def)
  from head_answer(2) [OF this, of b' ?k body et] have hd: "bk_head (fl_bk lib) ?k b' = Inr (Some FILE_TOTAL, Some et)" by (simp add: c(2,3))
  have "CHR ''-'' \<in> set (unquoted et)" by (simp add: c(4))
  then have "unquoted et \<noteq> md5 y" for y using md5 [of y] by metis
  moreover have "suffix ''-3'' (unquoted et)" using c(4) by (auto simp: suffix_def)
  ultimately have "multipart_etag md5 partSize (Some et)" by (simp add: multipart_etag_def Let_def)
  then have "demo_complete lib md5 (d j) p (session_token lib d u) partSize i ?k (fworld A [bin_row u i up] b (Some p)) = (Inr (), fworld A [r] b' (Some p))"
    unfolding demo_complete_def then_run_def by (simp add: files_served [OF s] c(1) hd bool_num_def)
  then show thesis by (rule that) (auto simp: c(2))
qed

text \<open>C27: A multipart upload survives the death of its client: with an object store that
  keeps its documented promises, the acceptance run \<open>demo:multipart\<close> ends with exit code 0.
  That is: the client that is killed has uploaded two parts and there is no object yet; a
  second client, which knows only the id, is told by the API that the parts 1 and 2 are
  there and uploads the third one only; the commit answers 200 and the object then has the
  announced size and the etag of three parts, not the MD5 of the file.
\<close>
theorem multipart_demo_passes:
  assumes st: "store_documented (fl_bk lib) see (fl_sg lib)" and ready: "session_ready lib d h new_id w"
    and e: "storageFromEnv getenv = Inr cfg" "\<forall>n \<in> set REQUIRED_DB. present (getenv n)"
    and clock: "urls_last lib d" and big: "multipartThreshold (fl_st lib) < FILE_TOTAL" and ids: "uuid_shape (dr_fid (d 1))"
    and fuel: "card (keys_under ''uploads/'' (see (fw_bucket w))) < fl_fuel lib" "3 < fl_fuel lib" and md5: "\<And>x. CHR ''-'' \<notin> set (md5 x)"
  shows "files_run lib getenv True (demo_multipart lib md5 h new_id d p) w = 0"
proof -
  obtain b0 where b0: "files_boot lib getenv True w = (Inr (), w\<lparr>fw_files := [], fw_bucket := b0\<rparr>)" "see b0 = see (fw_bucket w)"
    using boot_ready [OF st e] by blast
  obtain b1 where b1: "in_bucket (wipe (fl_fuel lib) (fl_bk lib) [''uploads/'']) (w\<lparr>fw_files := [], fw_bucket := b0\<rparr>) =
      (Inr (), w\<lparr>fw_files := [], fw_bucket := b1\<rparr>)" "\<And>k. prefix ''uploads/'' k \<Longrightarrow> co_objects (see b1) k = None"
    by (rule wipe_step [OF st, of "''uploads/''" b0]) (use fuel(1) b0(2) in \<open>simp_all\<close>)
  have "session_ready lib d h new_id (w\<lparr>fw_files := [], fw_bucket := b1\<rparr>)" using ready by (simp add: session_ready_def)
  then obtain u w' A A' where s: "files_user h new_id MPU_USER customer (w\<lparr>fw_files := [], fw_bucket := b1\<rparr>) = (Inr (show_nat (u_id u)), w')"
    "startApi p w' = (Inr (), fworld A [] b1 (Some p))"
    "files_login lib (d 0) p MPU_USER (fworld A [] b1 (Some p)) = (Inr (session_token lib d u), fworld A' [] b1 (Some p))"
    "holds_session lib d A' u"
    by (rule session_started [of lib d h new_id _ MPU_USER customer p]) simp
  have f2: "2 < fl_fuel lib" using fuel(2) by simp
  obtain up b2 e1 e2 e3 where c: "up \<noteq> ''''"
    "demo_two_clients lib d p (session_token lib d u) (fworld A' [] b1 (Some p)) =
      (Inr (dr_fid (d 1), f_key (bin_row u (dr_fid (d 1)) up)), fworld A' [bin_row u (dr_fid (d 1)) up] b2 (Some p))"
    "co_objects (see b2) = co_objects (see b1)"
    "co_uploads (see b2) (f_key (bin_row u (dr_fid (d 1)) up), up) = Some [stored 1 e1, stored 2 e2, stored 3 e3]"
    by (rule two_clients [OF s(4) st clock ids big f2 b1(2)])
  obtain t b3 where f: "demo_complete lib md5 (d 5) p (session_token lib d u) PS (dr_fid (d 1)) (f_key (bin_row u (dr_fid (d 1)) up))
      (fworld A' [bin_row u (dr_fid (d 1)) up] b2 (Some p)) = (Inr (), fworld A' t b3 (Some p))"
    "dom (co_objects (see b3)) \<subseteq> insert (f_key (bin_row u (dr_fid (d 1)) up)) (dom (co_objects (see b2)))"
    by (rule demo_complete_passes [OF s(4) st ids c(1,4) fuel(2) md5])
  have "keys_under ''uploads/'' (see b3) \<subseteq> {f_key (bin_row u (dr_fid (d 1)) up)}"
    using f(2) b1(2) by (fastforce simp: keys_under_def c(3))
  then have "card (keys_under ''uploads/'' (see b3)) \<le> card {f_key (bin_row u (dr_fid (d 1)) up)}" by (rule card_mono [rotated]) simp
  also have "\<dots> < fl_fuel lib" using fuel(2) by simp
  finally obtain b4 where b4: "in_bucket (wipe (fl_fuel lib) (fl_bk lib) [''uploads/'']) (fworld A' t b3 None) = (Inr (), fworld A' t b4 None)"
    using wipe_step [OF st, of "''uploads/''" b3] by (metis fworld_simps(4,7))
  show ?thesis
    unfolding files_run_def exit_code_def
    by (simp add: then_run_def b0(1) demo_multipart_def b1(1) s(1-3) total_plan c(2) f(1) b4 PS_def [symmetric] del: One_nat_def)
qed

end
