(* ===== verification/CdnDemo.thy ===== *)
theory CdnDemo
  imports FileDemos Edge
begin

text \<open>
  The acceptance run of the edge cache, \<open>src/demo-cdn.ts\<close>: assets published under names
  with the hash of their contents, read through the edge in front of the closed bucket.
\<close>

subsection \<open>The bucket of the assets\<close>

text \<open>What the run does to the bucket beside wiping it; a plain \<open>GET\<close> on the store carries no credentials.\<close>

record 'b asset_store =
  as_put :: "string put_command \<Rightarrow> 'b \<Rightarrow> s3_error + 'b"
  as_get :: "string \<Rightarrow> 'b \<Rightarrow> s3_error + string object"
  as_head :: "string \<Rightarrow> 'b \<Rightarrow> s3_error + string option"
  as_direct :: "string \<Rightarrow> 'b \<Rightarrow> nat"

text \<open>As documented: an object is read back with the headers it was stored with; nothing is public.\<close>

definition keeps_assets :: "'b asset_store \<Rightarrow> ('b \<Rightarrow> contents) \<Rightarrow> ('b \<Rightarrow> string \<Rightarrow> string object option) \<Rightarrow> bool" where
  "keeps_assets ab see assets \<longleftrightarrow>
     (\<forall>b c. \<exists>b' et. as_put ab c b = Inr b' \<and> dom (co_objects (see b')) = insert (put_key c) (dom (co_objects (see b))) \<and>
        assets b' = (assets b)(put_key c \<mapsto> \<lparr>o_body = put_body c, o_type = Some (put_type c), o_etag = et, o_cc = Some (put_cc c)\<rparr>)) \<and>
     (\<forall>b k x. assets b k = Some x \<longrightarrow> as_get ab k b = Inr x \<and> as_head ab k b = Inr (o_cc x)) \<and>
     (\<forall>b k. as_direct ab k b = 403)"

subsection \<open>demo:cdn\<close>

record 'b cdn_world =
  cw_files :: "'b files_world"
  cw_edge :: "string edge_state"

definition on_files :: "('b files_world \<Rightarrow> 'a res \<times> 'b files_world) \<Rightarrow> 'b cdn_world \<Rightarrow> 'a res \<times> 'b cdn_world" where
  "on_files m w = (case m (cw_files w) of (r, f) \<Rightarrow> (r, w\<lparr>cw_files := f\<rparr>))"

definition publish :: "'b asset_store \<Rightarrow> (string \<Rightarrow> string) \<Rightarrow> string \<Rightarrow> string \<Rightarrow> string \<Rightarrow> 'b cdn_world \<Rightarrow> string res \<times> 'b cdn_world" where
  "publish ab sha256_hex name body contentType w =
     (let b = fw_bucket (cw_files w)
      in case publishAsset sha256_hex (\<lambda>c. map_sum id (\<lambda>_. ()) (as_put ab c b)) name body contentType of
           Inl e \<Rightarrow> (Inl (Error (errName e)), w)
         | Inr key \<Rightarrow>
             (Inr key, w\<lparr>cw_files := (cw_files w)\<lparr>fw_bucket :=
                (case as_put ab \<lparr>put_key = key, put_body = body, put_type = contentType, put_cc = IMMUTABLE\<rparr> b of Inl _ \<Rightarrow> b | Inr b' \<Rightarrow> b')\<rparr>\<rparr>))"

text \<open>A request to the edge, at a time in milliseconds; it fetches what it does not have.\<close>

definition via :: "'b asset_store \<Rightarrow> int \<Rightarrow> string \<Rightarrow> 'b cdn_world \<Rightarrow> string edge_response res \<times> 'b cdn_world" where
  "via ab now key w =
     (case edge_request now \<lparr>eq_method = ''GET'', eq_url = Some (''/'' @ key)\<rparr> (cw_edge w) of
        (Crash, st) \<Rightarrow> (Inl (Error ''fetch failed''), w\<lparr>cw_edge := st\<rparr>)
      | (Respond r, st) \<Rightarrow> (Inr r, w\<lparr>cw_edge := st\<rparr>)
      | (Fetch k, st) \<Rightarrow>
          (case edge_answer now k (as_get ab k (fw_bucket (cw_files w))) st of (r, st') \<Rightarrow> (Inr r, w\<lparr>cw_edge := st'\<rparr>)))"

definition body_of :: "string edge_response \<Rightarrow> string" where
  "body_of r = (case er_content r of None \<Rightarrow> '''' | Some (body, _) \<Rightarrow> body)"

definition CSS1 :: string where "CSS1 = ''body{color:#111}/* v1 */''"

definition CSS2 :: string where "CSS2 = ''body{color:#222}/* v2 */''"

definition cdn_expect :: "nat \<Rightarrow> nat list \<Rightarrow> 'b cdn_world \<Rightarrow> unit res \<times> 'b cdn_world" where
  "cdn_expect actual allowed = on_files (files_expect actual allowed)"

definition cdn_invariant :: "bool \<Rightarrow> 'b cdn_world \<Rightarrow> unit res \<times> 'b cdn_world" where
  "cdn_invariant ok = on_files (files_invariant (\<lambda>_. ok))"

text \<open>The first version: what is in the \<open>try\<close> up to the deployment.\<close>

definition demo_first_version :: "'b asset_store \<Rightarrow> (string \<Rightarrow> string) \<Rightarrow> (nat \<Rightarrow> int) \<Rightarrow> 'b cdn_world \<Rightarrow> (string \<times> string) res \<times> 'b cdn_world" where
  "demo_first_version ab sha256_hex now =
     then_run (publish ab sha256_hex ''app.css'' CSS1 ''text/css'') (\<lambda>v1.
     then_run (\<lambda>w. (map_sum (\<lambda>e. Error (errName e)) id (as_head ab v1 (fw_bucket (cw_files w))), w)) (\<lambda>cc.
     then_run (cdn_invariant (cc = Some IMMUTABLE)) (\<lambda>_.
     then_run (\<lambda>w. cdn_expect (as_direct ab v1 (fw_bucket (cw_files w))) [403] w) (\<lambda>_.
     then_run (via ab (now 0) v1) (\<lambda>miss.
     then_run (cdn_expect (er_status miss) [200]) (\<lambda>_.
     then_run (cdn_invariant (er_xcache miss = Some ''MISS'')) (\<lambda>_.
     then_run (via ab (now 1) v1) (\<lambda>hit.
     then_run (cdn_expect (er_status hit) [200]) (\<lambda>_.
     then_run (cdn_expect (bool_num (er_xcache hit = Some ''HIT'')) [1]) (\<lambda>_.
     then_run (via ab (now 2) ''uploads/x'') (\<lambda>private.
     then_run (cdn_invariant (er_status private = 403)) (\<lambda>_ w.
     (Inr (v1, body_of hit), w)))))))))))))"

definition demo_second_version :: "'b asset_store \<Rightarrow> (string \<Rightarrow> string) \<Rightarrow> (nat \<Rightarrow> int) \<Rightarrow> string \<Rightarrow> string \<Rightarrow> 'b cdn_world \<Rightarrow> unit res \<times> 'b cdn_world" where
  "demo_second_version ab sha256_hex now v1 body1 =
     then_run (publish ab sha256_hex ''app.css'' CSS2 ''text/css'') (\<lambda>v2.
     then_run (cdn_expect (bool_num (v2 \<noteq> v1)) [1]) (\<lambda>_.
     then_run (via ab (now 3) v2) (\<lambda>fresh.
     then_run (cdn_expect (er_status fresh) [200]) (\<lambda>_.
     then_run (cdn_expect (bool_num (body_of fresh \<noteq> body1)) [1]) (\<lambda>_.
     then_run (via ab (now 4) v1) (\<lambda>old.
     cdn_invariant (er_xcache old = Some ''HIT'')))))))"

text \<open>\<open>finally\<close>: the assets are wiped whatever happened; an error of the wipe replaces the result.\<close>

definition demo_cdn :: "('priv, 'pub, 'b) files_lib \<Rightarrow> 'b asset_store \<Rightarrow> (string \<Rightarrow> string) \<Rightarrow> (nat \<Rightarrow> int) \<Rightarrow> 'b files_world \<Rightarrow>
    unit res \<times> 'b files_world" where
  "demo_cdn lib ab sha256_hex now =
     then_run (in_bucket (wipe (fl_fuel lib) (fl_bk lib) [''assets/''])) (\<lambda>_ f.
       (case then_run (demo_first_version ab sha256_hex now) (\<lambda>(v1, body1). demo_second_version ab sha256_hex now v1 body1)
               \<lparr>cw_files = f, cw_edge = \<lparr>es_cache = (\<lambda>_. None), es_origin = 0, es_pending = []\<rparr>\<rparr> of
          (r, w) \<Rightarrow> then_run (in_bucket (wipe (fl_fuel lib) (fl_bk lib) [''assets/''])) (\<lambda>_ f. (r, f)) (cw_files w)))"

subsection \<open>The names\<close>

lemma dot_dot_Cons: "dot_dot (c # s) \<longleftrightarrow> c = CHR ''.'' \<and> take 1 s = ''.'' \<or> dot_dot s"
proof -
  have "[0..<length (c # s)] = 0 # map Suc [0..<length s]" by (simp add: map_Suc_upt upt_conv_Cons del: upt_Suc)
  then show ?thesis unfolding dot_dot_def by (simp add: list_ex_iff numeral_2_eq_2 del: set_upt upt_Suc)
qed

lemma dot_dot_Nil: "\<not> dot_dot []"
  by (simp add: dot_dot_def)

lemma dot_dot_plain: "CHR ''.'' \<notin> set h \<Longrightarrow> dot_dot (h @ t) = dot_dot t"
  by (induction h) (auto simp: dot_dot_Cons)

definition hex_hash :: "(string \<Rightarrow> string) \<Rightarrow> bool" where
  "hex_hash sha256_hex \<longleftrightarrow> (\<forall>x. 8 \<le> length (sha256_hex x) \<and> list_all is_hex (sha256_hex x))"

abbreviation app_key :: "(string \<Rightarrow> string) \<Rightarrow> string \<Rightarrow> string" where
  "app_key sha256_hex body \<equiv> hashedKey sha256_hex ''app.css'' body"

lemma app_key: "app_key sha body = ''assets/app.'' @ take 8 (sha body) @ ''.css''"
  by (simp add: hashedKey_def split_ext_def ASSET_PREFIX_def)

lemma app_key_public:
  assumes "hex_hash sha"
  shows "public_key (app_key sha body)" "CHR ''%'' \<notin> set (app_key sha body)" "CHR ''?'' \<notin> set (app_key sha body)"
proof -
  have h: "is_hex c" if "c \<in> set (take 8 (sha body))" for c
    using assms that in_set_takeD [of c 8 "sha body"] unfolding hex_hash_def list_all_iff by blast
  have no: "CHR ''%'' \<notin> set (take 8 (sha body))" "CHR ''?'' \<notin> set (take 8 (sha body))" "CHR ''.'' \<notin> set (take 8 (sha body))"
    using h [of "CHR ''%''"] h [of "CHR ''?''"] h [of "CHR ''.''"] by (auto simp: is_hex_def)
  show "CHR ''%'' \<notin> set (app_key sha body)" "CHR ''?'' \<notin> set (app_key sha body)" unfolding app_key using no by auto
  have "length (take 8 (sha body)) = 8" using assms by (simp add: hex_hash_def)
  then obtain c h where ch: "take 8 (sha body) = c # h" by (cases "take 8 (sha body)") auto
  have "\<not> dot_dot (app_key sha body)"
    unfolding app_key using no(3) dot_dot_plain [of h "''.css''"] by (auto simp: dot_dot_Cons dot_dot_Nil ch)
  then show "public_key (app_key sha body)" by (simp add: public_key_def app_key ASSET_PREFIX_def)
qed

subsection \<open>The steps\<close>

definition edge_of :: "(string \<rightharpoonup> string entry) \<Rightarrow> nat \<Rightarrow> string edge_state" where
  "edge_of c n = \<lparr>es_cache = c, es_origin = n, es_pending = []\<rparr>"

definition cworld :: "'b files_world \<Rightarrow> (string \<rightharpoonup> string entry) \<Rightarrow> nat \<Rightarrow> 'b cdn_world" where
  "cworld f c n = \<lparr>cw_files = f, cw_edge = edge_of c n\<rparr>"

lemma cworld_simps [simp]: "cw_files (cworld f c n) = f" "cw_edge (cworld f c n) = edge_of c n"
  by (simp_all add: cworld_def)

lemma cdn_checks [simp]:
  "x \<in> set allowed \<Longrightarrow> cdn_expect x allowed (cworld f c n) = (Inr (), cworld f c n)"
  "ok \<Longrightarrow> cdn_invariant ok (cworld f c n) = (Inr (), cworld f c n)"
  by (simp_all add: cdn_expect_def cdn_invariant_def on_files_def files_expect_def files_invariant_def in_demo_def expect_status_def
      invariant_def cworld_def)

lemma plain_request:
  assumes "CHR ''%'' \<notin> set k" "CHR ''?'' \<notin> set k"
  shows "request_key \<lparr>eq_method = ''GET'', eq_url = Some (''/'' @ k)\<rparr> = Some k"
  using assms uri_decode_plain [of "CHR ''/'' # k"] by (simp add: request_key_def)

lemma via_hit:
  assumes "public_key k" "CHR ''%'' \<notin> set k" "CHR ''?'' \<notin> set k" "c k = Some e" "now < e_expires e"
  shows "via ab now k (cworld f c n) = (Inr (serve ''HIT'' e), cworld f c n)"
  using assms plain_request [OF assms(2,3)] by (simp add: via_def edge_request_def edge_of_def cworld_def)

lemma via_miss:
  assumes "public_key k" "CHR ''%'' \<notin> set k" "CHR ''?'' \<notin> set k" "c k = None"
    and "as_get ab k (fw_bucket f) = Inr ob" "o_cc ob = Some IMMUTABLE"
  shows "via ab now k (cworld f c n) = (Inr (serve ''MISS'' (new_entry now ob)), cworld f (c(k \<mapsto> new_entry now ob)) (Suc n))"
proof -
  have "ttlSec (object_cc ob) = 31536000" using assms(6) ttlSec_IMMUTABLE by (simp add: object_cc_def)
  then show ?thesis
    using assms(1,4,5) plain_request [OF assms(2,3)]
    by (simp add: via_def edge_request_def edge_answer_def edge_of_def cworld_def)
qed

lemma via_private: "via ab now ''uploads/x'' (cworld f c n) = (Inr (bare 403), cworld f c n)"
  using plain_request [of "''uploads/x''"]
  by (simp add: via_def edge_request_def public_key_def ASSET_PREFIX_def cworld_def)

lemma asset_put:
  assumes "keeps_assets ab see assets"
  shows "\<exists>b' et. as_put ab c b = Inr b' \<and> dom (co_objects (see b')) = insert (put_key c) (dom (co_objects (see b))) \<and>
    assets b' = (assets b)(put_key c \<mapsto> \<lparr>o_body = put_body c, o_type = Some (put_type c), o_etag = et, o_cc = Some (put_cc c)\<rparr>)"
  using assms unfolding keeps_assets_def by blast

lemma asset_read:
  assumes "keeps_assets ab see assets" "assets b k = Some x"
  shows "as_get ab k b = Inr x" "as_head ab k b = Inr (o_cc x)" "as_direct ab k' b = 403"
  using assms unfolding keeps_assets_def by simp_all

lemma published:
  assumes "keeps_assets ab see assets"
  obtains b' x where "publish ab sha name body ct (cworld f c n) = (Inr (hashedKey sha name body), cworld (f\<lparr>fw_bucket := b'\<rparr>) c n)"
    "dom (co_objects (see b')) = insert (hashedKey sha name body) (dom (co_objects (see (fw_bucket f))))"
    "assets b' = (assets (fw_bucket f))(hashedKey sha name body \<mapsto> x)" "o_body x = body" "o_cc x = Some IMMUTABLE"
proof -
  let ?c = "\<lparr>put_key = hashedKey sha name body, put_body = body, put_type = ct, put_cc = IMMUTABLE\<rparr>"
  obtain b' et where b': "as_put ab ?c (fw_bucket f) = Inr b'" "dom (co_objects (see b')) = insert (put_key ?c) (dom (co_objects (see (fw_bucket f))))"
    "assets b' = (assets (fw_bucket f))(put_key ?c \<mapsto> \<lparr>o_body = put_body ?c, o_type = Some (put_type ?c), o_etag = et, o_cc = Some (put_cc ?c)\<rparr>)"
    using asset_put [OF assms] by blast
  have "publish ab sha name body ct (cworld f c n) = (Inr (hashedKey sha name body), cworld (f\<lparr>fw_bucket := b'\<rparr>) c n)"
    by (simp add: publish_def publishAsset_def b'(1) Let_def cworld_def)
  from that [OF this, of "\<lparr>o_body = body, o_type = Some ct, o_etag = et, o_cc = Some IMMUTABLE\<rparr>"] show thesis
    using b'(2,3) by simp
qed

definition within_a_year :: "(nat \<Rightarrow> int) \<Rightarrow> bool" where
  "within_a_year now \<longleftrightarrow> (\<forall>i j. now j < now i + 31536000 * 1000)"

lemma asset_expires:
  assumes "within_a_year now" "o_cc x = Some IMMUTABLE"
  shows "now j < e_expires (new_entry (now i) x)"
  using assms ttlSec_IMMUTABLE by (simp add: within_a_year_def new_entry_def object_cc_def)

lemma serve_simps [simp]:
  "er_status (serve xc e) = 200" "er_xcache (serve xc e) = Some xc" "body_of (serve xc e) = e_body e"
  by (simp_all add: serve_def body_of_def)

lemma first_version:
  assumes k: "keeps_assets ab see assets" and sha: "hex_hash sha" and t: "within_a_year now"
  obtains b' x where "demo_first_version ab sha now (cworld f (\<lambda>_. None) 0) =
      (Inr (app_key sha CSS1, CSS1), cworld (f\<lparr>fw_bucket := b'\<rparr>) [app_key sha CSS1 \<mapsto> new_entry (now 0) x] 1)"
    "dom (co_objects (see b')) = insert (app_key sha CSS1) (dom (co_objects (see (fw_bucket f))))" "o_cc x = Some IMMUTABLE" "o_body x = CSS1"
proof -
  let ?k = "app_key sha CSS1"
  note pub = app_key_public [OF sha, of CSS1]
  obtain b' x where 1: "publish ab sha ''app.css'' CSS1 ''text/css'' (cworld f (\<lambda>_. None) 0) = (Inr ?k, cworld (f\<lparr>fw_bucket := b'\<rparr>) (\<lambda>_. None) 0)"
    "dom (co_objects (see b')) = insert ?k (dom (co_objects (see (fw_bucket f))))"
    "assets b' = (assets (fw_bucket f))(?k \<mapsto> x)" "o_body x = CSS1" "o_cc x = Some IMMUTABLE"
    by (rule published [OF k])
  have "assets b' ?k = Some x" by (simp add: 1(3))
  note r = asset_read [where assets = assets and b = b' and k = ?k and x = x, OF k this]
  let ?f = "f\<lparr>fw_bucket := b'\<rparr>" and ?c = "[?k \<mapsto> new_entry (now 0) x]"
  have 2: "via ab (now 0) ?k (cworld ?f (\<lambda>_. None) 0) = (Inr (serve ''MISS'' (new_entry (now 0) x)), cworld ?f ?c 1)"
    using via_miss [OF pub, of "\<lambda>_. None" ab ?f x "now 0" 0] r(1) 1(5) by simp
  have 3: "via ab (now 1) ?k (cworld ?f ?c 1) = (Inr (serve ''HIT'' (new_entry (now 0) x)), cworld ?f ?c 1)"
    by (rule via_hit [OF pub _ asset_expires [OF t 1(5)]]) simp
  have body: "e_body (new_entry (now 0) x) = CSS1" by (simp add: new_entry_def 1(4))
  have "demo_first_version ab sha now (cworld f (\<lambda>_. None) 0) = (Inr (?k, CSS1), cworld ?f ?c 1)"
    unfolding demo_first_version_def then_run_def
    by (simp add: 1(1,5) r 2 3 via_private body bool_num_def bare_def del: One_nat_def)
  then show thesis by (rule that) (simp_all add: 1)
qed

lemma second_version:
  assumes k: "keeps_assets ab see assets" and sha: "hex_hash sha" and t: "within_a_year now" and x: "o_cc x = Some IMMUTABLE"
    and new: "app_key sha CSS2 \<noteq> app_key sha CSS1"
  obtains b' c n where "demo_second_version ab sha now (app_key sha CSS1) CSS1 (cworld f [app_key sha CSS1 \<mapsto> new_entry (now 0) x] 1) =
      (Inr (), cworld (f\<lparr>fw_bucket := b'\<rparr>) c n)"
    "dom (co_objects (see b')) = insert (app_key sha CSS2) (dom (co_objects (see (fw_bucket f))))"
proof -
  let ?k1 = "app_key sha CSS1" and ?k2 = "app_key sha CSS2"
  let ?c = "[?k1 \<mapsto> new_entry (now 0) x]"
  obtain b' y where 1: "publish ab sha ''app.css'' CSS2 ''text/css'' (cworld f ?c 1) = (Inr ?k2, cworld (f\<lparr>fw_bucket := b'\<rparr>) ?c 1)"
    "dom (co_objects (see b')) = insert ?k2 (dom (co_objects (see (fw_bucket f))))"
    "assets b' = (assets (fw_bucket f))(?k2 \<mapsto> y)" "o_body y = CSS2" "o_cc y = Some IMMUTABLE"
    by (rule published [OF k])
  have "assets b' ?k2 = Some y" by (simp add: 1(3))
  note r = asset_read [where assets = assets and b = b' and k = ?k2 and x = y, OF k this]
  let ?f = "f\<lparr>fw_bucket := b'\<rparr>" and ?c2 = "?c(?k2 \<mapsto> new_entry (now 3) y)"
  have 2: "via ab (now 3) ?k2 (cworld ?f ?c 1) = (Inr (serve ''MISS'' (new_entry (now 3) y)), cworld ?f ?c2 (Suc 1))"
    by (rule via_miss [OF app_key_public [OF sha]]) (use r(1) 1(5) new in simp_all)
  have 3: "via ab (now 4) ?k1 (cworld ?f ?c2 (Suc 1)) = (Inr (serve ''HIT'' (new_entry (now 0) x)), cworld ?f ?c2 (Suc 1))"
    by (rule via_hit [OF app_key_public [OF sha] _ asset_expires [OF t x]]) (use new in simp)
  have body: "e_body (new_entry (now 3) y) = CSS2" "CSS2 \<noteq> CSS1" by (simp_all add: new_entry_def 1(4) CSS1_def CSS2_def)
  have "demo_second_version ab sha now ?k1 CSS1 (cworld f ?c 1) = (Inr (), cworld ?f ?c2 (Suc 1))"
    unfolding demo_second_version_def then_run_def
    using 2 3 by (simp add: 1(1) body new bool_num_def del: One_nat_def)
  then show thesis by (rule that) (simp add: 1(2))
qed

subsection \<open>The run passes\<close>

lemma boot_bucket:
  assumes st: "store_documented (fl_bk lib) see (fl_sg lib)" and s: "storageFromEnv getenv = Inr cfg"
  obtains b where "files_boot lib getenv False w = (Inr (), w\<lparr>fw_bucket := b\<rparr>)" "see b = see (fw_bucket w)"
proof -
  have k: "keeps_bucket (fl_bk lib) see" using st by (simp add: store_documented_def)
  obtain b where b: "ensureBucket (fl_bk lib) (fw_bucket w) = (Inr (), b)" "see b = see (fw_bucket w)"
    using ensureBucket_keeps [OF k] by blast
  show thesis by (rule that [of b]) (simp_all add: files_boot_def s then_run_def in_bucket_def b)
qed

text \<open>
  The run ends with exit code 0: the bucket answers 403 to the public, the edge serves the
  asset from its cache the second time, the new version has a new name and is served, and
  nothing was invalidated.
\<close>

theorem cdn_demo_passes:
  assumes st: "store_documented (fl_bk lib) see (fl_sg lib)" and k: "keeps_assets ab see assets" and e: "storageFromEnv getenv = Inr cfg"
    and sha: "hex_hash sha" "app_key sha CSS2 \<noteq> app_key sha CSS1" and t: "within_a_year now" and ok: "\<not> ds_failed (fw_demo w)"
    and fuel: "card (keys_under ''assets/'' (see (fw_bucket w))) < fl_fuel lib" "2 < fl_fuel lib"
  shows "files_run lib getenv False (demo_cdn lib ab sha now) w = 0"
proof -
  let ?wipe = "in_bucket (wipe (fl_fuel lib) (fl_bk lib) [''assets/''])"
  obtain b0 where b0: "files_boot lib getenv False w = (Inr (), w\<lparr>fw_bucket := b0\<rparr>)" "see b0 = see (fw_bucket w)"
    using boot_bucket [OF st e] by blast
  obtain b1 where b1: "?wipe (w\<lparr>fw_bucket := b0\<rparr>) = (Inr (), w\<lparr>fw_bucket := b1\<rparr>)" "\<And>k. prefix ''assets/'' k \<Longrightarrow> co_objects (see b1) k = None"
    by (rule wipe_step [OF st, of "''assets/''" b0]) (use fuel(1) b0(2) in \<open>simp_all\<close>)
  let ?k1 = "app_key sha CSS1" and ?k2 = "app_key sha CSS2"
  obtain b2 x where f: "demo_first_version ab sha now (cworld (w\<lparr>fw_bucket := b1\<rparr>) (\<lambda>_. None) 0) =
      (Inr (?k1, CSS1), cworld ((w\<lparr>fw_bucket := b1\<rparr>)\<lparr>fw_bucket := b2\<rparr>) [?k1 \<mapsto> new_entry (now 0) x] 1)"
    "dom (co_objects (see b2)) = insert ?k1 (dom (co_objects (see (fw_bucket (w\<lparr>fw_bucket := b1\<rparr>)))))" "o_cc x = Some IMMUTABLE"
    by (rule first_version [OF k sha(1) t])
  obtain b3 c n where g: "demo_second_version ab sha now ?k1 CSS1 (cworld (w\<lparr>fw_bucket := b2\<rparr>) [?k1 \<mapsto> new_entry (now 0) x] 1) =
      (Inr (), cworld ((w\<lparr>fw_bucket := b2\<rparr>)\<lparr>fw_bucket := b3\<rparr>) c n)"
    "dom (co_objects (see b3)) = insert ?k2 (dom (co_objects (see (fw_bucket (w\<lparr>fw_bucket := b2\<rparr>)))))"
    by (rule second_version [OF k sha(1) t f(3) sha(2)])
  have "keys_under ''assets/'' (see b3) \<subseteq> {?k2, ?k1}" using b1(2) f(2) g(2) by (fastforce simp: keys_under_def)
  then have "card (keys_under ''assets/'' (see b3)) \<le> card {?k2, ?k1}" by (rule card_mono [rotated]) simp
  also have "\<dots> < fl_fuel lib" using fuel(2) card_insert_le_m1 [of 2 "{?k1}" ?k2] by simp
  finally obtain b4 where b4: "\<forall>w. fw_bucket w = b3 \<longrightarrow> ?wipe w = (Inr (), w\<lparr>fw_bucket := b4\<rparr>)"
    using wipe_step [OF st, of "''assets/''" b3] by metis
  show ?thesis
    using f(1) g(1)
    unfolding files_run_def exit_code_def
    by (simp add: then_run_def b0(1) demo_cdn_def b1(1) b4 ok cworld_def edge_of_def del: One_nat_def)
qed

end
