(* ===== verification/MemStore.thy ===== *)
theory MemStore
  imports MultipartDemo CdnDemo
begin

text \<open>
  A bucket in memory that keeps every promise of \<open>FileStore\<close>, so that what the runs of the
  uploads and of the edge rely on can hold, and the three runs on it.
\<close>

subsection \<open>The bucket\<close>

record mem_bucket =
  mb_objects :: "(string \<times> nat list \<times> string) list"
  mb_uploads :: "((string \<times> string) \<times> stored_part list) list"

definition mem_parts :: "stored_part list \<Rightarrow> stored_part list" where
  "mem_parts ps = foldr put_part (filter (\<lambda>p. 1 \<le> sp_number p) ps) []"

definition mem_see :: "mem_bucket \<Rightarrow> contents" where
  "mem_see b = \<lparr>co_objects = map_of (mb_objects b), co_uploads = (\<lambda>x. map_option mem_parts (map_of (mb_uploads b) x))\<rparr>"

definition no_such :: s3_error where
  "no_such = \<lparr>err_name = Some ''NotFound'', err_Code = None, err_message = None, err_text = '''', err_http = Some 404\<rparr>"

text \<open>A URL names what it was signed for.\<close>

type_synonym put_grant = "(rat \<times> string \<times> string \<times> int) + (rat \<times> string \<times> string \<times> int \<times> int)"

definition mem_url :: "'a :: countable \<Rightarrow> string" where
  "mem_url g = ''/object?'' @ show_nat (to_nat g)"

definition url_grant :: "string \<Rightarrow> 'a :: countable" where
  "url_grant url = from_nat (digits_val (codes (tl (url_query url))))"

definition mem_signer :: "rat \<Rightarrow> signer" where
  "mem_signer t = \<lparr>sign_put = (\<lambda>k ct e. mem_url (Inl (t, k, ct, e) :: put_grant)),
     sign_part = (\<lambda>k u n e. mem_url (Inr (t, k, u, n, e) :: put_grant)), sign_get = (\<lambda>k e. mem_url (t, k, e))\<rparr>"

definition mem_put :: "string \<Rightarrow> string option \<Rightarrow> nat list \<Rightarrow> rat \<Rightarrow> mem_bucket \<Rightarrow> nat \<times> mem_bucket" where
  "mem_put url ct body now b =
     (let g = url_grant url :: put_grant in
      if url \<noteq> mem_url g then (403, b)
      else (case g of
         Inl (t, k, ct', e) \<Rightarrow>
           if in_force t e now \<and> ct = Some ct' then (200, b\<lparr>mb_objects := (k, body, ''e'') # mb_objects b\<rparr>) else (403, b)
       | Inr (t, k, u, n, e) \<Rightarrow>
           if in_force t e now \<and> map_of (mb_uploads b) (k, u) \<noteq> None
           then (200, b\<lparr>mb_uploads := ((k, u), \<lparr>sp_number = nat n, sp_body = body, sp_etag = ''e''\<rparr> # the (map_of (mb_uploads b) (k, u))) # mb_uploads b\<rparr>)
           else (403, b)))"

definition mem_get :: "string \<Rightarrow> rat \<Rightarrow> mem_bucket \<Rightarrow> nat \<times> nat list" where
  "mem_get url now b =
     (let (t, k, e) = url_grant url in
      case map_of (mb_objects b) k of
        Some (body, _) \<Rightarrow> if url = mem_url (t, k, e) \<and> in_force t e now then (200, body) else (403, [])
      | None \<Rightarrow> (404, []))"

definition mem_list :: "stored_part list \<Rightarrow> string option \<Rightarrow> list_page" where
  "mem_list ps m =
     (let rest = filter (\<lambda>p. (case m of None \<Rightarrow> 0 | Some s \<Rightarrow> digits_val (codes s)) < PartNumber p) (map listed ps)
      in \<lparr>lp_parts = rest, IsTruncated = False,
          NextPartNumberMarker = (if rest = [] then None else Some (show_nat (PartNumber (last rest))))\<rparr>)"

definition mem_bucket_ops :: "mem_bucket bucket" where
  "mem_bucket_ops = \<lparr>bk_exists = (\<lambda>_. True), bk_create = Inr, bk_lifecycle = (\<lambda>_. Inr),
     bk_list = (\<lambda>p b. Inr (filter (prefix p) (map fst (mb_objects b)))),
     bk_delete = (\<lambda>ks b. Inr (b\<lparr>mb_objects := filter (\<lambda>x. fst x \<notin> set ks) (mb_objects b)\<rparr>)),
     bk_uploads = (\<lambda>b. Inr (remdups (map fst (mb_uploads b)))),
     bk_abort = (\<lambda>k u b. Inr (b\<lparr>mb_uploads := filter (\<lambda>x. fst x \<noteq> (k, u)) (mb_uploads b)\<rparr>)),
     bk_start = (\<lambda>k ct b. let u = concat (map (snd \<circ> fst) (mb_uploads b)) @ ''u'' in Inr (u, b\<lparr>mb_uploads := ((k, u), []) # mb_uploads b\<rparr>)),
     bk_parts = (\<lambda>k u m b. case map_of (mb_uploads b) (k, u) of None \<Rightarrow> Inl no_such | Some ps \<Rightarrow> Inr (mem_list (mem_parts ps) m)),
     bk_complete = (\<lambda>k u req b. case map_of (mb_uploads b) (k, u) of
         None \<Rightarrow> Inl no_such
       | Some ps \<Rightarrow> Inr (b\<lparr>mb_objects := (k, concat (map sp_body (mem_parts ps)), ''e-'' @ show_nat (length req)) # mb_objects b,
            mb_uploads := filter (\<lambda>x. fst x \<noteq> (k, u)) (mb_uploads b)\<rparr>)),
     bk_head = (\<lambda>k b. case map_of (mb_objects b) k of None \<Rightarrow> Inl no_such | Some (body, et) \<Rightarrow> Inr (Some (int (length body)), Some et)),
     bk_put = mem_put, bk_get = mem_get\<rparr>"

subsection \<open>It keeps its promises\<close>

lemma map_of_without: "map_of (filter (\<lambda>x. fst x \<notin> S) xs) k = (if k \<in> S then None else map_of xs k)"
  by (induction xs) auto

lemma map_of_without_one: "map_of (filter (\<lambda>x. fst x \<noteq> k) xs) = (map_of xs)(k := None)"
  using map_of_without [of "{k}" xs] by (auto simp: fun_eq_iff)


lemma mem_see_simps [simp]:
  "co_objects (mem_see b) = map_of (mb_objects b)" "co_uploads (mem_see b) x = map_option mem_parts (map_of (mb_uploads b) x)"
  by (simp_all add: mem_see_def)

lemma no_such_status: "errStatus no_such = 404"
  by (simp add: no_such_def errStatus_def)

lemma mem_keeps_objects: "keeps_objects mem_bucket_ops mem_see"
  unfolding keeps_objects_def
proof (intro conjI allI)
  fix b :: mem_bucket and k p :: string and ks :: "string list"
  show "finite (dom (co_objects (mem_see b)))" by (simp add: finite_dom_map_of)
  show "case co_objects (mem_see b) k of None \<Rightarrow> (\<exists>e. bk_head mem_bucket_ops k b = Inl e \<and> errStatus e = 404)
      | Some (body, et) \<Rightarrow> bk_head mem_bucket_ops k b = Inr (Some (int (length body)), Some et)"
    by (simp add: mem_bucket_ops_def no_such_status split: option.split)
  let ?ks = "filter (prefix p) (map fst (mb_objects b))"
  have "set ?ks = keys_under p (mem_see b)" by (auto simp: keys_under_def dom_map_of_conv_image_fst)
  then show "\<exists>ks. bk_list mem_bucket_ops p b = Inr ks \<and> set ks \<subseteq> keys_under p (mem_see b) \<and> (ks = [] \<longrightarrow> keys_under p (mem_see b) = {})"
    by (intro exI [of _ ?ks]) (simp add: mem_bucket_ops_def del: set_filter, metis empty_set)
  show "\<exists>b'. bk_delete mem_bucket_ops ks b = Inr b' \<and>
        mem_see b' = (mem_see b)\<lparr>co_objects := (\<lambda>k. if k \<in> set ks then None else co_objects (mem_see b) k)\<rparr>"
    by (simp add: mem_bucket_ops_def mem_see_def map_of_without fun_eq_iff)
qed

lemma mem_parts_put:
  assumes "1 \<le> sp_number p" shows "mem_parts (p # ps) = put_part p (mem_parts ps)"
  using assms by (simp add: mem_parts_def)

lemma put_part_sorted:
  assumes "sorted (map sp_number ps)" "distinct (map sp_number ps)"
  shows "sorted (map sp_number (put_part p ps))" "distinct (map sp_number (put_part p ps))"
  using assms unfolding put_part_def
  by (simp_all add: sorted_insort_key sorted_filter distinct_insort_key distinct_map_filter image_iff)

lemma mem_parts_ok:
  "sorted (map sp_number (mem_parts ps)) \<and> distinct (map sp_number (mem_parts ps)) \<and> (\<forall>p \<in> set (mem_parts ps). 1 \<le> sp_number p)"
proof (induction ps)
  case (Cons p ps)
  show ?case
  proof (cases "1 \<le> sp_number p")
    case True
    have "set (put_part p (mem_parts ps)) \<subseteq> insert p (set (mem_parts ps))" by (auto simp: put_part_def set_insort_key)
    then show ?thesis using Cons put_part_sorted [of "mem_parts ps" p] True by (auto simp: mem_parts_put [OF True])
  next
    case False
    then have "mem_parts (p # ps) = mem_parts ps" by (simp add: mem_parts_def)
    then show ?thesis using Cons by simp
  qed
qed (simp add: mem_parts_def)

lemma mem_pages:
  assumes "co_uploads (mem_see b) (k, u) = Some ps"
  shows "pages_of (s3_at mem_bucket_ops b) k u (map listed ps)"
  unfolding pages_of_def
proof (intro conjI allI)
  obtain raw where raw: "map_of (mb_uploads b) (k, u) = Some raw" "ps = mem_parts raw" using assms by auto
  have n: "map PartNumber (map listed ps) = map sp_number ps" by (simp add: listed_def)
  show "sorted (map PartNumber (map listed ps))" "distinct (map PartNumber (map listed ps))"
    unfolding n unfolding raw(2) using mem_parts_ok [of raw] by simp_all
  show "\<forall>p \<in> set (map listed ps). 1 \<le> PartNumber p" using mem_parts_ok [of raw] by (auto simp: raw(2) listed_def)
  fix m
  let ?rest = "filter (\<lambda>p. m < PartNumber p) (map listed ps)"
  have "(case if m = 0 then None else Some (show_nat m) of None \<Rightarrow> 0 | Some s \<Rightarrow> digits_val (codes s)) = m"
    by (simp add: digits_val_show_nat)
  then have "s3_list (s3_at mem_bucket_ops b) k u (if m = 0 then None else Some (show_nat m)) =
      Inr \<lparr>lp_parts = ?rest, IsTruncated = False, NextPartNumberMarker = (if ?rest = [] then None else Some (show_nat (PartNumber (last ?rest))))\<rparr>"
    by (simp only: s3_at_def mem_bucket_ops_def mem_list_def raw s3.select_convs bucket.select_convs option.case Let_def)
  then show "let rest = ?rest in \<exists>n > 0. s3_list (s3_at mem_bucket_ops b) k u (if m = 0 then None else Some (show_nat m)) =
      Inr \<lparr>lp_parts = take n rest, IsTruncated = (n < length rest),
        NextPartNumberMarker = (if take n rest = [] then None else Some (show_nat (PartNumber (last (take n rest)))))\<rparr>"
    unfolding Let_def by (intro exI [of _ "Suc (length ?rest)"]) simp
qed

lemma mem_keeps_uploads: "keeps_uploads mem_bucket_ops mem_see"
  unfolding keeps_uploads_def
proof (intro conjI allI impI)
  fix b :: mem_bucket and k u ct :: string and ps :: "stored_part list"
  show "\<exists>us. bk_uploads mem_bucket_ops b = Inr us \<and> set us \<subseteq> dom (co_uploads (mem_see b)) \<and> distinct us"
  proof -
    have "dom (co_uploads (mem_see b)) = fst ` set (mb_uploads b)" unfolding dom_map_of_conv_image_fst [symmetric] by (auto simp: dom_def)
    then show ?thesis by (simp add: mem_bucket_ops_def)
  qed
  show "\<exists>b'. bk_abort mem_bucket_ops k u b = Inr b' \<and> mem_see b' = (mem_see b)\<lparr>co_uploads := (co_uploads (mem_see b))((k, u) := None)\<rparr>"
    by (simp add: mem_bucket_ops_def mem_see_def map_of_without_one fun_eq_iff)
  let ?u = "concat (map (snd \<circ> fst) (mb_uploads b)) @ ''u''"
  have "length v \<le> length (concat (map (snd \<circ> fst) xs))" if "((k, v), x) \<in> set xs" for v x and xs :: "((string \<times> string) \<times> stored_part list) list"
    using that by (induction xs) auto
  then have "((k, ?u), x) \<notin> set (mb_uploads b)" for x by fastforce
  then have "map_of (mb_uploads b) (k, ?u) = None" by (force simp: map_of_eq_None_iff)
  then show "\<exists>u b'. bk_start mem_bucket_ops k ct b = Inr (u, b') \<and> u \<noteq> '''' \<and> co_uploads (mem_see b) (k, u) = None \<and>
        mem_see b' = (mem_see b)\<lparr>co_uploads := (co_uploads (mem_see b))((k, u) \<mapsto> [])\<rparr>"
    by (intro exI [of _ ?u]) (simp add: mem_bucket_ops_def mem_see_def mem_parts_def Let_def fun_eq_iff)
  assume c: "co_uploads (mem_see b) (k, u) = Some ps"
  then show "pages_of (s3_at mem_bucket_ops b) k u (map listed ps)" by (rule mem_pages)
  show "\<exists>b' et x. bk_complete mem_bucket_ops k u (map (\<lambda>p. (sp_number p, Some (sp_etag p))) ps) b = Inr b' \<and>
        mem_see b' = \<lparr>co_objects = (co_objects (mem_see b))(k \<mapsto> (concat (map sp_body ps), et)),
          co_uploads = (co_uploads (mem_see b))((k, u) := None)\<rparr> \<and> unquoted et = x @ ''-'' @ show_nat (length ps)"
  proof -
    obtain raw where raw: "map_of (mb_uploads b) (k, u) = Some raw" "ps = mem_parts raw" using c by auto
    have q: "unquoted (''e-'' @ show_nat n) = ''e'' @ ''-'' @ show_nat n" for n
      using show_nat_digits [of n] by (auto simp: unquoted_def codes_def is_digit_def filter_id_conv)
    let ?b = "b\<lparr>mb_objects := (k, concat (map sp_body ps), ''e-'' @ show_nat (length ps)) # mb_objects b,
      mb_uploads := filter (\<lambda>x. fst x \<noteq> (k, u)) (mb_uploads b)\<rparr>"
    have "bk_complete mem_bucket_ops k u (map (\<lambda>p. (sp_number p, Some (sp_etag p))) ps) b = Inr ?b"
      by (simp add: mem_bucket_ops_def raw(1) flip: raw(2))
    moreover have "mem_see ?b = \<lparr>co_objects = (co_objects (mem_see b))(k \<mapsto> (concat (map sp_body ps), ''e-'' @ show_nat (length ps))),
        co_uploads = (co_uploads (mem_see b))((k, u) := None)\<rparr>"
      by (simp add: mem_see_def map_of_without_one fun_eq_iff)
    ultimately show ?thesis using q by blast
  qed
qed

lemma url_of_grant: "url_query (mem_url g) = ''?'' @ show_nat (to_nat g)" "url_path (mem_url g) = ''/object''" "url_grant (mem_url g) = g"
proof -
  show q: "url_query (mem_url g) = ''?'' @ show_nat (to_nat g)" "url_path (mem_url g) = ''/object''" by (simp_all add: url_query_def url_path_def mem_url_def)
  show "url_grant (mem_url g) = g" by (simp add: url_grant_def q digits_val_show_nat)
qed

lemma grant_of_query: "url_query url = url_query (mem_url g) \<Longrightarrow> url_grant url = g"
  using url_of_grant(3) [of g] by (simp add: url_grant_def)

lemma mem_honours_urls: "honours_urls mem_bucket_ops mem_see mem_signer"
  unfolding honours_urls_def
proof (intro conjI allI impI)
  fix t e :: rat and k ct u url :: string and now :: rat and body :: "nat list" and b :: mem_bucket
  let ?put = "sign_put (mem_signer t) k ct"
  have put: "?put i = mem_url (Inl (t, k, ct, i) :: put_grant)" for i by (simp add: mem_signer_def)
  have ops: "bk_put mem_bucket_ops = mem_put" "bk_get mem_bucket_ops = mem_get" by (simp_all add: mem_bucket_ops_def)
  show "5 \<le> length (url_path (?put i))" for i by (simp add: put url_of_grant)
  show "\<exists>b' et. bk_put mem_bucket_ops (?put i) (Some ct) body now b = (200, b') \<and>
      mem_see b' = (mem_see b)\<lparr>co_objects := (co_objects (mem_see b))(k \<mapsto> (body, et))\<rparr>" if "in_force t i now" for i
    using that by (intro exI [of _ "b\<lparr>mb_objects := (k, body, ''e'') # mb_objects b\<rparr>"] exI [of _ "''e''"])
      (simp add: ops put mem_put_def url_of_grant mem_see_def Let_def)
  show "bk_put mem_bucket_ops (?put i) (Some ct) body now b = (403, b)" if "of_int (\<lfloor>t\<rfloor> + i) < now" for i
    using that by (simp add: ops put mem_put_def url_of_grant in_force_def Let_def)
  show "bk_put mem_bucket_ops url (Some ct) body now b = (403, b)"
    if "url_query url = url_query (?put i)" "url \<noteq> ?put i" for i
    using that grant_of_query [of url "Inl (t, k, ct, i) :: put_grant"] by (simp add: ops put mem_put_def Let_def)
  show "bk_get mem_bucket_ops (sign_get (mem_signer t) k i) now b = (200, body)"
    if "in_force t i now" "co_objects (mem_see b) k = Some (body, et)" for i et
    using that url_of_grant(3) [of "(t, k, i)"] by (simp add: ops mem_get_def mem_signer_def)
  show "\<exists>b' et. bk_put mem_bucket_ops (sign_part (mem_signer t) k u n i) None body now b = (200, b') \<and>
      mem_see b' = (mem_see b)\<lparr>co_uploads := (co_uploads (mem_see b))((k, u) \<mapsto> put_part \<lparr>sp_number = nat n, sp_body = body, sp_etag = et\<rparr> ps)\<rparr>"
    if c: "in_force t i now" "1 \<le> n" "co_uploads (mem_see b) (k, u) = Some ps" for i n ps
  proof -
    obtain raw where raw: "map_of (mb_uploads b) (k, u) = Some raw" "ps = mem_parts raw" using c(3) by auto
    have "1 \<le> nat n" using c(2) by linarith
    then have "mem_parts (\<lparr>sp_number = nat n, sp_body = body, sp_etag = ''e''\<rparr> # raw) = put_part \<lparr>sp_number = nat n, sp_body = body, sp_etag = ''e''\<rparr> ps"
      by (simp add: mem_parts_put raw(2))
    then show ?thesis
      using c(1) raw(1) by (intro exI [of _ "''e''"] exI)
        (auto simp: ops mem_put_def mem_signer_def url_of_grant mem_see_def Let_def fun_eq_iff)
  qed
qed

lemma mem_store_documented: "store_documented mem_bucket_ops mem_see mem_signer"
proof -
  have "keeps_bucket mem_bucket_ops mem_see" by (simp add: keeps_bucket_def mem_bucket_ops_def)
  then show ?thesis using mem_keeps_objects mem_keeps_uploads mem_honours_urls by (simp add: store_documented_def)
qed

subsection \<open>The runs on it\<close>

text \<open>The ids of the uploads, the clock of the calls, the settings.\<close>

definition mem_id :: "nat \<Rightarrow> string" where
  "mem_id j = ''00000000-0000-4000-8000-00000000000'' @ (if j = 6 then ''6'' else if j = 8 then ''8'' else ''1'')"

definition mem_draws :: "nat \<Rightarrow> draws" where
  "mem_draws j = (some_draws j)\<lparr>dr_appnow := (if j \<le> 11 then 0 else 5 / 2), dr_fid := mem_id j\<rparr>"

definition mem_lib :: "int \<Rightarrow> (unit, unit, mem_bucket) files_lib" where
  "mem_lib threshold = \<lparr>fl_env = some_env, fl_bk = mem_bucket_ops, fl_sg = mem_signer,
     fl_st = \<lparr>st_s3 = s3_at mem_bucket_ops \<lparr>mb_objects = [], mb_uploads = []\<rparr>, st_signer = mem_signer 0, putExpires = 300,
       partExpires = 3600, getExpires = 60, multipartThreshold = threshold\<rparr>,
     fl_bigint = Some, fl_fuel = 10\<rparr>"

definition mem_world :: "mem_bucket files_world" where
  "mem_world = \<lparr>fw_demo = some_world, fw_files = [], fw_bucket = \<lparr>mb_objects = [(''uploads/old'', [], ''e'')], mb_uploads = []\<rparr>, fw_port = None\<rparr>"

definition mem_env :: "string \<rightharpoonup> string" where
  "mem_env n = Some ''x''"

lemma mem_id_shape: "uuid_shape (mem_id j)"
proof -
  have "\<forall>i \<in> {1, 6, 8}. uuid_shape (mem_id i)" by code_simp
  moreover have "mem_id j \<in> mem_id ` {1, 6, 8}" by (auto simp: mem_id_def)
  ultimately show ?thesis by auto
qed

lemma mem_ready:
  "session_ready (mem_lib t) mem_draws (hashPassword (ae_scrypt some_env) [1] PASSWORD) 1 mem_world"
  "storageFromEnv mem_env = Inr \<lparr>sc_endpoint = Some ''x'', sc_region = ''x'', sc_accessKey = ''x'', sc_secretKey = ''x'', sc_bucket = ''x''\<rparr>"
  "\<forall>n \<in> set REQUIRED_DB. present (mem_env n)" "urls_last (mem_lib t) mem_draws" "waits mem_draws"
proof -
  have floor: "\<lfloor>5 / 2 :: rat\<rfloor> = 2" by (simp add: floor_eq_iff)
  then have "timely some_env mem_draws" by (simp add: timely_def mem_draws_def some_draws_def some_env_def example_env_def)
  then show "session_ready (mem_lib t) mem_draws (hashPassword (ae_scrypt some_env) [1] PASSWORD) 1 mem_world"
    using some_ready by (simp add: session_ready_def demo_ready_def mem_lib_def mem_world_def some_world_def)
  show "storageFromEnv mem_env = Inr \<lparr>sc_endpoint = Some ''x'', sc_region = ''x'', sc_accessKey = ''x'', sc_secretKey = ''x'', sc_bucket = ''x''\<rparr>"
    by (simp add: storageFromEnv_def mem_env_def)
  show "\<forall>n \<in> set REQUIRED_DB. present (mem_env n)" by (simp add: mem_env_def present_def)
  show "urls_last (mem_lib t) mem_draws" by (auto simp: urls_last_def in_force_def mem_draws_def mem_lib_def floor)
  show "waits mem_draws" by (simp add: waits_def in_force_def mem_draws_def)
qed

lemma mem_store_lib: "store_documented (fl_bk (mem_lib t)) mem_see (fl_sg (mem_lib t))"
  using mem_store_documented by (simp add: mem_lib_def)

lemma mem_keys: "card (keys_under p (mem_see (fw_bucket mem_world))) < 2"
proof -
  have "keys_under p (mem_see (fw_bucket mem_world)) \<subseteq> {''uploads/old''}" by (auto simp: keys_under_def mem_world_def split: if_splits)
  from card_mono [OF _ this] show ?thesis by simp
qed

lemma upload_demo_instance:
  "files_run (mem_lib 5242880) mem_env True (demo_upload (mem_lib 5242880) (hashPassword (ae_scrypt some_env) [1] PASSWORD) 1 mem_draws 4000 4001) mem_world = 0"
proof (rule upload_demo_passes [OF mem_store_lib mem_ready])
  show "\<forall>j. uuid_shape (dr_fid (mem_draws j))" by (simp add: mem_draws_def mem_id_shape)
  show "card (keys_under ''uploads/'' (mem_see (fw_bucket mem_world))) < fl_fuel (mem_lib 5242880)"
    using mem_keys by (rule less_trans) (simp add: mem_lib_def)
qed (simp_all add: mem_lib_def BYTES_def mem_draws_def mem_id_def)

theorem multipart_demo_passes_witness:
  "files_run (mem_lib 5242880) mem_env True
     (demo_multipart (mem_lib 5242880) (\<lambda>_. ''0'') (hashPassword (ae_scrypt some_env) [1] PASSWORD) 1 mem_draws 4000) mem_world = 0"
proof (rule multipart_demo_passes [OF mem_store_lib mem_ready(1-4)])
  show "uuid_shape (dr_fid (mem_draws 1))" by (simp add: mem_draws_def mem_id_shape)
  show "card (keys_under ''uploads/'' (mem_see (fw_bucket mem_world))) < fl_fuel (mem_lib 5242880)"
    using mem_keys by (rule less_trans) (simp add: mem_lib_def)
qed (simp_all add: mem_lib_def FILE_TOTAL_def MIB_def)

subsection \<open>The assets\<close>

text \<open>The headers of an asset are kept in its tag.\<close>

definition mem_asset :: "nat list \<times> string \<Rightarrow> string object" where
  "mem_asset x = (let (ct, cc) = from_nat (digits_val (codes (snd x))) in
     \<lparr>o_body = map char_of (fst x), o_type = Some ct, o_etag = None, o_cc = Some cc\<rparr>)"

definition mem_seen :: "mem_bucket \<Rightarrow> string \<Rightarrow> string object option" where
  "mem_seen b k = map_option mem_asset (map_of (mb_objects b) k)"

definition mem_assets :: "mem_bucket asset_store" where
  "mem_assets = \<lparr>as_put = (\<lambda>c b. Inr (b\<lparr>mb_objects := (put_key c, map of_char (put_body c), show_nat (to_nat (put_type c, put_cc c))) # mb_objects b\<rparr>)),
     as_get = (\<lambda>k b. case mem_seen b k of None \<Rightarrow> Inl no_such | Some x \<Rightarrow> Inr x),
     as_head = (\<lambda>k b. case mem_seen b k of None \<Rightarrow> Inl no_such | Some x \<Rightarrow> Inr (o_cc x)), as_direct = (\<lambda>_ _. 403)\<rparr>"

lemma mem_keeps_assets: "keeps_assets mem_assets mem_see mem_seen"
proof -
  have "mem_asset (map of_char s, show_nat (to_nat (ct, cc))) = \<lparr>o_body = s, o_type = Some ct, o_etag = None, o_cc = Some cc\<rparr>" for s ct cc
    by (simp add: mem_asset_def digits_val_show_nat)
  then show ?thesis by (auto simp: keeps_assets_def mem_assets_def mem_seen_def fun_eq_iff)
qed

text \<open>A stand-in for the hash: the hexadecimal digits of the first letters.\<close>

definition mem_hash :: "string \<Rightarrow> string" where
  "mem_hash s = (if s = CSS1 then ''11111111'' else ''22222222'')"

lemma cdn_demo_instance: "files_run (mem_lib 5242880) mem_env False (demo_cdn (mem_lib 5242880) mem_assets mem_hash (\<lambda>_. 0)) mem_world = 0"
proof (rule cdn_demo_passes [OF mem_store_lib mem_keeps_assets mem_ready(2)])
  show "hex_hash mem_hash" by (simp add: hex_hash_def mem_hash_def is_hex_def)
  have "CSS2 \<noteq> CSS1" by (simp add: CSS1_def CSS2_def)
  then show "app_key mem_hash CSS2 \<noteq> app_key mem_hash CSS1" by (simp add: app_key mem_hash_def)
  show "card (keys_under ''assets/'' (mem_see (fw_bucket mem_world))) < fl_fuel (mem_lib 5242880)"
    using mem_keys by (rule less_trans) (simp add: mem_lib_def)
  show "within_a_year (\<lambda>_. 0)" by (simp add: within_a_year_def)
qed (simp_all add: mem_lib_def mem_world_def some_world_def)

end
