(* ===== verification/CacheWaves.thy ===== *)
theory CacheWaves
  imports Cache
begin

text \<open>
  Many calls of \<open>CacheAside.get\<close> (\<open>src/redis/cache.ts\<close>) at once, each with its key, as the
  \<open>Promise.all\<close> of \<open>src/demo-cache.ts\<close> starts them.  The callers move in the order the given
  events say, each event one step of \<open>Cache.cache_step\<close>.  Callers of one key, with the lock
  and without, callers of keys of their own, and callers that move one after the other.
\<close>

subsection \<open>Waves\<close>

text \<open>An event: which caller moves, when, whether Redis is away, and \<open>Math.random()\<close>.\<close>

type_synonym wave_event = "nat \<times> int \<times> bool \<times> rat"

definition wave_view :: "json option res \<Rightarrow> bool \<Rightarrow> rat \<Rightarrow> cache_world" where
  "wave_view answer down random = \<lparr>w_down = down, w_random = random, w_load = answer, w_delay = 0, w_others = id\<rparr>"

definition wave_step :: "cache_options \<Rightarrow> (string \<Rightarrow> json option res) \<Rightarrow> string list \<Rightarrow> (nat \<Rightarrow> string) \<Rightarrow> wave_event \<Rightarrow> flight \<Rightarrow> flight" where
  "wave_step opts load keys token = (\<lambda>(c, now, down, random) (pcs, db, k).
     if c < length pcs
     then let (p', db') = cache_step opts (keys ! c) (token c) now (wave_view (load (keys ! c)) down random) (pcs ! c) db
          in (pcs[c := p'], db', k + loads (pcs ! c))
     else (pcs, db, k))"

definition wave_run :: "cache_options \<Rightarrow> (string \<Rightarrow> json option res) \<Rightarrow> string list \<Rightarrow> (nat \<Rightarrow> string) \<Rightarrow> wave_event list \<Rightarrow> flight \<Rightarrow> flight" where
  "wave_run opts load keys token evs s = fold (wave_step opts load keys token) evs s"

text \<open>\<open>Promise.all\<close>: an error if a call failed; it is pending while a call is under way.\<close>

definition promise_all :: "pc list \<Rightarrow> unit res" where
  "promise_all pcs =
     (case find (\<lambda>p. \<exists>e. p = Done (Inl e)) pcs of
        Some (Done (Inl e)) \<Rightarrow> Inl e
      | _ \<Rightarrow> if list_all (\<lambda>p. \<exists>r. p = Done r) pcs then Inr () else Inl (Error ''pending''))"

subsection \<open>More about a flight\<close>

text \<open>A step touches the entry of its key and its lock only.\<close>

lemma cache_step_frame:
  assumes "cache_step opts key token now w p db = (p', db')" "k \<noteq> key" "k \<noteq> lock_key key"
  shows "db' k = db k"
  using assms
  by (cases p)
    (auto simp: safe_def r_set_nx_def r_put_def UNLOCK_LUA_def r_del_def cache_write_def r_set_def
      split: if_splits sum.splits option.splits prod.splits)

text \<open>Callers that have not got their answer yet.\<close>

fun early :: "pc \<Rightarrow> bool" where
  "early (Write l v) = False"
| "early (Unlock r) = False"
| "early (Done r) = False"
| "early _ = True"

lemma early_step:
  assumes "cache_step opts key token now w p db = (p', db')" "early p" "loads p = 0" "gone t0 key db" "t0 \<le> now"
  shows "early p' \<and> db' key = db key"
proof -
  have "cache_read now d key db = Inr None" for d
    using gone_get [OF assms(4,5)] by (simp add: cache_read_def safe_def)
  then show ?thesis
    using assms(1-3) lock_other [of "w_down w" now "co_lockMs opts" key token db]
    by (cases p) (auto simp: loads_def split: if_splits prod.splits)
qed

text \<open>A lock that was free stays free or is held by a caller under way.\<close>

lemma lock_step:
  assumes "cache_step opts key token now w p db = (p', db')" "\<not> w_down w" "caller_ok t1 v p"
    and "leading p \<Longrightarrow> r_get now (lock_key key) db = Some (RawText token)"
  shows "leading p' \<or> db' (lock_key key) = None \<or> db' (lock_key key) = db (lock_key key) \<and> \<not> leading p"
  using assms
  by (cases p)
    (auto simp: leave_def safe_def r_set_nx_def UNLOCK_LUA_def r_del_def
      split: if_splits sum.splits option.splits prod.splits)

definition flight_more :: "int \<Rightarrow> string \<Rightarrow> flight \<Rightarrow> bool" where
  "flight_more t0 key = (\<lambda>(pcs, db, k).
     (gone t0 (lock_key key) db \<or> (\<exists>c < length pcs. leading (pcs ! c))) \<and>
     (k = 0 \<longrightarrow> gone t0 key db \<and> (\<forall>c < length pcs. early (pcs ! c))))"

lemma flight_more_step:
  assumes ok: "flight_ok t0 t1 v key token (pcs, db, k)" and more: "flight_more t0 key (pcs, db, k)"
    and c: "c < length pcs" and calm: "calm t0 t1 v (c, now, w)"
    and step: "cache_step opts key (token c) now w (pcs ! c) db = (p', db')"
  shows "flight_more t0 key (pcs[c := p'], db', k + loads (pcs ! c))"
proof -
  note d = flight_okD [OF ok]
  have w: "t0 \<le> now" "now < t1" "\<not> w_down w" using calm by (auto simp: calm_def)
  have held: "leading (pcs ! c) \<Longrightarrow> r_get now (lock_key key) db = Some (RawText (token c))"
    using kept_get [OF d(2) [OF c]] w by fastforce
  have "gone t0 (lock_key key) db' \<or> (\<exists>x < length pcs. leading (pcs[c := p'] ! x))"
  proof -
    have "leading p' \<or> db' (lock_key key) = None \<or> db' (lock_key key) = db (lock_key key) \<and> \<not> leading (pcs ! c)"
      using lock_step [OF step w(3) d(1) [OF c]] held by blast
    then show ?thesis
  proof (elim disjE conjE)
    assume "leading p'"
    then show ?thesis using c by (intro disjI2 exI [of _ c]) simp
  next
    assume "db' (lock_key key) = None"
    then show ?thesis by (simp add: gone_def)
  next
    assume same: "db' (lock_key key) = db (lock_key key)" and not: "\<not> leading (pcs ! c)"
    have "gone t0 (lock_key key) db \<or> (\<exists>x < length pcs. leading (pcs ! x))" using more by (simp add: flight_more_def)
    then show ?thesis using same not by (metis gone_def nth_list_update_neq)
  qed
  qed
  moreover have "gone t0 key db' \<and> (\<forall>x < length pcs. early (pcs[c := p'] ! x))" if k: "k + loads (pcs ! c) = 0"
  proof -
    have g: "gone t0 key db" "\<forall>x < length pcs. early (pcs ! x)" using more k by (simp_all add: flight_more_def)
    then have "early p' \<and> db' key = db key" using early_step [OF step _ _ _ w(1)] c k by simp
    then have "early (pcs[c := p'] ! x)" if "x < length pcs" for x
      using g(2) that by (cases "x = c") simp_all
    then show ?thesis using g(1) \<open>early p' \<and> db' key = db key\<close> by (simp add: gone_def)
  qed
  ultimately show ?thesis by (simp add: flight_more_def)
qed

text \<open>An entry that was written in the flight lives as long as its options say.\<close>

definition lasting :: "int \<Rightarrow> int \<Rightarrow> string \<Rightarrow> kv \<Rightarrow> bool" where
  "lasting t0 l key db \<longleftrightarrow> gone t0 key db \<or> (\<exists>v e. db key = Some (v, Some e) \<and> l \<le> e)"

lemma lasting_step:
  assumes step: "cache_step opts key token now w p db = (p', db')" and old: "lasting t0 (t0 + co_ttlSec opts * 1000) key db"
    and w: "t0 \<le> now" "0 \<le> w_random w" "w_random w < 1" "0 \<le> co_jitterSec opts"
  shows "lasting t0 (t0 + co_ttlSec opts * 1000) key db'"
proof (cases "\<exists>l v. p = Write l v")
  case True
  have "co_ttlSec opts \<le> jitteredTtl (w_random w) (co_ttlSec opts) (co_jitterSec opts)"
    using jitteredTtl_range [OF w(2-4)] by simp
  then show ?thesis
    using True step old w(1) by (auto simp: lasting_def gone_def cache_write_def safe_def r_set_def r_put_def split: if_splits)
next
  case False
  then have "db' key = db key"
    using step lock_other [of "w_down w" now "co_lockMs opts" key token db] unlock_other [of "w_down w" now key token db]
    by (cases p) (auto split: if_splits sum.splits option.splits prod.splits)
  then show ?thesis using old by (simp add: lasting_def gone_def)
qed

text \<open>All three at once, for one caller or many on a key.\<close>

definition flight_inv :: "cache_options \<Rightarrow> int \<Rightarrow> int \<Rightarrow> json \<Rightarrow> string \<Rightarrow> (nat \<Rightarrow> string) \<Rightarrow> flight \<Rightarrow> bool" where
  "flight_inv opts t0 t1 v key token s \<longleftrightarrow>
     flight_ok t0 t1 v key token s \<and> flight_more t0 key s \<and> lasting t0 (t0 + co_ttlSec opts * 1000) key (fst (snd s))"

lemma flight_inv_start:
  "gone t0 key db \<Longrightarrow> gone t0 (lock_key key) db \<Longrightarrow> flight_inv opts t0 t1 v key token (replicate n Read, db, 0)"
  using flight_start by (simp add: flight_inv_def flight_more_def lasting_def)

lemma flight_inv_step:
  assumes inv: "flight_inv opts t0 t1 v key token (pcs, db, k)" and c: "c < length pcs"
    and room: "roomy opts t0 t1" and calm: "calm t0 t1 v (c, now, w)" and v: "v \<noteq> JNull" and inj: "inj token"
    and step: "cache_step opts key (token c) now w (pcs ! c) db = (p', db')"
  shows "flight_inv opts t0 t1 v key token (pcs[c := p'], db', k + loads (pcs ! c))"
proof -
  have i: "flight_ok t0 t1 v key token (pcs, db, k)" "flight_more t0 key (pcs, db, k)"
    "lasting t0 (t0 + co_ttlSec opts * 1000) key db" using inv by (simp_all add: flight_inv_def)
  have w: "t0 \<le> now" "0 \<le> w_random w" "w_random w < 1" "0 \<le> co_jitterSec opts"
    using calm room by (simp_all add: calm_def roomy_def)
  show ?thesis
    using flight_cache_step [OF i(1) c room calm v inj step] flight_more_step [OF i(1,2) c calm step]
      lasting_step [OF step i(3) w] by (simp add: flight_inv_def)
qed

text \<open>When all have returned, the loader was called once, the entry is there, and the lock is free.\<close>

lemma flight_inv_end:
  assumes inv: "flight_inv opts t0 t1 v key token (pcs, db, k)" and fin: "\<forall>p \<in> set pcs. \<exists>r. p = Done r" "pcs \<noteq> []"
    and t: "t0 \<le> t1"
  shows "k = 1" "kept (t0 + co_ttlSec opts * 1000) key (RawJson v) db" "gone t0 (lock_key key) db"
    "\<forall>p \<in> set pcs. p = Done (Inr (Some v))"
proof -
  have i: "flight_ok t0 t1 v key token (pcs, db, k)" "flight_more t0 key (pcs, db, k)"
    "lasting t0 (t0 + co_ttlSec opts * 1000) key db" using inv by (simp_all add: flight_inv_def)
  have at: "\<exists>r. pcs ! c = Done r" if "c < length pcs" for c using fin(1) that by simp
  show "gone t0 (lock_key key) db" using i(2) at by (fastforce simp: flight_more_def)
  have "k \<noteq> 0"
    using i(2) fin(2) at [of 0] by (auto simp: flight_more_def)
  moreover have "\<not> (\<exists>x < length pcs. \<exists>l. pcs ! x = Write l v)" using at by fastforce
  ultimately have k: "k = 1" "kept t1 key (RawJson v) db" using flight_okD(5) [OF i(1)] by auto
  then show "k = 1" by simp
  have "\<not> gone t0 key db" using kept_not_gone [OF k(2) t] .
  then show "kept (t0 + co_ttlSec opts * 1000) key (RawJson v) db" using i(3) k(2) by (auto simp: lasting_def kept_def)
  show "\<forall>p \<in> set pcs. p = Done (Inr (Some v))"
    using flight_okD(1) [OF i(1)] at by (fastforce simp: in_set_conv_nth)
qed

subsection \<open>A wave on one key\<close>

lemma wave_step_eq:
  assumes "c < length pcs"
    and "cache_step opts (keys ! c) (token c) now (wave_view (load (keys ! c)) down random) (pcs ! c) db = (p', db')"
  shows "wave_step opts load keys token (c, now, down, random) (pcs, db, k) = (pcs[c := p'], db', k + loads (pcs ! c))"
  using assms by (simp add: wave_step_def)

text \<open>An event in time, with Redis there.\<close>

definition event_calm :: "int \<Rightarrow> int \<Rightarrow> wave_event \<Rightarrow> bool" where
  "event_calm t0 t1 = (\<lambda>(c, now, down, random). t0 \<le> now \<and> now < t1 \<and> \<not> down \<and> 0 \<le> random \<and> random < 1)"

lemma calm_view: "event_calm t0 t1 (c, now, down, random) \<Longrightarrow> calm t0 t1 v (i, now, wave_view (Inr (Some v)) down random)"
  by (simp add: event_calm_def calm_def wave_view_def)

lemma wave_inv:
  assumes room: "roomy opts t0 t1" and v: "v \<noteq> JNull" "load key = Inr (Some v)" and inj: "inj token"
  shows "flight_inv opts t0 t1 v key token s \<Longrightarrow> length (fst s) = n \<Longrightarrow> list_all (event_calm t0 t1) evs \<Longrightarrow>
    flight_inv opts t0 t1 v key token (wave_run opts load (replicate n key) token evs s) \<and>
    length (fst (wave_run opts load (replicate n key) token evs s)) = n"
proof (induction evs arbitrary: s)
  case (Cons ev evs)
  obtain c now down random where ev: "ev = (c, now, down, random)" by (metis prod_cases4)
  obtain pcs db k where s: "s = (pcs, db, k)" by (cases s)
  have "flight_inv opts t0 t1 v key token (wave_step opts load (replicate n key) token ev s) \<and>
      length (fst (wave_step opts load (replicate n key) token ev s)) = n"
  proof (cases "c < length pcs")
    case True
    obtain p' db' where st: "cache_step opts key (token c) now (wave_view (load key) down random) (pcs ! c) db = (p', db')"
      by fastforce
    have "c < n" using True Cons.prems(2) s by simp
    then have "wave_step opts load (replicate n key) token ev s = (pcs[c := p'], db', k + loads (pcs ! c))"
      unfolding ev s using wave_step_eq [OF True] st by simp
    moreover have "calm t0 t1 v (c, now, wave_view (load key) down random)"
      using calm_view [of t0 t1 c now down random v c] Cons.prems(3) by (simp add: v(2) ev)
    ultimately show ?thesis
      using flight_inv_step [OF _ True room _ v(1) inj st, of k] Cons.prems(1,2) by (simp add: s)
  next
    case False
    then show ?thesis using Cons.prems by (simp add: wave_step_def ev s)
  qed
  then show ?case using Cons.IH Cons.prems(3) by (simp add: wave_run_def)
qed (simp add: wave_run_def)

text \<open>Other entries and locks are not touched.\<close>

lemma wave_frame:
  assumes "\<forall>key \<in> set keys. k \<noteq> key \<and> k \<noteq> lock_key key" "length (fst s) = length keys"
  shows "fst (snd (wave_run opts load keys token evs s)) k = fst (snd s) k"
  using assms(2)
proof (induction evs arbitrary: s)
  case (Cons ev evs)
  obtain c now down random where ev: "ev = (c, now, down, random)" by (metis prod_cases4)
  obtain pcs db j where s: "s = (pcs, db, j)" by (cases s)
  let ?s' = "wave_step opts load keys token ev s"
  have "fst (snd ?s') k = db k \<and> length (fst ?s') = length keys"
  proof (cases "c < length pcs")
    case True
    obtain p' db' where st: "cache_step opts (keys ! c) (token c) now (wave_view (load (keys ! c)) down random) (pcs ! c) db = (p', db')"
      by fastforce
    have "c < length keys" using True Cons.prems s by simp
    then have "db' k = db k" using cache_step_frame [OF st] assms(1) nth_mem [of c keys] by metis
    then show ?thesis using Cons.prems True st by (simp add: ev s wave_step_def)
  next
    case False
    then show ?thesis using Cons.prems by (simp add: wave_step_def ev s)
  qed
  then show ?case using Cons.IH [of ?s'] by (simp add: wave_run_def s)
qed (simp add: wave_run_def)

lemma promise_all_pending:
  assumes "\<forall>p \<in> set pcs. \<forall>e. p \<noteq> Done (Inl e)"
  shows "promise_all pcs = Inr () \<and> (\<forall>p \<in> set pcs. \<exists>r. p = Done r) \<or> promise_all pcs = Inl (Error ''pending'')"
proof -
  have "find (\<lambda>p. \<exists>e. p = Done (Inl e)) pcs = None" using assms by (auto simp: find_None_iff)
  then show ?thesis by (auto simp: promise_all_def list_all_iff)
qed

text \<open>Fifty callers of one key, with the lock.\<close>

lemma flight_inv_no_error:
  assumes "flight_inv opts t0 t1 v key token (pcs, db, k)"
  shows "\<forall>p \<in> set pcs. \<forall>e. p \<noteq> Done (Inl e)"
  using flight_okD(1) [of t0 t1 v key token pcs db k] assms by (fastforce simp: flight_inv_def in_set_conv_nth)

lemma stampede:
  assumes room: "roomy opts t0 t1" "t0 \<le> t1" and v: "v \<noteq> JNull" "load key = Inr (Some v)" and inj: "inj token"
    and free: "gone t0 key db" "gone t0 (lock_key key) db" and evs: "list_all (event_calm t0 t1) evs" and n: "0 < n"
    and run: "wave_run opts load (replicate n key) token evs (replicate n Read, db, 0) = (pcs, db', k)"
  shows "promise_all pcs = Inl (Error ''pending'') \<or>
    promise_all pcs = Inr () \<and> k = 1 \<and> kept (t0 + co_ttlSec opts * 1000) key (RawJson v) db' \<and> gone t0 (lock_key key) db'"
proof -
  have inv: "flight_inv opts t0 t1 v key token (pcs, db', k)" and len: "length pcs = n"
    using wave_inv [of opts t0 t1 v load key token "(replicate n Read, db, 0)" n evs, OF room(1) v inj] run evs
      flight_inv_start [OF free, of opts t1 v token n] by simp_all
  have "pcs \<noteq> []" using len n by auto
  then show ?thesis
    using promise_all_pending [OF flight_inv_no_error [OF inv]] flight_inv_end [OF inv _ _ room(2)] by metis
qed

subsection \<open>Callers of keys of their own\<close>

lemma flight_inv_cong:
  assumes "db' key = db key" "db' (lock_key key) = db (lock_key key)"
  shows "flight_inv opts t0 t1 v key token (pcs, db', k) = flight_inv opts t0 t1 v key token (pcs, db, k)"
  using assms by (simp add: flight_inv_def flight_ok_def flight_more_def lasting_def gone_def kept_def)

definition own_inv :: "cache_options \<Rightarrow> int \<Rightarrow> int \<Rightarrow> (string \<Rightarrow> json option res) \<Rightarrow> string list \<Rightarrow> (nat \<Rightarrow> string) \<Rightarrow> flight \<Rightarrow> bool" where
  "own_inv opts t0 t1 load keys token = (\<lambda>(pcs, db, k). length pcs = length keys \<and>
     (\<forall>c < length keys. \<forall>v. load (keys ! c) = Inr (Some v) \<longrightarrow>
       (\<exists>j. flight_inv opts t0 t1 v (keys ! c) (\<lambda>i. token (c + i)) ([pcs ! c], db, j))))"

definition loadable :: "(string \<Rightarrow> json option res) \<Rightarrow> string list \<Rightarrow> bool" where
  "loadable load keys \<longleftrightarrow> distinct keys \<and> (\<forall>key \<in> set keys. \<forall>k \<in> set keys. key \<noteq> lock_key k) \<and>
     (\<forall>key \<in> set keys. \<exists>v. load key = Inr (Some v) \<and> v \<noteq> JNull)"

lemma own_inv_step:
  assumes room: "roomy opts t0 t1" and keys: "loadable load keys" and inj: "inj token"
    and inv: "own_inv opts t0 t1 load keys token s" and calm: "event_calm t0 t1 ev"
  shows "own_inv opts t0 t1 load keys token (wave_step opts load keys token ev s)"
proof -
  obtain c now down random where ev: "ev = (c, now, down, random)" by (metis prod_cases4)
  obtain pcs db k where s: "s = (pcs, db, k)" by (cases s)
  have len: "length pcs = length keys" using inv by (simp add: own_inv_def s)
  show ?thesis
  proof (cases "c < length pcs")
    case False
    then show ?thesis using inv by (simp add: wave_step_def ev s)
  next
    case True
    let ?key = "keys ! c"
    obtain v where v: "load ?key = Inr (Some v)" "v \<noteq> JNull"
      using keys True len by (metis loadable_def nth_mem)
    obtain p' db' where st: "cache_step opts ?key (token c) now (wave_view (load ?key) down random) (pcs ! c) db = (p', db')"
      by fastforce
    have "\<exists>j. flight_inv opts t0 t1 x (keys ! d) (\<lambda>i. token (d + i)) ([pcs[c := p'] ! d], db', j)"
      if d: "d < length keys" and x: "load (keys ! d) = Inr (Some x)" for d x
    proof (cases "d = c")
      case self: True
      have "x = v" using x v(1) self by simp
      moreover obtain j where "flight_inv opts t0 t1 v ?key (\<lambda>i. token (c + i)) ([pcs ! c], db, j)"
        using inv v(1) d self by (auto simp: own_inv_def s)
      moreover have "inj (\<lambda>i. token (c + i))" using inj by (simp add: inj_on_def) (meson add_left_imp_eq)
      ultimately have "flight_inv opts t0 t1 v ?key (\<lambda>i. token (c + i)) ([pcs ! c][0 := p'], db', j + loads ([pcs ! c] ! 0))"
        using flight_inv_step [where c = 0 and token = "\<lambda>i. token (c + i)" and pcs = "[pcs ! c]", OF _ _ room _ v(2)]
          calm_view [of t0 t1 c now down random v 0] calm st by (simp add: v(1) ev)
      then show ?thesis using self True \<open>x = v\<close> by auto
    next
      case other: False
      have "keys ! d \<noteq> ?key" "keys ! d \<noteq> lock_key ?key" "?key \<noteq> lock_key (keys ! d)"
        using keys d True other len by (auto simp: loadable_def nth_eq_iff_index_eq)
      then have "db' (keys ! d) = db (keys ! d)" "db' (lock_key (keys ! d)) = db (lock_key (keys ! d))"
        using cache_step_frame [OF st] by (auto simp: lock_key_def)
      moreover obtain j where "flight_inv opts t0 t1 x (keys ! d) (\<lambda>i. token (d + i)) ([pcs ! d], db, j)"
        using inv d x by (auto simp: own_inv_def s)
      ultimately have "flight_inv opts t0 t1 x (keys ! d) (\<lambda>i. token (d + i)) ([pcs ! d], db', j)"
        using flight_inv_cong [of db' "keys ! d" db opts t0 t1 x "\<lambda>i. token (d + i)" "[pcs ! d]" j] by simp
      then show ?thesis using other by auto
    qed
    then show ?thesis using len True st by (simp add: own_inv_def wave_step_def ev s)
  qed
qed

lemma own_inv_start:
  assumes free: "\<forall>key \<in> set keys. gone t0 key db \<and> gone t0 (lock_key key) db"
  shows "own_inv opts t0 t1 load keys token (replicate (length keys) Read, db, 0)"
proof -
  have "flight_inv opts t0 t1 v (keys ! c) (\<lambda>i. token (c + i)) ([Read], db, 0)" if "c < length keys" for c v
    using flight_inv_start [of t0 "keys ! c" db opts t1 v "\<lambda>i. token (c + i)" 1] free that by simp
  then show ?thesis by (auto simp: own_inv_def)
qed

lemma own_inv_run:
  assumes "roomy opts t0 t1" "loadable load keys" "inj token"
  shows "own_inv opts t0 t1 load keys token s \<Longrightarrow> list_all (event_calm t0 t1) evs \<Longrightarrow>
    own_inv opts t0 t1 load keys token (wave_run opts load keys token evs s)"
proof (induction evs arbitrary: s)
  case (Cons ev evs)
  then show ?case using own_inv_step [OF assms] by (simp add: wave_run_def)
qed (simp add: wave_run_def)

lemma warm_up:
  assumes room: "roomy opts t0 t1" "t0 \<le> t1" and keys: "loadable load keys" and inj: "inj token"
    and free: "\<forall>key \<in> set keys. gone t0 key db \<and> gone t0 (lock_key key) db" and evs: "list_all (event_calm t0 t1) evs"
    and run: "wave_run opts load keys token evs (replicate (length keys) Read, db, 0) = (pcs, db', k)"
  shows "promise_all pcs = Inl (Error ''pending'') \<or>
    promise_all pcs = Inr () \<and> (\<forall>key \<in> set keys. gone t0 (lock_key key) db' \<and>
      (\<exists>v. load key = Inr (Some v) \<and> kept (t0 + co_ttlSec opts * 1000) key (RawJson v) db'))"
proof -
  have "own_inv opts t0 t1 load keys token (replicate (length keys) Read, db, 0)" using own_inv_start free .
  then have inv: "own_inv opts t0 t1 load keys token (pcs, db', k)" using own_inv_run [OF room(1) keys inj _ evs] run by metis
  have len: "length pcs = length keys" using inv by (simp add: own_inv_def)
  have solo: "\<exists>v j. load (keys ! c) = Inr (Some v) \<and>
      flight_inv opts t0 t1 v (keys ! c) (\<lambda>i. token (c + i)) ([pcs ! c], db', j)" if "c < length keys" for c
  proof -
    have "keys ! c \<in> set keys" using that by simp
    then obtain v where "load (keys ! c) = Inr (Some v)" using keys unfolding loadable_def by blast
    then show ?thesis using inv \<open>c < length keys\<close> by (auto simp: own_inv_def)
  qed
  have "\<forall>p \<in> set pcs. \<forall>e. p \<noteq> Done (Inl e)"
    using solo flight_inv_no_error len by (metis in_set_conv_nth list.set_intros(1))
  then consider "promise_all pcs = Inl (Error ''pending'')" | "promise_all pcs = Inr ()" "\<forall>p \<in> set pcs. \<exists>r. p = Done r"
    using promise_all_pending by blast
  then show ?thesis
  proof cases
    case 2
    have "gone t0 (lock_key key) db' \<and> (\<exists>v. load key = Inr (Some v) \<and> kept (t0 + co_ttlSec opts * 1000) key (RawJson v) db')"
      if "key \<in> set keys" for key
    proof -
      obtain c where c: "c < length keys" "key = keys ! c" using \<open>key \<in> set keys\<close> by (metis in_set_conv_nth)
      obtain v j where i: "load key = Inr (Some v)" "flight_inv opts t0 t1 v key (\<lambda>i. token (c + i)) ([pcs ! c], db', j)"
        using solo [OF c(1)] c(2) by blast
      have "\<forall>p \<in> set [pcs ! c]. \<exists>r. p = Done r" using 2(2) c(1) len by simp
      then show ?thesis using flight_inv_end(2,3) [OF i(2) _ _ room(2)] i(1) by blast
    qed
    then show ?thesis using 2(1) by blast
  qed blast
qed

subsection \<open>Callers without the lock\<close>

definition naive_ok :: "json \<Rightarrow> string \<Rightarrow> flight \<Rightarrow> bool" where
  "naive_ok v key = (\<lambda>(pcs, db, k). (\<forall>p \<in> set pcs. p \<in> {Read, Load False, Write False v, Done (Inr (Some v))}) \<and>
     entry_good (\<lambda>x. x = v) key db)"

lemma naive_step:
  assumes "\<not> co_singleFlight opts" "v \<noteq> JNull" "w_load w = Inr (Some v)" "entry_good (\<lambda>x. x = v) key db"
    and "p \<in> {Read, Load False, Write False v, Done (Inr (Some v))}"
    and "cache_step opts key token now w p db = (p', db')"
  shows "p' \<in> {Read, Load False, Write False v, Done (Inr (Some v))} \<and> entry_good (\<lambda>x. x = v) key db'"
  using assms cache_read_good [OF assms(4), of now "w_down w"]
    cache_write_good [OF assms(4), of v opts now "w_down w" "w_random w"]
  by (auto simp: leave_def)

lemma naive_run:
  assumes opts: "\<not> co_singleFlight opts" and v: "v \<noteq> JNull" "load key = Inr (Some v)"
  shows "naive_ok v key s \<Longrightarrow> length (fst s) = n \<Longrightarrow> naive_ok v key (wave_run opts load (replicate n key) token evs s)"
proof (induction evs arbitrary: s)
  case (Cons ev evs)
  obtain c now down random where ev: "ev = (c, now, down, random)" by (metis prod_cases4)
  obtain pcs db k where s: "s = (pcs, db, k)" by (cases s)
  let ?s' = "wave_step opts load (replicate n key) token ev s"
  have "naive_ok v key ?s' \<and> length (fst ?s') = n"
  proof (cases "c < length pcs")
    case True
    obtain p' db' where st: "cache_step opts key (token c) now (wave_view (load key) down random) (pcs ! c) db = (p', db')"
      by fastforce
    have "pcs ! c \<in> {Read, Load False, Write False v, Done (Inr (Some v))}" "entry_good (\<lambda>x. x = v) key db"
      using Cons.prems(1) nth_mem [OF True] by (simp_all add: naive_ok_def s)
    then have "p' \<in> {Read, Load False, Write False v, Done (Inr (Some v))} \<and> entry_good (\<lambda>x. x = v) key db'"
      using naive_step [OF opts v(1) _ _ _ st] v(2) by (simp add: wave_view_def)
    moreover have "?s' = (pcs[c := p'], db', k + loads (pcs ! c))"
      using True st Cons.prems(2) by (simp add: wave_step_def ev s)
    ultimately show ?thesis
      using Cons.prems set_update_subset_insert [of pcs c p'] unfolding naive_ok_def s by auto
  next
    case False
    then show ?thesis using Cons.prems by (simp add: wave_step_def ev s)
  qed
  then show ?case using Cons.IH [of ?s'] by (simp add: wave_run_def)
qed (simp add: wave_run_def)

lemma naive_wave:
  assumes "\<not> co_singleFlight opts" "v \<noteq> JNull" "load key = Inr (Some v)" "entry_good (\<lambda>x. x = v) key db"
    and run: "wave_run opts load (replicate n key) token evs (replicate n Read, db, 0) = (pcs, db', k)"
  shows "promise_all pcs = Inr () \<or> promise_all pcs = Inl (Error ''pending'')"
proof -
  have "naive_ok v key (replicate n Read, db, 0)" using assms(4) by (auto simp: naive_ok_def)
  then have "naive_ok v key (pcs, db', k)" using naive_run [of opts v load key, OF assms(1-3), of "(replicate n Read, db, 0)" n token evs] run by simp
  then have "\<forall>p \<in> set pcs. \<forall>e. p \<noteq> Done (Inl e)" by (fastforce simp: naive_ok_def)
  then show ?thesis using promise_all_pending by blast
qed

subsection \<open>A warm entry\<close>

lemma warm_read:
  assumes kept: "kept l key (RawJson v) db" "v \<noteq> JNull" and t: "t0 \<le> l" and evs: "list_all (event_calm t0 l) evs"
    and run: "wave_run opts load [key] token evs ([p], db, 0) = (pcs, db', k)" and p: "p \<in> {Read, Done (Inr (Some v))}"
  shows "db' = db \<and> k = 0 \<and> (promise_all pcs = Inr () \<or> promise_all pcs = Inl (Error ''pending'')) \<and>
    (p \<noteq> Read \<or> evs \<noteq> [] \<and> fst (hd evs) = 0 \<longrightarrow> promise_all pcs = Inr ())"
  using run p evs
proof (induction evs arbitrary: p)
  case Nil
  then show ?case by (auto simp: wave_run_def promise_all_def)
next
  case (Cons ev evs)
  obtain c now down random where ev: "ev = (c, now, down, random)" by (metis prod_cases4)
  have at: "now \<le> l" "\<not> down" using Cons.prems(3) by (auto simp: ev event_calm_def)
  then have "r_get now key db = Some (RawJson v)" using kept_get kept(1) by blast
  then have "cache_read now False key db = Inr (Some v)" using kept(2) by (simp add: cache_read_up)
  then have "\<exists>q \<in> {Read, Done (Inr (Some v))}. wave_step opts load [key] token ev ([p], db, 0) = ([q], db, 0) \<and>
      (p \<noteq> Read \<or> c = 0 \<longrightarrow> q \<noteq> Read)"
    using Cons.prems(2) at(2) by (cases c) (auto simp: wave_step_def ev wave_view_def loads_def)
  then obtain q where q: "q \<in> {Read, Done (Inr (Some v))}" "wave_step opts load [key] token ev ([p], db, 0) = ([q], db, 0)"
      "p \<noteq> Read \<or> c = 0 \<Longrightarrow> q \<noteq> Read" by blast
  then have "wave_run opts load [key] token evs ([q], db, 0) = (pcs, db', k)"
    using Cons.prems(1) by (simp add: wave_run_def)
  then show ?case using Cons.IH [of q] q(1,3) Cons.prems(3) by (auto simp: ev)
qed

subsection \<open>Callers that move one after the other\<close>

text \<open>The schedule in which each caller makes all its moves before the next one starts: no call
  is left under way, so the run passes outright once something is evicted.\<close>

definition in_turn :: "nat \<Rightarrow> int \<Rightarrow> wave_event list" where
  "in_turn n t = concat (map (\<lambda>c. replicate 6 (c, t, False, 0)) [0..<n])"

lemma in_turn_Suc: "in_turn (Suc n) t = in_turn n t @ replicate 6 (n, t, False, 0)"
  by (simp add: in_turn_def)

lemma in_turn_calm: "t0 \<le> t \<Longrightarrow> t < t1 \<Longrightarrow> list_all (event_calm t0 t1) (in_turn n t)"
  by (auto simp: in_turn_def list_all_iff event_calm_def)

text \<open>Moves a caller that is not kept waiting has left.\<close>

fun steps_to_go :: "pc \<Rightarrow> nat" where
  "steps_to_go Read = 6"
| "steps_to_go Lock = 5"
| "steps_to_go Recheck = 4"
| "steps_to_go (Load l) = 3"
| "steps_to_go (Write l v) = 2"
| "steps_to_go (Unlock r) = 1"
| "steps_to_go (Done r) = 0"
| "steps_to_go _ = 7"

lemma steps_to_go_0: "steps_to_go p = 0 \<longleftrightarrow> (\<exists>r. p = Done r)"
  by (cases p) auto

lemma unhindered:
  assumes "cache_step opts key token now w p db = (p', db')" "steps_to_go p \<le> 6" "w_load w = Inr (Some v)"
    and "p = Lock \<Longrightarrow> \<not> w_down w \<and> 0 < co_lockMs opts \<and> r_get now (lock_key key) db = None"
  shows "steps_to_go p' \<le> steps_to_go p - 1"
  using assms
  by (cases p) (auto simp: leave_def safe_def r_set_nx_def split: if_splits sum.splits option.splits prod.splits)

lemma wave_run_Cons: "wave_run opts load keys token (e # es) s = wave_run opts load keys token es (wave_step opts load keys token e s)"
  by (simp add: wave_run_def)

text \<open>One caller's moves when the lock is free whenever it asks for it.  \<open>P\<close> is what the wave keeps.\<close>

lemma turn_done:
  assumes P: "\<And>s. P s \<Longrightarrow> P (wave_step opts load keys token (c, t, False, 0) s)"
    and here: "\<And>s. P s \<Longrightarrow> c < length (fst s)"
    and load: "load (keys ! c) = Inr (Some v)"
    and free: "\<And>pcs db k. P (pcs, db, k) \<Longrightarrow> pcs ! c = Lock \<Longrightarrow> 0 < co_lockMs opts \<and> r_get t (lock_key (keys ! c)) db = None"
  shows "P s \<Longrightarrow> steps_to_go (fst s ! c) \<le> 6 \<Longrightarrow>
    steps_to_go (fst (wave_run opts load keys token (replicate n (c, t, False, 0)) s) ! c) \<le> steps_to_go (fst s ! c) - n"
proof (induction n arbitrary: s)
  case (Suc n)
  obtain pcs db k where s: "s = (pcs, db, k)" by (cases s)
  have c: "c < length pcs" using here [OF Suc.prems(1)] s by simp
  obtain p' db' where st: "cache_step opts (keys ! c) (token c) t (wave_view (load (keys ! c)) False 0) (pcs ! c) db = (p', db')"
    by fastforce
  let ?s' = "wave_step opts load keys token (c, t, False, 0) s"
  have s': "?s' = (pcs[c := p'], db', k + loads (pcs ! c))" unfolding s using c st by (rule wave_step_eq)
  have less: "steps_to_go p' \<le> steps_to_go (pcs ! c) - 1"
    using unhindered [OF st, of v] free [of pcs db k] Suc.prems s load by (simp add: wave_view_def)
  then have "steps_to_go (fst ?s' ! c) \<le> steps_to_go (fst s ! c) - 1" using s' s c by simp
  moreover have "steps_to_go (fst (wave_run opts load keys token (replicate n (c, t, False, 0)) ?s') ! c) \<le> steps_to_go (fst ?s' ! c) - n"
    using Suc.IH [of ?s'] P [OF Suc.prems(1)] Suc.prems(2) calculation by linarith
  ultimately show ?case unfolding replicate_Suc wave_run_Cons by linarith
qed (simp add: wave_run_def)

lemma wave_run_append: "wave_run opts load keys token (e1 @ e2) s = wave_run opts load keys token e2 (wave_run opts load keys token e1 s)"
  by (simp add: wave_run_def)

text \<open>The moves of a caller leave the other callers where they are.\<close>

lemma turn_others:
  "d \<noteq> c \<Longrightarrow> fst (wave_run opts load keys token (replicate n (c, t, down, x)) s) ! d = fst s ! d"
proof (induction n arbitrary: s)
  case (Suc n)
  have "fst (wave_step opts load keys token (c, t, down, x) s) ! d = fst s ! d"
    using Suc.prems by (auto simp: wave_step_def split: prod.split)
  then show ?case using Suc by (simp add: wave_run_def)
qed (simp add: wave_run_def)

text \<open>So after the turns of the first \<open>m\<close> callers they have returned, and the others have not begun.\<close>

lemma turns_done:
  assumes P: "\<And>c s. c < n \<Longrightarrow> P s \<Longrightarrow> P (wave_step opts load keys token (c, t, False, 0) s)"
    and len: "\<And>s. P s \<Longrightarrow> length (fst s) = n"
    and load: "\<And>c. c < n \<Longrightarrow> \<exists>v. load (keys ! c) = Inr (Some v)"
    and free: "\<And>c pcs db k. P (pcs, db, k) \<Longrightarrow> c < n \<Longrightarrow> pcs ! c = Lock \<Longrightarrow> \<forall>d < n. d \<noteq> c \<longrightarrow> \<not> leading (pcs ! d) \<Longrightarrow>
      0 < co_lockMs opts \<and> r_get t (lock_key (keys ! c)) db = None"
    and start: "P (replicate n Read, db, 0)"
  shows "m \<le> n \<Longrightarrow> P (wave_run opts load keys token (in_turn m t) (replicate n Read, db, 0)) \<and>
    (\<forall>d < n. if d < m then \<exists>r. fst (wave_run opts load keys token (in_turn m t) (replicate n Read, db, 0)) ! d = Done r
       else fst (wave_run opts load keys token (in_turn m t) (replicate n Read, db, 0)) ! d = Read)"
proof (induction m)
  case 0
  then show ?case using start by (simp add: in_turn_def wave_run_def)
next
  case (Suc m)
  let ?s = "wave_run opts load keys token (in_turn m t) (replicate n Read, db, 0)"
  let ?s' = "wave_run opts load keys token (in_turn (Suc m) t) (replicate n Read, db, 0)"
  have s': "?s' = wave_run opts load keys token (replicate 6 (m, t, False, 0)) ?s" by (simp add: in_turn_Suc wave_run_append)
  have m: "m < n" using Suc.prems by simp
  have P_run: "P s \<Longrightarrow> P (wave_run opts load keys token (replicate j (m, t, False, 0)) s)" for j s
    by (induction j arbitrary: s) (simp_all add: wave_run_def P [OF m])
  have here: "P ?s" "fst ?s ! m = Read" "\<forall>d < n. d \<noteq> m \<longrightarrow> \<not> leading (fst ?s ! d)"
    using Suc m by (auto split: if_splits)
  define Q where "Q s \<longleftrightarrow> P s \<and> (\<forall>d < n. d \<noteq> m \<longrightarrow> \<not> leading (fst s ! d))" for s
  have Q_step: "Q s \<Longrightarrow> Q (wave_step opts load keys token (m, t, False, 0) s)" for s
    using P [OF m] turn_others [of _ m opts load keys token 1 t False 0 s] by (simp add: Q_def wave_run_def)
  obtain v where v: "load (keys ! m) = Inr (Some v)" using load [OF m] by blast
  have "steps_to_go (fst ?s' ! m) \<le> steps_to_go (fst ?s ! m) - 6"
    unfolding s'
  proof (rule turn_done [where P = Q and v = v, OF Q_step _ v])
    show "m < length (fst s)" if "Q s" for s using that len m by (simp add: Q_def)
    show "0 < co_lockMs opts \<and> r_get t (lock_key (keys ! m)) db = None" if "Q (pcs, db, k)" "pcs ! m = Lock" for pcs db k
      using free [OF _ m that(2)] that(1) unfolding Q_def fst_conv by blast
  qed (use here in \<open>simp_all add: Q_def\<close>)
  then have "\<exists>r. fst ?s' ! m = Done r" using here(2) steps_to_go_0 by simp
  moreover have "fst ?s' ! d = fst ?s ! d" if "d \<noteq> m" for d using turn_others that s' by metis
  moreover have "P ?s'" unfolding s' using P_run here(1) .
  ultimately show ?case using Suc.IH m by (auto simp: less_Suc_eq)
qed

lemma promise_all_done:
  assumes "\<forall>d < length pcs. \<exists>r. pcs ! d = Done r" "\<forall>p \<in> set pcs. \<forall>e. p \<noteq> Done (Inl e)"
  shows "promise_all pcs = Inr ()"
proof -
  have "find (\<lambda>p. \<exists>e. p = Done (Inl e)) pcs = None" using assms(2) by (auto simp: find_None_iff)
  moreover have "list_all (\<lambda>p. \<exists>r. p = Done r) pcs" using assms(1) by (auto simp: list_all_iff in_set_conv_nth)
  ultimately show ?thesis by (simp add: promise_all_def)
qed

lemma stampede_in_turn:
  assumes room: "roomy opts t0 t1" and t: "t0 \<le> t" "t < t1" and v: "v \<noteq> JNull" "load key = Inr (Some v)" and inj: "inj token"
    and free: "gone t0 key db" "gone t0 (lock_key key) db"
    and run: "wave_run opts load (replicate n key) token (in_turn n t) (replicate n Read, db, 0) = (pcs, db', k)"
  shows "promise_all pcs = Inr ()"
proof -
  define P where "P s \<longleftrightarrow> flight_inv opts t0 t1 v key token s \<and> length (fst s) = n" for s
  have "list_all (event_calm t0 t1) [(c, t, False, 0)]" for c using t by (simp add: event_calm_def)
  then have step: "P s \<Longrightarrow> P (wave_step opts load (replicate n key) token (c, t, False, 0) s)" for c s
    using wave_inv [of opts t0 t1 v load key token s n "[(c, t, False, 0)]", OF room v inj] by (simp add: P_def wave_run_def)
  have lock: "0 < co_lockMs opts \<and> r_get t (lock_key (replicate n key ! c)) db = None"
    if "P (pcs, db, k)" "c < n" "pcs ! c = Lock" "\<forall>d < n. d \<noteq> c \<longrightarrow> \<not> leading (pcs ! d)" for c pcs db k
  proof -
    have "\<not> leading (pcs ! d)" if "d < n" for d using that \<open>\<forall>d < n. _ \<longrightarrow> _\<close> \<open>pcs ! c = Lock\<close> by (cases "d = c") auto
    then have "gone t0 (lock_key key) db" using that(1) by (auto simp: P_def flight_inv_def flight_more_def)
    then show ?thesis using gone_get t(1) that(2) room t(2) by (auto simp: roomy_def)
  qed
  have "P (replicate n Read, db, 0)" using flight_inv_start [OF free] by (simp add: P_def)
  then have "P (pcs, db', k) \<and> (\<forall>d < n. \<exists>r. pcs ! d = Done r)"
    using turns_done [where P = P and n = n and m = n and opts = opts and load = load and keys = "replicate n key" and token = token
        and t = t and db = db, OF step _ _ lock] run v(2) by (simp add: P_def)
  then show ?thesis using promise_all_done [of pcs] flight_inv_no_error [of opts t0 t1 v key token pcs db' k] by (simp add: P_def)
qed

lemma warm_up_in_turn:
  assumes room: "roomy opts t0 t1" and t: "t0 \<le> t" "t < t1" and keys: "loadable load keys" and inj: "inj token"
    and free: "\<forall>key \<in> set keys. gone t0 key db \<and> gone t0 (lock_key key) db" and n: "n = length keys"
    and run: "wave_run opts load keys token (in_turn n t) (replicate n Read, db, 0) = (pcs, db', k)"
  shows "promise_all pcs = Inr ()"
proof -
  let ?P = "own_inv opts t0 t1 load keys token"
  have step: "?P s \<Longrightarrow> ?P (wave_step opts load keys token (c, t, False, 0) s)" for c s
    using own_inv_step [OF room keys inj] t by (simp add: event_calm_def)
  have load: "\<exists>v. load (keys ! c) = Inr (Some v)" if "c < n" for c
    using keys nth_mem [of c keys] that n unfolding loadable_def by blast
  have solo: "\<exists>v j. flight_inv opts t0 t1 v (keys ! c) (\<lambda>i. token (c + i)) ([pcs ! c], db, j)"
    if "?P (pcs, db, k)" "c < n" for c pcs db k
    using load [OF that(2)] that n unfolding own_inv_def by blast
  have lock: "0 < co_lockMs opts \<and> r_get t (lock_key (keys ! c)) db = None"
    if "?P (pcs, db, k)" "c < n" "pcs ! c = Lock" for c pcs db k
  proof -
    have "gone t0 (lock_key (keys ! c)) db" using solo [OF that(1,2)] that(3) by (auto simp: flight_inv_def flight_more_def)
    then show ?thesis using gone_get t room by (auto simp: roomy_def)
  qed
  have start: "?P (replicate n Read, db, 0)" using own_inv_start free by (simp add: n)
  have len: "?P s \<Longrightarrow> length (fst s) = n" for s by (auto simp: own_inv_def n)
  have all: "?P (pcs, db', k)" "\<forall>d < n. \<exists>r. pcs ! d = Done r"
    using turns_done [where P = ?P and n = n and m = n and opts = opts and load = load and keys = keys and token = token
        and t = t and db = db, OF step len load lock start] run by simp_all
  have "\<forall>p \<in> set pcs. \<forall>e. p \<noteq> Done (Inl e)"
    using solo [OF all(1)] flight_inv_no_error len [OF all(1)] by (metis fst_conv in_set_conv_nth list.set_intros(1))
  then show ?thesis using promise_all_done all(2) len [OF all(1)] by simp
qed

lemma naive_in_turn:
  assumes opts: "\<not> co_singleFlight opts" and v: "v \<noteq> JNull" "load key = Inr (Some v)" and e: "entry_good (\<lambda>x. x = v) key db"
    and run: "wave_run opts load (replicate n key) token (in_turn n t) (replicate n Read, db, 0) = (pcs, db', k)"
  shows "promise_all pcs = Inr ()"
proof -
  define P where "P s \<longleftrightarrow> naive_ok v key s \<and> length (fst s) = n" for s
  have step: "P s \<Longrightarrow> P (wave_step opts load (replicate n key) token (c, t, False, 0) s)" for c s
    using naive_run [of opts v load key s n token "[(c, t, False, 0)]", OF opts v]
    by (auto simp: P_def wave_run_def wave_step_def split: prod.splits)
  have lock: "0 < co_lockMs opts \<and> r_get t (lock_key (replicate n key ! c)) db = None"
    if "P (pcs, db, k)" "c < n" "pcs ! c = Lock" for c pcs db k
    using that nth_mem [of c pcs] by (auto simp: P_def naive_ok_def)
  have start: "P (replicate n Read, db, 0)" using e by (auto simp: P_def naive_ok_def)
  have all: "P (pcs, db', k)" "\<forall>d < n. \<exists>r. pcs ! d = Done r"
    using turns_done [where P = P and n = n and m = n and opts = opts and load = load and keys = "replicate n key" and token = token
        and t = t and db = db, OF step _ _ lock start] run v(2) by (simp_all add: P_def)
  have "\<forall>p \<in> set pcs. \<forall>e. p \<noteq> Done (Inl e)" using all(1) by (fastforce simp: P_def naive_ok_def)
  then show ?thesis using promise_all_done all by (simp add: P_def)
qed

end
