(* ===== verification/CacheDemo.thy ===== *)
theory CacheDemo
  imports RedisDemos ShopDemos CacheWaves
begin

text \<open>
  The acceptance run of the cache, \<open>src/demo-cache.ts\<close>: sixty cards warmed, one evicted
  and read by fifty callers at once without and then with the single-flight lock, and a
  hundred reads of a warm entry, as waves of \<open>CacheWaves\<close>.  Which keys Redis evicts while the
  cold values are written is a parameter; the waves themselves are not under memory
  pressure.  Elapsed times are not modelled.
\<close>

subsection \<open>The world of the run\<close>

record card_world =
  kw_store :: kv
  kw_shop :: shop_db
  kw_reviews :: "review_row list"
  kw_review_seq :: nat
  kw_log :: query_logger

definition WARM :: nat where "WARM = 60"
definition CONCURRENT :: nat where "CONCURRENT = 50"

definition COLD_VALUE :: string where
  "COLD_VALUE = replicate 1024 CHR ''x''"

definition cardKey :: "string \<Rightarrow> string" where
  "cardKey i = ''card:'' @ i"

text \<open>A query through the counting \<open>DataSource\<close>.\<close>

definition logged :: "query_logger \<Rightarrow> query_logger" where
  "logged g = fst (writeLog [LogMessage ''query'' ''SQL''] g)"

text \<open>\<open>CONFIG GET\<close> answers a flat list of names and values.\<close>

definition configGet :: "(string \<Rightarrow> string list) \<Rightarrow> string \<Rightarrow> string" where
  "configGet config name = (let pairs = config name in if 1 < length pairs then pairs ! 1 else '''')"

text \<open>\<open>SCAN\<close> returns every key that matches and stays; the patterns of the run are prefixes.\<close>

definition purge :: "string \<Rightarrow> kv \<Rightarrow> kv" where
  "purge pre db = (\<lambda>k. if take (length pre) k = pre then None else db k)"

subsection \<open>The products and their reviews\<close>

fun seed_products :: "nat list \<Rightarrow> card_world \<Rightarrow> string list \<times> card_world" where
  "seed_products [] w = ([], w)"
| "seed_products (i # is) w =
     (let (pid, db) = upsert_product (''CACHE-DEMO-'' @ show_nat i) (''Cache demo '' @ show_nat i) (10 + of_nat i) 100
                        (\<lambda>r. r\<lparr>p_stock := 100\<rparr>) (kw_shop w);
          (ids, w') = seed_products is (w\<lparr>kw_shop := db, kw_log := logged (kw_log w)\<rparr>)
      in (bigint_text pid # ids, w'))"

text \<open>One statement: a row that is refused undoes the others, though not the numbers they drew.\<close>

fun insert_rows :: "product_row list \<Rightarrow> (int \<times> int) list \<Rightarrow> nat \<Rightarrow> review_row list \<Rightarrow> unit res \<times> nat \<times> review_row list" where
  "insert_rows ps [] n t = (Inr (), n, t)"
| "insert_rows ps ((p, x) # rows) n t =
     (case insert_review ps n p x t of (Inl e, t') \<Rightarrow> (Inl e, Suc n, t') | (Inr _, t') \<Rightarrow> insert_rows ps rows (Suc n) t')"

definition insert_reviews :: "product_row list \<Rightarrow> (int \<times> int) list \<Rightarrow> nat \<Rightarrow> review_row list \<Rightarrow> unit res \<times> nat \<times> review_row list" where
  "insert_reviews ps rows n t =
     (case insert_rows ps rows n t of (Inl e, n', _) \<Rightarrow> (Inl e, n', t) | (Inr _, n', t') \<Rightarrow> (Inr (), n', t'))"

text \<open>\<open>$1::bigint[]\<close> reads the ids back.\<close>

definition read_ids :: "checkout_env \<Rightarrow> string list \<Rightarrow> int list res" where
  "read_ids env ids = (if \<forall>i \<in> set ids. ce_bigint env i \<noteq> None then Inr (map (\<lambda>i. the (ce_bigint env i)) ids)
     else Inl (DbError ''22P02''))"

definition seedProducts :: "checkout_env \<Rightarrow> card_world \<Rightarrow> string list res \<times> card_world" where
  "seedProducts env w =
     (let (ids, w1) = seed_products [0..<WARM] w
      in case read_ids env ids of
           Inl e \<Rightarrow> (Inl e, w1)
         | Inr pids \<Rightarrow>
             let t = filter (\<lambda>r. rv_product r \<notin> set pids) (kw_reviews w1);
                 rows = [(p, 1 + g mod 5). p \<leftarrow> pids, g \<leftarrow> [1..20]];
                 (r, n, t') = insert_reviews (s_products (kw_shop w1)) rows (kw_review_seq w1) t;
                 w2 = w1\<lparr>kw_reviews := t', kw_review_seq := n, kw_log := logged (logged (kw_log w1))\<rparr>
             in (case r of Inl e \<Rightarrow> Inl e | Inr _ \<Rightarrow> Inr ids, w2))"

subsection \<open>Callers at once\<close>

text \<open>What \<open>JSON.stringify\<close> makes of a card.\<close>

definition card_json :: "product_card \<Rightarrow> json" where
  "card_json c = JObj [(''id'', JStr (cd_id c)), (''sku'', JStr (cd_sku c)), (''name'', JStr (cd_name c)),
     (''price'', JNum (cd_price c)), (''stock'', JNum (of_int (cd_stock c))),
     (''rating'', JNum (cd_rating c)), (''reviews'', JNum (cd_reviews c))]"

definition load_card :: "checkout_env \<Rightarrow> card_world \<Rightarrow> string \<Rightarrow> json option res" where
  "load_card env w key =
     map_sum id (map_option card_json)
       (loadProductCard env (s_products (kw_shop w)) (kw_reviews w) (drop (length ''card:'') key))"

text \<open>\<open>get\<close> of these keys, called at once.  Each load is one query.\<close>

definition card_gets :: "cache_options \<Rightarrow> checkout_env \<Rightarrow> (nat \<Rightarrow> string) \<Rightarrow> wave_event list \<Rightarrow> string list \<Rightarrow> card_world \<Rightarrow> unit res \<times> card_world" where
  "card_gets opts env token evs keys w =
     (let (pcs, db, k) = wave_run opts (load_card env w) keys token evs (replicate (length keys) Read, kw_store w, 0)
      in (promise_all pcs, w\<lparr>kw_store := db, kw_log := (logged ^^ k) (kw_log w)\<rparr>))"

subsection \<open>Eviction\<close>

definition cold_batch :: "string \<Rightarrow> nat \<Rightarrow> kv \<Rightarrow> kv" where
  "cold_batch ns batch db =
     fold (\<lambda>k db. db(ns @ '':'' @ show_nat batch @ '':'' @ show_nat k \<mapsto> (RawText COLD_VALUE, None))) [0..<1000] db"

text \<open>\<open>fill batch\<close> is the time at which the keys are looked up after a batch, and what Redis
  has kept of the store by then.\<close>

fun evict_from :: "string \<Rightarrow> (nat \<Rightarrow> int \<times> (kv \<Rightarrow> kv)) \<Rightarrow> string list \<Rightarrow> nat \<Rightarrow> nat \<Rightarrow> kv \<Rightarrow> string res \<times> kv" where
  "evict_from ns fill candidates 0 batch db = (Inl (Error ''nothing evicted''), db)"
| "evict_from ns fill candidates (Suc n) batch db =
     (let db1 = snd (fill batch) (cold_batch ns batch db)
      in case find (\<lambda>i. r_get (fst (fill batch)) (cardKey i) db1 = None) candidates of
           Some i \<Rightarrow> (Inr i, db1)
         | None \<Rightarrow> evict_from ns fill candidates n (Suc batch) db1)"

definition evictOne :: "string \<Rightarrow> (nat \<Rightarrow> int \<times> (kv \<Rightarrow> kv)) \<Rightarrow> string list \<Rightarrow> card_world \<Rightarrow> string res \<times> card_world" where
  "evictOne uuid fill candidates w =
     (let (r, db) = evict_from (''cold:'' @ uuid) fill candidates 200 0 (kw_store w) in (r, w\<lparr>kw_store := db\<rparr>))"

subsection \<open>The run\<close>

text \<open>\<open>TTL\<close> in seconds, rounded as Redis does.\<close>

definition ttl_of :: "int \<Rightarrow> string \<Rightarrow> kv \<Rightarrow> int" where
  "ttl_of now k db = (let ms = pttl now k db in if ms < 0 then ms else (ms + 500) div 1000)"

text \<open>
  What the run draws: the configuration of the instance, the events of the waves and of
  the warm reads, the times at which the lifetimes are asked, and the two evictions.
  \<open>kd_token\<close> names the lock tokens of a wave.
\<close>

record cache_draws =
  kd_config :: "string \<Rightarrow> string list"
  kd_token :: "nat \<Rightarrow> nat \<Rightarrow> string"
  kd_warm :: "wave_event list"
  kd_ttl_at :: "nat \<Rightarrow> int"
  kd_uuid :: "nat \<Rightarrow> string"
  kd_evictA :: "nat \<Rightarrow> int \<times> (kv \<Rightarrow> kv)"
  kd_naive :: "wave_event list"
  kd_evictB :: "nat \<Rightarrow> int \<times> (kv \<Rightarrow> kv)"
  kd_wave :: "wave_event list"
  kd_reads :: "nat \<Rightarrow> wave_event list"

record cache_report =
  kr_lru :: int
  kr_maxmemory :: int
  kr_warmed :: nat
  kr_ttl_distinct :: nat
  kr_naive :: nat
  kr_calls :: nat
  kr_calls_warm :: nat
  kr_exit :: nat

definition naive_options :: cache_options where
  "naive_options = DEFAULT_CACHE_OPTIONS\<lparr>co_singleFlight := False\<rparr>"

definition reset_log :: "card_world \<Rightarrow> card_world" where
  "reset_log w = w\<lparr>kw_log := logger_reset (kw_log w)\<rparr>"

definition queries :: "card_world \<Rightarrow> nat" where
  "queries w = lg_count (kw_log w)"

fun warm_reads :: "checkout_env \<Rightarrow> cache_draws \<Rightarrow> string \<Rightarrow> nat \<Rightarrow> nat \<Rightarrow> card_world \<Rightarrow> unit res \<times> card_world" where
  "warm_reads env d key 0 i w = (Inr (), w)"
| "warm_reads env d key (Suc n) i w =
     then_run (card_gets DEFAULT_CACHE_OPTIONS env (kd_token d (3 + i)) (kd_reads d i) [key])
       (\<lambda>_. warm_reads env d key n (Suc i)) w"

definition positive :: "jsnum \<Rightarrow> bool" where
  "positive x = (case x of NaN \<Rightarrow> False | Infinity neg \<Rightarrow> \<not> neg | Num q \<Rightarrow> 0 < q)"

definition prepare_cache :: "card_world \<Rightarrow> card_world" where
  "prepare_cache w = w\<lparr>kw_store := purge ''cold:'' (purge ''lock:card:'' (purge ''card:'' (kw_store w)))\<rparr>"

definition demo_waves :: "checkout_env \<Rightarrow> cache_draws \<Rightarrow> string list \<Rightarrow> card_world \<Rightarrow> (nat \<times> nat \<times> nat) res \<times> card_world" where
  "demo_waves env d ids =
     then_run (evictOne (kd_uuid d 0) (kd_evictA d) ids) (\<lambda>victimA w2.
     then_run (card_gets naive_options env (kd_token d 1) (kd_naive d) (replicate CONCURRENT (cardKey victimA))) (\<lambda>_ w3.
     then_run (evictOne (kd_uuid d 1) (kd_evictB d) (filter (\<lambda>i. i \<noteq> victimA) ids)) (\<lambda>victimB w4.
     then_run (card_gets DEFAULT_CACHE_OPTIONS env (kd_token d 2) (kd_wave d) (replicate CONCURRENT (cardKey victimB))) (\<lambda>_ w5.
     then_run (warm_reads env d (cardKey victimB) 100 0) (\<lambda>_ w6. (Inr (queries w3, queries w5, queries w6), w6))
       (reset_log w5)) (reset_log w4)) w3) (reset_log w2))"

definition demo_cache :: "checkout_env \<Rightarrow> cache_draws \<Rightarrow> card_world \<Rightarrow> cache_report res \<times> card_world" where
  "demo_cache env d w =
     (let policy = configGet (kd_config d) ''maxmemory-policy''; maxmemory = js_number (configGet (kd_config d) ''maxmemory'')
      in then_run (seedProducts env) (\<lambda>ids.
         then_run (card_gets DEFAULT_CACHE_OPTIONS env (kd_token d 0) (kd_warm d) (map cardKey ids)) (\<lambda>_ w1.
         let ttls = map (\<lambda>i. ttl_of (kd_ttl_at d i) (cardKey (ids ! i)) (kw_store w1)) [0..<length ids];
             warmed = length (filter (\<lambda>t. 0 < t) ttls);
             code = expect_ok (50 \<le> warmed) 0
         in then_run (demo_waves env d ids) (\<lambda>(naive, calls, again) w6.
              let code = expect_ok (calls = 1) code; code = expect_ok (again = 0) code
              in (Inr \<lparr>kr_lru = bool_kv (policy \<noteq> ''noeviction''), kr_maxmemory = bool_kv (positive maxmemory),
                       kr_warmed = warmed, kr_ttl_distinct = length (remdups ttls),
                       kr_naive = naive, kr_calls = calls, kr_calls_warm = again, kr_exit = code\<rparr>,
                  w6\<lparr>kw_store := purge ''card:'' (purge ''cold:'' (kw_store w6))\<rparr>)) w1)) (prepare_cache w))"

subsection \<open>Eviction takes entries away\<close>

lemma cold_batch_other: "k \<notin> range (\<lambda>x. ns @ x) \<Longrightarrow> cold_batch ns batch db k = db k"
proof -
  assume "k \<notin> range (\<lambda>x. ns @ x)"
  then have "fold (\<lambda>i db. db(ns @ '':'' @ show_nat batch @ '':'' @ show_nat i \<mapsto> x)) is db k = db k" for "is" x and db :: kv
    by (induction "is" arbitrary: db) auto
  then show ?thesis by (simp add: cold_batch_def)
qed

definition only_evicts :: "(nat \<Rightarrow> int \<times> (kv \<Rightarrow> kv)) \<Rightarrow> bool" where
  "only_evicts fill \<longleftrightarrow> (\<forall>b db k. snd (fill b) db k = db k \<or> snd (fill b) db k = None)"

lemma evict_from_spec:
  assumes "only_evicts fill" "evict_from ns fill candidates n batch db = (r, db')"
  shows "(r = Inl (Error ''nothing evicted'') \<or>
      (\<exists>i b. r = Inr i \<and> i \<in> set candidates \<and> r_get (fst (fill b)) (cardKey i) db' = None)) \<and>
    (\<forall>k. k \<notin> range (\<lambda>x. ns @ x) \<longrightarrow> db' k = db k \<or> db' k = None)"
  using assms(2)
proof (induction n arbitrary: batch db)
  case (Suc n)
  let ?db1 = "snd (fill batch) (cold_batch ns batch db)"
  have keeps: "?db1 k = db k \<or> ?db1 k = None" if "k \<notin> range (\<lambda>x. ns @ x)" for k
    using assms(1) cold_batch_other [OF that, of batch db] unfolding only_evicts_def by metis
  show ?case
  proof (cases "find (\<lambda>i. r_get (fst (fill batch)) (cardKey i) ?db1 = None) candidates")
    case None
    then show ?thesis using Suc.IH [of "Suc batch" ?db1] Suc.prems keeps by (simp add: Let_def) metis
  next
    case (Some i)
    then have "i \<in> set candidates" "r_get (fst (fill batch)) (cardKey i) ?db1 = None" by (auto simp: find_Some_iff)
    then show ?thesis using Suc.prems Some keeps by (auto simp: Let_def)
  qed
qed simp

subsection \<open>The seeded products\<close>

lemma upsert_product_row:
  assumes upd: "\<And>r. p_id (upd r) = p_id r \<and> p_sku (upd r) = p_sku r"
    and run: "upsert_product sku name price stock upd db = (i, db')"
  shows "\<exists>r \<in> set (s_products db'). p_id r = i \<and> p_sku r = sku"
    and "r \<in> set (s_products db) \<Longrightarrow> \<exists>x \<in> set (s_products db'). p_id x = p_id r \<and> p_sku x = p_sku r"
    and "product_seq db' = Suc (product_seq db)"
proof -
  let ?ps = "s_products db" and ?up = "update_where (\<lambda>r. p_sku r = sku) upd (s_products db)"
  have kept: "\<exists>x \<in> set ?up. p_id x = p_id y \<and> p_sku x = p_sku y" if "y \<in> set ?ps" for y
  proof (cases "p_sku y = sku")
    case True
    then have "upd y \<in> set ?up" using that by (auto simp: set_update_where)
    then show ?thesis using upd by blast
  next
    case False
    then have "y \<in> set ?up" using that by (auto simp: set_update_where)
    then show ?thesis by blast
  qed
  have "(\<exists>r \<in> set (s_products db'). p_id r = i \<and> p_sku r = sku) \<and>
      (r \<in> set ?ps \<longrightarrow> (\<exists>x \<in> set (s_products db'). p_id x = p_id r \<and> p_sku x = p_sku r)) \<and> product_seq db' = Suc (product_seq db)"
  proof (cases "find (\<lambda>r. p_sku r = sku) ?ps")
    case None
    then show ?thesis using run by (auto simp: upsert_product_def Let_def)
  next
    case (Some x)
    then have "x \<in> set ?ps" "p_sku x = sku" by (auto simp: find_Some_iff)
    moreover have "i = p_id x" "s_products db' = ?up" "product_seq db' = Suc (product_seq db)"
      using run Some by (auto simp: upsert_product_def Let_def)
    ultimately show ?thesis using kept by metis
  qed
  then show "\<exists>r \<in> set (s_products db'). p_id r = i \<and> p_sku r = sku"
    "r \<in> set ?ps \<Longrightarrow> \<exists>x \<in> set (s_products db'). p_id x = p_id r \<and> p_sku x = p_sku r"
    "product_seq db' = Suc (product_seq db)" by blast+
qed

text \<open>A row of the demo's product number \<open>i\<close>.\<close>

definition demo_row :: "shop_db \<Rightarrow> nat \<Rightarrow> string \<Rightarrow> bool" where
  "demo_row db i txt \<longleftrightarrow> (\<exists>r \<in> set (s_products db). p_sku r = ''CACHE-DEMO-'' @ show_nat i \<and> txt = bigint_text (p_id r))"

lemma seed_products_spec:
  assumes "world_ok (kw_shop w)" "\<forall>i \<in> set is. i < 10 ^ 9" "seed_products is w = (ids, w')"
  shows "world_ok (kw_shop w') \<and> list_all2 (demo_row (kw_shop w')) is ids \<and>
    (\<forall>r \<in> set (s_products (kw_shop w)). \<exists>x \<in> set (s_products (kw_shop w')). p_id x = p_id r \<and> p_sku x = p_sku r) \<and>
    product_seq (kw_shop w') = product_seq (kw_shop w) + length is \<and> kw_store w' = kw_store w"
  using assms
proof (induction "is" arbitrary: w ids w')
  case Nil
  then show ?case by auto
next
  case (Cons i "is")
  obtain pid db where up: "upsert_product (''CACHE-DEMO-'' @ show_nat i) (''Cache demo '' @ show_nat i) (10 + of_nat i) 100
      (\<lambda>r. r\<lparr>p_stock := 100\<rparr>) (kw_shop w) = (pid, db)" by fastforce
  let ?w1 = "w\<lparr>kw_shop := db, kw_log := logged (kw_log w)\<rparr>"
  obtain ids1 w2 where rest: "seed_products is ?w1 = (ids1, w2)" by fastforce
  have new: "product_ok \<lparr>p_id = n, p_sku = s, p_name = t, p_price = 10 + of_nat i, p_stock = 100\<rparr>" for n s t
  proof -
    have "cents (10 + of_nat i :: rat)" unfolding cents_iff by (intro exI [of _ "1000 + 100 * int i"]) simp
    moreover have "i < 10 ^ 9" using Cons.prems(2) by simp
    then have "(of_nat i :: rat) < of_nat (10 ^ 9)" by (simp only: of_nat_less_iff)
    ultimately show ?thesis by (simp add: product_ok_def in_int4_def)
  qed
  have "world_ok db"
    using upsert_product_ok(1) [OF Cons.prems(1) new _ _ up] by (simp add: product_ok_def in_int4_def)
  then have w2: "world_ok (kw_shop w2)" "list_all2 (demo_row (kw_shop w2)) is ids1" "kw_store w2 = kw_store w"
    "\<forall>r \<in> set (s_products db). \<exists>x \<in> set (s_products (kw_shop w2)). p_id x = p_id r \<and> p_sku x = p_sku r"
    "product_seq (kw_shop w2) = product_seq db + length is"
    using Cons.IH [OF _ _ rest] Cons.prems(2) by simp_all
  have "p_id (r\<lparr>p_stock := 100\<rparr>) = p_id r \<and> p_sku (r\<lparr>p_stock := 100\<rparr>) = p_sku r" for r :: product_row by simp
  note row = upsert_product_row [OF this up]
  have "demo_row (kw_shop w2) i (bigint_text pid)" 
  proof -
    obtain y where y: "y \<in> set (s_products db)" "p_id y = pid" "p_sku y = ''CACHE-DEMO-'' @ show_nat i" using row(1) by blast
    then obtain x where "x \<in> set (s_products (kw_shop w2))" "p_id x = p_id y" "p_sku x = p_sku y" using w2(4) by blast
    then show ?thesis using y unfolding demo_row_def by (intro bexI [of _ x]) simp_all
  qed
  moreover have "\<forall>r \<in> set (s_products (kw_shop w)). \<exists>x \<in> set (s_products (kw_shop w2)). p_id x = p_id r \<and> p_sku x = p_sku r"
  proof
    fix r assume "r \<in> set (s_products (kw_shop w))"
    then obtain y where y: "y \<in> set (s_products db)" "p_id y = p_id r" "p_sku y = p_sku r" using row(2) by blast
    then obtain x where "x \<in> set (s_products (kw_shop w2))" "p_id x = p_id y" "p_sku x = p_sku y" using w2(4) by blast
    then show "\<exists>x \<in> set (s_products (kw_shop w2)). p_id x = p_id r \<and> p_sku x = p_sku r" using y by metis
  qed
  moreover have "ids = bigint_text pid # ids1" "w' = w2" using Cons.prems(3) up rest by simp_all
  ultimately show ?case using w2 row(3) by simp
qed

lemma demo_row_same:
  assumes "world_ok db" "bigint_io env" "product_seq db \<le> 2 ^ 63" "demo_row db i txt" "demo_row db j txt"
  shows "i = j"
proof -
  obtain r x where r: "r \<in> set (s_products db)" "p_sku r = ''CACHE-DEMO-'' @ show_nat i" "txt = bigint_text (p_id r)"
    and x: "x \<in> set (s_products db)" "p_sku x = ''CACHE-DEMO-'' @ show_nat j" "txt = bigint_text (p_id x)"
    using assms(4,5) by (auto simp: demo_row_def)
  have "ce_bigint env (bigint_text (p_id y)) = Some (p_id y)" if "y \<in> set (s_products db)" for y
    using world_okD(4) [OF assms(1) that] assms(2,3) zle_int [of "product_seq db" "2 ^ 63"] by (simp add: bigint_io_def)
  then have "p_id r = p_id x" using r x by (metis option.inject)
  then have "r = x" using shop_okD(1) [OF world_okD(1) [OF assms(1)]] r(1) x(1) by (metis distinct_map inj_on_eq_iff)
  then show ?thesis using r(2) x(2) by (simp add: show_nat_inj)
qed

lemma insert_rows_ok:
  "\<forall>(p, x) \<in> set rows. 1 \<le> x \<and> x \<le> 5 \<and> p \<in> p_id ` set ps \<Longrightarrow> fst (insert_rows ps rows n t) = Inr ()"
  by (induction ps rows n t rule: insert_rows.induct) (auto simp: insert_review_def)

lemma card_of_row:
  assumes "world_ok (kw_shop w)" "bigint_io env" "product_seq (kw_shop w) \<le> 2 ^ 63" "demo_row (kw_shop w) i txt"
  shows "ce_bigint env txt \<noteq> None" "the (ce_bigint env txt) \<in> p_id ` set (s_products (kw_shop w))"
    "\<exists>v. load_card env w (cardKey txt) = Inr (Some v) \<and> v \<noteq> JNull"
proof -
  let ?ps = "s_products (kw_shop w)"
  obtain r where r: "r \<in> set ?ps" "txt = bigint_text (p_id r)" using assms(4) by (auto simp: demo_row_def)
  have id: "ce_bigint env txt = Some (p_id r)"
    using world_okD(4) [OF assms(1) r(1)] assms(2,3) zle_int [of "product_seq (kw_shop w)" "2 ^ 63"] r(2) by (simp add: bigint_io_def)
  show "ce_bigint env txt \<noteq> None" "the (ce_bigint env txt) \<in> p_id ` set ?ps" using id r(1) by simp_all
  obtain c where "find (\<lambda>p. p_id p = p_id r) ?ps = Some c" using r(1) by (fastforce simp: find_None_iff)
  then show "\<exists>v. load_card env w (cardKey txt) = Inr (Some v) \<and> v \<noteq> JNull"
    using id by (simp add: load_card_def loadProductCard_def cardKey_def card_json_def)
qed

lemma seedProducts_ok:
  assumes w: "world_ok (kw_shop w)" and env: "bigint_io env" and small: "product_seq (kw_shop w) + WARM \<le> 2 ^ 63"
    and run: "seedProducts env w = (r, w')"
  shows "\<exists>ids. r = Inr ids \<and> length ids = WARM \<and> distinct ids \<and> kw_store w' = kw_store w \<and>
    (\<forall>i \<in> set ids. \<exists>v. load_card env w' (cardKey i) = Inr (Some v) \<and> v \<noteq> JNull)"
proof -
  obtain ids w1 where seed: "seed_products [0..<WARM] w = (ids, w1)" by fastforce
  have s: "world_ok (kw_shop w1)" "list_all2 (demo_row (kw_shop w1)) [0..<WARM] ids" "kw_store w1 = kw_store w"
    "product_seq (kw_shop w1) \<le> 2 ^ 63"
    using seed_products_spec [OF w _ seed] small by (auto simp: WARM_def)
  have len: "length ids = WARM" using list_all2_lengthD [OF s(2)] by simp
  have row: "demo_row (kw_shop w1) i (ids ! i)" if "i < WARM" for i
    using list_all2_nthD2 [OF s(2), of i] that len by simp
  have "distinct ids"
    using demo_row_same [OF s(1) env s(4)] row len unfolding distinct_conv_nth by metis
  have rows: "\<exists>i. demo_row (kw_shop w1) i s" if "s \<in> set ids" for s
    using row len that by (metis in_set_conv_nth)
  let ?pids = "map (\<lambda>i. the (ce_bigint env i)) ids"
  have read: "read_ids env ids = Inr ?pids"
    using card_of_row(1) [OF s(1) env s(4)] rows unfolding read_ids_def by metis
  have "\<forall>p \<in> set ?pids. p \<in> p_id ` set (s_products (kw_shop w1))"
    using card_of_row(2) [OF s(1) env s(4)] rows unfolding set_map by blast
  then have "fst (insert_rows (s_products (kw_shop w1)) [(p, 1 + g mod 5). p \<leftarrow> ?pids, g \<leftarrow> [1..20]] n t) = Inr ()" for n t
    by (intro insert_rows_ok) auto
  then obtain n t where ins: "insert_reviews (s_products (kw_shop w1)) [(p, 1 + g mod 5). p \<leftarrow> ?pids, g \<leftarrow> [1..20]] (kw_review_seq w1)
      (filter (\<lambda>r. rv_product r \<notin> set ?pids) (kw_reviews w1)) = (Inr (), n, t)"
    unfolding insert_reviews_def by (metis (no_types, lifting) old.sum.simps(6) prod.case_eq_if)
  let ?w2 = "w1\<lparr>kw_reviews := t, kw_review_seq := n, kw_log := logged (logged (kw_log w1))\<rparr>"
  have "r = Inr ids" "w' = ?w2" using run seed read ins by (simp_all add: seedProducts_def Let_def)
  moreover have "\<exists>v. load_card env ?w2 (cardKey i) = Inr (Some v) \<and> v \<noteq> JNull" if "i \<in> set ids" for i
    using card_of_row(3) [of ?w2 env] rows [OF that] s env by auto
  ultimately show ?thesis using len \<open>distinct ids\<close> s(3) by simp
qed

subsection \<open>The parts of the run\<close>

lemma default_roomy: "t0 \<le> t1 \<Longrightarrow> t1 \<le> t0 + 3000 \<Longrightarrow> roomy DEFAULT_CACHE_OPTIONS t0 t1"
  by (simp add: roomy_def DEFAULT_CACHE_OPTIONS_def)

lemma lg_count_logged [simp]: "lg_count ((logged ^^ k) g) = lg_count g + k"
  by (induction k) (simp_all add: logged_def Let_def)

lemma load_card_same [simp]:
  "load_card env (w\<lparr>kw_store := db, kw_log := g\<rparr>) = load_card env w" "load_card env (w\<lparr>kw_store := db\<rparr>) = load_card env w"
  "load_card env (reset_log w) = load_card env w"
  by (simp_all add: load_card_def reset_log_def fun_eq_iff)

lemma cardKey_simps [simp]:
  "cardKey i = cardKey j \<longleftrightarrow> i = j" "lock_key k = lock_key l \<longleftrightarrow> k = l"
  "cardKey i \<noteq> lock_key (cardKey j)" "lock_key (cardKey j) \<noteq> cardKey i"
  by (simp_all add: cardKey_def lock_key_def)

text \<open>Between the parts: every card can be loaded, its lock is free, and its entry, if any, is
  the card.\<close>

definition cards_warm :: "checkout_env \<Rightarrow> int \<Rightarrow> string list \<Rightarrow> card_world \<Rightarrow> bool" where
  "cards_warm env t0 ids w \<longleftrightarrow> (\<forall>i \<in> set ids. gone t0 (lock_key (cardKey i)) (kw_store w) \<and>
     (\<exists>v. load_card env w (cardKey i) = Inr (Some v) \<and> v \<noteq> JNull \<and> entry_good (\<lambda>x. x = v) (cardKey i) (kw_store w)))"

lemma warm_part:
  assumes t: "t0 \<le> t1" "t1 \<le> t0 + 3000" and ids: "distinct ids" "\<forall>i \<in> set ids. \<exists>v. load_card env w (cardKey i) = Inr (Some v) \<and> v \<noteq> JNull"
    and free: "\<forall>i. kw_store w (cardKey i) = None \<and> kw_store w (lock_key (cardKey i)) = None"
    and d: "inj token" "list_all (event_calm t0 t1) evs" "\<not> late \<Longrightarrow> \<exists>t \<in> {t0..<t1}. evs = in_turn (length ids) t"
    and run: "card_gets DEFAULT_CACHE_OPTIONS env token evs (map cardKey ids) w = (r, w')"
  shows "late \<and> r = Inl (Error ''pending'') \<or> r = Inr () \<and> cards_warm env t0 ids w' \<and>
    (\<forall>i \<in> set ids. \<exists>v. kept (t0 + 300000) (cardKey i) v (kw_store w'))"
proof -
  let ?load = "load_card env w" and ?keys = "map cardKey ids"
  obtain pcs db k where wave: "wave_run DEFAULT_CACHE_OPTIONS ?load ?keys token evs (replicate (length ?keys) Read, kw_store w, 0) = (pcs, db, k)"
    by (metis prod_cases3)
  have w': "r = promise_all pcs" "w' = w\<lparr>kw_store := db, kw_log := (logged ^^ k) (kw_log w)\<rparr>"
    using run wave by (simp_all add: card_gets_def)
  have load: "loadable ?load ?keys" using ids by (auto simp: loadable_def distinct_map inj_on_def)
  have free: "\<forall>key \<in> set ?keys. gone t0 key (kw_store w) \<and> gone t0 (lock_key key) (kw_store w)"
    using free by (auto simp: gone_def)
  have "r = Inr ()" if "\<not> late"
    using d(3) [OF that] warm_up_in_turn [OF default_roomy [OF t] _ _ load d(1) free] wave w'(1) by auto
  moreover have "r = Inl (Error ''pending'') \<or> r = Inr () \<and> (\<forall>i \<in> set ids. gone t0 (lock_key (cardKey i)) db \<and>
      (\<exists>v. ?load (cardKey i) = Inr (Some v) \<and> kept (t0 + 300000) (cardKey i) (RawJson v) db))"
    using warm_up [OF default_roomy [OF t] t(1) load d(1) free d(2) wave] by (simp add: w'(1) DEFAULT_CACHE_OPTIONS_def)
  moreover have "cards_warm env t0 ids w' \<and> (\<forall>i \<in> set ids. \<exists>v. kept (t0 + 300000) (cardKey i) v (kw_store w'))"
    if all: "\<forall>i \<in> set ids. gone t0 (lock_key (cardKey i)) db \<and> (\<exists>v. ?load (cardKey i) = Inr (Some v) \<and> kept (t0 + 300000) (cardKey i) (RawJson v) db)"
  proof -
    have "entry_good (\<lambda>x. x = v) (cardKey i) db" if "kept (t0 + 300000) (cardKey i) (RawJson v) db" for i v
      using that by (auto simp: kept_def entry_good_def)
    then have "cards_warm env t0 ids w'" using all ids(2) unfolding cards_warm_def w'(2) by fastforce
    then show ?thesis using all w'(2) by auto
  qed
  ultimately show ?thesis by blast
qed

lemma entry_good_evicted:
  assumes "entry_good good k db" "db' k = db k \<or> db' k = None" shows "entry_good good k db'"
  using assms by (auto simp: entry_good_def)

lemma gone_evicted:
  assumes "gone t k db" "db' k = db k \<or> db' k = None" shows "gone t k db'"
  using assms by (auto simp: gone_def)

lemma card_not_cold: "cardKey i \<notin> range (\<lambda>x. (''cold:'' @ uuid) @ x)" "lock_key (cardKey i) \<notin> range (\<lambda>x. (''cold:'' @ uuid) @ x)"
  by (auto simp: cardKey_def lock_key_def)

lemma evict_part:
  assumes "cards_warm env t0 all w" "only_evicts fill" "evictOne uuid fill candidates w = (r, w')"
  shows "r = Inl (Error ''nothing evicted'') \<or> cards_warm env t0 all w' \<and>
    (\<exists>i b. r = Inr i \<and> i \<in> set candidates \<and> r_get (fst (fill b)) (cardKey i) (kw_store w') = None)"
proof -
  obtain db where ev: "evict_from (''cold:'' @ uuid) fill candidates 200 0 (kw_store w) = (r, db)" and w': "w' = w\<lparr>kw_store := db\<rparr>"
    using assms(3) by (auto simp: evictOne_def split: prod.splits)
  have s: "r = Inl (Error ''nothing evicted'') \<or> (\<exists>i b. r = Inr i \<and> i \<in> set candidates \<and> r_get (fst (fill b)) (cardKey i) db = None)"
    and all_less: "\<forall>k. k \<notin> range (\<lambda>x. (''cold:'' @ uuid) @ x) \<longrightarrow> db k = kw_store w k \<or> db k = None"
    using evict_from_spec [OF assms(2) ev] by (rule conjunct1, rule conjunct2)
  note less = all_less [rule_format]
  have "cards_warm env t0 all w'"
    unfolding cards_warm_def
  proof
    fix i assume "i \<in> set all"
    then obtain v where v: "gone t0 (lock_key (cardKey i)) (kw_store w)" "load_card env w (cardKey i) = Inr (Some v)" "v \<noteq> JNull"
      "entry_good (\<lambda>x. x = v) (cardKey i) (kw_store w)" using assms(1) by (auto simp: cards_warm_def)
    then show "gone t0 (lock_key (cardKey i)) (kw_store w') \<and> (\<exists>v. load_card env w' (cardKey i) = Inr (Some v) \<and> v \<noteq> JNull \<and>
        entry_good (\<lambda>x. x = v) (cardKey i) (kw_store w'))"
      using gone_evicted [where db' = db, OF v(1) less [OF card_not_cold(2) [of i]]]
        entry_good_evicted [where db' = db, OF v(4) less [OF card_not_cold(1) [of i]]] by (simp add: w')
  qed
  then show ?thesis using s w' by auto
qed

lemma naive_part:
  assumes warm: "cards_warm env t0 ids w" and a: "a \<in> set ids" and d: "\<not> late \<Longrightarrow> \<exists>t. evs = in_turn n t"
    and run: "card_gets naive_options env token evs (replicate n (cardKey a)) w = (r, w')"
  shows "late \<and> r = Inl (Error ''pending'') \<or> r = Inr () \<and> cards_warm env t0 (filter (\<lambda>i. i \<noteq> a) ids) w'"
proof -
  let ?load = "load_card env w" and ?keys = "replicate n (cardKey a)"
  obtain pcs db k where wave: "wave_run naive_options ?load ?keys token evs (replicate n Read, kw_store w, 0) = (pcs, db, k)"
    by (metis prod_cases3)
  have w': "r = promise_all pcs" "w' = w\<lparr>kw_store := db, kw_log := (logged ^^ k) (kw_log w)\<rparr>"
    using run wave by (simp_all add: card_gets_def)
  obtain v where v: "?load (cardKey a) = Inr (Some v)" "v \<noteq> JNull" "entry_good (\<lambda>x. x = v) (cardKey a) (kw_store w)"
    using warm a by (auto simp: cards_warm_def)
  have "r = Inr ()" if "\<not> late"
    using d [OF that] naive_in_turn [where load = ?load and key = "cardKey a" and opts = naive_options, OF _ v(2,1,3)] wave w'(1)
    by (auto simp: naive_options_def)
  moreover have "r = Inr () \<or> r = Inl (Error ''pending'')"
    using naive_wave [OF _ v(2,1,3) wave] by (auto simp: w'(1) naive_options_def)
  moreover have same: "db (cardKey i) = kw_store w (cardKey i)" "db (lock_key (cardKey i)) = kw_store w (lock_key (cardKey i))" if "i \<noteq> a" for i
    using wave_frame [of ?keys _ "(replicate n Read, kw_store w, 0)" naive_options ?load token evs] wave that by simp_all
  then have "cards_warm env t0 (filter (\<lambda>i. i \<noteq> a) ids) w'"
    using warm by (simp add: cards_warm_def w'(2) gone_def entry_good_def)
  ultimately show ?thesis by blast
qed

lemma wave_part:
  assumes t: "u0 \<le> u1" "u1 \<le> u0 + 3000" and warm: "cards_warm env t0 ids w" "t0 \<le> u0" and b: "b \<in> set ids"
    and evicted: "r_get t (cardKey b) (kw_store w) = None" "t \<le> u0"
    and d: "inj token" "list_all (event_calm u0 u1) evs" "\<not> late \<Longrightarrow> \<exists>t \<in> {u0..<u1}. evs = in_turn n t" and n: "0 < n"
    and run: "card_gets DEFAULT_CACHE_OPTIONS env token evs (replicate n (cardKey b)) (reset_log w) = (r, w')"
  shows "late \<and> r = Inl (Error ''pending'') \<or> r = Inr () \<and> queries w' = 1 \<and>
    (\<exists>v. v \<noteq> JNull \<and> kept (u0 + 300000) (cardKey b) (RawJson v) (kw_store w'))"
proof -
  let ?load = "load_card env w" and ?key = "cardKey b"
  obtain pcs db k where wave: "wave_run DEFAULT_CACHE_OPTIONS ?load (replicate n ?key) token evs (replicate n Read, kw_store w, 0) = (pcs, db, k)"
    by (metis prod_cases3)
  have st: "kw_store (reset_log w) = kw_store w" "lg_count (kw_log (reset_log w)) = 0"
    by (simp_all add: reset_log_def logger_reset_def)
  then have w': "r = promise_all pcs" "kw_store w' = db" "queries w' = k"
    using run wave by (auto simp: card_gets_def queries_def)
  obtain v where v: "?load ?key = Inr (Some v)" "v \<noteq> JNull" "gone t0 (lock_key ?key) (kw_store w)"
    "entry_good (\<lambda>x. x = v) ?key (kw_store w)" using warm(1) b by (auto simp: cards_warm_def)
  have "gone u0 ?key (kw_store w)"
    using evicted by (auto simp: gone_def r_get_def split: option.splits prod.splits if_splits)
  moreover have "gone u0 (lock_key ?key) (kw_store w)"
    using v(3) warm(2) by (auto simp: gone_def split: option.splits prod.splits)
  ultimately have free: "gone u0 ?key (kw_store w)" "gone u0 (lock_key ?key) (kw_store w)" by blast+
  have "r = Inr ()" if "\<not> late"
    using d(3) [OF that] stampede_in_turn [where load = ?load and key = ?key, OF default_roomy [OF t] _ _ v(2,1) d(1) free] wave w'(1) by auto
  then show ?thesis
    using stampede [where load = ?load and key = ?key, OF default_roomy [OF t] t(1) v(2,1) d(1) free d(2) n wave] v(2) w'
    by (auto simp: DEFAULT_CACHE_OPTIONS_def)
qed

lemma reads_part:
  assumes v: "v \<noteq> JNull" "kept l key (RawJson v) (kw_store w)" "t0 \<le> l"
    and reads: "\<And>i. list_all (event_calm t0 l) (kd_reads d i)" "\<And>i. \<not> late \<Longrightarrow> kd_reads d i \<noteq> [] \<and> fst (hd (kd_reads d i)) = 0"
    and run: "warm_reads env d key n i w = (r, w')"
  shows "late \<and> r = Inl (Error ''pending'') \<or> r = Inr () \<and> queries w' = queries w"
  using v(2) run
proof (induction n arbitrary: i w)
  case (Suc n)
  let ?load = "load_card env w"
  obtain pcs db k where one: "wave_run DEFAULT_CACHE_OPTIONS ?load [key] (kd_token d (3 + i)) (kd_reads d i) ([Read], kw_store w, 0) = (pcs, db, k)"
    by (metis prod_cases3)
  have "db = kw_store w \<and> k = 0 \<and> (promise_all pcs = Inr () \<or> late \<and> promise_all pcs = Inl (Error ''pending''))"
    using warm_read [where load = ?load and key = key, OF Suc.prems(1) v(1,3) reads(1) one] reads(2) by auto
  then have "card_gets DEFAULT_CACHE_OPTIONS env (kd_token d (3 + i)) (kd_reads d i) [key] w = (promise_all pcs, w)"
    "promise_all pcs = Inr () \<or> late \<and> promise_all pcs = Inl (Error ''pending'')"
    using one by (simp_all add: card_gets_def)
  then show ?case using Suc.IH [OF Suc.prems(1), of "Suc i"] Suc.prems(2) by (auto simp: then_run_def)
qed simp

lemma ttl_positive:
  assumes "kept (t0 + 300000) k v db" "now \<le> t0 + 299000" shows "0 < ttl_of now k db"
proof -
  obtain e where e: "t0 + 300000 \<le> e" "db k = Some (v, Some e)" using assms(1) by (auto simp: kept_def)
  then have "pttl now k db = e - now" "1000 \<le> e - now" using assms(2) by (simp_all add: pttl_def)
  then show ?thesis by (simp add: ttl_of_def)
qed

subsection \<open>The run passes\<close>

text \<open>
  When things happen: the warming takes less than 3 s from \<open>t0\<close> and the second wave less
  than 3 s from \<open>u0\<close> (the time a caller waits for the one that holds the lock), the
  lifetimes are asked within 299 s of the warming, and the warm reads happen within 300 s
  of the second wave, the shortest lifetime of an entry.
\<close>

definition in_time :: "cache_draws \<Rightarrow> int \<Rightarrow> int \<Rightarrow> int \<Rightarrow> int \<Rightarrow> bool" where
  "in_time d t0 t1 u0 u1 \<longleftrightarrow> t0 \<le> t1 \<and> t1 \<le> t0 + 3000 \<and> t0 \<le> u0 \<and> u0 \<le> u1 \<and> u1 \<le> u0 + 3000 \<and>
     list_all (event_calm t0 t1) (kd_warm d) \<and> (\<forall>i. kd_ttl_at d i \<le> t0 + 299000) \<and>
     (\<forall>b. fst (kd_evictB d b) \<le> u0) \<and> list_all (event_calm u0 u1) (kd_wave d) \<and>
     (\<forall>i. list_all (event_calm u0 (u0 + 300000)) (kd_reads d i))"

definition card_start :: "checkout_env \<Rightarrow> card_world \<Rightarrow> bool" where
  "card_start env w \<longleftrightarrow> bigint_io env \<and> world_ok (kw_shop w) \<and> product_seq (kw_shop w) + WARM \<le> 2 ^ 63"

definition run_outcome :: "bool \<Rightarrow> ('a \<Rightarrow> bool) \<Rightarrow> 'a res \<Rightarrow> bool" where
  "run_outcome late good r \<longleftrightarrow> r = Inl (Error ''nothing evicted'') \<or> late \<and> r = Inl (Error ''pending'') \<or> (\<exists>x. r = Inr x \<and> good x)"

lemma run_outcome_simps [simp]:
  "run_outcome late good (Inl (Error ''nothing evicted''))" "run_outcome late good (Inl (Error ''pending'')) = late"
  "run_outcome late good (Inr x) = good x"
  by (simp_all add: run_outcome_def)

text \<open>No call is left under way, for one, when each caller makes its moves in its turn.\<close>

definition orderly :: "cache_draws \<Rightarrow> int \<Rightarrow> int \<Rightarrow> int \<Rightarrow> int \<Rightarrow> bool" where
  "orderly d t0 t1 u0 u1 \<longleftrightarrow> (\<exists>t \<in> {t0..<t1}. kd_warm d = in_turn WARM t) \<and> (\<exists>t. kd_naive d = in_turn CONCURRENT t) \<and>
     (\<exists>t \<in> {u0..<u1}. kd_wave d = in_turn CONCURRENT t) \<and> (\<forall>i. kd_reads d i \<noteq> [] \<and> fst (hd (kd_reads d i)) = 0)"

lemma purged: "kw_store (prepare_cache w) (cardKey i) = None" "kw_store (prepare_cache w) (lock_key (cardKey i)) = None"
  by (simp_all add: prepare_cache_def purge_def cardKey_def lock_key_def)

text \<open>The second half of the waves, from the second eviction on.\<close>

lemma second_wave:
  assumes time: "in_time d t0 t1 u0 u1" and tokens: "\<And>n. inj (kd_token d n)"
    and lru: "only_evicts (kd_evictB d)" and warm: "cards_warm env t0 ids w"
  shows "run_outcome (\<not> orderly d t0 t1 u0 u1) (\<lambda>(naive, calls, again). calls = 1 \<and> again = 0)
    (fst (then_run (evictOne uuid (kd_evictB d) ids) (\<lambda>b w4.
       then_run (card_gets DEFAULT_CACHE_OPTIONS env (kd_token d 2) (kd_wave d) (replicate CONCURRENT (cardKey b))) (\<lambda>_ w5.
       then_run (warm_reads env d (cardKey b) 100 0) (\<lambda>_ w6. (Inr (naive, queries w5, queries w6), w6))
         (reset_log w5)) (reset_log w4)) w))"
proof -
  note t = time [unfolded in_time_def]
  have t: "u0 \<le> u1" "u1 \<le> u0 + 3000" "t0 \<le> u0" "list_all (event_calm u0 u1) (kd_wave d)" "\<And>b. fst (kd_evictB d b) \<le> u0"
    "\<And>i. list_all (event_calm u0 (u0 + 300000)) (kd_reads d i)" using t by simp_all
  obtain r4 w4 where c4: "evictOne uuid (kd_evictB d) ids w = (r4, w4)" by fastforce
  consider "r4 = Inl (Error ''nothing evicted'')" | b n where "cards_warm env t0 ids w4" "r4 = Inr b" "b \<in> set ids"
      "r_get (fst (kd_evictB d n)) (cardKey b) (kw_store w4) = None"
    using evict_part [OF warm lru c4] by blast
  then show ?thesis
  proof cases
    case 1
    then show ?thesis by (simp add: then_run_def c4)
  next
    case (2 b n)
    obtain r5 w5 where c5: "card_gets DEFAULT_CACHE_OPTIONS env (kd_token d 2) (kd_wave d) (replicate CONCURRENT (cardKey b)) (reset_log w4) = (r5, w5)"
      by fastforce
    have r5: "\<not> orderly d t0 t1 u0 u1 \<and> r5 = Inl (Error ''pending'') \<or> r5 = Inr () \<and> queries w5 = 1 \<and>
        (\<exists>v. v \<noteq> JNull \<and> kept (u0 + 300000) (cardKey b) (RawJson v) (kw_store w5))"
      by (rule wave_part [OF t(1,2) 2(1) t(3) 2(3,4) t(5) tokens t(4) _ _ c5]) (auto simp: CONCURRENT_def orderly_def)
    obtain r6 w6 where c6: "warm_reads env d (cardKey b) 100 0 (reset_log w5) = (r6, w6)" by fastforce
    have zero: "queries (reset_log w5) = 0" "kw_store (reset_log w5) = kw_store w5"
      by (simp_all add: queries_def reset_log_def logger_reset_def)
    have r6: "\<not> orderly d t0 t1 u0 u1 \<and> r6 = Inl (Error ''pending'') \<or> r6 = Inr () \<and> queries w6 = 0"
      if "v \<noteq> JNull" "kept (u0 + 300000) (cardKey b) (RawJson v) (kw_store w5)" for v
      using reads_part [OF that(1) _ _ t(6) _ c6, of "\<not> orderly d t0 t1 u0 u1"] that(2) zero by (simp add: orderly_def)
    have "\<not> orderly d t0 t1 u0 u1 \<and> r5 = Inl (Error ''pending'') \<or> r5 = Inr () \<and> queries w5 = 1 \<and> (\<not> orderly d t0 t1 u0 u1 \<and> r6 = Inl (Error ''pending'') \<or> r6 = Inr () \<and> queries w6 = 0)"
      using r5 r6 by blast
    then show ?thesis by (auto simp: then_run_def c4 2(2) c5 c6)
  qed
qed

lemma cards_warm_reset: "cards_warm env t0 ids w \<Longrightarrow> cards_warm env t0 ids (reset_log w)"
  unfolding cards_warm_def load_card_same by (simp add: reset_log_def)

lemma waves_pass:
  assumes time: "in_time d t0 t1 u0 u1" and tokens: "\<And>n. inj (kd_token d n)"
    and lru: "only_evicts (kd_evictA d)" "only_evicts (kd_evictB d)" and warm: "cards_warm env t0 ids w"
  shows "run_outcome (\<not> orderly d t0 t1 u0 u1) (\<lambda>(naive, calls, again). calls = 1 \<and> again = 0) (fst (demo_waves env d ids w))"
proof -
  obtain r2 w2 where c2: "evictOne (kd_uuid d 0) (kd_evictA d) ids w = (r2, w2)" by fastforce
  note e = evict_part [OF warm lru(1) c2]
  consider "r2 = Inl (Error ''nothing evicted'')" | a where "cards_warm env t0 ids (reset_log w2)" "r2 = Inr a" "a \<in> set ids"
    using evict_part [OF warm lru(1) c2] cards_warm_reset by blast
  then show ?thesis
  proof cases
    case 1
    then show ?thesis by (simp add: demo_waves_def then_run_def c2)
  next
    case (2 a)
    obtain r3 w3 where c3: "card_gets naive_options env (kd_token d 1) (kd_naive d) (replicate CONCURRENT (cardKey a)) (reset_log w2) = (r3, w3)"
      by fastforce
    have two: "demo_waves env d ids w = then_run (\<lambda>_. (r3, w3)) (\<lambda>_ w3.
       then_run (evictOne (kd_uuid d 1) (kd_evictB d) (filter (\<lambda>i. i \<noteq> a) ids)) (\<lambda>b w4.
       then_run (card_gets DEFAULT_CACHE_OPTIONS env (kd_token d 2) (kd_wave d) (replicate CONCURRENT (cardKey b))) (\<lambda>_ w5.
       then_run (warm_reads env d (cardKey b) 100 0) (\<lambda>_ w6. (Inr (queries w3, queries w5, queries w6), w6))
         (reset_log w5)) (reset_log w4)) w3) w"
      by (simp add: demo_waves_def then_run_def c2 2(2) c3 del: One_nat_def)
    have "\<not> orderly d t0 t1 u0 u1 \<and> r3 = Inl (Error ''pending'') \<or>
        r3 = Inr () \<and> cards_warm env t0 (filter (\<lambda>i. i \<noteq> a) ids) w3"
      by (rule naive_part [OF 2(1,3) _ c3]) (simp add: orderly_def)
    then show ?thesis
    proof (elim disjE conjE)
      assume "\<not> orderly d t0 t1 u0 u1" "r3 = Inl (Error ''pending'')"
      then show ?thesis unfolding two by (simp add: then_run_def)
    next
      assume "r3 = Inr ()" and warm: "cards_warm env t0 (filter (\<lambda>i. i \<noteq> a) ids) w3"
      then show ?thesis
        unfolding two using second_wave [OF time tokens lru(2) warm] by (simp add: then_run_def [where m = "\<lambda>_. _"])
    qed
  qed
qed

text \<open>The run of the cache passes: whatever keys Redis evicts and in whatever order the callers
  move, if the two waves are over within three seconds each and Redis answers, then the
  run ends with all cards warm, exactly one query for fifty callers of a card that was
  evicted, none for a hundred reads of a warm card, and exit code 0; unless no card is
  ever evicted, or a call is still under way, which cannot be when each caller makes its
  moves in its turn.\<close>

theorem cache_demo_passes:
  assumes start: "card_start env w" and time: "in_time d t0 t1 u0 u1" and tokens: "\<And>n. inj (kd_token d n)"
    and lru: "only_evicts (kd_evictA d)" "only_evicts (kd_evictB d)"
  shows "run_outcome (\<not> orderly d t0 t1 u0 u1) (\<lambda>r. kr_warmed r = 60 \<and> kr_calls r = 1 \<and> kr_calls_warm r = 0 \<and> kr_exit r = 0) (fst (demo_cache env d w))"
proof -
  note t = time [unfolded in_time_def]
  obtain ids w1 where ids: "seedProducts env (prepare_cache w) = (Inr ids, w1)" "length ids = WARM" "distinct ids"
      "kw_store w1 = kw_store (prepare_cache w)"
      "\<forall>i \<in> set ids. \<exists>v. load_card env w1 (cardKey i) = Inr (Some v) \<and> v \<noteq> JNull"
    using seedProducts_ok [of "prepare_cache w" env] start
    by (cases "seedProducts env (prepare_cache w)") (auto simp: card_start_def prepare_cache_def)
  obtain r2 w2 where c2: "card_gets DEFAULT_CACHE_OPTIONS env (kd_token d 0) (kd_warm d) (map cardKey ids) w1 = (r2, w2)" by fastforce
  have free: "\<forall>i. kw_store w1 (cardKey i) = None \<and> kw_store w1 (lock_key (cardKey i)) = None" using ids(4) purged by simp
  have "t0 \<le> t1" "t1 \<le> t0 + 3000" "list_all (event_calm t0 t1) (kd_warm d)" using t by simp_all
  then have r2: "\<not> orderly d t0 t1 u0 u1 \<and> r2 = Inl (Error ''pending'') \<or> r2 = Inr () \<and> cards_warm env t0 ids w2 \<and>
      (\<forall>i \<in> set ids. \<exists>v. kept (t0 + 300000) (cardKey i) v (kw_store w2))"
    by (rule warm_part [OF _ _ ids(3,5) free tokens _ _ c2]) (auto simp: orderly_def ids(2))
  let ?ttls = "map (\<lambda>i. ttl_of (kd_ttl_at d i) (cardKey (ids ! i)) (kw_store w2)) [0..<length ids]"
  have warmed: "length (filter (\<lambda>t. 0 < t) ?ttls) = 60" if kept: "\<forall>i \<in> set ids. \<exists>v. kept (t0 + 300000) (cardKey i) v (kw_store w2)"
  proof -
    have "0 < ttl_of (kd_ttl_at d i) (cardKey (ids ! i)) (kw_store w2)" if "i < length ids" for i
      using ttl_positive kept nth_mem [OF that] t by blast
    then have "filter (\<lambda>t. 0 < t) ?ttls = ?ttls" by (auto simp: filter_id_conv)
    then show ?thesis using ids(2) by (simp add: WARM_def)
  qed
  obtain r3 w3 where c3: "demo_waves env d ids w2 = (r3, w3)" by fastforce
  have r3: "run_outcome (\<not> orderly d t0 t1 u0 u1) (\<lambda>(naive, calls, again). calls = 1 \<and> again = 0) r3" if "cards_warm env t0 ids w2"
    using waves_pass [OF time tokens lru that] c3 by simp
  show ?thesis
    using r2
  proof (elim disjE conjE)
    assume "\<not> orderly d t0 t1 u0 u1" "r2 = Inl (Error ''pending'')"
    then show ?thesis by (simp add: demo_cache_def Let_def then_run_def ids(1) c2)
  next
    assume "r2 = Inr ()" "cards_warm env t0 ids w2" "\<forall>i \<in> set ids. \<exists>v. kept (t0 + 300000) (cardKey i) v (kw_store w2)"
    then show ?thesis
      using r3 warmed by (auto simp: run_outcome_def demo_cache_def Let_def then_run_def ids(1) c2 c3 expect_ok_def)
  qed
qed

end
