(* ===== verification/QueueDemo.thy ===== *)
theory QueueDemo
  imports Jobs CacheDemo
begin

text \<open>
  The acceptance run of the job queue, \<open>src/demo-queue.ts\<close>: a job added twice under one id,
  its retries, the same id after it has completed, and a scheduler set up twice.  BullMQ is
  the parameter \<open>bull_lib\<close> with the laws of \<open>documented\<close>; its worker runs the processor when
  the given events say.  Printing and elapsed times are not modelled.
\<close>

subsection \<open>BullMQ\<close>

record 'q bull_lib =
  bl_add :: "'q add_fn"
  bl_upsert :: "string \<Rightarrow> scheduler_opts \<Rightarrow> 'q \<Rightarrow> 'q"
  bl_removeScheduler :: "string \<Rightarrow> 'q \<Rightarrow> 'q"
  bl_obliterate :: "'q \<Rightarrow> 'q"
  bl_count :: "'q \<Rightarrow> nat"
  bl_getJobSchedulers :: "'q \<Rightarrow> nat"
  bl_look :: "'q \<Rightarrow> string \<Rightarrow> bull_job option"
  bl_schedulers :: "'q \<Rightarrow> string \<Rightarrow> scheduler_opts option"
  bl_settle :: "string \<Rightarrow> bull_job \<Rightarrow> 'q \<Rightarrow> 'q"

text \<open>
  \<open>obliterate\<close> leaves nothing; \<open>getJobSchedulers\<close> lists each scheduler once; adding jobs and
  working on them does not touch the schedulers, nor the other way round.  \<open>bl_settle\<close> is
  what the worker records of a job after an attempt.
\<close>

definition documented :: "'q bull_lib \<Rightarrow> bool" where
  "documented lib \<longleftrightarrow> bull_add (bl_add lib) (bl_look lib) \<and> bull_scheduler (bl_upsert lib) (bl_schedulers lib) \<and>
     (\<forall>q. bl_look lib (bl_obliterate lib q) = (\<lambda>_. None) \<and> bl_schedulers lib (bl_obliterate lib q) = (\<lambda>_. None)) \<and>
     (\<forall>q. bl_getJobSchedulers lib q = card (dom (bl_schedulers lib q))) \<and>
     (\<forall>i j q. bl_look lib (bl_settle lib i j q) = (bl_look lib q)(i \<mapsto> j)) \<and>
     (\<forall>i j q. bl_schedulers lib (bl_settle lib i j q) = bl_schedulers lib q) \<and>
     (\<forall>n d opts q. bl_schedulers lib (snd (bl_add lib n d opts q)) = bl_schedulers lib q) \<and>
     (\<forall>i opts q. bl_look lib (bl_upsert lib i opts q) = bl_look lib q)"

lemma documentedD:
  assumes "documented lib"
  shows "bull_add (bl_add lib) (bl_look lib)" "bull_scheduler (bl_upsert lib) (bl_schedulers lib)"
    "bl_look lib (bl_obliterate lib q) = (\<lambda>_. None)" "bl_schedulers lib (bl_obliterate lib q) = (\<lambda>_. None)"
    "bl_getJobSchedulers lib q = card (dom (bl_schedulers lib q))"
    "bl_look lib (bl_settle lib i j q) = (bl_look lib q)(i \<mapsto> j)" "bl_schedulers lib (bl_settle lib i j q) = bl_schedulers lib q"
    "bl_schedulers lib (snd (bl_add lib n d opts q)) = bl_schedulers lib q" "bl_look lib (bl_upsert lib i so q) = bl_look lib q"
  using assms by (simp_all add: documented_def)

subsection \<open>The worker\<close>

text \<open>An attempt at the job of an id, at a time, or a firing of a scheduler.\<close>

datatype worker_event = Attempt string int | Fire string

record 'q queue_run =
  qr_queue :: 'q
  qr_attempts :: nat
  qr_ticks :: nat
  qr_completed :: nat

definition SCHEDULER :: string where "SCHEDULER = ''demo-heartbeat''"

definition demo_deps :: processor_deps where
  "demo_deps = \<lparr>pd_recalcRating = demo_recalc, pd_onTick = Some (\<lambda>_. Inr ())\<rparr>"

text \<open>\<open>worker.on('completed', ...)\<close>.\<close>

definition on_completed :: "bull_job \<Rightarrow> 'q queue_run \<Rightarrow> 'q queue_run" where
  "on_completed job s = (if jb_name job \<noteq> ''tick'' then s\<lparr>qr_completed := qr_completed s + 1\<rparr> else s)"

text \<open>The processor counts what it runs.\<close>

definition count_run :: "bull_job \<Rightarrow> 'q queue_run \<Rightarrow> 'q queue_run" where
  "count_run job s =
     (if jb_name job = RECALC_RATING then s\<lparr>qr_attempts := qr_attempts s + 1\<rparr>
      else if jb_name job = ''tick'' then s\<lparr>qr_ticks := qr_ticks s + 1\<rparr> else s)"

definition tick_job :: "scheduler_opts \<Rightarrow> bull_job" where
  "tick_job so = \<lparr>jb_id = so_name so, jb_name = so_name so, jb_data = \<lparr>rd_productId = '''', rd_failTimes = None\<rparr>,
     jb_opts = no_options, jb_attemptsMade = 0, jb_finished = None\<rparr>"

fun worker_step :: "'q bull_lib \<Rightarrow> worker_event \<Rightarrow> 'q queue_run \<Rightarrow> 'q queue_run" where
  "worker_step lib (Attempt i t) s =
     (case bl_look lib (qr_queue s) i of
        None \<Rightarrow> s
      | Some job \<Rightarrow>
          if jb_finished job \<noteq> None then s
          else (let s1 = count_run job s; n = jb_attemptsMade job + 1
                in case createProcessor demo_deps job of
                     Inr _ \<Rightarrow> on_completed job (s1\<lparr>qr_queue := bl_settle lib i (job\<lparr>jb_finished := Some (t, True)\<rparr>) (qr_queue s1)\<rparr>)
                   | Inl _ \<Rightarrow> s1\<lparr>qr_queue := bl_settle lib i (job\<lparr>jb_attemptsMade := n,
                       jb_finished := (if (case jo_attempts (jb_opts job) of None \<Rightarrow> 1 | Some m \<Rightarrow> m) \<le> n then Some (t, False) else None)\<rparr>)
                       (qr_queue s1)\<rparr>))"
| "worker_step lib (Fire i) s =
     (case bl_schedulers lib (qr_queue s) i of
        None \<Rightarrow> s
      | Some so \<Rightarrow> (case createProcessor demo_deps (tick_job so) of
          Inr _ \<Rightarrow> on_completed (tick_job so) (count_run (tick_job so) s) | Inl _ \<Rightarrow> count_run (tick_job so) s))"

definition work :: "'q bull_lib \<Rightarrow> worker_event list \<Rightarrow> 'q queue_run \<Rightarrow> 'q queue_run" where
  "work lib es s = fold (worker_step lib) es s"

subsection \<open>The run\<close>

record queue_report =
  qd_noeviction :: int
  qd_queued :: nat
  qd_attempts :: nat
  qd_completed :: nat
  qd_queued_after :: nat
  qd_schedulers :: nat
  qd_runs :: nat
  qd_exit :: nat

text \<open>\<open>es1\<close> are the events until the wait for a completed job is over, \<open>es2\<close> those of the three
  seconds after the scheduler is there.\<close>

definition demo_queue :: "'q bull_lib \<Rightarrow> (string \<Rightarrow> string list) \<Rightarrow> worker_event list \<Rightarrow> worker_event list \<Rightarrow> 'q \<Rightarrow> queue_report \<times> 'q" where
  "demo_queue lib config es1 es2 q =
     (let q0 = bl_obliterate lib q;
          policy = configGet config ''maxmemory-policy'';
          d = \<lparr>rd_productId = ''42'', rd_failTimes = Some 2\<rparr>;
          (first, q1) = enqueueRecalcRating (bl_add lib) d no_options q0;
          (second, q2) = enqueueRecalcRating (bl_add lib) d no_options q1;
          code = expect_ok (first = second) 0;
          s1 = work lib es1 \<lparr>qr_queue = q2, qr_attempts = 0, qr_ticks = 0, qr_completed = 0\<rparr>;
          q3 = snd (enqueueRecalcRating (bl_add lib) \<lparr>rd_productId = ''42'', rd_failTimes = None\<rparr> no_options (qr_queue s1));
          q4 = upsertScheduler (bl_upsert lib) SCHEDULER 500 ''tick'' (upsertScheduler (bl_upsert lib) SCHEDULER 500 ''tick'' q3);
          s2 = work lib es2 (s1\<lparr>qr_queue := q4\<rparr>);
          code = expect_ok (3 \<le> qr_attempts s2 \<and> qr_completed s2 = 1) code;
          code = expect_ok (2 \<le> qr_ticks s2) code
      in (\<lparr>qd_noeviction = bool_kv (policy = ''noeviction''), qd_queued = bl_count lib q2,
           qd_attempts = qr_attempts s1, qd_completed = qr_completed s1, qd_queued_after = bl_count lib q3,
           qd_schedulers = bl_getJobSchedulers lib (qr_queue s2), qd_runs = qr_ticks s2, qd_exit = run_exit (Inr code)\<rparr>,
          bl_obliterate lib (bl_removeScheduler lib SCHEDULER (qr_queue s2))))"

subsection \<open>The job\<close>

definition demo_data :: recalc_data where
  "demo_data = \<lparr>rd_productId = ''42'', rd_failTimes = Some 2\<rparr>"

definition the_job :: "nat \<Rightarrow> (int \<times> bool) option \<Rightarrow> bull_job" where
  "the_job n fin = \<lparr>jb_id = job_id demo_data, jb_name = RECALC_RATING, jb_data = demo_data,
     jb_opts = job_opts demo_data no_options, jb_attemptsMade = n, jb_finished = fin\<rparr>"

text \<open>After \<open>n\<close> attempts of the three it needs, the job is the only one of the queue.\<close>

definition worked :: "'q bull_lib \<Rightarrow> (string \<Rightarrow> scheduler_opts option) \<Rightarrow> nat \<Rightarrow> 'q queue_run \<Rightarrow> bool" where
  "worked lib sch n s \<longleftrightarrow> n \<le> 3 \<and> bl_schedulers lib (qr_queue s) = sch \<and> qr_attempts s = n \<and>
     (if n < 3 then bl_look lib (qr_queue s) = [job_id demo_data \<mapsto> the_job n None] \<and> qr_completed s = 0
      else (\<exists>t. bl_look lib (qr_queue s) = [job_id demo_data \<mapsto> the_job 2 (Some (t, True))]) \<and> qr_completed s = 1)"

definition attempts_of :: "string \<Rightarrow> worker_event list \<Rightarrow> nat" where
  "attempts_of i es = length (filter (\<lambda>e. \<exists>t. e = Attempt i t) es)"

definition fires_of :: "string \<Rightarrow> worker_event list \<Rightarrow> nat" where
  "fires_of i es = length (filter (\<lambda>e. e = Fire i) es)"

lemma the_job_process: "createProcessor demo_deps (the_job n fin) = (if n < 2 then Inl (Error ''down'') else Inr ())"
  by (simp add: createProcessor_def demo_deps_def the_job_def demo_recalc_def demo_data_def)

lemma the_job_simps [simp]:
  "jb_finished (the_job n fin) = fin" "jb_attemptsMade (the_job n fin) = n" "jb_name (the_job n fin) = RECALC_RATING"
  "jo_attempts (jb_opts (the_job n fin)) = Some 4" "RECALC_RATING \<noteq> ''tick''"
  "(the_job n fin)\<lparr>jb_finished := f\<rparr> = the_job n f"
  "(the_job n fin)\<lparr>jb_attemptsMade := m, jb_finished := f\<rparr> = the_job m f"
  by (simp_all add: the_job_def job_opts_default RECALC_RATING_def)

lemma attempt_worked:
  assumes lib: "documented lib" and w: "worked lib sch n s"
  shows "worked lib sch (if i = job_id demo_data then min 3 (n + 1) else n) (worker_step lib (Attempt i t) s) \<and>
    qr_ticks (worker_step lib (Attempt i t) s) = qr_ticks s"
proof -
  note d = documentedD(6,7) [OF lib]
  consider "i \<noteq> job_id demo_data" | "i = job_id demo_data" "n < 2" | "i = job_id demo_data" "n = 2" | "i = job_id demo_data" "n = 3"
    using w unfolding worked_def by linarith
  then show ?thesis
  proof cases
    case 1
    then have "bl_look lib (qr_queue s) i = None" using w by (auto simp: worked_def split: if_splits)
    then show ?thesis using 1 w by simp
  next
    case 2
    then have "bl_look lib (qr_queue s) = [i \<mapsto> the_job n None]" using w by (simp add: worked_def)
    then show ?thesis
      using 2 w by (simp add: Let_def the_job_process count_run_def worked_def d)
  next
    case 3
    then have "bl_look lib (qr_queue s) = [i \<mapsto> the_job 2 None]" using w by (simp add: worked_def)
    then show ?thesis
      using 3 w by (simp add: Let_def the_job_process count_run_def on_completed_def worked_def d) blast
  next
    case 4
    then obtain t' where "bl_look lib (qr_queue s) = [i \<mapsto> the_job 2 (Some (t', True))]" using w by (auto simp: worked_def)
    then show ?thesis using 4 w by simp
  qed
qed

lemma fire_worked:
  assumes w: "worked lib sch n s" and sch: "sch = [SCHEDULER \<mapsto> so]" "so_name so = ''tick''"
  shows "worked lib sch n (worker_step lib (Fire i) s) \<and>
    qr_ticks (worker_step lib (Fire i) s) = qr_ticks s + (if i = SCHEDULER then 1 else 0)"
proof -
  have "bl_schedulers lib (qr_queue s) = [SCHEDULER \<mapsto> so]" using w sch by (simp add: worked_def)
  moreover have "createProcessor demo_deps (tick_job so) = Inr ()" "jb_name (tick_job so) = ''tick''"
    using sch(2) by (simp_all add: createProcessor_def tick_job_def demo_deps_def RECALC_RATING_def)
  ultimately have "worker_step lib (Fire i) s = (if i = SCHEDULER then s\<lparr>qr_ticks := qr_ticks s + 1\<rparr> else s)"
    by (simp add: on_completed_def count_run_def RECALC_RATING_def)
  then show ?thesis using w by (simp add: worked_def)
qed

lemma work_first:
  assumes lib: "documented lib"
  shows "worked lib (\<lambda>_. None) n s \<Longrightarrow> worked lib (\<lambda>_. None) (min 3 (n + attempts_of (job_id demo_data) es)) (work lib es s) \<and>
    qr_ticks (work lib es s) = qr_ticks s"
proof (induction es arbitrary: n s)
  case Nil
  then show ?case by (auto simp: work_def attempts_of_def worked_def)
next
  case (Cons e es)
  let ?m = "if \<exists>t. e = Attempt (job_id demo_data) t then min 3 (n + 1) else n"
  have "worked lib (\<lambda>_. None) ?m (worker_step lib e s) \<and> qr_ticks (worker_step lib e s) = qr_ticks s"
  proof (cases e)
    case (Attempt i t)
    then show ?thesis using attempt_worked [OF lib Cons.prems, of i t] by simp
  next
    case (Fire i)
    then show ?thesis using Cons.prems by (simp add: worked_def)
  qed
  note step = this
  have "min 3 (?m + attempts_of (job_id demo_data) es) = min 3 (n + attempts_of (job_id demo_data) (e # es))"
    by (simp add: attempts_of_def min_def)
  moreover have "work lib (e # es) s = work lib es (worker_step lib e s)" by (simp add: work_def)
  ultimately show ?case using Cons.IH [of ?m "worker_step lib e s"] step by simp
qed

lemma work_then:
  assumes lib: "documented lib" and sch: "sch = [SCHEDULER \<mapsto> so]" "so_name so = ''tick''"
  shows "worked lib sch 3 s \<Longrightarrow> worked lib sch 3 (work lib es s) \<and> qr_ticks (work lib es s) = qr_ticks s + fires_of SCHEDULER es"
proof (induction es arbitrary: s)
  case (Cons e es)
  have "worked lib sch 3 (worker_step lib e s) \<and> qr_ticks (worker_step lib e s) = qr_ticks s + (if e = Fire SCHEDULER then 1 else 0)"
  proof (cases e)
    case (Attempt i t)
    then show ?thesis using attempt_worked [OF lib Cons.prems, of i t] by (simp split: if_splits)
  next
    case (Fire i)
    then show ?thesis using fire_worked [OF Cons.prems sch, of i] by simp
  qed
  then show ?case using Cons.IH [of "worker_step lib e s"] by (simp add: work_def fires_of_def)
qed (simp add: work_def fires_of_def)

text \<open>The run of the queue passes: if the worker gets to the job three times before the wait is
  over and the scheduler fires twice in the three seconds, then both calls return the same
  job, which fails twice and completes at its third attempt, a call after that adds
  nothing, two calls leave one scheduler, and the exit code is 0.\<close>

theorem queue_demo_passes:
  assumes lib: "documented lib" and es: "3 \<le> attempts_of (job_id demo_data) es1" "2 \<le> fires_of SCHEDULER es2"
  shows "\<exists>r q'. demo_queue lib config es1 es2 q = (r, q') \<and> qd_attempts r = 3 \<and> qd_completed r = 1 \<and>
    qd_schedulers r = 1 \<and> qd_runs r = fires_of SCHEDULER es2 \<and> qd_exit r = 0"
proof -
  note d = documentedD [OF lib]
  have none: "jo_jobId no_options = None" by (simp add: no_options_def)
  let ?q0 = "bl_obliterate lib q" and ?id = "job_id demo_data"
  obtain i1 q1 where e1: "enqueueRecalcRating (bl_add lib) demo_data no_options ?q0 = (i1, q1)" by fastforce
  have i1: "i1 = ?id" and q1: "bl_look lib q1 = [?id \<mapsto> the_job 0 None]"
    using enqueue_new [OF d(1) none _ e1] d(3) by (simp_all add: the_job_def)
  have e2: "enqueueRecalcRating (bl_add lib) demo_data no_options q1 = (?id, q1)"
    using enqueue_known [OF d(1) none, of q1 demo_data] q1 by simp
  have "bl_schedulers lib q1 = (\<lambda>_. None)"
    using d(8) [of RECALC_RATING demo_data _ ?q0] d(4) e1 unfolding enqueueRecalcRating_def by (metis snd_conv)
  then have "worked lib (\<lambda>_. None) 0 \<lparr>qr_queue = q1, qr_attempts = 0, qr_ticks = 0, qr_completed = 0\<rparr>"
    using q1 by (simp add: worked_def)
  note one = work_first [OF lib this, of es1]
  let ?s1 = "work lib es1 \<lparr>qr_queue = q1, qr_attempts = 0, qr_ticks = 0, qr_completed = 0\<rparr>"
  have s1: "worked lib (\<lambda>_. None) 3 ?s1" "qr_ticks ?s1 = 0" using one es(1) by (simp_all add: min_def split: if_splits)
  have "job_id \<lparr>rd_productId = ''42'', rd_failTimes = None\<rparr> = ?id" by (simp add: job_id_def demo_data_def)
  then have e3: "snd (enqueueRecalcRating (bl_add lib) \<lparr>rd_productId = ''42'', rd_failTimes = None\<rparr> no_options (qr_queue ?s1)) = qr_queue ?s1"
    using enqueue_known [OF d(1) none, of "qr_queue ?s1" "\<lparr>rd_productId = ''42'', rd_failTimes = None\<rparr>"] s1(1) by (auto simp: worked_def)
  let ?so = "\<lparr>so_every = 500, so_name = ''tick'', so_removeOnComplete = RemoveNow\<rparr>"
  let ?q4 = "upsertScheduler (bl_upsert lib) SCHEDULER 500 ''tick'' (upsertScheduler (bl_upsert lib) SCHEDULER 500 ''tick'' (qr_queue ?s1))"
  have "bl_schedulers lib ?q4 = [SCHEDULER \<mapsto> ?so]" "bl_look lib ?q4 = bl_look lib (qr_queue ?s1)"
    using d(2,9) s1(1) by (simp_all add: bull_scheduler_def upsertScheduler_def worked_def)
  then have "worked lib [SCHEDULER \<mapsto> ?so] 3 (?s1\<lparr>qr_queue := ?q4\<rparr>)" using s1(1) by (simp add: worked_def)
  then have two: "worked lib [SCHEDULER \<mapsto> ?so] 3 (work lib es2 (?s1\<lparr>qr_queue := ?q4\<rparr>))"
    "qr_ticks (work lib es2 (?s1\<lparr>qr_queue := ?q4\<rparr>)) = fires_of SCHEDULER es2"
    using work_then [OF lib refl, where so = ?so and es = es2] s1(2) by simp_all
  then have "bl_getJobSchedulers lib (qr_queue (work lib es2 (?s1\<lparr>qr_queue := ?q4\<rparr>))) = 1" using d(5) by (simp add: worked_def)
  then show ?thesis
    using s1(1) two es(2) e1 e2 i1 e3
    by (simp add: demo_queue_def Let_def expect_ok_def run_exit_def worked_def flip: demo_data_def)
qed

subsection \<open>Instance\<close>

text \<open>A queue that is a map from ids to jobs, with its schedulers beside it.\<close>

definition map_queue :: "((string \<Rightarrow> bull_job option) \<times> (string \<Rightarrow> scheduler_opts option)) bull_lib" where
  "map_queue = \<lparr>bl_add = (\<lambda>n d opts (js, sch). let (i, js') = assoc_add n d opts js in (i, js', sch)),
     bl_upsert = (\<lambda>i so (js, sch). (js, sch(i \<mapsto> so))), bl_removeScheduler = (\<lambda>i (js, sch). (js, sch(i := None))),
     bl_obliterate = (\<lambda>_. (\<lambda>_. None, \<lambda>_. None)),
     bl_count = (\<lambda>q. card {i. \<exists>j. fst q i = Some j \<and> jb_finished j = None}),
     bl_getJobSchedulers = (\<lambda>q. card (dom (snd q))), bl_look = fst, bl_schedulers = snd,
     bl_settle = (\<lambda>i j (js, sch). (js(i \<mapsto> j), sch))\<rparr>"

lemma map_queue_documented: "documented map_queue"
proof -
  have "bull_add (bl_add map_queue) (bl_look map_queue)"
    using assoc_add_bull by (auto simp: bull_add_def map_queue_def Let_def split: prod.splits)
  moreover have "snd (snd (bl_add map_queue n d opts q)) = snd q" for n d opts q
    by (cases q) (simp add: map_queue_def split: prod.split)
  ultimately show ?thesis
    unfolding documented_def by (simp add: map_queue_def bull_scheduler_def split: prod.splits)
qed

definition example_work :: "worker_event list" where
  "example_work = [Attempt (job_id demo_data) 5, Attempt ''x'' 7, Attempt (job_id demo_data) 230, Attempt (job_id demo_data) 700]"

definition example_fires :: "worker_event list" where
  "example_fires = [Fire SCHEDULER, Attempt (job_id demo_data) 1200, Fire SCHEDULER]"

theorem queue_demo_instance:
  "\<exists>r q'. demo_queue map_queue (\<lambda>_. []) example_work example_fires (\<lambda>_. None, \<lambda>_. None) = (r, q') \<and>
     qd_attempts r = 3 \<and> qd_completed r = 1 \<and> qd_runs r = 2 \<and> qd_exit r = 0"
proof -
  have "fires_of SCHEDULER example_fires = 2" "3 \<le> attempts_of (job_id demo_data) example_work"
    by (simp_all add: fires_of_def attempts_of_def example_work_def example_fires_def)
  then show ?thesis
    using queue_demo_passes [OF map_queue_documented, of example_work example_fires "\<lambda>_. []" "(\<lambda>_. None, \<lambda>_. None)"] by auto
qed

end
