(* ===== verification/Database.thy ===== *)
theory Database
  imports Edge Env
begin

text \<open>
  How the parts of the program reach Postgres: the pool of the server
  (\<open>src/database/database.module.ts\<close>), which reads its password from a file for every new
  connection, the \<open>DataSource\<close> of the scripts (\<open>src/data-source.ts\<close>), and the address the
  acceptance runs build for the server (\<open>src/auth/demo-lib.ts\<close>, \<open>src/files/demo-lib.ts\<close>).
  Text is the list of its UTF-8 bytes.  The URL parser is a parameter.
\<close>

subsection \<open>encodeURIComponent\<close>

definition uri_plain :: "char \<Rightarrow> bool" where
  "uri_plain c \<longleftrightarrow> (let n = of_char c :: nat in 48 \<le> n \<and> n \<le> 57 \<or> 65 \<le> n \<and> n \<le> 90 \<or> 97 \<le> n \<and> n \<le> 122) \<or> c \<in> set ''-_.!~*'' \<or>
     (of_char c :: nat) \<in> set [39, 40, 41]"

definition hex_letter :: "nat \<Rightarrow> char" where
  "hex_letter n = char_of (if n < 10 then 48 + n else 55 + n)"

definition uri_byte :: "char \<Rightarrow> string" where
  "uri_byte c = (if uri_plain c then [c]
     else [CHR ''%'', hex_letter (of_char c div 16), hex_letter (of_char c mod 16)])"

definition encodeURIComponent :: "string \<Rightarrow> string" where
  "encodeURIComponent s = concat (map uri_byte s)"

text \<open>Well-formed UTF-8, as the text of a JavaScript string without lone surrogates is.\<close>

inductive utf8 :: "string \<Rightarrow> bool" where
  utf8_empty: "utf8 []"
| utf8_char: "utf8_more (of_char c) = Some (length cs) \<Longrightarrow> utf8_tail (of_char c) (map of_char cs) \<Longrightarrow> utf8 s \<Longrightarrow> utf8 (c # cs @ s)"

lemma nibbles: "(of_char c :: nat) div 16 < 16" "(of_char c :: nat) mod 16 < 16"
  using of_char_less [of c] by linarith+

lemma hex_digit_hex_letter: "n < 16 \<Longrightarrow> hex_digit (of_char (hex_letter n)) = Some n"
  by (auto simp: hex_letter_def hex_digit_def is_digit_def)

lemma escape_uri_byte:
  assumes "\<not> uri_plain c" shows "escape (uri_byte c @ s) = Some (of_char c, s)"
proof -
  have "hex_digit (of_char (hex_letter (of_char c div 16))) = Some (of_char c div 16)"
    "hex_digit (of_char (hex_letter (of_char c mod 16))) = Some (of_char c mod 16)"
    using hex_digit_hex_letter nibbles [of c] by blast+
  then show ?thesis using assms by (simp add: uri_byte_def)
qed

lemma uri_plain_ascii: "uri_plain c \<Longrightarrow> (of_char c :: nat) < 128 \<and> c \<noteq> CHR ''%''"
  by (auto simp: uri_plain_def Let_def)

lemma escapes_uri_bytes:
  "\<forall>c \<in> set cs. 128 \<le> (of_char c :: nat) \<Longrightarrow> escapes (length cs) (concat (map uri_byte cs) @ s) = Some (map of_char cs, s)"
proof (induction cs)
  case (Cons c cs)
  then have "\<not> uri_plain c" using uri_plain_ascii [of c] by auto
  then show ?case using Cons escape_uri_byte [of c] by simp
qed simp

text \<open>Decoding what was encoded gives the text back.\<close>

theorem uri_roundtrip:
  assumes "utf8 s" shows "uri_decode (encodeURIComponent s) = Some s"
  using assms
proof induction
  case utf8_empty
  show ?case by (simp add: encodeURIComponent_def uri_decode.simps [of "[]"])
next
  case (utf8_char c cs s)
  have enc: "encodeURIComponent (c # cs @ s) = uri_byte c @ concat (map uri_byte cs) @ encodeURIComponent s"
    by (simp add: encodeURIComponent_def)
  show ?case
  proof (cases "uri_plain c")
    case True
    then have "cs = []" "c \<noteq> CHR ''%''" using uri_plain_ascii [OF True] utf8_char.hyps(1) by (auto simp: utf8_more_def)
    then show ?thesis
      using True utf8_char.IH unfolding enc by (simp add: uri_byte_def uri_decode.simps [of "c # encodeURIComponent s"])
  next
    case False
    have tail: "\<forall>c \<in> set cs. 128 \<le> (of_char c :: nat)"
      using utf8_char.hyps(2) by (auto simp: utf8_tail_def list_all_iff)
    obtain t where t: "uri_byte c @ r = CHR ''%'' # t r" for r using False by (auto simp: uri_byte_def)
    have "uri_decode (CHR ''%'' # t (concat (map uri_byte cs) @ encodeURIComponent s)) = Some (map char_of (of_char c # map of_char cs :: nat list) @ s)"
      using escape_uri_byte [OF False, of "concat (map uri_byte cs) @ encodeURIComponent s"] utf8_char.hyps(1,2) utf8_char.IH
        escapes_uri_bytes [OF tail]
      by (simp add: t uri_decode.simps [of "CHR ''%'' # _"])
    then show ?thesis by (simp add: enc t comp_def)
  qed
qed

theorem uri_roundtrip_witness:
  "encodeURIComponent ''a@b 1%'' = ''a%40b%201%25'' \<and> uri_decode (encodeURIComponent ''a@b 1%'') = Some ''a@b 1%''"
proof
  show "encodeURIComponent ''a@b 1%'' = ''a%40b%201%25''" by code_simp
  have ascii: "utf8 (c # s)" if "utf8 s" "(of_char c :: nat) < 128" for c s
    using utf8_char [of c "[]" s] that by (simp add: utf8_more_def utf8_tail_def)
  have "utf8 ''a@b 1%''" by (intro ascii utf8_empty) simp_all
  then show "uri_decode (encodeURIComponent ''a@b 1%'') = Some ''a@b 1%''" by (rule uri_roundtrip)
qed

subsection \<open>The pool of the server\<close>

record url_parts =
  up_username :: string
  up_hostname :: string
  up_port :: string
  up_pathname :: string

record pool_config =
  pc_host :: string
  pc_port :: jsnum
  pc_database :: string
  pc_user :: string

text \<open>\<open>replace(/^\//, '')\<close>.\<close>

definition without_slash :: "string \<Rightarrow> string" where
  "without_slash s = (if take 1 s = ''/'' then drop 1 s else s)"

definition pool_options :: "(string \<Rightarrow> url_parts option) \<Rightarrow> env \<Rightarrow> pool_config res" where
  "pool_options url_of env =
     (case url_of (DB_URL env) of
        None \<Rightarrow> Inl (Error ''TypeError'')
      | Some url \<Rightarrow>
          (case (uri_decode (without_slash (up_pathname url)), uri_decode (up_username url)) of
             (Some database, Some user) \<Rightarrow>
               Inr \<lparr>pc_host = up_hostname url,
                    pc_port = (if up_port url \<noteq> '''' then js_number (up_port url) else Num 5432),
                    pc_database = database, pc_user = user\<rparr>
           | _ \<Rightarrow> Inl (Error ''URIError'')))"

text \<open>The password of a new connection: what the file holds then, trimmed.\<close>

definition pool_password :: "env \<Rightarrow> (string \<Rightarrow> string res) \<Rightarrow> string res" where
  "pool_password env readFile = map_sum id js_trim (readFile (DB_PASSWORD_FILE env))"

subsection \<open>The DataSource of the scripts\<close>

record data_source =
  dso_host :: "string option"
  dso_port :: jsnum
  dso_username :: "string option"
  dso_password :: "string option"
  dso_database :: "string option"

definition dataSourceOptions :: "(string \<rightharpoonup> string) \<Rightarrow> data_source" where
  "dataSourceOptions getenv =
     \<lparr>dso_host = getenv ''DB_HOST'',
      dso_port = (case truthy (getenv ''DB_PORT'') of None \<Rightarrow> Num 5432 | Some p \<Rightarrow> js_number p),
      dso_username = getenv ''DB_USER'', dso_password = getenv ''DB_PASSWORD'', dso_database = getenv ''DB_NAME''\<rparr>"

subsection \<open>The address the runs build\<close>

definition demo_port :: "(string \<rightharpoonup> string) \<Rightarrow> string" where
  "demo_port getenv = (case getenv ''DB_PORT'' of None \<Rightarrow> ''5432'' | Some p \<Rightarrow> p)"

definition demo_url :: "string \<Rightarrow> string \<Rightarrow> string \<Rightarrow> string \<Rightarrow> string" where
  "demo_url user host port name = ''postgres://'' @ encodeURIComponent user @ ''@'' @ host @ '':'' @ port @ ''/'' @ name"

text \<open>The environment of the server after the run has written the password to \<open>file\<close>.\<close>

definition server_env :: "(string \<rightharpoonup> string) \<Rightarrow> string \<Rightarrow> env \<Rightarrow> env" where
  "server_env getenv file env =
     env\<lparr>DB_URL := demo_url (the (getenv ''DB_USER'')) (the (getenv ''DB_HOST'')) (demo_port getenv) (the (getenv ''DB_NAME'')),
         DB_PASSWORD_FILE := file\<rparr>"

text \<open>
  What the URL standard says of such an address: a user name without reserved characters,
  a plain host, a port in canonical form and a plain path are the parts of the URL as
  they are written.
\<close>

definition plain_text :: "string \<Rightarrow> bool" where
  "plain_text s \<longleftrightarrow> s \<noteq> '''' \<and> s \<notin> {''.'', ''..''} \<and> (\<forall>c \<in> set s. uri_plain c)"

definition parses_urls :: "(string \<Rightarrow> url_parts option) \<Rightarrow> bool" where
  "parses_urls url_of \<longleftrightarrow> (\<forall>user host port name.
     (\<forall>c \<in> set user. uri_plain c \<or> c = CHR ''%'') \<and> plain_text host \<and> plain_text name \<and> 0 < port \<and> port \<le> 65535 \<longrightarrow>
     url_of (''postgres://'' @ user @ ''@'' @ host @ '':'' @ show_nat port @ ''/'' @ name) =
       Some \<lparr>up_username = user, up_hostname = host, up_port = show_nat port, up_pathname = CHR ''/'' # name\<rparr>)"

lemma uri_byte_chars: "\<forall>c \<in> set (uri_byte b). uri_plain c \<or> c = CHR ''%''"
proof -
  have "uri_plain (hex_letter n)" if "n < 16" for n using that by (auto simp: uri_plain_def hex_letter_def Let_def)
  from this [OF nibbles(1) [of b]] this [OF nibbles(2) [of b]] show ?thesis by (simp add: uri_byte_def)
qed

lemma default_port: "show_nat 5432 = ''5432''"
  by (simp add: show_nat.simps char_of_def bit_0)

text \<open>The server that a run starts talks to the database of the run's own connections: same
  host, port, database and user, and the password it reads from the file is the one of the
  environment, whatever characters the user name has; provided the password does not begin
  or end with white space, which the server trims.\<close>

theorem same_database:
  assumes urls: "parses_urls url_of"
    and user: "getenv ''DB_USER'' = Some u" "utf8 u" and host: "getenv ''DB_HOST'' = Some h" "plain_text h"
    and name: "getenv ''DB_NAME'' = Some n" "plain_text n"
    and port: "getenv ''DB_PORT'' = None \<and> p = 5432 \<or> getenv ''DB_PORT'' = Some (show_nat p) \<and> 0 < p \<and> p \<le> 65535"
    and password: "getenv ''DB_PASSWORD'' = Some pw" "js_trim pw = pw" "readFile file = Inr pw"
  shows "\<exists>c. pool_options url_of (server_env getenv file env) = Inr c \<and>
    dataSourceOptions getenv = \<lparr>dso_host = Some (pc_host c), dso_port = pc_port c, dso_username = Some (pc_user c),
      dso_password = Some pw, dso_database = Some (pc_database c)\<rparr> \<and>
    pool_password (server_env getenv file env) readFile = Inr pw"
proof -
  have p: "demo_port getenv = show_nat p" "0 < p" "p \<le> 65535"
    using port default_port by (auto simp: demo_port_def)
  have "\<forall>c \<in> set (encodeURIComponent u). uri_plain c \<or> c = CHR ''%''"
    using uri_byte_chars by (auto simp: encodeURIComponent_def)
  then have url: "url_of (demo_url u h (show_nat p) n) =
      Some \<lparr>up_username = encodeURIComponent u, up_hostname = h, up_port = show_nat p, up_pathname = CHR ''/'' # n\<rparr>"
    using urls host(2) name(2) p(2,3) unfolding parses_urls_def demo_url_def by blast
  have "CHR ''%'' \<notin> set n" using name(2) uri_plain_ascii by (auto simp: plain_text_def)
  then have n: "uri_decode n = Some n" by (rule uri_decode_plain)
  have num: "js_number (show_nat p) = Num (of_nat p)" using js_number_show_nat [of p] p(3) by simp
  have "pool_options url_of (server_env getenv file env) = Inr \<lparr>pc_host = h, pc_port = Num (of_nat p), pc_database = n, pc_user = u\<rparr>"
    using user host name p(1) uri_roundtrip [OF user(2)] n num show_nat_nonempty [of p]
    by (simp add: pool_options_def server_env_def url without_slash_def)
  moreover have "dso_port (dataSourceOptions getenv) = Num (of_nat p)"
    using port num show_nat_nonempty [of p] by (cases "show_nat p") (auto simp: dataSourceOptions_def)
  ultimately show ?thesis
    using user(1) host(1) name(1) password by (simp add: dataSourceOptions_def pool_password_def server_env_def)
qed

text \<open>After a rotation every new connection uses the new password; a final newline is no
  part of it.\<close>

lemma trim_newline:
  assumes "js_trim pw = pw" shows "js_trim (pw @ [CHR 0x0A]) = pw"
proof -
  have nl: "js_space CHR 0x0A" by (simp add: js_space_def)
  show ?thesis
  proof (cases "dropWhile js_space pw = []")
    case True
    then have "js_trim pw = []" unfolding js_trim_def by (simp only: rev.simps dropWhile.simps)
    then have "pw = []" using assms by simp
    then show ?thesis using nl by (simp add: js_trim_def)
  next
    case False
    then have "dropWhile js_space (pw @ [CHR 0x0A]) = dropWhile js_space pw @ [CHR 0x0A]"
      by (auto simp: dropWhile_eq_Nil_conv dropWhile_append)
    then show ?thesis using assms nl by (simp add: js_trim_def)
  qed
qed

theorem rotated_password:
  assumes "js_trim pw = pw" "readFile' = readFile(DB_PASSWORD_FILE env := Inr (pw @ [CHR 0x0A]))"
  shows "pool_password env readFile' = Inr pw"
  using trim_newline [OF assms(1)] by (simp add: pool_password_def assms(2))

subsection \<open>Instance\<close>

text \<open>A parser of addresses of this shape.\<close>

definition simple_url :: "string \<Rightarrow> url_parts option" where
  "simple_url s =
     (case split_on CHR ''@'' (drop (length ''postgres://'') s) of
        [user, rest] \<Rightarrow>
          (case split_on CHR '':'' rest of
             [host, pn] \<Rightarrow>
               (case split_on CHR ''/'' pn of
                  [port, name] \<Rightarrow> Some \<lparr>up_username = user, up_hostname = host, up_port = port, up_pathname = CHR ''/'' # name\<rparr>
                | _ \<Rightarrow> None)
           | _ \<Rightarrow> None)
      | _ \<Rightarrow> None)"

lemma simple_url_parses: "parses_urls simple_url"
  unfolding parses_urls_def
proof (intro allI impI, elim conjE)
  fix user host port name
  assume u: "\<forall>c \<in> set user. uri_plain c \<or> c = CHR ''%''" and h: "plain_text host" and n: "plain_text name"
  have special: "\<not> uri_plain CHR ''@''" "\<not> uri_plain CHR '':''" "\<not> uri_plain CHR ''/''" by (simp_all add: uri_plain_def)
  have digits: "c \<notin> set (show_nat port)" if "\<not> is_digit (of_char c)" for c
    using show_nat_digits [of port] that by (auto simp: codes_def)
  have no: "CHR ''@'' \<notin> set user" "CHR ''@'' \<notin> set host" "CHR '':'' \<notin> set host" "CHR ''@'' \<notin> set name" "CHR '':'' \<notin> set name" "CHR ''/'' \<notin> set name"
    "CHR ''@'' \<notin> set (show_nat port)" "CHR '':'' \<notin> set (show_nat port)" "CHR ''/'' \<notin> set (show_nat port)"
    using u h n special digits by (auto simp: plain_text_def is_digit_def)
  then have "split_on CHR ''@'' (user @ CHR ''@'' # host @ CHR '':'' # show_nat port @ CHR ''/'' # name) =
      [user, host @ CHR '':'' # show_nat port @ CHR ''/'' # name]"
    "split_on CHR '':'' (host @ CHR '':'' # show_nat port @ CHR ''/'' # name) = [host, show_nat port @ CHR ''/'' # name]"
    "split_on CHR ''/'' (show_nat port @ CHR ''/'' # name) = [show_nat port, name]"
    by (simp_all add: split_on_append split_on_none)
  then show "simple_url (''postgres://'' @ user @ ''@'' @ host @ '':'' @ show_nat port @ ''/'' @ name) =
      Some \<lparr>up_username = user, up_hostname = host, up_port = show_nat port, up_pathname = CHR ''/'' # name\<rparr>"
    by (simp add: simple_url_def)
qed

definition example_getenv :: "string \<rightharpoonup> string" where
  "example_getenv = [''DB_HOST'' \<mapsto> ''db'', ''DB_USER'' \<mapsto> ''app@eu'', ''DB_NAME'' \<mapsto> ''shop'', ''DB_PASSWORD'' \<mapsto> ''s3cret'']"

theorem same_database_instance:
  "\<exists>c. pool_options simple_url (server_env example_getenv ''/tmp/pw'' env) = Inr c \<and>
     dataSourceOptions example_getenv = \<lparr>dso_host = Some (pc_host c), dso_port = pc_port c, dso_username = Some (pc_user c),
       dso_password = Some ''s3cret'', dso_database = Some (pc_database c)\<rparr> \<and>
     pool_password (server_env example_getenv ''/tmp/pw'' env) (\<lambda>_. Inr ''s3cret'') = Inr ''s3cret''"
proof -
  have ascii: "utf8 (c # s)" if "utf8 s" "(of_char c :: nat) < 128" for c s
    using utf8_char [of c "[]" s] that by (simp add: utf8_more_def utf8_tail_def)
  have "utf8 ''app@eu''" by (intro ascii utf8_empty) simp_all
  moreover have "plain_text ''db''" "plain_text ''shop''" by (simp_all add: plain_text_def uri_plain_def)
  moreover have "js_trim ''s3cret'' = ''s3cret''" by (simp add: js_trim_def js_space_def)
  moreover have "example_getenv ''DB_USER'' = Some ''app@eu''" "example_getenv ''DB_HOST'' = Some ''db''" "example_getenv ''DB_NAME'' = Some ''shop''"
    "example_getenv ''DB_PORT'' = None" "example_getenv ''DB_PASSWORD'' = Some ''s3cret''" by (simp_all add: example_getenv_def)
  ultimately show ?thesis
    using same_database [OF simple_url_parses, of example_getenv "''app@eu''" "''db''" "''shop''" 5432 "''s3cret''" "\<lambda>_. Inr ''s3cret''" "''/tmp/pw''"]
    by blast
qed

end
