(* ===== verification/App.thy ===== *)
theory App
  imports Problem Database
begin

text \<open>
  The server of \<open>src/main.ts\<close>: the start from the environment to the port, and the way of a
  request through what \<open>configureApp\<close> installs: the body parser, the contract
  (express-openapi-validator on \<open>openapi.yaml\<close>), the routes with their guards, and the two
  places that turn errors into problem+json.  The body parser and the validator are
  parameters; so are the routes, whose parts are the theories of the controllers.
\<close>

subsection \<open>The start\<close>

datatype start = Exit nat | Listening int

text \<open>
  \<open>validate\<close> runs while \<open>AppModule\<close> is put together, then the providers are made: the pool
  and the token service, which verifies a token of its own.
\<close>

definition createApp ::
    "env_lib \<Rightarrow> (string \<Rightarrow> url_parts option) \<Rightarrow> (env \<Rightarrow> ('priv, 'pub) token_service res) \<Rightarrow> (string \<rightharpoonup> string) \<Rightarrow>
     (env \<times> pool_config \<times> ('priv, 'pub) token_service) res" where
  "createApp elib url_of tokens getenv =
     (case validate elib getenv of
        Inl issues \<Rightarrow> Inl (Error ''configuration'')
      | Inr env \<Rightarrow>
          (case pool_options url_of env of
             Inl e \<Rightarrow> Inl e
           | Inr pool \<Rightarrow> (case tokens env of Inl e \<Rightarrow> Inl e | Inr ts \<Rightarrow> Inr (env, pool, ts))))"

definition bootstrap ::
    "env_lib \<Rightarrow> (string \<Rightarrow> url_parts option) \<Rightarrow> (env \<Rightarrow> ('priv, 'pub) token_service res) \<Rightarrow> (string \<rightharpoonup> string) \<Rightarrow> start" where
  "bootstrap elib url_of tokens getenv =
     (case createApp elib url_of tokens getenv of Inl _ \<Rightarrow> Exit 1 | Inr (env, _) \<Rightarrow> Listening (PORT env))"

text \<open>A server that listens has a valid configuration, a port between 1 and 65535, and a key pair
  that belongs together; every other start ends with exit code 1.\<close>

theorem fail_fast:
  "case bootstrap elib url_of tokens getenv of
     Exit n \<Rightarrow> n = 1
   | Listening p \<Rightarrow> 1 \<le> p \<and> p \<le> 65535 \<and>
       (\<exists>env ts. validate elib getenv = Inr env \<and> p = PORT env \<and> env_ok elib env \<and> tokens env = Inr ts)"
proof (cases "createApp elib url_of tokens getenv")
  case (Inl e)
  then show ?thesis by (simp add: bootstrap_def)
next
  case (Inr x)
  then obtain env pool ts where x: "x = (env, pool, ts)" "validate elib getenv = Inr env" "tokens env = Inr ts"
    by (auto simp: createApp_def split: sum.splits)
  have "env_ok elib env" using validated_env_ok [OF x(2)] .
  moreover have "1 \<le> PORT env \<and> PORT env \<le> 65535" using calculation by (simp add: env_ok_def between_def)
  ultimately show ?thesis using Inr x by (auto simp: bootstrap_def)
qed

subsection \<open>A request\<close>

record http_request =
  hr_url :: string
  hr_method :: string
  hr_headers :: "(string \<times> string) list"
  hr_body :: string

text \<open>What a library passes to \<open>next(err)\<close>.\<close>

record next_error =
  ne_status :: "nat option"
  ne_message :: "string option"
  ne_errors :: "string option"

datatype 'r answer = Answer nat 'r | ProblemAnswer response

text \<open>
  \<open>ct_json\<close> is \<open>express.json()\<close>; \<open>ct_request\<close> and \<open>ct_response\<close> are the validator on a request
  with its parsed body and on what is about to be sent.  Both let what is not in the
  contract pass (\<open>ignoreUndocumented\<close>).
\<close>

record ('b, 'r) contract =
  ct_json :: "http_request \<Rightarrow> next_error + 'b option"
  ct_request :: "http_request \<Rightarrow> 'b option \<Rightarrow> next_error option"
  ct_response :: "http_request \<Rightarrow> 'r answer \<Rightarrow> next_error option"

definition refuse :: "http_request \<Rightarrow> next_error \<Rightarrow> 'r answer" where
  "refuse req e = ProblemAnswer (the (openApiErrorHandler False (hr_url req) (ne_status e) (ne_message e) (ne_errors e)))"

definition send_answer :: "('b, 'r) contract \<Rightarrow> http_request \<Rightarrow> 'r answer \<Rightarrow> 'r answer" where
  "send_answer ct req a = (case ct_response ct req a of None \<Rightarrow> a | Some e \<Rightarrow> refuse req e)"

definition configureApp ::
    "('b, 'r) contract \<Rightarrow> (http_request \<Rightarrow> 'b option \<Rightarrow> 's \<Rightarrow> (thrown + nat \<times> 'r) \<times> 's) \<Rightarrow> http_request \<Rightarrow> 's \<Rightarrow> 'r answer \<times> 's" where
  "configureApp ct routes req s =
     (case ct_json ct req of
        Inl e \<Rightarrow> (refuse req e, s)
      | Inr body \<Rightarrow>
          (case ct_request ct req body of
             Some e \<Rightarrow> (refuse req e, s)
           | None \<Rightarrow>
               (case routes req body s of
                  (Inl x, s') \<Rightarrow> (send_answer ct req (ProblemAnswer (filter_catch (hr_url req) x)), s')
                | (Inr (status, r), s') \<Rightarrow> (send_answer ct req (Answer status r), s'))))"

definition problem_for :: "http_request \<Rightarrow> response \<Rightarrow> bool" where
  "problem_for req r \<longleftrightarrow> res_content_type r = ''application/problem+json'' \<and> p_instance (res_body r) = hr_url req \<and>
     p_status (res_body r) = res_status r"

lemma refuse_problem: "\<exists>r. refuse req e = ProblemAnswer r \<and> problem_for req r \<and>
    res_status r = (case ne_status e of None \<Rightarrow> 500 | Some n \<Rightarrow> n)"
  by (simp add: refuse_def openApiErrorHandler_def problem_for_def writeProblem_def)

lemma filter_problem: "problem_for req (filter_catch (hr_url req) x)"
  by (simp add: problem_for_def filter_catch_def writeProblem_def Let_def)

text \<open>Whatever goes wrong with a request, in the body, against the contract, in a guard, a
  controller or with the answer itself, the client gets one problem+json document about this
  request; a request that the parser or the contract refuses changes nothing; and an answer
  that is not a problem is the route's own and conforms to the contract.\<close>

theorem every_answer_conforms:
  fixes a :: "'r answer"
  assumes run: "configureApp ct routes req s = (a, s')"
  shows "(case a of ProblemAnswer r \<Rightarrow> problem_for req r
      | Answer status r \<Rightarrow> \<exists>body. ct_json ct req = Inr body \<and> ct_request ct req body = None \<and>
          routes req body s = (Inr (status, r), s') \<and> ct_response ct req a = None) \<and>
    ((\<exists>e. ct_json ct req = Inl e) \<or> (\<exists>body e. ct_json ct req = Inr body \<and> ct_request ct req body = Some e) \<longrightarrow> s' = s)"
proof -
  define doc where "doc e = the (openApiErrorHandler False (hr_url req) (ne_status e) (ne_message e) (ne_errors e))" for e :: next_error
  have ref: "(refuse req e :: 'r answer) = ProblemAnswer (doc e)" and doc: "problem_for req (doc e)" for e
    using refuse_problem [of req e, where 'a = 'r] by (simp_all add: refuse_def doc_def)
  have rep: "case (send_answer ct req x :: 'r answer) of ProblemAnswer r \<Rightarrow> problem_for req r | Answer st r \<Rightarrow> x = Answer st r \<and> ct_response ct req x = None"
    if "\<And>r. x = ProblemAnswer r \<Longrightarrow> problem_for req r" for x
    using doc that by (auto simp: send_answer_def ref split: option.splits answer.splits)
  show ?thesis
  proof (cases "ct_json ct req")
    case (Inl e)
    then show ?thesis using run doc by (auto simp: configureApp_def ref)
  next
    case (Inr body)
    show ?thesis
    proof (cases "ct_request ct req body")
      case (Some e)
      then show ?thesis using run Inr doc by (auto simp: configureApp_def ref)
    next
      case None
      obtain x t where r: "routes req body s = (x, t)" by fastforce
      show ?thesis
      proof (cases x)
        case (Inl e)
        then show ?thesis
          using run Inr None r rep [of "ProblemAnswer (filter_catch (hr_url req) e)"] filter_problem [of req e]
          by (auto simp: configureApp_def split: answer.splits)
      next
        case (Inr y)
        then show ?thesis
          using run \<open>ct_json ct req = Inr body\<close> None r rep [of "Answer (fst y) (snd y)"]
          by (auto simp: configureApp_def split: answer.splits prod.splits)
      qed
    qed
  qed
qed

text \<open>Tokens are refused by the guards, not by the contract: a 401 of theirs carries the challenge.\<close>

lemma unauthorized_challenges:
  assumes "ct_json ct req = Inr body" "ct_request ct req body = None" "routes req body s = (Inl (ThrownHttp 401 b), s')"
    and "\<forall>r. ct_response ct req (ProblemAnswer r) = None"
  shows "\<exists>r. configureApp ct routes req s = (ProblemAnswer r, s') \<and> res_status r = 401 \<and> res_www_authenticate r = Some ''Bearer''"
  using assms by (simp add: configureApp_def send_answer_def filter_catch_def writeProblem_def Let_def)

subsection \<open>Readiness\<close>

text \<open>\<open>GET /health/db\<close>: the answer of \<open>SELECT 1\<close> over the pool, by its rows.\<close>

definition readiness :: "int list res \<Rightarrow> string res" where
  "readiness answer =
     (case answer of
        Inl e \<Rightarrow> Inl (HttpException 503 (Some ''db-unavailable''))
      | Inr rows \<Rightarrow> Inr (case rows of n # _ \<Rightarrow> if n = 1 then ''ok'' else ''unknown'' | [] \<Rightarrow> ''unknown''))"

end
