(* ===== verification/E2E.thy ===== *)
theory E2E
  imports App AuthDemos "HOL-Library.Sublist"
begin

text \<open>
  The end-to-end test of the main feature, \<open>test/e2e/orders.e2e-spec.ts\<close>: the whole way
  of a request, from the parser and the contract of \<open>configureApp\<close> over the guards and the
  orders controller (\<open>src/orders/orders.controller.ts\<close>) to the filter.  The four tests are
  runs over the application; a failed expectation is an error.
\<close>

subsection \<open>The orders over HTTP\<close>

text \<open>Node keeps the names of headers in lower case.\<close>

definition header :: "http_request \<Rightarrow> string \<Rightarrow> string option" where
  "header req name = map_of (hr_headers req) name"

text \<open>The two routes of the test; a parameter of a path is not empty and has no slash.\<close>

datatype order_route = CreateOrder | GetOne string

definition order_route_of :: "http_request \<Rightarrow> order_route option" where
  "order_route_of req =
     (let i = drop 8 (hr_url req) in
      if hr_method req = ''POST'' \<and> hr_url req = ''/orders'' then Some CreateOrder
      else if hr_method req = ''GET'' \<and> prefix ''/orders/'' (hr_url req) \<and> i \<noteq> '''' \<and> CHR ''/'' \<notin> set i then Some (GetOne i)
      else None)"

fun order_endpoint :: "order_route \<Rightarrow> endpoint" where
  "order_endpoint (GetOne _) = orders_routes ! 1"
| "order_endpoint CreateOrder = orders_routes ! 2"

text \<open>The exceptions of the services and guards; \<open>detail\<close> is their text.\<close>

fun thrown_of :: "(exn \<Rightarrow> string) \<Rightarrow> exn \<Rightarrow> thrown" where
  "thrown_of detail (HttpException st code) = ThrownHttp st (BodyObject (Some (detail (HttpException st code))) MsgOther code)"
| "thrown_of detail _ = ThrownOther"

text \<open>An order and the \<open>Location\<close> header.\<close>

type_synonym order_answer = "order \<times> string option"

definition orders_controller ::
    "(exn \<Rightarrow> string) \<Rightarrow> string \<Rightarrow> order_route \<Rightarrow> order_item list option \<Rightarrow> auth_user option \<Rightarrow> api_state \<Rightarrow> (thrown + nat \<times> order_answer) \<times> api_state" where
  "orders_controller detail now c body user s =
     (case CurrentUser user of
        Inl e \<Rightarrow> (Inl (thrown_of detail e), s)
      | Inr u \<Rightarrow>
          (case c of
             CreateOrder \<Rightarrow>
               (case body of
                  None \<Rightarrow> (Inl ThrownOther, s)
                | Some items \<Rightarrow>
                    (let (x, os) = create (ap_products s) (ap_orders s) items (au_id u) now
                     in (Inr (201, x, Some (''/orders/'' @ o_id x)), s\<lparr>ap_orders := os\<rparr>)))
           | GetOne i \<Rightarrow>
               (case getOwned (ap_orders s) i u of
                  Inl e \<Rightarrow> (Inl (thrown_of detail e), s)
                | Inr x \<Rightarrow> (Inr (200, x, None), s))))"

text \<open>\<open>other\<close> is the rest of the application.\<close>

definition order_routes ::
    "('priv, 'pub) auth_env \<Rightarrow> (exn \<Rightarrow> string) \<Rightarrow>
     (http_request \<Rightarrow> order_item list option \<Rightarrow> api_state \<Rightarrow> (thrown + nat \<times> order_answer) \<times> api_state) \<Rightarrow> draws \<Rightarrow>
     http_request \<Rightarrow> order_item list option \<Rightarrow> api_state \<Rightarrow> (thrown + nat \<times> order_answer) \<times> api_state" where
  "order_routes env detail other d req body s =
     (case order_route_of req of
        None \<Rightarrow> other req body s
      | Some c \<Rightarrow>
          (case guards env (dr_appnow d) (ap_auth s) (order_endpoint c) (header req ''authorization'') of
             Inl e \<Rightarrow> (Inl (thrown_of detail e), s)
           | Inr user \<Rightarrow> orders_controller detail (dr_iso d) c body user s))"

subsection \<open>The contract of the two operations\<close>

text \<open>
  \<open>createOrder\<close> and \<open>getOrder\<close> of \<open>openapi.yaml\<close>: the header and the body of a request, and
  the answers each operation documents; \<open>date_time\<close> is the format of that name.
\<close>

definition createOrder_conforms :: "http_request \<Rightarrow> order_item list \<Rightarrow> bool" where
  "createOrder_conforms req items \<longleftrightarrow>
     (\<exists>k. header req ''idempotency-key'' = Some k \<and> k \<noteq> '''') \<and> items \<noteq> [] \<and> (\<forall>it \<in> set items. 1 \<le> quantity it)"

definition order_conforms :: "(string \<Rightarrow> bool) \<Rightarrow> order \<Rightarrow> bool" where
  "order_conforms date_time x \<longleftrightarrow> o_items x \<noteq> [] \<and> (\<forall>it \<in> set (o_items x). 1 \<le> quantity it) \<and> total_cents x \<in> \<int> \<and> date_time (created_at x)"

definition answer_conforms :: "(string \<Rightarrow> bool) \<Rightarrow> order_route \<Rightarrow> order_answer answer \<Rightarrow> bool" where
  "answer_conforms date_time c a \<longleftrightarrow>
     (case (c, a) of
        (CreateOrder, Answer st (x, _)) \<Rightarrow> st = 201 \<and> order_conforms date_time x
      | (CreateOrder, ProblemAnswer r) \<Rightarrow> res_status r \<in> {400, 401}
      | (GetOne _, Answer st (x, _)) \<Rightarrow> st = 200 \<and> order_conforms date_time x
      | (GetOne _, ProblemAnswer r) \<Rightarrow> res_status r \<in> {401, 403, 404})"

text \<open>The documented behaviour of the parser (on the bodies \<open>json\<close> makes) and of the validator.\<close>

definition contract_documented ::
    "(order_item list, order_answer) contract \<Rightarrow> (string \<Rightarrow> bool) \<Rightarrow> (order_item list \<Rightarrow> string) \<Rightarrow> bool" where
  "contract_documented ct date_time json \<longleftrightarrow>
     (\<forall>req items. hr_body req = json items \<longrightarrow> ct_json ct req = Inr (Some items)) \<and>
     (\<forall>req. hr_body req = '''' \<longrightarrow> ct_json ct req = Inr None) \<and>
     (\<forall>req items. order_route_of req = Some CreateOrder \<longrightarrow> createOrder_conforms req items \<longrightarrow>
        ct_request ct req (Some items) = None) \<and>
     (\<forall>req items. order_route_of req = Some CreateOrder \<longrightarrow> header req ''idempotency-key'' = None \<longrightarrow>
        (\<exists>e m. ct_request ct req (Some items) = Some e \<and> ne_status e = Some 400 \<and> ne_message e = Some m \<and>
           sublist ''idempotency-key'' m)) \<and>
     (\<forall>req i b. order_route_of req = Some (GetOne i) \<longrightarrow> ct_request ct req b = None) \<and>
     (\<forall>req c a. order_route_of req = Some c \<longrightarrow> answer_conforms date_time c a \<longrightarrow> ct_response ct req a = None)"

subsection \<open>The tests\<close>

record ('priv, 'pub) e2e_lib =
  el_ct :: "(order_item list, order_answer) contract"
  el_json :: "order_item list \<Rightarrow> string"
  el_env :: "('priv, 'pub) auth_env"
  el_detail :: "exn \<Rightarrow> string"
  el_other :: "http_request \<Rightarrow> order_item list option \<Rightarrow> api_state \<Rightarrow> (thrown + nat \<times> order_answer) \<times> api_state"

definition fresh_app :: api_state where
  "fresh_app = \<lparr>ap_auth = \<lparr>users = [], refresh_tokens = [], next_token_id = 1, access_denylist = []\<rparr>,
     ap_orders = orders_init, ap_products = products_init\<rparr>"

definition bearer :: "('priv, 'pub) e2e_lib \<Rightarrow> draws \<Rightarrow> string \<Rightarrow> role \<Rightarrow> string" where
  "bearer lib d userId rl =
     ''Bearer '' @ fst (sign (ae_lib (el_env lib)) (ae_tokens (el_env lib)) (dr_appnow d) (dr_jti d) userId rl (dr_fid d))"

definition send_request :: "('priv, 'pub) e2e_lib \<Rightarrow> draws \<Rightarrow> http_request \<Rightarrow> api_state \<Rightarrow> order_answer answer res \<times> api_state" where
  "send_request lib d req s =
     (let (a, s') = configureApp (el_ct lib) (order_routes (el_env lib) (el_detail lib) (el_other lib) d) req s in (Inr a, s'))"

definition post_orders :: "(string \<times> string) list \<Rightarrow> string \<Rightarrow> http_request" where
  "post_orders headers body = \<lparr>hr_url = ''/orders'', hr_method = ''POST'', hr_headers = headers, hr_body = body\<rparr>"

definition get_order :: "(string \<times> string) list \<Rightarrow> string \<Rightarrow> http_request" where
  "get_order headers i = \<lparr>hr_url = ''/orders/'' @ i, hr_method = ''GET'', hr_headers = headers, hr_body = []\<rparr>"

fun status_of :: "order_answer answer \<Rightarrow> nat" where
  "status_of (Answer st _) = st"
| "status_of (ProblemAnswer r) = res_status r"

definition expect_answer :: "nat \<Rightarrow> (api_state \<Rightarrow> order_answer answer res \<times> api_state) \<Rightarrow> api_state \<Rightarrow> order_answer answer res \<times> api_state" where
  "expect_answer st m = then_run m (\<lambda>a s. (if status_of a = st then Inr a else Inl (Error ''expected status''), s))"

definition expect_that :: "bool \<Rightarrow> api_state \<Rightarrow> unit res \<times> api_state" where
  "expect_that ok s = (if ok then Inr () else Inl (Error ''expect''), s)"

fun created_body :: "order_answer answer \<Rightarrow> order option" where
  "created_body (Answer _ (x, _)) = Some x"
| "created_body (ProblemAnswer _) = None"

fun created_id :: "order_answer answer \<Rightarrow> string" where
  "created_id (Answer _ (x, _)) = o_id x"
| "created_id (ProblemAnswer _) = ''undefined''"

definition happy_path :: "('priv, 'pub) e2e_lib \<Rightarrow> (nat \<Rightarrow> draws) \<Rightarrow> api_state \<Rightarrow> unit res \<times> api_state" where
  "happy_path lib d =
     then_run (expect_answer 201 (send_request lib (d 1) (post_orders
       [(''authorization'', bearer lib (d 0) ''42'' customer), (''idempotency-key'', ''e2e-happy-path-1'')]
       (el_json lib [\<lparr>product_id = ''p1'', quantity = 2\<rparr>])))) (\<lambda>created.
     then_run (expect_that (case created of Answer _ (x, location) \<Rightarrow>
         o_items x = [\<lparr>product_id = ''p1'', quantity = 2\<rparr>] \<and> o_status x = new \<and> location = Some (''/orders/'' @ o_id x)
       | ProblemAnswer _ \<Rightarrow> False)) (\<lambda>_.
     then_run (expect_answer 200 (send_request lib (d 3) (get_order
       [(''authorization'', bearer lib (d 2) ''42'' customer)] (created_id created)))) (\<lambda>fetched.
     expect_that (created_body fetched = created_body created \<and> map_option buyer_id (created_body fetched) = Some ''42''))))"

definition owner_only :: "('priv, 'pub) e2e_lib \<Rightarrow> (nat \<Rightarrow> draws) \<Rightarrow> api_state \<Rightarrow> unit res \<times> api_state" where
  "owner_only lib d =
     then_run (expect_answer 201 (send_request lib (d 5) (post_orders
       [(''authorization'', bearer lib (d 4) ''42'' customer), (''idempotency-key'', ''e2e-owner-1'')]
       (el_json lib [\<lparr>product_id = ''p1'', quantity = 1\<rparr>])))) (\<lambda>created.
     then_run (expect_answer 401 (send_request lib (d 6) (get_order [] (created_id created)))) (\<lambda>anon.
     then_run (expect_that (case anon of ProblemAnswer r \<Rightarrow>
         sublist ''application/problem+json'' (res_content_type r) \<and> res_www_authenticate r = Some ''Bearer''
       | Answer _ _ \<Rightarrow> False)) (\<lambda>_.
     then_run (expect_answer 403 (send_request lib (d 8) (get_order
       [(''authorization'', bearer lib (d 7) ''43'' customer)] (created_id created)))) (\<lambda>_.
     expect_that True))))"

definition unknown_order :: "('priv, 'pub) e2e_lib \<Rightarrow> (nat \<Rightarrow> draws) \<Rightarrow> api_state \<Rightarrow> unit res \<times> api_state" where
  "unknown_order lib d =
     then_run (expect_answer 404 (send_request lib (d 10) (get_order
       [(''authorization'', bearer lib (d 9) ''42'' customer)] ''does-not-exist''))) (\<lambda>a.
     expect_that (case a of ProblemAnswer r \<Rightarrow>
         sublist ''application/problem+json'' (res_content_type r) \<and> p_status (res_body r) = 404
       | Answer _ _ \<Rightarrow> False))"

definition without_key :: "('priv, 'pub) e2e_lib \<Rightarrow> (nat \<Rightarrow> draws) \<Rightarrow> api_state \<Rightarrow> unit res \<times> api_state" where
  "without_key lib d =
     then_run (expect_answer 400 (send_request lib (d 12) (post_orders
       [(''authorization'', bearer lib (d 11) ''42'' customer)]
       (el_json lib [\<lparr>product_id = ''p1'', quantity = 1\<rparr>])))) (\<lambda>a.
     expect_that (case a of ProblemAnswer r \<Rightarrow>
         sublist ''application/problem+json'' (res_content_type r) \<and> sublist ''idempotency-key'' (p_detail (res_body r))
       | Answer _ _ \<Rightarrow> False))"

text \<open>The tests of a file run in order over one application; one that fails does not stop the rest.\<close>

fun run_tests :: "(api_state \<Rightarrow> unit res \<times> api_state) list \<Rightarrow> api_state \<Rightarrow> unit res list" where
  "run_tests [] s = []"
| "run_tests (t # ts) s = (let (r, s') = t s in r # run_tests ts s')"

definition e2e_tests :: "('priv, 'pub) e2e_lib \<Rightarrow> (nat \<Rightarrow> draws) \<Rightarrow> (api_state \<Rightarrow> unit res \<times> api_state) list" where
  "e2e_tests lib d = [happy_path lib d, owner_only lib d, unknown_order lib d, without_key lib d]"

subsection \<open>The tests pass\<close>

definition e2e_ready :: "(string \<Rightarrow> bool) \<Rightarrow> ('priv, 'pub) e2e_lib \<Rightarrow> (nat \<Rightarrow> draws) \<Rightarrow> bool" where
  "e2e_ready date_time lib d \<longleftrightarrow> contract_documented (el_ct lib) date_time (el_json lib) \<and> jwt_signs (el_env lib) \<and>
     timely (el_env lib) d \<and> (\<forall>j. date_time (dr_iso (d j)))"

lemma contract_rules:
  assumes "contract_documented ct date_time json"
  shows "hr_body req = json items \<Longrightarrow> ct_json ct req = Inr (Some items)"
    and "hr_body req = '''' \<Longrightarrow> ct_json ct req = Inr None"
    and "order_route_of req = Some CreateOrder \<Longrightarrow> createOrder_conforms req items \<Longrightarrow> ct_request ct req (Some items) = None"
    and "order_route_of req = Some CreateOrder \<Longrightarrow> header req ''idempotency-key'' = None \<Longrightarrow>
      \<exists>e m. ct_request ct req (Some items) = Some e \<and> ne_status e = Some 400 \<and> ne_message e = Some m \<and> sublist ''idempotency-key'' m"
    and "order_route_of req = Some (GetOne i) \<Longrightarrow> ct_request ct req b = None"
    and "order_route_of req = Some c \<Longrightarrow> answer_conforms date_time c a \<Longrightarrow> ct_response ct req a = None"
  using assms unfolding contract_documented_def by blast+

lemma routes_of [simp]:
  "order_route_of (post_orders hs b) = Some CreateOrder" "header (post_orders hs b) n = map_of hs n" "hr_body (post_orders hs b) = b"
  "i \<noteq> '''' \<Longrightarrow> CHR ''/'' \<notin> set i \<Longrightarrow> order_route_of (get_order hs i) = Some (GetOne i)"
  "header (get_order hs i) n = map_of hs n" "hr_body (get_order hs i) = ''''" "hr_url (get_order hs i) = ''/orders/'' @ i"
  by (simp_all add: order_route_of_def post_orders_def get_order_def header_def Let_def)

lemma bearer_admitted:
  assumes "jwt_signs (el_env lib)" "timely (el_env lib) d" "access_denylist db = []"
  shows "\<exists>u. guards (el_env lib) (dr_appnow (d j)) db (order_endpoint c) (Some (bearer lib (d i) (show_nat n) rl)) = Inr (Some u) \<and>
    au_id u = show_nat n \<and> au_role u = rl"
proof -
  let ?r = "\<lparr>u_id = n, u_email = '''', u_role = rl, u_password_hash = None\<rparr>"
  have b: "bearer lib (d i) (show_nat n) rl = ''Bearer '' @ access_for (el_env lib) (d i) ?r (dr_fid (d i))"
    by (simp add: bearer_def access_for_def)
  show ?thesis
    using assms(3) signed_bearer [OF assms(1), of "d i" ?r "dr_fid (d i)"] signed_authenticates [OF assms(1,2), of j i ?r "dr_fid (d i)" db]
    unfolding b by (cases c) (auto simp: guards_def auth_guard_def roles_guard_def route_defs user_for_def)
qed

lemma post_served:
  assumes ready: "e2e_ready date_time lib d" and live: "access_denylist (ap_auth s) = []"
    and hs: "map_of hs ''authorization'' = Some (bearer lib (d i) (show_nat n) rl)" "map_of hs ''idempotency-key'' = Some k" "k \<noteq> ''''"
    and items: "items \<noteq> []" "\<forall>it \<in> set items. 1 \<le> quantity it"
    and c: "create (ap_products s) (ap_orders s) items (show_nat n) (dr_iso (d j)) = (x, os)" "total_cents x \<in> \<int>"
  shows "send_request lib (d j) (post_orders hs (el_json lib items)) s =
    (Inr (Answer 201 (x, Some (''/orders/'' @ o_id x))), s\<lparr>ap_orders := os\<rparr>)"
proof -
  note R = ready [unfolded e2e_ready_def]
  note C = contract_rules [OF conjunct1 [OF R]]
  let ?req = "post_orders hs (el_json lib items)"
  obtain u where u: "guards (el_env lib) (dr_appnow (d j)) (ap_auth s) (order_endpoint CreateOrder) (header ?req ''authorization'') = Inr (Some u)"
    "au_id u = show_nat n" using bearer_admitted [of lib d "ap_auth s" j CreateOrder i n rl] R live hs(1) by auto
  have x: "o_items x = items" "created_at x = dr_iso (d j)" using c(1) by (auto simp: create_def Let_def)
  have "ct_request (el_ct lib) ?req (Some items) = None"
    by (rule C(3)) (use hs items in \<open>simp_all add: createOrder_conforms_def\<close>)
  moreover have "ct_response (el_ct lib) ?req (Answer 201 (x, l)) = None" for l
    by (rule C(6) [of _ CreateOrder]) (use R items c(2) in \<open>simp_all add: answer_conforms_def order_conforms_def x\<close>)
  ultimately show ?thesis
    using u c(1) C(1) [of ?req items]
    by (simp add: send_request_def configureApp_def order_routes_def orders_controller_def CurrentUser_def send_answer_def)
qed

lemma get_served:
  assumes ready: "e2e_ready date_time lib d" and live: "access_denylist (ap_auth s) = []" and i: "i \<noteq> ''''" "CHR ''/'' \<notin> set i"
    and hs: "map_of hs ''authorization'' = Some (bearer lib (d m) (show_nat n) customer)"
    and found: "\<And>x. getById (ap_orders s) i = Inr x \<Longrightarrow> order_conforms date_time x"
  shows "send_request lib (d j) (get_order hs i) s =
    (Inr (case getById (ap_orders s) i of
        Inl e \<Rightarrow> ProblemAnswer (filter_catch (''/orders/'' @ i) (thrown_of (el_detail lib) not_found))
      | Inr x \<Rightarrow> if buyer_id x = show_nat n then Answer 200 (x, None)
                else ProblemAnswer (filter_catch (''/orders/'' @ i) (thrown_of (el_detail lib) (HttpException 403 (Some ''not-owner''))))), s)"
proof -
  note R = ready [unfolded e2e_ready_def]
  note C = contract_rules [OF conjunct1 [OF R]]
  let ?req = "get_order hs i"
  obtain u where u: "guards (el_env lib) (dr_appnow (d j)) (ap_auth s) (order_endpoint (GetOne i)) (header ?req ''authorization'') = Inr (Some u)"
    "au_id u = show_nat n" "au_role u = customer"
    using bearer_admitted [of lib d "ap_auth s" j "GetOne i" m n customer] R live hs by auto
  have sent: "send_answer (el_ct lib) ?req a = a" if "answer_conforms date_time (GetOne i) a" for a
    using C(6) [of ?req "GetOne i" a] i that by (simp add: send_answer_def)
  have "ct_request (el_ct lib) ?req None = None" by (rule C(5)) (use i in simp)
  moreover have "getById (ap_orders s) i = Inl e \<Longrightarrow> e = not_found" for e by (auto simp: getById_def split: option.splits)
  ultimately show ?thesis
    using u i found C(2) [of ?req]
    by (auto simp: send_request_def configureApp_def order_routes_def orders_controller_def CurrentUser_def getOwned_def sent
        answer_conforms_def filter_catch_def writeProblem_def not_found_def Let_def split: sum.splits)
qed

lemma anonymous_refused:
  assumes ready: "e2e_ready date_time lib d" and i: "i \<noteq> ''''" "CHR ''/'' \<notin> set i"
  shows "send_request lib d' (get_order [] i) s =
    (Inr (ProblemAnswer (filter_catch (''/orders/'' @ i) (thrown_of (el_detail lib) (unauthorized ''missing-token'')))), s)"
proof -
  note R = ready [unfolded e2e_ready_def]
  note C = contract_rules [OF conjunct1 [OF R]]
  let ?req = "get_order [] i"
  have "guards (el_env lib) (dr_appnow d') (ap_auth s) (order_endpoint (GetOne i)) None = Inl (unauthorized ''missing-token'')"
    by (simp add: guards_def auth_guard_def bearer_token_def route_defs)
  moreover have "ct_request (el_ct lib) ?req None = None" by (rule C(5)) (use i in simp)
  moreover have "ct_response (el_ct lib) ?req (ProblemAnswer (filter_catch (''/orders/'' @ i) (thrown_of (el_detail lib) (unauthorized ''missing-token'')))) = None"
    by (rule C(6) [of _ "GetOne i"])
      (use i in \<open>simp_all add: answer_conforms_def filter_catch_def writeProblem_def unauthorized_def Let_def\<close>)
  ultimately show ?thesis
    using i C(2) [of ?req] by (simp add: send_request_def configureApp_def order_routes_def send_answer_def)
qed

lemma keyless_refused:
  assumes ready: "e2e_ready date_time lib d" and k: "map_of hs ''idempotency-key'' = None"
  shows "\<exists>r. send_request lib d' (post_orders hs (el_json lib items)) s = (Inr (ProblemAnswer r), s) \<and> res_status r = 400 \<and>
    res_content_type r = ''application/problem+json'' \<and> sublist ''idempotency-key'' (p_detail (res_body r))"
proof -
  note R = ready [unfolded e2e_ready_def]
  note C = contract_rules [OF conjunct1 [OF R]]
  obtain e m where "ct_request (el_ct lib) (post_orders hs (el_json lib items)) (Some items) = Some e" "ne_status e = Some 400"
    "ne_message e = Some m" "sublist ''idempotency-key'' m"
    using C(4) [of "post_orders hs (el_json lib items)" items] k by auto
  then show ?thesis
    using C(1) [of "post_orders hs (el_json lib items)" items]
    by (simp add: send_request_def configureApp_def refuse_def openApiErrorHandler_def writeProblem_def)
qed

lemma p1_total: "1 \<le> q \<Longrightarrow> q \<le> 2 \<Longrightarrow> total_cents (fst (create products_init s [\<lparr>product_id = ''p1'', quantity = q\<rparr>] b now)) \<in> \<int>"
proof -
  assume q: "1 \<le> q" "q \<le> 2"
  have "item_price products_init \<lparr>product_id = ''p1'', quantity = q\<rparr> = 129900"
    by (simp add: item_price_def findByIds_def products_init_def)
  then show ?thesis using create_total_exact [of products_init "[\<lparr>product_id = ''p1'', quantity = q\<rparr>]" s b now] q by simp
qed

text \<open>What the tests keep: the application accepts every token it signs and sells the products it began with.\<close>

definition app_ok :: "api_state \<Rightarrow> bool" where
  "app_ok s \<longleftrightarrow> access_denylist (ap_auth s) = [] \<and> ap_products s = products_init \<and> orders_ok (ap_orders s)"

lemma order_id_shape: "orders_ok s \<Longrightarrow> getById s i = Inr x \<Longrightarrow> i \<noteq> '''' \<and> CHR ''/'' \<notin> set i \<and> hd i = CHR ''o''"
proof -
  assume ok: "orders_ok s" and "getById s i = Inr x"
  then have x: "x \<in> set (orders s)" "o_id x = i" by (auto simp: getById_def find_Some_iff split: option.splits)
  with ok obtain m where "i = ''o'' @ show_nat m" unfolding orders_ok_def by blast
  moreover have "CHR ''/'' \<notin> set (show_nat m)" using show_nat_digits [of m] by (force simp: codes_def is_digit_def)
  ultimately show ?thesis by simp
qed

lemma p1_ordered:
  assumes ready: "e2e_ready date_time lib d" and s: "app_ok s" and q: "1 \<le> q" "q \<le> 2" and k: "k \<noteq> ''''"
  obtains x os where
    "send_request lib (d j) (post_orders [(''authorization'', bearer lib (d i) ''42'' customer), (''idempotency-key'', k)]
       (el_json lib [\<lparr>product_id = ''p1'', quantity = q\<rparr>])) s = (Inr (Answer 201 (x, Some (''/orders/'' @ o_id x))), s\<lparr>ap_orders := os\<rparr>)"
    "app_ok (s\<lparr>ap_orders := os\<rparr>)" "getById os (o_id x) = Inr x" "buyer_id x = ''42''" "o_status x = new"
    "o_items x = [\<lparr>product_id = ''p1'', quantity = q\<rparr>]" "o_id x \<noteq> ''''" "CHR ''/'' \<notin> set (o_id x)" "order_conforms date_time x"
proof -
  let ?items = "[\<lparr>product_id = ''p1'', quantity = q\<rparr>]"
  have n: "show_nat 42 = ''42''" by code_simp
  note S = s [unfolded app_ok_def]
  obtain x os where c: "create (ap_products s) (ap_orders s) ?items (show_nat 42) (dr_iso (d j)) = (x, os)" by fastforce
  have t: "total_cents x \<in> \<int>" using p1_total [OF q, of "ap_orders s" "show_nat 42" "dr_iso (d j)"] c S by simp
  have x: "buyer_id x = ''42''" "o_status x = new" "o_items x = ?items" "created_at x = dr_iso (d j)"
    using c by (auto simp: create_def Let_def n)
  have os: "orders_ok os" "getById os (o_id x) = Inr x"
    using create_ok [of "ap_orders s" "ap_products s" ?items "show_nat 42" "dr_iso (d j)"] getById_create [OF _ c, of "o_id x"] c S by simp_all
  show thesis
  proof (rule that)
    show "send_request lib (d j) (post_orders [(''authorization'', bearer lib (d i) ''42'' customer), (''idempotency-key'', k)] (el_json lib ?items)) s =
        (Inr (Answer 201 (x, Some (''/orders/'' @ o_id x))), s\<lparr>ap_orders := os\<rparr>)"
      by (rule post_served [OF ready, where n = 42 and k = k and i = i and rl = customer]) (use S q k c t in \<open>simp_all add: n\<close>)
    show "order_conforms date_time x" using ready x(3,4) t q by (simp add: order_conforms_def e2e_ready_def)
  qed (use S os x order_id_shape [OF os] in \<open>simp_all add: app_ok_def\<close>)
qed

lemma e2e_happy:
  assumes ready: "e2e_ready date_time lib d" and s: "app_ok s"
  shows "\<exists>s'. happy_path lib d s = (Inr (), s') \<and> app_ok s'"
proof -
  obtain x os where c: "send_request lib (d 1) (post_orders [(''authorization'', bearer lib (d 0) ''42'' customer),
       (''idempotency-key'', ''e2e-happy-path-1'')] (el_json lib [\<lparr>product_id = ''p1'', quantity = 2\<rparr>])) s =
      (Inr (Answer 201 (x, Some (''/orders/'' @ o_id x))), s\<lparr>ap_orders := os\<rparr>)"
    "app_ok (s\<lparr>ap_orders := os\<rparr>)" "getById os (o_id x) = Inr x" "buyer_id x = ''42''" "o_status x = new"
    "o_items x = [\<lparr>product_id = ''p1'', quantity = 2\<rparr>]" "o_id x \<noteq> ''''" "CHR ''/'' \<notin> set (o_id x)" "order_conforms date_time x"
    by (rule p1_ordered [OF ready s, of 2 "''e2e-happy-path-1''" 1 0]) simp_all
  have n: "show_nat 42 = ''42''" by code_simp
  have "send_request lib (d 3) (get_order [(''authorization'', bearer lib (d 2) ''42'' customer)] (o_id x)) (s\<lparr>ap_orders := os\<rparr>) =
      (Inr (Answer 200 (x, None)), s\<lparr>ap_orders := os\<rparr>)"
    using get_served [OF ready, of "s\<lparr>ap_orders := os\<rparr>" "o_id x" "[(''authorization'', bearer lib (d 2) ''42'' customer)]" 2 42 3] c
    by (simp add: app_ok_def n)
  then show ?thesis using c by (simp add: happy_path_def expect_answer_def expect_that_def then_run_def)
qed

lemma e2e_owner:
  assumes ready: "e2e_ready date_time lib d" and s: "app_ok s"
  shows "\<exists>s'. owner_only lib d s = (Inr (), s') \<and> app_ok s'"
proof -
  obtain x os where c: "send_request lib (d 5) (post_orders [(''authorization'', bearer lib (d 4) ''42'' customer),
       (''idempotency-key'', ''e2e-owner-1'')] (el_json lib [\<lparr>product_id = ''p1'', quantity = 1\<rparr>])) s =
      (Inr (Answer 201 (x, Some (''/orders/'' @ o_id x))), s\<lparr>ap_orders := os\<rparr>)"
    "app_ok (s\<lparr>ap_orders := os\<rparr>)" "getById os (o_id x) = Inr x" "buyer_id x = ''42''" "o_status x = new"
    "o_items x = [\<lparr>product_id = ''p1'', quantity = 1\<rparr>]" "o_id x \<noteq> ''''" "CHR ''/'' \<notin> set (o_id x)" "order_conforms date_time x"
    by (rule p1_ordered [OF ready s, of 1 "''e2e-owner-1''" 5 4]) simp_all
  have n: "show_nat 43 = ''43''" by code_simp
  have "send_request lib (d 8) (get_order [(''authorization'', bearer lib (d 7) ''43'' customer)] (o_id x)) (s\<lparr>ap_orders := os\<rparr>) =
      (Inr (ProblemAnswer (filter_catch (''/orders/'' @ o_id x) (thrown_of (el_detail lib) (HttpException 403 (Some ''not-owner''))))), s\<lparr>ap_orders := os\<rparr>)"
    using get_served [OF ready, of "s\<lparr>ap_orders := os\<rparr>" "o_id x" "[(''authorization'', bearer lib (d 7) ''43'' customer)]" 7 43 8] c
    by (simp add: app_ok_def n)
  then show ?thesis using c
    by (simp add: owner_only_def expect_answer_def expect_that_def then_run_def anonymous_refused [OF ready] unauthorized_def
        filter_catch_def writeProblem_def Let_def)
qed

lemma e2e_unknown:
  assumes ready: "e2e_ready date_time lib d" and s: "app_ok s"
  shows "unknown_order lib d s = (Inr (), s)"
proof -
  let ?i = "''does-not-exist''"
  have n: "show_nat 42 = ''42''" by code_simp
  have g: "getById (ap_orders s) ?i = Inl not_found"
    using order_id_shape [of "ap_orders s" ?i] s by (cases "getById (ap_orders s) ?i") (auto simp: app_ok_def getById_def split: option.splits)
  have "send_request lib (d 10) (get_order [(''authorization'', bearer lib (d 9) ''42'' customer)] ?i) s =
      (Inr (ProblemAnswer (filter_catch (''/orders/'' @ ?i) (thrown_of (el_detail lib) not_found))), s)"
    using get_served [OF ready, of s ?i "[(''authorization'', bearer lib (d 9) ''42'' customer)]" 9 42 10] s
    by (simp add: app_ok_def n g)
  then show ?thesis
    by (simp add: unknown_order_def expect_answer_def expect_that_def then_run_def not_found_def filter_catch_def writeProblem_def Let_def)
qed

lemma e2e_keyless:
  assumes ready: "e2e_ready date_time lib d"
  shows "without_key lib d s = (Inr (), s)"
proof -
  obtain r where "send_request lib (d 12) (post_orders [(''authorization'', bearer lib (d 11) ''42'' customer)]
       (el_json lib [\<lparr>product_id = ''p1'', quantity = 1\<rparr>])) s = (Inr (ProblemAnswer r), s)" "res_status r = 400"
    "res_content_type r = ''application/problem+json''" "sublist ''idempotency-key'' (p_detail (res_body r))"
    using keyless_refused [OF ready, of "[(''authorization'', bearer lib (d 11) ''42'' customer)]" "d 12"
        "[\<lparr>product_id = ''p1'', quantity = 1\<rparr>]" s] by auto
  then show ?thesis by (simp add: without_key_def expect_answer_def expect_that_def then_run_def)
qed

text \<open>The end-to-end tests of the orders pass: over an application that has just started, with a
  JWT library and a contract validator that do what they document, each of the four tests
  resolves.\<close>

theorem e2e_passes:
  assumes ready: "e2e_ready date_time lib d"
  shows "run_tests (e2e_tests lib d) fresh_app = [Inr (), Inr (), Inr (), Inr ()]"
proof -
  have 0: "app_ok fresh_app" by (simp add: app_ok_def fresh_app_def orders_ok_init)
  obtain s1 where 1: "happy_path lib d fresh_app = (Inr (), s1)" "app_ok s1" using e2e_happy [OF ready 0] by blast
  obtain s2 where 2: "owner_only lib d s1 = (Inr (), s2)" "app_ok s2" using e2e_owner [OF ready 1(2)] by blast
  show ?thesis by (simp add: e2e_tests_def 1(1) 2(1) e2e_unknown [OF ready 2(2)] e2e_keyless [OF ready])
qed

subsection \<open>The key of an order is not looked at\<close>

text \<open>The contract of \<open>createOrder\<close> promises that a second request with the same
  \<open>Idempotency-Key\<close> and body is answered as the first one; the controller does not read the
  header, and every such request makes an order of its own.\<close>

theorem same_key_second_order:
  assumes ready: "e2e_ready date_time lib d" and s: "app_ok s" and k: "k \<noteq> ''''"
  defines "req \<equiv> post_orders [(''authorization'', bearer lib (d 0) ''42'' customer), (''idempotency-key'', k)]
     (el_json lib [\<lparr>product_id = ''p1'', quantity = 1\<rparr>])"
  shows "\<exists>x y l l' s1 s2. send_request lib (d 1) req s = (Inr (Answer 201 (x, l)), s1) \<and>
    send_request lib (d 2) req s1 = (Inr (Answer 201 (y, l')), s2) \<and> o_id x \<noteq> o_id y"
proof -
  obtain x os where 1: "send_request lib (d 1) req s = (Inr (Answer 201 (x, Some (''/orders/'' @ o_id x))), s\<lparr>ap_orders := os\<rparr>)"
    "app_ok (s\<lparr>ap_orders := os\<rparr>)" "getById os (o_id x) = Inr x"
    unfolding req_def by (rule p1_ordered [OF ready s, of 1 k 1 0]) (use k in simp_all)
  let ?c = "create products_init os [\<lparr>product_id = ''p1'', quantity = 1\<rparr>] (show_nat 42) (dr_iso (d 2))"
  have n: "show_nat 42 = ''42''" by code_simp
  have ok: "orders_ok os" "ap_products s = products_init" "access_denylist (ap_auth s) = []" using 1(2) by (simp_all add: app_ok_def)
  have t: "total_cents (fst ?c) \<in> \<int>" using p1_total [of 1 os "show_nat 42" "dr_iso (d 2)"] by simp
  have "send_request lib (d 2) req (s\<lparr>ap_orders := os\<rparr>) =
      (Inr (Answer 201 (fst ?c, Some (''/orders/'' @ o_id (fst ?c)))), (s\<lparr>ap_orders := os\<rparr>)\<lparr>ap_orders := snd ?c\<rparr>)"
    unfolding req_def
    by (rule post_served [OF ready, where n = 42 and k = k and i = 0 and rl = customer]) (use k ok t in \<open>simp_all add: n\<close>)
  moreover have "getById os (o_id (fst ?c)) = Inl not_found"
    using create_then_read [OF ok(1), of products_init _ "show_nat 42" "dr_iso (d 2)" "fst ?c" "snd ?c"] by simp
  then have "o_id x \<noteq> o_id (fst ?c)" using 1(3) by auto
  ultimately show ?thesis using 1(1) by blast
qed

subsection \<open>An instance\<close>

definition some_json :: "order_item list \<Rightarrow> string" where
  "some_json items = show_nat (to_nat (map (\<lambda>it. (product_id it, quantity it)) items))"

definition some_refusal :: "nat \<Rightarrow> string \<Rightarrow> next_error" where
  "some_refusal st m = \<lparr>ne_status = Some st, ne_message = Some m, ne_errors = None\<rparr>"

definition some_contract :: "(order_item list, order_answer) contract" where
  "some_contract = \<lparr>
     ct_json = (\<lambda>req. Inr (if hr_body req = '''' then None
       else Some (map (\<lambda>(p, q). \<lparr>product_id = p, quantity = q\<rparr>) (from_nat (digits_val (codes (hr_body req))))))),
     ct_request = (\<lambda>req body. if order_route_of req = Some CreateOrder then
         (if header req ''idempotency-key'' = None then Some (some_refusal 400 ''request/headers must have required property idempotency-key'')
          else if (case body of None \<Rightarrow> False | Some items \<Rightarrow> createOrder_conforms req items) then None
          else Some (some_refusal 400 ''request/body''))
       else None),
     ct_response = (\<lambda>req a. case order_route_of req of None \<Rightarrow> None
       | Some c \<Rightarrow> if answer_conforms (\<lambda>_. True) c a then None else Some (some_refusal 500 ''response/body''))\<rparr>"

definition some_e2e :: "(unit, unit) e2e_lib" where
  "some_e2e = \<lparr>el_ct = some_contract, el_json = some_json, el_env = some_env, el_detail = (\<lambda>_. ''detail''),
     el_other = (\<lambda>_ _ s. (Inl (ThrownHttp 404 (BodyString ''Cannot find'')), s))\<rparr>"

lemma some_contract_documented: "contract_documented some_contract (\<lambda>_. True) some_json"
proof -
  have "sublist ''idempotency-key'' (''request/headers must have required property '' @ ''idempotency-key'' @ [])" by (rule sublist_appendI)
  then have "sublist ''idempotency-key'' ''request/headers must have required property idempotency-key''" by simp
  moreover have same: "map (\<lambda>x. \<lparr>product_id = product_id x, quantity = quantity x\<rparr>) items = items" for items
    by (simp add: map_idI)
  ultimately show ?thesis
    by (simp add: contract_documented_def some_contract_def some_refusal_def some_json_def digits_val_show_nat comp_def)
      (auto simp: createOrder_conforms_def same)
qed

lemma some_e2e_ready: "e2e_ready (\<lambda>_. True) some_e2e some_draws"
  using some_contract_documented some_jwt_signs some_ready by (simp add: e2e_ready_def some_e2e_def demo_ready_def)

theorem e2e_passes_witness:
  "run_tests (e2e_tests some_e2e some_draws) fresh_app = [Inr (), Inr (), Inr (), Inr ()]"
  by (rule e2e_passes [OF some_e2e_ready])

end
