(* ===== verification/DemoMains.thy ===== *)
theory DemoMains
  imports ShopDemos Retry "HOL-Library.Sublist"
begin

text \<open>
  The mains of three runs of the data layer, over the parts the other theories model: the
  N+1 comparison (\<open>src/demo-nplus1.ts\<close>, a transaction that is rolled back), the two transfers
  that retry (\<open>src/demo-retry.ts\<close>) and the workers on a queue (\<open>src/demo-workers.ts\<close>).
\<close>

subsection \<open>demo:nplus1\<close>

text \<open>
  What the driver logs for a \<open>find\<close> of these orders with \<open>relations\<close>, by the loading strategy
  (\<open>True\<close>: \<open>query\<close>), is the ORM's; the logger counts it.
\<close>

definition measureRelations :: "(bool \<Rightarrow> shop_db \<Rightarrow> nat list \<Rightarrow> log_message list) \<Rightarrow> shop_db \<Rightarrow> nat list \<Rightarrow> query_logger \<Rightarrow> query_logger" where
  "measureRelations orm db orderIds g = fst (writeLog (orm False db orderIds) (logger_reset g))"

definition measureQueryStrategy :: "(bool \<Rightarrow> shop_db \<Rightarrow> nat list \<Rightarrow> log_message list) \<Rightarrow> shop_db \<Rightarrow> nat list \<Rightarrow> query_logger \<Rightarrow> query_logger" where
  "measureQueryStrategy orm db orderIds g = fst (writeLog (orm True db orderIds) (logger_reset g))"

text \<open>\<open>rollbackTransaction\<close>: the rows are those of the start, the sequences are not set back.\<close>

definition nplus1_rollback :: "shop_db \<Rightarrow> shop_db \<Rightarrow> shop_db" where
  "nplus1_rollback before db = before\<lparr>order_seq := order_seq db, product_seq := product_seq db, user_seq := user_seq db\<rparr>"

record nplus1_summary =
  naiveSmall :: nat
  naiveBig :: nat
  relSmall :: nat
  relBig :: nat
  qsSmall :: nat
  qsBig :: nat

text \<open>\<open>now1\<close> and \<open>now2\<close> are the texts of \<open>Date.now()\<close>; every measurement starts with a reset, so
  what the logger has counted before does not matter.\<close>

definition demo_nplus1 :: "(bool \<Rightarrow> shop_db \<Rightarrow> nat list \<Rightarrow> log_message list) \<Rightarrow> string \<Rightarrow> string \<Rightarrow> query_logger \<Rightarrow> shop_db \<Rightarrow>
    nplus1_summary res \<times> shop_db" where
  "demo_nplus1 orm now1 now2 g db =
     (case makeDataset 5 ''small'' now1 db of
        (Inl e, db1) \<Rightarrow> (Inl e, nplus1_rollback db db1)
      | (Inr small, db1) \<Rightarrow>
          (case makeDataset 40 ''big'' now2 db1 of
             (Inl e, db2) \<Rightarrow> (Inl e, nplus1_rollback db db2)
           | (Inr big, db2) \<Rightarrow>
               (Inr \<lparr>naiveSmall = lg_count (measureNaive db2 small g), naiveBig = lg_count (measureNaive db2 big g),
                     relSmall = lg_count (measureRelations orm db2 small g), relBig = lg_count (measureRelations orm db2 big g),
                     qsSmall = lg_count (measureQueryStrategy orm db2 small g), qsBig = lg_count (measureQueryStrategy orm db2 big g)\<rparr>,
                nplus1_rollback db db2)))"

lemma lg_count_writeLog: "lg_count (fst (writeLog ms g)) = lg_count g + length (filter (\<lambda>m. case m of LogMessage ty _ \<Rightarrow> ty = ''query'') ms)"
  by (induction ms g rule: writeLog.induct) (auto simp: Let_def split: prod.splits)

text \<open>What the ORM logs for a request: its messages of type \<open>query\<close>.\<close>

definition queries_of :: "log_message list \<Rightarrow> nat" where
  "queries_of ms = length (filter (\<lambda>m. case m of LogMessage ty _ \<Rightarrow> ty = ''query'') ms)"

lemma measured_relations:
  "lg_count (measureRelations orm db ids g) = queries_of (orm False db ids)"
  "lg_count (measureQueryStrategy orm db ids g) = queries_of (orm True db ids)"
  by (simp_all add: measureRelations_def measureQueryStrategy_def lg_count_writeLog queries_of_def logger_reset_def)

lemma makeDataset_runs:
  assumes "''nplus1-'' @ tag @ ''-'' @ now @ ''@example.com'' \<notin> a_email ` set (s_users db)" "''NPLUS1-'' @ tag @ ''-'' @ now \<notin> p_sku ` set (s_products db)"
  obtains ids db' where "makeDataset n tag now db = (Inr ids, db')"
    "a_email ` set (s_users db') = insert (''nplus1-'' @ tag @ ''-'' @ now @ ''@example.com'') (a_email ` set (s_users db))"
    "p_sku ` set (s_products db') = insert (''NPLUS1-'' @ tag @ ''-'' @ now) (p_sku ` set (s_products db))"
proof -
  have keep: "save_orders n b p db1 = (ids, db2) \<Longrightarrow> s_users db2 = s_users db1 \<and> s_products db2 = s_products db1" for n b p db1 ids db2
    by (induction n arbitrary: db1 ids db2) (auto simp: save_order_def Let_def split: prod.splits)
  let ?buyer = "\<lparr>a_id = int (user_seq db), a_email = ''nplus1-'' @ tag @ ''-'' @ now @ ''@example.com'', a_balance = 1000000\<rparr>"
  let ?product = "\<lparr>p_id = int (product_seq db), p_sku = ''NPLUS1-'' @ tag @ ''-'' @ now, p_name = ''Demo product '' @ tag, p_price = 10, p_stock = 0\<rparr>"
  let ?db = "db\<lparr>user_seq := Suc (user_seq db), s_users := s_users db @ [?buyer], product_seq := Suc (product_seq db),
      s_products := s_products db @ [?product]\<rparr>"
  obtain ids db' where s: "save_orders n ?buyer ?product ?db = (ids, db')" by fastforce
  have "makeDataset n tag now db = (Inr ids, db')" using assms s by (simp add: makeDataset_def Let_def)
  moreover have "a_email ` set (s_users db') = insert (''nplus1-'' @ tag @ ''-'' @ now @ ''@example.com'') (a_email ` set (s_users db)) \<and>
      p_sku ` set (s_products db') = insert (''NPLUS1-'' @ tag @ ''-'' @ now) (p_sku ` set (s_products db))"
    using keep [OF s] by simp
  ultimately show thesis using that by blast
qed

lemma prefix_free: "\<forall>x \<in> A. \<not> prefix p (f x) \<Longrightarrow> p @ t \<notin> f ` A"
proof
  assume "\<forall>x \<in> A. \<not> prefix p (f x)" "p @ t \<in> f ` A"
  then obtain x where "x \<in> A" "f x = p @ t" by (metis imageE)
  then have "prefix p (f x)" by simp
  with \<open>x \<in> A\<close> show False using \<open>\<forall>x \<in> A. \<not> prefix p (f x)\<close> by blast
qed

text \<open>The comparison: on any consistent shop in which the names of the run are free, the naive
  way costs 11 queries for 5 orders and 81 for 40, the two strategies cost what the ORM sends,
  and the tables are afterwards those of the start.\<close>

theorem nplus1_compares:
  assumes ok: "shop_ok db" and fk: "\<forall>x \<in> set (s_items db). it_order x \<in> or_id ` set (s_orders db)"
    and free: "\<forall>u \<in> set (s_users db). \<not> prefix ''nplus1-'' (a_email u)" "\<forall>p \<in> set (s_products db). \<not> prefix ''NPLUS1-'' (p_sku p)"
  shows "\<exists>small big db2 db'. demo_nplus1 orm now1 now2 g db = (Inr \<lparr>naiveSmall = 11, naiveBig = 81,
      relSmall = queries_of (orm False db2 small), relBig = queries_of (orm False db2 big),
      qsSmall = queries_of (orm True db2 small), qsBig = queries_of (orm True db2 big)\<rparr>, db') \<and>
    length small = 5 \<and> length big = 40 \<and> s_orders db' = s_orders db \<and> s_items db' = s_items db \<and> s_users db' = s_users db \<and> s_products db' = s_products db"
proof -
  have pre: "''nplus1-'' @ t \<notin> a_email ` set (s_users db)" "''NPLUS1-'' @ t \<notin> p_sku ` set (s_products db)" for t
    by (rule prefix_free [OF free(1)], rule prefix_free [OF free(2)])
  obtain small db1 where 1: "makeDataset 5 ''small'' now1 db = (Inr small, db1)"
    "a_email ` set (s_users db1) = insert (''nplus1-'' @ ''small'' @ ''-'' @ now1 @ ''@example.com'') (a_email ` set (s_users db))"
    "p_sku ` set (s_products db1) = insert (''NPLUS1-'' @ ''small'' @ ''-'' @ now1) (p_sku ` set (s_products db))"
    by (rule makeDataset_runs [of "''small''" now1 db 5, OF pre])
  have free1: "''nplus1-'' @ ''big'' @ ''-'' @ now2 @ ''@example.com'' \<notin> a_email ` set (s_users db1)"
    "''NPLUS1-'' @ ''big'' @ ''-'' @ now2 \<notin> p_sku ` set (s_products db1)"
    unfolding 1(2,3) using pre [of "''big'' @ ''-'' @ now2"] pre [of "''big'' @ ''-'' @ now2 @ ''@example.com''"] by simp_all
  obtain big db2 where 2: "makeDataset 40 ''big'' now2 db1 = (Inr big, db2)"
    by (rule makeDataset_runs [of "''big''" now2 db1 40, OF free1])
  note S = dataset_lines [OF shop_rows [OF ok fk] 1(1)] and B = dataset_lines [OF _ 2]
  have "\<forall>j \<in> set small. j < order_seq db1" using makeDataset_rows(1,2) [OF 1(1)] by simp
  then have "one_line_each db2 small" using B(4) [OF S(3) S(1)] by blast
  then have "lg_count (measureNaive db2 small g) = 11" "lg_count (measureNaive db2 big g) = 81"
    using naive_counted [of db2 small g] naive_counted [OF B(1) [OF S(3)], of g] S(2) B(2) [OF S(3)] by simp_all
  then show ?thesis
    using S(2) B(2) [OF S(3)] by (simp add: demo_nplus1_def 1(1) 2 measured_relations nplus1_rollback_def) blast
qed

lemma nplus1_instance:
  "\<exists>r db'. demo_nplus1 (\<lambda>s _ _. replicate (if s then 3 else 1) (LogMessage ''query'' ''SELECT'')) ''1'' ''2'' g (example_shop 1) = (Inr r, db') \<and>
     naiveSmall r = 11 \<and> naiveBig r = 81 \<and> relBig r = 1 \<and> qsBig r = 3"
proof -
  let ?orm = "\<lambda>s (_ :: shop_db) (_ :: nat list). replicate (if s then 3 else 1) (LogMessage ''query'' ''SELECT'')"
  have "\<forall>u \<in> set (s_users (example_shop 1)). \<not> prefix ''nplus1-'' (a_email u)" "\<forall>p \<in> set (s_products (example_shop 1)). \<not> prefix ''NPLUS1-'' (p_sku p)"
    "\<forall>x \<in> set (s_items (example_shop 1)). it_order x \<in> or_id ` set (s_orders (example_shop 1))"
    by (simp_all add: example_shop_def)
  from nplus1_compares [OF one_ok this(3,1,2), of ?orm "''1''" "''2''" g] show ?thesis by (auto simp: queries_of_def)
qed

subsection \<open>demo:retry\<close>

definition START_BALANCE :: rat where "START_BALANCE = 100"

definition retry_buyer :: "shop_db \<Rightarrow> int \<times> shop_db" where
  "retry_buyer db =
     (let n = int (user_seq db); db1 = db\<lparr>user_seq := Suc (user_seq db)\<rparr>; email = ''retry-demo@example.com''
      in case find (\<lambda>u. a_email u = email) (s_users db) of
           None \<Rightarrow> (n, db1\<lparr>s_users := s_users db @ [\<lparr>a_id = n, a_email = email, a_balance = START_BALANCE\<rparr>]\<rparr>)
         | Some u \<Rightarrow> (a_id u, db1\<lparr>s_users := update_where (\<lambda>u. a_email u = email) (\<lambda>u. u\<lparr>a_balance := START_BALANCE\<rparr>) (s_users db)\<rparr>))"

text \<open>
  \<open>Promise.all\<close> over the two transfers: before each move the schedule picks who is next,
  among those that can still move.  \<open>None\<close>: the budget of moves ran out.
\<close>

fun run_clients :: "nat \<Rightarrow> (nat \<Rightarrow> adjust_state \<Rightarrow> nat) \<Rightarrow> nat \<Rightarrow> int list \<Rightarrow> adjust_state \<Rightarrow> adjust_state option" where
  "run_clients fuel sched m ds s =
     (if \<not> list_ex active (ad_clients s) then Some s
      else case fuel of 0 \<Rightarrow> None | Suc f \<Rightarrow> run_clients f sched m ds (adjust_move m ds (sched f s) s))"

declare run_clients.simps [simp del]

definition MAX_ATTEMPTS :: nat where "MAX_ATTEMPTS = 8"

text \<open>The exit code and the database; a transfer that gives up rejects the whole run.\<close>

definition demo_retry :: "(nat \<Rightarrow> adjust_state \<Rightarrow> nat) \<Rightarrow> shop_db \<Rightarrow> (nat \<times> shop_db) option" where
  "demo_retry sched db =
     (let (buyerId, db1) = retry_buyer db
      in case run_clients 8 sched MAX_ATTEMPTS [50, - 30] (adjust_start START_BALANCE [50, - 30]) of
           None \<Rightarrow> None
         | Some s \<Rightarrow>
             (let db2 = db1\<lparr>s_users := update_where (\<lambda>u. a_id u = buyerId) (\<lambda>u. u\<lparr>a_balance := ad_balance s\<rparr>) (s_users db1)\<rparr>
              in if list_ex (\<lambda>c. case c of Failed e \<Rightarrow> True | _ \<Rightarrow> False) (ad_clients s) then Some (1, db2)
                 else case find (\<lambda>u. a_id u = buyerId) (s_users db2) of
                        None \<Rightarrow> Some (1, db2)
                      | Some u \<Rightarrow> Some (if fl (a_balance u) \<noteq> fl (START_BALANCE + 50 - 30) then 1 else 0, db2)))"

lemma run_clients_ends:
  assumes "\<And>k s. list_ex active (ad_clients s) \<Longrightarrow> sched k s < length (ad_clients s) \<and> active (ad_clients s ! sched k s)"
    and "adjust_ok b0 ds s" "in_range b0 ds" "length ds \<le> m" "adjust_left s \<le> fuel"
  shows "\<exists>s'. run_clients fuel sched m ds s = Some s' \<and> adjust_ok b0 ds s' \<and> \<not> list_ex active (ad_clients s')"
  using assms(2,5)
proof (induction fuel arbitrary: s)
  case 0
  then show ?case using adjust_left_move [OF 0(1)] assms(1) by (auto simp: run_clients.simps [of 0])
next
  case (Suc f)
  show ?case
  proof (cases "list_ex active (ad_clients s)")
    case True
    note i = assms(1) [OF this, of f]
    have "adjust_ok b0 ds (adjust_move m ds (sched f s) s)" using adjust_ok_move i Suc.prems(1) assms(3,4) by blast
    moreover have "adjust_left (adjust_move m ds (sched f s) s) \<le> f"
      using adjust_left_move [OF Suc.prems(1), of "sched f s" m] i Suc.prems(2) by simp
    ultimately show ?thesis using Suc.IH True by (simp add: run_clients.simps [of "Suc f"])
  qed (use Suc.prems in \<open>simp add: run_clients.simps [of "Suc f"]\<close>)
qed

lemma buyer_row:
  assumes r: "retry_buyer db = (i, db1)"
  shows "\<exists>u. find (\<lambda>u. a_id u = i) (s_users db1) = Some u"
proof (cases "find (\<lambda>u. a_email u = ''retry-demo@example.com'') (s_users db)")
  case (Some u)
  then have i: "i = a_id u" and db1: "s_users db1 = update_where (\<lambda>u. a_email u = ''retry-demo@example.com'') (\<lambda>u. u\<lparr>a_balance := START_BALANCE\<rparr>) (s_users db)"
    using r by (auto simp: retry_buyer_def Let_def)
  have "u \<in> set (s_users db)" "a_email u = ''retry-demo@example.com''" using Some by (auto simp: find_Some_iff)
  then have "u\<lparr>a_balance := START_BALANCE\<rparr> \<in> set (s_users db1)" by (force simp: db1 update_where_def)
  then have "\<exists>v \<in> set (s_users db1). a_id v = i" by (rule bexI [rotated]) (simp add: i)
  then show ?thesis by (cases "find (\<lambda>u. a_id u = i) (s_users db1)") (auto simp: find_None_iff)
next
  case None
  then have "i = int (user_seq db)" "s_users db1 = s_users db @ [\<lparr>a_id = int (user_seq db), a_email = ''retry-demo@example.com'', a_balance = START_BALANCE\<rparr>]"
    using r by (auto simp: retry_buyer_def Let_def)
  then show ?thesis by (cases "find (\<lambda>u. a_id u = i) (s_users db1)") (auto simp: find_None_iff)
qed

lemma find_updated: "(\<And>u. P (f u) = P u) \<Longrightarrow> find P (update_where P f t) = map_option f (find P t)"
  by (induction t) auto

text \<open>Both transfers survive: whoever is scheduled when, the run ends within its 8 moves with
  exit code 0 and the balance 120; no update is lost and no transfer gives up.\<close>

theorem retry_demo_passes:
  assumes sched: "\<And>k s. list_ex active (ad_clients s) \<Longrightarrow> sched k s < length (ad_clients s) \<and> active (ad_clients s ! sched k s)"
  shows "\<exists>db' i u. demo_retry sched db = Some (0, db') \<and> i = fst (retry_buyer db) \<and>
    find (\<lambda>u. a_id u = i) (s_users db') = Some u \<and> a_balance u = 120"
proof -
  let ?s0 = "adjust_start START_BALANCE [50, - 30]"
  have ok: "adjust_ok 100 [50, - 30] ?s0" using adjust_ok_start [of 100 "[50, - 30]"] by (simp add: START_BALANCE_def)
  have range: "in_range 100 [50, - 30]" by (simp add: in_range_def lessThan_Suc)
  obtain s where s: "run_clients 8 sched MAX_ATTEMPTS [50, - 30] ?s0 = Some s" "adjust_ok 100 [50, - 30] s" "\<not> list_ex active (ad_clients s)"
    using run_clients_ends [where sched = sched and m = MAX_ATTEMPTS and fuel = 8, OF sched ok range] by (auto simp: MAX_ATTEMPTS_def adjust_left_start)
  have "set (ad_clients s) \<subseteq> {Committed} \<and> ad_balance s = of_int (100 + sum_list [50, - 30])"
    using adjust_idle [OF s(2)] s(3) by (auto simp: list_ex_length)
  then have done1: "\<not> list_ex (\<lambda>c. case c of Failed e \<Rightarrow> True | _ \<Rightarrow> False) (ad_clients s)" "ad_balance s = 120"
    by (auto simp: list_ex_iff)
  obtain i db1 where r: "retry_buyer db = (i, db1)" by fastforce
  obtain u where u: "find (\<lambda>u. a_id u = i) (s_users db1) = Some u" using buyer_row [OF r] by blast
  let ?db2 = "db1\<lparr>s_users := update_where (\<lambda>u. a_id u = i) (\<lambda>u. u\<lparr>a_balance := ad_balance s\<rparr>) (s_users db1)\<rparr>"
  have f: "find (\<lambda>u. a_id u = i) (s_users ?db2) = Some (u\<lparr>a_balance := 120\<rparr>)" by (simp add: find_updated u done1(2))
  have "demo_retry sched db = Some (0, ?db2)"
    using s(1) done1 f by (simp add: demo_retry_def r START_BALANCE_def)
  then show ?thesis using f by (simp add: r)
qed

text \<open>A schedule: the first that can still move.\<close>

definition first_active :: "nat \<Rightarrow> adjust_state \<Rightarrow> nat" where
  "first_active k s = length (takeWhile (\<lambda>c. \<not> active c) (ad_clients s))"

lemma first_active_moves: "list_ex active (ad_clients s) \<Longrightarrow> first_active k s < length (ad_clients s) \<and> active (ad_clients s ! first_active k s)"
proof -
  have "list_ex P xs \<Longrightarrow> length (takeWhile (\<lambda>c. \<not> P c) xs) < length xs \<and> P (xs ! length (takeWhile (\<lambda>c. \<not> P c) xs))"
    for P :: "client \<Rightarrow> bool" and xs by (induction xs) auto
  from this [of active "ad_clients s"] show "list_ex active (ad_clients s) \<Longrightarrow> ?thesis" by (simp add: first_active_def)
qed

lemma retry_instance: "\<exists>db'. demo_retry first_active (example_shop 1) = Some (0, db')"
  using retry_demo_passes [of first_active "example_shop 1"] first_active_moves by blast

subsection \<open>demo:workers\<close>

definition WORK_MS :: nat where "WORK_MS = 100"

text \<open>\<open>GROUP BY worker ORDER BY worker\<close> over the jobs of these orders; an order id is the text of its number.\<close>

definition worker_stats :: "string list \<Rightarrow> job_row list \<Rightarrow> (string option \<times> nat) list" where
  "worker_stats ids t =
     (let mine = filter (\<lambda>j. show_nat (j_order j) \<in> set ids) t
      in map (\<lambda>w. (w, length (filter (\<lambda>j. j_worker j = w) mine))) (remdups (map j_worker mine)))"

text \<open>
  The exit code and what is printed of the distribution; \<open>work\<close> is what the four workers made
  of the table by the time all have returned, \<open>elapsed\<close> how long that took.
\<close>

definition demo_workers :: "checkout_env \<Rightarrow> checkout_call list \<Rightarrow> (job_row list \<Rightarrow> job_row list) \<Rightarrow> nat \<Rightarrow> shop_db \<Rightarrow>
    (nat \<times> (string option \<times> nat) list) \<times> shop_db" where
  "demo_workers env calls work elapsed db =
     (case prepare_jobs env calls db of
        (Inl e, db1) \<Rightarrow> ((1, []), db1)
      | (Inr orderIds, db1) \<Rightarrow>
          (let t = work (s_jobs db1); processedTwice = processed_twice t; sequential = JOBS * WORK_MS
           in ((if 0 < processedTwice \<or> sequential \<le> elapsed then 1 else 0, worker_stats orderIds t), db1\<lparr>s_jobs := t\<rparr>)))"

lemma grouped_total: "(\<Sum>w\<leftarrow>remdups (map f xs). length (filter (\<lambda>x. f x = w) xs)) = length xs"
proof -
  have "(\<Sum>w \<in> f ` set xs. length (filter (\<lambda>x. f x = w) xs)) = length xs"
  proof (induction xs)
    case (Cons x xs)
    have "(\<Sum>w \<in> f ` set (x # xs). length (filter (\<lambda>y. f y = w) (x # xs))) =
        (\<Sum>w \<in> f ` set (x # xs). (if w = f x then 1 else 0) + length (filter (\<lambda>y. f y = w) xs))"
      by (intro sum.cong) auto
    also have "\<dots> = 1 + (\<Sum>w \<in> f ` set (x # xs). length (filter (\<lambda>y. f y = w) xs))" by (simp add: sum.distrib)
    also have "(\<Sum>w \<in> f ` set (x # xs). length (filter (\<lambda>y. f y = w) xs)) = (\<Sum>w \<in> f ` set xs. length (filter (\<lambda>y. f y = w) xs))"
    proof (rule sum.mono_neutral_right)
      show "\<forall>i \<in> f ` set (x # xs) - f ` set xs. length (filter (\<lambda>y. f y = i) xs) = 0" by (auto simp: filter_empty_conv)
    qed auto
    finally show ?case using Cons by simp
  qed simp
  then show ?thesis by (simp add: sum_list_distinct_conv_sum_set)
qed

text \<open>The distribution accounts for every job of the run's orders exactly once.\<close>

lemma stats_total: "(\<Sum>(w, n)\<leftarrow>worker_stats ids t. n) = length (filter (\<lambda>j. show_nat (j_order j) \<in> set ids) t)"
  using grouped_total [of j_worker "filter (\<lambda>j. show_nat (j_order j) \<in> set ids) t"]
  by (simp add: worker_stats_def Let_def comp_def)

text \<open>The exit code depends on the clock alone: whatever the workers do in whatever order, none
  of the jobs is processed twice.\<close>

theorem workers_exit:
  assumes w: "world_ok db" "jobs_ok (s_jobs db)" "bigint_io env" "product_seq db < 2 ^ 63" "user_seq db < 2 ^ 63"
    and price: "\<forall>r \<in> set (s_products db). p_sku r = ''WORKERS-DEMO'' \<longrightarrow> p_price r = 10"
    and calls: "length calls = JOBS" "\<forall>c \<in> set calls. cc_hook c = None"
    and work: "\<And>t. \<exists>held. pool_steps \<lparr>pool_jobs = t, pool_held = []\<rparr> \<lparr>pool_jobs = work t, pool_held = held\<rparr>"
  shows "fst (fst (demo_workers env calls work elapsed db)) = (if elapsed < 2000 then 0 else 1)"
proof -
  obtain ids db' where p: "prepare_jobs env calls db = (Inr ids, db')"
    and once: "\<And>s. pool_steps \<lparr>pool_jobs = s_jobs db', pool_held = []\<rparr> s \<Longrightarrow> processed_twice (pool_jobs s) = 0"
    using workers_demo_passes [OF w price calls] by blast
  obtain held where "pool_steps \<lparr>pool_jobs = s_jobs db', pool_held = []\<rparr> \<lparr>pool_jobs = work (s_jobs db'), pool_held = held\<rparr>"
    using work by blast
  from once [OF this] show ?thesis by (simp add: demo_workers_def p Let_def JOBS_def WORK_MS_def)
qed

end
