(* ===== verification/Spec2Isabelle.thy ===== *)
theory Spec2Isabelle
  imports AuthService RefreshRace Guards Problem Cursor Orders Pipeline Files JobQueue OrdersApi RateLimit Session Cache Edge Env Seed
    Topology Reports Jobs Retry ShopDemos BrokerDemos AuthDemos RedisDemos RealtimeDemo Scripts MemStore CacheDemo QueueDemo App E2E DemoMains
begin

text \<open>
  A model of the marketplace API (\<open>src/src\<close>), a Nest server with its data layer and
  workers, and the theorems that make its parts correct.

  \<^bold>\<open>The program and its parts.\<close>  The HTTP and WebSocket server runs every request
  through two global guards, hands it to a controller and turns whatever is thrown
  into a problem+json document.  Behind it are the token tables of the authentication,
  the in-memory catalogue and orders with their status events, and the files, whose
  bytes live in an S3 bucket.  A second path, the data layer, sells goods in one
  Postgres transaction (checkout), which leaves an event in an outbox table; a relay
  publishes the outbox to the broker, a consumer turns each event into one receipt,
  and workers process the queued jobs.  Redis holds a cache, the sessions and the rate
  limits; an edge server caches published assets.

  \<^bold>\<open>Theories.\<close>
    \<^item> \<open>Prelude\<close>: exceptions, results, SQL statements on tables as lists, and the two
      contracts the tables are used under, as locales: \<open>once_table\<close> (an insert that
      reports whether its key is new) and \<open>skip_locked\<close> (a claim that skips rows others
      hold).  \<open>JsNum\<close>: ECMAScript numbers, IEEE rounding, \<open>Number(string)\<close>.  \<open>Base64\<close>: the codecs of
      \<open>Buffer\<close>.  \<open>Money\<close>: decimal text and numeric(12,2).  \<open>Redis\<close>: the string commands, and the contract \<open>ttl_store\<close>.
    \<^item> \<open>Tokens\<close> (\<open>auth/token.service.ts\<close>, \<open>auth/password.ts\<close>), \<open>AuthService\<close>
      (\<open>auth/auth.service.ts\<close>): login, rotation of refresh tokens with reuse detection,
      logout and denylist, as functions on the three tables, a transaction at a time; the
      invariant \<open>auth_inv\<close> and its consequences.  \<open>RefreshRace\<close>: the transactions of refresh and
      logout statement by statement under READ COMMITTED, with row locks and snapshots, in
      any interleaving; what a replay revokes then, and what slips through.  \<open>Guards\<close> (\<open>auth/auth.guard.ts\<close>, the route metadata of all
      controllers): who gets in where.  \<open>Problem\<close> (\<open>common/problem*.ts\<close>).
    \<^item> \<open>Cursor\<close> (\<open>common/cursor.ts\<close>), \<open>Ownership\<close> (the contract of owned resources, a
      locale with the interpretations for orders and files), \<open>Orders\<close> (\<open>products\<close>, \<open>orders\<close>:
      service, event buffers, SSE, gateway): privacy of rooms, resumption of streams.
    \<^item> \<open>Events\<close> (\<open>messaging/events.ts\<close>), \<open>Checkout\<close> (\<open>checkout.ts\<close>, entities), \<open>Relay\<close>
      (\<open>outbox/relay.ts\<close>, \<open>messaging/publisher.ts\<close>), \<open>Inbox\<close> (\<open>messaging/consumer.ts\<close>,
      \<open>topology.ts\<close>), \<open>Pipeline\<close> (their composition): conservation of stock and money,
      all-or-nothing, one receipt per order end to end; \<open>OrdersApi\<close>
      (\<open>outbox/orders-api.ts\<close>): idempotent HTTP over checkout; \<open>JobQueue\<close>
      (\<open>queue-worker.ts\<close>, \<open>concurrency/lib.ts\<close>): each job once, retry as one attempt.
    \<^item> \<open>PartLimits\<close> (\<open>storage/limits.ts\<close>), \<open>Files\<close> (\<open>files/*.ts\<close>, \<open>storage/s3.ts\<close>):
      the intent, multipart plans, listing and resuming parts, the commit that checks
      the bytes; \<open>Edge\<close> (\<open>cdn/edge.ts\<close>, \<open>cdn/assets.ts\<close>).
    \<^item> \<open>RateLimit\<close>, \<open>Session\<close>, \<open>Cache\<close> (\<open>redis/*.ts\<close>): the Lua window against a plain
      specification, rolling sessions, the cache under outages and in any interleaving.
    \<^item> \<open>Env\<close> (\<open>config/env.schema.ts\<close> and the other readers of the environment), \<open>Seed\<close>
      (\<open>seed.ts\<close>), \<open>Reports\<close> (\<open>report.ts\<close>, \<open>redis/product-card.ts\<close>, the counting logger and
      the queries of \<open>demo-nplus1.ts\<close>), \<open>Jobs\<close> (\<open>redis/queue.ts\<close>, with BullMQ as a
      parameter), \<open>Topology\<close> (\<open>messaging/topology.ts\<close> and where a message goes under it).
    \<^item> \<open>Database\<close> (\<open>database/database.module.ts\<close>, \<open>data-source.ts\<close>): how the parts reach
      Postgres; \<open>App\<close> (\<open>main.ts\<close>): the start, and the way of a request from the body parser to
      the answer.
    \<^item> \<open>CheckoutProgress\<close> and \<open>Retry\<close>: what must succeed, and that retried transactions of
      any number of clients lose no update.

  \<^bold>\<open>The acceptance runs.\<close>  The \<open>demo-*.ts\<close> scripts check the parts in composition, each
  ending with an exit code.  Their mains are modelled over the same definitions, with
  the steps of concurrent work as an arbitrary interleaving or arbitrary draws, and the
  theorems say that they pass.
    \<^item> \<open>Runs\<close>: a run over a world, its checks and its exit code.  \<open>ShopDemos\<close>
      (\<open>demo-race.ts\<close>, \<open>demo-workers.ts\<close>) and \<open>DemoMains\<close> (the exit codes of
      \<open>demo-workers.ts\<close> and \<open>demo-retry.ts\<close>, and \<open>demo-nplus1.ts\<close>); \<open>BrokerWorld\<close> and \<open>BrokerDemos\<close>
      (\<open>messaging/demo-lib.ts\<close>, \<open>outbox/demo-lib.ts\<close>, the runs that crash, duplicate and
      dead-letter); \<open>AuthDemos\<close> (\<open>auth/demo-lib.ts\<close>, \<open>demo-auth.ts\<close>, \<open>demo-reuse.ts\<close>,
      \<open>demo-rbac.ts\<close>) and \<open>RealtimeDemo\<close> (\<open>scripts/realtime-demo.mjs\<close>) over the composed
      application; \<open>RedisDemos\<close> (\<open>demo-ratelimit.ts\<close>, \<open>demo-session.ts\<close>), \<open>CacheWaves\<close>
      and \<open>CacheDemo\<close> (\<open>demo-cache.ts\<close>: many callers of the cache in any order), \<open>QueueDemo\<close> (\<open>demo-queue.ts\<close>).
    \<^item> \<open>FileStore\<close>: the object store as a parameter, its documented laws, and the \<open>wipe\<close> of
      a bucket.  \<open>FileDemos\<close> (\<open>files/demo-lib.ts\<close>, \<open>demo-upload.ts\<close>), \<open>MultipartDemo\<close>
      (\<open>files/client-mpu.ts\<close> killed half way and resumed, \<open>demo-multipart.ts\<close>), \<open>CdnDemo\<close>
      (\<open>demo-cdn.ts\<close>).  \<open>MemStore\<close>: a concrete bucket that keeps the laws, on which the
      three theorems are applied.
    \<^item> \<open>E2E\<close> (\<open>test/e2e/orders.e2e-spec.ts\<close>): the four end-to-end tests of the orders over
      \<open>configureApp\<close>, the guards, the controller and the filter, with the two operations of
      \<open>openapi.yaml\<close> they call.
    \<^item> \<open>Scripts\<close> (\<open>scripts/check-env-example.mjs\<close>, \<open>scripts/check-spec.cjs\<close>): the two checks
      of the build on the texts they read.

  \<^bold>\<open>How state and operations correspond.\<close>  A service is a record of its state; an
  operation is a function from its arguments and the state to a result and the new
  state, with every exception a value of \<open>exn + 'a\<close>.  A database table is the list of
  its rows, a transaction works on a copy that is kept or dropped.  What the code
  draws from the outside (clocks, random values, third-party libraries, S3, the
  broker, Postgres' input functions) is an argument.  Where calls interleave at an
  \<open>await\<close> that matters, the operation is a machine whose states are those points
  (\<open>Cache.cache_step\<close>, \<open>RefreshRace.statement_at\<close>, \<open>Edge.edge_request\<close> and \<open>edge_answer\<close>, \<open>JobQueue.pool_step\<close>,
  \<open>Inbox.consumer_step\<close>, \<open>Pipeline\<close>), or the effect of the others is an argument of
  the operation (\<open>Files.commit\<close>, \<open>JobQueue.runWorker\<close>).  Integers are \<open>int\<close> where the
  code stays within 2^53, doubles are rationals with explicit rounding where it
  matters (prices, part sizes), sha1 works on \<open>8 word\<close>.

  \<^bold>\<open>Fuel and bounds.\<close>  Loops that poll take fuel and return \<open>None\<close> without it;
  the theorems give a sufficient amount: \<open>relayUntilEmpty\<close> one pass per pending row
  and one more, \<open>runWorker\<close> one round per job and one more, \<open>listAllParts\<close> one page per
  part and one more.  \<open>Cache.get\<close> needs no more than 6 + 2 waitMs steps, since a timer
  advances the clock by at least a millisecond; \<open>withRetry\<close> and \<open>uri_decode\<close> terminate by
  a measure.  The clients of \<open>Retry\<close> need at most 2n^2 moves that make progress; \<open>waitFor\<close>
  looks 402 times, a relay pass on what a killed one left takes the rows that remain
  (\<open>relay_rest\<close>), \<open>wipe\<close> more rounds than the prefixes hold objects and the listing of
  parts more than there are parts.  The scanners of \<open>Scripts\<close> terminate by the length of
  the text.

  \<^bold>\<open>Not modelled.\<close>  The Nest modules (lists of controllers and providers for dependency
  injection) and the options of clients and pools beyond the addresses, the DDL
  of the migrations beyond the constraints the operations run into, the tests with Pact and
  those of the ORM against a container.  Printing, the passing of time inside a run and child
  processes.  What the relation-loading strategies of the ORM send is an argument.  Human-readable texts are left out or named; Cyrillic data is
  given by ASCII stand-ins.
\<close>

end
